(* ===== verification/Prelude.thy ===== *)
theory Prelude
  imports Complex_Main "HOL-Library.AList" "HOL-Library.Monad_Syntax"
begin

text \<open>
  Shared vocabulary of the ARALD development: the JavaScript values the TypeScript sources compute
  with, the insertion-ordered \<open>Map\<close> every store of \<open>node/src\<close> is built on, and the generic lemmas
  the component theories rely on.

  \<^item> \<open>jsnum\<close> is a JavaScript number: an exact rational, an infinity or \<open>NaN\<close>. Comparisons are
    those of the language (every comparison with \<open>NaN\<close> is false). Rounding of double arithmetic is
    the one thing left out; the sources only add small integers to millisecond counts and hop counts.
  \<^item> \<open>jsval\<close> is a value of TypeScript type \<open>unknown\<close>, as \<open>JSON.parse\<close> returns it.
  \<^item> A JavaScript string is a \<open>string\<close>, one \<open>char\<close> per code unit; the sources measure lengths,
    compare strings and test single characters, never anything finer.
  \<^item> A JavaScript \<open>Map\<close> is an association list in insertion order: \<open>set\<close> on a known key keeps its
    place, a new key goes to the end.
  \<^item> Time is a rational number of milliseconds, passed in as \<open>now\<close> wherever the code calls
    \<open>Date.now()\<close>.
\<close>

named_theorems js_num "comparison of JavaScript numbers"
named_theorems js_map "insertion-ordered maps"
named_theorems js_val "shape tests on untyped values"

section \<open>Numbers\<close>

datatype jsnum = Num rat | PosInf | NegInf | NaN

type_synonym time = rat

fun num_lt :: "jsnum \<Rightarrow> jsnum \<Rightarrow> bool" where
  "num_lt (Num a) (Num b) = (a < b)"
| "num_lt (Num a) PosInf = True"
| "num_lt NegInf (Num b) = True"
| "num_lt NegInf PosInf = True"
| "num_lt x y = False"

definition num_le :: "jsnum \<Rightarrow> jsnum \<Rightarrow> bool" where
  "num_le x y \<longleftrightarrow> num_lt x y \<or> (x = y \<and> x \<noteq> NaN)"

fun num_finite :: "jsnum \<Rightarrow> bool" where
  "num_finite (Num a) = True"
| "num_finite x = False"

fun num_add :: "jsnum \<Rightarrow> rat \<Rightarrow> jsnum" where
  "num_add (Num a) b = Num (a + b)"
| "num_add x b = x"

lemma num_lt_Num [simp, js_num]: "num_le (Num a) (Num b) = (a \<le> b)"
  by (auto simp: num_le_def)

lemma num_le_inf [simp, js_num]:
  "num_le (Num a) PosInf" "\<not> num_le PosInf (Num a)" "num_le NegInf (Num a)" "\<not> num_le (Num a) NegInf"
  "\<not> num_le NaN x" "\<not> num_le x NaN" "num_le PosInf PosInf" "num_le NegInf PosInf"
  by (auto simp: num_le_def; cases x; simp)+

lemma num_lt_irrefl [simp]: "\<not> num_lt x x"
  by (cases x) auto

lemma num_lt_trans [js_num]: "num_lt x y \<Longrightarrow> num_lt y z \<Longrightarrow> num_lt x z"
  by (cases x; cases y; cases z) auto

lemma num_lt_asym [js_num]: "num_lt x y \<Longrightarrow> \<not> num_lt y x"
  using num_lt_trans num_lt_irrefl by blast

lemma num_lt_NaN [simp]: "\<not> num_lt NaN x" "\<not> num_lt x NaN"
  by (cases x; simp)+

lemma num_lt_PosInf [simp]: "num_lt (Num a) PosInf" "\<not> num_lt PosInf x"
  by (cases x; simp)+

section \<open>Untyped values\<close>

datatype jsval =
    JUndefined
  | JNull
  | JBool bool
  | JNumber jsnum
  | JString string
  | JArray "jsval list"
  | JObject "(string \<times> jsval) list"

text \<open>\<open>!v || typeof v !== "object"\<close> rejects a value unless it is an object or an array.\<close>

fun is_object :: "jsval \<Rightarrow> bool" where
  "is_object (JObject fs) = True"
| "is_object (JArray vs) = True"
| "is_object v = False"

text \<open>Property access; a missing property, and any named property of an array, is \<open>undefined\<close>.\<close>

fun jfield :: "jsval \<Rightarrow> string \<Rightarrow> jsval" where
  "jfield (JObject fs) k = (case map_of fs k of Some v \<Rightarrow> v | None \<Rightarrow> JUndefined)"
| "jfield v k = JUndefined"

fun as_string :: "jsval \<Rightarrow> string option" where
  "as_string (JString s) = Some s"
| "as_string v = None"

fun as_bool :: "jsval \<Rightarrow> bool option" where
  "as_bool (JBool b) = Some b"
| "as_bool v = None"

text \<open>\<open>typeof v === "number" && Number.isFinite(v)\<close>\<close>

fun as_finite :: "jsval \<Rightarrow> rat option" where
  "as_finite (JNumber (Num r)) = Some r"
| "as_finite v = None"

text \<open>A finite number in a closed range, an optional property and a length-bounded string: the three
  shape tests that the payload extractors of the sources repeat field by field.\<close>

definition finite_in :: "rat \<Rightarrow> rat \<Rightarrow> jsval \<Rightarrow> rat option" where
  "finite_in lo hi v = (case as_finite v of Some r \<Rightarrow> if r < lo \<or> r > hi then None else Some r | None \<Rightarrow> None)"

definition bounded_string :: "nat \<Rightarrow> jsval \<Rightarrow> string option" where
  "bounded_string n v = (case as_string v of
     Some s \<Rightarrow> if length s = 0 \<or> length s > n then None else Some s | None \<Rightarrow> None)"

definition optional :: "(jsval \<Rightarrow> 'a option) \<Rightarrow> jsval \<Rightarrow> 'a option option" where
  "optional f v = (if v = JUndefined then Some None
     else case f v of Some x \<Rightarrow> Some (Some x) | None \<Rightarrow> None)"

lemma finite_in_Some [js_val]: "finite_in lo hi v = Some r \<longleftrightarrow> v = JNumber (Num r) \<and> lo \<le> r \<and> r \<le> hi"
  by (cases v rule: as_finite.cases) (auto simp: finite_in_def)

lemma bounded_string_Some [js_val]:
  "bounded_string n v = Some s \<longleftrightarrow> v = JString s \<and> s \<noteq> [] \<and> length s \<le> n"
  by (cases v) (auto simp: bounded_string_def)

lemma as_finite_Some [js_val]: "as_finite v = Some r \<longleftrightarrow> v = JNumber (Num r)"
  by (cases v rule: as_finite.cases) auto

lemma as_string_Some [js_val]: "as_string v = Some s \<longleftrightarrow> v = JString s"
  by (cases v) auto

lemma as_bool_Some [js_val]: "as_bool v = Some b \<longleftrightarrow> v = JBool b"
  by (cases v) auto

lemma optional_Some [js_val]:
  "optional f v = Some x \<longleftrightarrow> (v = JUndefined \<and> x = None) \<or> (v \<noteq> JUndefined \<and> (\<exists>y. f v = Some y \<and> x = Some y))"
  by (auto simp: optional_def split: option.splits)

text \<open>A guard \<open>if (!b) return undefined\<close> in the middle of an extractor, which is a chain of binds of the
  option monad.\<close>

definition require :: "bool \<Rightarrow> unit option" where
  "require b = (if b then Some () else None)"

lemma require_Some [simp, js_val]: "require b = Some u \<longleftrightarrow> b"
  by (simp add: require_def)

lemmas extractor_Some = bind_eq_Some_conv js_val

section \<open>Insertion-ordered maps\<close>

type_synonym ('k, 'v) jsmap = "('k \<times> 'v) list"

abbreviation map_put :: "'k \<Rightarrow> 'v \<Rightarrow> ('k, 'v) jsmap \<Rightarrow> ('k, 'v) jsmap" where
  "map_put \<equiv> AList.update"

abbreviation map_del :: "'k \<Rightarrow> ('k, 'v) jsmap \<Rightarrow> ('k, 'v) jsmap" where
  "map_del \<equiv> AList.delete"

abbreviation map_wf :: "('k, 'v) jsmap \<Rightarrow> bool" where
  "map_wf m \<equiv> distinct (map fst m)"

lemma map_put_get [simp, js_map]: "map_of (map_put k v m) k' = (if k' = k then Some v else map_of m k')"
  by (simp add: update_conv')

lemma map_del_get [simp, js_map]: "map_of (map_del k m) k' = (if k' = k then None else map_of m k')"
  by (simp add: delete_conv')

lemma map_wf_put [simp, js_map]: "map_wf m \<Longrightarrow> map_wf (map_put k v m)"
  by (rule distinct_update)

lemma map_wf_del [simp, js_map]: "map_wf m \<Longrightarrow> map_wf (map_del k m)"
  by (rule distinct_delete)

lemma map_put_new: "map_of m k = None \<Longrightarrow> map_put k v m = m @ [(k, v)]"
  by (induction m) (auto split: if_splits)

lemma map_put_length_new: "map_of m k = None \<Longrightarrow> length (map_put k v m) = Suc (length m)"
  by (simp add: map_put_new)

lemma map_put_length_old: "map_of m k \<noteq> None \<Longrightarrow> length (map_put k v m) = length m"
  by (induction m) (auto split: if_splits)

lemma map_put_keys_old: "map_of m k \<noteq> None \<Longrightarrow> map fst (map_put k v m) = map fst m"
  by (induction m) (auto split: if_splits)

lemma map_del_filter: "map_del k m = filter (\<lambda>(k', _). k' \<noteq> k) m"
  by (auto simp: AList.delete_eq intro!: filter_cong)

lemma map_del_length_le: "length (map_del k m) \<le> length m"
  by (rule length_delete_le)

lemma map_del_length: "map_wf m \<Longrightarrow> map_of m k \<noteq> None \<Longrightarrow> Suc (length (map_del k m)) = length m"
proof (induction m)
  case Nil
  then show ?case by simp
next
  case (Cons a m)
  show ?case
  proof (cases "fst a = k")
    case True
    with Cons.prems have "k \<notin> fst ` set m" by auto
    with True show ?thesis by (simp add: delete_notin_dom)
  next
    case False
    with Cons show ?thesis by (auto split: if_splits)
  qed
qed

lemma map_wf_filter [simp]: "map_wf m \<Longrightarrow> map_wf (filter P m)"
  by (induction m) auto

lemma map_of_filter_wf:
  assumes "map_wf m"
  shows "map_of (filter (\<lambda>(k, v). P k v) m) k = (case map_of m k of Some v \<Rightarrow> if P k v then Some v else None | None \<Rightarrow> None)"
  using assms
proof (induction m)
  case Nil
  then show ?case by simp
next
  case (Cons a m)
  obtain ka va where a: "a = (ka, va)" by (cases a)
  have none: "ka = k \<Longrightarrow> map_of m k = None"
    using Cons.prems a by (auto simp: map_of_eq_None_iff)
  show ?case using Cons none a by auto
qed

lemma map_of_in_set: "map_of m k = Some v \<Longrightarrow> (k, v) \<in> set m"
  by (rule map_of_SomeD)

lemma map_of_key: "(k, v) \<in> set m \<Longrightarrow> map_of m k \<noteq> None"
  by (auto dest: weak_map_of_SomeI)

lemma map_of_set_wf: "map_wf m \<Longrightarrow> map_of m k = Some v \<longleftrightarrow> (k, v) \<in> set m"
  by (rule map_of_eq_Some_iff)

section \<open>Runs of a step function\<close>

text \<open>A store that is driven by a sequence of operations: an invariant of one operation holds after
  every sequence of them. Each component that has an operation type interprets this interface.\<close>

locale step_invariant =
  fixes step :: "'s \<Rightarrow> 'e \<Rightarrow> 's"
    and inv :: "'s \<Rightarrow> bool"
  assumes step_inv: "inv s \<Longrightarrow> inv (step s e)"
begin

lemma run_inv: "inv s \<Longrightarrow> inv (foldl step s es)"
  by (induction es arbitrary: s) (auto intro: step_inv)

lemma run_prefix_inv: "inv s \<Longrightarrow> inv (foldl step s (take n es))"
  by (rule run_inv)

end

end
