(* ===== verification/BoundedMap.thy ===== *)
theory BoundedMap
  imports Prelude
begin

text \<open>
  \<open>node/src/bounded-map.ts\<close>: the size-limited insertion-ordered map behind every store of the node
  that is fed from the network, and \<open>pushBounded\<close>, the length-limited message list. The optional
  eviction score is a closure over live state (the trust table) in the code, so it is an argument of
  the operations here. The interface \<open>bounded_store\<close> is what the stores rely on; the map is its
  provider.
\<close>

section \<open>The map\<close>

record ('k, 'v) bounded_map =
  bm_map :: "('k, 'v) jsmap"
  bm_max :: jsnum

type_synonym ('k, 'v) score = "('k \<Rightarrow> 'v \<Rightarrow> jsnum) option"

definition bm_new :: "jsnum option \<Rightarrow> ('k, 'v) bounded_map" where
  "bm_new maxSize = \<lparr>bm_map = [], bm_max = (case maxSize of Some n \<Rightarrow> n | None \<Rightarrow> PosInf)\<rparr>"

definition bm_get :: "('k, 'v) bounded_map \<Rightarrow> 'k \<Rightarrow> 'v option" where
  "bm_get m k = map_of (bm_map m) k"

definition bm_has :: "('k, 'v) bounded_map \<Rightarrow> 'k \<Rightarrow> bool" where
  "bm_has m k \<longleftrightarrow> map_of (bm_map m) k \<noteq> None"

definition bm_delete :: "'k \<Rightarrow> ('k, 'v) bounded_map \<Rightarrow> ('k, 'v) bounded_map" where
  "bm_delete k m = m\<lparr>bm_map := map_del k (bm_map m)\<rparr>"

definition bm_size :: "('k, 'v) bounded_map \<Rightarrow> nat" where
  "bm_size m = length (bm_map m)"

definition bm_keys :: "('k, 'v) bounded_map \<Rightarrow> 'k list" where
  "bm_keys m = map fst (bm_map m)"

definition bm_values :: "('k, 'v) bounded_map \<Rightarrow> 'v list" where
  "bm_values m = map snd (bm_map m)"

fun first_key :: "('k, 'v) jsmap \<Rightarrow> 'k option" where
  "first_key [] = None"
| "first_key ((k, v) # m) = Some k"

text \<open>The loop of \<open>pickEvictionCandidate\<close>, with \<open>bestKey\<close> and \<open>bestScore\<close> as its state.\<close>

fun scan_victim :: "('k \<Rightarrow> 'v \<Rightarrow> jsnum) \<Rightarrow> ('k, 'v) jsmap \<Rightarrow> 'k option \<Rightarrow> jsnum \<Rightarrow> 'k option" where
  "scan_victim f [] bestKey bestScore = bestKey"
| "scan_victim f ((k, v) # m) bestKey bestScore =
     (let score = f k v in
      if num_lt score bestScore then scan_victim f m (Some k) score
      else scan_victim f m bestKey bestScore)"

definition pick_victim :: "('k, 'v) score \<Rightarrow> ('k, 'v) jsmap \<Rightarrow> 'k option" where
  "pick_victim sc m = (case sc of
     None \<Rightarrow> first_key m
   | Some f \<Rightarrow> (case scan_victim f m None PosInf of Some k \<Rightarrow> Some k | None \<Rightarrow> first_key m))"

text \<open>\<open>set\<close>: the new map and the evicted key, if any.\<close>

definition bm_set :: "('k, 'v) score \<Rightarrow> 'k \<Rightarrow> 'v \<Rightarrow> ('k, 'v) bounded_map \<Rightarrow> ('k, 'v) bounded_map \<times> 'k option" where
  "bm_set sc k v m =
     (if num_le (bm_max m) (Num 0) then (m, Some k)
      else
        let evicted = (if \<not> bm_has m k \<and> num_le (bm_max m) (Num (of_nat (bm_size m)))
                       then pick_victim sc (bm_map m) else None);
            kept = (case evicted of Some vk \<Rightarrow> map_del vk (bm_map m) | None \<Rightarrow> bm_map m)
        in (m\<lparr>bm_map := map_put k v kept\<rparr>, evicted))"

abbreviation bm_put :: "('k, 'v) score \<Rightarrow> 'k \<Rightarrow> 'v \<Rightarrow> ('k, 'v) bounded_map \<Rightarrow> ('k, 'v) bounded_map" where
  "bm_put sc k v m \<equiv> fst (bm_set sc k v m)"

text \<open>Changing a stored object through the reference the map holds: no \<open>set\<close>, hence no eviction.\<close>

definition bm_write :: "'k \<Rightarrow> 'v \<Rightarrow> ('k, 'v) bounded_map \<Rightarrow> ('k, 'v) bounded_map" where
  "bm_write k v m = m\<lparr>bm_map := map_put k v (bm_map m)\<rparr>"

section \<open>The victim\<close>

lemma first_key_None [simp]: "first_key m = None \<longleftrightarrow> m = []"
  by (cases m rule: first_key.cases) auto

lemma first_key_in: "first_key m = Some k \<Longrightarrow> k \<in> fst ` set m"
  by (cases m rule: first_key.cases) auto

lemma scan_victim_in: "scan_victim f m bk bs = Some k \<Longrightarrow> k \<in> fst ` set m \<or> bk = Some k"
  by (induction f m bk bs rule: scan_victim.induct) (auto simp: Let_def split: if_splits)

lemma scan_victim_None: "scan_victim f m bk bs = None \<Longrightarrow> bk = None"
  by (induction f m bk bs rule: scan_victim.induct) (auto simp: Let_def split: if_splits)

text \<open>The scan returns the first entry of least score: nothing scores strictly less, and everything
  before it scores strictly more (or is not comparable).\<close>

lemma scan_victim_spec:
  assumes "scan_victim f m bk bs = r"
  shows "(r = bk \<and> (\<forall>(k, v) \<in> set m. \<not> num_lt (f k v) bs)) \<or>
         (\<exists>xs k v ys. m = xs @ (k, v) # ys \<and> r = Some k \<and> num_lt (f k v) bs \<and>
            (\<forall>(k', v') \<in> set m. \<not> num_lt (f k' v') (f k v)) \<and>
            (\<forall>(k', v') \<in> set xs. f k' v' \<noteq> f k v))"
  using assms
proof (induction f m bk bs rule: scan_victim.induct)
  case (1 f bk bs)
  then show ?case by simp
next
  case (2 f k v m bk bs)
  show ?case
  proof (cases "num_lt (f k v) bs")
    case True
    with "2.prems" have r: "scan_victim f m (Some k) (f k v) = r" by simp
    from "2.IH"(1)[OF refl True r] show ?thesis
    proof (elim disjE exE conjE)
      assume "r = Some k" and "\<forall>(k', v') \<in> set m. \<not> num_lt (f k' v') (f k v)"
      then show ?thesis
        by (intro disjI2 exI[of _ "[]"] exI[of _ k] exI[of _ v] exI[of _ m]) (use True in auto)
    next
      fix xs ka va ys
      assume m: "m = xs @ (ka, va) # ys" and rk: "r = Some ka" and lt: "num_lt (f ka va) (f k v)"
        and least: "\<forall>(k', v') \<in> set m. \<not> num_lt (f k' v') (f ka va)"
        and before: "\<forall>(k', v') \<in> set xs. f k' v' \<noteq> f ka va"
      have "num_lt (f ka va) bs" using num_lt_trans[OF lt True] .
      moreover have "\<not> num_lt (f k v) (f ka va)" using num_lt_asym[OF lt] .
      moreover have "f k v \<noteq> f ka va" using lt by auto
      ultimately show ?thesis using m rk least before
        by (intro disjI2 exI[of _ "(k, v) # xs"] exI[of _ ka] exI[of _ va] exI[of _ ys]) auto
    qed
  next
    case False
    with "2.prems" have r: "scan_victim f m bk bs = r" by simp
    from "2.IH"(2)[OF refl False r] show ?thesis
    proof (elim disjE exE conjE)
      assume "r = bk" and "\<forall>(k', v') \<in> set m. \<not> num_lt (f k' v') bs"
      with False show ?thesis by auto
    next
      fix xs ka va ys
      assume m: "m = xs @ (ka, va) # ys" and rk: "r = Some ka" and lt: "num_lt (f ka va) bs"
        and least: "\<forall>(k', v') \<in> set m. \<not> num_lt (f k' v') (f ka va)"
        and before: "\<forall>(k', v') \<in> set xs. f k' v' \<noteq> f ka va"
      have "\<not> num_lt (f k v) (f ka va)" using False lt num_lt_trans by blast
      moreover have "f k v \<noteq> f ka va" using lt False by auto
      ultimately show ?thesis using m rk lt least before
        by (intro disjI2 exI[of _ "(k, v) # xs"] exI[of _ ka] exI[of _ va] exI[of _ ys]) auto
    qed
  qed
qed

lemma pick_victim_in: "pick_victim sc m = Some k \<Longrightarrow> k \<in> fst ` set m"
  by (auto simp: pick_victim_def split: option.splits dest: first_key_in scan_victim_in)

lemma pick_victim_None [simp]: "pick_victim sc m = None \<longleftrightarrow> m = []"
  by (auto simp: pick_victim_def split: option.splits)

text \<open>No entry with a finite score lies strictly below the victim.\<close>

lemma pick_victim_least:
  assumes "pick_victim (Some f) m = Some k" and "map_wf m" and "map_of m k = Some v"
    and "(k', v') \<in> set m" and "f k' v' = Num a"
  shows "\<not> num_lt (f k' v') (f k v)"
proof (cases "scan_victim f m None PosInf")
  case None
  from scan_victim_spec[OF None] assms(4,5) show ?thesis by auto
next
  case (Some kk)
  with assms(1) have kk: "kk = k" by (simp add: pick_victim_def)
  from scan_victim_spec[OF Some] obtain xs va ys where
    m: "m = xs @ (k, va) # ys" and least: "\<forall>(k', v') \<in> set m. \<not> num_lt (f k' v') (f k va)"
    using kk by auto
  have "(k, va) \<in> set m" using m by simp
  then have "map_of m k = Some va" using assms(2) by (rule map_of_is_SomeI[rotated])
  with assms(3) have "va = v" by simp
  with least assms(4) show ?thesis by auto
qed

section \<open>The size bound and what survives\<close>

text \<open>How many entries a limit allows: a fractional limit rounds up, a limit of zero or less allows
  none, \<open>Infinity\<close> and \<open>NaN\<close> allow any number.\<close>

fun within_limit :: "nat \<Rightarrow> jsnum \<Rightarrow> bool" where
  "within_limit n (Num c) = (n = 0 \<or> of_nat n < c + 1)"
| "within_limit n NegInf = (n = 0)"
| "within_limit n PosInf = True"
| "within_limit n NaN = True"

lemma within_limit_nat: "within_limit n (Num (of_nat c)) \<longleftrightarrow> n \<le> c"
proof -
  have "(of_nat n < (of_nat c + 1 :: rat)) = (n < Suc c)"
    by (metis of_nat_Suc of_nat_less_iff add.commute)
  then show ?thesis by auto
qed

lemma within_limit_mono: "within_limit n l \<Longrightarrow> n' \<le> n \<Longrightarrow> within_limit n' l"
proof (cases l)
  case (Num c)
  assume "within_limit n l" and "n' \<le> n"
  moreover have "n' \<le> n \<Longrightarrow> of_nat n' \<le> (of_nat n :: rat)" by simp
  ultimately show ?thesis using Num by (fastforce simp del: of_nat_le_iff)
qed auto

definition bm_ok :: "('k, 'v) bounded_map \<Rightarrow> bool" where
  "bm_ok m \<longleftrightarrow> map_wf (bm_map m) \<and> within_limit (bm_size m) (bm_max m)"

lemma bm_new_ok [simp]: "bm_ok (bm_new n)"
  by (cases "case n of Some n \<Rightarrow> n | None \<Rightarrow> PosInf") (auto simp: bm_ok_def bm_new_def bm_size_def)

lemma bm_new_get [simp]: "bm_get (bm_new n) k = None"
  by (simp add: bm_get_def bm_new_def)

lemma bm_max_set [simp]: "bm_max (bm_put sc k v m) = bm_max m"
  by (simp add: bm_set_def Let_def)

lemma bm_max_delete [simp]: "bm_max (bm_delete k m) = bm_max m"
  by (simp add: bm_delete_def)

lemma bm_get_delete [simp]: "bm_get (bm_delete k m) k' = (if k' = k then None else bm_get m k')"
  by (simp add: bm_get_def bm_delete_def)

lemma bm_has_get: "bm_has m k \<longleftrightarrow> bm_get m k \<noteq> None"
  by (simp add: bm_has_def bm_get_def)

lemma bm_get_in: "bm_ok m \<Longrightarrow> bm_get m k = Some v \<longleftrightarrow> (k, v) \<in> set (bm_map m)"
  by (simp add: bm_get_def bm_ok_def map_of_set_wf)

lemma bm_delete_ok [intro]: "bm_ok m \<Longrightarrow> bm_ok (bm_delete k m)"
  using map_del_length_le[of k "bm_map m"]
  by (auto simp: bm_ok_def bm_delete_def bm_size_def intro: within_limit_mono)

lemma within_limit_room: "\<not> num_le l (Num (of_nat n)) \<Longrightarrow> within_limit (Suc n) l"
  by (cases l) auto

lemma within_limit_one: "\<not> num_le l (Num 0) \<Longrightarrow> within_limit (Suc 0) l"
  by (cases l) auto

lemma bm_set_ok [intro]: "bm_ok m \<Longrightarrow> bm_ok (bm_put sc k v m)"
proof -
  assume ok: "bm_ok m"
  let ?m = "bm_map m"
  from ok have wf: "map_wf ?m" and lim: "within_limit (length ?m) (bm_max m)"
    by (simp_all add: bm_ok_def bm_size_def)
  show ?thesis
  proof (cases "num_le (bm_max m) (Num 0)")
    case True
    with ok show ?thesis by (simp add: bm_set_def)
  next
    case pos: False
    show ?thesis
    proof (cases "bm_has m k")
      case True
      then have "length (map_put k v ?m) = length ?m"
        by (auto simp: bm_has_def intro: map_put_length_old)
      with wf lim pos True show ?thesis
        by (auto simp: bm_set_def bm_ok_def bm_size_def Let_def)
    next
      case new: False
      then have none: "map_of ?m k = None" by (simp add: bm_has_def)
      show ?thesis
      proof (cases "num_le (bm_max m) (Num (of_nat (length ?m)))")
        case room: False
        from within_limit_room[OF room] have "within_limit (length (map_put k v ?m)) (bm_max m)"
          by (simp add: map_put_length_new none)
        with wf pos new room show ?thesis
          by (auto simp: bm_set_def bm_ok_def bm_size_def Let_def)
      next
        case full: True
        show ?thesis
        proof (cases "pick_victim sc ?m")
          case None
          then have "?m = []" by simp
          with pos new full within_limit_one[OF pos] show ?thesis
            by (auto simp: bm_set_def bm_ok_def bm_size_def Let_def pick_victim_def split: option.splits)
        next
          case (Some vk)
          have vin: "map_of ?m vk \<noteq> None"
            using pick_victim_in[OF Some] by (simp add: map_of_eq_None_iff)
          then have "vk \<noteq> k" using none by auto
          then have "map_of (map_del vk ?m) k = None" using none by simp
          then have "length (map_put k v (map_del vk ?m)) = length ?m"
            using map_del_length[OF wf vin] by (simp add: map_put_length_new)
          with wf lim pos new full Some show ?thesis
            by (auto simp: bm_set_def bm_ok_def bm_size_def Let_def)
        qed
      qed
    qed
  qed
qed

lemma bm_set_get_same: "\<not> num_le (bm_max m) (Num 0) \<Longrightarrow> bm_get (bm_put sc k v m) k = Some v"
  by (simp add: bm_set_def bm_get_def Let_def)

text \<open>Frame: a \<open>set\<close> invents nothing, and drops at most the evicted key.\<close>

lemma bm_set_get_other:
  assumes "k' \<noteq> k"
  shows "bm_get (bm_put sc k v m) k' =
    (if snd (bm_set sc k v m) = Some k' then None else bm_get m k')"
  using assms by (auto simp: bm_set_def bm_get_def Let_def split: option.splits)

lemma bm_set_frame:
  assumes "bm_get (bm_put sc k v m) k' = Some w"
  shows "(k' = k \<and> w = v) \<or> bm_get m k' = Some w"
  using assms by (cases "k' = k")
    (auto simp: bm_set_get_other bm_set_def bm_get_def Let_def split: if_splits option.splits)

lemma bm_set_known:
  assumes "bm_has m k" and "\<not> num_le (bm_max m) (Num 0)"
  shows "bm_get (bm_put sc k v m) k' = (if k' = k then Some v else bm_get m k')"
  using assms by (auto simp: bm_set_def bm_get_def Let_def)

lemma bm_set_room:
  assumes "\<not> num_le (bm_max m) (Num (of_nat (bm_size m)))" and "\<not> num_le (bm_max m) (Num 0)"
  shows "bm_get (bm_put sc k v m) k' = (if k' = k then Some v else bm_get m k')"
  using assms by (auto simp: bm_set_def bm_get_def Let_def)

text \<open>A map whose keys all come from a set that fits it evicts nothing.\<close>

lemma bm_set_fits:
  assumes ok: "bm_ok m" and n: "bm_max m = Num (of_nat n)" "0 < n" and K: "finite K" "card K \<le> n" "\<And>x. bm_get m x \<noteq> None \<Longrightarrow> x \<in> K" "k \<in> K"
  shows "bm_get (bm_put sc k v m) k' = (if k' = k then Some v else bm_get m k')"
proof -
  have pos: "\<not> num_le (bm_max m) (Num 0)" using n by simp
  show ?thesis
  proof (cases "bm_has m k")
    case False
    have keys: "set (map fst (bm_map m)) \<subseteq> K - {k}"
    proof
      fix x assume "x \<in> set (map fst (bm_map m))"
      then have "bm_get m x \<noteq> None" by (simp add: bm_get_def map_of_eq_None_iff)
      moreover from this False have "x \<noteq> k" by (auto simp: bm_has_get)
      ultimately show "x \<in> K - {k}" using K(3) by simp
    qed
    have "bm_size m = card (set (map fst (bm_map m)))" using ok distinct_card[of "map fst (bm_map m)"] by (simp add: bm_ok_def bm_size_def)
    also have "\<dots> \<le> card (K - {k})" by (rule card_mono[OF _ keys]) (simp add: K(1))
    also have "\<dots> < n" using K by (metis card_Diff1_less less_le_trans)
    finally show ?thesis using n by (intro bm_set_room) (simp_all add: pos)
  qed (rule bm_set_known[OF _ pos])
qed

lemma bm_set_evicts_in: "snd (bm_set sc k v m) = Some k' \<Longrightarrow> k' = k \<or> bm_has m k'"
  by (auto simp: bm_set_def bm_has_def Let_def map_of_eq_None_iff split: if_splits dest!: pick_victim_in)

text \<open>An entry that some stored entry scores strictly below is never the one evicted.\<close>

lemma bm_set_survives:
  assumes ok: "bm_ok m" and k': "k' \<noteq> k" and g: "bm_get m k' = Some v'"
    and g2: "bm_get m k2 = Some v2" and s: "f k2 v2 = Num a" and lt: "num_lt (f k2 v2) (f k' v')"
  shows "bm_get (bm_put (Some f) k v m) k' = Some v'"
proof (cases "snd (bm_set (Some f) k v m) = Some k'")
  case False
  with k' g show ?thesis by (simp add: bm_set_get_other)
next
  case True
  from ok have wf: "map_wf (bm_map m)" by (simp add: bm_ok_def)
  from True k' have "pick_victim (Some f) (bm_map m) = Some k'"
    by (auto simp: bm_set_def Let_def split: if_splits)
  from pick_victim_least[OF this wf _ _ s] g g2 have "\<not> num_lt (f k2 v2) (f k' v')"
    by (auto simp: bm_get_def dest: map_of_in_set)
  with lt show ?thesis by simp
qed

lemma bm_write_get [simp]: "bm_get (bm_write k v m) k' = (if k' = k then Some v else bm_get m k')"
  by (simp add: bm_write_def bm_get_def)

lemma bm_write_ok: "bm_ok m \<Longrightarrow> bm_get m k \<noteq> None \<Longrightarrow> bm_ok (bm_write k v m)"
  by (auto simp: bm_write_def bm_ok_def bm_size_def bm_get_def map_put_length_old)

text \<open>An invariant of the entries: it holds of every entry that is stored, and is kept by a \<open>set\<close> of an
  entry that has it, a write through a reference, a deletion and a filter.\<close>

definition bm_all :: "('k \<Rightarrow> 'v \<Rightarrow> bool) \<Rightarrow> ('k, 'v) bounded_map \<Rightarrow> bool" where
  "bm_all P m \<longleftrightarrow> bm_ok m \<and> (\<forall>k v. bm_get m k = Some v \<longrightarrow> P k v)"

lemma bm_all_ok: "bm_all P m \<Longrightarrow> bm_ok m"
  by (simp add: bm_all_def)

lemma bm_all_get: "bm_all P m \<Longrightarrow> bm_get m k = Some v \<Longrightarrow> P k v"
  by (simp add: bm_all_def)

lemma bm_all_new [simp]: "bm_all P (bm_new n)"
  by (simp add: bm_all_def)

lemma bm_all_put: "bm_all P m \<Longrightarrow> P k v \<Longrightarrow> bm_all P (bm_put sc k v m)"
  by (auto simp: bm_all_def dest!: bm_set_frame)

lemma bm_all_write: "bm_all P m \<Longrightarrow> P k v \<Longrightarrow> bm_get m k \<noteq> None \<Longrightarrow> bm_all P (bm_write k v m)"
  by (auto simp: bm_all_def bm_write_ok)

lemma bm_all_delete: "bm_all P m \<Longrightarrow> bm_all P (bm_delete k m)"
  by (auto simp: bm_all_def)

definition bm_filter :: "('k \<Rightarrow> 'v \<Rightarrow> bool) \<Rightarrow> ('k, 'v) bounded_map \<Rightarrow> ('k, 'v) bounded_map" where
  "bm_filter P m = m\<lparr>bm_map := filter (\<lambda>(k, v). P k v) (bm_map m)\<rparr>"

lemma bm_filter_get: "bm_ok m \<Longrightarrow> bm_get (bm_filter Q m) k =
    (case bm_get m k of Some v \<Rightarrow> if Q k v then Some v else None | None \<Rightarrow> None)"
  by (simp add: bm_filter_def bm_get_def bm_ok_def map_of_filter_wf)

lemma bm_filter_ok: "bm_ok m \<Longrightarrow> bm_ok (bm_filter Q m)"
  using length_filter_le[of "\<lambda>(k, v). Q k v" "bm_map m"]
  by (auto simp: bm_ok_def bm_filter_def bm_size_def intro: within_limit_mono)

lemma bm_all_filter: "bm_all P m \<Longrightarrow> bm_all P (bm_filter Q m)"
  by (auto simp: bm_all_def bm_filter_ok bm_filter_get split: option.splits if_splits)

lemma bm_all_values: "bm_all P m \<Longrightarrow> v \<in> set (bm_values m) \<Longrightarrow> \<exists>k. P k v \<and> bm_get m k = Some v"
proof -
  assume ok: "bm_all P m" and "v \<in> set (bm_values m)"
  then obtain k where "(k, v) \<in> set (bm_map m)" by (auto simp: bm_values_def)
  with ok have "bm_get m k = Some v" by (simp add: bm_all_def bm_get_in)
  with ok show ?thesis by (auto simp: bm_all_def)
qed

lemmas bm_all_intros = bm_all_new bm_all_put bm_all_write bm_all_delete bm_all_filter

section \<open>The interface of a bounded store\<close>

text \<open>What the stores of the node rely on, with the two update disciplines they build on it: the
  first record of a key wins (\<open>record_once\<close>), or a record replaces the known one when a
  comparison lets it (\<open>record_if\<close>).\<close>

locale bounded_store =
  fixes lookup :: "'m \<Rightarrow> 'k \<Rightarrow> 'v option"
    and put :: "'k \<Rightarrow> 'v \<Rightarrow> 'm \<Rightarrow> 'm"
    and ok :: "'m \<Rightarrow> bool"
  assumes put_ok: "ok m \<Longrightarrow> ok (put k v m)"
    and put_frame: "lookup (put k v m) k' = Some w \<Longrightarrow> (k' = k \<and> w = v) \<or> lookup m k' = Some w"
begin

lemma record_once_ok: "ok m \<Longrightarrow> ok (if lookup m k \<noteq> None then m else put k v m)"
  by (simp add: put_ok)

text \<open>A known binding never changes its value under \<open>record_once\<close>: it stays or it is evicted.\<close>

lemma record_once_stable:
  assumes "lookup m k' = Some w"
    and "lookup (if lookup m k \<noteq> None then m else put k v m) k' = Some w'"
  shows "w' = w"
  using assms by (auto split: if_splits dest!: put_frame)

lemma record_once_origin:
  assumes "lookup (if lookup m k \<noteq> None then m else put k v m) k' = Some w"
  shows "lookup m k' = Some w \<or> (k' = k \<and> w = v \<and> lookup m k = None)"
  using assms by (auto split: if_splits dest!: put_frame)

lemma fold_put_ok: "ok m \<Longrightarrow> ok (foldl (\<lambda>m (k, v). put k v m) m kvs)"
  by (induction kvs arbitrary: m) (auto intro: put_ok)

lemma fold_put_origin:
  "lookup (foldl (\<lambda>m (k, v). put k v m) m kvs) k' = Some w \<Longrightarrow>
     (k', w) \<in> set kvs \<or> lookup m k' = Some w"
  by (induction kvs arbitrary: m) (fastforce dest: put_frame)+

end

interpretation bm: bounded_store bm_get "bm_put sc" bm_ok for sc
  by unfold_locales (auto dest: bm_set_frame)

section \<open>Length-limited lists\<close>

text \<open>\<open>pushBounded\<close>: push, then shift while the array is too long.\<close>

fun shift_while :: "int \<Rightarrow> 'a list \<Rightarrow> 'a list" where
  "shift_while n [] = []"
| "shift_while n (x # xs) = (if int (length (x # xs)) > n then shift_while n xs else x # xs)"

definition push_bounded :: "'a list \<Rightarrow> 'a \<Rightarrow> int \<Rightarrow> 'a list" where
  "push_bounded array item maxLength =
     (if maxLength \<le> 0 then array else shift_while maxLength (array @ [item]))"

lemma shift_while_drop: "0 \<le> n \<Longrightarrow> shift_while n xs = drop (length xs - nat n) xs"
proof (induction n xs rule: shift_while.induct)
  case (1 n)
  then show ?case by simp
next
  case (2 n x xs)
  show ?case
  proof (cases "int (length (x # xs)) > n")
    case True
    then have "length (x # xs) - nat n = Suc (length xs - nat n)" using "2.prems" by auto
    with True 2 show ?thesis by simp
  next
    case False
    then have "length (x # xs) - nat n = 0" by simp
    with False show ?thesis by (simp del: length_Cons)
  qed
qed

lemma push_bounded_eq:
  "push_bounded xs x n = (if n \<le> 0 then xs else drop (Suc (length xs) - nat n) (xs @ [x]))"
  by (simp add: push_bounded_def shift_while_drop)

lemma push_bounded_length: "length xs \<le> nat n \<Longrightarrow> length (push_bounded xs x n) \<le> nat n"
  by (auto simp: push_bounded_eq)

lemma push_bounded_last: "0 < n \<Longrightarrow> push_bounded xs x n \<noteq> [] \<and> last (push_bounded xs x n) = x"
  by (auto simp: push_bounded_eq)

lemma push_bounded_keeps:
  assumes "length xs \<le> nat n \<and> (\<forall>y \<in> set xs. P y)" and "P x"
  shows "length (push_bounded xs x n) \<le> nat n \<and> (\<forall>y \<in> set (push_bounded xs x n). P y)"
  using assms by (auto simp: push_bounded_eq dest: in_set_dropD)

lemma push_bounded_distinct:
  assumes "distinct (map f xs)" and "f x \<notin> f ` set xs"
  shows "distinct (map f (push_bounded xs x n))"
proof -
  have d: "distinct (map f ys) \<Longrightarrow> distinct (map f (drop k ys))" for k ys
    by (simp add: drop_map[symmetric] distinct_drop)
  have "distinct (map f (xs @ [x]))" using assms by simp
  from d[OF this] assms(1) show ?thesis by (simp only: push_bounded_eq split: if_splits) simp
qed

lemma push_bounded_set: "set (push_bounded xs x n) \<subseteq> insert x (set xs)"
  by (auto simp: push_bounded_eq dest: in_set_dropD)

section \<open>Properties\<close>

text \<open>Any use of a map, each \<open>set\<close> under whatever score the live trust table gives at that moment.\<close>

datatype ('k, 'v) bm_op = SetOp "('k, 'v) score" 'k 'v | DeleteOp 'k

fun bm_step :: "('k, 'v) bounded_map \<Rightarrow> ('k, 'v) bm_op \<Rightarrow> ('k, 'v) bounded_map" where
  "bm_step m (SetOp sc k v) = bm_put sc k v m"
| "bm_step m (DeleteOp k) = bm_delete k m"

interpretation bounded_run: step_invariant bm_step bm_ok
proof
  show "bm_ok m \<Longrightarrow> bm_ok (bm_step m e)" for m :: "('k, 'v) bounded_map" and e
    by (cases e) auto
qed

lemma bm_run_max [simp]: "bm_max (foldl bm_step m es) = bm_max m"
proof (induction es arbitrary: m)
  case (Cons e es)
  then show ?case by (cases e) simp_all
qed simp

text \<open>A bounded map never holds more entries than its limit and never holds a key twice, after any
  sequence of sets and deletes and whatever scores the evictions used.\<close>

theorem bounded_map_never_exceeds:
  "bm_size (foldl bm_step (bm_new (Some (Num (of_nat n)))) ops) \<le> n \<and>
   distinct (bm_keys (foldl bm_step (bm_new (Some (Num (of_nat n)))) ops))"
proof -
  let ?m = "foldl bm_step (bm_new (Some (Num (of_nat n)))) ops"
  have "bm_ok ?m" by (rule bounded_run.run_inv) simp
  moreover have "bm_max ?m = Num (of_nat n)" by (simp add: bm_new_def)
  ultimately show ?thesis
    by (simp add: bm_ok_def within_limit_nat bm_keys_def del: within_limit.simps)
qed

lemma list_before_after: "map_wf (xs @ (k, v) # ys) \<Longrightarrow> map_del k (xs @ (k, v) # ys) = xs @ ys"
  by (simp add: map_del_filter) (rule arg_cong2[of _ _ _ _ append]; rule filter_True; force)

text \<open>A \<open>set\<close> of a new key on a full map whose scores are finite removes exactly the first entry of
  least score (every earlier entry scores strictly higher, no entry scores lower), keeps the order of all the
  others, and appends the new entry.\<close>

theorem bounded_map_evicts_first_least:
  assumes ok: "bm_ok m" and full: "num_le (bm_max m) (Num (of_nat (bm_size m)))"
    and pos: "\<not> num_le (bm_max m) (Num 0)" and new: "\<not> bm_has m k" and some: "bm_size m \<noteq> 0"
    and fin: "\<forall>(k', v') \<in> set (bm_map m). f k' v' = Num (g k' v')"
  shows "\<exists>xs vk vv ys. bm_map m = xs @ (vk, vv) # ys \<and> bm_set (Some f) k v m = (m\<lparr>bm_map := xs @ ys @ [(k, v)]\<rparr>, Some vk) \<and>
    (\<forall>(k', v') \<in> set xs. g vk vv < g k' v') \<and> (\<forall>(k', v') \<in> set ys. g vk vv \<le> g k' v')"
proof -
  from some obtain a as where m: "bm_map m = a # as" by (cases "bm_map m") (auto simp: bm_size_def)
  obtain ka va where a: "a = (ka, va)" by (cases a)
  from m a have in_m: "(ka, va) \<in> set (bm_map m)" by simp
  with fin have "\<exists>(k', v') \<in> set (bm_map m). num_lt (f k' v') PosInf" by (intro bexI[OF _ in_m]) auto
  with scan_victim_spec[of f "bm_map m" None PosInf, OF refl] obtain xs vk vv ys where
    s: "bm_map m = xs @ (vk, vv) # ys" and r: "scan_victim f (bm_map m) None PosInf = Some vk"
    and least: "\<forall>(k', v') \<in> set (bm_map m). \<not> num_lt (f k' v') (f vk vv)"
    and first: "\<forall>(k', v') \<in> set xs. f k' v' \<noteq> f vk vv"
    by (elim disjE exE conjE) auto
  from ok s have wf: "map_wf (xs @ (vk, vv) # ys)" by (simp add: bm_ok_def)
  from new have "map_of (bm_map m) k = None" by (simp add: bm_has_def)
  then have "k \<notin> fst ` set (xs @ (vk, vv) # ys)" unfolding map_of_eq_None_iff s .
  then have n: "map_of (xs @ ys) k = None" by (simp only: map_of_eq_None_iff) auto
  have "bm_set (Some f) k v m = (m\<lparr>bm_map := xs @ ys @ [(k, v)]\<rparr>, Some vk)"
    using pos full new r n by (simp add: bm_set_def pick_victim_def s list_before_after[OF wf] map_put_new Let_def)
  moreover have "g vk vv < g k' v'" if i: "(k', v') \<in> set xs" for k' v'
  proof -
    from i s have j: "(k', v') \<in> set (bm_map m)" and w: "(vk, vv) \<in> set (bm_map m)" by auto
    from j w i fin least first have "f k' v' = Num (g k' v')" "f vk vv = Num (g vk vv)"
      "\<not> num_lt (f k' v') (f vk vv)" "f k' v' \<noteq> f vk vv" by blast+
    then show ?thesis by simp
  qed
  moreover have "g vk vv \<le> g k' v'" if i: "(k', v') \<in> set ys" for k' v'
  proof -
    from i s have j: "(k', v') \<in> set (bm_map m)" and w: "(vk, vv) \<in> set (bm_map m)" by auto
    from j w fin least have "f k' v' = Num (g k' v')" "f vk vv = Num (g vk vv)"
      "\<not> num_lt (f k' v') (f vk vv)" by blast+
    then show ?thesis by simp
  qed
  ultimately show ?thesis using s by blast
qed

lemma bounded_map_evicts_first_least_witness:
  "\<exists>xs vk vv ys. [(1::nat, 5::rat), (2, 3), (3, 3)] = xs @ (vk, vv) # ys \<and>
    bm_set (Some (\<lambda>k v. Num v)) 4 9 \<lparr>bm_map = [(1, 5), (2, 3), (3, 3)], bm_max = Num 3\<rparr> =
      (\<lparr>bm_map = xs @ ys @ [(4, 9)], bm_max = Num 3\<rparr>, Some vk) \<and>
    (\<forall>(k', v') \<in> set xs. vv < v') \<and> (\<forall>(k', v') \<in> set ys. vv \<le> v')"
  using bounded_map_evicts_first_least[of "\<lparr>bm_map = [(1::nat, 5::rat), (2, 3), (3, 3)], bm_max = Num 3\<rparr>" 4 "\<lambda>k v. Num v" "\<lambda>k v. v" 9]
  by (simp add: bm_ok_def bm_size_def bm_has_def)

end
