(* ===== verification/Trust.thy ===== *)
theory Trust
  imports Prelude
begin

text \<open>
  \<open>node/src/trust.ts\<close>: trust levels, their order, and the bounded table of node id to level whose
  eviction drops the least trusted entry. Every other store ranks its entries by this table.
\<close>

datatype trust_level = UNKNOWN | SEEN | VERIFIED | TRUSTED | ADMIN

fun RANK :: "trust_level \<Rightarrow> nat" where
  "RANK UNKNOWN = 0"
| "RANK SEEN = 1"
| "RANK VERIFIED = 2"
| "RANK TRUSTED = 3"
| "RANK ADMIN = 4"

lemma RANK_inj [simp]: "RANK a = RANK b \<longleftrightarrow> a = b"
  by (cases a; cases b) auto

lemma RANK_le_4: "RANK l \<le> 4"
  by (cases l) auto

text \<open>The levels are linearly ordered by rank.\<close>

instantiation trust_level :: linorder
begin

definition less_eq_trust_level :: "trust_level \<Rightarrow> trust_level \<Rightarrow> bool" where
  "less_eq_trust_level a b \<longleftrightarrow> RANK a \<le> RANK b"

definition less_trust_level :: "trust_level \<Rightarrow> trust_level \<Rightarrow> bool" where
  "less_trust_level a b \<longleftrightarrow> RANK a < RANK b"

instance
  by standard (auto simp: less_eq_trust_level_def less_trust_level_def)

end

definition meetsTrustLevel :: "trust_level \<Rightarrow> trust_level \<Rightarrow> bool" where
  "meetsTrustLevel level threshold \<longleftrightarrow> RANK level \<ge> RANK threshold"

definition trustRank :: "trust_level \<Rightarrow> jsnum" where
  "trustRank level = Num (of_nat (RANK level))"

lemma meetsTrustLevel_le [simp]: "meetsTrustLevel l t \<longleftrightarrow> t \<le> l"
  by (simp add: meetsTrustLevel_def less_eq_trust_level_def)

lemma trustRank_lt [simp]: "num_lt (trustRank a) (trustRank b) \<longleftrightarrow> a < b"
  by (simp add: trustRank_def less_trust_level_def)

section \<open>The table\<close>

record trust_manager =
  levels :: "(string, trust_level) jsmap"
  tm_maxSize :: jsnum

definition tm_new :: "jsnum option \<Rightarrow> trust_manager" where
  "tm_new maxSize = \<lparr>levels = [], tm_maxSize = (case maxSize of Some n \<Rightarrow> n | None \<Rightarrow> Num 4096)\<rparr>"

definition tm_get :: "trust_manager \<Rightarrow> string \<Rightarrow> trust_level" where
  "tm_get t nodeId = (case map_of (levels t) nodeId of Some l \<Rightarrow> l | None \<Rightarrow> UNKNOWN)"

definition tm_has :: "trust_manager \<Rightarrow> string \<Rightarrow> bool" where
  "tm_has t nodeId \<longleftrightarrow> map_of (levels t) nodeId \<noteq> None"

definition tm_list :: "trust_manager \<Rightarrow> (string \<times> trust_level) list" where
  "tm_list t = levels t"

definition tm_size :: "trust_manager \<Rightarrow> nat" where
  "tm_size t = length (levels t)"

text \<open>The eviction scan of \<open>ensureCapacityFor\<close>: \<open>evictRank = None\<close> is the initial \<open>Infinity\<close>, and the
  scan stops at the first \<open>UNKNOWN\<close> entry.\<close>

fun scan_evict :: "(string, trust_level) jsmap \<Rightarrow> string option \<Rightarrow> nat option \<Rightarrow> string option" where
  "scan_evict [] evictKey evictRank = evictKey"
| "scan_evict ((i, level) # m) evictKey evictRank =
     (let rank = RANK level in
      if (case evictRank of None \<Rightarrow> True | Some r \<Rightarrow> rank < r)
      then (if rank = RANK UNKNOWN then Some i else scan_evict m (Some i) (Some rank))
      else scan_evict m evictKey evictRank)"

definition ensureCapacityFor :: "string \<Rightarrow> trust_manager \<Rightarrow> trust_manager" where
  "ensureCapacityFor nodeId t =
     (if tm_has t nodeId \<or> num_lt (Num (of_nat (tm_size t))) (tm_maxSize t) then t
      else case scan_evict (levels t) None None of
        Some k \<Rightarrow> t\<lparr>levels := map_del k (levels t)\<rparr>
      | None \<Rightarrow> t)"

definition raiseTo :: "string \<Rightarrow> trust_level \<Rightarrow> trust_manager \<Rightarrow> trust_manager" where
  "raiseTo nodeId level t =
     (if RANK level > RANK (tm_get t nodeId) then t\<lparr>levels := map_put nodeId level (levels t)\<rparr> else t)"

definition markSeen :: "string \<Rightarrow> trust_manager \<Rightarrow> trust_manager" where
  "markSeen nodeId t = raiseTo nodeId SEEN (ensureCapacityFor nodeId t)"

definition markVerified :: "string \<Rightarrow> trust_manager \<Rightarrow> trust_manager" where
  "markVerified nodeId t = raiseTo nodeId VERIFIED (ensureCapacityFor nodeId t)"

definition tm_set :: "string \<Rightarrow> trust_level \<Rightarrow> trust_manager \<Rightarrow> trust_manager" where
  "tm_set nodeId level t =
     (let t' = ensureCapacityFor nodeId t in t'\<lparr>levels := map_put nodeId level (levels t')\<rparr>)"

section \<open>The scan picks an entry of least rank\<close>

lemma scan_evict_spec:
  assumes "scan_evict m ek er = r"
  shows "(r = ek \<and> (case er of None \<Rightarrow> m = [] | Some b \<Rightarrow> \<forall>(i, l) \<in> set m. b \<le> RANK l)) \<or>
    (\<exists>i l. (i, l) \<in> set m \<and> r = Some i \<and> (case er of None \<Rightarrow> True | Some b \<Rightarrow> RANK l < b) \<and>
       (\<forall>(i', l') \<in> set m. RANK l \<le> RANK l'))"
  using assms
proof (induction m ek er rule: scan_evict.induct)
  case (1 ek er)
  then show ?case by (cases er) auto
next
  case (2 i level m ek er)
  show ?case
  proof (cases "case er of None \<Rightarrow> True | Some r \<Rightarrow> RANK level < r")
    case lt: True
    show ?thesis
    proof (cases "level = UNKNOWN")
      case True
      with lt "2.prems" show ?thesis
        by (intro disjI2 exI[of _ i] exI[of _ level]) (auto split: option.splits)
    next
      case False
      then have n0: "RANK level \<noteq> RANK UNKNOWN" by (subst RANK_inj)
      with lt "2.prems" have r: "scan_evict m (Some i) (Some (RANK level)) = r" by (simp add: Let_def)
      from "2.IH"(1)[OF refl lt n0 r] show ?thesis
      proof (elim disjE exE conjE)
        assume "r = Some i" and "case Some (RANK level) of None \<Rightarrow> m = [] | Some b \<Rightarrow> \<forall>(i, l) \<in> set m. b \<le> RANK l"
        with lt show ?thesis by (intro disjI2 exI[of _ i] exI[of _ level]) auto
      next
        fix j l
        assume j: "(j, l) \<in> set m" "r = Some j" "\<forall>(i', l') \<in> set m. RANK l \<le> RANK l'"
          and less: "case Some (RANK level) of None \<Rightarrow> True | Some b \<Rightarrow> RANK l < b"
        have "case er of None \<Rightarrow> True | Some b \<Rightarrow> RANK l < b"
          using lt less by (cases er) auto
        with j less show ?thesis by (intro disjI2 exI[of _ j] exI[of _ l]) auto
      qed
    qed
  next
    case ge: False
    with "2.prems" have r: "scan_evict m ek er = r" by (auto simp: Let_def)
    obtain b where er: "er = Some b" and b: "b \<le> RANK level" using ge by (cases er) auto
    from "2.IH"(2)[OF refl ge r] show ?thesis
    proof (elim disjE exE conjE)
      assume "r = ek" and "case er of None \<Rightarrow> m = [] | Some b \<Rightarrow> \<forall>(i, l) \<in> set m. b \<le> RANK l"
      with er b show ?thesis by auto
    next
      fix j l
      assume j: "(j, l) \<in> set m" "r = Some j" "\<forall>(i', l') \<in> set m. RANK l \<le> RANK l'"
        and less: "case er of None \<Rightarrow> True | Some b \<Rightarrow> RANK l < b"
      with er b show ?thesis by (intro disjI2 exI[of _ j] exI[of _ l]) auto
    qed
  qed
qed

lemma scan_evict_least:
  "scan_evict m None None = Some k \<Longrightarrow>
     \<exists>l. (k, l) \<in> set m \<and> (\<forall>(i', l') \<in> set m. RANK l \<le> RANK l')"
  using scan_evict_spec[of m None None "Some k"] by auto

lemma scan_evict_None: "scan_evict m None None = None \<longleftrightarrow> m = []"
  using scan_evict_spec[of m None None "None"] by auto

section \<open>Invariant of the table\<close>

definition tm_ok :: "trust_manager \<Rightarrow> bool" where
  "tm_ok t \<longleftrightarrow> map_wf (levels t) \<and>
     (\<forall>n. tm_maxSize t = Num (of_nat n) \<longrightarrow> tm_size t \<le> max 1 n)"

lemma tm_new_ok: "tm_ok (tm_new n)"
  by (simp add: tm_ok_def tm_new_def tm_size_def)

lemma ensure_max [simp]: "tm_maxSize (ensureCapacityFor i t) = tm_maxSize t"
  by (simp add: ensureCapacityFor_def split: option.splits)

lemma ensure_wf: "map_wf (levels t) \<Longrightarrow> map_wf (levels (ensureCapacityFor i t))"
  by (simp add: ensureCapacityFor_def split: option.splits)

lemma ensure_get: "tm_get (ensureCapacityFor i t) j =
    (if \<not> tm_has t i \<and> \<not> num_lt (Num (of_nat (tm_size t))) (tm_maxSize t) \<and>
        scan_evict (levels t) None None = Some j then UNKNOWN else tm_get t j)"
  by (auto simp: ensureCapacityFor_def tm_get_def split: option.splits)

lemma ensure_get_self [simp]: "tm_get (ensureCapacityFor i t) i = tm_get t i"
proof (cases "tm_has t i")
  case False
  then have "tm_get t i = UNKNOWN" by (simp add: tm_has_def tm_get_def)
  then show ?thesis by (simp add: ensure_get)
qed (simp add: ensure_get)

text \<open>After making room there is a free place for an unknown node.\<close>

lemma ensure_room:
  assumes ok: "tm_ok t" and new: "\<not> tm_has t i" and m: "tm_maxSize t = Num (of_nat n)"
  shows "Suc (tm_size (ensureCapacityFor i t)) \<le> max 1 n"
proof (cases "tm_size t < n")
  case True
  with new m show ?thesis by (simp add: ensureCapacityFor_def)
next
  case False
  then have nl: "\<not> num_lt (Num (of_nat (tm_size t))) (tm_maxSize t)" by (simp add: m)
  from ok have wf: "map_wf (levels t)" and le: "tm_size t \<le> max 1 n" by (auto simp: tm_ok_def m)
  show ?thesis
  proof (cases "scan_evict (levels t) None None")
    case None
    then have "levels t = []" by (simp add: scan_evict_None)
    with None new nl show ?thesis by (simp add: ensureCapacityFor_def tm_size_def)
  next
    case (Some k)
    then obtain l where "(k, l) \<in> set (levels t)" using scan_evict_least by blast
    then have "map_of (levels t) k \<noteq> None" by (rule map_of_key)
    from map_del_length[OF wf this] Some new nl le show ?thesis
      by (simp add: ensureCapacityFor_def tm_size_def)
  qed
qed

lemma ensure_size: "tm_size (ensureCapacityFor i t) \<le> tm_size t"
  by (simp add: ensureCapacityFor_def tm_size_def map_del_length_le split: option.splits)

lemma ensure_has: "tm_has t i \<Longrightarrow> ensureCapacityFor i t = t"
  by (simp add: ensureCapacityFor_def)

lemma put_ok:
  assumes ok: "tm_ok t"
  shows "tm_ok ((ensureCapacityFor i t)\<lparr>levels := map_put i l (levels (ensureCapacityFor i t))\<rparr>)"
proof -
  from ok have wf: "map_wf (levels t)" by (simp add: tm_ok_def)
  have len: "length (map_put i l (levels (ensureCapacityFor i t))) \<le> max 1 n"
    if m: "tm_maxSize t = Num (of_nat n)" for n
  proof (cases "tm_has t i")
    case True
    with ok m show ?thesis
      by (simp add: ensure_has tm_ok_def tm_size_def map_put_length_old tm_has_def)
  next
    case False
    from ensure_room[OF ok False m] have "Suc (length (levels (ensureCapacityFor i t))) \<le> max 1 n"
      by (simp add: tm_size_def)
    moreover have "length (map_put i l xs) \<le> Suc (length xs)" for xs :: "(string, trust_level) jsmap"
      by (cases "map_of xs i = None") (simp_all add: map_put_length_new map_put_length_old)
    ultimately show ?thesis by (meson le_trans)
  qed
  from ensure_wf[OF wf] len show ?thesis by (simp add: tm_ok_def tm_size_def)
qed

lemma ensure_ok: "tm_ok t \<Longrightarrow> tm_ok (ensureCapacityFor i t)"
  using ensure_size[of i t] ensure_wf[of t i] by (fastforce simp: tm_ok_def)

lemma tm_set_ok: "tm_ok t \<Longrightarrow> tm_ok (tm_set i l t)"
  by (simp add: tm_set_def Let_def put_ok)

lemma raiseTo_ok: "tm_ok t \<Longrightarrow> tm_ok (raiseTo i l (ensureCapacityFor i t))"
  by (simp add: raiseTo_def put_ok ensure_ok)

lemma markSeen_ok: "tm_ok t \<Longrightarrow> tm_ok (markSeen i t)"
  by (simp add: markSeen_def raiseTo_ok)

lemma markVerified_ok: "tm_ok t \<Longrightarrow> tm_ok (markVerified i t)"
  by (simp add: markVerified_def raiseTo_ok)

section \<open>What the marks do to the levels\<close>

lemma raise_get: "tm_get (raiseTo i l t) j = (if j = i then max l (tm_get t i) else tm_get t j)"
  by (auto simp: raiseTo_def tm_get_def less_eq_trust_level_def max_def not_less)

text \<open>An entry is dropped by a mark or an assignment only when it is of least rank.\<close>

lemma ensure_keeps:
  assumes wf: "map_wf (levels t)" and ij: "tm_has t k" and lower: "tm_get t k < tm_get t j"
  shows "tm_get (ensureCapacityFor i t) j = tm_get t j"
proof (rule ccontr)
  assume "\<not> ?thesis"
  then have "scan_evict (levels t) None None = Some j" by (simp add: ensure_get split: if_splits)
  then obtain l where l: "(j, l) \<in> set (levels t)"
    and least: "\<forall>(i', l') \<in> set (levels t). RANK l \<le> RANK l'"
    using scan_evict_least by blast
  from wf l have "tm_get t j = l" by (simp add: tm_get_def map_of_is_SomeI)
  moreover obtain l' where "map_of (levels t) k = Some l'" using ij by (auto simp: tm_has_def)
  then have "(k, l') \<in> set (levels t)" and "tm_get t k = l'"
    by (auto simp: tm_get_def dest: map_of_in_set)
  ultimately show False using least lower by (auto simp: less_trust_level_def)
qed

section \<open>Operations as a run\<close>

datatype trust_op = MarkSeen string | MarkVerified string | SetLevel string trust_level

fun tm_step :: "trust_manager \<Rightarrow> trust_op \<Rightarrow> trust_manager" where
  "tm_step t (MarkSeen i) = markSeen i t"
| "tm_step t (MarkVerified i) = markVerified i t"
| "tm_step t (SetLevel i l) = tm_set i l t"

interpretation trust_run: step_invariant tm_step tm_ok
proof
  show "tm_ok t \<Longrightarrow> tm_ok (tm_step t e)" for t e
    by (cases e) (simp_all add: markSeen_ok markVerified_ok tm_set_ok)
qed

lemma tm_step_max [simp]: "tm_maxSize (tm_step t e) = tm_maxSize t"
  by (cases e) (simp_all add: markSeen_def markVerified_def tm_set_def Let_def raiseTo_def)

lemma tm_run_max [simp]: "tm_maxSize (foldl tm_step t es) = tm_maxSize t"
  by (induction es arbitrary: t) auto

section \<open>Properties\<close>

text \<open>Whatever node ids are marked or assigned, in any order, the trust table holds each id once
  and at most its configured number of ids (one, when configured with none), so a flood of identities
  cannot grow it.\<close>

theorem trust_table_bounded:
  "tm_size (foldl tm_step (tm_new (Some (Num (of_nat n)))) ops) \<le> max 1 n \<and>
   distinct (map fst (tm_list (foldl tm_step (tm_new (Some (Num (of_nat n)))) ops)))"
proof -
  have "tm_ok (foldl tm_step (tm_new (Some (Num (of_nat n)))) ops)"
    by (rule trust_run.run_inv) (rule tm_new_ok)
  then show ?thesis by (simp add: tm_ok_def tm_new_def tm_list_def)
qed

text \<open>Marking a node as verified raises it to at least \<open>VERIFIED\<close> and never lowers it; every other
  node keeps its level, except possibly one of least level, which is forgotten.\<close>

theorem mark_verified_effect:
  assumes ok: "tm_ok t"
  shows "tm_get (markVerified i t) i = max VERIFIED (tm_get t i) \<and>
    (\<forall>j. j \<noteq> i \<longrightarrow> tm_get (markVerified i t) j = tm_get t j \<or>
       (tm_get (markVerified i t) j = UNKNOWN \<and> (\<forall>k. tm_has t k \<longrightarrow> tm_get t j \<le> tm_get t k)))"
proof (intro conjI allI impI)
  show "tm_get (markVerified i t) i = max VERIFIED (tm_get t i)"
    by (simp add: markVerified_def raise_get)
  fix j assume j: "j \<noteq> i"
  then have e: "tm_get (markVerified i t) j = tm_get (ensureCapacityFor i t) j"
    by (simp add: markVerified_def raise_get)
  show "tm_get (markVerified i t) j = tm_get t j \<or>
      (tm_get (markVerified i t) j = UNKNOWN \<and> (\<forall>k. tm_has t k \<longrightarrow> tm_get t j \<le> tm_get t k))"
  proof (cases "tm_get (ensureCapacityFor i t) j = tm_get t j")
    case False
    then have "tm_get (ensureCapacityFor i t) j = UNKNOWN" by (auto simp: ensure_get split: if_splits)
    moreover have "tm_get t j \<le> tm_get t k" if "tm_has t k" for k
      using ensure_keeps[of t k j i] ok that False by (force simp: tm_ok_def not_less)
    ultimately show ?thesis using e by auto
  qed (simp add: e)
qed

lemma mark_verified_effect_witness:
  "tm_get (markVerified ''c'' \<lparr>levels = [(''a'', ADMIN), (''b'', SEEN)], tm_maxSize = Num 2\<rparr>) ''c'' = VERIFIED \<and>
   tm_get (markVerified ''c'' \<lparr>levels = [(''a'', ADMIN), (''b'', SEEN)], tm_maxSize = Num 2\<rparr>) ''a'' = ADMIN"
proof -
  let ?t = "\<lparr>levels = [(''a'', ADMIN), (''b'', SEEN)], tm_maxSize = Num 2\<rparr>"
  have "tm_ok ?t"
    by (auto simp: tm_ok_def tm_size_def)
  note eff = mark_verified_effect[OF this, of "''c''"]
  have self: "tm_get (markVerified ''c'' ?t) ''c'' = max VERIFIED (tm_get ?t ''c'')"
    using eff by (rule conjunct1)
  have "tm_get (markVerified ''c'' ?t) ''a'' = tm_get ?t ''a'' \<or>
      (tm_get (markVerified ''c'' ?t) ''a'' = UNKNOWN \<and> (\<forall>k. tm_has ?t k \<longrightarrow> tm_get ?t ''a'' \<le> tm_get ?t k))"
    using eff by (elim conjE allE[of _ "''a''"] mp) simp
  moreover have "tm_has ?t ''b''" and "\<not> tm_get ?t ''a'' \<le> tm_get ?t ''b''"
    by (simp_all add: tm_has_def tm_get_def less_eq_trust_level_def)
  ultimately have "tm_get (markVerified ''c'' ?t) ''a'' = tm_get ?t ''a''" by blast
  with self show ?thesis by (simp add: tm_get_def max_def less_eq_trust_level_def)
qed

end
