(* ===== verification/Packet.thy ===== *)
theory Packet
  imports Prelude "HOL-Library.Multiset"
begin

text \<open>
  \<open>node/src/packet.ts\<close> and \<open>node/src/priority-queue.ts\<close>: message types, the priority classes with the
  clamp of untrusted priorities, the packet with its decoder, and the bucketed priority queue that
  the TCP and LoRa transports send through. The queue is refined to a stable sort by priority class.
\<close>

section \<open>Message types\<close>

datatype message_type =
    HELLO | PING | PONG | PEER_LIST | DATA | ACK
  | CONTENT_QUERY | CONTENT_FOUND | CONTENT_NOT_FOUND | CONTENT_REQUEST | CONTENT_CHUNK | CONTENT_COMPLETE
  | CONTENT_ANNOUNCE | SYNC_REQUEST | SYNC_RESPONSE | IDENTITY_REQUEST | IDENTITY_RESPONSE
  | PRIVATE_MESSAGE | ROUTE_ANNOUNCE | SERVICE_ANNOUNCE | SERVICE_QUERY | SERVICE_REQUEST | SERVICE_RESPONSE
  | GROUP_MESSAGE | EXTERNAL_DELIVERY
  | OtherType string

text \<open>The enum's wire names; a \<open>type\<close> string outside the enum is \<open>OtherType\<close>.\<close>

definition message_types :: "(string \<times> message_type) list" where
  "message_types =
    [(''HELLO'', HELLO), (''PING'', PING), (''PONG'', PONG), (''PEER_LIST'', PEER_LIST), (''DATA'', DATA),
     (''ACK'', ACK), (''CONTENT_QUERY'', CONTENT_QUERY), (''CONTENT_FOUND'', CONTENT_FOUND),
     (''CONTENT_NOT_FOUND'', CONTENT_NOT_FOUND), (''CONTENT_REQUEST'', CONTENT_REQUEST),
     (''CONTENT_CHUNK'', CONTENT_CHUNK), (''CONTENT_COMPLETE'', CONTENT_COMPLETE),
     (''CONTENT_ANNOUNCE'', CONTENT_ANNOUNCE), (''SYNC_REQUEST'', SYNC_REQUEST),
     (''SYNC_RESPONSE'', SYNC_RESPONSE), (''IDENTITY_REQUEST'', IDENTITY_REQUEST),
     (''IDENTITY_RESPONSE'', IDENTITY_RESPONSE), (''PRIVATE_MESSAGE'', PRIVATE_MESSAGE),
     (''ROUTE_ANNOUNCE'', ROUTE_ANNOUNCE), (''SERVICE_ANNOUNCE'', SERVICE_ANNOUNCE),
     (''SERVICE_QUERY'', SERVICE_QUERY), (''SERVICE_REQUEST'', SERVICE_REQUEST),
     (''SERVICE_RESPONSE'', SERVICE_RESPONSE), (''GROUP_MESSAGE'', GROUP_MESSAGE),
     (''EXTERNAL_DELIVERY'', EXTERNAL_DELIVERY)]"

definition message_type_of :: "string \<Rightarrow> message_type" where
  "message_type_of s = (case map_of message_types s of Some t \<Rightarrow> t | None \<Rightarrow> OtherType s)"

section \<open>Priorities\<close>

datatype priority = EMERGENCY | CONTROL | MESSAGING | SERVICE | CONTENT | BULK

definition priorities :: "priority list" where
  "priorities = [EMERGENCY, CONTROL, MESSAGING, SERVICE, CONTENT, BULK]"

fun priority_num :: "priority \<Rightarrow> nat" where
  "priority_num EMERGENCY = 0"
| "priority_num CONTROL = 1"
| "priority_num MESSAGING = 2"
| "priority_num SERVICE = 3"
| "priority_num CONTENT = 4"
| "priority_num BULK = 5"

definition PRIORITY_LEVEL_COUNT :: nat where
  "PRIORITY_LEVEL_COUNT = length priorities"

text \<open>\<open>Number.isInteger\<close> on an untyped value.\<close>

fun as_integer :: "jsval \<Rightarrow> int option" where
  "as_integer (JNumber (Num r)) = (if r = of_int \<lfloor>r\<rfloor> then Some \<lfloor>r\<rfloor> else None)"
| "as_integer v = None"

definition priorityRank :: "jsval \<Rightarrow> priority" where
  "priorityRank v = (case as_integer v of
     Some i \<Rightarrow> if 0 \<le> i \<and> i < int PRIORITY_LEVEL_COUNT then priorities ! nat i else BULK
   | None \<Rightarrow> BULK)"

definition priority_val :: "priority \<Rightarrow> jsval" where
  "priority_val p = JNumber (Num (of_nat (priority_num p)))"

lemma priority_num_inj [simp]: "priority_num a = priority_num b \<longleftrightarrow> a = b"
  by (cases a; cases b) auto

lemma priorities_nth [simp]: "priorities ! priority_num p = p"
  by (cases p) (auto simp: priorities_def)

lemma PRIORITY_LEVEL_COUNT_6 [simp]: "PRIORITY_LEVEL_COUNT = 6"
  by (simp add: PRIORITY_LEVEL_COUNT_def priorities_def)

lemma priority_num_bound: "priority_num p < 6"
  by (cases p) auto

lemma as_integer_of_nat [simp]: "as_integer (JNumber (Num (of_nat n))) = Some (int n)"
  by simp

lemma priorityRank_val [simp]: "priorityRank (priority_val p) = p"
  using priority_num_bound[of p] by (simp add: priorityRank_def priority_val_def del: as_integer.simps)

lemma as_integer_Some: "as_integer v = Some i \<longleftrightarrow> v = JNumber (Num (of_int i))"
  by (cases v rule: as_integer.cases) auto

lemma priorities_num: "n < 6 \<Longrightarrow> priority_num (priorities ! n) = n"
  by (auto simp: priorities_def less_Suc_eq numeral_eq_Suc)

text \<open>Only the exact wire value of a class is read as that class, except for \<open>BULK\<close>, which takes
  everything else.\<close>

lemma priorityRank_urgent: "p \<noteq> BULK \<Longrightarrow> priorityRank v = p \<longleftrightarrow> v = priority_val p"
proof
  assume p: "p \<noteq> BULK" and r: "priorityRank v = p"
  then obtain i where i: "as_integer v = Some i" and b: "0 \<le> i" "i < 6" and e: "priorities ! nat i = p"
    by (auto simp: priorityRank_def split: option.splits if_splits)
  from b priorities_num[of "nat i"] e have "i = int (priority_num p)" by auto
  with i show "v = priority_val p" by (simp add: as_integer_Some priority_val_def)
qed simp

section \<open>Packets\<close>

text \<open>\<open>decodePacket\<close> checks the types of \<open>id\<close>, \<open>type\<close>, \<open>source\<close> and \<open>ttl\<close> only, so \<open>destination\<close> and
  \<open>priority\<close> stay untyped: \<open>JUndefined\<close> is the absent destination of a broadcast.\<close>

record 'p packet =
  pk_version :: jsval
  pk_id :: string
  pk_type :: message_type
  pk_source :: string
  pk_destination :: jsval
  pk_ttl :: jsnum
  pk_timestamp :: jsval
  pk_priority :: jsval
  pk_payload :: 'p

datatype decode_error = MalformedPacket

definition decodePacket :: "jsval \<Rightarrow> decode_error + jsval packet" where
  "decodePacket parsed =
     (if \<not> is_object parsed then Inl MalformedPacket
      else case (jfield parsed ''id'', jfield parsed ''type'', jfield parsed ''source'', jfield parsed ''ttl'') of
        (JString i, JString t, JString s, JNumber n) \<Rightarrow>
          Inr \<lparr>pk_version = jfield parsed ''version'', pk_id = i, pk_type = message_type_of t, pk_source = s,
               pk_destination = jfield parsed ''destination'', pk_ttl = n, pk_timestamp = jfield parsed ''timestamp'',
               pk_priority = jfield parsed ''priority'', pk_payload = jfield parsed ''payload''\<rparr>
      | _ \<Rightarrow> Inl MalformedPacket)"

definition PROTOCOL_VERSION :: rat where "PROTOCOL_VERSION = 1"
definition DEFAULT_TTL :: rat where "DEFAULT_TTL = 8"

text \<open>\<open>createPacket\<close>: the fresh \<open>randomUUID()\<close> and \<open>Date.now()\<close> are arguments.\<close>

definition createPacket ::
  "string \<Rightarrow> time \<Rightarrow> message_type \<Rightarrow> string \<Rightarrow> 'p \<Rightarrow> string option \<Rightarrow> rat option \<Rightarrow> priority option \<Rightarrow> 'p packet" where
  "createPacket uuid now type source payload destination ttl priority =
     \<lparr>pk_version = JNumber (Num PROTOCOL_VERSION), pk_id = uuid, pk_type = type, pk_source = source,
      pk_destination = (case destination of Some d \<Rightarrow> JString d | None \<Rightarrow> JUndefined),
      pk_ttl = Num (case ttl of Some t \<Rightarrow> t | None \<Rightarrow> DEFAULT_TTL),
      pk_timestamp = JNumber (Num now),
      pk_priority = priority_val (case priority of Some p \<Rightarrow> p | None \<Rightarrow> MESSAGING),
      pk_payload = payload\<rparr>"

section \<open>The priority queue\<close>

record 'a priority_queue =
  buckets :: "'a list list"
  pq_count :: nat

definition pq_new :: "nat \<Rightarrow> 'a priority_queue" where
  "pq_new levels = \<lparr>buckets = replicate levels [], pq_count = 0\<rparr>"

definition pq_index :: "nat \<Rightarrow> jsnum \<Rightarrow> nat" where
  "pq_index levels p = (case as_integer (JNumber p) of
     Some i \<Rightarrow> if 0 \<le> i \<and> i < int levels then nat i else levels - 1 | None \<Rightarrow> levels - 1)"

text \<open>With no bucket at all \<open>this.buckets[-1].push\<close> throws: \<open>None\<close>.\<close>

definition pq_enqueue :: "jsnum \<Rightarrow> 'a \<Rightarrow> 'a priority_queue \<Rightarrow> 'a priority_queue option" where
  "pq_enqueue priority item q =
     (let levels = length (buckets q); index = pq_index levels priority in
      if levels = 0 then None
      else Some \<lparr>buckets = (buckets q)[index := buckets q ! index @ [item]], pq_count = pq_count q + 1\<rparr>)"

fun shift_first :: "'a list list \<Rightarrow> ('a \<times> 'a list list) option" where
  "shift_first [] = None"
| "shift_first ([] # bs) = map_option (\<lambda>(x, bs'). (x, [] # bs')) (shift_first bs)"
| "shift_first ((x # xs) # bs) = Some (x, xs # bs)"

definition pq_dequeue :: "'a priority_queue \<Rightarrow> ('a \<times> 'a priority_queue) option" where
  "pq_dequeue q = map_option (\<lambda>(x, bs). (x, \<lparr>buckets = bs, pq_count = pq_count q - 1\<rparr>)) (shift_first (buckets q))"

definition pq_ok :: "nat \<Rightarrow> 'a priority_queue \<Rightarrow> bool" where
  "pq_ok levels q \<longleftrightarrow> length (buckets q) = levels \<and> pq_count q = length (concat (buckets q))"

lemma pq_index_bound: "0 < levels \<Longrightarrow> pq_index levels p < levels"
  by (auto simp: pq_index_def split: option.splits)

lemma concat_update:
  "i < length bs \<Longrightarrow> concat (bs[i := bs ! i @ ys]) = concat (take (Suc i) bs) @ ys @ concat (drop (Suc i) bs)"
  by (simp add: upd_conv_take_nth_drop take_Suc_conv_app_nth)

lemma concat_split: "concat bs = concat (take n bs) @ concat (drop n bs)"
  by (metis append_take_drop_id concat_append)

lemma pq_new_ok: "pq_ok n (pq_new n)"
  by (simp add: pq_ok_def pq_new_def)

lemma pq_enqueue_ok:
  assumes "pq_ok n q" and "pq_enqueue p x q = Some q'"
  shows "pq_ok n q'"
proof -
  from assms have n: "0 < n" "length (buckets q) = n" and c: "pq_count q = length (concat (buckets q))"
    by (auto simp: pq_ok_def pq_enqueue_def Let_def split: if_splits)
  let ?i = "pq_index n p"
  have i: "?i < length (buckets q)" using n pq_index_bound by metis
  have "length (concat ((buckets q)[?i := buckets q ! ?i @ [x]])) = Suc (length (concat (buckets q)))"
    by (subst concat_split[of "buckets q" "Suc ?i"], subst concat_update[OF i]) simp
  with assms n c show ?thesis by (auto simp: pq_ok_def pq_enqueue_def Let_def)
qed

lemma shift_first_Some: "shift_first bs = Some (x, bs') \<Longrightarrow> concat bs = x # concat bs' \<and> length bs' = length bs"
  by (induction bs arbitrary: x bs' rule: shift_first.induct) auto

lemma shift_first_None: "shift_first bs = None \<longleftrightarrow> concat bs = []"
  by (induction bs rule: shift_first.induct) auto

lemma pq_dequeue_ok: "pq_ok n q \<Longrightarrow> pq_dequeue q = Some (x, q') \<Longrightarrow> pq_ok n q'"
  by (auto simp: pq_ok_def pq_dequeue_def dest!: shift_first_Some)

lemma pq_dequeue_head: "pq_dequeue q = Some (x, q') \<Longrightarrow> concat (buckets q) = x # concat (buckets q')"
  by (auto simp: pq_dequeue_def dest!: shift_first_Some)

lemma pq_dequeue_None: "pq_dequeue q = None \<longleftrightarrow> concat (buckets q) = []"
  by (auto simp: pq_dequeue_def shift_first_None)

text \<open>The items in the order they leave, and the abstract queue: a stable sort of the arrivals by
  class.\<close>

fun pq_drain :: "nat \<Rightarrow> 'a priority_queue \<Rightarrow> 'a list" where
  "pq_drain 0 q = []"
| "pq_drain (Suc fuel) q = (case pq_dequeue q of None \<Rightarrow> [] | Some (x, q') \<Rightarrow> x # pq_drain fuel q')"

fun pq_enqueue_all :: "(jsnum \<times> 'a) list \<Rightarrow> 'a priority_queue \<Rightarrow> 'a priority_queue option" where
  "pq_enqueue_all [] q = Some q"
| "pq_enqueue_all ((p, x) # xs) q = (case pq_enqueue p x q of None \<Rightarrow> None | Some q' \<Rightarrow> pq_enqueue_all xs q')"

lemma pq_drain_concat: "length (concat (buckets q)) \<le> fuel \<Longrightarrow> pq_drain fuel q = concat (buckets q)"
proof (induction fuel arbitrary: q)
  case 0
  then show ?case by (simp del: concat_eq_Nil_conv)
next
  case (Suc fuel)
  show ?case
  proof (cases "pq_dequeue q")
    case None
    moreover from None have "concat (buckets q) = []" by (simp only: pq_dequeue_None)
    ultimately show ?thesis by (simp del: concat_eq_Nil_conv)
  next
    case (Some r)
    obtain x q' where r: "r = (x, q')" by (cases r)
    from pq_dequeue_head Some r have c: "concat (buckets q) = x # concat (buckets q')" by metis
    with Suc.prems have "length (concat (buckets q')) \<le> fuel" by simp
    with Suc.IH Some r c show ?thesis by simp
  qed
qed

lemma enqueue_all_buckets:
  assumes "0 < n" and "length (buckets q) = n"
  shows "\<exists>q'. pq_enqueue_all xs q = Some q' \<and> length (buckets q') = n \<and>
     (\<forall>i < n. buckets q' ! i = buckets q ! i @ map snd (filter (\<lambda>(p, x). pq_index n p = i) xs))"
  using assms(2)
proof (induction xs arbitrary: q)
  case Nil
  then show ?case by simp
next
  case (Cons a xs)
  obtain p x where a: "a = (p, x)" by (cases a)
  let ?i = "pq_index n p"
  have i: "?i < n" using assms(1) by (rule pq_index_bound)
  define q1 where "q1 = \<lparr>buckets = (buckets q)[?i := buckets q ! ?i @ [x]], pq_count = pq_count q + 1\<rparr>"
  have q1: "pq_enqueue p x q = Some q1"
    using assms(1) Cons.prems by (simp add: pq_enqueue_def Let_def q1_def)
  have "length (buckets q1) = n" using Cons.prems by (simp add: q1_def)
  from Cons.IH[OF this] obtain q' where q': "pq_enqueue_all xs q1 = Some q'" "length (buckets q') = n"
    and b: "\<And>j. j < n \<Longrightarrow> buckets q' ! j = buckets q1 ! j @ map snd (filter (\<lambda>(p, x). pq_index n p = j) xs)"
    by blast
  have "buckets q' ! j = buckets q ! j @ map snd (filter (\<lambda>(p, x). pq_index n p = j) (a # xs))" if "j < n" for j
    using b[OF that] Cons.prems i that a by (auto simp: q1_def nth_list_update)
  with q' q1 a show ?case by simp
qed

text \<open>A stable sort by a key below \<open>n\<close> lists the classes one after the other.\<close>

lemma filter_concat_classes:
  assumes "k < n"
  shows "filter (\<lambda>y. f y = k) (concat (map (\<lambda>i. filter (\<lambda>x. f x = i) xs) [0..<n])) = filter (\<lambda>y. f y = k) xs"
  using assms
proof (induction n)
  case 0
  then show ?case by simp
next
  case (Suc n)
  have other: "filter (\<lambda>y. f y = k \<and> f y = i) xs = []" if "i \<noteq> k" for i
    using that by (auto simp: filter_empty_conv)
  have none: "filter (\<lambda>y. f y = k) (concat (map (\<lambda>i. filter (\<lambda>x. f x = i) xs) [0..<m])) = []" if "m \<le> k" for m
    using that by (auto simp: filter_empty_conv)
  show ?case
  proof (cases "k = n")
    case True
    with none[of n] show ?thesis by simp
  next
    case False
    with Suc other[of n] show ?thesis by (simp add: conj_commute)
  qed
qed

lemma sorted_class: "sorted (map f (filter (\<lambda>x. f x = (i::nat)) xs))"
  by (induction xs) auto

lemma sorted_classes: "sorted (map f (concat (map (\<lambda>i. filter (\<lambda>x. f x = i) xs) [0..<n])))"
proof (induction n)
  case 0
  then show ?case by simp
next
  case (Suc n)
  have "\<forall>x \<in> set (concat (map (\<lambda>i. filter (\<lambda>x. f x = i) xs) [0..<n])). f x \<le> n" by auto
  with Suc sorted_class[of f n xs] show ?case by (simp add: sorted_append)
qed

lemma sort_key_concat:
  assumes "\<forall>x \<in> set xs. f x < n"
  shows "sort_key f xs = concat (map (\<lambda>i. filter (\<lambda>x. f x = i) xs) [0..<n])" (is "_ = ?ys")
proof (rule properties_for_sort_key)
  have flt: "filter (\<lambda>x. f k = f x) ?ys = filter (\<lambda>x. f k = f x) xs" if "f k < n" for k
  proof -
    have "(\<lambda>x. f k = f x) = (\<lambda>x. f x = f k)" by auto
    with filter_concat_classes[OF that, of f xs] show ?thesis by simp
  qed
  show "filter (\<lambda>x. f k = f x) ?ys = filter (\<lambda>x. f k = f x) xs" if "k \<in> set ?ys" for k
    using that by (intro flt) auto
  have sub: "count_list zs x = count_list (filter (\<lambda>y. f x = f y) zs) x" for x zs
    by (induction zs) auto
  show "mset ?ys = mset xs"
  proof (rule multiset_eqI)
    fix x
    show "count (mset ?ys) x = count (mset xs) x"
    proof (cases "f x < n")
      case True
      then show ?thesis by (simp only: count_mset sub[of ?ys x] sub[of xs x] flt)
    next
      case False
      then have "x \<notin> set xs" and "x \<notin> set ?ys" using assms by auto
      then show ?thesis by (metis count_mset_0_iff)
    qed
  qed
  show "sorted (map f ?ys)"
    by (rule sorted_classes)
qed

text \<open>The refinement: arrivals enqueued in order and drained leave in the order of a stable sort by
  clamped class.\<close>

lemma drain_is_stable_sort:
  assumes n: "0 < n" and q: "pq_enqueue_all xs (pq_new n) = Some q"
  shows "pq_drain (length xs) q = map snd (sort_key (\<lambda>(p, x). pq_index n p) xs)"
proof -
  have "length (buckets (pq_new n)) = n" by (simp add: pq_new_def)
  from enqueue_all_buckets[OF n this, of xs] q have len: "length (buckets q) = n"
    and b: "\<And>i. i < n \<Longrightarrow> buckets q ! i = map snd (filter (\<lambda>(p, x). pq_index n p = i) xs)"
    by (auto simp: pq_new_def)
  have bq: "buckets q = map (\<lambda>i. map snd (filter (\<lambda>(p, x). pq_index n p = i) xs)) [0..<n]"
    by (rule nth_equalityI) (simp_all add: len b)
  have "sort_key (\<lambda>(p, x). pq_index n p) xs =
      concat (map (\<lambda>i. filter (\<lambda>z. (case z of (p, x) \<Rightarrow> pq_index n p) = i) xs) [0..<n])"
    using pq_index_bound[OF n] by (intro sort_key_concat) auto
  then have c: "concat (buckets q) = map snd (sort_key (\<lambda>(p, x). pq_index n p) xs)"
    by (simp add: bq map_concat comp_def case_prod_unfold)
  then have "length (concat (buckets q)) = length xs" by simp
  then show ?thesis using pq_drain_concat[of q "length xs"] c by simp
qed

section \<open>The wire format\<close>

text \<open>What \<open>JSON.parse(JSON.stringify(v))\<close> makes of a value: \<open>None\<close> where stringify yields nothing;
  non-finite numbers become \<open>null\<close>, \<open>undefined\<close> becomes \<open>null\<close> in an array and drops its property in
  an object.\<close>

fun json_norm :: "jsval \<Rightarrow> jsval option"
  and json_elem :: "jsval list \<Rightarrow> jsval list"
  and json_props :: "(string \<times> jsval) list \<Rightarrow> (string \<times> jsval) list" where
  "json_norm JUndefined = None"
| "json_norm (JNumber x) = Some (if num_finite x then JNumber x else JNull)"
| "json_norm (JArray vs) = Some (JArray (json_elem vs))"
| "json_norm (JObject fs) = Some (JObject (json_props fs))"
| "json_norm v = Some v"
| "json_elem [] = []"
| "json_elem (v # vs) = (case json_norm v of Some w \<Rightarrow> w | None \<Rightarrow> JNull) # json_elem vs"
| "json_props [] = []"
| "json_props ((k, v) # fs) = (case json_norm v of Some w \<Rightarrow> (k, w) # json_props fs | None \<Rightarrow> json_props fs)"

definition type_name :: "message_type \<Rightarrow> string" where
  "type_name t = (case t of OtherType s \<Rightarrow> s
     | _ \<Rightarrow> (case map_of (map (\<lambda>(s, t). (t, s)) message_types) t of Some s \<Rightarrow> s | None \<Rightarrow> []))"

text \<open>\<open>encodePacket\<close>: \<open>JSON.stringify\<close> of the packet object, up to the text (which \<open>JSON.parse\<close> reads
  back); \<open>Buffer.from\<close> and \<open>toString\<close> with \<open>utf8\<close> do not change it.\<close>

definition packet_object :: "jsval packet \<Rightarrow> (string \<times> jsval) list" where
  "packet_object p =
    [(''version'', pk_version p), (''id'', JString (pk_id p)), (''type'', JString (type_name (pk_type p))),
     (''source'', JString (pk_source p)), (''destination'', pk_destination p), (''ttl'', JNumber (pk_ttl p)),
     (''timestamp'', pk_timestamp p), (''priority'', pk_priority p), (''payload'', pk_payload p)]"

definition encodePacket :: "jsval packet \<Rightarrow> jsval" where
  "encodePacket p = (case json_norm (JObject (packet_object p)) of Some v \<Rightarrow> v | None \<Rightarrow> JUndefined)"

lemma json_props_field:
  "map_wf fs \<Longrightarrow> map_of (json_props fs) k = (case map_of fs k of Some v \<Rightarrow> json_norm v | None \<Rightarrow> None)"
proof (induction fs)
  case (Cons a fs)
  obtain ka va where a: "a = (ka, va)" by (cases a)
  have "map_of fs ka = None" using Cons.prems a by (simp add: map_of_eq_None_iff)
  with Cons a show ?case by (auto split: option.splits)
qed simp

lemma packet_object_wf: "map_wf (packet_object p)"
  by (simp add: packet_object_def)

lemma encodePacket_field: "jfield (encodePacket p) k = (case map_of (packet_object p) k of
    Some v \<Rightarrow> (case json_norm v of Some w \<Rightarrow> w | None \<Rightarrow> JUndefined) | None \<Rightarrow> JUndefined)"
  by (simp add: encodePacket_def json_props_field[OF packet_object_wf] split: option.splits)

lemma encodePacket_fields:
  "is_object (encodePacket p)"
  "jfield (encodePacket p) ''version'' = (case json_norm (pk_version p) of Some w \<Rightarrow> w | None \<Rightarrow> JUndefined)"
  "jfield (encodePacket p) ''id'' = JString (pk_id p)"
  "jfield (encodePacket p) ''type'' = JString (type_name (pk_type p))"
  "jfield (encodePacket p) ''source'' = JString (pk_source p)"
  "jfield (encodePacket p) ''destination'' = (case json_norm (pk_destination p) of Some w \<Rightarrow> w | None \<Rightarrow> JUndefined)"
  "jfield (encodePacket p) ''ttl'' = (if num_finite (pk_ttl p) then JNumber (pk_ttl p) else JNull)"
  "jfield (encodePacket p) ''timestamp'' = (case json_norm (pk_timestamp p) of Some w \<Rightarrow> w | None \<Rightarrow> JUndefined)"
  "jfield (encodePacket p) ''priority'' = (case json_norm (pk_priority p) of Some w \<Rightarrow> w | None \<Rightarrow> JUndefined)"
  "jfield (encodePacket p) ''payload'' = (case json_norm (pk_payload p) of Some w \<Rightarrow> w | None \<Rightarrow> JUndefined)"
  by (simp_all only: encodePacket_field) (simp_all add: packet_object_def encodePacket_def)

lemma known_type_names: "list_all (\<lambda>(s, t). message_type_of (type_name t) = t) message_types"
  by code_simp

lemma message_type_cases: "(\<exists>s. t = OtherType s) \<or> t \<in> set (map snd message_types)"
  unfolding message_types_def list.map snd_conv by (cases t) simp_all

lemma type_name_inverse:
  assumes "t \<notin> OtherType ` (fst ` set message_types)"
  shows "message_type_of (type_name t) = t"
proof -
  have "message_type_of (type_name t) = t" if "t \<in> set (map snd message_types)"
    using that known_type_names by (auto simp: list_all_iff)
  moreover have "message_type_of (type_name (OtherType s)) = OtherType s" if "t = OtherType s" for s
  proof -
    have "map_of message_types s = None"
      using assms that unfolding map_of_eq_None_iff by blast
    then show ?thesis by (simp add: type_name_def message_type_of_def)
  qed
  ultimately show ?thesis using message_type_cases[of t] by blast
qed

section \<open>Properties\<close>

text \<open>A packet built by \<open>createPacket\<close> with a whole or fractional finite TTL survives the wire:
  decoding its encoding gives the same packet back, with its payload normalised the way JSON does.\<close>

theorem packet_wire_roundtrip:
  assumes type: "t \<notin> OtherType ` (fst ` set message_types)" and payload: "json_norm pl = Some w"
  shows "decodePacket (encodePacket (createPacket uuid now t src pl dst ttl prio)) =
    Inr (createPacket uuid now t src w dst ttl prio)"
  by (cases dst) (simp_all add: decodePacket_def encodePacket_fields createPacket_def priority_val_def
    type_name_inverse[OF type] payload)

lemma packet_wire_roundtrip_witness:
  "decodePacket (encodePacket (createPacket ''u1'' 5 DATA ''n1'' (JObject [(''a'', JUndefined), (''b'', JNumber NaN)]) None (Some 3) None)) =
    Inr (createPacket ''u1'' 5 DATA ''n1'' (JObject [(''b'', JNull)]) None (Some 3) None)"
  by (rule packet_wire_roundtrip) auto

lemma pq_index_class:
  assumes "i < n"
  shows "pq_index n p = i \<longleftrightarrow> p = Num (of_nat i) \<or> (i = n - 1 \<and> p \<notin> (\<lambda>j. Num (of_nat j)) ` {..<n})"
proof (cases "\<exists>j < n. p = Num (of_nat j)")
  case True
  then obtain j where j: "j < n" "p = Num (of_nat j)" by blast
  then have "pq_index n p = j" by (simp add: pq_index_def)
  with j show ?thesis by auto
next
  case False
  have "pq_index n p = n - 1"
  proof (rule ccontr)
    assume "pq_index n p \<noteq> n - 1"
    then obtain k where k: "as_integer (JNumber p) = Some k" "0 \<le> k" "k < int n" by (auto simp: pq_index_def split: option.splits if_splits)
    have "p = Num (of_int k)" using k(1) by (cases p) (auto split: if_splits)
    moreover have "of_int k = (of_nat (nat k) :: rat)" using k(2) by simp
    moreover have "nat k < n" using k(2,3) by simp
    ultimately show False using False by metis
  qed
  with False assms show ?thesis by auto
qed

text \<open>C40: Packets enqueued under any priorities and then drained leave by priority class, the most urgent first: all items
  of priority 0 in the order they arrived, then those of priority 1, and so on; an item whose priority is not one of
  the classes leaves with the last class, in its place among the arrivals. Nothing is lost.\<close>

theorem queue_drains_in_priority_order:
  assumes "0 < n"
  shows "\<exists>q. pq_enqueue_all xs (pq_new n) = Some q \<and>
    pq_drain (length xs) q = concat (map (\<lambda>i. map snd (filter (\<lambda>(p, x).
      p = Num (of_nat i) \<or> (i = n - 1 \<and> p \<notin> (\<lambda>j. Num (of_nat j)) ` {..<n})) xs)) [0..<n])"
proof -
  have "length (buckets (pq_new n)) = n" by (simp add: pq_new_def)
  from enqueue_all_buckets[OF assms this, of xs] obtain q where q: "pq_enqueue_all xs (pq_new n) = Some q" by auto
  have "sort_key (\<lambda>(p, x). pq_index n p) xs = concat (map (\<lambda>i. filter (\<lambda>z. (case z of (p, x) \<Rightarrow> pq_index n p) = i) xs) [0..<n])"
    using pq_index_bound[OF assms] by (intro sort_key_concat) auto
  then have "pq_drain (length xs) q = concat (map (\<lambda>i. map snd (filter (\<lambda>(p, x). pq_index n p = i) xs)) [0..<n])"
    using drain_is_stable_sort[OF assms q] by (simp add: map_concat comp_def case_prod_unfold)
  moreover have "filter (\<lambda>(p, x). pq_index n p = i) xs =
      filter (\<lambda>(p, x). p = Num (of_nat i) \<or> (i = n - 1 \<and> p \<notin> (\<lambda>j. Num (of_nat j)) ` {..<n})) xs" if "i < n" for i
    using pq_index_class[OF that] by (auto intro: filter_cong)
  ultimately have "pq_drain (length xs) q = concat (map (\<lambda>i. map snd (filter (\<lambda>(p, x).
      p = Num (of_nat i) \<or> (i = n - 1 \<and> p \<notin> (\<lambda>j. Num (of_nat j)) ` {..<n})) xs)) [0..<n])"
    by (auto intro!: arg_cong[where f = concat] map_cong)
  with q show ?thesis by blast
qed

lemma queue_drains_in_priority_order_witness:
  "\<exists>q. pq_enqueue_all [(Num 1, ''bulk''), (Num 0, ''sos''), (Num (-7), ''bad''), (Num 0, ''sos2'')] (pq_new 2) = Some q \<and>
    pq_drain (length [(Num 1, ''bulk''), (Num 0, ''sos''), (Num (-7), ''bad''), (Num 0, ''sos2'')]) q =
      [''sos'', ''sos2'', ''bulk'', ''bad'']"
proof -
  have "concat (map (\<lambda>i. map snd (filter (\<lambda>(p, x). p = Num (of_nat i) \<or> (i = 2 - 1 \<and> p \<notin> (\<lambda>j. Num (of_nat j)) ` {..<(2::nat)}))
      [(Num 1, ''bulk''), (Num 0, ''sos''), (Num (-7), ''bad''), (Num 0, ''sos2'')])) [0..<2]) = [''sos'', ''sos2'', ''bulk'', ''bad'']"
    by (auto simp: numeral_2_eq_2 lessThan_Suc)
  with queue_drains_in_priority_order[of 2 "[(Num 1, ''bulk''), (Num 0, ''sos''), (Num (-7), ''bad''), (Num 0, ''sos2'')]"]
  show ?thesis by simp
qed

end
