(* ===== verification/Routing.thy ===== *)
theory Routing
  imports BoundedMap Packet
begin

text \<open>
  \<open>node/src/routing.ts\<close> and \<open>node/src/routing-table.ts\<close>: the duplicate cache, the controlled-flooding
  decision taken for every received packet, and the distance-vector table of next hops.
\<close>

section \<open>The duplicate cache\<close>

type_synonym seen_cache = "(string, time) bounded_map"

definition seen_new :: "jsnum option \<Rightarrow> seen_cache" where
  "seen_new maxSize = bm_new (Some (case maxSize of Some n \<Rightarrow> n | None \<Rightarrow> Num 4096))"

definition hasSeen :: "seen_cache \<Rightarrow> string \<Rightarrow> bool" where
  "hasSeen c i = bm_has c i"

definition markSeenId :: "time \<Rightarrow> string \<Rightarrow> seen_cache \<Rightarrow> seen_cache" where
  "markSeenId now i c = (if bm_has c i then c else bm_put None i now c)"

lemma markSeenId_ok [intro]: "bm_ok c \<Longrightarrow> bm_ok (markSeenId now i c)"
  by (auto simp: markSeenId_def)

lemma markSeenId_max [simp]: "bm_max (markSeenId now i c) = bm_max c"
  by (simp add: markSeenId_def)

lemma markSeenId_has: "\<not> num_le (bm_max c) (Num 0) \<Longrightarrow> hasSeen (markSeenId now i c) i"
  by (auto simp: markSeenId_def hasSeen_def bm_has_get bm_set_get_same)

section \<open>The forwarding decision\<close>

record 'p forward_decision =
  duplicate :: bool
  deliverLocally :: bool
  forwardPacket :: "'p packet option"

definition decideForward :: "time \<Rightarrow> 'p packet \<Rightarrow> string \<Rightarrow> seen_cache \<Rightarrow> 'p forward_decision \<times> seen_cache" where
  "decideForward now packet localNodeId seenCache =
     (if hasSeen seenCache (pk_id packet)
      then (\<lparr>duplicate = True, deliverLocally = False, forwardPacket = None\<rparr>, seenCache)
      else
        let seen' = markSeenId now (pk_id packet) seenCache;
            isUnicastForMe = (pk_destination packet = JString localNodeId);
            isBroadcast = (pk_destination packet = JUndefined);
            shouldForward = (\<not> isUnicastForMe \<and> num_lt (Num 0) (pk_ttl packet))
        in (\<lparr>duplicate = False, deliverLocally = (isUnicastForMe \<or> isBroadcast),
             forwardPacket = (if shouldForward then Some (packet\<lparr>pk_ttl := num_add (pk_ttl packet) (-1)\<rparr>) else None)\<rparr>,
            seen'))"

section \<open>The routing table\<close>

record route_entry =
  nextHop :: string
  cost :: rat

record routing_table =
  routes :: "(string, route_entry) bounded_map"
  rt_maxCost :: jsnum

definition rt_new :: "jsnum option \<Rightarrow> jsnum option \<Rightarrow> routing_table" where
  "rt_new maxSize maxCost =
     \<lparr>routes = bm_new (Some (case maxSize of Some n \<Rightarrow> n | None \<Rightarrow> Num 4096)),
      rt_maxCost = (case maxCost of Some c \<Rightarrow> c | None \<Rightarrow> Num 64)\<rparr>"

text \<open>The eviction score: the trust rank of the next hop, when a \<open>trustRank\<close> was given.\<close>

definition rt_score :: "(string \<Rightarrow> jsnum) option \<Rightarrow> (string, route_entry) score" where
  "rt_score trustRank = map_option (\<lambda>rank destination entry. rank (nextHop entry)) trustRank"

definition offer :: "(string \<Rightarrow> jsnum) option \<Rightarrow> string \<Rightarrow> string \<Rightarrow> jsnum \<Rightarrow> routing_table \<Rightarrow> bool \<times> routing_table" where
  "offer trustRank destination hop c t =
     (if destination = hop \<and> c \<noteq> Num 1 then (False, t)
      else if \<not> num_finite c \<or> num_le c (Num 0) \<or> num_lt (rt_maxCost t) c then (False, t)
      else
        let c' = (case c of Num r \<Rightarrow> r | _ \<Rightarrow> 0);
            keep = (case bm_get (routes t) destination of
              Some existing \<Rightarrow> (if nextHop existing = hop then cost existing = c' else cost existing \<le> c')
            | None \<Rightarrow> False)
        in if keep then (False, t)
           else (True, t\<lparr>routes := bm_put (rt_score trustRank) destination \<lparr>nextHop = hop, cost = c'\<rparr> (routes t)\<rparr>))"

definition withdraw :: "string \<Rightarrow> string \<Rightarrow> routing_table \<Rightarrow> bool \<times> routing_table" where
  "withdraw destination viaNextHop t =
     (case bm_get (routes t) destination of
        None \<Rightarrow> (False, t)
      | Some existing \<Rightarrow>
          if nextHop existing \<noteq> viaNextHop then (False, t)
          else (True, t\<lparr>routes := bm_delete destination (routes t)\<rparr>))"

text \<open>Deleting the entry under the iterator of a \<open>Map\<close> is safe: the walk sees every entry once.\<close>

definition removeRoutesVia :: "string \<Rightarrow> routing_table \<Rightarrow> string list \<times> routing_table" where
  "removeRoutesVia peerId t =
     (map fst (filter (\<lambda>(d, e). nextHop e = peerId) (bm_map (routes t))),
      t\<lparr>routes := (routes t)\<lparr>bm_map := filter (\<lambda>(d, e). nextHop e \<noteq> peerId) (bm_map (routes t))\<rparr>\<rparr>)"

definition bestRoute :: "routing_table \<Rightarrow> string \<Rightarrow> route_entry option" where
  "bestRoute t destination = bm_get (routes t) destination"

definition rt_has :: "routing_table \<Rightarrow> string \<Rightarrow> bool" where
  "rt_has t destination = bm_has (routes t) destination"

definition rt_list :: "routing_table \<Rightarrow> (string \<times> string \<times> rat) list" where
  "rt_list t = map (\<lambda>(d, e). (d, nextHop e, cost e)) (bm_map (routes t))"

definition rt_size :: "routing_table \<Rightarrow> nat" where
  "rt_size t = bm_size (routes t)"

section \<open>Invariant of the table\<close>

text \<open>Costs are positive and within the limit, and the only cost of a direct route is 1.\<close>

definition route_ok :: "jsnum \<Rightarrow> string \<Rightarrow> route_entry \<Rightarrow> bool" where
  "route_ok maxCost d e \<longleftrightarrow> 0 < cost e \<and> \<not> num_lt maxCost (Num (cost e)) \<and> (d = nextHop e \<longrightarrow> cost e = 1)"

definition rt_ok :: "routing_table \<Rightarrow> bool" where
  "rt_ok t \<longleftrightarrow> bm_ok (routes t) \<and>
     (\<forall>d e. bm_get (routes t) d = Some e \<longrightarrow> route_ok (rt_maxCost t) d e)"

lemma rt_new_ok: "rt_ok (rt_new n c)"
  by (simp add: rt_ok_def rt_new_def)

lemma offer_max [simp]: "rt_maxCost (snd (offer tr d h c t)) = rt_maxCost t"
  by (simp add: offer_def Let_def)

lemma offer_rejects: "\<not> fst (offer tr d h c t) \<Longrightarrow> snd (offer tr d h c t) = t"
  by (auto simp: offer_def Let_def split: if_splits option.splits)

text \<open>When an offer is adopted, what it offered is admissible and better.\<close>

lemma offer_adopts:
  assumes "fst (offer tr d h c t)"
  obtains r where "c = Num r" "0 < r" "\<not> num_lt (rt_maxCost t) (Num r)" "d = h \<longrightarrow> r = 1"
    "snd (offer tr d h c t) = t\<lparr>routes := bm_put (rt_score tr) d \<lparr>nextHop = h, cost = r\<rparr> (routes t)\<rparr>"
    "\<And>e. bm_get (routes t) d = Some e \<Longrightarrow> nextHop e \<noteq> h \<Longrightarrow> r < cost e"
    "\<And>e. bm_get (routes t) d = Some e \<Longrightarrow> nextHop e = h \<Longrightarrow> r \<noteq> cost e"
proof -
  from assms have fin: "num_finite c" by (auto simp: offer_def Let_def split: if_splits)
  then obtain r where r: "c = Num r" by (cases c) auto
  show ?thesis
    by (rule that[of r]) (use assms in \<open>auto simp: r offer_def Let_def split: if_splits option.splits\<close>)
qed

lemma offer_ok: "rt_ok t \<Longrightarrow> rt_ok (snd (offer tr d h c t))"
proof (cases "fst (offer tr d h c t)")
  case False
  then show "rt_ok t \<Longrightarrow> ?thesis" by (simp add: offer_rejects)
next
  case True
  assume ok: "rt_ok t"
  from True obtain r where r: "0 < r" "\<not> num_lt (rt_maxCost t) (Num r)" "d = h \<longrightarrow> r = 1"
    and t': "snd (offer tr d h c t) = t\<lparr>routes := bm_put (rt_score tr) d \<lparr>nextHop = h, cost = r\<rparr> (routes t)\<rparr>"
    by (rule offer_adopts)
  then have new: "route_ok (rt_maxCost t) d \<lparr>nextHop = h, cost = r\<rparr>" by (simp add: route_ok_def)
  have "route_ok (rt_maxCost t) d' e'"
    if "bm_get (bm_put (rt_score tr) d \<lparr>nextHop = h, cost = r\<rparr> (routes t)) d' = Some e'" for d' e'
    using bm_set_frame[OF that] ok new by (auto simp: rt_ok_def)
  with ok show ?thesis unfolding t' by (auto simp: rt_ok_def)
qed

lemma withdraw_ok: "rt_ok t \<Longrightarrow> rt_ok (snd (withdraw d h t))"
  by (auto simp: withdraw_def rt_ok_def split: option.splits)

lemma removeRoutesVia_get:
  assumes "bm_ok (routes t)"
  shows "bm_get (routes (snd (removeRoutesVia p t))) d =
    (case bm_get (routes t) d of Some e \<Rightarrow> if nextHop e = p then None else Some e | None \<Rightarrow> None)"
  using assms map_of_filter_wf[of "bm_map (routes t)" "\<lambda>d e. nextHop e \<noteq> p" d]
  by (auto simp: removeRoutesVia_def bm_get_def bm_ok_def split: option.splits)

lemma removeRoutesVia_ok:
  assumes "rt_ok t"
  shows "rt_ok (snd (removeRoutesVia p t))"
proof -
  let ?m = "bm_map (routes t)"
  let ?f = "filter (\<lambda>(d, e). nextHop e \<noteq> p) ?m"
  from assms have ok: "bm_ok (routes t)" by (simp add: rt_ok_def)
  have "length ?f \<le> length ?m" by (rule length_filter_le)
  with ok have "bm_ok ((routes t)\<lparr>bm_map := ?f\<rparr>)"
    by (auto simp: bm_ok_def bm_size_def intro: within_limit_mono)
  with assms removeRoutesVia_get[OF ok, of p] show ?thesis
    by (auto simp: rt_ok_def removeRoutesVia_def split: option.splits if_splits)
qed

lemma withdraw_get:
  "bm_get (routes (snd (withdraw d h t))) d' =
    (if d' = d \<and> (\<exists>e. bm_get (routes t) d = Some e \<and> nextHop e = h) then None else bm_get (routes t) d')"
  by (auto simp: withdraw_def split: option.splits)

datatype route_op =
    Offer "(string \<Rightarrow> jsnum) option" string string jsnum
  | Withdraw string string
  | RemoveVia string

fun rt_step :: "routing_table \<Rightarrow> route_op \<Rightarrow> routing_table" where
  "rt_step t (Offer tr d h c) = snd (offer tr d h c t)"
| "rt_step t (Withdraw d h) = snd (withdraw d h t)"
| "rt_step t (RemoveVia p) = snd (removeRoutesVia p t)"

interpretation route_run: step_invariant rt_step rt_ok
proof
  show "rt_ok t \<Longrightarrow> rt_ok (rt_step t e)" for t e
    by (cases e) (simp_all add: offer_ok withdraw_ok removeRoutesVia_ok)
qed

lemma rt_step_max [simp]: "rt_maxCost (rt_step t e) = rt_maxCost t"
  by (cases e) (auto simp: withdraw_def removeRoutesVia_def split: option.splits)

lemma rt_step_limit [simp]: "bm_max (routes (rt_step t e)) = bm_max (routes t)"
  by (cases e) (auto simp: withdraw_def removeRoutesVia_def offer_def Let_def split: option.splits)

lemma rt_run_max [simp]:
  "rt_maxCost (foldl rt_step t es) = rt_maxCost t"
  "bm_max (routes (foldl rt_step t es)) = bm_max (routes t)"
  by (induction es arbitrary: t) auto

section \<open>Properties\<close>

text \<open>The forwarding decision. The first sight of a packet id is delivered locally exactly when it is
  addressed to this node or a broadcast, and forwarded exactly when it is not addressed to this node and its
  TTL is positive, with the TTL one lower and nothing else changed; the id is then remembered, so the same
  id arriving again (from any peer, with any TTL or content) is neither delivered nor forwarded.\<close>

theorem forwarding_decision:
  assumes fresh: "\<not> hasSeen c (pk_id p)" and room: "\<not> num_le (bm_max c) (Num 0)"
    and same: "pk_id p' = pk_id p"
  shows "(let (d, c') = decideForward now p me c in
     (deliverLocally d \<longleftrightarrow> pk_destination p \<in> {JString me, JUndefined}) \<and>
     forwardPacket d = (if pk_destination p \<noteq> JString me \<and> num_lt (Num 0) (pk_ttl p)
                        then Some (p\<lparr>pk_ttl := num_add (pk_ttl p) (-1)\<rparr>) else None) \<and>
     decideForward later p' me' c' = (\<lparr>duplicate = True, deliverLocally = False, forwardPacket = None\<rparr>, c'))"
  using fresh same markSeenId_has[OF room, of now "pk_id p"]
  by (auto simp: decideForward_def Let_def)

lemma forwarding_decision_witness:
  "(let (d, c') = decideForward 7 (createPacket ''u'' 1 DATA ''src'' () None (Some 1) None) ''me'' (seen_new None) in
     (deliverLocally d \<longleftrightarrow> True) \<and>
     decideForward 9 (createPacket ''u'' 2 DATA ''evil'' () (Some ''x'') (Some 99) None) ''me'' c' =
       (\<lparr>duplicate = True, deliverLocally = False, forwardPacket = None\<rparr>, c'))"
proof -
  let ?p = "createPacket ''u'' 1 DATA ''src'' () None (Some 1) None :: unit packet"
  let ?q = "createPacket ''u'' 2 DATA ''evil'' () (Some ''x'') (Some 99) None :: unit packet"
  have "\<not> hasSeen (seen_new None) (pk_id ?p)" by (simp add: seen_new_def hasSeen_def bm_has_get)
  moreover have "\<not> num_le (bm_max (seen_new None)) (Num 0)" by (simp add: seen_new_def bm_new_def)
  moreover have "pk_id ?q = pk_id ?p" by (simp add: createPacket_def)
  moreover have "pk_destination ?p = JUndefined" by (simp add: createPacket_def)
  ultimately show ?thesis
    using forwarding_decision[of "seen_new None" ?p ?q 7 "''me''" 9 "''me''"]
    by (auto split: prod.splits)
qed

text \<open>Whatever routes peers announce, withdraw or take down with them, every route of the table has a
  positive cost within the limit, a direct route costs exactly 1, and the table stays within its size.\<close>

theorem routing_table_invariant:
  "rt_ok (foldl rt_step (rt_new (Some (Num (of_nat n))) (Some maxCost)) ops) \<and>
   rt_size (foldl rt_step (rt_new (Some (Num (of_nat n))) (Some maxCost)) ops) \<le> n \<and>
   list_all (\<lambda>(d, h, c). 0 < c \<and> \<not> num_lt maxCost (Num c) \<and> (if d = h then c = 1 else True))
     (rt_list (foldl rt_step (rt_new (Some (Num (of_nat n))) (Some maxCost)) ops))"
proof -
  let ?t = "foldl rt_step (rt_new (Some (Num (of_nat n))) (Some maxCost)) ops"
  have ok: "rt_ok ?t" by (rule route_run.run_inv) (rule rt_new_ok)
  have mc: "rt_maxCost ?t = maxCost" by (simp add: rt_new_def)
  have mx: "bm_max (routes ?t) = Num (of_nat n)" by (simp add: rt_new_def bm_new_def)
  from ok mx have "rt_size ?t \<le> n"
    by (simp add: rt_ok_def bm_ok_def rt_size_def within_limit_nat del: within_limit.simps)
  moreover have "route_ok maxCost d e" if "(d, e) \<in> set (bm_map (routes ?t))" for d e
    using ok that mc by (auto simp: rt_ok_def bm_get_in)
  ultimately show ?thesis using ok by (auto simp: rt_list_def route_ok_def list_all_iff)
qed

text \<open>Taking down a peer removes exactly the routes through it: what is reported is what disappears,
  no remaining route goes through the peer and every other route is untouched.\<close>

theorem removeRoutesVia_exact:
  assumes ok: "rt_ok t"
  shows "(\<forall>d. d \<in> set (fst (removeRoutesVia p t)) \<longleftrightarrow> (\<exists>e. bestRoute t d = Some e \<and> nextHop e = p)) \<and>
    (\<forall>d. bestRoute (snd (removeRoutesVia p t)) d =
       (if d \<in> set (fst (removeRoutesVia p t)) then None else bestRoute t d))"
proof -
  from ok have b: "bm_ok (routes t)" by (simp add: rt_ok_def)
  have m: "d \<in> set (fst (removeRoutesVia p t)) \<longleftrightarrow> (\<exists>e. bestRoute t d = Some e \<and> nextHop e = p)" for d
    using bm_get_in[OF b] by (force simp: removeRoutesVia_def bestRoute_def)
  then show ?thesis
    by (auto simp: bestRoute_def removeRoutesVia_get[OF b] split: option.splits)
qed

lemma removeRoutesVia_exact_witness:
  "bestRoute (snd (removeRoutesVia ''p'' (snd (offer None ''d'' ''p'' (Num 2) (rt_new None None))))) ''d'' = None"
proof -
  let ?t = "snd (offer None ''d'' ''p'' (Num 2) (rt_new None None))"
  have "rt_ok ?t" by (simp add: offer_ok rt_new_ok)
  note eff = removeRoutesVia_exact[OF this, of "''p''"]
  have "bestRoute ?t ''d'' = Some \<lparr>nextHop = ''p'', cost = 2\<rparr>"
    by (simp add: offer_def rt_new_def bestRoute_def bm_new_def bm_get_def bm_set_def bm_has_def bm_size_def)
  with eff have "''d'' \<in> set (fst (removeRoutesVia ''p'' ?t))" by simp
  with eff show ?thesis by simp
qed

text \<open>An offer with a whole-number cost can never take a direct neighbour's route away, through
  whatever next hop it comes.\<close>

theorem whole_offers_keep_direct_routes:
  assumes ok: "rt_ok t" and direct: "bestRoute t d = Some \<lparr>nextHop = d, cost = 1\<rparr>"
  shows "offer tr d h (Num (of_int k)) t = (False, t)"
proof (cases "fst (offer tr d h (Num (of_int k)) t)")
  case True
  then obtain r where r: "Num (of_int k) = Num r" "0 < r" "\<not> num_lt (rt_maxCost t) (Num r)" "d = h \<longrightarrow> r = 1"
    "snd (offer tr d h (Num (of_int k)) t) = t\<lparr>routes := bm_put (rt_score tr) d \<lparr>nextHop = h, cost = r\<rparr> (routes t)\<rparr>"
    and other: "\<And>e. bm_get (routes t) d = Some e \<Longrightarrow> nextHop e \<noteq> h \<Longrightarrow> r < cost e"
    and own: "\<And>e. bm_get (routes t) d = Some e \<Longrightarrow> nextHop e = h \<Longrightarrow> r \<noteq> cost e"
    by (rule offer_adopts) (rule that)
  from direct have g: "bm_get (routes t) d = Some \<lparr>nextHop = d, cost = 1\<rparr>" by (simp add: bestRoute_def)
  from r have k: "0 < k" "r = of_int k" by auto
  have False
  proof (cases "h = d")
    case True
    with own[OF g] r show ?thesis by auto
  next
    case False
    with other[OF g] k show ?thesis by auto
  qed
  then show ?thesis ..
next
  case False
  then show ?thesis using offer_rejects[OF False] by (simp add: prod_eq_iff)
qed

lemma whole_offers_keep_direct_routes_witness:
  "offer None ''d'' ''evil'' (Num (of_int 1)) (snd (offer None ''d'' ''d'' (Num 1) (rt_new None None))) =
    (False, snd (offer None ''d'' ''d'' (Num 1) (rt_new None None)))"
  by (rule whole_offers_keep_direct_routes)
    (simp_all add: offer_ok rt_new_ok, simp add: offer_def rt_new_def bestRoute_def bm_new_def bm_get_def bm_set_def bm_has_def bm_size_def)

text \<open>A fractional cost is admitted by the table although costs are meant to be hop counts, and it takes
  a direct neighbour's route away: the offer of 1/2 through another peer is adopted over the direct route.\<close>

theorem fractional_offer_displaces_direct_route:
  "\<exists>t. rt_ok t \<and> bestRoute t ''d'' = Some \<lparr>nextHop = ''d'', cost = 1\<rparr> \<and>
     fst (offer None ''d'' ''evil'' (Num (1 / 2)) t) \<and>
     bestRoute (snd (offer None ''d'' ''evil'' (Num (1 / 2)) t)) ''d'' = Some \<lparr>nextHop = ''evil'', cost = 1 / 2\<rparr>"
  by (rule exI[of _ "snd (offer None ''d'' ''d'' (Num 1) (rt_new None None))"])
    (simp add: offer_ok rt_new_ok, simp add: offer_def rt_new_def bestRoute_def bm_new_def bm_get_def bm_set_def bm_has_def bm_size_def)

end
