(* ===== verification/RateLimit.thy ===== *)
theory RateLimit
  imports BoundedMap
begin

text \<open>
  \<open>node/src/rate-limit.ts\<close> and \<open>node/src/relay-policy.ts\<close>: the fixed-window packet budget of each
  peer, and whether the node spends energy on relaying right now.
\<close>

section \<open>Packet budget per peer\<close>

record peer_window =
  win_count :: nat
  win_start :: time

record rate_limiter =
  windows :: "(string, peer_window) bounded_map"
  maxPacketsPerWindow :: jsnum
  windowMs :: time

definition rl_new :: "jsnum option \<Rightarrow> time option \<Rightarrow> jsnum option \<Rightarrow> rate_limiter" where
  "rl_new maxPackets ms maxTracked =
     \<lparr>windows = bm_new (Some (case maxTracked of Some n \<Rightarrow> n | None \<Rightarrow> Num 4096)),
      maxPacketsPerWindow = (case maxPackets of Some n \<Rightarrow> n | None \<Rightarrow> Num 200),
      windowMs = (case ms of Some n \<Rightarrow> n | None \<Rightarrow> 1000)\<rparr>"

text \<open>\<open>window.count += 1\<close> writes through the reference the map holds: on a live window it changes the
  stored entry in place; a fresh window is stored by \<open>set\<close>, which may refuse or evict, and counts 1.\<close>

definition allow :: "time \<Rightarrow> string \<Rightarrow> rate_limiter \<Rightarrow> bool \<times> rate_limiter" where
  "allow now peerId l =
     (case bm_get (windows l) peerId of
        Some w \<Rightarrow>
          if now - win_start w \<ge> windowMs l
          then (num_le (Num 1) (maxPacketsPerWindow l),
                l\<lparr>windows := bm_put None peerId \<lparr>win_count = 1, win_start = now\<rparr> (windows l)\<rparr>)
          else
            let w' = w\<lparr>win_count := win_count w + 1\<rparr> in
            (num_le (Num (of_nat (win_count w'))) (maxPacketsPerWindow l),
             l\<lparr>windows := (windows l)\<lparr>bm_map := map_put peerId w' (bm_map (windows l))\<rparr>\<rparr>)
      | None \<Rightarrow>
          (num_le (Num 1) (maxPacketsPerWindow l),
           l\<lparr>windows := bm_put None peerId \<lparr>win_count = 1, win_start = now\<rparr> (windows l)\<rparr>))"

definition reset :: "string \<Rightarrow> rate_limiter \<Rightarrow> rate_limiter" where
  "reset peerId l = l\<lparr>windows := bm_delete peerId (windows l)\<rparr>"

definition rl_ok :: "rate_limiter \<Rightarrow> bool" where
  "rl_ok l \<longleftrightarrow> bm_ok (windows l)"

lemma allow_config [simp]:
  "maxPacketsPerWindow (snd (allow now p l)) = maxPacketsPerWindow l"
  "windowMs (snd (allow now p l)) = windowMs l"
  "bm_max (windows (snd (allow now p l))) = bm_max (windows l)"
  by (auto simp: allow_def Let_def split: option.splits)

lemma put_known_ok: "bm_ok m \<Longrightarrow> bm_get m k \<noteq> None \<Longrightarrow> bm_ok (m\<lparr>bm_map := map_put k v (bm_map m)\<rparr>)"
  by (auto simp: bm_ok_def bm_size_def bm_get_def map_put_length_old)

lemma allow_ok: "rl_ok l \<Longrightarrow> rl_ok (snd (allow now p l))"
  by (auto simp: rl_ok_def allow_def Let_def put_known_ok split: option.splits)

lemma reset_ok: "rl_ok l \<Longrightarrow> rl_ok (reset p l)"
  by (auto simp: rl_ok_def reset_def)

datatype limiter_op = Allow time string | Reset string

fun rl_step :: "rate_limiter \<Rightarrow> limiter_op \<Rightarrow> rate_limiter" where
  "rl_step l (Allow now p) = snd (allow now p l)"
| "rl_step l (Reset p) = reset p l"

interpretation limiter_run: step_invariant rl_step rl_ok
proof
  show "rl_ok l \<Longrightarrow> rl_ok (rl_step l e)" for l e
    by (cases e) (simp_all add: allow_ok reset_ok)
qed

lemma rl_step_max [simp]: "bm_max (windows (rl_step l e)) = bm_max (windows l)"
  by (cases e) (auto simp: reset_def)

lemma rl_run_max [simp]: "bm_max (windows (foldl rl_step l es)) = bm_max (windows l)"
  by (induction es arbitrary: l) auto

section \<open>The budget over a run\<close>

text \<open>Packets from any peers, each with its arrival time; the verdicts in order.\<close>

fun allow_all :: "(time \<times> string) list \<Rightarrow> rate_limiter \<Rightarrow> bool list \<times> rate_limiter" where
  "allow_all [] l = ([], l)"
| "allow_all ((now, p) # es) l =
     (let (b, l') = allow now p l; (bs, l'') = allow_all es l' in (b # bs, l''))"

text \<open>How many packets of peer \<open>p\<close> were let through.\<close>

definition passed :: "string \<Rightarrow> (time \<times> string) list \<Rightarrow> bool list \<Rightarrow> nat" where
  "passed p es bs = length (filter (\<lambda>((now, q), b). q = p \<and> b) (zip es bs))"

text \<open>Room for every peer of a run: a map that holds all of them is never full.\<close>

definition has_room :: "string set \<Rightarrow> rate_limiter \<Rightarrow> bool" where
  "has_room P l \<longleftrightarrow> finite P \<and> set (bm_keys (windows l)) \<subseteq> P \<and>
     (\<forall>n \<le> card P. n > 0 \<longrightarrow> \<not> num_le (bm_max (windows l)) (Num (of_nat (n - 1))))"

lemma has_room_pos: "has_room P l \<Longrightarrow> p \<in> P \<Longrightarrow> \<not> num_le (bm_max (windows l)) (Num 0)"
proof -
  assume r: "has_room P l" "p \<in> P"
  then have "card P > 0" by (auto simp: has_room_def card_gt_0_iff)
  with r show ?thesis by (auto simp: has_room_def dest!: spec[of _ 1])
qed

lemma has_room_space:
  assumes ok: "rl_ok l" and r: "has_room P l" and p: "p \<in> P" and new: "bm_get (windows l) p = None"
  shows "\<not> num_le (bm_max (windows l)) (Num (of_nat (bm_size (windows l))))"
proof -
  let ?K = "set (bm_keys (windows l))"
  from ok have "map_wf (bm_map (windows l))" by (simp add: rl_ok_def bm_ok_def)
  then have size: "bm_size (windows l) = card ?K"
    unfolding bm_size_def bm_keys_def by (metis distinct_card length_map)
  from new have "p \<notin> ?K" by (simp add: bm_get_def bm_keys_def map_of_eq_None_iff)
  with r p have "?K \<subset> P" by (auto simp: has_room_def)
  with r have "card ?K < card P" by (auto simp: has_room_def intro: psubset_card_mono)
  with r have "\<not> num_le (bm_max (windows l)) (Num (of_nat (Suc (card ?K) - 1)))"
    unfolding has_room_def by (metis Suc_leI zero_less_Suc)
  with size show ?thesis by simp
qed

lemma bm_get_write [simp]:
  "bm_get (m\<lparr>bm_map := map_put k v (bm_map m)\<rparr>) q = (if q = k then Some v else bm_get m q)"
  by (simp add: bm_get_def)

lemma allow_get:
  assumes ok: "rl_ok l" and r: "has_room P l" and p: "p \<in> P"
  shows "bm_get (windows (snd (allow now p l))) q =
    (if q = p then Some (case bm_get (windows l) p of
         Some w \<Rightarrow> if now - win_start w \<ge> windowMs l then \<lparr>win_count = 1, win_start = now\<rparr>
                   else w\<lparr>win_count := win_count w + 1\<rparr>
       | None \<Rightarrow> \<lparr>win_count = 1, win_start = now\<rparr>)
     else bm_get (windows l) q)"
proof (cases "bm_get (windows l) p")
  case None
  with has_room_space[OF ok r p None] has_room_pos[OF r p] show ?thesis
    by (simp add: allow_def bm_set_room)
next
  case (Some w)
  then have "bm_has (windows l) p" by (simp add: bm_has_get)
  with has_room_pos[OF r p] Some show ?thesis
    by (auto simp: allow_def Let_def bm_set_known)
qed

lemma bm_keys_get: "set (bm_keys m) = {k. bm_get m k \<noteq> None}"
  by (auto simp: bm_keys_def bm_get_def map_of_eq_None_iff)

lemma allow_room:
  assumes "rl_ok l" and "has_room P l" and "p \<in> P"
  shows "has_room P (snd (allow now p l))"
  using assms allow_get[OF assms, of now] by (auto simp: has_room_def bm_keys_get split: if_splits)

text \<open>While one window lasts, a peer with \<open>c\<close> packets already counted passes at most the rest of the
  budget, whatever the other peers send.\<close>

lemma passed_Cons: "passed p ((now, q) # es) (b # bs) = (if q = p \<and> b then 1 else 0) + passed p es bs"
  by (simp add: passed_def)

lemma budget_rest:
  assumes "rl_ok l" and "has_room P l" and "snd ` set es \<subseteq> P"
    and "bm_get (windows l) p = Some w" and "\<forall>(now, q) \<in> set es. now - win_start w < windowMs l"
    and "maxPacketsPerWindow l = Num (of_nat b)"
  shows "passed p es (fst (allow_all es l)) \<le> b - win_count w"
  using assms
proof (induction es arbitrary: l w)
  case Nil
  then show ?case by (simp add: passed_def)
next
  case (Cons e es)
  obtain now q where e: "e = (now, q)" by (cases e)
  obtain v l' where a: "allow now q l = (v, l')" by (cases "allow now q l")
  have q: "q \<in> P" using Cons.prems e by auto
  have l': "rl_ok l'" "has_room P l'" "windowMs l' = windowMs l" "maxPacketsPerWindow l' = Num (of_nat b)"
    using allow_ok[OF Cons.prems(1), of now q] allow_room[OF Cons.prems(1,2) q, of now]
      allow_config[of now q l] Cons.prems(6) a by simp_all
  have fresh: "\<not> now - win_start w \<ge> windowMs l" using Cons.prems(5) e by auto
  define w' where "w' = (if q = p then w\<lparr>win_count := win_count w + 1\<rparr> else w)"
  have g: "bm_get (windows l') p = Some w'"
    using allow_get[OF Cons.prems(1,2) q, of now p] a fresh Cons.prems(4) by (auto simp: w'_def)
  have s: "win_start w' = win_start w" by (simp add: w'_def)
  have rest: "passed p es (fst (allow_all es l')) \<le> b - win_count w'"
    using Cons.prems(3,5) l' s by (intro Cons.IH[OF l'(1,2) _ g _ l'(4)]) auto
  have v: "v \<longleftrightarrow> Suc (win_count w) \<le> b" if "q = p"
  proof -
    have "v = num_le (Num (of_nat (win_count w + 1))) (maxPacketsPerWindow l)"
      using a that fresh Cons.prems(4) by (auto simp: allow_def Let_def)
    then have "v = (of_nat (Suc (win_count w)) \<le> (of_nat b :: rat))" by (simp add: Cons.prems(6))
    then show ?thesis by (simp only: of_nat_le_iff)
  qed
  have "fst (allow_all (e # es) l) = v # fst (allow_all es l')"
    by (simp add: e a split: prod.splits)
  with rest v show ?case by (auto simp: e passed_Cons w'_def)
qed

section \<open>Relay policy\<close>

datatype relay_mode = Off | Always | WhenCharging | BatteryAbove

record resource_state =
  batteryPercent :: "rat option"
  charging :: "bool option"

record relay_policy =
  rp_mode :: relay_mode
  batteryThreshold :: rat

definition rp_new :: "relay_mode option \<Rightarrow> rat option \<Rightarrow> relay_policy" where
  "rp_new mode threshold =
     \<lparr>rp_mode = (case mode of Some m \<Rightarrow> m | None \<Rightarrow> Always),
      batteryThreshold = (case threshold of Some t \<Rightarrow> t | None \<Rightarrow> 30)\<rparr>"

text \<open>\<open>canRelayNow\<close> on the resource snapshot the configured callback returns.\<close>

definition canRelayNow :: "relay_policy \<Rightarrow> resource_state \<Rightarrow> bool" where
  "canRelayNow p r = (case rp_mode p of
     Off \<Rightarrow> False
   | Always \<Rightarrow> True
   | WhenCharging \<Rightarrow> charging r = Some True
   | BatteryAbove \<Rightarrow> (case batteryPercent r of Some b \<Rightarrow> b \<ge> batteryThreshold p | None \<Rightarrow> False))"

section \<open>Properties\<close>

text \<open>While the limiter tracks every peer in play, a peer that opens a window at some moment gets at
  most its budget of packets through until that window ends, whatever order the packets of all peers arrive
  in.\<close>

theorem window_budget:
  assumes ok: "rl_ok l" and room: "has_room P l" and peers: "p \<in> P" "snd ` set es \<subseteq> P"
    and opens: "case bm_get (windows l) p of None \<Rightarrow> True | Some w \<Rightarrow> t - win_start w \<ge> windowMs l"
    and during: "\<forall>(now, q) \<in> set es. now - t < windowMs l"
    and budget: "maxPacketsPerWindow l = Num (of_nat b)"
  shows "passed p ((t, p) # es) (fst (allow_all ((t, p) # es) l)) \<le> b"
proof -
  obtain v l' where a: "allow t p l = (v, l')" by (cases "allow t p l")
  have l': "rl_ok l'" "has_room P l'" "windowMs l' = windowMs l" "maxPacketsPerWindow l' = Num (of_nat b)"
    using allow_ok[OF ok, of t p] allow_room[OF ok room peers(1), of t] allow_config[of t p l] budget a by simp_all
  have g: "bm_get (windows l') p = Some \<lparr>win_count = 1, win_start = t\<rparr>"
    using allow_get[OF ok room peers(1), of t p] a opens by (auto split: option.splits)
  have rest: "passed p es (fst (allow_all es l')) \<le> b - 1"
    using budget_rest[OF l'(1,2) peers(2) g _ l'(4)] during l'(3) by simp
  have "v = num_le (Num 1) (maxPacketsPerWindow l)"
    using a opens by (auto simp: allow_def split: option.splits)
  then have v: "v \<longleftrightarrow> 1 \<le> b"
    by (simp only: budget num_lt_Num of_nat_le_iff[of 1 b, where ?'a = rat, simplified])
      (metis of_nat_1 of_nat_le_iff)
  have "fst (allow_all ((t, p) # es) l) = v # fst (allow_all es l')" by (simp add: a split: prod.splits)
  with rest v show ?thesis by (auto simp: passed_Cons)
qed

lemma window_budget_witness:
  "passed ''a'' [(0, ''a''), (1, ''b''), (2, ''a''), (900, ''a'')]
     (fst (allow_all [(0, ''a''), (1, ''b''), (2, ''a''), (900, ''a'')] (rl_new (Some (Num 2)) None None))) \<le> 2"
proof (rule window_budget[where P = "{''a'', ''b''}"])
  have "finite {''a'', ''b''}" by simp
  moreover have "card {''a'', ''b''} = 2" by simp
  ultimately show "has_room {''a'', ''b''} (rl_new (Some (Num 2)) None None)"
    by (auto simp: has_room_def rl_new_def bm_new_def bm_keys_def le_Suc_eq numeral_2_eq_2)
  show "rl_ok (rl_new (Some (Num 2)) None None)" by (simp add: rl_ok_def rl_new_def)
qed (simp_all add: rl_new_def bm_new_def bm_get_def)

end
