(* ===== verification/StoreForward.thy ===== *)
theory StoreForward
  imports BoundedMap Packet
begin

text \<open>
  \<open>node/src/store-and-forward.ts\<close>: the queue of packets that could not be relayed yet, evicting the
  least urgent first, with a wall-clock deadline that an \<open>EMERGENCY\<close> packet does not have and that a
  retry never renews.
\<close>

record 'p delivery =
  dl_packet :: "'p packet"
  dl_except :: "string option"
  dl_expiresAt :: jsnum

record 'p pending_queue =
  pq_entries :: "(string, 'p delivery) bounded_map"
  pq_ttlMs :: time

definition pdq_new :: "time option \<Rightarrow> jsnum option \<Rightarrow> 'p pending_queue" where
  "pdq_new ttl maxSize =
     \<lparr>pq_entries = bm_new (Some (case maxSize of Some n \<Rightarrow> n | None \<Rightarrow> Num 256)),
      pq_ttlMs = (case ttl of Some t \<Rightarrow> t | None \<Rightarrow> 5 * 60 * 1000)\<rparr>"

definition dl_priority :: "'p delivery \<Rightarrow> priority" where
  "dl_priority d = priorityRank (pk_priority (dl_packet d))"

definition pdq_score :: "(string, 'p delivery) score" where
  "pdq_score = Some (\<lambda>i d. Num (- of_nat (priority_num (dl_priority d))))"

definition pdq_has :: "'p pending_queue \<Rightarrow> string \<Rightarrow> bool" where
  "pdq_has q i = bm_has (pq_entries q) i"

definition pdq_size :: "'p pending_queue \<Rightarrow> nat" where
  "pdq_size q = bm_size (pq_entries q)"

definition pdq_enqueue :: "time \<Rightarrow> 'p packet \<Rightarrow> string option \<Rightarrow> 'p pending_queue \<Rightarrow> 'p pending_queue" where
  "pdq_enqueue now packet exceptPeerId q =
     (if bm_has (pq_entries q) (pk_id packet) then q
      else
        let expiresAt = (if priorityRank (pk_priority packet) = EMERGENCY then PosInf else Num (now + pq_ttlMs q))
        in q\<lparr>pq_entries := bm_put pdq_score (pk_id packet)
               \<lparr>dl_packet = packet, dl_except = exceptPeerId, dl_expiresAt = expiresAt\<rparr> (pq_entries q)\<rparr>)"

definition pdq_requeue :: "time \<Rightarrow> 'p delivery \<Rightarrow> 'p pending_queue \<Rightarrow> 'p pending_queue" where
  "pdq_requeue now d q =
     (if bm_has (pq_entries q) (pk_id (dl_packet d)) then q
      else if num_le (dl_expiresAt d) (Num now) then q
      else q\<lparr>pq_entries := bm_put pdq_score (pk_id (dl_packet d)) d (pq_entries q)\<rparr>)"

definition pdq_drain :: "time \<Rightarrow> 'p pending_queue \<Rightarrow> 'p delivery list \<times> 'p pending_queue" where
  "pdq_drain now q =
     (filter (\<lambda>d. num_lt (Num now) (dl_expiresAt d)) (bm_values (pq_entries q)),
      q\<lparr>pq_entries := (pq_entries q)\<lparr>bm_map := []\<rparr>\<rparr>)"

section \<open>Invariant\<close>

text \<open>Every entry sits under its packet's id, and exactly the \<open>EMERGENCY\<close> ones have no deadline.\<close>

definition delivery_ok :: "'p delivery \<Rightarrow> bool" where
  "delivery_ok d \<longleftrightarrow> (if dl_priority d = EMERGENCY then dl_expiresAt d = PosInf else num_finite (dl_expiresAt d))"

definition pdq_ok :: "'p pending_queue \<Rightarrow> bool" where
  "pdq_ok q \<longleftrightarrow> bm_ok (pq_entries q) \<and>
     (\<forall>i d. bm_get (pq_entries q) i = Some d \<longrightarrow> pk_id (dl_packet d) = i \<and> delivery_ok d)"

lemma pdq_new_ok: "pdq_ok (pdq_new t n)"
  by (simp add: pdq_ok_def pdq_new_def)

lemma put_delivery_ok:
  assumes "pdq_ok q" and "delivery_ok d" and "pk_id (dl_packet d) = i"
  shows "pdq_ok (q\<lparr>pq_entries := bm_put pdq_score i d (pq_entries q)\<rparr>)"
  using assms by (auto simp: pdq_ok_def dest!: bm_set_frame)

lemma pdq_enqueue_ok: "pdq_ok q \<Longrightarrow> pdq_ok (pdq_enqueue now p ex q)"
  by (auto simp: pdq_enqueue_def Let_def delivery_ok_def dl_priority_def intro!: put_delivery_ok)

lemma pdq_requeue_ok: "pdq_ok q \<Longrightarrow> delivery_ok d \<Longrightarrow> pdq_ok (pdq_requeue now d q)"
  by (auto simp: pdq_requeue_def intro!: put_delivery_ok)

lemma bm_empty_ok: "bm_ok (m\<lparr>bm_map := []\<rparr>)"
  by (cases "bm_max m") (auto simp: bm_ok_def bm_size_def)

lemma pdq_drain_ok: "pdq_ok (snd (pdq_drain now q))"
  by (simp add: pdq_ok_def pdq_drain_def bm_empty_ok) (simp add: bm_get_def)

lemma pdq_values_get: "pdq_ok q \<Longrightarrow> d \<in> set (bm_values (pq_entries q)) \<Longrightarrow>
    bm_get (pq_entries q) (pk_id (dl_packet d)) = Some d"
proof -
  assume ok: "pdq_ok q" and "d \<in> set (bm_values (pq_entries q))"
  then obtain i where "(i, d) \<in> set (bm_map (pq_entries q))" by (auto simp: bm_values_def)
  with ok have "bm_get (pq_entries q) i = Some d" by (simp add: pdq_ok_def bm_get_in)
  with ok show ?thesis by (auto simp: pdq_ok_def)
qed

lemma pdq_drain_delivery_ok: "pdq_ok q \<Longrightarrow> d \<in> set (fst (pdq_drain now q)) \<Longrightarrow> delivery_ok d"
proof -
  assume ok: "pdq_ok q" and "d \<in> set (fst (pdq_drain now q))"
  then have "d \<in> set (bm_values (pq_entries q))" by (auto simp: pdq_drain_def)
  from pdq_values_get[OF ok this] ok show ?thesis by (auto simp: pdq_ok_def)
qed

section \<open>Urgent entries survive\<close>

lemma pdq_put_keeps:
  assumes ok: "pdq_ok q" and g: "bm_get (pq_entries q) i = Some d" and ne: "i \<noteq> k"
    and g2: "bm_get (pq_entries q) j = Some d2"
    and less: "priority_num (dl_priority d) < priority_num (dl_priority d2)"
  shows "bm_get (bm_put pdq_score k v (pq_entries q)) i = Some d"
  unfolding pdq_score_def
  by (rule bm_set_survives[OF _ ne g g2]) (use ok less in \<open>simp_all add: pdq_ok_def\<close>)

lemma pdq_enqueue_keeps:
  assumes "pdq_ok q" and "bm_get (pq_entries q) i = Some d"
    and "bm_get (pq_entries q) j = Some d2" and "priority_num (dl_priority d) < priority_num (dl_priority d2)"
  shows "bm_get (pq_entries (pdq_enqueue now p ex q)) i = Some d"
proof (cases "bm_has (pq_entries q) (pk_id p)")
  case False
  then have "i \<noteq> pk_id p" using assms(2) by (auto simp: bm_has_get)
  with pdq_put_keeps[OF assms(1,2) _ assms(3,4)] False show ?thesis
    by (simp add: pdq_enqueue_def Let_def)
qed (use assms in \<open>simp add: pdq_enqueue_def\<close>)

lemma pdq_requeue_keeps:
  assumes "pdq_ok q" and "bm_get (pq_entries q) i = Some d"
    and "bm_get (pq_entries q) j = Some d2" and "priority_num (dl_priority d) < priority_num (dl_priority d2)"
  shows "bm_get (pq_entries (pdq_requeue now e q)) i = Some d"
proof (cases "bm_has (pq_entries q) (pk_id (dl_packet e))")
  case False
  then have "i \<noteq> pk_id (dl_packet e)" using assms(2) by (auto simp: bm_has_get)
  with pdq_put_keeps[OF assms(1,2) _ assms(3,4)] assms(2) show ?thesis
    by (simp add: pdq_requeue_def)
qed (use assms in \<open>simp add: pdq_requeue_def\<close>)

section \<open>Deadlines\<close>

lemma pdq_requeue_frame:
  "bm_get (pq_entries (pdq_requeue now d q)) i = Some d' \<Longrightarrow>
     (d' = d \<and> i = pk_id (dl_packet d)) \<or> bm_get (pq_entries q) i = Some d'"
  by (auto simp: pdq_requeue_def split: if_splits dest!: bm_set_frame)

fun requeue_all :: "time \<Rightarrow> 'p delivery list \<Rightarrow> 'p pending_queue \<Rightarrow> 'p pending_queue" where
  "requeue_all now [] q = q"
| "requeue_all now (d # ds) q = requeue_all now ds (pdq_requeue now d q)"

lemma requeue_all_frame:
  "bm_get (pq_entries (requeue_all now ds q)) i = Some d' \<Longrightarrow>
     (d' \<in> set ds \<and> i = pk_id (dl_packet d')) \<or> bm_get (pq_entries q) i = Some d'"
  by (induction ds arbitrary: q) (auto dest!: pdq_requeue_frame)

text \<open>One retry round that is denied by a relay gate: drain, then put everything back.\<close>

definition retry_round :: "time \<Rightarrow> 'p pending_queue \<Rightarrow> 'p pending_queue" where
  "retry_round now q = (let (ds, q') = pdq_drain now q in requeue_all now ds q')"

lemma requeue_all_ok: "pdq_ok q \<Longrightarrow> \<forall>d \<in> set ds. delivery_ok d \<Longrightarrow> pdq_ok (requeue_all now ds q)"
  by (induction ds arbitrary: q) (auto intro: pdq_requeue_ok)

lemma retry_round_ok: "pdq_ok q \<Longrightarrow> pdq_ok (retry_round now q)"
  using pdq_drain_delivery_ok[of q _ now] pdq_drain_ok[of now q]
  by (auto simp: retry_round_def split: prod.splits intro!: requeue_all_ok)

interpretation retry_run: step_invariant "\<lambda>q now. retry_round now q" pdq_ok
  by unfold_locales (rule retry_round_ok)

text \<open>A denied round invents nothing and renews nothing: what is in the queue afterwards was there
  before, unchanged, and had not expired.\<close>

lemma retry_round_keeps:
  assumes ok: "pdq_ok q" and g: "bm_get (pq_entries (retry_round now q)) i = Some d"
  shows "bm_get (pq_entries q) i = Some d \<and> num_lt (Num now) (dl_expiresAt d)"
proof -
  obtain ds q' where dr: "pdq_drain now q = (ds, q')" by (cases "pdq_drain now q")
  have empty: "bm_get (pq_entries q') i = None"
    using dr by (auto simp: pdq_drain_def bm_get_def)
  from g have "d \<in> set ds \<and> i = pk_id (dl_packet d)"
    using requeue_all_frame[of now ds q' i d] empty by (auto simp: retry_round_def dr)
  with dr pdq_values_get[OF ok, of d] show ?thesis by (auto simp: pdq_drain_def)
qed

lemma retry_rounds_keep:
  assumes "pdq_ok q" and "bm_get (pq_entries (foldl (\<lambda>q now. retry_round now q) q ts)) i = Some d"
  shows "bm_get (pq_entries q) i = Some d \<and> (\<forall>t \<in> set ts. num_lt (Num t) (dl_expiresAt d))"
  using assms
proof (induction ts arbitrary: q)
  case Nil
  then show ?case by simp
next
  case (Cons t ts)
  from Cons.IH[OF retry_round_ok[OF Cons.prems(1)]] Cons.prems(2)
  have "bm_get (pq_entries (retry_round t q)) i = Some d" and "\<forall>t \<in> set ts. num_lt (Num t) (dl_expiresAt d)"
    by simp_all
  with retry_round_keeps[OF Cons.prems(1)] show ?case by auto
qed

section \<open>Properties\<close>

text \<open>What the network can do to the queue between two looks at it: new packets arrive, deliveries that could
  not be sent come back.\<close>

datatype 'p pending_op = Arrive time "'p packet" "string option" | Requeue time "'p delivery"

fun pdq_step :: "'p pending_queue \<Rightarrow> 'p pending_op \<Rightarrow> 'p pending_queue" where
  "pdq_step q (Arrive now p ex) = pdq_enqueue now p ex q"
| "pdq_step q (Requeue now d) = (if delivery_ok d then pdq_requeue now d q else q)"

interpretation pending_run: step_invariant pdq_step pdq_ok
proof
  show "pdq_ok q \<Longrightarrow> pdq_ok (pdq_step q e)" for q and e :: "'a pending_op"
    by (cases e) (auto intro: pdq_enqueue_ok pdq_requeue_ok)
qed

lemma pdq_step_keeps:
  assumes "pdq_ok q" and "bm_get (pq_entries q) i = Some d" and "bm_get (pq_entries q) j = Some d2"
    and "priority_num (dl_priority d) < priority_num (dl_priority d2)"
  shows "bm_get (pq_entries (pdq_step q e)) i = Some d"
  using assms by (cases e) (auto intro: pdq_enqueue_keeps pdq_requeue_keeps)

text \<open>An overflow of the pending queue never costs a more urgent packet while a less urgent one is
  queued: a queued packet is still there, with its deadline, after any sequence of arrivals and requeues
  during which the queue always held some packet of a less urgent class. In particular a flood of traffic
  cannot push out an emergency.\<close>

theorem urgent_survives_flood:
  assumes "pdq_ok q" and "bm_get (pq_entries q) i = Some d"
    and "\<forall>n < length es. \<exists>j d2. bm_get (pq_entries (foldl pdq_step q (take n es))) j = Some d2 \<and>
           priority_num (dl_priority d) < priority_num (dl_priority d2)"
  shows "bm_get (pq_entries (foldl pdq_step q es)) i = Some d"
  using assms
proof (induction es arbitrary: q)
  case Nil
  then show ?case by simp
next
  case (Cons e es)
  from Cons.prems(3)[rule_format, of 0] obtain j d2 where
    "bm_get (pq_entries q) j = Some d2" "priority_num (dl_priority d) < priority_num (dl_priority d2)" by auto
  with Cons.prems have k: "bm_get (pq_entries (pdq_step q e)) i = Some d" by (auto intro: pdq_step_keeps)
  have o: "pdq_ok (pdq_step q e)" by (rule pending_run.step_inv[OF Cons.prems(1)])
  have "\<exists>j d2. bm_get (pq_entries (foldl pdq_step (pdq_step q e) (take n es))) j = Some d2 \<and>
         priority_num (dl_priority d) < priority_num (dl_priority d2)" if "n < length es" for n
    using Cons.prems(3)[rule_format, of "Suc n"] that by simp
  with Cons.IH[OF o k] show ?case by simp
qed

lemma urgent_survives_flood_witness:
  "let sos = createPacket ''sos'' 0 DATA ''n'' () None None (Some EMERGENCY);
       chat = createPacket ''chat'' 0 DATA ''n'' () None None None;
       bulk = createPacket ''bulk'' 0 DATA ''n'' () None None (Some BULK);
       q = pdq_enqueue 0 chat None (pdq_enqueue 0 sos None (pdq_new None (Some (Num 2))))
   in bm_get (pq_entries (foldl pdq_step q [Arrive 1 bulk None])) ''sos'' =
        Some \<lparr>dl_packet = sos, dl_except = None, dl_expiresAt = PosInf\<rparr>"
proof -
  define sos where "sos = createPacket ''sos'' 0 DATA ''n'' () None None (Some EMERGENCY)"
  define chat where "chat = createPacket ''chat'' 0 DATA ''n'' () None None None"
  define bulk where "bulk = createPacket ''bulk'' 0 DATA ''n'' () None None (Some BULK)"
  define q where "q = pdq_enqueue 0 chat None (pdq_enqueue 0 sos None (pdq_new None (Some (Num 2))))"
  have ok: "pdq_ok q" by (simp add: q_def pdq_enqueue_ok pdq_new_ok)
  have i: "pk_id sos = ''sos''" "pk_id chat = ''chat''" by (simp_all add: sos_def chat_def createPacket_def)
  have p: "priorityRank (pk_priority sos) = EMERGENCY" "priorityRank (pk_priority chat) = MESSAGING"
    by (simp_all add: sos_def chat_def createPacket_def)
  have g: "bm_get (pq_entries q) ''sos'' = Some \<lparr>dl_packet = sos, dl_except = None, dl_expiresAt = PosInf\<rparr>"
      "bm_get (pq_entries q) ''chat'' = Some \<lparr>dl_packet = chat, dl_except = None, dl_expiresAt = Num (5 * 60 * 1000)\<rparr>"
    by (simp_all add: q_def pdq_enqueue_def pdq_new_def bm_new_def bm_set_def bm_has_def bm_size_def bm_get_def i p)
  from urgent_survives_flood[OF ok g(1), of "[Arrive 1 bulk None]"] g(2) p
  show ?thesis unfolding sos_def[symmetric] chat_def[symmetric] bulk_def[symmetric] Let_def q_def[symmetric]
    by (force simp: dl_priority_def)
qed

text \<open>Retry rounds that a relay gate denies, however many and however often, renew no deadline and invent
  no delivery: whatever is still queued was queued before with the same packet, peer and deadline, and
  had not expired at any of the rounds, so a retry loop cannot keep a packet alive past its time.\<close>

theorem denied_retries_never_renew:
  assumes "pdq_ok q" and "bm_get (pq_entries (foldl (\<lambda>q now. retry_round now q) q ts)) i = Some d"
  shows "bm_get (pq_entries q) i = Some d \<and> (\<forall>t \<in> set ts. num_lt (Num t) (dl_expiresAt d)) \<and>
    (priorityRank (pk_priority (dl_packet d)) \<noteq> EMERGENCY \<longrightarrow> num_finite (dl_expiresAt d))"
  using retry_rounds_keep[OF assms] assms(1)
  by (auto simp: pdq_ok_def delivery_ok_def dl_priority_def split: if_splits)

lemma denied_retries_never_renew_witness:
  "let q = pdq_enqueue 0 (createPacket ''a'' 0 DATA ''n'' () None None None) None (pdq_new (Some 100) None)
   in \<exists>d. bm_get (pq_entries (foldl (\<lambda>q now. retry_round now q) q [50])) ''a'' = Some d \<and>
        bm_get (pq_entries q) ''a'' = Some d \<and> num_lt (Num 50) (dl_expiresAt d)"
proof -
  define p where "p = createPacket ''a'' 0 DATA ''n'' () None None None"
  define q where "q = pdq_enqueue 0 p None (pdq_new (Some 100) None)"
  have i: "pk_id p = ''a''" "priorityRank (pk_priority p) = MESSAGING" by (simp_all add: p_def createPacket_def)
  have ok: "pdq_ok q" by (simp add: q_def pdq_enqueue_ok pdq_new_ok)
  have q: "q = \<lparr>pq_entries = \<lparr>bm_map = [(''a'', \<lparr>dl_packet = p, dl_except = None, dl_expiresAt = Num 100\<rparr>)], bm_max = Num 256\<rparr>, pq_ttlMs = 100\<rparr>"
    by (simp add: q_def pdq_enqueue_def pdq_new_def bm_new_def bm_set_def bm_has_def bm_size_def i)
  then have g: "bm_get (pq_entries (foldl (\<lambda>q now. retry_round now q) q [50])) ''a'' =
      Some \<lparr>dl_packet = p, dl_except = None, dl_expiresAt = Num 100\<rparr>"
    by (simp add: retry_round_def pdq_drain_def bm_values_def pdq_requeue_def bm_set_def bm_has_def bm_size_def bm_get_def i)
  from denied_retries_never_renew[OF ok g] g show ?thesis
    unfolding p_def[symmetric] q_def[symmetric] Let_def by auto
qed

end
