(* ===== verification/Content.thy ===== *)
theory Content
  imports BoundedMap Packet "HOL-Library.Word"
begin

text \<open>
  \<open>node/src/content.ts\<close>: content metadata and what its signature covers, compression for transfer,
  the content store with its priority- and trust-aware eviction, chunking and the reassembly of
  chunks that arrive from the network. The cryptographic and compression primitives of Node
  (\<open>sha256\<close>, Ed25519 verification, zstd) are the fields of \<open>content_env\<close>.
\<close>

type_synonym bytes = "8 word list"

section \<open>Metadata\<close>

record content_metadata =
  cm_contentId :: string
  cm_name :: jsval
  cm_mimeType :: string
  cm_size :: rat
  cm_createdAt :: time
  cm_publisherId :: "string option"
  cm_signature :: "string option"
  cm_expiresAt :: "time option"
  cm_encoding :: "string option"
  cm_originalSize :: "rat option"
  cm_priority :: jsval

record content_env =
  computeContentId :: "bytes \<Rightarrow> string"
  verifyWithNodeId :: "string \<Rightarrow> jsval \<Rightarrow> string \<Rightarrow> bool option"
  zstdCompress :: "bytes \<Rightarrow> bytes"
  zstdDecompress :: "bytes \<Rightarrow> rat \<Rightarrow> bytes option"

text \<open>\<open>verifyWithNodeId\<close> takes the value handed to \<open>JSON.stringify\<close>; \<open>None\<close> is a thrown error, as is
  \<open>None\<close> of \<open>zstdDecompress\<close>. \<open>JSON.stringify\<close> drops a property whose value is \<open>undefined\<close>.\<close>

definition json_object :: "(string \<times> jsval) list \<Rightarrow> jsval" where
  "json_object fs = JObject (filter (\<lambda>(k, v). v \<noteq> JUndefined) fs)"

definition opt_str :: "string option \<Rightarrow> jsval" where
  "opt_str s = (case s of Some x \<Rightarrow> JString x | None \<Rightarrow> JUndefined)"

definition opt_num :: "rat option \<Rightarrow> jsval" where
  "opt_num s = (case s of Some x \<Rightarrow> JNumber (Num x) | None \<Rightarrow> JUndefined)"

definition contentSigningPayload :: "content_metadata \<Rightarrow> jsval" where
  "contentSigningPayload m = json_object
    [(''contentId'', JString (cm_contentId m)), (''name'', cm_name m), (''mimeType'', JString (cm_mimeType m)),
     (''size'', JNumber (Num (cm_size m))), (''publisherId'', opt_str (cm_publisherId m)),
     (''expiresAt'', opt_num (cm_expiresAt m)), (''encoding'', opt_str (cm_encoding m)),
     (''originalSize'', opt_num (cm_originalSize m)), (''priority'', cm_priority m)]"

definition verifyContentSignature :: "content_env \<Rightarrow> content_metadata \<Rightarrow> bool" where
  "verifyContentSignature env m = (case (cm_publisherId m, cm_signature m) of
     (Some p, Some s) \<Rightarrow> p \<noteq> [] \<and> s \<noteq> [] \<and>
        (case verifyWithNodeId env p (contentSigningPayload m) s of Some b \<Rightarrow> b | None \<Rightarrow> False)
   | _ \<Rightarrow> False)"

lemma opt_str_inj [simp]: "opt_str a = opt_str b \<longleftrightarrow> a = b"
  by (auto simp: opt_str_def split: option.splits)

lemma opt_num_inj [simp]: "opt_num a = opt_num b \<longleftrightarrow> a = b"
  by (auto simp: opt_num_def split: option.splits)

lemma json_object_field: "distinct (map fst fs) \<Longrightarrow> (k, v) \<in> set fs \<Longrightarrow> jfield (json_object fs) k = v"
  using map_of_filter_wf[of fs "\<lambda>k v. v \<noteq> JUndefined" k]
  by (auto simp: json_object_def map_of_is_SomeI split: option.splits if_splits)

section \<open>Compression\<close>

definition MIN_COMPRESSIBLE_SIZE :: nat where "MIN_COMPRESSIBLE_SIZE = 512"

definition compressForTransfer :: "content_env \<Rightarrow> bytes \<Rightarrow> bytes \<times> string option \<times> rat option" where
  "compressForTransfer env data =
     (if length data < MIN_COMPRESSIBLE_SIZE then (data, None, None)
      else let compressed = zstdCompress env data in
        if length compressed \<ge> length data then (data, None, None)
        else (compressed, Some ''zstd'', Some (of_nat (length data))))"

definition MAX_DECOMPRESSED_CONTENT_BYTES :: rat where
  "MAX_DECOMPRESSED_CONTENT_BYTES = 256 * 1024 * 1024"

datatype content_error = DecodeFailed

definition decodeStoredContent :: "content_env \<Rightarrow> content_metadata \<Rightarrow> bytes \<Rightarrow> content_error + bytes" where
  "decodeStoredContent env m data =
     (if cm_encoding m \<noteq> Some ''zstd'' then Inr data
      else let maxOutputLength = min (case cm_originalSize m of Some n \<Rightarrow> n | None \<Rightarrow> MAX_DECOMPRESSED_CONTENT_BYTES)
                                     MAX_DECOMPRESSED_CONTENT_BYTES
        in case zstdDecompress env data maxOutputLength of Some d \<Rightarrow> Inr d | None \<Rightarrow> Inl DecodeFailed)"

section \<open>Chunks\<close>

definition CHUNK_SIZE :: nat where "CHUNK_SIZE = 4096"

definition chunkCountForSize :: "rat \<Rightarrow> int" where
  "chunkCountForSize sz = (if sz \<le> 0 then 1 else \<lceil>sz / of_nat CHUNK_SIZE\<rceil>)"

text \<open>The loop of \<open>chunksFor\<close> over offsets: \<open>split_chunks\<close> takes one chunk size from the front.\<close>

fun split_chunks :: "nat \<Rightarrow> 'a list \<Rightarrow> 'a list list" where
  "split_chunks n xs = (if xs = [] \<or> n = 0 then [] else take n xs # split_chunks n (drop n xs))"

declare split_chunks.simps [simp del]

definition chunks_of :: "bytes \<Rightarrow> bytes list" where
  "chunks_of data = (if length data = 0 then [[]] else split_chunks CHUNK_SIZE data)"

lemma split_chunks_concat: "0 < n \<Longrightarrow> concat (split_chunks n xs) = xs"
proof (induction n xs rule: split_chunks.induct)
  case (1 n xs)
  then show ?case by (cases "xs = []") (simp_all add: split_chunks.simps[of n xs] split_chunks.simps[of n "[]"])
qed

lemma split_chunks_sizes: "c \<in> set (split_chunks n xs) \<Longrightarrow> 0 < length c \<and> length c \<le> n"
proof (induction n xs rule: split_chunks.induct)
  case (1 n xs)
  then show ?case by (cases "xs = [] \<or> n = 0") (auto simp: split_chunks.simps[of n xs])
qed

lemma split_chunks_length: "0 < n \<Longrightarrow> length (split_chunks n xs) = (length xs + n - 1) div n"
proof (induction n xs rule: split_chunks.induct)
  case (1 n xs)
  show ?case
  proof (cases "xs = []")
    case True
    with 1 show ?thesis by (simp add: split_chunks.simps[of n "[]"])
  next
    case False
    then have l: "0 < length xs" by simp
    have "length (split_chunks n xs) = Suc ((length (drop n xs) + n - 1) div n)"
      using 1 False by (simp add: split_chunks.simps[of n xs])
    also have "\<dots> = (length xs + n - 1) div n"
    proof (cases "n \<le> length xs")
      case True
      then have "length xs + n - 1 = (length (drop n xs) + n - 1) + n" using 1 by simp
      with 1 show ?thesis by (metis Suc_eq_plus1 bot_nat_0.not_eq_extremum div_add_self2)
    next
      case False
      then have a: "length (drop n xs) + n - 1 < n" using 1 by simp
      obtain k where k: "length xs = Suc k" "k < n" using l False by (cases "length xs") auto
      then have "(length xs + n - 1) div n = (k + n) div n" by simp
      also have "\<dots> = 1" using k 1 by simp
      finally show ?thesis using a by simp
    qed
    finally show ?thesis .
  qed
qed

lemma chunks_of_concat: "concat (chunks_of d) = d"
  by (simp add: chunks_of_def split_chunks_concat CHUNK_SIZE_def)

lemma chunks_of_bounded: "c \<in> set (chunks_of d) \<Longrightarrow> length c \<le> CHUNK_SIZE"
  by (auto simp: chunks_of_def split: if_splits dest: split_chunks_sizes)

lemma ceil_div_nat: "0 < n \<Longrightarrow> \<lceil>(of_nat a :: rat) / of_nat n\<rceil> = int ((a + n - 1) div n)"
proof -
  assume n: "0 < n"
  let ?q = "(a + n - 1) div n"
  have l: "n * ?q \<le> a + n - 1" by simp
  have u: "a + n - 1 < n + n * ?q" using n by (rule dividend_less_times_div)
  have b: "n * ?q < a + n" "a \<le> n * ?q" using n l u by linarith+
  have b1: "(of_nat (n * ?q) :: rat) < of_nat (a + n)" using b(1) by (simp only: of_nat_less_iff)
  have b2: "(of_nat a :: rat) \<le> of_nat (n * ?q)" using b(2) by (simp only: of_nat_le_iff)
  show ?thesis
    by (rule ceiling_unique) (use n b1 b2 in \<open>simp_all add: field_simps\<close>)
qed

lemma chunks_of_length: "int (length (chunks_of d)) = chunkCountForSize (of_nat (length d))"
  by (cases "d = []")
    (simp_all add: chunks_of_def chunkCountForSize_def split_chunks_length ceil_div_nat CHUNK_SIZE_def
      del: of_nat_numeral)

section \<open>The content store\<close>

record stored_content =
  sc_metadata :: content_metadata
  sc_data :: bytes

text \<open>\<open>trustRankFn\<close>, when given, ranks a publisher by the live trust table, so it is an argument of the
  operations that evict.\<close>

type_synonym trust_fn = "(string \<Rightarrow> rat) option"

record content_store =
  cs_items :: "(string, stored_content) bounded_map"
  cs_elevated :: "string list"

definition cs_new :: "jsnum option \<Rightarrow> content_store" where
  "cs_new maxSize = \<lparr>cs_items = bm_new (Some (case maxSize of Some n \<Rightarrow> n | None \<Rightarrow> Num 256)), cs_elevated = []\<rparr>"

definition PRIORITY_TIER_SPREAD :: rat where "PRIORITY_TIER_SPREAD = 10"
definition MAX_UNVETTED_ELEVATED_ENTRIES :: nat where "MAX_UNVETTED_ELEVATED_ENTRIES = 8"
definition UNVETTED_TRUST_CEILING :: rat where "UNVETTED_TRUST_CEILING = 2"

definition isUnvettedTrust :: "rat \<Rightarrow> bool" where
  "isUnvettedTrust rank \<longleftrightarrow> rank \<le> UNVETTED_TRUST_CEILING"

text \<open>\<open>priorityRank(metadata.priority ?? Priority.CONTENT)\<close> as a number; \<open>??\<close> also replaces \<open>null\<close>.\<close>

definition urgency_of :: "stored_content \<Rightarrow> nat" where
  "urgency_of item = priority_num (priorityRank
     (if cm_priority (sc_metadata item) \<in> {JUndefined, JNull} then priority_val CONTENT
      else cm_priority (sc_metadata item)))"

definition defaultUrgency :: nat where
  "defaultUrgency = priority_num (priorityRank (priority_val CONTENT))"

definition unvetted_elevated :: "(string \<Rightarrow> rat) \<Rightarrow> stored_content \<Rightarrow> bool" where
  "unvetted_elevated rank item = (case cm_publisherId (sc_metadata item) of
     None \<Rightarrow> False
   | Some p \<Rightarrow> p \<noteq> [] \<and> urgency_of item < defaultUrgency \<and> isUnvettedTrust (rank p))"

definition last_n :: "nat \<Rightarrow> 'a list \<Rightarrow> 'a list" where
  "last_n n xs = drop (length xs - n) xs"

definition refreshUnvettedElevatedSnapshot :: "trust_fn \<Rightarrow> content_store \<Rightarrow> content_store" where
  "refreshUnvettedElevatedSnapshot trustRank s = (case trustRank of
     None \<Rightarrow> s
   | Some rank \<Rightarrow>
       let qualifying = map fst (filter (\<lambda>(i, item). unvetted_elevated rank item) (bm_map (cs_items s)))
       in s\<lparr>cs_elevated := last_n MAX_UNVETTED_ELEVATED_ENTRIES qualifying\<rparr>)"

definition pickEvictionScore :: "(string \<Rightarrow> rat) \<Rightarrow> string list \<Rightarrow> string \<Rightarrow> stored_content \<Rightarrow> rat" where
  "pickEvictionScore rank elevated contentId item =
     (let live = rank (case cm_publisherId (sc_metadata item) of Some p \<Rightarrow> p | None \<Rightarrow> []);
          requestedUrgency = urgency_of item;
          isElevated = requestedUrgency < defaultUrgency;
          withinBudget = (contentId \<in> set elevated);
          effectiveUrgency = (if isElevated \<and> isUnvettedTrust live \<and> \<not> withinBudget then defaultUrgency else requestedUrgency)
      in - of_nat effectiveUrgency * PRIORITY_TIER_SPREAD + live)"

definition cs_score :: "trust_fn \<Rightarrow> content_store \<Rightarrow> (string, stored_content) score" where
  "cs_score trustRank s = map_option (\<lambda>rank i item. Num (pickEvictionScore rank (cs_elevated s) i item)) trustRank"

definition cs_insert :: "trust_fn \<Rightarrow> string \<Rightarrow> stored_content \<Rightarrow> content_store \<Rightarrow> content_store" where
  "cs_insert trustRank i item s =
     (let s' = refreshUnvettedElevatedSnapshot trustRank s
      in s'\<lparr>cs_items := bm_put (cs_score trustRank s') i item (cs_items s')\<rparr>)"

definition cs_put :: "content_env \<Rightarrow> trust_fn \<Rightarrow> time \<Rightarrow> jsval \<Rightarrow> string \<Rightarrow> bytes \<Rightarrow> time option \<Rightarrow> content_store \<Rightarrow> content_metadata \<times> content_store" where
  "cs_put env trustRank now name mimeType data ttlMs s =
     (let metadata = \<lparr>cm_contentId = computeContentId env data, cm_name = name, cm_mimeType = mimeType,
            cm_size = of_nat (length data), cm_createdAt = now, cm_publisherId = None, cm_signature = None,
            cm_expiresAt = map_option (\<lambda>t. now + t) ttlMs, cm_encoding = None, cm_originalSize = None,
            cm_priority = JUndefined\<rparr>
      in (metadata, cs_insert trustRank (cm_contentId metadata) \<lparr>sc_metadata = metadata, sc_data = data\<rparr> s))"

definition expired :: "time \<Rightarrow> content_metadata \<Rightarrow> bool" where
  "expired now m \<longleftrightarrow> (case cm_expiresAt m of Some t \<Rightarrow> t \<le> now | None \<Rightarrow> False)"

definition putVerified :: "content_env \<Rightarrow> trust_fn \<Rightarrow> time \<Rightarrow> content_metadata \<Rightarrow> bytes \<Rightarrow> content_store \<Rightarrow> bool \<times> content_store" where
  "putVerified env trustRank now metadata data s =
     (if computeContentId env data \<noteq> cm_contentId metadata then (False, s)
      else if \<not> verifyContentSignature env metadata then (False, s)
      else if expired now metadata then (False, s)
      else if cm_encoding metadata \<noteq> None \<and> (case decodeStoredContent env metadata data of Inl e \<Rightarrow> True | Inr d \<Rightarrow> False)
      then (False, s)
      else (True, cs_insert trustRank (cm_contentId metadata) \<lparr>sc_metadata = metadata, sc_data = data\<rparr> s))"

text \<open>Reads drop an expired entry they meet.\<close>

definition readLive :: "time \<Rightarrow> string \<Rightarrow> content_store \<Rightarrow> stored_content option \<times> content_store" where
  "readLive now i s = (case bm_get (cs_items s) i of
     None \<Rightarrow> (None, s)
   | Some item \<Rightarrow>
       if expired now (sc_metadata item) then (None, s\<lparr>cs_items := bm_delete i (cs_items s)\<rparr>)
       else (Some item, s))"

definition cs_purgeExpired :: "time \<Rightarrow> content_store \<Rightarrow> content_store" where
  "cs_purgeExpired now s =
     s\<lparr>cs_items := (cs_items s)\<lparr>bm_map := filter (\<lambda>(i, item). \<not> expired now (sc_metadata item)) (bm_map (cs_items s))\<rparr>\<rparr>"

definition cs_list :: "time \<Rightarrow> content_store \<Rightarrow> content_metadata list \<times> content_store" where
  "cs_list now s = (let s' = cs_purgeExpired now s in (map sc_metadata (bm_values (cs_items s')), s'))"

definition cs_size :: "time \<Rightarrow> content_store \<Rightarrow> nat \<times> content_store" where
  "cs_size now s = (let s' = cs_purgeExpired now s in (bm_size (cs_items s'), s'))"

definition cs_has :: "time \<Rightarrow> string \<Rightarrow> content_store \<Rightarrow> bool \<times> content_store" where
  "cs_has now i s = (let (r, s') = readLive now i s in (r \<noteq> None, s'))"

definition chunksFor :: "time \<Rightarrow> string \<Rightarrow> content_store \<Rightarrow> bytes list \<times> content_store" where
  "chunksFor now i s = (let (r, s') = readLive now i s in
     (case r of None \<Rightarrow> [] | Some item \<Rightarrow> chunks_of (sc_data item), s'))"

text \<open>Content addressing: every entry holds the bytes its key is the hash of, under metadata that says
  so; every entry that carries a publisher carries that publisher's verified signature.\<close>

definition item_ok :: "content_env \<Rightarrow> string \<Rightarrow> stored_content \<Rightarrow> bool" where
  "item_ok env i item \<longleftrightarrow> computeContentId env (sc_data item) = i \<and> cm_contentId (sc_metadata item) = i \<and>
     (cm_publisherId (sc_metadata item) \<noteq> None \<longrightarrow> verifyContentSignature env (sc_metadata item))"

definition cs_ok :: "content_env \<Rightarrow> content_store \<Rightarrow> bool" where
  "cs_ok env s \<longleftrightarrow> bm_ok (cs_items s) \<and> length (cs_elevated s) \<le> MAX_UNVETTED_ELEVATED_ENTRIES \<and>
     (\<forall>i item. bm_get (cs_items s) i = Some item \<longrightarrow> item_ok env i item)"

lemma last_n_length: "length (last_n n xs) \<le> n"
  by (simp add: last_n_def)

lemma cs_new_ok: "cs_ok env (cs_new n)"
  by (simp add: cs_ok_def cs_new_def)

lemma snapshot_items [simp]: "cs_items (refreshUnvettedElevatedSnapshot tr s) = cs_items s"
  by (simp add: refreshUnvettedElevatedSnapshot_def Let_def split: option.splits)

lemma cs_insert_ok:
  assumes "cs_ok env s" and "item_ok env i item"
  shows "cs_ok env (cs_insert tr i item s)"
proof -
  have "length (cs_elevated (refreshUnvettedElevatedSnapshot tr s)) \<le> MAX_UNVETTED_ELEVATED_ENTRIES"
    using assms(1) last_n_length by (auto simp: refreshUnvettedElevatedSnapshot_def Let_def cs_ok_def split: option.splits)
  with assms show ?thesis by (auto simp: cs_ok_def cs_insert_def Let_def dest!: bm_set_frame)
qed

lemma cs_put_ok: "cs_ok env s \<Longrightarrow> cs_ok env (snd (cs_put env tr now name mime data ttl s))"
  by (simp add: cs_put_def Let_def cs_insert_ok item_ok_def)

lemma putVerified_ok: "cs_ok env s \<Longrightarrow> cs_ok env (snd (putVerified env tr now m data s))"
  by (simp add: putVerified_def cs_insert_ok item_ok_def)

lemma putVerified_accepts:
  "fst (putVerified env tr now m data s) \<longleftrightarrow>
     computeContentId env data = cm_contentId m \<and> verifyContentSignature env m \<and> \<not> expired now m \<and>
     (cm_encoding m \<noteq> None \<longrightarrow> (\<exists>d. decodeStoredContent env m data = Inr d))"
  by (auto simp: putVerified_def split: sum.splits)

lemma putVerified_rejects: "\<not> fst (putVerified env tr now m data s) \<Longrightarrow> snd (putVerified env tr now m data s) = s"
  by (auto simp: putVerified_def)

lemma readLive_ok: "cs_ok env s \<Longrightarrow> cs_ok env (snd (readLive now i s))"
  by (auto simp: readLive_def cs_ok_def split: option.splits)

lemma filter_items_ok:
  assumes "bm_ok m"
  shows "bm_ok (m\<lparr>bm_map := filter P (bm_map m)\<rparr>)"
  using assms length_filter_le[of P "bm_map m"]
  by (auto simp: bm_ok_def bm_size_def intro: within_limit_mono)

lemma cs_purge_get: "bm_ok (cs_items s) \<Longrightarrow> bm_get (cs_items (cs_purgeExpired now s)) i =
    (case bm_get (cs_items s) i of Some item \<Rightarrow> if expired now (sc_metadata item) then None else Some item | None \<Rightarrow> None)"
  using map_of_filter_wf[of "bm_map (cs_items s)" "\<lambda>i item. \<not> expired now (sc_metadata item)" i]
  by (auto simp: cs_purgeExpired_def bm_get_def bm_ok_def split: option.splits)

lemma cs_purge_ok: "cs_ok env s \<Longrightarrow> cs_ok env (cs_purgeExpired now s)"
  using cs_purge_get[of s now]
  by (auto simp: cs_ok_def filter_items_ok cs_purgeExpired_def split: option.splits if_splits)

datatype store_op =
    Put jsval string bytes "time option" time
  | PutVerified content_metadata bytes time
  | Read string time
  | Purge time

fun cs_step :: "content_env \<Rightarrow> trust_fn \<Rightarrow> content_store \<Rightarrow> store_op \<Rightarrow> content_store" where
  "cs_step env tr s (Put name mime data ttl now) = snd (cs_put env tr now name mime data ttl s)"
| "cs_step env tr s (PutVerified m data now) = snd (putVerified env tr now m data s)"
| "cs_step env tr s (Read i now) = snd (readLive now i s)"
| "cs_step env tr s (Purge now) = cs_purgeExpired now s"

interpretation store_run: step_invariant "cs_step env tr" "cs_ok env" for env tr
proof
  show "cs_ok env s \<Longrightarrow> cs_ok env (cs_step env tr s e)" for s e
    by (cases e) (simp_all add: cs_put_ok putVerified_ok readLive_ok cs_purge_ok)
qed

section \<open>Eviction scores\<close>

lemma defaultUrgency_4 [simp]: "defaultUrgency = 4"
  unfolding defaultUrgency_def by simp

definition eff_urgency :: "(string \<Rightarrow> rat) \<Rightarrow> string list \<Rightarrow> string \<Rightarrow> stored_content \<Rightarrow> nat" where
  "eff_urgency rank elevated i item =
     (let live = rank (case cm_publisherId (sc_metadata item) of Some p \<Rightarrow> p | None \<Rightarrow> []) in
      if urgency_of item < defaultUrgency \<and> isUnvettedTrust live \<and> i \<notin> set elevated then defaultUrgency
      else urgency_of item)"

definition live_rank :: "(string \<Rightarrow> rat) \<Rightarrow> stored_content \<Rightarrow> rat" where
  "live_rank rank item = rank (case cm_publisherId (sc_metadata item) of Some p \<Rightarrow> p | None \<Rightarrow> [])"

lemma pickEvictionScore_eq:
  "pickEvictionScore rank el i item = - (10 * of_nat (eff_urgency rank el i item)) + live_rank rank item"
  by (simp add: pickEvictionScore_def eff_urgency_def live_rank_def Let_def PRIORITY_TIER_SPREAD_def)

text \<open>With ranks between 0 and 9 the tiers never overlap: effective urgency decides, trust breaks
  ties.\<close>

lemma score_tiers:
  assumes "\<And>p. 0 \<le> rank p" and "\<And>p. rank p < 10"
  shows "pickEvictionScore rank el i a < pickEvictionScore rank el j b \<longleftrightarrow>
    eff_urgency rank el j b < eff_urgency rank el i a \<or>
    (eff_urgency rank el j b = eff_urgency rank el i a \<and> live_rank rank a < live_rank rank b)"
proof -
  have r: "0 \<le> live_rank rank a" "live_rank rank a < 10" "0 \<le> live_rank rank b" "live_rank rank b < 10"
    using assms by (simp_all add: live_rank_def)
  consider "eff_urgency rank el j b < eff_urgency rank el i a" | "eff_urgency rank el j b = eff_urgency rank el i a"
    | "eff_urgency rank el i a < eff_urgency rank el j b" by linarith
  then show ?thesis
  proof cases
    case 1
    then have "of_nat (eff_urgency rank el j b) + 1 \<le> (of_nat (eff_urgency rank el i a) :: rat)"
      by (metis Suc_leI add.commute of_nat_Suc of_nat_le_iff)
    with 1 r show ?thesis by (simp add: pickEvictionScore_eq)
  next
    case 2
    then show ?thesis by (simp add: pickEvictionScore_eq)
  next
    case 3
    then have "of_nat (eff_urgency rank el i a) + 1 \<le> (of_nat (eff_urgency rank el j b) :: rat)"
      by (metis Suc_leI add.commute of_nat_Suc of_nat_le_iff)
    with 3 r show ?thesis by (simp add: pickEvictionScore_eq)
  qed
qed

text \<open>An entry of an unvetted publisher keeps an elevated urgency only inside the snapshot.\<close>

lemma elevated_in_snapshot:
  assumes "eff_urgency rank el i item < 4" and "isUnvettedTrust (live_rank rank item)"
  shows "i \<in> set el"
  using assms by (auto simp: eff_urgency_def live_rank_def Let_def split: if_splits)

lemma cs_insert_keeps:
  assumes ok: "bm_ok (cs_items s)" and g: "bm_get (cs_items s) i = Some a" and ne: "i \<noteq> k"
    and g2: "bm_get (cs_items s) j = Some b"
    and less: "pickEvictionScore rank (cs_elevated (refreshUnvettedElevatedSnapshot (Some rank) s)) j b
             < pickEvictionScore rank (cs_elevated (refreshUnvettedElevatedSnapshot (Some rank) s)) i a"
  shows "bm_get (cs_items (cs_insert (Some rank) k x s)) i = Some a"
proof -
  have "bm_get (bm_put (cs_score (Some rank) (refreshUnvettedElevatedSnapshot (Some rank) s)) k x (cs_items s)) i = Some a"
    unfolding cs_score_def option.map
    by (rule bm_set_survives[OF ok ne g g2 refl]) (use less in simp)
  then show ?thesis by (simp add: cs_insert_def Let_def)
qed

section \<open>Properties\<close>

text \<open>C39: The content store is content addressed whatever is offered to it: after any sequence of local
  puts, verified puts from the network, reads and purges, under any trust table, what a read of an id
  returns hashes to that id, is unexpired, and carries a verified signature whenever it names a publisher.\<close>

theorem store_content_addressed:
  assumes "fst (readLive now i (foldl (cs_step env tr) (cs_new n) ops)) = Some item"
  shows "computeContentId env (sc_data item) = i \<and> cm_contentId (sc_metadata item) = i \<and> \<not> expired now (sc_metadata item) \<and>
    (cm_publisherId (sc_metadata item) \<noteq> None \<longrightarrow> verifyContentSignature env (sc_metadata item))"
proof -
  have "cs_ok env (foldl (cs_step env tr) (cs_new n) ops)" by (rule store_run.run_inv) (rule cs_new_ok)
  with assms show ?thesis
    by (auto simp: readLive_def cs_ok_def item_ok_def split: option.splits if_splits)
qed

lemma store_content_addressed_witness:
  "let env = \<lparr>computeContentId = (\<lambda>d. map (\<lambda>b. CHR ''x'') d), verifyWithNodeId = (\<lambda>p v s. Some True),
        zstdCompress = (\<lambda>d. d), zstdDecompress = (\<lambda>d n. Some d)\<rparr>;
       m = \<lparr>cm_contentId = ''xx'', cm_name = JString ''n'', cm_mimeType = ''text/plain'', cm_size = 2, cm_createdAt = 0,
         cm_publisherId = Some ''p'', cm_signature = Some ''s'', cm_expiresAt = None, cm_encoding = None,
         cm_originalSize = None, cm_priority = JUndefined\<rparr>
   in \<exists>item. fst (readLive 5 ''xx'' (foldl (cs_step env None) (cs_new None) [PutVerified m [1, 2] 0])) = Some item \<and>
        computeContentId env (sc_data item) = ''xx'' \<and> verifyContentSignature env (sc_metadata item)"
proof -
  define env where "env = \<lparr>computeContentId = (\<lambda>d :: bytes. map (\<lambda>b. CHR ''x'') d), verifyWithNodeId = (\<lambda>p v s. Some True),
        zstdCompress = (\<lambda>d. d), zstdDecompress = (\<lambda>d n. Some d)\<rparr>"
  define m where "m = \<lparr>cm_contentId = ''xx'', cm_name = JString ''n'', cm_mimeType = ''text/plain'', cm_size = 2, cm_createdAt = 0,
         cm_publisherId = Some ''p'', cm_signature = Some ''s'', cm_expiresAt = None, cm_encoding = None,
         cm_originalSize = None, cm_priority = JUndefined\<rparr>"
  have g: "fst (readLive 5 ''xx'' (foldl (cs_step env None) (cs_new None) [PutVerified m [1, 2] 0])) =
      Some \<lparr>sc_metadata = m, sc_data = [1, 2]\<rparr>"
    by (simp add: env_def m_def putVerified_def verifyContentSignature_def expired_def cs_insert_def cs_new_def
        refreshUnvettedElevatedSnapshot_def readLive_def bm_new_def bm_set_def bm_has_def bm_size_def bm_get_def Let_def)
  from store_content_addressed[OF g] g show ?thesis
    unfolding Let_def env_def[symmetric] m_def[symmetric] by (auto simp: m_def)
qed

text \<open>Offered content is stored exactly when its bytes hash to the claimed id, its publisher signature
  verifies, it has not expired, and, when it is compressed, it decompresses; a rejected offer leaves the
  store as it was, an accepted one can be read back unless the store has no capacity at all.\<close>

theorem verified_put_outcome:
  assumes "\<not> num_le (bm_max (cs_items s)) (Num 0)"
  shows "(fst (putVerified env tr now m data s) \<longleftrightarrow>
      computeContentId env data = cm_contentId m \<and> verifyContentSignature env m \<and> \<not> expired now m \<and>
      (cm_encoding m \<noteq> None \<longrightarrow> (\<exists>d. decodeStoredContent env m data = Inr d))) \<and>
    (\<not> fst (putVerified env tr now m data s) \<longrightarrow> snd (putVerified env tr now m data s) = s) \<and>
    (fst (putVerified env tr now m data s) \<longrightarrow>
      fst (readLive now (cm_contentId m) (snd (putVerified env tr now m data s))) = Some \<lparr>sc_metadata = m, sc_data = data\<rparr>)"
proof (intro conjI impI)
  assume a: "fst (putVerified env tr now m data s)"
  then have "\<not> expired now m" by (simp add: putVerified_accepts)
  moreover have "snd (putVerified env tr now m data s) = cs_insert tr (cm_contentId m) \<lparr>sc_metadata = m, sc_data = data\<rparr> s"
    using a by (auto simp: putVerified_def split: if_splits)
  ultimately show "fst (readLive now (cm_contentId m) (snd (putVerified env tr now m data s))) = Some \<lparr>sc_metadata = m, sc_data = data\<rparr>"
    using assms by (simp add: readLive_def cs_insert_def Let_def bm_set_get_same)
qed (rule putVerified_accepts, erule putVerified_rejects)

lemma verified_put_outcome_witness:
  "let env = \<lparr>computeContentId = (\<lambda>d. map (\<lambda>b. CHR ''x'') d), verifyWithNodeId = (\<lambda>p v s. Some False),
        zstdCompress = (\<lambda>d. d), zstdDecompress = (\<lambda>d n. Some d)\<rparr>;
       m = \<lparr>cm_contentId = ''xx'', cm_name = JString ''n'', cm_mimeType = ''text/plain'', cm_size = 2, cm_createdAt = 0,
         cm_publisherId = Some ''p'', cm_signature = Some ''s'', cm_expiresAt = None, cm_encoding = None,
         cm_originalSize = None, cm_priority = JUndefined\<rparr>
   in snd (putVerified env None 0 m [1, 2] (cs_new None)) = cs_new None"
proof -
  have "\<not> num_le (bm_max (cs_items (cs_new None))) (Num 0)" by (simp add: cs_new_def bm_new_def)
  note out = verified_put_outcome[OF this]
  show ?thesis unfolding Let_def
    by (rule mp[OF conjunct1[OF conjunct2[OF out]]])
      (simp add: conjunct1[OF out] verifyContentSignature_def)
qed

text \<open>The signed payload pins down every field it covers: two metadata records whose payloads are the
  same value agree on the content id, name, type, size, publisher, expiry, encoding, original size and
  priority, so none of them can be altered under a valid signature; only the creation time is not
  covered.\<close>

theorem signing_payload_injective:
  "contentSigningPayload a = contentSigningPayload b \<longleftrightarrow>
     cm_contentId a = cm_contentId b \<and> cm_name a = cm_name b \<and> cm_mimeType a = cm_mimeType b \<and> cm_size a = cm_size b \<and>
     cm_publisherId a = cm_publisherId b \<and> cm_expiresAt a = cm_expiresAt b \<and> cm_encoding a = cm_encoding b \<and>
     cm_originalSize a = cm_originalSize b \<and> cm_priority a = cm_priority b"
proof
  assume e: "contentSigningPayload a = contentSigningPayload b"
  have f: "jfield (contentSigningPayload m) ''contentId'' = JString (cm_contentId m)"
    "jfield (contentSigningPayload m) ''name'' = cm_name m"
    "jfield (contentSigningPayload m) ''mimeType'' = JString (cm_mimeType m)"
    "jfield (contentSigningPayload m) ''size'' = JNumber (Num (cm_size m))"
    "jfield (contentSigningPayload m) ''publisherId'' = opt_str (cm_publisherId m)"
    "jfield (contentSigningPayload m) ''expiresAt'' = opt_num (cm_expiresAt m)"
    "jfield (contentSigningPayload m) ''encoding'' = opt_str (cm_encoding m)"
    "jfield (contentSigningPayload m) ''originalSize'' = opt_num (cm_originalSize m)"
    "jfield (contentSigningPayload m) ''priority'' = cm_priority m" for m
    unfolding contentSigningPayload_def by (rule json_object_field; simp)+
  have g: "jfield (contentSigningPayload a) k = jfield (contentSigningPayload b) k" for k by (simp add: e)
  show "cm_contentId a = cm_contentId b \<and> cm_name a = cm_name b \<and> cm_mimeType a = cm_mimeType b \<and> cm_size a = cm_size b \<and>
     cm_publisherId a = cm_publisherId b \<and> cm_expiresAt a = cm_expiresAt b \<and> cm_encoding a = cm_encoding b \<and>
     cm_originalSize a = cm_originalSize b \<and> cm_priority a = cm_priority b"
    using g[of "''contentId''"] g[of "''name''"] g[of "''mimeType''"] g[of "''size''"] g[of "''publisherId''"]
      g[of "''expiresAt''"] g[of "''encoding''"] g[of "''originalSize''"] g[of "''priority''"]
    by (simp add: f)
qed (simp add: contentSigningPayload_def)

lemma elevated_keys_bound:
  assumes wf: "map_wf m" and len: "length el \<le> n"
  shows "length (filter (\<lambda>(i, item). eff_urgency rank el i item < 4 \<and> isUnvettedTrust (live_rank rank item)) m) \<le> n"
proof -
  let ?f = "filter (\<lambda>(i, item). eff_urgency rank el i item < 4 \<and> isUnvettedTrust (live_rank rank item)) m"
  have "fst ` set ?f \<subseteq> set el" using elevated_in_snapshot by fastforce
  then have "card (fst ` set ?f) \<le> card (set el)" by (rule card_mono[rotated]) simp
  also have "\<dots> \<le> n" using card_length[of el] len by simp
  finally show ?thesis using distinct_card[OF map_wf_filter[OF wf]] by (simp only: length_map set_map)
qed

text \<open>In any reachable content store at most eight entries of publishers the node has not vetted are
  scored above the default urgency class, however many they published and whatever urgency they claim;
  and, with trust ranks between 0 and 10, every entry of an unvetted publisher outside those eight scores
  strictly below every entry of a vetted publisher of default urgency or better, so it is evicted first.\<close>

theorem unvetted_urgency_is_budgeted:
  assumes reach: "s = refreshUnvettedElevatedSnapshot (Some rank) (foldl (cs_step env tr) (cs_new n) ops)"
    and range: "\<And>p. 0 \<le> rank p" "\<And>p. rank p < 10"
  shows "length (filter (\<lambda>(i, item). eff_urgency rank (cs_elevated s) i item < 4 \<and> isUnvettedTrust (live_rank rank item))
           (bm_map (cs_items s))) \<le> 8 \<and>
    (\<forall>(i, a) \<in> set (bm_map (cs_items s)). \<forall>(j, b) \<in> set (bm_map (cs_items s)).
       isUnvettedTrust (live_rank rank b) \<and> \<not> isUnvettedTrust (live_rank rank a) \<and>
       urgency_of a \<le> 4 \<and> j \<notin> set (cs_elevated s) \<longrightarrow>
         pickEvictionScore rank (cs_elevated s) j b < pickEvictionScore rank (cs_elevated s) i a)"
proof -
  have ok: "cs_ok env (foldl (cs_step env tr) (cs_new n) ops)" by (rule store_run.run_inv) (rule cs_new_ok)
  then have wf: "map_wf (bm_map (cs_items s))" by (simp add: reach cs_ok_def bm_ok_def)
  have len: "length (cs_elevated s) \<le> 8"
    using last_n_length[of MAX_UNVETTED_ELEVATED_ENTRIES]
    by (simp add: reach refreshUnvettedElevatedSnapshot_def Let_def MAX_UNVETTED_ELEVATED_ENTRIES_def)
  have "pickEvictionScore rank (cs_elevated s) j b < pickEvictionScore rank (cs_elevated s) i a"
    if "isUnvettedTrust (live_rank rank b)" "\<not> isUnvettedTrust (live_rank rank a)" "urgency_of a \<le> 4" "j \<notin> set (cs_elevated s)"
    for i j a b
  proof -
    have "4 \<le> eff_urgency rank (cs_elevated s) j b"
      using elevated_in_snapshot[of rank "cs_elevated s" j b] that by (meson leI)
    moreover have "eff_urgency rank (cs_elevated s) i a = urgency_of a"
      using that by (simp add: eff_urgency_def live_rank_def Let_def)
    moreover have "live_rank rank b < live_rank rank a" using that by (simp add: isUnvettedTrust_def)
    ultimately show ?thesis using that unfolding score_tiers[OF range] by linarith
  qed
  with elevated_keys_bound[OF wf len] show ?thesis by auto
qed

lemma unvetted_urgency_is_budgeted_witness:
  "let env = \<lparr>computeContentId = (\<lambda>d. map (\<lambda>b. CHR ''x'') d), verifyWithNodeId = (\<lambda>p v s. Some True),
        zstdCompress = (\<lambda>d. d), zstdDecompress = (\<lambda>d n. Some d)\<rparr>;
       s = refreshUnvettedElevatedSnapshot (Some (\<lambda>p. 1)) (foldl (cs_step env None) (cs_new None) [])
   in length (filter (\<lambda>(i, item). eff_urgency (\<lambda>p. 1) (cs_elevated s) i item < 4 \<and> isUnvettedTrust (live_rank (\<lambda>p. 1) item))
           (bm_map (cs_items s))) \<le> 8"
  unfolding Let_def by (rule conjunct1[OF unvetted_urgency_is_budgeted[OF refl]]) simp_all

text \<open>Chunking is faithful: the chunks of stored data concatenate back to it, none is longer than
  the chunk size, and their number is what \<open>chunkCountForSize\<close> announces for the data's size.\<close>

theorem chunking_faithful:
  "concat (chunks_of d) = d \<and> (\<forall>c \<in> set (chunks_of d). length c \<le> CHUNK_SIZE) \<and>
   int (length (chunks_of d)) = chunkCountForSize (of_nat (length d))"
  by (simp add: chunks_of_concat chunks_of_bounded chunks_of_length)

lemma chunking_faithful_witness:
  "concat (chunks_of [1, 2, 3]) = [1, 2, 3] \<and> chunkCountForSize 3 = 1"
  using chunking_faithful[of "[1, 2, 3]"] by (simp add: chunks_of_def split_chunks.simps CHUNK_SIZE_def)

end
