(* ===== verification/Assembler.thy ===== *)
theory Assembler
  imports Content
begin

text \<open>
  \<open>ChunkAssembler\<close> of \<open>node/src/content.ts\<close>: reassembly of chunked content from packets that any peer
  may send, with a limit on the contents in progress and on the chunks of each.
\<close>

record assembly_entry =
  ae_chunks :: "(nat, bytes) jsmap"
  ae_totalChunks :: nat

record chunk_assembler =
  ca_entries :: "(string, assembly_entry) jsmap"
  ca_maxEntries :: nat
  ca_maxChunksPerEntry :: nat

definition ca_new :: "nat option \<Rightarrow> nat option \<Rightarrow> chunk_assembler" where
  "ca_new maxEntries maxChunks =
     \<lparr>ca_entries = [], ca_maxEntries = (case maxEntries of Some n \<Rightarrow> n | None \<Rightarrow> 64),
      ca_maxChunksPerEntry = (case maxChunks of Some n \<Rightarrow> n | None \<Rightarrow> 65536)\<rparr>"

text \<open>\<open>chunkIndex\<close> and \<open>totalChunks\<close> come straight from a packet.\<close>

definition valid_claim :: "nat \<Rightarrow> jsval \<Rightarrow> jsval \<Rightarrow> (nat \<times> nat) option" where
  "valid_claim maxChunks chunkIndex totalChunks = (case (as_integer totalChunks, as_integer chunkIndex) of
     (Some n, Some i) \<Rightarrow> if n \<le> 0 \<or> n > int maxChunks \<or> i < 0 \<or> i \<ge> n then None else Some (nat i, nat n)
   | _ \<Rightarrow> None)"

definition addChunk :: "string \<Rightarrow> jsval \<Rightarrow> jsval \<Rightarrow> bytes \<Rightarrow> chunk_assembler \<Rightarrow> bool \<times> chunk_assembler" where
  "addChunk contentId chunkIndex totalChunks data a =
     (case valid_claim (ca_maxChunksPerEntry a) chunkIndex totalChunks of
        None \<Rightarrow> (False, a)
      | Some (i, n) \<Rightarrow>
          let (entry, ents) = (case map_of (ca_entries a) contentId of
                Some e \<Rightarrow> (e, ca_entries a)
              | None \<Rightarrow>
                  (\<lparr>ae_chunks = [], ae_totalChunks = n\<rparr>,
                   if length (ca_entries a) \<ge> ca_maxEntries a
                   then (case first_key (ca_entries a) of Some k \<Rightarrow> map_del k (ca_entries a) | None \<Rightarrow> ca_entries a)
                   else ca_entries a))
          in (True, a\<lparr>ca_entries := map_put contentId (entry\<lparr>ae_chunks := map_put i data (ae_chunks entry)\<rparr>) ents\<rparr>))"

fun collect_parts :: "(nat, bytes) jsmap \<Rightarrow> nat list \<Rightarrow> bytes list option" where
  "collect_parts cs [] = Some []"
| "collect_parts cs (i # is) = (case map_of cs i of
     None \<Rightarrow> None | Some c \<Rightarrow> map_option ((#) c) (collect_parts cs is))"

definition tryComplete :: "content_env \<Rightarrow> string \<Rightarrow> content_metadata \<Rightarrow> chunk_assembler \<Rightarrow> bytes option \<times> chunk_assembler" where
  "tryComplete env contentId metadata a = (case map_of (ca_entries a) contentId of
     None \<Rightarrow> (None, a)
   | Some entry \<Rightarrow>
       if length (ae_chunks entry) < ae_totalChunks entry then (None, a)
       else case collect_parts (ae_chunks entry) [0..<ae_totalChunks entry] of
         None \<Rightarrow> (None, a)
       | Some parts \<Rightarrow>
           let data = concat parts; a' = a\<lparr>ca_entries := map_del contentId (ca_entries a)\<rparr>
           in (if computeContentId env data = cm_contentId metadata then Some data else None, a'))"

definition ca_discard :: "string \<Rightarrow> chunk_assembler \<Rightarrow> chunk_assembler" where
  "ca_discard contentId a = a\<lparr>ca_entries := map_del contentId (ca_entries a)\<rparr>"

section \<open>Memory bounds\<close>

definition entry_ok :: "nat \<Rightarrow> assembly_entry \<Rightarrow> bool" where
  "entry_ok m e \<longleftrightarrow> map_wf (ae_chunks e) \<and> (\<forall>i \<in> fst ` set (ae_chunks e). i < m) \<and>
     0 < ae_totalChunks e \<and> ae_totalChunks e \<le> m"

definition ca_ok :: "chunk_assembler \<Rightarrow> bool" where
  "ca_ok a \<longleftrightarrow> map_wf (ca_entries a) \<and> length (ca_entries a) \<le> max 1 (ca_maxEntries a) \<and>
     (\<forall>(k, e) \<in> set (ca_entries a). entry_ok (ca_maxChunksPerEntry a) e)"

lemma ca_new_ok: "ca_ok (ca_new n m)"
  by (simp add: ca_ok_def ca_new_def)

lemma valid_claim_Some: "valid_claim m ci tc = Some (i, n) \<Longrightarrow> i < n \<and> n \<le> m"
  by (auto simp: valid_claim_def split: option.splits if_splits)

lemma valid_claim_num [simp]:
  "valid_claim m (JNumber (Num (of_nat i))) (JNumber (Num (of_nat n))) = (if i < n \<and> n \<le> m then Some (i, n) else None)"
  by (simp add: valid_claim_def del: as_integer.simps)

lemma entry_put_ok: "entry_ok m e \<Longrightarrow> i < m \<Longrightarrow> entry_ok m (e\<lparr>ae_chunks := map_put i d (ae_chunks e)\<rparr>)"
  by (auto simp: entry_ok_def dom_update)

lemma set_map_put: "p \<in> set (map_put k v m) \<Longrightarrow> p = (k, v) \<or> p \<in> set m"
  by (induction m) (auto split: if_splits)

lemma set_map_del: "p \<in> set (map_del k m) \<Longrightarrow> p \<in> set m"
  by (simp add: map_del_filter)

lemma addChunk_config [simp]:
  "ca_maxEntries (snd (addChunk c ci tc d a)) = ca_maxEntries a"
  "ca_maxChunksPerEntry (snd (addChunk c ci tc d a)) = ca_maxChunksPerEntry a"
  by (auto simp: addChunk_def Let_def split: option.splits prod.splits)

lemma addChunk_ok:
  assumes ok: "ca_ok a"
  shows "ca_ok (snd (addChunk c ci tc d a))"
proof (cases "valid_claim (ca_maxChunksPerEntry a) ci tc")
  case None
  with ok show ?thesis by (simp add: addChunk_def)
next
  case (Some p)
  obtain i n where p: "p = (i, n)" by (cases p)
  with Some valid_claim_Some have bnd: "i < n" "n \<le> ca_maxChunksPerEntry a" by blast+
  from ok have wf: "map_wf (ca_entries a)" and len: "length (ca_entries a) \<le> max 1 (ca_maxEntries a)"
    and es: "\<And>k e. (k, e) \<in> set (ca_entries a) \<Longrightarrow> entry_ok (ca_maxChunksPerEntry a) e"
    by (auto simp: ca_ok_def)
  show ?thesis
  proof (cases "map_of (ca_entries a) c")
    case old: (Some e)
    then have "entry_ok (ca_maxChunksPerEntry a) (e\<lparr>ae_chunks := map_put i d (ae_chunks e)\<rparr>)"
      using es map_of_in_set bnd by (fastforce intro: entry_put_ok)
    with old wf len es Some p show ?thesis
      by (auto simp: ca_ok_def addChunk_def map_put_length_old dest!: set_map_put)
  next
    case new: None
    define ents where "ents = (if length (ca_entries a) \<ge> ca_maxEntries a
       then (case first_key (ca_entries a) of Some k \<Rightarrow> map_del k (ca_entries a) | None \<Rightarrow> ca_entries a) else ca_entries a)"
    have sub: "set ents \<subseteq> set (ca_entries a)" by (auto simp: ents_def split: option.splits dest: set_map_del)
    have wfe: "map_wf ents" using wf by (auto simp: ents_def split: option.splits)
    have none: "map_of ents c = None" using new by (auto simp: ents_def split: option.splits)
    have "Suc (length ents) \<le> max 1 (ca_maxEntries a)"
    proof (cases "length (ca_entries a) \<ge> ca_maxEntries a")
      case True
      show ?thesis
      proof (cases "first_key (ca_entries a)")
        case None
        then have "ca_entries a = []" by simp
        then show ?thesis by (simp add: ents_def)
      next
        case (Some k)
        then have "map_of (ca_entries a) k \<noteq> None" using first_key_in[of "ca_entries a" k] by (auto simp: map_of_eq_None_iff)
        from map_del_length[OF wf this] True Some len show ?thesis by (simp add: ents_def)
      qed
    qed (simp add: ents_def)
    moreover have "entry_ok (ca_maxChunksPerEntry a) \<lparr>ae_chunks = [(i, d)], ae_totalChunks = n\<rparr>"
      using bnd by (simp add: entry_ok_def)
    moreover have "snd (addChunk c ci tc d a) =
        a\<lparr>ca_entries := map_put c \<lparr>ae_chunks = [(i, d)], ae_totalChunks = n\<rparr> ents\<rparr>"
      using Some p new by (simp add: addChunk_def ents_def)
    ultimately show ?thesis using sub wfe none es
      by (auto simp: ca_ok_def map_put_new)
  qed
qed

lemma discard_ok: "ca_ok a \<Longrightarrow> ca_ok (ca_discard c a)"
  using map_del_length_le[of c "ca_entries a"] by (auto simp: ca_ok_def ca_discard_def dest: set_map_del)

lemma tryComplete_ok: "ca_ok a \<Longrightarrow> ca_ok (snd (tryComplete env c m a))"
  using discard_ok[of a c] by (auto simp: tryComplete_def ca_discard_def Let_def split: option.splits)

datatype assembler_op =
    AddChunk string jsval jsval bytes
  | TryComplete string content_metadata
  | Discard string

fun ca_step :: "content_env \<Rightarrow> chunk_assembler \<Rightarrow> assembler_op \<Rightarrow> chunk_assembler" where
  "ca_step env a (AddChunk c ci tc d) = snd (addChunk c ci tc d a)"
| "ca_step env a (TryComplete c m) = snd (tryComplete env c m a)"
| "ca_step env a (Discard c) = ca_discard c a"

interpretation assembler_run: step_invariant "ca_step env" ca_ok for env
proof
  show "ca_ok a \<Longrightarrow> ca_ok (ca_step env a e)" for a e
    by (cases e) (simp_all add: addChunk_ok tryComplete_ok discard_ok)
qed

lemma ca_step_config [simp]:
  "ca_maxEntries (ca_step env a e) = ca_maxEntries a"
  "ca_maxChunksPerEntry (ca_step env a e) = ca_maxChunksPerEntry a"
  by (cases e; auto simp: ca_discard_def tryComplete_def Let_def split: option.splits)+

lemma ca_run_config [simp]:
  "ca_maxEntries (foldl (ca_step env) a es) = ca_maxEntries a"
  "ca_maxChunksPerEntry (foldl (ca_step env) a es) = ca_maxChunksPerEntry a"
  by (induction es arbitrary: a) auto

lemma entry_chunks_bound: "entry_ok m e \<Longrightarrow> length (ae_chunks e) \<le> m"
proof -
  assume ok: "entry_ok m e"
  then have "length (ae_chunks e) = card (fst ` set (ae_chunks e))"
    unfolding entry_ok_def by (metis distinct_card length_map set_map)
  also have "\<dots> \<le> card {..<m}" using ok by (intro card_mono) (auto simp: entry_ok_def)
  finally show ?thesis by simp
qed

section \<open>Reassembly is the inverse of chunking\<close>

lemma collect_parts_total:
  "(\<And>i. i \<in> set is \<Longrightarrow> map_of cs i = Some (f i)) \<Longrightarrow> collect_parts cs is = Some (map f is)"
  by (induction "is") auto

lemma collect_parts_missing: "i \<in> set is \<Longrightarrow> map_of cs i = None \<Longrightarrow> collect_parts cs is = None"
  by (induction "is") (auto split: option.splits)

text \<open>Arrivals of one content: the indices of its chunks, in any order, repeats allowed.\<close>

definition arrive :: "string \<Rightarrow> bytes list \<Rightarrow> chunk_assembler \<Rightarrow> nat \<Rightarrow> chunk_assembler" where
  "arrive c chunks a i = snd (addChunk c (JNumber (Num (of_nat i))) (JNumber (Num (of_nat (length chunks)))) (chunks ! i) a)"

definition holds_prefix :: "string \<Rightarrow> bytes list \<Rightarrow> nat set \<Rightarrow> chunk_assembler \<Rightarrow> bool" where
  "holds_prefix c chunks I a \<longleftrightarrow> (case map_of (ca_entries a) c of
     None \<Rightarrow> I = {}
   | Some e \<Rightarrow> ae_totalChunks e = length chunks \<and> map_wf (ae_chunks e) \<and>
       (\<forall>i. map_of (ae_chunks e) i = (if i \<in> I then Some (chunks ! i) else None)))"

lemma arrive_holds:
  assumes h: "holds_prefix c chunks I a" and i: "i < length chunks"
    and m: "length chunks \<le> ca_maxChunksPerEntry a"
  shows "holds_prefix c chunks (insert i I) (arrive c chunks a i)"
proof (cases "map_of (ca_entries a) c")
  case None
  with h have "I = {}" by (simp add: holds_prefix_def)
  with None i m show ?thesis by (simp add: holds_prefix_def arrive_def addChunk_def Let_def)
next
  case (Some e)
  with h i m show ?thesis by (simp add: holds_prefix_def arrive_def addChunk_def)
qed

lemma arrive_config [simp]: "ca_maxChunksPerEntry (arrive c chunks a i) = ca_maxChunksPerEntry a"
  by (simp add: arrive_def)

lemma arrivals_hold:
  assumes "holds_prefix c chunks I a" and "\<forall>i \<in> set is. i < length chunks"
    and "length chunks \<le> ca_maxChunksPerEntry a"
  shows "holds_prefix c chunks (I \<union> set is) (foldl (arrive c chunks) a is)"
  using assms
proof (induction "is" arbitrary: a I)
  case Nil
  then show ?case by simp
next
  case (Cons i "is")
  then have "holds_prefix c chunks (insert i I) (arrive c chunks a i)" by (simp add: arrive_holds)
  from Cons.IH[OF this] Cons.prems show ?case by simp
qed

lemma holds_all_completes:
  assumes h: "holds_prefix c chunks {..<length chunks} a" and n: "chunks \<noteq> []"
    and hash: "computeContentId env (concat chunks) = cm_contentId m"
  shows "fst (tryComplete env c m a) = Some (concat chunks)"
proof -
  from h n obtain e where e: "map_of (ca_entries a) c = Some e" and t: "ae_totalChunks e = length chunks"
    and wf: "map_wf (ae_chunks e)"
    and g: "\<And>i. map_of (ae_chunks e) i = (if i < length chunks then Some (chunks ! i) else None)"
    by (auto simp: holds_prefix_def split: option.splits)
  have "fst ` set (ae_chunks e) = {..<length chunks}"
  proof (rule set_eqI)
    fix i
    have "i \<in> fst ` set (ae_chunks e) \<longleftrightarrow> map_of (ae_chunks e) i \<noteq> None" by (simp add: map_of_eq_None_iff)
    then show "i \<in> fst ` set (ae_chunks e) \<longleftrightarrow> i \<in> {..<length chunks}" by (simp add: g)
  qed
  then have len: "length (ae_chunks e) = length chunks"
    using wf by (metis card_lessThan distinct_card length_map set_map)
  have "collect_parts (ae_chunks e) [0..<length chunks] = Some (map ((!) chunks) [0..<length chunks])"
    by (rule collect_parts_total) (simp add: g)
  then have "collect_parts (ae_chunks e) [0..<length chunks] = Some chunks" by (simp add: map_nth)
  with e t len hash show ?thesis by (simp add: tryComplete_def Let_def)
qed

lemma tryComplete_sound: "fst (tryComplete env c m a) = Some d \<Longrightarrow> computeContentId env d = cm_contentId m"
  by (auto simp: tryComplete_def Let_def split: option.splits if_splits)

lemma tryComplete_keeps_incomplete:
  "fst (tryComplete env c m a) = None \<Longrightarrow> map_of (ca_entries a) c = Some e \<Longrightarrow>
     i < ae_totalChunks e \<Longrightarrow> map_of (ae_chunks e) i = None \<Longrightarrow> snd (tryComplete env c m a) = a"
  using collect_parts_missing[of i "[0..<ae_totalChunks e]" "ae_chunks e"]
  by (auto simp: tryComplete_def split: option.splits)

section \<open>Properties\<close>

text \<open>Reassembly inverts chunking in whatever order the chunks arrive, duplicates included: once every
  index of \<open>chunks_of\<close> has arrived for a content not in progress before, \<open>tryComplete\<close> returns exactly
  the original bytes, given that they hash to the metadata's id.\<close>

theorem reassembly_any_order:
  assumes fresh: "map_of (ca_entries a) c = None" and all: "set is = {..<length (chunks_of d)}"
    and cap: "length (chunks_of d) \<le> ca_maxChunksPerEntry a"
    and hash: "computeContentId env d = cm_contentId m"
  shows "fst (tryComplete env c m (foldl (arrive c (chunks_of d)) a is)) = Some d"
proof -
  have "holds_prefix c (chunks_of d) {} a" using fresh by (simp add: holds_prefix_def)
  from arrivals_hold[OF this _ cap, of "is"] all
  have "holds_prefix c (chunks_of d) {..<length (chunks_of d)} (foldl (arrive c (chunks_of d)) a is)" by simp
  moreover have "chunks_of d \<noteq> []"
    by (simp add: chunks_of_def split_chunks.simps[of CHUNK_SIZE d]) (simp add: CHUNK_SIZE_def)
  moreover have "computeContentId env (concat (chunks_of d)) = cm_contentId m" by (simp add: chunks_of_concat hash)
  ultimately have "fst (tryComplete env c m (foldl (arrive c (chunks_of d)) a is)) = Some (concat (chunks_of d))"
    by (rule holds_all_completes)
  then show ?thesis by (simp add: chunks_of_concat)
qed

lemma reassembly_any_order_witness:
  "let env = \<lparr>computeContentId = (\<lambda>d. map (\<lambda>b. CHR ''x'') d), verifyWithNodeId = (\<lambda>p v s. Some True),
        zstdCompress = (\<lambda>d. d), zstdDecompress = (\<lambda>d n. Some d)\<rparr>;
       m = \<lparr>cm_contentId = ''xx'', cm_name = JString ''n'', cm_mimeType = ''text/plain'', cm_size = 2, cm_createdAt = 0,
         cm_publisherId = None, cm_signature = None, cm_expiresAt = None, cm_encoding = None,
         cm_originalSize = None, cm_priority = JUndefined\<rparr>
   in fst (tryComplete env ''c'' m (foldl (arrive ''c'' (chunks_of [7, 8])) (ca_new None None) [0, 0])) = Some [7, 8]"
  unfolding Let_def
  by (rule reassembly_any_order) (auto simp: ca_new_def chunks_of_def split_chunks.simps CHUNK_SIZE_def)

text \<open>Whatever chunks arrive, with whatever indices and totals, the assembler never works on more
  contents than configured (one, when configured with none), never holds more chunks of a content than
  allowed, and what it completes hashes to the id in the metadata it was asked for.\<close>

theorem assembler_bounded_and_sound:
  "let a = foldl (ca_step env) (ca_new (Some n) (Some m)) ops in
     length (ca_entries a) \<le> max 1 n \<and>
     list_all (\<lambda>(c, e). length (ae_chunks e) \<le> m \<and> ae_totalChunks e \<le> m) (ca_entries a) \<and>
     pred_option (\<lambda>d. computeContentId env d = cm_contentId md) (fst (tryComplete env c md a))"
proof -
  let ?a = "foldl (ca_step env) (ca_new (Some n) (Some m)) ops"
  have ok: "ca_ok ?a" by (rule assembler_run.run_inv) (rule ca_new_ok)
  have cfg: "ca_maxEntries ?a = n" "ca_maxChunksPerEntry ?a = m" by (simp_all add: ca_new_def)
  from ok cfg have "length (ca_entries ?a) \<le> max 1 n" by (simp add: ca_ok_def)
  moreover have "length (ae_chunks e) \<le> m \<and> ae_totalChunks e \<le> m" if "(k, e) \<in> set (ca_entries ?a)" for k e
    using ok that entry_chunks_bound[of m e] cfg by (auto simp: ca_ok_def entry_ok_def)
  moreover have "pred_option (\<lambda>d. computeContentId env d = cm_contentId md) (fst (tryComplete env c md ?a))"
    using tryComplete_sound by (auto simp: option.pred_set)
  ultimately show ?thesis by (auto simp: Let_def list_all_iff)
qed

end
