(* ===== verification/Directories.thy ===== *)
theory Directories
  imports BoundedMap Content
begin

text \<open>
  What the node remembers about others: \<open>node/src/catalog.ts\<close> (announced content),
  \<open>peer-directory.ts\<close> with the identity announcements of \<open>encryption.ts\<close> (encryption keys by node
  id), \<open>service-directory.ts\<close> with the announcements of \<open>service.ts\<close>, and the table of connected peers
  of \<open>peer.ts\<close>. All but the last are bounded maps; \<open>verifyWithNodeId\<close> (Ed25519) is an argument.
\<close>

type_synonym verifier = "string \<Rightarrow> jsval \<Rightarrow> string \<Rightarrow> bool option"

text \<open>A \<open>try { return verify(...) } catch { return false }\<close>.\<close>

definition verified :: "verifier \<Rightarrow> string \<Rightarrow> jsval \<Rightarrow> string \<Rightarrow> bool" where
  "verified vf nodeId payload signature = (case vf nodeId payload signature of Some b \<Rightarrow> b | None \<Rightarrow> False)"

text \<open>The eviction score a directory is built with: the trust rank of a node id of the entry.\<close>

definition rank_score :: "('v \<Rightarrow> string) \<Rightarrow> (string \<Rightarrow> jsnum) option \<Rightarrow> ('k, 'v) score" where
  "rank_score owner tr = map_option (\<lambda>rank k v. rank (owner v)) tr"

section \<open>The catalog of announced content\<close>

type_synonym remote_catalog = "(string, content_metadata) bounded_map"

definition rc_new :: "jsnum option \<Rightarrow> remote_catalog" where
  "rc_new maxSize = bm_new (Some (case maxSize of Some n \<Rightarrow> n | None \<Rightarrow> Num 4096))"

definition rc_score :: "(string \<Rightarrow> jsnum) option \<Rightarrow> (string, content_metadata) score" where
  "rc_score tr = rank_score (\<lambda>m. case cm_publisherId m of Some p \<Rightarrow> p | None \<Rightarrow> []) tr"

definition rc_get :: "time \<Rightarrow> string \<Rightarrow> remote_catalog \<Rightarrow> content_metadata option \<times> remote_catalog" where
  "rc_get now i c = (case bm_get c i of
     None \<Rightarrow> (None, c)
   | Some m \<Rightarrow> if expired now m then (None, bm_delete i c) else (Some m, c))"

definition rc_has :: "time \<Rightarrow> string \<Rightarrow> remote_catalog \<Rightarrow> bool \<times> remote_catalog" where
  "rc_has now i c = (let (r, c') = rc_get now i c in (r \<noteq> None, c'))"

definition rc_record :: "time \<Rightarrow> (string \<Rightarrow> jsnum) option \<Rightarrow> content_metadata \<Rightarrow> remote_catalog \<Rightarrow> remote_catalog" where
  "rc_record now tr m c = (let (known, c') = rc_has now (cm_contentId m) c in
     if known then c' else bm_put (rc_score tr) (cm_contentId m) m c')"

definition rc_purge :: "time \<Rightarrow> remote_catalog \<Rightarrow> remote_catalog" where
  "rc_purge now c = c\<lparr>bm_map := filter (\<lambda>(i, m). \<not> expired now m) (bm_map c)\<rparr>"

definition rc_list :: "time \<Rightarrow> remote_catalog \<Rightarrow> content_metadata list \<times> remote_catalog" where
  "rc_list now c = (let c' = rc_purge now c in (bm_values c', c'))"

definition rc_size :: "time \<Rightarrow> remote_catalog \<Rightarrow> nat \<times> remote_catalog" where
  "rc_size now c = (let c' = rc_purge now c in (bm_size c', c'))"

lemma rc_get_ok: "bm_ok c \<Longrightarrow> bm_ok (snd (rc_get now i c))"
  by (auto simp: rc_get_def split: option.splits)

lemma rc_record_ok: "bm_ok c \<Longrightarrow> bm_ok (rc_record now tr m c)"
  using rc_get_ok[of c now "cm_contentId m"]
  by (auto simp: rc_record_def rc_has_def Let_def split: prod.splits)

lemma rc_purge_get: "bm_ok c \<Longrightarrow> bm_get (rc_purge now c) i =
    (case bm_get c i of Some m \<Rightarrow> if expired now m then None else Some m | None \<Rightarrow> None)"
  using map_of_filter_wf[of "bm_map c" "\<lambda>i m. \<not> expired now m" i]
  by (auto simp: rc_purge_def bm_get_def bm_ok_def split: option.splits)

text \<open>What \<open>record\<close> may change: the new entry appears when the id had no live entry, an expired entry of
  the same id goes, at most one other entry is evicted, no entry is altered.\<close>

lemma rc_record_get:
  assumes "bm_get (rc_record now tr m c) i = Some m'"
  shows "bm_get c i = Some m' \<or>
    (i = cm_contentId m \<and> m' = m \<and> (case bm_get c i of Some old \<Rightarrow> expired now old | None \<Rightarrow> True))"
  using assms
  by (auto simp: rc_record_def rc_has_def rc_get_def Let_def split: option.splits if_splits prod.splits
      dest!: bm_set_frame)

section \<open>Identity announcements and the directory of peers\<close>

record identity_announcement =
  ia_nodeId :: string
  ia_encryptionPublicKey :: string
  ia_deviceClass :: "string option"
  ia_signature :: string

definition MAX_DEVICE_CLASS_LENGTH :: nat where "MAX_DEVICE_CLASS_LENGTH = 100"

definition isValidDeviceClass :: "jsval \<Rightarrow> bool" where
  "isValidDeviceClass v \<longleftrightarrow> (case as_string v of
     Some s \<Rightarrow> length s > 0 \<and> length s \<le> MAX_DEVICE_CLASS_LENGTH | None \<Rightarrow> False)"

definition identityAnnouncementPayload :: "string \<Rightarrow> string \<Rightarrow> string option \<Rightarrow> jsval" where
  "identityAnnouncementPayload nodeId key deviceClass = json_object
     [(''nodeId'', JString nodeId), (''encryptionPublicKey'', JString key), (''deviceClass'', opt_str deviceClass)]"

definition verifyIdentityAnnouncement :: "verifier \<Rightarrow> identity_announcement \<Rightarrow> bool" where
  "verifyIdentityAnnouncement vf a = verified vf (ia_nodeId a)
     (identityAnnouncementPayload (ia_nodeId a) (ia_encryptionPublicKey a) (ia_deviceClass a)) (ia_signature a)"

type_synonym peer_directory = "(string, identity_announcement) bounded_map"

definition pd_new :: "jsnum option \<Rightarrow> peer_directory" where
  "pd_new maxSize = bm_new (Some (case maxSize of Some n \<Rightarrow> n | None \<Rightarrow> Num 4096))"

definition pd_score :: "(string \<Rightarrow> jsnum) option \<Rightarrow> (string, identity_announcement) score" where
  "pd_score tr = map_option (\<lambda>rank nodeId a. rank nodeId) tr"

definition pd_record :: "(string \<Rightarrow> jsnum) option \<Rightarrow> identity_announcement \<Rightarrow> peer_directory \<Rightarrow> bool \<times> peer_directory" where
  "pd_record tr a d = (if bm_has d (ia_nodeId a) then (False, d) else (True, bm_put (pd_score tr) (ia_nodeId a) a d))"

definition pd_get :: "peer_directory \<Rightarrow> string \<Rightarrow> identity_announcement option" where
  "pd_get d i = bm_get d i"

definition getKey :: "peer_directory \<Rightarrow> string \<Rightarrow> string option" where
  "getKey d i = map_option ia_encryptionPublicKey (bm_get d i)"

definition getDeviceClass :: "peer_directory \<Rightarrow> string \<Rightarrow> string option" where
  "getDeviceClass d i = Option.bind (bm_get d i) ia_deviceClass"

definition pd_list :: "peer_directory \<Rightarrow> identity_announcement list" where
  "pd_list d = bm_values d"

definition pd_ok :: "verifier \<Rightarrow> peer_directory \<Rightarrow> bool" where
  "pd_ok vf d \<longleftrightarrow> bm_ok d \<and> (\<forall>i a. bm_get d i = Some a \<longrightarrow> ia_nodeId a = i \<and> verifyIdentityAnnouncement vf a)"

lemma pd_record_ok:
  "pd_ok vf d \<Longrightarrow> verifyIdentityAnnouncement vf a \<Longrightarrow> pd_ok vf (snd (pd_record tr a d))"
  by (auto simp: pd_ok_def pd_record_def dest!: bm_set_frame)

lemma pd_record_once:
  "snd (pd_record tr a d) = (if bm_get d (ia_nodeId a) \<noteq> None then d else bm_put (pd_score tr) (ia_nodeId a) a d)"
  by (simp add: pd_record_def bm_has_get)

lemma pd_record_stable: "bm_get d i = Some a \<Longrightarrow> bm_get (snd (pd_record tr b d)) i = Some a' \<Longrightarrow> a' = a"
  unfolding pd_record_once by (rule bm.record_once_stable)

lemma identityPayload_inj:
  "identityAnnouncementPayload i k c = identityAnnouncementPayload i' k' c' \<longleftrightarrow> i = i' \<and> k = k' \<and> c = c'"
proof
  assume e: "identityAnnouncementPayload i k c = identityAnnouncementPayload i' k' c'"
  have f: "jfield (identityAnnouncementPayload i k c) ''nodeId'' = JString i"
    "jfield (identityAnnouncementPayload i k c) ''encryptionPublicKey'' = JString k"
    "jfield (identityAnnouncementPayload i k c) ''deviceClass'' = opt_str c" for i k c
    unfolding identityAnnouncementPayload_def by (rule json_object_field; simp)+
  show "i = i' \<and> k = k' \<and> c = c'"
    using f[of i k c] f[of i' k' c'] by (simp add: e)
qed simp

section \<open>Service announcements and their directory\<close>

record service_announcement =
  sa_serviceId :: string
  sa_version :: string
  sa_capabilities :: "string list"
  sa_providerId :: string
  sa_resourceRequirements :: "string option"
  sa_availability :: bool
  sa_createdAt :: time
  sa_signature :: string

definition serviceSigningPayload :: "service_announcement \<Rightarrow> jsval" where
  "serviceSigningPayload a = json_object
    [(''serviceId'', JString (sa_serviceId a)), (''version'', JString (sa_version a)),
     (''capabilities'', JArray (map JString (sa_capabilities a))), (''providerId'', JString (sa_providerId a)),
     (''resourceRequirements'', opt_str (sa_resourceRequirements a)), (''availability'', JBool (sa_availability a)),
     (''createdAt'', JNumber (Num (sa_createdAt a)))]"

definition verifyServiceAnnouncement :: "verifier \<Rightarrow> service_announcement \<Rightarrow> bool" where
  "verifyServiceAnnouncement vf a \<longleftrightarrow> sa_providerId a \<noteq> [] \<and> sa_signature a \<noteq> [] \<and>
     verified vf (sa_providerId a) (serviceSigningPayload a) (sa_signature a)"

type_synonym service_directory = "(string, service_announcement) bounded_map"

definition service_key :: "string \<Rightarrow> string \<Rightarrow> string" where
  "service_key serviceId providerId = serviceId @ [CHR 0x00] @ providerId"

definition sd_new :: "jsnum option \<Rightarrow> service_directory" where
  "sd_new maxSize = bm_new (Some (case maxSize of Some n \<Rightarrow> n | None \<Rightarrow> Num 4096))"

definition sd_score :: "(string \<Rightarrow> jsnum) option \<Rightarrow> (string, service_announcement) score" where
  "sd_score tr = rank_score sa_providerId tr"

definition sd_record :: "(string \<Rightarrow> jsnum) option \<Rightarrow> service_announcement \<Rightarrow> service_directory \<Rightarrow> service_directory" where
  "sd_record tr a d = (let k = service_key (sa_serviceId a) (sa_providerId a) in
     case bm_get d k of
       Some existing \<Rightarrow> if sa_createdAt existing > sa_createdAt a then d else bm_put (sd_score tr) k a d
     | None \<Rightarrow> bm_put (sd_score tr) k a d)"

definition sd_get :: "service_directory \<Rightarrow> string \<Rightarrow> string \<Rightarrow> service_announcement option" where
  "sd_get d s p = bm_get d (service_key s p)"

definition sd_list :: "service_directory \<Rightarrow> service_announcement list" where
  "sd_list d = bm_values d"

definition providersFor :: "service_directory \<Rightarrow> string \<Rightarrow> service_announcement list" where
  "providersFor d s = filter (\<lambda>a. sa_serviceId a = s \<and> sa_availability a) (sd_list d)"

text \<open>Provider ids are hexadecimal, so the separator cannot occur in them and the key is unambiguous.\<close>

lemma service_key_inj:
  assumes "CHR 0x00 \<notin> set p" and "CHR 0x00 \<notin> set p'"
  shows "service_key s p = service_key s' p' \<longleftrightarrow> s = s' \<and> p = p'"
proof
  assume e: "service_key s p = service_key s' p'"
  have t: "takeWhile (\<lambda>c. c \<noteq> CHR 0x00) (rev (service_key s p)) = rev p" if "CHR 0x00 \<notin> set p" for s p
    using that by (simp add: service_key_def takeWhile_append)
  from t[OF assms(1), of s] t[OF assms(2), of s'] e have "p = p'" by simp
  with e show "s = s' \<and> p = p'" by (simp add: service_key_def)
qed simp

definition sd_ok :: "service_directory \<Rightarrow> bool" where
  "sd_ok d \<longleftrightarrow> bm_ok d \<and> (\<forall>k a. bm_get d k = Some a \<longrightarrow> k = service_key (sa_serviceId a) (sa_providerId a))"

lemma sd_record_ok: "sd_ok d \<Longrightarrow> sd_ok (sd_record tr a d)"
  by (auto simp: sd_ok_def sd_record_def Let_def split: option.splits dest!: bm_set_frame)

text \<open>A record replaces the stored announcement of its key by one that is not older.\<close>

lemma sd_record_newer:
  assumes "bm_get d k = Some a" and "bm_get (sd_record tr b d) k = Some a'"
  shows "a' = a \<or> (a' = b \<and> sa_createdAt a \<le> sa_createdAt b)"
  using assms by (auto simp: sd_record_def Let_def split: option.splits if_splits dest!: bm_set_frame)

section \<open>Connected peers\<close>

record 'a peer_info =
  pi_address :: "'a option"
  pi_connectedAt :: time
  pi_lastSeen :: time

type_synonym 'a peer_table = "(string, 'a peer_info) jsmap"

definition pt_upsert :: "time \<Rightarrow> string \<Rightarrow> 'a option \<Rightarrow> 'a peer_table \<Rightarrow> 'a peer_table" where
  "pt_upsert now i address t = (case map_of t i of
     Some existing \<Rightarrow> map_put i (existing\<lparr>pi_lastSeen := now,
        pi_address := (case address of Some a \<Rightarrow> Some a | None \<Rightarrow> pi_address existing)\<rparr>) t
   | None \<Rightarrow> map_put i \<lparr>pi_address = address, pi_connectedAt = now, pi_lastSeen = now\<rparr> t)"

definition pt_touch :: "time \<Rightarrow> string \<Rightarrow> 'a peer_table \<Rightarrow> 'a peer_table" where
  "pt_touch now i t = (case map_of t i of Some info \<Rightarrow> map_put i (info\<lparr>pi_lastSeen := now\<rparr>) t | None \<Rightarrow> t)"

definition pt_remove :: "string \<Rightarrow> 'a peer_table \<Rightarrow> 'a peer_table" where
  "pt_remove i t = map_del i t"

definition pt_list :: "'a peer_table \<Rightarrow> string list" where
  "pt_list t = map fst t"

lemma pt_upsert_connected: "map_of (pt_upsert now i a t) i \<noteq> None"
  by (simp add: pt_upsert_def split: option.splits)

lemma pt_touch_dom: "map fst (pt_touch now i t) = map fst t"
  by (auto simp: pt_touch_def map_put_keys_old split: option.splits)

section \<open>Properties\<close>

text \<open>Any sequence of identity announcements, each recorded only after its verification, as the node's
  handler does.\<close>

fun pd_feed :: "verifier \<Rightarrow> peer_directory \<Rightarrow> (string \<Rightarrow> jsnum) option \<times> identity_announcement \<Rightarrow> peer_directory" where
  "pd_feed vf d (tr, a) = (if verifyIdentityAnnouncement vf a then snd (pd_record tr a d) else d)"

interpretation pd_run: step_invariant "pd_feed vf" "pd_ok vf" for vf
proof
  show "pd_ok vf d \<Longrightarrow> pd_ok vf (pd_feed vf d e)" for d e
    by (cases e) (simp add: pd_record_ok)
qed

text \<open>The encryption key the directory gives for a node id is one that the holder of that id signed, after
  any sequence of announcements; and an announcement never replaces a key already known: the key for an id
  stays as it is, or the entry is evicted.\<close>

theorem identity_keys_bound:
  assumes "getKey (foldl (pd_feed vf) (pd_new n) es) i = Some k"
  shows "(\<exists>c sig. verified vf i (identityAnnouncementPayload i k c) sig) \<and>
    getKey (pd_feed vf (foldl (pd_feed vf) (pd_new n) es) e) i \<in> {Some k, None}"
proof -
  let ?d = "foldl (pd_feed vf) (pd_new n) es"
  have "pd_ok vf ?d" by (rule pd_run.run_inv) (simp add: pd_ok_def pd_new_def)
  moreover obtain a where a: "bm_get ?d i = Some a" "ia_encryptionPublicKey a = k"
    using assms by (auto simp: getKey_def)
  ultimately have "verified vf i (identityAnnouncementPayload i k (ia_deviceClass a)) (ia_signature a)"
    by (auto simp: pd_ok_def verifyIdentityAnnouncement_def)
  moreover have "getKey (pd_feed vf ?d e) i \<in> {Some k, None}"
  proof (cases "bm_get (pd_feed vf ?d e) i")
    case None
    then show ?thesis by (simp add: getKey_def)
  next
    case (Some a')
    obtain tr b where "e = (tr, b)" by (cases e)
    with Some a have "a' = a" using pd_record_stable[OF a(1), of tr b a'] by (auto split: if_splits)
    with Some a show ?thesis by (simp add: getKey_def)
  qed
  ultimately show ?thesis by blast
qed

lemma identity_keys_bound_witness:
  "let a = \<lparr>ia_nodeId = ''n'', ia_encryptionPublicKey = ''k1'', ia_deviceClass = None, ia_signature = ''s''\<rparr>;
       b = \<lparr>ia_nodeId = ''n'', ia_encryptionPublicKey = ''k2'', ia_deviceClass = None, ia_signature = ''s''\<rparr>
   in getKey (pd_feed (\<lambda>i p s. Some True) (foldl (pd_feed (\<lambda>i p s. Some True)) (pd_new None) [(None, a)]) (None, b)) ''n'' \<in> {Some ''k1'', None}"
  unfolding Let_def
  by (rule conjunct2[OF identity_keys_bound])
    (simp add: verifyIdentityAnnouncement_def verified_def pd_record_def pd_new_def bm_new_def bm_set_def bm_has_def bm_size_def bm_get_def getKey_def)

text \<open>The service directory keeps the newest announcement of each provider for each service: under a
  verified provider id the entry that a lookup finds is for exactly that service and provider, and a later
  record replaces it only by an announcement that is not older.\<close>

theorem service_directory_newest:
  assumes found: "sd_get (foldl (\<lambda>d (tr, a). sd_record tr a d) (sd_new n) es) s p = Some a"
    and hex: "CHR 0x00 \<notin> set p" "\<forall>(tr, b) \<in> set es. CHR 0x00 \<notin> set (sa_providerId b)"
  shows "sa_serviceId a = s \<and> sa_providerId a = p \<and>
    (case sd_get (sd_record tr b (foldl (\<lambda>d (tr, a). sd_record tr a d) (sd_new n) es)) s p of
       Some a' \<Rightarrow> a' = a \<or> (a' = b \<and> sa_createdAt a \<le> sa_createdAt b) | None \<Rightarrow> True)"
proof -
  let ?d = "foldl (\<lambda>d (tr, a). sd_record tr a d) (sd_new n) es"
  have run: "sd_ok (foldl (\<lambda>d (tr, a). sd_record tr a d) d es) \<and>
      (\<forall>k a. bm_get (foldl (\<lambda>d (tr, a). sd_record tr a d) d es) k = Some a \<longrightarrow> bm_get d k = Some a \<or> a \<in> snd ` set es)"
    if "sd_ok d" for d
    using that
  proof (induction es arbitrary: d)
    case (Cons e es)
    obtain tr b where e: "e = (tr, b)" by (cases e)
    have "bm_get (sd_record tr b d) k = Some a \<Longrightarrow> bm_get d k = Some a \<or> a = b" for k a
      by (auto simp: sd_record_def Let_def split: option.splits if_splits dest!: bm_set_frame)
    with Cons.IH[OF sd_record_ok[OF Cons.prems, of tr b]] show ?case by (auto simp: e)
  qed simp
  have "sd_ok (sd_new n)" by (simp add: sd_ok_def sd_new_def)
  note ok = run[OF this]
  from found ok have k: "service_key s p = service_key (sa_serviceId a) (sa_providerId a)" and m: "a \<in> snd ` set es"
    by (auto simp: sd_get_def sd_ok_def sd_new_def)
  from m hex(2) have "CHR 0x00 \<notin> set (sa_providerId a)" by auto
  from service_key_inj[OF hex(1) this] k found sd_record_newer[of ?d "service_key s p" a tr b]
  show ?thesis by (auto simp: sd_get_def split: option.splits)
qed

lemma service_directory_newest_witness:
  "let a = \<lparr>sa_serviceId = ''s'', sa_version = ''1'', sa_capabilities = [], sa_providerId = ''p'', sa_resourceRequirements = None,
       sa_availability = True, sa_createdAt = 10, sa_signature = ''x''\<rparr>
   in sa_providerId a = ''p'' \<and>
     (case sd_get (sd_record None (a\<lparr>sa_createdAt := 5\<rparr>) (foldl (\<lambda>d (tr, a). sd_record tr a d) (sd_new None) [(None, a)])) ''s'' ''p'' of
       Some a' \<Rightarrow> a' = a \<or> (a' = a\<lparr>sa_createdAt := 5\<rparr> \<and> (10::rat) \<le> 5) | None \<Rightarrow> True)"
proof -
  let ?a = "\<lparr>sa_serviceId = ''s'', sa_version = ''1'', sa_capabilities = [], sa_providerId = ''p'', sa_resourceRequirements = None,
       sa_availability = True, sa_createdAt = 10, sa_signature = ''x''\<rparr>"
  have "sd_get (foldl (\<lambda>d (tr, a). sd_record tr a d) (sd_new None) [(None, ?a)]) ''s'' ''p'' = Some ?a"
    by (simp add: sd_get_def sd_record_def sd_new_def bm_new_def bm_set_def bm_has_def bm_size_def bm_get_def service_key_def)
  from service_directory_newest[OF this, where tr = None and b = "?a\<lparr>sa_createdAt := 5\<rparr>"] show ?thesis
    by (simp add: Let_def split: option.splits)
qed

end
