(* ===== verification/Messages.thy ===== *)
theory Messages
  imports Directories
begin

text \<open>
  Conversations the node keeps: \<open>node/src/message-history.ts\<close> (private messages by peer),
  \<open>public-channels.ts\<close> (signed public chat, deduplicated by content id) and \<open>groups.ts\<close> (closed
  groups: invitations, signed and encrypted group messages). Each conversation is a length-limited
  list inside a bounded map. AES-GCM and Ed25519 are arguments.
\<close>

definition MAX_MESSAGE_TEXT_LENGTH :: nat where "MAX_MESSAGE_TEXT_LENGTH = 4000"

section \<open>Private message history\<close>

datatype direction = Sent | Received

record stored_message =
  sm_peer :: string
  sm_direction :: direction
  sm_text :: string
  sm_timestamp :: time

record message_history =
  conversations :: "(string, stored_message list) bounded_map"
  maxMessagesPerPeer :: int

definition mh_new :: "jsnum option \<Rightarrow> int option \<Rightarrow> message_history" where
  "mh_new maxPeers maxMessages =
     \<lparr>conversations = bm_new (Some (case maxPeers of Some n \<Rightarrow> n | None \<Rightarrow> Num 256)),
      maxMessagesPerPeer = (case maxMessages of Some n \<Rightarrow> n | None \<Rightarrow> 500)\<rparr>"

definition mh_score :: "(string \<Rightarrow> jsnum) option \<Rightarrow> (string, stored_message list) score" where
  "mh_score tr = map_option (\<lambda>rank peer ms. rank peer) tr"

definition mh_record ::
  "time \<Rightarrow> (string \<Rightarrow> jsnum) option \<Rightarrow> string \<Rightarrow> direction \<Rightarrow> string \<Rightarrow> message_history \<Rightarrow> message_history" where
  "mh_record now tr peer dir text h =
     (let messages = push_bounded (case bm_get (conversations h) peer of Some ms \<Rightarrow> ms | None \<Rightarrow> [])
            \<lparr>sm_peer = peer, sm_direction = dir, sm_text = text, sm_timestamp = now\<rparr> (maxMessagesPerPeer h)
      in if messages = [] then h
         else h\<lparr>conversations := bm_put (mh_score tr) peer messages (conversations h)\<rparr>)"

definition mh_get :: "message_history \<Rightarrow> string \<Rightarrow> stored_message list" where
  "mh_get h peer = (case bm_get (conversations h) peer of Some ms \<Rightarrow> ms | None \<Rightarrow> [])"

text \<open>A conversation holds messages of its own peer, never more than the limit.\<close>

definition mh_ok :: "message_history \<Rightarrow> bool" where
  "mh_ok h \<longleftrightarrow> bm_all (\<lambda>p ms. length ms \<le> nat (maxMessagesPerPeer h) \<and> (\<forall>m \<in> set ms. sm_peer m = p)) (conversations h)"

lemma mh_record_ok: "mh_ok h \<Longrightarrow> mh_ok (mh_record now tr peer dir text h)"
proof -
  assume ok: "mh_ok h"
  let ?old = "case bm_get (conversations h) peer of Some ms \<Rightarrow> ms | None \<Rightarrow> []"
  let ?m = "\<lparr>sm_peer = peer, sm_direction = dir, sm_text = text, sm_timestamp = now\<rparr>"
  have old: "length ?old \<le> nat (maxMessagesPerPeer h) \<and> (\<forall>m \<in> set ?old. sm_peer m = peer)"
    using bm_all_get[OF ok[unfolded mh_ok_def]] by (auto split: option.splits)
  note new = push_bounded_keeps[OF old, of ?m, simplified stored_message.simps, OF refl]
  show ?thesis using ok new unfolding mh_record_def Let_def mh_ok_def
    by (simp add: bm_all_put)
qed

section \<open>Public channels\<close>

record channel_message =
  ch_channel :: string
  ch_author :: string
  ch_text :: string
  ch_timestamp :: time
  ch_contentId :: string

definition text_payload :: "jsval \<Rightarrow> (string \<times> rat) option" where
  "text_payload p = do {
     text \<leftarrow> bounded_string MAX_MESSAGE_TEXT_LENGTH (jfield p ''text'');
     timestamp \<leftarrow> as_finite (jfield p ''timestamp'');
     Some (text, timestamp) }"

definition extractChannelMessagePayload :: "jsval \<Rightarrow> (string \<times> rat) option" where
  "extractChannelMessagePayload p = (if \<not> is_object p then None else text_payload p)"

definition CHANNEL_NAME_PREFIX :: string where "CHANNEL_NAME_PREFIX = ''chat:''"

definition isValidChannelName :: "string \<Rightarrow> bool" where
  "isValidChannelName c \<longleftrightarrow> 1 \<le> length c \<and> length c \<le> 32 \<and>
     list_all (\<lambda>x. x \<in> set ''abcdefghijklmnopqrstuvwxyz0123456789_-'') c"

definition channelContentName :: "string \<Rightarrow> string" where
  "channelContentName channel = CHANNEL_NAME_PREFIX @ channel"

definition parseChannelFromContentName :: "jsval \<Rightarrow> string option" where
  "parseChannelFromContentName name = (case as_string name of
     None \<Rightarrow> None
   | Some s \<Rightarrow>
       if take (length CHANNEL_NAME_PREFIX) s \<noteq> CHANNEL_NAME_PREFIX then None
       else let channel = drop (length CHANNEL_NAME_PREFIX) s in
         if isValidChannelName channel then Some channel else None)"

record public_channels =
  ch_messages :: "(string, channel_message list) bounded_map"
  maxMessagesPerChannel :: int

definition pc_new :: "jsnum option \<Rightarrow> int option \<Rightarrow> public_channels" where
  "pc_new maxChannels maxMessages =
     \<lparr>ch_messages = bm_new (Some (case maxChannels of Some n \<Rightarrow> n | None \<Rightarrow> Num 128)),
      maxMessagesPerChannel = (case maxMessages of Some n \<Rightarrow> n | None \<Rightarrow> 500)\<rparr>"

fun best_of :: "('a \<Rightarrow> jsnum) \<Rightarrow> jsnum \<Rightarrow> 'a list \<Rightarrow> jsnum" where
  "best_of f best [] = best"
| "best_of f best (m # ms) = (let score = f m in best_of f (if num_lt best score then score else best) ms)"

definition bestAuthorTrust :: "(string \<Rightarrow> jsnum) \<Rightarrow> channel_message list \<Rightarrow> jsnum" where
  "bestAuthorTrust rank ms = best_of (\<lambda>m. rank (ch_author m)) NegInf ms"

definition pc_score :: "(string \<Rightarrow> jsnum) option \<Rightarrow> (string, channel_message list) score" where
  "pc_score tr = map_option (\<lambda>rank channel ms. bestAuthorTrust rank ms) tr"

definition pc_record :: "(string \<Rightarrow> jsnum) option \<Rightarrow> channel_message \<Rightarrow> public_channels \<Rightarrow> public_channels" where
  "pc_record tr m c =
     (let existing = (case bm_get (ch_messages c) (ch_channel m) of Some ms \<Rightarrow> ms | None \<Rightarrow> []) in
      if list_ex (\<lambda>x. ch_contentId x = ch_contentId m) existing then c
      else let ms = push_bounded existing m (maxMessagesPerChannel c) in
        if ms = [] then c
        else c\<lparr>ch_messages := bm_put (pc_score tr) (ch_channel m) ms (ch_messages c)\<rparr>)"

definition pc_get :: "public_channels \<Rightarrow> string \<Rightarrow> channel_message list" where
  "pc_get c channel = (case bm_get (ch_messages c) channel of Some ms \<Rightarrow> ms | None \<Rightarrow> [])"

definition pc_list :: "public_channels \<Rightarrow> string list" where
  "pc_list c = bm_keys (ch_messages c)"

definition pc_ok :: "public_channels \<Rightarrow> bool" where
  "pc_ok c \<longleftrightarrow> bm_all (\<lambda>ch ms. length ms \<le> nat (maxMessagesPerChannel c) \<and> distinct (map ch_contentId ms) \<and>
     (\<forall>m \<in> set ms. ch_channel m = ch)) (ch_messages c)"

lemma pc_record_ok:
  assumes ok: "pc_ok c"
  shows "pc_ok (pc_record tr m c)"
proof -
  define old where "old = (case bm_get (ch_messages c) (ch_channel m) of Some ms \<Rightarrow> ms | None \<Rightarrow> [])"
  define new where "new = push_bounded old m (maxMessagesPerChannel c)"
  have o: "length old \<le> nat (maxMessagesPerChannel c) \<and> (\<forall>x \<in> set old. ch_channel x = ch_channel m)"
    and d: "distinct (map ch_contentId old)"
    using bm_all_get[OF ok[unfolded pc_ok_def], of "ch_channel m"]
    by (cases "bm_get (ch_messages c) (ch_channel m)"; simp add: old_def)+
  show ?thesis
  proof (cases "list_ex (\<lambda>x. ch_contentId x = ch_contentId m) old \<or> new = []")
    case True
    then have "pc_record tr m c = c" by (auto simp: pc_record_def Let_def old_def new_def)
    with ok show ?thesis by simp
  next
    case False
    then have "ch_contentId m \<notin> ch_contentId ` set old" by (auto simp: list_ex_iff)
    with d have "distinct (map ch_contentId new)" unfolding new_def by (intro push_bounded_distinct)
    with push_bounded_keeps[OF o refl] ok
    have "bm_all (\<lambda>ch ms. length ms \<le> nat (maxMessagesPerChannel c) \<and> distinct (map ch_contentId ms) \<and>
       (\<forall>x \<in> set ms. ch_channel x = ch)) (bm_put (pc_score tr) (ch_channel m) new (ch_messages c))"
      unfolding pc_ok_def new_def by (intro bm_all_put) auto
    moreover have "pc_record tr m c = c\<lparr>ch_messages := bm_put (pc_score tr) (ch_channel m) new (ch_messages c)\<rparr>"
      using False by (simp add: pc_record_def Let_def old_def new_def)
    ultimately show ?thesis by (simp add: pc_ok_def)
  qed
qed

section \<open>Groups\<close>

record group_info =
  gi_groupId :: string
  gi_name :: string
  gi_key :: bytes
  gi_members :: "string list"
  gi_createdBy :: string
  gi_createdAt :: time

record group_message =
  gm_groupId :: string
  gm_senderId :: string
  gm_text :: string
  gm_timestamp :: time
  gm_messageId :: string

record group_invite =
  inv_groupId :: string
  inv_name :: string
  inv_groupKey :: string
  inv_members :: "string list"
  inv_createdBy :: string
  inv_createdAt :: time

definition is_hex :: "nat \<Rightarrow> string \<Rightarrow> bool" where
  "is_hex n s \<longleftrightarrow> length s = n \<and> list_all (\<lambda>c. c \<in> set ''0123456789abcdef'') s"

definition valid_group_id :: "jsval \<Rightarrow> string option" where
  "valid_group_id v = (case as_string v of Some s \<Rightarrow> if is_hex 32 s then Some s else None | None \<Rightarrow> None)"

fun all_strings :: "jsval list \<Rightarrow> string list option" where
  "all_strings [] = Some []"
| "all_strings (v # vs) = do { s \<leftarrow> as_string v; ss \<leftarrow> all_strings vs; Some (s # ss) }"

fun string_array :: "jsval \<Rightarrow> string list option" where
  "string_array (JArray vs) = all_strings vs"
| "string_array v = None"

definition extractGroupInvite :: "jsval \<Rightarrow> group_invite option" where
  "extractGroupInvite p = do {
     _ \<leftarrow> require (is_object p);
     _ \<leftarrow> require (jfield p ''type'' = JString ''group-invite'');
     groupId \<leftarrow> valid_group_id (jfield p ''groupId'');
     name \<leftarrow> bounded_string 128 (jfield p ''name'');
     groupKey \<leftarrow> as_string (jfield p ''groupKey'');
     _ \<leftarrow> require (is_hex 64 groupKey);
     members \<leftarrow> string_array (jfield p ''members'');
     createdBy \<leftarrow> as_string (jfield p ''createdBy'');
     createdAt \<leftarrow> as_finite (jfield p ''createdAt'');
     Some \<lparr>inv_groupId = groupId, inv_name = name, inv_groupKey = groupKey, inv_members = members,
           inv_createdBy = createdBy, inv_createdAt = createdAt\<rparr> }"

record encrypted_payload =
  ep_nonce :: string
  ep_ciphertext :: string
  ep_authTag :: string

record group_packet = encrypted_payload +
  gp_groupId :: string
  gp_senderId :: string
  gp_signature :: string

definition groupMessageSigningPayload :: "group_packet \<Rightarrow> jsval" where
  "groupMessageSigningPayload p = json_object
    [(''groupId'', JString (gp_groupId p)), (''senderId'', JString (gp_senderId p)), (''nonce'', JString (ep_nonce p)),
     (''ciphertext'', JString (ep_ciphertext p)), (''authTag'', JString (ep_authTag p))]"

definition verifyGroupMessage :: "verifier \<Rightarrow> jsval \<Rightarrow> group_packet option" where
  "verifyGroupMessage vf p = do {
     _ \<leftarrow> require (is_object p);
     groupId \<leftarrow> valid_group_id (jfield p ''groupId'');
     senderId \<leftarrow> as_string (jfield p ''senderId'');
     _ \<leftarrow> require (length senderId \<noteq> 0);
     nonce \<leftarrow> as_string (jfield p ''nonce'');
     ciphertext \<leftarrow> as_string (jfield p ''ciphertext'');
     authTag \<leftarrow> as_string (jfield p ''authTag'');
     signature \<leftarrow> as_string (jfield p ''signature'');
     let fields = \<lparr>ep_nonce = nonce, ep_ciphertext = ciphertext, ep_authTag = authTag,
                   gp_groupId = groupId, gp_senderId = senderId, gp_signature = signature\<rparr> in
     (if verified vf senderId (groupMessageSigningPayload fields) signature then Some fields else None) }"

text \<open>\<open>decrypt\<close> stands for AES-256-GCM with the parse of the plaintext as JSON; \<open>None\<close> is a thrown error,
  which \<open>decryptGroupMessage\<close> passes on as \<open>Inl\<close>.\<close>

datatype group_error = DecryptFailed

definition decryptGroupMessage ::
  "(bytes \<Rightarrow> group_packet \<Rightarrow> jsval option) \<Rightarrow> group_packet \<Rightarrow> bytes \<Rightarrow> group_error + (string \<times> rat) option" where
  "decryptGroupMessage decrypt p key = (case decrypt key p of
     None \<Rightarrow> Inl DecryptFailed
   | Some v \<Rightarrow> Inr (if \<not> is_object v then None else text_payload v))"

record group_entry =
  ge_info :: group_info
  ge_messages :: "group_message list"

record group_store =
  gs_groups :: "(string, group_entry) bounded_map"
  maxMessagesPerGroup :: int

definition gs_new :: "jsnum option \<Rightarrow> int option \<Rightarrow> group_store" where
  "gs_new maxGroups maxMessages =
     \<lparr>gs_groups = bm_new (Some (case maxGroups of Some n \<Rightarrow> n | None \<Rightarrow> Num 128)),
      maxMessagesPerGroup = (case maxMessages of Some n \<Rightarrow> n | None \<Rightarrow> 500)\<rparr>"

definition gs_score :: "(string \<Rightarrow> jsnum) option \<Rightarrow> (string, group_entry) score" where
  "gs_score tr = rank_score (\<lambda>e. gi_createdBy (ge_info e)) tr"

definition addGroup :: "(string \<Rightarrow> jsnum) option \<Rightarrow> group_info \<Rightarrow> group_store \<Rightarrow> group_store" where
  "addGroup tr info g = (if bm_has (gs_groups g) (gi_groupId info) then g
     else g\<lparr>gs_groups := bm_put (gs_score tr) (gi_groupId info) \<lparr>ge_info = info, ge_messages = []\<rparr> (gs_groups g)\<rparr>)"

definition getGroup :: "group_store \<Rightarrow> string \<Rightarrow> group_info option" where
  "getGroup g i = map_option ge_info (bm_get (gs_groups g) i)"

definition listGroups :: "group_store \<Rightarrow> group_info list" where
  "listGroups g = map ge_info (bm_values (gs_groups g))"

definition recordGroupMessage :: "group_message \<Rightarrow> group_store \<Rightarrow> group_store" where
  "recordGroupMessage m g = (case bm_get (gs_groups g) (gm_groupId m) of
     None \<Rightarrow> g
   | Some e \<Rightarrow>
       if list_ex (\<lambda>x. gm_messageId x = gm_messageId m) (ge_messages e) then g
       else g\<lparr>gs_groups := bm_write (gm_groupId m)
              (e\<lparr>ge_messages := push_bounded (ge_messages e) m (maxMessagesPerGroup g)\<rparr>) (gs_groups g)\<rparr>)"

definition getGroupMessages :: "group_store \<Rightarrow> string \<Rightarrow> group_message list" where
  "getGroupMessages g i = (case bm_get (gs_groups g) i of Some e \<Rightarrow> ge_messages e | None \<Rightarrow> [])"

definition gs_ok :: "group_store \<Rightarrow> bool" where
  "gs_ok g \<longleftrightarrow> bm_all (\<lambda>i e. gi_groupId (ge_info e) = i \<and> length (ge_messages e) \<le> nat (maxMessagesPerGroup g) \<and>
     distinct (map gm_messageId (ge_messages e)) \<and> (\<forall>m \<in> set (ge_messages e). gm_groupId m = i)) (gs_groups g)"

lemma addGroup_ok: "gs_ok g \<Longrightarrow> gs_ok (addGroup tr info g)"
  unfolding gs_ok_def addGroup_def by (auto intro: bm_all_put)

lemma recordGroupMessage_ok: "gs_ok g \<Longrightarrow> gs_ok (recordGroupMessage m g)"
proof (cases "bm_get (gs_groups g) (gm_groupId m)")
  case (Some e)
  assume ok: "gs_ok g"
  have old: "gi_groupId (ge_info e) = gm_groupId m \<and> length (ge_messages e) \<le> nat (maxMessagesPerGroup g) \<and>
     distinct (map gm_messageId (ge_messages e)) \<and> (\<forall>x \<in> set (ge_messages e). gm_groupId x = gm_groupId m)"
    using bm_all_get[OF ok[unfolded gs_ok_def] Some] .
  show ?thesis
  proof (cases "list_ex (\<lambda>x. gm_messageId x = gm_messageId m) (ge_messages e)")
    case False
    let ?ms = "push_bounded (ge_messages e) m (maxMessagesPerGroup g)"
    have "length ?ms \<le> nat (maxMessagesPerGroup g) \<and> distinct (map gm_messageId ?ms) \<and> (\<forall>x \<in> set ?ms. gm_groupId x = gm_groupId m)"
      using old False push_bounded_keeps[of "ge_messages e" "maxMessagesPerGroup g" "\<lambda>x. gm_groupId x = gm_groupId m" m]
        push_bounded_distinct[of gm_messageId "ge_messages e" m "maxMessagesPerGroup g"]
      by (force simp: list_ex_iff)
    with ok old Some False show ?thesis unfolding recordGroupMessage_def gs_ok_def
      by (auto intro!: bm_all_write)
  qed (use ok Some in \<open>simp add: recordGroupMessage_def\<close>)
qed (simp add: recordGroupMessage_def)

text \<open>The key of a known group never changes: an invitation for a known group id is ignored.\<close>

lemma addGroup_known: "getGroup g i = Some info \<Longrightarrow> getGroup (addGroup tr info' g) i \<in> {Some info, None}"
  by (cases "bm_get (gs_groups (addGroup tr info' g)) i")
    (auto simp: getGroup_def addGroup_def bm_has_get split: if_splits dest!: bm_set_frame)

lemma recordGroupMessage_info: "getGroup (recordGroupMessage m g) i = getGroup g i"
  by (auto simp: getGroup_def recordGroupMessage_def split: option.splits)

section \<open>Conversations as a run\<close>

datatype conversation_op =
    HistoryRecord time "(string \<Rightarrow> jsnum) option" string direction string
  | ChannelRecord "(string \<Rightarrow> jsnum) option" channel_message
  | GroupAdd "(string \<Rightarrow> jsnum) option" group_info
  | GroupRecord group_message

type_synonym conversation_state = "message_history \<times> public_channels \<times> group_store"

fun conv_step :: "conversation_state \<Rightarrow> conversation_op \<Rightarrow> conversation_state" where
  "conv_step (h, c, g) (HistoryRecord now tr p d t) = (mh_record now tr p d t h, c, g)"
| "conv_step (h, c, g) (ChannelRecord tr m) = (h, pc_record tr m c, g)"
| "conv_step (h, c, g) (GroupAdd tr i) = (h, c, addGroup tr i g)"
| "conv_step (h, c, g) (GroupRecord m) = (h, c, recordGroupMessage m g)"

definition conv_limits :: "conversation_state \<Rightarrow> int \<times> int \<times> int" where
  "conv_limits = (\<lambda>(h, c, g). (maxMessagesPerPeer h, maxMessagesPerChannel c, maxMessagesPerGroup g))"

definition conv_ok :: "conversation_state \<Rightarrow> bool" where
  "conv_ok = (\<lambda>(h, c, g). mh_ok h \<and> pc_ok c \<and> gs_ok g)"

lemma conv_step_limits [simp]: "conv_limits (conv_step s e) = conv_limits s"
  by (cases s; cases e) (auto simp: conv_limits_def mh_record_def pc_record_def addGroup_def recordGroupMessage_def Let_def
      split: option.splits)

lemma conv_run_limits: "conv_limits (foldl conv_step s es) = conv_limits s"
  by (induction es arbitrary: s) auto

interpretation conversation_run: step_invariant conv_step conv_ok
proof
  show "conv_ok s \<Longrightarrow> conv_ok (conv_step s e)" for s e
    by (cases s; cases e) (auto simp: conv_ok_def mh_record_ok pc_record_ok addGroup_ok recordGroupMessage_ok)
qed

section \<open>Properties\<close>

text \<open>However many messages arrive, in any order and for any peers, channels and groups, every
  conversation stays within its configured length, a channel or group never shows the same content id or
  message id twice, and a group's messages belong to a group the node has.\<close>

theorem conversations_bounded_and_deduplicated:
  assumes start: "s = (mh_new a (Some x), pc_new b (Some y), gs_new c (Some z))"
  shows "case foldl conv_step s es of (h, ch, g) \<Rightarrow>
    length (mh_get h p) \<le> nat x \<and>
    length (pc_get ch p) \<le> nat y \<and> distinct (map ch_contentId (pc_get ch p)) \<and>
    length (getGroupMessages g p) \<le> nat z \<and> distinct (map gm_messageId (getGroupMessages g p)) \<and>
    (getGroupMessages g p \<noteq> [] \<longrightarrow> (\<exists>info. getGroup g p = Some info \<and> gi_groupId info = p))"
proof -
  obtain h ch g where r: "foldl conv_step s es = (h, ch, g)" by (metis prod_cases3)
  have "conv_ok s" by (simp add: start conv_ok_def mh_ok_def pc_ok_def gs_ok_def mh_new_def pc_new_def gs_new_def)
  then have ok: "conv_ok (h, ch, g)" using conversation_run.run_inv[of s es] r by simp
  have lim: "maxMessagesPerPeer h = x" "maxMessagesPerChannel ch = y" "maxMessagesPerGroup g = z"
    using conv_run_limits[of s es] r by (simp_all add: conv_limits_def start mh_new_def pc_new_def gs_new_def)
  from ok have a: "mh_ok h" "pc_ok ch" "gs_ok g" by (simp_all add: conv_ok_def)
  have "length (mh_get h p) \<le> nat x"
    using a(1) lim(1) by (auto simp: mh_get_def mh_ok_def dest: bm_all_get split: option.splits)
  moreover have "length (pc_get ch p) \<le> nat y \<and> distinct (map ch_contentId (pc_get ch p))"
    using a(2) lim(2) by (auto simp: pc_get_def pc_ok_def dest: bm_all_get split: option.splits)
  moreover have "length (getGroupMessages g p) \<le> nat z \<and> distinct (map gm_messageId (getGroupMessages g p)) \<and>
    (getGroupMessages g p \<noteq> [] \<longrightarrow> (\<exists>info. getGroup g p = Some info \<and> gi_groupId info = p))"
    using a(3) lim(3) by (auto simp: getGroupMessages_def getGroup_def gs_ok_def dest!: bm_all_get split: option.splits)
  ultimately show ?thesis using r by simp
qed

lemma conversations_bounded_and_deduplicated_witness:
  "let m = \<lparr>ch_channel = ''general'', ch_author = ''a'', ch_text = ''hi'', ch_timestamp = 1, ch_contentId = ''c1''\<rparr>
   in case foldl conv_step (mh_new None (Some 5), pc_new None (Some 2), gs_new None (Some 7)) [ChannelRecord None m, ChannelRecord None m] of
     (h, ch, g) \<Rightarrow> length (pc_get ch ''general'') \<le> 2 \<and> distinct (map ch_contentId (pc_get ch ''general''))"
  unfolding Let_def
  using conversations_bounded_and_deduplicated[OF refl, where a = None and x = 5 and b = None and y = 2 and c = None and z = 7
      and p = "''general''" and es = "[ChannelRecord None \<lparr>ch_channel = ''general'', ch_author = ''a'', ch_text = ''hi'', ch_timestamp = 1, ch_contentId = ''c1''\<rparr>,
        ChannelRecord None \<lparr>ch_channel = ''general'', ch_author = ''a'', ch_text = ''hi'', ch_timestamp = 1, ch_contentId = ''c1''\<rparr>]"]
  by (auto split: prod.splits)

text \<open>Publishing under a channel's content name and reading the channel back from that name are inverse:
  a name parses to a channel exactly when it is the content name of that channel and the channel name is
  valid, so no other content name can pose as a channel.\<close>

theorem channel_name_roundtrip:
  "parseChannelFromContentName v = Some c \<longleftrightarrow> v = JString (channelContentName c) \<and> isValidChannelName c"
proof
  assume "parseChannelFromContentName v = Some c"
  then obtain s where s: "v = JString s" "take (length CHANNEL_NAME_PREFIX) s = CHANNEL_NAME_PREFIX"
      "drop (length CHANNEL_NAME_PREFIX) s = c" "isValidChannelName c"
    by (auto simp: parseChannelFromContentName_def Let_def as_string_Some split: option.splits if_splits)
  then have "s = CHANNEL_NAME_PREFIX @ c" by (metis append_take_drop_id)
  with s show "v = JString (channelContentName c) \<and> isValidChannelName c" by (simp add: channelContentName_def)
qed (simp add: parseChannelFromContentName_def channelContentName_def)

text \<open>A group message is accepted only when its sender signed exactly the group id, sender and
  ciphertext it carries, for a well-formed group id; everything else, of whatever shape, is refused.\<close>

theorem group_message_authentic:
  assumes "verifyGroupMessage vf v = Some p"
  shows "verified vf (gp_senderId p) (groupMessageSigningPayload p) (gp_signature p) \<and> gp_senderId p \<noteq> [] \<and>
    is_hex 32 (gp_groupId p) \<and> jfield v ''groupId'' = JString (gp_groupId p) \<and> jfield v ''senderId'' = JString (gp_senderId p) \<and>
    jfield v ''ciphertext'' = JString (ep_ciphertext p)"
  using assms
  by (auto simp: verifyGroupMessage_def extractor_Some Let_def valid_group_id_def split: if_splits option.splits)

lemma group_message_authentic_witness:
  "let v = JObject [(''groupId'', JString (replicate 32 CHR ''a'')), (''senderId'', JString ''s''), (''nonce'', JString ''n''),
       (''ciphertext'', JString ''c''), (''authTag'', JString ''t''), (''signature'', JString ''g'')];
     p = \<lparr>ep_nonce = ''n'', ep_ciphertext = ''c'', ep_authTag = ''t'', gp_groupId = replicate 32 CHR ''a'',
          gp_senderId = ''s'', gp_signature = ''g''\<rparr>
   in verifyGroupMessage (\<lambda>i pl s. Some True) v = Some p \<and> gp_senderId p \<noteq> [] \<and> is_hex 32 (gp_groupId p)"
proof -
  let ?v = "JObject [(''groupId'', JString (replicate 32 CHR ''a'')), (''senderId'', JString ''s''), (''nonce'', JString ''n''),
       (''ciphertext'', JString ''c''), (''authTag'', JString ''t''), (''signature'', JString ''g'')]"
  let ?p = "\<lparr>ep_nonce = ''n'', ep_ciphertext = ''c'', ep_authTag = ''t'', gp_groupId = replicate 32 CHR ''a'',
          gp_senderId = ''s'', gp_signature = ''g''\<rparr>"
  have "is_hex 32 (replicate 32 CHR ''a'')" by (simp add: is_hex_def list_all_iff)
  then have v: "verifyGroupMessage (\<lambda>i pl s. Some True) ?v = Some ?p"
    by (simp add: verifyGroupMessage_def valid_group_id_def verified_def require_def)
  from group_message_authentic[OF v] v show ?thesis unfolding Let_def by simp
qed

end
