(* ===== verification/Registries.thy ===== *)
theory Registries
  imports Messages
begin

text \<open>
  Situational awareness: \<open>node/src/drops.ts\<close> (geolocated notes), \<open>location-registry.ts\<close> (opt-in
  positions), \<open>relay-registry.ts\<close> (physical relays, their telemetry and signed commands),
  \<open>emergency-beacon.ts\<close> (SOS sightings) and \<open>node-appends.ts\<close> (signed notes addressed to one
  node). Each has an extractor that turns an untyped payload into a record or refuses it.
\<close>

section \<open>Geolocated drops\<close>

datatype drop_kind = InfoDrop | HazardDrop | EmergencyDrop

definition drop_kinds :: "(string \<times> drop_kind) list" where
  "drop_kinds = [(''info'', InfoDrop), (''hazard'', HazardDrop), (''emergency'', EmergencyDrop)]"

definition drop_kind_of :: "jsval \<Rightarrow> drop_kind option" where
  "drop_kind_of v = Option.bind (as_string v) (map_of drop_kinds)"

definition MAX_DROP_LABEL_LENGTH :: nat where "MAX_DROP_LABEL_LENGTH = 100"

record drop_payload =
  dp_text :: string
  dp_lat :: rat
  dp_lon :: rat
  dp_label :: "string option"
  dp_kind :: drop_kind
  dp_timestamp :: rat

definition extractDropPayload :: "jsval \<Rightarrow> drop_payload option" where
  "extractDropPayload p = do {
     _ \<leftarrow> require (is_object p);
     text \<leftarrow> bounded_string MAX_MESSAGE_TEXT_LENGTH (jfield p ''text'');
     lat \<leftarrow> finite_in (-90) 90 (jfield p ''lat'');
     lon \<leftarrow> finite_in (-180) 180 (jfield p ''lon'');
     label \<leftarrow> optional (bounded_string MAX_DROP_LABEL_LENGTH) (jfield p ''label'');
     kind \<leftarrow> drop_kind_of (jfield p ''kind'');
     timestamp \<leftarrow> as_finite (jfield p ''timestamp'');
     Some \<lparr>dp_text = text, dp_lat = lat, dp_lon = lon, dp_label = label, dp_kind = kind, dp_timestamp = timestamp\<rparr> }"

record drop_item = drop_payload +
  di_dropId :: string
  di_author :: string
  di_expiresAt :: "time option"
  di_receivedFrom :: "string option"
  di_observedAt :: time

type_synonym drop_store = "(string, drop_item) bounded_map"

definition drops_new :: "jsnum option \<Rightarrow> drop_store" where
  "drops_new maxDrops = bm_new (Some (case maxDrops of Some n \<Rightarrow> n | None \<Rightarrow> Num 1024))"

definition drops_score :: "(string \<Rightarrow> jsnum) option \<Rightarrow> (string, drop_item) score" where
  "drops_score tr = rank_score di_author tr"

definition drops_record :: "(string \<Rightarrow> jsnum) option \<Rightarrow> drop_item \<Rightarrow> drop_store \<Rightarrow> drop_store" where
  "drops_record tr d s = (if bm_has s (di_dropId d) then s else bm_put (drops_score tr) (di_dropId d) d s)"

definition drop_expired :: "time \<Rightarrow> drop_item \<Rightarrow> bool" where
  "drop_expired now d \<longleftrightarrow> (case di_expiresAt d of Some t \<Rightarrow> t \<le> now | None \<Rightarrow> False)"

text \<open>\<open>Array.prototype.sort\<close> is stable.\<close>

definition drops_list :: "time \<Rightarrow> drop_store \<Rightarrow> drop_item list \<times> drop_store" where
  "drops_list now s = (let s' = bm_filter (\<lambda>i d. \<not> drop_expired now d) s in
     (sort_key (\<lambda>d. - dp_timestamp d) (bm_values s'), s'))"

lemma drops_record_ok: "bm_ok s \<Longrightarrow> bm_ok (drops_record tr d s)"
  unfolding drops_record_def bm_has_get by (rule bm.record_once_ok)

lemma drops_list_ok: "bm_ok s \<Longrightarrow> bm_ok (snd (drops_list now s))"
  by (simp add: drops_list_def Let_def bm_filter_ok)

section \<open>Location reports\<close>

record location_payload =
  lp_lat :: rat
  lp_lon :: rat
  lp_accuracy :: "rat option"
  lp_timestamp :: rat

definition nonneg_finite :: "jsval \<Rightarrow> rat option" where
  "nonneg_finite v = (case as_finite v of Some r \<Rightarrow> if r < 0 then None else Some r | None \<Rightarrow> None)"

definition extractLocationReport :: "jsval \<Rightarrow> location_payload option" where
  "extractLocationReport p = do {
     _ \<leftarrow> require (is_object p);
     _ \<leftarrow> require (jfield p ''type'' = JString ''location-report'');
     lat \<leftarrow> finite_in (-90) 90 (jfield p ''lat'');
     lon \<leftarrow> finite_in (-180) 180 (jfield p ''lon'');
     accuracy \<leftarrow> optional nonneg_finite (jfield p ''accuracy'');
     timestamp \<leftarrow> as_finite (jfield p ''timestamp'');
     Some \<lparr>lp_lat = lat, lp_lon = lon, lp_accuracy = accuracy, lp_timestamp = timestamp\<rparr> }"

record location_registry =
  lr_reports :: "(string, location_payload) bounded_map"
  lr_maxReportAgeMs :: "rat option"

definition lr_new :: "jsnum option \<Rightarrow> rat option \<Rightarrow> location_registry" where
  "lr_new maxReports maxAge =
     \<lparr>lr_reports = bm_new (Some (case maxReports of Some n \<Rightarrow> n | None \<Rightarrow> Num 256)), lr_maxReportAgeMs = maxAge\<rparr>"

definition lr_score :: "(string \<Rightarrow> jsnum) option \<Rightarrow> (string, location_payload) score" where
  "lr_score tr = map_option (\<lambda>rank i r. rank i) tr"

definition lr_record :: "time \<Rightarrow> (string \<Rightarrow> jsnum) option \<Rightarrow> string \<Rightarrow> location_payload \<Rightarrow> location_registry \<Rightarrow> location_registry" where
  "lr_record now tr reporterId report l =
     (let timestamp = min (lp_timestamp report) now;
          l' = l\<lparr>lr_reports := bm_put (lr_score tr) reporterId (report\<lparr>lp_timestamp := timestamp\<rparr>) (lr_reports l)\<rparr>
      in case bm_get (lr_reports l) reporterId of
        Some existing \<Rightarrow> if lp_timestamp existing \<ge> timestamp then l else l'
      | None \<Rightarrow> l')"

definition lr_isExpired :: "time \<Rightarrow> location_registry \<Rightarrow> location_payload \<Rightarrow> bool" where
  "lr_isExpired now l r \<longleftrightarrow> (case lr_maxReportAgeMs l of Some a \<Rightarrow> now - lp_timestamp r > a | None \<Rightarrow> False)"

definition lr_get :: "time \<Rightarrow> string \<Rightarrow> location_registry \<Rightarrow> location_payload option \<times> location_registry" where
  "lr_get now i l = (case bm_get (lr_reports l) i of
     None \<Rightarrow> (None, l)
   | Some r \<Rightarrow> if lr_isExpired now l r then (None, l\<lparr>lr_reports := bm_delete i (lr_reports l)\<rparr>) else (Some r, l))"

definition lr_list :: "time \<Rightarrow> location_registry \<Rightarrow> location_payload list \<times> location_registry" where
  "lr_list now l = (let m = bm_filter (\<lambda>i r. \<not> lr_isExpired now l r) (lr_reports l) in (bm_values m, l\<lparr>lr_reports := m\<rparr>))"

lemma lr_record_frame:
  assumes "bm_get (lr_reports (lr_record now tr j rep l)) i = Some r"
  shows "bm_get (lr_reports l) i = Some r \<or>
    (i = j \<and> r = rep\<lparr>lp_timestamp := min (lp_timestamp rep) now\<rparr> \<and>
     (case bm_get (lr_reports l) i of Some e \<Rightarrow> lp_timestamp e < lp_timestamp r | None \<Rightarrow> True))"
  using assms by (auto simp: lr_record_def Let_def split: option.splits if_splits dest!: bm_set_frame)

section \<open>Emergency beacons\<close>

definition MAX_BEACON_MESSAGE_LENGTH :: nat where "MAX_BEACON_MESSAGE_LENGTH = 4000"

record beacon_payload =
  bp_message :: "string option"
  bp_lat :: "rat option"
  bp_lon :: "rat option"
  bp_timestamp :: rat

definition extractEmergencyBeaconPayload :: "jsval \<Rightarrow> beacon_payload option" where
  "extractEmergencyBeaconPayload p = do {
     _ \<leftarrow> require (is_object p);
     message \<leftarrow> optional (bounded_string MAX_BEACON_MESSAGE_LENGTH) (jfield p ''message'');
     lat \<leftarrow> optional (finite_in (-90) 90) (jfield p ''lat'');
     lon \<leftarrow> optional (finite_in (-180) 180) (jfield p ''lon'');
     timestamp \<leftarrow> as_finite (jfield p ''timestamp'');
     Some \<lparr>bp_message = message, bp_lat = lat, bp_lon = lon, bp_timestamp = timestamp\<rparr> }"

definition extractEmergencyBeaconEnvelope :: "jsval \<Rightarrow> encrypted_payload option" where
  "extractEmergencyBeaconEnvelope p = do {
     _ \<leftarrow> require (is_object p);
     _ \<leftarrow> require (jfield p ''encrypted'' = JBool True);
     nonce \<leftarrow> as_string (jfield p ''nonce'');
     ciphertext \<leftarrow> as_string (jfield p ''ciphertext'');
     authTag \<leftarrow> as_string (jfield p ''authTag'');
     Some \<lparr>ep_nonce = nonce, ep_ciphertext = ciphertext, ep_authTag = authTag\<rparr> }"

record beacon_sighting = beacon_payload +
  bs_beaconContentId :: string
  bs_deviceId :: string
  bs_observedAt :: time
  bs_receivedFrom :: "string option"

type_synonym beacon_store = "(string, beacon_sighting) bounded_map"

definition beacons_new :: "jsnum option \<Rightarrow> beacon_store" where
  "beacons_new maxBeacons = bm_new (Some (case maxBeacons of Some n \<Rightarrow> n | None \<Rightarrow> Num 512))"

definition beacons_record :: "beacon_sighting \<Rightarrow> beacon_store \<Rightarrow> beacon_store" where
  "beacons_record b s = (if bm_has s (bs_beaconContentId b) then s else bm_put None (bs_beaconContentId b) b s)"

definition beacons_list :: "beacon_store \<Rightarrow> beacon_sighting list" where
  "beacons_list s = sort_key (\<lambda>b. - bs_observedAt b) (bm_values s)"

section \<open>Notes addressed to one node\<close>

definition MAX_NODE_APPEND_LABEL_LENGTH :: nat where "MAX_NODE_APPEND_LABEL_LENGTH = 100"

record append_payload =
  ap_text :: string
  ap_label :: "string option"
  ap_kind :: drop_kind
  ap_timestamp :: rat
  ap_expiresAt :: rat

text \<open>The fields a packet note and a signed submission share.\<close>

definition append_fields :: "jsval \<Rightarrow> append_payload option" where
  "append_fields p = do {
     text \<leftarrow> bounded_string MAX_MESSAGE_TEXT_LENGTH (jfield p ''text'');
     label \<leftarrow> optional (bounded_string MAX_NODE_APPEND_LABEL_LENGTH) (jfield p ''label'');
     kind \<leftarrow> drop_kind_of (jfield p ''kind'');
     timestamp \<leftarrow> as_finite (jfield p ''timestamp'');
     expiresAt \<leftarrow> as_finite (jfield p ''expiresAt'');
     Some \<lparr>ap_text = text, ap_label = label, ap_kind = kind, ap_timestamp = timestamp, ap_expiresAt = expiresAt\<rparr> }"

definition extractNodeAppendPayload :: "jsval \<Rightarrow> append_payload option" where
  "extractNodeAppendPayload p = do {
     _ \<leftarrow> require (is_object p);
     _ \<leftarrow> require (jfield p ''type'' = JString ''node-append'');
     append_fields p }"

definition kind_name :: "drop_kind \<Rightarrow> string" where
  "kind_name k = (case k of InfoDrop \<Rightarrow> ''info'' | HazardDrop \<Rightarrow> ''hazard'' | EmergencyDrop \<Rightarrow> ''emergency'')"

record append_submission = append_payload +
  as_targetNodeId :: string
  as_publisherId :: string
  as_signature :: string

definition nodeAppendSigningPayload :: "append_submission \<Rightarrow> jsval" where
  "nodeAppendSigningPayload s = json_object
    [(''text'', JString (ap_text s)), (''label'', opt_str (ap_label s)), (''kind'', JString (kind_name (ap_kind s))),
     (''timestamp'', JNumber (Num (ap_timestamp s))), (''expiresAt'', JNumber (Num (ap_expiresAt s))),
     (''targetNodeId'', JString (as_targetNodeId s)), (''publisherId'', JString (as_publisherId s))]"

definition nonempty_string :: "jsval \<Rightarrow> string option" where
  "nonempty_string v = (case as_string v of Some s \<Rightarrow> if length s = 0 then None else Some s | None \<Rightarrow> None)"

definition verifySignedNodeAppendSubmission :: "verifier \<Rightarrow> jsval \<Rightarrow> append_submission option" where
  "verifySignedNodeAppendSubmission vf p = do {
     _ \<leftarrow> require (is_object p);
     f \<leftarrow> append_fields p;
     target \<leftarrow> nonempty_string (jfield p ''targetNodeId'');
     publisher \<leftarrow> nonempty_string (jfield p ''publisherId'');
     signature \<leftarrow> as_string (jfield p ''signature'');
     let s = append_payload.extend f \<lparr>as_targetNodeId = target, as_publisherId = publisher, as_signature = signature\<rparr> in
     (if verified vf publisher (nodeAppendSigningPayload s) signature then Some s else None) }"

record node_append = append_payload +
  na_appendId :: string
  na_author :: string

type_synonym append_store = "(string, node_append) bounded_map"

definition appends_new :: "jsnum option \<Rightarrow> append_store" where
  "appends_new maxAppends = bm_new (Some (case maxAppends of Some n \<Rightarrow> n | None \<Rightarrow> Num 256))"

definition appends_score :: "(string \<Rightarrow> jsnum) option \<Rightarrow> (string, node_append) score" where
  "appends_score tr = rank_score na_author tr"

definition appends_record :: "(string \<Rightarrow> jsnum) option \<Rightarrow> node_append \<Rightarrow> append_store \<Rightarrow> append_store" where
  "appends_record tr a s = (if bm_has s (na_appendId a) then s else bm_put (appends_score tr) (na_appendId a) a s)"

definition appends_list :: "time \<Rightarrow> append_store \<Rightarrow> node_append list \<times> append_store" where
  "appends_list now s = (let s' = bm_filter (\<lambda>i a. \<not> ap_expiresAt a \<le> now) s in
     (sort_key (\<lambda>a. - ap_timestamp a) (bm_values s'), s'))"

section \<open>The relay registry\<close>

definition MAX_RELAY_OPERATOR_LENGTH :: nat where "MAX_RELAY_OPERATOR_LENGTH = 200"

datatype relay_kind = FixedRelay | MobileRelay

record relay_fields =
  rf_relayId :: string
  rf_kind :: relay_kind
  rf_lat :: rat
  rf_lon :: rat
  rf_radio :: "(bool option \<times> bool option) option"
  rf_operator :: "string option"
  rf_installedAt :: "time option"

record relay_entry =
  re_relayId :: string
  re_kind :: relay_kind
  re_lat :: rat
  re_lon :: rat
  re_ble :: bool
  re_lora :: bool
  re_operator :: "string option"
  re_installedAt :: time
  re_online :: bool
  re_lastSeenAt :: "time option"
  re_batteryPercent :: "rat option"
  re_lastTelemetryAt :: "time option"

record relay_telemetry =
  rt_batteryPercent :: rat
  rt_timestamp :: rat

definition extractRelayTelemetry :: "jsval \<Rightarrow> relay_telemetry option" where
  "extractRelayTelemetry p = do {
     _ \<leftarrow> require (is_object p);
     _ \<leftarrow> require (jfield p ''type'' = JString ''relay-telemetry'');
     battery \<leftarrow> finite_in 0 100 (jfield p ''batteryPercent'');
     timestamp \<leftarrow> as_finite (jfield p ''timestamp'');
     Some \<lparr>rt_batteryPercent = battery, rt_timestamp = timestamp\<rparr> }"

text \<open>The only command is \<open>reboot\<close>, so a command is its timestamp.\<close>

definition extractRelayCommand :: "jsval \<Rightarrow> rat option" where
  "extractRelayCommand p = do {
     _ \<leftarrow> require (is_object p);
     _ \<leftarrow> require (jfield p ''type'' = JString ''relay-command'');
     _ \<leftarrow> require (jfield p ''command'' = JString ''reboot'');
     as_finite (jfield p ''timestamp'') }"

record relay_command =
  rcmd_timestamp :: rat
  rcmd_targetNodeId :: string
  rcmd_publisherId :: string
  rcmd_signature :: string

definition relayCommandSigningPayload :: "relay_command \<Rightarrow> jsval" where
  "relayCommandSigningPayload c = json_object
    [(''command'', JString ''reboot''), (''timestamp'', JNumber (Num (rcmd_timestamp c))),
     (''targetNodeId'', JString (rcmd_targetNodeId c)), (''publisherId'', JString (rcmd_publisherId c))]"

definition verifySignedRelayCommandSubmission :: "verifier \<Rightarrow> jsval \<Rightarrow> relay_command option" where
  "verifySignedRelayCommandSubmission vf p = do {
     _ \<leftarrow> require (is_object p);
     _ \<leftarrow> require (jfield p ''command'' = JString ''reboot'');
     timestamp \<leftarrow> as_finite (jfield p ''timestamp'');
     target \<leftarrow> nonempty_string (jfield p ''targetNodeId'');
     publisher \<leftarrow> nonempty_string (jfield p ''publisherId'');
     signature \<leftarrow> as_string (jfield p ''signature'');
     let c = \<lparr>rcmd_timestamp = timestamp, rcmd_targetNodeId = target, rcmd_publisherId = publisher, rcmd_signature = signature\<rparr> in
     (if verified vf publisher (relayCommandSigningPayload c) signature then Some c else None) }"

definition relay_kind_of :: "jsval \<Rightarrow> relay_kind option" where
  "relay_kind_of v = (if v = JString ''fixed'' then Some FixedRelay
     else if v = JString ''mobile'' then Some MobileRelay else None)"

definition relay_radio :: "jsval \<Rightarrow> (bool option \<times> bool option) option" where
  "relay_radio r = do {
     _ \<leftarrow> require (is_object r);
     ble \<leftarrow> optional as_bool (jfield r ''ble'');
     lora \<leftarrow> optional as_bool (jfield r ''lora'');
     Some (ble, lora) }"

definition extractRelayRegistration :: "jsval \<Rightarrow> relay_fields option" where
  "extractRelayRegistration p = do {
     _ \<leftarrow> require (is_object p);
     relayId \<leftarrow> bounded_string 200 (jfield p ''relayId'');
     kind \<leftarrow> relay_kind_of (jfield p ''type'');
     lat \<leftarrow> finite_in (-90) 90 (jfield p ''lat'');
     lon \<leftarrow> finite_in (-180) 180 (jfield p ''lon'');
     radio \<leftarrow> optional relay_radio (jfield p ''radio'');
     operator \<leftarrow> optional (bounded_string MAX_RELAY_OPERATOR_LENGTH) (jfield p ''operator'');
     installedAt \<leftarrow> optional as_finite (jfield p ''installedAt'');
     Some \<lparr>rf_relayId = relayId, rf_kind = kind, rf_lat = lat, rf_lon = lon, rf_radio = radio,
           rf_operator = operator, rf_installedAt = installedAt\<rparr> }"

type_synonym relay_registry = "(string, relay_entry) bounded_map"

definition rr_new :: "jsnum option \<Rightarrow> relay_registry" where
  "rr_new maxRelays = bm_new (Some (case maxRelays of Some n \<Rightarrow> n | None \<Rightarrow> Num 512))"

definition rr_upsert :: "time \<Rightarrow> relay_fields \<Rightarrow> relay_registry \<Rightarrow> relay_entry \<times> relay_registry" where
  "rr_upsert now f r =
     (let existing = bm_get r (rf_relayId f);
          entry = \<lparr>re_relayId = rf_relayId f, re_kind = rf_kind f, re_lat = rf_lat f, re_lon = rf_lon f,
            re_ble = (case rf_radio f of Some (Some b, _) \<Rightarrow> b | _ \<Rightarrow> False),
            re_lora = (case rf_radio f of Some (_, Some b) \<Rightarrow> b | _ \<Rightarrow> False),
            re_operator = rf_operator f,
            re_installedAt = (case rf_installedAt f of Some t \<Rightarrow> t | None \<Rightarrow> now),
            re_online = (case existing of Some e \<Rightarrow> re_online e | None \<Rightarrow> False),
            re_lastSeenAt = Option.bind existing re_lastSeenAt,
            re_batteryPercent = Option.bind existing re_batteryPercent,
            re_lastTelemetryAt = Option.bind existing re_lastTelemetryAt\<rparr>
      in (entry, bm_put None (rf_relayId f) entry r))"

definition markOnline :: "string \<Rightarrow> time \<Rightarrow> relay_registry \<Rightarrow> relay_registry" where
  "markOnline i t r = (case bm_get r i of
     None \<Rightarrow> r
   | Some e \<Rightarrow> bm_put None i (e\<lparr>re_online := True, re_lastSeenAt := Some t\<rparr>) r)"

definition markOffline :: "string \<Rightarrow> time \<Rightarrow> relay_registry \<Rightarrow> relay_registry" where
  "markOffline i t r = (case bm_get r i of
     None \<Rightarrow> r
   | Some e \<Rightarrow> bm_put None i (e\<lparr>re_online := False, re_lastSeenAt := Some t\<rparr>) r)"

definition recordTelemetry :: "time \<Rightarrow> string \<Rightarrow> relay_telemetry \<Rightarrow> relay_registry \<Rightarrow> relay_registry" where
  "recordTelemetry now i report r = (case bm_get r i of
     None \<Rightarrow> r
   | Some e \<Rightarrow>
       let timestamp = min (rt_timestamp report) now in
       if (case re_lastTelemetryAt e of Some t \<Rightarrow> t \<ge> timestamp | None \<Rightarrow> False) then r
       else bm_put None i (e\<lparr>re_batteryPercent := Some (rt_batteryPercent report), re_lastTelemetryAt := Some timestamp\<rparr>) r)"

definition rr_list :: "relay_registry \<Rightarrow> relay_entry list" where
  "rr_list r = bm_values r"

section \<open>Runs\<close>

fun lr_step :: "location_registry \<Rightarrow> time \<times> (string \<Rightarrow> jsnum) option \<times> string \<times> location_payload \<Rightarrow> location_registry" where
  "lr_step l (now, tr, i, r) = lr_record now tr i r l"

text \<open>Where the reports in a registry come from: submissions of their reporter, none later than \<open>T\<close>.\<close>

definition lr_from ::
  "time \<Rightarrow> (time \<times> (string \<Rightarrow> jsnum) option \<times> string \<times> location_payload) set \<Rightarrow> location_registry \<Rightarrow> bool" where
  "lr_from T E l \<longleftrightarrow> (\<forall>i x. bm_get (lr_reports l) i = Some x \<longrightarrow> lp_timestamp x \<le> T \<and>
     (\<exists>now tr r. (now, tr, i, r) \<in> E \<and> x = r\<lparr>lp_timestamp := min (lp_timestamp r) now\<rparr>))"

lemma lr_step_from:
  assumes "lr_from T E l" and "e \<in> E" and "fst e \<le> T"
  shows "lr_from T E (lr_step l e)"
proof -
  obtain now tr j rep where e: "e = (now, tr, j, rep)" by (cases e)
  have "lp_timestamp x \<le> T \<and> (\<exists>now tr r. (now, tr, i, r) \<in> E \<and> x = r\<lparr>lp_timestamp := min (lp_timestamp r) now\<rparr>)"
    if g: "bm_get (lr_reports (lr_record now tr j rep l)) i = Some x" for i x
  proof -
    from lr_record_frame[OF g] consider "bm_get (lr_reports l) i = Some x"
      | "i = j" "x = rep\<lparr>lp_timestamp := min (lp_timestamp rep) now\<rparr>" by blast
    then show ?thesis
    proof cases
      case 1
      with assms(1) show ?thesis by (auto simp: lr_from_def)
    next
      case 2
      with assms(2,3) e show ?thesis by (auto intro: min.coboundedI2)
    qed
  qed
  then show ?thesis by (simp add: lr_from_def e)
qed

lemma lr_run_from:
  "lr_from T E l \<Longrightarrow> set es \<subseteq> E \<Longrightarrow> \<forall>e \<in> set es. fst e \<le> T \<Longrightarrow> lr_from T E (foldl lr_step l es)"
  by (induction es arbitrary: l) (auto intro: lr_step_from)

datatype relay_op =
    Upsert time relay_fields
  | Online string time
  | Offline string time
  | Telemetry time string jsval

text \<open>A telemetry report reaches the registry through its extractor.\<close>

fun rr_step :: "relay_registry \<Rightarrow> relay_op \<Rightarrow> relay_registry" where
  "rr_step r (Upsert now f) = snd (rr_upsert now f r)"
| "rr_step r (Online i t) = markOnline i t r"
| "rr_step r (Offline i t) = markOffline i t r"
| "rr_step r (Telemetry now i v) = (case extractRelayTelemetry v of Some rep \<Rightarrow> recordTelemetry now i rep r | None \<Rightarrow> r)"

definition relay_ok :: "string set \<Rightarrow> string \<Rightarrow> relay_entry \<Rightarrow> bool" where
  "relay_ok R i e \<longleftrightarrow> i \<in> R \<and> re_relayId e = i \<and> (case re_batteryPercent e of Some b \<Rightarrow> 0 \<le> b \<and> b \<le> 100 | None \<Rightarrow> True)"

lemma extractRelayTelemetry_range:
  "extractRelayTelemetry v = Some rep \<Longrightarrow> 0 \<le> rt_batteryPercent rep \<and> rt_batteryPercent rep \<le> 100"
  by (auto simp: extractRelayTelemetry_def extractor_Some)

lemma mark_ok:
  "bm_all (relay_ok R) r \<Longrightarrow> bm_all (relay_ok R) (markOnline i t r)"
  "bm_all (relay_ok R) r \<Longrightarrow> bm_all (relay_ok R) (markOffline i t r)"
  by (auto simp: markOnline_def markOffline_def relay_ok_def split: option.splits intro!: bm_all_put dest: bm_all_get)

lemma recordTelemetry_ok:
  assumes "bm_all (relay_ok R) r" and "0 \<le> rt_batteryPercent rep \<and> rt_batteryPercent rep \<le> 100"
  shows "bm_all (relay_ok R) (recordTelemetry now i rep r)"
  using assms by (auto simp: recordTelemetry_def Let_def relay_ok_def split: option.splits intro!: bm_all_put dest: bm_all_get)

lemma rr_upsert_ok:
  assumes ok: "bm_all (relay_ok R) r" and reg: "rf_relayId f \<in> R"
  shows "bm_all (relay_ok R) (snd (rr_upsert now f r))"
proof -
  have "relay_ok R (rf_relayId f) (fst (rr_upsert now f r))"
    using reg bm_all_get[OF ok, of "rf_relayId f"]
    by (cases "bm_get r (rf_relayId f)") (auto simp: rr_upsert_def relay_ok_def Let_def)
  with ok show ?thesis by (simp add: rr_upsert_def Let_def bm_all_put)
qed

lemma rr_run_ok:
  "bm_all (relay_ok R) r \<Longrightarrow> {rf_relayId f | now f. Upsert now f \<in> set es} \<subseteq> R \<Longrightarrow>
     bm_all (relay_ok R) (foldl rr_step r es)"
proof (induction es arbitrary: r)
  case (Cons e es)
  have "bm_all (relay_ok R) (rr_step r e)"
    using Cons.prems
    by (cases e) (auto intro!: mark_ok recordTelemetry_ok rr_upsert_ok dest: extractRelayTelemetry_range split: option.splits)
  from Cons.IH[OF this] Cons.prems(2) show ?case by auto
qed simp

section \<open>Properties\<close>

text \<open>Positions on the map are honest about time: after any run of reports none of them received after
  T, the stored position of a reporter is one that reporter submitted, is never dated after T however the
  report was dated, and a later report moves it only forward in time.\<close>

theorem location_reports_fresh:
  assumes times: "\<forall>e \<in> set es. fst e \<le> T"
    and stored: "bm_get (lr_reports (foldl lr_step (lr_new n a) es)) i = Some x"
  shows "lp_timestamp x \<le> T \<and>
    (\<exists>now tr r. (now, tr, i, r) \<in> set es \<and> x = r\<lparr>lp_timestamp := min (lp_timestamp r) now\<rparr>) \<and>
    (case bm_get (lr_reports (lr_step (foldl lr_step (lr_new n a) es) e)) i of
       Some y \<Rightarrow> y = x \<or> lp_timestamp x < lp_timestamp y | None \<Rightarrow> True)"
proof -
  have "lr_from T (set es) (lr_new n a)" by (simp add: lr_from_def lr_new_def)
  from lr_run_from[OF this subset_refl times] stored have
    "lp_timestamp x \<le> T" "\<exists>now tr r. (now, tr, i, r) \<in> set es \<and> x = r\<lparr>lp_timestamp := min (lp_timestamp r) now\<rparr>"
    by (auto simp: lr_from_def)
  moreover obtain now tr j rep where e: "e = (now, tr, j, rep)" by (cases e)
  have "y = x \<or> lp_timestamp x < lp_timestamp y"
    if "bm_get (lr_reports (lr_record now tr j rep (foldl lr_step (lr_new n a) es))) i = Some y" for y
    using lr_record_frame[OF that] stored by auto
  ultimately show ?thesis by (auto simp: e split: option.splits)
qed

lemma location_reports_fresh_witness:
  "let r = \<lparr>lp_lat = 1, lp_lon = 2, lp_accuracy = None, lp_timestamp = 9999\<rparr>
   in lp_timestamp (r\<lparr>lp_timestamp := 10\<rparr>) \<le> (10::rat) \<and>
      bm_get (lr_reports (foldl lr_step (lr_new None None) [(10, None, ''a'', r)])) ''a'' = Some (r\<lparr>lp_timestamp := 10\<rparr>)"
proof -
  let ?r = "\<lparr>lp_lat = 1, lp_lon = 2, lp_accuracy = None, lp_timestamp = 9999\<rparr>"
  have g: "bm_get (lr_reports (foldl lr_step (lr_new None None) [(10, None, ''a'', ?r)])) ''a'' = Some (?r\<lparr>lp_timestamp := 10\<rparr>)"
    by (simp add: lr_record_def lr_new_def bm_new_def bm_set_def bm_has_def bm_size_def bm_get_def)
  have "lp_timestamp (?r\<lparr>lp_timestamp := 10\<rparr>) \<le> 10"
    by (rule conjunct1[OF location_reports_fresh[OF _ g]]) simp
  with g show ?thesis by (simp add: Let_def)
qed

text \<open>Only the operator's registration creates a relay: after any sequence of registrations, up and down
  marks and telemetry packets of any shape, every relay in the registry was registered, sits under its own
  id, and shows a battery level between 0 and 100 if it shows one.\<close>

theorem relays_only_by_registration:
  assumes "bm_get (foldl rr_step (rr_new n) es) i = Some e"
  shows "(\<exists>now f. Upsert now f \<in> set es \<and> rf_relayId f = i) \<and> re_relayId e = i \<and>
    (case re_batteryPercent e of Some b \<Rightarrow> 0 \<le> b \<and> b \<le> 100 | None \<Rightarrow> True)"
proof -
  have "bm_all (relay_ok {rf_relayId f | now f. Upsert now f \<in> set es}) (foldl rr_step (rr_new n) es)"
    by (rule rr_run_ok) (simp_all add: rr_new_def)
  from bm_all_get[OF this assms] show ?thesis unfolding relay_ok_def by blast
qed

lemma relays_only_by_registration_witness:
  "let f = \<lparr>rf_relayId = ''r'', rf_kind = FixedRelay, rf_lat = 1, rf_lon = 2, rf_radio = None, rf_operator = None, rf_installedAt = None\<rparr>
   in bm_get (foldl rr_step (rr_new None) [Online ''x'' 1, Upsert 2 f]) ''r'' \<noteq> None \<and>
      (\<exists>now f'. Upsert now f' \<in> set [Online ''x'' 1, Upsert 2 f] \<and> rf_relayId f' = ''r'')"
proof -
  let ?f = "\<lparr>rf_relayId = ''r'', rf_kind = FixedRelay, rf_lat = 1, rf_lon = 2, rf_radio = None, rf_operator = None, rf_installedAt = None\<rparr>"
  obtain e where e: "bm_get (foldl rr_step (rr_new None) [Online ''x'' 1, Upsert 2 ?f]) ''r'' = Some e"
    by (simp add: rr_upsert_def markOnline_def Let_def bm_set_get_same rr_new_def bm_new_def bm_get_def bm_set_def bm_has_def bm_size_def)
  from relays_only_by_registration[OF e] e show ?thesis unfolding Let_def by auto
qed

text \<open>The drop extractor accepts exactly the well-formed payloads: it succeeds with a drop precisely when
  every field of the payload has the right type, the text and label are within their lengths, the
  coordinates are on the globe and the kind is known, and then it returns exactly those fields.\<close>

theorem drop_payload_accepted_iff:
  "extractDropPayload p = Some d \<longleftrightarrow>
     is_object p \<and> jfield p ''text'' = JString (dp_text d) \<and> dp_text d \<noteq> [] \<and> length (dp_text d) \<le> 4000 \<and>
     jfield p ''lat'' = JNumber (Num (dp_lat d)) \<and> -90 \<le> dp_lat d \<and> dp_lat d \<le> 90 \<and>
     jfield p ''lon'' = JNumber (Num (dp_lon d)) \<and> -180 \<le> dp_lon d \<and> dp_lon d \<le> 180 \<and>
     (case dp_label d of None \<Rightarrow> jfield p ''label'' = JUndefined
      | Some l \<Rightarrow> jfield p ''label'' = JString l \<and> l \<noteq> [] \<and> length l \<le> 100) \<and>
     jfield p ''kind'' = JString (kind_name (dp_kind d)) \<and>
     jfield p ''timestamp'' = JNumber (Num (dp_timestamp d))"
proof -
  have kind: "drop_kind_of v = Some k \<longleftrightarrow> v = JString (kind_name k)" for v k
  proof -
    have "map_of drop_kinds s = Some k \<longleftrightarrow> s = kind_name k" for s
      by (cases k) (simp_all add: drop_kinds_def kind_name_def)
    then show ?thesis by (cases v) (simp_all add: drop_kind_of_def)
  qed
  obtain t la lo l k ts where d: "d = \<lparr>dp_text = t, dp_lat = la, dp_lon = lo, dp_label = l, dp_kind = k, dp_timestamp = ts\<rparr>"
    by (cases d)
  show ?thesis unfolding extractDropPayload_def d
    by (cases l; simp add: extractor_Some kind MAX_MESSAGE_TEXT_LENGTH_def MAX_DROP_LABEL_LENGTH_def; auto)
qed

text \<open>A signed relay command is accepted only if its publisher signed the very timestamp, target and
  publisher it names; and the signed payload pins those three down, so a valid signature cannot be moved to
  another relay, another moment or another publisher.\<close>

theorem relay_command_bound_to_target:
  assumes "verifySignedRelayCommandSubmission vf v = Some c"
  shows "verified vf (rcmd_publisherId c) (relayCommandSigningPayload c) (rcmd_signature c) \<and>
    rcmd_publisherId c \<noteq> [] \<and> rcmd_targetNodeId c \<noteq> [] \<and>
    (relayCommandSigningPayload c = relayCommandSigningPayload c' \<longleftrightarrow>
      rcmd_timestamp c' = rcmd_timestamp c \<and> rcmd_targetNodeId c' = rcmd_targetNodeId c \<and> rcmd_publisherId c' = rcmd_publisherId c)"
  using assms
  by (auto simp: verifySignedRelayCommandSubmission_def extractor_Some Let_def nonempty_string_def
      relayCommandSigningPayload_def json_object_def split: if_splits option.splits)

lemma relay_command_bound_to_target_witness:
  "let v = JObject [(''command'', JString ''reboot''), (''timestamp'', JNumber (Num 5)), (''targetNodeId'', JString ''t''),
       (''publisherId'', JString ''p''), (''signature'', JString ''s'')]
   in \<exists>c. verifySignedRelayCommandSubmission (\<lambda>i pl s. Some (s = ''s'')) v = Some c \<and>
        relayCommandSigningPayload c \<noteq> relayCommandSigningPayload (c\<lparr>rcmd_targetNodeId := ''other''\<rparr>)"
proof -
  let ?v = "JObject [(''command'', JString ''reboot''), (''timestamp'', JNumber (Num 5)), (''targetNodeId'', JString ''t''),
       (''publisherId'', JString ''p''), (''signature'', JString ''s'')]"
  let ?c = "\<lparr>rcmd_timestamp = 5, rcmd_targetNodeId = ''t'', rcmd_publisherId = ''p'', rcmd_signature = ''s''\<rparr>"
  have v: "verifySignedRelayCommandSubmission (\<lambda>i pl s. Some (s = ''s'')) ?v = Some ?c"
    by (simp add: verifySignedRelayCommandSubmission_def nonempty_string_def verified_def require_def)
  from relay_command_bound_to_target[OF v, of "?c\<lparr>rcmd_targetNodeId := ''other''\<rparr>"] v
  show ?thesis unfolding Let_def by auto
qed

end
