(* ===== verification/ExternalDelivery.thy ===== *)
theory ExternalDelivery
  imports Registries
begin

text \<open>
  \<open>node/src/external-delivery.ts\<close>: sealed messages to a recipient outside the mesh. The payload and
  directory extractors, the password proof of a destination, the directory of what each gateway offers
  and the gateway's queue, bounded in entries and in bytes, which evicts the oldest entry of the least
  urgent class. SHA-256 is an argument; sealing itself (X25519, AES-GCM) is Node's.
\<close>

section \<open>Hexadecimal strings\<close>

definition hex_digits :: string where "hex_digits = ''0123456789abcdef''"
definition hex_digits_upper :: string where "hex_digits_upper = ''ABCDEF''"

definition is_hex_digit :: "char \<Rightarrow> bool" where
  "is_hex_digit c \<longleftrightarrow> c \<in> set hex_digits \<or> c \<in> set hex_digits_upper"

text \<open>\<open>/^[0-9a-f]+$/i\<close>\<close>

definition hex_pattern :: "string \<Rightarrow> bool" where
  "hex_pattern s \<longleftrightarrow> s \<noteq> [] \<and> list_all is_hex_digit s"

definition hex_string :: "nat \<Rightarrow> jsval \<Rightarrow> string option" where
  "hex_string n v = (case as_string v of
     Some s \<Rightarrow> if length s \<noteq> n \<or> \<not> hex_pattern s then None else Some s | None \<Rightarrow> None)"

fun index_of :: "'a \<Rightarrow> 'a list \<Rightarrow> nat option" where
  "index_of x [] = None"
| "index_of x (y # ys) = (if x = y then Some 0 else map_option Suc (index_of x ys))"

definition hex_value :: "char \<Rightarrow> nat option" where
  "hex_value c = (case index_of c hex_digits of Some i \<Rightarrow> Some i | None \<Rightarrow> map_option ((+) 10) (index_of c hex_digits_upper))"

text \<open>\<open>Buffer.from(s, "hex")\<close> reads pairs of digits and stops at the first that is not one.\<close>

fun hex_decode :: "string \<Rightarrow> nat list" where
  "hex_decode (a # b # s) = (case (hex_value a, hex_value b) of
     (Some x, Some y) \<Rightarrow> (16 * x + y) # hex_decode s | _ \<Rightarrow> [])"
| "hex_decode s = []"

section \<open>Password proof\<close>

definition computeExternalDeliveryAuthProof :: "(string \<Rightarrow> string) \<Rightarrow> string \<Rightarrow> string \<Rightarrow> string \<Rightarrow> string \<Rightarrow> string \<Rightarrow> string" where
  "computeExternalDeliveryAuthProof sha256hex password destinationId nonce ciphertext authTag =
     sha256hex (password @ '':'' @ destinationId @ '':'' @ nonce @ '':'' @ ciphertext @ '':'' @ authTag)"

text \<open>\<open>timingSafeEqual\<close> is equality of buffers of the same length. An absent string is as good as an empty
  one to the checks.\<close>

definition verifyExternalDeliveryAuthProof ::
  "(string \<Rightarrow> string) \<Rightarrow> string option \<Rightarrow> string option \<Rightarrow> string \<Rightarrow> string \<Rightarrow> string \<Rightarrow> string \<Rightarrow> bool" where
  "verifyExternalDeliveryAuthProof sha256hex providedProof configuredPassword destinationId nonce ciphertext authTag =
     (case configuredPassword of
        None \<Rightarrow> True
      | Some pw \<Rightarrow> if pw = [] then True
          else (case providedProof of
            None \<Rightarrow> False
          | Some proof \<Rightarrow> if proof = [] then False
              else let provided = hex_decode proof;
                       expected = hex_decode (computeExternalDeliveryAuthProof sha256hex pw destinationId nonce ciphertext authTag)
                in if length provided \<noteq> length expected then False else provided = expected))"

section \<open>Payloads\<close>

definition MAX_EXTERNAL_DELIVERY_DESTINATION_ID_LENGTH :: nat where "MAX_EXTERNAL_DELIVERY_DESTINATION_ID_LENGTH = 100"
definition X25519_PUBLIC_KEY_HEX_LENGTH :: nat where "X25519_PUBLIC_KEY_HEX_LENGTH = 64"
definition AES_GCM_NONCE_HEX_LENGTH :: nat where "AES_GCM_NONCE_HEX_LENGTH = 24"
definition AES_GCM_AUTH_TAG_HEX_LENGTH :: nat where "AES_GCM_AUTH_TAG_HEX_LENGTH = 32"
definition SHA256_HEX_LENGTH :: nat where "SHA256_HEX_LENGTH = 64"
definition MAX_EXTERNAL_DELIVERY_LABEL_LENGTH :: nat where "MAX_EXTERNAL_DELIVERY_LABEL_LENGTH = 100"
definition MAX_DESTINATIONS_PER_DIRECTORY :: nat where "MAX_DESTINATIONS_PER_DIRECTORY = 50"

record delivery_payload =
  ed_destinationId :: string
  ed_senderEphemeralPublicKey :: string
  ed_nonce :: string
  ed_ciphertext :: string
  ed_authTag :: string
  ed_authProof :: "string option"
  ed_submittedAt :: rat

definition ciphertext_string :: "nat \<Rightarrow> jsval \<Rightarrow> string option" where
  "ciphertext_string maxLen v = (case as_string v of
     Some s \<Rightarrow> if length s > maxLen \<or> (length s > 0 \<and> \<not> hex_pattern s) then None else Some s | None \<Rightarrow> None)"

definition extractExternalDeliveryPayload :: "nat \<Rightarrow> jsval \<Rightarrow> delivery_payload option" where
  "extractExternalDeliveryPayload maxCiphertextHexLength p = do {
     _ \<leftarrow> require (is_object p);
     destinationId \<leftarrow> bounded_string MAX_EXTERNAL_DELIVERY_DESTINATION_ID_LENGTH (jfield p ''destinationId'');
     key \<leftarrow> hex_string X25519_PUBLIC_KEY_HEX_LENGTH (jfield p ''senderEphemeralPublicKey'');
     nonce \<leftarrow> hex_string AES_GCM_NONCE_HEX_LENGTH (jfield p ''nonce'');
     ciphertext \<leftarrow> ciphertext_string maxCiphertextHexLength (jfield p ''ciphertext'');
     authTag \<leftarrow> hex_string AES_GCM_AUTH_TAG_HEX_LENGTH (jfield p ''authTag'');
     authProof \<leftarrow> optional (hex_string SHA256_HEX_LENGTH) (jfield p ''authProof'');
     submittedAt \<leftarrow> as_finite (jfield p ''submittedAt'');
     Some \<lparr>ed_destinationId = destinationId, ed_senderEphemeralPublicKey = key, ed_nonce = nonce,
           ed_ciphertext = ciphertext, ed_authTag = authTag, ed_authProof = authProof, ed_submittedAt = submittedAt\<rparr> }"

record directory_entry =
  de_destinationId :: string
  de_label :: string
  de_publicKeyHex :: string
  de_requiresPassword :: bool

record directory_payload =
  dd_destinations :: "directory_entry list"
  dd_createdAt :: rat

definition directory_entry_of :: "jsval \<Rightarrow> directory_entry option" where
  "directory_entry_of d = do {
     _ \<leftarrow> require (is_object d);
     destinationId \<leftarrow> bounded_string MAX_EXTERNAL_DELIVERY_DESTINATION_ID_LENGTH (jfield d ''destinationId'');
     label \<leftarrow> bounded_string MAX_EXTERNAL_DELIVERY_LABEL_LENGTH (jfield d ''label'');
     key \<leftarrow> hex_string X25519_PUBLIC_KEY_HEX_LENGTH (jfield d ''publicKeyHex'');
     requiresPassword \<leftarrow> as_bool (jfield d ''requiresPassword'');
     Some \<lparr>de_destinationId = destinationId, de_label = label, de_publicKeyHex = key, de_requiresPassword = requiresPassword\<rparr> }"

fun directory_entries :: "jsval list \<Rightarrow> directory_entry list option" where
  "directory_entries [] = Some []"
| "directory_entries (v # vs) = do { e \<leftarrow> directory_entry_of v; es \<leftarrow> directory_entries vs; Some (e # es) }"

definition extractExternalDeliveryDirectoryPayload :: "jsval \<Rightarrow> directory_payload option" where
  "extractExternalDeliveryDirectoryPayload p = do {
     _ \<leftarrow> require (is_object p);
     createdAt \<leftarrow> as_finite (jfield p ''createdAt'');
     vs \<leftarrow> (case jfield p ''destinations'' of JArray vs \<Rightarrow> Some vs | _ \<Rightarrow> None);
     _ \<leftarrow> require (length vs \<le> MAX_DESTINATIONS_PER_DIRECTORY);
     es \<leftarrow> directory_entries vs;
     Some \<lparr>dd_destinations = es, dd_createdAt = createdAt\<rparr> }"

section \<open>The directory\<close>

type_synonym delivery_directory = "(string, directory_payload) bounded_map"

definition edd_new :: "jsnum option \<Rightarrow> delivery_directory" where
  "edd_new maxPublishers = bm_new (Some (case maxPublishers of Some n \<Rightarrow> n | None \<Rightarrow> Num 256))"

definition edd_record :: "string \<Rightarrow> directory_payload \<Rightarrow> delivery_directory \<Rightarrow> delivery_directory" where
  "edd_record publisherId p d = (case bm_get d publisherId of
     Some existing \<Rightarrow> if dd_createdAt existing \<ge> dd_createdAt p then d else bm_put None publisherId p d
   | None \<Rightarrow> bm_put None publisherId p d)"

definition edd_list :: "delivery_directory \<Rightarrow> (string \<times> directory_entry) list" where
  "edd_list d = concat (map (\<lambda>(publisherId, p). map (\<lambda>e. (publisherId, e)) (dd_destinations p)) (bm_map d))"

section \<open>The queue\<close>

record queued_delivery =
  qd_packetId :: string
  qd_destinationId :: string
  qd_url :: string
  qd_senderEphemeralPublicKey :: string
  qd_nonce :: string
  qd_ciphertext :: string
  qd_authTag :: string
  qd_submittedAt :: rat
  qd_priority :: priority
  qd_sizeBytes :: nat
  qd_expiresAt :: time

record delivery_queue =
  dq_entries :: "(string, queued_delivery) jsmap"
  dq_maxEntries :: nat
  dq_maxTotalBytes :: nat
  dq_ttlMs :: time
  dq_totalBytes :: nat

definition dq_new :: "nat option \<Rightarrow> nat option \<Rightarrow> time option \<Rightarrow> delivery_queue" where
  "dq_new maxEntries maxTotalBytes ttl =
     \<lparr>dq_entries = [], dq_maxEntries = (case maxEntries of Some n \<Rightarrow> n | None \<Rightarrow> 100),
      dq_maxTotalBytes = (case maxTotalBytes of Some n \<Rightarrow> n | None \<Rightarrow> 50000000),
      dq_ttlMs = (case ttl of Some t \<Rightarrow> t | None \<Rightarrow> 24 * 60 * 60 * 1000), dq_totalBytes = 0\<rparr>"

definition qd_rank :: "queued_delivery \<Rightarrow> nat" where
  "qd_rank e = priority_num (priorityRank (priority_val (qd_priority e)))"

text \<open>\<open>worstRank\<close> starts at \<open>-1\<close>: \<open>None\<close>.\<close>

fun scan_worst :: "(string, queued_delivery) jsmap \<Rightarrow> string option \<Rightarrow> nat option \<Rightarrow> string option" where
  "scan_worst [] bestKey worstRank = bestKey"
| "scan_worst ((key, e) # m) bestKey worstRank =
     (let rank = qd_rank e in
      if (case worstRank of None \<Rightarrow> True | Some w \<Rightarrow> rank > w) then scan_worst m (Some key) (Some rank)
      else scan_worst m bestKey worstRank)"

definition pickLowestPriorityOldest :: "(string, queued_delivery) jsmap \<Rightarrow> string option" where
  "pickLowestPriorityOldest m = scan_worst m None None"

definition dq_over :: "delivery_queue \<Rightarrow> bool" where
  "dq_over q \<longleftrightarrow> length (dq_entries q) > dq_maxEntries q \<or> dq_totalBytes q > dq_maxTotalBytes q"

text \<open>One removal, as in the eviction loop and in \<open>remove\<close>.\<close>

definition dq_drop :: "string \<Rightarrow> delivery_queue \<Rightarrow> delivery_queue" where
  "dq_drop k q = (case map_of (dq_entries q) k of
     None \<Rightarrow> q
   | Some e \<Rightarrow> q\<lparr>dq_entries := map_del k (dq_entries q), dq_totalBytes := dq_totalBytes q - qd_sizeBytes e\<rparr>)"

text \<open>The scan returns the oldest entry of the largest rank.\<close>

lemma scan_worst_spec:
  assumes "scan_worst m bk wr = r"
  shows "(r = bk \<and> (case wr of None \<Rightarrow> m = [] | Some w \<Rightarrow> \<forall>(k, e) \<in> set m. qd_rank e \<le> w)) \<or>
    (\<exists>xs k e ys. m = xs @ (k, e) # ys \<and> r = Some k \<and> (case wr of None \<Rightarrow> True | Some w \<Rightarrow> w < qd_rank e) \<and>
       (\<forall>(k', e') \<in> set xs. qd_rank e' < qd_rank e) \<and> (\<forall>(k', e') \<in> set ys. qd_rank e' \<le> qd_rank e))"
  using assms
proof (induction m bk wr rule: scan_worst.induct)
  case (1 bk wr)
  then show ?case by (cases wr) auto
next
  case (2 key e m bk wr)
  show ?case
  proof (cases "case wr of None \<Rightarrow> True | Some w \<Rightarrow> qd_rank e > w")
    case gt: True
    with "2.prems" have r: "scan_worst m (Some key) (Some (qd_rank e)) = r" by (simp add: Let_def)
    from "2.IH"(1)[OF refl gt r] show ?thesis
    proof (elim disjE exE conjE)
      assume "r = Some key" and "case Some (qd_rank e) of None \<Rightarrow> m = [] | Some w \<Rightarrow> \<forall>(k, e) \<in> set m. qd_rank e \<le> w"
      with gt show ?thesis
        by (intro disjI2 exI[of _ "[]"] exI[of _ key] exI[of _ e] exI[of _ m]) simp
    next
      fix xs k e' ys
      assume m: "m = xs @ (k, e') # ys" and rk: "r = Some k"
        and lt: "case Some (qd_rank e) of None \<Rightarrow> True | Some w \<Rightarrow> w < qd_rank e'"
        and x: "\<forall>(k', e'') \<in> set xs. qd_rank e'' < qd_rank e'" and y: "\<forall>(k', e'') \<in> set ys. qd_rank e'' \<le> qd_rank e'"
      have "case wr of None \<Rightarrow> True | Some w \<Rightarrow> w < qd_rank e'" using gt lt by (cases wr) auto
      with m rk lt x y show ?thesis
        by (intro disjI2 exI[of _ "(key, e) # xs"] exI[of _ k] exI[of _ e'] exI[of _ ys]) simp
    qed
  next
    case le: False
    then obtain w where wr: "wr = Some w" and w: "qd_rank e \<le> w" by (cases wr) auto
    from le "2.prems" have r: "scan_worst m bk wr = r" by (simp add: Let_def)
    from "2.IH"(2)[OF refl le r] show ?thesis
    proof (elim disjE exE conjE)
      assume "r = bk" and "case wr of None \<Rightarrow> m = [] | Some w \<Rightarrow> \<forall>(k, e) \<in> set m. qd_rank e \<le> w"
      with wr w show ?thesis by simp
    next
      fix xs k e' ys
      assume "m = xs @ (k, e') # ys" and "r = Some k" and "case wr of None \<Rightarrow> True | Some w \<Rightarrow> w < qd_rank e'"
        and "\<forall>(k', e'') \<in> set xs. qd_rank e'' < qd_rank e'" and "\<forall>(k', e'') \<in> set ys. qd_rank e'' \<le> qd_rank e'"
      with wr w show ?thesis
        by (intro disjI2 exI[of _ "(key, e) # xs"] exI[of _ k] exI[of _ e'] exI[of _ ys]) simp
    qed
  qed
qed

lemma pickLowest_spec:
  "pickLowestPriorityOldest m = Some k \<Longrightarrow> \<exists>xs e ys. m = xs @ (k, e) # ys \<and>
     (\<forall>(k', e') \<in> set xs. qd_rank e' < qd_rank e) \<and> (\<forall>(k', e') \<in> set ys. qd_rank e' \<le> qd_rank e)"
  using scan_worst_spec[of m None None "Some k"] by (auto simp: pickLowestPriorityOldest_def)

lemma pickLowest_None: "pickLowestPriorityOldest m = None \<longleftrightarrow> m = []"
  using scan_worst_spec[of m None None "None"] by (auto simp: pickLowestPriorityOldest_def)

lemma map_del_shorter: "k \<in> fst ` set m \<Longrightarrow> length (map_del k m) < length m"
proof (induction m)
  case (Cons a m)
  then show ?case using map_del_length_le[of k m] by (cases "fst a = k") (auto simp: image_iff)
qed simp

lemma pickLowest_in: "pickLowestPriorityOldest m = Some k \<Longrightarrow> k \<in> fst ` set m"
  using pickLowest_spec by force

lemma dq_drop_shorter:
  "k \<in> fst ` set (dq_entries q) \<Longrightarrow> length (dq_entries (dq_drop k q)) < length (dq_entries q)"
  using map_del_shorter[of k "dq_entries q"] by (auto simp: dq_drop_def map_of_eq_None_iff split: option.splits)

function evictWhileOverCapacity :: "delivery_queue \<Rightarrow> delivery_queue" where
  "evictWhileOverCapacity q =
     (if dq_over q then (case pickLowestPriorityOldest (dq_entries q) of
          None \<Rightarrow> q
        | Some victim \<Rightarrow> evictWhileOverCapacity (dq_drop victim q))
      else q)"
  by pat_completeness auto

termination
  by (relation "measure (\<lambda>q. length (dq_entries q))") (auto intro!: dq_drop_shorter pickLowest_in)

declare evictWhileOverCapacity.simps [simp del]

text \<open>\<open>enqueue\<close> takes the entry with its untyped priority and without its deadline.\<close>

definition dq_enqueue :: "time \<Rightarrow> jsval \<Rightarrow> queued_delivery \<Rightarrow> delivery_queue \<Rightarrow> delivery_queue" where
  "dq_enqueue now prio entry q =
     (if map_of (dq_entries q) (qd_packetId entry) \<noteq> None then q
      else let e = entry\<lparr>qd_priority := priorityRank prio, qd_expiresAt := now + dq_ttlMs q\<rparr>
        in evictWhileOverCapacity
          (q\<lparr>dq_entries := map_put (qd_packetId entry) e (dq_entries q), dq_totalBytes := dq_totalBytes q + qd_sizeBytes entry\<rparr>))"

definition entriesDueForAttempt :: "time \<Rightarrow> delivery_queue \<Rightarrow> queued_delivery list \<times> delivery_queue" where
  "entriesDueForAttempt now q =
     (let ready = filter (\<lambda>(i, e). \<not> qd_expiresAt e \<le> now) (dq_entries q);
          gone = filter (\<lambda>(i, e). qd_expiresAt e \<le> now) (dq_entries q)
      in (map snd ready,
          q\<lparr>dq_entries := ready, dq_totalBytes := dq_totalBytes q - sum_list (map (\<lambda>(i, e). qd_sizeBytes e) gone)\<rparr>))"

definition dq_remove :: "string \<Rightarrow> delivery_queue \<Rightarrow> delivery_queue" where
  "dq_remove packetId q = dq_drop packetId q"

section \<open>Accounting\<close>

definition total_size :: "(string, queued_delivery) jsmap \<Rightarrow> nat" where
  "total_size m = sum_list (map (\<lambda>(i, e). qd_sizeBytes e) m)"

text \<open>The byte counter is exactly the sum of the sizes.\<close>

definition dq_counted :: "delivery_queue \<Rightarrow> bool" where
  "dq_counted q \<longleftrightarrow> map_wf (dq_entries q) \<and> dq_totalBytes q = total_size (dq_entries q)"

definition dq_ok :: "delivery_queue \<Rightarrow> bool" where
  "dq_ok q \<longleftrightarrow> dq_counted q \<and> \<not> dq_over q"

lemma total_size_append [simp]: "total_size (xs @ ys) = total_size xs + total_size ys"
  by (simp add: total_size_def)

lemma total_size_Nil [simp]: "total_size [] = 0"
  by (simp add: total_size_def)

lemma total_size_Cons [simp]: "total_size ((k, e) # m) = qd_sizeBytes e + total_size m"
  by (simp add: total_size_def)

lemma map_del_split: "map_wf m \<Longrightarrow> map_of m k = Some e \<Longrightarrow> \<exists>xs ys. m = xs @ (k, e) # ys \<and> map_del k m = xs @ ys"
proof -
  assume wf: "map_wf m" and g: "map_of m k = Some e"
  then obtain xs ys where m: "m = xs @ (k, e) # ys" using map_of_in_set split_list by fast
  with wf list_before_after[of xs k e ys] show ?thesis by auto
qed

lemma dq_drop_counted: "dq_counted q \<Longrightarrow> dq_counted (dq_drop k q)"
proof (cases "map_of (dq_entries q) k")
  case (Some e)
  assume c: "dq_counted q"
  with map_del_split[of "dq_entries q" k e] Some obtain xs ys where
    "dq_entries q = xs @ (k, e) # ys" "map_del k (dq_entries q) = xs @ ys" by (auto simp: dq_counted_def)
  moreover have "map_wf (map_del k (dq_entries q))" using c by (simp add: dq_counted_def)
  ultimately show ?thesis using c Some by (simp add: dq_counted_def dq_drop_def)
qed (simp add: dq_drop_def)

lemma dq_drop_config [simp]:
  "dq_maxEntries (dq_drop k q) = dq_maxEntries q" "dq_maxTotalBytes (dq_drop k q) = dq_maxTotalBytes q"
  "dq_ttlMs (dq_drop k q) = dq_ttlMs q"
  by (simp_all add: dq_drop_def split: option.splits)

lemma evict_config [simp]:
  "dq_maxEntries (evictWhileOverCapacity q) = dq_maxEntries q"
  "dq_maxTotalBytes (evictWhileOverCapacity q) = dq_maxTotalBytes q"
  by (induction q rule: evictWhileOverCapacity.induct)
    (subst evictWhileOverCapacity.simps, simp split: option.splits)+

lemma evict_counted: "dq_counted q \<Longrightarrow> dq_counted (evictWhileOverCapacity q)"
proof (induction q rule: evictWhileOverCapacity.induct)
  case (1 q)
  then show ?case
    by (subst evictWhileOverCapacity.simps) (auto intro: dq_drop_counted split: option.splits)
qed

lemma evict_not_over: "dq_counted q \<Longrightarrow> \<not> dq_over (evictWhileOverCapacity q)"
proof (induction q rule: evictWhileOverCapacity.induct)
  case (1 q)
  show ?case
  proof (cases "dq_over q")
    case True
    show ?thesis
    proof (cases "pickLowestPriorityOldest (dq_entries q)")
      case None
      then have "dq_entries q = []" by (simp add: pickLowest_None)
      with 1 True show ?thesis by (simp add: dq_counted_def dq_over_def)
    next
      case (Some k)
      have "evictWhileOverCapacity q = evictWhileOverCapacity (dq_drop k q)"
        by (subst evictWhileOverCapacity.simps) (simp add: True Some)
      with "1.IH"[OF True Some dq_drop_counted[OF "1.prems"]] show ?thesis by simp
    qed
  qed (simp add: evictWhileOverCapacity.simps[of q])
qed

text \<open>Eviction order: an entry that was dropped outranks nothing that stayed: every entry that stayed is of
  a more urgent class, or of the same class and younger.\<close>

lemma evict_order:
  assumes "map_wf (dq_entries q)" and "(k, e) \<in> set (dq_entries q)"
    and "(k, e) \<notin> set (dq_entries (evictWhileOverCapacity q))"
  shows "\<exists>xs ys. dq_entries q = xs @ (k, e) # ys \<and> (\<forall>(k', e') \<in> set (dq_entries (evictWhileOverCapacity q)).
     qd_rank e' < qd_rank e \<or> (qd_rank e' = qd_rank e \<and> (k', e') \<in> set ys)) \<and>
     set (dq_entries (evictWhileOverCapacity q)) \<subseteq> set xs \<union> set ys"
  using assms
proof (induction q rule: evictWhileOverCapacity.induct)
  case (1 q)
  let ?m = "dq_entries q"
  from "1.prems"(2,3) have over: "dq_over q" by (auto simp: evictWhileOverCapacity.simps[of q] split: if_splits)
  obtain v where pick: "pickLowestPriorityOldest ?m = Some v"
    using "1.prems"(2) by (cases "pickLowestPriorityOldest ?m") (auto simp: pickLowest_None)
  have step: "evictWhileOverCapacity q = evictWhileOverCapacity (dq_drop v q)"
    by (subst evictWhileOverCapacity.simps) (simp add: over pick)
  from pickLowest_spec[OF pick] obtain as ve bs where m: "?m = as @ (v, ve) # bs"
    and as: "\<forall>(k', e') \<in> set as. qd_rank e' < qd_rank ve" and bs: "\<forall>(k', e') \<in> set bs. qd_rank e' \<le> qd_rank ve"
    by blast
  have "(v, ve) \<in> set ?m" by (simp add: m)
  from map_of_is_SomeI[OF "1.prems"(1) this] have mv: "map_of ?m v = Some ve" .
  have drop: "dq_entries (dq_drop v q) = as @ bs"
    using "1.prems"(1) by (simp add: dq_drop_def mv) (simp add: m list_before_after)
  have wf': "map_wf (dq_entries (dq_drop v q))" using "1.prems"(1) m drop by auto
  have sub: "set (dq_entries (evictWhileOverCapacity p)) \<subseteq> set (dq_entries p)" for p
    by (induction p rule: evictWhileOverCapacity.induct)
      (subst evictWhileOverCapacity.simps, auto simp: dq_drop_def map_del_filter split: option.splits)
  show ?case
  proof (cases "(k, e) = (v, ve)")
    case True
    have "(\<forall>(k', e') \<in> set (dq_entries (evictWhileOverCapacity q)).
       qd_rank e' < qd_rank e \<or> (qd_rank e' = qd_rank e \<and> (k', e') \<in> set bs))"
      using sub[of "dq_drop v q"] as bs True unfolding step drop by fastforce
    with True m sub[of "dq_drop v q"] show ?thesis
      unfolding step drop by (intro exI[of _ as] exI[of _ bs]) auto
  next
    case False
    then have "(k, e) \<in> set (dq_entries (dq_drop v q))" using "1.prems"(2) m drop by auto
    from "1.IH"[OF over pick wf' this] "1.prems"(3) obtain xs ys where
      split: "as @ bs = xs @ (k, e) # ys" and
      r: "\<forall>(k', e') \<in> set (dq_entries (evictWhileOverCapacity q)). qd_rank e' < qd_rank e \<or> (qd_rank e' = qd_rank e \<and> (k', e') \<in> set ys)"
      and s: "set (dq_entries (evictWhileOverCapacity q)) \<subseteq> set xs \<union> set ys"
      unfolding step drop by blast
    from split consider us where "as = xs @ (k, e) # us" "ys = us @ bs" | us where "xs = as @ us" "bs = us @ (k, e) # ys"
      by (auto simp: append_eq_append_conv2 Cons_eq_append_conv append_eq_Cons_conv)
    then show ?thesis
    proof cases
      case 1
      with m r s show ?thesis by (intro exI[of _ xs] exI[of _ "us @ (v, ve) # bs"]) auto
    next
      case 2
      with m r s show ?thesis by (intro exI[of _ "as @ (v, ve) # us"] exI[of _ ys]) auto
    qed
  qed
qed

lemma filter_total_size: "total_size (filter P m) + total_size (filter (\<lambda>x. \<not> P x) m) = total_size m"
  by (induction m) auto

lemma dq_over_mono:
  "\<not> dq_over q \<Longrightarrow> length ents \<le> length (dq_entries q) \<Longrightarrow> bytes \<le> dq_totalBytes q \<Longrightarrow>
     \<not> dq_over (q\<lparr>dq_entries := ents, dq_totalBytes := bytes\<rparr>)"
  by (auto simp: dq_over_def)

lemma due_ok: "dq_ok q \<Longrightarrow> dq_ok (snd (entriesDueForAttempt now q))"
proof -
  assume ok: "dq_ok q"
  let ?g = "filter (\<lambda>(i, e). qd_expiresAt e \<le> now) (dq_entries q)"
  let ?r = "filter (\<lambda>(i, e). \<not> qd_expiresAt e \<le> now) (dq_entries q)"
  have r: "?r = filter (\<lambda>x. \<not> (case x of (i, e) \<Rightarrow> qd_expiresAt e \<le> now)) (dq_entries q)"
    by (rule filter_cong) auto
  have "dq_totalBytes q - total_size ?g = total_size ?r"
    using ok filter_total_size[of "\<lambda>(i, e). qd_expiresAt e \<le> now" "dq_entries q"]
    by (simp add: r dq_ok_def dq_counted_def)
  moreover have "snd (entriesDueForAttempt now q) = q\<lparr>dq_entries := ?r, dq_totalBytes := dq_totalBytes q - total_size ?g\<rparr>"
    by (simp add: entriesDueForAttempt_def total_size_def Let_def)
  moreover have "\<not> dq_over (q\<lparr>dq_entries := ?r, dq_totalBytes := dq_totalBytes q - total_size ?g\<rparr>)"
    using ok by (intro dq_over_mono) (simp_all add: dq_ok_def)
  ultimately show ?thesis using ok by (simp add: dq_ok_def dq_counted_def)
qed

lemma remove_ok: "dq_ok q \<Longrightarrow> dq_ok (dq_remove k q)"
proof -
  assume ok: "dq_ok q"
  then have "dq_counted (dq_remove k q)" by (simp add: dq_ok_def dq_remove_def dq_drop_counted)
  moreover have "\<not> dq_over (dq_remove k q)"
    using ok map_del_length_le[of k "dq_entries q"]
    by (auto simp: dq_remove_def dq_drop_def dq_ok_def dq_over_def split: option.splits)
  ultimately show ?thesis by (simp add: dq_ok_def)
qed

lemma enqueue_pushed_counted:
  assumes "dq_counted q" and "map_of (dq_entries q) k = None"
  shows "dq_counted (q\<lparr>dq_entries := map_put k e (dq_entries q), dq_totalBytes := dq_totalBytes q + qd_sizeBytes e\<rparr>)"
  using assms by (simp add: dq_counted_def map_put_new) (simp add: map_of_eq_None_iff)

lemma dq_enqueue_ok: "dq_ok q \<Longrightarrow> dq_ok (dq_enqueue now prio e q)"
  using enqueue_pushed_counted[of q "qd_packetId e" "e\<lparr>qd_priority := priorityRank prio, qd_expiresAt := now + dq_ttlMs q\<rparr>"]
  by (auto simp: dq_ok_def dq_enqueue_def Let_def evict_counted evict_not_over)

datatype delivery_op =
    EnqueueDelivery time jsval queued_delivery
  | DueForAttempt time
  | RemoveDelivery string

fun dq_step :: "delivery_queue \<Rightarrow> delivery_op \<Rightarrow> delivery_queue" where
  "dq_step q (EnqueueDelivery now prio e) = dq_enqueue now prio e q"
| "dq_step q (DueForAttempt now) = snd (entriesDueForAttempt now q)"
| "dq_step q (RemoveDelivery k) = dq_remove k q"

interpretation delivery_run: step_invariant dq_step dq_ok
proof
  show "dq_ok q \<Longrightarrow> dq_ok (dq_step q e)" for q e
    by (cases e) (simp_all add: dq_enqueue_ok due_ok remove_ok)
qed

lemma dq_step_config [simp]:
  "dq_maxEntries (dq_step q e) = dq_maxEntries q" "dq_maxTotalBytes (dq_step q e) = dq_maxTotalBytes q"
  by (cases e; simp add: dq_enqueue_def entriesDueForAttempt_def dq_remove_def Let_def)+

lemma dq_run_config [simp]:
  "dq_maxEntries (foldl dq_step q es) = dq_maxEntries q" "dq_maxTotalBytes (foldl dq_step q es) = dq_maxTotalBytes q"
  by (induction es arbitrary: q) auto

section \<open>Properties\<close>

text \<open>Whatever deliveries arrive, are attempted or removed, the gateway's queue stays within its limits
  on entries and on bytes, and its byte counter is at all times exactly the sum of the sizes of what it
  holds.\<close>

theorem delivery_queue_bounded:
  "let q = foldl dq_step (dq_new (Some n) (Some b) ttl) ops in
     length (dq_entries q) \<le> n \<and> dq_totalBytes q \<le> b \<and>
     dq_totalBytes q = sum_list (map (\<lambda>(i, e). qd_sizeBytes e) (dq_entries q))"
proof -
  let ?q = "foldl dq_step (dq_new (Some n) (Some b) ttl) ops"
  have "dq_ok (dq_new (Some n) (Some b) ttl)" by (simp add: dq_ok_def dq_counted_def dq_new_def dq_over_def)
  then have "dq_ok ?q" by (rule delivery_run.run_inv)
  moreover have "dq_maxEntries ?q = n" "dq_maxTotalBytes ?q = b" by (simp_all add: dq_new_def)
  ultimately show ?thesis by (simp add: dq_ok_def dq_counted_def dq_over_def total_size_def)
qed

text \<open>When a delivery does not fit, the queue sacrifices the least urgent first and the oldest among
  equals: if an entry is dropped by an enqueue, every entry that stays is of a more urgent class, or of the
  same class and younger.\<close>

theorem delivery_eviction_order:
  assumes ok: "dq_ok q" and new: "map_of (dq_entries q) (qd_packetId x) = None"
    and inq: "(k, e) \<in> set (dq_entries q)" and gone: "(k, e) \<notin> set (dq_entries (dq_enqueue now prio x q))"
  shows "\<exists>xs ys. dq_entries q = xs @ (k, e) # ys \<and>
    (\<forall>(k', e') \<in> set (dq_entries (dq_enqueue now prio x q)).
       qd_rank e' < qd_rank e \<or> (qd_rank e' = qd_rank e \<and> ((k', e') \<in> set ys \<or> k' = qd_packetId x)))"
proof -
  let ?x = "x\<lparr>qd_priority := priorityRank prio, qd_expiresAt := now + dq_ttlMs q\<rparr>"
  let ?p = "q\<lparr>dq_entries := map_put (qd_packetId x) ?x (dq_entries q), dq_totalBytes := dq_totalBytes q + qd_sizeBytes x\<rparr>"
  have enq: "dq_enqueue now prio x q = evictWhileOverCapacity ?p" using new by (simp add: dq_enqueue_def Let_def)
  have put: "map_put (qd_packetId x) ?x (dq_entries q) = dq_entries q @ [(qd_packetId x, ?x)]"
    using new by (rule map_put_new)
  have wf: "map_wf (dq_entries ?p)" using ok by (simp add: dq_ok_def dq_counted_def)
  have inp: "(k, e) \<in> set (dq_entries ?p)" using inq put by simp
  from evict_order[OF wf inp] gone obtain xs ys where split: "dq_entries q @ [(qd_packetId x, ?x)] = xs @ (k, e) # ys"
    and r: "\<forall>(k', e') \<in> set (dq_entries (dq_enqueue now prio x q)). qd_rank e' < qd_rank e \<or> (qd_rank e' = qd_rank e \<and> (k', e') \<in> set ys)"
    unfolding enq using put by auto
  have "(k, e) \<noteq> (qd_packetId x, ?x)" using inq new map_of_key[of k e "dq_entries q"] by auto
  with split obtain zs where zs: "ys = zs @ [(qd_packetId x, ?x)]" by (cases ys rule: rev_cases) auto
  with split have "dq_entries q = xs @ (k, e) # zs" by simp
  with r zs show ?thesis by (intro exI[of _ xs] exI[of _ zs]) auto
qed

lemma delivery_eviction_order_witness:
  "let e = \<lparr>qd_packetId = ''a'', qd_destinationId = ''d'', qd_url = ''u'', qd_senderEphemeralPublicKey = [], qd_nonce = [],
      qd_ciphertext = [], qd_authTag = [], qd_submittedAt = 0, qd_priority = BULK, qd_sizeBytes = 3, qd_expiresAt = 10\<rparr>;
     x = e\<lparr>qd_packetId := ''b''\<rparr>;
     q = \<lparr>dq_entries = [(''a'', e)], dq_maxEntries = 1, dq_maxTotalBytes = 100, dq_ttlMs = 5, dq_totalBytes = 3\<rparr>
   in \<exists>xs ys. dq_entries q = xs @ (''a'', e) # ys \<and>
     (\<forall>(k', e') \<in> set (dq_entries (dq_enqueue 1 (priority_val EMERGENCY) x q)).
       qd_rank e' < qd_rank e \<or> (qd_rank e' = qd_rank e \<and> ((k', e') \<in> set ys \<or> k' = qd_packetId x)))"
proof -
  define e where "e = \<lparr>qd_packetId = ''a'', qd_destinationId = ''d'', qd_url = ''u'', qd_senderEphemeralPublicKey = [], qd_nonce = [],
      qd_ciphertext = [], qd_authTag = [], qd_submittedAt = 0, qd_priority = BULK, qd_sizeBytes = 3, qd_expiresAt = 10\<rparr>"
  define x where "x = e\<lparr>qd_packetId := ''b''\<rparr>"
  define q where "q = \<lparr>dq_entries = [(''a'', e)], dq_maxEntries = 1, dq_maxTotalBytes = 100, dq_ttlMs = 5, dq_totalBytes = 3\<rparr>"
  have ok: "dq_ok q" by (simp add: q_def e_def dq_ok_def dq_counted_def dq_over_def)
  have "dq_entries (dq_enqueue 1 (priority_val EMERGENCY) x q) = [(''b'', x\<lparr>qd_priority := EMERGENCY, qd_expiresAt := 6\<rparr>)]"
    by (simp add: dq_enqueue_def q_def x_def e_def evictWhileOverCapacity.simps dq_over_def pickLowestPriorityOldest_def
        qd_rank_def dq_drop_def)
  then have gone: "(''a'', e) \<notin> set (dq_entries (dq_enqueue 1 (priority_val EMERGENCY) x q))" by simp
  have "map_of (dq_entries q) (qd_packetId x) = None" "(''a'', e) \<in> set (dq_entries q)"
    by (simp_all add: q_def x_def e_def)
  from delivery_eviction_order[OF ok this gone] show ?thesis
    unfolding Let_def e_def[symmetric] x_def[symmetric] q_def[symmetric] .
qed

end
