(* ===== verification/ContentFetch.thy ===== *)
theory ContentFetch
  imports Assembler
begin

text \<open>
  The requester's side of a content transfer in \<open>node/src/node.ts\<close>: one \<open>PendingContentEntry\<close> per
  content asked for, which splits the chunks over at most two providers and hands the range of a dead
  provider to another. The handlers are \<open>handleContentFound\<close>, \<open>handleContentNotFound\<close>,
  \<open>abandonFetch\<close> (also what a provider timer calls), the bookkeeping part of \<open>handleContentChunk\<close> and
  the entry part of \<open>handleContentComplete\<close>. Timers are events of the run; the requests a handler
  sends are appended to \<open>fe_requests\<close>.
\<close>

definition MAX_CONTENT_CANDIDATES :: nat where "MAX_CONTENT_CANDIDATES = 16"
definition MAX_CONCURRENT_CONTENT_FETCHES :: nat where "MAX_CONCURRENT_CONTENT_FETCHES = 2"

type_synonym chunk_range = "int \<times> int"

record fetch_entry =
  fe_contentId :: string
  fe_sized :: bool
  fe_totalChunks :: "nat option"
  fe_metadata :: "content_metadata option"
  fe_receivedChunks :: "nat list"
  fe_activeFetches :: "(string, chunk_range) jsmap"
  fe_unassignedRanges :: "chunk_range list"
  fe_rangeHighWaterMark :: int
  fe_candidates :: "string list"
  fe_requests :: "(string \<times> chunk_range) list"

definition fe_new :: "string \<Rightarrow> fetch_entry" where
  "fe_new contentId = \<lparr>fe_contentId = contentId, fe_sized = False, fe_totalChunks = None, fe_metadata = None,
     fe_receivedChunks = [], fe_activeFetches = [], fe_unassignedRanges = [], fe_rangeHighWaterMark = -1,
     fe_candidates = [], fe_requests = []\<rparr>"

definition fe_active :: "fetch_entry \<Rightarrow> string \<Rightarrow> bool" where
  "fe_active e p \<longleftrightarrow> map_of (fe_activeFetches e) p \<noteq> None"

definition requestRangeFromProvider :: "string \<Rightarrow> chunk_range \<Rightarrow> fetch_entry \<Rightarrow> fetch_entry" where
  "requestRangeFromProvider p r e =
     e\<lparr>fe_activeFetches := map_put p r (fe_activeFetches e), fe_requests := fe_requests e @ [(p, r)]\<rparr>"

definition tryAssignUnassignedRange :: "string \<Rightarrow> fetch_entry \<Rightarrow> bool \<times> fetch_entry" where
  "tryAssignUnassignedRange p e =
     (if \<not> fe_active e p \<and> length (fe_activeFetches e) \<ge> MAX_CONCURRENT_CONTENT_FETCHES then (False, e)
      else case fe_unassignedRanges e of
        [] \<Rightarrow> (False, e)
      | r # rs \<Rightarrow> (True, requestRangeFromProvider p r (e\<lparr>fe_unassignedRanges := rs\<rparr>)))"

lemma tryAssign_candidates [simp]: "fe_candidates (snd (tryAssignUnassignedRange p e)) = fe_candidates e"
  by (simp add: tryAssignUnassignedRange_def requestRangeFromProvider_def split: list.splits)

text \<open>The \<open>while\<close> loop of \<open>tryKeepFetchesGoing\<close>.\<close>

function keep_loop :: "fetch_entry \<Rightarrow> fetch_entry" where
  "keep_loop e = (case fe_candidates e of
     [] \<Rightarrow> e
   | next # rest \<Rightarrow>
       let (ok, e') = tryAssignUnassignedRange next (e\<lparr>fe_candidates := rest\<rparr>) in
       if ok then keep_loop e' else e'\<lparr>fe_candidates := next # fe_candidates e'\<rparr>)"
  by pat_completeness auto

termination
proof (relation "measure (\<lambda>e. length (fe_candidates e))")
  fix e :: fetch_entry and n rest x ok e'
  assume c: "fe_candidates e = n # rest" and x: "x = tryAssignUnassignedRange n (e\<lparr>fe_candidates := rest\<rparr>)" "(ok, e') = x"
  then have "fe_candidates e' = rest"
    using tryAssign_candidates[of n "e\<lparr>fe_candidates := rest\<rparr>"] by (metis snd_conv fetch_entry.select_convs(9) fetch_entry.surjective fetch_entry.update_convs(9))
  with c show "(e', e) \<in> measure (\<lambda>e. length (fe_candidates e))" by simp
qed simp

declare keep_loop.simps [simp del]

definition tryKeepFetchesGoing :: "string option \<Rightarrow> fetch_entry \<Rightarrow> fetch_entry" where
  "tryKeepFetchesGoing fallback e = (let e' = keep_loop e in
     case fallback of Some p \<Rightarrow> snd (tryAssignUnassignedRange p e') | None \<Rightarrow> e')"

definition abandonFetch :: "string \<Rightarrow> fetch_entry \<Rightarrow> fetch_entry" where
  "abandonFetch p e = (case map_of (fe_activeFetches e) p of
     None \<Rightarrow> e
   | Some r \<Rightarrow> tryKeepFetchesGoing None
       (e\<lparr>fe_activeFetches := map_del p (fe_activeFetches e), fe_unassignedRanges := fe_unassignedRanges e @ [r]\<rparr>))"

definition contentFound :: "string \<Rightarrow> content_metadata option \<Rightarrow> fetch_entry \<Rightarrow> fetch_entry" where
  "contentFound source md e =
     (if fe_active e source \<or> source \<in> set (fe_candidates e) then e
      else if \<not> fe_sized e then
        (case md of None \<Rightarrow> e
         | Some metadata \<Rightarrow>
             let estimated = chunkCountForSize (cm_size metadata);
                 e1 = e\<lparr>fe_sized := True, fe_metadata := Some metadata, fe_rangeHighWaterMark := estimated - 1\<rparr>
             in if estimated > 1
                then let mid = \<lceil>rat_of_int estimated / 2\<rceil>;
                         e2 = requestRangeFromProvider source (0, mid - 1) e1
                     in e2\<lparr>fe_unassignedRanges := fe_unassignedRanges e2 @ [(mid, estimated - 1)]\<rparr>
                else requestRangeFromProvider source (0, estimated - 1) e1)
      else
        let (ok, e') = tryAssignUnassignedRange source e in
        if \<not> ok \<and> length (fe_candidates e') < MAX_CONTENT_CANDIDATES
        then e'\<lparr>fe_candidates := fe_candidates e' @ [source]\<rparr> else e')"

definition contentNotFound :: "string \<Rightarrow> fetch_entry \<Rightarrow> fetch_entry" where
  "contentNotFound source e = (if \<not> fe_active e source then e else abandonFetch source e)"

text \<open>What \<open>handleContentChunk\<close> does to the entry when the assembler accepted chunk \<open>i\<close> of \<open>n\<close>.\<close>

definition noteChunk :: "nat \<Rightarrow> nat \<Rightarrow> fetch_entry \<Rightarrow> fetch_entry" where
  "noteChunk i n e =
     (let previouslyUnknown = (fe_totalChunks e = None);
          total = (case fe_totalChunks e of Some t \<Rightarrow> t | None \<Rightarrow> n);
          e1 = e\<lparr>fe_totalChunks := Some total,
                 fe_receivedChunks := (if i < total then List.insert i (fe_receivedChunks e) else fe_receivedChunks e)\<rparr>
      in if previouslyUnknown \<and> int total - 1 > fe_rangeHighWaterMark e1
         then e1\<lparr>fe_unassignedRanges := fe_unassignedRanges e1 @ [(fe_rangeHighWaterMark e1 + 1, int total - 1)],
                 fe_rangeHighWaterMark := int total - 1\<rparr>
         else e1)"

definition chunkArrived :: "string \<Rightarrow> nat \<Rightarrow> nat \<Rightarrow> fetch_entry \<Rightarrow> fetch_entry" where
  "chunkArrived source i n e = (if \<not> fe_active e source then e else noteChunk i n e)"

definition contentCompleted :: "string \<Rightarrow> fetch_entry \<Rightarrow> fetch_entry" where
  "contentCompleted source e =
     (if \<not> fe_active e source then e
      else tryKeepFetchesGoing (Some source) (e\<lparr>fe_activeFetches := map_del source (fe_activeFetches e)\<rparr>))"

section \<open>The run\<close>

datatype fetch_event =
    Found string "content_metadata option"
  | NotFound string
  | ProviderTimeout string
  | ChunkIn string nat nat
  | CompleteIn string

fun fetch_step :: "fetch_entry \<Rightarrow> fetch_event \<Rightarrow> fetch_entry" where
  "fetch_step e (Found p md) = contentFound p md e"
| "fetch_step e (NotFound p) = contentNotFound p e"
| "fetch_step e (ProviderTimeout p) = abandonFetch p e"
| "fetch_step e (ChunkIn p i n) = chunkArrived p i n e"
| "fetch_step e (CompleteIn p) = contentCompleted p e"

section \<open>Invariant and coverage\<close>

definition range_set :: "chunk_range \<Rightarrow> int set" where
  "range_set r = {fst r..snd r}"

text \<open>The chunk indices somebody is fetching or is about to be asked for.\<close>

definition covered :: "fetch_entry \<Rightarrow> int set" where
  "covered e = \<Union> (range_set ` (snd ` set (fe_activeFetches e) \<union> set (fe_unassignedRanges e)))"

text \<open>Received indices are distinct and below the total, and the total is within the high-water mark.\<close>

definition received_ok :: "nat option \<Rightarrow> nat list \<Rightarrow> int \<Rightarrow> bool" where
  "received_ok tot received mark \<longleftrightarrow> distinct received \<and> (case tot of None \<Rightarrow> received = []
     | Some n \<Rightarrow> (\<forall>i \<in> set received. i < n) \<and> int n - 1 \<le> mark)"

definition fetch_ok :: "fetch_entry \<Rightarrow> bool" where
  "fetch_ok e \<longleftrightarrow> map_wf (fe_activeFetches e) \<and> length (fe_activeFetches e) \<le> MAX_CONCURRENT_CONTENT_FETCHES \<and>
     distinct (fe_candidates e) \<and> length (fe_candidates e) \<le> MAX_CONTENT_CANDIDATES \<and>
     (\<forall>p \<in> set (fe_candidates e). \<not> fe_active e p) \<and>
     received_ok (fe_totalChunks e) (fe_receivedChunks e) (fe_rangeHighWaterMark e) \<and>
     (\<not> fe_sized e \<longrightarrow> fe_activeFetches e = [] \<and> fe_unassignedRanges e = [] \<and> fe_candidates e = [] \<and> fe_rangeHighWaterMark e = -1)"

lemma fe_new_ok: "fetch_ok (fe_new c)"
  by (simp add: fetch_ok_def fe_new_def received_ok_def)

lemma fe_active_updates [simp]:
  "fe_active (e\<lparr>fe_candidates := x\<rparr>) = fe_active e"
  "fe_active (e\<lparr>fe_receivedChunks := y\<rparr>) = fe_active e"
  "fe_active (e\<lparr>fe_totalChunks := z\<rparr>) = fe_active e"
  "fe_active (e\<lparr>fe_unassignedRanges := u\<rparr>) = fe_active e"
  "fe_active (e\<lparr>fe_rangeHighWaterMark := w\<rparr>) = fe_active e"
  by (simp_all add: fe_active_def fun_eq_iff)

lemma fe_active_none: "\<not> fe_active e p \<longleftrightarrow> map_of (fe_activeFetches e) p = None"
  by (simp only: fe_active_def not_not)

text \<open>The transfer facts that assignment never touches.\<close>

definition same_transfer :: "fetch_entry \<Rightarrow> fetch_entry \<Rightarrow> bool" where
  "same_transfer e e' \<longleftrightarrow> fe_totalChunks e' = fe_totalChunks e \<and> fe_receivedChunks e' = fe_receivedChunks e \<and>
     fe_rangeHighWaterMark e' = fe_rangeHighWaterMark e \<and> fe_sized e' = fe_sized e"

lemma same_transfer_trans: "same_transfer a b \<Longrightarrow> same_transfer b c \<Longrightarrow> same_transfer a c"
  by (simp add: same_transfer_def)

lemma set_active_put_new:
  "map_of m p = None \<Longrightarrow> set (map_put p r m) = insert (p, r) (set m)"
  by (simp add: map_put_new)

lemma active_length_put_new: "map_of m p = None \<Longrightarrow> length (map_put p r m) = Suc (length m)"
  by (rule map_put_length_new)

text \<open>Assigning an unassigned range to a provider that is not busy moves the range, and keeps the
  invariant when the provider is not a waiting candidate.\<close>

lemma tryAssign_moves:
  assumes "\<not> fe_active e p"
  shows "covered (snd (tryAssignUnassignedRange p e)) = covered e"
  using assms
  unfolding fe_active_none
  by (auto simp: tryAssignUnassignedRange_def requestRangeFromProvider_def covered_def set_active_put_new
      split: list.splits)

lemma tryAssign_same: "same_transfer e (snd (tryAssignUnassignedRange p e))"
  by (simp add: same_transfer_def tryAssignUnassignedRange_def requestRangeFromProvider_def split: list.splits)

lemma tryAssign_active:
  "fe_active (snd (tryAssignUnassignedRange p e)) q \<Longrightarrow> fe_active e q \<or> q = p"
  by (auto simp: tryAssignUnassignedRange_def requestRangeFromProvider_def fe_active_def split: list.splits if_splits)

lemma tryAssign_ok:
  assumes ok: "fetch_ok e" and s: "fe_sized e" and free: "\<not> fe_active e p" and nc: "p \<notin> set (fe_candidates e)"
  shows "fetch_ok (snd (tryAssignUnassignedRange p e))"
proof (cases "length (fe_activeFetches e) \<ge> MAX_CONCURRENT_CONTENT_FETCHES")
  case True
  with ok free show ?thesis by (simp add: tryAssignUnassignedRange_def)
next
  case room: False
  show ?thesis
  proof (cases "fe_unassignedRanges e")
    case Nil
    with ok room free show ?thesis by (simp add: tryAssignUnassignedRange_def)
  next
    case (Cons r rs)
    let ?e = "requestRangeFromProvider p r (e\<lparr>fe_unassignedRanges := rs\<rparr>)"
    have "\<not> fe_active ?e q" if "q \<in> set (fe_candidates e)" for q
      using that ok nc by (auto simp: fetch_ok_def fe_active_def requestRangeFromProvider_def)
    moreover have "map_of (fe_activeFetches e) p = None" using free by (simp only: fe_active_none)
    ultimately have "fetch_ok ?e" using ok s room
      by (simp add: fetch_ok_def requestRangeFromProvider_def active_length_put_new)
    with room Cons free show ?thesis by (simp add: tryAssignUnassignedRange_def)
  qed
qed

text \<open>Putting the head candidate aside while it is tried keeps the invariant, and putting it back too.\<close>

lemma fetch_ok_tail:
  assumes "fetch_ok e" and "fe_candidates e = n # rest"
  shows "fetch_ok (e\<lparr>fe_candidates := rest\<rparr>)" "\<not> fe_active e n" "n \<notin> set rest"
  using assms by (auto simp: fetch_ok_def fe_active_def)

lemma keep_loop_keeps:
  assumes "fetch_ok e" and "fe_sized e \<or> fe_candidates e = []"
  shows "fetch_ok (keep_loop e) \<and> covered (keep_loop e) = covered e \<and> same_transfer e (keep_loop e) \<and>
    set (fe_candidates (keep_loop e)) \<subseteq> set (fe_candidates e) \<and>
    (\<forall>q. fe_active (keep_loop e) q \<longrightarrow> fe_active e q \<or> q \<in> set (fe_candidates e))"
  using assms
proof (induction e rule: keep_loop.induct)
  case (1 e)
  show ?case
  proof (cases "fe_candidates e")
    case Nil
    with "1.prems" show ?thesis by (simp add: keep_loop.simps[of e] same_transfer_def)
  next
    case (Cons n rest)
    let ?e = "e\<lparr>fe_candidates := rest\<rparr>"
    obtain b e' where t: "tryAssignUnassignedRange n ?e = (b, e')" by (cases "tryAssignUnassignedRange n ?e")
    from fetch_ok_tail[OF "1.prems"(1) Cons] have base: "fetch_ok ?e" "\<not> fe_active ?e n" "n \<notin> set (fe_candidates ?e)"
      by (simp_all add: fe_active_def)
    have s: "fe_sized ?e" using "1.prems"(2) Cons by simp
    from tryAssign_ok[OF base(1) s base(2,3)] tryAssign_moves[OF base(2)] tryAssign_same[of ?e n]
      tryAssign_candidates[of n ?e] t
    have e': "fetch_ok e'" "covered e' = covered ?e" "same_transfer ?e e'" "fe_candidates e' = rest" by simp_all
    have act: "\<forall>q. fe_active e' q \<longrightarrow> fe_active e q \<or> q = n"
      using tryAssign_active[of n ?e] t by (simp add: fe_active_def)
    have cov: "covered ?e = covered e" by (simp add: covered_def)
    show ?thesis
    proof (cases b)
      case True
      have step: "keep_loop e = keep_loop e'" by (simp add: keep_loop.simps[of e] Cons t True)
      have "fe_sized e'" using e'(3) s by (simp add: same_transfer_def)
      with "1.IH"[OF Cons refl t[symmetric] True e'(1)] e' act cov Cons show ?thesis
        unfolding step by (auto simp: same_transfer_def)
    next
      case False
      have st: "e' = ?e" using t False by (auto simp: tryAssignUnassignedRange_def split: if_splits list.splits)
      have step: "keep_loop e = e'\<lparr>fe_candidates := n # rest\<rparr>" by (simp add: keep_loop.simps[of e] Cons t False e'(4))
      have "e'\<lparr>fe_candidates := n # rest\<rparr> = e" using st Cons by simp
      with "1.prems"(1) step show ?thesis by (simp add: same_transfer_def)
    qed
  qed
qed

text \<open>A fetch ends: the provider leaves the active ones, its range \<open>r\<close> is put back or is done.\<close>

lemma fetch_ok_release:
  assumes "fetch_ok e"
  shows "fetch_ok (e\<lparr>fe_activeFetches := map_del p (fe_activeFetches e), fe_unassignedRanges := us\<rparr>) \<longleftrightarrow>
    (fe_sized e \<or> us = [])"
proof -
  have "length (map_del p (fe_activeFetches e)) \<le> MAX_CONCURRENT_CONTENT_FETCHES"
    using assms map_del_length_le[of p "fe_activeFetches e"] by (simp add: fetch_ok_def)
  with assms show ?thesis by (auto simp: fetch_ok_def fe_active_def)
qed

lemma covered_release:
  assumes wf: "map_wf (fe_activeFetches e)" and r: "map_of (fe_activeFetches e) p = Some r"
  shows "covered e = covered (e\<lparr>fe_activeFetches := map_del p (fe_activeFetches e)\<rparr>) \<union> range_set r"
proof -
  from r wf obtain xs ys where m: "fe_activeFetches e = xs @ (p, r) # ys"
    using map_of_in_set split_list by fast
  then have "set (map_del p (fe_activeFetches e)) = set xs \<union> set ys"
    using wf by (simp add: list_before_after)
  with m show ?thesis by (auto simp: covered_def)
qed

lemma tryKeep_keeps:
  assumes ok: "fetch_ok e" and s: "fe_sized e" and fb: "\<And>p. fb = Some p \<Longrightarrow> \<not> fe_active e p \<and> p \<notin> set (fe_candidates e)"
  shows "fetch_ok (tryKeepFetchesGoing fb e) \<and> covered (tryKeepFetchesGoing fb e) = covered e \<and>
    same_transfer e (tryKeepFetchesGoing fb e)"
proof -
  from keep_loop_keeps[OF ok] s have k: "fetch_ok (keep_loop e)" "covered (keep_loop e) = covered e"
    "same_transfer e (keep_loop e)" "set (fe_candidates (keep_loop e)) \<subseteq> set (fe_candidates e)"
    "\<And>q. fe_active (keep_loop e) q \<Longrightarrow> fe_active e q \<or> q \<in> set (fe_candidates e)" by auto
  show ?thesis
  proof (cases fb)
    case None
    with k show ?thesis by (simp add: tryKeepFetchesGoing_def)
  next
    case (Some p)
    with fb k have "\<not> fe_active (keep_loop e) p" "p \<notin> set (fe_candidates (keep_loop e))" by auto
    moreover have "fe_sized (keep_loop e)" using k(3) s by (simp add: same_transfer_def)
    ultimately show ?thesis
      using Some k tryAssign_ok[of "keep_loop e" p] tryAssign_moves[of "keep_loop e" p]
        same_transfer_trans[OF k(3) tryAssign_same]
      by (simp add: tryKeepFetchesGoing_def)
  qed
qed

lemma active_sized: "fetch_ok e \<Longrightarrow> fe_active e p \<Longrightarrow> fe_sized e"
  by (auto simp: fetch_ok_def fe_active_def)

lemma abandon_keeps:
  assumes ok: "fetch_ok e"
  shows "fetch_ok (abandonFetch p e) \<and> covered (abandonFetch p e) = covered e \<and> same_transfer e (abandonFetch p e)"
proof (cases "map_of (fe_activeFetches e) p")
  case None
  with ok show ?thesis by (simp add: abandonFetch_def same_transfer_def)
next
  case (Some r)
  let ?e = "e\<lparr>fe_activeFetches := map_del p (fe_activeFetches e), fe_unassignedRanges := fe_unassignedRanges e @ [r]\<rparr>"
  have s: "fe_sized e" using active_sized[OF ok, of p] Some by (simp add: fe_active_def)
  have "fetch_ok ?e" using fetch_ok_release[OF ok] s by blast
  from tryKeep_keeps[OF this, of None] s have
    "fetch_ok (tryKeepFetchesGoing None ?e) \<and> covered (tryKeepFetchesGoing None ?e) = covered ?e \<and> same_transfer ?e (tryKeepFetchesGoing None ?e)"
    by simp
  moreover have "covered ?e = covered e"
    using covered_release[OF _ Some] ok by (auto simp: fetch_ok_def covered_def)
  ultimately show ?thesis using Some by (simp add: abandonFetch_def same_transfer_def)
qed

lemma range_union: "{0..n} = range_set (0, m - 1) \<union> range_set (m, n)" if "0 \<le> m" "m \<le> n + 1" for n m :: int
  using that by (auto simp: range_set_def)

lemma mid_bounds: "1 < n \<Longrightarrow> 0 \<le> \<lceil>rat_of_int n / 2\<rceil> \<and> \<lceil>rat_of_int n / 2\<rceil> \<le> n"
proof -
  assume n: "1 < n"
  have "\<lceil>rat_of_int n / 2\<rceil> \<le> n" by (rule ceiling_le) (use n in simp)
  moreover have "0 \<le> \<lceil>rat_of_int n / 2\<rceil>" using n by (simp add: le_ceiling_iff)
  ultimately show ?thesis by simp
qed

text \<open>The first reply sizes the transfer: the whole estimate is covered at once.\<close>

lemma found_keeps:
  assumes ok: "fetch_ok e"
  shows "fetch_ok (contentFound p md e) \<and> covered e \<subseteq> covered (contentFound p md e) \<and>
    ({0..fe_rangeHighWaterMark (contentFound p md e)} \<subseteq> {0..fe_rangeHighWaterMark e} \<union> covered (contentFound p md e)) \<and>
    fe_totalChunks (contentFound p md e) = fe_totalChunks e"
proof (cases "fe_active e p \<or> p \<in> set (fe_candidates e)")
  case True
  with ok show ?thesis by (simp add: contentFound_def)
next
  case free: False
  show ?thesis
  proof (cases "fe_sized e")
    case s: True
    obtain b e' where t: "tryAssignUnassignedRange p e = (b, e')" by (cases "tryAssignUnassignedRange p e")
    from tryAssign_ok[OF ok s, of p] tryAssign_moves[of e p] tryAssign_same[of e p] tryAssign_candidates[of p e] free t
    have e': "fetch_ok e'" "covered e' = covered e" "same_transfer e e'" "fe_candidates e' = fe_candidates e" by simp_all
    have na: "\<not> b \<Longrightarrow> e' = e" using t by (auto simp: tryAssignUnassignedRange_def split: if_splits list.splits)
    show ?thesis
    proof (cases "\<not> b \<and> length (fe_candidates e') < MAX_CONTENT_CANDIDATES")
      case True
      then have "contentFound p md e = e\<lparr>fe_candidates := fe_candidates e @ [p]\<rparr>"
        using free s t na by (simp add: contentFound_def)
      moreover have "fetch_ok (e\<lparr>fe_candidates := fe_candidates e @ [p]\<rparr>)"
        using ok free s True na by (auto simp: fetch_ok_def fe_active_def)
      ultimately show ?thesis by (auto simp: covered_def)
    next
      case False
      then have "contentFound p md e = e'" using free s t by (auto simp: contentFound_def)
      with e' show ?thesis by (auto simp: same_transfer_def)
    qed
  next
    case ns: False
    with ok have empty: "fe_activeFetches e = []" "fe_unassignedRanges e = []" "fe_candidates e = []" "fe_rangeHighWaterMark e = -1"
      by (simp_all add: fetch_ok_def)
    with ok have tot: "fe_totalChunks e = None \<or> fe_totalChunks e = Some 0" "fe_receivedChunks e = []"
      by (auto simp: fetch_ok_def received_ok_def split: option.splits)
    have c0: "covered e = {}" by (simp add: covered_def empty)
    show ?thesis
    proof (cases md)
      case None
      with ok free ns show ?thesis by (simp add: contentFound_def)
    next
      case (Some m)
      define n where "n = chunkCountForSize (cm_size m)"
      have n1: "1 \<le> n" by (simp add: n_def chunkCountForSize_def CHUNK_SIZE_def)
      let ?e = "contentFound p md e"
      have "covered ?e = {0..n - 1} \<and> fetch_ok ?e \<and> fe_rangeHighWaterMark ?e = n - 1 \<and> fe_totalChunks ?e = fe_totalChunks e"
      proof (cases "n > 1")
        case True
        let ?mid = "\<lceil>rat_of_int n / 2\<rceil>"
        have e: "?e = e\<lparr>fe_sized := True, fe_metadata := Some m, fe_rangeHighWaterMark := n - 1,
            fe_activeFetches := [(p, (0, ?mid - 1))], fe_requests := fe_requests e @ [(p, (0, ?mid - 1))],
            fe_unassignedRanges := [(?mid, n - 1)]\<rparr>"
          using free ns Some True empty
          by (simp add: contentFound_def requestRangeFromProvider_def Let_def flip: n_def)
        have "covered ?e = range_set (0, ?mid - 1) \<union> range_set (?mid, n - 1)"
          unfolding e by (simp add: covered_def Un_commute)
        also have "\<dots> = {0..n - 1}" using range_union[of ?mid "n - 1"] mid_bounds[OF True] by simp
        finally show ?thesis using tot n1 empty(3) unfolding e
          by (auto simp: fetch_ok_def received_ok_def MAX_CONCURRENT_CONTENT_FETCHES_def)
      next
        case False
        have e: "?e = e\<lparr>fe_sized := True, fe_metadata := Some m, fe_rangeHighWaterMark := n - 1,
            fe_activeFetches := [(p, (0, n - 1))], fe_requests := fe_requests e @ [(p, (0, n - 1))]\<rparr>"
          using free ns Some False empty
          by (simp add: contentFound_def requestRangeFromProvider_def Let_def flip: n_def)
        show ?thesis using tot n1 empty unfolding e
          by (auto simp: fetch_ok_def received_ok_def covered_def range_set_def MAX_CONCURRENT_CONTENT_FETCHES_def)
      qed
      then show ?thesis by (auto simp: c0)
    qed
  qed
qed

text \<open>A chunk that reveals a larger total adds the missing tail.\<close>

lemma note_keeps:
  assumes ok: "fetch_ok e" and s: "fe_sized e" and i: "i < n"
  shows "fetch_ok (noteChunk i n e) \<and> covered e \<subseteq> covered (noteChunk i n e) \<and>
    {0..fe_rangeHighWaterMark (noteChunk i n e)} \<subseteq> {0..fe_rangeHighWaterMark e} \<union> covered (noteChunk i n e)"
proof (cases "fe_totalChunks e")
  case (Some t)
  then have "noteChunk i n e = e\<lparr>fe_receivedChunks := (if i < t then List.insert i (fe_receivedChunks e) else fe_receivedChunks e)\<rparr>"
    by (simp add: noteChunk_def)
  moreover have "received_ok (fe_totalChunks e) (if i < t then List.insert i (fe_receivedChunks e) else fe_receivedChunks e) (fe_rangeHighWaterMark e)"
    using ok Some by (auto simp: fetch_ok_def received_ok_def)
  ultimately show ?thesis using ok by (simp add: fetch_ok_def covered_def)
next
  case None
  then have r: "fe_receivedChunks e = []" using ok by (simp add: fetch_ok_def received_ok_def)
  let ?e = "e\<lparr>fe_totalChunks := Some n, fe_receivedChunks := [i]\<rparr>"
  show ?thesis
  proof (cases "int n - 1 > fe_rangeHighWaterMark e")
    case True
    then have "noteChunk i n e = ?e\<lparr>fe_unassignedRanges := fe_unassignedRanges e @ [(fe_rangeHighWaterMark e + 1, int n - 1)],
         fe_rangeHighWaterMark := int n - 1\<rparr>"
      using None r i by (simp add: noteChunk_def)
    moreover have "{0..int n - 1} \<subseteq> {0..fe_rangeHighWaterMark e} \<union> range_set (fe_rangeHighWaterMark e + 1, int n - 1)"
      by (auto simp: range_set_def)
    ultimately show ?thesis using ok s i by (auto simp: fetch_ok_def covered_def received_ok_def)
  next
    case False
    then have "noteChunk i n e = ?e" using None r i by (simp add: noteChunk_def)
    with ok s i False show ?thesis by (simp add: fetch_ok_def covered_def received_ok_def)
  qed
qed

text \<open>A completed fetch: only the range of the provider that declared it complete is given up.\<close>

lemma completed_keeps:
  assumes ok: "fetch_ok e"
  shows "fetch_ok (contentCompleted p e) \<and>
    covered e \<subseteq> covered (contentCompleted p e) \<union> (case map_of (fe_activeFetches e) p of Some r \<Rightarrow> range_set r | None \<Rightarrow> {}) \<and>
    fe_rangeHighWaterMark (contentCompleted p e) = fe_rangeHighWaterMark e"
proof (cases "map_of (fe_activeFetches e) p")
  case None
  with ok show ?thesis by (simp add: contentCompleted_def fe_active_def)
next
  case (Some r)
  let ?e = "e\<lparr>fe_activeFetches := map_del p (fe_activeFetches e)\<rparr>"
  have a: "fe_active e p" using Some by (simp add: fe_active_def)
  have s: "fe_sized e" by (rule active_sized[OF ok a])
  have "fetch_ok (?e\<lparr>fe_unassignedRanges := fe_unassignedRanges e\<rparr>)" using fetch_ok_release[OF ok] s by blast
  then have "fetch_ok ?e" by simp
  moreover have "\<not> fe_active ?e p \<and> p \<notin> set (fe_candidates ?e)"
    using ok a by (auto simp: fetch_ok_def fe_active_def)
  ultimately have k: "fetch_ok (tryKeepFetchesGoing (Some p) ?e) \<and> covered (tryKeepFetchesGoing (Some p) ?e) = covered ?e \<and>
      same_transfer ?e (tryKeepFetchesGoing (Some p) ?e)"
    using s by (intro tryKeep_keeps) auto
  have "covered e = covered ?e \<union> range_set r"
    using ok Some by (intro covered_release) (simp_all add: fetch_ok_def)
  with k a Some show ?thesis by (auto simp: contentCompleted_def same_transfer_def)
qed

text \<open>The ranges that providers have declared complete, along a run.\<close>

definition finished_by :: "fetch_entry \<Rightarrow> fetch_event \<Rightarrow> int set" where
  "finished_by e ev = (case ev of
     CompleteIn p \<Rightarrow> (case map_of (fe_activeFetches e) p of Some r \<Rightarrow> range_set r | None \<Rightarrow> {}) | _ \<Rightarrow> {})"

fun finished_in :: "fetch_entry \<Rightarrow> fetch_event list \<Rightarrow> int set" where
  "finished_in e [] = {}"
| "finished_in e (ev # evs) = finished_by e ev \<union> finished_in (fetch_step e ev) evs"

text \<open>The assembler accepts a chunk only with an index below its total.\<close>

fun event_ok :: "fetch_event \<Rightarrow> bool" where
  "event_ok (ChunkIn p i n) = (i < n)"
| "event_ok ev = True"

lemma fetch_step_keeps:
  assumes ok: "fetch_ok e" and ev: "event_ok ev"
  shows "fetch_ok (fetch_step e ev) \<and> covered e \<subseteq> covered (fetch_step e ev) \<union> finished_by e ev \<and>
    {0..fe_rangeHighWaterMark (fetch_step e ev)} \<subseteq> {0..fe_rangeHighWaterMark e} \<union> covered (fetch_step e ev)"
proof (cases ev)
  case (Found p md)
  with found_keeps[OF ok, of p md] show ?thesis by auto
next
  case (NotFound p)
  with abandon_keeps[OF ok, of p] ok show ?thesis by (simp add: contentNotFound_def same_transfer_def)
next
  case (ProviderTimeout p)
  with abandon_keeps[OF ok, of p] show ?thesis by (simp add: same_transfer_def)
next
  case (ChunkIn p i n)
  with ev note_keeps[OF ok _ , of i n] active_sized[OF ok, of p] ok show ?thesis by (auto simp: chunkArrived_def)
next
  case (CompleteIn p)
  with completed_keeps[OF ok, of p] show ?thesis by (simp add: finished_by_def)
qed

lemma fetch_run_keeps:
  assumes "fetch_ok e" and "\<forall>ev \<in> set evs. event_ok ev" and "{0..fe_rangeHighWaterMark e} \<subseteq> covered e \<union> D"
  shows "fetch_ok (foldl fetch_step e evs) \<and>
    {0..fe_rangeHighWaterMark (foldl fetch_step e evs)} \<subseteq> covered (foldl fetch_step e evs) \<union> D \<union> finished_in e evs"
  using assms
proof (induction evs arbitrary: e D)
  case (Cons ev evs)
  from fetch_step_keeps[OF Cons.prems(1), of ev] Cons.prems(2) have s: "fetch_ok (fetch_step e ev)"
    "covered e \<subseteq> covered (fetch_step e ev) \<union> finished_by e ev"
    "{0..fe_rangeHighWaterMark (fetch_step e ev)} \<subseteq> {0..fe_rangeHighWaterMark e} \<union> covered (fetch_step e ev)" by simp_all
  then have "{0..fe_rangeHighWaterMark (fetch_step e ev)} \<subseteq> covered (fetch_step e ev) \<union> (D \<union> finished_by e ev)"
    using Cons.prems(3) by blast
  from Cons.IH[OF s(1) _ this] Cons.prems(2) show ?case by (simp add: Un_assoc)
qed simp

section \<open>Properties\<close>

text \<open>A transfer never loses track of a chunk and never exceeds its limits: whatever replies, chunks,
  completions and provider failures arrive and in whatever order, at most two providers are fetching, at most
  sixteen wait, none of them twice, the chunks received are distinct and below the total, and once the
  total is known every chunk index is being fetched, is waiting to be assigned, or belonged to a range whose
  provider declared it complete.\<close>

theorem transfer_covers_all_chunks:
  assumes evs: "\<forall>ev \<in> set evs. event_ok ev" and e: "e = foldl fetch_step (fe_new c) evs"
  shows "length (fe_activeFetches e) \<le> 2 \<and> length (fe_candidates e) \<le> 16 \<and> distinct (fe_candidates e) \<and>
    (\<forall>p \<in> set (fe_candidates e). \<not> fe_active e p) \<and> distinct (fe_receivedChunks e) \<and>
    (case fe_totalChunks e of None \<Rightarrow> fe_receivedChunks e = []
     | Some n \<Rightarrow> (\<forall>i \<in> set (fe_receivedChunks e). i < n) \<and>
         (\<forall>i < n. int i \<in> covered e \<union> finished_in (fe_new c) evs))"
proof -
  have "{0..fe_rangeHighWaterMark (fe_new c)} \<subseteq> covered (fe_new c) \<union> {}" by (simp add: fe_new_def)
  from fetch_run_keeps[OF fe_new_ok evs this] have ok: "fetch_ok e"
    and cov: "{0..fe_rangeHighWaterMark e} \<subseteq> covered e \<union> finished_in (fe_new c) evs" by (simp_all add: e)
  have "int i \<in> covered e \<union> finished_in (fe_new c) evs" if "fe_totalChunks e = Some n" "i < n" for i n
  proof -
    have "int i \<in> {0..fe_rangeHighWaterMark e}" using ok that by (simp add: fetch_ok_def received_ok_def)
    with cov show ?thesis by blast
  qed
  with ok show ?thesis
    by (auto simp: fetch_ok_def received_ok_def MAX_CONCURRENT_CONTENT_FETCHES_def MAX_CONTENT_CANDIDATES_def split: option.splits)
qed

lemma transfer_covers_all_chunks_witness:
  "let m = \<lparr>cm_contentId = ''c'', cm_name = JString ''n'', cm_mimeType = ''t'', cm_size = 40000, cm_createdAt = 0,
         cm_publisherId = None, cm_signature = None, cm_expiresAt = None, cm_encoding = None,
         cm_originalSize = None, cm_priority = JUndefined\<rparr>;
       e = foldl fetch_step (fe_new ''c'') [Found ''a'' (Some m), Found ''b'' None, ChunkIn ''a'' 0 12, ProviderTimeout ''a'']
   in length (fe_activeFetches e) \<le> 2 \<and> length (fe_candidates e) \<le> 16"
proof -
  let ?m = "\<lparr>cm_contentId = ''c'', cm_name = JString ''n'', cm_mimeType = ''t'', cm_size = 40000, cm_createdAt = 0,
         cm_publisherId = None, cm_signature = None, cm_expiresAt = None, cm_encoding = None,
         cm_originalSize = None, cm_priority = JUndefined\<rparr>"
  have "\<forall>ev \<in> set [Found ''a'' (Some ?m), Found ''b'' None, ChunkIn ''a'' 0 12, ProviderTimeout ''a'']. event_ok ev" by simp
  from transfer_covers_all_chunks[OF this refl, of "''c''"] show ?thesis unfolding Let_def by blast
qed

text \<open>A transfer with nothing to fetch and nothing to assign.\<close>

definition stalled :: "fetch_entry \<Rightarrow> bool" where
  "stalled e \<longleftrightarrow> fe_sized e \<and> fe_activeFetches e = [] \<and> fe_unassignedRanges e = []"

lemma stalled_step:
  assumes "stalled e"
  shows "stalled (fetch_step e ev) \<and> fe_requests (fetch_step e ev) = fe_requests e \<and>
    fe_receivedChunks (fetch_step e ev) = fe_receivedChunks e"
  using assms
  by (cases ev) (auto simp: stalled_def contentFound_def tryAssignUnassignedRange_def contentNotFound_def abandonFetch_def
      chunkArrived_def contentCompleted_def fe_active_def)

lemma stalled_run:
  "stalled e \<Longrightarrow> fe_requests (foldl fetch_step e evs) = fe_requests e \<and>
    fe_receivedChunks (foldl fetch_step e evs) = fe_receivedChunks e \<and> fe_activeFetches (foldl fetch_step e evs) = []"
proof (induction evs arbitrary: e)
  case Nil
  then show ?case by (simp add: stalled_def)
next
  case (Cons ev evs)
  with stalled_step[OF Cons.prems, of ev] show ?case by simp
qed

lemma completions_stall:
  "stalled (foldl fetch_step (fe_new c) [Found a (Some m), CompleteIn a, CompleteIn a]) \<and>
   fe_receivedChunks (foldl fetch_step (fe_new c) [Found a (Some m), CompleteIn a, CompleteIn a]) = [] \<and>
   fst ` set (fe_requests (foldl fetch_step (fe_new c) [Found a (Some m), CompleteIn a, CompleteIn a])) = {a}"
proof -
  have idle: "keep_loop e = e" if "fe_candidates e = []" for e by (simp add: keep_loop.simps[of e] that)
  show ?thesis
    by (cases "1 < chunkCountForSize (cm_size m)")
      (simp_all add: stalled_def contentFound_def fe_new_def fe_active_def Let_def requestRangeFromProvider_def
        contentCompleted_def tryKeepFetchesGoing_def idle tryAssignUnassignedRange_def MAX_CONCURRENT_CONTENT_FETCHES_def)
qed

text \<open>A completion is taken at its word, chunks or no chunks: when the first provider to answer sends its
  completions without a single chunk, the transfer is stalled for good. Whatever happens afterwards, other
  providers answering with the content included, no further request is sent, no chunk is accepted and the
  transfer can only time out.\<close>

theorem early_completion_stalls_transfer:
  "let e = foldl fetch_step (fe_new c) ([Found a (Some m), CompleteIn a, CompleteIn a] @ evs)
   in fe_receivedChunks e = [] \<and> fe_activeFetches e = [] \<and> fst ` set (fe_requests e) = {a}"
  using completions_stall[of c a m]
    stalled_run[of "foldl fetch_step (fe_new c) [Found a (Some m), CompleteIn a, CompleteIn a]" evs]
  by (simp only: foldl_append Let_def)

end
