(* ===== verification/Capacities.thy ===== *)
theory Capacities
  imports Trust Routing RateLimit StoreForward Assembler Registries ExternalDelivery
begin

text \<open>
  The limits of the node's stores never move: no operation of \<open>node/src\<close>'s trust table, duplicate
  cache, routing table, queues, packet budgets, directories, content store, assemblers, histories
  and registries changes the size its constructor was given.
\<close>

section \<open>The packet plane\<close>

lemma markVerified_cap [simp]: "tm_maxSize (markVerified i t) = tm_maxSize t"
  by (simp add: markVerified_def raiseTo_def)

lemma markSeen_cap [simp]: "tm_maxSize (markSeen i t) = tm_maxSize t"
  by (simp add: markSeen_def raiseTo_def)

lemma offer_cap [simp]: "bm_max (routes (snd (offer tr d h c t))) = bm_max (routes t)"
  by (simp add: offer_def Let_def)

lemma withdraw_cap [simp]: "bm_max (routes (snd (withdraw d h t))) = bm_max (routes t)"
  by (simp add: withdraw_def split: option.split)

lemma removeRoutesVia_cap [simp]: "bm_max (routes (snd (removeRoutesVia p t))) = bm_max (routes t)"
  by (simp add: removeRoutesVia_def)

lemma pending_cap [simp]:
  "bm_max (pq_entries (pdq_enqueue t p ex q)) = bm_max (pq_entries q)"
  "bm_max (pq_entries (pdq_requeue t d q)) = bm_max (pq_entries q)"
  "bm_max (pq_entries (snd (pdq_drain t q))) = bm_max (pq_entries q)"
  by (simp_all add: pdq_enqueue_def pdq_requeue_def pdq_drain_def Let_def)

lemma reset_cap [simp]: "bm_max (windows (reset p l)) = bm_max (windows l)"
  by (simp add: reset_def)

lemma pd_record_cap [simp]: "bm_max (snd (pd_record tr a d)) = bm_max d"
  by (simp add: pd_record_once)

section \<open>Content\<close>

lemma readLive_cap [simp]: "bm_max (cs_items (snd (readLive t i s))) = bm_max (cs_items s)"
  by (simp add: readLive_def split: option.split)

lemma cs_has_cap [simp]: "bm_max (cs_items (snd (cs_has t i s))) = bm_max (cs_items s)"
  by (simp add: cs_has_def case_prod_unfold Let_def)

lemma cs_list_cap [simp]: "bm_max (cs_items (snd (cs_list t s))) = bm_max (cs_items s)"
  by (simp add: cs_list_def cs_purgeExpired_def Let_def)

lemma putVerified_cap [simp]: "bm_max (cs_items (snd (putVerified c tr t m d s))) = bm_max (cs_items s)"
  by (simp add: putVerified_def cs_insert_def refreshUnvettedElevatedSnapshot_def Let_def split: option.split)

lemma rc_record_cap [simp]: "bm_max (rc_record t tr m c) = bm_max c"
  by (simp add: rc_record_def rc_has_def rc_get_def case_prod_unfold Let_def split: option.split)

lemma rc_list_cap [simp]: "bm_max (snd (rc_list t c)) = bm_max c"
  by (simp add: rc_list_def rc_purge_def Let_def)

lemma tryComplete_cap [simp]:
  "ca_maxEntries (snd (tryComplete c i m a)) = ca_maxEntries a"
  "ca_maxChunksPerEntry (snd (tryComplete c i m a)) = ca_maxChunksPerEntry a"
  by (simp_all add: tryComplete_def Let_def split: option.split)

lemma discard_cap [simp]:
  "ca_maxEntries (ca_discard i a) = ca_maxEntries a" "ca_maxChunksPerEntry (ca_discard i a) = ca_maxChunksPerEntry a"
  by (simp_all add: ca_discard_def)

lemma pc_record_cap [simp]:
  "bm_max (ch_messages (pc_record tr m c)) = bm_max (ch_messages c)"
  "maxMessagesPerChannel (pc_record tr m c) = maxMessagesPerChannel c"
  by (simp_all add: pc_record_def Let_def)

lemma content_registries_cap [simp]:
  "bm_max (drops_record tr d x) = bm_max x" "bm_max (beacons_record b y) = bm_max y" "bm_max (edd_record i p z) = bm_max z"
  by (simp_all add: drops_record_def beacons_record_def edd_record_def split: option.split)

section \<open>Conversations, registries and the gateway's queue\<close>

lemma mh_record_cap [simp]:
  "bm_max (conversations (mh_record t tr p d x h)) = bm_max (conversations h)"
  "maxMessagesPerPeer (mh_record t tr p d x h) = maxMessagesPerPeer h"
  by (simp_all add: mh_record_def Let_def)

lemma groups_cap [simp]:
  "bm_max (gs_groups (addGroup tr g s)) = bm_max (gs_groups s)" "maxMessagesPerGroup (addGroup tr g s) = maxMessagesPerGroup s"
  "bm_max (gs_groups (recordGroupMessage m s)) = bm_max (gs_groups s)"
  "maxMessagesPerGroup (recordGroupMessage m s) = maxMessagesPerGroup s"
  by (simp_all add: addGroup_def recordGroupMessage_def bm_write_def split: option.split)

lemma lr_record_cap [simp]: "bm_max (lr_reports (lr_record t tr i r l)) = bm_max (lr_reports l)"
  by (simp add: lr_record_def Let_def split: option.split)

lemma relays_cap [simp]:
  "bm_max (recordTelemetry t i tel r) = bm_max r" "bm_max (markOnline i t r) = bm_max r"
  "bm_max (markOffline i t r) = bm_max r" "bm_max (snd (rr_upsert t f r)) = bm_max r"
  by (simp_all add: recordTelemetry_def markOnline_def markOffline_def rr_upsert_def Let_def split: option.split)

lemma appends_cap [simp]: "bm_max (appends_record tr a s) = bm_max s"
  by (simp add: appends_record_def)

lemma sd_record_cap [simp]: "bm_max (sd_record tr a d) = bm_max d"
  by (simp add: sd_record_def Let_def split: option.split)

lemma deliveries_cap [simp]:
  "dq_maxEntries (dq_enqueue t p e q) = dq_maxEntries q" "dq_maxTotalBytes (dq_enqueue t p e q) = dq_maxTotalBytes q"
  "dq_maxEntries (snd (entriesDueForAttempt t q)) = dq_maxEntries q"
  "dq_maxTotalBytes (snd (entriesDueForAttempt t q)) = dq_maxTotalBytes q"
  "dq_maxEntries (dq_remove k q) = dq_maxEntries q" "dq_maxTotalBytes (dq_remove k q) = dq_maxTotalBytes q"
  by (simp_all add: dq_enqueue_def entriesDueForAttempt_def dq_remove_def Let_def)

end
