(* ===== verification/NodeMesh.thy ===== *)
theory NodeMesh
  imports Capacities
begin

text \<open>
  The packet plane of \<open>NomadNode\<close> (\<open>node/src/node.ts\<close>): sending to a peer, flooding with the
  routing table in front and the store-and-forward queue behind, the relay gate, the retry of
  queued deliveries, route announcements and withdrawals, and the exchange of identity
  announcements. \<open>mesh\<close> holds the fields of the class these methods touch; the later theories
  extend the record.

  Every method takes the record \<open>env\<close> (what the node is configured with and what it cannot compute
  itself: the clock, fresh identifiers, the outcome of each transmission, cryptography) and returns
  the new state. What a method sends and emits is appended to \<open>n_out\<close> in order. An \<open>async\<close> method is
  one step: its awaits wait for nothing but transmissions, whose outcomes \<open>en_reach\<close> gives.
\<close>

section \<open>Environment, effects and state\<close>

record external_destination =
  xd_url :: string
  xd_password :: "string option"

record env =
  en_nodeId :: string
  en_defaultTtl :: rat
  en_minTrustToRelay :: "trust_level option"
  en_minTrustForNodeAppend :: trust_level
  en_minTrustForRelayCommand :: trust_level
  en_ownAnnouncement :: identity_announcement
  en_allowlist :: "(string, external_destination) jsmap option"
  en_maxExternalBytes :: nat
  en_now :: time
  en_uuid :: "nat \<Rightarrow> string"
  en_reach :: "nat \<Rightarrow> string \<Rightarrow> bool"
  en_resources :: resource_state
  en_crypto :: content_env
  en_sign :: "jsval \<Rightarrow> string"
  en_sha256 :: "string \<Rightarrow> string"
  en_base64 :: "bytes \<Rightarrow> string"
  en_unbase64 :: "string \<Rightarrow> bytes"
  en_unhex :: "string \<Rightarrow> bytes"
  en_parseJson :: "bytes \<Rightarrow> jsval option"
  en_openPrivate :: "string \<Rightarrow> jsval \<Rightarrow> jsval option"
  en_sealPrivate :: "string \<Rightarrow> jsval \<Rightarrow> jsval"
  en_openGroup :: "bytes \<Rightarrow> group_packet \<Rightarrow> jsval option"
  en_handler :: "string \<Rightarrow> jsval \<Rightarrow> string \<Rightarrow> string + jsval"
  en_show :: "jsval \<Rightarrow> string"
  en_openBeacon :: "(encrypted_payload \<Rightarrow> jsval option) option"

abbreviation en_verify :: "env \<Rightarrow> verifier" where
  "en_verify env \<equiv> verifyWithNodeId (en_crypto env)"

datatype event =
    RateLimitExceeded string message_type
  | RelayDeniedByTrust string trust_level
  | RelayDeniedByPolicy string message_type
  | HandedOff "jsval packet"
  | QueuedForLater "jsval packet"
  | PeerConnected string
  | PeerDisconnected string
  | PingFrom string
  | PongFrom string
  | PeerListFrom "jsval list"
  | DataFrom "jsval packet"
  | AckFrom "jsval packet"
  | RoutingUpdated "string list"
  | IdentitySynced "string list"
  | ContentAnnounced content_metadata
  | CatalogSync "content_metadata list"
  | ServiceAnnounced string
  | PrivateMessage "jsval packet"
  | PrivateMessageFailed string
  | GroupMessageReceived group_message
  | GroupMessageFailed string
  | GroupInvited string string
  | LocationReported string
  | NodeAppendReceived node_append
  | NodeAppendRejected string
  | RelayTelemetryReported string
  | RelayCommandRejected string
  | RebootRequested string
  | ExternalDeliveryQueued string
  | ExternalDeliveryRejected string
  | ExternalDeliveryDelivered string
  | CallResolved string jsval
  | CallRejected string jsval

datatype effect = Transmit string "jsval packet" | Emit event | Answer nat "bytes option"

record mesh =
  n_peers :: "jsval peer_table"
  n_peerTransport :: "(string, nat) jsmap"
  n_connections :: "(string, int) jsmap"
  n_trust :: trust_manager
  n_seen :: seen_cache
  n_routing :: routing_table
  n_pending :: "jsval pending_queue"
  n_limiter :: rate_limiter
  n_policy :: relay_policy
  n_directory :: peer_directory
  n_next :: nat
  n_out :: "effect list"

definition emit :: "event \<Rightarrow> 'a mesh_scheme \<Rightarrow> 'a mesh_scheme" where
  "emit e n = n\<lparr>n_out := n_out n @ [Emit e]\<rparr>"

text \<open>The live ranking \<open>(id) => trustRank(this.trust.get(id))\<close> that the stores are built with.\<close>

definition live_rank_of :: "'a mesh_scheme \<Rightarrow> (string \<Rightarrow> jsnum) option" where
  "live_rank_of n = Some (\<lambda>i. trustRank (tm_get (n_trust n) i))"

section \<open>Sending\<close>

definition originate ::
  "env \<Rightarrow> message_type \<Rightarrow> jsval \<Rightarrow> string option \<Rightarrow> priority option \<Rightarrow> 'a mesh_scheme \<Rightarrow> jsval packet \<times> 'a mesh_scheme" where
  "originate env type payload destination prio n =
     (let packet = createPacket (en_uuid env (n_next n)) (en_now env) type (en_nodeId env) payload destination
                     (Some (en_defaultTtl env)) prio
      in (packet, n\<lparr>n_next := n_next n + 1, n_seen := markSeenId (en_now env) (pk_id packet) (n_seen n)\<rparr>))"

definition sendToPeer :: "env \<Rightarrow> string \<Rightarrow> jsval packet \<Rightarrow> 'a mesh_scheme \<Rightarrow> bool \<times> 'a mesh_scheme" where
  "sendToPeer env peerId packet n = (case map_of (n_peerTransport n) peerId of
     None \<Rightarrow> (False, n)
   | Some transport \<Rightarrow> (en_reach env (length (n_out n)) peerId, n\<lparr>n_out := n_out n @ [Transmit peerId packet]\<rparr>))"

fun send_all :: "env \<Rightarrow> string list \<Rightarrow> jsval packet \<Rightarrow> 'a mesh_scheme \<Rightarrow> bool \<times> 'a mesh_scheme" where
  "send_all env [] packet n = (False, n)"
| "send_all env (p # ps) packet n =
     (let (ok, n1) = sendToPeer env p packet n; (oks, n2) = send_all env ps packet n1 in (ok \<or> oks, n2))"

definition unicast_elsewhere :: "env \<Rightarrow> jsval packet \<Rightarrow> bool" where
  "unicast_elsewhere env packet \<longleftrightarrow>
     pk_destination packet \<noteq> JUndefined \<and> pk_destination packet \<noteq> JString (en_nodeId env)"

definition next_hop :: "env \<Rightarrow> jsval packet \<Rightarrow> string option \<Rightarrow> 'a mesh_scheme \<Rightarrow> string option" where
  "next_hop env packet exceptPeerId n =
     (if unicast_elsewhere env packet
      then (case Option.bind (as_string (pk_destination packet)) (bestRoute (n_routing n)) of
          Some route \<Rightarrow> if Some (nextHop route) \<noteq> exceptPeerId then Some (nextHop route) else None
        | None \<Rightarrow> None)
      else None)"

definition send_direct :: "env \<Rightarrow> jsval packet \<Rightarrow> string option \<Rightarrow> 'a mesh_scheme \<Rightarrow> bool \<times> 'a mesh_scheme" where
  "send_direct env packet exceptPeerId n = (case next_hop env packet exceptPeerId n of
     Some hop \<Rightarrow> sendToPeer env hop packet n | None \<Rightarrow> (False, n))"

definition send_around :: "env \<Rightarrow> jsval packet \<Rightarrow> string option \<Rightarrow> 'a mesh_scheme \<Rightarrow> bool \<times> 'a mesh_scheme" where
  "send_around env packet exceptPeerId n =
     send_all env (filter (\<lambda>p. Some p \<noteq> exceptPeerId) (pt_list (n_peers n))) packet n"

definition floodExcept :: "env \<Rightarrow> jsval packet \<Rightarrow> string option \<Rightarrow> 'a mesh_scheme \<Rightarrow> bool \<times> 'a mesh_scheme" where
  "floodExcept env packet exceptPeerId n =
     (let (handed, n1) = send_direct env packet exceptPeerId n
      in if handed then (True, emit (HandedOff packet) n1)
      else let (delivered, n2) = send_around env packet exceptPeerId n1
           in if \<not> unicast_elsewhere env packet then (delivered, n2)
              else if delivered then (True, emit (HandedOff packet) n2)
              else (False, emit (QueuedForLater packet)
                     (n2\<lparr>n_pending := pdq_enqueue (en_now env) packet exceptPeerId (n_pending n2)\<rparr>)))"

abbreviation flood :: "env \<Rightarrow> jsval packet \<Rightarrow> 'a mesh_scheme \<Rightarrow> 'a mesh_scheme" where
  "flood env packet n \<equiv> snd (floodExcept env packet None n)"

definition originate_and_flood ::
  "env \<Rightarrow> message_type \<Rightarrow> jsval \<Rightarrow> string option \<Rightarrow> priority option \<Rightarrow> 'a mesh_scheme \<Rightarrow> 'a mesh_scheme" where
  "originate_and_flood env type payload destination prio n =
     (let (packet, n1) = originate env type payload destination prio n in flood env packet n1)"

definition originate_and_send ::
  "env \<Rightarrow> message_type \<Rightarrow> jsval \<Rightarrow> string \<Rightarrow> string \<Rightarrow> 'a mesh_scheme \<Rightarrow> 'a mesh_scheme" where
  "originate_and_send env type payload destination peerId n =
     (let (packet, n1) = originate env type payload (Some destination) (Some CONTROL) n in snd (sendToPeer env peerId packet n1))"

section \<open>The relay gate and the retry of queued deliveries\<close>

datatype relay_gate = GateTrust | GatePolicy | GateOk

definition relayGateFor :: "env \<Rightarrow> string \<Rightarrow> 'a mesh_scheme \<Rightarrow> relay_gate" where
  "relayGateFor env peerId n =
     (if (case en_minTrustToRelay env of Some l \<Rightarrow> \<not> meetsTrustLevel (tm_get (n_trust n) peerId) l | None \<Rightarrow> False) then GateTrust
      else if \<not> canRelayNow (n_policy n) (en_resources env) then GatePolicy
      else GateOk)"

definition emitRelayGateDenied :: "relay_gate \<Rightarrow> string \<Rightarrow> message_type \<Rightarrow> 'a mesh_scheme \<Rightarrow> 'a mesh_scheme" where
  "emitRelayGateDenied gate peerId packetType n =
     (if gate = GateTrust then emit (RelayDeniedByTrust peerId (tm_get (n_trust n) peerId)) n
      else emit (RelayDeniedByPolicy peerId packetType) n)"

definition retry_delivery :: "env \<Rightarrow> jsval delivery \<Rightarrow> 'a mesh_scheme \<Rightarrow> 'a mesh_scheme" where
  "retry_delivery env d n = (case dl_except d of
     Some peerId \<Rightarrow>
       let gate = relayGateFor env peerId n in
       if gate \<noteq> GateOk
       then emitRelayGateDenied gate peerId (pk_type (dl_packet d))
              (n\<lparr>n_pending := pdq_requeue (en_now env) d (n_pending n)\<rparr>)
       else snd (floodExcept env (dl_packet d) (dl_except d) n)
   | None \<Rightarrow> snd (floodExcept env (dl_packet d) None n))"

definition flushPendingDeliveries :: "env \<Rightarrow> 'a mesh_scheme \<Rightarrow> 'a mesh_scheme" where
  "flushPendingDeliveries env n =
     (let (ds, q) = pdq_drain (en_now env) (n_pending n)
      in foldl (\<lambda>n d. retry_delivery env d n) (n\<lparr>n_pending := q\<rparr>) ds)"

section \<open>Routes\<close>

definition route_json :: "string \<Rightarrow> jsval \<Rightarrow> jsval" where
  "route_json destination c = JObject [(''destination'', JString destination), (''cost'', c)]"

definition announceRoutes :: "env \<Rightarrow> string \<Rightarrow> string list option \<Rightarrow> 'a mesh_scheme \<Rightarrow> 'a mesh_scheme" where
  "announceRoutes env peerId destinations n =
     (let wanted = (\<lambda>d. case destinations of None \<Rightarrow> True | Some ds \<Rightarrow> d \<in> set ds);
          known = map (\<lambda>(d, hop, c). route_json d (JNumber (Num c)))
                    (filter (\<lambda>(d, hop, c). hop \<noteq> peerId \<and> d \<noteq> peerId \<and> wanted d) (rt_list (n_routing n)));
          all = (if wanted (en_nodeId env) then route_json (en_nodeId env) (JNumber (Num 0)) # known else known)
      in if all = [] then n
         else originate_and_send env ROUTE_ANNOUNCE (JObject [(''routes'', JArray all)]) peerId peerId n)"

definition broadcastWithdrawal :: "env \<Rightarrow> string list \<Rightarrow> string \<Rightarrow> 'a mesh_scheme \<Rightarrow> 'a mesh_scheme" where
  "broadcastWithdrawal env destinations exceptPeerId n =
     foldl (\<lambda>n p. originate_and_send env ROUTE_ANNOUNCE
              (JObject [(''routes'', JArray (map (\<lambda>d. route_json d JNull) destinations))]) p p n)
       n (filter (\<lambda>p. p \<noteq> exceptPeerId) (pt_list (n_peers n)))"

definition MAX_ROUTES_PER_ANNOUNCE :: nat where "MAX_ROUTES_PER_ANNOUNCE = 512"

text \<open>One entry of a received announcement: what it does to the table, and whether it counts as changed or
  as withdrawn.\<close>

datatype route_change = Unchanged | Changed string | Withdrawn string

definition apply_route :: "env \<Rightarrow> string \<Rightarrow> jsval \<Rightarrow> 'a mesh_scheme \<Rightarrow> route_change \<times> 'a mesh_scheme" where
  "apply_route env fromPeerId entry n = (case jfield entry ''destination'' of
     JString d \<Rightarrow>
       (if d = en_nodeId env then (Unchanged, n)
        else case jfield entry ''cost'' of
          JNull \<Rightarrow> (let (gone, t) = withdraw d fromPeerId (n_routing n)
                    in (if gone then Withdrawn d else Unchanged, n\<lparr>n_routing := t\<rparr>))
        | JNumber c \<Rightarrow> (let (better, t) = offer (live_rank_of n) d fromPeerId (num_add c 1) (n_routing n)
                    in (if better then Changed d else Unchanged, n\<lparr>n_routing := t\<rparr>))
        | _ \<Rightarrow> (Unchanged, n))
   | _ \<Rightarrow> (Unchanged, n))"

fun apply_routes :: "env \<Rightarrow> string \<Rightarrow> jsval list \<Rightarrow> 'a mesh_scheme \<Rightarrow> route_change list \<times> 'a mesh_scheme" where
  "apply_routes env from [] n = ([], n)"
| "apply_routes env from (e # es) n =
     (let (c, n1) = apply_route env from e n; (cs, n2) = apply_routes env from es n1 in (c # cs, n2))"

fun changed_of :: "route_change \<Rightarrow> string list" where
  "changed_of (Changed d) = [d]" | "changed_of c = []"

fun withdrawn_of :: "route_change \<Rightarrow> string list" where
  "withdrawn_of (Withdrawn d) = [d]" | "withdrawn_of c = []"

fun array_of :: "jsval \<Rightarrow> jsval list" where
  "array_of (JArray vs) = vs" | "array_of v = []"

definition announce_to_others :: "env \<Rightarrow> string \<Rightarrow> string list \<Rightarrow> 'a mesh_scheme \<Rightarrow> 'a mesh_scheme" where
  "announce_to_others env exceptPeerId destinations n =
     foldl (\<lambda>n p. announceRoutes env p (Some destinations) n) n (filter (\<lambda>p. p \<noteq> exceptPeerId) (pt_list (n_peers n)))"

definition handleRouteAnnounce :: "env \<Rightarrow> jsval packet \<Rightarrow> string \<Rightarrow> 'a mesh_scheme \<Rightarrow> 'a mesh_scheme" where
  "handleRouteAnnounce env packet fromPeerId n =
     (let entries = take MAX_ROUTES_PER_ANNOUNCE (array_of (jfield (pk_payload packet) ''routes''));
          (cs, n1) = apply_routes env fromPeerId entries n;
          changed = concat (map changed_of cs); gone = concat (map withdrawn_of cs);
          n2 = (if changed \<noteq> [] then announce_to_others env fromPeerId changed (emit (RoutingUpdated changed) n1) else n1)
      in if gone \<noteq> [] then broadcastWithdrawal env gone fromPeerId n2 else n2)"

section \<open>Identity announcements\<close>

text \<open>A wire announcement whose four fields have the types of \<open>IdentityAnnouncement\<close>. A \<open>deviceClass\<close> of
  another type fails a check of its own in the code; the other fields it leaves to the signature, which a sender can make over an \<open>encryptionPublicKey\<close> of any type, and whose
  bytes and whose key an array spells as well as a string. Such announcements are outside the model and treated as malformed.\<close>

definition announcement_of :: "jsval \<Rightarrow> identity_announcement option" where
  "announcement_of v = do {
     nodeId \<leftarrow> as_string (jfield v ''nodeId'');
     key \<leftarrow> as_string (jfield v ''encryptionPublicKey'');
     deviceClass \<leftarrow> optional as_string (jfield v ''deviceClass'');
     signature \<leftarrow> as_string (jfield v ''signature'');
     Some \<lparr>ia_nodeId = nodeId, ia_encryptionPublicKey = key, ia_deviceClass = deviceClass, ia_signature = signature\<rparr> }"

definition announcement_json :: "identity_announcement \<Rightarrow> jsval" where
  "announcement_json a = json_object
     [(''nodeId'', JString (ia_nodeId a)), (''encryptionPublicKey'', JString (ia_encryptionPublicKey a)),
      (''deviceClass'', opt_str (ia_deviceClass a)), (''signature'', JString (ia_signature a))]"

definition acceptIdentityAnnouncement :: "env \<Rightarrow> jsval \<Rightarrow> 'a mesh_scheme \<Rightarrow> bool \<times> 'a mesh_scheme" where
  "acceptIdentityAnnouncement env v n = (case announcement_of v of
     None \<Rightarrow> (False, n)
   | Some a \<Rightarrow>
       if ia_nodeId a = en_nodeId env then (False, n)
       else if ia_deviceClass a \<noteq> None \<and> \<not> isValidDeviceClass (opt_str (ia_deviceClass a)) then (False, n)
       else if \<not> verifyIdentityAnnouncement (en_verify env) a then (False, n)
       else
         let (recorded, d) = pd_record (live_rank_of n) a (n_directory n) in
         if \<not> recorded then (False, n)
         else (True, n\<lparr>n_directory := d, n_trust := markVerified (ia_nodeId a) (n_trust n)\<rparr>))"

fun accept_announcements :: "env \<Rightarrow> jsval list \<Rightarrow> 'a mesh_scheme \<Rightarrow> string list \<times> 'a mesh_scheme" where
  "accept_announcements env [] n = ([], n)"
| "accept_announcements env (v # vs) n =
     (let (ok, n1) = acceptIdentityAnnouncement env v n; (ids, n2) = accept_announcements env vs n1
      in (case (ok, jfield v ''nodeId'') of (True, JString i) \<Rightarrow> i # ids | _ \<Rightarrow> ids, n2))"

definition handleIdentityRequest :: "env \<Rightarrow> jsval packet \<Rightarrow> string \<Rightarrow> 'a mesh_scheme \<Rightarrow> 'a mesh_scheme" where
  "handleIdentityRequest env packet fromPeerId n =
     (let known = set (array_of (jfield (pk_payload packet) ''knownNodeIds''));
          new = filter (\<lambda>a. JString (ia_nodeId a) \<notin> known) (pd_list (n_directory n)) @
                (if JString (en_nodeId env) \<notin> known then [en_ownAnnouncement env] else [])
      in if new = [] then n
         else originate_and_send env IDENTITY_RESPONSE
                (JObject [(''announcements'', JArray (map announcement_json new))]) (pk_source packet) fromPeerId n)"

definition handleIdentityResponse :: "env \<Rightarrow> jsval packet \<Rightarrow> 'a mesh_scheme \<Rightarrow> 'a mesh_scheme" where
  "handleIdentityResponse env packet n =
     (let (accepted, n1) = accept_announcements env (array_of (jfield (pk_payload packet) ''announcements'')) n
      in if accepted \<noteq> [] then emit (IdentitySynced accepted) n1 else n1)"

definition startIdentitySync :: "env \<Rightarrow> string \<Rightarrow> 'a mesh_scheme \<Rightarrow> 'a mesh_scheme" where
  "startIdentitySync env peerId n = originate_and_send env IDENTITY_REQUEST
     (JObject [(''knownNodeIds'', JArray (map JString (en_nodeId env # map ia_nodeId (pd_list (n_directory n)))))])
     peerId peerId n"

section \<open>What sending leaves alone\<close>

text \<open>A property of the node that survives the bookkeeping of sending (effects, fresh identifiers, the
  duplicate cache, the queue of undelivered packets) survives every method that only sends.\<close>

locale mesh_observation =
  fixes P :: "'a mesh_scheme \<Rightarrow> bool"
  assumes on_out: "P n \<Longrightarrow> P (n\<lparr>n_out := es\<rparr>)"
    and on_next: "P n \<Longrightarrow> P (n\<lparr>n_next := k\<rparr>)"
    and on_seen: "P n \<Longrightarrow> P (n\<lparr>n_seen := markSeenId t i (n_seen n)\<rparr>)"
    and on_enqueue: "P n \<Longrightarrow> P (n\<lparr>n_pending := pdq_enqueue t p ex (n_pending n)\<rparr>)"
    and on_requeue: "P n \<Longrightarrow> delivery_ok d \<Longrightarrow> P (n\<lparr>n_pending := pdq_requeue t d (n_pending n)\<rparr>)"
    and on_drain: "P n \<Longrightarrow> P (n\<lparr>n_pending := snd (pdq_drain t (n_pending n))\<rparr>)"
begin

lemma emit_P: "P n \<Longrightarrow> P (emit e n)"
  by (simp add: emit_def on_out)

lemma sendToPeer_P: "P n \<Longrightarrow> P (snd (sendToPeer env p pk n))"
  by (simp add: sendToPeer_def on_out split: option.splits)

lemma send_all_P: "P n \<Longrightarrow> P (snd (send_all env ps pk n))"
proof (induction ps arbitrary: n)
  case (Cons p ps)
  from Cons.IH[OF sendToPeer_P[OF Cons.prems]] show ?case by (simp add: case_prod_unfold Let_def)
qed simp

lemma originate_P: "P n \<Longrightarrow> P (snd (originate env ty pl d pr n))"
proof -
  assume p: "P n"
  let ?k = "n_next n + 1"
  from on_seen[OF on_next[OF p, of ?k], of "en_now env" "en_uuid env (n_next n)"]
  show ?thesis by (simp add: originate_def Let_def createPacket_def)
qed

lemma direct_P: "P n \<Longrightarrow> P (snd (send_direct env pk ex n))"
  by (simp add: send_direct_def sendToPeer_P split: option.split)

lemma around_P: "P n \<Longrightarrow> P (snd (send_around env pk ex n))"
  by (simp add: send_around_def send_all_P)

lemma flood_P: "P n \<Longrightarrow> P (snd (floodExcept env pk ex n))"
  by (simp add: floodExcept_def case_prod_unfold Let_def emit_P on_enqueue direct_P around_P)

lemma originate_and_flood_P: "P n \<Longrightarrow> P (originate_and_flood env ty pl d pr n)"
  by (simp add: originate_and_flood_def case_prod_unfold Let_def flood_P originate_P)

lemma originate_and_send_P: "P n \<Longrightarrow> P (originate_and_send env ty pl d p n)"
  by (simp add: originate_and_send_def case_prod_unfold Let_def sendToPeer_P originate_P)

lemma foldl_P: "P n \<Longrightarrow> (\<And>n x. P n \<Longrightarrow> x \<in> set xs \<Longrightarrow> P (f n x)) \<Longrightarrow> P (foldl f n xs)"
  by (induction xs arbitrary: n) auto

lemma announceRoutes_P: "P n \<Longrightarrow> P (announceRoutes env p ds n)"
  by (simp add: announceRoutes_def Let_def originate_and_send_P)

lemma broadcastWithdrawal_P: "P n \<Longrightarrow> P (broadcastWithdrawal env ds p n)"
  by (simp add: broadcastWithdrawal_def foldl_P originate_and_send_P)

lemma announce_to_others_P: "P n \<Longrightarrow> P (announce_to_others env p ds n)"
  by (simp add: announce_to_others_def foldl_P announceRoutes_P)

lemma gate_denied_P: "P n \<Longrightarrow> P (emitRelayGateDenied g p t n)"
  by (simp add: emitRelayGateDenied_def emit_P)

lemma retry_P: "P n \<Longrightarrow> delivery_ok d \<Longrightarrow> P (retry_delivery env d n)"
  by (auto simp: retry_delivery_def Let_def flood_P gate_denied_P on_requeue split: option.splits)

lemma flush_P:
  assumes "P n" and "pdq_ok (n_pending n)"
  shows "P (flushPendingDeliveries env n)"
proof -
  have "delivery_ok d" if "d \<in> set (fst (pdq_drain (en_now env) (n_pending n)))" for d
    using that assms(2) pdq_values_get[OF assms(2)] by (auto simp: pdq_drain_def pdq_ok_def)
  then show ?thesis
    using on_drain[OF assms(1), of "en_now env"]
    by (auto simp: flushPendingDeliveries_def case_prod_unfold Let_def intro!: foldl_P retry_P)
qed

lemma identity_request_P: "P n \<Longrightarrow> P (handleIdentityRequest env pk p n)"
  by (simp add: handleIdentityRequest_def Let_def originate_and_send_P)

lemma identity_sync_P: "P n \<Longrightarrow> P (startIdentitySync env p n)"
  by (simp add: startIdentitySync_def originate_and_send_P)

lemmas sending_P = emit_P sendToPeer_P originate_P flood_P originate_and_flood_P originate_and_send_P
  announceRoutes_P broadcastWithdrawal_P announce_to_others_P gate_denied_P identity_request_P identity_sync_P

end

definition mesh_view :: "'a mesh_scheme \<Rightarrow> jsval peer_table \<times> (string, nat) jsmap \<times> (string, int) jsmap \<times>
    trust_manager \<times> routing_table \<times> rate_limiter \<times> relay_policy \<times> peer_directory" where
  "mesh_view n = (n_peers n, n_peerTransport n, n_connections n, n_trust n, n_routing n, n_limiter n, n_policy n, n_directory n)"

interpretation frame: mesh_observation "\<lambda>n. mesh_view n = v" for v
  by unfold_locales (simp_all add: mesh_view_def)

lemma frame_fields:
  assumes "mesh_view n' = mesh_view n"
  shows "n_peers n' = n_peers n" "n_peerTransport n' = n_peerTransport n" "n_connections n' = n_connections n"
    "n_trust n' = n_trust n" "n_routing n' = n_routing n" "n_limiter n' = n_limiter n" "n_policy n' = n_policy n"
    "n_directory n' = n_directory n"
  using assms by (simp_all add: mesh_view_def)

lemmas frame_emit [simp] = frame_fields[OF frame.emit_P[OF refl]]
lemmas frame_send [simp] = frame_fields[OF frame.sendToPeer_P[OF refl]]
lemmas frame_send_all [simp] = frame_fields[OF frame.send_all_P[OF refl]]
lemmas frame_originate [simp] = frame_fields[OF frame.originate_P[OF refl]]
lemmas frame_flood [simp] = frame_fields[OF frame.flood_P[OF refl]]
lemmas frame_originate_flood [simp] = frame_fields[OF frame.originate_and_flood_P[OF refl]]
lemmas frame_originate_send [simp] = frame_fields[OF frame.originate_and_send_P[OF refl]]
lemmas frame_announce [simp] = frame_fields[OF frame.announceRoutes_P[OF refl]]
lemmas frame_withdrawal [simp] = frame_fields[OF frame.broadcastWithdrawal_P[OF refl]]
lemmas frame_others [simp] = frame_fields[OF frame.announce_to_others_P[OF refl]]
lemmas frame_denied [simp] = frame_fields[OF frame.gate_denied_P[OF refl]]

section \<open>Invariant of the packet plane\<close>

text \<open>A signed statement on the wire: who is said to have signed it, the signed payload and the signature.\<close>

type_synonym statement = "string \<times> jsval \<times> string"

definition identity_statements :: "jsval \<Rightarrow> statement list" where
  "identity_statements v = (case announcement_of v of
     None \<Rightarrow> []
   | Some a \<Rightarrow> [(ia_nodeId a, identityAnnouncementPayload (ia_nodeId a) (ia_encryptionPublicKey a) (ia_deviceClass a), ia_signature a)])"

text \<open>What the invariant is relative to: the ids that may be trusted above SEEN, the metadata that providers have offered in
  answer to queries, and the limits of the stores (of the packet plane, of the content plane, of the rest).\<close>

record ledger =
  lg_trusted :: "string set"
  lg_found :: "content_metadata set"
  lg_mesh :: "jsnum list"
  lg_content :: "jsnum list"
  lg_node :: "jsnum list"

text \<open>\<open>heard vf B ss\<close>: whoever signed one of the statements \<open>ss\<close> may be trusted above SEEN.\<close>

definition heard :: "verifier \<Rightarrow> ledger \<Rightarrow> statement list \<Rightarrow> bool" where
  "heard vf B ss \<longleftrightarrow> (\<forall>(i, payload, signature) \<in> set ss. verified vf i payload signature \<longrightarrow> i \<in> lg_trusted B)"

lemma heard_simps [simp]: "heard vf B []" "heard vf B (ss @ ts) \<longleftrightarrow> heard vf B ss \<and> heard vf B ts"
  by (simp_all add: heard_def ball_Un)

lemma heard_concat: "heard vf B (concat (map f vs)) \<longleftrightarrow> (\<forall>v \<in> set vs. heard vf B (f v))"
  by (induction vs) simp_all

definition trust_earned :: "ledger \<Rightarrow> trust_manager \<Rightarrow> bool" where
  "trust_earned B t \<longleftrightarrow> (\<forall>i. VERIFIED \<le> tm_get t i \<longrightarrow> i \<in> lg_trusted B)"

definition mesh_caps :: "'a mesh_scheme \<Rightarrow> jsnum list" where
  "mesh_caps n = [tm_maxSize (n_trust n), bm_max (n_seen n), bm_max (routes (n_routing n)), bm_max (pq_entries (n_pending n)),
     bm_max (windows (n_limiter n)), bm_max (n_directory n)]"

definition mesh_ok :: "verifier \<Rightarrow> ledger \<Rightarrow> 'a mesh_scheme \<Rightarrow> bool" where
  "mesh_ok vf B n \<longleftrightarrow> tm_ok (n_trust n) \<and> trust_earned B (n_trust n) \<and> bm_ok (n_seen n) \<and> rt_ok (n_routing n) \<and>
     pdq_ok (n_pending n) \<and> rl_ok (n_limiter n) \<and> pd_ok vf (n_directory n) \<and> mesh_caps n = lg_mesh B"

interpretation sound: mesh_observation "mesh_ok vf B" for vf B
  by unfold_locales (auto simp: mesh_ok_def mesh_caps_def pdq_enqueue_ok pdq_requeue_ok pdq_drain_ok)

lemma mesh_ok_pending: "mesh_ok vf B n \<Longrightarrow> pdq_ok (n_pending n)"
  by (simp add: mesh_ok_def)

lemma ensure_level: "l \<le> tm_get (ensureCapacityFor i t) j \<Longrightarrow> l = UNKNOWN \<or> l \<le> tm_get t j"
  by (auto simp: ensure_get less_eq_trust_level_def split: if_splits)

lemma earned_mark:
  assumes "trust_earned B t" and "i \<in> lg_trusted B"
  shows "trust_earned B (markVerified i t)"
  unfolding trust_earned_def
proof (intro allI impI)
  fix j assume j: "VERIFIED \<le> tm_get (markVerified i t) j"
  show "j \<in> lg_trusted B"
  proof (cases "j = i")
    case False
    with j ensure_level[of VERIFIED i t j] assms(1) show ?thesis
      by (auto simp: markVerified_def raise_get trust_earned_def)
  qed (use assms(2) in simp)
qed

lemma earned_seen:
  assumes "trust_earned B t"
  shows "trust_earned B (markSeen i t)"
  unfolding trust_earned_def
proof (intro allI impI)
  fix j assume j: "VERIFIED \<le> tm_get (markSeen i t) j"
  have "\<not> VERIFIED \<le> SEEN" by (simp add: less_eq_trust_level_def)
  then have "VERIFIED \<le> tm_get t j" using j ensure_level[of VERIFIED i t j]
    by (auto simp: markSeen_def raise_get max_def split: if_splits)
  with assms show "j \<in> lg_trusted B" by (simp add: trust_earned_def)
qed

lemma apply_route_ok: "mesh_ok vf B n \<Longrightarrow> mesh_ok vf B (snd (apply_route env p e n))"
  by (simp add: apply_route_def case_prod_unfold Let_def mesh_ok_def mesh_caps_def offer_ok withdraw_ok split: jsval.splits)

lemma apply_routes_ok: "mesh_ok vf B n \<Longrightarrow> mesh_ok vf B (snd (apply_routes env p es n))"
proof (induction es arbitrary: n)
  case (Cons e es)
  from Cons.IH[OF apply_route_ok[OF Cons.prems]] show ?case by (simp add: case_prod_unfold Let_def)
qed simp

lemma handleRouteAnnounce_ok: "mesh_ok vf B n \<Longrightarrow> mesh_ok vf B (handleRouteAnnounce env pk p n)"
  by (simp add: handleRouteAnnounce_def case_prod_unfold Let_def sound.sending_P apply_routes_ok)

lemma identity_heard:
  "heard vf B (identity_statements v) \<Longrightarrow> announcement_of v = Some a \<Longrightarrow> verifyIdentityAnnouncement vf a \<Longrightarrow> ia_nodeId a \<in> lg_trusted B"
  by (simp add: heard_def identity_statements_def verifyIdentityAnnouncement_def)

lemma acceptIdentity_ok:
  "mesh_ok (en_verify env) B n \<Longrightarrow> heard (en_verify env) B (identity_statements v) \<Longrightarrow>
     mesh_ok (en_verify env) B (snd (acceptIdentityAnnouncement env v n))"
  by (auto simp: acceptIdentityAnnouncement_def case_prod_unfold Let_def mesh_ok_def mesh_caps_def markVerified_ok pd_record_ok
      identity_heard split: option.splits intro!: earned_mark)

section \<open>A sample node\<close>

text \<open>Concrete configuration and state for the witnesses: signatures are good when they say so, every peer is
  reachable, hashing counts the bytes.\<close>

definition sample_crypto :: content_env where
  "sample_crypto = \<lparr>computeContentId = \<lambda>d. replicate (length d) CHR ''h'', verifyWithNodeId = \<lambda>_ _ s. Some (s = ''good''),
     zstdCompress = id, zstdDecompress = \<lambda>d _. Some d\<rparr>"

definition sample_env :: env where
  "sample_env = \<lparr>en_nodeId = ''me'', en_defaultTtl = 8, en_minTrustToRelay = Some VERIFIED, en_minTrustForNodeAppend = TRUSTED,
     en_minTrustForRelayCommand = TRUSTED,
     en_ownAnnouncement = \<lparr>ia_nodeId = ''me'', ia_encryptionPublicKey = ''key'', ia_deviceClass = None, ia_signature = ''good''\<rparr>,
     en_allowlist = Some [(''hook'', \<lparr>xd_url = ''https://hook'', xd_password = None\<rparr>)], en_maxExternalBytes = 1024, en_now = 0,
     en_uuid = \<lambda>k. replicate k CHR ''u'', en_reach = \<lambda>_ _. True, en_resources = \<lparr>batteryPercent = None, charging = None\<rparr>,
     en_crypto = sample_crypto, en_sign = \<lambda>_. ''good'', en_sha256 = id, en_base64 = \<lambda>d. replicate (length d) CHR ''b'',
     en_unbase64 = map (\<lambda>_. 7), en_unhex = map (\<lambda>_. 7), en_parseJson = \<lambda>_. None, en_openPrivate = \<lambda>_ _. None,
     en_sealPrivate = \<lambda>_ v. v, en_openGroup = \<lambda>_ _. None, en_handler = \<lambda>_ _ _. Inl ''none'', en_show = \<lambda>_. [],
     en_openBeacon = None\<rparr>"

definition sample_mesh :: mesh where
  "sample_mesh = \<lparr>n_peers = [(''ann'', \<lparr>pi_address = None, pi_connectedAt = 0, pi_lastSeen = 0\<rparr>)],
     n_peerTransport = [(''ann'', 0)], n_connections = [(''ann'', 1)], n_trust = tm_new None, n_seen = seen_new None,
     n_routing = rt_new None None, n_pending = pdq_new None None, n_limiter = rl_new None None None,
     n_policy = rp_new None None, n_directory = pd_new None, n_next = 0, n_out = []\<rparr>"

definition sample_packet :: "message_type \<Rightarrow> jsval \<Rightarrow> string option \<Rightarrow> jsval packet" where
  "sample_packet t v d = createPacket ''p'' 0 t ''ann'' v d None None"

section \<open>Properties\<close>

text \<open>The packets a method transmitted, with the peer each went to.\<close>

definition transmitted :: "effect list \<Rightarrow> (string \<times> jsval packet) list" where
  "transmitted es = concat (map (\<lambda>e. case e of Transmit p pk \<Rightarrow> [(p, pk)] | _ \<Rightarrow> []) es)"

lemma transmitted_simps [simp]:
  "transmitted [] = []" "transmitted (es @ fs) = transmitted es @ transmitted fs"
  "transmitted [Transmit p pk] = [(p, pk)]" "transmitted [Emit e] = []"
  by (simp_all add: transmitted_def)

lemma emit_out [simp]: "n_out (emit e n) = n_out n @ [Emit e]"
  by (simp add: emit_def)

lemma emit_pending [simp]: "n_pending (emit e n) = n_pending n"
  by (simp add: emit_def)

lemma send_out: "transmitted (n_out (snd (sendToPeer env p pk n))) =
    transmitted (n_out n) @ (if map_of (n_peerTransport n) p = None then [] else [(p, pk)])"
  by (simp add: sendToPeer_def split: option.splits)

lemma send_pending [simp]: "n_pending (snd (sendToPeer env p pk n)) = n_pending n"
  by (simp add: sendToPeer_def split: option.splits)

lemma send_connected: "fst (sendToPeer env p pk n) \<Longrightarrow> map_of (n_peerTransport n) p \<noteq> None"
  by (simp add: sendToPeer_def split: option.splits)

lemma send_all_out: "transmitted (n_out (snd (send_all env ps pk n))) =
    transmitted (n_out n) @ map (\<lambda>p. (p, pk)) (filter (\<lambda>p. map_of (n_peerTransport n) p \<noteq> None) ps)"
  by (induction ps arbitrary: n) (simp_all add: case_prod_unfold Let_def send_out)

lemma send_all_pending [simp]: "n_pending (snd (send_all env ps pk n)) = n_pending n"
  by (induction ps arbitrary: n) (simp_all add: case_prod_unfold Let_def)

lemma send_all_some: "fst (send_all env ps pk n) \<Longrightarrow> \<exists>p \<in> set ps. map_of (n_peerTransport n) p \<noteq> None"
proof (induction ps arbitrary: n)
  case (Cons p ps)
  show ?case
  proof (cases "fst (sendToPeer env p pk n)")
    case True
    from send_connected[OF this] show ?thesis by auto
  next
    case False
    with Cons.prems have "fst (send_all env ps pk (snd (sendToPeer env p pk n)))"
      by (simp add: case_prod_unfold Let_def)
    from Cons.IH[OF this] show ?thesis by auto
  qed
qed simp

lemmas frame_direct [simp] = frame_fields[OF frame.direct_P[OF refl]]

text \<open>What each of the two attempts of \<open>floodExcept\<close> transmits.\<close>

definition direct_attempt :: "env \<Rightarrow> jsval packet \<Rightarrow> string option \<Rightarrow> 'a mesh_scheme \<Rightarrow> (string \<times> jsval packet) list" where
  "direct_attempt env pk ex n = (case next_hop env pk ex n of
     Some hop \<Rightarrow> if map_of (n_peerTransport n) hop = None then [] else [(hop, pk)] | None \<Rightarrow> [])"

definition flood_targets :: "string option \<Rightarrow> 'a mesh_scheme \<Rightarrow> string list" where
  "flood_targets ex n = filter (\<lambda>p. Some p \<noteq> ex \<and> map_of (n_peerTransport n) p \<noteq> None) (pt_list (n_peers n))"

lemma direct_out: "transmitted (n_out (snd (send_direct env pk ex n))) = transmitted (n_out n) @ direct_attempt env pk ex n"
  by (simp add: send_direct_def direct_attempt_def send_out split: option.split)

lemma around_out: "transmitted (n_out (snd (send_around env pk ex n))) = transmitted (n_out n) @ map (\<lambda>p. (p, pk)) (flood_targets ex n)"
  by (simp add: send_around_def flood_targets_def send_all_out filter_filter conj_commute)

lemma attempt_pending [simp]: "n_pending (snd (send_direct env pk ex n)) = n_pending n" "n_pending (snd (send_around env pk ex n)) = n_pending n"
  by (simp_all add: send_direct_def send_around_def split: option.split)

lemma direct_some: "fst (send_direct env pk ex n) \<Longrightarrow> direct_attempt env pk ex n \<noteq> []"
  by (auto simp: send_direct_def direct_attempt_def dest: send_connected split: option.splits)

lemma around_some: "fst (send_around env pk ex n) \<Longrightarrow> flood_targets ex n \<noteq> []"
  by (auto simp: send_around_def flood_targets_def filter_empty_conv dest!: send_all_some)

lemma flood_targets_direct [simp]: "flood_targets ex (snd (send_direct env pk ex' n)) = flood_targets ex n"
  by (simp add: flood_targets_def)

lemma direct_unicast: "fst (send_direct env pk ex n) \<Longrightarrow> unicast_elsewhere env pk"
  by (auto simp: send_direct_def next_hop_def split: option.splits if_splits)

text \<open>C6: Sending one packet onward. Every transmission that floodExcept makes carries the packet unchanged, goes
  to a peer there is a transport for, which is either a known peer or the next hop of the routing table, and
  never goes back to the peer the packet came from. A packet addressed to another node is never silently lost:
  either the method reports delivery and at least one transmission was made, or the packet is handed to the
  store-and-forward queue together with the peer to avoid; a packet for everyone, or for this node, is never
  queued.\<close>

theorem flood_outcome:
  "\<exists>ok n' sent. floodExcept env pk ex n = (ok, n') \<and>
      transmitted (n_out n') = transmitted (n_out n) @ sent \<and>
      (\<forall>(p, q) \<in> set sent. q = pk \<and> Some p \<noteq> ex \<and> map_of (n_peerTransport n) p \<noteq> None \<and>
         (p \<in> set (pt_list (n_peers n)) \<or> next_hop env pk ex n = Some p)) \<and>
      (ok \<longrightarrow> sent \<noteq> [] \<and> n_pending n' = n_pending n) \<and>
      (\<not> ok \<longrightarrow> n_pending n' =
         (if unicast_elsewhere env pk then pdq_enqueue (en_now env) pk ex (n_pending n) else n_pending n))"
proof -
  define sent where "sent = direct_attempt env pk ex n @
    (if fst (send_direct env pk ex n) then [] else map (\<lambda>p. (p, pk)) (flood_targets ex n))"
  define r where "r = floodExcept env pk ex n"
  have out: "transmitted (n_out (snd r)) = transmitted (n_out n) @ sent"
    by (simp add: r_def sent_def floodExcept_def case_prod_unfold Let_def direct_out around_out)
  have hop: "next_hop env pk ex n = Some h \<Longrightarrow> Some h \<noteq> ex" for h
    by (auto simp: next_hop_def split: if_splits option.splits)
  have each: "\<forall>(p, q) \<in> set sent. q = pk \<and> Some p \<noteq> ex \<and> map_of (n_peerTransport n) p \<noteq> None \<and>
      (p \<in> set (pt_list (n_peers n)) \<or> next_hop env pk ex n = Some p)"
    using hop by (auto simp: sent_def direct_attempt_def flood_targets_def split: option.splits if_splits)
  have some: "fst r \<Longrightarrow> sent \<noteq> []"
    using direct_some[of env pk ex n] around_some[of env pk ex "snd (send_direct env pk ex n)"]
    by (auto simp: r_def sent_def floodExcept_def case_prod_unfold Let_def split: if_splits)
  have pend: "n_pending (snd r) = (if unicast_elsewhere env pk \<and> \<not> fst r
      then pdq_enqueue (en_now env) pk ex (n_pending n) else n_pending n)"
    by (simp add: r_def floodExcept_def case_prod_unfold Let_def)
  show ?thesis
    by (rule exI[of _ "fst r"], rule exI[of _ "snd r"], rule exI[of _ sent], intro conjI)
      (use out each some pend in \<open>auto simp: r_def\<close>)
qed

lemma flood_outcome_witness:
  "fst (floodExcept sample_env (sample_packet DATA JNull (Some ''bob'')) None sample_mesh) \<and>
     transmitted (n_out (snd (floodExcept sample_env (sample_packet DATA JNull (Some ''bob'')) None sample_mesh))) \<noteq> []"
proof -
  have "fst (floodExcept sample_env (sample_packet DATA JNull (Some ''bob'')) None sample_mesh)"
    by code_simp
  with flood_outcome[of sample_env "sample_packet DATA JNull (Some ''bob'')" None sample_mesh] show ?thesis by auto
qed

text \<open>What applying the entries of an announcement can change in the table.\<close>

definition spoken :: "env \<Rightarrow> string \<Rightarrow> jsval list \<Rightarrow> string \<Rightarrow> route_entry \<Rightarrow> bool" where
  "spoken env p es d e \<longleftrightarrow> nextHop e = p \<and> d \<noteq> en_nodeId env \<and>
     (\<exists>v \<in> set es. jfield v ''destination'' = JString d \<and> jfield v ''cost'' = JNumber (Num (cost e - 1)))"

lemma offer_route:
  assumes "bestRoute (snd (offer tr d p c t)) d' = Some e"
  shows "bestRoute t d' = Some e \<or> (d' = d \<and> nextHop e = p \<and> c = Num (cost e))"
proof (cases "fst (offer tr d p c t)")
  case True
  then obtain r where "c = Num r" "snd (offer tr d p c t) = t\<lparr>routes := bm_put (rt_score tr) d \<lparr>nextHop = p, cost = r\<rparr> (routes t)\<rparr>"
    by (rule offer_adopts)
  with assms show ?thesis by (auto simp: bestRoute_def dest!: bm_set_frame)
qed (use assms in \<open>simp add: offer_rejects\<close>)

lemma num_add_one: "num_add c 1 = Num r \<longleftrightarrow> c = Num (r - 1)"
  by (cases c) auto

lemma withdraw_route: "bestRoute (snd (withdraw d p t)) d' = Some e \<Longrightarrow> bestRoute t d' = Some e"
  by (simp add: bestRoute_def withdraw_get split: if_splits)

lemma apply_route_scope:
  assumes "bestRoute (n_routing (snd (apply_route env p v n))) d = Some e"
  shows "bestRoute (n_routing n) d = Some e \<or> spoken env p [v] d e"
  using assms
  by (auto simp: apply_route_def case_prod_unfold Let_def spoken_def num_add_one split: jsval.splits if_splits
      dest!: offer_route withdraw_route)

lemma apply_routes_scope:
  "bestRoute (n_routing (snd (apply_routes env p es n))) d = Some e \<Longrightarrow>
     bestRoute (n_routing n) d = Some e \<or> spoken env p es d e"
proof (induction es arbitrary: n)
  case (Cons v es)
  then have "bestRoute (n_routing (snd (apply_routes env p es (snd (apply_route env p v n))))) d = Some e"
    by (simp add: case_prod_unfold Let_def)
  from Cons.IH[OF this] apply_route_scope[of env p v n d e] show ?case by (auto simp: spoken_def)
qed simp

text \<open>C12: A route announcement only speaks for its sender: whatever a peer announces, every route the table holds
  afterwards was there before with the same next hop and cost, or goes through that very peer, towards a
  destination other than this node that one of the first 512 entries named with a cost of one hop less.\<close>

theorem route_announce_speaks_for_sender:
  assumes "bestRoute (n_routing (handleRouteAnnounce env packet p n)) d = Some e"
  shows "bestRoute (n_routing n) d = Some e \<or>
    spoken env p (take MAX_ROUTES_PER_ANNOUNCE (array_of (jfield (pk_payload packet) ''routes''))) d e"
proof -
  let ?es = "take MAX_ROUTES_PER_ANNOUNCE (array_of (jfield (pk_payload packet) ''routes''))"
  have "n_routing (handleRouteAnnounce env packet p n) = n_routing (snd (apply_routes env p ?es n))"
    by (simp add: handleRouteAnnounce_def case_prod_unfold Let_def)
  with assms apply_routes_scope show ?thesis by metis
qed

definition sample_announcement :: "jsval packet" where
  "sample_announcement = sample_packet ROUTE_ANNOUNCE
     (JObject [(''routes'', JArray [JObject [(''destination'', JString ''bob''), (''cost'', JNumber (Num 1))]])]) None"

lemma route_announce_speaks_for_sender_witness:
  "\<exists>e. bestRoute (n_routing (handleRouteAnnounce sample_env sample_announcement ''ann'' sample_mesh)) ''bob'' = Some e \<and>
     nextHop e = ''ann'' \<and> cost e = 2"
proof -
  have none: "bestRoute (n_routing sample_mesh) ''bob'' = None" by code_simp
  have some: "bestRoute (n_routing (handleRouteAnnounce sample_env sample_announcement ''ann'' sample_mesh)) ''bob'' \<noteq> None"
    by code_simp
  then obtain e where e: "bestRoute (n_routing (handleRouteAnnounce sample_env sample_announcement ''ann'' sample_mesh)) ''bob'' = Some e"
    by auto
  from route_announce_speaks_for_sender[OF e] none show ?thesis using e
    by (auto simp: spoken_def sample_announcement_def sample_packet_def createPacket_def MAX_ROUTES_PER_ANNOUNCE_def)
qed

end
