(* ===== verification/NodeContent.thy ===== *)
theory NodeContent
  imports NodeMesh ContentFetch ExternalDelivery
begin

text \<open>
  Content in \<open>NomadNode\<close> (\<open>node/src/node.ts\<close>): publishing, announcing and catalogue synchronisation,
  serving queries and requests, fetching from several providers, opportunistic caching of relayed
  transfers, and the consumers that fetch what was announced (channel messages, drops, beacons,
  delivery directories). \<open>content_node\<close> extends \<open>mesh\<close> with the fields these methods use.

  A promise returned by \<open>getContent\<close> is a \<open>waiter\<close>: the continuation to run when the content
  arrives. \<open>resolve_waiter\<close> and \<open>reject_waiter\<close> run it; the handlers do so at the end of the step in
  which the code settles the promise. The timers of a request are the separate steps
  \<open>waiter_timeout\<close> and \<open>provider_timeout\<close>.
\<close>

section \<open>Metadata on the wire\<close>

text \<open>Metadata whose fields have the types of \<open>ContentMetadata\<close>; other shapes are outside the model and
  treated as malformed. \<open>JSON.stringify\<close> drops the absent fields.\<close>

definition metadata_of :: "jsval \<Rightarrow> content_metadata option" where
  "metadata_of v = do {
     contentId \<leftarrow> as_string (jfield v ''contentId'');
     mimeType \<leftarrow> as_string (jfield v ''mimeType'');
     size \<leftarrow> as_finite (jfield v ''size'');
     createdAt \<leftarrow> as_finite (jfield v ''createdAt'');
     publisherId \<leftarrow> optional as_string (jfield v ''publisherId'');
     signature \<leftarrow> optional as_string (jfield v ''signature'');
     expiresAt \<leftarrow> optional as_finite (jfield v ''expiresAt'');
     encoding \<leftarrow> optional as_string (jfield v ''encoding'');
     originalSize \<leftarrow> optional as_finite (jfield v ''originalSize'');
     Some \<lparr>cm_contentId = contentId, cm_name = jfield v ''name'', cm_mimeType = mimeType, cm_size = size,
           cm_createdAt = createdAt, cm_publisherId = publisherId, cm_signature = signature, cm_expiresAt = expiresAt,
           cm_encoding = encoding, cm_originalSize = originalSize, cm_priority = jfield v ''priority''\<rparr> }"

definition metadata_json :: "content_metadata \<Rightarrow> jsval" where
  "metadata_json m = json_object
    [(''contentId'', JString (cm_contentId m)), (''name'', cm_name m), (''mimeType'', JString (cm_mimeType m)),
     (''size'', JNumber (Num (cm_size m))), (''createdAt'', JNumber (Num (cm_createdAt m))),
     (''publisherId'', opt_str (cm_publisherId m)), (''signature'', opt_str (cm_signature m)),
     (''expiresAt'', opt_num (cm_expiresAt m)), (''encoding'', opt_str (cm_encoding m)),
     (''originalSize'', opt_num (cm_originalSize m)), (''priority'', cm_priority m)]"

lemma metadata_roundtrip: "metadata_of (metadata_json m) = Some m"
proof -
  have f: "jfield (metadata_json m) ''contentId'' = JString (cm_contentId m)"
    "jfield (metadata_json m) ''name'' = cm_name m"
    "jfield (metadata_json m) ''mimeType'' = JString (cm_mimeType m)"
    "jfield (metadata_json m) ''size'' = JNumber (Num (cm_size m))"
    "jfield (metadata_json m) ''createdAt'' = JNumber (Num (cm_createdAt m))"
    "jfield (metadata_json m) ''publisherId'' = opt_str (cm_publisherId m)"
    "jfield (metadata_json m) ''signature'' = opt_str (cm_signature m)"
    "jfield (metadata_json m) ''expiresAt'' = opt_num (cm_expiresAt m)"
    "jfield (metadata_json m) ''encoding'' = opt_str (cm_encoding m)"
    "jfield (metadata_json m) ''originalSize'' = opt_num (cm_originalSize m)"
    "jfield (metadata_json m) ''priority'' = cm_priority m"
    unfolding metadata_json_def by (rule json_object_field; simp)+
  have s: "optional as_string (opt_str x) = Some x" for x by (cases x) (simp_all add: optional_def opt_str_def)
  have n: "optional as_finite (opt_num x) = Some x" for x by (cases x) (simp_all add: optional_def opt_num_def)
  show ?thesis by (simp add: metadata_of_def f s n)
qed

section \<open>State\<close>

datatype waiter =
    Caller nat
  | ChannelWaiter string string string
  | DropWaiter content_metadata string string
  | BeaconWaiter string string string
  | DirectoryWaiter string string

record content_request =
  cr_entry :: fetch_entry
  cr_queried :: bool
  cr_waiters :: "waiter list"

record content_node = mesh +
  n_store :: content_store
  n_catalog :: remote_catalog
  n_requester :: chunk_assembler
  n_relayed :: chunk_assembler
  n_requests :: "(string, content_request) jsmap"
  n_channels :: public_channels
  n_drops :: drop_store
  n_beacons :: beacon_store
  n_destinations :: delivery_directory
  n_channelFetches :: "string list"
  n_dropFetches :: "string list"
  n_beaconFetches :: "string list"
  n_directoryFetches :: "string list"

text \<open>The content store ranks this node's own content above every trust level.\<close>

definition OWN_CONTENT_TRUST_RANK :: nat where "OWN_CONTENT_TRUST_RANK = RANK ADMIN + 1"

definition store_rank :: "env \<Rightarrow> 'a mesh_scheme \<Rightarrow> trust_fn" where
  "store_rank env n = Some (\<lambda>p. of_nat (if p = en_nodeId env then OWN_CONTENT_TRUST_RANK else RANK (tm_get (n_trust n) p)))"

definition MAX_CONCURRENT_CHANNEL_FETCHES :: nat where "MAX_CONCURRENT_CHANNEL_FETCHES = 16"
definition MAX_CONCURRENT_DROP_FETCHES :: nat where "MAX_CONCURRENT_DROP_FETCHES = 16"
definition MAX_CONCURRENT_BEACON_FETCHES :: nat where "MAX_CONCURRENT_BEACON_FETCHES = 16"
definition MAX_CONCURRENT_DIRECTORY_FETCHES :: nat where "MAX_CONCURRENT_DIRECTORY_FETCHES = 16"

section \<open>Settling a fetch\<close>

definition singleHopReceivedFrom :: "string \<Rightarrow> string \<Rightarrow> string option" where
  "singleHopReceivedFrom fromPeerId publisherId = (if fromPeerId \<noteq> publisherId then Some fromPeerId else None)"

definition decodeEmergencyBeaconPayload :: "env \<Rightarrow> jsval \<Rightarrow> beacon_payload option" where
  "decodeEmergencyBeaconPayload env parsed = (case extractEmergencyBeaconEnvelope parsed of
     Some envelope \<Rightarrow> (case en_openBeacon env of
        None \<Rightarrow> None
      | Some openBeacon \<Rightarrow> Option.bind (openBeacon envelope) extractEmergencyBeaconPayload)
   | None \<Rightarrow> extractEmergencyBeaconPayload parsed)"

text \<open>The \<open>then\<close> of each consumer: what it records from the decoded bytes.\<close>

definition consume :: "env \<Rightarrow> waiter \<Rightarrow> bytes \<Rightarrow> 'a content_node_scheme \<Rightarrow> 'a content_node_scheme" where
  "consume env w data n = (case w of
     Caller k \<Rightarrow> n\<lparr>n_out := n_out n @ [Answer k (Some data)]\<rparr>
   | ChannelWaiter channel author contentId \<Rightarrow>
       (case Option.bind (en_parseJson env data) extractChannelMessagePayload of
          None \<Rightarrow> n
        | Some (text, timestamp) \<Rightarrow> n\<lparr>n_channels := pc_record (live_rank_of n)
            \<lparr>ch_channel = channel, ch_author = author, ch_text = text, ch_timestamp = timestamp, ch_contentId = contentId\<rparr>
            (n_channels n)\<rparr>)
   | DropWaiter metadata publisherId fromPeerId \<Rightarrow>
       (case Option.bind (en_parseJson env data) extractDropPayload of
          None \<Rightarrow> n
        | Some p \<Rightarrow> n\<lparr>n_drops := drops_record (live_rank_of n)
            (drop_payload.extend p \<lparr>di_dropId = cm_contentId metadata, di_author = publisherId,
               di_expiresAt = cm_expiresAt metadata, di_receivedFrom = singleHopReceivedFrom fromPeerId publisherId,
               di_observedAt = en_now env\<rparr>) (n_drops n)\<rparr>)
   | BeaconWaiter contentId publisherId fromPeerId \<Rightarrow>
       (case Option.bind (en_parseJson env data) (decodeEmergencyBeaconPayload env) of
          None \<Rightarrow> n
        | Some p \<Rightarrow> n\<lparr>n_beacons := beacons_record
            (beacon_payload.extend p \<lparr>bs_beaconContentId = contentId, bs_deviceId = publisherId,
               bs_observedAt = en_now env, bs_receivedFrom = singleHopReceivedFrom fromPeerId publisherId\<rparr>) (n_beacons n)\<rparr>)
   | DirectoryWaiter publisherId contentId \<Rightarrow>
       (case Option.bind (en_parseJson env data) extractExternalDeliveryDirectoryPayload of
          None \<Rightarrow> n
        | Some p \<Rightarrow> n\<lparr>n_destinations := edd_record publisherId p (n_destinations n)\<rparr>))"

text \<open>The \<open>finally\<close> of each consumer.\<close>

definition release :: "waiter \<Rightarrow> 'a content_node_scheme \<Rightarrow> 'a content_node_scheme" where
  "release w n = (case w of
     Caller k \<Rightarrow> n
   | ChannelWaiter channel author contentId \<Rightarrow> n\<lparr>n_channelFetches := removeAll contentId (n_channelFetches n)\<rparr>
   | DropWaiter metadata publisherId fromPeerId \<Rightarrow> n\<lparr>n_dropFetches := removeAll (cm_contentId metadata) (n_dropFetches n)\<rparr>
   | BeaconWaiter contentId publisherId fromPeerId \<Rightarrow> n\<lparr>n_beaconFetches := removeAll contentId (n_beaconFetches n)\<rparr>
   | DirectoryWaiter publisherId contentId \<Rightarrow> n\<lparr>n_directoryFetches := removeAll contentId (n_directoryFetches n)\<rparr>)"

definition resolve_waiter :: "env \<Rightarrow> bytes \<Rightarrow> 'a content_node_scheme \<Rightarrow> waiter \<Rightarrow> 'a content_node_scheme" where
  "resolve_waiter env data n w = release w (consume env w data n)"

definition reject_waiter :: "'a content_node_scheme \<Rightarrow> waiter \<Rightarrow> 'a content_node_scheme" where
  "reject_waiter n w = (case w of Caller k \<Rightarrow> n\<lparr>n_out := n_out n @ [Answer k None]\<rparr> | _ \<Rightarrow> release w n)"

section \<open>Asking for content\<close>

definition new_request :: "string \<Rightarrow> content_request" where
  "new_request contentId = \<lparr>cr_entry = fe_new contentId, cr_queried = False, cr_waiters = []\<rparr>"

definition getContent :: "env \<Rightarrow> string \<Rightarrow> waiter \<Rightarrow> 'a content_node_scheme \<Rightarrow> 'a content_node_scheme" where
  "getContent env contentId w n =
     (let (cached, s) = readLive (en_now env) contentId (n_store n); n1 = n\<lparr>n_store := s\<rparr> in
      case cached of
        Some item \<Rightarrow> (case decodeStoredContent (en_crypto env) (sc_metadata item) (sc_data item) of
            Inr data \<Rightarrow> resolve_waiter env data n1 w
          | Inl e \<Rightarrow> reject_waiter n1 w)
      | None \<Rightarrow>
          let r = (case map_of (n_requests n1) contentId of Some r \<Rightarrow> r | None \<Rightarrow> new_request contentId);
              r' = r\<lparr>cr_waiters := cr_waiters r @ [w], cr_queried := True\<rparr>;
              n2 = n1\<lparr>n_requests := map_put contentId r' (n_requests n1)\<rparr>
          in if cr_queried r then n2
             else originate_and_flood env CONTENT_QUERY (JObject [(''contentId'', JString contentId)]) None (Some CONTENT) n2)"

text \<open>The timer of one waiter; the last one to give up closes the request.\<close>

definition waiter_timeout :: "string \<Rightarrow> waiter \<Rightarrow> 'a content_node_scheme \<Rightarrow> 'a content_node_scheme" where
  "waiter_timeout contentId w n = (case map_of (n_requests n) contentId of
     None \<Rightarrow> n
   | Some r \<Rightarrow>
       if w \<notin> set (cr_waiters r) then n
       else let ws = remove1 w (cr_waiters r) in
         reject_waiter (n\<lparr>n_requests := (if ws = [] then map_del contentId (n_requests n)
            else map_put contentId (r\<lparr>cr_waiters := ws\<rparr>) (n_requests n))\<rparr>) w)"

definition range_request :: "string \<Rightarrow> int \<times> int \<Rightarrow> jsval" where
  "range_request contentId r = JObject [(''contentId'', JString contentId),
     (''chunkStart'', JNumber (Num (of_int (fst r)))), (''chunkEnd'', JNumber (Num (of_int (snd r))))]"

text \<open>A change of a request's entry, followed by the range requests it made.\<close>

definition drive :: "env \<Rightarrow> string \<Rightarrow> (fetch_entry \<Rightarrow> fetch_entry) \<Rightarrow> 'a content_node_scheme \<Rightarrow> 'a content_node_scheme" where
  "drive env contentId f n = (case map_of (n_requests n) contentId of
     None \<Rightarrow> n
   | Some r \<Rightarrow>
       let e = f (cr_entry r);
           asked = drop (length (fe_requests (cr_entry r))) (fe_requests e)
       in foldl (\<lambda>n (p, range). originate_and_flood env CONTENT_REQUEST (range_request contentId range) (Some p) (Some CONTENT) n)
            (n\<lparr>n_requests := map_put contentId (r\<lparr>cr_entry := e\<rparr>) (n_requests n)\<rparr>) asked)"

definition provider_timeout :: "env \<Rightarrow> string \<Rightarrow> string \<Rightarrow> 'a content_node_scheme \<Rightarrow> 'a content_node_scheme" where
  "provider_timeout env contentId providerId n = drive env contentId (abandonFetch providerId) n"

section \<open>Serving content\<close>

definition handleContentQuery :: "env \<Rightarrow> jsval packet \<Rightarrow> 'a content_node_scheme \<Rightarrow> 'a content_node_scheme" where
  "handleContentQuery env packet n = (case jfield (pk_payload packet) ''contentId'' of
     JString contentId \<Rightarrow>
       (let (stored, s) = readLive (en_now env) contentId (n_store n); n1 = n\<lparr>n_store := s\<rparr> in
        case stored of
          None \<Rightarrow> n1
        | Some item \<Rightarrow> originate_and_flood env CONTENT_FOUND
            (JObject [(''queryId'', JString (pk_id packet)), (''contentId'', JString contentId),
                      (''metadata'', metadata_json (sc_metadata item))]) (Some (pk_source packet)) (Some CONTENT) n1)
   | _ \<Rightarrow> n)"

definition requested_start :: "jsval \<Rightarrow> nat \<Rightarrow> nat" where
  "requested_start v lastIndex = (case as_integer v of Some i \<Rightarrow> if i \<ge> 0 then min (nat i) lastIndex else 0 | None \<Rightarrow> 0)"

definition requested_end :: "jsval \<Rightarrow> nat \<Rightarrow> nat \<Rightarrow> nat" where
  "requested_end v start lastIndex = (case as_integer v of
     Some i \<Rightarrow> if i \<ge> int start then min (nat i) lastIndex else lastIndex | None \<Rightarrow> lastIndex)"

definition chunk_message :: "env \<Rightarrow> string \<Rightarrow> bytes list \<Rightarrow> nat \<Rightarrow> jsval" where
  "chunk_message env contentId chunks i = JObject [(''contentId'', JString contentId),
     (''chunkIndex'', JNumber (Num (of_nat i))), (''totalChunks'', JNumber (Num (of_nat (length chunks)))),
     (''data'', JString (en_base64 env (chunks ! i)))]"

definition handleContentRequest :: "env \<Rightarrow> jsval packet \<Rightarrow> 'a content_node_scheme \<Rightarrow> 'a content_node_scheme" where
  "handleContentRequest env packet n = (case jfield (pk_payload packet) ''contentId'' of
     JString contentId \<Rightarrow>
       (let (stored, s) = readLive (en_now env) contentId (n_store n); n1 = n\<lparr>n_store := s\<rparr>;
            to = Some (pk_source packet) in
        case stored of
          None \<Rightarrow> originate_and_flood env CONTENT_NOT_FOUND (JObject [(''contentId'', JString contentId)]) to (Some CONTENT) n1
        | Some item \<Rightarrow>
            let chunks = chunks_of (sc_data item); lastIndex = length chunks - 1;
                chunkStart = requested_start (jfield (pk_payload packet) ''chunkStart'') lastIndex;
                chunkEnd = requested_end (jfield (pk_payload packet) ''chunkEnd'') chunkStart lastIndex;
                n2 = foldl (\<lambda>n i. originate_and_flood env CONTENT_CHUNK (chunk_message env contentId chunks i) to (Some CONTENT) n)
                       n1 [chunkStart..<Suc chunkEnd]
            in originate_and_flood env CONTENT_COMPLETE
                 (JObject [(''contentId'', JString contentId), (''metadata'', metadata_json (sc_metadata item))]) to (Some CONTENT) n2)
   | _ \<Rightarrow> n)"

section \<open>Receiving content\<close>

definition handleContentFound :: "env \<Rightarrow> jsval packet \<Rightarrow> 'a content_node_scheme \<Rightarrow> 'a content_node_scheme" where
  "handleContentFound env packet n = (case jfield (pk_payload packet) ''contentId'' of
     JString contentId \<Rightarrow>
       drive env contentId (contentFound (pk_source packet) (metadata_of (jfield (pk_payload packet) ''metadata''))) n
   | _ \<Rightarrow> n)"

definition handleContentNotFound :: "env \<Rightarrow> jsval packet \<Rightarrow> 'a content_node_scheme \<Rightarrow> 'a content_node_scheme" where
  "handleContentNotFound env packet n = (case jfield (pk_payload packet) ''contentId'' of
     JString contentId \<Rightarrow> drive env contentId (contentNotFound (pk_source packet)) n
   | _ \<Rightarrow> n)"

definition waiting_elsewhere :: "string \<Rightarrow> string \<Rightarrow> 'a content_node_scheme \<Rightarrow> bool" where
  "waiting_elsewhere contentId source n = (case map_of (n_requests n) contentId of
     Some r \<Rightarrow> \<not> fe_active (cr_entry r) source | None \<Rightarrow> False)"

definition handleContentChunk :: "env \<Rightarrow> jsval packet \<Rightarrow> 'a content_node_scheme \<Rightarrow> 'a content_node_scheme" where
  "handleContentChunk env packet n =
     (case (jfield (pk_payload packet) ''contentId'', jfield (pk_payload packet) ''data'') of
        (JString contentId, JString data) \<Rightarrow>
          let ci = jfield (pk_payload packet) ''chunkIndex''; tc = jfield (pk_payload packet) ''totalChunks'' in
          if waiting_elsewhere contentId (pk_source packet) n then n
          else
            let claim = valid_claim (ca_maxChunksPerEntry (n_requester n)) ci tc;
                (accepted, a) = addChunk contentId ci tc (en_unbase64 env data) (n_requester n);
                n1 = n\<lparr>n_requester := a\<rparr>
            in (case (accepted, claim) of
                  (True, Some (i, m)) \<Rightarrow> drive env contentId (chunkArrived (pk_source packet) i m) n1
                | _ \<Rightarrow> n1)
      | _ \<Rightarrow> n)"

text \<open>Storing what a transfer produced, and marking its publisher.\<close>

definition store_transfer :: "env \<Rightarrow> content_metadata \<Rightarrow> bytes option \<Rightarrow> 'a content_node_scheme \<Rightarrow> bool \<times> 'a content_node_scheme" where
  "store_transfer env m data n =
     (let (stored, s) = (case data of Some d \<Rightarrow> putVerified (en_crypto env) (store_rank env n) (en_now env) m d (n_store n)
                         | None \<Rightarrow> (False, n_store n));
          n' = n\<lparr>n_store := s\<rparr>
      in (stored, case cm_publisherId m of
           Some p \<Rightarrow> if stored \<and> p \<noteq> [] then n'\<lparr>n_trust := markVerified p (n_trust n')\<rparr> else n' | None \<Rightarrow> n'))"

definition tryAssembleAndResolve :: "env \<Rightarrow> string \<Rightarrow> content_metadata option \<Rightarrow> 'a content_node_scheme \<Rightarrow> 'a content_node_scheme" where
  "tryAssembleAndResolve env contentId fallback n = (case map_of (n_requests n) contentId of
     None \<Rightarrow> n
   | Some r \<Rightarrow>
       (case (case fe_metadata (cr_entry r) of Some m \<Rightarrow> Some m | None \<Rightarrow> fallback, fe_totalChunks (cr_entry r)) of
          (Some metadata, Some expected) \<Rightarrow>
            let haveAll = length (fe_receivedChunks (cr_entry r)) \<ge> expected;
                (data, a) = tryComplete (en_crypto env) contentId metadata (n_requester n);
                (stored, n1) = store_transfer env metadata data (n\<lparr>n_requester := a\<rparr>);
                closed = n1\<lparr>n_requests := map_del contentId (n_requests n1)\<rparr>
            in if stored then
                 (case decodeStoredContent (en_crypto env) metadata (the data) of
                    Inr decoded \<Rightarrow> foldl (resolve_waiter env decoded) closed (cr_waiters r)
                  | Inl e \<Rightarrow> closed)
               else if \<not> haveAll then n1
               else foldl reject_waiter closed (cr_waiters r)
        | _ \<Rightarrow> n))"

definition handleContentComplete :: "env \<Rightarrow> jsval packet \<Rightarrow> 'a content_node_scheme \<Rightarrow> 'a content_node_scheme" where
  "handleContentComplete env packet n = (case jfield (pk_payload packet) ''contentId'' of
     JString contentId \<Rightarrow>
       let v = jfield (pk_payload packet) ''metadata'' in
       if \<not> is_object v then n
       else if waiting_elsewhere contentId (pk_source packet) n then n
       else tryAssembleAndResolve env contentId (metadata_of v) (drive env contentId (contentCompleted (pk_source packet)) n)
   | _ \<Rightarrow> n)"

definition observeRelayedContent :: "env \<Rightarrow> jsval packet \<Rightarrow> 'a content_node_scheme \<Rightarrow> 'a content_node_scheme" where
  "observeRelayedContent env packet n = (case jfield (pk_payload packet) ''contentId'' of
     JString contentId \<Rightarrow>
       (let (held, s) = cs_has (en_now env) contentId (n_store n); n1 = n\<lparr>n_store := s\<rparr> in
        if pk_type packet = CONTENT_CHUNK then
          (case jfield (pk_payload packet) ''data'' of
             JString data \<Rightarrow>
               if held then n1
               else n1\<lparr>n_relayed := snd (addChunk contentId (jfield (pk_payload packet) ''chunkIndex'')
                        (jfield (pk_payload packet) ''totalChunks'') (en_unbase64 env data) (n_relayed n1))\<rparr>
           | _ \<Rightarrow> n)
        else if pk_type packet = CONTENT_COMPLETE then
          (case metadata_of (jfield (pk_payload packet) ''metadata'') of
             None \<Rightarrow> n
           | Some metadata \<Rightarrow>
               if held then n1\<lparr>n_relayed := ca_discard contentId (n_relayed n1)\<rparr>
               else let (data, a) = tryComplete (en_crypto env) contentId metadata (n_relayed n1)
                    in snd (store_transfer env metadata data (n1\<lparr>n_relayed := a\<rparr>)))
        else n)
   | _ \<Rightarrow> n)"

section \<open>Announcements and the catalogue\<close>

definition acceptCatalogEntry :: "env \<Rightarrow> jsval \<Rightarrow> 'a content_node_scheme \<Rightarrow> content_metadata option \<times> 'a content_node_scheme" where
  "acceptCatalogEntry env v n = (case metadata_of v of
     None \<Rightarrow> (None, n)
   | Some m \<Rightarrow>
       let (held, s) = cs_has (en_now env) (cm_contentId m) (n_store n); n1 = n\<lparr>n_store := s\<rparr> in
       if held then (None, n1)
       else if \<not> verifyContentSignature (en_crypto env) m then (None, n1)
       else if expired (en_now env) m then (None, n1)
       else
         let n2 = n1\<lparr>n_catalog := rc_record (en_now env) (live_rank_of n1) m (n_catalog n1)\<rparr>
         in (Some m, case cm_publisherId m of
               Some p \<Rightarrow> if p = [] then n2 else n2\<lparr>n_trust := markVerified p (n_trust n2)\<rparr> | None \<Rightarrow> n2))"

definition publisher_of :: "content_metadata \<Rightarrow> string option" where
  "publisher_of m = (case cm_publisherId m of Some p \<Rightarrow> if p = [] then None else Some p | None \<Rightarrow> None)"

definition considerChannelMessage :: "env \<Rightarrow> content_metadata \<Rightarrow> 'a content_node_scheme \<Rightarrow> 'a content_node_scheme" where
  "considerChannelMessage env m n = (case (parseChannelFromContentName (cm_name m), publisher_of m) of
     (Some channel, Some publisherId) \<Rightarrow>
       let contentId = cm_contentId m in
       if contentId \<in> set (n_channelFetches n) \<or> length (n_channelFetches n) \<ge> MAX_CONCURRENT_CHANNEL_FETCHES then n
       else getContent env contentId (ChannelWaiter channel publisherId contentId)
              (n\<lparr>n_channelFetches := n_channelFetches n @ [contentId]\<rparr>)
   | _ \<Rightarrow> n)"

definition DROP_CONTENT_NAME :: string where "DROP_CONTENT_NAME = ''drop''"
definition EMERGENCY_BEACON_CONTENT_NAME :: string where "EMERGENCY_BEACON_CONTENT_NAME = ''emergency-beacon''"
definition EXTERNAL_DELIVERY_DIRECTORY_CONTENT_NAME :: string where
  "EXTERNAL_DELIVERY_DIRECTORY_CONTENT_NAME = ''external-delivery-directory''"

definition considerDrop :: "env \<Rightarrow> content_metadata \<Rightarrow> string \<Rightarrow> 'a content_node_scheme \<Rightarrow> 'a content_node_scheme" where
  "considerDrop env m fromPeerId n =
     (if cm_name m \<noteq> JString DROP_CONTENT_NAME then n
      else case publisher_of m of
        None \<Rightarrow> n
      | Some publisherId \<Rightarrow>
          let contentId = cm_contentId m in
          if contentId \<in> set (n_dropFetches n) \<or> length (n_dropFetches n) \<ge> MAX_CONCURRENT_DROP_FETCHES then n
          else getContent env contentId (DropWaiter m publisherId fromPeerId)
                 (n\<lparr>n_dropFetches := n_dropFetches n @ [contentId]\<rparr>))"

definition considerEmergencyBeacon :: "env \<Rightarrow> content_metadata \<Rightarrow> string \<Rightarrow> 'a content_node_scheme \<Rightarrow> 'a content_node_scheme" where
  "considerEmergencyBeacon env m fromPeerId n =
     (if cm_name m \<noteq> JString EMERGENCY_BEACON_CONTENT_NAME then n
      else case publisher_of m of
        None \<Rightarrow> n
      | Some publisherId \<Rightarrow>
          let contentId = cm_contentId m in
          if contentId \<in> set (n_beaconFetches n) \<or> length (n_beaconFetches n) \<ge> MAX_CONCURRENT_BEACON_FETCHES then n
          else getContent env contentId (BeaconWaiter contentId publisherId fromPeerId)
                 (n\<lparr>n_beaconFetches := n_beaconFetches n @ [contentId]\<rparr>))"

definition considerExternalDeliveryDirectory :: "env \<Rightarrow> content_metadata \<Rightarrow> 'a content_node_scheme \<Rightarrow> 'a content_node_scheme" where
  "considerExternalDeliveryDirectory env m n =
     (if cm_name m \<noteq> JString EXTERNAL_DELIVERY_DIRECTORY_CONTENT_NAME then n
      else case publisher_of m of
        None \<Rightarrow> n
      | Some publisherId \<Rightarrow>
          let contentId = cm_contentId m in
          if contentId \<in> set (n_directoryFetches n) \<or> length (n_directoryFetches n) \<ge> MAX_CONCURRENT_DIRECTORY_FETCHES then n
          else getContent env contentId (DirectoryWaiter publisherId contentId)
                 (n\<lparr>n_directoryFetches := n_directoryFetches n @ [contentId]\<rparr>))"

definition consider_content :: "env \<Rightarrow> content_metadata \<Rightarrow> string \<Rightarrow> 'a content_node_scheme \<Rightarrow> 'a content_node_scheme" where
  "consider_content env m fromPeerId n =
     considerExternalDeliveryDirectory env m (considerEmergencyBeacon env m fromPeerId
       (considerDrop env m fromPeerId (considerChannelMessage env m n)))"

definition handleContentAnnounce :: "env \<Rightarrow> jsval packet \<Rightarrow> string \<Rightarrow> 'a content_node_scheme \<Rightarrow> 'a content_node_scheme" where
  "handleContentAnnounce env packet fromPeerId n =
     (let payload = pk_payload packet; (accepted, n1) = acceptCatalogEntry env (jfield payload ''metadata'') n in
      case accepted of
        None \<Rightarrow> n1
      | Some m \<Rightarrow>
          let n2 = emit (ContentAnnounced m) n1;
              n3 = (case jfield payload ''data'' of
                      JString data \<Rightarrow> n2\<lparr>n_store := snd (putVerified (en_crypto env) (store_rank env n2) (en_now env) m
                                                       (en_unbase64 env data) (n_store n2))\<rparr>
                    | _ \<Rightarrow> n2);
              sender = jfield payload ''senderAnnouncement'';
              n4 = (if jfield sender ''nodeId'' = opt_str (cm_publisherId m)
                    then snd (acceptIdentityAnnouncement env sender n3) else n3)
          in consider_content env m fromPeerId n4)"

fun accept_entries :: "env \<Rightarrow> string \<Rightarrow> jsval list \<Rightarrow> 'a content_node_scheme \<Rightarrow> content_metadata list \<times> 'a content_node_scheme" where
  "accept_entries env fromPeerId [] n = ([], n)"
| "accept_entries env fromPeerId (v # vs) n =
     (let (accepted, n1) = acceptCatalogEntry env v n in
      case accepted of
        None \<Rightarrow> accept_entries env fromPeerId vs n1
      | Some m \<Rightarrow> (let (ms, n2) = accept_entries env fromPeerId vs (consider_content env m fromPeerId n1) in (m # ms, n2)))"

definition handleSyncResponse :: "env \<Rightarrow> jsval packet \<Rightarrow> string \<Rightarrow> 'a content_node_scheme \<Rightarrow> 'a content_node_scheme" where
  "handleSyncResponse env packet fromPeerId n =
     (let (accepted, n1) = accept_entries env fromPeerId (array_of (jfield (pk_payload packet) ''entries'')) n
      in if accepted \<noteq> [] then emit (CatalogSync accepted) n1 else n1)"

text \<open>\<open>listKnownContent\<close>: the catalogue overlaid with the store, in the order of a \<open>Map\<close>.\<close>

definition listKnownContent :: "env \<Rightarrow> 'a content_node_scheme \<Rightarrow> content_metadata list \<times> 'a content_node_scheme" where
  "listKnownContent env n =
     (let (announced, c) = rc_list (en_now env) (n_catalog n);
          (held, s) = cs_list (en_now env) (n_store n);
          merged = foldl (\<lambda>t m. map_put (cm_contentId m) m t) [] (announced @ held)
      in (map snd merged, n\<lparr>n_catalog := c, n_store := s\<rparr>))"

definition startCatalogSync :: "env \<Rightarrow> string \<Rightarrow> 'a content_node_scheme \<Rightarrow> 'a content_node_scheme" where
  "startCatalogSync env peerId n =
     (let (known, n1) = listKnownContent env n
      in originate_and_send env SYNC_REQUEST
           (JObject [(''knownContentIds'', JArray (map (\<lambda>m. JString (cm_contentId m)) known))]) peerId peerId n1)"

definition handleSyncRequest :: "env \<Rightarrow> jsval packet \<Rightarrow> string \<Rightarrow> 'a content_node_scheme \<Rightarrow> 'a content_node_scheme" where
  "handleSyncRequest env packet fromPeerId n =
     (let known = set (array_of (jfield (pk_payload packet) ''knownContentIds''));
          (content, n1) = listKnownContent env n;
          new = filter (\<lambda>m. JString (cm_contentId m) \<notin> known) content
      in if new = [] then n1
         else originate_and_send env SYNC_RESPONSE (JObject [(''entries'', JArray (map metadata_json new))])
                (pk_source packet) fromPeerId n1)"

section \<open>What a fetch remembers\<close>

text \<open>The metadata of a request is what the first \<open>CONTENT_FOUND\<close> offered; nothing else sets it.\<close>

lemma tryAssign_metadata [simp]: "fe_metadata (snd (tryAssignUnassignedRange p e)) = fe_metadata e"
  by (simp add: tryAssignUnassignedRange_def requestRangeFromProvider_def split: list.split)

lemma keep_loop_metadata [simp]: "fe_metadata (keep_loop e) = fe_metadata e"
proof (induction e rule: keep_loop.induct)
  case (1 e)
  show ?case
  proof (cases "fe_candidates e")
    case (Cons p ps)
    define r where "r = tryAssignUnassignedRange p (e\<lparr>fe_candidates := ps\<rparr>)"
    have m: "fe_metadata (snd r) = fe_metadata e" by (simp add: r_def)
    have "keep_loop e = (if fst r then keep_loop (snd r) else (snd r)\<lparr>fe_candidates := p # fe_candidates (snd r)\<rparr>)"
      by (subst keep_loop.simps) (simp add: Cons r_def case_prod_unfold Let_def)
    moreover have "fe_metadata (keep_loop (snd r)) = fe_metadata (snd r)" if "fst r"
      using "1.IH"[OF Cons, of r "fst r" "snd r"] that by (simp add: r_def)
    ultimately show ?thesis using m by simp
  qed (simp add: keep_loop.simps[of e])
qed

lemma fetch_metadata [simp]:
  "fe_metadata (abandonFetch p e) = fe_metadata e" "fe_metadata (contentNotFound p e) = fe_metadata e"
  "fe_metadata (chunkArrived p i k e) = fe_metadata e" "fe_metadata (contentCompleted p e) = fe_metadata e"
  by (simp_all add: abandonFetch_def contentNotFound_def chunkArrived_def contentCompleted_def tryKeepFetchesGoing_def noteChunk_def
      Let_def split: option.split)

lemma found_metadata: "fe_metadata (contentFound p md e) = Some m \<Longrightarrow> fe_metadata e = Some m \<or> md = Some m"
  by (auto simp: contentFound_def requestRangeFromProvider_def case_prod_unfold Let_def split: if_splits option.splits)

section \<open>Invariant of the content plane\<close>

text \<open>What a publisher signed, and the statement a catalogue entry on the wire makes.\<close>

definition metadata_statements :: "content_metadata \<Rightarrow> statement list" where
  "metadata_statements m = (case (cm_publisherId m, cm_signature m) of
     (Some p, Some signature) \<Rightarrow> [(p, contentSigningPayload m, signature)] | _ \<Rightarrow> [])"

definition content_statements :: "jsval \<Rightarrow> statement list" where
  "content_statements v = (case metadata_of v of Some m \<Rightarrow> metadata_statements m | None \<Rightarrow> [])"

text \<open>A request whose entry is sound and was sized, if at all, by metadata that was offered.\<close>

definition request_ok :: "ledger \<Rightarrow> fetch_entry \<Rightarrow> bool" where
  "request_ok B e \<longleftrightarrow> fetch_ok e \<and> (\<forall>m. fe_metadata e = Some m \<longrightarrow> m \<in> lg_found B)"

lemma request_ok_new: "request_ok B (fe_new i)"
  by (simp add: request_ok_def fe_new_ok) (simp add: fe_new_def)

definition content_caps :: "'a content_node_scheme \<Rightarrow> jsnum list" where
  "content_caps n = [bm_max (cs_items (n_store n)), bm_max (n_catalog n),
     Num (of_nat (ca_maxEntries (n_requester n))), Num (of_nat (ca_maxChunksPerEntry (n_requester n))),
     Num (of_nat (ca_maxEntries (n_relayed n))), Num (of_nat (ca_maxChunksPerEntry (n_relayed n))),
     bm_max (ch_messages (n_channels n)), Num (of_int (maxMessagesPerChannel (n_channels n))),
     bm_max (n_drops n), bm_max (n_beacons n), bm_max (n_destinations n)]"

definition content_part :: "content_env \<Rightarrow> ledger \<Rightarrow> 'a content_node_scheme \<Rightarrow> bool" where
  "content_part c B n \<longleftrightarrow> content_caps n = lg_content B \<and> cs_ok c (n_store n) \<and>
     bm_all (\<lambda>i m. cm_contentId m = i \<and> verifyContentSignature c m) (n_catalog n) \<and>
     ca_ok (n_requester n) \<and> ca_ok (n_relayed n) \<and>
     map_wf (n_requests n) \<and> (\<forall>i r. map_of (n_requests n) i = Some r \<longrightarrow> request_ok B (cr_entry r)) \<and>
     pc_ok (n_channels n) \<and> bm_ok (n_drops n) \<and> bm_ok (n_beacons n) \<and> bm_ok (n_destinations n) \<and>
     length (n_channelFetches n) \<le> 16 \<and> length (n_dropFetches n) \<le> 16 \<and>
     length (n_beaconFetches n) \<le> 16 \<and> length (n_directoryFetches n) \<le> 16"

definition content_ok :: "content_env \<Rightarrow> ledger \<Rightarrow> 'a content_node_scheme \<Rightarrow> bool" where
  "content_ok c B n \<longleftrightarrow> mesh_ok (verifyWithNodeId c) B n \<and> content_part c B n"

interpretation content: mesh_observation "content_ok c B" for c B
  by unfold_locales (auto simp: content_ok_def content_part_def content_caps_def mesh_ok_def mesh_caps_def pdq_enqueue_ok pdq_requeue_ok
      pdq_drain_ok)

lemma content_pending: "content_ok c B n \<Longrightarrow> pdq_ok (n_pending n)"
  by (simp add: content_ok_def mesh_ok_def)

lemma rc_get_all: "bm_all P m \<Longrightarrow> bm_all P (snd (rc_get now i m))"
  by (auto simp: rc_get_def bm_all_delete split: option.splits)

lemma rc_record_all: "bm_all P m \<Longrightarrow> P (cm_contentId md) md \<Longrightarrow> bm_all P (rc_record now tr md m)"
  using rc_get_all[of P m now "cm_contentId md"]
  by (auto simp: rc_record_def rc_has_def Let_def bm_all_put split: prod.splits)

lemma rc_list_all: "bm_all P m \<Longrightarrow> bm_all P (snd (rc_list now m))"
  using bm_all_filter[of P m "\<lambda>i md. \<not> expired now md"] by (simp add: rc_list_def rc_purge_def bm_filter_def Let_def)

lemma cs_list_ok: "cs_ok c s \<Longrightarrow> cs_ok c (snd (cs_list now s))"
  using bm_filter_ok[of "cs_items s" "\<lambda>i item. \<not> expired now (sc_metadata item)"]
    bm_filter_get[of "cs_items s" "\<lambda>i item. \<not> expired now (sc_metadata item)"]
  by (auto simp: cs_list_def cs_purgeExpired_def Let_def cs_ok_def bm_filter_def split: option.splits if_splits)

lemma cs_has_ok: "cs_ok c s \<Longrightarrow> cs_ok c (snd (cs_has now i s))"
  using readLive_ok[of c s now i] by (simp add: cs_has_def case_prod_unfold Let_def)

lemma beacons_record_ok: "bm_ok s \<Longrightarrow> bm_ok (beacons_record b s)"
  by (auto simp: beacons_record_def)

lemma edd_record_ok: "bm_ok d \<Longrightarrow> bm_ok (edd_record i p d)"
  by (auto simp: edd_record_def split: option.splits)

lemma registry_updates:
  assumes "content_ok c B n"
  shows "pc_ok x1 \<Longrightarrow> bm_max (ch_messages x1) = bm_max (ch_messages (n_channels n)) \<Longrightarrow>
      maxMessagesPerChannel x1 = maxMessagesPerChannel (n_channels n) \<Longrightarrow> content_ok c B (n\<lparr>n_channels := x1\<rparr>)"
    "bm_ok x2 \<Longrightarrow> bm_max x2 = bm_max (n_drops n) \<Longrightarrow> content_ok c B (n\<lparr>n_drops := x2\<rparr>)"
    "bm_ok x3 \<Longrightarrow> bm_max x3 = bm_max (n_beacons n) \<Longrightarrow> content_ok c B (n\<lparr>n_beacons := x3\<rparr>)"
    "bm_ok x4 \<Longrightarrow> bm_max x4 = bm_max (n_destinations n) \<Longrightarrow> content_ok c B (n\<lparr>n_destinations := x4\<rparr>)"
    "ca_ok x5 \<Longrightarrow> ca_maxEntries x5 = ca_maxEntries (n_requester n) \<Longrightarrow> ca_maxChunksPerEntry x5 = ca_maxChunksPerEntry (n_requester n) \<Longrightarrow>
      content_ok c B (n\<lparr>n_requester := x5\<rparr>)"
    "ca_ok x6 \<Longrightarrow> ca_maxEntries x6 = ca_maxEntries (n_relayed n) \<Longrightarrow> ca_maxChunksPerEntry x6 = ca_maxChunksPerEntry (n_relayed n) \<Longrightarrow>
      content_ok c B (n\<lparr>n_relayed := x6\<rparr>)"
    "length l1 \<le> 16 \<Longrightarrow> content_ok c B (n\<lparr>n_channelFetches := l1\<rparr>)" "length l2 \<le> 16 \<Longrightarrow> content_ok c B (n\<lparr>n_dropFetches := l2\<rparr>)"
    "length l3 \<le> 16 \<Longrightarrow> content_ok c B (n\<lparr>n_beaconFetches := l3\<rparr>)" "length l4 \<le> 16 \<Longrightarrow> content_ok c B (n\<lparr>n_directoryFetches := l4\<rparr>)"
    "bm_all (\<lambda>i m. cm_contentId m = i \<and> verifyContentSignature c m) x7 \<Longrightarrow> bm_max x7 = bm_max (n_catalog n) \<Longrightarrow>
      content_ok c B (n\<lparr>n_catalog := x7\<rparr>)"
  using assms by (simp_all add: content_ok_def content_part_def content_caps_def mesh_ok_def mesh_caps_def)

lemma registries_ok:
  assumes "content_ok c B n"
  shows "pc_ok (n_channels n)" "bm_ok (n_drops n)" "bm_ok (n_beacons n)" "bm_ok (n_destinations n)"
    "ca_ok (n_requester n)" "ca_ok (n_relayed n)" "length (n_channelFetches n) \<le> 16" "length (n_dropFetches n) \<le> 16"
    "length (n_beaconFetches n) \<le> 16" "length (n_directoryFetches n) \<le> 16"
    "bm_all (\<lambda>i m. cm_contentId m = i \<and> verifyContentSignature c m) (n_catalog n)"
  using assms by (simp_all add: content_ok_def content_part_def)

lemma consume_ok:
  assumes ok: "content_ok c B n"
  shows "content_ok c B (consume env w data n)"
  by (cases w) (simp_all add: consume_def ok content.on_out[OF ok] registry_updates[OF ok] registries_ok[OF ok]
      pc_record_ok drops_record_ok beacons_record_ok edd_record_ok split: option.split prod.split)

lemma shorter: "length xs \<le> k \<Longrightarrow> length (removeAll x xs) \<le> k"
  by (rule le_trans[OF length_removeAll_less_eq])

lemma release_ok:
  assumes ok: "content_ok c B n"
  shows "content_ok c B (release w n)"
  by (cases w) (simp_all add: release_def ok registry_updates[OF ok] registries_ok[OF ok] shorter)

lemma resolve_ok: "content_ok c B n \<Longrightarrow> content_ok c B (resolve_waiter env data n w)"
  by (simp add: resolve_waiter_def release_ok consume_ok)

lemma reject_ok: "content_ok c B n \<Longrightarrow> content_ok c B (reject_waiter n w)"
  by (cases w) (auto simp: reject_waiter_def release_ok content.on_out)

lemma store_update_ok: "content_ok c B n \<Longrightarrow> cs_ok c s \<Longrightarrow> bm_max (cs_items s) = bm_max (cs_items (n_store n)) \<Longrightarrow>
    content_ok c B (n\<lparr>n_store := s\<rparr>)"
  by (simp add: content_ok_def content_part_def content_caps_def mesh_ok_def mesh_caps_def)

lemma content_store_ok: "content_ok c B n \<Longrightarrow> cs_ok c (n_store n)"
  by (simp add: content_ok_def content_part_def)

lemma readLive_update: "content_ok c B n \<Longrightarrow> content_ok c B (n\<lparr>n_store := snd (readLive now i (n_store n))\<rparr>)"
  by (simp add: store_update_ok readLive_ok content_store_ok)

lemma has_update: "content_ok c B n \<Longrightarrow> content_ok c B (n\<lparr>n_store := snd (cs_has now i (n_store n))\<rparr>)"
  by (simp add: store_update_ok cs_has_ok content_store_ok)

lemma request_put_ok:
  "content_ok c B n \<Longrightarrow> request_ok B (cr_entry r) \<Longrightarrow> content_ok c B (n\<lparr>n_requests := map_put i r (n_requests n)\<rparr>)"
  by (auto simp: content_ok_def content_part_def content_caps_def mesh_ok_def mesh_caps_def)

lemma request_del_ok: "content_ok c B n \<Longrightarrow> content_ok c B (n\<lparr>n_requests := map_del i (n_requests n)\<rparr>)"
  by (auto simp: content_ok_def content_part_def content_caps_def mesh_ok_def mesh_caps_def)

lemma request_fetch_ok: "content_ok c B n \<Longrightarrow> map_of (n_requests n) i = Some r \<Longrightarrow> request_ok B (cr_entry r)"
  by (auto simp: content_ok_def content_part_def)

lemma mark_content_ok: "content_ok c B n \<Longrightarrow> p \<in> lg_trusted B \<Longrightarrow> content_ok c B (n\<lparr>n_trust := markVerified p (n_trust n)\<rparr>)"
  by (simp add: content_ok_def content_part_def content_caps_def mesh_ok_def mesh_caps_def markVerified_ok earned_mark)

lemma signature_heard:
  assumes "verifyContentSignature c m" and "cm_publisherId m = Some p" and "heard (verifyWithNodeId c) B (metadata_statements m)"
  shows "p \<in> lg_trusted B"
  using assms by (auto simp: verifyContentSignature_def verified_def heard_def metadata_statements_def split: option.splits)

lemma getContent_ok:
  assumes ok: "content_ok c B n"
  shows "content_ok c B (getContent env i w n)"
proof -
  define n1 where "n1 = n\<lparr>n_store := snd (readLive (en_now env) i (n_store n))\<rparr>"
  have ok1: "content_ok c B n1" unfolding n1_def using ok by (rule readLive_update)
  define r where "r = (case map_of (n_requests n1) i of Some r \<Rightarrow> r | None \<Rightarrow> new_request i)"
  have r: "request_ok B (cr_entry r)"
    using request_fetch_ok[OF ok1] by (auto simp: r_def new_request_def request_ok_new split: option.splits)
  define n2 where "n2 = n1\<lparr>n_requests := map_put i (r\<lparr>cr_waiters := cr_waiters r @ [w], cr_queried := True\<rparr>) (n_requests n1)\<rparr>"
  have ok2: "content_ok c B n2" unfolding n2_def using ok1 r by (intro request_put_ok) simp_all
  have "getContent env i w n = (case fst (readLive (en_now env) i (n_store n)) of
      Some item \<Rightarrow> (case decodeStoredContent (en_crypto env) (sc_metadata item) (sc_data item) of
            Inr data \<Rightarrow> resolve_waiter env data n1 w | Inl e \<Rightarrow> reject_waiter n1 w)
      | None \<Rightarrow> if cr_queried r then n2
             else originate_and_flood env CONTENT_QUERY (JObject [(''contentId'', JString i)]) None (Some CONTENT) n2)"
    unfolding getContent_def case_prod_unfold Let_def n2_def r_def n1_def
    by (cases "fst (readLive (en_now env) i (n_store n))") (simp_all only: option.case fst_conv snd_conv)
  with ok1 ok2 show ?thesis
    by (auto simp: resolve_ok reject_ok content.sending_P split: option.splits sum.splits)
qed

lemma drive_ok:
  assumes ok: "content_ok c B n" and f: "\<And>e. request_ok B e \<Longrightarrow> request_ok B (f e)"
  shows "content_ok c B (drive env i f n)"
proof (cases "map_of (n_requests n) i")
  case (Some r)
  have "content_ok c B (n\<lparr>n_requests := map_put i (r\<lparr>cr_entry := f (cr_entry r)\<rparr>) (n_requests n)\<rparr>)"
    using ok f[OF request_fetch_ok[OF ok Some]] by (intro request_put_ok) simp_all
  then show ?thesis by (auto simp: drive_def Some Let_def intro!: content.foldl_P content.originate_and_flood_P)
qed (use ok in \<open>simp add: drive_def\<close>)

lemma waiter_timeout_ok: "content_ok c B n \<Longrightarrow> content_ok c B (waiter_timeout i w n)"
  by (auto simp: waiter_timeout_def Let_def request_del_ok request_put_ok request_fetch_ok reject_ok split: option.splits)

lemma abandon_request_ok: "request_ok B e \<Longrightarrow> request_ok B (abandonFetch p e)" "request_ok B e \<Longrightarrow> request_ok B (contentNotFound p e)"
  using abandon_keeps[of e p] by (simp_all add: request_ok_def) (simp add: contentNotFound_def)

lemma provider_timeout_ok: "content_ok c B n \<Longrightarrow> content_ok c B (provider_timeout env i p n)"
  unfolding provider_timeout_def by (intro drive_ok abandon_request_ok)

lemma handleContentQuery_ok: "content_ok c B n \<Longrightarrow> content_ok c B (handleContentQuery env pk n)"
  by (simp add: handleContentQuery_def case_prod_unfold Let_def content.sending_P readLive_update split: jsval.split option.split)

lemma handleContentRequest_ok:
  assumes ok: "content_ok c B n"
  shows "content_ok c B (handleContentRequest env pk n)"
proof (cases "jfield (pk_payload pk) ''contentId''")
  case (JString i)
  note ok1 = readLive_update[OF ok, of "en_now env" i]
  show ?thesis
    by (simp add: handleContentRequest_def JString case_prod_unfold Let_def content.sending_P content.foldl_P ok1
        split: option.split del: upt_Suc)
qed (simp_all add: handleContentRequest_def ok)

lemma found_ok:
  assumes "request_ok B e" and "\<And>m. md = Some m \<Longrightarrow> m \<in> lg_found B"
  shows "request_ok B (contentFound p md e)"
  using assms found_keeps[of e p md] found_metadata[of p md e] by (auto simp: request_ok_def)

lemma handleContentFound_ok:
  assumes "content_ok c B n" and "\<And>m. metadata_of (jfield (pk_payload pk) ''metadata'') = Some m \<Longrightarrow> m \<in> lg_found B"
  shows "content_ok c B (handleContentFound env pk n)"
  using assms by (auto simp: handleContentFound_def split: jsval.split intro!: drive_ok found_ok)

lemma handleContentNotFound_ok: "content_ok c B n \<Longrightarrow> content_ok c B (handleContentNotFound env pk n)"
  by (auto simp: handleContentNotFound_def split: jsval.split intro!: drive_ok abandon_request_ok)

lemma chunkArrived_ok: "i < m \<Longrightarrow> request_ok B e \<Longrightarrow> request_ok B (chunkArrived p i m e)"
  using note_keeps active_sized by (simp add: request_ok_def) (simp add: chunkArrived_def)

lemma handleContentChunk_ok:
  assumes ok: "content_ok c B n"
  shows "content_ok c B (handleContentChunk env pk n)"
proof -
  have add: "content_ok c B (n\<lparr>n_requester := snd (addChunk i ci tc d (n_requester n))\<rparr>)" for i ci tc d
    by (intro registry_updates ok addChunk_ok registries_ok[OF ok]) simp_all
  have dr: "content_ok c B (drive env i (chunkArrived p j m) n')"
    if "content_ok c B n'" "valid_claim k ci tc = Some (j, m)" for i p j m n' k ci tc
    using that valid_claim_Some[OF that(2)] by (intro drive_ok chunkArrived_ok) simp_all
  show ?thesis
    by (auto simp: handleContentChunk_def case_prod_unfold Let_def ok add split: jsval.split bool.split option.split intro!: dr)
qed

lemma store_transfer_ok:
  assumes ok: "content_ok (en_crypto env) B n" and h: "heard (en_verify env) B (metadata_statements m)"
  shows "content_ok (en_crypto env) B (snd (store_transfer env m data n))"
proof -
  define r where "r = (case data of Some d \<Rightarrow> putVerified (en_crypto env) (store_rank env n) (en_now env) m d (n_store n)
      | None \<Rightarrow> (False, n_store n))"
  have s: "content_ok (en_crypto env) B (n\<lparr>n_store := snd r\<rparr>)"
    using content_store_ok[OF ok] by (intro store_update_ok ok) (simp_all add: r_def putVerified_ok split: option.split)
  have v: "p \<in> lg_trusted B" if "fst r" "cm_publisherId m = Some p" for p
    using that signature_heard[of "en_crypto env" m p B] h by (auto simp: r_def putVerified_accepts split: option.splits)
  have "snd (store_transfer env m data n) = (case cm_publisherId m of
      Some p \<Rightarrow> if fst r \<and> p \<noteq> [] then (n\<lparr>n_store := snd r\<rparr>)\<lparr>n_trust := markVerified p (n_trust (n\<lparr>n_store := snd r\<rparr>))\<rparr>
                else n\<lparr>n_store := snd r\<rparr> | None \<Rightarrow> n\<lparr>n_store := snd r\<rparr>)"
    unfolding store_transfer_def case_prod_unfold Let_def r_def by (rule snd_conv)
  then show ?thesis using s v mark_content_ok[OF s] by (auto split: option.split)
qed

lemma tryAssemble_ok:
  assumes ok: "content_ok (en_crypto env) B n" and fb: "\<And>m. fb = Some m \<Longrightarrow> heard (en_verify env) B (metadata_statements m)"
    and found: "\<And>m. m \<in> lg_found B \<Longrightarrow> heard (en_verify env) B (metadata_statements m)"
  shows "content_ok (en_crypto env) B (tryAssembleAndResolve env i fb n)"
proof -
  have st: "content_ok (en_crypto env) B (snd (store_transfer env m d (n\<lparr>n_requester := snd (tryComplete (en_crypto env) i m (n_requester n))\<rparr>)))"
    if "heard (en_verify env) B (metadata_statements m)" for m d
    by (intro store_transfer_ok registry_updates(5)[OF ok] tryComplete_ok registries_ok(5)[OF ok] that) simp_all
  note cl = request_del_ok[OF st]
  have h: "heard (en_verify env) B (metadata_statements m)" if "map_of (n_requests n) i = Some r"
    "(case fe_metadata (cr_entry r) of Some m \<Rightarrow> Some m | None \<Rightarrow> fb) = Some m" for r m
    using that request_fetch_ok[OF ok that(1)] fb found by (auto simp: request_ok_def split: option.splits)
  show ?thesis
    by (auto simp: tryAssembleAndResolve_def case_prod_unfold Let_def ok st cl split: option.split sum.split
        intro!: content.foldl_P resolve_ok reject_ok dest!: h)
qed

lemma handleContentComplete_ok:
  assumes ok: "content_ok (en_crypto env) B n"
    and h: "heard (en_verify env) B (content_statements (jfield (pk_payload pk) ''metadata''))"
    and found: "\<And>m. m \<in> lg_found B \<Longrightarrow> heard (en_verify env) B (metadata_statements m)"
  shows "content_ok (en_crypto env) B (handleContentComplete env pk n)"
proof -
  have d: "content_ok (en_crypto env) B (drive env i (contentCompleted p) n)" for i p
    using completed_keeps by (intro drive_ok[OF ok]) (simp add: request_ok_def)
  have "heard (en_verify env) B (metadata_statements m)" if "metadata_of (jfield (pk_payload pk) ''metadata'') = Some m" for m
    using h that by (simp add: content_statements_def)
  from tryAssemble_ok[OF d this found] show ?thesis by (simp add: handleContentComplete_def Let_def ok split: jsval.split)
qed

lemma observeRelayed_ok:
  assumes ok: "content_ok (en_crypto env) B n"
    and h: "pk_type pk = CONTENT_COMPLETE \<Longrightarrow> heard (en_verify env) B (content_statements (jfield (pk_payload pk) ''metadata''))"
  shows "content_ok (en_crypto env) B (observeRelayedContent env pk n)"
proof -
  note u = has_update[OF ok]
  have r: "content_ok (en_crypto env) B ((n\<lparr>n_store := snd (cs_has t i (n_store n))\<rparr>)\<lparr>n_relayed := a\<rparr>)"
    if "ca_ok a" "ca_maxEntries a = ca_maxEntries (n_relayed n)" "ca_maxChunksPerEntry a = ca_maxChunksPerEntry (n_relayed n)" for t i a
    using registry_updates(6)[OF u] that by simp
  note a = registries_ok(6)[OF ok]
  show ?thesis
    using h by (auto simp: observeRelayedContent_def case_prod_unfold Let_def content_statements_def ok u a addChunk_ok discard_ok
        tryComplete_ok split: jsval.split option.split intro!: r[simplified] store_transfer_ok)
qed

lemma acceptCatalogEntry_ok:
  assumes ok: "content_ok (en_crypto env) B n" and h: "heard (en_verify env) B (content_statements v)"
  shows "content_ok (en_crypto env) B (snd (acceptCatalogEntry env v n)) \<and>
    (\<forall>m. fst (acceptCatalogEntry env v n) = Some m \<longrightarrow> verifyContentSignature (en_crypto env) m)"
proof (cases "metadata_of v")
  case (Some m)
  define n1 where "n1 = n\<lparr>n_store := snd (cs_has (en_now env) (cm_contentId m) (n_store n))\<rparr>"
  have ok1: "content_ok (en_crypto env) B n1" unfolding n1_def by (rule has_update[OF ok])
  define n2 where "n2 = n1\<lparr>n_catalog := rc_record (en_now env) (live_rank_of n1) m (n_catalog n1)\<rparr>"
  have ok2: "content_ok (en_crypto env) B n2" if "verifyContentSignature (en_crypto env) m"
    unfolding n2_def using that registries_ok(11)[OF ok1] by (intro registry_updates[OF ok1] rc_record_all) simp_all
  have "acceptCatalogEntry env v n =
      (if fst (cs_has (en_now env) (cm_contentId m) (n_store n)) \<or> \<not> verifyContentSignature (en_crypto env) m \<or> expired (en_now env) m
       then (None, n1)
       else (Some m, case cm_publisherId m of
               Some p \<Rightarrow> if p = [] then n2 else n2\<lparr>n_trust := markVerified p (n_trust n2)\<rparr> | None \<Rightarrow> n2))"
    by (simp add: acceptCatalogEntry_def Some case_prod_unfold Let_def n1_def n2_def split: option.split)
  moreover have "heard (en_verify env) B (metadata_statements m)" using h by (simp add: content_statements_def Some)
  ultimately show ?thesis using ok1 ok2 mark_content_ok[OF ok2] signature_heard by (auto split: option.split)
qed (simp add: acceptCatalogEntry_def ok)

lemma acceptIdentity_content:
  assumes ok: "content_ok (en_crypto env) B n" and h: "heard (en_verify env) B (identity_statements v)"
  shows "content_ok (en_crypto env) B (snd (acceptIdentityAnnouncement env v n))"
proof -
  have "content_part (en_crypto env) B (snd (acceptIdentityAnnouncement env v n)) = content_part (en_crypto env) B n"
    by (simp add: acceptIdentityAnnouncement_def case_prod_unfold Let_def content_part_def content_caps_def split: option.split)
  with ok acceptIdentity_ok[OF _ h] show ?thesis by (auto simp: content_ok_def)
qed

lemma considers_ok:
  assumes ok: "content_ok c B n"
  shows "content_ok c B (considerChannelMessage env m n)" "content_ok c B (considerDrop env m p n)"
    "content_ok c B (considerEmergencyBeacon env m p n)" "content_ok c B (considerExternalDeliveryDirectory env m n)"
  using ok registry_updates(7-10)[OF ok]
  by (auto simp: considerChannelMessage_def considerDrop_def considerEmergencyBeacon_def considerExternalDeliveryDirectory_def
      Let_def MAX_CONCURRENT_CHANNEL_FETCHES_def MAX_CONCURRENT_DROP_FETCHES_def MAX_CONCURRENT_BEACON_FETCHES_def
      MAX_CONCURRENT_DIRECTORY_FETCHES_def split: option.split intro!: getContent_ok)

lemma consider_content_ok: "content_ok c B n \<Longrightarrow> content_ok c B (consider_content env m p n)"
  by (simp add: consider_content_def considers_ok)

lemma handleContentAnnounce_ok:
  assumes ok: "content_ok (en_crypto env) B n"
    and h: "heard (en_verify env) B (content_statements (jfield (pk_payload pk) ''metadata''))"
    and h': "heard (en_verify env) B (identity_statements (jfield (pk_payload pk) ''senderAnnouncement''))"
  shows "content_ok (en_crypto env) B (handleContentAnnounce env pk p n)"
proof -
  define n1 where "n1 = snd (acceptCatalogEntry env (jfield (pk_payload pk) ''metadata'') n)"
  have ok1: "content_ok (en_crypto env) B n1" using acceptCatalogEntry_ok[OF ok h] by (simp add: n1_def)
  note e = content.emit_P[OF ok1]
  have put: "content_ok (en_crypto env) B ((emit ev n1)\<lparr>n_store := snd (putVerified (en_crypto env) tr t m d (n_store (emit ev n1)))\<rparr>)"
    for ev tr t m d by (intro store_update_ok[OF e] putVerified_ok content_store_ok[OF e]) simp
  show ?thesis
    by (auto simp: handleContentAnnounce_def case_prod_unfold Let_def n1_def[symmetric] ok1 e put
        split: option.split jsval.split intro!: consider_content_ok acceptIdentity_content[OF _ h'])
qed

lemma accept_entries_ok:
  "content_ok (en_crypto env) B n \<Longrightarrow> heard (en_verify env) B (concat (map content_statements vs)) \<Longrightarrow>
     content_ok (en_crypto env) B (snd (accept_entries env p vs n))"
proof (induction vs arbitrary: n)
  case (Cons v vs)
  have h: "heard (en_verify env) B (content_statements v)" "heard (en_verify env) B (concat (map content_statements vs))"
    using Cons.prems(2) by simp_all
  have a: "content_ok (en_crypto env) B (snd (acceptCatalogEntry env v n))" using acceptCatalogEntry_ok[OF Cons.prems(1) h(1)] by blast
  from Cons.IH[OF a h(2)] Cons.IH[OF consider_content_ok[OF a] h(2)] show ?case
    by (simp add: case_prod_unfold Let_def split: option.split)
qed simp

lemma handleSyncResponse_ok:
  "content_ok (en_crypto env) B n \<Longrightarrow>
     heard (en_verify env) B (concat (map content_statements (array_of (jfield (pk_payload pk) ''entries'')))) \<Longrightarrow>
     content_ok (en_crypto env) B (handleSyncResponse env pk p n)"
  by (simp add: handleSyncResponse_def case_prod_unfold Let_def content.emit_P accept_entries_ok)

lemma listKnown_ok:
  assumes ok: "content_ok c B n"
  shows "content_ok c B (snd (listKnownContent env n))"
proof -
  have "content_ok c B ((n\<lparr>n_catalog := snd (rc_list t (n_catalog n))\<rparr>)\<lparr>n_store := snd (cs_list t (n_store n))\<rparr>)" for t
    by (rule store_update_ok[OF registry_updates(11)[OF ok rc_list_all[OF registries_ok(11)[OF ok]]]])
      (simp_all add: cs_list_ok content_store_ok[OF ok])
  then show ?thesis by (simp add: listKnownContent_def case_prod_unfold Let_def)
qed

lemma startCatalogSync_ok: "content_ok c B n \<Longrightarrow> content_ok c B (startCatalogSync env p n)"
  by (simp add: startCatalogSync_def case_prod_unfold Let_def content.sending_P listKnown_ok)

lemma handleSyncRequest_ok: "content_ok c B n \<Longrightarrow> content_ok c B (handleSyncRequest env pk p n)"
  by (simp add: handleSyncRequest_def case_prod_unfold Let_def content.sending_P listKnown_ok)

section \<open>What the content plane leaves alone\<close>

text \<open>A property that also survives changes of the content fields, of the trust table and of the peer
  directory survives every handler of this theory.\<close>

locale content_observation = mesh_observation P
  for P :: "'a content_node_scheme \<Rightarrow> bool" +
  assumes on_trust: "P n \<Longrightarrow> P (n\<lparr>n_trust := t\<rparr>)"
    and on_directory: "P n \<Longrightarrow> P (n\<lparr>n_directory := d\<rparr>)"
    and on_store: "P n \<Longrightarrow> P (n\<lparr>n_store := x1\<rparr>)"
    and on_catalog: "P n \<Longrightarrow> P (n\<lparr>n_catalog := x2\<rparr>)"
    and on_requester: "P n \<Longrightarrow> P (n\<lparr>n_requester := x3\<rparr>)"
    and on_relayed: "P n \<Longrightarrow> P (n\<lparr>n_relayed := x4\<rparr>)"
    and on_requests: "P n \<Longrightarrow> P (n\<lparr>n_requests := x5\<rparr>)"
    and on_channels: "P n \<Longrightarrow> P (n\<lparr>n_channels := x6\<rparr>)"
    and on_drops: "P n \<Longrightarrow> P (n\<lparr>n_drops := x7\<rparr>)"
    and on_beacons: "P n \<Longrightarrow> P (n\<lparr>n_beacons := x8\<rparr>)"
    and on_destinations: "P n \<Longrightarrow> P (n\<lparr>n_destinations := x9\<rparr>)"
    and on_channelFetches: "P n \<Longrightarrow> P (n\<lparr>n_channelFetches := y1\<rparr>)"
    and on_dropFetches: "P n \<Longrightarrow> P (n\<lparr>n_dropFetches := y2\<rparr>)"
    and on_beaconFetches: "P n \<Longrightarrow> P (n\<lparr>n_beaconFetches := y3\<rparr>)"
    and on_directoryFetches: "P n \<Longrightarrow> P (n\<lparr>n_directoryFetches := y4\<rparr>)"
begin

lemma consume_P:
  assumes p: "P n"
  shows "P (consume env w data n)"
  by (cases w) (simp_all add: consume_def p on_out[OF p] on_channels[OF p] on_drops[OF p] on_beacons[OF p]
      on_destinations[OF p] split: option.split prod.split)

lemma release_P:
  assumes p: "P n"
  shows "P (release w n)"
  by (cases w) (simp_all add: release_def p on_channelFetches[OF p] on_dropFetches[OF p] on_beaconFetches[OF p]
      on_directoryFetches[OF p])

lemma resolve_P: "P n \<Longrightarrow> P (resolve_waiter env data n w)"
  by (simp add: resolve_waiter_def release_P consume_P)

lemma reject_P:
  assumes p: "P n"
  shows "P (reject_waiter n w)"
  using on_out[OF p] release_P[OF p] by (cases w) (simp_all add: reject_waiter_def)

lemma getContent_P:
  assumes p: "P n"
  shows "P (getContent env i w n)"
proof -
  note s = on_store[OF p] and r = on_requests[OF on_store[OF p]]
  show ?thesis
    by (simp add: getContent_def case_prod_unfold Let_def resolve_P[OF s] reject_P[OF s] originate_and_flood_P[OF r] r
        split: option.split sum.split)
qed

lemma drive_P:
  assumes p: "P n"
  shows "P (drive env i f n)"
  using on_requests[OF p] by (auto simp: drive_def Let_def p split: option.split intro!: foldl_P originate_and_flood_P)

lemma timeouts_P:
  assumes p: "P n"
  shows "P (waiter_timeout i w n)" "P (provider_timeout env i q n)"
  using reject_P[OF on_requests[OF p]]
  by (simp_all add: waiter_timeout_def provider_timeout_def Let_def p drive_P[OF p] split: option.split)

lemma store_transfer_P:
  assumes p: "P n"
  shows "P (snd (store_transfer env m d n))"
  using on_store[OF p] on_trust[OF on_store[OF p]]
  by (simp add: store_transfer_def case_prod_unfold Let_def split: option.split)

lemma content_handlers_P:
  assumes p: "P n"
  shows "P (handleContentQuery env pk n)" "P (handleContentRequest env pk n)" "P (handleContentFound env pk n)"
    "P (handleContentNotFound env pk n)"
  using originate_and_flood_P[OF on_store[OF p]] on_store[OF p]
  by (simp_all add: handleContentQuery_def handleContentRequest_def handleContentFound_def handleContentNotFound_def
      case_prod_unfold Let_def p drive_P[OF p] originate_and_flood_P foldl_P split: jsval.split option.split del: upt_Suc)

lemma handleContentChunk_P:
  assumes p: "P n"
  shows "P (handleContentChunk env pk n)"
  using drive_P[OF on_requester[OF p]] on_requester[OF p]
  by (simp add: handleContentChunk_def case_prod_unfold Let_def p split: jsval.split bool.split option.split)

lemma tryAssemble_P:
  assumes p: "P n"
  shows "P (tryAssembleAndResolve env i fb n)"
proof -
  note st = store_transfer_P[OF on_requester[OF p]]
  note cl = on_requests[OF st]
  show ?thesis
    by (auto simp: tryAssembleAndResolve_def case_prod_unfold Let_def p st cl split: option.split sum.split
        intro!: foldl_P resolve_P reject_P)
qed

lemma handleContentComplete_P: "P n \<Longrightarrow> P (handleContentComplete env pk n)"
  by (simp add: handleContentComplete_def Let_def tryAssemble_P drive_P split: jsval.split)

lemma observeRelayed_P:
  assumes p: "P n"
  shows "P (observeRelayedContent env pk n)"
  using on_store[OF p] on_relayed[OF on_store[OF p]] store_transfer_P[OF on_relayed[OF on_store[OF p]]]
  by (simp add: observeRelayedContent_def case_prod_unfold Let_def p split: jsval.split option.split)

lemma acceptCatalogEntry_P:
  assumes p: "P n"
  shows "P (snd (acceptCatalogEntry env v n))"
  using on_store[OF p] on_catalog[OF on_store[OF p]] on_trust[OF on_catalog[OF on_store[OF p]]]
  by (simp add: acceptCatalogEntry_def case_prod_unfold Let_def p split: option.split)

lemma acceptIdentity_P:
  assumes p: "P n"
  shows "P (snd (acceptIdentityAnnouncement env v n))"
  using on_trust[OF on_directory[OF p]]
  by (simp add: acceptIdentityAnnouncement_def case_prod_unfold Let_def p split: option.split)

lemma accept_announcements_P: "P n \<Longrightarrow> P (snd (accept_announcements env vs n))"
proof (induction vs arbitrary: n)
  case (Cons v vs)
  from Cons.IH[OF acceptIdentity_P[OF Cons.prems]] show ?case by (simp add: case_prod_unfold Let_def)
qed simp

lemma identityResponse_P: "P n \<Longrightarrow> P (handleIdentityResponse env pk n)"
  by (simp add: handleIdentityResponse_def case_prod_unfold Let_def emit_P accept_announcements_P)

lemma considers_P:
  assumes p: "P n"
  shows "P (considerChannelMessage env m n)" "P (considerDrop env m q n)"
    "P (considerEmergencyBeacon env m q n)" "P (considerExternalDeliveryDirectory env m n)"
  using on_channelFetches[OF p] on_dropFetches[OF p] on_beaconFetches[OF p] on_directoryFetches[OF p]
  by (simp_all add: considerChannelMessage_def considerDrop_def considerEmergencyBeacon_def
      considerExternalDeliveryDirectory_def Let_def p getContent_P split: option.split)

lemma consider_content_P: "P n \<Longrightarrow> P (consider_content env m q n)"
  by (simp add: consider_content_def considers_P)

lemma handleContentAnnounce_P:
  assumes p: "P n"
  shows "P (handleContentAnnounce env pk q n)"
proof -
  note a = acceptCatalogEntry_P[OF p]
  note e = emit_P[OF a] and s = on_store[OF emit_P[OF a]]
  show ?thesis
    by (simp add: handleContentAnnounce_def case_prod_unfold Let_def a e s consider_content_P acceptIdentity_P
        split: option.split jsval.split)
qed

lemma accept_entries_P: "P n \<Longrightarrow> P (snd (accept_entries env q vs n))"
proof (induction vs arbitrary: n)
  case (Cons v vs)
  note a = acceptCatalogEntry_P[OF Cons.prems]
  from Cons.IH[OF a] Cons.IH[OF consider_content_P[OF a]] show ?case
    by (simp add: case_prod_unfold Let_def split: option.split)
qed simp

lemma sync_P:
  assumes p: "P n"
  shows "P (handleSyncResponse env pk q n)" "P (startCatalogSync env q n)" "P (handleSyncRequest env pk q n)"
  using on_store[OF on_catalog[OF p]]
  by (simp_all add: handleSyncResponse_def startCatalogSync_def handleSyncRequest_def listKnownContent_def
      case_prod_unfold Let_def emit_P accept_entries_P[OF p] originate_and_send_P)

end

end
