(* ===== verification/Node.thy ===== *)
theory Node
  imports NodeContent
begin

text \<open>
  The whole of \<open>NomadNode\<close>'s receiving side (\<open>node/src/node.ts\<close>): private messages with the commands,
  reports and invitations they carry, group messages, services, deliveries to the outside, the
  connect and disconnect callbacks of a transport, the dispatch of \<open>deliver\<close> and \<open>handlePacket\<close>, and
  the submissions that arrive over HTTP. \<open>node\<close> extends \<open>content_node\<close> with the remaining fields.
\<close>

section \<open>Budgets\<close>

text \<open>The \<open>{ windowStart, count }\<close> pairs of the class, which all follow the same rule.\<close>

record budget =
  bw_windowStart :: time
  bw_count :: nat

definition consume_budget :: "time \<Rightarrow> nat \<Rightarrow> time \<Rightarrow> budget \<Rightarrow> bool \<times> budget" where
  "consume_budget windowLength maxPerWindow now w =
     (let w1 = (if now - bw_windowStart w \<ge> windowLength then \<lparr>bw_windowStart = now, bw_count = 0\<rparr> else w)
      in if bw_count w1 \<ge> maxPerWindow then (False, w1) else (True, w1\<lparr>bw_count := bw_count w1 + 1\<rparr>))"

definition WINDOW_MS :: time where "WINDOW_MS = 5 * 60 * 1000"
definition MAX_ELEVATED_DROPS_PER_WINDOW :: nat where "MAX_ELEVATED_DROPS_PER_WINDOW = 3"
definition MAX_EMERGENCY_BEACON_PER_WINDOW :: nat where "MAX_EMERGENCY_BEACON_PER_WINDOW = 3"
definition MAX_ELEVATED_NODE_APPENDS_PER_WINDOW :: nat where "MAX_ELEVATED_NODE_APPENDS_PER_WINDOW = 3"
definition MAX_HTTP_INGESTED_NODE_APPENDS_PER_WINDOW :: nat where "MAX_HTTP_INGESTED_NODE_APPENDS_PER_WINDOW = 20"
definition MAX_RELAY_COMMANDS_PER_WINDOW :: nat where "MAX_RELAY_COMMANDS_PER_WINDOW = 3"
definition MAX_HTTP_INGESTED_RELAY_COMMANDS_PER_WINDOW :: nat where "MAX_HTTP_INGESTED_RELAY_COMMANDS_PER_WINDOW = 3"
definition MAX_HTTP_INGESTED_EXTERNAL_DELIVERIES_PER_WINDOW :: nat where "MAX_HTTP_INGESTED_EXTERNAL_DELIVERIES_PER_WINDOW = 20"
definition MAX_TRACKED_RELAY_COMMAND_SENDERS :: nat where "MAX_TRACKED_RELAY_COMMAND_SENDERS = 256"

section \<open>State\<close>

record node = content_node +
  n_ingestLimiter :: rate_limiter
  n_history :: message_history
  n_groups :: group_store
  n_locations :: location_registry
  n_relays :: relay_registry
  n_appends :: append_store
  n_deliveries :: delivery_queue
  n_services :: service_directory
  n_localServices :: "(string, service_announcement) jsmap"
  n_calls :: "(string, string) jsmap"
  n_elevatedDrops :: budget
  n_beaconWindow :: budget
  n_elevatedAppends :: budget
  n_httpAppends :: budget
  n_httpCommands :: budget
  n_httpDeliveries :: budget
  n_commandWindow :: budget
  n_lastAcceptedCommand :: "(string, rat) bounded_map"
  n_lastSentCommand :: rat

text \<open>The options of the constructor that size the node's stores and set its policies; the configuration that
  never changes is in \<open>env\<close>.\<close>

record node_options =
  op_storeAndForwardTtlMs :: "time option"
  op_maxPendingDeliveries :: "jsnum option"
  op_maxTrustEntries :: "jsnum option"
  op_maxContentStoreEntries :: "jsnum option"
  op_maxRemoteCatalogEntries :: "jsnum option"
  op_maxPacketsPerWindow :: "jsnum option"
  op_rateLimitWindowMs :: "time option"
  op_relayMode :: "relay_mode option"
  op_batteryThreshold :: "rat option"
  op_maxPeerDirectoryEntries :: "jsnum option"
  op_maxRoutingTableEntries :: "jsnum option"
  op_maxRouteCost :: "jsnum option"
  op_maxChunkAssemblyEntries :: "nat option"
  op_maxChunksPerContent :: "nat option"
  op_maxServiceDirectoryEntries :: "jsnum option"
  op_maxMessageHistoryPeers :: "jsnum option"
  op_maxMessagesPerPeer :: "int option"
  op_maxPublicChannels :: "jsnum option"
  op_maxMessagesPerChannel :: "int option"
  op_maxGroups :: "jsnum option"
  op_maxMessagesPerGroup :: "int option"
  op_maxLocationReports :: "jsnum option"
  op_maxLocationReportAgeMs :: "rat option"
  op_maxDrops :: "jsnum option"
  op_maxRelays :: "jsnum option"
  op_maxEmergencyBeacons :: "jsnum option"
  op_maxNodeAppends :: "jsnum option"
  op_maxExternalDeliveryDirectoryPublishers :: "jsnum option"
  op_maxExternalDeliveryEntries :: "nat option"
  op_maxExternalDeliveryBytes :: "nat option"
  op_externalDeliveryTtlMs :: "time option"

definition empty_budget :: budget where "empty_budget = \<lparr>bw_windowStart = 0, bw_count = 0\<rparr>"

definition newNode :: "node_options \<Rightarrow> node" where
  "newNode opts =
     \<lparr>n_peers = [], n_peerTransport = [], n_connections = [], n_trust = tm_new (op_maxTrustEntries opts), n_seen = seen_new None,
      n_routing = rt_new (op_maxRoutingTableEntries opts) (op_maxRouteCost opts),
      n_pending = pdq_new (op_storeAndForwardTtlMs opts) (op_maxPendingDeliveries opts),
      n_limiter = rl_new (op_maxPacketsPerWindow opts) (op_rateLimitWindowMs opts) None,
      n_policy = rp_new (op_relayMode opts) (op_batteryThreshold opts), n_directory = pd_new (op_maxPeerDirectoryEntries opts),
      n_next = 0, n_out = [],
      n_store = cs_new (op_maxContentStoreEntries opts), n_catalog = rc_new (op_maxRemoteCatalogEntries opts),
      n_requester = ca_new (op_maxChunkAssemblyEntries opts) (op_maxChunksPerContent opts),
      n_relayed = ca_new (op_maxChunkAssemblyEntries opts) (op_maxChunksPerContent opts), n_requests = [],
      n_channels = pc_new (op_maxPublicChannels opts) (op_maxMessagesPerChannel opts), n_drops = drops_new (op_maxDrops opts),
      n_beacons = beacons_new (op_maxEmergencyBeacons opts),
      n_destinations = edd_new (op_maxExternalDeliveryDirectoryPublishers opts),
      n_channelFetches = [], n_dropFetches = [], n_beaconFetches = [], n_directoryFetches = [],
      n_ingestLimiter = rl_new (op_maxPacketsPerWindow opts) (op_rateLimitWindowMs opts) None,
      n_history = mh_new (op_maxMessageHistoryPeers opts) (op_maxMessagesPerPeer opts),
      n_groups = gs_new (op_maxGroups opts) (op_maxMessagesPerGroup opts),
      n_locations = lr_new (op_maxLocationReports opts) (op_maxLocationReportAgeMs opts), n_relays = rr_new (op_maxRelays opts),
      n_appends = appends_new (op_maxNodeAppends opts),
      n_deliveries = dq_new (op_maxExternalDeliveryEntries opts) (op_maxExternalDeliveryBytes opts) (op_externalDeliveryTtlMs opts),
      n_services = sd_new (op_maxServiceDirectoryEntries opts), n_localServices = [], n_calls = [],
      n_elevatedDrops = empty_budget, n_beaconWindow = empty_budget, n_elevatedAppends = empty_budget,
      n_httpAppends = empty_budget, n_httpCommands = empty_budget, n_httpDeliveries = empty_budget,
      n_commandWindow = empty_budget,
      n_lastAcceptedCommand = bm_new (Some (Num (of_nat MAX_TRACKED_RELAY_COMMAND_SENDERS))), n_lastSentCommand = 0\<rparr>"

definition command_score :: "'a mesh_scheme \<Rightarrow> (string, rat) score" where
  "command_score n = Some (\<lambda>senderId t. trustRank (tm_get (n_trust n) senderId))"

definition tryConsumeElevatedDropBudget :: "env \<Rightarrow> node \<Rightarrow> bool \<times> node" where
  "tryConsumeElevatedDropBudget env n =
     (let (ok, w) = consume_budget WINDOW_MS MAX_ELEVATED_DROPS_PER_WINDOW (en_now env) (n_elevatedDrops n)
      in (ok, n\<lparr>n_elevatedDrops := w\<rparr>))"

definition tryConsumeElevatedNodeAppendBudget :: "env \<Rightarrow> node \<Rightarrow> bool \<times> node" where
  "tryConsumeElevatedNodeAppendBudget env n =
     (let (ok, w) = consume_budget WINDOW_MS MAX_ELEVATED_NODE_APPENDS_PER_WINDOW (en_now env) (n_elevatedAppends n)
      in (ok, n\<lparr>n_elevatedAppends := w\<rparr>))"

definition tryConsumeHttpIngestedNodeAppendBudget :: "env \<Rightarrow> node \<Rightarrow> bool \<times> node" where
  "tryConsumeHttpIngestedNodeAppendBudget env n =
     (let (ok, w) = consume_budget WINDOW_MS MAX_HTTP_INGESTED_NODE_APPENDS_PER_WINDOW (en_now env) (n_httpAppends n)
      in (ok, n\<lparr>n_httpAppends := w\<rparr>))"

definition tryConsumeHttpIngestedRelayCommandBudget :: "env \<Rightarrow> node \<Rightarrow> bool \<times> node" where
  "tryConsumeHttpIngestedRelayCommandBudget env n =
     (let (ok, w) = consume_budget WINDOW_MS MAX_HTTP_INGESTED_RELAY_COMMANDS_PER_WINDOW (en_now env) (n_httpCommands n)
      in (ok, n\<lparr>n_httpCommands := w\<rparr>))"

definition tryConsumeHttpIngestedExternalDeliveryBudget :: "env \<Rightarrow> node \<Rightarrow> bool \<times> node" where
  "tryConsumeHttpIngestedExternalDeliveryBudget env n =
     (let (ok, w) = consume_budget WINDOW_MS MAX_HTTP_INGESTED_EXTERNAL_DELIVERIES_PER_WINDOW (en_now env) (n_httpDeliveries n)
      in (ok, n\<lparr>n_httpDeliveries := w\<rparr>))"

section \<open>What private messages carry\<close>

definition extractChatText :: "jsval \<Rightarrow> string option" where
  "extractChatText payload = (case jfield payload ''text'' of
     JString text \<Rightarrow> if length text \<le> MAX_MESSAGE_TEXT_LENGTH then Some text else None | _ \<Rightarrow> None)"

definition considerGroupInvite :: "env \<Rightarrow> string \<Rightarrow> group_invite option \<Rightarrow> node \<Rightarrow> node" where
  "considerGroupInvite env senderId invite n = (case invite of
     None \<Rightarrow> n
   | Some g \<Rightarrow> emit (GroupInvited (inv_groupId g) senderId) (n\<lparr>n_groups := addGroup (live_rank_of n)
       \<lparr>gi_groupId = inv_groupId g, gi_name = inv_name g, gi_key = en_unhex env (inv_groupKey g),
        gi_members = inv_members g, gi_createdBy = senderId, gi_createdAt = inv_createdAt g\<rparr> (n_groups n)\<rparr>))"

definition considerLocationReport :: "env \<Rightarrow> string \<Rightarrow> location_payload option \<Rightarrow> node \<Rightarrow> node" where
  "considerLocationReport env senderId report n = (case report of
     None \<Rightarrow> n
   | Some r \<Rightarrow> emit (LocationReported senderId)
       (n\<lparr>n_locations := lr_record (en_now env) (live_rank_of n) senderId r (n_locations n)\<rparr>))"

definition considerNodeAppend :: "env \<Rightarrow> string \<Rightarrow> string \<Rightarrow> append_payload option \<Rightarrow> node \<Rightarrow> node" where
  "considerNodeAppend env senderId appendId payload n = (case payload of
     None \<Rightarrow> n
   | Some p \<Rightarrow>
       if \<not> meetsTrustLevel (tm_get (n_trust n) senderId) (en_minTrustForNodeAppend env) then emit (NodeAppendRejected senderId) n
       else let a = append_payload.extend p \<lparr>na_appendId = appendId, na_author = senderId\<rparr>
         in emit (NodeAppendReceived a) (n\<lparr>n_appends := appends_record (live_rank_of n) a (n_appends n)\<rparr>))"

definition considerRelayTelemetry :: "env \<Rightarrow> string \<Rightarrow> relay_telemetry option \<Rightarrow> node \<Rightarrow> node" where
  "considerRelayTelemetry env senderId report n = (case report of
     None \<Rightarrow> n
   | Some r \<Rightarrow> emit (RelayTelemetryReported senderId) (n\<lparr>n_relays := recordTelemetry (en_now env) senderId r (n_relays n)\<rparr>))"

definition considerRelayCommand :: "env \<Rightarrow> string \<Rightarrow> rat option \<Rightarrow> node \<Rightarrow> node" where
  "considerRelayCommand env senderId command n = (case command of
     None \<Rightarrow> n
   | Some timestamp \<Rightarrow>
       if \<not> meetsTrustLevel (tm_get (n_trust n) senderId) (en_minTrustForRelayCommand env) then emit (RelayCommandRejected senderId) n
       else if (case bm_get (n_lastAcceptedCommand n) senderId of Some t \<Rightarrow> timestamp \<le> t | None \<Rightarrow> False)
       then emit (RelayCommandRejected senderId) n
       else emit (RebootRequested senderId)
         (n\<lparr>n_lastAcceptedCommand := bm_put (command_score n) senderId timestamp (n_lastAcceptedCommand n)\<rparr>))"

text \<open>The announcement a private message carries is used when it is about the sender; then the decrypted payload
  is offered to every consumer in turn.\<close>

definition learn_sender :: "env \<Rightarrow> jsval packet \<Rightarrow> node \<Rightarrow> node" where
  "learn_sender env packet n =
     (let sender = jfield (pk_payload packet) ''senderAnnouncement'' in
      if jfield sender ''nodeId'' \<noteq> JString (pk_source packet) then n
      else let (accepted, n1) = acceptIdentityAnnouncement env sender n
        in if accepted then emit (IdentitySynced [pk_source packet]) n1 else n1)"

definition consider_private :: "env \<Rightarrow> jsval packet \<Rightarrow> jsval \<Rightarrow> node \<Rightarrow> node" where
  "consider_private env packet payload n =
     (let source = pk_source packet;
          n1 = (case extractChatText payload of
                  Some text \<Rightarrow> n\<lparr>n_history := mh_record (en_now env) (live_rank_of n) source Received text (n_history n)\<rparr>
                | None \<Rightarrow> n);
          n2 = considerGroupInvite env source (extractGroupInvite payload) n1;
          n3 = considerLocationReport env source (extractLocationReport payload) n2;
          n4 = considerNodeAppend env source (pk_id packet) (extractNodeAppendPayload payload) n3;
          n5 = considerRelayTelemetry env source (extractRelayTelemetry payload) n4
      in considerRelayCommand env source (extractRelayCommand payload) n5)"

definition handlePrivateMessage :: "env \<Rightarrow> jsval packet \<Rightarrow> node \<Rightarrow> node" where
  "handlePrivateMessage env packet n =
     (let n1 = learn_sender env packet n; failed = emit (PrivateMessageFailed (pk_source packet)) n1 in
      case getKey (n_directory n1) (pk_source packet) of
        None \<Rightarrow> failed
      | Some key \<Rightarrow>
          if key = [] then failed
          else case en_openPrivate env key (pk_payload packet) of
            None \<Rightarrow> failed
          | Some payload \<Rightarrow> emit (PrivateMessage (packet\<lparr>pk_payload := payload\<rparr>)) (consider_private env packet payload n1))"

definition handleGroupMessage :: "env \<Rightarrow> jsval packet \<Rightarrow> node \<Rightarrow> node" where
  "handleGroupMessage env packet n = (case verifyGroupMessage (en_verify env) (pk_payload packet) of
     None \<Rightarrow> n
   | Some p \<Rightarrow> (case getGroup (n_groups n) (gp_groupId p) of
       None \<Rightarrow> n
     | Some info \<Rightarrow> (case decryptGroupMessage (en_openGroup env) p (gi_key info) of
         Inl e \<Rightarrow> emit (GroupMessageFailed (gp_groupId p)) n
       | Inr None \<Rightarrow> n
       | Inr (Some (text, timestamp)) \<Rightarrow>
           let m = \<lparr>gm_groupId = gp_groupId p, gm_senderId = gp_senderId p, gm_text = text, gm_timestamp = timestamp,
                    gm_messageId = gp_signature p\<rparr>
           in emit (GroupMessageReceived m) (n\<lparr>n_groups := recordGroupMessage m (n_groups n)\<rparr>))))"

section \<open>Services\<close>

text \<open>An announcement whose fields have the types of \<open>ServiceAnnouncement\<close>. The code checks that \<open>serviceId\<close> and \<open>providerId\<close> are strings and \<open>capabilities\<close> an array,
  and leaves the rest to the signature, which a provider can make over fields of any type: such an announcement is outside the model and treated as malformed.\<close>

definition service_of :: "jsval \<Rightarrow> service_announcement option" where
  "service_of v = do {
     serviceId \<leftarrow> as_string (jfield v ''serviceId'');
     version \<leftarrow> as_string (jfield v ''version'');
     capabilities \<leftarrow> string_array (jfield v ''capabilities'');
     providerId \<leftarrow> as_string (jfield v ''providerId'');
     resourceRequirements \<leftarrow> optional as_string (jfield v ''resourceRequirements'');
     availability \<leftarrow> as_bool (jfield v ''availability'');
     createdAt \<leftarrow> as_finite (jfield v ''createdAt'');
     signature \<leftarrow> as_string (jfield v ''signature'');
     Some \<lparr>sa_serviceId = serviceId, sa_version = version, sa_capabilities = capabilities, sa_providerId = providerId,
           sa_resourceRequirements = resourceRequirements, sa_availability = availability, sa_createdAt = createdAt,
           sa_signature = signature\<rparr> }"

definition service_json :: "service_announcement \<Rightarrow> jsval" where
  "service_json a = json_object
    [(''serviceId'', JString (sa_serviceId a)), (''version'', JString (sa_version a)),
     (''capabilities'', JArray (map JString (sa_capabilities a))), (''providerId'', JString (sa_providerId a)),
     (''resourceRequirements'', opt_str (sa_resourceRequirements a)), (''availability'', JBool (sa_availability a)),
     (''createdAt'', JNumber (Num (sa_createdAt a))), (''signature'', JString (sa_signature a))]"

definition recordServiceAnnouncement :: "env \<Rightarrow> jsval \<Rightarrow> node \<Rightarrow> node" where
  "recordServiceAnnouncement env v n = (case service_of v of
     None \<Rightarrow> n
   | Some a \<Rightarrow>
       if \<not> verifyServiceAnnouncement (en_verify env) a then n
       else emit (ServiceAnnounced (sa_serviceId a))
         (n\<lparr>n_services := sd_record (live_rank_of n) a (n_services n), n_trust := markVerified (sa_providerId a) (n_trust n)\<rparr>))"

definition handleServiceQuery :: "env \<Rightarrow> jsval packet \<Rightarrow> node \<Rightarrow> node" where
  "handleServiceQuery env packet n =
     (case Option.bind (as_string (jfield (pk_payload packet) ''serviceId'')) (map_of (n_localServices n)) of
        None \<Rightarrow> n
      | Some a \<Rightarrow>
          if \<not> sa_availability a then n
          else originate_and_flood env SERVICE_RESPONSE
            (JObject [(''serviceId'', JString (sa_serviceId a)), (''queryId'', JString (pk_id packet)), (''announcement'', service_json a)])
            (Some (pk_source packet)) (Some SERVICE) n)"

definition nullish_or :: "jsval \<Rightarrow> jsval \<Rightarrow> jsval" where
  "nullish_or v d = (if v \<in> {JUndefined, JNull} then d else v)"

definition respond :: "env \<Rightarrow> jsval packet \<Rightarrow> string + jsval \<Rightarrow> node \<Rightarrow> node" where
  "respond env packet result n = originate_and_flood env SERVICE_RESPONSE
     (json_object [(''serviceId'', nullish_or (jfield (pk_payload packet) ''serviceId'') (JString [])),
        (''requestId'', JString (pk_id packet)), (''result'', case result of Inr v \<Rightarrow> v | Inl e \<Rightarrow> JUndefined),
        (''error'', case result of Inr v \<Rightarrow> JUndefined | Inl e \<Rightarrow> JString e)])
     (Some (pk_source packet)) (Some SERVICE) n"

definition handleServiceRequest :: "env \<Rightarrow> jsval packet \<Rightarrow> node \<Rightarrow> node" where
  "handleServiceRequest env packet n =
     (let v = jfield (pk_payload packet) ''serviceId'' in
      case Option.bind (as_string v) (map_of (n_localServices n)) of
        None \<Rightarrow> respond env packet (Inl (''service '' @ en_show env v @ '' is not available on this node'')) n
      | Some a \<Rightarrow>
          if \<not> sa_availability a
          then respond env packet (Inl (''service '' @ en_show env v @ '' is not available on this node'')) n
          else respond env packet (en_handler env (sa_serviceId a) (jfield (pk_payload packet) ''payload'') (pk_source packet)) n)"

definition handleServiceResponse :: "env \<Rightarrow> jsval packet \<Rightarrow> node \<Rightarrow> node" where
  "handleServiceResponse env packet n =
     (let n1 = recordServiceAnnouncement env (jfield (pk_payload packet) ''announcement'') n in
      case jfield (pk_payload packet) ''requestId'' of
        JString requestId \<Rightarrow>
          (if map_of (n_calls n1) requestId \<noteq> Some (pk_source packet) then n1
           else let n2 = n1\<lparr>n_calls := map_del requestId (n_calls n1)\<rparr>; err = jfield (pk_payload packet) ''error'' in
             if err \<noteq> JUndefined then emit (CallRejected requestId err) n2
             else emit (CallResolved requestId (jfield (pk_payload packet) ''result'')) n2)
      | _ \<Rightarrow> n1)"

section \<open>Deliveries to the outside\<close>

definition queued_from :: "string \<Rightarrow> external_destination \<Rightarrow> delivery_payload \<Rightarrow> queued_delivery" where
  "queued_from packetId destination p =
     \<lparr>qd_packetId = packetId, qd_destinationId = ed_destinationId p, qd_url = xd_url destination,
      qd_senderEphemeralPublicKey = ed_senderEphemeralPublicKey p, qd_nonce = ed_nonce p, qd_ciphertext = ed_ciphertext p,
      qd_authTag = ed_authTag p, qd_submittedAt = ed_submittedAt p, qd_priority = BULK,
      qd_sizeBytes = length (ed_ciphertext p) div 2, qd_expiresAt = 0\<rparr>"

definition authorised :: "env \<Rightarrow> external_destination \<Rightarrow> delivery_payload \<Rightarrow> bool" where
  "authorised env destination p = verifyExternalDeliveryAuthProof (en_sha256 env) (ed_authProof p) (xd_password destination)
     (ed_destinationId p) (ed_nonce p) (ed_ciphertext p) (ed_authTag p)"

definition handleExternalDelivery :: "env \<Rightarrow> jsval packet \<Rightarrow> node \<Rightarrow> node" where
  "handleExternalDelivery env packet n = (case en_allowlist env of
     None \<Rightarrow> n
   | Some allowlist \<Rightarrow> (case extractExternalDeliveryPayload (en_maxExternalBytes env * 2) (pk_payload packet) of
       None \<Rightarrow> n
     | Some p \<Rightarrow> (case map_of allowlist (ed_destinationId p) of
         None \<Rightarrow> n
       | Some destination \<Rightarrow>
           if \<not> authorised env destination p then emit (ExternalDeliveryRejected (ed_destinationId p)) n
           else emit (ExternalDeliveryQueued (pk_id packet))
             (n\<lparr>n_deliveries := dq_enqueue (en_now env) (pk_priority packet) (queued_from (pk_id packet) destination p) (n_deliveries n)\<rparr>))))"

section \<open>Dispatch\<close>

text \<open>One entry of a received peer list: a known shape is an object with a string \<open>id\<close>. An address counts when
  it is truthy.\<close>

definition peer_entries :: "jsval \<Rightarrow> jsval list" where
  "peer_entries v = filter (\<lambda>e. is_object e \<and> as_string (jfield e ''id'') \<noteq> None) (array_of v)"

definition truthy :: "jsval \<Rightarrow> bool" where
  "truthy v \<longleftrightarrow> v \<notin> {JUndefined, JNull, JBool False, JString [], JNumber (Num 0), JNumber NaN}"

definition upsert_peer :: "env \<Rightarrow> node \<Rightarrow> jsval \<Rightarrow> node" where
  "upsert_peer env n e = (case jfield e ''id'' of
     JString i \<Rightarrow>
       (if i = en_nodeId env then n
        else n\<lparr>n_peers := pt_upsert (en_now env) i (if truthy (jfield e ''address'') then Some (jfield e ''address'') else None) (n_peers n)\<rparr>)
   | _ \<Rightarrow> n)"

definition deliver :: "env \<Rightarrow> jsval packet \<Rightarrow> string \<Rightarrow> node \<Rightarrow> node" where
  "deliver env packet from n = (case pk_type packet of
     PING \<Rightarrow> emit (PingFrom (pk_source packet))
       (originate_and_send env PONG (JObject []) (pk_source packet) from n)
   | PONG \<Rightarrow> emit (PongFrom (pk_source packet)) n
   | PEER_LIST \<Rightarrow> (let entries = peer_entries (pk_payload packet) in emit (PeerListFrom entries) (foldl (upsert_peer env) n entries))
   | DATA \<Rightarrow> originate_and_send env ACK (JObject [(''ackOf'', JString (pk_id packet))]) (pk_source packet) from
       (emit (DataFrom packet) n)
   | ACK \<Rightarrow> emit (AckFrom packet) n
   | CONTENT_QUERY \<Rightarrow> handleContentQuery env packet n
   | CONTENT_FOUND \<Rightarrow> handleContentFound env packet n
   | CONTENT_NOT_FOUND \<Rightarrow> handleContentNotFound env packet n
   | CONTENT_REQUEST \<Rightarrow> handleContentRequest env packet n
   | CONTENT_CHUNK \<Rightarrow> handleContentChunk env packet n
   | CONTENT_COMPLETE \<Rightarrow> handleContentComplete env packet n
   | CONTENT_ANNOUNCE \<Rightarrow> handleContentAnnounce env packet from n
   | SYNC_REQUEST \<Rightarrow> handleSyncRequest env packet from n
   | SYNC_RESPONSE \<Rightarrow> handleSyncResponse env packet from n
   | IDENTITY_REQUEST \<Rightarrow> handleIdentityRequest env packet from n
   | IDENTITY_RESPONSE \<Rightarrow> handleIdentityResponse env packet n
   | PRIVATE_MESSAGE \<Rightarrow> handlePrivateMessage env packet n
   | ROUTE_ANNOUNCE \<Rightarrow> handleRouteAnnounce env packet from n
   | SERVICE_ANNOUNCE \<Rightarrow> recordServiceAnnouncement env (jfield (pk_payload packet) ''announcement'') n
   | SERVICE_QUERY \<Rightarrow> handleServiceQuery env packet n
   | SERVICE_REQUEST \<Rightarrow> handleServiceRequest env packet n
   | SERVICE_RESPONSE \<Rightarrow> handleServiceResponse env packet n
   | GROUP_MESSAGE \<Rightarrow> handleGroupMessage env packet n
   | EXTERNAL_DELIVERY \<Rightarrow> handleExternalDelivery env packet n
   | HELLO \<Rightarrow> n
   | OtherType t \<Rightarrow> n)"

definition forward_or_park :: "env \<Rightarrow> jsval packet \<Rightarrow> string \<Rightarrow> node \<Rightarrow> node" where
  "forward_or_park env packet from n =
     (let gate = relayGateFor env from n in
      if gate \<noteq> GateOk
      then emitRelayGateDenied gate from (pk_type packet)
             (if unicast_elsewhere env packet
              then n\<lparr>n_pending := pdq_enqueue (en_now env) packet (Some from) (n_pending n)\<rparr> else n)
      else snd (floodExcept env packet (Some from) n))"

definition handlePacket :: "env \<Rightarrow> jsval packet \<Rightarrow> string \<Rightarrow> node \<Rightarrow> node" where
  "handlePacket env packet from n =
     (let (allowed, l) = allow (en_now env) from (n_limiter n); n1 = n\<lparr>n_limiter := l\<rparr> in
      if \<not> allowed then emit (RateLimitExceeded from (pk_type packet)) n1
      else
        let n2 = n1\<lparr>n_peers := pt_touch (en_now env) from (n_peers n1)\<rparr> in
        if pk_type packet = HELLO then n2
        else
          let (d, seen) = decideForward (en_now env) packet (en_nodeId env) (n_seen n2); n3 = n2\<lparr>n_seen := seen\<rparr> in
          if duplicate d then n3
          else
            let n4 = (if \<not> deliverLocally d \<and> (pk_type packet = CONTENT_CHUNK \<or> pk_type packet = CONTENT_COMPLETE)
                      then observeRelayedContent env packet n3 else n3);
                n5 = (if deliverLocally d then deliver env packet from n4 else n4)
            in case forwardPacket d of Some p \<Rightarrow> forward_or_park env p from n5 | None \<Rightarrow> n5)"

section \<open>Connecting and disconnecting\<close>

definition peerConnected :: "env \<Rightarrow> nat \<Rightarrow> string \<Rightarrow> jsval option \<Rightarrow> node \<Rightarrow> node" where
  "peerConnected env transport peerId address n =
     (let n1 = n\<lparr>n_peers := pt_upsert (en_now env) peerId address (n_peers n),
                n_peerTransport := map_put peerId transport (n_peerTransport n),
                n_trust := markSeen peerId (n_trust n),
                n_connections := map_put peerId ((case map_of (n_connections n) peerId of Some k \<Rightarrow> k | None \<Rightarrow> 0) + 1) (n_connections n),
                n_relays := markOnline peerId (en_now env) (n_relays n)\<rparr>;
          n2 = emit (PeerConnected peerId) n1;
          n3 = startIdentitySync env peerId (startCatalogSync env peerId (flushPendingDeliveries env n2));
          (isNewDirectRoute, t) = offer (live_rank_of n3) peerId peerId (Num 1) (n_routing n3);
          n4 = announceRoutes env peerId None (n3\<lparr>n_routing := t\<rparr>)
      in if isNewDirectRoute then announce_to_others env peerId [peerId] n4 else n4)"

definition peerDisconnected :: "env \<Rightarrow> string \<Rightarrow> node \<Rightarrow> node" where
  "peerDisconnected env peerId n =
     (let remaining = (case map_of (n_connections n) peerId of Some k \<Rightarrow> k | None \<Rightarrow> 1) - 1;
          n1 = n\<lparr>n_peers := pt_remove peerId (n_peers n), n_peerTransport := map_del peerId (n_peerTransport n),
                 n_limiter := reset peerId (n_limiter n)\<rparr>;
          n2 = (if remaining \<le> 0
                then n1\<lparr>n_connections := map_del peerId (n_connections n1), n_relays := markOffline peerId (en_now env) (n_relays n1)\<rparr>
                else n1\<lparr>n_connections := map_put peerId remaining (n_connections n1)\<rparr>);
          n3 = emit (PeerDisconnected peerId) n2;
          (gone, t) = removeRoutesVia peerId (n_routing n3); n4 = n3\<lparr>n_routing := t\<rparr>
      in if gone \<noteq> [] then broadcastWithdrawal env gone peerId n4 else n4)"

section \<open>Submissions over HTTP\<close>

datatype ingest_result = Accepted | Rejected | RateLimited

definition ingest_allowed :: "env \<Rightarrow> string option \<Rightarrow> node \<Rightarrow> bool \<times> node" where
  "ingest_allowed env who n = (case who of
     None \<Rightarrow> (True, n)
   | Some i \<Rightarrow> let (ok, l) = allow (en_now env) i (n_ingestLimiter n) in (ok, n\<lparr>n_ingestLimiter := l\<rparr>))"

definition dropKindPriority :: "drop_kind \<Rightarrow> priority" where
  "dropKindPriority k = (case k of EmergencyDrop \<Rightarrow> EMERGENCY | HazardDrop \<Rightarrow> MESSAGING | InfoDrop \<Rightarrow> CONTENT)"

definition announce_content :: "env \<Rightarrow> content_metadata \<Rightarrow> priority \<Rightarrow> bytes option \<Rightarrow> identity_announcement option \<Rightarrow> 'a mesh_scheme \<Rightarrow> 'a mesh_scheme" where
  "announce_content env m prio data sender n = originate_and_flood env CONTENT_ANNOUNCE
     (json_object [(''metadata'', metadata_json m), (''data'', opt_str (map_option (en_base64 env) data)),
        (''senderAnnouncement'', case sender of Some a \<Rightarrow> announcement_json a | None \<Rightarrow> JUndefined)]) None (Some prio) n"

definition submitted_drop :: "env \<Rightarrow> content_metadata \<Rightarrow> bytes \<Rightarrow> drop_payload option" where
  "submitted_drop env m data =
     (if cm_name m = JString DROP_CONTENT_NAME then Option.bind (en_parseJson env data) extractDropPayload else None)"

definition store_submission :: "env \<Rightarrow> content_metadata \<Rightarrow> bytes \<Rightarrow> bool \<Rightarrow> priority \<Rightarrow> node \<Rightarrow> ingest_result \<times> node" where
  "store_submission env m data announce prio n =
     (let (stored, s) = putVerified (en_crypto env) (store_rank env n) (en_now env) m data (n_store n);
          n1 = n\<lparr>n_store := s\<rparr>
      in if \<not> stored then (Rejected, n1)
      else
        let n2 = (if announce then announce_content env m prio None None n1 else n1)
        in (Accepted, case publisher_of m of Some p \<Rightarrow> considerDrop env m p n2 | None \<Rightarrow> n2))"

definition ingestSignedContent :: "env \<Rightarrow> content_metadata \<Rightarrow> bytes \<Rightarrow> bool \<Rightarrow> priority option \<Rightarrow> node \<Rightarrow> ingest_result \<times> node" where
  "ingestSignedContent env m data announce prio n =
     (let (ok, n1) = ingest_allowed env (publisher_of m) n in
      if \<not> ok then (RateLimited, n1)
      else if computeContentId (en_crypto env) data \<noteq> cm_contentId m \<or> \<not> verifyContentSignature (en_crypto env) m then (Rejected, n1)
      else if expired (en_now env) m then (Rejected, n1)
      else case submitted_drop env m data of
        None \<Rightarrow> store_submission env m data announce (case prio of Some p \<Rightarrow> p | None \<Rightarrow> CONTENT) n1
      | Some p \<Rightarrow>
          (let (budget, n2) = (if dp_kind p \<noteq> InfoDrop then tryConsumeElevatedDropBudget env n1 else (True, n1))
           in if \<not> budget then (RateLimited, n2)
              else store_submission env m data announce (dropKindPriority (dp_kind p)) n2))"

definition ingestSignedNodeAppend :: "env \<Rightarrow> jsval \<Rightarrow> node \<Rightarrow> ingest_result \<times> node" where
  "ingestSignedNodeAppend env submission n =
     (let (ok, n1) = ingest_allowed env (as_string (jfield submission ''publisherId'')) n in
      if \<not> ok then (RateLimited, n1)
      else case verifySignedNodeAppendSubmission (en_verify env) submission of
        None \<Rightarrow> (Rejected, n1)
      | Some v \<Rightarrow>
          if as_targetNodeId v \<noteq> en_nodeId env then (Rejected, n1)
          else if ap_expiresAt v \<le> en_now env then (Rejected, n1)
          else
            let (http, n2) = tryConsumeHttpIngestedNodeAppendBudget env n1 in
            if \<not> http then (RateLimited, n2)
            else
              let (elevated, n3) = (if ap_kind v \<noteq> InfoDrop then tryConsumeElevatedNodeAppendBudget env n2 else (True, n2)) in
              if \<not> elevated then (RateLimited, n3)
              else
                let a = append_payload.extend (append_payload.truncate v) \<lparr>na_appendId = as_signature v, na_author = as_publisherId v\<rparr>
                in (Accepted, emit (NodeAppendReceived a) (n3\<lparr>n_appends := appends_record (live_rank_of n3) a (n_appends n3)\<rparr>)))"

definition ingestSignedRelayCommand :: "env \<Rightarrow> jsval \<Rightarrow> node \<Rightarrow> ingest_result \<times> node" where
  "ingestSignedRelayCommand env submission n =
     (let (ok, n1) = ingest_allowed env (as_string (jfield submission ''publisherId'')) n in
      if \<not> ok then (RateLimited, n1)
      else case verifySignedRelayCommandSubmission (en_verify env) submission of
        None \<Rightarrow> (Rejected, n1)
      | Some v \<Rightarrow>
          if rcmd_targetNodeId v \<noteq> en_nodeId env then (Rejected, n1)
          else if (case bm_get (n_lastAcceptedCommand n1) (rcmd_publisherId v) of Some t \<Rightarrow> rcmd_timestamp v \<le> t | None \<Rightarrow> False)
          then (Rejected, n1)
          else
            let (http, n2) = tryConsumeHttpIngestedRelayCommandBudget env n1 in
            if \<not> http then (RateLimited, n2)
            else (Accepted, emit (RebootRequested (rcmd_publisherId v))
              (n2\<lparr>n_lastAcceptedCommand := bm_put (command_score n2) (rcmd_publisherId v) (rcmd_timestamp v) (n_lastAcceptedCommand n2)\<rparr>)))"

definition ingestExternalDelivery :: "env \<Rightarrow> jsval \<Rightarrow> node \<Rightarrow> ingest_result \<times> node" where
  "ingestExternalDelivery env payload n = (case en_allowlist env of
     None \<Rightarrow> (Rejected, n)
   | Some allowlist \<Rightarrow> (case extractExternalDeliveryPayload (en_maxExternalBytes env * 2) payload of
       None \<Rightarrow> (Rejected, n)
     | Some p \<Rightarrow> (case map_of allowlist (ed_destinationId p) of
         None \<Rightarrow> (Rejected, n)
       | Some destination \<Rightarrow>
           if \<not> authorised env destination p then (Rejected, n)
           else
             let (ok, n1) = ingest_allowed env (Some (ed_destinationId p)) n in
             if \<not> ok then (RateLimited, n1)
             else
               let (http, n2) = tryConsumeHttpIngestedExternalDeliveryBudget env n1 in
               if \<not> http then (RateLimited, n2)
               else
                 let packetId = ''http-ingest:'' @ en_sha256 env (ed_destinationId p @ '':'' @ ed_nonce p @ '':'' @ ed_ciphertext p @ '':'' @ ed_authTag p)
                 in (Accepted, emit (ExternalDeliveryQueued (ed_destinationId p))
                   (n2\<lparr>n_deliveries := dq_enqueue (en_now env) (priority_val CONTENT) (queued_from packetId destination p) (n_deliveries n2)\<rparr>)))))"

section \<open>Invariant of the whole node\<close>

definition service_statements :: "jsval \<Rightarrow> statement list" where
  "service_statements v = (case service_of v of
     None \<Rightarrow> [] | Some a \<Rightarrow> [(sa_providerId a, serviceSigningPayload a, sa_signature a)])"

text \<open>The signed statements a packet makes that a receiver may act on by trusting the signer.\<close>

definition packet_statements :: "jsval packet \<Rightarrow> statement list" where
  "packet_statements pk = (case pk_type pk of
     IDENTITY_RESPONSE \<Rightarrow> concat (map identity_statements (array_of (jfield (pk_payload pk) ''announcements'')))
   | PRIVATE_MESSAGE \<Rightarrow> identity_statements (jfield (pk_payload pk) ''senderAnnouncement'')
   | CONTENT_ANNOUNCE \<Rightarrow> content_statements (jfield (pk_payload pk) ''metadata'') @ identity_statements (jfield (pk_payload pk) ''senderAnnouncement'')
   | CONTENT_COMPLETE \<Rightarrow> content_statements (jfield (pk_payload pk) ''metadata'')
   | SYNC_RESPONSE \<Rightarrow> concat (map content_statements (array_of (jfield (pk_payload pk) ''entries'')))
   | SERVICE_ANNOUNCE \<Rightarrow> service_statements (jfield (pk_payload pk) ''announcement'')
   | SERVICE_RESPONSE \<Rightarrow> service_statements (jfield (pk_payload pk) ''announcement'')
   | _ \<Rightarrow> [])"

text \<open>The metadata a provider offers for a transfer: it is what the transfer's end will verify.\<close>

definition offered_metadata :: "jsval packet \<Rightarrow> content_metadata option" where
  "offered_metadata pk = (if pk_type pk = CONTENT_FOUND then metadata_of (jfield (pk_payload pk) ''metadata'') else None)"

definition packet_heard :: "verifier \<Rightarrow> ledger \<Rightarrow> jsval packet \<Rightarrow> bool" where
  "packet_heard vf B pk \<longleftrightarrow> heard vf B (packet_statements pk) \<and>
     (\<forall>m. offered_metadata pk = Some m \<longrightarrow> m \<in> lg_found B) \<and>
     (pk_type pk = CONTENT_COMPLETE \<longrightarrow> (\<forall>m \<in> lg_found B. heard vf B (metadata_statements m)))"

definition node_caps :: "node \<Rightarrow> jsnum list" where
  "node_caps n = [bm_max (windows (n_ingestLimiter n)), bm_max (conversations (n_history n)),
     Num (of_int (maxMessagesPerPeer (n_history n))), bm_max (gs_groups (n_groups n)), Num (of_int (maxMessagesPerGroup (n_groups n))),
     bm_max (lr_reports (n_locations n)), bm_max (n_relays n), bm_max (n_appends n),
     Num (of_nat (dq_maxEntries (n_deliveries n))), Num (of_nat (dq_maxTotalBytes (n_deliveries n))),
     bm_max (n_services n), bm_max (n_lastAcceptedCommand n)]"

definition node_part :: "verifier \<Rightarrow> ledger \<Rightarrow> node \<Rightarrow> bool" where
  "node_part vf B n \<longleftrightarrow> rl_ok (n_ingestLimiter n) \<and> mh_ok (n_history n) \<and> gs_ok (n_groups n) \<and>
     bm_ok (lr_reports (n_locations n)) \<and> bm_ok (n_relays n) \<and> bm_ok (n_appends n) \<and> dq_ok (n_deliveries n) \<and>
     bm_all (\<lambda>k a. verifyServiceAnnouncement vf a) (n_services n) \<and> bm_ok (n_lastAcceptedCommand n) \<and> node_caps n = lg_node B"

definition node_ok :: "content_env \<Rightarrow> ledger \<Rightarrow> node \<Rightarrow> bool" where
  "node_ok c B n \<longleftrightarrow> content_ok c B n \<and> node_part (verifyWithNodeId c) B n"

interpretation part: content_observation "node_part vf B" for vf B
  by unfold_locales (simp_all add: node_part_def node_caps_def)

interpretation whole: mesh_observation "node_ok c B" for c B
  by unfold_locales (auto simp: node_ok_def content.on_out content.on_next content.on_seen content.on_enqueue
      content.on_requeue content.on_drain part.on_out part.on_next part.on_seen part.on_enqueue part.on_requeue part.on_drain)

lemma new_tables_ok [simp]:
  "tm_ok (tm_new m)" "rt_ok (rt_new m k)" "pdq_ok (pdq_new t m)" "cs_ok c (cs_new m)" "ca_ok (ca_new a b)"
  by (rule tm_new_ok rt_new_ok pdq_new_ok cs_new_ok ca_new_ok)+

lemma new_stores_ok [simp]:
  "trust_earned B (tm_new m)" "bm_ok (seen_new m)"
  "rl_ok (rl_new m t k)" "pd_ok vf (pd_new m)" "pc_ok (pc_new m i)"
  "bm_ok (drops_new m)" "bm_ok (beacons_new m)" "bm_ok (edd_new m)" "mh_ok (mh_new m i)" "gs_ok (gs_new m i)"
  "bm_ok (lr_reports (lr_new m r))" "bm_ok (rr_new m)" "bm_ok (appends_new m)" "dq_ok (dq_new a b t)"
  "bm_all P (rc_new m)" "bm_all Q (sd_new m)"
  by (simp_all add: trust_earned_def tm_new_def tm_get_def
      less_eq_trust_level_def seen_new_def rl_ok_def rl_new_def pd_ok_def pd_new_def pc_ok_def pc_new_def drops_new_def
      beacons_new_def edd_new_def mh_ok_def mh_new_def gs_ok_def gs_new_def lr_new_def rr_new_def appends_new_def
      dq_ok_def dq_counted_def dq_new_def dq_over_def total_size_def rc_new_def sd_new_def)

text \<open>The ledger of a node made with \<open>opts\<close>.\<close>

definition ledger_of :: "node_options \<Rightarrow> string set \<Rightarrow> content_metadata set \<Rightarrow> ledger" where
  "ledger_of opts A M = \<lparr>lg_trusted = A, lg_found = M, lg_mesh = mesh_caps (newNode opts), lg_content = content_caps (newNode opts),
     lg_node = node_caps (newNode opts)\<rparr>"

lemma ledger_fields [simp]: "lg_trusted (ledger_of opts A M) = A" "lg_found (ledger_of opts A M) = M"
  by (simp_all add: ledger_of_def)

lemma newNode_ok: "node_ok c (ledger_of opts A M) (newNode opts)"
  by (simp add: node_ok_def node_part_def content_ok_def content_part_def mesh_ok_def ledger_of_def) (simp add: newNode_def)

lemma node_fields_ok:
  assumes "node_ok c B n"
  shows "rl_ok (n_ingestLimiter n)" "mh_ok (n_history n)" "gs_ok (n_groups n)" "bm_ok (lr_reports (n_locations n))"
    "bm_ok (n_relays n)" "bm_ok (n_appends n)" "dq_ok (n_deliveries n)"
    "bm_all (\<lambda>k a. verifyServiceAnnouncement (verifyWithNodeId c) a) (n_services n)" "bm_ok (n_lastAcceptedCommand n)"
  using assms by (simp_all add: node_ok_def node_part_def)

lemma node_updates:
  assumes "node_ok c B n"
  shows "rl_ok x1 \<Longrightarrow> bm_max (windows x1) = bm_max (windows (n_ingestLimiter n)) \<Longrightarrow> node_ok c B (n\<lparr>n_ingestLimiter := x1\<rparr>)"
    "mh_ok x2 \<Longrightarrow> bm_max (conversations x2) = bm_max (conversations (n_history n)) \<Longrightarrow>
      maxMessagesPerPeer x2 = maxMessagesPerPeer (n_history n) \<Longrightarrow> node_ok c B (n\<lparr>n_history := x2\<rparr>)"
    "gs_ok x3 \<Longrightarrow> bm_max (gs_groups x3) = bm_max (gs_groups (n_groups n)) \<Longrightarrow>
      maxMessagesPerGroup x3 = maxMessagesPerGroup (n_groups n) \<Longrightarrow> node_ok c B (n\<lparr>n_groups := x3\<rparr>)"
    "bm_ok (lr_reports x4) \<Longrightarrow> bm_max (lr_reports x4) = bm_max (lr_reports (n_locations n)) \<Longrightarrow> node_ok c B (n\<lparr>n_locations := x4\<rparr>)"
    "bm_ok x5 \<Longrightarrow> bm_max x5 = bm_max (n_relays n) \<Longrightarrow> node_ok c B (n\<lparr>n_relays := x5\<rparr>)"
    "bm_ok x6 \<Longrightarrow> bm_max x6 = bm_max (n_appends n) \<Longrightarrow> node_ok c B (n\<lparr>n_appends := x6\<rparr>)"
    "dq_ok x7 \<Longrightarrow> dq_maxEntries x7 = dq_maxEntries (n_deliveries n) \<Longrightarrow> dq_maxTotalBytes x7 = dq_maxTotalBytes (n_deliveries n) \<Longrightarrow>
      node_ok c B (n\<lparr>n_deliveries := x7\<rparr>)"
    "bm_all (\<lambda>k a. verifyServiceAnnouncement (verifyWithNodeId c) a) x8 \<Longrightarrow> bm_max x8 = bm_max (n_services n) \<Longrightarrow>
      node_ok c B (n\<lparr>n_services := x8\<rparr>)"
    "bm_ok x9 \<Longrightarrow> bm_max x9 = bm_max (n_lastAcceptedCommand n) \<Longrightarrow> node_ok c B (n\<lparr>n_lastAcceptedCommand := x9\<rparr>)"
    "node_ok c B (n\<lparr>n_localServices := y1\<rparr>)" "node_ok c B (n\<lparr>n_calls := y2\<rparr>)"
    "node_ok c B (n\<lparr>n_elevatedDrops := w1\<rparr>)" "node_ok c B (n\<lparr>n_beaconWindow := w2\<rparr>)" "node_ok c B (n\<lparr>n_elevatedAppends := w3\<rparr>)"
    "node_ok c B (n\<lparr>n_httpAppends := w4\<rparr>)" "node_ok c B (n\<lparr>n_httpCommands := w5\<rparr>)" "node_ok c B (n\<lparr>n_httpDeliveries := w6\<rparr>)"
    "node_ok c B (n\<lparr>n_commandWindow := w7\<rparr>)" "node_ok c B (n\<lparr>n_lastSentCommand := w8\<rparr>)"
  using assms by (simp_all add: node_ok_def node_part_def node_caps_def content_ok_def content_part_def content_caps_def mesh_ok_def
      mesh_caps_def)

lemma node_mesh_updates:
  assumes "node_ok c B n"
  shows "node_ok c B (n\<lparr>n_peers := z1\<rparr>)" "node_ok c B (n\<lparr>n_peerTransport := z2\<rparr>)" "node_ok c B (n\<lparr>n_connections := z3\<rparr>)"
    "rt_ok z4 \<Longrightarrow> bm_max (routes z4) = bm_max (routes (n_routing n)) \<Longrightarrow> node_ok c B (n\<lparr>n_routing := z4\<rparr>)"
    "rl_ok z5 \<Longrightarrow> bm_max (windows z5) = bm_max (windows (n_limiter n)) \<Longrightarrow> node_ok c B (n\<lparr>n_limiter := z5\<rparr>)"
    "bm_ok z6 \<Longrightarrow> bm_max z6 = bm_max (n_seen n) \<Longrightarrow> node_ok c B (n\<lparr>n_seen := z6\<rparr>)"
    "tm_ok t \<Longrightarrow> trust_earned B t \<Longrightarrow> tm_maxSize t = tm_maxSize (n_trust n) \<Longrightarrow> node_ok c B (n\<lparr>n_trust := t\<rparr>)"
  using assms by (simp_all add: node_ok_def node_part_def node_caps_def content_ok_def content_part_def content_caps_def mesh_ok_def
      mesh_caps_def)

lemma node_mesh_ok:
  assumes "node_ok c B n"
  shows "rt_ok (n_routing n)" "rl_ok (n_limiter n)" "bm_ok (n_seen n)" "tm_ok (n_trust n)"
    "trust_earned B (n_trust n)" "pdq_ok (n_pending n)"
  using assms by (simp_all add: node_ok_def content_ok_def mesh_ok_def)

text \<open>The content handlers, on the whole node.\<close>

lemma content_handlers_ok:
  assumes ok: "node_ok (en_crypto env) B n"
  shows "node_ok (en_crypto env) B (handleContentQuery env pk n)" "node_ok (en_crypto env) B (handleContentRequest env pk n)"
    "node_ok (en_crypto env) B (handleContentNotFound env pk n)" "node_ok (en_crypto env) B (handleContentChunk env pk n)"
    "node_ok (en_crypto env) B (handleSyncRequest env pk p n)" "node_ok (en_crypto env) B (startCatalogSync env p n)"
    "node_ok (en_crypto env) B (waiter_timeout i w n)" "node_ok (en_crypto env) B (provider_timeout env i p n)"
    "node_ok (en_crypto env) B (considerDrop env m p n)" "node_ok (en_crypto env) B (getContent env i w n)"
  using ok by (simp_all add: node_ok_def handleContentQuery_ok handleContentRequest_ok handleContentNotFound_ok handleContentChunk_ok
      handleSyncRequest_ok startCatalogSync_ok waiter_timeout_ok provider_timeout_ok considers_ok getContent_ok
      part.content_handlers_P part.handleContentChunk_P part.sync_P part.timeouts_P part.considers_P part.getContent_P)

lemma content_heard_ok:
  assumes ok: "node_ok (en_crypto env) B n" and h: "packet_heard (en_verify env) B pk"
  shows "pk_type pk = CONTENT_FOUND \<Longrightarrow> node_ok (en_crypto env) B (handleContentFound env pk n)"
    "pk_type pk = CONTENT_COMPLETE \<Longrightarrow> node_ok (en_crypto env) B (handleContentComplete env pk n)"
    "pk_type pk = CONTENT_ANNOUNCE \<Longrightarrow> node_ok (en_crypto env) B (handleContentAnnounce env pk p n)"
    "pk_type pk = SYNC_RESPONSE \<Longrightarrow> node_ok (en_crypto env) B (handleSyncResponse env pk p n)"
    "node_ok (en_crypto env) B (observeRelayedContent env pk n)"
proof -
  have "heard (en_verify env) B (content_statements (jfield (pk_payload pk) ''metadata''))" if "pk_type pk = CONTENT_COMPLETE"
    using h that by (simp add: packet_heard_def packet_statements_def)
  then show "node_ok (en_crypto env) B (observeRelayedContent env pk n)"
    using ok by (simp add: node_ok_def observeRelayed_ok part.observeRelayed_P)
qed (use ok h in \<open>simp_all add: node_ok_def packet_heard_def packet_statements_def offered_metadata_def handleContentFound_ok
    handleContentComplete_ok handleContentAnnounce_ok handleSyncResponse_ok part.content_handlers_P
    part.handleContentComplete_P part.handleContentAnnounce_P part.sync_P\<close>)

lemma apply_route_whole:
  assumes ok: "node_ok c B n"
  shows "node_ok c B (snd (apply_route env p e n))"
proof -
  note r = node_mesh_ok(1)[OF ok]
  show ?thesis
    by (auto simp: apply_route_def case_prod_unfold Let_def ok offer_ok[OF r] withdraw_ok[OF r] split: jsval.split
        intro!: node_mesh_updates(4)[OF ok])
qed

lemma apply_routes_whole: "node_ok c B n \<Longrightarrow> node_ok c B (snd (apply_routes env p es n))"
proof (induction es arbitrary: n)
  case (Cons e es)
  from Cons.IH[OF apply_route_whole[OF Cons.prems]] show ?case by (simp add: case_prod_unfold Let_def)
qed simp

lemma route_announce_whole: "node_ok c B n \<Longrightarrow> node_ok c B (handleRouteAnnounce env pk p n)"
  by (simp add: handleRouteAnnounce_def case_prod_unfold Let_def whole.sending_P apply_routes_whole)

lemma acceptIdentity_whole:
  "node_ok (en_crypto env) B n \<Longrightarrow> heard (en_verify env) B (identity_statements v) \<Longrightarrow>
     node_ok (en_crypto env) B (snd (acceptIdentityAnnouncement env v n))"
  by (simp add: node_ok_def acceptIdentity_content part.acceptIdentity_P)

lemma accept_announcements_whole:
  "node_ok (en_crypto env) B n \<Longrightarrow> heard (en_verify env) B (concat (map identity_statements vs)) \<Longrightarrow>
     node_ok (en_crypto env) B (snd (accept_announcements env vs n))"
proof (induction vs arbitrary: n)
  case (Cons v vs)
  from Cons.prems(2) have h: "heard (en_verify env) B (identity_statements v)"
    "heard (en_verify env) B (concat (map identity_statements vs))" by simp_all
  from Cons.IH[OF acceptIdentity_whole[OF Cons.prems(1) h(1)] h(2)] show ?case by (simp add: case_prod_unfold Let_def)
qed simp

lemma identity_response_whole:
  "node_ok (en_crypto env) B n \<Longrightarrow> packet_heard (en_verify env) B pk \<Longrightarrow> pk_type pk = IDENTITY_RESPONSE \<Longrightarrow>
     node_ok (en_crypto env) B (handleIdentityResponse env pk n)"
  by (simp add: handleIdentityResponse_def case_prod_unfold Let_def whole.emit_P accept_announcements_whole packet_heard_def
      packet_statements_def)

lemma lr_record_ok: "bm_ok (lr_reports l) \<Longrightarrow> bm_ok (lr_reports (lr_record now tr i r l))"
  by (auto simp: lr_record_def Let_def split: option.split)

lemma relays_ok:
  assumes "bm_ok r"
  shows "bm_ok (recordTelemetry now i t r)" "bm_ok (markOnline i now r)" "bm_ok (markOffline i now r)" "bm_ok (snd (rr_upsert now f r))"
  using assms by (auto simp: recordTelemetry_def markOnline_def markOffline_def rr_upsert_def Let_def split: option.split)

lemma appends_record_ok: "bm_ok s \<Longrightarrow> bm_ok (appends_record tr a s)"
  by (auto simp: appends_record_def)

lemma private_parts_ok:
  assumes ok: "node_ok c B n"
  shows "node_ok c B (considerGroupInvite env p g n)" "node_ok c B (considerLocationReport env p l n)"
    "node_ok c B (considerNodeAppend env p i a n)" "node_ok c B (considerRelayTelemetry env p t n)"
    "node_ok c B (considerRelayCommand env p cmd n)"
  using node_updates(3)[OF ok addGroup_ok[OF node_fields_ok(3)[OF ok]]]
    node_updates(4)[OF ok lr_record_ok[OF node_fields_ok(4)[OF ok]]]
    node_updates(6)[OF ok appends_record_ok[OF node_fields_ok(6)[OF ok]]]
    node_updates(5)[OF ok relays_ok(1)[OF node_fields_ok(5)[OF ok]]]
    node_updates(9)[OF ok bm_set_ok[OF node_fields_ok(9)[OF ok]]]
  by (simp_all add: considerGroupInvite_def considerLocationReport_def considerNodeAppend_def considerRelayTelemetry_def
      considerRelayCommand_def Let_def whole.emit_P ok split: option.split)

lemma learn_sender_whole:
  "node_ok (en_crypto env) B n \<Longrightarrow> packet_heard (en_verify env) B pk \<Longrightarrow> pk_type pk = PRIVATE_MESSAGE \<Longrightarrow> node_ok (en_crypto env) B (learn_sender env pk n)"
  by (simp add: learn_sender_def case_prod_unfold Let_def whole.emit_P acceptIdentity_whole packet_heard_def packet_statements_def)

lemma consider_private_whole:
  assumes ok: "node_ok c B n"
  shows "node_ok c B (consider_private env pk v n)"
  using node_updates(2)[OF ok mh_record_ok[OF node_fields_ok(2)[OF ok]]]
  by (simp add: consider_private_def Let_def ok private_parts_ok split: option.split)

lemma private_message_whole:
  assumes ok: "node_ok (en_crypto env) B n" and h: "packet_heard (en_verify env) B pk" "pk_type pk = PRIVATE_MESSAGE"
  shows "node_ok (en_crypto env) B (handlePrivateMessage env pk n)"
  using learn_sender_whole[OF ok h] consider_private_whole[OF learn_sender_whole[OF ok h]]
  by (simp add: handlePrivateMessage_def Let_def whole.emit_P split: option.split)

lemma group_message_whole:
  assumes ok: "node_ok c B n"
  shows "node_ok c B (handleGroupMessage env pk n)"
  using node_updates(3)[OF ok recordGroupMessage_ok[OF node_fields_ok(3)[OF ok]]]
  by (simp add: handleGroupMessage_def ok whole.emit_P Let_def split: option.split sum.split prod.split)

lemma sd_record_all: "bm_all P d \<Longrightarrow> P (service_key (sa_serviceId a) (sa_providerId a)) a \<Longrightarrow> bm_all P (sd_record tr a d)"
  by (auto simp: sd_record_def Let_def bm_all_put split: option.split)

lemma service_announcement_whole:
  assumes ok: "node_ok (en_crypto env) B n" and h: "heard (en_verify env) B (service_statements v)"
  shows "node_ok (en_crypto env) B (recordServiceAnnouncement env v n)"
proof (cases "service_of v")
  case (Some a)
  show ?thesis
  proof (cases "verifyServiceAnnouncement (en_verify env) a")
    case True
    have s: "node_ok (en_crypto env) B (n\<lparr>n_services := sd_record (live_rank_of n) a (n_services n)\<rparr>)"
      using True by (intro node_updates(8)[OF ok] sd_record_all node_fields_ok(8)[OF ok]) simp_all
    have v: "sa_providerId a \<in> lg_trusted B"
      using True h by (simp add: verifyServiceAnnouncement_def heard_def service_statements_def Some)
    have t: "tm_ok (markVerified (sa_providerId a) (n_trust n))" "trust_earned B (markVerified (sa_providerId a) (n_trust n))"
      using markVerified_ok[OF node_mesh_ok(4)[OF ok]] earned_mark[OF node_mesh_ok(5)[OF ok] v] .
    from node_mesh_updates(7)[OF s t] show ?thesis
      by (simp add: recordServiceAnnouncement_def Some True whole.emit_P)
  qed (simp add: recordServiceAnnouncement_def Some ok)
qed (simp add: recordServiceAnnouncement_def ok)

lemma services_whole:
  assumes ok: "node_ok (en_crypto env) B n" and h: "packet_heard (en_verify env) B pk"
  shows "node_ok (en_crypto env) B (handleServiceQuery env pk n)" "node_ok (en_crypto env) B (handleServiceRequest env pk n)"
    "pk_type pk = SERVICE_RESPONSE \<Longrightarrow> node_ok (en_crypto env) B (handleServiceResponse env pk n)"
    "pk_type pk = SERVICE_ANNOUNCE \<Longrightarrow> node_ok (en_crypto env) B (recordServiceAnnouncement env (jfield (pk_payload pk) ''announcement'') n)"
  using ok h service_announcement_whole[OF ok]
  by (simp_all add: packet_heard_def packet_statements_def handleServiceQuery_def handleServiceRequest_def handleServiceResponse_def respond_def Let_def
      whole.sending_P node_updates split: option.split jsval.split)

lemma external_delivery_whole:
  assumes ok: "node_ok c B n"
  shows "node_ok c B (handleExternalDelivery env pk n)"
  using node_updates(7)[OF ok dq_enqueue_ok[OF node_fields_ok(7)[OF ok]]]
  by (simp add: handleExternalDelivery_def ok whole.emit_P split: option.split)

lemma upsert_peers_whole: "node_ok c B n \<Longrightarrow> node_ok c B (foldl (upsert_peer env) n vs)"
  by (rule whole.foldl_P) (auto simp: upsert_peer_def node_mesh_updates split: jsval.split)

lemma deliver_whole:
  assumes ok: "node_ok (en_crypto env) B n" and h: "packet_heard (en_verify env) B pk"
  shows "node_ok (en_crypto env) B (deliver env pk from n)"
  by (cases "pk_type pk") (simp_all add: deliver_def ok content_handlers_ok[OF ok] content_heard_ok[OF ok h] route_announce_whole[OF ok]
      identity_response_whole[OF ok h] private_message_whole[OF ok h] group_message_whole[OF ok] services_whole[OF ok h]
      external_delivery_whole[OF ok] whole.sending_P[OF ok] whole.sending_P upsert_peers_whole[OF ok] Let_def)

lemma forward_whole: "node_ok c B n \<Longrightarrow> node_ok c B (forward_or_park env pk from n)"
  by (simp add: forward_or_park_def Let_def whole.sending_P whole.on_enqueue)

lemma decideForward_seen: "snd (decideForward now pk me c) = (if hasSeen c (pk_id pk) then c else markSeenId now (pk_id pk) c)"
  by (simp add: decideForward_def Let_def)

lemma handlePacket_whole:
  assumes ok: "node_ok (en_crypto env) B n" and h: "packet_heard (en_verify env) B pk"
  shows "node_ok (en_crypto env) B (handlePacket env pk from n)"
proof -
  let ?c = "en_crypto env"
  define n1 where "n1 = n\<lparr>n_limiter := snd (allow (en_now env) from (n_limiter n))\<rparr>"
  have ok1: "node_ok ?c B n1" unfolding n1_def by (intro node_mesh_updates[OF ok] allow_ok node_mesh_ok[OF ok]) simp
  define n2 where "n2 = n1\<lparr>n_peers := pt_touch (en_now env) from (n_peers n1)\<rparr>"
  have ok2: "node_ok ?c B n2" unfolding n2_def by (intro node_mesh_updates[OF ok1])
  define d where "d = fst (decideForward (en_now env) pk (en_nodeId env) (n_seen n2))"
  define n3 where "n3 = n2\<lparr>n_seen := snd (decideForward (en_now env) pk (en_nodeId env) (n_seen n2))\<rparr>"
  have ok3: "node_ok ?c B n3" unfolding n3_def
    using node_mesh_ok(3)[OF ok2] by (intro node_mesh_updates[OF ok2]) (simp_all add: decideForward_seen markSeenId_ok)
  define n4 where "n4 = (if \<not> deliverLocally d \<and> (pk_type pk = CONTENT_CHUNK \<or> pk_type pk = CONTENT_COMPLETE)
      then observeRelayedContent env pk n3 else n3)"
  have ok4: "node_ok ?c B n4" by (simp add: n4_def ok3 content_heard_ok[OF ok3 h])
  define n5 where "n5 = (if deliverLocally d then deliver env pk from n4 else n4)"
  have ok5: "node_ok ?c B n5" by (simp add: n5_def ok4 deliver_whole[OF ok4 h])
  have "handlePacket env pk from n =
      (if \<not> fst (allow (en_now env) from (n_limiter n)) then emit (RateLimitExceeded from (pk_type pk)) n1
       else if pk_type pk = HELLO then n2 else if duplicate d then n3
       else case forwardPacket d of Some p \<Rightarrow> forward_or_park env p from n5 | None \<Rightarrow> n5)"
    unfolding handlePacket_def case_prod_unfold Let_def n5_def n4_def d_def n3_def n2_def n1_def by (rule refl)
  then show ?thesis
    using ok1 ok2 ok3 ok5 by (simp add: whole.emit_P forward_whole split: option.split)
qed

lemma flush_whole: "node_ok c B n \<Longrightarrow> node_ok c B (flushPendingDeliveries env n)"
  using whole.flush_P node_mesh_ok(6) by blast

lemma peerConnected_whole:
  assumes ok: "node_ok (en_crypto env) B n"
  shows "node_ok (en_crypto env) B (peerConnected env tr p addr n)"
proof -
  let ?c = "en_crypto env"
  define n1 where "n1 = n\<lparr>n_peers := pt_upsert (en_now env) p addr (n_peers n),
      n_peerTransport := map_put p tr (n_peerTransport n), n_trust := markSeen p (n_trust n),
      n_connections := map_put p ((case map_of (n_connections n) p of Some k \<Rightarrow> k | None \<Rightarrow> 0) + 1) (n_connections n),
      n_relays := markOnline p (en_now env) (n_relays n)\<rparr>"
  have ok1: "node_ok ?c B n1"
    using ok node_mesh_ok(4,5)[OF ok] node_fields_ok(5)[OF ok] unfolding n1_def
    by (simp add: node_ok_def node_part_def node_caps_def content_ok_def content_part_def content_caps_def mesh_ok_def mesh_caps_def
        markSeen_ok earned_seen relays_ok)
  define n3 where "n3 = startIdentitySync env p (startCatalogSync env p (flushPendingDeliveries env (emit (PeerConnected p) n1)))"
  have ok3: "node_ok ?c B n3" unfolding n3_def
    by (intro whole.identity_sync_P content_handlers_ok flush_whole whole.emit_P ok1)
  note r = node_mesh_updates(4)[OF ok3 offer_ok[OF node_mesh_ok(1)[OF ok3]]]
  have "peerConnected env tr p addr n = (let n4 = announceRoutes env p None
      (n3\<lparr>n_routing := snd (offer (live_rank_of n3) p p (Num 1) (n_routing n3))\<rparr>)
    in if fst (offer (live_rank_of n3) p p (Num 1) (n_routing n3)) then announce_to_others env p [p] n4 else n4)"
    unfolding peerConnected_def case_prod_unfold Let_def n3_def n1_def by (rule refl)
  then show ?thesis by (simp add: Let_def whole.sending_P r)
qed

lemma peerDisconnected_whole:
  assumes ok: "node_ok c B n"
  shows "node_ok c B (peerDisconnected env p n)"
proof -
  define k where "k = (case map_of (n_connections n) p of Some k \<Rightarrow> k | None \<Rightarrow> 1) - 1"
  define n1 where "n1 = n\<lparr>n_peers := pt_remove p (n_peers n), n_peerTransport := map_del p (n_peerTransport n),
      n_limiter := reset p (n_limiter n)\<rparr>"
  have ok1: "node_ok c B n1" unfolding n1_def
    using ok reset_ok[OF node_mesh_ok(2)[OF ok]] by (simp add: node_ok_def node_part_def node_caps_def content_ok_def content_part_def content_caps_def
        mesh_ok_def mesh_caps_def)
  define n2 where "n2 = (if k \<le> 0
      then n1\<lparr>n_connections := map_del p (n_connections n1), n_relays := markOffline p (en_now env) (n_relays n1)\<rparr>
      else n1\<lparr>n_connections := map_put p k (n_connections n1)\<rparr>)"
  have ok2: "node_ok c B n2" unfolding n2_def
    using node_mesh_updates(3)[OF ok1] node_updates(5)[OF node_mesh_updates(3)[OF ok1] relays_ok(3)[OF node_fields_ok(5)[OF ok1]]] by simp
  note e = whole.emit_P[OF ok2, of "PeerDisconnected p"]
  note r = node_mesh_updates(4)[OF e removeRoutesVia_ok[OF node_mesh_ok(1)[OF e]]]
  have "peerDisconnected env p n = (let n3 = emit (PeerDisconnected p) n2;
      n4 = n3\<lparr>n_routing := snd (removeRoutesVia p (n_routing n3))\<rparr>
    in if fst (removeRoutesVia p (n_routing n3)) \<noteq> [] then broadcastWithdrawal env (fst (removeRoutesVia p (n_routing n3))) p n4 else n4)"
    unfolding peerDisconnected_def case_prod_unfold Let_def n2_def n1_def k_def by (rule refl)
  then show ?thesis using r by (simp add: Let_def whole.sending_P)
qed

lemma budgets_whole:
  assumes ok: "node_ok c B n"
  shows "node_ok c B (snd (tryConsumeElevatedDropBudget env n))" "node_ok c B (snd (tryConsumeElevatedNodeAppendBudget env n))"
    "node_ok c B (snd (tryConsumeHttpIngestedNodeAppendBudget env n))" "node_ok c B (snd (tryConsumeHttpIngestedRelayCommandBudget env n))"
    "node_ok c B (snd (tryConsumeHttpIngestedExternalDeliveryBudget env n))"
  by (simp_all add: tryConsumeElevatedDropBudget_def tryConsumeElevatedNodeAppendBudget_def tryConsumeHttpIngestedNodeAppendBudget_def
      tryConsumeHttpIngestedRelayCommandBudget_def tryConsumeHttpIngestedExternalDeliveryBudget_def case_prod_unfold Let_def
      node_updates[OF ok])

lemma ingest_allowed_whole: "node_ok c B n \<Longrightarrow> node_ok c B (snd (ingest_allowed env who n))"
  by (auto simp: ingest_allowed_def case_prod_unfold Let_def allow_ok node_fields_ok(1) split: option.split intro!: node_updates(1))

lemma announce_content_whole: "node_ok c B n \<Longrightarrow> node_ok c B (announce_content env m prio d s n)"
  by (simp add: announce_content_def whole.originate_and_flood_P)

lemma store_put_whole:
  assumes ok: "node_ok c B n"
  shows "node_ok c B (n\<lparr>n_store := snd (putVerified c tr t m d (n_store n))\<rparr>)"
  using ok putVerified_ok[OF content_store_ok, of c B n tr t m d]
  by (simp add: node_ok_def store_update_ok part.on_store)

lemma store_submission_whole:
  assumes ok: "node_ok (en_crypto env) B n"
  shows "node_ok (en_crypto env) B (snd (store_submission env m d announce prio n))"
  by (simp add: store_submission_def case_prod_unfold Let_def store_put_whole[OF ok] announce_content_whole
      content_handlers_ok split: option.split)

lemma ingest_content_whole:
  assumes ok: "node_ok (en_crypto env) B n"
  shows "node_ok (en_crypto env) B (snd (ingestSignedContent env m d announce prio n))"
proof -
  note ok1 = ingest_allowed_whole[OF ok]
  show ?thesis
    by (simp add: ingestSignedContent_def case_prod_unfold Let_def ok1 budgets_whole(1)[OF ok1] store_submission_whole[OF ok1]
        store_submission_whole[OF budgets_whole(1)[OF ok1]] split: option.split)
qed

lemma ingest_append_whole:
  assumes ok: "node_ok (en_crypto env) B n"
  shows "node_ok (en_crypto env) B (snd (ingestSignedNodeAppend env v n))"
proof -
  note ok1 = ingest_allowed_whole[OF ok]
  note ok2 = budgets_whole(3)[OF ok1] and ok3 = budgets_whole(2)[OF budgets_whole(3)[OF ok1]]
  note a = node_updates(6)[OF ok2 appends_record_ok[OF node_fields_ok(6)[OF ok2]]]
    node_updates(6)[OF ok3 appends_record_ok[OF node_fields_ok(6)[OF ok3]]]
  show ?thesis
    by (simp add: ingestSignedNodeAppend_def case_prod_unfold Let_def ok1 ok2 ok3 a whole.emit_P split: option.split)
qed

lemma ingest_command_whole:
  assumes ok: "node_ok (en_crypto env) B n"
  shows "node_ok (en_crypto env) B (snd (ingestSignedRelayCommand env v n))"
proof -
  note ok1 = ingest_allowed_whole[OF ok]
  note ok2 = budgets_whole(4)[OF ok1]
  note a = node_updates(9)[OF ok2 bm_set_ok[OF node_fields_ok(9)[OF ok2]]]
  show ?thesis
    by (simp add: ingestSignedRelayCommand_def case_prod_unfold Let_def ok1 ok2 a whole.emit_P split: option.split)
qed

lemma ingest_delivery_whole:
  assumes ok: "node_ok (en_crypto env) B n"
  shows "node_ok (en_crypto env) B (snd (ingestExternalDelivery env v n))"
proof -
  note ok1 = ingest_allowed_whole[OF ok]
  note ok2 = budgets_whole(5)[OF ok1]
  note a = node_updates(7)[OF ok2 dq_enqueue_ok[OF node_fields_ok(7)[OF ok2]]]
  show ?thesis
    by (simp add: ingestExternalDelivery_def case_prod_unfold Let_def ok ok1 ok2 a whole.emit_P split: option.split)
qed

end
