(* ===== verification/NodeSend.thy ===== *)
theory NodeSend
  imports Node
begin

text \<open>
  What the application asks of a node (\<open>node/src/node.ts\<close>): publishing content, channel messages, drops and emergency beacons,
  private and group messages, notes for one node, services and their calls, relay commands and stopping. A method
  returns its result or the error it throws, and the state in either case. The record \<open>api\<close> holds what \<open>env\<close> does not: the text of
  a JSON value, the ciphers used for sending, and fresh group ids and keys. A method that waits for the mesh is given up to its wait,
  and what it does afterwards as a method of its own.
\<close>

section \<open>Results\<close>

datatype api_error =
    UnknownKey string | BadText | BadLabel | BadExpiry | BadLatitude | BadLongitude | BadAccuracy | BadTime | BadName | BadChannel
  | NoMembers | UnknownGroup string | UnknownService string | TooManyAtOnce | SelfVerification | NoBattery

record api =
  ap_stringify :: "jsval \<Rightarrow> bytes"
  ap_hex :: "bytes \<Rightarrow> string"
  ap_sealGroup :: "bytes \<Rightarrow> jsval \<Rightarrow> encrypted_payload"
  ap_sealBeacon :: "(bytes \<Rightarrow> encrypted_payload) option"
  ap_groupId :: "nat \<Rightarrow> string"
  ap_groupKey :: "nat \<Rightarrow> bytes"
  ap_broadcast :: bool

definition known_key :: "'a mesh_scheme \<Rightarrow> string \<Rightarrow> string option" where
  "known_key n i = (case getKey (n_directory n) i of Some k \<Rightarrow> if k = [] then None else Some k | None \<Rightarrow> None)"

fun fields_of :: "jsval \<Rightarrow> (string \<times> jsval) list" where
  "fields_of (JObject fs) = fs" | "fields_of v = []"

definition bad_text :: "nat \<Rightarrow> string \<Rightarrow> bool" where
  "bad_text limit text \<longleftrightarrow> length text = 0 \<or> length text > limit"

definition bad_label :: "nat \<Rightarrow> string option \<Rightarrow> bool" where
  "bad_label limit label \<longleftrightarrow> (case label of Some l \<Rightarrow> bad_text limit l | None \<Rightarrow> False)"

definition finite_in_range :: "rat \<Rightarrow> rat \<Rightarrow> jsnum \<Rightarrow> bool" where
  "finite_in_range lo hi x \<longleftrightarrow> num_finite x \<and> \<not> num_lt x (Num lo) \<and> \<not> num_lt (Num hi) x"

definition bad_period :: "jsnum option \<Rightarrow> bool" where
  "bad_period t \<longleftrightarrow> (case t of Some x \<Rightarrow> \<not> num_finite x \<or> num_le x (Num 0) | None \<Rightarrow> False)"

fun rat_of :: "jsnum \<Rightarrow> rat" where
  "rat_of (Num r) = r" | "rat_of x = 0"

section \<open>Plain packets\<close>

definition ping :: "env \<Rightarrow> string \<Rightarrow> node \<Rightarrow> node" where
  "ping env destination n = originate_and_flood env PING (JObject []) (Some destination) (Some CONTROL) n"

definition sendData :: "env \<Rightarrow> string \<Rightarrow> jsval \<Rightarrow> node \<Rightarrow> string \<times> node" where
  "sendData env destination payload n =
     (let (packet, n1) = originate env DATA payload (Some destination) (Some MESSAGING) n in (pk_id packet, flood env packet n1))"

definition sharePeerList :: "env \<Rightarrow> string option \<Rightarrow> node \<Rightarrow> node" where
  "sharePeerList env destination n = originate_and_flood env PEER_LIST
     (JArray (map (\<lambda>(i, p). json_object [(''id'', JString i), (''address'', case pi_address p of Some a \<Rightarrow> a | None \<Rightarrow> JUndefined)]) (n_peers n)))
     destination (Some CONTROL) n"

section \<open>Content\<close>

definition publishContent ::
  "env \<Rightarrow> string \<Rightarrow> string \<Rightarrow> bytes \<Rightarrow> time option \<Rightarrow> bool \<Rightarrow> priority option \<Rightarrow> node \<Rightarrow> (api_error + content_metadata) \<times> node" where
  "publishContent env name mimeType data ttlMs announce prio n =
     (let (storedData, encoding, originalSize) = compressForTransfer (en_crypto env) data;
          unsigned = \<lparr>cm_contentId = computeContentId (en_crypto env) storedData, cm_name = JString name, cm_mimeType = mimeType,
            cm_size = of_nat (length storedData), cm_createdAt = en_now env, cm_publisherId = Some (en_nodeId env), cm_signature = None,
            cm_expiresAt = map_option (\<lambda>t. en_now env + t) ttlMs, cm_encoding = encoding, cm_originalSize = originalSize,
            cm_priority = (case prio of Some p \<Rightarrow> priority_val p | None \<Rightarrow> JUndefined)\<rparr>;
          m = unsigned\<lparr>cm_signature := Some (en_sign env (contentSigningPayload unsigned))\<rparr>;
          (stored, s) = putVerified (en_crypto env) (store_rank env n) (en_now env) m storedData (n_store n);
          n1 = n\<lparr>n_store := s\<rparr>
      in if \<not> stored then (Inl SelfVerification, n1)
         else (Inr m, if announce then announce_content env m (case prio of Some p \<Rightarrow> p | None \<Rightarrow> CONTENT) None None n1 else n1))"

text \<open>A channel name with its ASCII letters in lower case.\<close>

definition lower_char :: "char \<Rightarrow> char" where
  "lower_char c = (if of_char c \<ge> (65::nat) \<and> of_char c \<le> (90::nat) then char_of (of_char c + (32::nat)) else c)"

definition publishChannelMessage :: "env \<Rightarrow> api \<Rightarrow> string \<Rightarrow> string \<Rightarrow> node \<Rightarrow> (api_error + channel_message) \<times> node" where
  "publishChannelMessage env api channel text n =
     (let normalized = map lower_char channel in
      if \<not> isValidChannelName normalized then (Inl BadChannel, n)
      else if bad_text MAX_MESSAGE_TEXT_LENGTH text then (Inl BadText, n)
      else let data = ap_stringify api (JObject [(''text'', JString text), (''timestamp'', JNumber (Num (en_now env)))])
        in case publishContent env (channelContentName normalized) ''application/json'' data None True (Some MESSAGING) n of
          (Inl e, n1) \<Rightarrow> (Inl e, n1)
        | (Inr m, n1) \<Rightarrow>
            let message = \<lparr>ch_channel = normalized, ch_author = en_nodeId env, ch_text = text, ch_timestamp = en_now env,
                           ch_contentId = cm_contentId m\<rparr>
            in (Inr message, n1\<lparr>n_channels := pc_record (live_rank_of n1) message (n_channels n1)\<rparr>))"

definition DEFAULT_DROP_TTL_MS :: time where "DEFAULT_DROP_TTL_MS = 24 * 60 * 60 * 1000"
definition MAX_DROP_TTL_MS :: time where "MAX_DROP_TTL_MS = 72 * 60 * 60 * 1000"

record drop_request =
  dr_text :: string
  dr_lat :: jsnum
  dr_lon :: jsnum
  dr_label :: "string option"
  dr_kind :: drop_kind
  dr_expiresInMs :: "jsnum option"
  dr_createdAt :: "jsnum option"

definition drop_json :: "drop_payload \<Rightarrow> jsval" where
  "drop_json p = json_object
     [(''text'', JString (dp_text p)), (''lat'', JNumber (Num (dp_lat p))), (''lon'', JNumber (Num (dp_lon p))),
      (''label'', opt_str (dp_label p)), (''kind'', JString (kind_name (dp_kind p))), (''timestamp'', JNumber (Num (dp_timestamp p)))]"

definition bad_drop :: "drop_request \<Rightarrow> api_error option" where
  "bad_drop d =
     (if bad_text MAX_MESSAGE_TEXT_LENGTH (dr_text d) then Some BadText
      else if \<not> finite_in_range (-90) 90 (dr_lat d) then Some BadLatitude
      else if \<not> finite_in_range (-180) 180 (dr_lon d) then Some BadLongitude
      else if bad_label MAX_DROP_LABEL_LENGTH (dr_label d) then Some BadLabel
      else if bad_period (dr_expiresInMs d) then Some BadExpiry
      else if (case dr_createdAt d of Some t \<Rightarrow> \<not> num_finite t | None \<Rightarrow> False) then Some BadTime
      else None)"

definition publishDrop :: "env \<Rightarrow> api \<Rightarrow> drop_request \<Rightarrow> node \<Rightarrow> (api_error + drop_item) \<times> node" where
  "publishDrop env api d n = (case bad_drop d of
     Some e \<Rightarrow> (Inl e, n)
   | None \<Rightarrow>
       let (budget, n1) = (if dr_kind d \<noteq> InfoDrop then tryConsumeElevatedDropBudget env n else (True, n)) in
       if \<not> budget then (Inl TooManyAtOnce, n1)
       else
         let ttlMs = min (case dr_expiresInMs d of Some t \<Rightarrow> rat_of t | None \<Rightarrow> DEFAULT_DROP_TTL_MS) MAX_DROP_TTL_MS;
             now = en_now env;
             timestamp = (case dr_createdAt d of None \<Rightarrow> now | Some t \<Rightarrow> min now (max (now - DEFAULT_DROP_TTL_MS) (rat_of t)));
             payload = \<lparr>dp_text = dr_text d, dp_lat = rat_of (dr_lat d), dp_lon = rat_of (dr_lon d), dp_label = dr_label d,
               dp_kind = dr_kind d, dp_timestamp = timestamp\<rparr>
         in case publishContent env DROP_CONTENT_NAME ''application/json'' (ap_stringify api (drop_json payload)) (Some ttlMs) True
                (Some (dropKindPriority (dr_kind d))) n1 of
              (Inl e, n2) \<Rightarrow> (Inl e, n2)
            | (Inr m, n2) \<Rightarrow>
                let item = drop_payload.extend payload \<lparr>di_dropId = cm_contentId m, di_author = en_nodeId env,
                      di_expiresAt = cm_expiresAt m, di_receivedFrom = None, di_observedAt = now\<rparr>
                in (Inr item, n2\<lparr>n_drops := drops_record (live_rank_of n2) item (n_drops n2)\<rparr>))"


section \<open>Emergency beacons\<close>

definition DEFAULT_BEACON_TTL_MS :: time where "DEFAULT_BEACON_TTL_MS = 24 * 60 * 60 * 1000"
definition MAX_BEACON_TTL_MS :: time where "MAX_BEACON_TTL_MS = 72 * 60 * 60 * 1000"
definition DEFAULT_BEACON_BROADCAST_REPEAT_COUNT :: nat where "DEFAULT_BEACON_BROADCAST_REPEAT_COUNT = 5"
definition DEFAULT_BEACON_BROADCAST_REPEAT_INTERVAL_MS :: time where "DEFAULT_BEACON_BROADCAST_REPEAT_INTERVAL_MS = 2000"

record beacon_request =
  br_message :: "string option"
  br_lat :: "jsnum option"
  br_lon :: "jsnum option"
  br_ttlMs :: "jsnum option"
  br_repeatCount :: "nat option"
  br_repeatIntervalMs :: "time option"

definition bad_beacon :: "beacon_request \<Rightarrow> api_error option" where
  "bad_beacon b =
     (if bad_label MAX_BEACON_MESSAGE_LENGTH (br_message b) then Some BadText
      else if (case br_lat b of Some x \<Rightarrow> \<not> finite_in_range (-90) 90 x | None \<Rightarrow> False) then Some BadLatitude
      else if (case br_lon b of Some x \<Rightarrow> \<not> finite_in_range (-180) 180 x | None \<Rightarrow> False) then Some BadLongitude
      else if bad_period (br_ttlMs b) then Some BadExpiry
      else None)"

definition beacon_json :: "beacon_payload \<Rightarrow> jsval" where
  "beacon_json p = json_object [(''message'', opt_str (bp_message p)), (''lat'', opt_num (bp_lat p)), (''lon'', opt_num (bp_lon p)),
     (''timestamp'', JNumber (Num (bp_timestamp p)))]"

definition envelope_json :: "encrypted_payload \<Rightarrow> jsval" where
  "envelope_json e = JObject [(''encrypted'', JBool True), (''nonce'', JString (ep_nonce e)), (''ciphertext'', JString (ep_ciphertext e)),
     (''authTag'', JString (ep_authTag e))]"

text \<open>The announcement to the mesh, and the repetitions for the broadcast radio with their delays.\<close>

definition announce_beacon :: "env \<Rightarrow> content_metadata \<Rightarrow> bytes \<Rightarrow> node \<Rightarrow> jsval packet \<times> node" where
  "announce_beacon env m data n =
     (let (packet, n1) = originate env CONTENT_ANNOUNCE
            (json_object [(''metadata'', metadata_json m), (''data'', JString (en_base64 env data)),
               (''senderAnnouncement'', announcement_json (en_ownAnnouncement env))]) None (Some EMERGENCY) n
      in (packet, flood env packet n1))"

definition beacon_repeats :: "api \<Rightarrow> beacon_request \<Rightarrow> jsval packet \<Rightarrow> (time \<times> jsval packet) list" where
  "beacon_repeats api b packet =
     (if \<not> ap_broadcast api then []
      else let count = max 1 (case br_repeatCount b of Some k \<Rightarrow> k | None \<Rightarrow> DEFAULT_BEACON_BROADCAST_REPEAT_COUNT);
               interval = (case br_repeatIntervalMs b of Some t \<Rightarrow> t | None \<Rightarrow> DEFAULT_BEACON_BROADCAST_REPEAT_INTERVAL_MS)
        in map (\<lambda>i. (of_nat i * interval, packet)) [0..<count])"

definition sendEmergencyBeacon ::
  "env \<Rightarrow> api \<Rightarrow> beacon_request \<Rightarrow> node \<Rightarrow> (api_error + beacon_sighting \<times> (time \<times> jsval packet) list) \<times> node" where
  "sendEmergencyBeacon env api b n = (case bad_beacon b of
     Some e \<Rightarrow> (Inl e, n)
   | None \<Rightarrow>
       let now = en_now env;
           (budget, w) = consume_budget WINDOW_MS MAX_EMERGENCY_BEACON_PER_WINDOW now (n_beaconWindow n);
           n1 = n\<lparr>n_beaconWindow := w\<rparr>
       in if \<not> budget then (Inl TooManyAtOnce, n1)
       else
         let ttlMs = min (case br_ttlMs b of Some t \<Rightarrow> rat_of t | None \<Rightarrow> DEFAULT_BEACON_TTL_MS) MAX_BEACON_TTL_MS;
             payload = \<lparr>bp_message = br_message b, bp_lat = map_option rat_of (br_lat b), bp_lon = map_option rat_of (br_lon b),
               bp_timestamp = now\<rparr>;
             plain = ap_stringify api (beacon_json payload);
             data = (case ap_sealBeacon api of Some seal \<Rightarrow> ap_stringify api (envelope_json (seal plain)) | None \<Rightarrow> plain)
         in case publishContent env EMERGENCY_BEACON_CONTENT_NAME ''application/json'' data (Some ttlMs) False (Some EMERGENCY) n1 of
              (Inl e, n2) \<Rightarrow> (Inl e, n2)
            | (Inr m, n2) \<Rightarrow>
                let (held, s) = readLive now (cm_contentId m) (n_store n2);
                    storedData = (case held of Some item \<Rightarrow> sc_data item | None \<Rightarrow> data);
                    (packet, n3) = announce_beacon env m storedData (n2\<lparr>n_store := s\<rparr>);
                    sighting = beacon_payload.extend payload \<lparr>bs_beaconContentId = cm_contentId m, bs_deviceId = en_nodeId env,
                      bs_observedAt = now, bs_receivedFrom = None\<rparr>
                in (Inr (sighting, beacon_repeats api b packet), n3\<lparr>n_beacons := beacons_record sighting (n_beacons n3)\<rparr>))"

section \<open>Private messages and notes\<close>

definition sealed_payload :: "env \<Rightarrow> string \<Rightarrow> jsval \<Rightarrow> jsval" where
  "sealed_payload env key payload =
     JObject (fields_of (en_sealPrivate env key payload) @ [(''senderAnnouncement'', announcement_json (en_ownAnnouncement env))])"

definition sendPrivateMessage :: "env \<Rightarrow> string \<Rightarrow> jsval \<Rightarrow> priority option \<Rightarrow> node \<Rightarrow> (api_error + string) \<times> node" where
  "sendPrivateMessage env destination payload prio n = (case known_key n destination of
     None \<Rightarrow> (Inl (UnknownKey destination), n)
   | Some key \<Rightarrow>
       let (packet, n1) = originate env PRIVATE_MESSAGE (sealed_payload env key payload) (Some destination)
                            (Some (case prio of Some p \<Rightarrow> p | None \<Rightarrow> MESSAGING)) n;
           n2 = flood env packet n1
       in (Inr (pk_id packet), case extractChatText payload of
             Some text \<Rightarrow> n2\<lparr>n_history := mh_record (en_now env) (live_rank_of n2) destination Sent text (n_history n2)\<rparr>
           | None \<Rightarrow> n2))"

definition DEFAULT_NODE_APPEND_TTL_MS :: time where "DEFAULT_NODE_APPEND_TTL_MS = 24 * 60 * 60 * 1000"
definition MAX_NODE_APPEND_TTL_MS :: time where "MAX_NODE_APPEND_TTL_MS = 72 * 60 * 60 * 1000"

record append_request =
  aq_text :: string
  aq_label :: "string option"
  aq_kind :: "drop_kind option"
  aq_expiresInMs :: "jsnum option"

definition append_json :: "append_payload \<Rightarrow> jsval" where
  "append_json a = json_object
     [(''type'', JString ''node-append''), (''text'', JString (ap_text a)), (''label'', opt_str (ap_label a)),
      (''kind'', JString (kind_name (ap_kind a))), (''timestamp'', JNumber (Num (ap_timestamp a))),
      (''expiresAt'', JNumber (Num (ap_expiresAt a)))]"

definition appendToNode :: "env \<Rightarrow> string \<Rightarrow> append_request \<Rightarrow> node \<Rightarrow> (api_error + string) \<times> node" where
  "appendToNode env target a n =
     (let kind = (case aq_kind a of Some k \<Rightarrow> k | None \<Rightarrow> InfoDrop) in
      if bad_text MAX_MESSAGE_TEXT_LENGTH (aq_text a) then (Inl BadText, n)
      else if bad_label MAX_NODE_APPEND_LABEL_LENGTH (aq_label a) then (Inl BadLabel, n)
      else if bad_period (aq_expiresInMs a) then (Inl BadExpiry, n)
      else if known_key n target = None then (Inl (UnknownKey target), n)
      else
        let (budget, n1) = (if kind \<noteq> InfoDrop then tryConsumeElevatedNodeAppendBudget env n else (True, n)) in
        if \<not> budget then (Inl TooManyAtOnce, n1)
        else
          let ttlMs = min (case aq_expiresInMs a of Some t \<Rightarrow> rat_of t | None \<Rightarrow> DEFAULT_NODE_APPEND_TTL_MS) MAX_NODE_APPEND_TTL_MS;
              payload = \<lparr>ap_text = aq_text a, ap_label = aq_label a, ap_kind = kind, ap_timestamp = en_now env,
                ap_expiresAt = en_now env + ttlMs\<rparr>
          in sendPrivateMessage env target (append_json payload) (Some (dropKindPriority kind)) n1)"

definition command_json :: "rat \<Rightarrow> jsval" where
  "command_json timestamp = JObject [(''type'', JString ''relay-command''), (''command'', JString ''reboot''), (''timestamp'', JNumber (Num timestamp))]"

definition sendRelayCommand :: "env \<Rightarrow> string \<Rightarrow> node \<Rightarrow> (api_error + string) \<times> node" where
  "sendRelayCommand env target n =
     (if known_key n target = None then (Inl (UnknownKey target), n)
      else
        let (budget, w) = consume_budget WINDOW_MS MAX_RELAY_COMMANDS_PER_WINDOW (en_now env) (n_commandWindow n);
            n1 = n\<lparr>n_commandWindow := w\<rparr>
        in if \<not> budget then (Inl TooManyAtOnce, n1)
           else let timestamp = max (en_now env) (n_lastSentCommand n1 + 1)
             in sendPrivateMessage env target (command_json timestamp) None (n1\<lparr>n_lastSentCommand := timestamp\<rparr>))"


section \<open>Groups\<close>

definition unique_ids :: "string list \<Rightarrow> string list" where
  "unique_ids ids = rev (remdups (rev ids))"

definition invite_json :: "api \<Rightarrow> group_info \<Rightarrow> jsval" where
  "invite_json api g = JObject
     [(''type'', JString ''group-invite''), (''groupId'', JString (gi_groupId g)), (''name'', JString (gi_name g)),
      (''groupKey'', JString (ap_hex api (gi_key g))), (''members'', JArray (map JString (gi_members g))),
      (''createdBy'', JString (gi_createdBy g)), (''createdAt'', JNumber (Num (gi_createdAt g)))]"

fun send_to_all :: "env \<Rightarrow> jsval \<Rightarrow> string list \<Rightarrow> node \<Rightarrow> (api_error + unit) \<times> node" where
  "send_to_all env payload [] n = (Inr (), n)"
| "send_to_all env payload (m # ms) n = (case sendPrivateMessage env m payload None n of
     (Inl e, n1) \<Rightarrow> (Inl e, n1) | (Inr i, n1) \<Rightarrow> send_to_all env payload ms n1)"

definition createGroup :: "env \<Rightarrow> api \<Rightarrow> string \<Rightarrow> string list \<Rightarrow> node \<Rightarrow> (api_error + group_info) \<times> node" where
  "createGroup env api name memberIds n =
     (let members = filter (\<lambda>i. i \<noteq> en_nodeId env) (unique_ids memberIds) in
      if bad_text 128 name then (Inl BadName, n)
      else if members = [] then (Inl NoMembers, n)
      else case find (\<lambda>i. known_key n i = None) members of
        Some i \<Rightarrow> (Inl (UnknownKey i), n)
      | None \<Rightarrow>
          let info = \<lparr>gi_groupId = ap_groupId api (n_next n), gi_name = name, gi_key = ap_groupKey api (n_next n), gi_members = members,
                gi_createdBy = en_nodeId env, gi_createdAt = en_now env\<rparr>
          in case send_to_all env (invite_json api info) members n of
               (Inl e, n1) \<Rightarrow> (Inl e, n1)
             | (Inr u, n1) \<Rightarrow> (Inr info, n1\<lparr>n_groups := addGroup (live_rank_of n1) info (n_groups n1)\<rparr>))"

definition group_packet_json :: "group_packet \<Rightarrow> jsval" where
  "group_packet_json p = JObject
     [(''nonce'', JString (ep_nonce p)), (''ciphertext'', JString (ep_ciphertext p)), (''authTag'', JString (ep_authTag p)),
      (''groupId'', JString (gp_groupId p)), (''senderId'', JString (gp_senderId p)), (''signature'', JString (gp_signature p))]"

definition signGroupMessage :: "env \<Rightarrow> api \<Rightarrow> string \<Rightarrow> bytes \<Rightarrow> string \<Rightarrow> group_packet" where
  "signGroupMessage env api groupId key text =
     (let e = ap_sealGroup api key (JObject [(''text'', JString text), (''timestamp'', JNumber (Num (en_now env)))]);
          unsigned = encrypted_payload.extend e \<lparr>gp_groupId = groupId, gp_senderId = en_nodeId env, gp_signature = []\<rparr>
      in unsigned\<lparr>gp_signature := en_sign env (groupMessageSigningPayload unsigned)\<rparr>)"

definition sendGroupMessage :: "env \<Rightarrow> api \<Rightarrow> string \<Rightarrow> string \<Rightarrow> node \<Rightarrow> (api_error + group_message) \<times> node" where
  "sendGroupMessage env api groupId text n = (case getGroup (n_groups n) groupId of
     None \<Rightarrow> (Inl (UnknownGroup groupId), n)
   | Some info \<Rightarrow>
       if bad_text MAX_MESSAGE_TEXT_LENGTH text then (Inl BadText, n)
       else
         let p = signGroupMessage env api groupId (gi_key info) text;
             n1 = originate_and_flood env GROUP_MESSAGE (group_packet_json p) None (Some MESSAGING) n;
             message = \<lparr>gm_groupId = groupId, gm_senderId = en_nodeId env, gm_text = text, gm_timestamp = en_now env,
                        gm_messageId = gp_signature p\<rparr>
         in (Inr message, n1\<lparr>n_groups := recordGroupMessage message (n_groups n1)\<rparr>))"

section \<open>Services\<close>

definition signOwnServiceAnnouncement :: "env \<Rightarrow> string \<Rightarrow> string \<Rightarrow> string list \<Rightarrow> string option \<Rightarrow> bool \<Rightarrow> service_announcement" where
  "signOwnServiceAnnouncement env serviceId version capabilities resourceRequirements availability =
     (let unsigned = \<lparr>sa_serviceId = serviceId, sa_version = version, sa_capabilities = capabilities, sa_providerId = en_nodeId env,
            sa_resourceRequirements = resourceRequirements, sa_availability = availability, sa_createdAt = en_now env, sa_signature = []\<rparr>
      in unsigned\<lparr>sa_signature := en_sign env (serviceSigningPayload unsigned)\<rparr>)"

definition announce_service :: "env \<Rightarrow> service_announcement \<Rightarrow> node \<Rightarrow> node" where
  "announce_service env a n =
     originate_and_flood env SERVICE_ANNOUNCE (JObject [(''announcement'', service_json a)]) None (Some SERVICE) n"

definition registerService ::
  "env \<Rightarrow> string \<Rightarrow> string \<Rightarrow> string list \<Rightarrow> string option \<Rightarrow> bool option \<Rightarrow> node \<Rightarrow> service_announcement \<times> node" where
  "registerService env serviceId version capabilities resourceRequirements availability n =
     (let a = signOwnServiceAnnouncement env serviceId version capabilities resourceRequirements
                (case availability of Some b \<Rightarrow> b | None \<Rightarrow> True)
      in (a, announce_service env a (n\<lparr>n_localServices := map_put serviceId a (n_localServices n)\<rparr>)))"

definition setServiceAvailability :: "env \<Rightarrow> string \<Rightarrow> bool \<Rightarrow> node \<Rightarrow> (api_error + service_announcement) \<times> node" where
  "setServiceAvailability env serviceId availability n = (case map_of (n_localServices n) serviceId of
     None \<Rightarrow> (Inl (UnknownService serviceId), n)
   | Some old \<Rightarrow>
       let a = signOwnServiceAnnouncement env serviceId (sa_version old) (sa_capabilities old) (sa_resourceRequirements old) availability
       in (Inr a, announce_service env a (n\<lparr>n_localServices := map_put serviceId a (n_localServices n)\<rparr>)))"

text \<open>A provider that is known at once, or a query; the wait that follows a query ends at the first announcement after which
  there is a provider.\<close>

definition discoverService :: "env \<Rightarrow> string \<Rightarrow> node \<Rightarrow> service_announcement option \<times> node" where
  "discoverService env serviceId n = (case map_of (n_localServices n) serviceId of
     Some a \<Rightarrow> if sa_availability a then (Some a, n) else (case providersFor (n_services n) serviceId of
         p # ps \<Rightarrow> (Some p, n)
       | [] \<Rightarrow> (None, originate_and_flood env SERVICE_QUERY (JObject [(''serviceId'', JString serviceId)]) None (Some SERVICE) n))
   | None \<Rightarrow> (case providersFor (n_services n) serviceId of
         p # ps \<Rightarrow> (Some p, n)
       | [] \<Rightarrow> (None, originate_and_flood env SERVICE_QUERY (JObject [(''serviceId'', JString serviceId)]) None (Some SERVICE) n)))"

definition invokeService :: "env \<Rightarrow> string \<Rightarrow> string \<Rightarrow> jsval \<Rightarrow> node \<Rightarrow> string \<times> node" where
  "invokeService env providerId serviceId payload n =
     (let (request, n1) = originate env SERVICE_REQUEST (json_object [(''serviceId'', JString serviceId), (''payload'', payload)])
            (Some providerId) (Some SERVICE) n;
          n2 = n1\<lparr>n_calls := map_put (pk_id request) providerId (n_calls n1)\<rparr>
      in (pk_id request, flood env request n2))"

definition call_timeout :: "string \<Rightarrow> node \<Rightarrow> node" where
  "call_timeout requestId n = (if map_of (n_calls n) requestId = None then n
     else emit (CallRejected requestId (JString ''timed out'')) (n\<lparr>n_calls := map_del requestId (n_calls n)\<rparr>))"

definition bad_location :: "jsnum \<Rightarrow> jsnum \<Rightarrow> jsnum option \<Rightarrow> api_error option" where
  "bad_location lat lon accuracy =
     (if \<not> finite_in_range (-90) 90 lat then Some BadLatitude
      else if \<not> finite_in_range (-180) 180 lon then Some BadLongitude
      else if (case accuracy of Some a \<Rightarrow> \<not> num_finite a \<or> num_lt a (Num 0) | None \<Rightarrow> False) then Some BadAccuracy
      else None)"

text \<open>What \<open>shareLocation\<close> and \<open>reportRelayTelemetry\<close> send to the provider once they have one.\<close>

definition location_json :: "env \<Rightarrow> jsnum \<Rightarrow> jsnum \<Rightarrow> jsnum option \<Rightarrow> jsval" where
  "location_json env lat lon accuracy = json_object
     [(''type'', JString ''location-report''), (''lat'', JNumber lat), (''lon'', JNumber lon),
      (''accuracy'', case accuracy of Some a \<Rightarrow> JNumber a | None \<Rightarrow> JUndefined), (''timestamp'', JNumber (Num (en_now env)))]"

definition shareLocation :: "env \<Rightarrow> string \<Rightarrow> jsnum \<Rightarrow> jsnum \<Rightarrow> jsnum option \<Rightarrow> node \<Rightarrow> (api_error + string) \<times> node" where
  "shareLocation env provider lat lon accuracy n = (case bad_location lat lon accuracy of
     Some e \<Rightarrow> (Inl e, n)
   | None \<Rightarrow> sendPrivateMessage env provider (location_json env lat lon accuracy) None n)"

definition reportRelayTelemetry :: "env \<Rightarrow> string \<Rightarrow> node \<Rightarrow> (api_error + string) \<times> node" where
  "reportRelayTelemetry env provider n = (case batteryPercent (en_resources env) of
     None \<Rightarrow> (Inl NoBattery, n)
   | Some b \<Rightarrow> sendPrivateMessage env provider (JObject [(''type'', JString ''relay-telemetry''), (''batteryPercent'', JNumber (Num b)),
       (''timestamp'', JNumber (Num (en_now env)))]) None n)"

definition registerRelay :: "env \<Rightarrow> relay_fields \<Rightarrow> node \<Rightarrow> relay_entry option \<times> node" where
  "registerRelay env f n =
     (let r = snd (rr_upsert (en_now env) f (n_relays n));
          r' = (if map_of (n_peerTransport n) (rf_relayId f) \<noteq> None then markOnline (rf_relayId f) (en_now env) r else r)
      in (bm_get r' (rf_relayId f), n\<lparr>n_relays := r'\<rparr>))"

section \<open>Deliveries and stopping\<close>

definition attemptExternalDeliveries :: "env \<Rightarrow> (queued_delivery \<Rightarrow> bool) \<Rightarrow> node \<Rightarrow> node" where
  "attemptExternalDeliveries env delivered n = (case en_allowlist env of
     None \<Rightarrow> n
   | Some allowlist \<Rightarrow>
       let (entries, q) = entriesDueForAttempt (en_now env) (n_deliveries n)
       in foldl (\<lambda>n e. if delivered e then emit (ExternalDeliveryDelivered (qd_packetId e)) (n\<lparr>n_deliveries := dq_remove (qd_packetId e) (n_deliveries n)\<rparr>) else n)
            (n\<lparr>n_deliveries := q\<rparr>) entries)"

definition node_stop :: "node \<Rightarrow> node" where
  "node_stop n = (foldl (\<lambda>n (i, p). emit (CallRejected i (JString ''node stopped while the service call was still in flight'')) n) n (n_calls n))
     \<lparr>n_calls := []\<rparr>"


section \<open>The invariant\<close>

lemma publishContent_whole:
  assumes ok: "node_ok (en_crypto env) B n"
  shows "node_ok (en_crypto env) B (snd (publishContent env name mime data ttl announce prio n))"
  by (simp add: publishContent_def case_prod_unfold Let_def store_put_whole[OF ok] announce_content_whole)

lemma publishContent_split:
  assumes "node_ok (en_crypto env) B n" and "publishContent env name mime data ttl announce prio n = (r, n')"
  shows "node_ok (en_crypto env) B n'"
  using publishContent_whole[OF assms(1), of name mime data ttl announce prio] assms(2) by simp

lemma channels_whole: "node_ok c B n \<Longrightarrow> node_ok c B (n\<lparr>n_channels := pc_record tr m (n_channels n)\<rparr>)"
  by (simp add: node_ok_def node_part_def node_caps_def content_ok_def content_part_def content_caps_def mesh_ok_def mesh_caps_def pc_record_ok)

lemma drops_whole: "node_ok c B n \<Longrightarrow> node_ok c B (n\<lparr>n_drops := drops_record tr d (n_drops n)\<rparr>)"
  by (simp add: node_ok_def node_part_def node_caps_def content_ok_def content_part_def content_caps_def mesh_ok_def mesh_caps_def drops_record_ok)

lemma beacons_whole: "node_ok c B n \<Longrightarrow> node_ok c B (n\<lparr>n_beacons := beacons_record b (n_beacons n)\<rparr>)"
  by (simp add: node_ok_def node_part_def node_caps_def content_ok_def content_part_def content_caps_def mesh_ok_def mesh_caps_def beacons_record_ok)

text \<open>What follows a publication keeps what it keeps of any node.\<close>

lemma publish_then_whole:
  assumes "node_ok (en_crypto env) B n" "\<And>m n'. node_ok (en_crypto env) B n' \<Longrightarrow> node_ok (en_crypto env) B (snd (f m n'))"
  shows "node_ok (en_crypto env) B (snd (case publishContent env name mime data ttl announce prio n of
    (Inl e, n') \<Rightarrow> (Inl e, n') | (Inr m, n') \<Rightarrow> f m n'))"
  using publishContent_whole[OF assms(1), of name mime data ttl announce prio] assms(2)
  by (cases "publishContent env name mime data ttl announce prio n") (auto split: sum.split)

lemma publishChannelMessage_whole:
  "node_ok (en_crypto env) B n \<Longrightarrow> node_ok (en_crypto env) B (snd (publishChannelMessage env api channel text n))"
  unfolding publishChannelMessage_def Let_def by (auto intro!: publish_then_whole channels_whole)

lemma publishDrop_whole:
  assumes ok: "node_ok (en_crypto env) B n"
  shows "node_ok (en_crypto env) B (snd (publishDrop env api d n))"
proof -
  define b where "b = (if dr_kind d \<noteq> InfoDrop then tryConsumeElevatedDropBudget env n else (True, n))"
  have ok1: "node_ok (en_crypto env) B (snd b)" using ok budgets_whole(1)[OF ok] by (simp add: b_def)
  show ?thesis
  proof (cases "bad_drop d")
    case None
    show ?thesis unfolding publishDrop_def b_def[symmetric] Let_def None
      using ok1 by (cases b) (auto intro!: publish_then_whole drops_whole)
  qed (simp add: publishDrop_def ok)
qed

lemma announce_beacon_whole: "node_ok c B n \<Longrightarrow> node_ok c B (snd (announce_beacon env m data n))"
  by (simp add: announce_beacon_def case_prod_unfold Let_def whole.sending_P)

lemma store_read_whole:
  assumes ok: "node_ok c B n"
  shows "node_ok c B (n\<lparr>n_store := snd (readLive t i (n_store n))\<rparr>)"
  using ok readLive_ok[OF content_store_ok, of c B n t i] by (simp add: node_ok_def store_update_ok part.on_store)

lemma sendEmergencyBeacon_whole:
  assumes ok: "node_ok (en_crypto env) B n"
  shows "node_ok (en_crypto env) B (snd (sendEmergencyBeacon env api b n))"
proof -
  have ok1: "node_ok (en_crypto env) B (n\<lparr>n_beaconWindow := w\<rparr>)" for w by (rule node_updates[OF ok])
  have step: "node_ok (en_crypto env) B (snd (case readLive t (cm_contentId m) (n_store n') of (held, s) \<Rightarrow>
      case announce_beacon env m (D held) (n'\<lparr>n_store := s\<rparr>) of (packet, n3) \<Rightarrow>
        (Inr (g m, beacon_repeats api b packet), n3\<lparr>n_beacons := beacons_record (g m) (n_beacons n3)\<rparr>)))"
    if "node_ok (en_crypto env) B n'" for n' m t D g
    using store_read_whole[OF that, of t "cm_contentId m"] beacons_whole[OF announce_beacon_whole] by (simp add: case_prod_unfold)
  show ?thesis
    by (cases "consume_budget WINDOW_MS MAX_EMERGENCY_BEACON_PER_WINDOW (en_now env) (n_beaconWindow n)")
      (auto simp: sendEmergencyBeacon_def Let_def ok ok1 split: option.split intro!: publish_then_whole step)
qed


lemma history_whole: "node_ok c B n \<Longrightarrow> node_ok c B (n\<lparr>n_history := mh_record t tr p d text (n_history n)\<rparr>)"
  by (rule node_updates(2)[OF _ mh_record_ok[OF node_fields_ok(2)]]) simp_all

lemma sendPrivateMessage_whole:
  assumes ok: "node_ok c B n"
  shows "node_ok c B (snd (sendPrivateMessage env to payload prio n))"
proof (cases "known_key n to")
  case (Some key)
  have sent: "node_ok c B (flood env packet (snd (originate env ty pl to pr n)))" for packet ty pl to pr
    by (intro whole.sending_P ok)
  show ?thesis
    by (cases "extractChatText payload") (simp_all add: sendPrivateMessage_def Some case_prod_unfold Let_def sent history_whole)
qed (simp add: sendPrivateMessage_def ok)

lemma appendToNode_whole: "node_ok c B n \<Longrightarrow> node_ok c B (snd (appendToNode env to a n))"
  by (simp add: appendToNode_def case_prod_unfold Let_def sendPrivateMessage_whole budgets_whole(2))

lemma sendRelayCommand_whole: "node_ok c B n \<Longrightarrow> node_ok c B (snd (sendRelayCommand env to n))"
  by (simp add: sendRelayCommand_def case_prod_unfold Let_def sendPrivateMessage_whole node_updates)

lemma send_to_all_whole: "node_ok c B n \<Longrightarrow> node_ok c B (snd (send_to_all env payload ms n))"
proof (induction ms arbitrary: n)
  case (Cons m ms)
  note ok = sendPrivateMessage_whole[OF Cons.prems, of env m payload None]
  show ?case using ok Cons.IH[OF ok] by (cases "sendPrivateMessage env m payload None n") (auto split: sum.split)
qed simp

lemma createGroup_whole: "node_ok c B n \<Longrightarrow> node_ok c B (snd (createGroup env api name ms n))"
proof -
  assume ok: "node_ok c B n"
  have step: "node_ok c B (snd (case send_to_all env payload xs n of (Inl e, n1) \<Rightarrow> (Inl e, n1)
      | (Inr u, n1) \<Rightarrow> (Inr info, n1\<lparr>n_groups := addGroup (live_rank_of n1) info (n_groups n1)\<rparr>)))" for payload xs and info :: group_info
    using send_to_all_whole[OF ok, of env payload xs] node_updates(3)[OF _ addGroup_ok[OF node_fields_ok(3)]]
    by (cases "send_to_all env payload xs n") (auto split: sum.split)
  show ?thesis by (simp add: createGroup_def Let_def ok step split: option.split)
qed

lemma sendGroupMessage_whole: "node_ok c B n \<Longrightarrow> node_ok c B (snd (sendGroupMessage env api g text n))"
  using node_updates(3)[OF whole.originate_and_flood_P recordGroupMessage_ok[OF node_fields_ok(3)[OF whole.originate_and_flood_P]]]
  by (simp add: sendGroupMessage_def Let_def split: option.split)

lemma services_sent_whole:
  assumes ok: "node_ok c B n"
  shows "node_ok c B (snd (registerService env i v cs r a n))" "node_ok c B (snd (setServiceAvailability env i b n))"
    "node_ok c B (snd (discoverService env i n))" "node_ok c B (snd (invokeService env p i pl n))" "node_ok c B (call_timeout i n)"
proof -
  have call: "node_ok c B (flood env packet ((snd (originate env ty pl d pr n))\<lparr>n_calls := z\<rparr>))" for packet ty pl d pr z
    by (intro whole.sending_P node_updates ok)
  show "node_ok c B (snd (invokeService env p i pl n))"
    using call by (simp add: invokeService_def case_prod_unfold Let_def)
qed (simp_all add: registerService_def setServiceAvailability_def discoverService_def call_timeout_def announce_service_def Let_def
    ok whole.sending_P node_updates split: option.split list.split)

lemma reports_sent_whole:
  assumes ok: "node_ok c B n"
  shows "node_ok c B (snd (shareLocation env p lat lon acc n))" "node_ok c B (snd (reportRelayTelemetry env p n))"
    "node_ok c B (snd (registerRelay env f n))"
proof -
  have "bm_ok (snd (rr_upsert t f (n_relays n)))" for t using node_fields_ok(5)[OF ok] by (simp add: rr_upsert_def Let_def bm_set_ok)
  then show "node_ok c B (snd (registerRelay env f n))"
    using relays_ok by (auto simp: registerRelay_def Let_def intro!: node_updates(5)[OF ok])
qed (simp_all add: shareLocation_def reportRelayTelemetry_def ok sendPrivateMessage_whole split: option.split)

lemma attempts_whole:
  assumes ok: "node_ok c B n"
  shows "node_ok c B (attemptExternalDeliveries env delivered n)"
proof (cases "en_allowlist env")
  case (Some allowlist)
  have "node_ok c B (n\<lparr>n_deliveries := snd (entriesDueForAttempt (en_now env) (n_deliveries n))\<rparr>)"
    by (rule node_updates(7)[OF ok due_ok[OF node_fields_ok(7)[OF ok]]]) simp_all
  moreover have "node_ok c B (n'\<lparr>n_deliveries := dq_remove i (n_deliveries n')\<rparr>)" if "node_ok c B n'" for n' i
    by (rule node_updates(7)[OF that remove_ok[OF node_fields_ok(7)[OF that]]]) simp_all
  ultimately show ?thesis
    by (simp add: attemptExternalDeliveries_def Some case_prod_unfold Let_def) (rule whole.foldl_P, simp_all add: whole.emit_P)
qed (simp add: attemptExternalDeliveries_def ok)

lemma stop_whole: "node_ok c B n \<Longrightarrow> node_ok c B (node_stop n)"
  unfolding node_stop_def by (intro node_updates whole.foldl_P) (auto simp: whole.emit_P)

lemma plain_whole:
  assumes ok: "node_ok c B n"
  shows "node_ok c B (ping env d n)" "node_ok c B (snd (sendData env d v n))" "node_ok c B (sharePeerList env to n)"
proof -
  have "node_ok c B (flood env packet (snd (originate env ty pl d pr n)))" for packet ty pl d pr
    by (intro whole.sending_P ok)
  then show "node_ok c B (snd (sendData env d v n))" by (simp add: sendData_def case_prod_unfold Let_def)
qed (simp_all add: ping_def sharePeerList_def ok whole.sending_P)


lemmas sent_whole = plain_whole publishContent_whole publishChannelMessage_whole publishDrop_whole sendEmergencyBeacon_whole
  sendPrivateMessage_whole appendToNode_whole sendRelayCommand_whole createGroup_whole sendGroupMessage_whole services_sent_whole
  reports_sent_whole attempts_whole stop_whole

end
