(* ===== verification/NodeRuns.thy ===== *)
theory NodeRuns
  imports NodeSend
begin

text \<open>
  Runs of a node: what the mesh, the timers, the HTTP interface and the application do to it, in any order, and the
  invariant of the whole node for every run.
\<close>

section \<open>Runs of the node\<close>

datatype node_event =
    PacketIn "jsval packet" string
  | PeerUp nat string "jsval option"
  | PeerDown string
  | ProviderTimer string string
  | WaiterTimer string waiter
  | RequestContent string waiter
  | SubmitContent content_metadata bytes bool "priority option"
  | SubmitAppend jsval
  | SubmitCommand jsval
  | SubmitDelivery jsval
  | Ping string
  | SendData string jsval
  | SharePeers "string option"
  | Publish string string bytes "time option" bool "priority option"
  | PublishChannel api string string
  | PublishDrop api drop_request
  | SendBeacon api beacon_request
  | SendPrivate string jsval "priority option"
  | AppendTo string append_request
  | SendCommand string
  | CreateGroup api string "string list"
  | SendGroup api string string
  | RegisterService string string "string list" "string option" "bool option"
  | SetAvailability string bool
  | Discover string
  | Invoke string string jsval
  | CallTimer string
  | ShareLocation string jsnum jsnum "jsnum option"
  | ReportTelemetry string
  | RegisterRelay relay_fields
  | AttemptDeliveries "queued_delivery \<Rightarrow> bool"
  | Stop

fun node_step :: "node \<Rightarrow> env \<times> node_event \<Rightarrow> node" where
  "node_step n (env, PacketIn pk from) = handlePacket env pk from n"
| "node_step n (env, PeerUp tr p addr) = peerConnected env tr p addr n"
| "node_step n (env, PeerDown p) = peerDisconnected env p n"
| "node_step n (env, ProviderTimer i p) = provider_timeout env i p n"
| "node_step n (env, WaiterTimer i w) = waiter_timeout i w n"
| "node_step n (env, RequestContent i w) = getContent env i w n"
| "node_step n (env, SubmitContent m d a prio) = snd (ingestSignedContent env m d a prio n)"
| "node_step n (env, SubmitAppend v) = snd (ingestSignedNodeAppend env v n)"
| "node_step n (env, SubmitCommand v) = snd (ingestSignedRelayCommand env v n)"
| "node_step n (env, SubmitDelivery v) = snd (ingestExternalDelivery env v n)"
| "node_step n (env, Ping d) = ping env d n"
| "node_step n (env, SendData d v) = snd (sendData env d v n)"
| "node_step n (env, SharePeers d) = sharePeerList env d n"
| "node_step n (env, Publish name mime data ttl announce prio) = snd (publishContent env name mime data ttl announce prio n)"
| "node_step n (env, PublishChannel api channel text) = snd (publishChannelMessage env api channel text n)"
| "node_step n (env, PublishDrop api d) = snd (publishDrop env api d n)"
| "node_step n (env, SendBeacon api b) = snd (sendEmergencyBeacon env api b n)"
| "node_step n (env, SendPrivate to payload prio) = snd (sendPrivateMessage env to payload prio n)"
| "node_step n (env, AppendTo to a) = snd (appendToNode env to a n)"
| "node_step n (env, SendCommand to) = snd (sendRelayCommand env to n)"
| "node_step n (env, CreateGroup api name ms) = snd (createGroup env api name ms n)"
| "node_step n (env, SendGroup api g text) = snd (sendGroupMessage env api g text n)"
| "node_step n (env, RegisterService i v cs r a) = snd (registerService env i v cs r a n)"
| "node_step n (env, SetAvailability i b) = snd (setServiceAvailability env i b n)"
| "node_step n (env, Discover i) = snd (discoverService env i n)"
| "node_step n (env, Invoke p i v) = snd (invokeService env p i v n)"
| "node_step n (env, CallTimer i) = call_timeout i n"
| "node_step n (env, ShareLocation p lat lon acc) = snd (shareLocation env p lat lon acc n)"
| "node_step n (env, ReportTelemetry p) = snd (reportRelayTelemetry env p n)"
| "node_step n (env, RegisterRelay f) = snd (registerRelay env f n)"
| "node_step n (env, AttemptDeliveries delivered) = attemptExternalDeliveries env delivered n"
| "node_step n (env, Stop) = node_stop n"

text \<open>A step of a node whose cryptography is \<open>c\<close>.\<close>

definition crypto_step :: "content_env \<Rightarrow> node \<Rightarrow> env \<times> node_event \<Rightarrow> node" where
  "crypto_step c n e = node_step n ((fst e)\<lparr>en_crypto := c\<rparr>, snd e)"

text \<open>What an event brings to the ledger: only a packet speaks for others.\<close>

fun event_heard :: "verifier \<Rightarrow> ledger \<Rightarrow> node_event \<Rightarrow> bool" where
  "event_heard vf B (PacketIn pk from) = packet_heard vf B pk"
| "event_heard vf B e = True"

lemma crypto_step_whole:
  assumes "node_ok c B n" and "event_heard (verifyWithNodeId c) B (snd e)"
  shows "node_ok c B (crypto_step c n e)"
proof -
  from assms have ok: "node_ok (en_crypto ((fst e)\<lparr>en_crypto := c\<rparr>)) B n"
    and h: "event_heard (en_verify ((fst e)\<lparr>en_crypto := c\<rparr>)) B (snd e)" by simp_all
  have "node_ok (en_crypto ((fst e)\<lparr>en_crypto := c\<rparr>)) B (crypto_step c n e)"
    unfolding crypto_step_def
    by (cases "snd e") (use h in \<open>simp_all only: node_step.simps event_heard.simps handlePacket_whole[OF ok] peerConnected_whole[OF ok]
        peerDisconnected_whole[OF ok] content_handlers_ok[OF ok] ingest_content_whole[OF ok] ingest_append_whole[OF ok]
        ingest_command_whole[OF ok] ingest_delivery_whole[OF ok] sent_whole[OF ok]\<close>)
  then show ?thesis by simp
qed

text \<open>A ledger that trusts everybody and every offer is kept by every event.\<close>

lemma all_heard: "event_heard vf (ledger_of opts UNIV UNIV) e"
proof (cases e)
  case (PacketIn pk q)
  have "heard vf (ledger_of opts UNIV UNIV) ss" for ss by (auto simp: heard_def)
  with PacketIn show ?thesis by (simp add: packet_heard_def)
qed simp_all

interpretation node_run: step_invariant "crypto_step c" "node_ok c (ledger_of opts UNIV UNIV)" for c opts
  by unfold_locales (rule crypto_step_whole[OF _ all_heard])

end
