(* ===== verification/NodeProps.thy ===== *)
theory NodeProps
  imports NodeRuns
begin

text \<open>
  Properties of the whole node (\<open>Node\<close>): what a run from a fresh node guarantees about its stores,
  its trust table and its resources; duplicates and the closed relay gate; deliveries to the outside; and
  the one way in which a transfer delivers bytes other than those that were asked for.
\<close>

section \<open>A sample node\<close>

definition sample_options :: node_options where
  "sample_options = \<lparr>op_storeAndForwardTtlMs = None, op_maxPendingDeliveries = None, op_maxTrustEntries = None,
     op_maxContentStoreEntries = None, op_maxRemoteCatalogEntries = None, op_maxPacketsPerWindow = None,
     op_rateLimitWindowMs = None, op_relayMode = None, op_batteryThreshold = None, op_maxPeerDirectoryEntries = None,
     op_maxRoutingTableEntries = None, op_maxRouteCost = None, op_maxChunkAssemblyEntries = None, op_maxChunksPerContent = None,
     op_maxServiceDirectoryEntries = None, op_maxMessageHistoryPeers = None, op_maxMessagesPerPeer = None,
     op_maxPublicChannels = None, op_maxMessagesPerChannel = None, op_maxGroups = None, op_maxMessagesPerGroup = None,
     op_maxLocationReports = None, op_maxLocationReportAgeMs = None, op_maxDrops = None, op_maxRelays = None,
     op_maxEmergencyBeacons = None, op_maxNodeAppends = None, op_maxExternalDeliveryDirectoryPublishers = None,
     op_maxExternalDeliveryEntries = None, op_maxExternalDeliveryBytes = None, op_externalDeliveryTtlMs = None\<rparr>"

definition sample_node :: node where "sample_node = newNode sample_options"

lemma sample_fields [simp]:
  "n_seen sample_node = seen_new None" "n_limiter sample_node = rl_new None None None" "n_trust sample_node = tm_new None"
  "n_pending sample_node = pdq_new None None" "n_requests sample_node = []" "n_requester sample_node = ca_new None None"
  "n_store sample_node = cs_new None" "n_directory sample_node = pd_new None" "n_ingestLimiter sample_node = rl_new None None None"
  "n_policy sample_node = rp_new None None" "n_peers sample_node = []"
  by (simp_all add: sample_node_def newNode_def sample_options_def)

text \<open>The sample limiter lets a first packet through.\<close>

lemma sample_allow: "fst (allow t p (rl_new None None None))"
  by (simp add: allow_def rl_new_def bm_get_def bm_new_def)

lemma sample_seen: "hasSeen (markSeenId t i (seen_new None)) i" "\<not> hasSeen (seen_new None) i"
  by (simp_all add: markSeenId_has seen_new_def bm_new_def) (simp add: hasSeen_def bm_has_def)

section \<open>Duplicates and the relay gate\<close>

lemma handlePacket_limited:
  "\<not> fst (allow (en_now env) from (n_limiter n)) \<Longrightarrow> handlePacket env pk from n =
     emit (RateLimitExceeded from (pk_type pk)) (n\<lparr>n_limiter := snd (allow (en_now env) from (n_limiter n))\<rparr>)"
  by (simp add: handlePacket_def case_prod_unfold Let_def)

lemma handlePacket_seen:
  assumes "fst (allow (en_now env) from (n_limiter n))" and "pk_type pk \<noteq> HELLO" and "hasSeen (n_seen n) (pk_id pk)"
  shows "handlePacket env pk from n = n\<lparr>n_limiter := snd (allow (en_now env) from (n_limiter n)),
    n_peers := pt_touch (en_now env) from (n_peers n)\<rparr>"
  using assms by (simp add: handlePacket_def case_prod_unfold Let_def decideForward_def)

lemma handlePacket_hello:
  assumes "fst (allow (en_now env) from (n_limiter n))" and "pk_type pk = HELLO"
  shows "handlePacket env pk from n = n\<lparr>n_limiter := snd (allow (en_now env) from (n_limiter n)),
    n_peers := pt_touch (en_now env) from (n_peers n)\<rparr>"
  using assms by (simp add: handlePacket_def case_prod_unfold Let_def)

text \<open>C7: A packet the node has seen before is inert: handling it again, from whatever peer, of whatever type and with
  whatever contents under the same id, charges the sender's packet budget and changes nothing else, except that a
  sender within its budget has its last-seen time set, and one beyond it is reported as limited. It is not
  delivered, not stored, not forwarded, not answered and not queued.\<close>

theorem duplicate_is_inert:
  assumes "hasSeen (n_seen n) (pk_id pk)"
  shows "handlePacket env pk from n =
    (if fst (allow (en_now env) from (n_limiter n))
     then n\<lparr>n_limiter := snd (allow (en_now env) from (n_limiter n)), n_peers := pt_touch (en_now env) from (n_peers n)\<rparr>
     else n\<lparr>n_limiter := snd (allow (en_now env) from (n_limiter n)),
            n_out := n_out n @ [Emit (RateLimitExceeded from (pk_type pk))]\<rparr>)"
proof (cases "fst (allow (en_now env) from (n_limiter n))")
  case True
  with assms show ?thesis
    by (cases "pk_type pk = HELLO") (simp_all add: handlePacket_seen handlePacket_hello)
next
  case False
  from handlePacket_limited[OF this, of pk] False show ?thesis by (simp add: emit_def)
qed

lemma duplicate_is_inert_witness:
  "n_pending (handlePacket sample_env (sample_packet DATA JNull (Some ''bob'')) ''ann''
      (sample_node\<lparr>n_seen := markSeenId 0 ''p'' (seen_new None)\<rparr>)) = n_pending sample_node"
proof -
  have "hasSeen (n_seen (sample_node\<lparr>n_seen := markSeenId 0 ''p'' (seen_new None)\<rparr>)) (pk_id (sample_packet DATA JNull (Some ''bob'')))"
    by (simp add: sample_packet_def createPacket_def sample_seen)
  then show ?thesis using duplicate_is_inert[of "sample_node\<lparr>n_seen := markSeenId 0 ''p'' (seen_new None)\<rparr>"
      "sample_packet DATA JNull (Some ''bob'')" sample_env "''ann''"] by simp
qed

text \<open>What a node has done with a packet for somebody else by the time it asks whether to relay it: charged the budget, noted the
  peer and the packet's id and, for the two content types that can be overheard, observed the transfer.\<close>

definition before_relaying :: "env \<Rightarrow> jsval packet \<Rightarrow> string \<Rightarrow> node \<Rightarrow> node" where
  "before_relaying env pk from n =
     (let m = n\<lparr>n_limiter := snd (allow (en_now env) from (n_limiter n)), n_peers := pt_touch (en_now env) from (n_peers n),
                n_seen := markSeenId (en_now env) (pk_id pk) (n_seen n)\<rparr>
      in if pk_type pk = CONTENT_CHUNK \<or> pk_type pk = CONTENT_COMPLETE then observeRelayedContent env pk m else m)"

lemma observe_leaves:
  "n_out (observeRelayedContent env pk n) = n_out n" "n_pending (observeRelayedContent env pk n) = n_pending n"
  "n_routing (observeRelayedContent env pk n) = n_routing n"
  by (simp_all add: observeRelayedContent_def store_transfer_def case_prod_unfold Let_def split: jsval.split option.split)

lemma before_relaying_leaves:
  "n_out (before_relaying env pk from n) = n_out n" "n_pending (before_relaying env pk from n) = n_pending n"
  "n_routing (before_relaying env pk from n) = n_routing n"
  by (simp_all add: before_relaying_def Let_def observe_leaves)

lemma handlePacket_relays:
  assumes "unicast_elsewhere env pk" and "pk_type pk \<noteq> HELLO" and "fst (allow (en_now env) from (n_limiter n))"
    and "\<not> hasSeen (n_seen n) (pk_id pk)"
  shows "handlePacket env pk from n = (if num_lt (Num 0) (pk_ttl pk)
    then forward_or_park env (pk\<lparr>pk_ttl := num_add (pk_ttl pk) (-1)\<rparr>) from (before_relaying env pk from n)
    else before_relaying env pk from n)"
  using assms
  by (simp add: handlePacket_def before_relaying_def case_prod_unfold Let_def decideForward_def unicast_elsewhere_def)

text \<open>C5: A closed relay gate relays nothing: when the peer a unicast packet (of any type but \<open>HELLO\<close>, which is never
  relayed) came from is not trusted enough, or the relay policy says no, the packet is transmitted to nobody and the
  routes are as before. Unless it was over the peer's budget, seen before or out of hops, it waits in the store-and-forward
  queue with one hop taken off and the peer noted. The trust table and the content store are as before too, except
  that a passing CONTENT_CHUNK or CONTENT_COMPLETE, which a node overhears before it asks the gate, has been
  observed.\<close>

theorem closed_gate_parks_packet:
  assumes unicast: "unicast_elsewhere env pk" and ty: "pk_type pk \<noteq> HELLO"
    and gate: "relayGateFor env from (before_relaying env pk from n) \<noteq> GateOk"
  defines "n' \<equiv> handlePacket env pk from n" and "m \<equiv> before_relaying env pk from n"
    and "passes \<equiv> fst (allow (en_now env) from (n_limiter n)) \<and> \<not> hasSeen (n_seen n) (pk_id pk)"
  shows "transmitted (n_out n') = transmitted (n_out n) \<and> n_routing n' = n_routing n \<and>
    n_pending n' = (if passes \<and> num_lt (Num 0) (pk_ttl pk)
      then pdq_enqueue (en_now env) (pk\<lparr>pk_ttl := num_add (pk_ttl pk) (-1)\<rparr>) (Some from) (n_pending n) else n_pending n) \<and>
    n_trust n' = (if passes then n_trust m else n_trust n) \<and> n_store n' = (if passes then n_store m else n_store n) \<and>
    (pk_type pk \<notin> {CONTENT_CHUNK, CONTENT_COMPLETE} \<longrightarrow> n_trust m = n_trust n \<and> n_store m = n_store n)"
proof (cases passes)
  case True
  let ?pk = "pk\<lparr>pk_ttl := num_add (pk_ttl pk) (-1)\<rparr>"
  have u: "unicast_elsewhere env ?pk" using unicast by (simp add: unicast_elsewhere_def)
  have "n' = (if num_lt (Num 0) (pk_ttl pk) then emitRelayGateDenied (relayGateFor env from m) from (pk_type pk)
      (m\<lparr>n_pending := pdq_enqueue (en_now env) ?pk (Some from) (n_pending m)\<rparr>) else m)"
    using handlePacket_relays[OF unicast ty] True gate u by (simp add: n'_def m_def passes_def forward_or_park_def)
  with True show ?thesis
    by (simp add: m_def before_relaying_leaves emitRelayGateDenied_def emit_def) (simp add: before_relaying_def)
next
  case False
  then have "n' = (if fst (allow (en_now env) from (n_limiter n))
      then n\<lparr>n_limiter := snd (allow (en_now env) from (n_limiter n)), n_peers := pt_touch (en_now env) from (n_peers n)\<rparr>
      else emit (RateLimitExceeded from (pk_type pk)) (n\<lparr>n_limiter := snd (allow (en_now env) from (n_limiter n))\<rparr>))"
    using handlePacket_limited[of env "from" n pk] handlePacket_seen[OF _ ty, of env "from" n] by (auto simp: n'_def passes_def)
  with False show ?thesis by (simp add: m_def emit_def) (simp add: before_relaying_def)
qed

lemma closed_gate_parks_packet_witness:
  "relayGateFor sample_env ''ann'' sample_node = GateTrust \<and>
   n_pending (handlePacket sample_env (sample_packet DATA JNull (Some ''bob'')) ''ann'' sample_node) =
     pdq_enqueue 0 ((sample_packet DATA JNull (Some ''bob''))\<lparr>pk_ttl := Num 7\<rparr>) (Some ''ann'') (n_pending sample_node)"
proof -
  let ?p = "sample_packet DATA JNull (Some ''bob'')"
  have u: "unicast_elsewhere sample_env ?p"
    by (simp add: unicast_elsewhere_def sample_packet_def createPacket_def sample_env_def)
  have t: "pk_type ?p = DATA" by (simp add: sample_packet_def createPacket_def)
  have g: "relayGateFor sample_env ''ann'' sample_node = GateTrust"
    by (simp add: relayGateFor_def sample_env_def tm_get_def tm_new_def meetsTrustLevel_def less_eq_trust_level_def)
  have b: "relayGateFor sample_env ''ann'' (before_relaying sample_env ?p ''ann'' sample_node) \<noteq> GateOk"
    by (simp add: before_relaying_def t relayGateFor_def sample_env_def tm_get_def tm_new_def meetsTrustLevel_def less_eq_trust_level_def)
  have ttl: "pk_ttl ?p = Num 8" by (simp add: sample_packet_def createPacket_def DEFAULT_TTL_def)
  have now: "en_now sample_env = 0" by (simp add: sample_env_def)
  show ?thesis
    using closed_gate_parks_packet[OF u _ b] g t by (simp add: ttl now sample_allow sample_seen)
qed

section \<open>What a run guarantees\<close>

text \<open>A node that starts empty with cryptography \<open>c\<close> and lives through any events, each with its own clock,
  radio conditions and configuration.\<close>

definition live_node :: "content_env \<Rightarrow> node_options \<Rightarrow> (env \<times> node_event) list \<Rightarrow> node" where
  "live_node c opts es = foldl (crypto_step c) (newNode opts) es"

lemma live_node_ok: "node_ok c (ledger_of opts UNIV UNIV) (live_node c opts es)"
  unfolding live_node_def by (rule node_run.run_inv) (rule newNode_ok)

text \<open>C1: Whatever packets, connections, timers, submissions and requests of its application a node lives through, in any order and from any
  peers, what it keeps is authentic: every stored content hashes to the id it is filed under and carries the
  verified signature of the publisher it names, every catalogue entry is signed by its publisher, every encryption
  key in the peer directory was signed by the node it is filed under, and every service in the service directory
  was announced by its provider.\<close>

theorem stores_hold_only_authentic_entries:
  fixes c :: content_env and opts :: node_options and es :: "(env \<times> node_event) list"
  defines "n \<equiv> live_node c opts es"
  shows "(\<forall>i item. bm_get (cs_items (n_store n)) i = Some item \<longrightarrow>
        computeContentId c (sc_data item) = i \<and> cm_contentId (sc_metadata item) = i \<and>
        (cm_publisherId (sc_metadata item) \<noteq> None \<longrightarrow> verifyContentSignature c (sc_metadata item))) \<and>
    (\<forall>i m. bm_get (n_catalog n) i = Some m \<longrightarrow> cm_contentId m = i \<and> verifyContentSignature c m) \<and>
    (\<forall>i a. bm_get (n_directory n) i = Some a \<longrightarrow> ia_nodeId a = i \<and> verifyIdentityAnnouncement (verifyWithNodeId c) a) \<and>
    (\<forall>k a. bm_get (n_services n) k = Some a \<longrightarrow> verifyServiceAnnouncement (verifyWithNodeId c) a)"
proof -
  have ok: "node_ok c (ledger_of opts UNIV UNIV) n" unfolding n_def by (rule live_node_ok)
  then have "cs_ok c (n_store n)" "pd_ok (verifyWithNodeId c) (n_directory n)"
    "bm_all (\<lambda>i m. cm_contentId m = i \<and> verifyContentSignature c m) (n_catalog n)"
    by (simp_all add: node_ok_def content_ok_def content_part_def mesh_ok_def)
  with node_fields_ok(8)[OF ok] show ?thesis by (auto simp: cs_ok_def item_ok_def pd_ok_def bm_all_def)
qed

definition sample_metadata :: content_metadata where
  "sample_metadata = \<lparr>cm_contentId = ''hh'', cm_name = JUndefined, cm_mimeType = ''text/plain'', cm_size = 2, cm_createdAt = 0,
     cm_publisherId = Some ''ann'', cm_signature = Some ''good'', cm_expiresAt = None, cm_encoding = None,
     cm_originalSize = None, cm_priority = JUndefined\<rparr>"

lemma sample_ingest: "ingest_allowed sample_env (Some i) (newNode sample_options) =
    (True, (newNode sample_options)\<lparr>n_ingestLimiter := snd (allow 0 i (rl_new None None None))\<rparr>)"
  using sample_allow[of 0 i]
  by (simp add: ingest_allowed_def case_prod_unfold Let_def newNode_def sample_options_def) (simp add: sample_env_def)

lemma stores_hold_only_authentic_entries_witness:
  "\<exists>item. bm_get (cs_items (n_store (live_node sample_crypto sample_options
      [(sample_env, SubmitContent sample_metadata [1, 2] False None)]))) ''hh'' = Some item \<and>
      computeContentId sample_crypto (sc_data item) = ''hh''"
proof -
  have c: "sample_env\<lparr>en_crypto := sample_crypto\<rparr> = sample_env" by (simp add: sample_env_def)
  have p: "publisher_of sample_metadata = Some ''ann''" by (simp add: publisher_of_def sample_metadata_def)
  have v: "computeContentId (en_crypto sample_env) [1, 2] = ''hh''" "verifyContentSignature (en_crypto sample_env) sample_metadata"
    "\<not> expired t sample_metadata" "cm_contentId sample_metadata = ''hh''" "cm_encoding sample_metadata = None" for t
    by (simp_all add: sample_env_def sample_crypto_def sample_metadata_def verifyContentSignature_def expired_def)
  have d: "submitted_drop sample_env sample_metadata [1, 2] = None" by (simp add: submitted_drop_def sample_metadata_def)
  have "bm_get (cs_items (n_store (live_node sample_crypto sample_options
      [(sample_env, SubmitContent sample_metadata [1, 2] False None)]))) ''hh'' \<noteq> None"
    apply (simp add: live_node_def crypto_step_def c ingestSignedContent_def p sample_ingest v d store_submission_def putVerified_def
        case_prod_unfold Let_def cs_insert_def refreshUnvettedElevatedSnapshot_def store_rank_def considerDrop_def)
    apply (simp add: sample_metadata_def newNode_def sample_options_def cs_new_def bm_new_def bm_set_get_same)
    done
  with stores_hold_only_authentic_entries[of sample_crypto sample_options
      "[(sample_env, SubmitContent sample_metadata [1, 2] False None)]"] show ?thesis by auto
qed

text \<open>The metadata that the packets of a run have offered for transfers.\<close>

definition offers :: "(env \<times> node_event) list \<Rightarrow> content_metadata set" where
  "offers es = {m. \<exists>env pk from. (env, PacketIn pk from) \<in> set es \<and> offered_metadata pk = Some m}"

lemma offers_snoc: "offers (es @ [e]) = offers es \<union> {m. \<exists>pk from. snd e = PacketIn pk from \<and> offered_metadata pk = Some m}"
  by (cases e) (auto simp: offers_def)

lemma ledger_change:
  assumes "node_ok c (ledger_of opts A M) n" and "M \<subseteq> M'" and "\<And>i. VERIFIED \<le> tm_get (n_trust n) i \<Longrightarrow> i \<in> A'"
  shows "node_ok c (ledger_of opts A' M') n"
  using assms
  by (auto simp: node_ok_def content_ok_def mesh_ok_def trust_earned_def content_part_def request_ok_def node_part_def ledger_of_def)

lemma live_node_snoc: "live_node c opts (es @ [e]) = crypto_step c (live_node c opts es) e"
  by (simp add: live_node_def)

lemma live_node_offers: "node_ok c (ledger_of opts UNIV (offers es)) (live_node c opts es)"
proof (induction es rule: rev_induct)
  case Nil
  show ?case using newNode_ok by (simp add: live_node_def)
next
  case (snoc e es)
  have "node_ok c (ledger_of opts UNIV (offers (es @ [e]))) (live_node c opts es)"
    by (rule ledger_change[OF snoc.IH]) (auto simp: offers_snoc)
  moreover have "event_heard (verifyWithNodeId c) (ledger_of opts UNIV (offers (es @ [e]))) (snd e)"
    by (cases "(verifyWithNodeId c, ledger_of opts UNIV (offers (es @ [e])), snd e)" rule: event_heard.cases)
      (auto simp: packet_heard_def heard_def offers_snoc)
  ultimately show ?case unfolding live_node_snoc by (rule crypto_step_whole)
qed

text \<open>Who may be trusted after an event: the packet carries a statement the id signed, or ends a transfer whose metadata the id
  signed and an earlier packet offered.\<close>

definition vouched_by :: "content_env \<Rightarrow> (env \<times> node_event) list \<Rightarrow> jsval packet \<Rightarrow> string \<Rightarrow> bool" where
  "vouched_by c es pk i \<longleftrightarrow> (\<exists>payload signature. verified (verifyWithNodeId c) i payload signature \<and>
     ((i, payload, signature) \<in> set (packet_statements pk) \<or>
      (pk_type pk = CONTENT_COMPLETE \<and> (\<exists>m \<in> offers es. (i, payload, signature) \<in> set (metadata_statements m)))))"

text \<open>C2: Trust above SEEN is earned by signatures alone. A fresh node trusts nobody, and whenever an id becomes VERIFIED or more in a
  step of a run, that step handles a packet of the mesh, and either the packet carries a statement that the id signed and
  whose signature verifies (an identity announcement, the metadata of announced or transferred content, a service
  announcement), or it completes a transfer whose metadata the id signed and an earlier packet of the run offered. So
  connecting, disconnecting, timers, route announcements, queries, submissions over HTTP and requests of the application,
  and relaying packets that carry no such statement, never raise anybody above SEEN.\<close>

theorem trust_only_by_signature:
  assumes "VERIFIED \<le> tm_get (n_trust (live_node c opts (es @ [(env, e)]))) i"
    and "\<not> VERIFIED \<le> tm_get (n_trust (live_node c opts es)) i"
  shows "\<not> VERIFIED \<le> tm_get (n_trust (live_node c opts [])) i \<and> (\<exists>pk from. e = PacketIn pk from \<and> vouched_by c es pk i)"
proof -
  define A where "A = {j. VERIFIED \<le> tm_get (n_trust (live_node c opts es)) j \<or> (\<exists>pk from. e = PacketIn pk from \<and> vouched_by c es pk j)}"
  define B where "B = ledger_of opts A (offers (es @ [(env, e)]))"
  have ok: "node_ok c B (live_node c opts es)" unfolding B_def
    by (rule ledger_change[OF live_node_offers]) (auto simp: A_def offers_snoc)
  have "event_heard (verifyWithNodeId c) B e"
  proof (cases "\<exists>pk from. e = PacketIn pk from")
    case True
    then obtain pk q where e: "e = PacketIn pk q" by blast
    have "offers (es @ [(env, e)]) = offers es" if "pk_type pk = CONTENT_COMPLETE"
      using that by (auto simp: offers_snoc e offered_metadata_def)
    then show ?thesis by (auto simp: e B_def A_def packet_heard_def heard_def vouched_by_def) (auto simp: offers_snoc)
  qed (cases e; auto)
  with crypto_step_whole[OF ok, of "(env, e)"] have "trust_earned B (n_trust (live_node c opts (es @ [(env, e)])))"
    using node_mesh_ok(5) by (simp add: live_node_snoc)
  with assms have "i \<in> A" by (simp add: trust_earned_def B_def)
  moreover have "\<not> VERIFIED \<le> tm_get (n_trust (live_node c opts [])) i"
    by (simp add: live_node_def newNode_def tm_new_def tm_get_def less_eq_trust_level_def)
  ultimately show ?thesis using assms(2) by (simp add: A_def)
qed

definition sample_identity :: "jsval packet" where
  "sample_identity = sample_packet IDENTITY_RESPONSE (JObject [(''announcements'', JArray [announcement_json
     \<lparr>ia_nodeId = ''ann'', ia_encryptionPublicKey = ''key'', ia_deviceClass = None, ia_signature = ''good''\<rparr>])]) (Some ''me'')"

lemma trust_only_by_signature_witness:
  "\<exists>payload signature. verified (verifyWithNodeId sample_crypto) ''ann'' payload signature \<and>
     (''ann'', payload, signature) \<in> set (packet_statements sample_identity) \<and>
     VERIFIED \<le> tm_get (n_trust (live_node sample_crypto sample_options ([] @ [(sample_env, PacketIn sample_identity ''eve'')]))) ''ann''"
proof -
  let ?a = "\<lparr>ia_nodeId = ''ann'', ia_encryptionPublicKey = ''key'', ia_deviceClass = None, ia_signature = ''good''\<rparr>"
  have c: "sample_env\<lparr>en_crypto := sample_crypto\<rparr> = sample_env" by (simp add: sample_env_def)
  have a: "announcement_of (announcement_json ?a) = Some ?a"
    by (simp add: announcement_of_def announcement_json_def json_object_def opt_str_def optional_def)
  have v: "verifyIdentityAnnouncement (en_verify sample_env) ?a"
    by (simp add: sample_env_def sample_crypto_def verifyIdentityAnnouncement_def verified_def)
  have me: "en_nodeId sample_env = ''me''" by (simp add: sample_env_def)
  have t: "pk_type sample_identity = IDENTITY_RESPONSE" by (simp add: sample_identity_def sample_packet_def createPacket_def)
  have raised: "VERIFIED \<le> tm_get (n_trust (live_node sample_crypto sample_options ([] @ [(sample_env, PacketIn sample_identity ''eve'')]))) ''ann''"
    apply (simp add: live_node_def crypto_step_def c handlePacket_def newNode_def sample_options_def sample_allow case_prod_unfold Let_def decideForward_def
     sample_identity_def sample_packet_def createPacket_def sample_seen deliver_def handleIdentityResponse_def acceptIdentityAnnouncement_def me a v)
    apply (simp add: pd_record_def pd_new_def bm_new_def bm_has_def markVerified_def raise_get)
    done
  have "\<not> VERIFIED \<le> tm_get (n_trust (live_node sample_crypto sample_options [])) ''ann''"
    by (simp add: live_node_def newNode_def tm_new_def tm_get_def less_eq_trust_level_def)
  from trust_only_by_signature[OF raised this] raised t show ?thesis by (auto simp: vouched_by_def)
qed

lemma caps_of_run:
  fixes c :: content_env
  shows "mesh_caps (live_node c opts es) = mesh_caps (newNode opts)" "content_caps (live_node c opts es) = content_caps (newNode opts)"
    "node_caps (live_node c opts es) = node_caps (newNode opts)"
  using live_node_ok[of c opts es] by (simp_all add: node_ok_def content_ok_def mesh_ok_def content_part_def node_part_def ledger_of_def)

lemma ok_within: "bm_ok x \<Longrightarrow> within_limit (bm_size x) (bm_max x)"
  by (simp add: bm_ok_def)

lemma all_within: "bm_all P x \<Longrightarrow> within_limit (bm_size x) (bm_max x)"
  by (rule ok_within[OF bm_all_ok])

lemma assembler_within:
  assumes "ca_ok a"
  shows "length (ca_entries a) \<le> max 1 (ca_maxEntries a)" "(i, e) \<in> set (ca_entries a) \<Longrightarrow> length (ae_chunks e) \<le> ca_maxChunksPerEntry a"
  using assms entry_chunks_bound by (auto simp: ca_ok_def)

text \<open>C3: A node's memory stays within the limits it was created with, through any run: the trust table, the duplicate cache, the
  routing table, the store-and-forward queue, the packet budgets of the mesh and of HTTP, the peer and service directories,
  the content store, the catalogue, both chunk assemblers, the conversations, channels and groups and the messages each holds,
  drops, beacons, delivery directories, locations, relays, notes and accepted commands, and the gateway's queue in entries and
  bytes. At most sixteen background fetches of each kind run at once, and every transfer in progress asks at most two
  providers and remembers at most sixteen more.\<close>

theorem node_resources_bounded:
  fixes c :: content_env and opts :: node_options and es :: "(env \<times> node_event) list"
  defines "n \<equiv> live_node c opts es" and "n0 \<equiv> newNode opts"
  shows "(\<forall>m. tm_maxSize (n_trust n0) = Num (of_nat m) \<longrightarrow> tm_size (n_trust n) \<le> max 1 m) \<and>
    within_limit (bm_size (n_seen n)) (bm_max (n_seen n0)) \<and>
    within_limit (bm_size (routes (n_routing n))) (bm_max (routes (n_routing n0))) \<and>
    within_limit (bm_size (pq_entries (n_pending n))) (bm_max (pq_entries (n_pending n0))) \<and>
    within_limit (bm_size (windows (n_limiter n))) (bm_max (windows (n_limiter n0))) \<and>
    within_limit (bm_size (windows (n_ingestLimiter n))) (bm_max (windows (n_ingestLimiter n0))) \<and>
    within_limit (bm_size (n_directory n)) (bm_max (n_directory n0)) \<and> within_limit (bm_size (n_services n)) (bm_max (n_services n0)) \<and>
    within_limit (bm_size (cs_items (n_store n))) (bm_max (cs_items (n_store n0))) \<and>
    within_limit (bm_size (n_catalog n)) (bm_max (n_catalog n0)) \<and>
    length (ca_entries (n_requester n)) \<le> max 1 (ca_maxEntries (n_requester n0)) \<and>
    (\<forall>(i, e) \<in> set (ca_entries (n_requester n)). length (ae_chunks e) \<le> ca_maxChunksPerEntry (n_requester n0)) \<and>
    length (ca_entries (n_relayed n)) \<le> max 1 (ca_maxEntries (n_relayed n0)) \<and>
    (\<forall>(i, e) \<in> set (ca_entries (n_relayed n)). length (ae_chunks e) \<le> ca_maxChunksPerEntry (n_relayed n0)) \<and>
    within_limit (bm_size (conversations (n_history n))) (bm_max (conversations (n_history n0))) \<and>
    (\<forall>p ms. bm_get (conversations (n_history n)) p = Some ms \<longrightarrow> length ms \<le> nat (maxMessagesPerPeer (n_history n0))) \<and>
    within_limit (bm_size (ch_messages (n_channels n))) (bm_max (ch_messages (n_channels n0))) \<and>
    (\<forall>ch ms. bm_get (ch_messages (n_channels n)) ch = Some ms \<longrightarrow> length ms \<le> nat (maxMessagesPerChannel (n_channels n0))) \<and>
    within_limit (bm_size (gs_groups (n_groups n))) (bm_max (gs_groups (n_groups n0))) \<and>
    (\<forall>g e. bm_get (gs_groups (n_groups n)) g = Some e \<longrightarrow> length (ge_messages e) \<le> nat (maxMessagesPerGroup (n_groups n0))) \<and>
    within_limit (bm_size (n_drops n)) (bm_max (n_drops n0)) \<and> within_limit (bm_size (n_beacons n)) (bm_max (n_beacons n0)) \<and>
    within_limit (bm_size (n_destinations n)) (bm_max (n_destinations n0)) \<and>
    within_limit (bm_size (lr_reports (n_locations n))) (bm_max (lr_reports (n_locations n0))) \<and>
    within_limit (bm_size (n_relays n)) (bm_max (n_relays n0)) \<and> within_limit (bm_size (n_appends n)) (bm_max (n_appends n0)) \<and>
    within_limit (bm_size (n_lastAcceptedCommand n)) (bm_max (n_lastAcceptedCommand n0)) \<and>
    length (dq_entries (n_deliveries n)) \<le> dq_maxEntries (n_deliveries n0) \<and>
    sum_list (map (\<lambda>(i, e). qd_sizeBytes e) (dq_entries (n_deliveries n))) \<le> dq_maxTotalBytes (n_deliveries n0) \<and>
    max (length (n_channelFetches n)) (length (n_dropFetches n)) \<le> 16 \<and>
    max (length (n_beaconFetches n)) (length (n_directoryFetches n)) \<le> 16 \<and>
    (\<forall>i r. map_of (n_requests n) i = Some r \<longrightarrow>
       length (fe_activeFetches (cr_entry r)) \<le> 2 \<and> length (fe_candidates (cr_entry r)) \<le> 16)"
proof -
  have ok: "node_ok c (ledger_of opts UNIV UNIV) n" unfolding n_def by (rule live_node_ok)
  note m = node_mesh_ok[OF ok] and f = node_fields_ok[OF ok]
  have c: "content_part c (ledger_of opts UNIV UNIV) n" "pd_ok (verifyWithNodeId c) (n_directory n)" "content_ok c (ledger_of opts UNIV UNIV) n"
    using ok by (simp_all add: node_ok_def content_ok_def mesh_ok_def)
  note g = registries_ok[OF c(3)]
  note caps = caps_of_run[of c opts es, folded n_def n0_def, unfolded mesh_caps_def content_caps_def node_caps_def, simplified]
  have r: "length (fe_activeFetches (cr_entry q)) \<le> 2 \<and> length (fe_candidates (cr_entry q)) \<le> 16"
    if "map_of (n_requests n) i = Some q" for i q
    using request_fetch_ok[OF c(3) that]
    by (simp add: request_ok_def fetch_ok_def MAX_CONCURRENT_CONTENT_FETCHES_def MAX_CONTENT_CANDIDATES_def)
  have d: "length (dq_entries (n_deliveries n)) \<le> dq_maxEntries (n_deliveries n0)"
    "sum_list (map (\<lambda>(i, e). qd_sizeBytes e) (dq_entries (n_deliveries n))) \<le> dq_maxTotalBytes (n_deliveries n0)"
    using f(7) caps by (simp_all add: dq_ok_def dq_over_def dq_counted_def total_size_def)
  have talk: "bm_get (conversations (n_history n)) p = Some ms \<Longrightarrow> length ms \<le> nat (maxMessagesPerPeer (n_history n0))"
    "bm_get (ch_messages (n_channels n)) ch = Some cs \<Longrightarrow> length cs \<le> nat (maxMessagesPerChannel (n_channels n0))"
    "bm_get (gs_groups (n_groups n)) gr = Some e \<Longrightarrow> length (ge_messages e) \<le> nat (maxMessagesPerGroup (n_groups n0))" for p ms ch cs gr e
    using bm_all_get[OF f(2)[unfolded mh_ok_def]] bm_all_get[OF g(1)[unfolded pc_ok_def]] bm_all_get[OF f(3)[unfolded gs_ok_def]] caps
    by auto
  have w: "within_limit (bm_size (conversations (n_history n))) (bm_max (conversations (n_history n)))"
    "within_limit (bm_size (ch_messages (n_channels n))) (bm_max (ch_messages (n_channels n)))"
    "within_limit (bm_size (gs_groups (n_groups n))) (bm_max (gs_groups (n_groups n)))"
    "within_limit (bm_size (n_services n)) (bm_max (n_services n))" "within_limit (bm_size (n_catalog n)) (bm_max (n_catalog n))"
    using all_within[OF f(2)[unfolded mh_ok_def]] all_within[OF g(1)[unfolded pc_ok_def]] all_within[OF f(3)[unfolded gs_ok_def]]
      all_within[OF f(8)] all_within[OF g(11)] .
  have t: "\<forall>k. tm_maxSize (n_trust n0) = Num (of_nat k) \<longrightarrow> tm_size (n_trust n) \<le> max 1 k"
    using m(4) caps by (simp add: tm_ok_def)
  have b: "bm_ok (routes (n_routing n))" "bm_ok (pq_entries (n_pending n))" "bm_ok (windows (n_limiter n))"
    "bm_ok (windows (n_ingestLimiter n))" "bm_ok (n_directory n)" "bm_ok (cs_items (n_store n))"
    using m(1,2,6) f(1) c(2) content_store_ok[OF c(3)] by (simp_all add: rt_ok_def pdq_ok_def rl_ok_def pd_ok_def cs_ok_def)
  have a: "length (ca_entries (n_requester n)) \<le> max 1 (ca_maxEntries (n_requester n0))"
    "\<forall>(i, e) \<in> set (ca_entries (n_requester n)). length (ae_chunks e) \<le> ca_maxChunksPerEntry (n_requester n0)"
    "length (ca_entries (n_relayed n)) \<le> max 1 (ca_maxEntries (n_relayed n0))"
    "\<forall>(i, e) \<in> set (ca_entries (n_relayed n)). length (ae_chunks e) \<le> ca_maxChunksPerEntry (n_relayed n0)"
    using assembler_within[OF g(5)] assembler_within[OF g(6)] caps by auto
  have l: "max (length (n_channelFetches n)) (length (n_dropFetches n)) \<le> 16"
    "max (length (n_beaconFetches n)) (length (n_directoryFetches n)) \<le> 16"
    using g by simp_all
  note within = b[THEN ok_within] m(3)[THEN ok_within] f(4,5,6,9)[THEN ok_within] g(2,3,4)[THEN ok_within] w
  show ?thesis
    by (intro conjI) (rule t d l a within[simplified caps] | use talk r in blast)+
qed

lemma node_resources_bounded_witness:
  "within_limit (tm_size (n_trust (live_node sample_crypto sample_options [])) + length (n_dropFetches (live_node sample_crypto sample_options [])))
     (Num 4112)"
proof -
  let ?n = "live_node sample_crypto sample_options []"
  have "tm_maxSize (n_trust (newNode sample_options)) = Num (of_nat 4096)"
    by (simp add: newNode_def sample_options_def tm_new_def)
  with node_resources_bounded[where c = sample_crypto and opts = sample_options and es = "[]"] have "tm_size (n_trust ?n) \<le> 4096" "length (n_dropFetches ?n) \<le> 16" by auto
  then show ?thesis using within_limit_nat[of _ 4112] by simp
qed

section \<open>Content under another name\<close>

definition content_view :: "'a content_node_scheme \<Rightarrow> (string, content_request) jsmap \<times> chunk_assembler \<times> content_store" where
  "content_view n = (n_requests n, n_requester n, n_store n)"

interpretation content_frame: mesh_observation "\<lambda>n. content_view n = v" for v
  by unfold_locales (simp_all add: content_view_def)

lemma drive_view:
  assumes "map_of (n_requests n) x = Some r"
  shows "content_view (drive env x f n) = (map_put x (r\<lparr>cr_entry := f (cr_entry r)\<rparr>) (n_requests n), n_requester n, n_store n)"
proof -
  let ?n = "n\<lparr>n_requests := map_put x (r\<lparr>cr_entry := f (cr_entry r)\<rparr>) (n_requests n)\<rparr>"
  have "content_view (foldl (\<lambda>n (p, range). originate_and_flood env CONTENT_REQUEST (range_request x range) (Some p) (Some CONTENT) n) ?n as)
      = content_view ?n" for as
    by (rule content_frame.foldl_P) (auto simp: content_frame.originate_and_flood_P)
  with assms show ?thesis by (simp add: drive_def Let_def content_view_def)
qed

lemma resolve_waiter_out: "e \<in> set (n_out n) \<Longrightarrow> e \<in> set (n_out (resolve_waiter env d n w))"
  by (cases w) (auto simp: resolve_waiter_def consume_def release_def split: option.split)

lemma resolve_all_out: "e \<in> set (n_out n) \<Longrightarrow> e \<in> set (n_out (foldl (resolve_waiter env d) n ws))"
  by (induction ws arbitrary: n) (auto simp: resolve_waiter_out)

lemma resolve_all_answers: "Caller k \<in> set ws \<Longrightarrow> Answer k (Some d) \<in> set (n_out (foldl (resolve_waiter env d) n ws))"
proof (induction ws arbitrary: n)
  case (Cons w ws)
  show ?case
  proof (cases "w = Caller k")
    case True
    then have "Answer k (Some d) \<in> set (n_out (resolve_waiter env d n w))" by (simp add: resolve_waiter_def consume_def release_def)
    then show ?thesis by (simp add: resolve_all_out)
  qed (use Cons in auto)
qed simp

text \<open>A request that has just been sized by \<open>m\<close>, whose only chunk has just arrived, and that is complete.\<close>

definition sized_by :: "string \<Rightarrow> content_metadata \<Rightarrow> string \<Rightarrow> fetch_entry" where
  "sized_by x m q = (fe_new x)\<lparr>fe_sized := True, fe_metadata := Some m, fe_rangeHighWaterMark := 0,
     fe_activeFetches := [(q, (0, 0))], fe_requests := [(q, (0, 0))]\<rparr>"

lemma sized_by_found: "chunkCountForSize (cm_size m) = 1 \<Longrightarrow> contentFound q (Some m) (fe_new x) = sized_by x m q"
  by (simp add: contentFound_def fe_new_def fe_active_def Let_def requestRangeFromProvider_def sized_by_def)

lemma sized_by_chunk:
  "chunkArrived q 0 (Suc 0) (sized_by x m q) = (sized_by x m q)\<lparr>fe_totalChunks := Some (Suc 0), fe_receivedChunks := [0]\<rparr>"
  by (simp add: chunkArrived_def noteChunk_def sized_by_def fe_new_def fe_active_def Let_def)

lemma sized_by_complete:
  "contentCompleted q ((sized_by x m q)\<lparr>fe_totalChunks := Some (Suc 0), fe_receivedChunks := [0]\<rparr>) =
     (sized_by x m q)\<lparr>fe_totalChunks := Some (Suc 0), fe_receivedChunks := [0], fe_activeFetches := []\<rparr>"
  by (simp add: contentCompleted_def tryKeepFetchesGoing_def sized_by_def fe_new_def fe_active_def Let_def keep_loop.simps
      tryAssignUnassignedRange_def)

definition chunk_payload :: "string \<Rightarrow> string \<Rightarrow> jsval" where
  "chunk_payload x s = JObject [(''contentId'', JString x), (''chunkIndex'', JNumber (Num 0)), (''totalChunks'', JNumber (Num 1)),
     (''data'', JString s)]"

lemma chunk_payload_fields [simp]:
  "jfield (chunk_payload x s) ''contentId'' = JString x" "jfield (chunk_payload x s) ''chunkIndex'' = JNumber (Num 0)"
  "jfield (chunk_payload x s) ''totalChunks'' = JNumber (Num 1)" "jfield (chunk_payload x s) ''data'' = JString s"
  by (simp_all add: chunk_payload_def)

lemma substitution_found:
  assumes r: "map_of (n_requests n) x = Some r" "cr_entry r = fe_new x" and m: "chunkCountForSize (cm_size m) = 1"
    and f: "jfield (pk_payload f) ''contentId'' = JString x" "metadata_of (jfield (pk_payload f) ''metadata'') = Some m"
  shows "content_view (handleContentFound env f n) =
    (map_put x (r\<lparr>cr_entry := sized_by x m (pk_source f)\<rparr>) (n_requests n), n_requester n, n_store n)"
  using drive_view[OF r(1), of env "contentFound (pk_source f) (Some m)"] r f
  by (simp add: handleContentFound_def sized_by_found[OF m])

lemma substitution_chunk:
  assumes r: "map_of (n_requests n) x = Some r" "cr_entry r = sized_by x m q"
    and a: "map_of (ca_entries (n_requester n)) x = None" "1 \<le> ca_maxChunksPerEntry (n_requester n)"
    and c: "pk_payload c = chunk_payload x s" "pk_source c = q" "en_unbase64 env s = d"
  shows "\<exists>a. content_view (handleContentChunk env c n) =
      (map_put x (r\<lparr>cr_entry := (sized_by x m q)\<lparr>fe_totalChunks := Some 1, fe_receivedChunks := [0]\<rparr>\<rparr>) (n_requests n), a, n_store n) \<and>
    map_of (ca_entries a) x = Some \<lparr>ae_chunks = [(0, d)], ae_totalChunks = 1\<rparr>"
proof -
  have here: "\<not> waiting_elsewhere x q n" using r by (simp add: waiting_elsewhere_def sized_by_def fe_active_def)
  have claim: "valid_claim (ca_maxChunksPerEntry (n_requester n)) (JNumber (Num 0)) (JNumber (Num 1)) = Some (0, 1)"
    using a(2) by (simp add: valid_claim_def)
  obtain a' where add: "addChunk x (JNumber (Num 0)) (JNumber (Num 1)) d (n_requester n) = (True, a')"
    "map_of (ca_entries a') x = Some \<lparr>ae_chunks = [(0, d)], ae_totalChunks = 1\<rparr>"
    using claim a(1) by (simp add: addChunk_def Let_def)
  have "handleContentChunk env c n = drive env x (chunkArrived q 0 1) (n\<lparr>n_requester := a'\<rparr>)"
    using here claim add(1) c by (simp add: handleContentChunk_def Let_def)
  with drive_view[of "n\<lparr>n_requester := a'\<rparr>" x r env "chunkArrived q 0 1"] r add(2) show ?thesis
    by (auto simp: sized_by_chunk)
qed

lemma substitution_complete:
  assumes r: "map_of (n_requests n) x = Some r"
      "cr_entry r = (sized_by x m q)\<lparr>fe_totalChunks := Some 1, fe_receivedChunks := [0]\<rparr>"
    and a: "map_of (ca_entries (n_requester n)) x = Some \<lparr>ae_chunks = [(0, d)], ae_totalChunks = 1\<rparr>"
    and m: "verifyContentSignature (en_crypto env) m" "\<not> expired (en_now env) m" "cm_encoding m = None"
      "computeContentId (en_crypto env) d = cm_contentId m"
    and c: "jfield (pk_payload c) ''contentId'' = JString x" "is_object (jfield (pk_payload c) ''metadata'')" "pk_source c = q"
    and w: "Caller k \<in> set (cr_waiters r)"
  shows "Answer k (Some d) \<in> set (n_out (handleContentComplete env c n))"
proof -
  have here: "\<not> waiting_elsewhere x q n" using r by (simp add: waiting_elsewhere_def sized_by_def fe_active_def)
  let ?n = "drive env x (contentCompleted q) n"
  let ?r = "r\<lparr>cr_entry := (sized_by x m q)\<lparr>fe_totalChunks := Some 1, fe_receivedChunks := [0], fe_activeFetches := []\<rparr>\<rparr>"
  have v: "n_requests ?n = map_put x ?r (n_requests n)" "n_requester ?n = n_requester n"
    using drive_view[OF r(1), of env "contentCompleted q"] r(2) by (simp_all add: content_view_def sized_by_complete)
  let ?a = "(n_requester n)\<lparr>ca_entries := map_del x (ca_entries (n_requester n))\<rparr>"
  have t: "tryComplete (en_crypto env) x m (n_requester n) = (Some d, ?a)"
    using a m(4) by (simp add: tryComplete_def)
  have st: "fst (store_transfer env m (Some d) n0)" for n0 :: "'a content_node_scheme"
    using m by (simp add: store_transfer_def putVerified_def case_prod_unfold Let_def)
  have "tryAssembleAndResolve env x fb ?n = foldl (resolve_waiter env d)
      (let n1 = snd (store_transfer env m (Some d) (?n\<lparr>n_requester := ?a\<rparr>)) in n1\<lparr>n_requests := map_del x (n_requests n1)\<rparr>)
      (cr_waiters r)" for fb
    using st m(3) by (simp add: tryAssembleAndResolve_def v t case_prod_unfold Let_def sized_by_def decodeStoredContent_def)
  with here c w show ?thesis by (simp add: handleContentComplete_def Let_def resolve_all_answers)
qed

text \<open>C8: The bytes a caller of \<open>getContent\<close> receives need not be the content it asked for. The first provider that
  answers the query chooses the metadata the whole transfer is checked against, and nobody compares its content id
  with the one requested. So a peer that answers a query for \<open>x\<close> with any validly signed metadata of some other
  content and serves that content's bytes in one chunk makes everyone who waits for \<open>x\<close> receive the other bytes, as
  if they were \<open>x\<close>.\<close>

theorem content_substitution:
  fixes n :: "'a content_node_scheme"
  assumes r: "map_of (n_requests n) x = Some r" "cr_entry r = fe_new x" "Caller k \<in> set (cr_waiters r)"
    and a: "map_of (ca_entries (n_requester n)) x = None" "1 \<le> ca_maxChunksPerEntry (n_requester n)"
    and m: "verifyContentSignature (en_crypto env3) m" "\<not> expired (en_now env3) m" "cm_encoding m = None"
      "computeContentId (en_crypto env3) d = cm_contentId m" "chunkCountForSize (cm_size m) = 1"
    and found: "jfield (pk_payload f) ''contentId'' = JString x" "jfield (pk_payload f) ''metadata'' = metadata_json m"
      "pk_source f = q"
    and chunk: "pk_payload c = chunk_payload x s" "pk_source c = q" "en_unbase64 env2 s = d"
    and complete: "jfield (pk_payload g) ''contentId'' = JString x" "jfield (pk_payload g) ''metadata'' = metadata_json m"
      "pk_source g = q"
    and other: "computeContentId (en_crypto env3) d \<noteq> x"
  shows "\<exists>d'. computeContentId (en_crypto env3) d' \<noteq> x \<and>
    Answer k (Some d') \<in> set (n_out (handleContentComplete env3 g (handleContentChunk env2 c (handleContentFound env1 f n))))"
proof -
  let ?n1 = "handleContentFound env1 f n"
  let ?r1 = "r\<lparr>cr_entry := sized_by x m q\<rparr>"
  let ?r2 = "r\<lparr>cr_entry := (sized_by x m q)\<lparr>fe_totalChunks := Some 1, fe_receivedChunks := [0]\<rparr>\<rparr>"
  have v1: "n_requests ?n1 = map_put x ?r1 (n_requests n)" "n_requester ?n1 = n_requester n"
    using substitution_found[OF r(1,2) m(5) found(1)] found by (simp_all add: content_view_def metadata_roundtrip)
  have "map_of (n_requests ?n1) x = Some ?r1" "cr_entry ?r1 = sized_by x m q" by (simp_all add: v1)
  from substitution_chunk[OF this _ _ chunk] a v1 obtain b where
    v2: "n_requests (handleContentChunk env2 c ?n1) = map_put x ?r2 (map_put x ?r1 (n_requests n))"
      "n_requester (handleContentChunk env2 c ?n1) = b" and
    b: "map_of (ca_entries b) x = Some \<lparr>ae_chunks = [(0, d)], ae_totalChunks = 1\<rparr>"
    by (auto simp: content_view_def)
  have obj: "is_object (metadata_json m)" by (simp add: metadata_json_def json_object_def)
  have "Answer k (Some d) \<in> set (n_out (handleContentComplete env3 g (handleContentChunk env2 c ?n1)))"
    by (rule substitution_complete[of _ x ?r2 m q d]) (use v2 b m complete obj r(3) in simp_all)
  with other show ?thesis by blast
qed

definition sample_answer :: "message_type \<Rightarrow> jsval packet" where
  "sample_answer t = sample_packet t (JObject [(''contentId'', JString ''wanted''), (''metadata'', metadata_json sample_metadata)]) None"

definition sample_waiting :: node where
  "sample_waiting = sample_node\<lparr>n_requests := [(''wanted'', (new_request ''wanted'')\<lparr>cr_waiters := [Caller 0]\<rparr>)]\<rparr>"

lemma content_substitution_witness:
  "\<exists>d. computeContentId sample_crypto d \<noteq> ''wanted'' \<and> Answer 0 (Some d) \<in> set (n_out
     (handleContentComplete sample_env (sample_answer CONTENT_COMPLETE)
       (handleContentChunk sample_env (sample_packet CONTENT_CHUNK (chunk_payload ''wanted'' ''AA'') None)
         (handleContentFound sample_env (sample_answer CONTENT_FOUND) sample_waiting))))"
proof -
  let ?r = "(new_request ''wanted'')\<lparr>cr_waiters := [Caller 0]\<rparr>"
  have r: "map_of (n_requests sample_waiting) ''wanted'' = Some ?r" "cr_entry ?r = fe_new ''wanted''" "Caller 0 \<in> set (cr_waiters ?r)"
    by (simp_all add: sample_waiting_def new_request_def)
  have a: "map_of (ca_entries (n_requester sample_waiting)) ''wanted'' = None" "1 \<le> ca_maxChunksPerEntry (n_requester sample_waiting)"
    by (simp_all add: sample_waiting_def ca_new_def)
  have c: "en_crypto sample_env = sample_crypto" by (simp add: sample_env_def)
  have m: "verifyContentSignature (en_crypto sample_env) sample_metadata" "\<not> expired (en_now sample_env) sample_metadata"
    "cm_encoding sample_metadata = None" "computeContentId (en_crypto sample_env) [7, 7] = cm_contentId sample_metadata"
    "computeContentId (en_crypto sample_env) [7, 7] \<noteq> ''wanted''"
    by (simp_all add: sample_env_def sample_crypto_def sample_metadata_def verifyContentSignature_def expired_def)
  have sz: "chunkCountForSize (cm_size sample_metadata) = 1"
    by (simp add: sample_metadata_def chunkCountForSize_def CHUNK_SIZE_def ceiling_eq_iff)
  have p: "jfield (pk_payload (sample_answer t)) ''contentId'' = JString ''wanted''"
    "jfield (pk_payload (sample_answer t)) ''metadata'' = metadata_json sample_metadata" "pk_source (sample_answer t) = ''ann''" for t
    by (simp_all add: sample_answer_def sample_packet_def createPacket_def)
  have d: "pk_payload (sample_packet CONTENT_CHUNK (chunk_payload ''wanted'' ''AA'') None) = chunk_payload ''wanted'' ''AA''"
    "pk_source (sample_packet CONTENT_CHUNK (chunk_payload ''wanted'' ''AA'') None) = ''ann''" "en_unbase64 sample_env ''AA'' = [7, 7]"
    by (simp_all add: sample_packet_def createPacket_def sample_env_def)
  show ?thesis by (rule content_substitution[OF r a m(1-4) sz p d p m(5), unfolded c])
qed

section \<open>Deliveries to the outside\<close>

lemma evict_entries_in: "x \<in> set (dq_entries (evictWhileOverCapacity q)) \<Longrightarrow> x \<in> set (dq_entries q)"
proof (induction q rule: evictWhileOverCapacity.induct)
  case (1 q)
  have "set (dq_entries (dq_drop k q)) \<subseteq> set (dq_entries q)" for k
    by (auto simp: dq_drop_def map_del_filter split: option.split)
  with 1 show ?case by (subst (asm) (2) evictWhileOverCapacity.simps) (auto split: if_splits option.splits)
qed

lemma map_put_in: "x \<in> set (map_put k v m) \<Longrightarrow> x = (k, v) \<or> x \<in> set m"
  by (induction m) (auto split: if_splits)

lemma dq_enqueue_in:
  assumes "(k, d) \<in> set (dq_entries (dq_enqueue t p e q))"
  shows "(k, d) \<in> set (dq_entries q) \<or> (k = qd_packetId e \<and> d = e\<lparr>qd_priority := priorityRank p, qd_expiresAt := t + dq_ttlMs q\<rparr>)"
  using assms by (auto simp: dq_enqueue_def Let_def split: if_splits dest!: evict_entries_in map_put_in)

text \<open>What an entry of the gateway's queue must have been when it was queued.\<close>

definition allowed_delivery :: "env \<Rightarrow> queued_delivery \<Rightarrow> bool" where
  "allowed_delivery env d \<longleftrightarrow> (\<exists>allowlist destination p. en_allowlist env = Some allowlist \<and>
     map_of allowlist (qd_destinationId d) = Some destination \<and> qd_url d = xd_url destination \<and>
     ed_destinationId p = qd_destinationId d \<and> ed_nonce p = qd_nonce d \<and> ed_ciphertext p = qd_ciphertext d \<and>
     ed_authTag p = qd_authTag d \<and> authorised env destination p)"

text \<open>C11: The gateway posts only where its operator allowed: every delivery that a packet of the mesh or a
  submission over HTTP adds to the queue is addressed to a destination of the operator's allow-list, carries that
  destination's own url, and its ciphertext was authorised with that destination's password. No field of the
  packet can choose a url.\<close>

theorem only_allowed_deliveries:
  assumes "(k, d) \<in> set (dq_entries (n_deliveries n'))"
    and "n' = handleExternalDelivery env packet n \<or> n' = snd (ingestExternalDelivery env payload n)"
  shows "(k, d) \<in> set (dq_entries (n_deliveries n)) \<or> allowed_delivery env d"
  using assms
  by (auto simp: handleExternalDelivery_def ingestExternalDelivery_def ingest_allowed_def tryConsumeHttpIngestedExternalDeliveryBudget_def
      emit_def queued_from_def allowed_delivery_def case_prod_unfold Let_def split: option.splits if_splits dest!: dq_enqueue_in)

definition sample_delivery :: "jsval packet" where
  "sample_delivery = sample_packet EXTERNAL_DELIVERY (JObject [(''destinationId'', JString ''hook''),
     (''senderEphemeralPublicKey'', JString (replicate X25519_PUBLIC_KEY_HEX_LENGTH CHR ''0'')),
     (''nonce'', JString (replicate AES_GCM_NONCE_HEX_LENGTH CHR ''0'')), (''ciphertext'', JString ''00''),
     (''authTag'', JString (replicate AES_GCM_AUTH_TAG_HEX_LENGTH CHR ''0'')), (''submittedAt'', JNumber (Num 0))]) None"

lemma hex_zeros: "0 < k \<Longrightarrow> hex_string k (JString (replicate k CHR ''0'')) = Some (replicate k CHR ''0'')"
  by (simp add: hex_string_def hex_pattern_def list_all_iff is_hex_digit_def hex_digits_def)

lemma only_allowed_deliveries_witness:
  "\<exists>k d. (k, d) \<in> set (dq_entries (n_deliveries (handleExternalDelivery sample_env sample_delivery sample_node))) \<and>
     allowed_delivery sample_env d"
proof -
  let ?n = "handleExternalDelivery sample_env sample_delivery sample_node"
  have z: "0 < X25519_PUBLIC_KEY_HEX_LENGTH" "0 < AES_GCM_NONCE_HEX_LENGTH" "0 < AES_GCM_AUTH_TAG_HEX_LENGTH"
    by (simp_all add: X25519_PUBLIC_KEY_HEX_LENGTH_def AES_GCM_NONCE_HEX_LENGTH_def AES_GCM_AUTH_TAG_HEX_LENGTH_def)
  have q: "dq_entries (n_deliveries sample_node) = []"
    by (simp add: sample_node_def newNode_def sample_options_def dq_new_def)
  have x: "extractExternalDeliveryPayload 2048 (pk_payload sample_delivery) \<noteq> None"
    by (simp add: extractExternalDeliveryPayload_def sample_delivery_def sample_packet_def createPacket_def hex_zeros z
        bounded_string_def MAX_EXTERNAL_DELIVERY_DESTINATION_ID_LENGTH_def ciphertext_string_def hex_pattern_def is_hex_digit_def
        hex_digits_def optional_def require_def)
  then obtain p where p: "extractExternalDeliveryPayload 2048 (pk_payload sample_delivery) = Some p" by auto
  then have d: "ed_destinationId p = ''hook''" "ed_ciphertext p = ''00''"
    by (auto simp: extractExternalDeliveryPayload_def sample_delivery_def sample_packet_def createPacket_def extractor_Some
        ciphertext_string_def split: if_splits)
  have "dq_entries (n_deliveries ?n) \<noteq> []"
    using p d q
    by (simp add: handleExternalDelivery_def sample_env_def authorised_def verifyExternalDeliveryAuthProof_def dq_enqueue_def Let_def
        emit_def evictWhileOverCapacity.simps dq_over_def queued_from_def sample_node_def newNode_def sample_options_def dq_new_def)
  then obtain k e where e: "(k, e) \<in> set (dq_entries (n_deliveries ?n))" by (cases "dq_entries (n_deliveries ?n)") auto
  from only_allowed_deliveries[OF e, of sample_env sample_delivery sample_node JNull] q e show ?thesis by auto
qed

end
