(* ===== verification/NodeCommands.thy ===== *)
theory NodeCommands
  imports NodeProps
begin

text \<open>
  Relay commands, the requests to reboot a relay: what a captured command can do, how often a node can be
  rebooted over HTTP, and what happens to the memory against replays when it is full.
\<close>

section \<open>Relay commands\<close>

text \<open>The two ways in which a command to reboot reaches the node: inside a private message, already decrypted
  and attributed to its sender, or as a signed submission. \<open>accepted_command\<close> is the sender and the timestamp when
  it is accepted.\<close>

datatype command = MeshCommand string "rat option" | HttpCommand jsval

fun command_step :: "node \<Rightarrow> env \<times> command \<Rightarrow> node" where
  "command_step n (env, MeshCommand s t) = considerRelayCommand env s t n"
| "command_step n (env, HttpCommand v) = snd (ingestSignedRelayCommand env v n)"

fun accepted_command :: "node \<Rightarrow> env \<times> command \<Rightarrow> (string \<times> rat) option" where
  "accepted_command n (env, MeshCommand s t) =
     (if Emit (RebootRequested s) \<in> set (drop (length (n_out n)) (n_out (considerRelayCommand env s t n)))
      then map_option (Pair s) t else None)"
| "accepted_command n (env, HttpCommand v) =
     (if fst (ingestSignedRelayCommand env v n) = Accepted
      then map_option (\<lambda>r. (rcmd_publisherId r, rcmd_timestamp r)) (verifySignedRelayCommandSubmission (en_verify env) v) else None)"

fun accepted_log :: "node \<Rightarrow> (env \<times> command) list \<Rightarrow> (string \<times> rat) list" where
  "accepted_log n [] = []"
| "accepted_log n (e # es) = (case accepted_command n e of Some x \<Rightarrow> [x] | None \<Rightarrow> []) @ accepted_log (command_step n e) es"

text \<open>Who a command speaks for.\<close>

fun speaker :: "env \<times> command \<Rightarrow> string option" where
  "speaker (env, MeshCommand s t) = Some s"
| "speaker (env, HttpCommand v) = map_option rcmd_publisherId (verifySignedRelayCommandSubmission (en_verify env) v)"

lemma ingest_allowed_last [simp]: "n_lastAcceptedCommand (snd (ingest_allowed env who n)) = n_lastAcceptedCommand n"
  by (simp add: ingest_allowed_def case_prod_unfold Let_def split: option.split)

lemma command_budget_last [simp]:
  "n_lastAcceptedCommand (snd (tryConsumeHttpIngestedRelayCommandBudget env n)) = n_lastAcceptedCommand n"
  by (simp add: tryConsumeHttpIngestedRelayCommandBudget_def case_prod_unfold Let_def)

lemma emit_last [simp]: "n_lastAcceptedCommand (emit e n) = n_lastAcceptedCommand n"
  by (simp add: emit_def)

text \<open>One command: refused, and the memory of accepted timestamps is as before; or accepted, newer than what was
  remembered of its speaker, and remembered.\<close>

lemma command_cases:
  assumes "accepted_command n e = x"
  shows "case x of
      None \<Rightarrow> n_lastAcceptedCommand (command_step n e) = n_lastAcceptedCommand n
    | Some (s, t) \<Rightarrow> speaker e = Some s \<and> (\<forall>t0. bm_get (n_lastAcceptedCommand n) s = Some t0 \<longrightarrow> t0 < t) \<and>
        (\<exists>sc. n_lastAcceptedCommand (command_step n e) = bm_put sc s t (n_lastAcceptedCommand n))"
proof (cases e)
  case (Pair env cmd)
  show ?thesis
  proof (cases cmd)
    case (MeshCommand s t)
    with assms Pair show ?thesis
      by (auto simp: considerRelayCommand_def emit_def not_le split: option.splits if_splits)
  next
    case (HttpCommand v)
    have s: "sum \<noteq> Accepted \<longleftrightarrow> sum = Rejected \<or> sum = RateLimited" for sum by (cases sum) auto
    from assms Pair HttpCommand show ?thesis
      by (auto simp: ingestSignedRelayCommand_def case_prod_unfold Let_def not_le split: option.splits if_splits)
  qed
qed

definition accepted_times :: "string \<Rightarrow> (string \<times> rat) list \<Rightarrow> rat list" where
  "accepted_times i xs = map snd (filter (\<lambda>x. fst x = i) xs)"

lemma accepted_times_simps [simp]:
  "accepted_times i [] = []"
  "accepted_times i (x # xs) = (if fst x = i then snd x # accepted_times i xs else accepted_times i xs)"
  by (simp_all add: accepted_times_def)

text \<open>While the speakers fit into the memory nothing is evicted from it.\<close>

definition commands_fit :: "string set \<Rightarrow> (string, rat) bounded_map \<Rightarrow> bool" where
  "commands_fit P m \<longleftrightarrow> bm_ok m \<and> finite P \<and> card P \<le> MAX_TRACKED_RELAY_COMMAND_SENDERS \<and>
     bm_max m = Num (of_nat MAX_TRACKED_RELAY_COMMAND_SENDERS) \<and> (\<forall>k. bm_has m k \<longrightarrow> k \<in> P)"

lemma bm_size_le_keys:
  assumes "bm_ok m" "finite P" "\<forall>k. bm_has m k \<longrightarrow> k \<in> P"
  shows "bm_size m \<le> card P"
proof -
  have "fst ` set (bm_map m) \<subseteq> P" using assms(3) by (auto simp: bm_has_def map_of_eq_None_iff)
  then have "card (fst ` set (bm_map m)) \<le> card P" by (rule card_mono[OF assms(2)])
  with assms(1) show ?thesis using distinct_card[of "map fst (bm_map m)"] by (simp add: bm_ok_def bm_size_def)
qed

lemma commands_fit_put:
  assumes fit: "commands_fit P m" and s: "s \<in> P"
  shows "bm_get (bm_put sc s t m) k = (if k = s then Some t else bm_get m k)" "commands_fit P (bm_put sc s t m)"
proof -
  have pos: "\<not> num_le (bm_max m) (Num 0)" using fit by (simp add: commands_fit_def MAX_TRACKED_RELAY_COMMAND_SENDERS_def)
  show g: "bm_get (bm_put sc s t m) k = (if k = s then Some t else bm_get m k)" for k
  proof (cases "bm_has m s")
    case True
    then show ?thesis by (rule bm_set_known[OF _ pos])
  next
    case False
    have "bm_size m \<le> card (P - {s})"
      by (rule bm_size_le_keys) (use fit False in \<open>auto simp: commands_fit_def\<close>)
    also have "\<dots> < card P" using fit s card_Diff1_less[of P s] by (simp add: commands_fit_def)
    finally have "\<not> num_le (bm_max m) (Num (of_nat (bm_size m)))" using fit by (simp add: commands_fit_def)
    then show ?thesis by (rule bm_set_room[OF _ pos])
  qed
  show "commands_fit P (bm_put sc s t m)"
    using fit s by (auto simp: commands_fit_def bm_set_ok bm_has_get g split: if_splits)
qed

lemma accepted_log_rising:
  assumes "commands_fit P (n_lastAcceptedCommand n)" and "\<forall>e\<in>set es. \<forall>s. speaker e = Some s \<longrightarrow> s \<in> P"
  shows "sorted_wrt (<) (accepted_times i (accepted_log n es)) \<and>
    (\<forall>t0. bm_get (n_lastAcceptedCommand n) i = Some t0 \<longrightarrow> (\<forall>t\<in>set (accepted_times i (accepted_log n es)). t0 < t))"
  using assms
proof (induction es arbitrary: n)
  case Nil
  then show ?case by simp
next
  case (Cons e es)
  let ?n = "command_step n e"
  have es: "\<forall>e\<in>set es. \<forall>s. speaker e = Some s \<longrightarrow> s \<in> P" using Cons.prems(2) by simp
  show ?case
  proof (cases "accepted_command n e")
    case None
    with command_cases[OF None] Cons.IH[OF _ es, of ?n] Cons.prems(1) show ?thesis by simp
  next
    case (Some x)
    obtain s t where x: "x = (s, t)" by (cases x)
    note a = command_cases[OF Some[unfolded x], simplified]
    then obtain sc where put: "n_lastAcceptedCommand ?n = bm_put sc s t (n_lastAcceptedCommand n)" by auto
    have s: "s \<in> P" using a Cons.prems(2) by simp
    note fit = commands_fit_put[OF Cons.prems(1) s, of sc t, folded put]
    from Cons.IH[OF fit(2) es] fit(1) a Some x show ?thesis by (auto intro: less_trans)
  qed
qed

text \<open>C9: A captured command never reboots the node twice. As long as no more than 256 identities are involved (the
  size of the memory), and through whatever mixture of private messages and signed submissions with whatever trust
  settings, clocks and budgets, the timestamps of the commands accepted from one identity strictly increase; a
  literal replay of an accepted command is therefore refused on both ways.\<close>

theorem command_replay_refused:
  assumes "bm_ok (n_lastAcceptedCommand n)" and "bm_max (n_lastAcceptedCommand n) = Num (of_nat MAX_TRACKED_RELAY_COMMAND_SENDERS)"
    and "\<forall>k. bm_has (n_lastAcceptedCommand n) k \<longrightarrow> k \<in> P" and "finite P" and "card P \<le> MAX_TRACKED_RELAY_COMMAND_SENDERS"
    and "\<forall>e\<in>set es. \<forall>s. speaker e = Some s \<longrightarrow> s \<in> P"
  shows "sorted_wrt (<) (accepted_times i (accepted_log n es))"
proof -
  have "commands_fit P (n_lastAcceptedCommand n)" using assms(1-5) by (simp add: commands_fit_def)
  from accepted_log_rising[OF this assms(6)] show ?thesis by blast
qed

definition sample_command :: "string \<Rightarrow> rat \<Rightarrow> jsval" where
  "sample_command i t = JObject [(''command'', JString ''reboot''), (''timestamp'', JNumber (Num t)),
     (''targetNodeId'', JString ''me''), (''publisherId'', JString i), (''signature'', JString ''good'')]"

lemma sample_command_verified:
  "i \<noteq> [] \<Longrightarrow> verifySignedRelayCommandSubmission (en_verify sample_env) (sample_command i t) =
     Some \<lparr>rcmd_timestamp = t, rcmd_targetNodeId = ''me'', rcmd_publisherId = i, rcmd_signature = ''good''\<rparr>"
  by (simp add: verifySignedRelayCommandSubmission_def sample_command_def nonempty_string_def verified_def require_def
      sample_env_def sample_crypto_def)

lemma command_replay_refused_witness:
  "sorted_wrt (<) (accepted_times ''ann'' (accepted_log sample_node
     [(sample_env, HttpCommand (sample_command ''ann'' 5)), (sample_env, HttpCommand (sample_command ''ann'' 5))]))"
proof (rule command_replay_refused[where P = "{''ann''}"])
  show "bm_ok (n_lastAcceptedCommand sample_node)" "bm_max (n_lastAcceptedCommand sample_node) = Num (of_nat MAX_TRACKED_RELAY_COMMAND_SENDERS)"
    "\<forall>k. bm_has (n_lastAcceptedCommand sample_node) k \<longrightarrow> k \<in> {''ann''}"
    by (simp_all add: sample_node_def newNode_def bm_has_get) (simp add: bm_new_def)
  show "card {''ann''} \<le> MAX_TRACKED_RELAY_COMMAND_SENDERS" by (simp add: MAX_TRACKED_RELAY_COMMAND_SENDERS_def)
qed (auto simp: sample_command_verified)

section \<open>How often a node can be rebooted over HTTP\<close>

text \<open>Commands that all arrive over HTTP; how many of them are accepted.\<close>

fun accepted_http :: "node \<Rightarrow> (env \<times> jsval) list \<Rightarrow> nat" where
  "accepted_http n [] = 0"
| "accepted_http n ((env, v) # es) =
     (let (r, n') = ingestSignedRelayCommand env v n in (if r = Accepted then 1 else 0) + accepted_http n' es)"

text \<open>A budget that was opened inside the observed interval cannot be reopened in it.\<close>

lemma consume_budget_cases:
  assumes "consume_budget w m t b = (ok, b')" and "bw_count b \<le> m" and "T \<le> t" and "t < T + w"
  shows "(bw_windowStart b' = bw_windowStart b \<and> bw_count b' = bw_count b + (if ok then 1 else 0) \<or>
      bw_windowStart b < T \<and> T \<le> bw_windowStart b' \<and> bw_count b' = (if ok then 1 else 0)) \<and> bw_count b' \<le> m"
  using assms by (auto simp: consume_budget_def Let_def split: if_splits)

lemma ingest_command_budget:
  assumes "ingestSignedRelayCommand env v n = (r, n')"
  shows "(r \<noteq> Accepted \<and> n_httpCommands n' = n_httpCommands n) \<or>
    (\<exists>ok. consume_budget WINDOW_MS MAX_HTTP_INGESTED_RELAY_COMMANDS_PER_WINDOW (en_now env) (n_httpCommands n) = (ok, n_httpCommands n') \<and>
      (ok \<longleftrightarrow> r = Accepted))"
proof -
  have i: "n_httpCommands (snd (ingest_allowed env who n)) = n_httpCommands n" for who
    by (simp add: ingest_allowed_def case_prod_unfold Let_def split: option.split)
  obtain ok b where c: "consume_budget WINDOW_MS MAX_HTTP_INGESTED_RELAY_COMMANDS_PER_WINDOW (en_now env) (n_httpCommands n) = (ok, b)"
    by (cases "consume_budget WINDOW_MS MAX_HTTP_INGESTED_RELAY_COMMANDS_PER_WINDOW (en_now env) (n_httpCommands n)")
  show ?thesis using assms i
    by (auto simp: ingestSignedRelayCommand_def tryConsumeHttpIngestedRelayCommandBudget_def c emit_def case_prod_unfold Let_def
        split: option.splits if_splits)
qed

lemma accepted_http_bound:
  assumes "\<forall>(env, v)\<in>set es. T \<le> en_now env \<and> en_now env < T + WINDOW_MS"
    and "bw_count (n_httpCommands n) \<le> MAX_HTTP_INGESTED_RELAY_COMMANDS_PER_WINDOW"
  shows "accepted_http n es + bw_count (n_httpCommands n) \<le>
    (if bw_windowStart (n_httpCommands n) < T then 2 else 1) * MAX_HTTP_INGESTED_RELAY_COMMANDS_PER_WINDOW"
  using assms
proof (induction es arbitrary: n)
  case Nil
  then show ?case by simp
next
  case (Cons e es)
  obtain env v where e: "e = (env, v)" by (cases e)
  obtain r n' where i: "ingestSignedRelayCommand env v n = (r, n')" by (cases "ingestSignedRelayCommand env v n")
  have t: "T \<le> en_now env" "en_now env < T + WINDOW_MS" using Cons.prems(1) by (auto simp: e)
  have rest: "\<forall>(env, v)\<in>set es. T \<le> en_now env \<and> en_now env < T + WINDOW_MS" using Cons.prems(1) by simp
  from ingest_command_budget[OF i] show ?case
  proof (elim disjE exE conjE)
    assume "r \<noteq> Accepted" and same: "n_httpCommands n' = n_httpCommands n"
    with Cons.IH[OF rest, of n'] Cons.prems(2) show ?thesis by (simp add: e i)
  next
    fix ok
    assume c: "consume_budget WINDOW_MS MAX_HTTP_INGESTED_RELAY_COMMANDS_PER_WINDOW (en_now env) (n_httpCommands n) = (ok, n_httpCommands n')"
      and ok: "ok = (r = Accepted)"
    from consume_budget_cases[OF c Cons.prems(2) t] Cons.IH[OF rest, of n'] show ?thesis
      using Cons.prems(2) ok by (auto simp: e i split: if_splits)
  qed
qed

text \<open>C10: Whatever is submitted over HTTP, by however many identities, at most six commands to reboot are accepted
  within any five minutes: the budget of three is refilled at most once in an interval as long as its window.\<close>

theorem http_reboots_budgeted:
  assumes "bw_count (n_httpCommands n) \<le> MAX_HTTP_INGESTED_RELAY_COMMANDS_PER_WINDOW"
    and "\<forall>(env, v)\<in>set es. T \<le> en_now env \<and> en_now env < T + WINDOW_MS"
  shows "accepted_http n es \<le> 6"
  using accepted_http_bound[OF assms(2,1)]
  by (auto simp: MAX_HTTP_INGESTED_RELAY_COMMANDS_PER_WINDOW_def split: if_splits)

lemma http_reboots_budgeted_witness:
  "accepted_http sample_node (map (\<lambda>t. (sample_env, sample_command ''ann'' (of_nat t))) [1..<10]) \<le> 6"
proof (rule http_reboots_budgeted[where T = 0])
  show "bw_count (n_httpCommands sample_node) \<le> MAX_HTTP_INGESTED_RELAY_COMMANDS_PER_WINDOW"
    by (simp add: sample_node_def newNode_def empty_budget_def)
qed (auto simp: sample_env_def WINDOW_MS_def)

section \<open>A full memory forgets\<close>

lemma scan_victim_flat: "scan_victim (\<lambda>i t. Num c) m (Some k) (Num c) = Some k"
  by (induction m) auto

lemma ingest_command_accepted:
  assumes "fst (ingestSignedRelayCommand env v n) = Accepted"
    and "verifySignedRelayCommandSubmission (en_verify env) v = Some c"
  shows "n_lastAcceptedCommand (snd (ingestSignedRelayCommand env v n)) =
      bm_put (command_score n) (rcmd_publisherId c) (rcmd_timestamp c) (n_lastAcceptedCommand n)"
proof -
  have i: "n_trust (snd (ingest_allowed env who n)) = n_trust n" for who
    by (simp add: ingest_allowed_def case_prod_unfold Let_def split: option.split)
  have b: "n_trust (snd (tryConsumeHttpIngestedRelayCommandBudget env m)) = n_trust m" for m
    by (simp add: tryConsumeHttpIngestedRelayCommandBudget_def case_prod_unfold Let_def)
  have s: "command_score m = command_score n" if "n_trust m = n_trust n" for m :: node
    using that by (simp add: command_score_def)
  show ?thesis
    using assms s[OF trans[OF b i]]
    by (auto simp: ingestSignedRelayCommand_def case_prod_unfold Let_def split: option.splits if_splits)
qed

lemma ingest_command_decides:
  assumes "verifySignedRelayCommandSubmission (en_verify env) v = Some c" and "rcmd_targetNodeId c = en_nodeId env"
  shows "fst (ingestSignedRelayCommand env v n) \<in> {RateLimited,
    (case bm_get (n_lastAcceptedCommand n) (rcmd_publisherId c) of
       Some t \<Rightarrow> if rcmd_timestamp c \<le> t then Rejected else Accepted | None \<Rightarrow> Accepted)}"
  using assms by (auto simp: ingestSignedRelayCommand_def case_prod_unfold Let_def split: option.splits)

text \<open>The memory against replays protects only the identities it still remembers. When it holds 256 identities
  that the node does not know better than one another, one accepted command of a further identity evicts the first
  of them; the last command accepted from that one, captured and submitted again, was refused before and reboots
  the node again.\<close>

theorem replay_after_eviction:
  assumes full: "bm_map (n_lastAcceptedCommand n) = (s, t) # rest" "map_wf ((s, t) # rest)"
      "bm_max (n_lastAcceptedCommand n) = Num (of_nat MAX_TRACKED_RELAY_COMMAND_SENDERS)"
      "length rest + 1 = MAX_TRACKED_RELAY_COMMAND_SENDERS"
    and flat: "\<forall>i. trustRank (tm_get (n_trust n) i) = Num r"
    and old: "verifySignedRelayCommandSubmission (en_verify env2) v = Some c" "rcmd_publisherId c = s" "rcmd_timestamp c = t"
      "rcmd_targetNodeId c = en_nodeId env2"
    and new: "verifySignedRelayCommandSubmission (en_verify env1) v' = Some c'" "rcmd_publisherId c' \<notin> fst ` set ((s, t) # rest)"
      "fst (ingestSignedRelayCommand env1 v' n) = Accepted"
    and room: "fst (ingestSignedRelayCommand env2 v (snd (ingestSignedRelayCommand env1 v' n))) \<noteq> RateLimited"
  shows "fst (ingestSignedRelayCommand env2 v n) \<noteq> Accepted \<and>
    fst (ingestSignedRelayCommand env2 v (snd (ingestSignedRelayCommand env1 v' n))) = Accepted"
proof
  let ?m = "n_lastAcceptedCommand n" and ?m' = "n_lastAcceptedCommand (snd (ingestSignedRelayCommand env1 v' n))"
  have "bm_get ?m s = Some t" using full(1) by (simp add: bm_get_def)
  with ingest_command_decides[OF old(1,4), of n] old show "fst (ingestSignedRelayCommand env2 v n) \<noteq> Accepted" by auto
  have "pick_victim (command_score n) (bm_map ?m) = Some s"
    using flat by (simp add: pick_victim_def command_score_def full(1) scan_victim_flat)
  moreover have "\<not> bm_has ?m (rcmd_publisherId c')" using new(2) full(1) by (simp add: bm_has_def map_of_eq_None_iff)
  moreover have "bm_size ?m = MAX_TRACKED_RELAY_COMMAND_SENDERS" using full(1,4) by (simp add: bm_size_def)
  ultimately have "bm_get ?m' s = None"
    using ingest_command_accepted[OF new(3,1)] full(3) new(2)
    by (auto simp: bm_set_def bm_get_def MAX_TRACKED_RELAY_COMMAND_SENDERS_def)
  with ingest_command_decides[OF old(1,4), of "snd (ingestSignedRelayCommand env1 v' n)"] old(2) room
  show "fst (ingestSignedRelayCommand env2 v (snd (ingestSignedRelayCommand env1 v' n))) = Accepted" by auto
qed

text \<open>A memory full of 256 identities.\<close>

lemma sample_keys: "map_wf (map (\<lambda>k. (replicate k z, u)) [a..<b])"
    "length x < a \<Longrightarrow> x \<notin> fst ` set (map (\<lambda>k. (replicate k z, u)) [a..<b])"
  by (auto simp: comp_def distinct_map inj_on_def dest: arg_cong[of _ _ length])

definition sample_others :: "(string, rat) jsmap" where
  "sample_others = map (\<lambda>k. (replicate k CHR ''x'', 5)) [4..<259]"

lemma sample_others: "map_wf sample_others" "length x < 4 \<Longrightarrow> x \<notin> fst ` set sample_others" "length sample_others = 255"
proof -
  show "map_wf sample_others" unfolding sample_others_def by (rule sample_keys(1))
  show "length sample_others = 255" unfolding sample_others_def length_map length_upt by simp
  show "x \<notin> fst ` set sample_others" if "length x < 4" unfolding sample_others_def using that by (rule sample_keys(2))
qed

definition sample_full :: node where
  "sample_full = sample_node\<lparr>n_lastAcceptedCommand := \<lparr>bm_map = (''ann'', 5) # sample_others,
     bm_max = Num (of_nat MAX_TRACKED_RELAY_COMMAND_SENDERS)\<rparr>\<rparr>"

lemma ingest_command_room:
  assumes "fst (ingest_allowed env (as_string (jfield v ''publisherId'')) n)"
    and "fst (consume_budget WINDOW_MS MAX_HTTP_INGESTED_RELAY_COMMANDS_PER_WINDOW (en_now env) (n_httpCommands n))"
  shows "fst (ingestSignedRelayCommand env v n) \<noteq> RateLimited"
proof -
  have i: "n_httpCommands (snd (ingest_allowed env who n)) = n_httpCommands n" for who
    by (simp add: ingest_allowed_def case_prod_unfold Let_def split: option.split)
  show ?thesis using assms i
    by (auto simp: ingestSignedRelayCommand_def tryConsumeHttpIngestedRelayCommandBudget_def case_prod_unfold Let_def split: option.splits)
qed

lemma empty_budget_once: "consume_budget w m t empty_budget = (ok, b) \<Longrightarrow> bw_count b \<le> 1"
  by (auto simp: consume_budget_def empty_budget_def Let_def split: if_splits)

lemma sample_room: "fst (ingestSignedRelayCommand sample_env (sample_command ''eve'' 1) sample_full) \<noteq> RateLimited"
  "fst (ingestSignedRelayCommand sample_env (sample_command ''ann'' 5)
     (snd (ingestSignedRelayCommand sample_env (sample_command ''eve'' 1) sample_full))) \<noteq> RateLimited"
proof -
  have p: "as_string (jfield (sample_command i t) ''publisherId'') = Some i" for i t by (simp add: sample_command_def)
  have b: "n_httpCommands sample_full = empty_budget" "n_ingestLimiter sample_full = rl_new None None None"
    by (simp_all add: sample_full_def) (simp add: sample_node_def newNode_def)
  show "fst (ingestSignedRelayCommand sample_env (sample_command ''eve'' 1) sample_full) \<noteq> RateLimited"
    by (rule ingest_command_room) (simp_all add: p ingest_allowed_def b sample_allow case_prod_unfold Let_def consume_budget_def
        empty_budget_def MAX_HTTP_INGESTED_RELAY_COMMANDS_PER_WINDOW_def)
  let ?n = "snd (ingestSignedRelayCommand sample_env (sample_command ''eve'' 1) sample_full)"
  have l: "n_ingestLimiter ?n = snd (allow (en_now sample_env) ''eve'' (rl_new None None None))"
    by (simp add: ingestSignedRelayCommand_def p ingest_allowed_def b sample_allow case_prod_unfold Let_def
        tryConsumeHttpIngestedRelayCommandBudget_def emit_def split: option.split)
  have "bw_count (n_httpCommands ?n) \<le> 1"
    using ingest_command_budget[of sample_env "sample_command ''eve'' 1" sample_full "fst (ingestSignedRelayCommand sample_env (sample_command ''eve'' 1) sample_full)" ?n]
    by (auto simp: b dest: empty_budget_once) (simp add: empty_budget_def)
  then show "fst (ingestSignedRelayCommand sample_env (sample_command ''ann'' 5) ?n) \<noteq> RateLimited"
    by (intro ingest_command_room) (simp_all add: p ingest_allowed_def l case_prod_unfold Let_def consume_budget_def
        MAX_HTTP_INGESTED_RELAY_COMMANDS_PER_WINDOW_def allow_def rl_new_def bm_get_def bm_new_def bm_set_def bm_has_def bm_size_def)
qed

lemma replay_after_eviction_witness:
  "fst (ingestSignedRelayCommand sample_env (sample_command ''ann'' 5) sample_full) \<noteq> Accepted \<and>
   fst (ingestSignedRelayCommand sample_env (sample_command ''ann'' 5)
     (snd (ingestSignedRelayCommand sample_env (sample_command ''eve'' 1) sample_full))) = Accepted"
proof (rule replay_after_eviction[where r = 0])
  have me: "en_nodeId sample_env = ''me''" by (simp add: sample_env_def)
  show "bm_map (n_lastAcceptedCommand sample_full) = (''ann'', 5) # sample_others" by (simp add: sample_full_def)
  show "map_wf ((''ann'', 5) # sample_others)" using sample_others by simp
  show "length sample_others + 1 = MAX_TRACKED_RELAY_COMMAND_SENDERS"
    by (simp add: MAX_TRACKED_RELAY_COMMAND_SENDERS_def sample_others)
  show "\<forall>i. trustRank (tm_get (n_trust sample_full) i) = Num 0" by (simp add: sample_full_def tm_get_def tm_new_def trustRank_def)
  show v: "verifySignedRelayCommandSubmission (en_verify sample_env) (sample_command ''ann'' 5) =
      Some \<lparr>rcmd_timestamp = 5, rcmd_targetNodeId = ''me'', rcmd_publisherId = ''ann'', rcmd_signature = ''good''\<rparr>"
    "verifySignedRelayCommandSubmission (en_verify sample_env) (sample_command ''eve'' 1) =
      Some \<lparr>rcmd_timestamp = 1, rcmd_targetNodeId = ''me'', rcmd_publisherId = ''eve'', rcmd_signature = ''good''\<rparr>"
    by (simp_all add: sample_command_verified)
  show "rcmd_publisherId \<lparr>rcmd_timestamp = 1, rcmd_targetNodeId = ''me'', rcmd_publisherId = ''eve'', rcmd_signature = ''good''\<rparr>
      \<notin> fst ` set ((''ann'', 5) # sample_others)" using sample_others(2) by simp
  have "bm_get (n_lastAcceptedCommand sample_full) ''eve'' = None"
    using sample_others(2)[of "''eve''"] by (simp add: sample_full_def bm_get_def map_of_eq_None_iff)
  with ingest_command_decides[OF v(2), of sample_full] sample_room(1)
  show "fst (ingestSignedRelayCommand sample_env (sample_command ''eve'' 1) sample_full) = Accepted"
    by (auto simp: me)
  show "fst (ingestSignedRelayCommand sample_env (sample_command ''ann'' 5)
      (snd (ingestSignedRelayCommand sample_env (sample_command ''eve'' 1) sample_full))) \<noteq> RateLimited" by (rule sample_room)
qed (simp_all add: sample_full_def, simp add: sample_env_def)

end
