(* ===== verification/NodeDelivery.thy ===== *)
theory NodeDelivery
  imports NodeRuns NodeProps
begin

text \<open>
  Nodes together (\<open>node/src/node.ts\<close>): a private message travels from its sender through any number of relays to its receiver.
  A relay is a node with its environment; what it transmits towards the peer node is what the peer node handles.
\<close>

section \<open>One hop\<close>

text \<open>Whether a node passes a unicast packet that arrives from \<open>from\<close> on to \<open>peer\<close>: it is within the packet budget, has not seen the
  packet, relays for that peer, reaches the next node, and has no route that leads elsewhere.\<close>

definition reaches :: "env \<Rightarrow> 'a mesh_scheme \<Rightarrow> string \<Rightarrow> bool" where
  "reaches env n p \<longleftrightarrow> p \<in> set (pt_list (n_peers n)) \<and> map_of (n_peerTransport n) p \<noteq> None \<and> (\<forall>k. en_reach env k p)"

definition no_detour :: "env \<Rightarrow> 'a mesh_scheme \<Rightarrow> string option \<Rightarrow> string \<Rightarrow> string \<Rightarrow> bool" where
  "no_detour env n from target peer \<longleftrightarrow> (case bestRoute (n_routing n) target of
     Some route \<Rightarrow> nextHop route = peer \<or> Some (nextHop route) = from | None \<Rightarrow> True)"

definition passes_on :: "env \<Rightarrow> node \<Rightarrow> string \<Rightarrow> string \<Rightarrow> string \<Rightarrow> string \<Rightarrow> bool" where
  "passes_on env n from packetId target peer \<longleftrightarrow> fst (allow (en_now env) from (n_limiter n)) \<and> \<not> hasSeen (n_seen n) packetId \<and>
     relayGateFor env from n = GateOk \<and> target \<noteq> en_nodeId env \<and> peer \<noteq> from \<and> reaches env n peer \<and> no_detour env n (Some from) target peer"

text \<open>What a step of a node newly transmits.\<close>

definition new_frames :: "'a mesh_scheme \<Rightarrow> 'a mesh_scheme \<Rightarrow> (string \<times> jsval packet) list" where
  "new_frames n n' = drop (length (transmitted (n_out n))) (transmitted (n_out n'))"

lemma new_frames_append: "transmitted (n_out n') = transmitted (n_out n) @ fs \<Longrightarrow> new_frames n n' = fs"
  by (simp add: new_frames_def)

text \<open>A packet flooded towards a reachable next node is transmitted to it, and only copies of it are transmitted.\<close>

lemma flood_reaches:
  assumes dest: "pk_destination pk = JString target" "target \<noteq> en_nodeId env" and reach: "reaches env n peer" "Some peer \<noteq> from"
    and route: "no_detour env n from target peer"
  shows "\<exists>fs. transmitted (n_out (snd (floodExcept env pk from n))) = transmitted (n_out n) @ fs \<and> (peer, pk) \<in> set fs \<and> snd ` set fs = {pk}"
proof -
  have u: "unicast_elsewhere env pk" using dest by (simp add: unicast_elsewhere_def)
  have hop: "next_hop env pk from n \<in> {None, Some peer}"
    using route dest u by (auto simp: next_hop_def no_detour_def split: option.splits)
  show ?thesis
  proof (cases "next_hop env pk from n")
    case None
    have "send_direct env pk from n = (False, n)" by (simp add: send_direct_def None)
    then have out: "transmitted (n_out (snd (floodExcept env pk from n))) = transmitted (n_out n) @ map (\<lambda>p. (p, pk)) (flood_targets from n)"
      using around_out[of env pk "from" n] u by (simp add: floodExcept_def case_prod_unfold Let_def)
    moreover have "peer \<in> set (flood_targets from n)" using reach by (auto simp: flood_targets_def reaches_def)
    ultimately show ?thesis by (intro exI[of _ "map (\<lambda>p. (p, pk)) (flood_targets from n)"]) force
  next
    case (Some hop)
    then have "hop = peer" using \<open>next_hop env pk from n \<in> _\<close> by simp
    then have direct: "send_direct env pk from n = (True, n\<lparr>n_out := n_out n @ [Transmit peer pk]\<rparr>)"
      using reach(1) by (auto simp: send_direct_def Some sendToPeer_def reaches_def split: option.split)
    show ?thesis by (intro exI[of _ "[(peer, pk)]"]) (simp add: floodExcept_def direct, simp add: transmitted_def)
  qed
qed

lemma hop_transmits:
  assumes relay: "passes_on env n from (pk_id pk) target peer" and pk: "pk_type pk = PRIVATE_MESSAGE" "pk_destination pk = JString target"
    "num_lt (Num 0) (pk_ttl pk)"
  shows "\<exists>fs. new_frames n (handlePacket env pk from n) = fs \<and> (peer, pk\<lparr>pk_ttl := num_add (pk_ttl pk) (-1)\<rparr>) \<in> set fs \<and>
    snd ` set fs = {pk\<lparr>pk_ttl := num_add (pk_ttl pk) (-1)\<rparr>}"
proof -
  let ?pk = "pk\<lparr>pk_ttl := num_add (pk_ttl pk) (-1)\<rparr>"
  define n3 where "n3 = n\<lparr>n_limiter := snd (allow (en_now env) from (n_limiter n)), n_peers := pt_touch (en_now env) from (n_peers n),
    n_seen := markSeenId (en_now env) (pk_id pk) (n_seen n)\<rparr>"
  have elsewhere: "target \<noteq> en_nodeId env" using relay by (simp add: passes_on_def)
  have handled: "handlePacket env pk from n = forward_or_park env ?pk from n3"
    using relay pk by (simp add: handlePacket_def case_prod_unfold Let_def decideForward_def passes_on_def n3_def)
  have gate: "relayGateFor env from n3 = GateOk"
    using relay unfolding passes_on_def n3_def relayGateFor_def by (simp split: option.splits if_splits)
  have forwarded: "handlePacket env pk from n = snd (floodExcept env ?pk (Some from) n3)"
    unfolding handled by (simp add: forward_or_park_def gate)
  have same: "reaches env n3 peer" "no_detour env n3 (Some from) target peer" "transmitted (n_out n3) = transmitted (n_out n)" "peer \<noteq> from"
    using relay by (auto simp: passes_on_def reaches_def no_detour_def n3_def pt_touch_dom pt_list_def)
  from flood_reaches[of ?pk target env n3 peer "Some from"] obtain fs where
    "transmitted (n_out (handlePacket env pk from n)) = transmitted (n_out n) @ fs" "(peer, ?pk) \<in> set fs" "snd ` set fs = {?pk}"
    using pk elsewhere same unfolding forwarded by auto
  then show ?thesis by (simp add: new_frames_append)
qed

section \<open>A chain of relays\<close>

text \<open>The packet as it comes out at the target's end of a chain: every node handles the frame that its predecessor sent to it.\<close>

fun first_of :: "(env \<times> node) list \<Rightarrow> string \<Rightarrow> string" where
  "first_of [] target = target"
| "first_of ((env, n) # rest) target = en_nodeId env"

definition frame_to :: "string \<Rightarrow> (string \<times> jsval packet) list \<Rightarrow> jsval packet option" where
  "frame_to p fs = map_option snd (find (\<lambda>(q, pk). q = p) fs)"

fun carried :: "string \<Rightarrow> jsval packet \<Rightarrow> (env \<times> node) list \<Rightarrow> string \<Rightarrow> (string \<times> jsval packet) option" where
  "carried from pk [] target = Some (from, pk)"
| "carried from pk ((env, n) # rest) target =
     (case frame_to (first_of rest target) (new_frames n (handlePacket env pk from n)) of
        None \<Rightarrow> None | Some pk' \<Rightarrow> carried (en_nodeId env) pk' rest target)"

fun chain_willing :: "string \<Rightarrow> string \<Rightarrow> (env \<times> node) list \<Rightarrow> string \<Rightarrow> bool" where
  "chain_willing from packetId [] target = True"
| "chain_willing from packetId ((env, n) # rest) target =
     (passes_on env n from packetId target (first_of rest target) \<and> chain_willing (en_nodeId env) packetId rest target)"

fun last_of :: "string \<Rightarrow> (env \<times> node) list \<Rightarrow> string" where
  "last_of from [] = from"
| "last_of from ((env, n) # rest) = last_of (en_nodeId env) rest"

lemma frame_to_copy:
  assumes "(p, pk) \<in> set fs" "snd ` set fs = {pk}"
  shows "frame_to p fs = Some pk"
proof -
  have "find (\<lambda>(q, pk). q = p) fs \<noteq> None" using assms(1) by (auto simp: find_None_iff)
  then obtain q where q: "find (\<lambda>(q, pk). q = p) fs = Some q" by blast
  then have "q \<in> set fs" using nth_mem by (fastforce simp: find_Some_iff)
  then have "snd q = pk" using assms(2) by blast
  then show ?thesis by (simp add: frame_to_def q)
qed

lemma chain_carries:
  assumes "chain_willing from (pk_id pk) relays target" "pk_type pk = PRIVATE_MESSAGE" "pk_destination pk = JString target"
    "pk_ttl pk = Num t" "of_nat (length relays) \<le> t"
  shows "carried from pk relays target = Some (last_of from relays, pk\<lparr>pk_ttl := Num (t - of_nat (length relays))\<rparr>)"
  using assms
proof (induction relays arbitrary: "from" pk t)
  case (Cons r rest)
  obtain env n where r: "r = (env, n)" by (cases r)
  let ?pk = "pk\<lparr>pk_ttl := num_add (pk_ttl pk) (-1)\<rparr>"
  have "num_lt (Num 0) (pk_ttl pk)" using Cons.prems(4,5) by simp
  from hop_transmits[OF _ Cons.prems(2,3) this] have "frame_to (first_of rest target) (new_frames n (handlePacket env pk from n)) = Some ?pk"
    using Cons.prems(1) frame_to_copy unfolding r by fastforce
  then have "carried from pk (r # rest) target = carried (en_nodeId env) ?pk rest target" by (simp add: r)
  also have "\<dots> = Some (last_of (en_nodeId env) rest, ?pk\<lparr>pk_ttl := Num (t - 1 - of_nat (length rest))\<rparr>)"
    by (rule Cons.IH) (use Cons.prems r in auto)
  finally show ?case by (simp add: r algebra_simps)
qed simp


section \<open>The receiver\<close>

lemma learn_sender_key:
  assumes "getKey (n_directory n) (pk_source pk) = Some k"
  shows "getKey (n_directory (learn_sender env pk n)) (pk_source pk) = Some k"
proof -
  have has: "bm_has (n_directory n) (pk_source pk)" using assms by (auto simp: getKey_def bm_has_get)
  have "acceptIdentityAnnouncement env v n = (False, n)" if "jfield v ''nodeId'' = JString (pk_source pk)" for v
  proof (cases "announcement_of v")
    case (Some a)
    then have "ia_nodeId a = pk_source pk" using that by (auto simp: announcement_of_def extractor_Some)
    then show ?thesis using has by (simp add: acceptIdentityAnnouncement_def Some pd_record_def)
  qed (simp add: acceptIdentityAnnouncement_def)
  then show ?thesis using assms by (simp add: learn_sender_def Let_def)
qed

definition text_json :: "string \<Rightarrow> jsval" where
  "text_json text = JObject [(''text'', JString text)]"

lemma text_only:
  assumes "length text \<le> MAX_MESSAGE_TEXT_LENGTH"
  shows "consider_private env pk (text_json text) n =
    n\<lparr>n_history := mh_record (en_now env) (live_rank_of n) (pk_source pk) Received text (n_history n)\<rparr>"
  using assms by (simp add: consider_private_def extractChatText_def text_json_def Let_def extractGroupInvite_def extractLocationReport_def
      extractNodeAppendPayload_def extractRelayTelemetry_def extractRelayCommand_def require_def considerGroupInvite_def
      considerLocationReport_def considerNodeAppend_def considerRelayTelemetry_def considerRelayCommand_def)

definition keeps_messages :: "message_history \<Rightarrow> bool" where
  "keeps_messages h \<longleftrightarrow> \<not> num_le (bm_max (conversations h)) (Num 0) \<and> 0 < maxMessagesPerPeer h"

lemma push_holds: "0 < k \<Longrightarrow> m \<in> set (push_bounded xs m k)"
  by (simp add: push_bounded_def shift_while_drop)

lemma mh_record_holds:
  assumes "keeps_messages h"
  shows "\<lparr>sm_peer = p, sm_direction = d, sm_text = text, sm_timestamp = t\<rparr> \<in> set (mh_get (mh_record t tr p d text h) p)"
proof -
  let ?m = "\<lparr>sm_peer = p, sm_direction = d, sm_text = text, sm_timestamp = t\<rparr>"
  have "?m \<in> set (push_bounded xs ?m (maxMessagesPerPeer h))" for xs using assms by (simp add: keeps_messages_def push_holds)
  moreover from this have "push_bounded xs ?m (maxMessagesPerPeer h) \<noteq> []" for xs by (metis empty_iff list.set(1))
  ultimately show ?thesis using assms by (simp add: mh_record_def Let_def mh_get_def keeps_messages_def bm_set_get_same)
qed

lemma receiver_delivers:
  assumes pk: "pk_type pk = PRIVATE_MESSAGE" "pk_destination pk = JString (en_nodeId env)"
    and fresh: "fst (allow (en_now env) from (n_limiter n))" "\<not> hasSeen (n_seen n) (pk_id pk)"
    and key: "getKey (n_directory n) (pk_source pk) = Some key" "key \<noteq> []"
    and opens: "en_openPrivate env key (pk_payload pk) = Some (text_json text)" and short: "length text \<le> MAX_MESSAGE_TEXT_LENGTH"
    and room: "keeps_messages (n_history n)"
  defines "n' \<equiv> handlePacket env pk from n"
  shows "Emit (PrivateMessage (pk\<lparr>pk_payload := text_json text\<rparr>)) \<in> set (n_out n') \<and>
    \<lparr>sm_peer = pk_source pk, sm_direction = Received, sm_text = text, sm_timestamp = en_now env\<rparr> \<in> set (mh_get (n_history n') (pk_source pk))"
proof -
  define n3 where "n3 = n\<lparr>n_limiter := snd (allow (en_now env) from (n_limiter n)), n_peers := pt_touch (en_now env) from (n_peers n),
    n_seen := markSeenId (en_now env) (pk_id pk) (n_seen n)\<rparr>"
  have "n' = handlePrivateMessage env pk n3"
    using pk fresh unfolding n'_def n3_def
    by (simp add: handlePacket_def case_prod_unfold Let_def decideForward_def deliver_def)
  moreover define n4 where "n4 = learn_sender env pk n3"
  have "getKey (n_directory n4) (pk_source pk) = Some key"
    unfolding n4_def by (rule learn_sender_key) (simp add: n3_def key)
  moreover have "n_history n4 = n_history n"
    by (simp add: n4_def learn_sender_def Let_def n3_def acceptIdentityAnnouncement_def case_prod_unfold emit_def split: option.split)
  ultimately show ?thesis
    using key opens mh_record_holds[OF room] by (simp add: handlePrivateMessage_def Let_def text_only[OF short] n4_def[symmetric] emit_def)
qed


section \<open>From the sender to the receiver\<close>

interpretation history_kept: mesh_observation "\<lambda>n. n_history n = h" for h
  by unfold_locales simp_all

lemma sender_transmits:
  fixes prio :: "priority option"
  assumes key: "known_key n target = Some key" and elsewhere: "target \<noteq> en_nodeId env"
    and reach: "reaches env n peer" "no_detour env n None target peer"
    and short: "length text \<le> MAX_MESSAGE_TEXT_LENGTH" and room: "keeps_messages (n_history n)"
  defines "n' \<equiv> snd (sendPrivateMessage env target (text_json text) prio n)"
    and "pk \<equiv> createPacket (en_uuid env (n_next n)) (en_now env) PRIVATE_MESSAGE (en_nodeId env)
      (sealed_payload env key (text_json text)) (Some target) (Some (en_defaultTtl env)) (Some (case prio of Some p \<Rightarrow> p | None \<Rightarrow> MESSAGING))"
  shows "frame_to peer (new_frames n n') = Some pk \<and>
    \<lparr>sm_peer = target, sm_direction = Sent, sm_text = text, sm_timestamp = en_now env\<rparr> \<in> set (mh_get (n_history n') target)"
proof -
  define n1 where "n1 = n\<lparr>n_next := n_next n + 1, n_seen := markSeenId (en_now env) (pk_id pk) (n_seen n)\<rparr>"
  have orig: "originate env PRIVATE_MESSAGE (sealed_payload env key (text_json text)) (Some target)
      (Some (case prio of Some p \<Rightarrow> p | None \<Rightarrow> MESSAGING)) n = (pk, n1)"
    by (simp add: originate_def pk_def n1_def Let_def)
  have chat: "extractChatText (text_json text) = Some text" using short by (simp add: extractChatText_def text_json_def)
  have n': "n' = (let n2 = flood env pk n1 in
      n2\<lparr>n_history := mh_record (en_now env) (live_rank_of n2) target Sent text (n_history n2)\<rparr>)"
    by (simp add: n'_def sendPrivateMessage_def key orig chat Let_def)
  have "reaches env n1 peer" "no_detour env n1 None target peer" "pk_destination pk = JString target"
    using reach by (simp_all add: n1_def reaches_def no_detour_def pk_def createPacket_def)
  from flood_reaches[OF this(3) elsewhere this(1) _ this(2)] obtain fs where
    fs: "transmitted (n_out (flood env pk n1)) = transmitted (n_out n1) @ fs" "(peer, pk) \<in> set fs" "snd ` set fs = {pk}" by auto
  then have "new_frames n n' = fs" by (intro new_frames_append) (simp add: n' Let_def n1_def)
  moreover have "keeps_messages (n_history (flood env pk n1))"
    using history_kept.flood_P[of n1 "n_history n1" env pk None] room by (simp add: n1_def)
  ultimately show ?thesis using frame_to_copy[OF fs(2,3)] mh_record_holds by (simp add: n' Let_def)
qed

text \<open>C4: A private message arrives. If the sender knows the receiver's key and reaches the first relay, every relay of a chain
  within the hop limit passes packets on, and the receiver knows the sender's key and can open what was sealed for it, then the
  frame the sender transmits to the first relay is carried by the chain to the receiver, who hands the text to the application and
  keeps it in the history of the sender as received; the sender keeps it in the history of the receiver as sent.\<close>

theorem private_message_arrives:
  fixes prio :: "priority option"
  assumes sender: "known_key a target = Some key" "target \<noteq> en_nodeId envA" "reaches envA a (first_of relays target)"
      "no_detour envA a None target (first_of relays target)" "keeps_messages (n_history a)"
    and short: "length text \<le> MAX_MESSAGE_TEXT_LENGTH"
    and relays: "chain_willing (en_nodeId envA) (en_uuid envA (n_next a)) relays target" "of_nat (length relays) \<le> en_defaultTtl envA"
    and receiver: "en_nodeId envB = target" "fst (allow (en_now envB) (last_of (en_nodeId envA) relays) (n_limiter b))"
      "\<not> hasSeen (n_seen b) (en_uuid envA (n_next a))" "known_key b (en_nodeId envA) = Some key'" "keeps_messages (n_history b)"
    and crypto: "en_openPrivate envB key' (sealed_payload envA key (text_json text)) = Some (text_json text)"
  defines "a' \<equiv> snd (sendPrivateMessage envA target (text_json text) prio a)"
  shows "\<exists>pk pk' peer. frame_to (first_of relays target) (new_frames a a') = Some pk \<and>
    carried (en_nodeId envA) pk relays target = Some (peer, pk') \<and>
    Emit (PrivateMessage (pk'\<lparr>pk_payload := text_json text\<rparr>)) \<in> set (n_out (handlePacket envB pk' peer b)) \<and>
    \<lparr>sm_peer = en_nodeId envA, sm_direction = Received, sm_text = text, sm_timestamp = en_now envB\<rparr> \<in>
      set (mh_get (n_history (handlePacket envB pk' peer b)) (en_nodeId envA)) \<and>
    \<lparr>sm_peer = target, sm_direction = Sent, sm_text = text, sm_timestamp = en_now envA\<rparr> \<in> set (mh_get (n_history a') target)"
proof -
  define pk where "pk = createPacket (en_uuid envA (n_next a)) (en_now envA) PRIVATE_MESSAGE (en_nodeId envA)
    (sealed_payload envA key (text_json text)) (Some target) (Some (en_defaultTtl envA)) (Some (case prio of Some p \<Rightarrow> p | None \<Rightarrow> MESSAGING))"
  define pk' where "pk' = pk\<lparr>pk_ttl := Num (en_defaultTtl envA - of_nat (length relays))\<rparr>"
  let ?from = "last_of (en_nodeId envA) relays"
  have f: "pk_id pk = en_uuid envA (n_next a)" "pk_type pk = PRIVATE_MESSAGE" "pk_destination pk = JString target"
    "pk_ttl pk = Num (en_defaultTtl envA)" "pk_source pk = en_nodeId envA" "pk_payload pk = sealed_payload envA key (text_json text)"
    by (simp_all add: pk_def createPacket_def)
  note sent = sender_transmits[OF sender(1-4) short sender(5), of prio, folded a'_def, folded pk_def]
  have way: "carried (en_nodeId envA) pk relays target = Some (?from, pk')"
    unfolding pk'_def by (rule chain_carries) (use f relays in simp_all)
  have k: "getKey (n_directory b) (en_nodeId envA) = Some key'" "key' \<noteq> []"
    using receiver(4) by (auto simp: known_key_def split: option.splits if_splits)
  have "Emit (PrivateMessage (pk'\<lparr>pk_payload := text_json text\<rparr>)) \<in> set (n_out (handlePacket envB pk' ?from b)) \<and>
    \<lparr>sm_peer = pk_source pk', sm_direction = Received, sm_text = text, sm_timestamp = en_now envB\<rparr> \<in>
      set (mh_get (n_history (handlePacket envB pk' ?from b)) (pk_source pk'))"
    by (rule receiver_delivers[of _ _ _ _ key']) (use f k receiver crypto short in \<open>simp_all add: pk'_def\<close>)
  then show ?thesis using sent way f(5) by (auto simp: pk'_def)
qed


text \<open>A sender, one relay and a receiver in a line; sealing wraps a payload and opening unwraps it.\<close>

definition mail_env :: "string \<Rightarrow> env" where
  "mail_env i = sample_env\<lparr>en_nodeId := i, en_minTrustToRelay := None, en_sealPrivate := \<lambda>k v. JObject [(''sealed'', v)],
     en_openPrivate := \<lambda>k v. Some (jfield v ''sealed'')\<rparr>"

definition mail_node :: "string \<Rightarrow> string \<Rightarrow> node" where
  "mail_node peer friend = sample_node\<lparr>n_peers := [(peer, \<lparr>pi_address = None, pi_connectedAt = 0, pi_lastSeen = 0\<rparr>)],
     n_peerTransport := [(peer, 0)], n_directory := bm_put None friend
       \<lparr>ia_nodeId = friend, ia_encryptionPublicKey = ''key'', ia_deviceClass = None, ia_signature = ''good''\<rparr> (pd_new None)\<rparr>"

lemma mail_node_facts:
  "known_key (mail_node peer friend) friend = Some ''key''" "keeps_messages (n_history (mail_node peer friend))"
  "n_limiter (mail_node peer friend) = rl_new None None None" "n_seen (mail_node peer friend) = seen_new None"
  "reaches (mail_env i) (mail_node peer friend) peer" "no_detour (mail_env i) (mail_node peer friend) f t p"
  "relayGateFor (mail_env i) g (mail_node peer friend) = GateOk"
proof -
  have "\<not> num_le (bm_max (pd_new None)) (Num 0)" by (simp add: pd_new_def bm_new_def)
  then show "known_key (mail_node peer friend) friend = Some ''key''"
    by (simp add: known_key_def mail_node_def getKey_def bm_set_get_same)
  show "keeps_messages (n_history (mail_node peer friend))"
    by (simp add: keeps_messages_def mail_node_def sample_node_def newNode_def sample_options_def mh_new_def bm_new_def)
  show "no_detour (mail_env i) (mail_node peer friend) f t p"
    by (simp add: no_detour_def mail_node_def sample_node_def newNode_def sample_options_def bestRoute_def rt_new_def bm_get_def bm_new_def)
  show "relayGateFor (mail_env i) g (mail_node peer friend) = GateOk"
    by (simp add: relayGateFor_def mail_env_def mail_node_def sample_env_def canRelayNow_def rp_new_def)
qed (simp_all add: mail_node_def reaches_def pt_list_def mail_env_def sample_env_def)

theorem private_message_arrives_witness:
  "\<exists>pk pk' peer. carried ''me'' pk [(mail_env ''rr'', mail_node ''bob'' ''zed'')] ''bob'' = Some (peer, pk') \<and>
    Emit (PrivateMessage (pk'\<lparr>pk_payload := text_json ''hi''\<rparr>)) \<in> set (n_out (handlePacket (mail_env ''bob'') pk' peer (mail_node ''rr'' ''me'')))"
proof -
  note facts = mail_node_facts sample_allow sample_seen
  have names: "en_nodeId (mail_env i) = i" "en_defaultTtl (mail_env i) = 8" for i by (simp_all add: mail_env_def sample_env_def)
  have short: "length ''hi'' \<le> MAX_MESSAGE_TEXT_LENGTH" by (simp add: MAX_MESSAGE_TEXT_LENGTH_def)
  have opens: "en_openPrivate (mail_env ''bob'') ''key'' (sealed_payload (mail_env ''me'') ''key'' (text_json ''hi'')) = Some (text_json ''hi'')"
    by (simp add: mail_env_def sealed_payload_def)
  have willing: "chain_willing ''me'' i [(mail_env ''rr'', mail_node ''bob'' ''zed'')] ''bob''" for i
    by (simp add: passes_on_def facts names)
  show ?thesis
    using private_message_arrives[of "mail_node ''rr'' ''bob''" "''bob''" "''key''" "mail_env ''me''"
        "[(mail_env ''rr'', mail_node ''bob'' ''zed'')]" "''hi''" "mail_env ''bob''" "mail_node ''rr'' ''me''" "''key''" None]
      facts names short opens willing by simp blast
qed

end
