(* ===== verification/UnionFind.thy ===== *)
theory UnionFind
  imports Prelude
begin

text \<open>
  The union-find structure of \<open>tools/scenario-model/resilience.ts\<close> (\<open>UnionFind\<close>), which groups the nodes of
  a network into fragments. \<open>find\<close> follows parents and halves the path while it does; nothing in the code
  shows that it ends, so it is a partial function, and the development proves that on every structure built
  by \<open>union\<close> it returns. The last theorem is the contract the rest of the model uses: after any sequence of
  unions two elements have the same root exactly when a chain of the united pairs links them.
\<close>

section \<open>The structure\<close>

type_synonym parents = "nat list"

definition uf_new :: "nat \<Rightarrow> parents" where
  "uf_new n = [0..<n]"

partial_function (option) uf_find :: "parents \<Rightarrow> nat \<Rightarrow> (nat \<times> parents) option" where
  "uf_find p x = (if p ! x = x then Some (x, p)
     else let p' = p[x := p ! (p ! x)] in uf_find p' (p' ! x))"

declare uf_find.simps [code]

text \<open>\<open>parent[find(a)] = find(b)\<close>: the index is evaluated before the value.\<close>

definition uf_union :: "nat \<Rightarrow> nat \<Rightarrow> parents \<Rightarrow> parents option" where
  "uf_union a b p = do {
     (ra, p1) \<leftarrow> uf_find p a;
     (rb, p2) \<leftarrow> uf_find p1 b;
     Some (p2[ra := rb]) }"

fun uf_unions :: "(nat \<times> nat) list \<Rightarrow> parents \<Rightarrow> parents option" where
  "uf_unions [] p = Some p"
| "uf_unions ((a, b) # es) p = Option.bind (uf_union a b p) (uf_unions es)"

section \<open>Roots\<close>

text \<open>A height that decreases along parents rules out cycles.\<close>

definition uf_height :: "parents \<Rightarrow> (nat \<Rightarrow> nat) \<Rightarrow> bool" where
  "uf_height p h \<longleftrightarrow> (\<forall>i < length p. p ! i < length p \<and> (p ! i \<noteq> i \<longrightarrow> h (p ! i) < h i))"

definition uf_ok :: "parents \<Rightarrow> bool" where
  "uf_ok p \<longleftrightarrow> (\<exists>h. uf_height p h)"

inductive uf_root :: "parents \<Rightarrow> nat \<Rightarrow> nat \<Rightarrow> bool" for p where
  here: "p ! x = x \<Longrightarrow> uf_root p x x"
| up: "p ! x \<noteq> x \<Longrightarrow> uf_root p (p ! x) r \<Longrightarrow> uf_root p x r"

inductive_cases uf_rootE: "uf_root p x r"

lemma uf_root_parent: "uf_root p (p ! x) r \<longleftrightarrow> uf_root p x r"
  by (cases "p ! x = x") (auto intro: uf_root.up elim: uf_rootE)

lemma uf_root_unique: "uf_root p x r \<Longrightarrow> uf_root p x r' \<Longrightarrow> r' = r"
proof (induction rule: uf_root.induct)
  case (here x)
  then show ?case by (auto elim: uf_rootE)
next
  case (up x r)
  then show ?case by (metis uf_root_parent)
qed

lemma uf_root_fix: "uf_root p x r \<Longrightarrow> p ! r = r"
  by (induction rule: uf_root.induct)

lemma uf_root_exists:
  assumes "uf_height p h" and "x < length p"
  shows "\<exists>r < length p. uf_root p x r"
  using assms(2)
proof (induction "h x" arbitrary: x rule: less_induct)
  case less
  show ?case
  proof (cases "p ! x = x")
    case True
    with less.prems show ?thesis by (auto intro: uf_root.here)
  next
    case False
    with assms(1) less.prems have "h (p ! x) < h x" "p ! x < length p" by (auto simp: uf_height_def)
    from less.hyps[OF this] show ?thesis by (auto simp: uf_root_parent)
  qed
qed

text \<open>Halving one step of a path changes no root.\<close>

lemma halve_height:
  assumes "uf_height p h" and "x < length p"
  shows "uf_height (p[x := p ! (p ! x)]) h"
  using assms by (auto simp: uf_height_def nth_list_update) (metis less_trans)

lemma halve_root:
  assumes h: "uf_height p h" and x: "x < length p" and root: "uf_root p y r"
  shows "uf_root (p[x := p ! (p ! x)]) y r"
  using root
proof (induction rule: uf_root.induct)
  case (here y)
  from here have "p[x := p ! (p ! x)] ! y = y" using x by (cases "y = x") auto
  then show ?case by (rule uf_root.here)
next
  case (up y r)
  show ?case
  proof (cases "y = x")
    case True
    let ?q = "p[x := p ! (p ! x)]"
    have q: "?q ! x = p ! (p ! x)" using x by simp
    have "uf_root ?q (p ! (p ! x)) r"
    proof (cases "p ! (p ! x) = p ! x")
      case True
      with up.IH \<open>y = x\<close> show ?thesis by simp
    next
      case False
      have "p ! x \<noteq> x" using up.hyps True by simp
      then have "?q ! (p ! x) = p ! (p ! x)" by simp
      with up.IH \<open>y = x\<close> show ?thesis by (metis uf_root_parent)
    qed
    with q show ?thesis using True uf_root_parent[of ?q x r] by simp
  next
    case False
    then have "p[x := p ! (p ! x)] ! y = p ! y" by simp
    with up.IH show ?thesis using uf_root_parent[of "p[x := p ! (p ! x)]" y r] by simp
  qed
qed

lemma root_iff:
  assumes "\<And>y r. uf_root p y r \<Longrightarrow> uf_root q y r" and "uf_height p h" and "y < length p"
  shows "uf_root q y r \<longleftrightarrow> uf_root p y r"
  using assms uf_root_exists[OF assms(2,3)] uf_root_unique by blast

section \<open>Find returns the root\<close>

text \<open>\<open>find\<close> ends, answers the root, and leaves every root as it was.\<close>

lemma uf_find_returns:
  assumes "uf_height p h" and "x < length p"
  shows "\<exists>r p'. uf_find p x = Some (r, p') \<and> r < length p \<and> uf_root p x r \<and> uf_height p' h \<and> length p' = length p \<and>
    (\<forall>y r. y < length p \<longrightarrow> uf_root p' y r = uf_root p y r)"
  using assms
proof (induction "h x" arbitrary: x p rule: less_induct)
  case less
  show ?case
  proof (cases "p ! x = x")
    case True
    with less.prems show ?thesis by (subst uf_find.simps) (auto intro: uf_root.here)
  next
    case False
    let ?q = "p[x := p ! (p ! x)]"
    have qx: "?q ! x = p ! (p ! x)" using less.prems(2) by simp
    have px: "p ! x < length p" "h (p ! x) < h x" using less.prems False by (auto simp: uf_height_def)
    then have ppx: "p ! (p ! x) < length p" "h (p ! (p ! x)) \<le> h (p ! x)"
      using less.prems(1) by (auto simp: uf_height_def intro: less_imp_le)
    have hq: "uf_height ?q h" using halve_height[OF less.prems] .
    have same: "uf_root ?q y r \<longleftrightarrow> uf_root p y r" if "y < length p" for y r
      by (rule root_iff[OF halve_root[OF less.prems] less.prems(1) that])
    have "\<exists>r p'. uf_find ?q (?q ! x) = Some (r, p') \<and> r < length ?q \<and> uf_root ?q (?q ! x) r \<and> uf_height p' h \<and>
        length p' = length ?q \<and> (\<forall>y r. y < length ?q \<longrightarrow> uf_root p' y r = uf_root ?q y r)"
      using less.hyps[OF _ hq, of "?q ! x"] px ppx qx by simp
    moreover have "uf_find p x = uf_find ?q (?q ! x)" using False by (subst uf_find.simps) (simp add: Let_def)
    moreover have "uf_root ?q (?q ! x) r \<longleftrightarrow> uf_root p x r" for r
      using same[OF less.prems(2)] uf_root_parent by blast
    ultimately show ?thesis using same by auto
  qed
qed

section \<open>Union joins two classes\<close>

definition uf_same :: "parents \<Rightarrow> nat \<Rightarrow> nat \<Rightarrow> bool" where
  "uf_same p x y \<longleftrightarrow> (\<exists>r. uf_root p x r \<and> uf_root p y r)"

lemma uf_same_roots: "uf_root p x r \<Longrightarrow> uf_root p y r' \<Longrightarrow> uf_same p x y \<longleftrightarrow> r = r'"
  by (auto simp: uf_same_def dest: uf_root_unique)

lemma link_root:
  assumes "ra < length p" and "p ! ra = ra" and "p ! rb = rb" and "uf_root p x r"
  shows "uf_root (p[ra := rb]) x (if r = ra then rb else r)"
  using assms(4)
proof (induction rule: uf_root.induct)
  case (here x)
  show ?case
  proof (cases "x = ra \<and> rb \<noteq> ra")
    case True
    have "uf_root (p[ra := rb]) rb rb" using assms True by (intro uf_root.here) simp
    then have "uf_root (p[ra := rb]) (p[ra := rb] ! ra) rb" using assms(1) by simp
    then have "uf_root (p[ra := rb]) ra rb" by (simp only: uf_root_parent)
    with True show ?thesis by simp
  next
    case False
    with here assms have "p[ra := rb] ! x = x" by (cases "x = ra") auto
    then show ?thesis using False by (auto intro: uf_root.here)
  qed
next
  case (up x r)
  with assms(2) have "p[ra := rb] ! x = p ! x" by (cases "x = ra") auto
  with up.IH show ?case using uf_root_parent[of "p[ra := rb]" x] by simp
qed

lemma link_height:
  assumes h: "uf_height p h" and a: "ra < length p" "p ! ra = ra" and b: "rb < length p" "p ! rb = rb"
  shows "\<exists>h'. uf_height (p[ra := rb]) h'"
proof (cases "ra = rb")
  case True
  with a have "p[ra := rb] = p" by (metis list_update_id)
  with h show ?thesis by auto
next
  case False
  define h' where "h' i = h i + (if uf_root p i ra then h rb + 1 else 0)" for i
  have rb: "\<not> uf_root p rb ra" "uf_root p ra ra" using a b False uf_root.here[of p rb] uf_root.here[of p ra] uf_root_unique by blast+
  have "h' (p[ra := rb] ! i) < h' i" if "i < length p" "p[ra := rb] ! i \<noteq> i" for i
  proof (cases "i = ra")
    case True
    with a rb show ?thesis by (simp add: h'_def)
  next
    case False
    then have q: "p[ra := rb] ! i = p ! i" by simp
    with that h have "h (p ! i) < h i" by (simp add: uf_height_def)
    then show ?thesis unfolding q h'_def uf_root_parent by simp
  qed
  moreover have "p[ra := rb] ! i < length p" if "i < length p" for i
    using that h b by (cases "i = ra") (auto simp: uf_height_def)
  ultimately have "uf_height (p[ra := rb]) h'" by (simp add: uf_height_def)
  then show ?thesis by blast
qed

lemma uf_union_joins:
  assumes ok: "uf_ok p" and ab: "a < length p" "b < length p"
  shows "\<exists>p'. uf_union a b p = Some p' \<and> uf_ok p' \<and> length p' = length p \<and>
    (\<forall>x y. x < length p \<longrightarrow> y < length p \<longrightarrow> uf_same p' x y =
       (uf_same p x y \<or> (uf_same p x a \<and> uf_same p y b) \<or> (uf_same p x b \<and> uf_same p y a)))"
proof -
  obtain h where h: "uf_height p h" using ok by (auto simp: uf_ok_def)
  obtain ra p1 where f1: "uf_find p a = Some (ra, p1)" "ra < length p" "uf_root p a ra" "uf_height p1 h" "length p1 = length p"
    and s1: "\<And>y r. y < length p \<Longrightarrow> uf_root p1 y r = uf_root p y r" using uf_find_returns[OF h ab(1)] by auto
  obtain rb p2 where f2: "uf_find p1 b = Some (rb, p2)" "rb < length p1" "uf_root p1 b rb" "uf_height p2 h" "length p2 = length p1"
    and s2: "\<And>y r. y < length p1 \<Longrightarrow> uf_root p2 y r = uf_root p1 y r" using uf_find_returns[OF f1(4), of b] ab(2) f1(5) by auto
  let ?q = "p2[ra := rb]"
  have r2: "uf_root p2 y r = uf_root p y r" if "y < length p" for y r using that s1 s2 f1(5) by simp
  have roots: "uf_root p2 a ra" "uf_root p2 b rb" using r2 ab f1(3) f2(3) s1 by auto
  then have stay: "p2 ! ra = ra" "p2 ! rb = rb" by (auto dest: uf_root_fix)
  obtain h' where h': "uf_height ?q h'" using link_height[OF f2(4) _ stay(1) _ stay(2)] f1 f2 by auto
  have "uf_union a b p = Some ?q" by (simp add: uf_union_def f1(1) f2(1))
  moreover have "uf_same ?q x y = (uf_same p x y \<or> (uf_same p x a \<and> uf_same p y b) \<or> (uf_same p x b \<and> uf_same p y a))"
    if x: "x < length p" and y: "y < length p" for x y
  proof -
    obtain rx ry where rx: "uf_root p x rx" and ry: "uf_root p y ry" using uf_root_exists[OF h x] uf_root_exists[OF h y] by auto
    have qx: "uf_root ?q x (if rx = ra then rb else rx)" "uf_root ?q y (if ry = ra then rb else ry)"
      using link_root[OF _ stay, of x rx] link_root[OF _ stay, of y ry] r2 x y rx ry f1 f2 by auto
    have b: "uf_root p b rb" using roots(2) r2 ab(2) by simp
    show ?thesis
      using uf_same_roots[OF qx] uf_same_roots[OF rx ry] uf_same_roots[OF rx f1(3)] uf_same_roots[OF ry b]
        uf_same_roots[OF rx b] uf_same_roots[OF ry f1(3)] by auto
  qed
  ultimately show ?thesis using h' f1(5) f2(5) by (auto simp: uf_ok_def)
qed

section \<open>The contract\<close>

text \<open>The equivalence generated by a set of pairs.\<close>

definition linked :: "('a \<times> 'a) set \<Rightarrow> ('a \<times> 'a) set" where
  "linked E = (E \<union> E\<inverse>)\<^sup>*"

lemma linked_refl [simp]: "(x, x) \<in> linked E"
  by (simp add: linked_def)

lemma linked_sym: "(x, y) \<in> linked E \<Longrightarrow> (y, x) \<in> linked E"
  unfolding linked_def by (meson sym_Un_converse sym_rtrancl symD)

lemma linked_trans: "(x, y) \<in> linked E \<Longrightarrow> (y, z) \<in> linked E \<Longrightarrow> (x, z) \<in> linked E"
  unfolding linked_def by (rule rtrancl_trans)

lemma linked_mono: "E \<subseteq> F \<Longrightarrow> linked E \<subseteq> linked F"
  unfolding linked_def by (rule rtrancl_mono) auto

lemma linked_edge: "(a, b) \<in> E \<Longrightarrow> (a, b) \<in> linked E"
  by (auto simp: linked_def)

lemma linked_edge_back: "(a, b) \<in> E \<Longrightarrow> (b, a) \<in> linked E"
  by (rule linked_sym[OF linked_edge])

lemma linked_empty [simp]: "linked {} = Id"
  by (simp add: linked_def)

lemma linked_insert:
  "(x, y) \<in> linked (insert (a, b) E) \<longleftrightarrow> (x, y) \<in> linked E \<or>
     ((x, a) \<in> linked E \<and> (b, y) \<in> linked E) \<or> ((x, b) \<in> linked E \<and> (a, y) \<in> linked E)" (is "?l \<longleftrightarrow> ?r")
proof
  assume ?l
  then show ?r
    unfolding linked_def[of "insert (a, b) E"]
  proof (induction rule: rtrancl_induct)
    case (step y z)
    from step.hyps(2) consider "(y, z) \<in> linked E" | "y = a" "z = b" | "y = b" "z = a"
      by (auto intro: linked_edge linked_sym)
    then show ?case using step.IH by cases (auto intro: linked_trans)
  qed simp
next
  assume r: ?r
  have sub: "linked E \<subseteq> linked (insert (a, b) E)" by (rule linked_mono) auto
  have ab: "(a, b) \<in> linked (insert (a, b) E)" by (rule linked_edge) simp
  from r sub ab linked_sym[OF ab] show ?l by (meson linked_trans subsetD)
qed

lemma uf_unions_linked:
  assumes "uf_ok p" and "\<forall>(a, b) \<in> set es. a < length p \<and> b < length p"
    and "\<And>x y. x < length p \<Longrightarrow> y < length p \<Longrightarrow> uf_same p x y \<longleftrightarrow> (x, y) \<in> linked E"
  shows "\<exists>p'. uf_unions es p = Some p' \<and> uf_ok p' \<and> length p' = length p \<and>
    (\<forall>x y. x < length p \<longrightarrow> y < length p \<longrightarrow> uf_same p' x y = ((x, y) \<in> linked (set es \<union> E)))"
  using assms
proof (induction es arbitrary: p E)
  case Nil
  then show ?case by simp
next
  case (Cons e es)
  obtain a b where e: "e = (a, b)" by (cases e)
  with Cons.prems(2) have ab: "a < length p" "b < length p" by auto
  from uf_union_joins[OF Cons.prems(1) ab] obtain q where q: "uf_union a b p = Some q" "uf_ok q" "length q = length p"
    and joins: "\<And>x y. x < length p \<Longrightarrow> y < length p \<Longrightarrow> uf_same q x y =
       (uf_same p x y \<or> (uf_same p x a \<and> uf_same p y b) \<or> (uf_same p x b \<and> uf_same p y a))" by auto
  have "uf_same q x y \<longleftrightarrow> (x, y) \<in> linked (insert (a, b) E)" if "x < length q" "y < length q" for x y
    using joins[of x y] that q(3) ab Cons.prems(3) by (auto simp: linked_insert intro: linked_sym)
  from Cons.IH[OF q(2) _ this] Cons.prems(2) q show ?case by (auto simp: e)
qed

lemma uf_new_ok: "uf_ok (uf_new n)" "length (uf_new n) = n"
  by (auto simp: uf_ok_def uf_height_def uf_new_def)

lemma uf_new_same: "x < n \<Longrightarrow> y < n \<Longrightarrow> uf_same (uf_new n) x y \<longleftrightarrow> x = y"
  using uf_same_roots[OF uf_root.here uf_root.here, of "uf_new n" x y] by (simp add: uf_new_def)

text \<open>What two finds on a well-formed structure say.\<close>

lemma uf_find_same:
  assumes "uf_ok p" and "x < length p" and "y < length p"
  shows "\<exists>rx p1 ry p2. uf_find p x = Some (rx, p1) \<and> uf_find p1 y = Some (ry, p2) \<and> (rx = ry \<longleftrightarrow> uf_same p x y)"
proof -
  obtain h where h: "uf_height p h" using assms(1) by (auto simp: uf_ok_def)
  from uf_find_returns[OF h assms(2)] obtain rx p1 where f: "uf_find p x = Some (rx, p1)" "uf_root p x rx" "uf_height p1 h"
    "length p1 = length p" "\<And>y r. y < length p \<Longrightarrow> uf_root p1 y r = uf_root p y r" by auto
  from uf_find_returns[OF f(3), of y] assms(3) f(4) obtain ry p2 where g: "uf_find p1 y = Some (ry, p2)" "uf_root p1 y ry" by auto
  with f assms(3) have "uf_root p y ry" by simp
  from uf_same_roots[OF f(2) this] f g show ?thesis by auto
qed

text \<open>C14: Union-find decides connectivity, and always answers: after any sequence of unions of elements below \<open>n\<close>,
  which all return, a \<open>find\<close> of two elements returns on both, and returns the same root exactly when a chain of the
  united pairs, walked in either direction, leads from one to the other.\<close>

theorem union_find_decides_connectivity:
  assumes "\<forall>(a, b) \<in> set es. a < n \<and> b < n" and "x < n" and "y < n"
  shows "\<exists>p rx p1 ry p2. uf_unions es (uf_new n) = Some p \<and> uf_find p x = Some (rx, p1) \<and> uf_find p1 y = Some (ry, p2) \<and>
    (rx = ry \<longleftrightarrow> (x, y) \<in> (set es \<union> (set es)\<inverse>)\<^sup>*)"
proof -
  from uf_unions_linked[OF uf_new_ok(1)[of n], of es "{}"] assms(1) obtain p where
    p: "uf_unions es (uf_new n) = Some p" "uf_ok p" "length p = n"
    "\<And>x y. x < n \<Longrightarrow> y < n \<Longrightarrow> uf_same p x y = ((x, y) \<in> linked (set es))"
    by (auto simp: uf_new_ok uf_new_same)
  from uf_find_same[OF p(2), of x y] p assms(2,3) show ?thesis by (auto simp: linked_def)
qed

lemma union_find_decides_connectivity_witness:
  "\<exists>p rx p1 ry p2. uf_unions [(0, 1), (3, 1)] (uf_new 5) = Some p \<and> uf_find p 0 = Some (rx, p1) \<and> uf_find p1 3 = Some (ry, p2) \<and> rx = ry"
proof -
  have "(0, 3) \<in> (set [(0, 1), (3, 1 :: nat)] \<union> (set [(0, 1), (3, 1)])\<inverse>)\<^sup>*"
    by (rule converse_rtrancl_into_rtrancl[of _ 1], simp, rule converse_rtrancl_into_rtrancl[of _ 3], simp_all)
  with union_find_decides_connectivity[of "[(0, 1), (3, 1)]" 5 0 3] show ?thesis by auto
qed

end
