(* ===== verification/HopSearch.thy ===== *)
theory HopSearch
  imports Prelude
begin

text \<open>
  The breadth-first search of \<open>stateFromEdges\<close> in \<open>tools/scenario-model/resilience.ts\<close>: from every sink at
  once, over an adjacency table, counting hops. The queue of the code, an array that grows while an index
  walks over it, is the list of what the index has not reached yet. The loop ends because every push marks a
  node that was not marked before, and what it computes is the distance to the nearest sink.
\<close>

section \<open>The search\<close>

type_synonym 'a adjacency = "('a, 'a list) jsmap"

definition neighbours :: "'a adjacency \<Rightarrow> 'a \<Rightarrow> 'a list" where
  "neighbours adj v = (case map_of adj v of Some ws \<Rightarrow> ws | None \<Rightarrow> [])"

text \<open>The inner loop over the neighbours of one node: what it pushes, and the marks it sets.\<close>

fun visit :: "nat \<Rightarrow> 'a list \<Rightarrow> ('a, nat) jsmap \<Rightarrow> 'a list \<times> ('a, nat) jsmap" where
  "visit d [] hops = ([], hops)"
| "visit d (nb # nbs) hops =
     (if map_of hops nb \<noteq> None then visit d nbs hops
      else let (new, hops') = visit d nbs (map_put nb d hops) in (nb # new, hops'))"

lemma visit_marks: "map_of (snd (visit d nbs hops)) v =
    (if map_of hops v \<noteq> None then map_of hops v else if v \<in> set nbs then Some d else None)"
  by (induction d nbs hops rule: visit.induct) (auto simp: case_prod_unfold Let_def)

lemma visit_new: "set (fst (visit d nbs hops)) = {v \<in> set nbs. map_of hops v = None}"
  by (induction d nbs hops rule: visit.induct) (auto simp: case_prod_unfold Let_def)

definition unmarked :: "'a adjacency \<Rightarrow> ('a, nat) jsmap \<Rightarrow> 'a set" where
  "unmarked adj hops = {v \<in> \<Union> (set ` snd ` set adj). map_of hops v = None}"

lemma neighbours_in: "set (neighbours adj v) \<subseteq> \<Union> (set ` snd ` set adj)"
proof (cases "map_of adj v")
  case (Some ws)
  from map_of_SomeD[OF this] show ?thesis by (auto simp: neighbours_def Some intro!: bexI[of _ "(v, ws)"])
qed (simp add: neighbours_def)

lemma visit_progress:
  assumes "fst (visit d (neighbours adj v) hops) \<noteq> []"
  shows "card (unmarked adj (snd (visit d (neighbours adj v) hops))) < card (unmarked adj hops)"
proof (rule psubset_card_mono)
  show "finite (unmarked adj hops)" by (simp add: unmarked_def)
  obtain w where "w \<in> set (fst (visit d (neighbours adj v) hops))" using assms by (cases "fst (visit d (neighbours adj v) hops)") auto
  then have w: "w \<in> set (neighbours adj v)" "map_of hops w = None" by (auto simp: visit_new)
  have "w \<in> unmarked adj hops" using w neighbours_in[of adj v] by (auto simp: unmarked_def)
  moreover have "w \<notin> unmarked adj (snd (visit d (neighbours adj v) hops))" using w by (simp add: unmarked_def visit_marks)
  moreover have "unmarked adj (snd (visit d (neighbours adj v) hops)) \<subseteq> unmarked adj hops"
    by (auto simp: unmarked_def visit_marks split: if_splits)
  ultimately show "unmarked adj (snd (visit d (neighbours adj v) hops)) \<subset> unmarked adj hops" by blast
qed

lemma visit_quiet: "fst (visit d nbs hops) = [] \<Longrightarrow> snd (visit d nbs hops) = hops"
  by (induction d nbs hops rule: visit.induct) (auto simp: case_prod_unfold Let_def split: if_splits)

function hop_loop :: "'a adjacency \<Rightarrow> 'a list \<Rightarrow> ('a, nat) jsmap \<Rightarrow> ('a, nat) jsmap" where
  "hop_loop adj [] hops = hops"
| "hop_loop adj (cur # queue) hops =
     (let d = (case map_of hops cur of Some d \<Rightarrow> d | None \<Rightarrow> 0);
          (new, hops') = visit (d + 1) (neighbours adj cur) hops
      in hop_loop adj (queue @ new) hops')"
  by pat_completeness auto

termination
proof (relation "measures [\<lambda>(adj, queue, hops). card (unmarked adj hops), \<lambda>(adj, queue, hops). length queue]")
  fix adj :: "'a adjacency" and cur queue hops d x new hops'
  assume x: "x = visit (d + 1) (neighbours adj cur) hops" "(new, hops') = x"
  then have n: "new = fst (visit (d + 1) (neighbours adj cur) hops)" "hops' = snd (visit (d + 1) (neighbours adj cur) hops)"
    by (metis fst_conv, metis snd_conv)
  show "((adj, queue @ new, hops'), (adj, cur # queue, hops))
      \<in> measures [\<lambda>(adj, queue, hops). card (unmarked adj hops), \<lambda>(adj, queue, hops). length queue]"
    using visit_progress[of "d + 1" adj cur hops] visit_quiet[of "d + 1" "neighbours adj cur" hops]
    unfolding n by (cases "fst (visit (d + 1) (neighbours adj cur) hops) = []") auto
qed simp

text \<open>The start: every source is marked zero and queued.\<close>

definition hop_search :: "'a adjacency \<Rightarrow> 'a list \<Rightarrow> ('a, nat) jsmap" where
  "hop_search adj sources = hop_loop adj sources (foldl (\<lambda>hops s. map_put s 0 hops) [] sources)"

section \<open>Distances\<close>

text \<open>A walk of \<open>k\<close> steps.\<close>

inductive walk :: "('a \<Rightarrow> 'a \<Rightarrow> bool) \<Rightarrow> nat \<Rightarrow> 'a \<Rightarrow> 'a \<Rightarrow> bool" for E where
  stay: "walk E 0 v v"
| step: "walk E k s u \<Longrightarrow> E u v \<Longrightarrow> walk E (Suc k) s v"

inductive_cases walk_0E: "walk E 0 s v"
inductive_cases walk_SucE: "walk E (Suc k) s v"

lemma walk_mono: "walk E k s v \<Longrightarrow> (\<And>u v. E u v \<Longrightarrow> F u v) \<Longrightarrow> walk F k s v"
  by (induction rule: walk.induct) (auto intro: walk.intros)

abbreviation adjacent :: "'a adjacency \<Rightarrow> 'a \<Rightarrow> 'a \<Rightarrow> bool" where
  "adjacent adj u v \<equiv> v \<in> set (neighbours adj u)"

text \<open>What holds at every turn of the loop. A node is settled when it is marked and no longer queued.\<close>

definition hops_inv :: "'a adjacency \<Rightarrow> 'a set \<Rightarrow> 'a list \<Rightarrow> ('a, nat) jsmap \<Rightarrow> bool" where
  "hops_inv adj S queue hops \<longleftrightarrow>
     (\<forall>s \<in> S. map_of hops s = Some 0) \<and>
     (\<forall>v \<in> set queue. map_of hops v \<noteq> None) \<and>
     (\<forall>v d. map_of hops v = Some d \<longrightarrow> (\<exists>s \<in> S. walk (adjacent adj) d s v)) \<and>
     (\<forall>v d w. map_of hops v = Some d \<longrightarrow> v \<notin> set queue \<longrightarrow> adjacent adj v w \<longrightarrow> (\<exists>e. map_of hops w = Some e \<and> e \<le> Suc d)) \<and>
     sorted (map (\<lambda>v. the (map_of hops v)) queue) \<and>
     (\<forall>v d. queue \<noteq> [] \<longrightarrow> map_of hops v = Some d \<longrightarrow> d \<le> (if v \<in> set queue then Suc else id) (the (map_of hops (hd queue))))"

lemma hops_inv_walk: "hops_inv adj S queue hops \<Longrightarrow> map_of hops v = Some d \<Longrightarrow> \<exists>s \<in> S. walk (adjacent adj) d s v"
  by (simp add: hops_inv_def)

lemma hops_inv_closed: "hops_inv adj S queue hops \<Longrightarrow> map_of hops v = Some d \<Longrightarrow> v \<notin> set queue \<Longrightarrow> adjacent adj v w \<Longrightarrow>
    \<exists>e. map_of hops w = Some e \<and> e \<le> Suc d"
  by (simp add: hops_inv_def)

lemma hops_inv_step:
  assumes inv: "hops_inv adj S (cur # queue) hops" and d: "map_of hops cur = Some d"
    and v: "visit (Suc d) (neighbours adj cur) hops = (new, hops')"
  shows "hops_inv adj S (queue @ new) hops'"
proof -
  have m: "map_of hops' x = (if map_of hops x \<noteq> None then map_of hops x
      else if x \<in> set (neighbours adj cur) then Some (Suc d) else None)" for x
    using visit_marks[of "Suc d" "neighbours adj cur" hops x] v by simp
  have n: "x \<in> set new \<longleftrightarrow> x \<in> set (neighbours adj cur) \<and> map_of hops x = None" for x
    using visit_new[of "Suc d" "neighbours adj cur" hops] v by auto
  have level: "map_of hops x = Some e \<Longrightarrow> e \<le> (if x \<in> set (cur # queue) then Suc else id) d" for x e
    using inv d by (simp add: hops_inv_def)
  have old: "map_of hops x = Some e \<Longrightarrow> e \<le> Suc d" for x e
    using level[of x e] by (cases "x \<in> set (cur # queue)") auto
  have settled: "map_of hops x = Some e \<Longrightarrow> x \<notin> set queue \<Longrightarrow> e \<le> d" for x e
    using level[of x e] d by (cases "x = cur") auto
  have later: "x \<in> set queue \<Longrightarrow> \<exists>e. map_of hops x = Some e \<and> d \<le> e" for x
    using inv d by (force simp: hops_inv_def)
  have marked: "map_of hops' x = Some e \<Longrightarrow> e \<le> Suc d" for x e
    using old by (auto simp: m split: if_splits)
  have walks: "\<exists>s \<in> S. walk (adjacent adj) e s x" if "map_of hops' x = Some e" for x e
  proof (cases "map_of hops x = None")
    case False
    with that inv show ?thesis by (auto simp: m hops_inv_def)
  next
    case True
    with that have x: "adjacent adj cur x" "e = Suc d" by (auto simp: m split: if_splits)
    obtain s where "s \<in> S" "walk (adjacent adj) d s cur" using hops_inv_walk[OF inv d] by blast
    with x show ?thesis by (auto intro: walk.step)
  qed
  have closed: "\<exists>e'. map_of hops' w = Some e' \<and> e' \<le> Suc e"
    if "map_of hops' x = Some e" "x \<notin> set (queue @ new)" "adjacent adj x w" for x e w
  proof (cases "x = cur")
    case True
    with that d have "e = d" by (simp add: m)
    have "map_of hops' w \<noteq> None" using that True by (simp add: m)
    then show ?thesis using marked \<open>e = d\<close> by auto
  next
    case False
    have "map_of hops x = Some e" using that n by (auto simp: m split: if_splits)
    with False that hops_inv_closed[OF inv] obtain e' where "map_of hops w = Some e'" "e' \<le> Suc e" by fastforce
    then show ?thesis by (simp add: m)
  qed
  have q: "map_of hops' x = map_of hops x" if "x \<in> set queue" for x using later[OF that] by (auto simp: m)
  have sort: "sorted (map (\<lambda>v. the (map_of hops' v)) (queue @ new))"
  proof -
    have old_part: "map (\<lambda>v. the (map_of hops' v)) queue = map (\<lambda>v. the (map_of hops v)) queue" using q by simp
    have new_part: "map (\<lambda>v. the (map_of hops' v)) new = replicate (length new) (Suc d)"
      by (rule replicate_eqI) (auto simp: m n)
    have "the (map_of hops x) \<le> Suc d" if "x \<in> set queue" for x using later[OF that] old by auto
    moreover have "sorted (map (\<lambda>v. the (map_of hops v)) queue)" using inv by (simp add: hops_inv_def)
    ultimately show ?thesis unfolding map_append old_part new_part by (simp add: sorted_append)
  qed
  have first: "d \<le> the (map_of hops' (hd (queue @ new)))" if "queue @ new \<noteq> []"
  proof (cases queue)
    case Nil
    with that n[of "hd new"] show ?thesis by (auto simp: m hd_in_set)
  next
    case (Cons x xs)
    with later[of x] show ?thesis by (auto simp: m)
  qed
  have level': "e \<le> (if x \<in> set (queue @ new) then Suc else id) (the (map_of hops' (hd (queue @ new))))"
    if "queue @ new \<noteq> []" "map_of hops' x = Some e" for x e
  proof (cases "x \<in> set (queue @ new)")
    case True
    with marked[OF that(2)] first[OF that(1)] show ?thesis by simp
  next
    case False
    with that(2) n have "map_of hops x = Some e" by (auto simp: m split: if_splits)
    with settled False first[OF that(1)] show ?thesis by fastforce
  qed
  show ?thesis
    unfolding hops_inv_def
    using inv walks closed sort level' n q by (auto simp: m hops_inv_def)
qed

lemma hop_loop_inv:
  "hops_inv adj S queue hops \<Longrightarrow> hops_inv adj S [] (hop_loop adj queue hops)"
proof (induction adj queue hops rule: hop_loop.induct)
  case (1 adj hops)
  then show ?case by simp
next
  case (2 adj cur queue hops)
  obtain d where d: "map_of hops cur = Some d" using "2.prems" by (auto simp: hops_inv_def)
  obtain new hops' where v: "visit (Suc d) (neighbours adj cur) hops = (new, hops')" by (cases "visit (Suc d) (neighbours adj cur) hops")
  from "2.IH"[OF refl, of "(new, hops')" new hops'] hops_inv_step[OF "2.prems" d v] d v show ?case by simp
qed

lemma start_marks: "map_of (foldl (\<lambda>hops s. map_put s 0 hops) h ss) v = (if v \<in> set ss then Some 0 else map_of h v)"
  by (induction ss arbitrary: h) auto

text \<open>The search computes exactly the least number of steps from a source; what no walk reaches is not marked.\<close>

lemma hop_search_exact:
  "map_of (hop_search adj ss) v = Some d \<longleftrightarrow>
     (\<exists>s \<in> set ss. walk (adjacent adj) d s v) \<and> (\<forall>k. \<forall>s \<in> set ss. walk (adjacent adj) k s v \<longrightarrow> d \<le> k)"
proof -
  let ?H = "hop_search adj ss"
  have "hops_inv adj (set ss) ss (foldl (\<lambda>hops s. map_put s 0 hops) [] ss)"
    by (auto simp: hops_inv_def start_marks sorted_wrt_iff_nth_less split: if_splits intro: walk.stay)
  from hop_loop_inv[OF this] have inv: "hops_inv adj (set ss) [] ?H" by (simp add: hop_search_def)
  have complete: "\<exists>e \<le> k. map_of ?H v = Some e" if "walk (adjacent adj) k s v" "s \<in> set ss" for k s v
    using that
  proof (induction rule: walk.induct)
    case (stay v)
    with inv show ?case by (auto simp: hops_inv_def)
  next
    case (step k s u v)
    then obtain e where "e \<le> k" "map_of ?H u = Some e" by auto
    moreover obtain e' where "map_of ?H v = Some e'" "e' \<le> Suc e"
      using inv step.hyps(2) \<open>map_of ?H u = Some e\<close> unfolding hops_inv_def by (metis empty_iff list.set(1))
    ultimately show ?case by auto
  qed
  show ?thesis
  proof
    assume v: "map_of ?H v = Some d"
    have "\<exists>s \<in> set ss. walk (adjacent adj) d s v" using inv v by (auto simp: hops_inv_def)
    moreover have "\<forall>k. \<forall>s \<in> set ss. walk (adjacent adj) k s v \<longrightarrow> d \<le> k" using complete v by fastforce
    ultimately show "(\<exists>s \<in> set ss. walk (adjacent adj) d s v) \<and> (\<forall>k. \<forall>s \<in> set ss. walk (adjacent adj) k s v \<longrightarrow> d \<le> k)" by simp
  next
    assume r: "(\<exists>s \<in> set ss. walk (adjacent adj) d s v) \<and> (\<forall>k. \<forall>s \<in> set ss. walk (adjacent adj) k s v \<longrightarrow> d \<le> k)"
    then obtain e where e: "e \<le> d" "map_of ?H v = Some e" using complete by blast
    then obtain s where "s \<in> set ss" "walk (adjacent adj) e s v" using hops_inv_walk[OF inv] by blast
    with r e show "map_of ?H v = Some d" by force
  qed
qed

end
