(* ===== verification/Resilience.thy ===== *)
theory Resilience
  imports UnionFind HopSearch
begin

text \<open>
  The resilience engine of \<open>tools/scenario-model/resilience.ts\<close>: the state of a network (which nodes reach a
  sink, in how many hops, in how many fragments it falls), failures of nodes and of areas, and who depends on
  whom. Coordinates, seconds and decibels are exact rationals (the code computes them in doubles); the radio
  model (\<open>reevaluate\<close>), the projection of geographic coordinates (\<open>frame\<close>) and \<open>localeCompare\<close> come with the
  specification as functions. A raised \<open>Error\<close> is the left side of a sum; so is, as \<open>Hangs\<close>, a \<open>find\<close> that
  would not return, which the development shows cannot happen.
\<close>

section \<open>Data\<close>

datatype node_kind = BoxNode | PortableNode | CardNode | PhoneNode | RelayNode
datatype medium = Wifi | Ble | Lora

record edge =
  re_a :: string
  re_b :: string
  re_tech :: medium
  re_rateBps :: rat
  re_ax :: "rat option"
  re_ay :: "rat option"
  re_bx :: "rat option"
  re_by :: "rat option"

record res_node =
  rn_id :: string
  rn_kind :: node_kind
  rn_inactive :: bool

record res_coverage =
  cov_cols :: nat
  cov_rows :: nat
  cov_land :: "nat list"
  cov_halos :: "(string, nat list) jsmap"

record res_timeline =
  tl_fromS :: rat
  tl_steps :: "(rat \<times> edge list) list"

type_synonym point = "rat \<times> rat"

record graph_spec =
  gs_nodes :: "res_node list"
  gs_edges :: "edge list"
  gs_atS :: "rat option"
  gs_sinkKinds :: "node_kind list option"
  gs_scoreKinds :: "node_kind list option"
  gs_coverage :: "res_coverage option"
  gs_timeline :: "res_timeline option"
  gs_positions :: "(string, point) jsmap option"
  gs_frame :: "(rat \<Rightarrow> rat \<Rightarrow> point) option"
  gs_reevaluate :: "(edge \<Rightarrow> rat \<Rightarrow> rat \<Rightarrow> bool) option"
  gs_localeCompare :: "string \<Rightarrow> string \<Rightarrow> rat"

datatype pt = Geo rat rat | Local rat rat
datatype area_shape = Circle pt rat | Polygon "pt list"

record failure_area =
  fa_shape :: area_shape
  fa_failNodes :: "bool option"
  fa_blockLossDb :: "rat option"

record failure_spec =
  fs_nodes :: "string list option"
  fs_areas :: "failure_area list option"

datatype area_geometry = Disc rat rat rat | Shape "point list"

record resolved_area =
  ra_geometry :: area_geometry
  ra_lossDb :: rat
  ra_failNodes :: bool

datatype res_error =
    DuplicateNode string
  | UnknownEndpoint string string
  | FrameRequired
  | TooFewPoints
  | PositionsRequired
  | UnknownFailedNode string
  | Hangs

record res_state =
  st_active :: "string list"
  st_edges :: "edge list"
  st_degree :: "(string, nat) jsmap"
  st_connected :: "string list"
  st_hops :: "(string, nat) jsmap"
  st_fragments :: nat

record res_context =
  cx_spec :: graph_spec
  cx_sinkKinds :: "node_kind list"
  cx_scoreKinds :: "node_kind list"
  cx_baseline :: res_state

definition DEFAULT_SINKS :: "node_kind list" where "DEFAULT_SINKS = [BoxNode, PortableNode]"

text \<open>Sets and sorting. A \<open>Set\<close> is the list of its elements in insertion order; \<open>sort\<close> is stable.\<close>

definition set_add :: "'a \<Rightarrow> 'a list \<Rightarrow> 'a list" where
  "set_add x xs = (if x \<in> set xs then xs else xs @ [x])"

fun insert_by :: "('a \<Rightarrow> 'a \<Rightarrow> rat) \<Rightarrow> 'a \<Rightarrow> 'a list \<Rightarrow> 'a list" where
  "insert_by c x [] = [x]"
| "insert_by c x (y # ys) = (if c x y < 0 then x # y # ys else y # insert_by c x ys)"

definition sort_by :: "('a \<Rightarrow> 'a \<Rightarrow> rat) \<Rightarrow> 'a list \<Rightarrow> 'a list" where
  "sort_by c xs = foldl (\<lambda>ys x. insert_by c x ys) [] xs"

text \<open>\<open>a || b\<close> on numbers.\<close>

definition or_else :: "rat \<Rightarrow> rat \<Rightarrow> rat" where
  "or_else x y = (if x = 0 then y else x)"

fun try_map :: "('a \<Rightarrow> 'e + 'b) \<Rightarrow> 'a list \<Rightarrow> 'e + 'b list" where
  "try_map f [] = Inr []"
| "try_map f (x # xs) = (case f x of Inl e \<Rightarrow> Inl e
     | Inr y \<Rightarrow> (case try_map f xs of Inl e \<Rightarrow> Inl e | Inr ys \<Rightarrow> Inr (y # ys)))"

section \<open>Geometry\<close>

definition toLocalPt :: "res_context \<Rightarrow> pt \<Rightarrow> res_error + point" where
  "toLocalPt ctx p = (case p of
     Geo lat lon \<Rightarrow> (case gs_frame (cx_spec ctx) of None \<Rightarrow> Inl FrameRequired | Some toLocal \<Rightarrow> Inr (toLocal lat lon))
   | Local x y \<Rightarrow> Inr (x, y))"

definition resolveArea :: "res_context \<Rightarrow> failure_area \<Rightarrow> res_error + resolved_area" where
  "resolveArea ctx a =
     (let lossDb = (case fa_blockLossDb a of Some l \<Rightarrow> l | None \<Rightarrow> 0);
          failNodes = (case fa_failNodes a of Some b \<Rightarrow> b | None \<Rightarrow> True)
      in case fa_shape a of
        Circle center radius \<Rightarrow> (case toLocalPt ctx center of Inl e \<Rightarrow> Inl e
          | Inr (cx, cy) \<Rightarrow> Inr \<lparr>ra_geometry = Disc cx cy radius, ra_lossDb = lossDb, ra_failNodes = failNodes\<rparr>)
      | Polygon points \<Rightarrow>
          if length points < 3 then Inl TooFewPoints
          else (case try_map (toLocalPt ctx) points of Inl e \<Rightarrow> Inl e
            | Inr ps \<Rightarrow> Inr \<lparr>ra_geometry = Shape ps, ra_lossDb = lossDb, ra_failNodes = failNodes\<rparr>))"

definition resolveAreas :: "res_context \<Rightarrow> failure_area list option \<Rightarrow> res_error + resolved_area list" where
  "resolveAreas ctx areas = try_map (resolveArea ctx) (case areas of Some as \<Rightarrow> as | None \<Rightarrow> [])"

text \<open>The pairs \<open>(poly[i], poly[j])\<close> of the loops \<open>for (i = 0, j = n - 1; i < n; j = i++)\<close>.\<close>

definition poly_pairs :: "point list \<Rightarrow> (point \<times> point) list" where
  "poly_pairs poly = (if poly = [] then [] else zip poly (last poly # poly))"

definition crosses_ray :: "rat \<Rightarrow> rat \<Rightarrow> point \<times> point \<Rightarrow> bool" where
  "crosses_ray x y ab = (case ab of ((ax, ay), (bx, by)) \<Rightarrow>
     (ay > y) \<noteq> (by > y) \<and> x < ((bx - ax) * (y - ay)) / (by - ay) + ax)"

definition pointInPolygon :: "rat \<Rightarrow> rat \<Rightarrow> point list \<Rightarrow> bool" where
  "pointInPolygon x y poly = foldl (\<lambda>inside ab. if crosses_ray x y ab then \<not> inside else inside) False (poly_pairs poly)"

text \<open>\<open>Math.hypot(dx, dy) <= r\<close>.\<close>

definition hypot_le :: "rat \<Rightarrow> rat \<Rightarrow> rat \<Rightarrow> bool" where
  "hypot_le dx dy r \<longleftrightarrow> 0 \<le> r \<and> dx * dx + dy * dy \<le> r * r"

definition pointInArea :: "resolved_area \<Rightarrow> rat \<Rightarrow> rat \<Rightarrow> bool" where
  "pointInArea area x y = (case ra_geometry area of
     Disc cx cy r \<Rightarrow> hypot_le (x - cx) (y - cy) r | Shape poly \<Rightarrow> pointInPolygon x y poly)"

definition side :: "point \<Rightarrow> point \<Rightarrow> point \<Rightarrow> rat" where
  "side a b c = (fst c - fst a) * (snd b - snd a) - (fst b - fst a) * (snd c - snd a)"

definition on_segment :: "point \<Rightarrow> point \<Rightarrow> point \<Rightarrow> rat \<Rightarrow> bool" where
  "on_segment a b c dd \<longleftrightarrow> dd = 0 \<and> min (fst a) (fst b) \<le> fst c \<and> fst c \<le> max (fst a) (fst b) \<and>
     min (snd a) (snd b) \<le> snd c \<and> snd c \<le> max (snd a) (snd b)"

definition segmentsCross :: "point \<Rightarrow> point \<Rightarrow> point \<Rightarrow> point \<Rightarrow> bool" where
  "segmentsCross p1 p2 p3 p4 =
     (let d1 = side p3 p4 p1; d2 = side p3 p4 p2; d3 = side p1 p2 p3; d4 = side p1 p2 p4 in
      if ((d1 > 0 \<and> d2 < 0) \<or> (d1 < 0 \<and> d2 > 0)) \<and> ((d3 > 0 \<and> d4 < 0) \<or> (d3 < 0 \<and> d4 > 0)) then True
      else on_segment p3 p4 p1 d1 \<or> on_segment p3 p4 p2 d2 \<or> on_segment p1 p2 p3 d3 \<or> on_segment p1 p2 p4 d4)"

definition segmentTouchesArea :: "resolved_area \<Rightarrow> rat \<Rightarrow> rat \<Rightarrow> rat \<Rightarrow> rat \<Rightarrow> bool" where
  "segmentTouchesArea area ax ay bx by = (case ra_geometry area of
     Disc cx cy r \<Rightarrow>
       (let vx = bx - ax; vy = by - ay; len2 = vx * vx + vy * vy;
            f = (if len2 = 0 then 0 else max 0 (min 1 (((cx - ax) * vx + (cy - ay) * vy) / len2)))
        in hypot_le (cx - (ax + f * vx)) (cy - (ay + f * vy)) r)
   | Shape poly \<Rightarrow>
       if pointInPolygon ax ay poly \<or> pointInPolygon bx by poly then True
       else list_ex (\<lambda>(pi, pj). segmentsCross (ax, ay) (bx, by) pi pj) (poly_pairs poly))"

section \<open>The state of a network\<close>

definition ids_of :: "graph_spec \<Rightarrow> string list" where
  "ids_of spec = map rn_id (gs_nodes spec)"

definition kind_of :: "res_context \<Rightarrow> string \<Rightarrow> node_kind option" where
  "kind_of ctx i = map_of (map (\<lambda>n. (rn_id n, rn_kind n)) (gs_nodes (cx_spec ctx))) i"

fun position_in :: "'a list \<Rightarrow> 'a \<Rightarrow> nat" where
  "position_in [] x = 0"
| "position_in (y # ys) x = (if x = y then 0 else Suc (position_in ys x))"

text \<open>\<open>ctx.index\<close>: the ids of a context are distinct and it is asked for known ids only.\<close>

definition index_in :: "res_context \<Rightarrow> string \<Rightarrow> nat" where
  "index_in ctx i = position_in (ids_of (cx_spec ctx)) i"

definition isSink :: "res_context \<Rightarrow> string \<Rightarrow> bool" where
  "isSink ctx i = (case kind_of ctx i of Some k \<Rightarrow> k \<in> set (cx_sinkKinds ctx) | None \<Rightarrow> False)"

definition active_nodes :: "res_context \<Rightarrow> string list \<Rightarrow> string list" where
  "active_nodes ctx failed = map rn_id (filter (\<lambda>n. \<not> rn_inactive n \<and> rn_id n \<notin> set failed) (gs_nodes (cx_spec ctx)))"

definition edge_survives :: "res_context \<Rightarrow> rat \<Rightarrow> resolved_area list \<Rightarrow> edge \<Rightarrow> bool" where
  "edge_survives ctx t blocking e = (case (blocking, re_ax e, re_ay e, re_bx e, re_by e) of
     (_ # _, Some ax, Some ay, Some bx, Some by) \<Rightarrow>
       (let loss = sum_list (map ra_lossDb (filter (\<lambda>a. segmentTouchesArea a ax ay bx by) blocking)) in
        if loss > 0 then (case gs_reevaluate (cx_spec ctx) of Some f \<Rightarrow> f e t loss | None \<Rightarrow> False) else True)
   | _ \<Rightarrow> True)"

definition filterEdges :: "res_context \<Rightarrow> edge list \<Rightarrow> rat \<Rightarrow> string list \<Rightarrow> resolved_area list \<Rightarrow> edge list" where
  "filterEdges ctx edges t active areas =
     (let blocking = filter (\<lambda>a. ra_lossDb a > 0) areas
      in filter (\<lambda>e. re_a e \<in> set active \<and> re_b e \<in> set active \<and> edge_survives ctx t blocking e) edges)"

definition pairs_of :: "res_context \<Rightarrow> edge list \<Rightarrow> (nat \<times> nat) list" where
  "pairs_of ctx edges = map (\<lambda>e. (index_in ctx (re_a e), index_in ctx (re_b e))) edges"

text \<open>The roots of a list of elements, found one after the other.\<close>

fun find_all :: "nat list \<Rightarrow> parents \<Rightarrow> (nat list \<times> parents) option" where
  "find_all [] p = Some ([], p)"
| "find_all (x # xs) p = do {
     (r, p1) \<leftarrow> uf_find p x;
     (rs, p2) \<leftarrow> find_all xs p1;
     Some (r # rs, p2) }"

definition push_at :: "string \<Rightarrow> string \<Rightarrow> string adjacency \<Rightarrow> string adjacency" where
  "push_at i j adj = map_put i (neighbours adj i @ [j]) adj"

definition bump :: "string \<Rightarrow> (string, nat) jsmap \<Rightarrow> (string, nat) jsmap" where
  "bump i m = map_put i ((case map_of m i of Some d \<Rightarrow> d | None \<Rightarrow> 0) + 1) m"

definition adjacency_of :: "string list \<Rightarrow> edge list \<Rightarrow> string adjacency" where
  "adjacency_of active edges =
     foldl (\<lambda>adj e. push_at (re_b e) (re_a e) (push_at (re_a e) (re_b e) adj)) (map (\<lambda>i. (i, [])) active) edges"

definition degrees_of :: "string list \<Rightarrow> edge list \<Rightarrow> (string, nat) jsmap" where
  "degrees_of active edges = foldl (\<lambda>m e. bump (re_b e) (bump (re_a e) m)) (map (\<lambda>i. (i, 0)) active) edges"

definition stateFromEdges :: "res_context \<Rightarrow> string list \<Rightarrow> edge list \<Rightarrow> res_error + res_state" where
  "stateFromEdges ctx active edges =
     (case Option.bind (uf_unions (pairs_of ctx edges) (uf_new (length (gs_nodes (cx_spec ctx)))))
             (find_all (map (index_in ctx) active)) of
        None \<Rightarrow> Inl Hangs
      | Some (roots, p) \<Rightarrow>
          let hops = hop_search (adjacency_of active edges) (filter (isSink ctx) active)
          in Inr \<lparr>st_active = active, st_edges = edges, st_degree = degrees_of active edges, st_connected = map fst hops,
                  st_hops = hops, st_fragments = length (remdups roots)\<rparr>)"

definition computeState :: "res_context \<Rightarrow> string list \<Rightarrow> resolved_area list \<Rightarrow> res_error + res_state" where
  "computeState ctx failed areas =
     (let active = active_nodes ctx failed; spec = cx_spec ctx;
          edges = filterEdges ctx (gs_edges spec) (case gs_atS spec of Some t \<Rightarrow> t | None \<Rightarrow> 0) active areas
      in stateFromEdges ctx active edges)"

section \<open>The context\<close>

fun first_duplicate :: "string list \<Rightarrow> string list \<Rightarrow> string option" where
  "first_duplicate seen [] = None"
| "first_duplicate seen (i # is) = (if i \<in> set seen then Some i else first_duplicate (i # seen) is)"

definition bare_context :: "graph_spec \<Rightarrow> res_context" where
  "bare_context spec = \<lparr>cx_spec = spec,
     cx_sinkKinds = (case gs_sinkKinds spec of Some ks \<Rightarrow> ks | None \<Rightarrow> DEFAULT_SINKS),
     cx_scoreKinds = (case gs_scoreKinds spec of Some ks \<Rightarrow> ks | None \<Rightarrow> [BoxNode, PortableNode, CardNode, RelayNode]),
     cx_baseline = \<lparr>st_active = [], st_edges = [], st_degree = [], st_connected = [], st_hops = [], st_fragments = 0\<rparr>\<rparr>"

definition createResilienceContext :: "graph_spec \<Rightarrow> res_error + res_context" where
  "createResilienceContext spec = (case first_duplicate [] (ids_of spec) of
     Some i \<Rightarrow> Inl (DuplicateNode i)
   | None \<Rightarrow> (case find (\<lambda>e. re_a e \<notin> set (ids_of spec) \<or> re_b e \<notin> set (ids_of spec)) (gs_edges spec) of
       Some e \<Rightarrow> Inl (UnknownEndpoint (re_a e) (re_b e))
     | None \<Rightarrow> (case computeState (bare_context spec) [] [] of
         Inl e \<Rightarrow> Inl e | Inr baseline \<Rightarrow> Inr ((bare_context spec)\<lparr>cx_baseline := baseline\<rparr>))))"

end
