(* ===== verification/ResilienceState.thy ===== *)
theory ResilienceState
  imports Resilience
begin

text \<open>
  What the state of a network means: it is always computed, its hops are distances to the nearest active sink,
  its connected nodes are the ones some active sink reaches, and its fragments are the components of the graph.
  From that: a failure never connects a node, never shortens a route and never merges fragments it did not
  remove.
\<close>

section \<open>The graph behind a list of edges\<close>

definition edge_rel :: "edge list \<Rightarrow> (string \<times> string) set" where
  "edge_rel edges = (\<lambda>e. (re_a e, re_b e)) ` set edges"

abbreviation linked_edges :: "edge list \<Rightarrow> (string \<times> string) set" where
  "linked_edges edges \<equiv> linked (edge_rel edges)"

definition edge_step :: "edge list \<Rightarrow> string \<Rightarrow> string \<Rightarrow> bool" where
  "edge_step edges u v \<longleftrightarrow> (u, v) \<in> edge_rel edges \<union> (edge_rel edges)\<inverse>"

lemma edge_step_ex: "edge_step edges u v \<longleftrightarrow> (\<exists>e \<in> set edges. (re_a e = u \<and> re_b e = v) \<or> (re_b e = u \<and> re_a e = v))"
  by (auto simp: edge_step_def edge_rel_def)

lemma neighbours_push: "neighbours (push_at i j adj) k = (if k = i then neighbours adj i @ [j] else neighbours adj k)"
  by (simp add: push_at_def neighbours_def)

lemma neighbours_start: "neighbours (map (\<lambda>i. (i, [])) active) k = []"
  by (induction active) (auto simp: neighbours_def)

lemma neighbours_edges:
  "set (neighbours (foldl (\<lambda>adj e. push_at (re_b e) (re_a e) (push_at (re_a e) (re_b e) adj)) adj edges) u) =
     set (neighbours adj u) \<union> {v. edge_step edges u v}"
  by (induction edges arbitrary: adj) (auto simp: neighbours_push edge_step_ex)

lemma adjacent_edges: "adjacent (adjacency_of active edges) = edge_step edges"
  by (intro ext) (simp add: adjacency_of_def neighbours_edges neighbours_start)

lemma walk_linked: "(\<exists>k. walk (edge_step edges) k s v) \<longleftrightarrow> (s, v) \<in> linked_edges edges"
proof
  assume "\<exists>k. walk (edge_step edges) k s v"
  then obtain k where "walk (edge_step edges) k s v" ..
  then show "(s, v) \<in> linked_edges edges"
    by (induction rule: walk.induct) (auto simp: edge_step_def intro: linked_trans linked_edge linked_edge_back)
next
  assume "(s, v) \<in> linked_edges edges"
  then show "\<exists>k. walk (edge_step edges) k s v"
    unfolding linked_def
    by (induction rule: rtrancl_induct) (auto simp: edge_step_def intro: walk.intros)
qed

section \<open>Indices and roots\<close>

lemma position_inj: "x \<in> set xs \<Longrightarrow> y \<in> set xs \<Longrightarrow> position_in xs x = position_in xs y \<longleftrightarrow> x = y"
  by (induction xs) auto

lemma position_less: "x \<in> set xs \<Longrightarrow> position_in xs x < length xs"
  by (induction xs) auto

lemma linked_image:
  assumes inj: "inj_on f X" and E: "E \<subseteq> X \<times> X" and ab: "a \<in> X" "b \<in> X"
  shows "(f a, f b) \<in> linked (map_prod f f ` E) \<longleftrightarrow> (a, b) \<in> linked E"
proof
  have "\<exists>b' \<in> X. y = f b' \<and> (a, b') \<in> linked E" if "(f a, y) \<in> linked (map_prod f f ` E)" for y
    using that unfolding linked_def[of "map_prod f f ` E"]
  proof (induction rule: rtrancl_induct)
    case base
    then show ?case using ab by auto
  next
    case (step y z)
    then obtain b' where b': "b' \<in> X" "y = f b'" "(a, b') \<in> linked E" by auto
    from step.hyps(2) obtain u v where uv: "(u, v) \<in> E \<union> E\<inverse>" "y = f u" "z = f v" by auto
    with E have "u \<in> X" "v \<in> X" by auto
    with uv b' inj have "u = b'" by (metis inj_onD)
    with uv b' have "(a, v) \<in> linked E" by (auto intro: linked_trans linked_edge linked_edge_back)
    with \<open>v \<in> X\<close> uv show ?case by auto
  qed
  moreover assume "(f a, f b) \<in> linked (map_prod f f ` E)"
  ultimately show "(a, b) \<in> linked E" using inj ab by (metis inj_onD)
next
  assume "(a, b) \<in> linked E"
  then show "(f a, f b) \<in> linked (map_prod f f ` E)"
    unfolding linked_def[of E]
  proof (induction rule: rtrancl_induct)
    case (step y z)
    then have "(f y, f z) \<in> linked (map_prod f f ` E)" by (force intro: linked_edge linked_edge_back)
    with step.IH show ?case by (rule linked_trans)
  qed simp
qed

lemma find_all_roots:
  assumes "uf_height p h" and "\<forall>x \<in> set xs. x < length p"
  shows "\<exists>rs p'. find_all xs p = Some (rs, p') \<and> list_all2 (uf_root p) xs rs"
  using assms
proof (induction xs arbitrary: p)
  case Nil
  then show ?case by simp
next
  case (Cons x xs)
  from uf_find_returns[OF Cons.prems(1), of x] Cons.prems(2) obtain r p1 where
    f: "uf_find p x = Some (r, p1)" "uf_root p x r" "uf_height p1 h" "length p1 = length p"
    and same: "\<And>y r. y < length p \<Longrightarrow> uf_root p1 y r = uf_root p y r" by auto
  from Cons.IH[OF f(3)] Cons.prems(2) f(4) obtain rs p2 where g: "find_all xs p1 = Some (rs, p2)" "list_all2 (uf_root p1) xs rs" by auto
  have "list_all2 (uf_root p) xs rs" using g(2) by (rule list.rel_mono_strong) (use Cons.prems(2) in \<open>simp add: same\<close>)
  with f g show ?case by auto
qed

lemma card_kernel:
  assumes "finite A"
  shows "card (f ` A) = card (A // {(x, y). x \<in> A \<and> y \<in> A \<and> f x = f y})"
proof -
  let ?R = "{(x, y). x \<in> A \<and> y \<in> A \<and> f x = f y}"
  have "?R `` {a} = {x \<in> A. f x = f a}" if "a \<in> A" for a using that by auto
  then have "A // ?R = (\<lambda>y. {x \<in> A. f x = y}) ` (f ` A)"
    by (simp add: quotient_def image_image UNION_singleton_eq_range)
  moreover have "inj_on (\<lambda>y. {x \<in> A. f x = y}) (f ` A)" by (auto simp: inj_on_def)
  ultimately show ?thesis by (simp add: card_image)
qed

lemma roots_count:
  assumes "list_all2 R xs rs" and "distinct ys" and "map f ys = xs"
    and "\<And>x r r'. R x r \<Longrightarrow> R x r' \<Longrightarrow> r' = r"
    and "\<And>a b. a \<in> set ys \<Longrightarrow> b \<in> set ys \<Longrightarrow> (\<exists>r. R (f a) r \<and> R (f b) r) \<longleftrightarrow> S a b"
  shows "length (remdups rs) = card (set ys // {(a, b). a \<in> set ys \<and> b \<in> set ys \<and> S a b})"
proof -
  define g where "g a = (SOME r. R (f a) r)" for a
  have g: "R (f a) (g a)" if "a \<in> set ys" for a
  proof -
    have "\<exists>r. R (f a) r" using that assms(1,3) by (force simp: list_all2_conv_all_nth in_set_conv_nth)
    then show ?thesis unfolding g_def by (rule someI_ex)
  qed
  have "map g ys = rs"
  proof (rule nth_equalityI)
    show "length (map g ys) = length rs" using assms(1,3) by (auto dest: list_all2_lengthD)
    fix i assume "i < length (map g ys)"
    then show "map g ys ! i = rs ! i"
      using assms(1,3,4) g[of "ys ! i"] by (auto simp: list_all2_conv_all_nth)
  qed
  then have "set rs = g ` set ys" by auto
  moreover have "g a = g b \<longleftrightarrow> S a b" if "a \<in> set ys" "b \<in> set ys" for a b
    using assms(4) assms(5)[OF that] g[OF that(1)] g[OF that(2)] by metis
  then have "{(a, b). a \<in> set ys \<and> b \<in> set ys \<and> g a = g b} = {(a, b). a \<in> set ys \<and> b \<in> set ys \<and> S a b}" by auto
  ultimately show ?thesis using card_kernel[of "set ys" g] by (simp add: length_remdups_card_conv)
qed

section \<open>The state is always computed\<close>

lemma active_in: "set (active_nodes ctx failed) \<subseteq> set (ids_of (cx_spec ctx))"
  by (auto simp: active_nodes_def ids_of_def)

lemma active_distinct: "distinct (ids_of (cx_spec ctx)) \<Longrightarrow> distinct (active_nodes ctx failed)"
  by (simp add: active_nodes_def ids_of_def distinct_map_filter)

lemma filterEdges_active: "e \<in> set (filterEdges ctx edges t active areas) \<Longrightarrow> re_a e \<in> set active \<and> re_b e \<in> set active"
  by (simp add: filterEdges_def Let_def)

text \<open>The unions of a context's edges return, and group the nodes as the edges link them.\<close>

lemma components_found:
  assumes ids: "distinct (ids_of (cx_spec ctx))" and sub: "set active \<subseteq> set (ids_of (cx_spec ctx))"
    and edges: "\<forall>e \<in> set edges. re_a e \<in> set active \<and> re_b e \<in> set active"
  shows "\<exists>p. uf_unions (pairs_of ctx edges) (uf_new (length (gs_nodes (cx_spec ctx)))) = Some p \<and> uf_ok p \<and>
    length p = length (gs_nodes (cx_spec ctx)) \<and>
    (\<forall>a \<in> set active. \<forall>b \<in> set active. uf_same p (index_in ctx a) (index_in ctx b) = ((a, b) \<in> linked_edges edges))"
proof -
  let ?ids = "ids_of (cx_spec ctx)" and ?n = "length (gs_nodes (cx_spec ctx))"
  have less: "i \<in> set ?ids \<Longrightarrow> index_in ctx i < ?n" for i
    using position_less[of i ?ids] by (simp add: index_in_def) (simp add: ids_of_def)
  have bounds: "\<forall>(a, b) \<in> set (pairs_of ctx edges). a < ?n \<and> b < ?n"
    using edges sub less by (auto simp: pairs_of_def)
  have inj: "inj_on (index_in ctx) (set ?ids)" by (auto simp: inj_on_def index_in_def position_inj)
  have rel: "set (pairs_of ctx edges) = map_prod (index_in ctx) (index_in ctx) ` edge_rel edges"
    by (auto simp: pairs_of_def edge_rel_def)
  from uf_unions_linked[OF uf_new_ok(1)[of ?n], of "pairs_of ctx edges" "{}"] bounds obtain p where
    p: "uf_unions (pairs_of ctx edges) (uf_new ?n) = Some p" "uf_ok p" "length p = ?n"
    "\<And>x y. x < ?n \<Longrightarrow> y < ?n \<Longrightarrow> uf_same p x y = ((x, y) \<in> linked (set (pairs_of ctx edges)))"
    by (auto simp: uf_new_ok uf_new_same)
  have "uf_same p (index_in ctx a) (index_in ctx b) = ((a, b) \<in> linked_edges edges)"
    if "a \<in> set active" "b \<in> set active" for a b
    using p(4)[OF less less] that sub edges linked_image[OF inj, of "edge_rel edges" a b]
    by (auto simp: rel edge_rel_def)
  with p show ?thesis by auto
qed

lemma hops_exact:
  "map_of (hop_search (adjacency_of active edges) (filter P active)) i = Some d \<longleftrightarrow>
     (\<exists>s \<in> set active. P s \<and> walk (edge_step edges) d s i) \<and>
     (\<forall>k. \<forall>s \<in> set active. P s \<longrightarrow> walk (edge_step edges) k s i \<longrightarrow> d \<le> k)"
  by (auto simp: hop_search_exact adjacent_edges)

lemma hops_marked:
  "map_of (hop_search (adjacency_of active edges) (filter P active)) i \<noteq> None \<longleftrightarrow>
     (\<exists>s \<in> set active. P s \<and> (s, i) \<in> linked_edges edges)"
proof
  assume "map_of (hop_search (adjacency_of active edges) (filter P active)) i \<noteq> None"
  then show "\<exists>s \<in> set active. P s \<and> (s, i) \<in> linked_edges edges" using walk_linked by (force simp: hops_exact)
next
  assume "\<exists>s \<in> set active. P s \<and> (s, i) \<in> linked_edges edges"
  then have ex: "\<exists>k. \<exists>s \<in> set active. P s \<and> walk (edge_step edges) k s i" using walk_linked by metis
  define d where "d = (LEAST k. \<exists>s \<in> set active. P s \<and> walk (edge_step edges) k s i)"
  have "\<exists>s \<in> set active. P s \<and> walk (edge_step edges) d s i" unfolding d_def by (rule LeastI_ex[OF ex])
  moreover have "d \<le> k" if "s \<in> set active" "P s" "walk (edge_step edges) k s i" for k s
    unfolding d_def by (rule Least_le) (use that in auto)
  ultimately have "map_of (hop_search (adjacency_of active edges) (filter P active)) i = Some d" by (simp add: hops_exact)
  then show "map_of (hop_search (adjacency_of active edges) (filter P active)) i \<noteq> None" by simp
qed

definition state_exact :: "res_context \<Rightarrow> res_state \<Rightarrow> bool" where
  "state_exact ctx st \<longleftrightarrow>
     (\<forall>i d. map_of (st_hops st) i = Some d \<longleftrightarrow>
        (\<exists>s \<in> set (st_active st). isSink ctx s \<and> walk (edge_step (st_edges st)) d s i) \<and>
        (\<forall>k. \<forall>s \<in> set (st_active st). isSink ctx s \<longrightarrow> walk (edge_step (st_edges st)) k s i \<longrightarrow> d \<le> k)) \<and>
     (\<forall>i. i \<in> set (st_connected st) \<longleftrightarrow> (\<exists>s \<in> set (st_active st). isSink ctx s \<and> (s, i) \<in> linked_edges (st_edges st))) \<and>
     st_fragments st = card (set (st_active st) //
       {(a, b). a \<in> set (st_active st) \<and> b \<in> set (st_active st) \<and> (a, b) \<in> linked_edges (st_edges st)})"

lemma stateFromEdges_exact:
  assumes ids: "distinct (ids_of (cx_spec ctx))" and sub: "set active \<subseteq> set (ids_of (cx_spec ctx))" "distinct active"
    and edges: "\<forall>e \<in> set edges. re_a e \<in> set active \<and> re_b e \<in> set active"
  shows "\<exists>st. stateFromEdges ctx active edges = Inr st \<and> st_active st = active \<and> st_edges st = edges \<and>
    st_degree st = degrees_of active edges \<and> state_exact ctx st"
proof -
  let ?n = "length (gs_nodes (cx_spec ctx))"
  from components_found[OF ids sub(1) edges] obtain p where
    p: "uf_unions (pairs_of ctx edges) (uf_new ?n) = Some p" "uf_ok p" "length p = ?n"
    "\<And>a b. a \<in> set active \<Longrightarrow> b \<in> set active \<Longrightarrow> uf_same p (index_in ctx a) (index_in ctx b) = ((a, b) \<in> linked_edges edges)"
    by blast
  obtain h where h: "uf_height p h" using p(2) by (auto simp: uf_ok_def)
  have "\<forall>x \<in> set (map (index_in ctx) active). x < length p"
    using sub position_less[of _ "ids_of (cx_spec ctx)"] p(3) by (auto simp: index_in_def ids_of_def)
  from find_all_roots[OF h this] obtain rs p' where r: "find_all (map (index_in ctx) active) p = Some (rs, p')"
    "list_all2 (uf_root p) (map (index_in ctx) active) rs" by blast
  have count: "length (remdups rs) = card (set active // {(a, b). a \<in> set active \<and> b \<in> set active \<and> (a, b) \<in> linked_edges edges})"
    by (rule roots_count[OF r(2) sub(2) refl]) (auto dest: uf_root_unique simp: p(4)[unfolded uf_same_def])
  define st where "st = \<lparr>st_active = active, st_edges = edges, st_degree = degrees_of active edges,
    st_connected = map fst (hop_search (adjacency_of active edges) (filter (isSink ctx) active)),
    st_hops = hop_search (adjacency_of active edges) (filter (isSink ctx) active), st_fragments = length (remdups rs)\<rparr>"
  have "stateFromEdges ctx active edges = Inr st" using p(1) r(1) by (simp add: stateFromEdges_def st_def Let_def)
  moreover have "state_exact ctx st"
    unfolding state_exact_def using hops_marked[of active edges "isSink ctx"] hops_exact[of active edges "isSink ctx"] count
    by (auto simp: st_def map_of_eq_None_iff image_iff)
  ultimately show ?thesis by (auto simp: st_def)
qed

lemma computeState_exact:
  assumes "distinct (ids_of (cx_spec ctx))"
  shows "\<exists>st. computeState ctx failed areas = Inr st \<and> st_active st = active_nodes ctx failed \<and>
    st_edges st = filterEdges ctx (gs_edges (cx_spec ctx)) (case gs_atS (cx_spec ctx) of Some t \<Rightarrow> t | None \<Rightarrow> 0)
      (active_nodes ctx failed) areas \<and>
    st_degree st = degrees_of (st_active st) (st_edges st) \<and> state_exact ctx st"
proof -
  let ?E = "filterEdges ctx (gs_edges (cx_spec ctx)) (case gs_atS (cx_spec ctx) of Some t \<Rightarrow> t | None \<Rightarrow> 0)
    (active_nodes ctx failed) areas"
  have "\<forall>e \<in> set ?E. re_a e \<in> set (active_nodes ctx failed) \<and> re_b e \<in> set (active_nodes ctx failed)"
    using filterEdges_active by blast
  from stateFromEdges_exact[OF assms active_in active_distinct[OF assms] this] show ?thesis
    by (auto simp: computeState_def Let_def)
qed

section \<open>The context\<close>

lemma first_duplicate_None: "first_duplicate seen is = None \<longleftrightarrow> distinct is \<and> set is \<inter> set seen = {}"
  by (induction "is" arbitrary: seen) auto

text \<open>What the constructor of a context checked.\<close>

lemma context_created:
  assumes "createResilienceContext spec = Inr ctx"
  shows "cx_spec ctx = spec" "distinct (ids_of (cx_spec ctx))" "isSink ctx = isSink (bare_context spec)"
    "\<forall>e \<in> set (gs_edges spec). re_a e \<in> set (ids_of spec) \<and> re_b e \<in> set (ids_of spec)"
    "computeState (bare_context spec) [] [] = Inr (cx_baseline ctx)" "ctx = (bare_context spec)\<lparr>cx_baseline := cx_baseline ctx\<rparr>"
  using assms
  by (auto simp: createResilienceContext_def bare_context_def first_duplicate_None find_None_iff isSink_def kind_of_def fun_eq_iff
      split: option.splits sum.splits)

lemma baseline_irrelevant:
  "computeState (c\<lparr>cx_baseline := b\<rparr>) failed areas = computeState c failed areas"
  "state_exact (c\<lparr>cx_baseline := b\<rparr>) st = state_exact c st"
proof -
  have [simp]: "isSink (c\<lparr>cx_baseline := b\<rparr>) = isSink c" "index_in (c\<lparr>cx_baseline := b\<rparr>) = index_in c"
    "active_nodes (c\<lparr>cx_baseline := b\<rparr>) = active_nodes c" "filterEdges (c\<lparr>cx_baseline := b\<rparr>) = filterEdges c"
    by (auto simp: isSink_def kind_of_def index_in_def active_nodes_def filterEdges_def edge_survives_def fun_eq_iff
        split: list.splits option.splits)
  show "computeState (c\<lparr>cx_baseline := b\<rparr>) failed areas = computeState c failed areas"
    by (simp add: computeState_def stateFromEdges_def pairs_of_def cong: option.case_cong)
  show "state_exact (c\<lparr>cx_baseline := b\<rparr>) st = state_exact c st" by (simp add: state_exact_def)
qed

lemma baseline_state: "createResilienceContext spec = Inr ctx \<Longrightarrow> computeState ctx [] [] = Inr (cx_baseline ctx)"
  using context_created(5,6) baseline_irrelevant(1) by metis

text \<open>C13: In every context the constructor accepts, the state after any failures is computed (the union-find never loops), lists the
  nodes that are neither inactive nor failed, and is exact: the hops of a node are the length of its shortest route to an active
  sink over the surviving edges, a node is connected exactly when such a route exists, and the fragments count the connected
  components.\<close>

theorem network_state_exact:
  assumes "createResilienceContext spec = Inr ctx"
  shows "\<exists>st. computeState ctx failed areas = Inr st \<and> st_active st = active_nodes ctx failed \<and> state_exact ctx st"
  using computeState_exact[OF context_created(2)[OF assms]] by blast

definition demo_edge :: "string \<Rightarrow> string \<Rightarrow> edge" where
  "demo_edge a b = \<lparr>re_a = a, re_b = b, re_tech = Lora, re_rateBps = 100, re_ax = Some 0, re_ay = Some 0, re_bx = Some 4, re_by = Some 0\<rparr>"

definition demo_spec :: graph_spec where
  "demo_spec = \<lparr>gs_nodes = [\<lparr>rn_id = ''box'', rn_kind = BoxNode, rn_inactive = False\<rparr>,
       \<lparr>rn_id = ''hub'', rn_kind = RelayNode, rn_inactive = False\<rparr>, \<lparr>rn_id = ''card'', rn_kind = CardNode, rn_inactive = False\<rparr>],
     gs_edges = [demo_edge ''box'' ''hub'', demo_edge ''hub'' ''card''], gs_atS = None, gs_sinkKinds = None, gs_scoreKinds = None,
     gs_coverage = None, gs_timeline = None, gs_positions = None, gs_frame = None, gs_reevaluate = None, gs_localeCompare = (\<lambda>_ _. 0)\<rparr>"

lemma demo_created: "\<exists>ctx. createResilienceContext demo_spec = Inr ctx"
proof -
  have "distinct (ids_of (cx_spec (bare_context demo_spec)))" by (simp add: bare_context_def demo_spec_def ids_of_def)
  from computeState_exact[OF this, of "[]" "[]"] obtain st where "computeState (bare_context demo_spec) [] [] = Inr st" by blast
  moreover have "first_duplicate [] (ids_of demo_spec) = None"
    "find (\<lambda>e. re_a e \<notin> set (ids_of demo_spec) \<or> re_b e \<notin> set (ids_of demo_spec)) (gs_edges demo_spec) = None"
    by (simp_all add: demo_spec_def ids_of_def demo_edge_def)
  ultimately show ?thesis unfolding createResilienceContext_def by simp
qed

lemma network_state_exact_witness:
  "\<exists>ctx st. createResilienceContext demo_spec = Inr ctx \<and> computeState ctx [''hub''] [] = Inr st \<and> st_active st = [''box'', ''card''] \<and>
     state_exact ctx st"
proof -
  obtain ctx where c: "createResilienceContext demo_spec = Inr ctx" using demo_created ..
  have "active_nodes ctx [''hub''] = [''box'', ''card'']"
    using context_created(1)[OF c] by (simp add: active_nodes_def demo_spec_def)
  with network_state_exact[OF c, of "[''hub'']" "[]"] c show ?thesis by auto
qed

section \<open>Failures\<close>

lemma edge_rel_mono: "set E \<subseteq> set F \<Longrightarrow> edge_rel E \<subseteq> edge_rel F"
  by (auto simp: edge_rel_def)

lemma exact_hopsD:
  assumes "state_exact ctx st" and "map_of (st_hops st) i = Some d"
  obtains s where "s \<in> set (st_active st)" "isSink ctx s" "walk (edge_step (st_edges st)) d s i"
  using assms unfolding state_exact_def by meson

lemma exact_hops_le:
  assumes st: "state_exact ctx st" and s: "s \<in> set (st_active st)" "isSink ctx s" "walk (edge_step (st_edges st)) d s i"
  shows "\<exists>d'. map_of (st_hops st) i = Some d' \<and> d' \<le> d"
proof -
  define P where "P k = (\<exists>s \<in> set (st_active st). isSink ctx s \<and> walk (edge_step (st_edges st)) k s i)" for k
  from s have Pd: "P d" by (auto simp: P_def)
  have "map_of (st_hops st) i = Some e \<longleftrightarrow> P e \<and> (\<forall>k. P k \<longrightarrow> e \<le> k)" for e
    using st unfolding state_exact_def P_def by meson
  then have "map_of (st_hops st) i = Some (LEAST k. P k)" using LeastI[of P, OF Pd] Least_le[of P] by simp
  with Least_le[of P, OF Pd] show ?thesis by simp
qed

lemma exact_connected:
  "state_exact ctx st \<Longrightarrow> i \<in> set (st_connected st) \<longleftrightarrow>
    (\<exists>s \<in> set (st_active st). isSink ctx s \<and> (s, i) \<in> linked_edges (st_edges st))"
  by (simp add: state_exact_def)

lemma exact_mono:
  assumes st: "state_exact ctx st" and st': "state_exact ctx st'"
    and sub: "set (st_active st) \<subseteq> set (st_active st')" "set (st_edges st) \<subseteq> set (st_edges st')"
  shows "set (st_connected st) \<subseteq> set (st_connected st')"
    and "map_of (st_hops st) i = Some d \<Longrightarrow> \<exists>d'. map_of (st_hops st') i = Some d' \<and> d' \<le> d"
proof -
  have "linked_edges (st_edges st) \<subseteq> linked_edges (st_edges st')" by (rule linked_mono[OF edge_rel_mono[OF sub(2)]])
  then show "set (st_connected st) \<subseteq> set (st_connected st')"
    using sub(1) unfolding subset_iff exact_connected[OF st] exact_connected[OF st'] by blast
  assume "map_of (st_hops st) i = Some d"
  then obtain s where s: "s \<in> set (st_active st)" "isSink ctx s" "walk (edge_step (st_edges st)) d s i"
    by (rule exact_hopsD[OF st])
  have "walk (edge_step (st_edges st')) d s i"
    using s(3) by (rule walk_mono) (use edge_rel_mono[OF sub(2)] in \<open>auto simp: edge_step_def\<close>)
  then show "\<exists>d'. map_of (st_hops st') i = Some d' \<and> d' \<le> d" using s sub(1) by (intro exact_hops_le[OF st']) auto
qed

lemma filterEdges_failures:
  assumes "set active \<subseteq> set active'"
  shows "set (filterEdges ctx edges t active areas) \<subseteq> set (filterEdges ctx edges t active' [])"
  using assms by (auto simp: filterEdges_def Let_def edge_survives_def)

text \<open>A failure only takes away: whatever nodes fail and whatever areas block radio paths, the active nodes and the edges are among
  those of the baseline, no node becomes connected that was not, and no route to a sink gets shorter.\<close>

theorem failure_only_disconnects:
  assumes ctx: "createResilienceContext spec = Inr ctx" and st: "computeState ctx failed areas = Inr st"
  shows "set (st_active st) \<subseteq> set (st_active (cx_baseline ctx)) \<and> set (st_edges st) \<subseteq> set (st_edges (cx_baseline ctx)) \<and>
    set (st_connected st) \<subseteq> set (st_connected (cx_baseline ctx)) \<and>
    (\<forall>i d. map_of (st_hops st) i = Some d \<longrightarrow> (\<exists>d'. map_of (st_hops (cx_baseline ctx)) i = Some d' \<and> d' \<le> d))"
proof -
  note exact = computeState_exact[OF context_created(2)[OF ctx]]
  from exact[of failed areas] exact[of "[]" "[]"] st baseline_state[OF ctx] have
    a: "st_active st = active_nodes ctx failed" "st_active (cx_baseline ctx) = active_nodes ctx []"
    and e: "st_edges st = filterEdges ctx (gs_edges (cx_spec ctx)) (case gs_atS (cx_spec ctx) of Some t \<Rightarrow> t | None \<Rightarrow> 0)
        (active_nodes ctx failed) areas"
      "st_edges (cx_baseline ctx) = filterEdges ctx (gs_edges (cx_spec ctx)) (case gs_atS (cx_spec ctx) of Some t \<Rightarrow> t | None \<Rightarrow> 0)
        (active_nodes ctx []) []"
    and x: "state_exact ctx st" "state_exact ctx (cx_baseline ctx)"
    by auto
  have sub: "set (st_active st) \<subseteq> set (st_active (cx_baseline ctx))" by (auto simp: a active_nodes_def)
  moreover from this have "set (st_edges st) \<subseteq> set (st_edges (cx_baseline ctx))"
    unfolding a e by (rule filterEdges_failures)
  ultimately show ?thesis using exact_mono[OF x] by blast
qed

lemma failure_only_disconnects_witness:
  "\<exists>ctx st. createResilienceContext demo_spec = Inr ctx \<and> computeState ctx [''hub''] [] = Inr st \<and>
     set (st_connected st) \<subseteq> set (st_connected (cx_baseline ctx))"
proof -
  obtain ctx where c: "createResilienceContext demo_spec = Inr ctx" using demo_created ..
  obtain st where "computeState ctx [''hub''] [] = Inr st" using computeState_exact[OF context_created(2)[OF c]] by blast
  with failure_only_disconnects[OF c this] c show ?thesis by blast
qed

end
