(* ===== verification/ResilienceReport.thy ===== *)
theory ResilienceReport
  imports ResilienceState
begin

text \<open>
  The reports of the resilience engine (\<open>tools/scenario-model/resilience.ts\<close>): what a failure does to the
  network, which nodes recover through a sequence of contacts in time, who depends on whom, and the resilience
  score. \<open>Record\<close>s indexed by a node's id are maps of their own keys.
\<close>

section \<open>Coverage\<close>

record coverage_fractions =
  cr_connected :: "nat list"
  cr_radio :: "nat list"
  cr_connectedFrac :: rat
  cr_radioFrac :: rat

definition cell_of :: "nat list \<Rightarrow> nat \<Rightarrow> nat" where
  "cell_of xs i = (if i < length xs then xs ! i else 0)"

definition paint :: "nat list \<Rightarrow> nat list \<Rightarrow> nat list \<Rightarrow> nat list" where
  "paint land halo cells = map (\<lambda>i. if cell_of halo i \<noteq> 0 \<and> cell_of land i \<noteq> 0 then 1 else cell_of cells i) [0..<length land]"

definition cover_node :: "res_coverage \<Rightarrow> res_state \<Rightarrow> nat list \<times> nat list \<Rightarrow> string \<Rightarrow> nat list \<times> nat list" where
  "cover_node cov st masks i = (case (map_of (cov_halos cov) i, masks) of
     (None, _) \<Rightarrow> masks
   | (Some halo, (conn, rad)) \<Rightarrow>
       (if i \<in> set (st_connected st) then paint (cov_land cov) halo conn else conn, paint (cov_land cov) halo rad))"

definition coverageFractions :: "res_context \<Rightarrow> res_state \<Rightarrow> coverage_fractions option" where
  "coverageFractions ctx st = (case gs_coverage (cx_spec ctx) of None \<Rightarrow> None
   | Some cov \<Rightarrow>
       (let zero = replicate (length (cov_land cov)) 0;
            (conn, rad) = foldl (cover_node cov st) (zero, zero) (st_active st);
            land = sum_list (cov_land cov)
        in Some \<lparr>cr_connected = conn, cr_radio = rad,
             cr_connectedFrac = (if land = 0 then 0 else of_nat (sum_list conn) / of_nat land),
             cr_radioFrac = (if land = 0 then 0 else of_nat (sum_list rad) / of_nat land)\<rparr>))"

section \<open>Opportunistic arrivals\<close>

text \<open>The members of the components: the active nodes grouped by the root of their index.\<close>

definition members :: "('k, 'v list) jsmap \<Rightarrow> 'k \<Rightarrow> 'v list" where
  "members m r = (case map_of m r of Some l \<Rightarrow> l | None \<Rightarrow> [])"

definition group_by_root :: "(nat \<times> string) list \<Rightarrow> (nat, string list) jsmap" where
  "group_by_root xs = foldl (\<lambda>m (r, i). map_put r (members m r @ [i]) m) [] xs"

definition components_at :: "res_context \<Rightarrow> string list \<Rightarrow> edge list \<Rightarrow> string list list option" where
  "components_at ctx active edges = do {
     p \<leftarrow> uf_unions (pairs_of ctx edges) (uf_new (length (gs_nodes (cx_spec ctx))));
     (roots, q) \<leftarrow> find_all (map (index_in ctx) active) p;
     Some (map snd (group_by_root (zip roots active))) }"

definition spread :: "string list list \<Rightarrow> string list \<Rightarrow> string list" where
  "spread comps mine =
     foldl (\<lambda>mine comp. if list_ex (\<lambda>i. i \<in> set mine) comp then foldl (\<lambda>m i. set_add i m) mine comp else mine) mine comps"

record opportunity =
  op_reached :: "(string, string list) jsmap"
  op_pending :: "string list"
  op_result :: "(string, rat) jsmap"

definition opp_source :: "res_context \<Rightarrow> string list list \<Rightarrow> rat \<Rightarrow> opportunity \<Rightarrow> string \<Rightarrow> opportunity" where
  "opp_source ctx comps arrival op src =
     (let mine = spread comps (case map_of (op_reached op) src of Some m \<Rightarrow> m | None \<Rightarrow> []);
          op1 = op\<lparr>op_reached := map_put src mine (op_reached op)\<rparr>
      in if list_ex (isSink ctx) mine
         then op1\<lparr>op_result := map_put src arrival (op_result op), op_pending := filter (\<lambda>s. s \<noteq> src) (op_pending op)\<rparr>
         else op1)"

fun opp_steps :: "res_context \<Rightarrow> string list \<Rightarrow> resolved_area list \<Rightarrow> rat \<Rightarrow> (rat \<times> edge list) list \<Rightarrow> opportunity \<Rightarrow> res_error + opportunity" where
  "opp_steps ctx active areas startT [] op = Inr op"
| "opp_steps ctx active areas startT ((t, edges) # steps) op =
     (if op_pending op = [] then Inr op
      else if t < startT then opp_steps ctx active areas startT steps op
      else (case components_at ctx active (filterEdges ctx edges t active areas) of
        None \<Rightarrow> Inl Hangs
      | Some comps \<Rightarrow>
          opp_steps ctx active areas startT steps (foldl (opp_source ctx comps (t - startT)) op (op_pending op))))"

definition start_time :: "graph_spec \<Rightarrow> res_timeline \<Rightarrow> rat" where
  "start_time spec line = max (tl_fromS line) (case gs_atS spec of Some t \<Rightarrow> t | None \<Rightarrow> tl_fromS line)"

definition opportunisticArrivals ::
  "res_context \<Rightarrow> string list \<Rightarrow> resolved_area list \<Rightarrow> string list \<Rightarrow> res_error + (string, rat) jsmap" where
  "opportunisticArrivals ctx failed areas sources = (case gs_timeline (cx_spec ctx) of None \<Rightarrow> Inr []
   | Some line \<Rightarrow>
       if sources = [] then Inr []
       else (case opp_steps ctx (active_nodes ctx failed) areas (start_time (cx_spec ctx) line) (tl_steps line)
                    \<lparr>op_reached = foldl (\<lambda>m s. map_put s [s] m) [] sources, op_pending = foldl (\<lambda>xs s. set_add s xs) [] sources,
                     op_result = []\<rparr> of
           Inl e \<Rightarrow> Inl e | Inr op \<Rightarrow> Inr (op_result op)))"

section \<open>Critical dependencies\<close>

record dependency =
  dp_id :: string
  dp_kind :: "node_kind option"
  dp_dependents :: "string list"
  dp_phoneDependents :: "string list"
  dp_coverageLoss :: rat

definition coverage_loss :: "coverage_fractions option \<Rightarrow> coverage_fractions option \<Rightarrow> rat" where
  "coverage_loss before after = (case (before, after) of
     (Some b, Some a) \<Rightarrow> max 0 (cr_connectedFrac b - cr_connectedFrac a) | _ \<Rightarrow> 0)"

definition dependency_of ::
  "res_context \<Rightarrow> string list \<Rightarrow> resolved_area list \<Rightarrow> res_state \<Rightarrow> string \<Rightarrow> res_error + dependency" where
  "dependency_of ctx failed areas state i = (case computeState ctx (set_add i failed) areas of
     Inl e \<Rightarrow> Inl e
   | Inr st \<Rightarrow>
       (let lost = filter (\<lambda>x. x \<noteq> i \<and> x \<notin> set (st_connected st)) (st_connected state)
        in Inr \<lparr>dp_id = i, dp_kind = kind_of ctx i, dp_dependents = filter (\<lambda>x. kind_of ctx x \<noteq> Some PhoneNode) lost,
             dp_phoneDependents = filter (\<lambda>x. kind_of ctx x = Some PhoneNode) lost,
             dp_coverageLoss = coverage_loss (coverageFractions ctx state) (coverageFractions ctx st)\<rparr>))"

definition worse_first :: "(string \<Rightarrow> string \<Rightarrow> rat) \<Rightarrow> (nat \<times> rat \<times> nat \<times> string) \<Rightarrow> (nat \<times> rat \<times> nat \<times> string) \<Rightarrow> rat" where
  "worse_first cmp a b = (case (a, b) of ((na, la, pa, ia), (nb, lb, pb, ib)) \<Rightarrow>
     or_else (of_nat nb - of_nat na) (or_else (lb - la) (or_else (of_nat pb - of_nat pa) (cmp ia ib))))"

definition dependency_key :: "dependency \<Rightarrow> nat \<times> rat \<times> nat \<times> string" where
  "dependency_key d = (length (dp_dependents d), dp_coverageLoss d, length (dp_phoneDependents d), dp_id d)"

definition dependenciesOf ::
  "res_context \<Rightarrow> string list \<Rightarrow> resolved_area list \<Rightarrow> res_state \<Rightarrow> res_error + dependency list" where
  "dependenciesOf ctx failed areas state = (case try_map (dependency_of ctx failed areas state) (st_active state) of
     Inl e \<Rightarrow> Inl e
   | Inr ds \<Rightarrow> Inr (sort_by (\<lambda>a b. worse_first (gs_localeCompare (cx_spec ctx)) (dependency_key a) (dependency_key b))
       (filter (\<lambda>d. dp_dependents d \<noteq> []) ds)))"

definition criticalDependencies :: "res_context \<Rightarrow> res_error + dependency list" where
  "criticalDependencies ctx = dependenciesOf ctx [] [] (cx_baseline ctx)"

section \<open>Failures\<close>

fun named_failures :: "res_context \<Rightarrow> string list \<Rightarrow> string list \<Rightarrow> res_error + string list" where
  "named_failures ctx [] failed = Inr failed"
| "named_failures ctx (i # is) failed =
     (if i \<notin> set (ids_of (cx_spec ctx)) then Inl (UnknownFailedNode i) else named_failures ctx is (set_add i failed))"

fun area_failures :: "res_context \<Rightarrow> resolved_area list \<Rightarrow> string list \<Rightarrow> res_error + string list" where
  "area_failures ctx [] failed = Inr failed"
| "area_failures ctx (a # as) failed =
     (if \<not> ra_failNodes a then area_failures ctx as failed
      else (case gs_positions (cx_spec ctx) of None \<Rightarrow> Inl PositionsRequired
        | Some ps \<Rightarrow> area_failures ctx as (foldl (\<lambda>f (i, (x, y)). if pointInArea a x y then set_add i f else f) failed ps)))"

definition resolveFailed :: "res_context \<Rightarrow> failure_spec \<Rightarrow> resolved_area list \<Rightarrow> res_error + string list" where
  "resolveFailed ctx spec areas =
     (case named_failures ctx (case fs_nodes spec of Some ns \<Rightarrow> ns | None \<Rightarrow> []) [] of
        Inl e \<Rightarrow> Inl e | Inr failed \<Rightarrow> area_failures ctx areas failed)"

datatype node_status = StFailed | StConnected | StRecoverable | StCutOff | StIsolated

record recoverable_node =
  rc_id :: string
  rc_arrivalS :: rat
  rc_newlyCutOff :: bool

record rerouted_node =
  rr_id :: string
  rr_hopsBefore :: nat
  rr_hopsAfter :: nat

record failure_report =
  fr_failed :: "string list"
  fr_states :: "(string, node_status) jsmap"
  fr_total :: nat
  fr_activeBefore :: nat
  fr_activeAfter :: nat
  fr_connectionsBefore :: nat
  fr_connectionsAfter :: nat
  fr_fragmentsBefore :: nat
  fr_fragmentsAfter :: nat
  fr_isolated :: "string list"
  fr_cutOff :: "string list"
  fr_recoverable :: "recoverable_node list"
  fr_rerouted :: "rerouted_node list"
  fr_coverage :: "(coverage_fractions \<times> coverage_fractions) option"
  fr_lostCells :: "nat list"
  fr_dependencies :: "dependency list"
  fr_opportunistic :: bool

text \<open>One turn of the loop over the nodes: the states so far and the nodes that are active but not connected.\<close>

definition classify_node :: "string list \<Rightarrow> res_state \<Rightarrow> (string, node_status) jsmap \<times> string list \<Rightarrow> res_node \<Rightarrow>
    (string, node_status) jsmap \<times> string list" where
  "classify_node failed after acc n = (case acc of (states, notConnected) \<Rightarrow>
     if rn_id n \<in> set failed then (map_put (rn_id n) StFailed states, notConnected)
     else if rn_inactive n then (map_put (rn_id n) StFailed states, notConnected)
     else if rn_id n \<in> set (st_connected after) then (map_put (rn_id n) StConnected states, notConnected)
     else (map_put (rn_id n) (if map_of (st_degree after) (rn_id n) = Some 0 then StIsolated else StCutOff) states,
       notConnected @ [rn_id n]))"

definition rerouted_of :: "string list \<Rightarrow> res_state \<Rightarrow> res_state \<Rightarrow> rerouted_node list" where
  "rerouted_of failed before after = List.map_filter (\<lambda>i.
     case (map_of (st_hops before) i, map_of (st_hops after) i) of
       (Some hb, Some ha) \<Rightarrow> if hb \<noteq> ha \<and> i \<notin> set failed
         then Some \<lparr>rr_id = i, rr_hopsBefore = hb, rr_hopsAfter = ha\<rparr> else None
     | _ \<Rightarrow> None) (st_connected after)"

definition lost_cells :: "coverage_fractions option \<Rightarrow> coverage_fractions option \<Rightarrow> nat list" where
  "lost_cells before after = (case (before, after) of
     (Some b, Some a) \<Rightarrow> filter (\<lambda>i. cr_connected b ! i \<noteq> 0 \<and> cell_of (cr_connected a) i = 0) [0..<length (cr_connected b)]
   | _ \<Rightarrow> [])"

definition failure_report_of ::
  "res_context \<Rightarrow> string list \<Rightarrow> res_state \<Rightarrow> (string, rat) jsmap \<Rightarrow> dependency list \<Rightarrow> failure_report" where
  "failure_report_of ctx failed after arrivals deps =
     (let spec = cx_spec ctx; cmp = gs_localeCompare spec; before = cx_baseline ctx;
          (states, notConnected) = foldl (classify_node failed after) ([], []) (gs_nodes spec);
          covB = coverageFractions ctx before; covA = coverageFractions ctx after
      in \<lparr>fr_failed = failed,
          fr_states = foldl (\<lambda>m (i, t). map_put i StRecoverable m) states arrivals,
          fr_total = length (gs_nodes spec), fr_activeBefore = length (st_active before), fr_activeAfter = length (st_active after),
          fr_connectionsBefore = length (st_edges before), fr_connectionsAfter = length (st_edges after),
          fr_fragmentsBefore = st_fragments before, fr_fragmentsAfter = st_fragments after,
          fr_isolated = filter (\<lambda>i. map_of (st_degree after) i = Some 0) notConnected,
          fr_cutOff = filter (\<lambda>i. i \<in> set (st_connected before)) notConnected,
          fr_recoverable = sort_by (\<lambda>a b. or_else (rc_arrivalS a - rc_arrivalS b) (cmp (rc_id a) (rc_id b)))
            (map (\<lambda>(i, t). \<lparr>rc_id = i, rc_arrivalS = t, rc_newlyCutOff = i \<in> set (st_connected before)\<rparr>) arrivals),
          fr_rerouted = sort_by (\<lambda>a b. cmp (rr_id a) (rr_id b)) (rerouted_of failed before after),
          fr_coverage = (case (covB, covA) of (Some b, Some a) \<Rightarrow> Some (b, a) | _ \<Rightarrow> None),
          fr_lostCells = lost_cells covB covA,
          fr_dependencies = deps,
          fr_opportunistic = (gs_timeline spec \<noteq> None)\<rparr>)"

definition evaluateFailure :: "res_context \<Rightarrow> failure_spec \<Rightarrow> bool \<Rightarrow> res_error + failure_report" where
  "evaluateFailure ctx spec dependencies =
     (case resolveAreas ctx (fs_areas spec) of Inl e \<Rightarrow> Inl e
      | Inr areas \<Rightarrow> (case resolveFailed ctx spec areas of Inl e \<Rightarrow> Inl e
      | Inr failed \<Rightarrow> (case computeState ctx failed areas of Inl e \<Rightarrow> Inl e
      | Inr after \<Rightarrow>
          (let notConnected = snd (foldl (classify_node failed after) ([], []) (gs_nodes (cx_spec ctx)))
           in case opportunisticArrivals ctx failed areas notConnected of Inl e \<Rightarrow> Inl e
      | Inr arrivals \<Rightarrow> (case (if dependencies then dependenciesOf ctx failed areas after else Inr []) of Inl e \<Rightarrow> Inl e
      | Inr deps \<Rightarrow> Inr (failure_report_of ctx failed after arrivals deps))))))"

definition residualEdges :: "res_context \<Rightarrow> failure_spec \<Rightarrow> res_error + edge list" where
  "residualEdges ctx spec =
     (case resolveAreas ctx (fs_areas spec) of Inl e \<Rightarrow> Inl e
      | Inr areas \<Rightarrow> (case resolveFailed ctx spec areas of Inl e \<Rightarrow> Inl e
      | Inr failed \<Rightarrow> (case computeState ctx failed areas of Inl e \<Rightarrow> Inl e | Inr st \<Rightarrow> Inr (st_edges st))))"

end
