(* ===== verification/ResilienceArrivals.thy ===== *)
theory ResilienceArrivals
  imports ResilienceReport
begin

text \<open>
  What the opportunistic arrivals mean. The specification \<open>first_contact\<close> carries a set of nodes through the
  graphs of the snapshots: in each one everything linked to a carrier becomes a carrier. The union-find groups of
  \<open>opportunisticArrivals\<close> compute exactly that, for every source, and never loop.
\<close>

section \<open>The groups of a snapshot\<close>

lemma distinct_put: "distinct (map fst m) \<Longrightarrow> distinct (map fst (map_put k v m))"
  by (rule distinct_update)

lemma members_simps [simp]: "members [] r = []" "members (map_put k v m) r = (if r = k then v else members m r)"
  by (auto simp: members_def update_conv)

lemma membersE: "i \<in> set (members m r) \<Longrightarrow> (\<And>l. map_of m r = Some l \<Longrightarrow> i \<in> set l \<Longrightarrow> P) \<Longrightarrow> P"
  by (cases "map_of m r") (auto simp: members_def)

lemma group_members:
  fixes m :: "(nat, string list) jsmap"
  assumes "distinct (map fst m)"
  shows "distinct (map fst (foldl (\<lambda>m (r, i). map_put r (members m r @ [i]) m) m xs)) \<and>
    set (members (foldl (\<lambda>m (r, i). map_put r (members m r @ [i]) m) m xs) r) = set (members m r) \<union> {i. (r, i) \<in> set xs}"
  using assms
proof (induction xs arbitrary: m)
  case (Cons x xs)
  obtain k i where x: "x = (k, i)" by (cases x)
  have "distinct (map fst (map_put k (members m k @ [i]) m))" using Cons.prems by (rule distinct_put)
  from Cons.IH[OF this] show ?case by (auto simp: x)
qed simp

lemma group_lists:
  assumes "grp \<in> set (map snd (group_by_root xs))"
  shows "\<exists>r. set grp = {i. (r, i) \<in> set xs}"
proof -
  let ?g = "group_by_root xs"
  have d: "distinct (map fst ?g)" and m: "set (members ?g r) = {i. (r, i) \<in> set xs}" for r
    using group_members[of "[]" xs] by (auto simp: group_by_root_def)
  from assms obtain r where "(r, grp) \<in> set ?g" by auto
  then have "map_of ?g r = Some grp" by (rule map_of_is_SomeI[OF d])
  with m[of r] show ?thesis by (auto simp: members_def)
qed

lemma group_covers: "(r, i) \<in> set xs \<Longrightarrow> \<exists>grp \<in> set (map snd (group_by_root xs)). i \<in> set grp"
proof -
  assume "(r, i) \<in> set xs"
  then have "i \<in> set (members (group_by_root xs) r)" using group_members[of "[]" xs r] by (simp add: group_by_root_def)
  then obtain l where "map_of (group_by_root xs) r = Some l" "i \<in> set l" by (rule membersE)
  then show ?thesis by (force dest: map_of_SomeD)
qed

text \<open>The groups are the classes of the link relation.\<close>

definition classes_of :: "string set \<Rightarrow> (string \<times> string) set \<Rightarrow> string list list \<Rightarrow> bool" where
  "classes_of A E comps \<longleftrightarrow>
     (\<forall>grp \<in> set comps. \<forall>x \<in> set grp. \<forall>y. y \<in> set grp \<longleftrightarrow> y \<in> A \<and> (x, y) \<in> linked E) \<and>
     (\<forall>x \<in> A. \<exists>grp \<in> set comps. x \<in> set grp)"

lemma components_at_exact:
  assumes ids: "distinct (ids_of (cx_spec ctx))" and sub: "set active \<subseteq> set (ids_of (cx_spec ctx))"
    and edges: "\<forall>e \<in> set edges. re_a e \<in> set active \<and> re_b e \<in> set active"
  shows "\<exists>comps. components_at ctx active edges = Some comps \<and> classes_of (set active) (edge_rel edges) comps"
proof -
  from components_found[OF assms] obtain p where
    p: "uf_unions (pairs_of ctx edges) (uf_new (length (gs_nodes (cx_spec ctx)))) = Some p" "uf_ok p"
      "length p = length (gs_nodes (cx_spec ctx))"
    and same: "\<And>a b. a \<in> set active \<Longrightarrow> b \<in> set active \<Longrightarrow>
      uf_same p (index_in ctx a) (index_in ctx b) = ((a, b) \<in> linked_edges edges)"
    by blast
  obtain h where h: "uf_height p h" using p(2) by (auto simp: uf_ok_def)
  have "\<forall>x \<in> set (map (index_in ctx) active). x < length p"
    using sub position_less[of _ "ids_of (cx_spec ctx)"] p(3) by (auto simp: index_in_def ids_of_def)
  from find_all_roots[OF h this] obtain rs q where r: "find_all (map (index_in ctx) active) p = Some (rs, q)"
    "list_all2 (uf_root p) (map (index_in ctx) active) rs" by blast
  let ?z = "zip rs active"
  have root: "i \<in> set active \<and> uf_root p (index_in ctx i) r'" if "(r', i) \<in> set ?z" for r' i
    using that r(2) by (auto simp: list_all2_conv_all_nth in_set_zip)
  have ex: "\<exists>r'. (r', i) \<in> set ?z" if "i \<in> set active" for i
    using that list_all2_lengthD[OF r(2)] by (force simp: in_set_conv_nth in_set_zip)
  have zip: "(r', y) \<in> set ?z \<longleftrightarrow> y \<in> set active \<and> (x, y) \<in> linked_edges edges" if x: "(r', x) \<in> set ?z" for x y r'
  proof
    assume y: "(r', y) \<in> set ?z"
    have "uf_same p (index_in ctx x) (index_in ctx y)" using root[OF x] root[OF y] by (auto simp: uf_same_def)
    then show "y \<in> set active \<and> (x, y) \<in> linked_edges edges" using root[OF x] root[OF y] same by blast
  next
    assume y: "y \<in> set active \<and> (x, y) \<in> linked_edges edges"
    then obtain r2 where r2: "(r2, y) \<in> set ?z" using ex by blast
    have "uf_same p (index_in ctx x) (index_in ctx y)" using root[OF x] y same by blast
    then have "r2 = r'" using root[OF x] root[OF r2] by (auto simp: uf_same_def dest: uf_root_unique)
    with r2 show "(r', y) \<in> set ?z" by simp
  qed
  have "classes_of (set active) (edge_rel edges) (map snd (group_by_root ?z))"
    unfolding classes_of_def
  proof (intro conjI ballI allI)
    fix grp x y assume "grp \<in> set (map snd (group_by_root ?z))" and x: "x \<in> set grp"
    then obtain r' where grp: "set grp = {i. (r', i) \<in> set ?z}" using group_lists by blast
    with x have "(r', x) \<in> set ?z" by simp
    from zip[OF this] show "y \<in> set grp \<longleftrightarrow> y \<in> set active \<and> (x, y) \<in> linked_edges edges" by (simp add: grp)
  next
    fix x assume "x \<in> set active"
    with ex obtain r' where "(r', x) \<in> set ?z" by blast
    then show "\<exists>grp \<in> set (map snd (group_by_root ?z)). x \<in> set grp" by (rule group_covers)
  qed
  with p(1) r(1) show ?thesis by (simp add: components_at_def)
qed

lemma set_add_all: "set (foldl (\<lambda>m i. set_add i m) ys xs) = set ys \<union> set xs"
  by (induction xs arbitrary: ys) (auto simp: set_add_def)

lemma spread_Cons: "spread (grp # comps) mine =
    spread comps (if list_ex (\<lambda>i. i \<in> set mine) grp then foldl (\<lambda>m i. set_add i m) mine grp else mine)"
  by (simp add: spread_def)

lemma spread_mono: "set mine \<subseteq> set (spread comps mine)"
proof (induction comps arbitrary: mine)
  case (Cons grp comps)
  show ?case unfolding spread_Cons by (rule subset_trans[OF _ Cons.IH]) (auto simp: set_add_all)
qed (simp add: spread_def)

lemma spread_upper:
  assumes "\<And>grp x. grp \<in> set comps \<Longrightarrow> x \<in> set grp \<Longrightarrow> x \<in> R \<Longrightarrow> set grp \<subseteq> R" and "set mine \<subseteq> R"
  shows "set (spread comps mine) \<subseteq> R"
  using assms
proof (induction comps arbitrary: mine)
  case (Cons grp comps)
  show ?case unfolding spread_Cons
  proof (rule Cons.IH)
    show "set (if list_ex (\<lambda>i. i \<in> set mine) grp then foldl (\<lambda>m i. set_add i m) mine grp else mine) \<subseteq> R"
      using Cons.prems(1)[of grp] Cons.prems(2) by (auto simp: set_add_all list_ex_iff)
  qed (use Cons.prems(1) in auto)
qed (simp add: spread_def)

lemma spread_lower:
  assumes "grp \<in> set comps" and "x \<in> set grp" and "x \<in> set mine"
  shows "set grp \<subseteq> set (spread comps mine)"
  using assms
proof (induction comps arbitrary: mine)
  case (Cons c comps)
  let ?m = "if list_ex (\<lambda>i. i \<in> set mine) c then foldl (\<lambda>m i. set_add i m) mine c else mine"
  have "set mine \<subseteq> set ?m" by (auto simp: set_add_all)
  show ?case
  proof (cases "grp = c")
    case True
    with Cons.prems have "set grp \<subseteq> set ?m" by (auto simp: set_add_all list_ex_iff)
    then show ?thesis unfolding spread_Cons using spread_mono[of ?m comps] by (rule subset_trans)
  next
    case False
    with Cons.prems \<open>set mine \<subseteq> set ?m\<close> show ?thesis unfolding spread_Cons by (intro Cons.IH) auto
  qed
qed simp

lemma linked_outside: "(x, y) \<in> linked E \<Longrightarrow> E \<subseteq> A \<times> A \<Longrightarrow> x \<notin> A \<Longrightarrow> y = x"
  unfolding linked_def by (induction rule: rtrancl_induct) auto

lemma linked_inside: "(x, y) \<in> linked E \<Longrightarrow> E \<subseteq> A \<times> A \<Longrightarrow> x \<in> A \<Longrightarrow> y \<in> A"
  unfolding linked_def by (induction rule: rtrancl_induct) auto

text \<open>Spreading over the groups is the image under the link relation.\<close>

lemma spread_linked:
  assumes c: "classes_of A E comps" and E: "E \<subseteq> A \<times> A"
  shows "set (spread comps mine) = linked E `` set mine"
proof
  show "set (spread comps mine) \<subseteq> linked E `` set mine"
  proof (rule spread_upper)
    fix grp x assume "grp \<in> set comps" "x \<in> set grp" "x \<in> linked E `` set mine"
    then show "set grp \<subseteq> linked E `` set mine" using c linked_trans unfolding classes_of_def by fast
  qed (auto intro: linked_refl)
  show "linked E `` set mine \<subseteq> set (spread comps mine)"
  proof
    fix y assume "y \<in> linked E `` set mine"
    then obtain x where x: "x \<in> set mine" "(x, y) \<in> linked E" by blast
    show "y \<in> set (spread comps mine)"
    proof (cases "x \<in> A")
      case True
      with c obtain grp where grp: "grp \<in> set comps" "x \<in> set grp" unfolding classes_of_def by blast
      then have "y \<in> set grp" using c x(2) linked_inside[OF x(2) E True] unfolding classes_of_def by blast
      with spread_lower[OF grp x(1)] show ?thesis by blast
    next
      case False
      with linked_outside[OF x(2) E] x(1) spread_mono show ?thesis by blast
    qed
  qed
qed

section \<open>The specification\<close>

text \<open>Carrying a message through the snapshots: the set of carriers grows to everything linked to it.\<close>

fun first_contact :: "(string \<Rightarrow> bool) \<Rightarrow> (rat \<times> (string \<times> string) set) list \<Rightarrow> string set \<Rightarrow> rat option" where
  "first_contact sink [] R = None"
| "first_contact sink ((t, E) # snaps) R =
     (if \<exists>x \<in> linked E `` R. sink x then Some t else first_contact sink snaps (linked E `` R))"

definition snapshots :: "res_context \<Rightarrow> string list \<Rightarrow> resolved_area list \<Rightarrow> rat \<Rightarrow> (rat \<times> edge list) list \<Rightarrow>
    (rat \<times> (string \<times> string) set) list" where
  "snapshots ctx active areas startT steps =
     map (\<lambda>(t, edges). (t - startT, edge_rel (filterEdges ctx edges t active areas))) (filter (\<lambda>(t, _). startT \<le> t) steps)"

definition arrival_spec :: "res_context \<Rightarrow> string list \<Rightarrow> resolved_area list \<Rightarrow> string \<Rightarrow> rat option" where
  "arrival_spec ctx failed areas src = (case gs_timeline (cx_spec ctx) of None \<Rightarrow> None
   | Some line \<Rightarrow> first_contact (isSink ctx)
       (snapshots ctx (active_nodes ctx failed) areas (start_time (cx_spec ctx) line) (tl_steps line)) {src})"

section \<open>The loop refines it\<close>

abbreviation mine_of :: "opportunity \<Rightarrow> string \<Rightarrow> string list" where
  "mine_of op \<equiv> members (op_reached op)"

definition arrived :: "res_context \<Rightarrow> string list list \<Rightarrow> opportunity \<Rightarrow> string \<Rightarrow> bool" where
  "arrived ctx comps op s \<longleftrightarrow> (\<exists>x \<in> set (spread comps (mine_of op s)). isSink ctx x)"

lemma opp_source_effect:
  "mine_of (opp_source ctx comps a op src) s = (if s = src then spread comps (mine_of op src) else mine_of op s)"
  "op_pending (opp_source ctx comps a op src) =
     (if arrived ctx comps op src then filter (\<lambda>s. s \<noteq> src) (op_pending op) else op_pending op)"
  "map_of (op_result (opp_source ctx comps a op src)) =
     (if arrived ctx comps op src then (map_of (op_result op))(src \<mapsto> a) else map_of (op_result op))"
  by (auto simp: opp_source_def Let_def arrived_def list_ex_iff update_conv' simp flip: members_def)

lemma opp_sources_effect:
  assumes "distinct srcs"
  shows "mine_of (foldl (opp_source ctx comps a) op srcs) s = (if s \<in> set srcs then spread comps (mine_of op s) else mine_of op s)
    \<and> op_pending (foldl (opp_source ctx comps a) op srcs) = filter (\<lambda>s. \<not> (s \<in> set srcs \<and> arrived ctx comps op s)) (op_pending op)
    \<and> map_of (op_result (foldl (opp_source ctx comps a) op srcs)) s =
        (if s \<in> set srcs \<and> arrived ctx comps op s then Some a else map_of (op_result op) s)"
  using assms
proof (induction srcs arbitrary: op)
  case (Cons src srcs)
  have "arrived ctx comps (opp_source ctx comps a op src) s = arrived ctx comps op s" if "s \<in> set srcs" for s
    using that Cons.prems by (auto simp: arrived_def opp_source_effect(1))
  with Cons show ?case by (auto simp: opp_source_effect conj_commute intro!: filter_cong)
qed simp

definition opp_inv :: "opportunity \<Rightarrow> bool" where
  "opp_inv op \<longleftrightarrow> distinct (op_pending op) \<and> (\<forall>s \<in> set (op_pending op). map_of (op_result op) s = None)"

lemma opp_steps_exact:
  assumes ids: "distinct (ids_of (cx_spec ctx))" and sub: "set active \<subseteq> set (ids_of (cx_spec ctx))" and "opp_inv op"
  shows "\<exists>op'. opp_steps ctx active areas startT steps op = Inr op' \<and>
    (\<forall>s. map_of (op_result op') s = (if s \<in> set (op_pending op)
      then first_contact (isSink ctx) (snapshots ctx active areas startT steps) (set (mine_of op s))
      else map_of (op_result op) s))"
  using assms(3)
proof (induction steps arbitrary: op)
  case Nil
  then show ?case by (auto simp: opp_inv_def snapshots_def)
next
  case (Cons st steps)
  obtain t edges where st: "st = (t, edges)" by (cases st)
  consider "op_pending op = []" | "op_pending op \<noteq> []" "t < startT" | "op_pending op \<noteq> []" "startT \<le> t" by fastforce
  then show ?case
  proof cases
    case 1
    then show ?thesis by (simp add: st)
  next
    case 2
    then have "snapshots ctx active areas startT (st # steps) = snapshots ctx active areas startT steps"
      by (simp add: snapshots_def st)
    moreover have "opp_steps ctx active areas startT (st # steps) op = opp_steps ctx active areas startT steps op"
      using 2 by (simp add: st)
    ultimately show ?thesis using Cons.IH[OF Cons.prems] by (simp only:)
  next
    case 3
    let ?E = "filterEdges ctx edges t active areas"
    have E: "\<forall>e \<in> set ?E. re_a e \<in> set active \<and> re_b e \<in> set active" using filterEdges_active by blast
    then have E': "edge_rel ?E \<subseteq> set active \<times> set active" by (auto simp: edge_rel_def)
    from components_at_exact[OF ids sub E] obtain comps where
      c: "components_at ctx active ?E = Some comps" "classes_of (set active) (edge_rel ?E) comps" by blast
    have sp: "set (spread comps mine) = linked (edge_rel ?E) `` set mine" for mine by (rule spread_linked[OF c(2) E'])
    let ?op = "foldl (opp_source ctx comps (t - startT)) op (op_pending op)"
    have d: "distinct (op_pending op)" using Cons.prems by (simp add: opp_inv_def)
    note eff = opp_sources_effect[OF d, of ctx comps "t - startT" op]
    have inv: "opp_inv ?op" using Cons.prems eff by (auto simp: opp_inv_def)
    have "opp_steps ctx active areas startT (st # steps) op = opp_steps ctx active areas startT steps ?op"
      using 3 c(1) by (simp add: st)
    moreover have "snapshots ctx active areas startT (st # steps) =
        (t - startT, edge_rel ?E) # snapshots ctx active areas startT steps"
      using 3 by (simp add: snapshots_def st)
    moreover have "arrived ctx comps op s \<longleftrightarrow> (\<exists>x \<in> linked (edge_rel ?E) `` set (mine_of op s). isSink ctx x)" for s
      by (simp add: arrived_def sp)
    ultimately show ?thesis using Cons.IH[OF inv] eff sp by auto
  qed
qed

lemma start_members: "members (foldl (\<lambda>m s. map_put s [s] m) m srcs) s = (if s \<in> set srcs then [s] else members m s)"
  by (induction srcs arbitrary: m) auto

lemma set_add_distinct: "distinct ys \<Longrightarrow> distinct (foldl (\<lambda>m i. set_add i m) ys xs)"
  by (induction xs arbitrary: ys) (auto simp: set_add_def)

lemma arrivals_exact:
  assumes ids: "distinct (ids_of (cx_spec ctx))"
  shows "\<exists>arr. opportunisticArrivals ctx failed areas sources = Inr arr \<and>
    (\<forall>s. map_of arr s = (if s \<in> set sources then arrival_spec ctx failed areas s else None))"
proof (cases "gs_timeline (cx_spec ctx)")
  case None
  then show ?thesis by (simp add: opportunisticArrivals_def arrival_spec_def)
next
  case (Some line)
  let ?op = "\<lparr>op_reached = foldl (\<lambda>m s. map_put s [s] m) [] sources, op_pending = foldl (\<lambda>xs s. set_add s xs) [] sources,
    op_result = []\<rparr>"
  have "opp_inv ?op" by (simp add: opp_inv_def set_add_distinct)
  from opp_steps_exact[OF ids active_in this, of failed areas "start_time (cx_spec ctx) line" "tl_steps line"] obtain op' where
    "opp_steps ctx (active_nodes ctx failed) areas (start_time (cx_spec ctx) line) (tl_steps line) ?op = Inr op'"
    "\<forall>s. map_of (op_result op') s = (if s \<in> set sources then arrival_spec ctx failed areas s else None)"
    unfolding arrival_spec_def Some by (auto simp: set_add_all start_members cong: if_cong)
  then show ?thesis by (auto simp: opportunisticArrivals_def Some)
qed

text \<open>C15: The opportunistic arrivals implement their specification: for every source the answer is the time, from the failure on, of the
  first snapshot in which the set of nodes that carry its message (closed, snapshot after snapshot, under the links that survive the
  failure) contains an infrastructure node, and no entry when there is none.\<close>

theorem opportunistic_arrivals_exact:
  assumes "createResilienceContext spec = Inr ctx"
  shows "\<exists>arr. opportunisticArrivals ctx failed areas sources = Inr arr \<and>
    (\<forall>s. map_of arr s = (if s \<in> set sources then arrival_spec ctx failed areas s else None))"
  by (rule arrivals_exact[OF context_created(2)[OF assms]])

lemma opportunistic_arrivals_exact_witness:
  "\<exists>ctx arr. createResilienceContext demo_spec = Inr ctx \<and> opportunisticArrivals ctx [''hub''] [] [''card''] = Inr arr \<and>
     map_of arr ''card'' = arrival_spec ctx [''hub''] [] ''card''"
proof -
  obtain ctx where c: "createResilienceContext demo_spec = Inr ctx" using demo_created ..
  with opportunistic_arrivals_exact[OF c, of "[''hub'']" "[]" "[''card'']"] show ?thesis by auto
qed

end
