(* ===== verification/ResilienceFailures.thy ===== *)
theory ResilienceFailures
  imports ResilienceArrivals
begin

text \<open>
  What a failure report says: every node gets the status its routes give it, the nodes cut off are those a sink
  reached before and reaches no more, the dependents of a node are exactly the nodes its failure disconnects, and
  a report is refused only for an input the code names.
\<close>

section \<open>Degrees\<close>

definition incident :: "edge list \<Rightarrow> string \<Rightarrow> nat" where
  "incident edges i = length (filter (\<lambda>e. re_a e = i) edges) + length (filter (\<lambda>e. re_b e = i) edges)"

definition count_at :: "(string, nat) jsmap \<Rightarrow> string \<Rightarrow> nat" where
  "count_at m i = (case map_of m i of Some d \<Rightarrow> d | None \<Rightarrow> 0)"

lemma count_bump: "count_at (bump j m) i = count_at m i + (if i = j then 1 else 0)"
  by (simp add: count_at_def bump_def update_conv')

lemma dom_bump: "dom (map_of (bump j m)) = insert j (dom (map_of m))"
  by (auto simp: bump_def update_conv')

lemma degrees_step:
  "count_at (foldl (\<lambda>m e. bump (re_b e) (bump (re_a e) m)) m edges) i = count_at m i + incident edges i"
  "dom (map_of m) \<subseteq> dom (map_of (foldl (\<lambda>m e. bump (re_b e) (bump (re_a e) m)) m edges))"
  by (induction edges arbitrary: m) (auto simp: incident_def count_bump dom_bump subset_iff)

lemma degrees_exact:
  assumes "i \<in> set active"
  shows "map_of (degrees_of active edges) i = Some (incident edges i)"
proof -
  let ?m = "map (\<lambda>i. (i, 0 :: nat)) active"
  have "map_of ?m i = Some 0" using assms by (induction active) auto
  then have "i \<in> dom (map_of (degrees_of active edges))" "count_at ?m i = 0"
    using degrees_step(2)[of ?m edges] by (auto simp: degrees_of_def count_at_def)
  with degrees_step(1)[of ?m edges i] show ?thesis by (auto simp: degrees_of_def count_at_def)
qed

section \<open>The status of every node\<close>

lemma classify_step:
  "classify_node failed after (m, xs) n =
     (map_put (rn_id n) (if rn_id n \<in> set failed \<or> rn_inactive n then StFailed
        else if rn_id n \<in> set (st_connected after) then StConnected
        else if map_of (st_degree after) (rn_id n) = Some 0 then StIsolated else StCutOff) m,
      xs @ (if \<not> rn_inactive n \<and> rn_id n \<notin> set failed \<and> rn_id n \<notin> set (st_connected after) then [rn_id n] else []))"
  by (simp add: classify_node_def)

lemma states_fold:
  assumes "distinct (map rn_id ns)"
  shows "map_of (fst (foldl (classify_node failed after) (m, xs) ns)) i =
      (if i \<in> rn_id ` set ns then
         (if i \<in> set failed \<or> (\<exists>n \<in> set ns. rn_id n = i \<and> rn_inactive n) then Some StFailed
          else if i \<in> set (st_connected after) then Some StConnected
          else if map_of (st_degree after) i = Some 0 then Some StIsolated else Some StCutOff)
       else map_of m i)"
  using assms
proof (induction ns arbitrary: m xs)
  case (Cons n ns)
  obtain m' xs' where s: "classify_node failed after (m, xs) n = (m', xs')" by fastforce
  then have "m' = map_put (rn_id n) (if rn_id n \<in> set failed \<or> rn_inactive n then StFailed
        else if rn_id n \<in> set (st_connected after) then StConnected
        else if map_of (st_degree after) (rn_id n) = Some 0 then StIsolated else StCutOff) m"
    by (simp only: classify_step prod.inject)
  then have "map_of m' i = (if i = rn_id n then
      Some (if i \<in> set failed \<or> rn_inactive n then StFailed else if i \<in> set (st_connected after) then StConnected
       else if map_of (st_degree after) i = Some 0 then StIsolated else StCutOff) else map_of m i)"
    by (cases "i = rn_id n") (simp_all only: update_conv' fun_upd_apply if_True if_False simp_thms)
  moreover have "rn_id n \<notin> rn_id ` set ns" using Cons.prems by auto
  moreover have "map_of (fst (foldl (classify_node failed after) (m, xs) (n # ns))) i =
      map_of (fst (foldl (classify_node failed after) (m', xs') ns)) i" by (simp add: s)
  moreover have "distinct (map rn_id ns)" using Cons.prems by simp
  moreover have other: "rn_id k \<noteq> rn_id n" if "k \<in> set ns" for k
    using Cons.prems that by (metis distinct.simps(2) image_eqI list.set_map list.simps(9))
  moreover have "(\<exists>k \<in> set (n # ns). rn_id k = i \<and> rn_inactive k) \<longleftrightarrow>
      (if i = rn_id n then rn_inactive n else \<exists>k \<in> set ns. rn_id k = i \<and> rn_inactive k)"
    using other by auto
  ultimately show ?case using Cons.IH[of m' xs'] by (cases "i = rn_id n") simp_all
qed simp

lemma notConnected_fold:
  "snd (foldl (classify_node failed after) (m, xs) ns) =
     xs @ map rn_id (filter (\<lambda>n. \<not> rn_inactive n \<and> rn_id n \<notin> set failed \<and> rn_id n \<notin> set (st_connected after)) ns)"
proof (induction ns arbitrary: m xs)
  case (Cons n ns)
  obtain m' xs' where s: "classify_node failed after (m, xs) n = (m', xs')" by fastforce
  then have "xs' = xs @ (if \<not> rn_inactive n \<and> rn_id n \<notin> set failed \<and> rn_id n \<notin> set (st_connected after) then [rn_id n] else [])"
    by (simp only: classify_step prod.inject)
  with Cons.IH[of m' xs'] s show ?case by simp
qed simp

lemma not_connected:
  "snd (foldl (classify_node failed after) ([], []) (gs_nodes (cx_spec ctx))) =
     filter (\<lambda>i. i \<notin> set (st_connected after)) (active_nodes ctx failed)"
  unfolding notConnected_fold by (simp add: active_nodes_def filter_map o_def conj_commute conj_left_commute)

lemma mark_recoverable:
  "map_of (foldl (\<lambda>m (i, t). map_put i StRecoverable m) m arr) i = (if i \<in> fst ` set arr then Some StRecoverable else map_of m i)"
  by (induction arr arbitrary: m) (auto simp: update_conv')

text \<open>What the status of a node means.\<close>

definition status_spec :: "res_context \<Rightarrow> string list \<Rightarrow> resolved_area list \<Rightarrow> res_state \<Rightarrow> string \<Rightarrow> node_status" where
  "status_spec ctx failed areas after i =
     (if i \<notin> set (active_nodes ctx failed) then StFailed
      else if i \<in> set (st_connected after) then StConnected
      else if arrival_spec ctx failed areas i \<noteq> None then StRecoverable
      else if incident (st_edges after) i = 0 then StIsolated else StCutOff)"

lemma active_nodes_iff:
  assumes "distinct (ids_of (cx_spec ctx))" and "i \<in> set (ids_of (cx_spec ctx))"
  shows "i \<in> set (active_nodes ctx failed) \<longleftrightarrow> i \<notin> set failed \<and> \<not> (\<exists>n \<in> set (gs_nodes (cx_spec ctx)). rn_id n = i \<and> rn_inactive n)"
proof -
  have "inj_on rn_id (set (gs_nodes (cx_spec ctx)))" using assms(1) by (simp add: ids_of_def distinct_map)
  with assms(2) show ?thesis by (auto simp: active_nodes_def ids_of_def inj_on_def)
qed

lemma report_parts:
  assumes "evaluateFailure ctx f deps = Inr rep"
  obtains areas failed after arr ds where "resolveAreas ctx (fs_areas f) = Inr areas" "resolveFailed ctx f areas = Inr failed"
    "computeState ctx failed areas = Inr after"
    "opportunisticArrivals ctx failed areas (filter (\<lambda>i. i \<notin> set (st_connected after)) (active_nodes ctx failed)) = Inr arr"
    "rep = failure_report_of ctx failed after arr ds"
  using assms by (auto simp: evaluateFailure_def not_connected Let_def split: sum.splits)

lemma map_of_keys: "i \<in> fst ` set m \<longleftrightarrow> map_of m i \<noteq> None"
  by (simp add: map_of_eq_None_iff)

lemma report_states:
  assumes ids: "distinct (ids_of (cx_spec ctx))" and i: "i \<in> set (ids_of (cx_spec ctx))"
    and after: "computeState ctx failed areas = Inr after"
    and arr: "opportunisticArrivals ctx failed areas (filter (\<lambda>i. i \<notin> set (st_connected after)) (active_nodes ctx failed)) = Inr arr"
  shows "map_of (fr_states (failure_report_of ctx failed after arr ds)) i = Some (status_spec ctx failed areas after i)"
proof -
  let ?a = "active_nodes ctx failed"
  from computeState_exact[OF ids, of failed areas] after have
    a: "st_active after = ?a" "st_degree after = degrees_of (st_active after) (st_edges after)" by auto
  have keys: "j \<in> fst ` set arr \<longleftrightarrow> j \<in> set ?a \<and> j \<notin> set (st_connected after) \<and> arrival_spec ctx failed areas j \<noteq> None" for j
    using arrivals_exact[OF ids, of failed areas "filter (\<lambda>i. i \<notin> set (st_connected after)) ?a"] arr by (auto simp: map_of_keys)
  have "map_of (fr_states (failure_report_of ctx failed after arr ds)) i =
    (if i \<in> fst ` set arr then Some StRecoverable
     else map_of (fst (foldl (classify_node failed after) ([], []) (gs_nodes (cx_spec ctx)))) i)"
    by (simp add: failure_report_of_def Let_def split_beta mark_recoverable)
  also have "\<dots> = Some (status_spec ctx failed areas after i)"
    using ids i states_fold[of "gs_nodes (cx_spec ctx)" failed after "[]" "[]" i] active_nodes_iff[OF ids i, of failed]
      degrees_exact[of i ?a "st_edges after"] a
    by (auto simp: keys status_spec_def ids_of_def)
  finally show ?thesis .
qed

text \<open>A failure report classifies every node of the network by what is left of it: failed when it is inactive or fails, connected when
  a sink still reaches it, recoverable when it has no route but an opportunistic arrival, isolated when it has not a single link
  left, and cut off otherwise; and the nodes listed as cut off are the active nodes a sink reached before the failure and reaches
  no more.\<close>

theorem report_classifies_nodes:
  assumes ctx: "createResilienceContext spec = Inr ctx" and rep: "evaluateFailure ctx f deps = Inr rep"
  shows "\<exists>areas failed after. resolveAreas ctx (fs_areas f) = Inr areas \<and> resolveFailed ctx f areas = Inr failed \<and>
    computeState ctx failed areas = Inr after \<and> state_exact ctx after \<and>
    (\<forall>i \<in> set (ids_of spec). map_of (fr_states rep) i = Some (status_spec ctx failed areas after i)) \<and>
    fr_cutOff rep = filter (\<lambda>i. i \<notin> set (st_connected after) \<and> i \<in> set (st_connected (cx_baseline ctx))) (active_nodes ctx failed)"
proof -
  note c = context_created[OF ctx]
  from rep obtain areas failed after arr ds where r: "resolveAreas ctx (fs_areas f) = Inr areas" "resolveFailed ctx f areas = Inr failed"
    "computeState ctx failed areas = Inr after"
    "opportunisticArrivals ctx failed areas (filter (\<lambda>i. i \<notin> set (st_connected after)) (active_nodes ctx failed)) = Inr arr"
    "rep = failure_report_of ctx failed after arr ds" by (rule report_parts)
  have "fr_cutOff rep = filter (\<lambda>i. i \<in> set (st_connected (cx_baseline ctx))) (filter (\<lambda>i. i \<notin> set (st_connected after)) (active_nodes ctx failed))"
    by (simp add: r(5) failure_report_of_def Let_def split_beta not_connected)
  then have "fr_cutOff rep = filter (\<lambda>i. i \<notin> set (st_connected after) \<and> i \<in> set (st_connected (cx_baseline ctx))) (active_nodes ctx failed)"
    by (simp add: conj_commute)
  moreover have "state_exact ctx after" using computeState_exact[OF c(2), of failed areas] r(3) by auto
  ultimately show ?thesis using r report_states[OF c(2) _ r(3,4)] c(1) by blast
qed

lemma demo_evaluates: "createResilienceContext demo_spec = Inr ctx \<Longrightarrow>
    \<exists>rep. evaluateFailure ctx \<lparr>fs_nodes = Some [''hub''], fs_areas = None\<rparr> False = Inr rep"
proof -
  assume c: "createResilienceContext demo_spec = Inr ctx"
  note ids = context_created(2)[OF c]
  have "resolveAreas ctx None = Inr []" by (simp add: resolveAreas_def)
  moreover have "resolveFailed ctx \<lparr>fs_nodes = Some [''hub''], fs_areas = None\<rparr> [] = Inr [''hub'']"
    by (simp add: resolveFailed_def context_created(1)[OF c] demo_spec_def ids_of_def set_add_def)
  moreover obtain after where "computeState ctx [''hub''] [] = Inr after" using computeState_exact[OF ids] by blast
  moreover obtain arr where
    "opportunisticArrivals ctx [''hub''] [] (snd (foldl (classify_node [''hub''] after) ([], []) (gs_nodes (cx_spec ctx)))) = Inr arr"
    using arrivals_exact[OF ids] by blast
  ultimately show ?thesis by (simp add: evaluateFailure_def)
qed

lemma report_classifies_nodes_witness:
  "\<exists>ctx rep st. createResilienceContext demo_spec = Inr ctx \<and>
     evaluateFailure ctx \<lparr>fs_nodes = Some [''hub''], fs_areas = None\<rparr> False = Inr rep \<and> map_of (fr_states rep) ''card'' = Some st"
proof -
  obtain ctx where c: "createResilienceContext demo_spec = Inr ctx" using demo_created ..
  from demo_evaluates[OF c] obtain rep where r: "evaluateFailure ctx \<lparr>fs_nodes = Some [''hub''], fs_areas = None\<rparr> False = Inr rep" ..
  have "''card'' \<in> set (ids_of demo_spec)" by (simp add: demo_spec_def ids_of_def)
  with report_classifies_nodes[OF c r] c r show ?thesis by blast
qed

section \<open>Refusals\<close>

lemma try_map_Inr: "(\<And>x. x \<in> set xs \<Longrightarrow> \<exists>y. f x = Inr y \<and> P x y) \<Longrightarrow> \<exists>ys. try_map f xs = Inr ys \<and> list_all2 P xs ys"
proof (induction xs)
  case (Cons x xs)
  then obtain y ys where "f x = Inr y" "P x y" "try_map f xs = Inr ys" "list_all2 P xs ys" by fastforce
  then show ?case by simp
qed simp

lemma try_map_Inl: "try_map f xs = Inl e \<Longrightarrow> \<exists>x \<in> set xs. f x = Inl e"
  by (induction xs) (auto split: sum.splits)

lemma toLocalPt_Inl: "toLocalPt ctx p = Inl e \<Longrightarrow> e = FrameRequired"
  by (auto simp: toLocalPt_def split: pt.splits option.splits)

lemma resolveArea_Inl: "resolveArea ctx a = Inl e \<Longrightarrow> e = FrameRequired \<or> e = TooFewPoints"
  by (auto simp: resolveArea_def Let_def dest!: try_map_Inl toLocalPt_Inl split: area_shape.splits if_splits sum.splits)

lemma resolveAreas_Inl: "resolveAreas ctx as = Inl e \<Longrightarrow> e = FrameRequired \<or> e = TooFewPoints"
  unfolding resolveAreas_def by (drule try_map_Inl) (blast dest: resolveArea_Inl)

lemma named_failures_Inl: "named_failures ctx is failed = Inl e \<Longrightarrow> \<exists>i \<in> set is. i \<notin> set (ids_of (cx_spec ctx)) \<and> e = UnknownFailedNode i"
  by (induction ctx "is" failed rule: named_failures.induct) (auto split: if_splits)

lemma area_failures_Inl: "area_failures ctx as failed = Inl e \<Longrightarrow> e = PositionsRequired \<and> gs_positions (cx_spec ctx) = None"
  by (induction ctx as failed rule: area_failures.induct) (auto split: if_splits option.splits)

lemma resolveFailed_Inl: "resolveFailed ctx f areas = Inl e \<Longrightarrow>
    e = PositionsRequired \<or> (\<exists>ns i. fs_nodes f = Some ns \<and> i \<in> set ns \<and> i \<notin> set (ids_of (cx_spec ctx)) \<and> e = UnknownFailedNode i)"
proof -
  assume e: "resolveFailed ctx f areas = Inl e"
  show ?thesis
  proof (cases "named_failures ctx (case fs_nodes f of Some ns \<Rightarrow> ns | None \<Rightarrow> []) []")
    case (Inl e')
    then have "e' = e" using e by (simp add: resolveFailed_def)
    with named_failures_Inl[OF Inl] show ?thesis by (cases "fs_nodes f") auto
  next
    case (Inr failed)
    then have "area_failures ctx areas failed = Inl e" using e by (simp add: resolveFailed_def)
    then show ?thesis by (blast dest: area_failures_Inl)
  qed
qed

definition depends :: "res_context \<Rightarrow> string list \<Rightarrow> resolved_area list \<Rightarrow> res_state \<Rightarrow> string \<Rightarrow> dependency \<Rightarrow> bool" where
  "depends ctx failed areas state i d \<longleftrightarrow> (\<exists>st. computeState ctx (set_add i failed) areas = Inr st \<and> dp_id d = i \<and>
     dp_dependents d = filter (\<lambda>x. x \<noteq> i \<and> x \<notin> set (st_connected st) \<and> kind_of ctx x \<noteq> Some PhoneNode) (st_connected state) \<and>
     dp_phoneDependents d = filter (\<lambda>x. x \<noteq> i \<and> x \<notin> set (st_connected st) \<and> kind_of ctx x = Some PhoneNode) (st_connected state))"

lemma dependency_of_exact:
  assumes "distinct (ids_of (cx_spec ctx))"
  shows "\<exists>d. dependency_of ctx failed areas state i = Inr d \<and> depends ctx failed areas state i d"
proof -
  from computeState_exact[OF assms] obtain st where "computeState ctx (set_add i failed) areas = Inr st" by blast
  then show ?thesis unfolding dependency_of_def depends_def by (auto simp: Let_def intro!: filter_cong)
qed

lemma set_insert_by: "set (insert_by c x xs) = insert x (set xs)"
  by (induction xs) auto

lemma set_sort_fold: "set (foldl (\<lambda>ys x. insert_by c x ys) ys xs) = set ys \<union> set xs"
  by (induction xs arbitrary: ys) (auto simp: set_insert_by)

lemma set_sort_by [simp]: "set (sort_by c xs) = set xs"
  by (simp add: sort_by_def set_sort_fold)

lemma dependenciesOf_exact:
  assumes "distinct (ids_of (cx_spec ctx))"
  shows "\<exists>ds. dependenciesOf ctx failed areas state = Inr ds \<and>
    (\<forall>i \<in> set (st_active state). \<exists>d. depends ctx failed areas state i d \<and> (dp_dependents d \<noteq> [] \<longrightarrow> d \<in> set ds)) \<and>
    (\<forall>d \<in> set ds. dp_id d \<in> set (st_active state) \<and> depends ctx failed areas state (dp_id d) d \<and> dp_dependents d \<noteq> [])"
proof -
  from try_map_Inr[of "st_active state" "dependency_of ctx failed areas state" "depends ctx failed areas state"]
    dependency_of_exact[OF assms] obtain ds where
    ds: "try_map (dependency_of ctx failed areas state) (st_active state) = Inr ds"
      "list_all2 (depends ctx failed areas state) (st_active state) ds" by blast
  have "\<exists>d \<in> set ds. depends ctx failed areas state i d" if "i \<in> set (st_active state)" for i
    using ds(2) that by (force simp: list_all2_conv_all_nth in_set_conv_nth)
  moreover have "dp_id d \<in> set (st_active state) \<and> depends ctx failed areas state (dp_id d) d" if d: "d \<in> set ds" for d
  proof -
    obtain i where "i \<in> set (st_active state)" "depends ctx failed areas state i d"
      using ds(2) d by (force simp: list_all2_conv_all_nth in_set_conv_nth)
    then show ?thesis by (auto simp: depends_def)
  qed
  ultimately show ?thesis using ds(1) by (auto simp: dependenciesOf_def)
qed

text \<open>C16: Evaluating a failure always ends: with a report, or with one of the errors the code raises for a bad input (an area in geographic
  coordinates without a projection, a polygon of fewer than three points, an area that fails nodes without positions, a failed node
  the network does not have); the searches of the union-find never loop.\<close>

theorem failure_reports_end:
  assumes ctx: "createResilienceContext spec = Inr ctx" and err: "evaluateFailure ctx f deps = Inl e"
  shows "e = FrameRequired \<or> e = TooFewPoints \<or> e = PositionsRequired \<or>
    (\<exists>ns i. fs_nodes f = Some ns \<and> i \<in> set ns \<and> i \<notin> set (ids_of spec) \<and> e = UnknownFailedNode i)"
proof -
  note c = context_created[OF ctx]
  have "\<exists>st. computeState ctx failed areas = Inr st" "\<exists>arr. opportunisticArrivals ctx failed areas srcs = Inr arr"
    "\<exists>ds. dependenciesOf ctx failed areas state = Inr ds" for failed areas srcs state
    using computeState_exact[OF c(2)] arrivals_exact[OF c(2)] dependenciesOf_exact[OF c(2)] by blast+
  then have total: "computeState ctx failed areas \<noteq> Inl e'" "opportunisticArrivals ctx failed areas srcs \<noteq> Inl e'"
    "dependenciesOf ctx failed areas state \<noteq> Inl e'" for failed areas srcs state e' by (metis sum.distinct(1))+
  have "resolveAreas ctx (fs_areas f) = Inl e \<or> (\<exists>areas. resolveFailed ctx f areas = Inl e)"
    using err total by (auto simp: evaluateFailure_def Let_def split: sum.splits if_splits)
  then show ?thesis using resolveAreas_Inl resolveFailed_Inl c(1) by metis
qed

lemma failure_reports_end_witness:
  "\<exists>ctx. createResilienceContext demo_spec = Inr ctx \<and>
     evaluateFailure ctx \<lparr>fs_nodes = Some [''ghost''], fs_areas = None\<rparr> False = Inl (UnknownFailedNode ''ghost'')"
proof -
  obtain ctx where c: "createResilienceContext demo_spec = Inr ctx" using demo_created ..
  have e: "evaluateFailure ctx \<lparr>fs_nodes = Some [''ghost''], fs_areas = None\<rparr> False = Inl (UnknownFailedNode ''ghost'')"
    by (simp add: evaluateFailure_def resolveAreas_def resolveFailed_def context_created(1)[OF c] demo_spec_def ids_of_def)
  from failure_reports_end[OF c e] c e show ?thesis by blast
qed

text \<open>The critical dependencies are exactly the single points of failure: a node is listed when, and only when, it is active and its own
  failure disconnects some other node that is not a phone, and its dependents are precisely those nodes.\<close>

theorem critical_dependencies_exact:
  assumes ctx: "createResilienceContext spec = Inr ctx"
  shows "\<exists>ds. criticalDependencies ctx = Inr ds \<and>
    (\<forall>i st. computeState ctx [i] [] = Inr st \<longrightarrow>
      (\<exists>d \<in> set ds. dp_id d = i) = (i \<in> set (st_active (cx_baseline ctx)) \<and>
         (\<exists>x \<in> set (st_connected (cx_baseline ctx)). x \<noteq> i \<and> x \<notin> set (st_connected st) \<and> kind_of ctx x \<noteq> Some PhoneNode)) \<and>
      (\<forall>d \<in> set ds. dp_id d = i \<longrightarrow> set (dp_dependents d) = {x \<in> set (st_connected (cx_baseline ctx)).
         x \<noteq> i \<and> x \<notin> set (st_connected st) \<and> kind_of ctx x \<noteq> Some PhoneNode}))"
proof -
  let ?b = "cx_baseline ctx"
  from dependenciesOf_exact[OF context_created(2)[OF ctx], of "[]" "[]" ?b] obtain ds where
    ds: "criticalDependencies ctx = Inr ds"
      "\<And>i. i \<in> set (st_active ?b) \<Longrightarrow> \<exists>d. depends ctx [] [] ?b i d \<and> (dp_dependents d \<noteq> [] \<longrightarrow> d \<in> set ds)"
      "\<And>d. d \<in> set ds \<Longrightarrow> dp_id d \<in> set (st_active ?b) \<and> depends ctx [] [] ?b (dp_id d) d \<and> dp_dependents d \<noteq> []"
    by (auto simp: criticalDependencies_def)
  have lost: "set (dp_dependents d) = {x \<in> set (st_connected ?b). x \<noteq> i \<and> x \<notin> set (st_connected st) \<and> kind_of ctx x \<noteq> Some PhoneNode}"
    "dp_id d = i" if "depends ctx [] [] ?b i d" "computeState ctx [i] [] = Inr st" for i st d
    using that by (auto simp: depends_def set_add_def)
  show ?thesis
  proof (intro exI[of _ ds] conjI allI impI ballI ds(1))
    fix i st assume st: "computeState ctx [i] [] = Inr st"
    let ?L = "{x \<in> set (st_connected ?b). x \<noteq> i \<and> x \<notin> set (st_connected st) \<and> kind_of ctx x \<noteq> Some PhoneNode}"
    have "i \<in> set (st_active ?b) \<and> ?L \<noteq> {}" if "d \<in> set ds" "dp_id d = i" for d
    proof -
      have "set (dp_dependents d) = ?L" using ds(3)[OF that(1)] lost(1)[OF _ st] that(2) by blast
      then show ?thesis using ds(3)[OF that(1)] that(2) by (metis set_empty)
    qed
    moreover have "\<exists>d \<in> set ds. dp_id d = i" if a: "i \<in> set (st_active ?b)" and L: "?L \<noteq> {}"
    proof -
      from ds(2)[OF a] obtain d where d: "depends ctx [] [] ?b i d" "dp_dependents d \<noteq> [] \<longrightarrow> d \<in> set ds" by blast
      with lost[OF d(1) st] L show ?thesis by (metis set_empty)
    qed
    ultimately have "(\<exists>d \<in> set ds. dp_id d = i) \<longleftrightarrow> i \<in> set (st_active ?b) \<and> ?L \<noteq> {}" by blast
    then show "(\<exists>d \<in> set ds. dp_id d = i) = (i \<in> set (st_active ?b) \<and>
         (\<exists>x \<in> set (st_connected ?b). x \<noteq> i \<and> x \<notin> set (st_connected st) \<and> kind_of ctx x \<noteq> Some PhoneNode))" by auto
    fix d assume "d \<in> set ds" "dp_id d = i"
    then show "set (dp_dependents d) = ?L" using ds(3) lost(1)[OF _ st] by blast
  qed
qed

lemma critical_dependencies_exact_witness:
  "\<exists>ctx ds. createResilienceContext demo_spec = Inr ctx \<and> criticalDependencies ctx = Inr ds"
proof -
  obtain ctx where c: "createResilienceContext demo_spec = Inr ctx" using demo_created ..
  from critical_dependencies_exact[OF c] obtain ds where "criticalDependencies ctx = Inr ds" by (elim exE conjE)
  with c show ?thesis by blast
qed

end
