(* ===== verification/ResilienceScore.thy ===== *)
theory ResilienceScore
  imports ResilienceFailures
begin

text \<open>
  The ranking of single failures and the resilience score of \<open>tools/scenario-model/resilience.ts\<close>, and why the
  score lies between 0 and 100.
\<close>

section \<open>The ranking\<close>

record single_failure =
  sf_id :: string
  sf_kind :: node_kind
  sf_cutOff :: "string list"
  sf_phoneCutOff :: "string list"
  sf_recoverable :: "string list"
  sf_coverageLoss :: rat
  sf_critical :: bool

definition single_failure_of :: "res_context \<Rightarrow> res_node \<Rightarrow> failure_report \<Rightarrow> single_failure" where
  "single_failure_of ctx n rep =
     (let cutOff = filter (\<lambda>i. kind_of ctx i \<noteq> Some PhoneNode) (fr_cutOff rep)
      in \<lparr>sf_id = rn_id n, sf_kind = rn_kind n, sf_cutOff = cutOff,
          sf_phoneCutOff = filter (\<lambda>i. kind_of ctx i = Some PhoneNode) (fr_cutOff rep),
          sf_recoverable = map rc_id (filter (\<lambda>r. rc_newlyCutOff r \<and> kind_of ctx (rc_id r) \<noteq> Some PhoneNode) (fr_recoverable rep)),
          sf_coverageLoss = (case fr_coverage rep of
            Some (b, a) \<Rightarrow> max 0 (cr_connectedFrac b - cr_connectedFrac a) | None \<Rightarrow> 0),
          sf_critical = (cutOff \<noteq> [])\<rparr>)"

definition fail_one :: "res_context \<Rightarrow> res_node \<Rightarrow> res_error + single_failure" where
  "fail_one ctx n = (case evaluateFailure ctx \<lparr>fs_nodes = Some [rn_id n], fs_areas = None\<rparr> False of
     Inl e \<Rightarrow> Inl e | Inr rep \<Rightarrow> Inr (single_failure_of ctx n rep))"

definition failure_key :: "single_failure \<Rightarrow> nat \<times> rat \<times> nat \<times> string" where
  "failure_key f = (length (sf_cutOff f), sf_coverageLoss f, length (sf_phoneCutOff f), sf_id f)"

definition rankSingleFailures :: "res_context \<Rightarrow> res_error + single_failure list" where
  "rankSingleFailures ctx =
     (case try_map (fail_one ctx) (filter (\<lambda>n. \<not> (rn_inactive n \<or> rn_kind n = PhoneNode)) (gs_nodes (cx_spec ctx))) of
        Inl e \<Rightarrow> Inl e
      | Inr fs \<Rightarrow> Inr (sort_by (\<lambda>a b. worse_first (gs_localeCompare (cx_spec ctx)) (failure_key a) (failure_key b)) fs))"

section \<open>The score\<close>

record res_weights =
  w_coverage :: rat
  w_directConnectivity :: rat
  w_reachability :: rat
  w_redundancy :: rat
  w_coverageUnderFailure :: rat
  w_opportunisticRecovery :: rat

definition DEFAULT_WEIGHTS :: res_weights where
  "DEFAULT_WEIGHTS = \<lparr>w_coverage = 1, w_directConnectivity = 1, w_reachability = 1, w_redundancy = 1, w_coverageUnderFailure = 1,
     w_opportunisticRecovery = 1\<rparr>"

record score_component =
  sc_key :: string
  sc_value :: "rat option"
  sc_weight :: rat

record resilience_score =
  rs_score :: rat
  rs_components :: "score_component list"
  rs_criticalNodes :: "string list"
  rs_recoverableGaps :: "string list"
  rs_worst :: "(string \<times> nat) option"
  rs_singleFailures :: "single_failure list"

text \<open>The default order of \<open>sort()\<close> on strings.\<close>

fun code_compare :: "string \<Rightarrow> string \<Rightarrow> rat" where
  "code_compare [] [] = 0"
| "code_compare [] (b # bs) = -1"
| "code_compare (a # as) [] = 1"
| "code_compare (a # as) (b # bs) =
     (if (of_char a :: nat) < of_char b then -1 else if (of_char b :: nat) < of_char a then 1 else code_compare as bs)"

definition scoring_nodes :: "res_context \<Rightarrow> res_node list" where
  "scoring_nodes ctx =
     filter (\<lambda>n. \<not> rn_inactive n \<and> rn_kind n \<in> set (cx_scoreKinds ctx) \<and> \<not> isSink ctx (rn_id n)) (gs_nodes (cx_spec ctx))"

abbreviation among :: "res_node list \<Rightarrow> string \<Rightarrow> bool" where
  "among scoring i \<equiv> list_ex (\<lambda>s. rn_id s = i) scoring"

definition ratio :: "nat \<Rightarrow> nat \<Rightarrow> rat" where
  "ratio a b = of_nat a / of_nat b"

text \<open>The mean covered fraction over the single failures.\<close>

definition coverage_under_failure :: "rat \<Rightarrow> single_failure list \<Rightarrow> rat" where
  "coverage_under_failure share single =
     (if single \<noteq> [] then foldl (\<lambda>s f. s + max 0 (share - sf_coverageLoss f)) 0 single / of_nat (length single) else share)"

definition score_components ::
  "res_context \<Rightarrow> res_weights \<Rightarrow> single_failure list \<Rightarrow> rat option \<Rightarrow> score_component list" where
  "score_components ctx w single reachable =
     (let scoring = scoring_nodes ctx;
          conn = filter (\<lambda>n. rn_id n \<in> set (st_connected (cx_baseline ctx))) scoring;
          cov = coverageFractions ctx (cx_baseline ctx);
          nonRedundant = concat (map (\<lambda>f. filter (\<lambda>i. i \<noteq> sf_id f) (sf_cutOff f)) single);
          cutTotal = sum_list (map (\<lambda>f. length (filter (among scoring) (sf_cutOff f))) single);
          recTotal = sum_list (map (\<lambda>f. length (filter (among scoring) (sf_recoverable f))) single)
      in [\<lparr>sc_key = ''coverage'', sc_value = map_option cr_connectedFrac cov, sc_weight = w_coverage w\<rparr>,
          \<lparr>sc_key = ''directConnectivity'', sc_value = (if scoring \<noteq> [] then Some (ratio (length conn) (length scoring)) else None),
             sc_weight = w_directConnectivity w\<rparr>,
          \<lparr>sc_key = ''reachability'', sc_value = reachable, sc_weight = w_reachability w\<rparr>,
          \<lparr>sc_key = ''redundancy'',
             sc_value = (if scoring \<noteq> [] then Some (if conn \<noteq> []
               then ratio (length (filter (\<lambda>n. rn_id n \<notin> set nonRedundant) conn)) (length conn) else 0) else None),
             sc_weight = w_redundancy w\<rparr>,
          \<lparr>sc_key = ''coverageUnderFailure'',
             sc_value = map_option (\<lambda>c. coverage_under_failure (cr_connectedFrac c) single) cov, sc_weight = w_coverageUnderFailure w\<rparr>,
          \<lparr>sc_key = ''opportunisticRecovery'',
             sc_value = (if gs_timeline (cx_spec ctx) \<noteq> None \<and> cutTotal > 0 then Some (ratio recTotal cutTotal) else None),
             sc_weight = w_opportunisticRecovery w\<rparr>])"

definition reachability :: "res_context \<Rightarrow> res_error + rat option" where
  "reachability ctx =
     (let scoring = scoring_nodes ctx; base = set (st_connected (cx_baseline ctx)) in
      if gs_timeline (cx_spec ctx) \<noteq> None \<and> scoring \<noteq> [] then
        (case opportunisticArrivals ctx [] [] (map rn_id (filter (\<lambda>n. rn_id n \<notin> base) scoring)) of
           Inl e \<Rightarrow> Inl e
         | Inr arr \<Rightarrow> Inr (Some (ratio (length (filter (\<lambda>n. rn_id n \<in> base) scoring) + length arr) (length scoring))))
      else Inr None)"

definition used_components :: "score_component list \<Rightarrow> (rat \<times> rat) list" where
  "used_components cs = List.map_filter (\<lambda>c. case sc_value c of
     Some v \<Rightarrow> if sc_weight c > 0 then Some (sc_weight c, v) else None | None \<Rightarrow> None) cs"

definition weighted_score :: "score_component list \<Rightarrow> rat" where
  "weighted_score cs =
     (let used = used_components cs; wSum = foldl (\<lambda>s (w, v). s + w) 0 used
      in if wSum > 0 then 100 * foldl (\<lambda>s (w, v). s + w * v) 0 used / wSum else 0)"

definition resilienceScore :: "res_context \<Rightarrow> res_weights \<Rightarrow> res_error + resilience_score" where
  "resilienceScore ctx w = (case rankSingleFailures ctx of Inl e \<Rightarrow> Inl e
   | Inr single \<Rightarrow> (case reachability ctx of Inl e \<Rightarrow> Inl e
   | Inr reachable \<Rightarrow>
       (let cs = score_components ctx w single reachable;
            gaps = foldl (\<lambda>g f. foldl (\<lambda>g i. set_add i g) g (filter (among (scoring_nodes ctx)) (sf_recoverable f))) [] single
        in Inr \<lparr>rs_score = weighted_score cs, rs_components = cs, rs_criticalNodes = map sf_id (filter sf_critical single),
             rs_recoverableGaps = sort_by code_compare gaps,
             rs_worst = (case single of f # _ \<Rightarrow> if sf_cutOff f \<noteq> [] then Some (sf_id f, length (sf_cutOff f)) else None | [] \<Rightarrow> None),
             rs_singleFailures = single\<rparr>)))"

section \<open>Fractions\<close>

lemma ratio_bounds: "a \<le> b \<Longrightarrow> 0 \<le> ratio a b \<and> ratio a b \<le> 1"
  by (cases "b = 0") (auto simp: ratio_def divide_le_eq_1)

definition fits :: "nat list \<Rightarrow> nat list \<Rightarrow> bool" where
  "fits xs land \<longleftrightarrow> length xs = length land \<and> (\<forall>i < length land. xs ! i \<le> land ! i)"

lemma fits_sum: "fits xs land \<Longrightarrow> sum_list xs \<le> sum_list land"
  unfolding fits_def by (intro sum_list_mono2) auto

lemma paint_fits: "fits xs land \<Longrightarrow> fits (paint land halo xs) land"
  by (auto simp: fits_def paint_def cell_of_def)

lemma cover_fits:
  "fits (fst ms) (cov_land cov) \<Longrightarrow> fits (snd ms) (cov_land cov) \<Longrightarrow>
   fits (fst (foldl (cover_node cov st) ms is)) (cov_land cov) \<and> fits (snd (foldl (cover_node cov st) ms is)) (cov_land cov)"
  by (induction "is" arbitrary: ms) (auto simp: cover_node_def paint_fits split: option.splits prod.splits)

lemma fraction_bounds:
  assumes "coverageFractions ctx st = Some c"
  shows "0 \<le> cr_connectedFrac c \<and> cr_connectedFrac c \<le> 1"
proof -
  from assms obtain cov where cov: "gs_coverage (cx_spec ctx) = Some cov" by (auto simp: coverageFractions_def split: option.splits)
  let ?z = "replicate (length (cov_land cov)) (0 :: nat)"
  let ?m = "foldl (cover_node cov st) (?z, ?z) (st_active st)"
  have "fits (fst ?m) (cov_land cov)" by (rule cover_fits[THEN conjunct1]) (simp_all add: fits_def)
  then have "ratio (sum_list (fst ?m)) (sum_list (cov_land cov)) \<le> 1 \<and> 0 \<le> ratio (sum_list (fst ?m)) (sum_list (cov_land cov))"
    using ratio_bounds fits_sum by blast
  moreover have "cr_connectedFrac c =
      (if sum_list (cov_land cov) = 0 then 0 else ratio (sum_list (fst ?m)) (sum_list (cov_land cov)))"
    using assms by (simp add: coverageFractions_def cov Let_def split_beta ratio_def) (auto simp del: sum_list_eq_0_iff)
  ultimately show ?thesis by auto
qed

lemma foldl_plus_sum: "foldl (\<lambda>s x. s + f x) (a :: rat) xs = a + sum_list (map f xs)"
  by (induction xs arbitrary: a) (simp_all add: add.assoc)

lemma coverage_under_failure_bounds:
  assumes "0 \<le> share" and "share \<le> 1" and "\<And>f. f \<in> set single \<Longrightarrow> 0 \<le> sf_coverageLoss f"
  shows "0 \<le> coverage_under_failure share single \<and> coverage_under_failure share single \<le> 1"
proof (cases "single = []")
  case False
  let ?t = "\<lambda>f. max 0 (share - sf_coverageLoss f)"
  have "0 \<le> sum_list (map ?t single)" by (rule sum_list_nonneg) auto
  moreover have "sum_list (map ?t single) \<le> sum_list (map (\<lambda>_. 1) single)"
    by (rule sum_list_mono) (use assms in force)
  moreover have "sum_list (map (\<lambda>_. 1 :: rat) single) = of_nat (length single)" by (simp add: sum_list_triv)
  ultimately show ?thesis using False by (simp add: coverage_under_failure_def foldl_plus_sum divide_le_eq_1)
qed (use assms in \<open>simp add: coverage_under_failure_def\<close>)

section \<open>Counting\<close>

lemma opp_result_distinct:
  "distinct (map fst (op_result op)) \<Longrightarrow> opp_steps ctx active areas startT steps op = Inr op' \<Longrightarrow> distinct (map fst (op_result op'))"
proof (induction ctx active areas startT steps op rule: opp_steps.induct)
  case (2 ctx active areas startT t edges steps op)
  have src: "distinct (map fst (op_result o1)) \<Longrightarrow> distinct (map fst (op_result (foldl (opp_source ctx comps a) o1 srcs)))"
    for o1 comps a srcs
    by (induction srcs arbitrary: o1) (auto simp: opp_source_def Let_def distinct_update)
  show ?case using 2 src by (auto split: if_splits option.splits)
qed simp

lemma arrivals_distinct: "opportunisticArrivals ctx failed areas srcs = Inr arr \<Longrightarrow> distinct (map fst arr)"
  by (auto simp: opportunisticArrivals_def dest: opp_result_distinct[rotated] split: option.splits if_splits sum.splits)

lemma arrivals_among:
  assumes "distinct (ids_of (cx_spec ctx))" and "opportunisticArrivals ctx failed areas srcs = Inr arr"
  shows "fst ` set arr \<subseteq> set srcs"
proof
  fix i assume "i \<in> fst ` set arr"
  then have "map_of arr i \<noteq> None" by (simp add: map_of_keys)
  with arrivals_exact[OF assms(1), of failed areas srcs] assms(2) show "i \<in> set srcs" by (auto split: if_splits)
qed

lemma distinct_insert_by: "distinct (map f (insert_by c x xs)) \<longleftrightarrow> distinct (map f (x # xs))"
  by (induction xs) (auto simp: set_insert_by)

lemma distinct_sort_fold: "distinct (map f (foldl (\<lambda>ys x. insert_by c x ys) ys xs)) \<longleftrightarrow> distinct (map f (ys @ xs))"
  by (induction xs arbitrary: ys) (auto simp: distinct_insert_by set_insert_by)

lemma distinct_sort_by: "distinct (map f (sort_by c xs)) \<longleftrightarrow> distinct (map f xs)"
  by (simp add: sort_by_def distinct_sort_fold)

lemma sublength: "distinct xs \<Longrightarrow> set xs \<subseteq> set ys \<Longrightarrow> length xs \<le> length ys"
  by (metis List.finite_set card_mono card_length distinct_card order_trans)

text \<open>What one failure of the ranking satisfies.\<close>

definition failure_sound :: "single_failure \<Rightarrow> bool" where
  "failure_sound f \<longleftrightarrow> 0 \<le> sf_coverageLoss f \<and> distinct (sf_recoverable f) \<and> set (sf_recoverable f) \<subseteq> set (sf_cutOff f)"

lemma fail_one_sound:
  assumes ids: "distinct (ids_of (cx_spec ctx))" and f: "fail_one ctx n = Inr f"
  shows "failure_sound f"
proof -
  from f obtain rep where ev: "evaluateFailure ctx \<lparr>fs_nodes = Some [rn_id n], fs_areas = None\<rparr> False = Inr rep"
    and sf: "f = single_failure_of ctx n rep" by (auto simp: fail_one_def split: sum.splits)
  from ev obtain areas failed after arr ds where
    arr: "opportunisticArrivals ctx failed areas (filter (\<lambda>i. i \<notin> set (st_connected after)) (active_nodes ctx failed)) = Inr arr"
    and rep: "rep = failure_report_of ctx failed after arr ds" by (rule report_parts)
  let ?rec = "map (\<lambda>(i, t). \<lparr>rc_id = i, rc_arrivalS = t, rc_newlyCutOff = i \<in> set (st_connected (cx_baseline ctx))\<rparr>) arr"
  let ?c = "\<lambda>a b. or_else (rc_arrivalS a - rc_arrivalS b) (gs_localeCompare (cx_spec ctx) (rc_id a) (rc_id b))"
  have r: "fr_recoverable rep = sort_by ?c ?rec"
    "fr_cutOff rep = filter (\<lambda>i. i \<in> set (st_connected (cx_baseline ctx))) (filter (\<lambda>i. i \<notin> set (st_connected after)) (active_nodes ctx failed))"
    by (simp_all add: rep failure_report_of_def Let_def split_beta not_connected)
  have "map rc_id ?rec = map fst arr" by (auto simp: split_beta)
  then have "distinct (map rc_id (sort_by ?c ?rec))" unfolding distinct_sort_by using arrivals_distinct[OF arr] by (simp only:)
  then have "distinct (sf_recoverable f)" by (simp add: sf single_failure_of_def Let_def r distinct_map_filter)
  moreover have "set (sf_recoverable f) \<subseteq> set (sf_cutOff f)"
    using arrivals_among[OF ids arr] by (auto simp: sf single_failure_of_def Let_def r)
  moreover have "0 \<le> sf_coverageLoss f" by (auto simp: sf single_failure_of_def Let_def split: option.splits)
  ultimately show ?thesis by (simp add: failure_sound_def)
qed

lemma try_map_from: "try_map g xs = Inr ys \<Longrightarrow> y \<in> set ys \<Longrightarrow> \<exists>x \<in> set xs. g x = Inr y"
  by (induction xs arbitrary: ys) (auto split: sum.splits)

lemma ranking_sound:
  assumes ids: "distinct (ids_of (cx_spec ctx))" and r: "rankSingleFailures ctx = Inr single"
  shows "\<forall>f \<in> set single. failure_sound f"
proof -
  from r obtain fs where fs: "try_map (fail_one ctx) (filter (\<lambda>n. \<not> (rn_inactive n \<or> rn_kind n = PhoneNode)) (gs_nodes (cx_spec ctx))) = Inr fs"
    and s: "set single = set fs" by (auto simp: rankSingleFailures_def split: sum.splits)
  show ?thesis unfolding s using try_map_from[OF fs] fail_one_sound[OF ids] by blast
qed

section \<open>The score lies between 0 and 100\<close>

definition unit_value :: "rat option \<Rightarrow> bool" where
  "unit_value v = (case v of None \<Rightarrow> True | Some x \<Rightarrow> 0 \<le> x \<and> x \<le> 1)"

lemma sum_length_mono: "(\<And>x. x \<in> set xs \<Longrightarrow> f x \<le> g x) \<Longrightarrow> sum_list (map f xs) \<le> (sum_list (map g xs) :: nat)"
  by (rule sum_list_mono)

lemma components_unit:
  assumes single: "\<forall>f \<in> set single. failure_sound f" and reach: "unit_value reachable"
  shows "\<forall>c \<in> set (score_components ctx w single reachable). unit_value (sc_value c)"
proof -
  let ?s = "scoring_nodes ctx"
  have cov: "unit_value (map_option cr_connectedFrac (coverageFractions ctx (cx_baseline ctx)))"
    "unit_value (map_option (\<lambda>c. coverage_under_failure (cr_connectedFrac c) single) (coverageFractions ctx (cx_baseline ctx)))"
    using fraction_bounds[of ctx "cx_baseline ctx"] coverage_under_failure_bounds[of _ single] single
    by (auto simp: unit_value_def failure_sound_def split: option.splits)
  have counts: "sum_list (map (\<lambda>f. length (filter (among ?s) (sf_recoverable f))) single) \<le>
      sum_list (map (\<lambda>f. length (filter (among ?s) (sf_cutOff f))) single)"
  proof (rule sum_length_mono)
    fix f assume "f \<in> set single"
    with single have "failure_sound f" by blast
    then show "length (filter (among ?s) (sf_recoverable f)) \<le> length (filter (among ?s) (sf_cutOff f))"
      unfolding failure_sound_def by (intro sublength) (auto simp: distinct_filter)
  qed
  have unit: "unit_value (Some (ratio a b))" if "a \<le> b" for a b using ratio_bounds[OF that] by (simp add: unit_value_def)
  have none: "unit_value None" "unit_value (Some 0)" by (simp_all add: unit_value_def)
  show ?thesis unfolding score_components_def Let_def
    using cov reach counts by (simp add: unit none length_filter_le del: filter_filter)
qed

lemma foldl_pairs:
  "foldl (\<lambda>s (w, v). s + w) a ps = a + sum_list (map fst ps)"
  "foldl (\<lambda>s (w, v). s + w * v) a ps = a + sum_list (map (\<lambda>p. fst p * snd p) ps)" for a :: rat
  by (induction ps arbitrary: a) (auto simp: add.assoc)

lemma weighted_bounds:
  assumes "\<forall>c \<in> set cs. unit_value (sc_value c)"
  shows "0 \<le> weighted_score cs \<and> weighted_score cs \<le> 100"
proof -
  let ?u = "used_components cs"
  have u: "0 < fst p \<and> 0 \<le> snd p \<and> snd p \<le> 1" if p: "p \<in> set ?u" for p
    using p assms by (auto simp: used_components_def map_filter_def unit_value_def split: option.splits if_splits)
  have "0 \<le> sum_list (map (\<lambda>p. fst p * snd p) ?u)" by (rule sum_list_nonneg) (use u in \<open>auto dest!: u intro: mult_nonneg_nonneg\<close>)
  moreover have "sum_list (map (\<lambda>p. fst p * snd p) ?u) \<le> sum_list (map fst ?u)"
    by (rule sum_list_mono) (use u mult_left_le in \<open>force\<close>)
  ultimately show ?thesis by (simp add: weighted_score_def Let_def foldl_pairs divide_le_eq)
qed

lemma reachability_unit:
  assumes ids: "distinct (ids_of (cx_spec ctx))"
  shows "\<exists>r. reachability ctx = Inr r \<and> unit_value r"
proof -
  let ?base = "\<lambda>n. rn_id n \<in> set (st_connected (cx_baseline ctx))"
  let ?src = "map rn_id (filter (\<lambda>n. \<not> ?base n) (scoring_nodes ctx))"
  from arrivals_exact[OF ids] obtain arr where arr: "opportunisticArrivals ctx [] [] ?src = Inr arr" by blast
  have "length (map fst arr) \<le> length ?src"
    by (rule sublength[OF arrivals_distinct[OF arr]]) (use arrivals_among[OF ids arr] in simp)
  then have "length (filter ?base (scoring_nodes ctx)) + length arr \<le> length (scoring_nodes ctx)"
    using sum_length_filter_compl[of ?base "scoring_nodes ctx"] by (simp only: length_map)
  from ratio_bounds[OF this] arr show ?thesis by (auto simp: reachability_def Let_def unit_value_def)
qed

lemma ranking_returns:
  assumes ctx: "createResilienceContext spec = Inr ctx"
  shows "\<exists>single. rankSingleFailures ctx = Inr single"
proof -
  note c = context_created[OF ctx]
  have "\<exists>f. fail_one ctx n = Inr f \<and> True" if n: "n \<in> set (gs_nodes (cx_spec ctx))" for n
  proof -
    have "evaluateFailure ctx \<lparr>fs_nodes = Some [rn_id n], fs_areas = None\<rparr> False \<noteq> Inl e" for e
    proof
      assume e: "evaluateFailure ctx \<lparr>fs_nodes = Some [rn_id n], fs_areas = None\<rparr> False = Inl e"
      have "rn_id n \<in> set (ids_of (cx_spec ctx))" using n by (simp add: ids_of_def)
      then have "resolveAreas ctx None = Inr []" "resolveFailed ctx \<lparr>fs_nodes = Some [rn_id n], fs_areas = None\<rparr> [] = Inr [rn_id n]"
        by (simp_all add: resolveAreas_def resolveFailed_def set_add_def)
      moreover obtain st where "computeState ctx [rn_id n] [] = Inr st" using computeState_exact[OF c(2)] by blast
      moreover obtain arr where
        "opportunisticArrivals ctx [rn_id n] [] (filter (\<lambda>i. i \<notin> set (st_connected st)) (active_nodes ctx [rn_id n])) = Inr arr"
        using arrivals_exact[OF c(2)] by blast
      ultimately show False using e by (simp add: evaluateFailure_def not_connected)
    qed
    then show ?thesis by (cases "evaluateFailure ctx \<lparr>fs_nodes = Some [rn_id n], fs_areas = None\<rparr> False") (auto simp: fail_one_def)
  qed
  then have "\<exists>fs. try_map (fail_one ctx) (filter (\<lambda>n. \<not> (rn_inactive n \<or> rn_kind n = PhoneNode)) (gs_nodes (cx_spec ctx))) = Inr fs \<and>
      list_all2 (\<lambda>_ _. True) (filter (\<lambda>n. \<not> (rn_inactive n \<or> rn_kind n = PhoneNode)) (gs_nodes (cx_spec ctx))) fs"
    by (intro try_map_Inr) auto
  then show ?thesis by (auto simp: rankSingleFailures_def)
qed

text \<open>C17: The resilience score of any network the constructor accepts, under any weights, is computed and lies between 0 and 100, as does
  (between 0 and 1) every component that can be computed.\<close>

theorem resilience_score_bounds:
  assumes ctx: "createResilienceContext spec = Inr ctx"
  shows "\<exists>sc. resilienceScore ctx w = Inr sc \<and> 0 \<le> rs_score sc \<and> rs_score sc \<le> 100 \<and>
    (\<forall>c \<in> set (rs_components sc). \<forall>v. sc_value c = Some v \<longrightarrow> 0 \<le> v \<and> v \<le> 1)"
proof -
  note ids = context_created(2)[OF ctx]
  obtain single where single: "rankSingleFailures ctx = Inr single" using ranking_returns[OF ctx] by blast
  obtain r where r: "reachability ctx = Inr r" "unit_value r" using reachability_unit[OF ids] by blast
  have u: "\<forall>c \<in> set (score_components ctx w single r). unit_value (sc_value c)"
    by (rule components_unit[OF ranking_sound[OF ids single] r(2)])
  from weighted_bounds[OF u] u show ?thesis by (auto simp: resilienceScore_def single r(1) Let_def unit_value_def)
qed

lemma resilience_score_bounds_witness:
  "\<exists>ctx sc. createResilienceContext demo_spec = Inr ctx \<and> resilienceScore ctx DEFAULT_WEIGHTS = Inr sc \<and> rs_score sc \<le> 100"
proof -
  obtain ctx where c: "createResilienceContext demo_spec = Inr ctx" using demo_created ..
  from resilience_score_bounds[OF c, of DEFAULT_WEIGHTS] c show ?thesis by blast
qed

end
