(* ===== verification/Galois.thy ===== *)
theory Galois
  imports Prelude
begin

text \<open>
  The arithmetic of GF(256) that the QR encoder of \<open>node/src/qrcode.ts\<close> uses for its error correction: the
  tables of powers and logarithms built by \<open>initGaloisField\<close> and the multiplication \<open>gfMul\<close> that reads them. The
  reference is multiplication bit by bit; the development shows that the tables compute it, from the fact that
  doubling has order exactly 255. Numbers are naturals: every value is below 512, far from the 32 bits of the
  operators of the language.
\<close>

unbundle bit_operations_syntax

section \<open>The tables\<close>

text \<open>\<open>x <<= 1; if (x & 0x100) x ^= 0x11d\<close>.\<close>

definition double :: "nat \<Rightarrow> nat" where
  "double x = (let y = push_bit 1 x in if bit y 8 then y XOR 0x11d else y)"

definition gf_step :: "nat \<times> nat list \<times> nat list \<Rightarrow> nat \<Rightarrow> nat \<times> nat list \<times> nat list" where
  "gf_step st i = (case st of (x, ex, lg) \<Rightarrow> (double x, ex[i := x], lg[x := i]))"

definition gf_tables :: "nat list \<times> nat list" where
  "gf_tables = (case foldl gf_step (1, replicate 256 0, replicate 256 0) [0..<255] of (x, ex, lg) \<Rightarrow> (ex[255 := ex ! 0], lg))"

definition GF_EXP :: "nat list" where "GF_EXP = fst gf_tables"

definition GF_LOG :: "nat list" where "GF_LOG = snd gf_tables"

definition gfMul :: "nat \<Rightarrow> nat \<Rightarrow> nat" where
  "gfMul a b = (if a = 0 \<or> b = 0 then 0 else GF_EXP ! ((GF_LOG ! a + GF_LOG ! b) mod 255))"

text \<open>The reference: multiplication of polynomials over the bits, reduced as it goes.\<close>

fun gf_times :: "nat \<Rightarrow> nat \<Rightarrow> nat \<Rightarrow> nat" where
  "gf_times 0 a b = 0"
| "gf_times (Suc n) a b = (if odd a then b else 0) XOR gf_times n (a div 2) (double b)"

section \<open>Bits and bounds\<close>

lemma less_bits: "x < 2 ^ n \<longleftrightarrow> (\<forall>m \<ge> n. \<not> bit x m)" for x :: nat
proof -
  have "x < 2 ^ n \<longleftrightarrow> take_bit n x = x" by (simp add: take_bit_nat_eq_self_iff)
  also have "\<dots> \<longleftrightarrow> (\<forall>m. (m < n \<and> bit x m) = bit x m)" by (simp only: bit_eq_iff bit_take_bit_iff possible_bit_nat simp_thms)
  also have "\<dots> \<longleftrightarrow> (\<forall>m \<ge> n. \<not> bit x m)" by (metis not_less)
  finally show ?thesis .
qed

lemma byte_bits: "x < 256 \<longleftrightarrow> (\<forall>m \<ge> 8. \<not> bit x m)" for x :: nat
  using less_bits[of x 8] by simp

lemma xor_byte [intro]: "x < 256 \<Longrightarrow> y < 256 \<Longrightarrow> x XOR y < 256" for x :: nat
  by (auto simp: byte_bits bit_xor_iff)

lemma xor_swap: "(a XOR b) XOR (c XOR d) = (a XOR c) XOR (b XOR d)" for a :: nat
  by (simp add: ac_simps)

lemma double_xor: "double (x XOR y) = double x XOR double y"
  by (simp add: double_def Let_def push_bit_xor bit_xor_iff ac_simps xor.left_commute)

lemma double_byte: "x < 256 \<Longrightarrow> double x < 256"
proof -
  assume x: "x < 256"
  let ?y = "push_bit 1 x"
  have y: "?y < 2 ^ 9" and p: "(285 :: nat) < 2 ^ 9" using x by (simp_all add: push_bit_nat_def)
  have "\<not> bit (?y XOR 285) m" if "bit ?y 8" "m \<ge> 8" for m
  proof (cases "m = 8")
    case True
    with that show ?thesis by (simp add: bit_xor_iff bit_0)
  next
    case False
    with that have "m \<ge> 9" by simp
    then have "\<not> bit ?y m" "\<not> bit (285 :: nat) m" using y p unfolding less_bits by blast+
    then show ?thesis by (simp only: bit_xor_iff simp_thms)
  qed
  moreover have "\<not> bit ?y m" if "\<not> bit ?y 8" "m \<ge> 8" for m
    using that y unfolding less_bits by (cases "m = 8") auto
  ultimately show ?thesis by (auto simp: double_def Let_def byte_bits)
qed

lemma double_0 [simp]: "double 0 = 0"
  by (simp add: double_def)

section \<open>The powers of two\<close>

definition pw :: "nat \<Rightarrow> nat" where
  "pw i = (double ^^ i) 1"

lemma pw_0: "pw 0 = 1" and pw_Suc: "pw (Suc i) = double (pw i)"
  by (simp_all add: pw_def)

lemma doubles_xor: "(double ^^ n) (x XOR y) = (double ^^ n) x XOR (double ^^ n) y"
  by (induction n) (simp_all add: double_xor)

lemma doubles_0: "(double ^^ n) 0 = 0"
  by (induction n) simp_all

lemma doubles_byte: "x < 256 \<Longrightarrow> (double ^^ n) x < 256"
  by (induction n) (simp_all add: double_byte)

lemma doubles_pw: "(double ^^ n) (pw m) = pw (n + m)"
  by (simp add: pw_def funpow_add)

lemma double_eq_0: "double x = 0 \<longleftrightarrow> x = 0"
proof -
  have "push_bit 1 x XOR 285 \<noteq> 0"
  proof
    assume "push_bit 1 x XOR 285 = 0"
    then have "bit (push_bit 1 x) 0 = bit (285 :: nat) 0" by (metis bit_xor_iff bit_0_eq bot_apply bot_bool_def)
    then show False by (simp add: bit_0)
  qed
  moreover have "push_bit 1 x = 0 \<longleftrightarrow> x = 0" by (simp add: push_bit_eq_mult)
  ultimately show ?thesis unfolding double_def Let_def by (metis bit_0_eq bot_apply bot_bool_def)
qed

lemma double_inj: "double x = double y \<Longrightarrow> x = y"
proof -
  assume "double x = double y"
  then have "double (x XOR y) = 0" by (simp add: double_xor)
  then have "x XOR y = 0" by (simp only: double_eq_0)
  then show "x = y" by (metis xor.assoc xor.right_neutral xor_self_eq)
qed

lemma doubles_inj: "(double ^^ n) x = (double ^^ n) y \<Longrightarrow> x = y"
  by (induction n) (auto dest: double_inj)

lemma pw_byte: "pw i < 256" and pw_pos: "0 < pw i"
proof -
  show "pw i < 256" by (simp add: pw_def doubles_byte)
  show "0 < pw i" by (induction i) (simp_all add: pw_0 pw_Suc double_eq_0 flip: neq0_conv)
qed

lemma pw_numeral: "pw (numeral n) = double (pw (pred_numeral n))"
  by (simp add: numeral_eq_Suc pw_Suc)

lemma double_numeral: "double (numeral n) = (if bit (numeral n * 2 :: nat) 8 then (numeral n * 2) XOR 285 else numeral n * 2)"
  by (simp add: double_def)

lemma double_3: "double (Suc (Suc (Suc 0))) = 6"
  by (simp add: double_def)

lemma pw_1: "pw (Suc 0) = 2"
  by (simp add: pw_def double_def)

text \<open>The order of doubling: 255, and none of its largest proper divisors.\<close>

lemma pw_orders: "pw 255 = 1" "pw 15 \<noteq> 1" "pw 51 \<noteq> 1" "pw 85 \<noteq> 1"
  by (simp_all add: pw_numeral pw_1 double_numeral double_3 bit_0)

lemma pw_cycle: "pw (n * 255 + i) = pw i"
proof (induction n)
  case (Suc n)
  have "pw (Suc n * 255 + i) = (double ^^ (n * 255 + i)) (pw 255)" unfolding doubles_pw by (rule arg_cong[of _ _ pw]) simp
  also have "\<dots> = pw (n * 255 + i)" by (simp only: pw_orders(1)) (simp only: pw_def)
  finally show ?case using Suc by simp
qed simp

lemma pw_mod: "pw (i mod 255) = pw i"
  using pw_cycle[of "i div 255" "i mod 255"] by simp

lemma pw_mult: "pw d = 1 \<Longrightarrow> pw (d * k) = 1"
  by (induction k) (use doubles_pw[of d] in \<open>simp_all add: pw_0 pw_def funpow_add\<close>)

lemma divisors_255:
  assumes "g dvd 255" and "g \<noteq> (255 :: nat)"
  shows "g dvd 15 \<or> g dvd 51 \<or> g dvd 85"
proof -
  from assms(1) obtain k where k: "255 = g * k" ..
  have "g \<le> 85"
  proof (rule ccontr)
    assume "\<not> g \<le> 85"
    then have "86 * k \<le> g * k" by (intro mult_le_mono1) simp
    with k have "k < 3" by simp
    then have "k = 0 \<or> k = 1 \<or> k = 2" by auto
    then show False using k assms(2) by (elim disjE) (simp_all, presburger)
  qed
  moreover have "g \<noteq> 0" using k by (intro notI) simp
  ultimately have "g = 1 \<or> g \<in> set [2..<86]" by (auto simp del: upt_rec_numeral)
  moreover have "list_all (\<lambda>g. 255 mod g = 0 \<longrightarrow> 15 mod g = 0 \<or> 51 mod g = 0 \<or> 85 mod g = 0) [2..<86 :: nat]" by simp
  moreover have "255 mod g = 0" using assms(1) by (simp add: dvd_eq_mod_eq_0)
  ultimately show ?thesis unfolding list_all_iff dvd_eq_mod_eq_0 by (metis mod_by_1)
qed

lemma order_255: "pw d = 1 \<Longrightarrow> 255 dvd d"
proof -
  assume d: "pw d = 1"
  show "255 dvd d"
  proof (cases "d = 0")
    case False
    from bezout_nat[OF this, of 255] obtain x y where xy: "d * x = 255 * y + gcd d 255" by blast
    have "pw (gcd d 255) = pw (y * 255 + gcd d 255)" by (simp only: pw_cycle)
    also have "\<dots> = 1" using pw_mult[OF d, of x] xy by (simp add: mult.commute)
    finally have g: "pw (gcd d 255) = 1" .
    have div: "gcd d 255 dvd (255 :: nat)" by simp
    show ?thesis
    proof (rule ccontr)
      assume "\<not> 255 dvd d"
      then have "gcd d 255 \<noteq> 255" by (metis gcd_dvd1)
      from divisors_255[OF div this] have "gcd d 255 dvd 15 \<or> gcd d 255 dvd 51 \<or> gcd d 255 dvd 85" .
      then show False using pw_mult[OF g] pw_orders by (auto elim!: dvdE)
    qed
  qed simp
qed

lemma pw_inj: "i < 255 \<Longrightarrow> j < 255 \<Longrightarrow> pw i = pw j \<Longrightarrow> i = j"
proof (induction i j rule: linorder_wlog)
  case (le i j)
  then have "(double ^^ i) (pw (j - i)) = (double ^^ i) (pw 0)" by (simp only: doubles_pw) simp
  then have "pw (j - i) = 1" by (auto dest: doubles_inj simp: pw_0)
  from order_255[OF this] le show ?case by (auto dest: dvd_imp_le)
next
  case (sym i j)
  then show ?case by metis
qed

lemma pw_onto: "0 < b \<Longrightarrow> b < 256 \<Longrightarrow> \<exists>i < 255. b = pw i"
proof -
  assume b: "0 < b" "b < 256"
  have "inj_on pw {..<255}" by (auto simp: inj_on_def intro: pw_inj)
  then have "card (pw ` {..<255}) = card {1..<256 :: nat}" by (simp add: card_image)
  moreover have "pw ` {..<255} \<subseteq> {1..<256}" using pw_byte pw_pos by (auto simp: Suc_le_eq)
  ultimately have "pw ` {..<255} = {1..<256}" by (intro card_subset_eq) simp_all
  with b have "b \<in> pw ` {..<255}" by auto
  then show ?thesis by auto
qed

section \<open>The tables hold powers and logarithms\<close>

lemma table_loop:
  "k \<le> 255 \<Longrightarrow> \<exists>ex lg. foldl gf_step (1, replicate 256 0, replicate 256 0) [0..<k] = (pw k, ex, lg) \<and>
     length ex = 256 \<and> length lg = 256 \<and> (\<forall>i < k. ex ! i = pw i \<and> lg ! pw i = i)"
proof (induction k)
  case 0
  then show ?case by (simp add: pw_0)
next
  case (Suc k)
  then obtain ex lg where h: "foldl gf_step (1, replicate 256 0, replicate 256 0) [0..<k] = (pw k, ex, lg)"
    "length ex = 256" "length lg = 256" "\<forall>i < k. ex ! i = pw i \<and> lg ! pw i = i" by auto
  have "lg[pw k := k] ! pw i = i" if "i < Suc k" for i
    using that h pw_inj[of i k] Suc.prems pw_byte[of k] by (cases "i = k") (auto simp: nth_list_update)
  moreover have "ex[k := pw k] ! i = pw i" if "i < Suc k" for i
    using that h Suc.prems by (cases "i = k") (auto simp: nth_list_update)
  moreover have "gf_step (pw k, ex, lg) k = (pw (Suc k), ex[k := pw k], lg[pw k := k])" by (simp add: gf_step_def pw_Suc)
  ultimately show ?case using h by simp
qed

lemma gf_tables_exact: "i < 255 \<Longrightarrow> GF_EXP ! i = pw i \<and> GF_LOG ! pw i = i"
proof -
  assume i: "i < 255"
  obtain ex lg where t: "foldl gf_step (1, replicate 256 0, replicate 256 0) [0..<255] = (pw 255, ex, lg)"
    "length ex = 256" "\<forall>i < 255. ex ! i = pw i \<and> lg ! pw i = i" using table_loop[of 255] by auto
  then have "GF_EXP = ex[255 := ex ! 0]" "GF_LOG = lg" unfolding GF_EXP_def GF_LOG_def gf_tables_def by auto
  moreover have "ex[255 := ex ! 0] ! i = ex ! i" using i by (intro nth_list_update_neq) simp
  ultimately show ?thesis using t(3) i by simp
qed

lemma gfMul_pw: "gfMul (pw i) (pw j) = pw (i + j)"
proof -
  have "GF_LOG ! pw i = i mod 255" for i using gf_tables_exact[of "i mod 255"] by (simp add: pw_mod)
  then have "gfMul (pw i) (pw j) = pw ((i mod 255 + j mod 255) mod 255)"
    using pw_pos[of i] pw_pos[of j] gf_tables_exact[of "(i mod 255 + j mod 255) mod 255"] by (simp add: gfMul_def)
  then show ?thesis by (simp add: mod_add_eq pw_mod)
qed

lemma gfMul_0 [simp]: "gfMul 0 b = 0" "gfMul a 0 = 0"
  by (simp_all add: gfMul_def)

lemma gfMul_comm: "gfMul a b = gfMul b a"
  by (simp add: gfMul_def add.commute disj_commute)

text \<open>Multiplying by a power of two is doubling.\<close>

lemma gfMul_doubles: "b < 256 \<Longrightarrow> gfMul (pw i) b = (double ^^ i) b"
  using pw_onto[of b] by (cases "b = 0") (auto simp: gfMul_pw doubles_pw doubles_0)

lemma byte_cases:
  assumes "a < 256"
  obtains "a = 0" | i where "a = pw i"
  using assms pw_onto[of a] by (cases "a = 0") auto

lemma gfMul_byte: "a < 256 \<Longrightarrow> b < 256 \<Longrightarrow> gfMul a b < 256"
  by (erule byte_cases) (auto simp: gfMul_doubles doubles_byte)

lemma gfMul_xor: "a < 256 \<Longrightarrow> b < 256 \<Longrightarrow> c < 256 \<Longrightarrow> gfMul a (b XOR c) = gfMul a b XOR gfMul a c"
  by (erule byte_cases) (auto simp: gfMul_doubles doubles_xor xor_byte)

lemma gfMul_xor_left: "a < 256 \<Longrightarrow> b < 256 \<Longrightarrow> c < 256 \<Longrightarrow> gfMul (b XOR c) a = gfMul b a XOR gfMul c a"
  using gfMul_xor[of a b c] by (simp only: gfMul_comm)

lemma gfMul_assoc: "a < 256 \<Longrightarrow> b < 256 \<Longrightarrow> c < 256 \<Longrightarrow> gfMul (gfMul a b) c = gfMul a (gfMul b c)"
  by (elim byte_cases) (auto simp: gfMul_pw add.assoc)

lemma gfMul_1 [simp]: "b < 256 \<Longrightarrow> gfMul 1 b = b"
  using gfMul_doubles[of b 0] by (simp add: pw_0)

lemma gfMul_Suc_0 [simp]: "b < 256 \<Longrightarrow> gfMul (Suc 0) b = b"
  using gfMul_1 by simp

lemma double_gfMul: "a < 256 \<Longrightarrow> b < 256 \<Longrightarrow> gfMul (double a) b = gfMul a (double b)"
  by (elim byte_cases) (auto simp: gfMul_pw simp flip: pw_Suc)

lemma split_bit: "a = (if odd a then 1 else 0) XOR push_bit 1 (a div 2)" for a :: nat
  by (cases "odd a") (auto simp: push_bit_eq_mult one_xor_eq Suc_0_xor_eq elim: oddE)

lemma gf_times_exact: "n \<le> 8 \<Longrightarrow> a < 2 ^ n \<Longrightarrow> b < 256 \<Longrightarrow> gf_times n a b = gfMul a b"
proof (induction n arbitrary: a b)
  case (Suc n)
  let ?h = "a div 2" and ?o = "if odd a then 1 else 0 :: nat"
  have h: "?h < 2 ^ n" "?h < 128" using Suc.prems power_increasing[of n 7 "2 :: nat"] by auto
  have d: "push_bit 1 ?h = double ?h" and b8: "double ?h < 256"
    using h(2) double_byte[of ?h] less_bits[of "push_bit 1 ?h" 8] by (auto simp: double_def Let_def push_bit_eq_mult)
  have "gfMul a b = gfMul (?o XOR double ?h) b" by (subst split_bit) (simp only: d)
  also have "\<dots> = gfMul ?o b XOR gfMul (double ?h) b" using b8 Suc.prems(3) by (intro gfMul_xor_left) auto
  also have "gfMul (double ?h) b = gfMul ?h (double b)" using h(2) Suc.prems(3) by (intro double_gfMul) auto
  also have "\<dots> = gf_times n ?h (double b)" using Suc h(1) double_byte by simp
  finally show ?case using Suc.prems(3) by simp
qed simp

text \<open>The tables of powers and logarithms multiply in GF(256): on bytes \<open>gfMul\<close> is multiplication of polynomials over the bits, reduced
  by the polynomial 0x11D as it goes.\<close>

theorem gfMul_multiplies:
  assumes "a < 256" and "b < 256"
  shows "gfMul a b = gf_times 8 a b"
  using gf_times_exact[of 8 a b] assms by simp

lemma gfMul_multiplies_witness: "gfMul 7 200 = gf_times 8 7 200"
  by (rule gfMul_multiplies) simp_all

end
