(* ===== verification/ReedSolomon.thy ===== *)
theory ReedSolomon
  imports Galois
begin

text \<open>
  The Reed-Solomon error correction of \<open>node/src/qrcode.ts\<close>: polynomials as lists of coefficients, highest first,
  the generator polynomial and the long division of \<open>rsEncode\<close>. The theorem is the property a decoder relies on:
  data and error correction codewords together are a polynomial with the roots of the generator, so every
  syndrome is zero.
\<close>

unbundle bit_operations_syntax

section \<open>Polynomials\<close>

definition xor_at :: "nat \<Rightarrow> nat \<Rightarrow> nat list \<Rightarrow> nat list" where
  "xor_at k v xs = xs[k := xs ! k XOR v]"

text \<open>The two nested loops of \<open>polyMul\<close>.\<close>

definition polyMul :: "nat list \<Rightarrow> nat list \<Rightarrow> nat list" where
  "polyMul a b = foldl (\<lambda>r i. foldl (\<lambda>r j. xor_at (i + j) (gfMul (a ! i) (b ! j)) r) r [0..<length b])
     (replicate (length a + length b - 1) 0) [0..<length a]"

definition rsGeneratorPoly :: "nat \<Rightarrow> nat list" where
  "rsGeneratorPoly degree = foldl (\<lambda>g i. polyMul g [1, GF_EXP ! i]) [1] [0..<degree]"

definition rs_step :: "nat list \<Rightarrow> nat list \<Rightarrow> nat \<Rightarrow> nat list" where
  "rs_step gen buffer i = (let coef = buffer ! i in
     if coef = 0 then buffer else foldl (\<lambda>bs j. xor_at (i + j) (gfMul (gen ! j) coef) bs) buffer [0..<length gen])"

definition rsEncode :: "nat list \<Rightarrow> nat \<Rightarrow> nat list" where
  "rsEncode dataCodewords ecLength =
     (let gen = rsGeneratorPoly ecLength; buffer = dataCodewords @ replicate ecLength 0
      in drop (length dataCodewords) (foldl (rs_step gen) buffer [0..<length dataCodewords]))"

section \<open>Evaluation\<close>

text \<open>Horner's rule: the value of a polynomial at \<open>x\<close>, the syndrome when \<open>x\<close> is a root of the generator.\<close>

definition poly_at :: "nat \<Rightarrow> nat list \<Rightarrow> nat" where
  "poly_at x cs = foldl (\<lambda>v c. gfMul v x XOR c) 0 cs"

definition bytes :: "nat list \<Rightarrow> bool" where
  "bytes xs \<longleftrightarrow> (\<forall>x \<in> set xs. x < 256)"

lemma bytes_simps [simp]: "bytes []" "bytes (x # xs) \<longleftrightarrow> x < 256 \<and> bytes xs" "bytes (xs @ ys) \<longleftrightarrow> bytes xs \<and> bytes ys"
  "bytes (replicate n 0)"
  by (auto simp: bytes_def)

lemma bytes_nth: "bytes xs \<Longrightarrow> i < length xs \<Longrightarrow> xs ! i < 256"
  by (simp add: bytes_def)

lemma poly_at_snoc: "poly_at x (cs @ [c]) = gfMul (poly_at x cs) x XOR c"
  by (simp add: poly_at_def)

lemma poly_at_Nil [simp]: "poly_at x [] = 0"
  by (simp add: poly_at_def)

lemma poly_at_byte: "bytes cs \<Longrightarrow> x < 256 \<Longrightarrow> poly_at x cs < 256"
  by (induction cs rule: rev_induct) (auto simp: poly_at_snoc gfMul_byte)

definition add_poly :: "nat list \<Rightarrow> nat list \<Rightarrow> nat list" where
  "add_poly xs ys = map2 (XOR) xs ys"

lemma poly_at_add: "length xs = length ys \<Longrightarrow> bytes xs \<Longrightarrow> bytes ys \<Longrightarrow> x < 256 \<Longrightarrow>
    poly_at x (add_poly xs ys) = poly_at x xs XOR poly_at x ys"
proof (induction xs arbitrary: ys rule: rev_induct)
  case (snoc a xs)
  then obtain b zs where ys: "ys = zs @ [b]" by (metis length_append_singleton length_0_conv nat.simps(3) rev_exhaust)
  with snoc have "poly_at x (add_poly xs zs) = poly_at x xs XOR poly_at x zs" by simp
  moreover have "add_poly (xs @ [a]) ys = add_poly xs zs @ [a XOR b]" using snoc.prems ys by (simp add: add_poly_def)
  ultimately show ?case using snoc.prems ys poly_at_byte
    by (simp add: poly_at_snoc gfMul_xor_left xor_swap)
qed (simp add: add_poly_def)

lemma poly_at_scale: "bytes cs \<Longrightarrow> x < 256 \<Longrightarrow> k < 256 \<Longrightarrow> poly_at x (map (gfMul k) cs) = gfMul k (poly_at x cs)"
proof (induction cs rule: rev_induct)
  case (snoc c cs)
  then have "gfMul k (gfMul (poly_at x cs) x XOR c) = gfMul k (gfMul (poly_at x cs) x) XOR gfMul k c"
    using poly_at_byte gfMul_byte by (intro gfMul_xor) auto
  then show ?case using snoc poly_at_byte by (simp add: poly_at_snoc gfMul_assoc)
qed simp

lemma poly_at_lead: "poly_at x (replicate n 0 @ cs) = poly_at x cs"
proof -
  have "foldl (\<lambda>v c. gfMul v x XOR c) 0 (replicate n 0) = 0" by (induction n) simp_all
  then show ?thesis by (simp add: poly_at_def)
qed

lemma poly_at_trail: "poly_at x cs = 0 \<Longrightarrow> poly_at x (cs @ replicate n 0) = 0"
  by (induction n) (simp_all add: poly_at_def replicate_append_same flip: replicate_append_same append_assoc)

section \<open>The loops as additions of polynomials\<close>

text \<open>XORing the products of \<open>ps\<close> into a buffer from position \<open>i\<close> on adds a shifted polynomial.\<close>

lemma xor_loop_nth:
  "i + k \<le> length bs \<Longrightarrow> length (foldl (\<lambda>bs j. xor_at (i + j) (f j) bs) bs [0..<k]) = length bs \<and>
     (\<forall>m < length bs. foldl (\<lambda>bs j. xor_at (i + j) (f j) bs) bs [0..<k] ! m =
        bs ! m XOR (if i \<le> m \<and> m < i + k then f (m - i) else 0))"
  by (induction k) (auto simp: xor_at_def nth_list_update less_Suc_eq)

lemma add_poly_nth: "m < length xs \<Longrightarrow> length ys = length xs \<Longrightarrow> add_poly xs ys ! m = xs ! m XOR ys ! m"
  by (simp add: add_poly_def)

lemma add_poly_length [simp]: "length (add_poly xs ys) = min (length xs) (length ys)"
  by (simp add: add_poly_def)

lemma bytes_add: "bytes xs \<Longrightarrow> bytes ys \<Longrightarrow> bytes (add_poly xs ys)"
  by (auto simp: add_poly_def bytes_def set_zip)

abbreviation shifted :: "nat \<Rightarrow> nat list \<Rightarrow> nat \<Rightarrow> nat list" where
  "shifted i ps n \<equiv> replicate i 0 @ ps @ replicate (n - i - length ps) 0"

lemma xor_loop:
  assumes "i + length ps \<le> length bs"
  shows "foldl (\<lambda>bs j. xor_at (i + j) (ps ! j) bs) bs [0..<length ps] = add_poly bs (shifted i ps (length bs))"
proof (rule nth_equalityI)
  note l = xor_loop_nth[OF assms, of "\<lambda>j. ps ! j"]
  show "length (foldl (\<lambda>bs j. xor_at (i + j) (ps ! j) bs) bs [0..<length ps]) = length (add_poly bs (shifted i ps (length bs)))"
    using l assms by simp
  fix m assume "m < length (foldl (\<lambda>bs j. xor_at (i + j) (ps ! j) bs) bs [0..<length ps])"
  with l assms show "foldl (\<lambda>bs j. xor_at (i + j) (ps ! j) bs) bs [0..<length ps] ! m = add_poly bs (shifted i ps (length bs)) ! m"
    by (auto simp: add_poly_nth nth_append)
qed

lemma foldl_upt_cong: "(\<And>j r. j < n \<Longrightarrow> f r j = g r j) \<Longrightarrow> foldl f r [0..<n] = foldl g r [0..<n]"
  by (rule foldl_cong) auto

lemma add_zeros: "add_poly xs (replicate (length xs) 0) = xs"
  by (rule nth_equalityI) (simp_all add: add_poly_nth)

text \<open>A step of the division adds a multiple of the generator.\<close>

lemma rs_step_add:
  assumes "i + length gen \<le> length bs"
  shows "rs_step gen bs i = add_poly bs (shifted i (map (gfMul (bs ! i)) gen) (length bs))"
proof (cases "bs ! i = 0")
  case True
  have "map (gfMul 0) gen = replicate (length gen) 0" by (induction gen) simp_all
  then have "shifted i (map (gfMul (bs ! i)) gen) (length bs) = replicate (length bs) 0"
    using True assms by (simp flip: replicate_add)
  with True show ?thesis by (simp add: rs_step_def add_zeros)
next
  case False
  let ?ps = "map (gfMul (bs ! i)) gen"
  have "rs_step gen bs i = foldl (\<lambda>b j. xor_at (i + j) (gfMul (gen ! j) (bs ! i)) b) bs [0..<length gen]"
    using False by (simp add: rs_step_def Let_def)
  also have "\<dots> = foldl (\<lambda>b j. xor_at (i + j) (?ps ! j) b) bs [0..<length gen]"
    by (rule foldl_upt_cong) (simp add: gfMul_comm)
  also have "\<dots> = add_poly bs (shifted i ?ps (length bs))" using xor_loop[of i ?ps bs] assms by simp
  finally show ?thesis .
qed

lemma shifted_root:
  assumes "bytes gen" and "x < 256" and "k < 256" and "poly_at x gen = 0"
  shows "poly_at x (shifted i (map (gfMul k) gen) n) = 0"
  unfolding poly_at_lead by (rule poly_at_trail) (simp add: poly_at_scale assms)

lemma bytes_scale: "bytes gen \<Longrightarrow> k < 256 \<Longrightarrow> bytes (map (gfMul k) gen)"
  by (auto simp: bytes_def gfMul_byte)

definition generator_ok :: "nat list \<Rightarrow> nat \<Rightarrow> bool" where
  "generator_ok gen n \<longleftrightarrow> length gen = Suc n \<and> bytes gen \<and> gen ! 0 = 1 \<and> (\<forall>i < n. poly_at (GF_EXP ! i) gen = 0)"

text \<open>The division clears the data positions one by one and keeps the value at every root.\<close>

lemma division_loop:
  assumes gen: "generator_ok gen n" "n \<le> 255" and bs: "bytes bs" "length bs = d + n"
  shows "k \<le> d \<Longrightarrow> let r = foldl (rs_step gen) bs [0..<k] in length r = length bs \<and> bytes r \<and> (\<forall>m < k. r ! m = 0) \<and>
    (\<forall>i < n. poly_at (GF_EXP ! i) r = poly_at (GF_EXP ! i) bs)"
proof (induction k)
  case 0
  then show ?case using bs by simp
next
  case (Suc k)
  define r where "r = foldl (rs_step gen) bs [0..<k]"
  let ?s = "shifted k (map (gfMul (r ! k)) gen) (length r)"
  from Suc have r: "length r = d + n" "bytes r" "\<forall>m < k. r ! m = 0" "\<forall>i < n. poly_at (GF_EXP ! i) r = poly_at (GF_EXP ! i) bs"
    using bs by (simp_all add: r_def Let_def)
  have g: "length gen = Suc n" "bytes gen" "gen ! 0 = 1" "\<forall>i < n. poly_at (GF_EXP ! i) gen = 0"
    using gen by (auto simp: generator_ok_def)
  have fit: "k + length gen \<le> length r" using g(1) r(1) Suc.prems by simp
  have rk: "r ! k < 256" using r(1,2) Suc.prems by (intro bytes_nth) auto
  have step: "rs_step gen r k = add_poly r ?s" by (rule rs_step_add[OF fit])
  have len: "length ?s = length r" and bytes: "bytes ?s" using fit bytes_scale[OF g(2) rk] by simp_all
  have "add_poly r ?s ! m = 0" if m: "m < Suc k" for m
  proof (cases "m = k")
    case True
    have "?s ! k = r ! k" using g rk by (simp add: nth_append gfMul_comm[of _ "Suc 0"])
    with True show ?thesis using fit g(1) len by (simp add: add_poly_nth)
  next
    case False
    then have "m < k" using m by simp
    moreover have "?s ! m = 0" using \<open>m < k\<close> by (simp add: nth_append)
    ultimately show ?thesis using r(3) fit len by (simp add: add_poly_nth)
  qed
  moreover have "poly_at (GF_EXP ! i) (add_poly r ?s) = poly_at (GF_EXP ! i) bs" if i: "i < n" for i
  proof -
    have x: "GF_EXP ! i < 256" using gf_tables_exact[of i] pw_byte[of i] i gen(2) by simp
    have "poly_at (GF_EXP ! i) ?s = 0" using g(4) i by (intro shifted_root[OF g(2) x rk]) simp
    with poly_at_add[OF len[symmetric] r(2) bytes x] r(4) i show ?thesis by simp
  qed
  moreover have "foldl (rs_step gen) bs [0..<Suc k] = add_poly r ?s" using step by (simp add: r_def)
  moreover have "length (add_poly r ?s) = length bs" "bytes (add_poly r ?s)" using len bytes r(1,2) bs(2) by (simp_all add: bytes_add)
  ultimately show ?case by (simp only: Let_def) blast
qed

section \<open>The generator\<close>

lemma times_linear:
  assumes "bytes g" and "g \<noteq> []" and "a < 256"
  shows "polyMul g [1, a] = add_poly (g @ [0]) (0 # map (gfMul a) g)"
proof -
  let ?f = "\<lambda>r i. foldl (\<lambda>r j. xor_at (i + j) (gfMul (g ! i) ([1, a] ! j)) r) r [0..<length [1, a]]"
  have f: "?f r i = xor_at (Suc i) (gfMul a (g ! i)) (xor_at i (g ! i) r)" if "i < length g" for r i
    using bytes_nth[OF assms(1) that] gfMul_comm[of "g ! i"] by (simp add: upt_rec)
  have inv: "k \<le> length g \<Longrightarrow> length (foldl ?f (replicate (Suc (length g)) 0) [0..<k]) = Suc (length g) \<and>
     (\<forall>m < Suc (length g). foldl ?f (replicate (Suc (length g)) 0) [0..<k] ! m =
        (if m < k then g ! m else 0) XOR (if 0 < m \<and> m \<le> k then gfMul a (g ! (m - 1)) else 0))" for k
  proof (induction k)
    case (Suc k)
    define r where "r = foldl ?f (replicate (Suc (length g)) 0) [0..<k]"
    have "foldl ?f (replicate (Suc (length g)) 0) [0..<Suc k] = xor_at (Suc k) (gfMul a (g ! k)) (xor_at k (g ! k) r)"
      using f[of k r] Suc.prems by (simp add: r_def del: length_Cons list.size)
    moreover have r: "length r = Suc (length g)" "\<forall>m < Suc (length g). r ! m =
        (if m < k then g ! m else 0) XOR (if 0 < m \<and> m \<le> k then gfMul a (g ! (m - 1)) else 0)"
      using Suc by (simp_all add: r_def)
    moreover have "xor_at (Suc k) (gfMul a (g ! k)) (xor_at k (g ! k) r) ! m =
        (if m < Suc k then g ! m else 0) XOR (if 0 < m \<and> m \<le> Suc k then gfMul a (g ! (m - 1)) else 0)" if m: "m < Suc (length g)" for m
    proof -
      consider "m < k" | "m = k" | "m = Suc k" | "Suc k < m" by linarith
      then show ?thesis using m r Suc.prems by cases (simp_all add: xor_at_def ac_simps)
    qed
    ultimately show ?case by (simp add: xor_at_def)
  qed simp
  have "polyMul g [1, a] = foldl ?f (replicate (Suc (length g)) 0) [0..<length g]" by (simp add: polyMul_def)
  also have "\<dots> = add_poly (g @ [0]) (0 # map (gfMul a) g)"
  proof (rule nth_equalityI)
    fix m assume "m < length (foldl ?f (replicate (Suc (length g)) 0) [0..<length g])"
    then have m: "m < Suc (length g)" using inv[of "length g"] by simp
    with inv[of "length g"] show "foldl ?f (replicate (Suc (length g)) 0) [0..<length g] ! m = add_poly (g @ [0]) (0 # map (gfMul a) g) ! m"
      by (cases m) (auto simp: add_poly_nth nth_append)
  qed (use inv[of "length g"] in simp)
  finally show ?thesis .
qed

lemma poly_at_linear:
  assumes "bytes g" and "g \<noteq> []" and "a < 256" and "x < 256"
  shows "poly_at x (polyMul g [1, a]) = gfMul (poly_at x g) (x XOR a)"
proof -
  have "poly_at x (polyMul g [1, a]) = poly_at x (g @ [0]) XOR poly_at x (0 # map (gfMul a) g)"
    unfolding times_linear[OF assms(1-3)] by (rule poly_at_add) (use assms bytes_scale in auto)
  also have "poly_at x (g @ [0]) = gfMul (poly_at x g) x" by (simp add: poly_at_snoc)
  also have "poly_at x (0 # map (gfMul a) g) = gfMul (poly_at x g) a"
    using poly_at_lead[of x 1 "map (gfMul a) g"] by (simp add: poly_at_scale assms gfMul_comm)
  finally show ?thesis using gfMul_xor[of "poly_at x g" x a] poly_at_byte[OF assms(1,4)] assms by simp
qed

lemma generator_exact: "n \<le> 255 \<Longrightarrow> generator_ok (rsGeneratorPoly n) n"
proof (induction n)
  case 0
  then show ?case by (simp add: generator_ok_def rsGeneratorPoly_def)
next
  case (Suc n)
  let ?g = "rsGeneratorPoly n" and ?a = "GF_EXP ! n"
  from Suc have g: "length ?g = Suc n" "bytes ?g" "?g ! 0 = 1" "\<forall>i < n. poly_at (GF_EXP ! i) ?g = 0" by (auto simp: generator_ok_def)
  then have ne: "?g \<noteq> []" by auto
  have byte: "GF_EXP ! i < 256" if "i \<le> n" for i using gf_tables_exact[of i] pw_byte[of i] that Suc.prems by simp
  have eq: "rsGeneratorPoly (Suc n) = polyMul ?g [1, ?a]" by (simp add: rsGeneratorPoly_def)
  have lin: "polyMul ?g [1, ?a] = add_poly (?g @ [0]) (0 # map (gfMul ?a) ?g)" by (rule times_linear[OF g(2) ne byte]) simp
  have "poly_at (GF_EXP ! i) (polyMul ?g [1, ?a]) = 0" if "i < Suc n" for i
    using that g(4) poly_at_linear[OF g(2) ne byte byte, of n i] by (cases "i = n") auto
  moreover have "bytes (polyMul ?g [1, ?a])" unfolding lin by (rule bytes_add) (use g(2) byte bytes_scale in auto)
  moreover have "polyMul ?g [1, ?a] ! 0 = 1" unfolding lin using g by (simp add: add_poly_nth nth_append)
  ultimately show ?case unfolding generator_ok_def eq using g(1) lin by simp
qed

text \<open>The syndromes of a block.\<close>

definition syndromes :: "nat list \<Rightarrow> nat \<Rightarrow> nat list" where
  "syndromes block ecLength = map (\<lambda>i. poly_at (GF_EXP ! i) block) [0..<ecLength]"

lemma rs_encode_facts:
  assumes "\<forall>x \<in> set dataCodewords. x < 256" and "ecLength \<le> 255"
  shows "length (rsEncode dataCodewords ecLength) = ecLength \<and> (\<forall>x \<in> set (rsEncode dataCodewords ecLength). x < 256) \<and>
    syndromes (dataCodewords @ rsEncode dataCodewords ecLength) ecLength = replicate ecLength 0"
proof -
  let ?d = "length dataCodewords" and ?gen = "rsGeneratorPoly ecLength"
  let ?b = "dataCodewords @ replicate ecLength 0"
  define r where "r = foldl (rs_step ?gen) ?b [0..<?d]"
  have bd: "bytes dataCodewords" using assms(1) by (simp add: bytes_def)
  have r: "length r = ?d + ecLength" "bytes r" "\<forall>m < ?d. r ! m = 0" "\<forall>i < ecLength. poly_at (GF_EXP ! i) r = poly_at (GF_EXP ! i) ?b"
    using division_loop[OF generator_exact[OF assms(2)] assms(2), of ?b ?d ?d] bd by (simp_all add: r_def Let_def)
  let ?e = "drop ?d r"
  have e: "rsEncode dataCodewords ecLength = ?e" by (simp add: rsEncode_def r_def)
  have be: "bytes ?e" using r(2) by (auto simp: bytes_def dest: in_set_dropD)
  have tk: "take ?d r = replicate ?d 0" using r(1,3) by (intro nth_equalityI) auto
  have rsplit: "r = replicate ?d 0 @ ?e" using append_take_drop_id[of ?d r] by (simp only: tk)
  have "poly_at (GF_EXP ! i) (dataCodewords @ ?e) = 0" if i: "i < ecLength" for i
  proof -
    have x: "GF_EXP ! i < 256" using gf_tables_exact[of i] pw_byte[of i] i assms(2) by simp
    have "add_poly ?b r = dataCodewords @ ?e"
      by (subst rsplit, rule nth_equalityI) (use r(1) in \<open>auto simp: add_poly_nth nth_append\<close>)
    then have "poly_at (GF_EXP ! i) (dataCodewords @ ?e) = poly_at (GF_EXP ! i) ?b XOR poly_at (GF_EXP ! i) r"
      using poly_at_add[of ?b r "GF_EXP ! i"] r(1,2) bd x by simp
    then show ?thesis using r(4) i by simp
  qed
  then have "syndromes (dataCodewords @ ?e) ecLength = replicate ecLength 0"
    unfolding syndromes_def by (intro nth_equalityI) simp_all
  then show ?thesis unfolding e using r(1) be by (simp add: bytes_def)
qed

text \<open>The error correction codewords make every block a codeword: for data bytes and any number of error correction bytes up to 255, the
  data followed by what \<open>rsEncode\<close> computes has all its syndromes zero, and there are exactly as many error correction bytes as asked
  for, each below 256.\<close>

theorem rs_syndromes_vanish:
  assumes "\<forall>x \<in> set dataCodewords. x < 256" and "ecLength \<le> 255"
  shows "length (rsEncode dataCodewords ecLength) = ecLength \<and> (\<forall>x \<in> set (rsEncode dataCodewords ecLength). x < 256) \<and>
    syndromes (dataCodewords @ rsEncode dataCodewords ecLength) ecLength = replicate ecLength 0"
  using assms by (rule rs_encode_facts)

lemma rs_syndromes_vanish_witness: "syndromes ([32, 65, 205] @ rsEncode [32, 65, 205] 4) 4 = replicate 4 0"
  using rs_syndromes_vanish[of "[32, 65, 205]" 4] by simp

end
