(* ===== verification/QrData.thy ===== *)
theory QrData
  imports ReedSolomon
begin

text \<open>
  The codewords of a QR code (\<open>node/src/qrcode.ts\<close>): capacities, the choice of version and level, the byte-mode bit
  stream, blocks, error correction and interleaving. A bit is a natural 0 or 1, as in the code. The reader
  (\<open>read_*\<close>) is the specification: it undoes each stage, and the theorems say that it recovers the bytes.
\<close>

unbundle bit_operations_syntax

section \<open>Capacities\<close>

datatype ec_level = EcL | EcM

record block_group =
  bg_count :: nat
  bg_dataCodewords :: nat

record version_capacity =
  vc_ecCodewordsPerBlock :: nat
  vc_group1 :: block_group
  vc_group2 :: "block_group option"

definition one_group :: "nat \<Rightarrow> nat \<Rightarrow> nat \<Rightarrow> version_capacity" where
  "one_group ec c d = \<lparr>vc_ecCodewordsPerBlock = ec, vc_group1 = \<lparr>bg_count = c, bg_dataCodewords = d\<rparr>, vc_group2 = None\<rparr>"

definition two_groups :: "nat \<Rightarrow> nat \<Rightarrow> nat \<Rightarrow> nat \<Rightarrow> nat \<Rightarrow> version_capacity" where
  "two_groups ec c d c2 d2 = \<lparr>vc_ecCodewordsPerBlock = ec, vc_group1 = \<lparr>bg_count = c, bg_dataCodewords = d\<rparr>,
     vc_group2 = Some \<lparr>bg_count = c2, bg_dataCodewords = d2\<rparr>\<rparr>"

text \<open>The table: for each version the capacity at level L and at level M.\<close>

definition CAPACITY_TABLE :: "(nat \<times> version_capacity \<times> version_capacity) list" where
  "CAPACITY_TABLE =
    [(1, one_group 7 1 19, one_group 10 1 16),
     (2, one_group 10 1 34, one_group 16 1 28),
     (3, one_group 15 1 55, one_group 26 1 44),
     (4, one_group 20 1 80, one_group 18 2 32),
     (5, one_group 26 1 108, one_group 24 2 43),
     (6, one_group 18 2 68, one_group 16 4 27),
     (7, one_group 20 2 78, one_group 18 4 31),
     (8, one_group 24 2 97, two_groups 22 2 38 2 39),
     (9, one_group 30 2 116, two_groups 22 3 36 2 37),
     (10, two_groups 18 2 68 2 69, two_groups 26 4 43 1 44)]"

definition CAPACITY :: "nat \<Rightarrow> ec_level \<Rightarrow> version_capacity" where
  "CAPACITY version ecLevel = (case map_of CAPACITY_TABLE version of
     Some (l, m) \<Rightarrow> (case ecLevel of EcL \<Rightarrow> l | EcM \<Rightarrow> m) | None \<Rightarrow> one_group 0 0 0)"

definition totalDataCodewords :: "version_capacity \<Rightarrow> nat" where
  "totalDataCodewords cap = bg_count (vc_group1 cap) * bg_dataCodewords (vc_group1 cap) +
     (case vc_group2 cap of Some g \<Rightarrow> bg_count g * bg_dataCodewords g | None \<Rightarrow> 0)"

definition countBits :: "nat \<Rightarrow> nat" where
  "countBits version = (if version \<le> 9 then 8 else 16)"

definition requiredDataBits :: "nat \<Rightarrow> nat \<Rightarrow> nat" where
  "requiredDataBits version byteLength = 4 + countBits version + byteLength * 8"

definition selectVersionAndEcLevel :: "nat \<Rightarrow> (nat \<times> ec_level) option" where
  "selectVersionAndEcLevel byteLength =
     find (\<lambda>(version, ecLevel). requiredDataBits version byteLength \<le> totalDataCodewords (CAPACITY version ecLevel) * 8)
       (map (\<lambda>v. (v, EcM)) [1..<11] @ map (\<lambda>v. (v, EcL)) [1..<11])"

section \<open>Bits\<close>

definition bits_of :: "nat \<Rightarrow> nat \<Rightarrow> nat list" where
  "bits_of len value = map (\<lambda>i. drop_bit i value AND 1) (rev [0..<len])"

definition pushBits :: "nat list \<Rightarrow> nat \<Rightarrow> nat \<Rightarrow> nat list" where
  "pushBits bits value len = bits @ bits_of len value"

definition bitsToByte :: "nat list \<Rightarrow> nat" where
  "bitsToByte bits = foldl (\<lambda>v b. push_bit 1 v OR b) 0 bits"

fun octets :: "nat list \<Rightarrow> nat list list" where
  "octets [] = []"
| "octets (b # bs) = take 8 (b # bs) # octets (drop 7 bs)"

fun pads :: "nat \<Rightarrow> bool \<Rightarrow> nat list" where
  "pads 0 padToggle = []"
| "pads (Suc n) padToggle = (if padToggle then 0xec else 0x11) # pads n (\<not> padToggle)"

definition data_bits :: "nat list \<Rightarrow> nat \<Rightarrow> nat list" where
  "data_bits bs version =
     foldl (\<lambda>bits b. pushBits bits b 8) (pushBits (pushBits [] 4 4) (length bs) (countBits version)) bs"

definition terminate :: "nat list \<Rightarrow> nat \<Rightarrow> nat list" where
  "terminate bits tot =
     (let ended = bits @ replicate (min 4 (tot * 8 - length bits)) 0
      in ended @ replicate ((8 - length ended mod 8) mod 8) 0)"

definition buildDataCodewords :: "nat list \<Rightarrow> nat \<Rightarrow> nat \<Rightarrow> nat list" where
  "buildDataCodewords bs version tot =
     (let codewords = map bitsToByte (octets (terminate (data_bits bs version) tot))
      in codewords @ pads (tot - length codewords) True)"

section \<open>Blocks\<close>

fun slices :: "nat \<Rightarrow> nat \<Rightarrow> nat list \<Rightarrow> nat list list" where
  "slices 0 n cws = []"
| "slices (Suc c) n cws = take n cws # slices c n (drop n cws)"

definition splitIntoBlocks :: "nat list \<Rightarrow> version_capacity \<Rightarrow> nat list list" where
  "splitIntoBlocks codewords cap =
     (let g1 = vc_group1 cap in
      slices (bg_count g1) (bg_dataCodewords g1) codewords @
      (case vc_group2 cap of None \<Rightarrow> []
       | Some g \<Rightarrow> slices (bg_count g) (bg_dataCodewords g) (drop (bg_count g1 * bg_dataCodewords g1) codewords)))"

definition column :: "nat \<Rightarrow> nat list list \<Rightarrow> nat list" where
  "column i blocks = concat (map (\<lambda>b. if i < length b then [b ! i] else []) blocks)"

definition interleave :: "nat \<Rightarrow> nat list list \<Rightarrow> nat list" where
  "interleave n blocks = concat (map (\<lambda>i. column i blocks) [0..<n])"

definition max_length :: "nat list list \<Rightarrow> nat" where
  "max_length blocks = foldr max (map length blocks) 0"

definition all_codewords :: "nat list \<Rightarrow> version_capacity \<Rightarrow> nat list" where
  "all_codewords dataCodewords cap =
     (let blocks = splitIntoBlocks dataCodewords cap;
          ecBlocks = map (\<lambda>b. rsEncode b (vc_ecCodewordsPerBlock cap)) blocks
      in interleave (max_length blocks) blocks @
         concat (map (\<lambda>i. map (\<lambda>e. e ! i) ecBlocks) [0..<vc_ecCodewordsPerBlock cap]))"

definition buildCodewordBits :: "nat list \<Rightarrow> nat \<Rightarrow> ec_level \<Rightarrow> nat list" where
  "buildCodewordBits bs version ecLevel =
     (let cap = CAPACITY version ecLevel
      in concat (map (bits_of 8) (all_codewords (buildDataCodewords bs version (totalDataCodewords cap)) cap)))"

section \<open>The reader\<close>

text \<open>Dealing interleaved codewords back to blocks of given lengths, column by column.\<close>

fun deal :: "nat list \<Rightarrow> nat list \<Rightarrow> nat list list \<Rightarrow> nat list list" where
  "deal (l # ls) xs (b # bs) = (if length b < l then (b @ take 1 xs) # deal ls (drop 1 xs) bs else b # deal ls xs bs)"
| "deal ls xs bs = bs"

definition open_blocks :: "nat list \<Rightarrow> nat list list \<Rightarrow> nat" where
  "open_blocks ls bs = length (filter (\<lambda>(l, b). length b < l) (zip ls bs))"

fun read_columns :: "nat \<Rightarrow> nat list \<Rightarrow> nat list \<Rightarrow> nat list list \<Rightarrow> nat list list" where
  "read_columns 0 ls xs bs = bs"
| "read_columns (Suc n) ls xs bs = read_columns n ls (drop (open_blocks ls bs) xs) (deal ls xs bs)"

definition block_lengths :: "version_capacity \<Rightarrow> nat list" where
  "block_lengths cap = replicate (bg_count (vc_group1 cap)) (bg_dataCodewords (vc_group1 cap)) @
     (case vc_group2 cap of None \<Rightarrow> [] | Some g \<Rightarrow> replicate (bg_count g) (bg_dataCodewords g))"

definition read_blocks :: "version_capacity \<Rightarrow> nat list \<Rightarrow> nat list list" where
  "read_blocks cap cws = (let ls = block_lengths cap in read_columns (foldr max ls 0) ls cws (map (\<lambda>_. []) ls))"

definition read_data :: "nat \<Rightarrow> nat list \<Rightarrow> nat list option" where
  "read_data version cws =
     (let bits = concat (map (bits_of 8) cws); n = bitsToByte (take (countBits version) (drop 4 bits));
          rest = drop (4 + countBits version) bits
      in if take 4 bits = [0, 1, 0, 0] \<and> 8 * n \<le> length rest then Some (map bitsToByte (octets (take (8 * n) rest))) else None)"

definition read_codeword_bits :: "nat \<Rightarrow> ec_level \<Rightarrow> nat list \<Rightarrow> nat list option" where
  "read_codeword_bits version ecLevel bits =
     (let cap = CAPACITY version ecLevel; cws = map bitsToByte (octets bits)
      in read_data version (concat (read_blocks cap cws)))"

section \<open>Bits there and back\<close>

lemma bit_value: "drop_bit i v AND 1 = (v div 2 ^ i) mod 2" for v :: nat
  by (simp add: drop_bit_eq_div and_one_eq mod2_eq_if)

lemma bits_of_Suc: "bits_of (Suc n) v = bits_of n (v div 2) @ [v mod 2]"
proof -
  have "rev [0..<Suc n] = map Suc (rev [0..<n]) @ [0]" by (simp add: upt_conv_Cons map_Suc_upt rev_map flip: map_Suc_upt del: upt_Suc)
  then show ?thesis by (simp add: bits_of_def bit_value div_mult2_eq drop_bit_Suc del: upt_Suc)
qed

lemma bits_of_0 [simp]: "bits_of 0 v = []"
  by (simp add: bits_of_def)

lemma length_bits_of [simp]: "length (bits_of n v) = n"
  by (simp add: bits_of_def)

definition bit_list :: "nat list \<Rightarrow> bool" where
  "bit_list xs \<longleftrightarrow> set xs \<subseteq> {0, 1}"

lemma bit_list_simps [simp]: "bit_list []" "bit_list (x # xs) \<longleftrightarrow> (x = 0 \<or> x = 1) \<and> bit_list xs" "bit_list (xs @ ys) \<longleftrightarrow> bit_list xs \<and> bit_list ys"
  "bit_list (replicate n 0)"
  by (auto simp: bit_list_def)

lemma bits_bits_of [simp]: "bit_list (bits_of n v)"
  by (auto simp: bit_list_def bits_of_def bit_value)

lemma bitsToByte_snoc: "b \<le> 1 \<Longrightarrow> bitsToByte (bs @ [b]) = 2 * bitsToByte bs + b"
proof -
  assume "b \<le> 1"
  then have "b = 0 \<or> b = 1" by linarith
  then show ?thesis by (auto simp: bitsToByte_def push_bit_eq_mult or_one_eq or_Suc_0_eq)
qed

lemma bitsToByte_bits_of: "v < 2 ^ n \<Longrightarrow> bitsToByte (bits_of n v) = v"
  by (induction n arbitrary: v) (simp_all add: bitsToByte_def[of "[]"] bits_of_Suc bitsToByte_snoc less_mult_imp_div_less mult.commute)

lemma bits_of_bitsToByte: "bit_list bs \<Longrightarrow> bits_of (length bs) (bitsToByte bs) = bs"
  by (induction bs rule: rev_induct) (auto simp: bits_of_Suc bitsToByte_snoc)

lemma bitsToByte_bound: "bit_list bs \<Longrightarrow> bitsToByte bs < 2 ^ length bs"
proof (induction bs rule: rev_induct)
  case (snoc b bs)
  then show ?case by (auto simp: bitsToByte_snoc)
qed (simp add: bitsToByte_def)

lemma octets_bits: "bit_list bs \<Longrightarrow> 8 dvd length bs \<Longrightarrow> concat (map (\<lambda>x. bits_of 8 (bitsToByte x)) (octets bs)) = bs"
proof (induction bs rule: octets.induct)
  case (2 b bs)
  then have l: "8 \<le> length (b # bs)" by (auto dest: dvd_imp_le)
  then have "8 dvd length (drop 7 bs)" using 2(3) by (auto simp: dvd_def) presburger
  moreover have "bit_list (drop 7 bs)" "bit_list (take 8 (b # bs))" using 2(2) by (auto simp: bit_list_def dest: in_set_dropD in_set_takeD)
  moreover have "length (take 8 (b # bs)) = 8" using l by simp
  ultimately have "bits_of 8 (bitsToByte (take 8 (b # bs))) = take 8 (b # bs)" using bits_of_bitsToByte[of "take 8 (b # bs)"] by (simp only:)
  moreover have "concat (map (\<lambda>x. bits_of 8 (bitsToByte x)) (octets (drop 7 bs))) = drop 7 bs"
    using 2(1) \<open>8 dvd length (drop 7 bs)\<close> \<open>bit_list (drop 7 bs)\<close> by blast
  moreover have "take 8 (b # bs) @ drop 7 bs = b # bs" by simp
  ultimately show ?case by (simp only: octets.simps list.map concat.simps)
qed simp

lemma octets_append: "8 dvd length xs \<Longrightarrow> octets (xs @ ys) = octets xs @ octets ys"
proof (induction xs rule: octets.induct)
  case (2 b bs)
  then have l: "7 \<le> length bs" by (auto dest: dvd_imp_le)
  moreover have "8 dvd length (drop 7 bs)" using 2(2) l by (auto simp: dvd_def) presburger
  ultimately show ?case using 2(1) by simp
qed simp

lemma octets_one: "length x = 8 \<Longrightarrow> octets x = [x]"
  by (cases x) auto

lemma octets_bytes: "bytes xs \<Longrightarrow> map bitsToByte (octets (concat (map (bits_of 8) xs))) = xs"
proof (induction xs)
  case (Cons x xs)
  have "octets (bits_of 8 x @ concat (map (bits_of 8) xs)) = [bits_of 8 x] @ octets (concat (map (bits_of 8) xs))"
    by (subst octets_append) (simp_all add: octets_one)
  then show ?case using Cons bitsToByte_bits_of[of x 8] by simp
qed simp

section \<open>The data codewords hold the bytes\<close>

lemma data_bits_exact: "data_bits bs version = [0, 1, 0, 0] @ bits_of (countBits version) (length bs) @ concat (map (bits_of 8) bs)"
proof -
  have "foldl (\<lambda>xs b. pushBits xs b 8) acc bs = acc @ concat (map (bits_of 8) bs)" for acc
    by (induction bs arbitrary: acc) (simp_all add: pushBits_def)
  moreover have "bits_of 4 4 = [0, 1, 0, 0]" by code_simp
  ultimately show ?thesis by (simp add: data_bits_def pushBits_def)
qed

lemma round_up:
  fixes n t :: nat
  assumes "n \<le> t * 8"
  shows "n + (8 - n mod 8) mod 8 \<le> t * 8 \<and> 8 dvd n + (8 - n mod 8) mod 8"
proof (cases "n mod 8 = 0")
  case False
  then have "(8 - n mod 8) mod 8 = 8 - n mod 8" by simp
  moreover have r: "8 * (n div 8) + n mod 8 = n" "n mod 8 < 8" by simp_all
  have "8 * q + m + (8 - m) = 8 * Suc q" if "m < 8" for q m :: nat using that by simp
  from this[OF r(2), of "n div 8"] have "n + (8 - n mod 8) = 8 * Suc (n div 8)" by (simp only: r(1))
  moreover have "n div 8 < t" using r False assms by linarith
  ultimately show ?thesis by simp
qed (use assms in \<open>auto simp: dvd_eq_mod_eq_0\<close>)

lemma terminate_exact:
  assumes "length xs \<le> tot * 8"
  shows "\<exists>k. terminate xs tot = xs @ replicate k 0 \<and> 8 dvd length (terminate xs tot) \<and> length (terminate xs tot) \<le> tot * 8"
proof -
  let ?e = "xs @ replicate (min 4 (tot * 8 - length xs)) 0"
  let ?p = "(8 - length ?e mod 8) mod 8"
  have t: "terminate xs tot = ?e @ replicate ?p 0" by (simp add: terminate_def Let_def)
  have "length ?e \<le> tot * 8" using assms by simp
  from round_up[OF this] have "length ?e + ?p \<le> tot * 8" "8 dvd length ?e + ?p" by blast+
  then show ?thesis unfolding t by (intro exI[of _ "min 4 (tot * 8 - length xs) + ?p"]) (simp add: replicate_add add.assoc)
qed

lemma pads_facts: "length (pads n t) = n" "bytes (pads n t)"
  by (induction n arbitrary: t) simp_all

lemma octets_length: "8 dvd length xs \<Longrightarrow> length (octets xs) = length xs div 8"
proof (induction xs rule: octets.induct)
  case (2 b bs)
  then have l: "7 \<le> length bs" by (auto dest: dvd_imp_le)
  moreover have "8 dvd length (drop 7 bs)" using 2(2) l by (auto simp: dvd_def) presburger
  ultimately show ?case using 2(1) by simp
qed simp

lemma octets_bound: "bit_list xs \<Longrightarrow> bytes (map bitsToByte (octets xs))"
proof (induction xs rule: octets.induct)
  case (2 b bs)
  have t: "bit_list (take 8 (b # bs))" using 2(2) by (auto simp: bit_list_def dest: in_set_takeD)
  have "bitsToByte (take 8 (b # bs)) < 2 ^ length (take 8 (b # bs))" by (rule bitsToByte_bound[OF t])
  also have "\<dots> \<le> 2 ^ 8" by (rule power_increasing) auto
  finally show ?case using 2 by (auto simp: bit_list_def dest: in_set_dropD)
qed simp

text \<open>The bits of the codewords built from the bytes: the data, some zeros, the padding.\<close>

lemma build_exact:
  assumes "requiredDataBits version (length bs) \<le> tot * 8"
  shows "\<exists>k rest. concat (map (bits_of 8) (buildDataCodewords bs version tot)) = data_bits bs version @ replicate k 0 @ rest"
    and "length (buildDataCodewords bs version tot) = tot" and "bytes (buildDataCodewords bs version tot)"
proof -
  let ?d = "data_bits bs version"
  have len: "length ?d = requiredDataBits version (length bs)" and bd: "bit_list ?d"
    by (auto simp: data_bits_exact requiredDataBits_def length_concat o_def sum_list_triv bit_list_def bits_of_def bit_value)
  from terminate_exact[of ?d tot] len assms obtain k where
    t: "terminate ?d tot = ?d @ replicate k 0" "8 dvd length (terminate ?d tot)" "length (terminate ?d tot) \<le> tot * 8" by auto
  have bt: "bit_list (terminate ?d tot)" using bd t(1) by simp
  let ?c = "map bitsToByte (octets (terminate ?d tot))"
  have b: "buildDataCodewords bs version tot = ?c @ pads (tot - length ?c) True" by (simp add: buildDataCodewords_def Let_def)
  have "concat (map (bits_of 8) ?c) = terminate ?d tot" using octets_bits[OF bt t(2)] by (simp add: o_def)
  then show "\<exists>k rest. concat (map (bits_of 8) (buildDataCodewords bs version tot)) = ?d @ replicate k 0 @ rest"
    unfolding b using t(1) by (intro exI[of _ k] exI[of _ "concat (map (bits_of 8) (pads (tot - length ?c) True))"]) simp
  have "length ?c \<le> tot" using octets_length[OF t(2)] t(3) by simp
  then show "length (buildDataCodewords bs version tot) = tot" unfolding b by (simp add: pads_facts)
  show "bytes (buildDataCodewords bs version tot)" unfolding b using octets_bound[OF bt] by (simp add: pads_facts)
qed

lemma read_data_exact:
  assumes bs: "bytes bs" and count: "length bs < 2 ^ countBits version"
    and cws: "concat (map (bits_of 8) cws) = data_bits bs version @ rest"
  shows "read_data version cws = Some bs"
proof -
  let ?c = "concat (map (bits_of 8) bs)"
  have lc: "length ?c = 8 * length bs" by (simp add: length_concat o_def sum_list_triv)
  have parts: "take 4 (p @ q @ ?c @ r) = p" "take (countBits version) (drop 4 (p @ q @ ?c @ r)) = q"
    "drop (4 + countBits version) (p @ q @ ?c @ r) = ?c @ r" if "length p = 4" "length q = countBits version" for p q r :: "nat list"
    using that by simp_all
  have b: "concat (map (bits_of 8) cws) = [0, 1, 0, 0] @ bits_of (countBits version) (length bs) @ ?c @ rest"
    using cws by (simp add: data_bits_exact)
  have h: "length [0, 1, 0, 0 :: nat] = 4" by simp
  show ?thesis unfolding read_data_def b Let_def parts[OF h length_bits_of] bitsToByte_bits_of[OF count]
    using octets_bytes[OF bs] lc by simp
qed

section \<open>Interleaving and dealing\<close>

text \<open>What the first \<open>j\<close> columns of the blocks look like, and how the next column extends them.\<close>

definition prefixes :: "nat \<Rightarrow> nat list list \<Rightarrow> nat list list" where
  "prefixes j blocks = map (take j) blocks"

lemma column_length: "length (column j blocks) = length (filter (\<lambda>b. j < length b) blocks)"
  by (induction blocks) (simp_all add: column_def)

lemma open_prefixes: "open_blocks (map length blocks) (prefixes j blocks) = length (column j blocks)"
  by (induction blocks) (auto simp: open_blocks_def prefixes_def column_def min_def)

lemma deal_prefixes: "deal (map length blocks) (column j blocks @ xs) (prefixes j blocks) = prefixes (Suc j) blocks"
  by (induction blocks) (auto simp: prefixes_def column_def min_def take_Suc_conv_app_nth)

lemma read_columns_exact:
  "read_columns n (map length blocks) (concat (map (\<lambda>i. column i blocks) [j..<j + n]) @ xs) (prefixes j blocks) = prefixes (j + n) blocks"
proof (induction n arbitrary: j)
  case (Suc n)
  have "concat (map (\<lambda>i. column i blocks) [j..<j + Suc n]) = column j blocks @ concat (map (\<lambda>i. column i blocks) [Suc j..<Suc j + n])"
    by (simp add: upt_conv_Cons del: upt_Suc)
  then show ?case using Suc[of "Suc j"] by (simp add: open_prefixes deal_prefixes del: upt_Suc)
qed simp

lemma interleave_read:
  assumes "\<forall>b \<in> set blocks. length b \<le> n"
  shows "read_columns n (map length blocks) (interleave n blocks @ xs) (map (\<lambda>_. []) blocks) = blocks"
proof -
  have "map (\<lambda>_. []) blocks = prefixes 0 blocks" by (simp add: prefixes_def)
  moreover have "prefixes n blocks = blocks" using assms by (auto simp: prefixes_def intro: map_idI)
  ultimately show ?thesis using read_columns_exact[of n blocks 0 xs] by (simp add: interleave_def)
qed

lemma slices_facts:
  "c * n \<le> length xs \<Longrightarrow> map length (slices c n xs) = replicate c n \<and> concat (slices c n xs) = take (c * n) xs"
proof (induction c arbitrary: xs)
  case (Suc c)
  then have "c * n \<le> length (drop n xs)" by simp
  from Suc.IH[OF this] Suc.prems show ?case by (simp add: take_add)
qed simp

lemma split_facts:
  assumes "length cws = totalDataCodewords cap"
  shows "map length (splitIntoBlocks cws cap) = block_lengths cap" and "concat (splitIntoBlocks cws cap) = cws"
proof -
  let ?g = "vc_group1 cap"
  have t: "totalDataCodewords cap = bg_count ?g * bg_dataCodewords ?g +
     (case vc_group2 cap of Some g \<Rightarrow> bg_count g * bg_dataCodewords g | None \<Rightarrow> 0)" by (simp add: totalDataCodewords_def)
  then have s1: "map length (slices (bg_count ?g) (bg_dataCodewords ?g) cws) = replicate (bg_count ?g) (bg_dataCodewords ?g)"
    "concat (slices (bg_count ?g) (bg_dataCodewords ?g) cws) = take (bg_count ?g * bg_dataCodewords ?g) cws"
    using slices_facts[of "bg_count ?g" "bg_dataCodewords ?g" cws] assms by simp_all
  have s2: "map length (slices (bg_count g) (bg_dataCodewords g) (drop (bg_count ?g * bg_dataCodewords ?g) cws)) =
      replicate (bg_count g) (bg_dataCodewords g)"
    "concat (slices (bg_count g) (bg_dataCodewords g) (drop (bg_count ?g * bg_dataCodewords ?g) cws)) = drop (bg_count ?g * bg_dataCodewords ?g) cws"
    if "vc_group2 cap = Some g" for g
    using slices_facts[of "bg_count g" "bg_dataCodewords g" "drop (bg_count ?g * bg_dataCodewords ?g) cws"] assms t that by simp_all
  show "map length (splitIntoBlocks cws cap) = block_lengths cap"
    using s1 s2 by (simp add: splitIntoBlocks_def block_lengths_def Let_def split: option.splits)
  show "concat (splitIntoBlocks cws cap) = cws"
    using s1 s2 assms t by (auto simp: splitIntoBlocks_def Let_def split: option.splits)
qed

lemma max_length_bound: "b \<in> set blocks \<Longrightarrow> length b \<le> max_length blocks"
  by (induction blocks) (auto simp: max_length_def)

lemma read_blocks_exact:
  assumes "length cws = totalDataCodewords cap"
  shows "concat (read_blocks cap (interleave (max_length (splitIntoBlocks cws cap)) (splitIntoBlocks cws cap) @ xs)) = cws"
proof -
  let ?b = "splitIntoBlocks cws cap"
  note f = split_facts[OF assms]
  have e: "map (\<lambda>_. []) ?b = map (\<lambda>_. []) (block_lengths cap)" unfolding f(1)[symmetric] by simp
  have "read_blocks cap (interleave (max_length ?b) ?b @ xs) = ?b"
    using interleave_read[of ?b "max_length ?b" xs] max_length_bound[of _ ?b]
    by (simp add: read_blocks_def Let_def f(1) e max_length_def)
  then show ?thesis by (simp only: f(2))
qed

section \<open>The codewords of a chosen version\<close>

lemma versions: "version \<in> set [1..<11] \<longleftrightarrow> version = 1 \<or> version = 2 \<or> version = 3 \<or> version = 4 \<or> version = 5 \<or>
    version = 6 \<or> version = 7 \<or> version = 8 \<or> version = 9 \<or> version = (10 :: nat)"
  unfolding set_upt atLeastLessThan_iff by presburger

lemma find_member: "find P xs = Some x \<Longrightarrow> x \<in> set xs \<and> P x"
  by (induction xs) (auto split: if_splits)

lemma capacity_limits:
  assumes "version \<in> set [1..<11]"
  shows "vc_ecCodewordsPerBlock (CAPACITY version ecLevel) \<le> 30" and
    "totalDataCodewords (CAPACITY version ecLevel) \<le> (if version \<le> 9 then 232 else 274)"
  using assms unfolding versions
  by (elim disjE; cases ecLevel; simp add: CAPACITY_def CAPACITY_TABLE_def one_group_def two_groups_def totalDataCodewords_def)+

lemma selected:
  assumes "selectVersionAndEcLevel n = Some (version, ecLevel)"
  shows "version \<in> set [1..<11]" and "requiredDataBits version n \<le> totalDataCodewords (CAPACITY version ecLevel) * 8"
    and "n < 2 ^ countBits version"
proof -
  from assms have f: "(version, ecLevel) \<in> set (map (\<lambda>v. (v, EcM)) [1..<11] @ map (\<lambda>v. (v, EcL)) [1..<11])"
    "requiredDataBits version n \<le> totalDataCodewords (CAPACITY version ecLevel) * 8"
    unfolding selectVersionAndEcLevel_def by (auto dest: find_member simp del: upt_rec_numeral)
  then show v: "version \<in> set [1..<11]" by (auto simp del: upt_rec_numeral)
  from f(2) show "requiredDataBits version n \<le> totalDataCodewords (CAPACITY version ecLevel) * 8" .
  with capacity_limits(2)[OF v, of ecLevel] show "n < 2 ^ countBits version"
    by (auto simp: requiredDataBits_def countBits_def split: if_splits)
qed

lemma all_codewords_bytes:
  assumes cws: "bytes cws" and ec: "vc_ecCodewordsPerBlock cap \<le> 255" and len: "length cws = totalDataCodewords cap"
  shows "bytes (all_codewords cws cap)"
proof -
  let ?b = "splitIntoBlocks cws cap" and ?n = "vc_ecCodewordsPerBlock cap"
  have blocks: "bytes b" if "b \<in> set ?b" for b
  proof -
    have "set b \<subseteq> set (concat ?b)" using that by auto
    then show ?thesis using cws unfolding split_facts(2)[OF len] bytes_def by blast
  qed
  have "bytes (interleave (max_length ?b) ?b)"
    using blocks by (fastforce simp: bytes_def interleave_def column_def split: if_splits)
  moreover have "rsEncode b ?n ! i < 256" if "b \<in> set ?b" "i < ?n" for b i
    using rs_encode_facts[of b ?n] blocks[OF that(1)] ec that(2) by (auto simp: bytes_def)
  ultimately show ?thesis by (auto simp: all_codewords_def Let_def) (auto simp: bytes_def)
qed

text \<open>The codewords of a QR code hold the text: for any bytes for which a version and level are chosen, a reader that cuts the bit
  stream into codewords, deals the interleaved codewords back to their blocks, drops the error correction and reads the byte-mode
  segment gets exactly the bytes back, whatever bits follow in the matrix.\<close>

theorem codewords_roundtrip:
  assumes "selectVersionAndEcLevel (length bs) = Some (version, ecLevel)" and "\<forall>b \<in> set bs. b < 256"
  shows "read_codeword_bits version ecLevel (buildCodewordBits bs version ecLevel @ junk) = Some bs"
proof -
  let ?cap = "CAPACITY version ecLevel"
  let ?cws = "buildDataCodewords bs version (totalDataCodewords ?cap)"
  let ?b = "splitIntoBlocks ?cws ?cap"
  note sel = selected[OF assms(1)]
  have bs: "bytes bs" using assms(2) by (simp add: bytes_def)
  from build_exact(1)[OF sel(2)] obtain rest where d: "concat (map (bits_of 8) ?cws) = data_bits bs version @ rest" by blast
  note len = build_exact(2)[OF sel(2)] and cb = build_exact(3)[OF sel(2)]
  obtain ec where all: "all_codewords ?cws ?cap = interleave (max_length ?b) ?b @ ec" by (simp add: all_codewords_def Let_def)
  have "bytes (all_codewords ?cws ?cap)"
    by (rule all_codewords_bytes[OF cb _ len]) (use capacity_limits(1)[OF sel(1), of ecLevel] in simp)
  moreover have "8 dvd length (concat (map (bits_of 8) xs))" for xs by (simp add: length_concat o_def sum_list_triv)
  ultimately have "map bitsToByte (octets (buildCodewordBits bs version ecLevel @ junk)) = all_codewords ?cws ?cap @ map bitsToByte (octets junk)"
    by (simp add: buildCodewordBits_def Let_def octets_append octets_bytes)
  then show ?thesis using read_blocks_exact[OF len] read_data_exact[OF bs sel(3) d]
    by (simp add: read_codeword_bits_def Let_def all)
qed

lemma codewords_roundtrip_witness:
  "read_codeword_bits 1 EcM (buildCodewordBits [72, 105] 1 EcM @ [0, 0]) = Some [72, 105]"
proof -
  have "selectVersionAndEcLevel (length [72, 105 :: nat]) = Some (1, EcM)"
    by (simp add: selectVersionAndEcLevel_def upt_rec requiredDataBits_def countBits_def CAPACITY_def CAPACITY_TABLE_def one_group_def
        totalDataCodewords_def)
  from codewords_roundtrip[OF this] show ?thesis by simp
qed

end
