(* ===== verification/QrMatrix.thy ===== *)
theory QrMatrix
  imports QrData
begin

text \<open>
  The module matrix of a QR code (\<open>node/src/qrcode.ts\<close>): the format and version words, the function patterns, the
  zigzag placement of the bits, the masks with their penalty, and \<open>encodeQr\<close>. A matrix is a list of rows of dark
  (\<open>True\<close>) and light modules; the pair of matrices \<open>modules\<close> and \<open>reserved\<close> that the placement functions update
  in place is a canvas. The penalty is computed with exact rationals: the boundaries of its rounding are more
  than a rounding error away from every share of dark modules that a matrix of these sizes can have, or are hit
  exactly.
\<close>

unbundle bit_operations_syntax

section \<open>Format and version words\<close>

definition FORMAT_GENERATOR :: nat where "FORMAT_GENERATOR = 0b10100110111"
definition FORMAT_MASK :: nat where "FORMAT_MASK = 0b101010000010010"
definition VERSION_GENERATOR :: nat where "VERSION_GENERATOR = 0b1111100100101"

definition bchRemainder :: "nat \<Rightarrow> nat \<Rightarrow> nat \<Rightarrow> nat" where
  "bchRemainder value gen degree =
     foldl (\<lambda>v b. if bit v b then v XOR push_bit (b - degree) gen else v) value (rev [degree..<32])"

definition EC_LEVEL_BITS :: "ec_level \<Rightarrow> nat" where
  "EC_LEVEL_BITS ecLevel = (case ecLevel of EcL \<Rightarrow> 1 | EcM \<Rightarrow> 0)"

definition formatInfoBits :: "ec_level \<Rightarrow> nat \<Rightarrow> nat" where
  "formatInfoBits ecLevel maskPattern =
     (let data5 = push_bit 3 (EC_LEVEL_BITS ecLevel) OR maskPattern;
          remainder = bchRemainder (push_bit 10 data5) FORMAT_GENERATOR 10
      in (push_bit 10 data5 OR remainder) XOR FORMAT_MASK)"

definition versionInfoBits :: "nat \<Rightarrow> nat" where
  "versionInfoBits version = push_bit 12 version OR bchRemainder (push_bit 12 version) VERSION_GENERATOR 12"

definition bitAt :: "nat \<Rightarrow> nat \<Rightarrow> nat \<Rightarrow> bool" where
  "bitAt value totalBits index = bit value (totalBits - 1 - index)"

section \<open>Matrices\<close>

type_synonym grid = "bool list list"
type_synonym canvas = "grid \<times> grid"
type_synonym cell = "nat \<times> nat"

definition makeGrid :: "nat \<Rightarrow> grid" where
  "makeGrid n = replicate n (replicate n False)"

definition cell_at :: "grid \<Rightarrow> cell \<Rightarrow> bool" where
  "cell_at g rc = g ! fst rc ! snd rc"

definition put :: "cell \<Rightarrow> bool \<Rightarrow> grid \<Rightarrow> grid" where
  "put rc v g = g[fst rc := (g ! fst rc)[snd rc := v]]"

text \<open>\<open>modules[r][c] = v; reserved[r][c] = true\<close>.\<close>

definition mark :: "cell \<Rightarrow> bool \<Rightarrow> canvas \<Rightarrow> canvas" where
  "mark rc v cv = (put rc v (fst cv), put rc True (snd cv))"

section \<open>Function patterns\<close>

definition finder_module :: "int \<Rightarrow> int \<Rightarrow> bool" where
  "finder_module r c =
     (if r < 0 \<or> r > 6 \<or> c < 0 \<or> c > 6 then False
      else (r = 0 \<or> r = 6 \<or> c = 0 \<or> c = 6) \<or> (2 \<le> r \<and> r \<le> 4 \<and> 2 \<le> c \<and> c \<le> 4))"

definition placeFinderPattern :: "nat \<Rightarrow> nat \<Rightarrow> nat \<Rightarrow> canvas \<Rightarrow> canvas" where
  "placeFinderPattern topRow leftCol n cv =
     foldl (\<lambda>cv r. foldl (\<lambda>cv c.
         let rr = int topRow + r; cc = int leftCol + c in
         if rr < 0 \<or> rr \<ge> int n \<or> cc < 0 \<or> cc \<ge> int n then cv else mark (nat rr, nat cc) (finder_module r c) cv) cv [-1..7]) cv [-1..7]"

definition time_cell :: "cell \<Rightarrow> bool \<Rightarrow> canvas \<Rightarrow> canvas" where
  "time_cell rc v cv = (if \<not> cell_at (snd cv) rc then mark rc v cv else cv)"

definition placeTimingPatterns :: "nat \<Rightarrow> canvas \<Rightarrow> canvas" where
  "placeTimingPatterns n cv =
     foldl (\<lambda>cv i. time_cell (i, 6) (i mod 2 = 0) (time_cell (6, i) (i mod 2 = 0) cv)) cv [8..<n - 8]"

definition ALIGNMENT_COORDS :: "nat \<Rightarrow> nat list" where
  "ALIGNMENT_COORDS version = (case map_of [(1, []), (2, [6, 18]), (3, [6, 22]), (4, [6, 26]), (5, [6, 30]), (6, [6, 34]),
     (7, [6, 22, 38]), (8, [6, 24, 42]), (9, [6, 26, 46]), (10, [6, 28, 50])] version of Some cs \<Rightarrow> cs | None \<Rightarrow> [])"

definition isNearFinder :: "nat \<Rightarrow> nat \<Rightarrow> nat \<Rightarrow> bool" where
  "isNearFinder row col n \<longleftrightarrow> (row \<le> 8 \<and> col \<le> 8) \<or> (row \<le> 8 \<and> col \<ge> n - 9) \<or> (row \<ge> n - 9 \<and> col \<le> 8)"

definition drawAlignmentPattern :: "nat \<Rightarrow> nat \<Rightarrow> canvas \<Rightarrow> canvas" where
  "drawAlignmentPattern centerRow centerCol cv =
     foldl (\<lambda>cv r. foldl (\<lambda>cv c.
         mark (nat (int centerRow + r), nat (int centerCol + c)) (\<bar>r\<bar> = 2 \<or> \<bar>c\<bar> = 2 \<or> (r = 0 \<and> c = 0)) cv) cv [-2..2]) cv [-2..2]"

definition placeAlignmentPatterns :: "nat \<Rightarrow> nat \<Rightarrow> canvas \<Rightarrow> canvas" where
  "placeAlignmentPatterns version n cv =
     foldl (\<lambda>cv row. foldl (\<lambda>cv col. if isNearFinder row col n then cv else drawAlignmentPattern row col cv) cv
       (ALIGNMENT_COORDS version)) cv (ALIGNMENT_COORDS version)"

definition formatCopy1Coords :: "cell list" where
  "formatCopy1Coords = map (\<lambda>i. (8, i)) [0..<6] @ [(8, 7), (8, 8), (7, 8)] @ map (\<lambda>i. (14 - i, 8)) [9..<15]"

definition formatCopy2Coords :: "nat \<Rightarrow> cell list" where
  "formatCopy2Coords n = map (\<lambda>i. (n - 1 - i, 8)) [0..<7] @ map (\<lambda>i. (8, n - 15 + i)) [7..<15]"

definition versionInfoCoords :: "nat \<Rightarrow> (cell \<times> cell) list" where
  "versionInfoCoords n = map (\<lambda>i. let r = i div 3; c = n - 11 + i mod 3 in ((r, c), (c, r))) [0..<18]"

definition reserve :: "cell list \<Rightarrow> canvas \<Rightarrow> canvas" where
  "reserve cells cv = (fst cv, foldl (\<lambda>g rc. put rc True g) (snd cv) cells)"

definition reserveFormatInfoArea :: "nat \<Rightarrow> canvas \<Rightarrow> canvas" where
  "reserveFormatInfoArea n cv = reserve (formatCopy2Coords n) (reserve formatCopy1Coords cv)"

definition reserveVersionInfoArea :: "nat \<Rightarrow> canvas \<Rightarrow> canvas" where
  "reserveVersionInfoArea n cv = reserve (concat (map (\<lambda>(a, b). [a, b]) (versionInfoCoords n))) cv"

definition placeFormatInfo :: "nat \<Rightarrow> nat \<Rightarrow> grid \<Rightarrow> grid" where
  "placeFormatInfo formatBits n modules =
     foldl (\<lambda>g i. put (formatCopy2Coords n ! i) (bitAt formatBits 15 i) (put (formatCopy1Coords ! i) (bitAt formatBits 15 i) g))
       modules [0..<15]"

definition placeVersionInfo :: "nat \<Rightarrow> nat \<Rightarrow> grid \<Rightarrow> grid" where
  "placeVersionInfo versionBits n modules =
     foldl (\<lambda>g i. put (snd (versionInfoCoords n ! i)) (bit versionBits i) (put (fst (versionInfoCoords n ! i)) (bit versionBits i) g))
       modules [0..<18]"

section \<open>The data bits\<close>

definition place_bit :: "grid \<Rightarrow> nat list \<Rightarrow> grid \<times> nat \<Rightarrow> cell \<Rightarrow> grid \<times> nat" where
  "place_bit reserved bits st rc = (case st of (modules, bitIndex) \<Rightarrow>
     if cell_at reserved rc then (modules, bitIndex)
     else (put rc ((if bitIndex < length bits then bits ! bitIndex else 0) = 1) modules, bitIndex + 1))"

text \<open>The column counter may step below zero; a natural stops at zero, which ends the loop just the same.\<close>

function place_columns :: "grid \<Rightarrow> nat list \<Rightarrow> nat \<Rightarrow> nat \<Rightarrow> bool \<Rightarrow> grid \<times> nat \<Rightarrow> grid \<times> nat" where
  "place_columns reserved bits n col upward st =
     (if col = 0 then st
      else let c0 = (if col = 6 then 5 else col);
               st' = foldl (\<lambda>st count. let row = (if upward then n - 1 - count else count) in
                       foldl (place_bit reserved bits) st [(row, c0), (row, c0 - 1)]) st [0..<n]
           in place_columns reserved bits n (c0 - 2) (\<not> upward) st')"
  by pat_completeness auto
termination by (relation "measure (\<lambda>(_, _, _, col, _). col)") auto

definition placeDataBits :: "grid \<Rightarrow> grid \<Rightarrow> nat list \<Rightarrow> nat \<Rightarrow> grid" where
  "placeDataBits modules reserved bits n = fst (place_columns reserved bits n (n - 1) True (modules, 0))"

section \<open>Masks and their penalty\<close>

definition maskCondition :: "nat \<Rightarrow> nat \<Rightarrow> nat \<Rightarrow> bool" where
  "maskCondition m r c =
     (if m = 0 then (r + c) mod 2 = 0
      else if m = 1 then r mod 2 = 0
      else if m = 2 then c mod 3 = 0
      else if m = 3 then (r + c) mod 3 = 0
      else if m = 4 then (r div 2 + c div 3) mod 2 = 0
      else if m = 5 then (r * c) mod 2 + (r * c) mod 3 = 0
      else if m = 6 then ((r * c) mod 2 + (r * c) mod 3) mod 2 = 0
      else if m = 7 then ((r + c) mod 2 + (r * c) mod 3) mod 2 = 0
      else False)"

definition mask_cell :: "grid \<Rightarrow> nat \<Rightarrow> grid \<Rightarrow> cell \<Rightarrow> grid" where
  "mask_cell reserved m g rc =
     (if cell_at reserved rc then g else if maskCondition m (fst rc) (snd rc) then put rc (\<not> cell_at g rc) g else g)"

definition applyMask :: "grid \<Rightarrow> grid \<Rightarrow> nat \<Rightarrow> nat \<Rightarrow> grid" where
  "applyMask source reserved m n = foldl (\<lambda>g r. foldl (\<lambda>g c. mask_cell reserved m g (r, c)) g [0..<n]) source [0..<n]"

text \<open>The run penalty of a row or a column, given as the list of its modules.\<close>

definition run_step :: "nat \<times> nat \<times> bool \<Rightarrow> bool \<Rightarrow> nat \<times> nat \<times> bool" where
  "run_step st v = (case st of (penalty, runLen, prev) \<Rightarrow>
     if v = prev then (penalty, runLen + 1, prev)
     else (if runLen \<ge> 5 then penalty + (runLen - 5 + 3) else penalty, 1, v))"

definition runPenalty :: "bool list \<Rightarrow> nat" where
  "runPenalty line = (case foldl run_step (0, 1, line ! 0) (drop 1 line) of
     (penalty, runLen, prev) \<Rightarrow> if runLen \<ge> 5 then penalty + (runLen - 5 + 3) else penalty)"

definition rowRunPenalty :: "grid \<Rightarrow> nat \<Rightarrow> nat \<Rightarrow> nat" where
  "rowRunPenalty modules r n = runPenalty (map (\<lambda>c. cell_at modules (r, c)) [0..<n])"

definition colRunPenalty :: "grid \<Rightarrow> nat \<Rightarrow> nat \<Rightarrow> nat" where
  "colRunPenalty modules c n = runPenalty (map (\<lambda>r. cell_at modules (r, c)) [0..<n])"

definition FINDER_LIKE_PATTERN_A :: "bool list" where
  "FINDER_LIKE_PATTERN_A = [True, False, True, True, True, False, True, False, False, False, False]"

definition FINDER_LIKE_PATTERN_B :: "bool list" where
  "FINDER_LIKE_PATTERN_B = [False, False, False, False, True, False, True, True, True, False, True]"

definition matchesPattern :: "grid \<Rightarrow> nat \<Rightarrow> nat \<Rightarrow> bool \<Rightarrow> bool list \<Rightarrow> bool" where
  "matchesPattern modules r c horizontal pat =
     list_all (\<lambda>i. cell_at modules (if horizontal then r else r + i, if horizontal then c + i else c) = pat ! i) [0..<length pat]"

definition finder_like :: "grid \<Rightarrow> nat \<Rightarrow> nat \<Rightarrow> bool \<Rightarrow> bool" where
  "finder_like modules r c horizontal \<longleftrightarrow>
     matchesPattern modules r c horizontal FINDER_LIKE_PATTERN_A \<or> matchesPattern modules r c horizontal FINDER_LIKE_PATTERN_B"

definition block_at :: "grid \<Rightarrow> nat \<Rightarrow> nat \<Rightarrow> bool" where
  "block_at modules r c = (let v = cell_at modules (r, c) in
     cell_at modules (r, c + 1) = v \<and> cell_at modules (r + 1, c) = v \<and> cell_at modules (r + 1, c + 1) = v)"

definition count_cells :: "nat \<Rightarrow> nat \<Rightarrow> (nat \<Rightarrow> nat \<Rightarrow> bool) \<Rightarrow> nat" where
  "count_cells rows cols P = sum_list (map (\<lambda>r. length (filter (P r) [0..<cols])) [0..<rows])"

definition dark_penalty :: "nat \<Rightarrow> nat \<Rightarrow> nat" where
  "dark_penalty dark n = nat \<lfloor>\<bar>of_nat (dark * 100) / of_nat (n * n) - 50 :: rat\<bar> / 5\<rfloor> * 10"

definition computePenalty :: "grid \<Rightarrow> nat \<Rightarrow> nat" where
  "computePenalty modules n =
     sum_list (map (\<lambda>r. rowRunPenalty modules r n) [0..<n]) + sum_list (map (\<lambda>c. colRunPenalty modules c n) [0..<n]) +
     3 * count_cells (n - 1) (n - 1) (block_at modules) +
     40 * count_cells n (n - 10) (\<lambda>r c. finder_like modules r c True) +
     40 * count_cells n (n - 10) (\<lambda>c r. finder_like modules r c False) +
     dark_penalty (count_cells n n (\<lambda>r c. cell_at modules (r, c))) n"

section \<open>The whole code\<close>

definition function_canvas :: "nat \<Rightarrow> canvas" where
  "function_canvas version =
     (let n = 17 + 4 * version;
          cv1 = placeFinderPattern 0 0 n (makeGrid n, makeGrid n);
          cv2 = placeFinderPattern 0 (n - 7) n cv1;
          cv3 = placeFinderPattern (n - 7) 0 n cv2;
          cv4 = placeTimingPatterns n cv3;
          cv5 = placeAlignmentPatterns version n cv4;
          cv6 = mark (4 * version + 9, 8) True cv5;
          cv7 = reserveFormatInfoArea n cv6
      in if version \<ge> 7 then reserveVersionInfoArea n cv7 else cv7)"

type_synonym best_mask = "nat option \<times> nat \<times> grid"

definition try_mask :: "grid \<Rightarrow> grid \<Rightarrow> nat \<Rightarrow> best_mask \<Rightarrow> nat \<Rightarrow> best_mask" where
  "try_mask modules reserved n best m = (case best of (bestPenalty, bestMask, bestModules) \<Rightarrow>
     let masked = applyMask modules reserved m n; penalty = computePenalty masked n in
     if (case bestPenalty of None \<Rightarrow> True | Some p \<Rightarrow> penalty < p) then (Some penalty, m, masked) else best)"

definition choose_mask :: "grid \<Rightarrow> grid \<Rightarrow> nat \<Rightarrow> best_mask" where
  "choose_mask modules reserved n = foldl (try_mask modules reserved n) (None, 0, modules) [0..<8]"

record qr_code =
  qr_version :: nat
  qr_size :: nat
  qr_matrix :: grid

definition buildMatrix :: "nat list \<Rightarrow> nat \<Rightarrow> ec_level \<Rightarrow> qr_code" where
  "buildMatrix bits version ecLevel =
     (let n = 17 + 4 * version; (modules, reserved) = function_canvas version;
          placed = placeDataBits modules reserved bits n;
          (_, bestMask, bestModules) = choose_mask placed reserved n;
          formatted = placeFormatInfo (formatInfoBits ecLevel bestMask) n bestModules
      in \<lparr>qr_version = version, qr_size = n,
          qr_matrix = (if version \<ge> 7 then placeVersionInfo (versionInfoBits version) n formatted else formatted)\<rparr>)"

text \<open>A text is the list of the bytes of its UTF-8 form.\<close>

definition encodeQr :: "string \<Rightarrow> qr_code option" where
  "encodeQr txt =
     (let bs = map of_char txt :: nat list in
      case selectVersionAndEcLevel (length bs) of None \<Rightarrow> None
      | Some (version, ecLevel) \<Rightarrow> Some (buildMatrix (buildCodewordBits bs version ecLevel) version ecLevel))"

text \<open>The runs of dark modules that \<open>qrToSvg\<close> draws: row, first column and width.\<close>

fun row_runs :: "bool list \<Rightarrow> nat \<Rightarrow> (nat \<times> nat) list" where
  "row_runs [] c = []"
| "row_runs (False # ms) c = row_runs ms (c + 1)"
| "row_runs (True # ms) c = (let w = Suc (length (takeWhile id ms)) in (c, w) # row_runs (drop (w - 1) ms) (c + w))"

definition svg_runs :: "qr_code \<Rightarrow> (nat \<times> nat \<times> nat) list" where
  "svg_runs qr = concat (map (\<lambda>r. map (\<lambda>(c, w). (r, c, w)) (row_runs (qr_matrix qr ! r) 0)) [0..<qr_size qr])"

end
