(* ===== verification/QrGrid.thy ===== *)
theory QrGrid
  imports QrMatrix
begin

text \<open>
  What the placement functions of the QR encoder do to the matrices: which cells the function patterns reserve, how
  many cells they leave for data in each version, and that bits placed in zigzag order stand in the free cells in
  that order.
\<close>

unbundle bit_operations_syntax

section \<open>Matrices\<close>

definition dims :: "nat \<Rightarrow> grid \<Rightarrow> bool" where
  "dims n g \<longleftrightarrow> length g = n \<and> (\<forall>row \<in> set g. length row = n)"

definition in_grid :: "nat \<Rightarrow> cell \<Rightarrow> bool" where
  "in_grid n rc \<longleftrightarrow> fst rc < n \<and> snd rc < n"

lemma dims_length: "dims n g \<Longrightarrow> length g = n"
  by (simp add: dims_def)

lemma dims_row: "dims n g \<Longrightarrow> r < n \<Longrightarrow> length (g ! r) = n"
  by (auto simp: dims_def)

lemma dims_put [intro]: "dims n g \<Longrightarrow> dims n (put rc v g)"
proof (cases "fst rc < n")
  case True
  assume "dims n g"
  then show ?thesis using True set_update_subset_insert[of g "fst rc" "(g ! fst rc)[snd rc := v]"] by (auto simp: dims_def put_def)
qed (simp add: dims_def put_def list_update_beyond)

lemma at_put: "dims n g \<Longrightarrow> in_grid n rc \<Longrightarrow> cell_at (put rc v g) rc' = (if rc' = rc then v else cell_at g rc')"
  by (cases rc; cases rc') (auto simp: dims_def put_def cell_at_def in_grid_def nth_list_update)

lemma dims_make: "dims n (makeGrid n)"
  by (auto simp: dims_def makeGrid_def)

lemma at_make: "in_grid n rc \<Longrightarrow> \<not> cell_at (makeGrid n) rc"
  by (simp add: cell_at_def makeGrid_def in_grid_def)

section \<open>Reserving cells\<close>

definition canvas_ok :: "nat \<Rightarrow> canvas \<Rightarrow> bool" where
  "canvas_ok n cv \<longleftrightarrow> dims n (fst cv) \<and> dims n (snd cv)"

definition reserves :: "nat \<Rightarrow> canvas \<Rightarrow> canvas \<Rightarrow> cell set \<Rightarrow> bool" where
  "reserves n cv cv' S \<longleftrightarrow> canvas_ok n cv' \<and> (\<forall>rc. in_grid n rc \<longrightarrow> cell_at (snd cv') rc = (cell_at (snd cv) rc \<or> rc \<in> S))"

lemma reserves_refl: "canvas_ok n cv \<Longrightarrow> reserves n cv cv {}"
  by (simp add: reserves_def)

lemma reserves_trans: "reserves n cv cv1 S \<Longrightarrow> reserves n cv1 cv2 T \<Longrightarrow> reserves n cv cv2 (S \<union> T)"
  by (auto simp: reserves_def)

lemma reserves_ok: "reserves n cv cv' S \<Longrightarrow> canvas_ok n cv'"
  by (simp add: reserves_def)

lemma reserves_mark: "canvas_ok n cv \<Longrightarrow> in_grid n rc \<Longrightarrow> reserves n cv (mark rc v cv) {rc}"
  by (auto simp: reserves_def mark_def canvas_ok_def at_put)

lemma reserves_foldl:
  assumes "canvas_ok n cv" and "\<And>cv x. x \<in> set xs \<Longrightarrow> canvas_ok n cv \<Longrightarrow> reserves n cv (f cv x) (S x)"
  shows "reserves n cv (foldl f cv xs) (\<Union>x \<in> set xs. S x)"
  using assms
proof (induction xs arbitrary: cv)
  case (Cons x xs)
  then have r: "reserves n cv (f cv x) (S x)" by simp
  from Cons.IH[OF reserves_ok[OF r]] Cons.prems(2) have "reserves n (f cv x) (foldl f (f cv x) xs) (\<Union>x \<in> set xs. S x)" by simp
  with reserves_trans[OF r] show ?case by simp
qed (simp add: reserves_refl)

lemma reserves_cong: "reserves n cv cv' S \<Longrightarrow> S = T \<Longrightarrow> reserves n cv cv' T"
  by simp

definition finder_cells :: "nat \<Rightarrow> nat \<Rightarrow> nat \<Rightarrow> cell set" where
  "finder_cells t l n = {(r, c). r < n \<and> c < n \<and> t \<le> r + 1 \<and> r \<le> t + 7 \<and> l \<le> c + 1 \<and> c \<le> l + 7}"

lemma finder_reserves: "canvas_ok n cv \<Longrightarrow> reserves n cv (placeFinderPattern t l n cv) (finder_cells t l n)"
proof -
  assume ok: "canvas_ok n cv"
  let ?S = "\<lambda>r c. if int t + r < 0 \<or> int t + r \<ge> int n \<or> int l + c < 0 \<or> int l + c \<ge> int n then {}
    else {(nat (int t + r), nat (int l + c))}"
  have "reserves n cv (placeFinderPattern t l n cv) (\<Union>r \<in> set [-1..7]. \<Union>c \<in> set [-1..7]. ?S r c)"
    unfolding placeFinderPattern_def
    by (intro reserves_foldl ok) (auto simp: Let_def in_grid_def nat_less_iff intro!: reserves_refl reserves_mark)
  moreover have "(\<Union>r \<in> set [-1..7]. \<Union>c \<in> set [-1..7]. ?S r c) = finder_cells t l n"
  proof (intro set_eqI iffI)
    fix rc assume "rc \<in> (\<Union>r \<in> set [-1..7]. \<Union>c \<in> set [-1..7]. ?S r c)"
    then show "rc \<in> finder_cells t l n" by (auto simp: finder_cells_def nat_less_iff split: if_splits)
  next
    fix rc assume rc: "rc \<in> finder_cells t l n"
    obtain r c where x: "rc = (r, c)" by (cases rc)
    let ?r = "int r - int t" and ?c = "int c - int l"
    have "?r \<in> set [-1..7]" "?c \<in> set [-1..7]" "rc \<in> ?S ?r ?c" using rc by (auto simp: finder_cells_def x)
    then show "rc \<in> (\<Union>r \<in> set [-1..7]. \<Union>c \<in> set [-1..7]. ?S r c)" by blast
  qed
  ultimately show ?thesis by (rule reserves_cong)
qed

lemma time_reserves: "canvas_ok n cv \<Longrightarrow> in_grid n rc \<Longrightarrow> reserves n cv (time_cell rc v cv) {rc}"
proof (cases "cell_at (snd cv) rc")
  case True
  assume "canvas_ok n cv" "in_grid n rc"
  then show ?thesis using True by (auto simp: time_cell_def reserves_def)
qed (simp add: time_cell_def reserves_mark)

definition timing_cells :: "nat \<Rightarrow> cell set" where
  "timing_cells n = {6} \<times> {8..<n - 8} \<union> {8..<n - 8} \<times> {6}"

lemma timing_reserves: "canvas_ok n cv \<Longrightarrow> reserves n cv (placeTimingPatterns n cv) (timing_cells n)"
proof -
  assume ok: "canvas_ok n cv"
  have "reserves n cv (time_cell (i, 6) v (time_cell (6, i) v cv)) ({(6, i)} \<union> {(i, 6)})"
    if "i \<in> set [8..<n - 8]" "canvas_ok n cv" for i v cv
  proof -
    have "in_grid n (6, i)" "in_grid n (i, 6)" using that(1) by (auto simp: in_grid_def)
    then show ?thesis using time_reserves that(2) by (blast intro: reserves_trans reserves_ok)
  qed
  then have "reserves n cv (placeTimingPatterns n cv) (\<Union>i \<in> set [8..<n - 8]. {(6, i)} \<union> {(i, 6)})"
    unfolding placeTimingPatterns_def by (intro reserves_foldl ok)
  then show ?thesis by (rule reserves_cong) (auto simp: timing_cells_def)
qed

definition alignment_square :: "nat \<Rightarrow> nat \<Rightarrow> cell set" where
  "alignment_square cr cc = {cr - 2..cr + 2} \<times> {cc - 2..cc + 2}"

lemma alignment_reserves:
  assumes "canvas_ok n cv" and "2 \<le> cr" "cr + 2 < n" "2 \<le> cc" "cc + 2 < n"
  shows "reserves n cv (drawAlignmentPattern cr cc cv) (alignment_square cr cc)"
proof -
  have "reserves n cv (drawAlignmentPattern cr cc cv) (\<Union>r \<in> set [-2..2]. \<Union>c \<in> set [-2..2]. {(nat (int cr + r), nat (int cc + c))})"
    unfolding drawAlignmentPattern_def
    by (intro reserves_foldl assms(1) reserves_mark) (use assms in \<open>auto simp: in_grid_def nat_less_iff\<close>)
  moreover have "(\<Union>r \<in> set [-2..2]. \<Union>c \<in> set [-2..2]. {(nat (int cr + r), nat (int cc + c))}) = alignment_square cr cc"
  proof (intro set_eqI iffI)
    fix rc assume rc: "rc \<in> alignment_square cr cc"
    obtain r c where x: "rc = (r, c)" by (cases rc)
    have "int r - int cr \<in> set [-2..2]" "int c - int cc \<in> set [-2..2]" using rc assms by (auto simp: alignment_square_def x)
    moreover have "rc = (nat (int cr + (int r - int cr)), nat (int cc + (int c - int cc)))" by (simp add: x)
    ultimately show "rc \<in> (\<Union>r \<in> set [-2..2]. \<Union>c \<in> set [-2..2]. {(nat (int cr + r), nat (int cc + c))})" by blast
  qed (use assms in \<open>auto simp: alignment_square_def nat_le_iff\<close>)
  ultimately show ?thesis by (rule reserves_cong)
qed

lemma reserve_reserves: "canvas_ok n cv \<Longrightarrow> \<forall>rc \<in> set cells. in_grid n rc \<Longrightarrow> reserves n cv (reserve cells cv) (set cells)"
proof -
  have "dims n g \<Longrightarrow> \<forall>rc \<in> set cells. in_grid n rc \<Longrightarrow> dims n (foldl (\<lambda>g rc. put rc True g) g cells) \<and>
      (\<forall>rc. in_grid n rc \<longrightarrow> cell_at (foldl (\<lambda>g rc. put rc True g) g cells) rc = (cell_at g rc \<or> rc \<in> set cells))" for g
    by (induction cells arbitrary: g) (auto simp: dims_put at_put)
  then show "canvas_ok n cv \<Longrightarrow> \<forall>rc \<in> set cells. in_grid n rc \<Longrightarrow> reserves n cv (reserve cells cv) (set cells)"
    by (auto simp: reserves_def canvas_ok_def reserve_def)
qed

section \<open>The function patterns of a version\<close>

definition side_of :: "nat \<Rightarrow> nat" where
  "side_of version = 17 + 4 * version"

definition alignment_cells :: "nat \<Rightarrow> cell set" where
  "alignment_cells version = (\<Union>row \<in> set (ALIGNMENT_COORDS version). \<Union>col \<in> set (ALIGNMENT_COORDS version).
     if isNearFinder row col (side_of version) then {} else alignment_square row col)"

definition version_cells :: "nat \<Rightarrow> cell set" where
  "version_cells n = {0..5} \<times> {n - 11..n - 9} \<union> {n - 11..n - 9} \<times> {0..5}"

definition function_cells :: "nat \<Rightarrow> cell set" where
  "function_cells version =
     (let n = side_of version in
      finder_cells 0 0 n \<union> finder_cells 0 (n - 7) n \<union> finder_cells (n - 7) 0 n \<union> timing_cells n \<union> alignment_cells version \<union>
      {(4 * version + 9, 8)} \<union> set formatCopy1Coords \<union> set (formatCopy2Coords n) \<union> (if version \<ge> 7 then version_cells n else {}))"

lemma coords_fit:
  assumes "version \<in> set [1..<11]" and "row \<in> set (ALIGNMENT_COORDS version)"
  shows "6 \<le> row \<and> row + 7 \<le> side_of version"
  using assms unfolding versions by (elim disjE) (auto simp: ALIGNMENT_COORDS_def side_of_def)

lemma copy1_list: "formatCopy1Coords = [(8, 0), (8, 1), (8, 2), (8, 3), (8, 4), (8, 5), (8, 7), (8, 8), (7, 8), (5, 8), (4, 8), (3, 8),
    (2, 8), (1, 8), (0, 8)]"
  by code_simp

lemma copy1_region: "\<forall>rc \<in> set formatCopy1Coords. fst rc \<le> 8 \<and> snd rc \<le> 8"
  unfolding copy1_list by simp

lemma copy2_cells: "15 \<le> n \<Longrightarrow> rc \<in> set (formatCopy2Coords n) \<longleftrightarrow> rc \<in> {n - 7..n - 1} \<times> {8} \<union> {8} \<times> {n - 8..n - 1}"
proof -
  assume n: "15 \<le> n"
  have "(\<lambda>i. n - 1 - i) ` {0..<7} = {n - 7..n - 1}"
  proof (intro set_eqI iffI)
    fix x assume "x \<in> {n - 7..n - 1}"
    then show "x \<in> (\<lambda>i. n - 1 - i) ` {0..<7}" using n by (intro image_eqI[of _ _ "n - 1 - x"]) auto
  qed (use n in auto)
  moreover have "(\<lambda>i. n - 15 + i) ` {7..<15} = {n - 8..n - 1}"
  proof (intro set_eqI iffI)
    fix x assume "x \<in> {n - 8..n - 1}"
    then show "x \<in> (\<lambda>i. n - 15 + i) ` {7..<15}" using n by (intro image_eqI[of _ _ "x + 15 - n"]) auto
  qed (use n in auto)
  moreover have line: "(\<lambda>i. (f i, k)) ` A = f ` A \<times> {k}" "(\<lambda>i. (k, f i)) ` A = {k} \<times> f ` A" for f :: "nat \<Rightarrow> nat" and k :: nat and A
    by auto
  note line(1)[of "\<lambda>i. n - 1 - i" 8 "{0..<7}"] line(2)[of 8 "\<lambda>i. n - 15 + i" "{7..<15}"]
  ultimately have "set (formatCopy2Coords n) = {n - 7..n - 1} \<times> {8} \<union> {8} \<times> {n - 8..n - 1}"
    unfolding formatCopy2Coords_def set_append set_map set_upt by (simp only: line)
  then show ?thesis by simp
qed

lemma version_coords: "11 \<le> n \<Longrightarrow> set (concat (map (\<lambda>(a, b). [a, b]) (versionInfoCoords n))) = version_cells n"
proof -
  assume n: "11 \<le> n"
  have "(\<lambda>i :: nat. (i div 3, n - 11 + i mod 3)) ` {0..<18} = {0..5} \<times> {n - 11..n - 9}"
  proof (intro set_eqI iffI)
    fix rc :: cell assume rc: "rc \<in> {0..5} \<times> {n - 11..n - 9}"
    then show "rc \<in> (\<lambda>i. (i div 3, n - 11 + i mod 3)) ` {0..<18}"
      using n by (intro image_eqI[of _ _ "3 * fst rc + (snd rc + 11 - n)"]) auto
  next
    fix rc :: cell assume "rc \<in> (\<lambda>i. (i div 3, n - 11 + i mod 3)) ` {0..<18}"
    then obtain i where i: "i < 18" "rc = (i div 3, n - 11 + i mod 3)" by auto
    have "i div 3 < 6" "i mod 3 < 3" using i(1) by simp_all
    with i n show "rc \<in> {0..5} \<times> {n - 11..n - 9}" by auto
  qed
  moreover have "(\<lambda>i. (n - 11 + i mod 3, i div 3)) ` {0..<18} = prod.swap ` (\<lambda>i. (i div 3, n - 11 + i mod 3)) ` {0..<18}"
    by (simp add: image_image)
  moreover have "set (concat (map (\<lambda>(a, b). [a, b]) (versionInfoCoords n))) =
      (\<lambda>i. (i div 3, n - 11 + i mod 3)) ` {0..<18} \<union> (\<lambda>i. (n - 11 + i mod 3, i div 3)) ` {0..<18}"
    unfolding versionInfoCoords_def by (force simp: Let_def)
  ultimately show ?thesis by (auto simp: version_cells_def)
qed

lemma function_canvas_reserves:
  assumes v: "version \<in> set [1..<11]"
  shows "reserves (side_of version) (makeGrid (side_of version), makeGrid (side_of version)) (function_canvas version) (function_cells version)"
proof -
  let ?n = "side_of version"
  have n: "21 \<le> ?n" using v by (simp add: side_of_def del: upt_rec_numeral)
  define cv where "cv = (makeGrid ?n, makeGrid ?n)"
  define cv1 where "cv1 = placeFinderPattern 0 0 ?n cv"
  define cv2 where "cv2 = placeFinderPattern 0 (?n - 7) ?n cv1"
  define cv3 where "cv3 = placeFinderPattern (?n - 7) 0 ?n cv2"
  define cv4 where "cv4 = placeTimingPatterns ?n cv3"
  define cv5 where "cv5 = placeAlignmentPatterns version ?n cv4"
  define cv6 where "cv6 = mark (4 * version + 9, 8) True cv5"
  define cv7 where "cv7 = reserveFormatInfoArea ?n cv6"
  have r1: "reserves ?n cv cv1 (finder_cells 0 0 ?n)" unfolding cv1_def by (rule finder_reserves) (simp add: cv_def canvas_ok_def dims_make)
  have r2: "reserves ?n cv1 cv2 (finder_cells 0 (?n - 7) ?n)" unfolding cv2_def by (rule finder_reserves[OF reserves_ok[OF r1]])
  have r3: "reserves ?n cv2 cv3 (finder_cells (?n - 7) 0 ?n)" unfolding cv3_def by (rule finder_reserves[OF reserves_ok[OF r2]])
  have r4: "reserves ?n cv3 cv4 (timing_cells ?n)" unfolding cv4_def by (rule timing_reserves[OF reserves_ok[OF r3]])
  have square: "canvas_ok ?n c \<Longrightarrow> row \<in> set (ALIGNMENT_COORDS version) \<Longrightarrow> col \<in> set (ALIGNMENT_COORDS version) \<Longrightarrow>
      reserves ?n c (if isNearFinder row col ?n then c else drawAlignmentPattern row col c)
        (if isNearFinder row col ?n then {} else alignment_square row col)" for c row col
    using coords_fit[OF v, of row] coords_fit[OF v, of col] by (auto intro!: reserves_refl alignment_reserves)
  have r5: "reserves ?n cv4 cv5 (alignment_cells version)"
    unfolding cv5_def placeAlignmentPatterns_def alignment_cells_def
    by (intro reserves_foldl square reserves_ok[OF r4])
  have r6: "reserves ?n cv5 cv6 {(4 * version + 9, 8)}"
    unfolding cv6_def by (rule reserves_mark[OF reserves_ok[OF r5]]) (simp add: in_grid_def side_of_def)
  have f1: "\<forall>rc \<in> set formatCopy1Coords. in_grid ?n rc" using n copy1_region by (fastforce simp: in_grid_def)
  have f2: "\<forall>rc \<in> set (formatCopy2Coords ?n). in_grid ?n rc" using n by (auto simp: copy2_cells in_grid_def)
  have r7: "reserves ?n cv6 cv7 (set formatCopy1Coords \<union> set (formatCopy2Coords ?n))"
    unfolding cv7_def reserveFormatInfoArea_def
    by (rule reserves_trans[OF reserve_reserves[OF reserves_ok[OF r6] f1] reserve_reserves[OF reserves_ok[OF reserve_reserves[OF reserves_ok[OF r6] f1]] f2]])
  have f3: "\<forall>rc \<in> set (concat (map (\<lambda>(a, b). [a, b]) (versionInfoCoords ?n))). in_grid ?n rc"
  proof -
    have "11 \<le> ?n" using n by simp
    from version_coords[OF this] show ?thesis using n by (simp only:) (auto simp: version_cells_def in_grid_def)
  qed
  have r8: "reserves ?n cv7 (function_canvas version) (if version \<ge> 7 then version_cells ?n else {})"
  proof (cases "version \<ge> 7")
    case True
    have "function_canvas version = reserveVersionInfoArea ?n cv7"
      using True by (simp add: function_canvas_def Let_def side_of_def cv_def cv1_def cv2_def cv3_def cv4_def cv5_def cv6_def cv7_def)
    moreover have "reserves ?n cv7 (reserveVersionInfoArea ?n cv7) (version_cells ?n)"
      unfolding reserveVersionInfoArea_def using reserve_reserves[OF reserves_ok[OF r7] f3] version_coords[of ?n] n by simp
    ultimately show ?thesis using True by simp
  next
    case False
    have "function_canvas version = cv7"
      using False by (simp add: function_canvas_def Let_def side_of_def cv_def cv1_def cv2_def cv3_def cv4_def cv5_def cv6_def cv7_def)
    then show ?thesis using False reserves_refl[OF reserves_ok[OF r7]] by simp
  qed
  note all = reserves_trans[OF reserves_trans[OF reserves_trans[OF reserves_trans[OF reserves_trans[OF reserves_trans[OF reserves_trans[OF
    r1 r2] r3] r4] r5] r6] r7] r8]
  show ?thesis using all unfolding cv_def by (rule reserves_cong) (simp add: function_cells_def Let_def Un_assoc)
qed

lemma reserved_exact:
  assumes "version \<in> set [1..<11]" and "in_grid (side_of version) rc"
  shows "cell_at (snd (function_canvas version)) rc \<longleftrightarrow> rc \<in> function_cells version"
  using function_canvas_reserves[OF assms(1)] assms(2) at_make[OF assms(2)] unfolding reserves_def snd_conv by blast

end
