(* ===== verification/QrRoom.thy ===== *)
theory QrRoom
  imports QrGrid
begin

text \<open>
  The zigzag order in which the QR encoder fills the matrix, and the room it finds: every cell outside the
  function patterns comes up exactly once, and in every version there are as many of them as the codewords have
  bits.
\<close>

section \<open>The zigzag\<close>

definition pair_cells :: "nat \<Rightarrow> nat \<Rightarrow> bool \<Rightarrow> cell list" where
  "pair_cells n c0 upward = concat (map (\<lambda>count. let row = (if upward then n - 1 - count else count) in [(row, c0), (row, c0 - 1)]) [0..<n])"

function zigzag :: "nat \<Rightarrow> nat \<Rightarrow> bool \<Rightarrow> cell list" where
  "zigzag n col upward =
     (if col = 0 then []
      else let c0 = (if col = 6 then 5 else col) in pair_cells n c0 upward @ zigzag n (c0 - 2) (\<not> upward))"
  by pat_completeness auto
termination by (relation "measure (\<lambda>(_, col, _). col)") auto

declare zigzag.simps [simp del] place_columns.simps [simp del]

lemma foldl_concat_map: "foldl f st (concat (map g xs)) = foldl (\<lambda>st x. foldl f st (g x)) st xs"
  by (induction xs arbitrary: st) simp_all

lemma place_columns_zigzag: "place_columns reserved xs n col upward st = foldl (place_bit reserved xs) st (zigzag n col upward)"
proof (induction reserved xs n col upward st rule: place_columns.induct)
  case (1 reserved xs n col upward st)
  then show ?case
    by (subst place_columns.simps, subst zigzag.simps) (simp add: Let_def pair_cells_def foldl_concat_map)
qed

lemma pair_set: "set (pair_cells n c0 upward) = {0..<n} \<times> {c0, c0 - 1}"
proof -
  have "(\<lambda>count. n - 1 - count) ` {0..<n} = {0..<n}"
  proof (intro set_eqI iffI)
    fix x assume "x \<in> {0..<n}"
    then show "x \<in> (\<lambda>count. n - 1 - count) ` {0..<n}" by (intro image_eqI[of _ _ "n - 1 - x"]) auto
  qed auto
  moreover have "set (pair_cells n c0 upward) = (if upward then (\<lambda>count. n - 1 - count) ` {0..<n} else {0..<n}) \<times> {c0, c0 - 1}"
    by (auto simp: pair_cells_def Let_def)
  ultimately show ?thesis by simp
qed

lemma distinct_pairs: "inj_on f (set xs) \<Longrightarrow> distinct xs \<Longrightarrow> a \<noteq> b \<Longrightarrow> distinct (concat (map (\<lambda>x. [(f x, a), (f x, b)]) xs))"
  by (induction xs) auto

lemma pair_distinct: "0 < c0 \<Longrightarrow> distinct (pair_cells n c0 upward)"
proof -
  assume c: "0 < c0"
  let ?f = "\<lambda>x. if upward then n - 1 - x else x"
  have "pair_cells n c0 upward = concat (map (\<lambda>x. [(?f x, c0), (?f x, c0 - 1)]) [0..<n])"
    by (simp add: pair_cells_def Let_def)
  moreover have "distinct (concat (map (\<lambda>x. [(?f x, c0), (?f x, c0 - 1)]) [0..<n]))"
    by (rule distinct_pairs) (use c in \<open>auto simp: inj_on_def\<close>)
  ultimately show ?thesis by (simp only:)
qed

definition column_ok :: "nat \<Rightarrow> bool" where
  "column_ok col \<longleftrightarrow> (even col \<and> 6 \<le> col) \<or> (odd col \<and> col \<le> 5) \<or> col = 0"

lemma zigzag_exact:
  "column_ok col \<Longrightarrow> distinct (zigzag n col upward) \<and> set (zigzag n col upward) = {(r, c). r < n \<and> c \<le> col \<and> c \<noteq> 6 \<and> col \<noteq> 0}"
proof (induction n col upward rule: zigzag.induct)
  case (1 n col upward)
  show ?case
  proof (cases "col = 0")
    case False
    let ?c = "if col = 6 then 5 else col"
    have next_ok: "column_ok (?c - 2)" and c: "0 < ?c" using "1.prems" False by (auto simp: column_ok_def)
    from "1.IH"[OF False refl next_ok] have ih: "distinct (zigzag n (?c - 2) (\<not> upward))"
      "set (zigzag n (?c - 2) (\<not> upward)) = {(r, c). r < n \<and> c \<le> ?c - 2 \<and> c \<noteq> 6 \<and> ?c - 2 \<noteq> 0}" by auto
    have z: "zigzag n col upward = pair_cells n ?c upward @ zigzag n (?c - 2) (\<not> upward)"
      by (subst zigzag.simps) (simp add: False Let_def)
    have odd: "col \<noteq> 7" "col \<noteq> 2" using "1.prems" by (auto simp: column_ok_def)
    have cells: "(c = ?c \<or> c = ?c - 1) \<or> (c \<le> ?c - 2 \<and> c \<noteq> 6 \<and> ?c - 2 \<noteq> 0) \<longleftrightarrow> c \<le> col \<and> c \<noteq> 6" for c
      using odd False by (cases "col = 6") auto
    have "distinct (zigzag n col upward)"
      unfolding z using ih pair_distinct[OF c] c by (auto simp: pair_set)
    moreover have "set (zigzag n col upward) = {(r, c). r < n \<and> c \<le> col \<and> c \<noteq> 6 \<and> col \<noteq> 0}"
    proof (intro set_eqI)
      fix rc :: cell
      obtain r c where rc: "rc = (r, c)" by (cases rc)
      have "rc \<in> set (zigzag n col upward) \<longleftrightarrow>
          r < n \<and> ((c = ?c \<or> c = ?c - 1) \<or> (c \<le> ?c - 2 \<and> c \<noteq> 6 \<and> ?c - 2 \<noteq> 0))"
        unfolding z set_append pair_set ih(2) rc by (simp only: Un_iff mem_Sigma_iff mem_Collect_eq prod.case insert_iff empty_iff atLeastLessThan_iff) blast
      then show "rc \<in> set (zigzag n col upward) \<longleftrightarrow> rc \<in> {(r, c). r < n \<and> c \<le> col \<and> c \<noteq> 6 \<and> col \<noteq> 0}"
        unfolding cells rc using False by simp
    qed
    ultimately show ?thesis by simp
  qed (simp add: zigzag.simps)
qed

lemma side_odd: "column_ok (side_of version - 1)"
  by (auto simp: column_ok_def side_of_def)

section \<open>The room for data\<close>

definition free_cells :: "nat \<Rightarrow> cell list" where
  "free_cells version = filter (\<lambda>rc. rc \<notin> function_cells version) (zigzag (side_of version) (side_of version - 1) True)"

lemma column_6: "r < side_of version \<Longrightarrow> (r, 6) \<in> function_cells version"
  by (auto simp: function_cells_def Let_def finder_cells_def timing_cells_def side_of_def)

lemma free_set: "set (free_cells version) = {0..<side_of version} \<times> {0..<side_of version} - function_cells version"
proof -
  let ?n = "side_of version"
  have n: "0 < ?n - 1" by (simp add: side_of_def)
  have "set (zigzag ?n (?n - 1) True) = {(r, c). r < ?n \<and> c \<le> ?n - 1 \<and> c \<noteq> 6 \<and> ?n - 1 \<noteq> 0}" using zigzag_exact[OF side_odd] by blast
  then show ?thesis using n column_6[of _ version] by (auto simp: free_cells_def)
qed

lemma free_distinct: "distinct (free_cells version)"
  unfolding free_cells_def using zigzag_exact[OF side_odd] by (intro distinct_filter) blast

text \<open>How many cells the alignment patterns take beyond the timing patterns.\<close>

definition alignment_weight :: "nat \<Rightarrow> nat \<Rightarrow> nat \<Rightarrow> nat" where
  "alignment_weight n row col = (if isNearFinder row col n then 0 else if row = 6 \<or> col = 6 then 20 else 25)"

definition coord_shape :: "nat \<Rightarrow> nat \<Rightarrow> bool" where
  "coord_shape n x \<longleftrightarrow> x = 6 \<or> (10 \<le> x \<and> x + 11 \<le> n) \<or> x + 7 = n"

lemma coords_shape:
  assumes "version \<in> set [1..<11]" and "row \<in> set (ALIGNMENT_COORDS version)"
  shows "coord_shape (side_of version) row"
  using assms unfolding versions coord_shape_def by (elim disjE) (auto simp: ALIGNMENT_COORDS_def side_of_def)

lemma square_card:
  assumes "6 \<le> row" "row + 7 \<le> n" "6 \<le> col" "col + 7 \<le> n" and shape: "coord_shape n row" "coord_shape n col"
  shows "card ((if isNearFinder row col n then {} else alignment_square row col) - timing_cells n) \<le> alignment_weight n row col"
proof -
  have fin: "finite (alignment_square row col)" by (simp add: alignment_square_def)
  have c25: "card (alignment_square row col) = 25" using assms by (simp add: alignment_square_def card_cartesian_product)
  have "card (alignment_square row col - timing_cells n) \<le> 20" if r: "row = 6" "\<not> isNearFinder row col n"
  proof -
    have "{6} \<times> {col - 2..col + 2} \<subseteq> timing_cells n" using r assms by (auto simp: timing_cells_def isNearFinder_def coord_shape_def)
    then have "alignment_square row col - timing_cells n \<subseteq> alignment_square row col - {6} \<times> {col - 2..col + 2}" by blast
    then have "card (alignment_square row col - timing_cells n) \<le> card (alignment_square row col - {6} \<times> {col - 2..col + 2})"
      by (intro card_mono) (simp_all add: fin)
    also have "\<dots> = card (alignment_square row col) - card ({6 :: nat} \<times> {col - 2..col + 2})"
      using r(1) by (intro card_Diff_subset) (auto simp: alignment_square_def)
    finally show ?thesis using c25 assms by (simp add: card_cartesian_product)
  qed
  moreover have "card (alignment_square row col - timing_cells n) \<le> 20" if c: "col = 6" "\<not> isNearFinder row col n"
  proof -
    have "{row - 2..row + 2} \<times> {6} \<subseteq> timing_cells n" using c assms by (auto simp: timing_cells_def isNearFinder_def coord_shape_def)
    then have "alignment_square row col - timing_cells n \<subseteq> alignment_square row col - {row - 2..row + 2} \<times> {6}" by blast
    then have "card (alignment_square row col - timing_cells n) \<le> card (alignment_square row col - {row - 2..row + 2} \<times> {6})"
      by (intro card_mono) (simp_all add: fin)
    also have "\<dots> = card (alignment_square row col) - card ({row - 2..row + 2} \<times> {6 :: nat})"
      using c(1) by (intro card_Diff_subset) (auto simp: alignment_square_def)
    finally show ?thesis using c25 assms by (simp add: card_cartesian_product)
  qed
  moreover have "card (alignment_square row col - timing_cells n) \<le> 25" using card_mono[OF fin Diff_subset] c25 by metis
  ultimately show ?thesis by (auto simp: alignment_weight_def)
qed

definition alignment_room :: "nat \<Rightarrow> nat" where
  "alignment_room version = (\<Sum>row \<in> set (ALIGNMENT_COORDS version). \<Sum>col \<in> set (ALIGNMENT_COORDS version).
     alignment_weight (side_of version) row col)"

lemma alignment_card:
  assumes v: "version \<in> set [1..<11]"
  shows "card (alignment_cells version - timing_cells (side_of version)) \<le> alignment_room version"
proof -
  let ?n = "side_of version" and ?C = "set (ALIGNMENT_COORDS version)"
  let ?S = "\<lambda>row col. (if isNearFinder row col ?n then {} else alignment_square row col) - timing_cells ?n"
  have fit: "6 \<le> row \<and> row + 7 \<le> ?n" if "row \<in> ?C" for row using coords_fit[OF v that] .
  have "alignment_cells version - timing_cells ?n = (\<Union>row \<in> ?C. \<Union>col \<in> ?C. ?S row col)" by (auto simp: alignment_cells_def)
  also have "card \<dots> \<le> (\<Sum>row \<in> ?C. card (\<Union>col \<in> ?C. ?S row col))" by (rule card_UN_le) simp
  also have "\<dots> \<le> (\<Sum>row \<in> ?C. \<Sum>col \<in> ?C. card (?S row col))" by (intro sum_mono card_UN_le) simp
  also have "\<dots> \<le> alignment_room version" unfolding alignment_room_def using fit coords_shape[OF v] by (intro sum_mono square_card) auto
  finally show ?thesis .
qed

definition reserved_bound :: "nat \<Rightarrow> nat" where
  "reserved_bound version = 192 + 2 * (side_of version - 16) + alignment_room version + 31 + (if version \<ge> 7 then 36 else 0)"

lemma card_prod_le: "card A = a \<Longrightarrow> card B = b \<Longrightarrow> card (A \<times> B) = a * b"
  by (simp add: card_cartesian_product)

lemma function_card:
  assumes v: "version \<in> set [1..<11]"
  shows "card (function_cells version) \<le> reserved_bound version"
proof -
  let ?n = "side_of version"
  have n: "21 \<le> ?n" using v by (simp add: side_of_def del: upt_rec_numeral)
  let ?A = "alignment_cells version - timing_cells ?n" and ?V = "if version \<ge> 7 then version_cells ?n else {}"
  have f1: "finder_cells 0 0 ?n = {0..7} \<times> {0..7}" "finder_cells 0 (?n - 7) ?n = {0..7} \<times> {?n - 8..?n - 1}"
    "finder_cells (?n - 7) 0 ?n = {?n - 8..?n - 1} \<times> {0..7}" using n by (auto simp: finder_cells_def)
  have finders: "card (finder_cells 0 0 ?n) = 64" "card (finder_cells 0 (?n - 7) ?n) = 64" "card (finder_cells (?n - 7) 0 ?n) = 64"
    using n unfolding f1 by (simp_all add: card_cartesian_product)
  have timing: "card (timing_cells ?n) \<le> 2 * (?n - 16)"
    unfolding timing_cells_def by (rule order_trans[OF card_Un_le]) (simp add: card_cartesian_product)
  have "card (version_cells ?n) \<le> 36" unfolding version_cells_def
    using n by (intro order_trans[OF card_Un_le]) (simp add: card_cartesian_product)
  then have ver: "card ?V \<le> (if version \<ge> 7 then 36 else 0)" by simp
  have c1: "card (set formatCopy1Coords) \<le> 15" using card_length[of formatCopy1Coords] by (simp add: formatCopy1Coords_def)
  have c2: "card (set (formatCopy2Coords ?n)) \<le> 15" using card_length[of "formatCopy2Coords ?n"] by (simp add: formatCopy2Coords_def)
  have "function_cells version = finder_cells 0 0 ?n \<union> (finder_cells 0 (?n - 7) ?n \<union> (finder_cells (?n - 7) 0 ?n \<union> (timing_cells ?n \<union>
      (?A \<union> ({(4 * version + 9, 8)} \<union> (set formatCopy1Coords \<union> (set (formatCopy2Coords ?n) \<union> ?V)))))))"
    unfolding function_cells_def Let_def by blast
  also have "card \<dots> \<le> 64 + (64 + (64 + (2 * (?n - 16) + (alignment_room version + (1 + (15 + (15 + (if version \<ge> 7 then 36 else 0))))))))"
    by (intro order_trans[OF card_Un_le] add_mono alignment_card[OF v] timing c1 c2 ver) (simp_all add: finders)
  finally show ?thesis by (simp add: reserved_bound_def)
qed

lemma room_enough:
  assumes v: "version \<in> set [1..<11]"
  shows "side_of version * side_of version - reserved_bound version \<le> length (free_cells version)"
proof -
  let ?n = "side_of version"
  have "length (free_cells version) = card (set (free_cells version))" using free_distinct by (simp add: distinct_card)
  also have "\<dots> \<ge> card ({0..<?n} \<times> {0..<?n}) - card (function_cells version)"
  proof -
    have fin: "finite (function_cells version)"
      using function_canvas_reserves[OF v] by (auto simp: function_cells_def Let_def finder_cells_def timing_cells_def alignment_cells_def
          alignment_square_def version_cells_def intro: finite_subset[of _ "{0..<?n} \<times> {0..<?n}"])
    show ?thesis unfolding free_set by (rule diff_card_le_card_Diff[OF fin])
  qed
  finally show ?thesis using function_card[OF v] by (simp add: card_cartesian_product)
qed

definition version_codewords :: "nat \<Rightarrow> ec_level \<Rightarrow> nat" where
  "version_codewords version ecLevel = (let cap = CAPACITY version ecLevel in
     totalDataCodewords cap + vc_ecCodewordsPerBlock cap * length (block_lengths cap))"

lemma codewords_fit:
  assumes v: "version \<in> set [1..<11]"
  shows "8 * version_codewords version ecLevel \<le> length (free_cells version)"
proof -
  have "8 * version_codewords version ecLevel + reserved_bound version \<le> side_of version * side_of version"
    using v unfolding versions
    by (elim disjE; cases ecLevel; simp add: version_codewords_def CAPACITY_def CAPACITY_TABLE_def one_group_def two_groups_def
        totalDataCodewords_def block_lengths_def reserved_bound_def alignment_room_def ALIGNMENT_COORDS_def alignment_weight_def
        isNearFinder_def side_of_def)
  with room_enough[OF v] show ?thesis by linarith
qed

end
