(* ===== verification/QrFormat.thy ===== *)
theory QrFormat
  imports QrRoom
begin

text \<open>
  The format words of the QR encoder (\<open>node/src/qrcode.ts\<close>): the sixteen words that \<open>formatInfoBits\<close> computes, and
  that any two of them differ in at least seven bits, so that a reader can correct three.
\<close>

unbundle bit_operations_syntax

section \<open>Format words\<close>

definition format_word :: "ec_level \<Rightarrow> nat \<Rightarrow> bool list" where
  "format_word ecLevel m = map (bitAt (formatInfoBits ecLevel m) 15) [0..<15]"

text \<open>The remainders of the sixteen format values, and the words they give.\<close>

lemma format_remainders:
  "bchRemainder 8192 1335 10 = 982"
  "bchRemainder 9216 1335 10 = 737"
  "bchRemainder 10240 1335 10 = 440"
  "bchRemainder 11264 1335 10 = 143"
  "bchRemainder 12288 1335 10 = 573"
  "bchRemainder 13312 1335 10 = 778"
  "bchRemainder 14336 1335 10 = 83"
  "bchRemainder 15360 1335 10 = 356"
  "bchRemainder 0 1335 10 = 0"
  "bchRemainder 1024 1335 10 = 311"
  "bchRemainder 2048 1335 10 = 622"
  "bchRemainder 3072 1335 10 = 857"
  "bchRemainder 4096 1335 10 = 491"
  "bchRemainder 5120 1335 10 = 220"
  "bchRemainder 6144 1335 10 = 901"
  "bchRemainder 7168 1335 10 = 690"
  by (simp_all add: bchRemainder_def bit_0)

lemma format_values:
  "formatInfoBits EcL 0 = 30660"
  "formatInfoBits EcL 1 = 29427"
  "formatInfoBits EcL 2 = 32170"
  "formatInfoBits EcL 3 = 30877"
  "formatInfoBits EcL 4 = 26159"
  "formatInfoBits EcL 5 = 25368"
  "formatInfoBits EcL 6 = 27713"
  "formatInfoBits EcL 7 = 26998"
  "formatInfoBits EcM 0 = 21522"
  "formatInfoBits EcM 1 = 20773"
  "formatInfoBits EcM 2 = 24188"
  "formatInfoBits EcM 3 = 23371"
  "formatInfoBits EcM 4 = 17913"
  "formatInfoBits EcM 5 = 16590"
  "formatInfoBits EcM 6 = 20375"
  "formatInfoBits EcM 7 = 19104"
  by (simp_all add: formatInfoBits_def EC_LEVEL_BITS_def FORMAT_GENERATOR_def FORMAT_MASK_def Let_def push_bit_eq_mult format_remainders del: One_nat_def)

lemma upt_15: "[0..<15] = [0, 1, 2, 3, 4, 5, 6, 7, 8, 9, 10, 11, 12, 13, 14 :: nat]"
  by (simp add: upt_rec)

lemma format_words:
  "format_word EcL 0 = [True, True, True, False, True, True, True, True, True, False, False, False, True, False, False]"
  "format_word EcL 1 = [True, True, True, False, False, True, False, True, True, True, True, False, False, True, True]"
  "format_word EcL 2 = [True, True, True, True, True, False, True, True, False, True, False, True, False, True, False]"
  "format_word EcL 3 = [True, True, True, True, False, False, False, True, False, False, True, True, True, False, True]"
  "format_word EcL 4 = [True, True, False, False, True, True, False, False, False, True, False, True, True, True, True]"
  "format_word EcL 5 = [True, True, False, False, False, True, True, False, False, False, True, True, False, False, False]"
  "format_word EcL 6 = [True, True, False, True, True, False, False, False, True, False, False, False, False, False, True]"
  "format_word EcL 7 = [True, True, False, True, False, False, True, False, True, True, True, False, True, True, False]"
  "format_word EcM 0 = [True, False, True, False, True, False, False, False, False, False, True, False, False, True, False]"
  "format_word EcM 1 = [True, False, True, False, False, False, True, False, False, True, False, False, True, False, True]"
  "format_word EcM 2 = [True, False, True, True, True, True, False, False, True, True, True, True, True, False, False]"
  "format_word EcM 3 = [True, False, True, True, False, True, True, False, True, False, False, True, False, True, True]"
  "format_word EcM 4 = [True, False, False, False, True, False, True, True, True, True, True, True, False, False, True]"
  "format_word EcM 5 = [True, False, False, False, False, False, False, True, True, False, False, True, True, True, False]"
  "format_word EcM 6 = [True, False, False, True, True, True, True, True, False, False, True, False, True, True, True]"
  "format_word EcM 7 = [True, False, False, True, False, True, False, True, False, True, False, False, False, False, False]"
  by (simp_all add: format_word_def upt_15 format_values[unfolded One_nat_def] bitAt_def bit_0)


text \<open>Two different words differ in at least seven of their fifteen bits.\<close>

definition differences :: "bool list \<Rightarrow> bool list \<Rightarrow> nat" where
  "differences xs ys = length (filter (\<lambda>(x, y). x \<noteq> y) (zip xs ys))"

definition formats :: "(ec_level \<times> nat) list" where
  "formats = List.product [EcM, EcL] [0..<8]"

lemma formats_all: "(ecLevel, m) \<in> set formats \<longleftrightarrow> m < 8"
  unfolding formats_def by (cases ecLevel) (auto simp del: upt_rec_numeral)

lemma mask_cases: "m < 8 \<longleftrightarrow> m = 0 \<or> m = 1 \<or> m = 2 \<or> m = 3 \<or> m = 4 \<or> m = 5 \<or> m = 6 \<or> m = (7 :: nat)"
  by presburger

lemma differences_Nil: "differences [] [] = 0"
  by (simp add: differences_def)

lemma differences_Cons: "differences (x # xs) (y # ys) = (if x = y then differences xs ys else Suc (differences xs ys))"
  by (simp add: differences_def)

text \<open>The words as a table, on which the distance is evaluated.\<close>

definition WORD_TABLE :: "((ec_level \<times> nat) \<times> bool list) list" where
  "WORD_TABLE =
    [((EcL, 0), [True, True, True, False, True, True, True, True, True, False, False, False, True, False, False]),
     ((EcL, 1), [True, True, True, False, False, True, False, True, True, True, True, False, False, True, True]),
     ((EcL, 2), [True, True, True, True, True, False, True, True, False, True, False, True, False, True, False]),
     ((EcL, 3), [True, True, True, True, False, False, False, True, False, False, True, True, True, False, True]),
     ((EcL, 4), [True, True, False, False, True, True, False, False, False, True, False, True, True, True, True]),
     ((EcL, 5), [True, True, False, False, False, True, True, False, False, False, True, True, False, False, False]),
     ((EcL, 6), [True, True, False, True, True, False, False, False, True, False, False, False, False, False, True]),
     ((EcL, 7), [True, True, False, True, False, False, True, False, True, True, True, False, True, True, False]),
     ((EcM, 0), [True, False, True, False, True, False, False, False, False, False, True, False, False, True, False]),
     ((EcM, 1), [True, False, True, False, False, False, True, False, False, True, False, False, True, False, True]),
     ((EcM, 2), [True, False, True, True, True, True, False, False, True, True, True, True, True, False, False]),
     ((EcM, 3), [True, False, True, True, False, True, True, False, True, False, False, True, False, True, True]),
     ((EcM, 4), [True, False, False, False, True, False, True, True, True, True, True, True, False, False, True]),
     ((EcM, 5), [True, False, False, False, False, False, False, True, True, False, False, True, True, True, False]),
     ((EcM, 6), [True, False, False, True, True, True, True, True, False, False, True, False, True, True, True]),
     ((EcM, 7), [True, False, False, True, False, True, False, True, False, True, False, False, False, False, False])]"

lemma word_table:
  assumes "m < 8"
  shows "((e, m), format_word e m) \<in> set WORD_TABLE"
  using assms unfolding mask_cases WORD_TABLE_def
  by (cases e; elim disjE; simp only: format_words list.set insert_iff prod.inject simp_thms)

lemma table_far_apart: "list_all (\<lambda>(x, w). list_all (\<lambda>(y, u). x = y \<or> 7 \<le> differences w u) WORD_TABLE) WORD_TABLE"
  by code_simp

lemma words_far_apart:
  assumes "m < 8" "k < 8" "(e, m) \<noteq> (f, k)"
  shows "7 \<le> differences (format_word e m) (format_word f k)"
  using table_far_apart word_table[OF assms(1), of e] word_table[OF assms(2), of f] assms(3) unfolding list_all_iff by fastforce

lemma differences_triangle:
  "length xs = n \<Longrightarrow> length ys = n \<Longrightarrow> length zs = n \<Longrightarrow> differences xs zs \<le> differences xs ys + differences ys zs"
proof (induction n arbitrary: xs ys zs)
  case (Suc n)
  then obtain x xs' y ys' z zs' where "xs = x # xs'" "ys = y # ys'" "zs = z # zs'" by (metis length_Suc_conv)
  with Suc show ?case by (fastforce simp: differences_Cons)
qed (simp add: differences_Nil)

lemma differences_commute: "length xs = length ys \<Longrightarrow> differences xs ys = differences ys xs"
  by (induction xs ys rule: list_induct2) (auto simp: differences_Nil differences_Cons)

lemma differences_same: "differences xs xs = 0"
  by (induction xs) (simp_all add: differences_Nil differences_Cons)

lemma format_word_length [simp]: "length (format_word e m) = 15"
  by (simp add: format_word_def)

text \<open>The reader of a format word takes the first word that differs from it in at most three bits.\<close>

definition read_format :: "bool list \<Rightarrow> (ec_level \<times> nat) option" where
  "read_format w = find (\<lambda>(e, m). differences (format_word e m) w \<le> 3) formats"

lemma find_unique: "x \<in> set xs \<Longrightarrow> P x \<Longrightarrow> \<forall>y \<in> set xs. P y \<longrightarrow> y = x \<Longrightarrow> find P xs = Some x"
  by (induction xs) (simp, metis find.simps(2) list.set_intros(1) list.set_intros(2) set_ConsD)

lemma format_corrects:
  assumes "m < 8" and "length w = 15" and "differences (format_word ecLevel m) w \<le> 3"
  shows "read_format w = Some (ecLevel, m)"
proof -
  have "x = (ecLevel, m)" if x: "x \<in> set formats" "case x of (e, k) \<Rightarrow> differences (format_word e k) w \<le> 3" for x
  proof (rule ccontr)
    assume ne: "x \<noteq> (ecLevel, m)"
    obtain e k where e: "x = (e, k)" by (cases x)
    have "7 \<le> differences (format_word e k) (format_word ecLevel m)" using words_far_apart[of k m e ecLevel] x(1) assms(1) ne e formats_all by auto
    also have "\<dots> \<le> differences (format_word e k) w + differences w (format_word ecLevel m)"
      by (rule differences_triangle[of _ 15]) (simp_all add: assms(2))
    finally show False using x(2) assms(3) differences_commute[of w "format_word ecLevel m"] assms(2) by (simp add: e)
  qed
  then show ?thesis unfolding read_format_def by (intro find_unique ballI impI) (use assms formats_all in auto)
qed

text \<open>The sixteen format words that the encoder writes are far enough apart to be read through damage: from any fifteen modules
  that differ from the word of a level and a mask in at most three places, that level and that mask, and no other, are read.\<close>

theorem format_corrects_three_bits:
  assumes "m < 8" and "length w = 15" and "differences (format_word ecLevel m) w \<le> 3"
  shows "read_format w = Some (ecLevel, m)"
  using assms by (rule format_corrects)

lemma format_corrects_three_bits_witness:
  "read_format [False, False, False, False, True, False, False, False, False, False, True, False, False, True, False] = Some (EcM, 0)"
  by (rule format_corrects_three_bits) (simp_all add: format_words differences_Cons differences_Nil)

end
