(* ===== verification/QrReader.thy ===== *)
theory QrReader
  imports QrFormat
begin

text \<open>
  Reading a QR code back: the format word next to the upper left finder pattern gives the level and the mask, the cells
  outside the function patterns are read in zigzag order with the mask undone, and the codewords are read as in
  \<open>QrData\<close>. The reader is the specification of \<open>encodeQr\<close>: whatever is encoded is read back.
\<close>

unbundle bit_operations_syntax

section \<open>Bits in the free cells\<close>

definition stream_bit :: "nat list \<Rightarrow> nat \<Rightarrow> bool" where
  "stream_bit xs i \<longleftrightarrow> (if i < length xs then xs ! i else 0) = 1"

definition open_cells :: "grid \<Rightarrow> cell list \<Rightarrow> cell list" where
  "open_cells reserved cs = filter (\<lambda>rc. \<not> cell_at reserved rc) cs"

lemma place_fold:
  assumes "dims n g" "distinct cs" "\<forall>rc \<in> set cs. in_grid n rc"
  shows "dims n (fst (foldl (place_bit R xs) (g, k) cs)) \<and>
    map (cell_at (fst (foldl (place_bit R xs) (g, k) cs))) (open_cells R cs) = map (\<lambda>i. stream_bit xs (k + i)) [0..<length (open_cells R cs)] \<and>
    (\<forall>rc. in_grid n rc \<longrightarrow> rc \<notin> set (open_cells R cs) \<longrightarrow> cell_at (fst (foldl (place_bit R xs) (g, k) cs)) rc = cell_at g rc)"
  using assms
proof (induction cs arbitrary: g k)
  case (Cons c cs)
  show ?case
  proof (cases "cell_at R c")
    case True
    with Cons.IH[of g k] Cons.prems show ?thesis by (simp add: place_bit_def open_cells_def)
  next
    case False
    let ?g = "put c (stream_bit xs k) g"
    let ?r = "fst (foldl (place_bit R xs) (?g, Suc k) cs)"
    have g: "dims n ?g" using Cons.prems by blast
    from Cons.IH[OF g, of "Suc k"] Cons.prems have ih: "dims n ?r"
      "map (cell_at ?r) (open_cells R cs) = map (\<lambda>i. stream_bit xs (Suc k + i)) [0..<length (open_cells R cs)]"
      "\<forall>rc. in_grid n rc \<longrightarrow> rc \<notin> set (open_cells R cs) \<longrightarrow> cell_at ?r rc = cell_at ?g rc" by auto
    have step: "fst (foldl (place_bit R xs) (g, k) (c # cs)) = ?r" using False by (simp add: place_bit_def stream_bit_def)
    have new: "c \<notin> set (open_cells R cs)" "in_grid n c" using Cons.prems by (auto simp: open_cells_def)
    have "cell_at ?r c = cell_at ?g c" using ih(3) new by blast
    then have "cell_at ?r c = stream_bit xs k" by (simp add: at_put[OF Cons.prems(1) new(2)])
    moreover have "open_cells R (c # cs) = c # open_cells R cs" using False by (simp add: open_cells_def)
    moreover have "[0..<Suc m] = 0 # map Suc [0..<m]" for m by (simp add: map_Suc_upt upt_conv_Cons del: upt_Suc)
    moreover have "\<forall>rc. in_grid n rc \<longrightarrow> rc \<notin> set (c # open_cells R cs) \<longrightarrow> cell_at ?r rc = cell_at g rc"
      using ih(3) at_put[OF Cons.prems(1) new(2)] by simp
    ultimately show ?thesis unfolding step using ih(1,2) by (simp add: o_def del: upt_Suc)
  qed
qed (simp add: open_cells_def)

section \<open>Masks\<close>

lemma foldl_product: "foldl (\<lambda>g r. foldl (\<lambda>g c. f g (r, c)) g ys) g xs = foldl f g (List.product xs ys)"
proof (induction xs arbitrary: g)
  case (Cons x xs)
  have "foldl (\<lambda>g c. f g (x, c)) g ys = foldl f g (map (Pair x) ys)" for g by (induction ys arbitrary: g) simp_all
  then show ?case using Cons by simp
qed simp

lemma mask_fold:
  assumes "dims n g" "distinct cs" "\<forall>rc \<in> set cs. in_grid n rc"
  shows "dims n (foldl (mask_cell R m) g cs) \<and> (\<forall>rc. in_grid n rc \<longrightarrow> cell_at (foldl (mask_cell R m) g cs) rc =
    (if rc \<in> set cs \<and> \<not> cell_at R rc then cell_at g rc \<noteq> maskCondition m (fst rc) (snd rc) else cell_at g rc))"
  using assms
proof (induction cs arbitrary: g)
  case (Cons c cs)
  have c: "in_grid n c" using Cons.prems by simp
  have d: "dims n (mask_cell R m g c)" using Cons.prems(1) by (auto simp: mask_cell_def)
  have at: "cell_at (mask_cell R m g c) rc = (if rc = c \<and> \<not> cell_at R rc then cell_at g rc \<noteq> maskCondition m (fst rc) (snd rc) else cell_at g rc)"
    if "in_grid n rc" for rc using at_put[OF Cons.prems(1) c] by (auto simp: mask_cell_def)
  from Cons.IH[OF d] Cons.prems at show ?case by auto
qed simp

lemma mask_exact:
  assumes "dims n g"
  shows "dims n (applyMask g R m n)" and "in_grid n rc \<Longrightarrow> cell_at (applyMask g R m n) rc =
    (if cell_at R rc then cell_at g rc else cell_at g rc \<noteq> maskCondition m (fst rc) (snd rc))"
proof -
  have f: "applyMask g R m n = foldl (mask_cell R m) g (List.product [0..<n] [0..<n])" unfolding applyMask_def by (rule foldl_product)
  have "distinct (List.product [0..<n] [0..<n])" by (simp add: distinct_product)
  moreover have "\<forall>rc \<in> set (List.product [0..<n] [0..<n]). in_grid n rc" by (auto simp: in_grid_def)
  ultimately have a: "dims n (applyMask g R m n)" "\<forall>rc. in_grid n rc \<longrightarrow> cell_at (applyMask g R m n) rc =
    (if rc \<in> set (List.product [0..<n] [0..<n]) \<and> \<not> cell_at R rc then cell_at g rc \<noteq> maskCondition m (fst rc) (snd rc) else cell_at g rc)"
    unfolding f using mask_fold[OF assms] by blast+
  show "dims n (applyMask g R m n)" by (rule a(1))
  show "in_grid n rc \<Longrightarrow> cell_at (applyMask g R m n) rc =
    (if cell_at R rc then cell_at g rc else cell_at g rc \<noteq> maskCondition m (fst rc) (snd rc))"
    using a(2) by (cases rc) (auto simp: in_grid_def)
qed

lemma mask_trials:
  "xs \<noteq> [] \<Longrightarrow> \<exists>p m. foldl (try_mask M R n) (None, 0, M) xs = (Some p, m, applyMask M R m n) \<and> m \<in> set xs \<and>
     p = computePenalty (applyMask M R m n) n \<and> (\<forall>k \<in> set xs. p \<le> computePenalty (applyMask M R k n) n)"
proof (induction xs rule: rev_induct)
  case (snoc k xs)
  show ?case
  proof (cases "xs = []")
    case False
    then obtain p m where best: "foldl (try_mask M R n) (None, 0, M) xs = (Some p, m, applyMask M R m n)" "m \<in> set xs"
      "p = computePenalty (applyMask M R m n) n" "\<forall>j \<in> set xs. p \<le> computePenalty (applyMask M R j n) n" using snoc.IH by blast
    have step: "foldl (try_mask M R n) (None, 0, M) (xs @ [k]) = try_mask M R n (Some p, m, applyMask M R m n) k" by (simp add: best(1))
    show ?thesis
    proof (cases "computePenalty (applyMask M R k n) n < p")
      case True
      with best show ?thesis unfolding step by (intro exI[of _ "computePenalty (applyMask M R k n) n"] exI[of _ k]) (auto simp: try_mask_def Let_def)
    next
      case False
      with best show ?thesis unfolding step by (intro exI[of _ p] exI[of _ m]) (auto simp: try_mask_def Let_def)
    qed
  qed (simp add: try_mask_def Let_def)
qed simp

lemma chosen_mask:
  obtains p m where "choose_mask M R n = (Some p, m, applyMask M R m n)" "m < 8" "p = computePenalty (applyMask M R m n) n"
    "\<forall>k < 8. p \<le> computePenalty (applyMask M R k n) n"
proof -
  have "[0..<8] \<noteq> ([] :: nat list)" by simp
  from mask_trials[OF this, of M R n] that show ?thesis unfolding choose_mask_def by (auto simp del: upt_rec_numeral)
qed

section \<open>Writing the format and the version\<close>

lemma at_put_pair: "dims n g \<Longrightarrow> in_grid n x \<Longrightarrow> in_grid n y \<Longrightarrow> cell_at (put y v (put x v g)) rc = (if rc = y \<or> rc = x then v else cell_at g rc)"
  by (simp add: at_put[OF dims_put] at_put)

lemma paired_writes:
  assumes "dims n g" "\<forall>i \<in> set is. in_grid n (a i) \<and> in_grid n (b i)"
  shows "dims n (foldl (\<lambda>g i. put (b i) (v i) (put (a i) (v i) g)) g is) \<and>
    (\<forall>rc. in_grid n rc \<longrightarrow> rc \<notin> a ` set is \<union> b ` set is \<longrightarrow>
      cell_at (foldl (\<lambda>g i. put (b i) (v i) (put (a i) (v i) g)) g is) rc = cell_at g rc)"
  using assms by (induction "is" arbitrary: g) (auto simp: dims_put at_put_pair)

lemma paired_reads:
  assumes "dims n g" "\<forall>i \<in> set is. in_grid n (a i) \<and> in_grid n (b i)" "distinct is" "inj_on a (set is)" "a ` set is \<inter> b ` set is = {}"
  shows "\<forall>i \<in> set is. cell_at (foldl (\<lambda>g i. put (b i) (v i) (put (a i) (v i) g)) g is) (a i) = v i"
  using assms
proof (induction "is" arbitrary: g)
  case (Cons i "is")
  let ?g = "put (b i) (v i) (put (a i) (v i) g)"
  let ?r = "foldl (\<lambda>g i. put (b i) (v i) (put (a i) (v i) g)) ?g is"
  have d: "dims n ?g" "dims n (put (a i) (v i) g)" using Cons.prems(1) by (simp_all add: dims_put)
  have "a i \<notin> a ` set is \<union> b ` set is" "a i \<noteq> b i" "in_grid n (a i)" "in_grid n (b i)" using Cons.prems by auto
  moreover from this have "cell_at ?g (a i) = v i" using Cons.prems(1) d(2) by (simp add: at_put)
  moreover have "\<forall>i \<in> set is. in_grid n (a i) \<and> in_grid n (b i)" using Cons.prems(2) by simp
  note paired_writes[OF d(1) this, THEN conjunct2, rule_format, of "a i"]
  ultimately have "cell_at ?r (a i) = v i" by blast
  moreover have "\<forall>j \<in> set is. cell_at ?r (a j) = v j" using Cons.prems by (intro Cons.IH[OF d(1)]) auto
  ultimately show ?case by simp
qed simp

lemma copy_cells_in:
  assumes "21 \<le> n" "i < 15"
  shows "in_grid n (formatCopy1Coords ! i)" and "in_grid n (formatCopy2Coords n ! i)" and "formatCopy2Coords n ! i \<in> set (formatCopy2Coords n)"
    and "formatCopy1Coords ! i \<in> set formatCopy1Coords"
proof -
  have "length formatCopy1Coords = 15" "length (formatCopy2Coords n) = 15" by (simp_all add: formatCopy1Coords_def formatCopy2Coords_def)
  then show m: "formatCopy2Coords n ! i \<in> set (formatCopy2Coords n)" "formatCopy1Coords ! i \<in> set formatCopy1Coords"
    using assms(2) by (metis nth_mem)+
  show "in_grid n (formatCopy1Coords ! i)" using m(2) copy1_region assms(1) by (fastforce simp: in_grid_def)
  show "in_grid n (formatCopy2Coords n ! i)" using m(1) assms(1) by (auto simp: copy2_cells in_grid_def)
qed

lemma copies_apart:
  assumes "21 \<le> n"
  shows "set formatCopy1Coords \<inter> set (formatCopy2Coords n) = {}"
proof -
  have "rc \<notin> set (formatCopy2Coords n)" if "rc \<in> set formatCopy1Coords" for rc
  proof -
    have "fst rc \<le> 8 \<and> snd rc \<le> 8" using that copy1_region by blast
    moreover have "15 \<le> n" using assms by simp
    ultimately show ?thesis using assms by (cases rc) (auto simp: copy2_cells)
  qed
  then show ?thesis by blast
qed

lemma format_placed:
  assumes d: "dims n g" and n: "21 \<le> n"
  shows "dims n (placeFormatInfo bits n g)" and "map (cell_at (placeFormatInfo bits n g)) formatCopy1Coords = map (bitAt bits 15) [0..<15]"
    and "in_grid n rc \<Longrightarrow> rc \<notin> set formatCopy1Coords \<Longrightarrow> rc \<notin> set (formatCopy2Coords n) \<Longrightarrow> cell_at (placeFormatInfo bits n g) rc = cell_at g rc"
proof -
  let ?a = "\<lambda>i. formatCopy1Coords ! i" and ?b = "\<lambda>i. formatCopy2Coords n ! i"
  have ins: "\<forall>i \<in> set [0..<15]. in_grid n (?a i) \<and> in_grid n (?b i)" using copy_cells_in[OF n] by simp
  have sub: "?a ` set [0..<15] \<subseteq> set formatCopy1Coords" "?b ` set [0..<15] \<subseteq> set (formatCopy2Coords n)"
    by (intro image_subsetI; use copy_cells_in(3,4)[OF n] in simp)+
  note w = paired_writes[OF d ins, of "bitAt bits 15"]
  from w show "dims n (placeFormatInfo bits n g)" unfolding placeFormatInfo_def by blast
  from w sub show "in_grid n rc \<Longrightarrow> rc \<notin> set formatCopy1Coords \<Longrightarrow> rc \<notin> set (formatCopy2Coords n) \<Longrightarrow>
      cell_at (placeFormatInfo bits n g) rc = cell_at g rc" unfolding placeFormatInfo_def by blast
  have len: "length formatCopy1Coords = 15" by (simp add: formatCopy1Coords_def)
  have "distinct formatCopy1Coords" unfolding copy1_list by simp
  then have inj: "inj_on ?a (set [0..<15])" using len by (auto simp: inj_on_def nth_eq_iff_index_eq)
  have apart: "?a ` set [0..<15] \<inter> ?b ` set [0..<15] = {}" using copies_apart[OF n] sub by blast
  have reads: "\<forall>i \<in> set [0..<15]. cell_at (placeFormatInfo bits n g) (?a i) = bitAt bits 15 i"
    unfolding placeFormatInfo_def by (rule paired_reads[OF d ins distinct_upt inj apart])
  have "map (cell_at (placeFormatInfo bits n g)) (map ?a [0..<15]) = map (bitAt bits 15) [0..<15]"
    unfolding map_map o_def using reads by (intro map_cong refl) blast
  moreover have "map ?a [0..<15] = formatCopy1Coords" unfolding len[symmetric] by (rule map_nth)
  ultimately show "map (cell_at (placeFormatInfo bits n g)) formatCopy1Coords = map (bitAt bits 15) [0..<15]" by (simp only:)
qed

lemma version_placed:
  assumes d: "dims n g" and n: "21 \<le> n"
  shows "dims n (placeVersionInfo bits n g)" and "in_grid n rc \<Longrightarrow> rc \<notin> version_cells n \<Longrightarrow> cell_at (placeVersionInfo bits n g) rc = cell_at g rc"
proof -
  let ?a = "\<lambda>i. fst (versionInfoCoords n ! i)" and ?b = "\<lambda>i. snd (versionInfoCoords n ! i)"
  have len: "length (versionInfoCoords n) = 18" by (simp add: versionInfoCoords_def)
  have "?a i \<in> version_cells n \<and> ?b i \<in> version_cells n" if "i < 18" for i
  proof -
    have "versionInfoCoords n ! i \<in> set (versionInfoCoords n)" using that len by (metis nth_mem)
    then have "?a i \<in> set (concat (map (\<lambda>(a, b). [a, b]) (versionInfoCoords n)))" "?b i \<in> set (concat (map (\<lambda>(a, b). [a, b]) (versionInfoCoords n)))"
      by (force simp: case_prod_beta)+
    moreover have "11 \<le> n" using n by simp
    ultimately show ?thesis by (simp only: version_coords)
  qed
  then have cells: "\<forall>i \<in> set [0..<18]. ?a i \<in> version_cells n \<and> ?b i \<in> version_cells n" by simp
  have "in_grid n x" if "x \<in> version_cells n" for x using that n by (auto simp: version_cells_def in_grid_def)
  with cells have ins: "\<forall>i \<in> set [0..<18]. in_grid n (?a i) \<and> in_grid n (?b i)" by blast
  note w = paired_writes[OF d ins, of "bit bits"]
  from w show "dims n (placeVersionInfo bits n g)" unfolding placeVersionInfo_def by blast
  from w cells show "in_grid n rc \<Longrightarrow> rc \<notin> version_cells n \<Longrightarrow> cell_at (placeVersionInfo bits n g) rc = cell_at g rc"
    unfolding placeVersionInfo_def by blast
qed

section \<open>The whole code\<close>

lemma interleave_length: "\<forall>b \<in> set blocks. length b \<le> n \<Longrightarrow> length (interleave n blocks) = sum_list (map length blocks)"
proof -
  have col: "length (column i (b # blocks)) = (if i < length b then 1 else 0) + length (column i blocks)" for i b and blocks :: "nat list list"
    by (simp add: column_def)
  have "(\<Sum>i\<leftarrow>[0..<n]. if i < l then 1 else 0) = min n l" for l
    by (induction n) auto
  then show "\<forall>b \<in> set blocks. length b \<le> n \<Longrightarrow> length (interleave n blocks) = sum_list (map length blocks)"
    by (induction blocks) (simp_all add: interleave_def length_concat o_def col sum_list_addf, simp add: column_def)
qed

lemma codeword_bits_length:
  assumes "requiredDataBits version (length bs) \<le> totalDataCodewords (CAPACITY version ecLevel) * 8"
  shows "length (buildCodewordBits bs version ecLevel) = 8 * version_codewords version ecLevel"
proof -
  let ?cap = "CAPACITY version ecLevel"
  let ?cws = "buildDataCodewords bs version (totalDataCodewords ?cap)"
  let ?b = "splitIntoBlocks ?cws ?cap"
  note split = split_facts[OF build_exact(2)[OF assms]]
  have "length (interleave (max_length ?b) ?b) = sum_list (map length ?b)" by (rule interleave_length) (simp add: max_length_bound)
  also have "\<dots> = totalDataCodewords ?cap" using split(2) build_exact(2)[OF assms] by (metis length_concat)
  moreover have "length ?b = length (block_lengths ?cap)" using split(1) by (metis length_map)
  ultimately show ?thesis
    by (simp add: buildCodewordBits_def all_codewords_def Let_def length_concat o_def sum_list_triv version_codewords_def)
qed

lemma codeword_bits_bits: "bit_list (buildCodewordBits bs version ecLevel)"
  by (auto simp: buildCodewordBits_def Let_def bit_list_def bits_of_def bit_value)

text \<open>The reader: it knows the function patterns of the version, but nothing of what was encoded.\<close>

definition read_qr :: "grid \<Rightarrow> nat list option" where
  "read_qr g =
     (let n = length g; version = (n - 17) div 4; reserved = snd (function_canvas version) in
      case read_format (map (cell_at g) formatCopy1Coords) of None \<Rightarrow> None
      | Some (ecLevel, m) \<Rightarrow> read_codeword_bits version ecLevel
          (map (\<lambda>rc. of_bool (cell_at g rc \<noteq> maskCondition m (fst rc) (snd rc))) (open_cells reserved (zigzag n (n - 1) True))))"

lemma stream_bits:
  assumes "bit_list xs" "length xs \<le> k"
  shows "\<exists>junk. map (\<lambda>i. of_bool (stream_bit xs i)) [0..<k] = xs @ junk"
proof -
  obtain d where k: "k = length xs + d" using assms(2) le_Suc_ex by blast
  have "of_bool (stream_bit xs i) = xs ! i" if "i < length xs" for i
  proof -
    have "xs ! i \<in> {0, 1}" using assms(1) nth_mem[OF that] unfolding bit_list_def by blast
    then show ?thesis using that by (auto simp: stream_bit_def)
  qed
  then have "map (\<lambda>i. of_bool (stream_bit xs i)) [0..<length xs] = xs" by (intro nth_equalityI) simp_all
  then show ?thesis unfolding k upt_add_eq_append[OF zero_le] map_append by (intro exI) simp
qed

lemma open_free:
  assumes "version \<in> set [1..<11]"
  shows "open_cells (snd (function_canvas version)) (zigzag (side_of version) (side_of version - 1) True) = free_cells version"
proof -
  let ?n = "side_of version"
  have "in_grid ?n rc" if "rc \<in> set (zigzag ?n (?n - 1) True)" for rc
  proof -
    have "set (zigzag ?n (?n - 1) True) = {(r, c). r < ?n \<and> c \<le> ?n - 1 \<and> c \<noteq> 6 \<and> ?n - 1 \<noteq> 0}" using zigzag_exact[OF side_odd] by blast
    with that have "rc \<in> {(r, c). r < ?n \<and> c \<le> ?n - 1 \<and> c \<noteq> 6 \<and> ?n - 1 \<noteq> 0}" by (simp only:)
    moreover have "0 < ?n" by (simp add: side_of_def)
    ultimately show ?thesis by (cases rc) (simp add: in_grid_def, linarith)
  qed
  then show ?thesis unfolding open_cells_def free_cells_def by (intro filter_cong refl) (simp add: reserved_exact[OF assms])
qed

text \<open>A finished matrix, seen cell by cell: the format word is in place, and outside the function patterns there are the
  masked data bits.\<close>

lemma matrix_cells:
  assumes v: "version \<in> set [1..<11]"
  obtains m where "m < 8" and "length (qr_matrix (buildMatrix xs version ecLevel)) = side_of version"
    and "map (cell_at (qr_matrix (buildMatrix xs version ecLevel))) formatCopy1Coords = format_word ecLevel m"
    and "map (\<lambda>rc. cell_at (qr_matrix (buildMatrix xs version ecLevel)) rc \<noteq> maskCondition m (fst rc) (snd rc)) (free_cells version) =
      map (stream_bit xs) [0..<length (free_cells version)]"
proof -
  let ?n = "side_of version" and ?q = "qr_matrix (buildMatrix xs version ecLevel)" and ?zz = "zigzag (side_of version) (side_of version - 1) True"
  obtain M R where MR: "function_canvas version = (M, R)" by (cases "function_canvas version")
  have n: "21 \<le> ?n" using v by (simp add: side_of_def del: upt_rec_numeral)
  have dM: "dims ?n M" using reserves_ok[OF function_canvas_reserves[OF v]] by (simp add: MR canvas_ok_def)
  define P where "P = placeDataBits M R xs ?n"
  have zz: "set ?zz = {(r, c). r < ?n \<and> c \<le> ?n - 1 \<and> c \<noteq> 6 \<and> ?n - 1 \<noteq> 0}" "distinct ?zz" using zigzag_exact[OF side_odd] by blast+
  have zin: "\<forall>rc \<in> set ?zz. in_grid ?n rc" using n unfolding zz by (auto simp: in_grid_def)
  have free: "open_cells R ?zz = free_cells version" using open_free[OF v] by (simp add: MR)
  have P: "P = fst (foldl (place_bit R xs) (M, 0) ?zz)" by (simp add: P_def placeDataBits_def place_columns_zigzag)
  from place_fold[OF dM zz(2) zin, of R xs 0] have dP: "dims ?n P" and
    bits: "map (cell_at P) (free_cells version) = map (stream_bit xs) [0..<length (free_cells version)]" unfolding P free by simp_all
  obtain p m where chosen: "choose_mask P R ?n = (Some p, m, applyMask P R m ?n)" "m < 8" by (rule chosen_mask)
  define G where "G = applyMask P R m ?n"
  define F where "F = placeFormatInfo (formatInfoBits ecLevel m) ?n G"
  have dG: "dims ?n G" unfolding G_def by (rule mask_exact(1)[OF dP])
  have dF: "dims ?n F" unfolding F_def by (rule format_placed(1)[OF dG n])
  have q: "?q = (if version \<ge> 7 then placeVersionInfo (versionInfoBits version) ?n F else F)"
    unfolding buildMatrix_def MR Let_def using chosen(1) by (simp add: side_of_def P_def F_def G_def)
  have dq: "dims ?n ?q" unfolding q using dF version_placed(1)[OF dF n] by simp
  have same: "cell_at ?q rc = cell_at F rc" if "in_grid ?n rc" "version \<ge> 7 \<longrightarrow> rc \<notin> version_cells ?n" for rc
    unfolding q using version_placed(2)[OF dF n that(1)] that(2) by auto
  have head: "cell_at ?q rc = cell_at F rc" if "rc \<in> set formatCopy1Coords" for rc
  proof -
    have rc: "fst rc \<le> 8" "snd rc \<le> 8" using that copy1_region by blast+
    have "rc \<notin> version_cells ?n" if "version \<ge> 7" using rc that by (auto simp: version_cells_def side_of_def)
    with rc n show ?thesis by (intro same) (auto simp: in_grid_def)
  qed
  have "map (cell_at ?q) formatCopy1Coords = map (cell_at F) formatCopy1Coords" using head by simp
  also have "\<dots> = format_word ecLevel m" unfolding F_def format_word_def by (rule format_placed(2)[OF dG n])
  finally have word: "map (cell_at ?q) formatCopy1Coords = format_word ecLevel m" .
  have cell: "(cell_at ?q rc \<noteq> maskCondition m (fst rc) (snd rc)) = cell_at P rc" if rc: "rc \<in> set (free_cells version)" for rc
  proof -
    have g: "in_grid ?n rc" "rc \<notin> function_cells version" using rc unfolding free_set by (auto simp: in_grid_def)
    then have "rc \<notin> set formatCopy1Coords" "rc \<notin> set (formatCopy2Coords ?n)" "version \<ge> 7 \<longrightarrow> rc \<notin> version_cells ?n"
      by (auto simp: function_cells_def Let_def)
    then have "cell_at ?q rc = cell_at G rc" using same[OF g(1)] format_placed(3)[OF dG n g(1)] by (simp add: F_def)
    moreover have "\<not> cell_at R rc" using reserved_exact[OF v g(1)] g(2) by (simp add: MR)
    ultimately show ?thesis using mask_exact(2)[OF dP g(1), of R m] by (auto simp: G_def)
  qed
  show ?thesis
  proof (rule that)
    show "length ?q = ?n" using dq by (rule dims_length)
    show "map (\<lambda>rc. cell_at ?q rc \<noteq> maskCondition m (fst rc) (snd rc)) (free_cells version) = map (stream_bit xs) [0..<length (free_cells version)]"
      unfolding bits[symmetric] using cell by (intro map_cong refl)
  qed (fact chosen(2) word)+
qed

text \<open>C21: A QR code says what it was made from. For every text that the encoder accepts, a reader that is given nothing but the finished
  matrix finds the level and the mask in the format word, undoes the mask, reads the cells outside the function patterns in zigzag
  order and gets back exactly the bytes of the text.\<close>

theorem qr_roundtrip:
  assumes "encodeQr txt = Some q"
  shows "read_qr (qr_matrix q) = Some (map of_char txt)"
proof -
  let ?bs = "map of_char txt :: nat list"
  from assms obtain version ecLevel where sel: "selectVersionAndEcLevel (length ?bs) = Some (version, ecLevel)"
    and q: "q = buildMatrix (buildCodewordBits ?bs version ecLevel) version ecLevel"
    by (auto simp: encodeQr_def Let_def split: option.splits)
  note v = selected(1)[OF sel]
  let ?xs = "buildCodewordBits ?bs version ecLevel"
  have bytes: "\<forall>b \<in> set ?bs. b < 256" by auto
  from matrix_cells[OF v, of ?xs ecLevel] obtain m where m: "m < 8" "length (qr_matrix q) = side_of version"
    "map (cell_at (qr_matrix q)) formatCopy1Coords = format_word ecLevel m"
    "map (\<lambda>rc. cell_at (qr_matrix q) rc \<noteq> maskCondition m (fst rc) (snd rc)) (free_cells version) = map (stream_bit ?xs) [0..<length (free_cells version)]"
    unfolding q by blast
  have fmt: "read_format (format_word ecLevel m) = Some (ecLevel, m)"
    by (rule format_corrects[OF m(1)]) (simp_all add: differences_same)
  have fit: "length ?xs \<le> length (free_cells version)" using codeword_bits_length[OF selected(2)[OF sel]] codewords_fit[OF v] by simp
  from stream_bits[OF codeword_bits_bits fit] obtain junk where
    j: "map (\<lambda>i. of_bool (stream_bit ?xs i)) [0..<length (free_cells version)] = ?xs @ junk" by blast
  have "map (\<lambda>rc. of_bool (cell_at (qr_matrix q) rc \<noteq> maskCondition m (fst rc) (snd rc))) (free_cells version) =
      map of_bool (map (stream_bit ?xs) [0..<length (free_cells version)])" unfolding m(4)[symmetric] map_map o_def ..
  also have "\<dots> = ?xs @ junk" unfolding map_map o_def by (rule j)
  finally have junk: "map (\<lambda>rc. of_bool (cell_at (qr_matrix q) rc \<noteq> maskCondition m (fst rc) (snd rc))) (free_cells version) = ?xs @ junk" .
  have side: "(side_of version - 17) div 4 = version" by (simp add: side_of_def)
  show ?thesis
    using codewords_roundtrip[OF sel bytes, of junk] by (simp only: read_qr_def Let_def m(2,3) fmt side open_free[OF v] junk option.case prod.case)
qed

lemma qr_roundtrip_witness:
  "read_qr (qr_matrix (buildMatrix (buildCodewordBits [72, 105] 1 EcM) 1 EcM)) = Some [72, 105]"
proof -
  have sel: "selectVersionAndEcLevel (length [72, 105 :: nat]) = Some (1, EcM)"
    by (simp add: selectVersionAndEcLevel_def upt_rec requiredDataBits_def countBits_def CAPACITY_def CAPACITY_TABLE_def one_group_def
        totalDataCodewords_def)
  have chars: "map of_char ''Hi'' = [72, 105 :: nat]" by simp
  have "encodeQr ''Hi'' = Some (buildMatrix (buildCodewordBits [72, 105] 1 EcM) 1 EcM)"
    unfolding encodeQr_def Let_def chars sel by simp
  from qr_roundtrip[OF this] show ?thesis unfolding chars .
qed

text \<open>The mask of a QR code is the best of the eight: the matrix that goes on to the format word is the placed matrix under the mask
  that was chosen, and no other mask has a lower penalty.\<close>

theorem least_penalty_chosen:
  "\<exists>m. m < 8 \<and> choose_mask modules reserved n = (Some (computePenalty (applyMask modules reserved m n) n), m, applyMask modules reserved m n) \<and>
     computePenalty (applyMask modules reserved m n) n = Min ((\<lambda>k. computePenalty (applyMask modules reserved k n) n) ` {0..<8})"
proof -
  obtain p m where c: "choose_mask modules reserved n = (Some p, m, applyMask modules reserved m n)" "m < 8"
    "p = computePenalty (applyMask modules reserved m n) n" "\<forall>k < 8. p \<le> computePenalty (applyMask modules reserved k n) n" by (rule chosen_mask)
  have "Min ((\<lambda>k. computePenalty (applyMask modules reserved k n) n) ` {0..<8}) = p" using c(2,3,4) by (intro Min_eqI) auto
  with c show ?thesis by (intro exI[of _ m]) simp
qed

section \<open>The drawing\<close>

lemma row_runs_cover:
  "(\<exists>a w. (a, w) \<in> set (row_runs ms c) \<and> a \<le> x \<and> x < a + w) \<longleftrightarrow> c \<le> x \<and> x < c + length ms \<and> ms ! (x - c)"
proof (induction ms c rule: row_runs.induct)
  case (2 ms c)
  have "c \<le> x \<and> x < c + length (False # ms) \<and> (False # ms) ! (x - c) \<longleftrightarrow> c + 1 \<le> x \<and> x < c + 1 + length ms \<and> ms ! (x - (c + 1))"
  proof (cases "c < x")
    case True
    then have "x - c = Suc (x - (c + 1))" by simp
    then show ?thesis using True by (simp only: nth_Cons_Suc) auto
  qed (cases "x = c"; simp)
  with 2 show ?case by simp
next
  case (3 ms c)
  define w where "w = Suc (length (takeWhile id ms))"
  have le: "w - 1 \<le> length ms" by (simp add: w_def length_takeWhile_le)
  have dark: "(True # ms) ! i" if "i < w" for i
  proof (cases i)
    case (Suc j)
    then have j: "j < length (takeWhile id ms)" using that by (simp add: w_def)
    from nth_mem[OF this] have "takeWhile id ms ! j" by (auto dest: set_takeWhileD)
    with j Suc show ?thesis by (simp add: takeWhile_nth)
  qed simp
  have rest: "c + w \<le> x \<and> x < c + w + length (drop (w - 1) ms) \<and> drop (w - 1) ms ! (x - (c + w)) \<longleftrightarrow>
      c + w \<le> x \<and> x < c + length (True # ms) \<and> (True # ms) ! (x - c)"
  proof (cases "c + w \<le> x")
    case True
    then have "w - 1 + (x - (c + w)) = x - c - 1" "x - c \<noteq> 0" by (simp_all add: w_def)
    then have "drop (w - 1) ms ! (x - (c + w)) = (True # ms) ! (x - c)" using nth_drop[OF le, of "x - (c + w)"] by (cases "x - c") simp_all
    then show ?thesis using True le by (auto simp: w_def)
  qed simp
  have r: "row_runs (True # ms) c = (c, w) # row_runs (drop (w - 1) ms) (c + w)" by (simp add: w_def Let_def)
  have "(\<exists>a w'. (a, w') \<in> set (row_runs (True # ms) c) \<and> a \<le> x \<and> x < a + w') \<longleftrightarrow> (c \<le> x \<and> x < c + w) \<or>
      (c + w \<le> x \<and> x < c + length (True # ms) \<and> (True # ms) ! (x - c))"
    unfolding r rest[symmetric] 3[OF w_def, symmetric] by auto
  also have "\<dots> \<longleftrightarrow> c \<le> x \<and> x < c + length (True # ms) \<and> (True # ms) ! (x - c)"
  proof (cases "x < c + w")
    case True
    then show ?thesis using dark[of "x - c"] le by (auto simp: w_def)
  qed auto
  finally show ?case .
qed simp

text \<open>The drawing of a QR code shows its matrix: a module lies under one of the dark runs that are drawn exactly if it is a dark
  module of the matrix.\<close>

theorem svg_runs_cover_dark:
  assumes "length (qr_matrix qr) = qr_size qr" and "\<forall>row \<in> set (qr_matrix qr). length row = qr_size qr"
  shows "(\<exists>a w. (r, a, w) \<in> set (svg_runs qr) \<and> a \<le> c \<and> c < a + w) \<longleftrightarrow> r < qr_size qr \<and> c < qr_size qr \<and> qr_matrix qr ! r ! c"
proof -
  have "(\<exists>a w. (r, a, w) \<in> set (svg_runs qr) \<and> a \<le> c \<and> c < a + w) \<longleftrightarrow>
      r < qr_size qr \<and> (\<exists>a w. (a, w) \<in> set (row_runs (qr_matrix qr ! r) 0) \<and> a \<le> c \<and> c < a + w)"
  proof -
    have "(r, a, w) \<in> set (svg_runs qr) \<longleftrightarrow> r < qr_size qr \<and> (a, w) \<in> set (row_runs (qr_matrix qr ! r) 0)" for a w
      by (auto simp: svg_runs_def)
    then show ?thesis by blast
  qed
  moreover have "length (qr_matrix qr ! r) = qr_size qr" if "r < qr_size qr" using assms that by simp
  ultimately show ?thesis using row_runs_cover[of "qr_matrix qr ! r" 0 c] by auto
qed

lemma svg_runs_cover_dark_witness:
  "\<exists>a w. (0, a, w) \<in> set (svg_runs \<lparr>qr_version = 1, qr_size = 2, qr_matrix = [[False, True], [True, False]]\<rparr>) \<and> a \<le> 1 \<and> 1 < a + w"
  using svg_runs_cover_dark[of "\<lparr>qr_version = 1, qr_size = 2, qr_matrix = [[False, True], [True, False]]\<rparr>" 0 1] by simp

end
