(* ===== verification/SerialFrames.thy ===== *)
theory SerialFrames
  imports Prelude "HOL-Library.Word"
begin

text \<open>
  The byte framing between a node and its LoRa module
  (\<open>node/src/transports/sx127x-bridge-protocol.ts\<close>; \<open>sx126x-bridge-protocol.ts\<close> repeats the same framing for the other
  chip): the encoder of a frame and the reader that takes frames out of a stream of chunks. A byte is an \<open>8 word\<close>.
\<close>

unbundle bit_operations_syntax

section \<open>Frames\<close>

type_synonym byte = "8 word"

definition FRAME_SOF :: byte where "FRAME_SOF = 0xaa"
definition FRAME_OVERHEAD_BYTES :: nat where "FRAME_OVERHEAD_BYTES = 4"
definition MAX_FRAME_PAYLOAD_BYTES :: nat where "MAX_FRAME_PAYLOAD_BYTES = 0xff"
definition MAX_ACCUMULATOR_BYTES :: nat where "MAX_ACCUMULATOR_BYTES = 8192"

record bridge_frame =
  bf_type :: byte
  bf_payload :: "byte list"

datatype frame_error = PayloadTooLarge | LengthOutOfRange

definition computeChecksum :: "byte \<Rightarrow> byte list \<Rightarrow> byte" where
  "computeChecksum ty payload = foldl (XOR) (ty XOR of_nat (length payload)) payload"

definition encodeBridgeFrame :: "int \<Rightarrow> byte list \<Rightarrow> frame_error + byte list" where
  "encodeBridgeFrame ty payload =
     (if length payload > MAX_FRAME_PAYLOAD_BYTES then Inl PayloadTooLarge
      else Inr ([FRAME_SOF, of_int ty, of_nat (length payload)] @ payload @ [computeChecksum (of_int ty) payload]))"

definition buildQueryPayload :: "byte list \<Rightarrow> int \<Rightarrow> frame_error + byte list" where
  "buildQueryPayload commandBytes expectedResponseLength =
     (if expectedResponseLength < 0 \<or> expectedResponseLength > 0xff then Inl LengthOutOfRange
      else Inr (of_int expectedResponseLength # commandBytes))"

section \<open>The reader\<close>

text \<open>The loop of \<open>push\<close>, on the whole buffer: the frames it takes out and what stays in the buffer. \<open>dropWhile\<close> is the search for the
  first SOF.\<close>

function read_frames :: "byte list \<Rightarrow> bridge_frame list \<times> byte list" where
  "read_frames buffer =
     (let buf = dropWhile (\<lambda>b. b \<noteq> FRAME_SOF) buffer in
      if buf = [] then ([], drop (length buffer - 1) buffer)
      else if length buf < 3 then ([], buf)
      else let ty = buf ! 1; len = unat (buf ! 2); tot = FRAME_OVERHEAD_BYTES + len in
        if length buf < tot then ([], buf)
        else let payload = take len (drop 3 buf) in
          if buf ! (3 + len) = computeChecksum ty payload
          then let (frames, rest) = read_frames (drop tot buf) in (\<lparr>bf_type = ty, bf_payload = payload\<rparr> # frames, rest)
          else read_frames (drop 1 buf))"
  by pat_completeness auto
termination
proof (relation "measure length")
  have short: "length (drop k (dropWhile P xs)) < length xs" if "dropWhile P xs \<noteq> []" "0 < k" for k P and xs :: "byte list"
    using that length_dropWhile_le[of P xs] by (cases "dropWhile P xs") auto
  show "\<And>buffer buf ty len tot payload. buf = dropWhile (\<lambda>b. b \<noteq> FRAME_SOF) buffer \<Longrightarrow> buf \<noteq> [] \<Longrightarrow> \<not> length buf < 3 \<Longrightarrow> ty = buf ! 1 \<Longrightarrow>
      len = unat (buf ! 2) \<Longrightarrow> tot = FRAME_OVERHEAD_BYTES + len \<Longrightarrow> \<not> length buf < tot \<Longrightarrow> payload = take len (drop 3 buf) \<Longrightarrow>
      buf ! (3 + len) = computeChecksum ty payload \<Longrightarrow> (drop tot buf, buffer) \<in> measure length"
    using short by (simp add: FRAME_OVERHEAD_BYTES_def del: length_drop)
  show "\<And>buffer buf ty len tot payload. buf = dropWhile (\<lambda>b. b \<noteq> FRAME_SOF) buffer \<Longrightarrow> buf \<noteq> [] \<Longrightarrow> \<not> length buf < 3 \<Longrightarrow> ty = buf ! 1 \<Longrightarrow>
      len = unat (buf ! 2) \<Longrightarrow> tot = FRAME_OVERHEAD_BYTES + len \<Longrightarrow> \<not> length buf < tot \<Longrightarrow> payload = take len (drop 3 buf) \<Longrightarrow>
      buf ! (3 + len) \<noteq> computeChecksum ty payload \<Longrightarrow> (drop 1 buf, buffer) \<in> measure length"
    using short by (simp del: length_drop)
qed simp

declare read_frames.simps [simp del]

definition push :: "byte list \<Rightarrow> byte list \<Rightarrow> bridge_frame list \<times> byte list" where
  "push buffer chunk =
     (case read_frames (buffer @ chunk) of (frames, rest) \<Rightarrow> (frames, if length rest > MAX_ACCUMULATOR_BYTES then [] else rest))"

fun push_all :: "byte list \<Rightarrow> byte list list \<Rightarrow> bridge_frame list \<times> byte list" where
  "push_all buffer [] = ([], buffer)"
| "push_all buffer (c # cs) =
     (let (frames, b) = push buffer c; (more, b') = push_all b cs in (frames @ more, b'))"

section \<open>Chunks do not matter\<close>

lemma drop_last: "drop (length (drop (length xs - 1) xs @ ys) - 1) (drop (length xs - 1) xs @ ys) = drop (length (xs @ ys) - 1) (xs @ ys)"
  by (cases xs rule: rev_cases; cases ys rule: rev_cases) auto

lemma read_no_sof: "dropWhile (\<lambda>b. b \<noteq> FRAME_SOF) x = [] \<Longrightarrow> read_frames x = ([], drop (length x - 1) x)"
  by (subst read_frames.simps) (simp add: Let_def)

text \<open>The turn of the loop on a buffer whose first SOF begins \<open>b\<close>.\<close>

lemma read_turn:
  assumes "dropWhile (\<lambda>b. b \<noteq> FRAME_SOF) x = b" "b \<noteq> []"
  shows "read_frames x = (if length b < 3 then ([], b)
    else if length b < 4 + unat (b ! 2) then ([], b)
    else if b ! (3 + unat (b ! 2)) = computeChecksum (b ! 1) (take (unat (b ! 2)) (drop 3 b))
      then let (frames, rest) = read_frames (drop (4 + unat (b ! 2)) b)
        in (\<lparr>bf_type = b ! 1, bf_payload = take (unat (b ! 2)) (drop 3 b)\<rparr> # frames, rest)
      else read_frames (drop 1 b))"
  by (subst read_frames.simps) (simp only: assms Let_def if_False FRAME_OVERHEAD_BYTES_def)

lemma sof_self: "dropWhile (\<lambda>b. b \<noteq> FRAME_SOF) (FRAME_SOF # bs) = FRAME_SOF # bs"
  by simp

lemma read_trimmed: "dropWhile (\<lambda>b. b \<noteq> FRAME_SOF) x = FRAME_SOF # bs \<Longrightarrow> read_frames x = read_frames (FRAME_SOF # bs)"
  by (simp only: read_turn[OF _ list.distinct(2)] read_turn[OF sof_self list.distinct(2)])

lemma sof_head: "dropWhile (\<lambda>b. b \<noteq> FRAME_SOF) x \<noteq> [] \<Longrightarrow> \<exists>bs. dropWhile (\<lambda>b. b \<noteq> FRAME_SOF) x = FRAME_SOF # bs"
proof (induction x)
  case (Cons b bs)
  then show ?case by (cases "b = FRAME_SOF") auto
qed simp

lemma read_append:
  "read_frames (x @ d) = (let (fs, r) = read_frames x; (gs, s) = read_frames (r @ d) in (fs @ gs, s))"
proof (induction x rule: length_induct)
  case (1 x)
  let ?P = "\<lambda>b. b \<noteq> FRAME_SOF"
  show ?case
  proof (cases "dropWhile ?P x = []")
    case True
    let ?r = "drop (length x - 1) x"
    have noise: "\<forall>b \<in> set x. ?P b" "\<forall>b \<in> set ?r. ?P b" using True by (auto dest: in_set_dropD)
    have same: "dropWhile ?P (x @ d) = dropWhile ?P d" "dropWhile ?P (?r @ d) = dropWhile ?P d"
      using noise by (simp_all add: dropWhile_append2)
    have "read_frames (x @ d) = read_frames (?r @ d)"
    proof (cases "dropWhile ?P d = []")
      case False
      then obtain bs where "dropWhile ?P d = FRAME_SOF # bs" using sof_head by blast
      then show ?thesis using read_trimmed[of "x @ d" bs] read_trimmed[of "?r @ d" bs] unfolding same by simp
    next
      case none: True
      show ?thesis using read_no_sof[of "x @ d"] read_no_sof[of "?r @ d"] drop_last[of x d] none unfolding same by simp
    qed
    then show ?thesis by (simp add: read_no_sof[OF True])
  next
    case False
    then obtain bs where b: "dropWhile ?P x = FRAME_SOF # bs" using sof_head by blast
    let ?b = "FRAME_SOF # bs"
    have "dropWhile ?P (x @ d) = dropWhile ?P x @ d" using b by (induction x) auto
    then have "dropWhile ?P (x @ d) = FRAME_SOF # (bs @ d)" using b by simp
    from read_trimmed[OF this] have xd: "read_frames (x @ d) = read_frames (?b @ d)" by simp
    have x: "read_frames x = read_frames ?b" by (rule read_trimmed[OF b])
    have lb: "length ?b \<le> length x" using length_dropWhile_le[of ?P x] b by simp
    note turn0 = read_turn[OF sof_self[of bs] list.distinct(2)]
    have d2: "dropWhile ?P (?b @ d) = ?b @ d" "?b @ d \<noteq> []" by simp_all
    note turn1 = read_turn[OF d2]
    show ?thesis
    proof (cases "length ?b < 3 \<or> length ?b < 4 + unat (?b ! 2)")
      case True
      then have "read_frames ?b = ([], ?b)" unfolding turn0 by auto
      then show ?thesis unfolding xd x by simp
    next
      case whole: False
      let ?len = "unat (?b ! 2)"
      have nth: "(?b @ d) ! i = ?b ! i" if "i < 4 + ?len" for i
      proof -
        have "i < length ?b" using that whole by linarith
        then show ?thesis by (simp only: nth_append if_True)
      qed
      have at: "(?b @ d) ! 1 = ?b ! 1" "(?b @ d) ! 2 = ?b ! 2" "(?b @ d) ! (3 + ?len) = ?b ! (3 + ?len)" by (rule nth; simp)+
      have split: "drop k (?b @ d) = drop k ?b @ d" if "k \<le> 4 + ?len" for k
      proof -
        have "k - length ?b = 0" using that whole by linarith
        then show ?thesis by (simp only: drop_append drop_0)
      qed
      have cut: "take ?len (drop 3 (?b @ d)) = take ?len (drop 3 ?b)" "drop (4 + ?len) (?b @ d) = drop (4 + ?len) ?b @ d" "drop 1 (?b @ d) = drop 1 ?b @ d"
        using whole split[of 3] split[of "4 + ?len"] split[of 1] by simp_all
      have long: "\<not> length (?b @ d) < 3" "\<not> length (?b @ d) < 4 + ?len" "\<not> length ?b < 3" "\<not> length ?b < 4 + ?len" using whole by auto
      have less: "length (drop (4 + ?len) ?b) < length x" "length (drop 1 ?b) < length x" using lb whole by auto
      show ?thesis unfolding xd x turn1 at cut turn0 using long
        "1.IH"[rule_format, OF less(1)] "1.IH"[rule_format, OF less(2)] by (simp only: if_False) (simp add: case_prod_unfold Let_def)
    qed
  qed
qed

text \<open>What stays in the buffer is less than one frame, so the limit on the buffer is never reached.\<close>

lemma rest_short: "length (snd (read_frames x)) \<le> 258"
proof (induction x rule: length_induct)
  case (1 x)
  show ?case
  proof (cases "dropWhile (\<lambda>b. b \<noteq> FRAME_SOF) x = []")
    case False
    then obtain bs where b: "dropWhile (\<lambda>b. b \<noteq> FRAME_SOF) x = FRAME_SOF # bs" using sof_head by blast
    let ?b = "FRAME_SOF # bs"
    have lb: "length ?b \<le> length x" using length_dropWhile_le[of "\<lambda>b. b \<noteq> FRAME_SOF" x] b by simp
    note turn = read_turn[OF b list.distinct(2)]
    have "unat (?b ! 2) < 2 ^ LENGTH(8)" by (rule unsigned_less)
    then have len: "unat (?b ! 2) < 256" by simp
    show ?thesis
    proof (cases "length ?b < 3 \<or> length ?b < 4 + unat (?b ! 2)")
      case True
      then have "read_frames x = ([], ?b)" unfolding turn by auto
      then show ?thesis using True len by auto
    next
      case whole: False
      have less: "length (drop (4 + unat (?b ! 2)) ?b) < length x" "length (drop 1 ?b) < length x" using lb whole by auto
      have long: "\<not> length ?b < 3" "\<not> length ?b < 4 + unat (?b ! 2)" using whole by auto
      show ?thesis unfolding turn using long "1.IH"[rule_format, OF less(1)] "1.IH"[rule_format, OF less(2)]
        by (simp only: if_False) (simp add: case_prod_unfold Let_def)
    qed
  qed (simp add: read_no_sof)
qed

lemma push_reads: "push buffer chunk = read_frames (buffer @ chunk)"
  using rest_short[of "buffer @ chunk"] by (cases "read_frames (buffer @ chunk)") (simp add: push_def MAX_ACCUMULATOR_BYTES_def)

lemma push_stream:
  "fst (push_all (snd (read_frames x)) chunks) = fst (read_frames (snd (read_frames x) @ concat chunks)) \<and>
     length (snd (push_all (snd (read_frames x)) chunks)) \<le> 258"
proof (induction chunks arbitrary: x)
  case Nil
  have "fst (read_frames (snd (read_frames x))) = []" using arg_cong[OF read_append[of x "[]"], of fst] by (simp add: case_prod_unfold Let_def)
  then show ?case by (simp add: rest_short)
next
  case (Cons c cs)
  let ?y = "snd (read_frames x) @ c"
  show ?case using Cons[of ?y] read_append[of ?y "concat cs"] by (simp add: push_reads case_prod_unfold Let_def)
qed

text \<open>How a serial line cuts its bytes makes no difference: the frames are those of the whole stream, and between chunks the buffer holds
  less than one frame, so that the clearing of an overlong buffer never happens.\<close>

lemma reader_chunking: "fst (push_all [] chunks) = fst (read_frames (concat chunks)) \<and> length (snd (push_all [] chunks)) \<le> 258"
  using push_stream[of "[]" chunks] by (simp add: read_no_sof)

section \<open>Frames there and back\<close>

definition wire :: "bridge_frame \<Rightarrow> byte list" where
  "wire f = [FRAME_SOF, bf_type f, of_nat (length (bf_payload f))] @ bf_payload f @ [computeChecksum (bf_type f) (bf_payload f)]"

lemma encode_wire: "encodeBridgeFrame (uint (bf_type f)) (bf_payload f) = Inr w \<longleftrightarrow> length (bf_payload f) \<le> 255 \<and> w = wire f"
  by (auto simp: encodeBridgeFrame_def MAX_FRAME_PAYLOAD_BYTES_def wire_def)

lemma read_wire:
  assumes "length (bf_payload f) \<le> 255"
  shows "read_frames (wire f @ x) = (let (fs, r) = read_frames x in (f # fs, r))"
proof -
  let ?p = "bf_payload f" and ?c = "computeChecksum (bf_type f) (bf_payload f)"
  let ?bs = "[bf_type f, of_nat (length ?p)] @ ?p @ [?c] @ x"
  have w: "wire f @ x = FRAME_SOF # ?bs" by (simp add: wire_def)
  note turn = read_turn[OF sof_self[of ?bs] list.distinct(2)]
  have len: "unat (of_nat (length ?p) :: byte) = length ?p" using assms by (simp add: unat_of_nat)
  have parts: "(FRAME_SOF # ?bs) ! 1 = bf_type f" "(FRAME_SOF # ?bs) ! 2 = of_nat (length ?p)" "(FRAME_SOF # ?bs) ! (3 + length ?p) = ?c"
    "take (length ?p) (drop 3 (FRAME_SOF # ?bs)) = ?p" "drop (4 + length ?p) (FRAME_SOF # ?bs) = x"
    by (simp_all add: nth_append numeral_3_eq_3 numeral_2_eq_2 numeral_eq_Suc)
  have long: "\<not> length (FRAME_SOF # ?bs) < 3" "\<not> length (FRAME_SOF # ?bs) < 4 + length ?p" by simp_all
  show ?thesis unfolding w turn parts len using long by (cases f) simp
qed

lemma read_noise: "\<forall>b \<in> set g. b \<noteq> FRAME_SOF \<Longrightarrow> fst (read_frames (g @ x)) = fst (read_frames x)"
proof (cases "dropWhile (\<lambda>b. b \<noteq> FRAME_SOF) x = []")
  case True
  assume g: "\<forall>b \<in> set g. b \<noteq> FRAME_SOF"
  then have "dropWhile (\<lambda>b. b \<noteq> FRAME_SOF) (g @ x) = []" using True by (simp add: dropWhile_append2)
  then show ?thesis using True by (simp add: read_no_sof)
next
  case False
  assume g: "\<forall>b \<in> set g. b \<noteq> FRAME_SOF"
  from False obtain bs where bs: "dropWhile (\<lambda>b. b \<noteq> FRAME_SOF) x = FRAME_SOF # bs" using sof_head by blast
  then have "dropWhile (\<lambda>b. b \<noteq> FRAME_SOF) (g @ x) = FRAME_SOF # bs" using g by (simp add: dropWhile_append2)
  then show ?thesis by (simp only: read_trimmed[OF bs] read_trimmed)
qed

lemma read_wires:
  "list_all2 (\<lambda>f w. encodeBridgeFrame (uint (bf_type f)) (bf_payload f) = Inr w) fs ws \<Longrightarrow> fst (read_frames (concat ws)) = fs"
proof (induction rule: list_all2_induct)
  case (Cons f fs w ws)
  then show ?case using read_wire[of f "concat ws"] by (simp add: encode_wire case_prod_unfold Let_def)
qed (simp add: read_no_sof)

text \<open>Frames survive the serial line. The encoded bytes of any frames, one after the other and after any noise without a start byte,
  give back exactly these frames in their order, whatever the chunks the bytes arrive in; and the buffer of the reader holds less than one
  frame between chunks.\<close>

theorem serial_frames_roundtrip:
  assumes "list_all2 (\<lambda>f w. encodeBridgeFrame (uint (bf_type f)) (bf_payload f) = Inr w) frames ws"
    and "\<forall>b \<in> set noise. b \<noteq> FRAME_SOF" and "concat chunks = noise @ concat ws"
  shows "fst (push_all [] chunks) = frames \<and> length (snd (push_all [] chunks)) \<le> 258"
  using reader_chunking[of chunks] read_wires[OF assms(1)] read_noise[OF assms(2), of "concat ws"] by (simp add: assms(3))

lemma serial_frames_roundtrip_witness:
  "fst (push_all [] [[0x17, 0xaa, 2], [1, 0x42], [0x41]]) = [\<lparr>bf_type = 2, bf_payload = [0x42]\<rparr>]"
proof -
  have "list_all2 (\<lambda>f w. encodeBridgeFrame (uint (bf_type f)) (bf_payload f) = Inr w) [\<lparr>bf_type = 2, bf_payload = [0x42]\<rparr>] [[0xaa, 2, 1, 0x42, 0x41]]"
    by (simp add: encodeBridgeFrame_def MAX_FRAME_PAYLOAD_BYTES_def FRAME_SOF_def computeChecksum_def)
  from serial_frames_roundtrip[OF this, of "[0x17]" "[[0x17, 0xaa, 2], [1, 0x42], [0x41]]"] show ?thesis by (simp add: FRAME_SOF_def)
qed

text \<open>What the frames that are read leave over: the gaps that were skipped before each of them.\<close>

fun woven :: "byte list list \<Rightarrow> bridge_frame list \<Rightarrow> byte list" where
  "woven (g # gs) (f # fs) = g @ wire f @ woven gs fs"
| "woven gs fs = []"

lemma wire_of_turn:
  assumes "b = FRAME_SOF # bs" "4 + unat (b ! 2) \<le> length b" "b ! (3 + unat (b ! 2)) = computeChecksum (b ! 1) (take (unat (b ! 2)) (drop 3 b))"
  shows "b = wire \<lparr>bf_type = b ! 1, bf_payload = take (unat (b ! 2)) (drop 3 b)\<rparr> @ drop (4 + unat (b ! 2)) b"
proof -
  let ?l = "unat (b ! 2)"
  have "length (take ?l (drop 3 b)) = ?l" using assms(2) by simp
  then have "wire \<lparr>bf_type = b ! 1, bf_payload = take ?l (drop 3 b)\<rparr> = [b ! 0, b ! 1, b ! 2] @ take ?l (drop 3 b) @ [b ! (3 + ?l)]"
    using assms(1,3) by (simp add: wire_def)
  also have "\<dots> = take (4 + ?l) b"
  proof -
    have "take 3 b = [b ! 0, b ! 1, b ! 2]" using assms(2) by (cases b; cases "tl b"; cases "tl (tl b)") (auto simp: numeral_3_eq_3 numeral_2_eq_2)
    moreover have "take (4 + ?l) b = take 3 b @ take ?l (drop 3 b) @ [b ! (3 + ?l)]"
      using assms(2) take_Suc_conv_app_nth[of "3 + ?l" b] take_add[of 3 ?l b] by simp
    ultimately show ?thesis by simp
  qed
  finally show ?thesis by simp
qed

lemma read_sound: "\<exists>gaps left. length gaps = length (fst (read_frames x)) \<and> x = woven gaps (fst (read_frames x)) @ left"
proof (induction x rule: length_induct)
  case (1 x)
  let ?P = "\<lambda>b. b \<noteq> FRAME_SOF"
  have none: ?case if "fst (read_frames x) = []" using that by simp
  show ?case
  proof (cases "dropWhile ?P x = []")
    case False
    then obtain bs where b: "dropWhile ?P x = FRAME_SOF # bs" using sof_head by blast
    define B where "B = FRAME_SOF # bs"
    let ?len = "unat (B ! 2)" and ?pre = "takeWhile ?P x"
    have x: "x = ?pre @ B" using takeWhile_dropWhile_id[of ?P x] unfolding b B_def[symmetric] by (rule sym)
    note turn = read_turn[OF b list.distinct(2), folded B_def]
    show ?thesis
    proof (cases "length B < 3 \<or> length B < 4 + ?len")
      case True
      then show ?thesis by (intro none) (auto simp: turn)
    next
      case whole: False
      then have long: "\<not> length B < 3" "\<not> length B < 4 + ?len" by auto
      have lb: "length B \<le> length x" by (subst x) simp
      have less: "length (drop (4 + ?len) B) < length x" "length (drop 1 B) < length x" using lb long by auto
      show ?thesis
      proof (cases "B ! (3 + ?len) = computeChecksum (B ! 1) (take ?len (drop 3 B))")
        case True
        let ?f = "\<lparr>bf_type = B ! 1, bf_payload = take ?len (drop 3 B)\<rparr>"
        have fs: "fst (read_frames x) = ?f # fst (read_frames (drop (4 + ?len) B))" unfolding turn using long True by (simp add: case_prod_unfold Let_def)
        obtain gaps left where ih: "length gaps = length (fst (read_frames (drop (4 + ?len) B)))"
          "drop (4 + ?len) B = woven gaps (fst (read_frames (drop (4 + ?len) B))) @ left" using "1.IH" less(1) by blast
        have "B = wire ?f @ drop (4 + ?len) B" by (rule wire_of_turn[OF B_def]) (use long True in auto)
        then have "x = woven (?pre # gaps) (fst (read_frames x)) @ left" unfolding fs using x ih(2) by simp
        moreover have "length (?pre # gaps) = length (fst (read_frames x))" unfolding fs using ih(1) by simp
        ultimately show ?thesis by blast
      next
        case bad: False
        have fs: "fst (read_frames x) = fst (read_frames (drop 1 B))" unfolding turn using long bad by simp
        obtain gaps left where ih: "length gaps = length (fst (read_frames (drop 1 B)))" "drop 1 B = woven gaps (fst (read_frames (drop 1 B))) @ left"
          using "1.IH" less(2) by blast
        have x1: "x = (?pre @ [FRAME_SOF]) @ drop 1 B" by (subst x) (simp add: B_def)
        show ?thesis
        proof (cases "fst (read_frames x)")
          case (Cons f rest)
          then obtain g gs where gaps: "gaps = g # gs" using ih(1) fs by (cases gaps) auto
          have "drop 1 B = woven gaps (f # rest) @ left" using ih(2) fs Cons by simp
          then have "x = woven ((?pre @ [FRAME_SOF] @ g) # gs) (f # rest) @ left" using x1 gaps by simp
          moreover have "length ((?pre @ [FRAME_SOF] @ g) # gs) = length (f # rest)" using ih(1) fs Cons gaps by simp
          ultimately show ?thesis unfolding Cons by blast
        qed (rule none)
      qed
    qed
  qed (simp add: none read_no_sof)
qed

text \<open>The reader invents nothing: every frame it returns stood in the stream, whole and with its checksum right, and the frames stood in
  the order in which they are returned, without overlap.\<close>

theorem serial_frames_sound:
  "\<exists>gaps left. length gaps = length (fst (push_all [] chunks)) \<and> concat chunks = woven gaps (fst (push_all [] chunks)) @ left"
  using read_sound[of "concat chunks"] reader_chunking[of chunks] by simp

end
