(* ===== verification/LinkFragments.thy ===== *)
theory LinkFragments
  imports BoundedMap SerialFrames
begin

text \<open>
  Fragments on a radio link: how a packet is cut to the size of a radio frame and put together again
  (\<open>node/src/transports/simulated-link.ts\<close>), and the eight-byte header that carries a fragment over LoRa
  (\<open>lora-serial.ts\<close>). The fields of a fragment are whatever its sender wrote; an encoded packet is a list of bytes.
\<close>

section \<open>Fragments\<close>

definition MAX_CONCURRENT_REASSEMBLIES :: nat where "MAX_CONCURRENT_REASSEMBLIES = 32"
definition MAX_FRAGMENTS_PER_MESSAGE :: nat where "MAX_FRAGMENTS_PER_MESSAGE = 8192"

record fragment =
  fg_connectionId :: string
  fg_msgId :: string
  fg_index :: jsnum
  fg_total :: jsnum
  fg_bytes :: "byte list"

record reassembly_entry =
  rs_chunks :: "(nat, byte list) jsmap"
  rs_total :: nat

type_synonym reassembler = "(string, reassembly_entry) bounded_map"

definition reassembler_new :: reassembler where
  "reassembler_new = bm_new (Some (Num (of_nat MAX_CONCURRENT_REASSEMBLIES)))"

fun whole_number :: "jsnum \<Rightarrow> int option" where
  "whole_number (Num r) = (if r = of_int \<lfloor>r\<rfloor> then Some \<lfloor>r\<rfloor> else None)"
| "whole_number n = None"

definition fragment_claim :: "fragment \<Rightarrow> (nat \<times> nat) option" where
  "fragment_claim f = (case (whole_number (fg_total f), whole_number (fg_index f)) of
     (Some n, Some i) \<Rightarrow> if n \<le> 0 \<or> n > int MAX_FRAGMENTS_PER_MESSAGE \<or> i < 0 \<or> i \<ge> n then None else Some (nat i, nat n)
   | _ \<Rightarrow> None)"

fun gather :: "(nat, byte list) jsmap \<Rightarrow> nat list \<Rightarrow> byte list list option" where
  "gather cs [] = Some []"
| "gather cs (i # is) = (case map_of cs i of None \<Rightarrow> None | Some c \<Rightarrow> map_option ((#) c) (gather cs is))"

definition addFragment :: "fragment \<Rightarrow> reassembler \<Rightarrow> byte list option \<times> reassembler" where
  "addFragment f entries = (case fragment_claim f of
     None \<Rightarrow> (None, entries)
   | Some (i, n) \<Rightarrow>
       let (entry, ents) = (case bm_get entries (fg_msgId f) of
             Some e \<Rightarrow> (e, entries)
           | None \<Rightarrow> let e = \<lparr>rs_chunks = [], rs_total = n\<rparr> in (e, bm_put None (fg_msgId f) e entries));
           entry' = entry\<lparr>rs_chunks := map_put i (fg_bytes f) (rs_chunks entry)\<rparr>;
           ents' = bm_write (fg_msgId f) entry' ents
       in if length (rs_chunks entry') < rs_total entry' then (None, ents')
          else case gather (rs_chunks entry') [0..<rs_total entry'] of
            None \<Rightarrow> (None, ents')
          | Some parts \<Rightarrow> (Some (concat parts), bm_delete (fg_msgId f) ents'))"

section \<open>Cutting\<close>

definition fragment_count :: "nat \<Rightarrow> nat \<Rightarrow> nat" where
  "fragment_count len mtu = max 1 (nat \<lceil>of_nat len / of_nat mtu :: rat\<rceil>)"

definition slice :: "byte list \<Rightarrow> nat \<Rightarrow> nat \<Rightarrow> byte list" where
  "slice bytes k i = take k (drop (i * k) bytes)"

definition transmit_fragments :: "string \<Rightarrow> string \<Rightarrow> nat \<Rightarrow> byte list \<Rightarrow> fragment list" where
  "transmit_fragments connectionId msgId mtu encoded =
     (let n = fragment_count (length encoded) mtu in
      map (\<lambda>i. \<lparr>fg_connectionId = connectionId, fg_msgId = msgId, fg_index = Num (of_nat i), fg_total = Num (of_nat n),
        fg_bytes = slice encoded mtu i\<rparr>) [0..<n])"

section \<open>Over LoRa\<close>

definition RADIO_HEADER_BYTES :: nat where "RADIO_HEADER_BYTES = 8"

definition writeUInt16BE :: "nat \<Rightarrow> byte list" where
  "writeUInt16BE v = [of_nat (v div 256), of_nat v]"

definition readUInt16BE :: "byte list \<Rightarrow> nat \<Rightarrow> nat" where
  "readUInt16BE bytes pos = unat (bytes ! pos) * 256 + unat (bytes ! (pos + 1))"

definition encodeRadioFragmentHeader :: "byte list \<Rightarrow> nat \<Rightarrow> nat \<Rightarrow> byte list" where
  "encodeRadioFragmentHeader msgId index tot = msgId @ writeUInt16BE index @ writeUInt16BE tot"

definition hex_digit :: "nat \<Rightarrow> char" where
  "hex_digit d = ''0123456789abcdef'' ! d"

definition hex_of_bytes :: "byte list \<Rightarrow> string" where
  "hex_of_bytes bytes = concat (map (\<lambda>b. [hex_digit (unat b div 16), hex_digit (unat b mod 16)]) bytes)"

definition decodeRadioFragmentHeader :: "byte list \<Rightarrow> string \<times> nat \<times> nat \<times> byte list" where
  "decodeRadioFragmentHeader bytes =
     (hex_of_bytes (take 4 bytes), readUInt16BE bytes 4, readUInt16BE bytes 6, drop RADIO_HEADER_BYTES bytes)"

text \<open>The frames of \<open>transmitPacket\<close>, unless the packet is too large.\<close>

definition transmitPacket :: "nat \<Rightarrow> byte list \<Rightarrow> byte list \<Rightarrow> byte list list option" where
  "transmitPacket mtu msgId encoded =
     (let usable = max 1 (mtu - RADIO_HEADER_BYTES); n = fragment_count (length encoded) usable in
      if n > MAX_FRAGMENTS_PER_MESSAGE then None
      else Some (map (\<lambda>i. encodeRadioFragmentHeader msgId i n @ slice encoded usable i) [0..<n]))"

definition received_fragment :: "byte list \<Rightarrow> fragment option" where
  "received_fragment frame =
     (if length frame \<le> RADIO_HEADER_BYTES then None
      else case decodeRadioFragmentHeader frame of (msgId, index, tot, rest) \<Rightarrow>
        Some \<lparr>fg_connectionId = ''lora-serial'', fg_msgId = msgId, fg_index = Num (of_nat index), fg_total = Num (of_nat tot), fg_bytes = rest\<rparr>)"

section \<open>One message\<close>

text \<open>What a fragment does to the entry of its message.\<close>

definition entry_step :: "fragment \<Rightarrow> reassembly_entry option \<Rightarrow> byte list option \<times> reassembly_entry option" where
  "entry_step f known = (case fragment_claim f of
     None \<Rightarrow> (None, known)
   | Some (i, n) \<Rightarrow>
       let entry = (case known of Some e \<Rightarrow> e | None \<Rightarrow> \<lparr>rs_chunks = [], rs_total = n\<rparr>);
           entry' = entry\<lparr>rs_chunks := map_put i (fg_bytes f) (rs_chunks entry)\<rparr>
       in if length (rs_chunks entry') < rs_total entry' then (None, Some entry')
          else case gather (rs_chunks entry') [0..<rs_total entry'] of None \<Rightarrow> (None, Some entry') | Some parts \<Rightarrow> (Some (concat parts), None))"

definition reassembler_ok :: "reassembler \<Rightarrow> bool" where
  "reassembler_ok r \<longleftrightarrow> bm_ok r \<and> bm_max r = Num 32"

lemma reassembler_new_ok: "reassembler_ok reassembler_new"
  by (simp add: reassembler_ok_def reassembler_new_def MAX_CONCURRENT_REASSEMBLIES_def) (simp add: bm_new_def)

lemma bm_write_max [simp]: "bm_max (bm_write k v m) = bm_max m"
  by (simp add: bm_write_def)

lemma addFragment_ok:
  assumes "reassembler_ok r"
  shows "reassembler_ok (snd (addFragment f r))" and "set (bm_keys (snd (addFragment f r))) \<subseteq> insert (fg_msgId f) (set (bm_keys r))"
proof -
  let ?id = "fg_msgId f"
  have pos: "\<not> num_le (bm_max r) (Num 0)" using assms by (simp add: reassembler_ok_def)
  have put: "reassembler_ok (bm_put None ?id e r)" "bm_get (bm_put None ?id e r) ?id \<noteq> None" for e
    using assms pos by (auto simp: reassembler_ok_def bm_set_get_same)
  have wr: "reassembler_ok (bm_write ?id e m)" "reassembler_ok (bm_delete ?id (bm_write ?id e m))"
    if "reassembler_ok m" "bm_get m ?id \<noteq> None" for e m
    using that by (auto simp: reassembler_ok_def bm_write_ok bm_delete_ok)
  show "reassembler_ok (snd (addFragment f r))"
    using assms put wr by (auto simp: addFragment_def Let_def split: option.splits)
  have keys: "set (bm_keys m) = {k. bm_get m k \<noteq> None}" for m :: reassembler
    by (auto simp: bm_keys_def bm_get_def map_of_eq_None_iff)
  have frame: "bm_get (bm_put None ?id e r) k \<noteq> None \<Longrightarrow> k = ?id \<or> bm_get r k \<noteq> None" for e k
    using bm_set_frame[of None ?id e r k] by (cases "bm_get (bm_put None ?id e r) k") auto
  have del: "bm_get (bm_delete k m) k' \<noteq> None \<Longrightarrow> bm_get m k' \<noteq> None" for k k' and m :: reassembler by (simp split: if_splits)
  show "set (bm_keys (snd (addFragment f r))) \<subseteq> insert ?id (set (bm_keys r))"
    unfolding keys using frame by (auto simp: addFragment_def Let_def split: option.splits if_splits)
qed

lemma addFragment_exact:
  assumes "bm_max r = Num 32" and "bm_has r (fg_msgId f) \<or> bm_size r < 32"
  shows "fst (addFragment f r) = fst (entry_step f (bm_get r (fg_msgId f)))" and
    "bm_get (snd (addFragment f r)) k = (if k = fg_msgId f then snd (entry_step f (bm_get r (fg_msgId f))) else bm_get r k)"
proof -
  have put: "bm_get (bm_put None (fg_msgId f) e r) k = (if k = fg_msgId f then Some e else bm_get r k)" if "bm_get r (fg_msgId f) = None" for e k
  proof (rule bm_set_room)
    have "bm_size r < 32" using assms(2) that by (simp add: bm_has_get)
    then have "(of_nat (bm_size r) :: rat) < 32" by (metis of_nat_less_iff of_nat_numeral)
    then show "\<not> num_le (bm_max r) (Num (of_nat (bm_size r)))" by (simp add: assms(1))
  qed (simp add: assms(1))
  show "fst (addFragment f r) = fst (entry_step f (bm_get r (fg_msgId f)))"
    by (auto simp: addFragment_def entry_step_def Let_def split: option.splits)
  show "bm_get (snd (addFragment f r)) k = (if k = fg_msgId f then snd (entry_step f (bm_get r (fg_msgId f))) else bm_get r k)"
    using put by (auto simp: addFragment_def entry_step_def Let_def split: option.splits)
qed

lemma gather_all: "(\<And>i. i \<in> set is \<Longrightarrow> map_of cs i = Some (g i)) \<Longrightarrow> gather cs is = Some (map g is)"
  by (induction "is") auto

lemma gather_missing: "i \<in> set is \<Longrightarrow> map_of cs i = None \<Longrightarrow> gather cs is = None"
  by (induction "is") (auto split: option.splits)

text \<open>Parts in a table: all of them, or not yet.\<close>

lemma gather_complete:
  assumes "map_wf cs" and m: "\<And>j. map_of cs j = (if j < length parts then Some (parts ! j) else None)"
  shows "length cs = length parts" and "gather cs [0..<length parts] = Some parts"
proof -
  have dom: "fst ` set cs = {..<length parts}"
  proof (rule set_eqI)
    fix j
    have "j \<in> fst ` set cs \<longleftrightarrow> map_of cs j \<noteq> None" by (simp only: map_of_eq_None_iff not_not)
    then show "j \<in> fst ` set cs \<longleftrightarrow> j \<in> {..<length parts}" unfolding m by simp
  qed
  then show "length cs = length parts" using assms(1) by (metis card_lessThan distinct_card length_map set_map)
  have "gather cs [0..<length parts] = Some (map ((!) parts) [0..<length parts])" by (rule gather_all) (simp add: m)
  then show "gather cs [0..<length parts] = Some parts" by (simp add: map_nth)
qed

lemma gather_incomplete:
  assumes m: "\<And>j. map_of cs j = (if j \<in> J then Some (parts ! j) else None)" and J: "J \<subseteq> {..<length parts}" "J \<noteq> {..<length parts}"
  shows "gather cs [0..<length parts] = None"
proof -
  from J obtain j where j: "j < length parts" "j \<notin> J" by auto
  then show ?thesis by (intro gather_missing[of j]) (simp_all add: m)
qed

text \<open>The entry of a message of which the parts \<open>I\<close> have arrived.\<close>

definition holds_parts :: "byte list list \<Rightarrow> nat set \<Rightarrow> reassembly_entry option \<Rightarrow> bool" where
  "holds_parts parts I known \<longleftrightarrow> (case known of None \<Rightarrow> I = {}
     | Some e \<Rightarrow> rs_total e = length parts \<and> map_wf (rs_chunks e) \<and> (\<forall>i. map_of (rs_chunks e) i = (if i \<in> I then Some (parts ! i) else None)))"

lemma part_step:
  assumes h: "holds_parts parts I known" and sub: "I \<subseteq> {..<length parts}" and claim: "fragment_claim f = Some (i, length parts)" "i < length parts"
    and bytes: "fg_bytes f = parts ! i"
  shows "insert i I \<noteq> {..<length parts} \<Longrightarrow> fst (entry_step f known) = None \<and> holds_parts parts (insert i I) (snd (entry_step f known))"
    and "insert i I = {..<length parts} \<Longrightarrow> entry_step f known = (Some (concat parts), None)"
proof -
  define e where "e = (case known of Some e \<Rightarrow> e | None \<Rightarrow> \<lparr>rs_chunks = [], rs_total = length parts\<rparr>)"
  let ?cs = "map_put i (parts ! i) (rs_chunks e)"
  have e: "rs_total e = length parts" "map_wf (rs_chunks e)" "\<And>j. map_of (rs_chunks e) j = (if j \<in> I then Some (parts ! j) else None)"
    using h by (auto simp: e_def holds_parts_def split: option.splits)
  have m: "map_of ?cs j = (if j \<in> insert i I then Some (parts ! j) else None)" for j using e(3) by simp
  have step: "entry_step f known = (if length ?cs < length parts then (None, Some (e\<lparr>rs_chunks := ?cs\<rparr>))
      else case gather ?cs [0..<length parts] of None \<Rightarrow> (None, Some (e\<lparr>rs_chunks := ?cs\<rparr>)) | Some ps \<Rightarrow> (Some (concat ps), None))"
    unfolding entry_step_def claim(1) option.case prod.case Let_def e_def[symmetric] bytes using e(1) by simp
  have hold: "holds_parts parts (insert i I) (Some (e\<lparr>rs_chunks := ?cs\<rparr>))" using e m by (simp add: holds_parts_def)
  show "fst (entry_step f known) = None \<and> holds_parts parts (insert i I) (snd (entry_step f known))" if "insert i I \<noteq> {..<length parts}"
    using gather_incomplete[OF m _ that] sub claim(2) hold unfolding step by simp
  show "entry_step f known = (Some (concat parts), None)" if all: "insert i I = {..<length parts}"
    using gather_complete[of ?cs parts] e(2) m unfolding step all by simp
qed

section \<open>Cutting and joining\<close>

lemma slices_prefix: "concat (map (slice bytes k) [0..<n]) = take (n * k) bytes"
proof (induction n)
  case (Suc n)
  have "take (Suc n * k) bytes = take (n * k) bytes @ slice bytes k n" unfolding slice_def take_add[symmetric] by (simp add: add.commute)
  with Suc show ?case by simp
qed simp

lemma fragment_count_covers: "0 < k \<Longrightarrow> len \<le> fragment_count len k * k"
proof -
  assume k: "0 < k"
  let ?q = "of_nat len / of_nat k :: rat"
  have "?q \<le> of_int \<lceil>?q\<rceil>" by (rule le_of_int_ceiling)
  also have "\<dots> = of_nat (nat \<lceil>?q\<rceil>)" by simp
  also have "\<dots> \<le> of_nat (fragment_count len k)" unfolding fragment_count_def by (simp only: of_nat_le_iff max.cobounded2)
  finally have "of_nat len \<le> of_nat (fragment_count len k) * (of_nat k :: rat)" using k by (simp add: divide_le_eq)
  then show ?thesis by (metis of_nat_le_iff of_nat_mult)
qed

definition parts_of :: "nat \<Rightarrow> byte list \<Rightarrow> byte list list" where
  "parts_of k bytes = map (slice bytes k) [0..<fragment_count (length bytes) k]"

lemma parts_join: "0 < k \<Longrightarrow> concat (parts_of k bytes) = bytes"
  using fragment_count_covers[of k "length bytes"] by (simp add: parts_of_def slices_prefix)

lemma parts_length [simp]: "length (parts_of k bytes) = fragment_count (length bytes) k"
  by (simp add: parts_of_def)

definition part_fragment :: "string \<Rightarrow> string \<Rightarrow> byte list list \<Rightarrow> nat \<Rightarrow> fragment" where
  "part_fragment c m parts i = \<lparr>fg_connectionId = c, fg_msgId = m, fg_index = Num (of_nat i), fg_total = Num (of_nat (length parts)), fg_bytes = parts ! i\<rparr>"

lemma transmit_parts: "transmit_fragments c m k bytes = map (part_fragment c m (parts_of k bytes)) [0..<fragment_count (length bytes) k]"
  by (simp add: transmit_fragments_def Let_def part_fragment_def parts_of_def)

lemma part_claim: "i < length parts \<Longrightarrow> length parts \<le> 8192 \<Longrightarrow> fragment_claim (part_fragment c m parts i) = Some (i, length parts)"
  by (cases parts) (simp_all add: fragment_claim_def part_fragment_def MAX_FRAGMENTS_PER_MESSAGE_def)

lemma part_inj: "part_fragment c m parts i = part_fragment c m parts j \<longleftrightarrow> i = j"
  by (auto simp: part_fragment_def)

section \<open>Many messages at once\<close>

fun receive_all :: "fragment list \<Rightarrow> reassembler \<Rightarrow> byte list option list \<times> reassembler" where
  "receive_all [] r = ([], r)"
| "receive_all (f # fs) r = (let (out, r1) = addFragment f r; (outs, r2) = receive_all fs r1 in (out # outs, r2))"

text \<open>The answers to the fragments of one message.\<close>

definition answers_for :: "string \<Rightarrow> fragment list \<Rightarrow> byte list option list \<Rightarrow> byte list option list" where
  "answers_for m fs outs = map snd (filter (\<lambda>(f, out). fg_msgId f = m) (zip fs outs))"

lemma answers_Cons: "answers_for m (f # fs) (out # outs) = (if fg_msgId f = m then [out] else []) @ answers_for m fs outs"
  by (simp add: answers_for_def)

lemma receive_append:
  "receive_all (fs @ gs) r = (let (os, r1) = receive_all fs r; (os', r2) = receive_all gs r1 in (os @ os', r2))"
  by (induction fs arbitrary: r) (simp_all add: case_prod_unfold Let_def)

lemma receive_length [simp]: "length (fst (receive_all fs r)) = length fs"
  by (induction fs arbitrary: r) (simp_all add: case_prod_unfold Let_def)

definition in_progress :: "string \<Rightarrow> string set \<Rightarrow> byte list list \<Rightarrow> nat set \<Rightarrow> reassembler \<Rightarrow> bool" where
  "in_progress m ids parts I r \<longleftrightarrow> reassembler_ok r \<and> set (bm_keys r) \<subseteq> ids \<and> holds_parts parts I (bm_get r m)"

lemma room_for:
  assumes "in_progress m ids parts I r" "finite ids" "card ids \<le> 32" "x \<in> ids"
  shows "bm_has r x \<or> bm_size r < 32"
proof (cases "bm_has r x")
  case False
  have wf: "distinct (bm_keys r)" using assms(1) by (simp add: in_progress_def reassembler_ok_def bm_ok_def bm_keys_def)
  have "x \<notin> set (bm_keys r)" using False by (auto simp: bm_has_def bm_keys_def map_of_eq_None_iff)
  then have "set (bm_keys r) \<subset> ids" using assms(1,4) by (auto simp: in_progress_def)
  then have "card (set (bm_keys r)) < card ids" using assms(2) by (rule psubset_card_mono[rotated])
  then show ?thesis using wf assms(3) distinct_card[OF wf] by (simp add: bm_size_def bm_keys_def)
qed simp

lemma progress_step:
  assumes inv: "in_progress m ids parts I r" and ids: "finite ids" "card ids \<le> 32" "fg_msgId f \<in> ids" and n: "length parts \<le> 8192"
    and sub: "I \<subseteq> {..<length parts}" and part: "fg_msgId f = m \<longrightarrow> i < length parts \<and> f = part_fragment c m parts i"
    and missing: "fg_msgId f = m \<longrightarrow> insert i I \<noteq> {..<length parts}"
  shows "in_progress m ids parts (if fg_msgId f = m then insert i I else I) (snd (addFragment f r))"
    and "fg_msgId f = m \<Longrightarrow> fst (addFragment f r) = None"
proof -
  have ok: "reassembler_ok r" "bm_max r = Num 32" using inv by (auto simp: in_progress_def reassembler_ok_def)
  note ex = addFragment_exact[OF ok(2) room_for[OF inv ids]]
  have keys: "set (bm_keys (snd (addFragment f r))) \<subseteq> ids" using addFragment_ok(2)[OF ok(1), of f] inv ids(3) by (auto simp: in_progress_def)
  have p: "fst (entry_step f (bm_get r m)) = None \<and> holds_parts parts (insert i I) (snd (entry_step f (bm_get r m)))" if m: "fg_msgId f = m"
  proof (rule part_step(1))
    show "holds_parts parts I (bm_get r m)" using inv by (simp add: in_progress_def)
    show "fragment_claim f = Some (i, length parts)" "i < length parts" "fg_bytes f = parts ! i" using part m n part_claim[of i parts c m]
      by (auto simp: part_fragment_def)
    show "insert i I \<noteq> {..<length parts}" using missing m by simp
  qed (rule sub)
  show "in_progress m ids parts (if fg_msgId f = m then insert i I else I) (snd (addFragment f r))"
    using p addFragment_ok(1)[OF ok(1)] keys inv by (auto simp: in_progress_def ex(2))
  show "fg_msgId f = m \<Longrightarrow> fst (addFragment f r) = None" using p ex(1) by simp
qed

lemma progress_all:
  assumes "in_progress m ids parts I r" "finite ids" "card ids \<le> 32" "length parts \<le> 8192" "I \<subseteq> {..<length parts}"
    and "\<forall>f \<in> set fs. fg_msgId f \<in> ids \<and> (fg_msgId f = m \<longrightarrow> (\<exists>i < length parts. f = part_fragment c m parts i))"
    and "missing < length parts" "missing \<notin> I" "part_fragment c m parts missing \<notin> set fs"
  shows "in_progress m ids parts (I \<union> {i. i < length parts \<and> part_fragment c m parts i \<in> set fs}) (snd (receive_all fs r)) \<and>
    (\<forall>x \<in> set (answers_for m fs (fst (receive_all fs r))). x = None)"
  using assms
proof (induction fs arbitrary: I r)
  case (Cons f fs)
  let ?r = "snd (addFragment f r)"
  have id: "fg_msgId f \<in> ids" using Cons.prems(6) by simp
  have msg: "fg_msgId (part_fragment c m parts j) = m" for j by (simp add: part_fragment_def)
  show ?case
  proof (cases "fg_msgId f = m")
    case True
    then obtain i where i: "i < length parts" "f = part_fragment c m parts i" using Cons.prems(6) by auto
    have ne: "insert i I \<noteq> {..<length parts}"
    proof
      assume "insert i I = {..<length parts}"
      then have "missing = i" using Cons.prems(7,8) by auto
      then show False using i(2) Cons.prems(9) by simp
    qed
    have st: "in_progress m ids parts (insert i I) ?r" "fst (addFragment f r) = None"
      using progress_step[OF Cons.prems(1,2,3) id Cons.prems(4,5), of i c] i ne True by auto
    have "in_progress m ids parts (insert i I \<union> {i. i < length parts \<and> part_fragment c m parts i \<in> set fs}) (snd (receive_all fs ?r)) \<and>
      (\<forall>x \<in> set (answers_for m fs (fst (receive_all fs ?r))). x = None)"
    proof (rule Cons.IH[OF st(1) Cons.prems(2,3,4)])
      show "missing \<notin> insert i I" using Cons.prems(8,9) i(2) by auto
    qed (use Cons.prems i in auto)
    moreover have "insert i I \<union> {i. i < length parts \<and> part_fragment c m parts i \<in> set fs} =
        I \<union> {i. i < length parts \<and> part_fragment c m parts i \<in> set (f # fs)}" using i by (auto simp: part_inj)
    ultimately show ?thesis using st(2) True by (simp add: case_prod_unfold Let_def answers_Cons)
  next
    case False
    then have st: "in_progress m ids parts I ?r" using progress_step(1)[OF Cons.prems(1,2,3) id Cons.prems(4,5), of 0 c] by simp
    have "in_progress m ids parts (I \<union> {i. i < length parts \<and> part_fragment c m parts i \<in> set fs}) (snd (receive_all fs ?r)) \<and>
      (\<forall>x \<in> set (answers_for m fs (fst (receive_all fs ?r))). x = None)"
      by (rule Cons.IH[OF st Cons.prems(2,3,4,5)]) (use Cons.prems in auto)
    moreover have "{i. i < length parts \<and> part_fragment c m parts i \<in> set (f # fs)} = {i. i < length parts \<and> part_fragment c m parts i \<in> set fs}"
      using False msg by auto
    ultimately show ?thesis using False by (simp add: case_prod_unfold Let_def answers_Cons)
  qed
qed (simp add: answers_for_def)

lemma progress_done:
  assumes inv: "in_progress m ids parts I r" and ids: "finite ids" "card ids \<le> 32" "m \<in> ids" and n: "length parts \<le> 8192"
    and i: "i < length parts" "insert i I = {..<length parts}"
  shows "fst (addFragment (part_fragment c m parts i) r) = Some (concat parts)" and
    "bm_get (snd (addFragment (part_fragment c m parts i) r)) m = None"
proof -
  let ?f = "part_fragment c m parts i"
  have id: "fg_msgId ?f = m" by (simp add: part_fragment_def)
  have "entry_step ?f (bm_get r m) = (Some (concat parts), None)"
  proof (rule part_step(2))
    show "holds_parts parts I (bm_get r m)" using inv by (simp add: in_progress_def)
    show "fragment_claim ?f = Some (i, length parts)" using part_claim[OF i(1) n] .
    show "fg_bytes ?f = parts ! i" by (simp add: part_fragment_def)
  qed (use i in auto)
  moreover have "bm_max r = Num 32" using inv by (simp add: in_progress_def reassembler_ok_def)
  note addFragment_exact[OF this, of ?f]
  ultimately show "fst (addFragment ?f r) = Some (concat parts)" "bm_get (snd (addFragment ?f r)) m = None"
    using room_for[OF inv ids] id by auto
qed

text \<open>All fragments of a message but one, then this one, among any fragments of other messages.\<close>

lemma message_reassembled:
  assumes k: "0 < k" "fragment_count (length bytes) k \<le> 8192" and ids: "card (fg_msgId ` set (fs @ [f])) \<le> 32"
    and all: "{g \<in> set (fs @ [f]). fg_msgId g = m} = set (transmit_fragments c m k bytes)" and f: "fg_msgId f = m" "f \<notin> set fs"
  shows "answers_for m (fs @ [f]) (fst (receive_all (fs @ [f]) reassembler_new)) =
    replicate (length (filter (\<lambda>g. fg_msgId g = m) fs)) None @ [Some bytes]"
proof -
  let ?parts = "parts_of k bytes" and ?ids = "fg_msgId ` set (fs @ [f])"
  have n: "length ?parts \<le> 8192" using k(2) by simp
  have frags: "set (transmit_fragments c m k bytes) = part_fragment c m ?parts ` {..<length ?parts}"
    unfolding transmit_parts by (simp add: atLeast0LessThan)
  have "f \<in> set (transmit_fragments c m k bytes)" using all f(1) by auto
  then obtain l where l: "l < length ?parts" "f = part_fragment c m ?parts l" unfolding frags by auto
  have start: "in_progress m ?ids ?parts {} reassembler_new"
    using reassembler_new_ok by (simp add: in_progress_def holds_parts_def reassembler_new_def) (simp add: bm_keys_def bm_new_def)
  have mine: "\<forall>g \<in> set fs. fg_msgId g \<in> ?ids \<and> (fg_msgId g = m \<longrightarrow> (\<exists>i < length ?parts. g = part_fragment c m ?parts i))"
    using all unfolding frags by auto
  have l_new: "part_fragment c m ?parts l \<notin> set fs" using f(2) l(2) by simp
  let ?I = "{i. i < length ?parts \<and> part_fragment c m ?parts i \<in> set fs}" and ?r = "snd (receive_all fs reassembler_new)"
  have run: "in_progress m ?ids ?parts ?I ?r" "\<forall>x \<in> set (answers_for m fs (fst (receive_all fs reassembler_new))). x = None"
    using progress_all[OF start _ ids n _ mine l(1) _ l_new] by simp_all
  have "insert l ?I = {..<length ?parts}"
  proof (intro set_eqI iffI)
    fix i assume "i \<in> {..<length ?parts}"
    then have i: "i < length ?parts" "part_fragment c m ?parts i \<in> set (fs @ [f])" using all unfolding frags by auto
    then show "i \<in> insert l ?I" unfolding l(2) by (auto simp: part_inj)
  qed (use l(1) in auto)
  from progress_done[OF run(1) _ ids _ n l(1) this, of c] have last_answer: "fst (addFragment f ?r) = Some bytes"
    using f(1) l(2) parts_join[OF k(1)] by auto
  have len: "length (answers_for m gs outs) = length (filter (\<lambda>g. fg_msgId g = m) gs)" if "length outs = length gs" for gs outs
    using that by (induction outs gs rule: list_induct2) (simp_all add: answers_for_def)
  have "answers_for m fs (fst (receive_all fs reassembler_new)) = replicate (length (filter (\<lambda>g. fg_msgId g = m) fs)) None"
    using run(2) len[of "fst (receive_all fs reassembler_new)" fs] by (intro replicate_eqI) auto
  moreover have "answers_for m (fs @ [f]) (fst (receive_all (fs @ [f]) reassembler_new)) =
      answers_for m fs (fst (receive_all fs reassembler_new)) @ [Some bytes]"
    using last_answer f(1) by (simp add: receive_append case_prod_unfold Let_def answers_for_def)
  ultimately show ?thesis by simp
qed

section \<open>Over LoRa, there and back\<close>

lemma slice_nonempty: "i < fragment_count (length bytes) k \<Longrightarrow> 0 < k \<Longrightarrow> bytes \<noteq> [] \<Longrightarrow> slice bytes k i \<noteq> []"
proof -
  assume i: "i < fragment_count (length bytes) k" and k: "0 < k" and b: "bytes \<noteq> []"
  have "i * k < length bytes"
  proof (cases "i = 0")
    case False
    then have "i < nat \<lceil>of_nat (length bytes) / of_nat k :: rat\<rceil>" using i by (simp add: fragment_count_def split: if_splits)
    then have "int i < \<lceil>of_nat (length bytes) / of_nat k :: rat\<rceil>" by linarith
    then have "of_nat i < (of_nat (length bytes) / of_nat k :: rat)" by (simp add: less_ceiling_iff)
    then have "of_nat (i * k) < (of_nat (length bytes) :: rat)" using k by (simp add: less_divide_eq)
    then show ?thesis by (simp only: of_nat_less_iff)
  qed (use b in simp)
  then show "slice bytes k i \<noteq> []" using k by (simp add: slice_def)
qed

lemma uint16_roundtrip: "v < 65536 \<Longrightarrow> readUInt16BE (xs @ writeUInt16BE v @ ys) (length xs) = v"
proof -
  assume v: "v < 65536"
  then have "unat (of_nat (v div 256) :: byte) = v div 256" "unat (of_nat v :: byte) = v mod 256" by (simp_all add: unat_of_nat)
  then show ?thesis by (simp add: readUInt16BE_def writeUInt16BE_def nth_append)
qed

lemma hex_digits: "d < 16 \<Longrightarrow> e < 16 \<Longrightarrow> hex_digit d = hex_digit e \<longleftrightarrow> d = e"
  unfolding hex_digit_def by (subst nth_eq_iff_index_eq) simp_all

lemma hex_inj: "length xs = length ys \<Longrightarrow> hex_of_bytes xs = hex_of_bytes ys \<longleftrightarrow> xs = ys"
proof (induction xs ys rule: list_induct2)
  case (Cons x xs y ys)
  have b: "unat b div 16 < 16" "unat b mod 16 < 16" for b :: byte
  proof -
    have "unat b < 2 ^ LENGTH(8)" by (rule unsigned_less)
    then show "unat b div 16 < 16" "unat b mod 16 < 16" by simp_all
  qed
  have "unat x div 16 = unat y div 16 \<and> unat x mod 16 = unat y mod 16 \<longleftrightarrow> x = y"
    by (metis div_mult_mod_eq unsigned_word_eqI)
  then show ?case using Cons.IH b by (auto simp: hex_of_bytes_def hex_digits)
qed simp

lemma header_roundtrip:
  assumes "length msgId = 4" "i < 65536" "n < 65536"
  shows "decodeRadioFragmentHeader (encodeRadioFragmentHeader msgId i n @ rest) = (hex_of_bytes msgId, i, n, rest)"
  using assms uint16_roundtrip[of i msgId "writeUInt16BE n @ rest"] uint16_roundtrip[of n "msgId @ writeUInt16BE i" rest]
  by (simp add: decodeRadioFragmentHeader_def encodeRadioFragmentHeader_def RADIO_HEADER_BYTES_def) (simp add: writeUInt16BE_def)

lemma received_frame:
  assumes "length msgId = 4" "i < n" "n \<le> 8192" "rest \<noteq> []"
  shows "received_fragment (encodeRadioFragmentHeader msgId i n @ rest) =
    Some \<lparr>fg_connectionId = ''lora-serial'', fg_msgId = hex_of_bytes msgId, fg_index = Num (of_nat i), fg_total = Num (of_nat n), fg_bytes = rest\<rparr>"
  using assms header_roundtrip[of msgId i n rest]
  by (auto simp: received_fragment_def RADIO_HEADER_BYTES_def encodeRadioFragmentHeader_def writeUInt16BE_def)

abbreviation usable_bytes :: "nat \<Rightarrow> nat" where
  "usable_bytes mtu \<equiv> max 1 (mtu - RADIO_HEADER_BYTES)"

lemma transmitted_received:
  assumes "transmitPacket mtu msgId encoded = Some frames" "length msgId = 4" "encoded \<noteq> []"
  shows "map received_fragment frames = map Some (transmit_fragments ''lora-serial'' (hex_of_bytes msgId) (usable_bytes mtu) encoded)"
    and "fragment_count (length encoded) (usable_bytes mtu) \<le> 8192" and "\<forall>fr \<in> set frames. length fr \<le> max 9 mtu"
proof -
  let ?u = "usable_bytes mtu"
  let ?n = "fragment_count (length encoded) ?u"
  have t: "?n \<le> 8192" "frames = map (\<lambda>i. encodeRadioFragmentHeader msgId i ?n @ slice encoded ?u i) [0..<?n]"
    using assms(1) by (auto simp: transmitPacket_def Let_def MAX_FRAGMENTS_PER_MESSAGE_def split: if_splits)
  show "map received_fragment frames = map Some (transmit_fragments ''lora-serial'' (hex_of_bytes msgId) ?u encoded)"
    unfolding t(2) transmit_fragments_def Let_def map_map
  proof (rule map_cong[OF refl])
    fix i assume "i \<in> set [0..<?n]"
    then have i: "i < ?n" by simp
    show "(received_fragment \<circ> (\<lambda>i. encodeRadioFragmentHeader msgId i ?n @ slice encoded ?u i)) i =
      (Some \<circ> (\<lambda>i. \<lparr>fg_connectionId = ''lora-serial'', fg_msgId = hex_of_bytes msgId, fg_index = Num (of_nat i), fg_total = Num (of_nat ?n),
        fg_bytes = slice encoded ?u i\<rparr>)) i"
      unfolding o_def by (rule received_frame[OF assms(2) i t(1) slice_nonempty[OF i _ assms(3)]]) simp
  qed
  show "?n \<le> 8192" by (rule t(1))
  show "\<forall>fr \<in> set frames. length fr \<le> max 9 mtu" unfolding t(2)
    by (auto simp: encodeRadioFragmentHeader_def writeUInt16BE_def assms(2) slice_def RADIO_HEADER_BYTES_def)
qed

lemma transmit_distinct: "distinct (transmit_fragments c m k bytes)"
  unfolding transmit_parts by (simp add: distinct_map inj_on_def part_inj)

lemma received_msgId: "received_fragment x = Some g \<Longrightarrow> 8 < length x \<and> fg_msgId g = hex_of_bytes (take 4 x)"
  by (auto simp: received_fragment_def decodeRadioFragmentHeader_def RADIO_HEADER_BYTES_def split: if_splits)

definition heard_fragments :: "byte list list \<Rightarrow> fragment list" where
  "heard_fragments = List.map_filter received_fragment"

lemma heard_member: "g \<in> set (heard_fragments xs) \<longleftrightarrow> (\<exists>x \<in> set xs. received_fragment x = Some g)"
  by (force simp: heard_fragments_def List.map_filter_def)

lemma heard_own:
  assumes "x \<in> set heard" "received_fragment x = Some g" "fg_msgId g = hex_of_bytes msgId" "length msgId = 4"
    and others: "\<forall>x \<in> set heard. 8 < length x \<and> take 4 x = msgId \<longrightarrow> x \<in> set frames"
  shows "x \<in> set frames"
proof -
  have "8 < length x" "hex_of_bytes (take 4 x) = hex_of_bytes msgId" using received_msgId[OF assms(2)] assms(3) by simp_all
  moreover have "length (take 4 x) = length msgId" using \<open>8 < length x\<close> assms(4) by simp
  ultimately show ?thesis using others assms(1) hex_inj by blast
qed

lemma heard_transmission:
  assumes sent: "transmitPacket mtu msgId encoded = Some frames" "length msgId = 4" "encoded \<noteq> []"
    and heard: "set frames \<subseteq> set heard \<union> {final}" "final \<in> set frames" "final \<notin> set heard"
    and others: "\<forall>x \<in> set heard. 8 < length x \<and> take 4 x = msgId \<longrightarrow> x \<in> set frames"
  obtains f where "received_fragment final = Some f" "fg_msgId f = hex_of_bytes msgId" "f \<notin> set (heard_fragments heard)"
    "{g \<in> set (heard_fragments heard @ [f]). fg_msgId g = hex_of_bytes msgId} =
      set (transmit_fragments ''lora-serial'' (hex_of_bytes msgId) (usable_bytes mtu) encoded)"
proof -
  let ?m = "hex_of_bytes msgId" and ?T = "transmit_fragments ''lora-serial'' (hex_of_bytes msgId) (usable_bytes mtu) encoded"
  let ?fs = "heard_fragments heard"
  note t = transmitted_received[OF sent]
  have img: "received_fragment ` set frames = Some ` set ?T" using arg_cong[OF t(1), of set] by simp
  have inj: "inj_on received_fragment (set frames)"
    using arg_cong[OF t(1), of distinct] by (simp add: distinct_map transmit_distinct)
  have "received_fragment final \<in> Some ` set ?T" unfolding img[symmetric] using heard(2) by (rule imageI)
  then obtain f where f: "received_fragment final = Some f" "f \<in> set ?T" by blast
  have tm: "fg_msgId g = ?m" if "g \<in> set ?T" for g using that by (auto simp: transmit_parts part_fragment_def)
  have own: "g \<in> set ?T" if "g \<in> set (?fs @ [f])" "fg_msgId g = ?m" for g
  proof (cases "g = f")
    case False
    then have "g \<in> set ?fs" using that(1) by simp
    then obtain x where x: "x \<in> set heard" "received_fragment x = Some g" unfolding heard_member by blast
    from heard_own[OF x that(2) sent(2) others] have "Some g \<in> received_fragment ` set frames" using x(2) by (metis imageI)
    then show ?thesis unfolding img by blast
  qed (use f in simp)
  have was: "g \<in> set (?fs @ [f])" if "g \<in> set ?T" for g
  proof -
    from that have "Some g \<in> received_fragment ` set frames" unfolding img by blast
    then obtain x where x: "x \<in> set frames" "received_fragment x = Some g" by auto
    then have "x \<in> set heard \<or> x = final" using heard(1) by blast
    then show ?thesis using x(2) f(1) heard_member by auto
  qed
  have new: "f \<notin> set ?fs"
  proof
    assume "f \<in> set ?fs"
    then obtain x where x: "x \<in> set heard" "received_fragment x = Some f" using heard_member by blast
    then have "x = final" using inj_onD[OF inj, of x final] heard_own[OF x tm[OF f(2)] sent(2) others] f(1) heard(2) by simp
    then show False using x(1) heard(3) by simp
  qed
  have "{g \<in> set (?fs @ [f]). fg_msgId g = ?m} = set ?T" using own was tm by blast
  from that[OF f(1) tm[OF f(2)] new this] show thesis .
qed

lemma few_messages:
  assumes "received_fragment final = Some f" and few: "card (take 4 ` set heard) < 32"
  shows "card (fg_msgId ` set (heard_fragments heard @ [f])) \<le> 32"
proof -
  let ?ids = "hex_of_bytes ` (insert (take 4 final) (take 4 ` set heard))"
  have "fg_msgId ` set (heard_fragments heard @ [f]) \<subseteq> ?ids"
  proof
    fix y assume "y \<in> fg_msgId ` set (heard_fragments heard @ [f])"
    then obtain g where g: "y = fg_msgId g" "g \<in> set (heard_fragments heard) \<or> g = f" by auto
    then obtain x where "x \<in> insert final (set heard)" "received_fragment x = Some g" using heard_member assms(1) by blast
    with g(1) received_msgId show "y \<in> ?ids" by blast
  qed
  then have "card (fg_msgId ` set (heard_fragments heard @ [f])) \<le> card ?ids" by (rule card_mono[rotated]) simp
  also have "\<dots> \<le> card (insert (take 4 final) (take 4 ` set heard))" by (rule card_image_le) simp
  also have "\<dots> \<le> Suc (card (take 4 ` set heard))" by (simp only: card_insert_if finite_imageI finite_set) simp
  finally show ?thesis using few by simp
qed

text \<open>C22: A packet crosses the LoRa link whole. It is cut to frames that fit the radio; heard in any order, with repetitions before the last one
  and among the frames of up to 31 other messages and any noise, its frames give back exactly its bytes when the last of them arrives.\<close>

theorem radio_packet_arrives:
  assumes sent: "transmitPacket mtu msgId encoded = Some frames" "length msgId = 4" "encoded \<noteq> []"
    and heard: "set frames \<subseteq> set heard \<union> {final}" "final \<in> set frames" "final \<notin> set heard"
    and others: "\<forall>x \<in> set heard. 8 < length x \<and> take 4 x = msgId \<longrightarrow> x \<in> set frames" and few: "card (take 4 ` set heard) < 32"
  shows "last (fst (receive_all (List.map_filter received_fragment (heard @ [final])) reassembler_new)) = Some encoded \<and>
    (\<forall>fr \<in> set frames. length fr \<le> max 9 mtu)"
proof -
  note t = transmitted_received[OF sent]
  obtain f where f: "received_fragment final = Some f" "fg_msgId f = hex_of_bytes msgId" "f \<notin> set (heard_fragments heard)"
    "{g \<in> set (heard_fragments heard @ [f]). fg_msgId g = hex_of_bytes msgId} =
      set (transmit_fragments ''lora-serial'' (hex_of_bytes msgId) (usable_bytes mtu) encoded)"
    using heard_transmission[OF sent heard others] .
  let ?m = "hex_of_bytes msgId" and ?fs = "heard_fragments heard"
  from message_reassembled[OF _ t(2) few_messages[OF f(1) few] f(4,2,3)]
  have ans: "answers_for ?m (?fs @ [f]) (fst (receive_all (?fs @ [f]) reassembler_new)) =
      replicate (length (filter (\<lambda>g. fg_msgId g = ?m) ?fs)) None @ [Some encoded]" by simp
  have "List.map_filter received_fragment (heard @ [final]) = ?fs @ [f]" using f(1) by (simp add: heard_fragments_def List.map_filter_def)
  moreover have "answers_for ?m (?fs @ [f]) (fst (receive_all (?fs @ [f]) reassembler_new)) =
      answers_for ?m ?fs (fst (receive_all ?fs reassembler_new)) @ [last (fst (receive_all (?fs @ [f]) reassembler_new))]"
    using f(2) by (simp add: receive_append case_prod_unfold Let_def answers_for_def)
  ultimately show ?thesis using ans t(3) by simp
qed

lemma radio_packet_arrives_witness:
  "last (fst (receive_all (List.map_filter received_fragment [[1, 2, 3, 4, 0, 1, 0, 2, 8], [9], [1, 2, 3, 4, 0, 0, 0, 2, 7]]) reassembler_new)) = Some [7, 8]"
proof -
  have "transmitPacket 9 [1, 2, 3, 4] [7, 8] = Some [[1, 2, 3, 4, 0, 0, 0, 2, 7], [1, 2, 3, 4, 0, 1, 0, 2, 8]]"
    by (simp add: transmitPacket_def fragment_count_def RADIO_HEADER_BYTES_def MAX_FRAGMENTS_PER_MESSAGE_def Let_def
        encodeRadioFragmentHeader_def writeUInt16BE_def slice_def upt_rec)
  from radio_packet_arrives[OF this, of "[[1, 2, 3, 4, 0, 1, 0, 2, 8], [9]]" "[1, 2, 3, 4, 0, 0, 0, 2, 7]"] show ?thesis by simp
qed

definition parts_fit :: "string \<Rightarrow> reassembly_entry \<Rightarrow> bool" where
  "parts_fit m e \<longleftrightarrow> map_wf (rs_chunks e) \<and> fst ` set (rs_chunks e) \<subseteq> {..<MAX_FRAGMENTS_PER_MESSAGE}"

lemma parts_fit_count: "parts_fit m e \<Longrightarrow> length (rs_chunks e) \<le> MAX_FRAGMENTS_PER_MESSAGE"
  unfolding parts_fit_def by (metis card_lessThan card_mono distinct_card finite_lessThan length_map set_map)

lemma addFragment_fits:
  assumes ok: "reassembler_ok r" and fit: "bm_all parts_fit r"
  shows "bm_all parts_fit (snd (addFragment f r))"
proof (cases "fragment_claim f")
  case (Some p)
  let ?id = "fg_msgId f"
  obtain i n where p: "p = (i, n)" "i < MAX_FRAGMENTS_PER_MESSAGE" using Some by (cases p) (auto simp: fragment_claim_def split: option.splits if_splits)
  define new where "new = \<lparr>rs_chunks = [], rs_total = n\<rparr>"
  define e where "e = (case bm_get r ?id of Some e \<Rightarrow> e | None \<Rightarrow> new)"
  define ents where "ents = (case bm_get r ?id of Some e \<Rightarrow> r | None \<Rightarrow> bm_put None ?id new r)"
  let ?e = "e\<lparr>rs_chunks := map_put i (fg_bytes f) (rs_chunks e)\<rparr>"
  have "parts_fit ?id new" by (simp add: parts_fit_def new_def)
  then have e: "parts_fit ?id e" and ents: "bm_all parts_fit ents"
    using fit bm_all_get[OF fit] by (auto simp: e_def ents_def bm_all_put split: option.splits)
  have "\<not> num_le (bm_max r) (Num 0)" using ok by (simp add: reassembler_ok_def)
  then have has: "bm_get ents ?id \<noteq> None" by (auto simp: ents_def bm_set_get_same split: option.splits)
  have "parts_fit ?id ?e" using e p(2) by (auto simp: parts_fit_def dom_update)
  then have w: "bm_all parts_fit (bm_write ?id ?e ents)" using ents has by (intro bm_all_write)
  have "snd (addFragment f r) \<in> {bm_write ?id ?e ents, bm_delete ?id (bm_write ?id ?e ents)}"
    unfolding addFragment_def Some p(1) by (auto simp: Let_def e_def ents_def new_def split: option.splits)
  then show ?thesis using w by (auto intro: bm_all_delete)
qed (simp add: addFragment_def fit)

text \<open>A reassembler that is fed whatever a radio picks up stays small: after any fragments, however malformed, it works on at most 32
  messages, and of each it holds at most 8192 parts.\<close>

theorem reassembler_bounded:
  "let r = snd (receive_all fs reassembler_new) in
     bm_size r \<le> 32 \<and> list_all (\<lambda>e. length (rs_chunks e) \<le> MAX_FRAGMENTS_PER_MESSAGE) (bm_values r)"
proof -
  have "reassembler_ok r \<Longrightarrow> bm_all parts_fit r \<Longrightarrow> reassembler_ok (snd (receive_all fs r)) \<and> bm_all parts_fit (snd (receive_all fs r))" for r
    by (induction fs arbitrary: r) (simp_all add: addFragment_ok(1) addFragment_fits case_prod_unfold Let_def)
  from this[OF reassembler_new_ok] have r: "reassembler_ok (snd (receive_all fs reassembler_new))" "bm_all parts_fit (snd (receive_all fs reassembler_new))"
    by (simp_all add: reassembler_new_def)
  then have "within_limit (bm_size (snd (receive_all fs reassembler_new))) (Num 32)" unfolding reassembler_ok_def bm_ok_def by metis
  then have "within_limit (bm_size (snd (receive_all fs reassembler_new))) (Num (of_nat 32))" by (simp only: of_nat_numeral)
  then have "bm_size (snd (receive_all fs reassembler_new)) \<le> 32" unfolding within_limit_nat .
  then show ?thesis using bm_all_values[OF r(2)] parts_fit_count by (fastforce simp: Let_def list_all_iff)
qed

end
