(* ===== verification/LinkTransport.thy ===== *)
theory LinkTransport
  imports LinkFragments
begin

text \<open>
  The connections of a radio link (\<open>SimulatedLinkTransport\<close> of \<open>node/src/transports/simulated-link.ts\<close>): opening, accepting,
  identifying and closing them, receiving fragments and broadcasts. One transport is modelled; what it does to the outside (its
  handlers, the promise of \<open>connect\<close>, the calls to the other side) is its list of events. A connection is known by its id, which stands
  for the object: ids are random, so a new one is fresh. Decoding a packet and reading its source are arguments.
\<close>

section \<open>State\<close>

definition MAX_PENDING_CONNECTIONS :: nat where "MAX_PENDING_CONNECTIONS = 32"
definition MAX_BROADCAST_PACKETS_PER_WINDOW :: nat where "MAX_BROADCAST_PACKETS_PER_WINDOW = 20"
definition BROADCAST_WINDOW_MS :: time where "BROADCAST_WINDOW_MS = 1000"

datatype link_error = NotStarted | NoDevice string | TooManyPending | ConnectionRefused string | ConnectTimeout string | LimitReached | ClosedUnidentified

datatype 'p link_event =
    HelloSent string
  | PeerUp string string
  | PeerDown string
  | PacketIn 'p "string option"
  | ConnectDone string string
  | ConnectFailed string link_error
  | RemoteClosed string "link_error option"

record connection =
  cn_remoteDeviceId :: string
  cn_reassembler :: reassembler
  cn_peerId :: "string option"
  cn_pendingConnect :: bool
  cn_helloSent :: bool

record 'p link =
  lk_maxConnections :: nat
  lk_started :: bool
  lk_byId :: "(string, connection) jsmap"
  lk_byPeer :: "(string, string) jsmap"
  lk_windowStart :: time
  lk_windowCount :: nat
  lk_events :: "'p link_event list"

definition link_new :: "nat \<Rightarrow> 'p link" where
  "link_new maxConnections = \<lparr>lk_maxConnections = maxConnections, lk_started = False, lk_byId = [], lk_byPeer = [],
     lk_windowStart = 0, lk_windowCount = 0, lk_events = []\<rparr>"

text \<open>A peer id counts as known if it is there and not the empty string, which is false as a condition.\<close>

fun known :: "string option \<Rightarrow> bool" where
  "known (Some (x # xs)) = True"
| "known p = False"

abbreviation said :: "'p link_event \<Rightarrow> 'p link \<Rightarrow> 'p link" where
  "said e t \<equiv> t\<lparr>lk_events := lk_events t @ [e]\<rparr>"

definition pendingConnectionCount :: "'p link \<Rightarrow> int" where
  "pendingConnectionCount t = int (length (lk_byId t)) - int (length (lk_byPeer t))"

section \<open>Closing\<close>

definition closeConnection :: "string \<Rightarrow> bool \<Rightarrow> link_error option \<Rightarrow> 'p link \<Rightarrow> 'p link" where
  "closeConnection c notifyRemote reason t = (case map_of (lk_byId t) c of
     None \<Rightarrow> t
   | Some entry \<Rightarrow>
       let t1 = t\<lparr>lk_byId := map_del c (lk_byId t)\<rparr>;
           t2 = (if cn_pendingConnect entry then said (ConnectFailed c (case reason of Some r \<Rightarrow> r | None \<Rightarrow> ClosedUnidentified)) t1 else t1);
           t3 = (if known (cn_peerId entry) then let p = the (cn_peerId entry) in
                   said (PeerDown p) (if map_of (lk_byPeer t2) p = Some c then t2\<lparr>lk_byPeer := map_del p (lk_byPeer t2)\<rparr> else t2)
                 else t2)
       in if notifyRemote then said (RemoteClosed c reason) t3 else t3)"

definition handleRemoteClose :: "string \<Rightarrow> link_error option \<Rightarrow> 'p link \<Rightarrow> 'p link" where
  "handleRemoteClose c reason t = closeConnection c False reason t"

definition link_start :: "'p link \<Rightarrow> 'p link" where
  "link_start t = t\<lparr>lk_started := True\<rparr>"

definition link_stop :: "'p link \<Rightarrow> 'p link" where
  "link_stop t = (foldl (\<lambda>t c. closeConnection c True None t) t (map fst (lk_byId t)))\<lparr>lk_started := False\<rparr>"

section \<open>Opening\<close>

definition sendHelloOnce :: "string \<Rightarrow> 'p link \<Rightarrow> 'p link" where
  "sendHelloOnce c t = (case map_of (lk_byId t) c of
     None \<Rightarrow> t
   | Some entry \<Rightarrow> if cn_helloSent entry then t
       else said (HelloSent c) (t\<lparr>lk_byId := map_put c (entry\<lparr>cn_helloSent := True\<rparr>) (lk_byId t)\<rparr>))"

definition new_connection :: "string \<Rightarrow> bool \<Rightarrow> connection" where
  "new_connection remoteDeviceId pending = \<lparr>cn_remoteDeviceId = remoteDeviceId, cn_reassembler = reassembler_new, cn_peerId = None,
     cn_pendingConnect = pending, cn_helloSent = False\<rparr>"

text \<open>\<open>remote\<close>: whether a device advertises under that address and, if so, whether it accepts.\<close>

definition link_connect :: "string \<Rightarrow> bool option \<Rightarrow> string \<Rightarrow> 'p link \<Rightarrow> 'p link" where
  "link_connect host remote c t =
     (if \<not> lk_started t then said (ConnectFailed c NotStarted) t
      else case remote of None \<Rightarrow> said (ConnectFailed c (NoDevice host)) t
      | Some accepts \<Rightarrow>
          if pendingConnectionCount t \<ge> int MAX_PENDING_CONNECTIONS then said (ConnectFailed c TooManyPending) t
          else if \<not> accepts then said (ConnectFailed c (ConnectionRefused host)) t
          else sendHelloOnce c (t\<lparr>lk_byId := map_put c (new_connection host True) (lk_byId t)\<rparr>))"

definition connect_timeout :: "string \<Rightarrow> string \<Rightarrow> 'p link \<Rightarrow> 'p link" where
  "connect_timeout host c t = (case map_of (lk_byId t) c of
     None \<Rightarrow> t
   | Some entry \<Rightarrow> if \<not> known (cn_peerId entry) then closeConnection c True (Some (ConnectTimeout host)) t else t)"

definition acceptConnection :: "string \<Rightarrow> string \<Rightarrow> 'p link \<Rightarrow> bool \<times> 'p link" where
  "acceptConnection c remoteDeviceId t =
     (if \<not> lk_started t \<or> pendingConnectionCount t \<ge> int MAX_PENDING_CONNECTIONS then (False, t)
      else (True, t\<lparr>lk_byId := map_put c (new_connection remoteDeviceId False) (lk_byId t)\<rparr>))"

text \<open>The second half of \<open>handleIdentified\<close>. The entry object is updated whether or not it is still a connection; only its place in
  the table of peers is seen when it is not.\<close>

definition commit_peer :: "string \<Rightarrow> connection \<Rightarrow> string \<Rightarrow> 'p link \<Rightarrow> 'p link" where
  "commit_peer c entry p t =
     (let t1 = (if map_of (lk_byId t) c = None then t
                else t\<lparr>lk_byId := map_put c (entry\<lparr>cn_peerId := Some p, cn_pendingConnect := False\<rparr>) (lk_byId t)\<rparr>);
          t2 = t1\<lparr>lk_byPeer := map_put p c (lk_byPeer t1)\<rparr>;
          t3 = (if map_of (lk_byId t) c \<noteq> None \<and> cn_pendingConnect entry then said (ConnectDone c p) t2 else t2)
      in said (PeerUp p (cn_remoteDeviceId entry)) (sendHelloOnce c t3))"

definition handleIdentified :: "string \<Rightarrow> connection \<Rightarrow> string \<Rightarrow> 'p link \<Rightarrow> 'p link" where
  "handleIdentified c entry p t = (case map_of (lk_byPeer t) p of
     None \<Rightarrow> if length (lk_byPeer t) \<ge> lk_maxConnections t then closeConnection c True (Some LimitReached) t else commit_peer c entry p t
   | Some old \<Rightarrow> commit_peer c entry p (closeConnection old True None t))"

section \<open>Receiving\<close>

text \<open>The packet reaches the handlers with the peer id that the entry object has by then.\<close>

definition receiveFragment :: "(byte list \<Rightarrow> 'p option) \<Rightarrow> ('p \<Rightarrow> string) \<Rightarrow> fragment \<Rightarrow> 'p link \<Rightarrow> 'p link" where
  "receiveFragment decode source f t = (let c = fg_connectionId f in case map_of (lk_byId t) c of
     None \<Rightarrow> t
   | Some entry \<Rightarrow>
       let (whole, r) = addFragment f (cn_reassembler entry);
           entry' = entry\<lparr>cn_reassembler := r\<rparr>;
           t1 = t\<lparr>lk_byId := map_put c entry' (lk_byId t)\<rparr>
       in case Option.bind whole decode of
            None \<Rightarrow> t1
          | Some packet \<Rightarrow>
              if known (cn_peerId entry) then said (PacketIn packet (cn_peerId entry)) t1
              else let p = source packet; refused = map_of (lk_byPeer t1) p = None \<and> length (lk_byPeer t1) \<ge> lk_maxConnections t1
                in said (PacketIn packet (if refused then cn_peerId entry else Some p)) (handleIdentified c entry' p t1))"

definition receiveBroadcast :: "('p \<Rightarrow> string) \<Rightarrow> time \<Rightarrow> 'p \<Rightarrow> 'p link \<Rightarrow> 'p link" where
  "receiveBroadcast source now packet t =
     (let t1 = (if now - lk_windowStart t \<ge> BROADCAST_WINDOW_MS then t\<lparr>lk_windowStart := now, lk_windowCount := 0\<rparr> else t);
          t2 = t1\<lparr>lk_windowCount := lk_windowCount t1 + 1\<rparr>
      in if lk_windowCount t2 > MAX_BROADCAST_PACKETS_PER_WINDOW then t2 else said (PacketIn packet (Some (source packet))) t2)"

section \<open>Runs\<close>

text \<open>What can happen to a transport; the ids of new connections are fresh.\<close>

inductive link_step :: "(byte list \<Rightarrow> 'p option) \<Rightarrow> ('p \<Rightarrow> string) \<Rightarrow> 'p link \<Rightarrow> 'p link \<Rightarrow> bool" for decode source where
  start: "link_step decode source t (link_start t)"
| stop: "link_step decode source t (link_stop t)"
| connect: "map_of (lk_byId t) c = None \<Longrightarrow> link_step decode source t (link_connect host remote c t)"
| timeout: "link_step decode source t (connect_timeout host c t)"
| accept: "map_of (lk_byId t) c = None \<Longrightarrow> link_step decode source t (snd (acceptConnection c device t))"
| fragment: "link_step decode source t (receiveFragment decode source f t)"
| closed: "link_step decode source t (handleRemoteClose c reason t)"
| broadcast: "link_step decode source t (receiveBroadcast source now packet t)"

inductive link_reaches :: "(byte list \<Rightarrow> 'p option) \<Rightarrow> ('p \<Rightarrow> string) \<Rightarrow> 'p link \<Rightarrow> 'p link \<Rightarrow> bool" for decode source where
  refl: "link_reaches decode source t t"
| step: "link_reaches decode source t t' \<Longrightarrow> link_step decode source t' t'' \<Longrightarrow> link_reaches decode source t t''"

section \<open>The invariant\<close>

text \<open>The peers that are connected according to the events, and that no event contradicts the ones before it.\<close>

fun up_step :: "string set \<Rightarrow> 'p link_event \<Rightarrow> string set" where
  "up_step S (PeerUp p d) = insert p S"
| "up_step S (PeerDown p) = S - {p}"
| "up_step S e = S"

text \<open>No peer is reported as disconnected unless it is connected, nor as connected twice. A peer whose name is the empty string is exempt from the second
  half: the code reports it as connected with each of its packets (\<open>unnamed_peer_phantom\<close> below).\<close>

fun balanced :: "string set \<Rightarrow> 'p link_event list \<Rightarrow> bool" where
  "balanced S [] = True"
| "balanced S (e # es) = ((case e of PeerUp p d \<Rightarrow> p \<notin> S \<or> p = [] | PeerDown p \<Rightarrow> p \<in> S | _ \<Rightarrow> True) \<and> balanced (up_step S e) es)"

lemma balanced_append: "balanced S (xs @ ys) \<longleftrightarrow> balanced S xs \<and> balanced (foldl up_step S xs) ys"
  by (induction xs arbitrary: S) auto

text \<open>The reports about one peer, and that they take turns.\<close>

definition turns_of :: "string \<Rightarrow> 'p link_event list \<Rightarrow> bool list" where
  "turns_of p es = concat (map (\<lambda>e. case e of PeerUp q d \<Rightarrow> if q = p then [True] else [] | PeerDown q \<Rightarrow> if q = p then [False] else [] | _ \<Rightarrow> []) es)"

fun alternating :: "bool \<Rightarrow> bool list \<Rightarrow> bool" where
  "alternating up [] = True"
| "alternating up (b # bs) \<longleftrightarrow> b = (\<not> up) \<and> alternating b bs"

lemma balanced_alternates: "balanced S es \<Longrightarrow> p \<noteq> [] \<Longrightarrow> alternating (p \<in> S) (turns_of p es)"
proof (induction es arbitrary: S)
  case (Cons e es)
  then have "alternating (p \<in> up_step S e) (turns_of p es)" by simp
  then show ?case using Cons.prems by (cases e) (auto simp: turns_of_def)
qed (simp add: turns_of_def)

definition link_ok :: "'p link \<Rightarrow> bool" where
  "link_ok t \<longleftrightarrow> map_wf (lk_byId t) \<and> map_wf (lk_byPeer t) \<and> length (lk_byPeer t) \<le> lk_maxConnections t \<and>
     length (lk_byId t) \<le> length (lk_byPeer t) + MAX_PENDING_CONNECTIONS \<and>
     (\<forall>p c. p \<noteq> [] \<longrightarrow> map_of (lk_byPeer t) p = Some c \<longrightarrow> (\<exists>e. map_of (lk_byId t) c = Some e \<and> cn_peerId e = Some p)) \<and>
     (\<forall>c e p. map_of (lk_byId t) c = Some e \<longrightarrow> cn_peerId e = Some p \<longrightarrow> map_of (lk_byPeer t) p = Some c \<and> \<not> cn_pendingConnect e) \<and>
     balanced {} (lk_events t) \<and> foldl up_step {} (lk_events t) = dom (map_of (lk_byPeer t))"

lemma link_okD:
  assumes "link_ok t"
  shows "map_wf (lk_byId t)" "map_wf (lk_byPeer t)" "length (lk_byPeer t) \<le> lk_maxConnections t"
    "length (lk_byId t) \<le> length (lk_byPeer t) + MAX_PENDING_CONNECTIONS"
    "p \<noteq> [] \<Longrightarrow> map_of (lk_byPeer t) p = Some c \<Longrightarrow> \<exists>e. map_of (lk_byId t) c = Some e \<and> cn_peerId e = Some p"
    "map_of (lk_byId t) c = Some e \<Longrightarrow> cn_peerId e = Some p \<Longrightarrow> map_of (lk_byPeer t) p = Some c \<and> \<not> cn_pendingConnect e"
    "balanced {} (lk_events t)" "foldl up_step {} (lk_events t) = dom (map_of (lk_byPeer t))"
  using assms unfolding link_ok_def by blast+

lemma knownE: "known p \<Longrightarrow> (\<And>x. p = Some x \<Longrightarrow> x \<noteq> [] \<Longrightarrow> thesis) \<Longrightarrow> thesis"
  by (cases p rule: known.cases) auto

text \<open>Quiet changes: the tables and the connected peers stay as they are.\<close>

lemma link_ok_quiet:
  assumes "link_ok t" "lk_byId t' = lk_byId t" "lk_byPeer t' = lk_byPeer t" "lk_maxConnections t' = lk_maxConnections t"
    "\<exists>xs. lk_events t' = lk_events t @ xs \<and> (\<forall>S. balanced S xs \<and> foldl up_step S xs = S)"
  shows "link_ok t'"
  using assms unfolding link_ok_def by (auto simp: balanced_append)

lemma closed_unknown: "map_of (lk_byId t) c = None \<Longrightarrow> closeConnection c n r t = t"
  by (simp add: closeConnection_def)

lemma closed_tables:
  assumes ok: "link_ok t" and e: "map_of (lk_byId t) c = Some e"
  shows "lk_byId (closeConnection c n r t) = map_del c (lk_byId t)"
    "lk_byPeer (closeConnection c n r t) = (if known (cn_peerId e) then map_del (the (cn_peerId e)) (lk_byPeer t) else lk_byPeer t)"
    "lk_maxConnections (closeConnection c n r t) = lk_maxConnections t"
    "\<exists>xs. lk_events (closeConnection c n r t) = lk_events t @ xs \<and>
       (\<forall>S. (known (cn_peerId e) \<longrightarrow> the (cn_peerId e) \<in> S) \<longrightarrow>
          balanced S xs \<and> foldl up_step S xs = (if known (cn_peerId e) then S - {the (cn_peerId e)} else S))"
proof -
  have peer: "known (cn_peerId e) \<Longrightarrow> map_of (lk_byPeer t) (the (cn_peerId e)) = Some c"
    using link_okD(6)[OF ok e] by (auto elim: knownE)
  show "lk_byId (closeConnection c n r t) = map_del c (lk_byId t)"
    "lk_byPeer (closeConnection c n r t) = (if known (cn_peerId e) then map_del (the (cn_peerId e)) (lk_byPeer t) else lk_byPeer t)"
    "lk_maxConnections (closeConnection c n r t) = lk_maxConnections t"
    using e peer by (simp_all add: closeConnection_def Let_def)
  let ?xs = "(if cn_pendingConnect e then [ConnectFailed c (case r of Some r \<Rightarrow> r | None \<Rightarrow> ClosedUnidentified)] else []) @
    (if known (cn_peerId e) then [PeerDown (the (cn_peerId e))] else []) @ (if n then [RemoteClosed c r] else [])"
  have "lk_events (closeConnection c n r t) = lk_events t @ ?xs" using e by (simp add: closeConnection_def Let_def)
  then show "\<exists>xs. lk_events (closeConnection c n r t) = lk_events t @ xs \<and>
       (\<forall>S. (known (cn_peerId e) \<longrightarrow> the (cn_peerId e) \<in> S) \<longrightarrow>
          balanced S xs \<and> foldl up_step S xs = (if known (cn_peerId e) then S - {the (cn_peerId e)} else S))"
    by (intro exI[of _ ?xs]) auto
qed

lemma close_ok: "link_ok t \<Longrightarrow> link_ok (closeConnection c n r t)"
proof (cases "map_of (lk_byId t) c")
  case (Some e)
  assume ok: "link_ok t"
  let ?t = "closeConnection c n r t" and ?p = "the (cn_peerId e)"
  note d = link_okD[OF ok] and tb = closed_tables[OF ok Some, of n r]
  have len: "Suc (length (lk_byId ?t)) = length (lk_byId t)" unfolding tb(1) using map_del_length[OF d(1)] Some by simp
  have peer: "known (cn_peerId e) \<Longrightarrow> cn_peerId e = Some ?p \<and> ?p \<noteq> [] \<and> map_of (lk_byPeer t) ?p = Some c"
    using d(6)[OF Some] by (auto elim: knownE)
  have plen: "known (cn_peerId e) \<Longrightarrow> Suc (length (lk_byPeer ?t)) = length (lk_byPeer t)"
    unfolding tb(2) using map_del_length[OF d(2), of ?p] peer by simp
  obtain xs where xs: "lk_events ?t = lk_events t @ xs" "\<And>S. (known (cn_peerId e) \<longrightarrow> ?p \<in> S) \<Longrightarrow>
      balanced S xs \<and> foldl up_step S xs = (if known (cn_peerId e) then S - {?p} else S)" using tb(4) by blast
  have inS: "known (cn_peerId e) \<longrightarrow> ?p \<in> dom (map_of (lk_byPeer t))" using peer by auto
  have tables: "map_of (lk_byId ?t) c' = (if c' = c then None else map_of (lk_byId t) c')"
    "map_of (lk_byPeer ?t) p' = (if known (cn_peerId e) \<and> p' = ?p then None else map_of (lk_byPeer t) p')" for c' p'
    unfolding tb(1,2) by simp_all
  show ?thesis unfolding link_ok_def
  proof (intro conjI)
    show "map_wf (lk_byId ?t)" "map_wf (lk_byPeer ?t)" unfolding tb(1,2) using d(1,2) by simp_all
    show "length (lk_byPeer ?t) \<le> lk_maxConnections ?t" unfolding tb(3) using plen d(3) tb(2) by (cases "known (cn_peerId e)") auto
    show "length (lk_byId ?t) \<le> length (lk_byPeer ?t) + MAX_PENDING_CONNECTIONS" using len plen d(4) tb(2) by (cases "known (cn_peerId e)") auto
    show "\<forall>p c'. p \<noteq> [] \<longrightarrow> map_of (lk_byPeer ?t) p = Some c' \<longrightarrow> (\<exists>e. map_of (lk_byId ?t) c' = Some e \<and> cn_peerId e = Some p)"
    proof (intro allI impI)
      fix p c' assume p: "p \<noteq> []" "map_of (lk_byPeer ?t) p = Some c'"
      then have "map_of (lk_byPeer t) p = Some c'" "\<not> (known (cn_peerId e) \<and> p = ?p)" unfolding tables by (auto split: if_splits)
      moreover from d(5)[OF p(1) this(1)] obtain e' where e': "map_of (lk_byId t) c' = Some e'" "cn_peerId e' = Some p" by blast
      moreover have "c' \<noteq> c"
      proof
        assume "c' = c"
        then have "cn_peerId e = Some p" using e' Some by simp
        then show False using \<open>\<not> (known (cn_peerId e) \<and> p = ?p)\<close> p(1) by (cases p) auto
      qed
      ultimately show "\<exists>e. map_of (lk_byId ?t) c' = Some e \<and> cn_peerId e = Some p" unfolding tables by simp
    qed
    show "\<forall>c' e' p. map_of (lk_byId ?t) c' = Some e' \<longrightarrow> cn_peerId e' = Some p \<longrightarrow> map_of (lk_byPeer ?t) p = Some c' \<and> \<not> cn_pendingConnect e'"
    proof (intro allI impI)
      fix c' e' p assume e': "map_of (lk_byId ?t) c' = Some e'" "cn_peerId e' = Some p"
      then have c': "c' \<noteq> c" "map_of (lk_byId t) c' = Some e'" unfolding tables by (auto split: if_splits)
      from d(6)[OF c'(2) e'(2)] have "map_of (lk_byPeer t) p = Some c'" "\<not> cn_pendingConnect e'" by auto
      moreover have "\<not> (known (cn_peerId e) \<and> p = ?p)" using peer c'(1) calculation(1) by auto
      ultimately show "map_of (lk_byPeer ?t) p = Some c' \<and> \<not> cn_pendingConnect e'" unfolding tables by simp
    qed
    show "balanced {} (lk_events ?t)" unfolding xs(1) balanced_append using xs(2)[OF inS] d(7,8) by simp
    show "foldl up_step {} (lk_events ?t) = dom (map_of (lk_byPeer ?t))" unfolding xs(1) using xs(2)[OF inS] d(8)
      by (auto simp: tables dom_def split: if_splits)
  qed
qed (simp add: closed_unknown)

text \<open>Replacing the entry of a connection by one with the same peer, and saying hello.\<close>

lemma entry_update_ok:
  assumes ok: "link_ok t" and e: "map_of (lk_byId t) c = Some e" and e': "cn_peerId e' = cn_peerId e" "cn_pendingConnect e' = cn_pendingConnect e"
  shows "link_ok (t\<lparr>lk_byId := map_put c e' (lk_byId t)\<rparr>)"
proof -
  note d = link_okD[OF ok]
  have len: "length (map_put c e' (lk_byId t)) = length (lk_byId t)" using e by (simp add: map_put_length_old)
  have p: "\<exists>e. (if c' = c then Some e' else map_of (lk_byId t) c') = Some e \<and> cn_peerId e = Some p"
    if "p \<noteq> []" "map_of (lk_byPeer t) p = Some c'" for p c'
    using d(5)[OF that] e e'(1) by (cases "c' = c") auto
  have q: "map_of (lk_byPeer t) p = Some c' \<and> \<not> cn_pendingConnect x"
    if "(if c' = c then Some e' else map_of (lk_byId t) c') = Some x" "cn_peerId x = Some p" for c' x p
    using that d(6)[OF e, of p] d(6)[of c' x p] e' by (cases "c' = c") auto
  show ?thesis unfolding link_ok_def using d(1-4,7,8) len p q by simp
qed

lemma link_ok_events:
  assumes "link_ok t" "balanced {} es" "foldl up_step {} es = foldl up_step {} (lk_events t)"
  shows "link_ok (t\<lparr>lk_events := es\<rparr>)"
  unfolding link_ok_def using link_okD[OF assms(1)] assms(2,3) by (intro conjI allI impI) simp_all

lemma said_ok:
  assumes "link_ok t" "\<And>p d. e \<noteq> PeerUp p d" "\<And>p. e \<noteq> PeerDown p"
  shows "link_ok (said e t)"
proof (rule link_ok_events[OF assms(1)])
  show "balanced {} (lk_events t @ [e])" using assms(2,3) link_okD(7)[OF assms(1)] unfolding balanced_append by (cases e) auto
  show "foldl up_step {} (lk_events t @ [e]) = foldl up_step {} (lk_events t)" using assms(2,3) by (cases e) auto
qed

lemma hello_ok:
  assumes "link_ok t"
  shows "link_ok (sendHelloOnce c t)"
proof (cases "map_of (lk_byId t) c")
  case (Some e)
  have "link_ok (said (HelloSent c) (t\<lparr>lk_byId := map_put c (e\<lparr>cn_helloSent := True\<rparr>) (lk_byId t)\<rparr>))"
    by (rule said_ok) (rule entry_update_ok[OF assms Some], simp_all)
  then show ?thesis using assms by (simp add: sendHelloOnce_def Some)
qed (simp add: sendHelloOnce_def assms)

text \<open>A new connection, when there is room for one more handshake.\<close>

lemma open_ok:
  assumes ok: "link_ok t" and new: "map_of (lk_byId t) c = None" and room: "pendingConnectionCount t < int MAX_PENDING_CONNECTIONS"
  shows "link_ok (t\<lparr>lk_byId := map_put c (new_connection device pending) (lk_byId t)\<rparr>)"
proof -
  note d = link_okD[OF ok]
  have len: "length (map_put c (new_connection device pending) (lk_byId t)) = Suc (length (lk_byId t))" using new by (simp add: map_put_length_new)
  have "length (lk_byId t) < length (lk_byPeer t) + MAX_PENDING_CONNECTIONS" using room by (simp add: pendingConnectionCount_def)
  moreover have "\<exists>e. (if c' = c then Some (new_connection device pending) else map_of (lk_byId t) c') = Some e \<and> cn_peerId e = Some p"
    if "p \<noteq> []" "map_of (lk_byPeer t) p = Some c'" for p c'
    using d(5)[OF that] new by (cases "c' = c") auto
  moreover have "map_of (lk_byPeer t) p = Some c' \<and> \<not> cn_pendingConnect x"
    if "(if c' = c then Some (new_connection device pending) else map_of (lk_byId t) c') = Some x" "cn_peerId x = Some p" for c' x p
    using that d(6)[of c' x p] by (cases "c' = c") (auto simp: new_connection_def)
  ultimately show ?thesis unfolding link_ok_def using d(1-3,7,8) len by simp
qed

lemma connect_ok: "link_ok t \<Longrightarrow> map_of (lk_byId t) c = None \<Longrightarrow> link_ok (link_connect host remote c t)"
  unfolding link_connect_def by (auto split: option.splits intro!: said_ok hello_ok open_ok)

lemma accept_ok: "link_ok t \<Longrightarrow> map_of (lk_byId t) c = None \<Longrightarrow> link_ok (snd (acceptConnection c device t))"
  unfolding acceptConnection_def by (auto intro: open_ok)

text \<open>Identifying a connection whose peer has no other: either there is room, or the peer was known and its connection is closed.\<close>

lemma commit_ok:
  assumes ok: "link_ok t" and fresh: "p \<noteq> [] \<Longrightarrow> map_of (lk_byPeer t) p = None"
    and room: "map_of (lk_byPeer t) p = None \<Longrightarrow> length (lk_byPeer t) < lk_maxConnections t"
    and e: "\<And>x. map_of (lk_byId t) c = Some x \<Longrightarrow> x = entry" "\<not> known (cn_peerId entry)"
    and gone: "map_of (lk_byId t) c = None \<Longrightarrow> p = []"
    and nobody: "\<And>c' x. map_of (lk_byId t) c' = Some x \<Longrightarrow> cn_peerId x = Some p \<Longrightarrow> c' = c"
  shows "link_ok (commit_peer c entry p t)"
proof -
  note d = link_okD[OF ok]
  define t1 where "t1 = (if map_of (lk_byId t) c = None then t
    else t\<lparr>lk_byId := map_put c (entry\<lparr>cn_peerId := Some p, cn_pendingConnect := False\<rparr>) (lk_byId t)\<rparr>)"
  define t2 where "t2 = t1\<lparr>lk_byPeer := map_put p c (lk_byPeer t1)\<rparr>"
  define t3 where "t3 = said (PeerUp p (cn_remoteDeviceId entry)) t2"
  have by_id: "map_of (lk_byId t2) c' = (if c' = c \<and> map_of (lk_byId t) c \<noteq> None then Some (entry\<lparr>cn_peerId := Some p, cn_pendingConnect := False\<rparr>) else map_of (lk_byId t) c')" for c'
    by (auto simp: t2_def t1_def)
  have by_peer: "map_of (lk_byPeer t2) p' = (if p' = p then Some c else map_of (lk_byPeer t) p')" for p'
    by (auto simp: t2_def t1_def)
  have len: "length (lk_byId t2) = length (lk_byId t)" by (auto simp: t2_def t1_def map_put_length_old)
  have plen: "length (lk_byPeer t) \<le> length (lk_byPeer t2)" "length (lk_byPeer t2) \<le> lk_maxConnections t"
    using room d(3) by (cases "map_of (lk_byPeer t) p"; auto simp: t2_def t1_def map_put_length_old map_put_length_new)+
  have others: "map_of (lk_byPeer t) p' \<noteq> Some c" if "p' \<noteq> []" for p'
  proof
    assume "map_of (lk_byPeer t) p' = Some c"
    from d(5)[OF that this] obtain x where "map_of (lk_byId t) c = Some x" "cn_peerId x = Some p'" by blast
    then have "cn_peerId entry = Some p'" using e(1) by blast
    then show False using e(2) that by (cases p') auto
  qed
  have "link_ok t3" unfolding link_ok_def
  proof (intro conjI)
    show "map_wf (lk_byId t3)" "map_wf (lk_byPeer t3)" using d(1,2) by (auto simp: t3_def t2_def t1_def)
    show "length (lk_byPeer t3) \<le> lk_maxConnections t3" using plen(2) by (auto simp: t3_def t2_def t1_def)
    show "length (lk_byId t3) \<le> length (lk_byPeer t3) + MAX_PENDING_CONNECTIONS" using len plen(1) d(4) by (simp add: t3_def)
    show "\<forall>p' c'. p' \<noteq> [] \<longrightarrow> map_of (lk_byPeer t3) p' = Some c' \<longrightarrow> (\<exists>e. map_of (lk_byId t3) c' = Some e \<and> cn_peerId e = Some p')"
    proof (intro allI impI)
      fix p' c' assume p': "p' \<noteq> []" "map_of (lk_byPeer t3) p' = Some c'"
      show "\<exists>e. map_of (lk_byId t3) c' = Some e \<and> cn_peerId e = Some p'"
      proof (cases "p' = p")
        case True
        then have "c' = c" "map_of (lk_byId t) c \<noteq> None" using p' gone by (auto simp: t3_def by_peer)
        then show ?thesis using True by (simp add: t3_def by_id)
      next
        case False
        then have old: "map_of (lk_byPeer t) p' = Some c'" using p' by (simp add: t3_def by_peer)
        then have "c' \<noteq> c" using others[OF p'(1)] by auto
        then show ?thesis using d(5)[OF p'(1) old] by (simp add: t3_def by_id)
      qed
    qed
    show "\<forall>c' x p'. map_of (lk_byId t3) c' = Some x \<longrightarrow> cn_peerId x = Some p' \<longrightarrow> map_of (lk_byPeer t3) p' = Some c' \<and> \<not> cn_pendingConnect x"
    proof (intro allI impI)
      fix c' x p' assume x: "map_of (lk_byId t3) c' = Some x" "cn_peerId x = Some p'"
      show "map_of (lk_byPeer t3) p' = Some c' \<and> \<not> cn_pendingConnect x"
      proof (cases "c' = c")
        case True
        then have "x = entry\<lparr>cn_peerId := Some p, cn_pendingConnect := False\<rparr>" using x(1) by (auto simp: t3_def by_id split: if_splits)
        then show ?thesis using x(2) True by (auto simp: t3_def by_peer)
      next
        case False
        then have old: "map_of (lk_byId t) c' = Some x" using x(1) by (simp add: t3_def by_id)
        then have "p' \<noteq> p" using nobody[OF old] x(2) False by auto
        then show ?thesis using d(6)[OF old x(2)] by (simp add: t3_def by_peer)
      qed
    qed
    have ev: "lk_events t3 = lk_events t @ [PeerUp p (cn_remoteDeviceId entry)]" by (simp add: t3_def t2_def t1_def)
    show "balanced {} (lk_events t3)" unfolding ev balanced_append using d(7,8) fresh by (auto simp: domIff)
    show "foldl up_step {} (lk_events t3) = dom (map_of (lk_byPeer t3))" unfolding ev using d(8) by (auto simp: t3_def by_peer split: if_splits)
  qed
  then have ok3: "link_ok (sendHelloOnce c t3)" by (rule hello_ok)
  define qs :: "'a link_event list" where "qs = (if map_of (lk_byId t) c \<noteq> None \<and> cn_pendingConnect entry then [ConnectDone c p] else []) @
    (if map_of (lk_byId t) c \<noteq> None \<and> \<not> cn_helloSent entry then [HelloSent c] else [])"
  have quiet: "balanced S qs \<and> foldl up_step S qs = S" for S :: "string set" by (auto simp: qs_def)
  have final: "commit_peer c entry p t = (sendHelloOnce c t3)\<lparr>lk_events := lk_events t @ qs @ [PeerUp p (cn_remoteDeviceId entry)]\<rparr>"
    by (cases "map_of (lk_byId t) c") (simp_all add: commit_peer_def sendHelloOnce_def t3_def t2_def t1_def qs_def Let_def)
  have ev: "foldl up_step {} (lk_events (sendHelloOnce c t3)) = insert p (foldl up_step {} (lk_events t))"
    by (auto simp: sendHelloOnce_def t3_def t2_def t1_def split: option.splits)
  show ?thesis unfolding final
  proof (rule link_ok_events[OF ok3])
    show "balanced {} (lk_events t @ qs @ [PeerUp p (cn_remoteDeviceId entry)])"
      unfolding balanced_append using quiet d(7,8) fresh by (auto simp: domIff)
  qed (use quiet ev in simp)
qed


lemma closed_lookup: "map_of (lk_byId (closeConnection c' n r t)) c = Some x \<Longrightarrow> map_of (lk_byId t) c = Some x \<and> c \<noteq> c'"
  unfolding closeConnection_def by (cases "map_of (lk_byId t) c'") (auto simp: Let_def split: if_splits)

lemma identified_ok:
  assumes ok: "link_ok t" and e: "map_of (lk_byId t) c = Some entry" and anon: "\<not> known (cn_peerId entry)"
  shows "link_ok (handleIdentified c entry p t)"
proof (cases "map_of (lk_byPeer t) p")
  case None
  have "link_ok (commit_peer c entry p t)" if "length (lk_byPeer t) < lk_maxConnections t"
  proof (rule commit_ok[OF ok])
    fix c' x assume "map_of (lk_byId t) c' = Some x" "cn_peerId x = Some p"
    then show "c' = c" using link_okD(6)[OF ok] None by fastforce
  qed (use None that e anon in auto)
  then show ?thesis using close_ok[OF ok] by (simp add: handleIdentified_def None)
next
  case (Some old)
  let ?t = "closeConnection old True None t"
  have deleted: "lk_byPeer ?t = map_del p (lk_byPeer t)" if "p \<noteq> []"
  proof -
    from link_okD(5)[OF ok that Some] obtain x where x: "map_of (lk_byId t) old = Some x" "cn_peerId x = Some p" by blast
    then show ?thesis using closed_tables(2)[OF ok x(1)] that by (cases p) simp_all
  qed
  have "link_ok (commit_peer c entry p ?t)"
  proof (rule commit_ok[OF close_ok[OF ok]])
    show "map_of (lk_byPeer ?t) p = None" if "p \<noteq> []" using deleted[OF that] by simp
    show "length (lk_byPeer ?t) < lk_maxConnections ?t" if "map_of (lk_byPeer ?t) p = None"
    proof -
      have "map_of (lk_byId t) old \<noteq> None" using that Some closed_unknown[of t old True None] by (metis option.distinct(1))
      then obtain x where x: "map_of (lk_byId t) old = Some x" by blast
      then have eq: "lk_byPeer ?t = map_del p (lk_byPeer t)"
        using that Some deleted closed_tables(2)[OF ok x] by (cases "p = []") (auto split: if_splits elim: knownE)
      have "length (map_del p (lk_byPeer t)) < length (lk_byPeer t)" using Some using map_del_length[OF link_okD(2)[OF ok], of p] by simp
      then show ?thesis using link_okD(3)[OF ok] closed_tables(3)[OF ok x] eq by simp
    qed
    show "x = entry" if "map_of (lk_byId ?t) c = Some x" for x using closed_lookup[OF that] e by simp
    show "p = []" if "map_of (lk_byId ?t) c = None"
    proof (rule ccontr)
      assume p: "p \<noteq> []"
      from link_okD(5)[OF ok p Some] obtain x where x: "map_of (lk_byId t) old = Some x" "cn_peerId x = Some p" by blast
      have "old = c" using that e closed_tables(1)[OF ok x(1)] by (auto split: if_splits)
      then show False using x e anon p by (cases p) auto
    qed
    show "c' = c" if "map_of (lk_byId ?t) c' = Some x" "cn_peerId x = Some p" for c' x
      using closed_lookup[OF that(1)] link_okD(6)[OF ok, of c' x p] that(2) Some by auto
  qed (rule anon)
  then show ?thesis by (simp add: handleIdentified_def Some)
qed

lemma fragment_ok:
  assumes ok: "link_ok t"
  shows "link_ok (receiveFragment decode source f t)"
proof (cases "map_of (lk_byId t) (fg_connectionId f)")
  case (Some entry)
  obtain whole r where w: "addFragment f (cn_reassembler entry) = (whole, r)" by fastforce
  let ?e = "entry\<lparr>cn_reassembler := r\<rparr>"
  let ?t = "t\<lparr>lk_byId := map_put (fg_connectionId f) ?e (lk_byId t)\<rparr>"
  have ok1: "link_ok ?t" by (rule entry_update_ok[OF ok Some]) simp_all
  have "map_of (lk_byId ?t) (fg_connectionId f) = Some ?e" by simp
  from identified_ok[OF ok1 this] have "link_ok (handleIdentified (fg_connectionId f) ?e p ?t)" if "\<not> known (cn_peerId entry)" for p
    using that by simp
  moreover have "link_ok (said (PacketIn packet q) t')" if "link_ok t'" for packet q and t' :: "'a link"
    by (rule said_ok[OF that]) simp_all
  moreover note this[OF ok1]
  ultimately show ?thesis using ok1
    by (cases "Option.bind whole decode") (auto simp: receiveFragment_def Some w Let_def)
qed (simp add: receiveFragment_def ok)

lemma stop_ok: "link_ok t \<Longrightarrow> link_ok (link_stop t)"
proof -
  assume "link_ok t"
  then have "link_ok (foldl (\<lambda>t c. closeConnection c True None t) t cs)" for cs
    by (induction cs arbitrary: t) (auto intro: close_ok)
  from this[of "map fst (lk_byId t)"] show ?thesis unfolding link_stop_def by (rule link_ok_quiet) (simp_all add: exI[of _ "[]"])
qed


lemma timeout_ok: "link_ok t \<Longrightarrow> link_ok (connect_timeout host c t)"
  unfolding connect_timeout_def by (simp add: close_ok split: option.splits)

lemma broadcast_ok:
  assumes "link_ok t"
  shows "link_ok (receiveBroadcast source now packet t)"
proof -
  have quiet: "link_ok (t\<lparr>lk_windowStart := a, lk_windowCount := b\<rparr>)" for a b
    by (rule link_ok_quiet[OF assms]) (simp_all add: exI[of _ "[]"])
  have quiet': "link_ok (t\<lparr>lk_windowCount := b\<rparr>)" for b
    by (rule link_ok_quiet[OF assms]) (simp_all add: exI[of _ "[]"])
  show ?thesis unfolding receiveBroadcast_def Let_def
    using quiet[where a = now and b = 1] quiet' said_ok[OF quiet[where a = now and b = 1], of "PacketIn packet (Some (source packet))"]
      said_ok[OF quiet', of "PacketIn packet (Some (source packet))"] by simp
qed

lemma step_ok: "link_step decode source t t' \<Longrightarrow> link_ok t \<Longrightarrow> link_ok t'"
proof (induction rule: link_step.induct)
  case (start t)
  then show ?case unfolding link_start_def by (rule link_ok_quiet) (simp_all add: exI[of _ "[]"])
qed (simp_all add: stop_ok connect_ok timeout_ok accept_ok fragment_ok handleRemoteClose_def close_ok broadcast_ok)

lemma new_ok: "link_ok (link_new n)"
  by (simp add: link_ok_def link_new_def)

lemma reached_ok: "link_reaches decode source t t' \<Longrightarrow> link_ok t \<Longrightarrow> link_ok t'"
  by (induction rule: link_reaches.induct) (auto intro: step_ok)

lemma step_limit: "link_step decode source t t' \<Longrightarrow> lk_maxConnections t' = lk_maxConnections t"
proof -
  have close: "lk_maxConnections (closeConnection c n r t) = lk_maxConnections t" for c n r and t :: "'a link"
    by (simp add: closeConnection_def Let_def split: option.splits)
  have many: "lk_maxConnections (foldl (\<lambda>t c. closeConnection c True None t) t cs) = lk_maxConnections t" for cs and t :: "'a link"
    by (induction cs arbitrary: t) (simp_all add: close)
  have hello: "lk_maxConnections (sendHelloOnce c t) = lk_maxConnections t" for c and t :: "'a link"
    by (simp add: sendHelloOnce_def split: option.splits)
  have identified: "lk_maxConnections (handleIdentified c entry p t) = lk_maxConnections t" for c entry p and t :: "'a link"
    by (simp add: handleIdentified_def commit_peer_def close hello Let_def split: option.splits)
  show "link_step decode source t t' \<Longrightarrow> lk_maxConnections t' = lk_maxConnections t"
    by (induction rule: link_step.induct)
      (simp_all add: link_start_def link_stop_def many link_connect_def hello connect_timeout_def close acceptConnection_def
        receiveFragment_def identified handleRemoteClose_def receiveBroadcast_def Let_def split: option.split prod.split)
qed

lemma reached_limit: "link_reaches decode source t t' \<Longrightarrow> lk_maxConnections t' = lk_maxConnections t"
  by (induction rule: link_reaches.induct) (auto dest: step_limit)


section \<open>Properties\<close>

text \<open>However connections are opened, accepted, identified, refused and closed, a radio transport never has more connected peers than
  its limit, and never more connections in all than that limit and the bound on handshakes in progress.\<close>

theorem link_connections_bounded:
  assumes "link_reaches decode source (link_new limit) t"
  shows "length (lk_byPeer t) \<le> limit \<and> length (lk_byId t) \<le> limit + MAX_PENDING_CONNECTIONS"
  using link_okD(3,4)[OF reached_ok[OF assms new_ok]] reached_limit[OF assms] by (simp add: link_new_def)

text \<open>C35: The peers a radio transport has announced as connected and not yet as disconnected are exactly the peers of its table, and no peer is announced as
  disconnected unless it is connected. The announcements of each peer with a name take turns, so that none is announced as connected twice, and each such peer of the table has one connection
  that is still open, is identified as that peer, and is the only one that is. A peer that names itself with the empty string is exempt from the last two: the code announces it as connected
  again with its next packet and keeps it in the table without a connection, as \<open>unnamed_peer_phantom\<close> shows.\<close>

theorem link_peers_match_events:
  assumes "link_reaches decode source (link_new limit) t"
  shows "balanced {} (lk_events t) \<and> foldl up_step {} (lk_events t) = dom (map_of (lk_byPeer t)) \<and>
    (\<forall>p. p \<noteq> [] \<longrightarrow> alternating False (turns_of p (lk_events t))) \<and>
    (\<forall>p c. p \<noteq> [] \<longrightarrow> map_of (lk_byPeer t) p = Some c \<longrightarrow>
      (\<exists>e. map_of (lk_byId t) c = Some e \<and> cn_peerId e = Some p) \<and>
      (\<forall>c' e. map_of (lk_byId t) c' = Some e \<longrightarrow> cn_peerId e = Some p \<longrightarrow> c' = c))"
proof -
  have ok: "link_ok t" by (rule reached_ok[OF assms new_ok])
  have "alternating False (turns_of p (lk_events t))" if "p \<noteq> []" for p using balanced_alternates[OF link_okD(7)[OF ok] that] by simp
  then show ?thesis using link_okD(7,8)[OF ok] link_okD(5)[OF ok] link_okD(6)[OF ok] by fastforce
qed

text \<open>A run of a transport with one free place. Packets are lists of bytes as they are; their source is a letter for each byte.\<close>

definition sample_fragment :: "string \<Rightarrow> byte list \<Rightarrow> fragment" where
  "sample_fragment c bytes = \<lparr>fg_connectionId = c, fg_msgId = ''m'', fg_index = Num 0, fg_total = Num 1, fg_bytes = bytes\<rparr>"

definition sample_source :: "byte list \<Rightarrow> string" where
  "sample_source bytes = map (\<lambda>b. if b = 1 then CHR ''a'' else CHR ''b'') bytes"

definition sample_accepted :: "string list \<Rightarrow> byte list link" where
  "sample_accepted cs = foldl (\<lambda>t c. snd (acceptConnection c ''device'' t)) (link_start (link_new 1)) cs"

definition sample_run :: "byte list link" where
  "sample_run = receiveFragment Some sample_source (sample_fragment ''c'' [1]) (sample_accepted [''c'', ''d''])"

lemma sample_reached: "link_reaches Some sample_source (link_new 1) sample_run"
proof -
  have more: "link_reaches Some sample_source (link_new 1) (sample_accepted (cs @ [c]))"
    if "link_reaches Some sample_source (link_new 1) (sample_accepted cs)" "map_of (lk_byId (sample_accepted cs)) c = None" for cs c
    using link_reaches.step[OF that(1) link_step.accept[OF that(2)], of "''device''"] by (simp add: sample_accepted_def)
  have none: "link_reaches Some sample_source (link_new 1) (sample_accepted [])"
    using link_reaches.step[OF link_reaches.refl link_step.start] by (simp add: sample_accepted_def)
  have one: "link_reaches Some sample_source (link_new 1) (sample_accepted ([] @ [''c'']))" by (rule more[OF none]) code_simp
  have two: "link_reaches Some sample_source (link_new 1) (sample_accepted ([''c''] @ [''d'']))" by (rule more) (use one in simp, code_simp)
  then have 3: "link_reaches Some sample_source (link_new 1) (sample_accepted [''c'', ''d''])" by simp
  from link_reaches.step[OF 3 link_step.fragment] show ?thesis unfolding sample_run_def .
qed

theorem link_connections_bounded_witness: "length (lk_byPeer sample_run) \<le> 1 \<and> length (lk_byId sample_run) \<le> 1 + MAX_PENDING_CONNECTIONS"
  by (rule link_connections_bounded[OF sample_reached])

theorem link_peers_match_events_witness:
  "\<exists>e. map_of (lk_byId sample_run) ''c'' = Some e \<and> cn_peerId e = Some ''a''"
proof -
  have "map_of (lk_byPeer sample_run) ''a'' = Some ''c''" by code_simp
  then show ?thesis using link_peers_match_events[OF sample_reached] by blast
qed

text \<open>A transport at its limit refuses a connection when it identifies itself, but still hands the packet that identified it
  to the node, with no peer: the refused side gets one packet of its choice processed.\<close>

theorem refused_connection_delivers:
  "map_of (lk_byId (receiveFragment Some sample_source (sample_fragment ''d'' [2]) sample_run)) ''d'' = None \<and>
   lk_events (receiveFragment Some sample_source (sample_fragment ''d'' [2]) sample_run) =
     lk_events sample_run @ [RemoteClosed ''d'' (Some LimitReached), PacketIn [2] None]"
  by code_simp

text \<open>A connection whose packets have an empty source closes itself with its second packet, but leaves its place in the table of
  peers taken: with a limit of one, the transport then has no connection and refuses every other peer. It announces the empty name as connected with each of
  the two packets.\<close>

theorem unnamed_peer_phantom:
  "let t = receiveFragment Some sample_source (sample_fragment ''c'' []) (receiveFragment Some sample_source (sample_fragment ''c'' []) (sample_accepted [''c'', ''d'']));
     t' = receiveFragment Some sample_source (sample_fragment ''d'' [1]) t
   in length (filter ((=) (PeerUp [] ''device'')) (lk_events t)) = 2 \<and> map_of (lk_byId t) ''c'' = None \<and> map fst (lk_byPeer t) = [[]] \<and> lk_byId t' = [] \<and> map fst (lk_byPeer t') = [[]]"
  by code_simp

end
