(* ===== verification/PairingFragments.thy ===== *)
theory PairingFragments
  imports LinkFragments
begin

text \<open>
  Fragments over Bluetooth: how the phone (\<open>mobile/www/ble-link.js\<close>) and the pairing server of the hub
  (\<open>nomad-hub/wifi-gatt-protocol.ts\<close>) cut a message to the size of a write and put it together again. Both repeat the same five-byte
  header and the same reassembly; the hub allows fewer messages at once, and refuses fragments that disagree on their number and
  messages of more than 4096 bytes. The differences are the arguments of \<open>add_fragment\<close>.
\<close>

section \<open>Cutting\<close>

definition FRAGMENT_HEADER_SIZE :: nat where "FRAGMENT_HEADER_SIZE = 5"
definition MAX_REASSEMBLED_BYTES :: nat where "MAX_REASSEMBLED_BYTES = 4096"
definition HUB_MAX_CONCURRENT_REASSEMBLIES :: nat where "HUB_MAX_CONCURRENT_REASSEMBLIES = 4"
definition PHONE_MAX_CONCURRENT_REASSEMBLIES :: nat where "PHONE_MAX_CONCURRENT_REASSEMBLIES = 8"

datatype fragment_error = MtuTooSmall | MessageTooLarge

definition wire_fragment :: "nat \<Rightarrow> nat \<Rightarrow> nat \<Rightarrow> byte list \<Rightarrow> byte list" where
  "wire_fragment msgId index tot chunk =
     [of_nat msgId, of_nat (index div 256), of_nat index, of_nat (tot div 256), of_nat tot] @ chunk"

text \<open>The fragments of a message and the next message id.\<close>

definition fragmentBytes :: "nat \<Rightarrow> byte list \<Rightarrow> nat \<Rightarrow> (fragment_error + byte list list) \<times> nat" where
  "fragmentBytes nextMsgId bytes mtu =
     (if mtu \<le> FRAGMENT_HEADER_SIZE then (Inl MtuTooSmall, nextMsgId)
      else let payloadSize = mtu - FRAGMENT_HEADER_SIZE; tot = fragment_count (length bytes) payloadSize in
        if tot > MAX_FRAGMENTS_PER_MESSAGE then (Inl MessageTooLarge, nextMsgId)
        else (Inr (map (\<lambda>index. wire_fragment nextMsgId index tot (slice bytes payloadSize index)) [0..<tot]), (nextMsgId + 1) mod 256))"

section \<open>Joining\<close>

record assembly =
  as_chunks :: "(nat, byte list) jsmap"
  as_total :: nat
  as_bytesSoFar :: nat

type_synonym assemblies = "(byte, assembly) jsmap"

definition read_header :: "byte list \<Rightarrow> byte \<times> nat \<times> nat \<times> byte list" where
  "read_header bytes = (bytes ! 0, unat (bytes ! 1) * 256 + unat (bytes ! 2), unat (bytes ! 3) * 256 + unat (bytes ! 4), drop FRAGMENT_HEADER_SIZE bytes)"

text \<open>The entry of a message, new if there is none; a new one takes the place of the oldest when all are taken.\<close>

definition assembly_for :: "assemblies \<Rightarrow> byte \<Rightarrow> nat \<Rightarrow> assembly" where
  "assembly_for entries msgId tot = (case map_of entries msgId of Some e \<Rightarrow> e | None \<Rightarrow> \<lparr>as_chunks = [], as_total = tot, as_bytesSoFar = 0\<rparr>)"

definition open_slot :: "nat \<Rightarrow> byte \<Rightarrow> assembly \<Rightarrow> assemblies \<Rightarrow> assemblies" where
  "open_slot slots msgId entry entries = (if map_of entries msgId \<noteq> None then entries
     else map_put msgId entry (if length entries \<ge> slots then tl entries else entries))"

definition add_fragment :: "nat \<Rightarrow> nat option \<Rightarrow> byte list \<Rightarrow> assemblies \<Rightarrow> byte list option \<times> assemblies" where
  "add_fragment slots limit bytes entries =
     (if length bytes < FRAGMENT_HEADER_SIZE then (None, entries)
      else case read_header bytes of (msgId, index, tot, payload) \<Rightarrow>
        if tot = 0 \<or> tot > MAX_FRAGMENTS_PER_MESSAGE \<or> index \<ge> tot then (None, entries)
        else
          let entry = assembly_for entries msgId tot;
              opened = open_slot slots msgId entry entries;
              counted = entry\<lparr>as_bytesSoFar := as_bytesSoFar entry + (if map_of (as_chunks entry) index = None then length payload else 0)\<rparr>;
              filled = counted\<lparr>as_chunks := map_put index payload (as_chunks counted)\<rparr>;
              kept = map_put msgId filled opened;
              answer = (if length (as_chunks filled) < as_total filled then (None, kept)
                        else case gather (as_chunks filled) [0..<as_total filled] of
                          None \<Rightarrow> (None, kept) | Some parts \<Rightarrow> (Some (concat parts), map_del msgId kept))
          in case limit of
            None \<Rightarrow> answer
          | Some most \<Rightarrow>
              if as_total entry \<noteq> tot then (None, entries)
              else if map_of (as_chunks entry) index = None \<and> as_bytesSoFar counted > most then (None, map_del msgId opened)
              else answer)"

definition hub_addFragment :: "byte list \<Rightarrow> assemblies \<Rightarrow> byte list option \<times> assemblies" where
  "hub_addFragment = add_fragment HUB_MAX_CONCURRENT_REASSEMBLIES (Some MAX_REASSEMBLED_BYTES)"

definition phone_addFragment :: "byte list \<Rightarrow> assemblies \<Rightarrow> byte list option \<times> assemblies" where
  "phone_addFragment = add_fragment PHONE_MAX_CONCURRENT_REASSEMBLIES None"

fun feed_fragments :: "(byte list \<Rightarrow> assemblies \<Rightarrow> byte list option \<times> assemblies) \<Rightarrow> byte list list \<Rightarrow> assemblies \<Rightarrow> byte list option list \<times> assemblies" where
  "feed_fragments add [] r = ([], r)"
| "feed_fragments add (f # fs) r = (let (out, r1) = add f r; (outs, r2) = feed_fragments add fs r1 in (out # outs, r2))"

section \<open>The limit on the size of a message\<close>

text \<open>The hub's limit of 4096 bytes per message does not hold: only the first copy of a fragment is counted. A fragment sent empty and
  then again with any payload, however long, is stored and given back in full.\<close>

theorem byte_limit_bypassed:
  "fst (feed_fragments hub_addFragment [wire_fragment 7 0 2 [], wire_fragment 7 0 2 payload, wire_fragment 7 1 2 []] []) = [None, None, Some payload]"
  by (simp add: hub_addFragment_def add_fragment_def wire_fragment_def read_header_def FRAGMENT_HEADER_SIZE_def HUB_MAX_CONCURRENT_REASSEMBLIES_def
      MAX_REASSEMBLED_BYTES_def MAX_FRAGMENTS_PER_MESSAGE_def Let_def upt_rec assembly_for_def open_slot_def)


section \<open>A message in any order\<close>

definition holds_chunks :: "byte list list \<Rightarrow> nat set \<Rightarrow> assembly \<Rightarrow> bool" where
  "holds_chunks parts I e \<longleftrightarrow> as_total e = length parts \<and> map_wf (as_chunks e) \<and> as_bytesSoFar e = (\<Sum>i \<in> I. length (parts ! i)) \<and>
     (\<forall>i. map_of (as_chunks e) i = (if i \<in> I then Some (parts ! i) else None))"

lemma parts_size: "I \<subseteq> {..<length parts} \<Longrightarrow> (\<Sum>i \<in> I. length (parts ! i)) \<le> length (concat parts)"
proof -
  assume I: "I \<subseteq> {..<length parts}"
  have "(\<Sum>i \<in> I. length (parts ! i)) \<le> (\<Sum>i < length parts. length (parts ! i))" by (rule sum_mono2[OF _ I]) simp_all
  also have "\<dots> = length (concat parts)" by (simp add: length_concat sum_list_sum_nth atLeast0LessThan)
  finally show ?thesis .
qed

definition in_assembly :: "byte \<Rightarrow> byte list list \<Rightarrow> nat set \<Rightarrow> assemblies \<Rightarrow> bool" where
  "in_assembly m parts I r \<longleftrightarrow> (case map_of r m of None \<Rightarrow> I = {} | Some e \<Rightarrow> holds_chunks parts I e)"

lemma header_read:
  assumes "msgId < 256" "index < 65536" "tot < 65536"
  shows "read_header (wire_fragment msgId index tot chunk) = (of_nat msgId, index, tot, chunk)"
  using uint16_roundtrip[OF assms(2), of "[]" "[]"] uint16_roundtrip[OF assms(3), of "[]" "[]"]
  by (simp add: read_header_def wire_fragment_def FRAGMENT_HEADER_SIZE_def readUInt16BE_def writeUInt16BE_def)

lemma hub_part:
  assumes m: "msgId < 256" and n: "length parts \<le> 8192" "i < length parts" and limit: "length (concat parts) \<le> 4096"
    and inv: "in_assembly (of_nat msgId) parts I r" "I \<subseteq> {..<length parts}"
  defines "f \<equiv> wire_fragment msgId i (length parts) (parts ! i)"
  shows "insert i I \<noteq> {..<length parts} \<Longrightarrow>
      fst (hub_addFragment f r) = None \<and> in_assembly (of_nat msgId) parts (insert i I) (snd (hub_addFragment f r))"
    and "insert i I = {..<length parts} \<Longrightarrow> fst (hub_addFragment f r) = Some (concat parts)"
proof -
  let ?m = "of_nat msgId :: byte"
  define e where "e = assembly_for r ?m (length parts)"
  define opened where "opened = open_slot 4 ?m e r"
  have e: "holds_chunks parts I e" using inv(1) by (auto simp: e_def assembly_for_def in_assembly_def holds_chunks_def split: option.splits)
  have fin: "finite I" using inv(2) finite_subset by blast
  let ?e = "e\<lparr>as_bytesSoFar := as_bytesSoFar e + (if map_of (as_chunks e) i = None then length (parts ! i) else 0),
    as_chunks := map_put i (parts ! i) (as_chunks e)\<rparr>"
  have e': "holds_chunks parts (insert i I) ?e"
    using e fin by (auto simp: holds_chunks_def insert_absorb)
  have size: "\<not> as_bytesSoFar ?e > 4096"
    using parts_size[of "insert i I" parts] inv(2) n(2) limit e' by (simp add: holds_chunks_def)
  have head: "read_header f = (?m, i, length parts, parts ! i)" unfolding f_def by (rule header_read) (use m n in simp_all)
  have long: "\<not> length f < FRAGMENT_HEADER_SIZE" by (simp add: f_def wire_fragment_def FRAGMENT_HEADER_SIZE_def)
  have total: "as_total e = length parts" using e by (simp add: holds_chunks_def)
  have step: "hub_addFragment f r = (if length (as_chunks ?e) < length parts then (None, map_put ?m ?e opened)
      else case gather (as_chunks ?e) [0..<length parts] of None \<Rightarrow> (None, map_put ?m ?e opened)
        | Some ps \<Rightarrow> (Some (concat ps), map_del ?m (map_put ?m ?e opened)))"
    unfolding hub_addFragment_def add_fragment_def head opened_def e_def using long n size[unfolded e_def] total[unfolded e_def]
    by (auto simp: Let_def HUB_MAX_CONCURRENT_REASSEMBLIES_def MAX_REASSEMBLED_BYTES_def MAX_FRAGMENTS_PER_MESSAGE_def cong: option.case_cong)
  have m': "map_of (as_chunks ?e) j = (if j \<in> insert i I then Some (parts ! j) else None)" for j using e' by (auto simp: holds_chunks_def)
  show "fst (hub_addFragment f r) = None \<and> in_assembly ?m parts (insert i I) (snd (hub_addFragment f r))" if "insert i I \<noteq> {..<length parts}"
    using gather_incomplete[OF m' _ that] inv(2) n(2) e' unfolding step by (simp add: in_assembly_def)
  show "fst (hub_addFragment f r) = Some (concat parts)" if all: "insert i I = {..<length parts}"
    using gather_complete[of "as_chunks ?e" parts] e' m' unfolding step all holds_chunks_def by simp
qed


text \<open>The answers while a part is missing, and when it arrives.\<close>

lemma hub_parts:
  assumes m: "msgId < 256" and n: "length parts \<le> 8192" and limit: "length (concat parts) \<le> 4096"
  defines "f \<equiv> \<lambda>i. wire_fragment msgId i (length parts) (parts ! i)"
  shows "in_assembly (of_nat msgId) parts I r \<Longrightarrow> I \<union> set is \<subseteq> {..<length parts} \<Longrightarrow> I \<union> set is \<noteq> {..<length parts} \<Longrightarrow>
    fst (feed_fragments hub_addFragment (map f is) r) = map (\<lambda>i. None) is \<and>
    in_assembly (of_nat msgId) parts (I \<union> set is) (snd (feed_fragments hub_addFragment (map f is) r))"
proof (induction "is" arbitrary: I r)
  case (Cons i js)
  have i: "i < length parts" "I \<subseteq> {..<length parts}" "insert i I \<noteq> {..<length parts}" using Cons.prems(2,3) by auto
  have part: "fst (hub_addFragment (f i) r) = None" "in_assembly (of_nat msgId) parts (insert i I) (snd (hub_addFragment (f i) r))"
    using hub_part(1)[OF m n i(1) limit Cons.prems(1) i(2,3)] by (simp_all add: f_def)
  from Cons.IH[OF part(2)] Cons.prems(2,3) part(1) show ?case by (simp add: case_prod_unfold Let_def)
qed simp

text \<open>A pairing message of at most 4096 bytes crosses the Bluetooth link whole: whatever the size of a write, its fragments fit it, and
  received in any order, with repetitions before the last one, they give back exactly the message, when the last of them arrives and not before.\<close>

theorem pairing_roundtrip:
  assumes cut: "fragmentBytes msgId bytes mtu = (Inr frames, next')" "msgId < 256" "length bytes \<le> 4096"
    and heard: "\<forall>i \<in> set is. i < length frames" "final < length frames" "set is = {..<length frames} - {final}"
  shows "fst (feed_fragments hub_addFragment (map ((!) frames) (is @ [final])) []) = map (\<lambda>i. None) is @ [Some bytes] \<and>
    (\<forall>fr \<in> set frames. length fr \<le> mtu)"
proof -
  define k where "k = mtu - FRAGMENT_HEADER_SIZE"
  let ?n = "fragment_count (length bytes) k" and ?parts = "parts_of k bytes"
  have c: "0 < k" "?n \<le> 8192" "frames = map (\<lambda>i. wire_fragment msgId i ?n (slice bytes k i)) [0..<?n]" "FRAGMENT_HEADER_SIZE < mtu"
    using cut(1) by (auto simp: fragmentBytes_def k_def Let_def MAX_FRAGMENTS_PER_MESSAGE_def split: if_splits)
  have len: "length frames = ?n" by (simp add: c(3))
  have nth: "map ((!) frames) js = map (\<lambda>i. wire_fragment msgId i (length ?parts) (?parts ! i)) js" if "\<forall>i \<in> set js. i < ?n" for js
    using that by (simp add: c(3) parts_of_def)
  have whole: "concat ?parts = bytes" by (rule parts_join[OF c(1)])
  have n: "length ?parts \<le> 8192" "length (concat ?parts) \<le> 4096" using c(2) cut(3) whole by simp_all
  let ?f = "\<lambda>i. wire_fragment msgId i (length ?parts) (?parts ! i)"
  have "\<forall>i \<in> set (is @ [final]). i < ?n" using heard(1,2) len by simp
  from nth[OF this] have eq: "map ((!) frames) (is @ [final]) = map ?f is @ [?f final]" by (simp only: map_append list.map)
  have feed: "feed_fragments hub_addFragment (xs @ ys) r = (let (os, r1) = feed_fragments hub_addFragment xs r;
      (os', r2) = feed_fragments hub_addFragment ys r1 in (os @ os', r2))" for xs ys r
    by (induction xs arbitrary: r) (simp_all add: case_prod_unfold Let_def)
  have start: "in_assembly (of_nat msgId) ?parts {} []" by (simp add: in_assembly_def)
  have I: "{} \<union> set is \<subseteq> {..<length ?parts}" "{} \<union> set is \<noteq> {..<length ?parts}" "insert final (set is) = {..<length ?parts}"
    using heard(2,3) len by auto
  note most = hub_parts[OF cut(2) n start I(1,2)]
  have "fst (hub_addFragment (?f final) (snd (feed_fragments hub_addFragment (map ?f is) []))) = Some (concat ?parts)"
    by (rule hub_part(2)[OF cut(2) n(1) _ n(2) most[THEN conjunct2]]) (use I heard(2) len in auto)
  then have "fst (feed_fragments hub_addFragment (map ?f is @ [?f final]) []) = map (\<lambda>i. None) is @ [Some bytes]"
    unfolding feed using most whole by (simp add: case_prod_unfold Let_def)
  then have "fst (feed_fragments hub_addFragment (map ((!) frames) (is @ [final])) []) = map (\<lambda>i. None) is @ [Some bytes]"
    unfolding eq .
  moreover have "\<forall>fr \<in> set frames. length fr \<le> mtu" using c(4) unfolding c(3)
    by (auto simp: wire_fragment_def slice_def k_def FRAGMENT_HEADER_SIZE_def)
  ultimately show ?thesis ..
qed

theorem pairing_roundtrip_witness:
  "fst (feed_fragments hub_addFragment [[7, 0, 1, 0, 2, 9], [7, 0, 1, 0, 2, 9], [7, 0, 0, 0, 2, 8]] []) = [None, None, Some [8, 9]]"
proof -
  have cut: "fragmentBytes 7 [8, 9] 6 = (Inr [[7, 0, 0, 0, 2, 8], [7, 0, 1, 0, 2, 9]], 8)"
    by (simp add: fragmentBytes_def fragment_count_def FRAGMENT_HEADER_SIZE_def MAX_FRAGMENTS_PER_MESSAGE_def Let_def wire_fragment_def slice_def upt_rec)
  have all: "set [1, 1] = {..<length [[7, 0, 0, 0, 2, 8], [7, 0, 1, 0, 2, 9 :: byte]]} - {0}" by auto
  have "fst (feed_fragments hub_addFragment (map ((!) [[7, 0, 0, 0, 2, 8], [7, 0, 1, 0, 2, 9]]) ([1, 1] @ [0])) []) = map (\<lambda>i. None) [1, 1 :: nat] @ [Some [8, 9]]"
    by (rule pairing_roundtrip[THEN conjunct1, OF cut _ _ _ _ all]) simp_all
  then show ?thesis by simp
qed

end
