(* ===== verification/DropQueue.thy ===== *)
theory DropQueue
  imports Prelude
begin

text \<open>
  The phone's queue of notes that could not be published yet (\<open>mobile/www/drop-queue.js\<close>): what is accepted into the local storage, what
  expires, and one round of sending. The storage is the array it holds (empty when it is absent or unreadable) and whether writing it
  succeeds. Sending is an argument, as are the clock and fresh ids; what a round does is its list of events.
\<close>

section \<open>Entries\<close>

definition MAX_PENDING_DROPS :: nat where "MAX_PENDING_DROPS = 20"
definition PENDING_DROP_MAX_AGE_MS :: rat where "PENDING_DROP_MAX_AGE_MS = 24 * 60 * 60 * 1000"
definition CLAIM_TTL_MS :: rat where "CLAIM_TTL_MS = 30000"
definition PENDING_DROP_LABEL_LENGTH :: nat where "PENDING_DROP_LABEL_LENGTH = 100"
definition MAX_DROP_TEXT_LENGTH :: nat where "MAX_DROP_TEXT_LENGTH = 4000"
definition VALID_KINDS :: "string list" where "VALID_KINDS = [''info'', ''hazard'', ''emergency'']"

text \<open>Setting and deleting a property of an object.\<close>

fun jset :: "string \<Rightarrow> jsval \<Rightarrow> jsval \<Rightarrow> jsval" where
  "jset k v (JObject fs) = JObject (map_put k v fs)" | "jset k v x = x"

fun jdelete :: "string \<Rightarrow> jsval \<Rightarrow> jsval" where
  "jdelete k (JObject fs) = JObject (map_del k fs)" | "jdelete k x = x"

definition nonempty_text :: "jsval \<Rightarrow> bool" where
  "nonempty_text v \<longleftrightarrow> (case v of JString s \<Rightarrow> s \<noteq> [] | _ \<Rightarrow> False)"

definition coordinate :: "rat \<Rightarrow> jsval \<Rightarrow> bool" where
  "coordinate limit v \<longleftrightarrow> (case as_finite v of Some r \<Rightarrow> \<bar>r\<bar> \<le> limit | None \<Rightarrow> False)"

definition isWellFormedEntry :: "jsval \<Rightarrow> bool" where
  "isWellFormedEntry e \<longleftrightarrow> is_object e \<and> nonempty_text (jfield e ''queueId'') \<and> nonempty_text (jfield e ''gateway'') \<and>
     nonempty_text (jfield e ''text'') \<and> coordinate 90 (jfield e ''lat'') \<and> coordinate 180 (jfield e ''lon'') \<and>
     (jfield e ''label'' = JUndefined \<or> (case jfield e ''label'' of JString s \<Rightarrow> length s \<le> PENDING_DROP_LABEL_LENGTH | _ \<Rightarrow> False)) \<and>
     (case jfield e ''kind'' of JString k \<Rightarrow> k \<in> set VALID_KINDS | _ \<Rightarrow> False) \<and>
     as_finite (jfield e ''queuedAt'') \<noteq> None \<and>
     (jfield e ''sendingSince'' = JUndefined \<or> as_finite (jfield e ''sendingSince'') \<noteq> None)"

definition queued_at :: "jsval \<Rightarrow> rat" where
  "queued_at e = (case as_finite (jfield e ''queuedAt'') of Some t \<Rightarrow> t | None \<Rightarrow> 0)"

definition has_id :: "string \<Rightarrow> jsval \<Rightarrow> bool" where
  "has_id q e \<longleftrightarrow> jfield e ''queueId'' = JString q"

definition queue_id :: "jsval \<Rightarrow> string" where
  "queue_id e = (case jfield e ''queueId'' of JString q \<Rightarrow> q | _ \<Rightarrow> [])"

definition isPendingDropExpired :: "jsval \<Rightarrow> rat \<Rightarrow> bool" where
  "isPendingDropExpired e now \<longleftrightarrow> queued_at e + PENDING_DROP_MAX_AGE_MS \<le> now"

definition remainingLifetimeMs :: "jsval \<Rightarrow> rat \<Rightarrow> rat" where
  "remainingLifetimeMs e now = min PENDING_DROP_MAX_AGE_MS (queued_at e + PENDING_DROP_MAX_AGE_MS - now)"

section \<open>The storage\<close>

record drop_storage =
  ds_entries :: "jsval list"
  ds_writable :: bool

definition writeEntries :: "jsval list \<Rightarrow> drop_storage \<Rightarrow> bool \<times> drop_storage" where
  "writeEntries es s = (if ds_writable s then (True, s\<lparr>ds_entries := es\<rparr>) else (False, s))"

text \<open>The loop of \<open>loadPendingDrops\<close>: what is pending, what has expired, and whether anything must be written back.\<close>

fun sort_out :: "rat \<Rightarrow> jsval list \<Rightarrow> jsval list \<times> jsval list \<times> bool" where
  "sort_out now [] = ([], [], False)"
| "sort_out now (e # es) = (let (pending, gone, changed) = sort_out now es in
     if \<not> isWellFormedEntry e then (pending, gone, True)
     else let e' = (if queued_at e > now then jset ''queuedAt'' (JNumber (Num now)) e else e); c = (queued_at e > now) in
       if isPendingDropExpired e' now then (pending, e' # gone, True) else (e' # pending, gone, c \<or> changed))"

definition loadPendingDrops :: "rat \<Rightarrow> drop_storage \<Rightarrow> (jsval list \<times> jsval list) \<times> drop_storage" where
  "loadPendingDrops now s = (let (pending, gone, changed) = sort_out now (ds_entries s) in
     ((pending, gone), if changed then snd (writeEntries pending s) else s))"

record drop_input =
  in_text :: jsval
  in_lat :: jsval
  in_lon :: jsval
  in_label :: jsval
  in_kind :: jsval
  in_gateway :: jsval
  in_queueId :: jsval

fun truthy_or :: "jsval \<Rightarrow> jsval \<Rightarrow> jsval" where
  "truthy_or v d = (if v \<in> {JUndefined, JNull, JBool False, JString [], JNumber (Num 0), JNumber NaN} then d else v)"

definition entry_of :: "string \<Rightarrow> drop_input \<Rightarrow> rat \<Rightarrow> jsval" where
  "entry_of fresh i now = JObject (filter (\<lambda>(k, v). v \<noteq> JUndefined)
     [(''queueId'', truthy_or (in_queueId i) (JString fresh)), (''gateway'', in_gateway i), (''text'', in_text i), (''lat'', in_lat i),
      (''lon'', in_lon i), (''label'', truthy_or (in_label i) JUndefined), (''kind'', truthy_or (in_kind i) (JString ''info'')),
      (''queuedAt'', JNumber (Num now))])"

definition enqueuePendingDrop :: "string \<Rightarrow> drop_input \<Rightarrow> rat \<Rightarrow> drop_storage \<Rightarrow> jsval option \<times> drop_storage" where
  "enqueuePendingDrop fresh i now s =
     (let entry = entry_of fresh i now; existing = filter isWellFormedEntry (ds_entries s) in
      if \<not> isWellFormedEntry entry \<or> (case in_text i of JString t \<Rightarrow> length t > MAX_DROP_TEXT_LENGTH | _ \<Rightarrow> False) then (None, s)
      else if length existing \<ge> MAX_PENDING_DROPS then (None, s)
      else case find (\<lambda>e. jfield e ''queueId'' = jfield entry ''queueId'') existing of
        Some e \<Rightarrow> (Some e, s)
      | None \<Rightarrow> (let (ok, s') = writeEntries (existing @ [entry]) s in (if ok then Some entry else None, s')))"

definition removePendingDrop :: "string \<Rightarrow> drop_storage \<Rightarrow> drop_storage" where
  "removePendingDrop q s = snd (writeEntries (filter (\<lambda>e. \<not> has_id q e) (ds_entries s)) s)"

text \<open>Changing the first entry that satisfies a test.\<close>

fun change_first :: "(jsval \<Rightarrow> bool) \<Rightarrow> (jsval \<Rightarrow> jsval) \<Rightarrow> jsval list \<Rightarrow> jsval list" where
  "change_first P f [] = []"
| "change_first P f (e # es) = (if P e then f e # es else e # change_first P f es)"

definition claimPendingDrop :: "string \<Rightarrow> rat \<Rightarrow> drop_storage \<Rightarrow> bool \<times> drop_storage" where
  "claimPendingDrop q now s =
     (let mine = (\<lambda>e. has_id q e \<and> isWellFormedEntry e) in
      case find mine (ds_entries s) of
        None \<Rightarrow> (False, s)
      | Some e \<Rightarrow>
          if (case as_finite (jfield e ''sendingSince'') of Some t \<Rightarrow> now - t < CLAIM_TTL_MS | None \<Rightarrow> False) then (False, s)
          else writeEntries (change_first mine (jset ''sendingSince'' (JNumber (Num now))) (ds_entries s)) s)"

definition releasePendingDrop :: "string \<Rightarrow> drop_storage \<Rightarrow> drop_storage" where
  "releasePendingDrop q s = (case find (has_id q) (ds_entries s) of
     None \<Rightarrow> s
   | Some e \<Rightarrow> if jfield e ''sendingSince'' = JUndefined then s
       else snd (writeEntries (change_first (has_id q) (jdelete ''sendingSince'') (ds_entries s)) s))"

section \<open>A round of sending\<close>

datatype send_failure = Retry | Reauth | Throttled | Discard | Unsupported

text \<open>The status of the error that was thrown, if it has one.\<close>

definition classifyDropSendFailure :: "rat option \<Rightarrow> send_failure" where
  "classifyDropSendFailure status = (case status of
     None \<Rightarrow> Retry
   | Some c \<Rightarrow>
       if c = 401 then Reauth
       else if c = 429 then Throttled
       else if c = 400 \<or> c = 413 then Discard
       else if c \<ge> 400 \<and> c < 500 \<and> c \<noteq> 408 then Unsupported
       else Retry)"

definition shouldQueueOnSubmit :: "rat option \<Rightarrow> bool" where
  "shouldQueueOnSubmit status \<longleftrightarrow> classifyDropSendFailure status \<in> {Retry, Throttled}"

datatype round_event = Sending jsval rat | Published jsval | Discarded jsval | Expired jsval | ReauthNeeded

record flush_result =
  fr_published :: nat
  fr_discarded :: nat
  fr_expired :: nat
  fr_stoppedBy :: "send_failure option"

text \<open>What follows a send: whether the round goes on, the counts, the reports and the storage. The outcome of a send is nothing, or the failure
  with its status.\<close>

definition finish_send :: "rat option option \<Rightarrow> jsval \<Rightarrow> flush_result \<Rightarrow> drop_storage \<Rightarrow> bool \<times> flush_result \<times> round_event list \<times> drop_storage" where
  "finish_send outcome e r s = (case outcome of
     None \<Rightarrow> (True, r\<lparr>fr_published := fr_published r + 1\<rparr>, [Published e], removePendingDrop (queue_id e) s)
   | Some status \<Rightarrow> (case classifyDropSendFailure status of
       Discard \<Rightarrow> (True, r\<lparr>fr_discarded := fr_discarded r + 1\<rparr>, [Discarded e], removePendingDrop (queue_id e) s)
     | Reauth \<Rightarrow> (False, r\<lparr>fr_stoppedBy := Some Reauth\<rparr>, [ReauthNeeded], releasePendingDrop (queue_id e) s)
     | Retry \<Rightarrow> (False, r\<lparr>fr_stoppedBy := Some Retry\<rparr>, [], releasePendingDrop (queue_id e) s)
     | _ \<Rightarrow> (True, r, [], releasePendingDrop (queue_id e) s)))"

text \<open>The body of the loop. The clock is read anew wherever the code reads it (\<open>i\<close> counts the readings), and \<open>meanwhile\<close> is what the rest of the
  application does to the storage while a send is awaited.\<close>

definition flush_entry :: "string \<Rightarrow> (jsval \<Rightarrow> rat \<Rightarrow> rat option option) \<Rightarrow> (jsval \<Rightarrow> drop_storage \<Rightarrow> drop_storage) \<Rightarrow> (nat \<Rightarrow> rat) \<Rightarrow> nat \<Rightarrow> jsval \<Rightarrow>
    flush_result \<Rightarrow> drop_storage \<Rightarrow> nat \<times> bool \<times> flush_result \<times> round_event list \<times> drop_storage" where
  "flush_entry gateway send meanwhile clock i e r s =
     (if jfield e ''gateway'' \<noteq> JString gateway then (i, True, r, [], s)
      else if remainingLifetimeMs e (clock i) \<le> 0
      then (i + 1, True, r\<lparr>fr_expired := fr_expired r + 1\<rparr>, [Expired e], removePendingDrop (queue_id e) s)
      else let (claimed, s1) = claimPendingDrop (queue_id e) (clock (i + 1)) s; ms = remainingLifetimeMs e (clock (i + 2)) in
        if \<not> claimed then (i + 2, True, r, [], s1)
        else let (go, r', evs, s') = finish_send (send e ms) e r (meanwhile e s1) in (i + 3, go, r', Sending e ms # evs, s'))"

fun flush_loop :: "string \<Rightarrow> (jsval \<Rightarrow> rat \<Rightarrow> rat option option) \<Rightarrow> (jsval \<Rightarrow> drop_storage \<Rightarrow> drop_storage) \<Rightarrow> (nat \<Rightarrow> rat) \<Rightarrow> nat \<Rightarrow> jsval list \<Rightarrow>
    flush_result \<Rightarrow> round_event list \<Rightarrow> drop_storage \<Rightarrow> flush_result \<times> round_event list \<times> drop_storage" where
  "flush_loop gateway send meanwhile clock i [] r evs s = (r, evs, s)"
| "flush_loop gateway send meanwhile clock i (e # es) r evs s =
     (case flush_entry gateway send meanwhile clock i e r s of (i', go, r', vs, s') \<Rightarrow>
        if go then flush_loop gateway send meanwhile clock i' es r' (evs @ vs) s' else (r', evs @ vs, s'))"

definition flushPendingDrops :: "string \<Rightarrow> (jsval \<Rightarrow> rat \<Rightarrow> rat option option) \<Rightarrow> (jsval \<Rightarrow> drop_storage \<Rightarrow> drop_storage) \<Rightarrow> (nat \<Rightarrow> rat) \<Rightarrow> drop_storage \<Rightarrow>
    flush_result \<times> round_event list \<times> drop_storage" where
  "flushPendingDrops gateway send meanwhile clock s =
     (let ((pending, gone), s1) = loadPendingDrops (clock 0) s
      in flush_loop gateway send meanwhile clock 1 pending \<lparr>fr_published = 0, fr_discarded = 0, fr_expired = length gone, fr_stoppedBy = None\<rparr>
           (map Expired gone) s1)"

section \<open>The ids in the queue\<close>

definition queued_ids :: "jsval list \<Rightarrow> string set" where
  "queued_ids es = {queue_id e | e. e \<in> set es \<and> isWellFormedEntry e}"

fun reported :: "round_event \<Rightarrow> string set" where
  "reported (Published e) = {queue_id e}" | "reported (Discarded e) = {queue_id e}" | "reported (Expired e) = {queue_id e}" | "reported _ = {}"

definition settled :: "round_event list \<Rightarrow> string set" where
  "settled evs = (\<Union>v \<in> set evs. reported v)"

lemma settled_simps [simp]: "settled [] = {}" "settled (v # evs) = reported v \<union> settled evs" "settled (a @ b) = settled a \<union> settled b"
  by (auto simp: settled_def)

lemma queued_ids_simps [simp]:
  "queued_ids [] = {}" "queued_ids (e # es) = (if isWellFormedEntry e then {queue_id e} else {}) \<union> queued_ids es"
  by (auto simp: queued_ids_def)

lemma wf_object: "isWellFormedEntry e \<Longrightarrow> \<exists>fs. e = JObject fs"
  by (cases e) (auto simp: isWellFormedEntry_def nonempty_text_def)

lemma jfield_jset [simp]: "jfield (jset k x (JObject fs)) k' = (if k' = k then x else jfield (JObject fs) k')"
  by (auto split: option.splits)

lemma jfield_jdelete [simp]: "jfield (jdelete k (JObject fs)) k' = (if k' = k then JUndefined else jfield (JObject fs) k')"
  by (auto split: option.splits)

lemma has_queue_id: "isWellFormedEntry e \<Longrightarrow> has_id q e \<longleftrightarrow> queue_id e = q"
  by (auto simp: has_id_def queue_id_def isWellFormedEntry_def nonempty_text_def split: jsval.splits)

text \<open>The marks the queue puts on an entry, and the date it corrects, change neither its id nor that it is well formed.\<close>

definition same_fields :: "string set \<Rightarrow> jsval \<Rightarrow> jsval \<Rightarrow> bool" where
  "same_fields ks e e' \<longleftrightarrow> is_object e = is_object e' \<and> (\<forall>k. k \<notin> ks \<longrightarrow> jfield e k = jfield e' k)"

lemma wf_same_fields:
  assumes "isWellFormedEntry e" "same_fields {''sendingSince'', ''queuedAt''} e e'"
    and "as_finite (jfield e' ''queuedAt'') \<noteq> None" "jfield e' ''sendingSince'' = JUndefined \<or> as_finite (jfield e' ''sendingSince'') \<noteq> None"
  shows "isWellFormedEntry e' \<and> queue_id e' = queue_id e"
proof -
  have "is_object e' = is_object e" "jfield e' ''queueId'' = jfield e ''queueId''" "jfield e' ''gateway'' = jfield e ''gateway''"
    "jfield e' ''text'' = jfield e ''text''" "jfield e' ''lat'' = jfield e ''lat''" "jfield e' ''lon'' = jfield e ''lon''"
    "jfield e' ''label'' = jfield e ''label''" "jfield e' ''kind'' = jfield e ''kind''"
    using assms(2) by (simp_all add: same_fields_def)
  then show ?thesis using assms(1,3,4) by (simp only: isWellFormedEntry_def queue_id_def simp_thms)
qed

lemma wf_times:
  assumes "isWellFormedEntry e"
  shows "as_finite (jfield e ''queuedAt'') \<noteq> None" "jfield e ''sendingSince'' = JUndefined \<or> as_finite (jfield e ''sendingSince'') \<noteq> None"
  using assms unfolding isWellFormedEntry_def by blast+

lemma wf_mark:
  assumes "isWellFormedEntry e" "k \<in> {''sendingSince'', ''queuedAt''}"
  shows "isWellFormedEntry (jset k (JNumber (Num t)) e) \<and> queue_id (jset k (JNumber (Num t)) e) = queue_id e"
proof (rule wf_same_fields[OF assms(1)])
  obtain fs where e: "e = JObject fs" using wf_object[OF assms(1)] by blast
  show "same_fields {''sendingSince'', ''queuedAt''} e (jset k (JNumber (Num t)) e)"
    unfolding same_fields_def e using assms(2) by (auto simp del: jfield.simps jset.simps) simp_all
  show "as_finite (jfield (jset k (JNumber (Num t)) e) ''queuedAt'') \<noteq> None"
    "jfield (jset k (JNumber (Num t)) e) ''sendingSince'' = JUndefined \<or> as_finite (jfield (jset k (JNumber (Num t)) e) ''sendingSince'') \<noteq> None"
    using wf_times[OF assms(1)] unfolding e jfield_jset by (simp_all del: jfield.simps)
qed

lemma wf_unmark:
  assumes "isWellFormedEntry e"
  shows "isWellFormedEntry (jdelete ''sendingSince'' e) \<and> queue_id (jdelete ''sendingSince'' e) = queue_id e"
proof (rule wf_same_fields[OF assms])
  obtain fs where e: "e = JObject fs" using wf_object[OF assms(1)] by blast
  show "same_fields {''sendingSince'', ''queuedAt''} e (jdelete ''sendingSince'' e)"
    unfolding same_fields_def e by (auto simp del: jfield.simps jdelete.simps) simp_all
  show "as_finite (jfield (jdelete ''sendingSince'' e) ''queuedAt'') \<noteq> None" using wf_times[OF assms(1)] unfolding e jfield_jdelete by (simp del: jfield.simps)
  show "jfield (jdelete ''sendingSince'' e) ''sendingSince'' = JUndefined \<or> as_finite (jfield (jdelete ''sendingSince'' e) ''sendingSince'') \<noteq> None"
    unfolding e jfield_jdelete by simp
qed

lemma queued_ids_change:
  assumes "\<And>e. P e \<Longrightarrow> isWellFormedEntry e \<Longrightarrow> isWellFormedEntry (f e) \<and> queue_id (f e) = queue_id e"
  shows "queued_ids es \<subseteq> queued_ids (change_first P f es)"
  using assms by (induction es) auto

lemma queued_ids_filter: "queued_ids es \<subseteq> queued_ids (filter (\<lambda>e. \<not> has_id q e) es) \<union> {q}"
  by (induction es) (auto simp: has_queue_id)

section \<open>One step of a round\<close>

definition spared :: "string set \<Rightarrow> drop_storage \<Rightarrow> drop_storage \<Rightarrow> bool" where
  "spared qs s s' \<longleftrightarrow> queued_ids (ds_entries s) \<subseteq> queued_ids (ds_entries s') \<union> qs"

lemma spared_refl [simp]: "spared qs s s" by (simp add: spared_def)

lemma spared_trans: "spared as s s1 \<Longrightarrow> spared bs s1 s2 \<Longrightarrow> as \<union> bs \<subseteq> cs \<Longrightarrow> spared cs s s2"
  by (auto simp: spared_def)

lemma writeEntries_spares: "queued_ids (ds_entries s) \<subseteq> queued_ids es \<union> qs \<Longrightarrow> spared qs s (snd (writeEntries es s))"
  by (auto simp: spared_def writeEntries_def)

lemma removePending_spares: "spared {q} s (removePendingDrop q s)"
  unfolding removePendingDrop_def by (rule writeEntries_spares) (rule queued_ids_filter)

lemma claimPending_spares: "spared {} s (snd (claimPendingDrop q now s))"
proof -
  have "spared {} s (snd (writeEntries (change_first (\<lambda>e. has_id q e \<and> isWellFormedEntry e) (jset ''sendingSince'' (JNumber (Num now))) (ds_entries s)) s))"
    by (rule writeEntries_spares) (simp add: queued_ids_change wf_mark)
  then show ?thesis by (simp add: claimPendingDrop_def Let_def split: option.split)
qed

lemma releasePending_spares: "spared {} s (releasePendingDrop q s)"
proof -
  have "spared {} s (snd (writeEntries (change_first (has_id q) (jdelete ''sendingSince'') (ds_entries s)) s))"
    by (rule writeEntries_spares) (simp add: queued_ids_change wf_unmark)
  then show ?thesis by (simp add: releasePendingDrop_def split: option.split)
qed

lemma sort_out_ids:
  "sort_out now es = (pending, gone, changed) \<Longrightarrow>
     queued_ids es \<subseteq> queued_ids pending \<union> queue_id ` set gone \<and> (\<forall>e \<in> set pending. isWellFormedEntry e \<and> queue_id e \<in> queued_ids es)"
proof (induction es arbitrary: pending gone changed)
  case (Cons e es)
  obtain p g c where r: "sort_out now es = (p, g, c)" by (metis prod_cases3)
  show ?case using Cons.IH[OF r] Cons.prems r wf_mark[of e "''queuedAt''" now]
    by (auto simp: Let_def split: if_splits)
qed simp

lemma loadPending_ids:
  assumes "loadPendingDrops now s = ((pending, gone), s')"
  shows "spared (queue_id ` set gone) s s'" "\<forall>e \<in> set pending. isWellFormedEntry e" "queue_id ` set pending \<subseteq> queued_ids (ds_entries s)"
proof -
  obtain p g c where r: "sort_out now (ds_entries s) = (p, g, c)" by (metis prod_cases3)
  then show "spared (queue_id ` set gone) s s'" "\<forall>e \<in> set pending. isWellFormedEntry e"
      "queue_id ` set pending \<subseteq> queued_ids (ds_entries s)"
    using sort_out_ids[OF r] assms by (auto simp: loadPendingDrops_def writeEntries_def spared_def split: if_splits)
qed

lemma finish_send_spares: "finish_send outcome e r s = (go, r', vs, s') \<Longrightarrow> spared (settled vs) s s'"
  using removePending_spares[of "queue_id e" s] releasePending_spares[of s "queue_id e"]
  by (auto simp: finish_send_def split: option.splits send_failure.splits)

lemma flush_entry_spares:
  assumes others: "\<And>e t. spared {} t (meanwhile e t)" and step: "flush_entry gateway send meanwhile clock i e r s = (i', go, r', vs, s')"
  shows "spared (settled vs) s s'"
proof -
  define claim where "claim = claimPendingDrop (queue_id e) (clock (i + 1)) s"
  have claim: "spared {} s (snd claim)" unfolding claim_def by (rule claimPending_spares)
  have awaited: "spared {} s (meanwhile e (snd claim))" by (rule spared_trans[OF claim others]) simp
  have sent: "spared (settled vs') s t" if "finish_send outcome e r (meanwhile e (snd claim)) = (go', r'', vs', t)" for outcome go' r'' vs' t
    by (rule spared_trans[OF awaited finish_send_spares[OF that]]) simp
  show ?thesis using step sent claim removePending_spares[of "queue_id e" s] unfolding flush_entry_def claim_def
    by (auto simp: Let_def split: if_splits prod.splits)
qed

lemma flush_loop_spares:
  assumes others: "\<And>e t. spared {} t (meanwhile e t)"
  shows "flush_loop gateway send meanwhile clock i es r evs s = (r', evs', s') \<Longrightarrow> spared (settled evs') s s' \<and> settled evs \<subseteq> settled evs'"
proof (induction es arbitrary: i r evs s)
  case (Cons e es)
  obtain i1 go r1 vs s1 where step: "flush_entry gateway send meanwhile clock i e r s = (i1, go, r1, vs, s1)" by (metis prod_cases5)
  have first: "spared (settled vs) s s1" by (rule flush_entry_spares[OF others step])
  show ?case
  proof (cases go)
    case True
    then have "spared (settled evs') s1 s' \<and> settled (evs @ vs) \<subseteq> settled evs'"
      using Cons.prems step by (intro Cons.IH[where i = i1 and r = r1]) simp
    then show ?thesis using spared_trans[OF first] by auto
  qed (use Cons.prems step first in \<open>auto simp: spared_def\<close>)
qed (auto simp: spared_def)

text \<open>No note is lost in a round of sending: every note that was in the queue, whatever its gateway and however the sends end, is still in
  the queue after the round or was reported to the user as published, as discarded or as expired. This holds also if the storage
  cannot be written, and whatever the application does during a send, if it does not take notes out of the queue itself.\<close>

theorem nothing_lost:
  assumes "\<And>e t. queued_ids (ds_entries t) \<subseteq> queued_ids (ds_entries (meanwhile e t))"
    and "flushPendingDrops gateway send meanwhile clock s = (r, evs, s')"
  shows "queued_ids (ds_entries s) \<subseteq> queued_ids (ds_entries s') \<union> settled evs"
proof -
  obtain pending gone s1 where load: "loadPendingDrops (clock 0) s = ((pending, gone), s1)" by (metis surj_pair)
  have others: "spared {} t (meanwhile e t)" for e t using assms(1) by (simp add: spared_def)
  have "spared (settled evs) s1 s' \<and> settled (map Expired gone) \<subseteq> settled evs"
    using assms(2) load by (intro flush_loop_spares[OF others]) (simp add: flushPendingDrops_def)
  moreover have "settled (map Expired gone) = queue_id ` set gone" by (auto simp: settled_def)
  ultimately have "spared (settled evs) s s'" by (intro spared_trans[OF loadPending_ids(1)[OF load], of "settled evs"]) simp_all
  then show ?thesis by (simp add: spared_def)
qed

definition sample_note :: "string \<Rightarrow> string \<Rightarrow> rat \<Rightarrow> jsval" where
  "sample_note q gateway t = JObject [(''queueId'', JString q), (''gateway'', JString gateway), (''text'', JString ''hi''), (''lat'', JNumber (Num 45)),
     (''lon'', JNumber (Num 7)), (''kind'', JString ''info''), (''queuedAt'', JNumber (Num t))]"

lemma nothing_lost_witness:
  "queued_ids [sample_note ''a'' ''box'' 5, sample_note ''b'' ''other'' 6] \<subseteq>
     queued_ids (ds_entries (snd (snd (flushPendingDrops ''box'' (\<lambda>_ _. None) (\<lambda>_ t. t) (\<lambda>_. 7) \<lparr>ds_entries = [sample_note ''a'' ''box'' 5, sample_note ''b'' ''other'' 6], ds_writable = True\<rparr>))))
     \<union> settled (fst (snd (flushPendingDrops ''box'' (\<lambda>_ _. None) (\<lambda>_ t. t) (\<lambda>_. 7) \<lparr>ds_entries = [sample_note ''a'' ''box'' 5, sample_note ''b'' ''other'' 6], ds_writable = True\<rparr>)))
   \<and> fst (snd (flushPendingDrops ''box'' (\<lambda>_ _. None) (\<lambda>_ t. t) (\<lambda>_. 7) \<lparr>ds_entries = [sample_note ''a'' ''box'' 5, sample_note ''b'' ''other'' 6], ds_writable = True\<rparr>))
     = [Sending (sample_note ''a'' ''box'' 5) 86399998, Published (sample_note ''a'' ''box'' 5)]"
proof
  let ?s = "\<lparr>ds_entries = [sample_note ''a'' ''box'' 5, sample_note ''b'' ''other'' 6], ds_writable = True\<rparr>"
  let ?f = "flushPendingDrops ''box'' (\<lambda>_ _. None) (\<lambda>_ t. t) (\<lambda>_. 7) ?s"
  show "queued_ids [sample_note ''a'' ''box'' 5, sample_note ''b'' ''other'' 6] \<subseteq> queued_ids (ds_entries (snd (snd ?f))) \<union> settled (fst (snd ?f))"
    using nothing_lost[of "\<lambda>_ t. t" "''box''" "\<lambda>_ _. None" "\<lambda>_. 7" ?s "fst ?f" "fst (snd ?f)" "snd (snd ?f)"] by simp
  show "fst (snd ?f) = [Sending (sample_note ''a'' ''box'' 5) 86399998, Published (sample_note ''a'' ''box'' 5)]" by code_simp
qed

section \<open>What is sent, and how often\<close>

lemma flush_entry_sends:
  "flush_entry gateway send meanwhile clock i e r s = (i', go, r', vs, s') \<Longrightarrow> Sending e' ms \<in> set vs \<Longrightarrow>
     e' = e \<and> jfield e ''gateway'' = JString gateway \<and> remainingLifetimeMs e (clock i) > 0 \<and> ms = remainingLifetimeMs e (clock (i + 2))"
  by (auto simp: flush_entry_def finish_send_def Let_def split: if_splits prod.splits option.splits send_failure.splits)

lemma flush_loop_sends:
  "flush_loop gateway send meanwhile clock i es r evs s = (r', evs', s') \<Longrightarrow> Sending e ms \<in> set evs' \<Longrightarrow>
     Sending e ms \<in> set evs \<or> (e \<in> set es \<and> jfield e ''gateway'' = JString gateway
       \<and> (\<exists>j. remainingLifetimeMs e (clock j) > 0 \<and> ms = remainingLifetimeMs e (clock (j + 2))))"
proof (induction es arbitrary: i r evs s)
  case (Cons x es)
  obtain i1 go r1 vs s1 where step: "flush_entry gateway send meanwhile clock i x r s = (i1, go, r1, vs, s1)" by (metis prod_cases5)
  have "Sending e ms \<in> set (evs @ vs) \<or> (e \<in> set es \<and> jfield e ''gateway'' = JString gateway
       \<and> (\<exists>j. remainingLifetimeMs e (clock j) > 0 \<and> ms = remainingLifetimeMs e (clock (j + 2))))"
    using Cons.prems step Cons.IH[of i1 r1 "evs @ vs" s1] by (cases go) auto
  then show ?case using flush_entry_sends[OF step] by auto
qed auto

text \<open>A note is sent only to the gateway for which it was written, only if it was well formed and had time left when its turn came, and never
  with a lifetime of more than a day.\<close>

theorem sent_to_own_gateway:
  assumes "flushPendingDrops gateway send meanwhile clock s = (r, evs, s')" and "Sending e ms \<in> set evs"
  shows "isWellFormedEntry e \<and> jfield e ''gateway'' = JString gateway \<and> ms \<le> PENDING_DROP_MAX_AGE_MS
    \<and> (\<exists>j. 0 < remainingLifetimeMs e (clock j) \<and> ms = remainingLifetimeMs e (clock (j + 2)))"
proof -
  obtain pending gone s1 where load: "loadPendingDrops (clock 0) s = ((pending, gone), s1)" by (metis surj_pair)
  have "e \<in> set pending \<and> jfield e ''gateway'' = JString gateway \<and> (\<exists>j. 0 < remainingLifetimeMs e (clock j) \<and> ms = remainingLifetimeMs e (clock (j + 2)))"
    using flush_loop_sends[of gateway send meanwhile clock 1 pending _ "map Expired gone" s1 r evs s' e ms] assms load
    by (auto simp: flushPendingDrops_def)
  then show ?thesis using loadPending_ids(2)[OF load] by (auto simp: remainingLifetimeMs_def)
qed

lemma sent_to_own_gateway_witness:
  "Sending (sample_note ''a'' ''box'' 5) 86399998 \<in> set (fst (snd (flushPendingDrops ''box'' (\<lambda>_ _. None) (\<lambda>_ t. t) (\<lambda>_. 7)
      \<lparr>ds_entries = [sample_note ''a'' ''box'' 5, sample_note ''b'' ''other'' 6], ds_writable = True\<rparr>)))
   \<and> isWellFormedEntry (sample_note ''a'' ''box'' 5) \<and> jfield (sample_note ''a'' ''box'' 5) ''gateway'' = JString ''box''"
proof -
  let ?s = "\<lparr>ds_entries = [sample_note ''a'' ''box'' 5, sample_note ''b'' ''other'' 6], ds_writable = True\<rparr>"
  let ?f = "flushPendingDrops ''box'' (\<lambda>_ _. None) (\<lambda>_ t. t) (\<lambda>_. 7) ?s"
  have in_set: "Sending (sample_note ''a'' ''box'' 5) 86399998 \<in> set (fst (snd ?f))" by code_simp
  then show ?thesis using sent_to_own_gateway[of "''box''" "\<lambda>_ _. None" "\<lambda>_ t. t" "\<lambda>_. 7" ?s "fst ?f" "fst (snd ?f)" "snd (snd ?f)"] by simp
qed

fun published :: "round_event list \<Rightarrow> string list" where
  "published [] = []"
| "published (Published e # vs) = queue_id e # published vs"
| "published (_ # vs) = published vs"

lemma published_append [simp]: "published (a @ b) = published a @ published b" by (induction a rule: published.induct) auto
lemma published_Expired [simp]: "published (map Expired es) = []" by (induction es) auto

text \<open>The converse inclusions: what the steps cannot add to the queue.\<close>

lemma queued_ids_change_le: "queued_ids (change_first P f es) \<subseteq> queued_ids es \<union> {queue_id (f e) | e. P e \<and> isWellFormedEntry (f e)}"
  by (induction es) auto

lemma claimPending_adds:
  assumes "claimPendingDrop q now s = (ok, s1)"
  shows "queued_ids (ds_entries s1) \<subseteq> queued_ids (ds_entries s) \<and> ds_writable s1 = ds_writable s \<and> (ok \<longrightarrow> ds_writable s \<and> q \<in> queued_ids (ds_entries s))"
proof (cases "find (\<lambda>e. has_id q e \<and> isWellFormedEntry e) (ds_entries s)")
  case (Some e)
  then have "e \<in> set (ds_entries s)" "has_id q e" "isWellFormedEntry e" by (auto simp: find_Some_iff)
  then have q: "q \<in> queued_ids (ds_entries s)" by (auto simp: queued_ids_def has_queue_id)
  have "{queue_id (jset ''sendingSince'' (JNumber (Num now)) e) | e. (has_id q e \<and> isWellFormedEntry e) \<and> isWellFormedEntry (jset ''sendingSince'' (JNumber (Num now)) e)} \<subseteq> {q}"
    by (auto simp: wf_mark has_queue_id)
  then have "queued_ids (change_first (\<lambda>e. has_id q e \<and> isWellFormedEntry e) (jset ''sendingSince'' (JNumber (Num now))) (ds_entries s)) \<subseteq> queued_ids (ds_entries s)"
    by (intro subset_trans[OF queued_ids_change_le]) (use q in blast)
  with q assms Some show ?thesis by (auto simp: claimPendingDrop_def writeEntries_def Let_def split: if_splits)
qed (use assms in \<open>auto simp: claimPendingDrop_def\<close>)

lemma removePending_removes: "ds_writable s \<Longrightarrow> queued_ids (ds_entries (removePendingDrop q s)) = queued_ids (ds_entries s) - {q}"
  by (auto simp: removePendingDrop_def writeEntries_def queued_ids_def has_queue_id)

lemma removePending_adds: "queued_ids (ds_entries (removePendingDrop q s)) \<subseteq> queued_ids (ds_entries s)"
  by (auto simp: removePendingDrop_def writeEntries_def queued_ids_def)

lemma has_id_object: "has_id q e \<Longrightarrow> \<exists>fs. e = JObject fs"
  by (cases e) (simp_all add: has_id_def)

lemma releasePending_adds: "queued_ids (ds_entries (releasePendingDrop q s)) \<subseteq> queued_ids (ds_entries s) \<union> {q}"
proof -
  have "queue_id (jdelete ''sendingSince'' e) = q" if "has_id q e" for e
    using has_id_object[OF that] that by (auto simp: has_id_def queue_id_def jfield_jdelete simp del: jdelete.simps jfield.simps)
  then show ?thesis using queued_ids_change_le[of "has_id q" "jdelete ''sendingSince''" "ds_entries s"]
    by (auto simp: releasePendingDrop_def writeEntries_def split: option.splits if_splits)
qed

lemma finish_send_once:
  assumes "finish_send outcome e r s = (go, r', vs, s')" "ds_writable s"
  shows "ds_writable s' \<and> queued_ids (ds_entries s') \<subseteq> queued_ids (ds_entries s) \<union> {queue_id e}
    \<and> (published vs = [] \<or> published vs = [queue_id e] \<and> queue_id e \<notin> queued_ids (ds_entries s'))"
proof -
  have w: "ds_writable (removePendingDrop q t) = ds_writable t" "ds_writable (releasePendingDrop q t) = ds_writable t" for q t
    by (simp_all add: removePendingDrop_def releasePendingDrop_def writeEntries_def split: option.split)
  show ?thesis using assms w releasePending_adds[of "queue_id e" s]
    by (auto simp: finish_send_def removePending_removes split: option.splits send_failure.splits)
qed

text \<open>What happened so far agrees with the queue: nothing published is in it.\<close>

definition published_gone :: "round_event list \<Rightarrow> drop_storage \<Rightarrow> bool" where
  "published_gone evs s \<longleftrightarrow> distinct (published evs) \<and> set (published evs) \<inter> queued_ids (ds_entries s) = {}"

lemma flush_entry_once:
  assumes others: "\<And>e t. queued_ids (ds_entries (meanwhile e t)) \<subseteq> queued_ids (ds_entries t) \<union> fresh"
      "\<And>e t. ds_writable (meanwhile e t) = ds_writable t"
    and step: "flush_entry gateway send meanwhile clock i e r s = (i', go, r', vs, s')"
    and inv: "published_gone evs s" "set (published evs) \<inter> fresh = {}" "queue_id e \<notin> fresh"
  shows "published_gone (evs @ vs) s' \<and> set (published (evs @ vs)) \<inter> fresh = {}"
proof (cases "published vs = [] \<and> queued_ids (ds_entries s') \<subseteq> queued_ids (ds_entries s)")
  case True
  then show ?thesis using inv by (auto simp: published_gone_def)
next
  case False
  obtain s1 ok where claim: "claimPendingDrop (queue_id e) (clock (i + 1)) s = (ok, s1)" by fastforce
  note c = claimPending_adds[OF claim]
  have ok: "ok" using False step claim c removePending_adds[of "queue_id e" s] by (auto simp: flush_entry_def Let_def split: if_splits)
  let ?out = "send e (remainingLifetimeMs e (clock (i + 2)))"
  have "\<exists>us. finish_send ?out e r (meanwhile e s1) = (go, r', us, s') \<and> published us = published vs"
    using False ok step claim removePending_adds[of "queue_id e" s] by (auto simp: flush_entry_def Let_def split: if_splits prod.splits)
  then obtain us where us: "finish_send ?out e r (meanwhile e s1) = (go, r', us, s')" "published us = published vs" by blast
  have now: "queued_ids (ds_entries (meanwhile e s1)) \<subseteq> queued_ids (ds_entries s) \<union> fresh"
    using others(1)[of e s1] c by blast
  have here: "queue_id e \<in> queued_ids (ds_entries s)" using c ok by simp
  have "ds_writable (meanwhile e s1)" using others(2)[of e s1] c ok by simp
  note f = finish_send_once[OF us(1) this, unfolded us(2)]
  have "queued_ids (ds_entries s') \<subseteq> queued_ids (ds_entries s) \<union> fresh" using f now here by blast
  then show ?thesis using f inv here unfolding published_gone_def by (elim conjE disjE) auto
qed

lemma flush_loop_once:
  assumes others: "\<And>e t. queued_ids (ds_entries (meanwhile e t)) \<subseteq> queued_ids (ds_entries t) \<union> fresh"
      "\<And>e t. ds_writable (meanwhile e t) = ds_writable t"
  shows "flush_loop gateway send meanwhile clock i es r evs s = (r', evs', s') \<Longrightarrow> published_gone evs s \<Longrightarrow> set (published evs) \<inter> fresh = {}
    \<Longrightarrow> queue_id ` set es \<inter> fresh = {} \<Longrightarrow> published_gone evs' s'"
proof (induction es arbitrary: i r evs s)
  case (Cons e es)
  obtain i1 go r1 vs s1 where step: "flush_entry gateway send meanwhile clock i e r s = (i1, go, r1, vs, s1)" by (metis prod_cases5)
  have "published_gone (evs @ vs) s1 \<and> set (published (evs @ vs)) \<inter> fresh = {}"
    by (rule flush_entry_once[OF others step Cons.prems(2,3)]) (use Cons.prems(4) in auto)
  then show ?case using Cons.prems step Cons.IH[of i1 r1 "evs @ vs" s1] by (cases go) auto
qed auto

text \<open>In one round no note is published twice, and a published note is no longer in the queue at its end, so that no later round sends it
  again: even if the queue held two copies of it, and if the application adds further notes, under other ids, while the round runs.\<close>

theorem published_once:
  assumes "\<And>e t. queued_ids (ds_entries (meanwhile e t)) \<subseteq> queued_ids (ds_entries t) \<union> fresh" "\<And>e t. ds_writable (meanwhile e t) = ds_writable t"
    and "queued_ids (ds_entries s) \<inter> fresh = {}"
    and "flushPendingDrops gateway send meanwhile clock s = (r, evs, s')"
  shows "distinct (published evs) \<and> set (published evs) \<inter> queued_ids (ds_entries s') = {}"
proof -
  obtain pending gone s1 where load: "loadPendingDrops (clock 0) s = ((pending, gone), s1)" by (metis surj_pair)
  have ids: "queue_id ` set pending \<inter> fresh = {}" using loadPending_ids(3)[OF load] assms(3) by blast
  have run: "flush_loop gateway send meanwhile clock 1 pending \<lparr>fr_published = 0, fr_discarded = 0, fr_expired = length gone, fr_stoppedBy = None\<rparr>
      (map Expired gone) s1 = (r, evs, s')" using assms(4) load by (simp add: flushPendingDrops_def)
  have start: "published_gone (map Expired gone) s1" by (simp add: published_gone_def)
  have "published_gone evs s'" by (rule flush_loop_once[OF assms(1,2) run start _ ids]) simp
  then show ?thesis by (simp add: published_gone_def)
qed

lemma published_once_witness:
  "distinct (published (fst (snd (flushPendingDrops ''box'' (\<lambda>_ _. None) (\<lambda>_ t. t) (\<lambda>_. 7)
      \<lparr>ds_entries = [sample_note ''a'' ''box'' 5, sample_note ''a'' ''box'' 6], ds_writable = True\<rparr>))))
   \<and> published (fst (snd (flushPendingDrops ''box'' (\<lambda>_ _. None) (\<lambda>_ t. t) (\<lambda>_. 7)
      \<lparr>ds_entries = [sample_note ''a'' ''box'' 5, sample_note ''a'' ''box'' 6], ds_writable = True\<rparr>))) = [''a'']"
proof -
  let ?s = "\<lparr>ds_entries = [sample_note ''a'' ''box'' 5, sample_note ''a'' ''box'' 6], ds_writable = True\<rparr>"
  let ?f = "flushPendingDrops ''box'' (\<lambda>_ _. None) (\<lambda>_ t. t) (\<lambda>_. 7) ?s"
  have "published (fst (snd ?f)) = [''a'']" by code_simp
  then show ?thesis using published_once[of "\<lambda>_ t. t" "{}" ?s "''box''" "\<lambda>_ _. None" "\<lambda>_. 7" "fst ?f" "fst (snd ?f)" "snd (snd ?f)"] by simp
qed

section \<open>Accepting a note\<close>

text \<open>A note is either accepted, and is then in the storage together with every well-formed note that was there, at most twenty of them if they were
  at most twenty, or refused, and then the storage is as it was.\<close>

theorem enqueue_accepts_or_refuses:
  "case enqueuePendingDrop fresh i now s of
     (None, s') \<Rightarrow> s' = s
   | (Some e, s') \<Rightarrow> e \<in> set (ds_entries s') \<and> isWellFormedEntry e \<and> {x \<in> set (ds_entries s). isWellFormedEntry x} \<subseteq> set (ds_entries s')
       \<and> length (filter isWellFormedEntry (ds_entries s')) \<le> max MAX_PENDING_DROPS (length (filter isWellFormedEntry (ds_entries s)))"
  by (auto simp: enqueuePendingDrop_def writeEntries_def Let_def find_Some_iff dest!: nth_mem split: option.splits)

end
