(* ===== verification/MobileRelay.thy ===== *)
theory MobileRelay
  imports Routing StoreForward Messages
begin

text \<open>
  The telephone as a relay (\<open>mobile/www/ble-relay.js\<close>): its own copies of the duplicate cache, the forwarding decision and the queue of
  packets that wait for a peer. The properties say that the copies agree with the node's \<open>routing.ts\<close> and \<open>store-and-forward.ts\<close>. The
  limits are the positive integers of the code's callers; the node's versions also take a limit that is not an integer.
\<close>

section \<open>The duplicate cache and the forwarding decision\<close>

record phone_seen =
  ps_seen :: "(string, time) jsmap"
  ps_maxSize :: nat

definition MAX_SEEN_IDS :: nat where "MAX_SEEN_IDS = 4096"

definition phone_seen_new :: "nat option \<Rightarrow> phone_seen" where
  "phone_seen_new maxSize = \<lparr>ps_seen = [], ps_maxSize = (case maxSize of Some n \<Rightarrow> n | None \<Rightarrow> MAX_SEEN_IDS)\<rparr>"

definition phone_hasSeen :: "phone_seen \<Rightarrow> string \<Rightarrow> bool" where
  "phone_hasSeen c i \<longleftrightarrow> map_of (ps_seen c) i \<noteq> None"

definition phone_markSeen :: "time \<Rightarrow> string \<Rightarrow> phone_seen \<Rightarrow> phone_seen" where
  "phone_markSeen now i c =
     (if phone_hasSeen c i then c
      else let kept = (if length (ps_seen c) \<ge> ps_maxSize c then (case first_key (ps_seen c) of Some k \<Rightarrow> map_del k (ps_seen c) | None \<Rightarrow> []) else ps_seen c)
        in c\<lparr>ps_seen := map_put i now kept\<rparr>)"

definition phone_decideForward :: "time \<Rightarrow> 'p packet \<Rightarrow> string \<Rightarrow> phone_seen \<Rightarrow> 'p forward_decision \<times> phone_seen" where
  "phone_decideForward now packet localNodeId c =
     (if phone_hasSeen c (pk_id packet) then (\<lparr>duplicate = True, deliverLocally = False, forwardPacket = None\<rparr>, c)
      else let isUnicastForMe = (pk_destination packet \<noteq> JUndefined \<and> pk_destination packet = JString localNodeId);
        isBroadcast = (pk_destination packet = JUndefined);
        shouldForward = (\<not> isUnicastForMe \<and> num_lt (Num 0) (pk_ttl packet))
        in (\<lparr>duplicate = False, deliverLocally = (isUnicastForMe \<or> isBroadcast),
              forwardPacket = (if shouldForward then Some (packet\<lparr>pk_ttl := num_add (pk_ttl packet) (-1)\<rparr>) else None)\<rparr>,
            phone_markSeen now (pk_id packet) c))"

text \<open>Two caches that hold the same ids, in the same order, and have the same limit.\<close>

definition same_seen :: "phone_seen \<Rightarrow> seen_cache \<Rightarrow> bool" where
  "same_seen c m \<longleftrightarrow> ps_seen c = bm_map m \<and> bm_max m = Num (of_nat (ps_maxSize c)) \<and> ps_maxSize c > 0"

lemma phone_markSeen_same:
  assumes "same_seen c m"
  shows "same_seen (phone_markSeen now i c) (markSeenId now i m)"
proof -
  have m: "bm_map m = ps_seen c" "bm_max m = Num (of_nat (ps_maxSize c))" "ps_maxSize c > 0" using assms by (simp_all add: same_seen_def)
  have full: "num_le (bm_max m) (Num (of_nat (bm_size m))) \<longleftrightarrow> ps_maxSize c \<le> length (ps_seen c)" by (simp add: m bm_size_def)
  have pos: "\<not> num_le (bm_max m) (Num 0)" using m(3) by (simp add: m(2))
  show ?thesis using m full pos
    by (auto simp: same_seen_def phone_markSeen_def phone_hasSeen_def markSeenId_def bm_has_def bm_set_def pick_victim_def Let_def split: option.splits)
qed

lemma phone_decideForward_same:
  "same_seen c m \<Longrightarrow> fst (phone_decideForward now p me c) = fst (decideForward now p me m) \<and>
     same_seen (snd (phone_decideForward now p me c)) (snd (decideForward now p me m))"
  using phone_markSeen_same[of c m now "pk_id p"]
  by (auto simp: phone_decideForward_def decideForward_def Let_def phone_hasSeen_def hasSeen_def bm_has_def same_seen_def)

fun decisions :: "(time \<Rightarrow> 'p packet \<Rightarrow> 'c \<Rightarrow> 'p forward_decision \<times> 'c) \<Rightarrow> (time \<times> 'p packet) list \<Rightarrow> 'c \<Rightarrow> 'p forward_decision list" where
  "decisions decide [] c = []"
| "decisions decide ((now, p) # ps) c = (let (d, c') = decide now p c in d # decisions decide ps c')"

lemma decisions_same:
  "same_seen c m \<Longrightarrow> decisions (\<lambda>now p. phone_decideForward now p me) ps c = decisions (\<lambda>now p. decideForward now p me) ps m"
proof (induction ps arbitrary: c m)
  case (Cons x ps)
  obtain now p where x: "x = (now, p)" by (cases x)
  show ?case using phone_decideForward_same[OF Cons.prems, of now p me] Cons.IH by (auto simp: x split_beta Let_def)
qed simp

text \<open>C37: The telephone forwards exactly as the node does: for every sequence of packets, from a fresh cache, the two take the same decisions, which packets
  are duplicates after evictions included.\<close>

theorem phone_decides_as_node:
  "decisions (\<lambda>now p. phone_decideForward now p me) ps (phone_seen_new None) = decisions (\<lambda>now p. decideForward now p me) ps (seen_new None)"
  by (rule decisions_same) (simp add: same_seen_def phone_seen_new_def seen_new_def bm_new_def MAX_SEEN_IDS_def)

section \<open>The queue of packets that wait for a peer\<close>

record 'p phone_queue =
  ph_entries :: "(string, 'p delivery) jsmap"
  ph_ttlMs :: time
  ph_maxSize :: nat

definition phone_queue_new :: "time option \<Rightarrow> nat option \<Rightarrow> 'p phone_queue" where
  "phone_queue_new ttlMs maxSize = \<lparr>ph_entries = [], ph_ttlMs = (case ttlMs of Some t \<Rightarrow> t | None \<Rightarrow> 5 * 60 * 1000),
     ph_maxSize = (case maxSize of Some n \<Rightarrow> n | None \<Rightarrow> 256)\<rparr>"

text \<open>The loop of \<open>#evictLowestPriority\<close>, with \<open>worstId\<close> and \<open>worstRank\<close> as its state.\<close>

fun worst_entry :: "(string, 'p delivery) jsmap \<Rightarrow> string option \<Rightarrow> int \<Rightarrow> string option" where
  "worst_entry [] worstId worstRank = worstId"
| "worst_entry ((i, d) # es) worstId worstRank =
     (let rank = int (priority_num (dl_priority d)) in
      if rank > worstRank then worst_entry es (Some i) rank else worst_entry es worstId worstRank)"

definition evictLowestPriority :: "(string, 'p delivery) jsmap \<Rightarrow> (string, 'p delivery) jsmap" where
  "evictLowestPriority es = (case worst_entry es None (-1) of Some k \<Rightarrow> map_del k es | None \<Rightarrow> es)"

definition make_room :: "'p phone_queue \<Rightarrow> (string, 'p delivery) jsmap" where
  "make_room q = (if length (ph_entries q) \<ge> ph_maxSize q then evictLowestPriority (ph_entries q) else ph_entries q)"

definition phone_enqueue :: "time \<Rightarrow> 'p packet \<Rightarrow> string option \<Rightarrow> 'p phone_queue \<Rightarrow> 'p phone_queue" where
  "phone_enqueue now packet exceptPeerId q =
     (if map_of (ph_entries q) (pk_id packet) \<noteq> None then q
      else let expiresAt = (if priorityRank (pk_priority packet) = EMERGENCY then PosInf else Num (now + ph_ttlMs q))
        in q\<lparr>ph_entries := map_put (pk_id packet) \<lparr>dl_packet = packet, dl_except = exceptPeerId, dl_expiresAt = expiresAt\<rparr> (make_room q)\<rparr>)"

definition phone_requeue :: "time \<Rightarrow> 'p delivery \<Rightarrow> 'p phone_queue \<Rightarrow> 'p phone_queue" where
  "phone_requeue now entry q =
     (if map_of (ph_entries q) (pk_id (dl_packet entry)) \<noteq> None then q
      else if num_le (dl_expiresAt entry) (Num now) then q
      else q\<lparr>ph_entries := map_put (pk_id (dl_packet entry)) entry (make_room q)\<rparr>)"

text \<open>The loop of \<open>drainFor\<close>: what is ready for the peer, and what stays.\<close>

fun drain_entries :: "time \<Rightarrow> string \<Rightarrow> (string, 'p delivery) jsmap \<Rightarrow> 'p delivery list \<times> (string, 'p delivery) jsmap" where
  "drain_entries now peer [] = ([], [])"
| "drain_entries now peer ((i, d) # es) = (let (ready, rest) = drain_entries now peer es in
     if num_le (dl_expiresAt d) (Num now) then (ready, rest)
     else if pk_destination (dl_packet d) = JString peer then (d # ready, rest)
     else (ready, (i, d) # rest))"

definition drainFor :: "time \<Rightarrow> string \<Rightarrow> 'p phone_queue \<Rightarrow> 'p delivery list \<times> 'p phone_queue" where
  "drainFor now peerNodeId q = (let (ready, rest) = drain_entries now peerNodeId (ph_entries q) in (ready, q\<lparr>ph_entries := rest\<rparr>))"

section \<open>The telephone's queue simulates the node's\<close>

definition same_queue :: "'p phone_queue \<Rightarrow> 'p pending_queue \<Rightarrow> bool" where
  "same_queue h q \<longleftrightarrow> ph_entries h = bm_map (pq_entries q) \<and> bm_max (pq_entries q) = Num (of_nat (ph_maxSize h)) \<and> ph_maxSize h > 0
     \<and> ph_ttlMs h = pq_ttlMs q \<and> pdq_ok q"

text \<open>The first entry of the highest rank is the first of the least score.\<close>

lemma worst_entry_scan:
  "worst_entry es (Some k) (int r) = scan_victim (\<lambda>i d. Num (- of_nat (priority_num (dl_priority d)))) es (Some k) (Num (- of_nat r))"
  by (induction es arbitrary: k r) (auto simp: Let_def)

lemma evictLowestPriority_victim:
  "evictLowestPriority es = (case pick_victim pdq_score es of Some k \<Rightarrow> map_del k es | None \<Rightarrow> es)"
proof (cases es)
  case (Cons x xs)
  obtain i d where x: "x = (i, d)" by (cases x)
  have "scan_victim (\<lambda>i d. Num (- of_nat (priority_num (dl_priority d)))) xs (Some i) (Num (- of_nat (priority_num (dl_priority d)))) \<noteq> None"
    by (metis scan_victim_None option.discI)
  then show ?thesis
    by (auto simp: Cons x evictLowestPriority_def pick_victim_def pdq_score_def Let_def worst_entry_scan split: option.splits)
qed (simp add: evictLowestPriority_def pick_victim_def pdq_score_def)

lemma put_same:
  assumes "same_queue h q" "map_of (ph_entries h) i = None"
  shows "map_put i d (make_room h) = bm_map (bm_put pdq_score i d (pq_entries q))"
proof -
  have m: "bm_map (pq_entries q) = ph_entries h" "bm_max (pq_entries q) = Num (of_nat (ph_maxSize h))" "ph_maxSize h > 0"
    using assms by (simp_all add: same_queue_def)
  then show ?thesis using assms(2) evictLowestPriority_victim[of "ph_entries h"]
    by (auto simp: bm_set_def make_room_def bm_has_def bm_size_def Let_def split: option.splits)
qed

lemma phone_enqueue_same: "same_queue h q \<Longrightarrow> same_queue (phone_enqueue now p ex h) (pdq_enqueue now p ex q)"
  using put_same[of h q "pk_id p"] pdq_enqueue_ok[of q now p ex]
  by (auto simp: same_queue_def phone_enqueue_def pdq_enqueue_def bm_has_def Let_def)

lemma phone_requeue_same: "same_queue h q \<Longrightarrow> delivery_ok d \<Longrightarrow> same_queue (phone_requeue now d h) (pdq_requeue now d q)"
  using put_same[of h q "pk_id (dl_packet d)"] pdq_requeue_ok[of q d now]
  by (auto simp: same_queue_def phone_requeue_def pdq_requeue_def bm_has_def)

text \<open>Taking out what is for one peer is, on the node's queue, to drain everything and to put the rest back.\<close>

definition node_drain_for :: "time \<Rightarrow> string \<Rightarrow> 'p pending_queue \<Rightarrow> 'p delivery list \<times> 'p pending_queue" where
  "node_drain_for now peer q = (let (ds, q') = pdq_drain now q
     in (filter (\<lambda>d. pk_destination (dl_packet d) = JString peer) ds,
         requeue_all now (filter (\<lambda>d. pk_destination (dl_packet d) \<noteq> JString peer) ds) q'))"

lemma drain_entries_filter:
  "drain_entries now peer es =
     (filter (\<lambda>d. num_lt (Num now) (dl_expiresAt d) \<and> pk_destination (dl_packet d) = JString peer) (map snd es),
      filter (\<lambda>(i, d). num_lt (Num now) (dl_expiresAt d) \<and> pk_destination (dl_packet d) \<noteq> JString peer) es)"
  if "\<forall>(i, d) \<in> set es. delivery_ok d"
proof -
  have live: "num_lt (Num now) (dl_expiresAt d) \<longleftrightarrow> \<not> num_le (dl_expiresAt d) (Num now)" if "delivery_ok d" for d
    using that by (cases "dl_expiresAt d") (auto simp: delivery_ok_def num_le_def split: if_splits)
  show ?thesis using that by (induction es) (auto simp: live)
qed

lemma requeue_all_appends:
  assumes "\<forall>d \<in> set ds. \<not> num_le (dl_expiresAt d) (Num now)" "bm_max (pq_entries q) = Num (of_nat n)" "n > 0"
    and "distinct (map (\<lambda>d. pk_id (dl_packet d)) ds)" "\<forall>d \<in> set ds. map_of (bm_map (pq_entries q)) (pk_id (dl_packet d)) = None"
    and "length (bm_map (pq_entries q)) + length ds \<le> n"
  shows "requeue_all now ds q = q\<lparr>pq_entries := (pq_entries q)\<lparr>bm_map := bm_map (pq_entries q) @ map (\<lambda>d. (pk_id (dl_packet d), d)) ds\<rparr>\<rparr>"
  using assms
proof (induction ds arbitrary: q)
  case (Cons d ds)
  let ?i = "pk_id (dl_packet d)"
  have full: "\<not> num_le (bm_max (pq_entries q)) (Num (of_nat (bm_size (pq_entries q))))" "\<not> num_le (bm_max (pq_entries q)) (Num 0)"
    using Cons.prems by (simp_all add: bm_size_def)
  have "pdq_requeue now d q = q\<lparr>pq_entries := (pq_entries q)\<lparr>bm_map := bm_map (pq_entries q) @ [(?i, d)]\<rparr>\<rparr>"
    using Cons.prems full by (simp add: pdq_requeue_def bm_set_def bm_has_def map_put_new Let_def)
  moreover have "\<forall>e \<in> set ds. pk_id (dl_packet e) \<noteq> ?i" using Cons.prems(4) by (force simp: image_iff)
  ultimately show ?case using Cons.prems Cons.IH[of "pdq_requeue now d q"] by (auto simp: map_of_append map_add_def split: option.splits)
qed simp

lemma filter_by_id:
  "\<forall>(i, d) \<in> set es. pk_id (dl_packet d) = i \<Longrightarrow> map (\<lambda>d. (pk_id (dl_packet d), d)) (filter P (map snd es)) = filter (\<lambda>(i, d). P d) es"
  by (induction es) auto

lemma drainFor_same:
  assumes s: "same_queue h q"
  shows "fst (drainFor now peer h) = fst (node_drain_for now peer q) \<and> same_queue (snd (drainFor now peer h)) (snd (node_drain_for now peer q))"
proof -
  let ?es = "bm_map (pq_entries q)"
  have ok: "pdq_ok q" and h: "ph_entries h = ?es" using s by (simp_all add: same_queue_def)
  have entry: "pk_id (dl_packet d) = i \<and> delivery_ok d" if "(i, d) \<in> set ?es" for i d
    using that ok by (auto simp: pdq_ok_def bm_get_in)
  let ?rest = "filter (\<lambda>d. pk_destination (dl_packet d) \<noteq> JString peer) (filter (\<lambda>d. num_lt (Num now) (dl_expiresAt d)) (map snd ?es))"
  let ?left = "filter (\<lambda>(i, d). num_lt (Num now) (dl_expiresAt d) \<and> pk_destination (dl_packet d) \<noteq> JString peer) ?es"
  let ?q0 = "q\<lparr>pq_entries := (pq_entries q)\<lparr>bm_map := []\<rparr>\<rparr>"
  have rest: "map (\<lambda>d. (pk_id (dl_packet d), d)) ?rest = ?left"
    using filter_by_id[of ?es "\<lambda>d. num_lt (Num now) (dl_expiresAt d) \<and> pk_destination (dl_packet d) \<noteq> JString peer"] entry
    by (auto simp: conj_commute)
  have bound: "length ?es \<le> ph_maxSize h" using s ok by (auto simp: same_queue_def pdq_ok_def bm_ok_def bm_size_def within_limit_nat simp del: within_limit.simps)
  have wf: "map_wf ?left" using ok by (simp add: pdq_ok_def bm_ok_def)
  have ids: "map (\<lambda>d. pk_id (dl_packet d)) ?rest = map fst ?left" using arg_cong[OF rest, of "map fst"] by (simp add: comp_def)
  have len: "length ?rest \<le> length ?es" by (metis length_filter_le length_map le_trans)
  have restored: "requeue_all now ?rest ?q0 = ?q0\<lparr>pq_entries := (pq_entries ?q0)\<lparr>bm_map := ?left\<rparr>\<rparr>"
  proof -
    have "requeue_all now ?rest ?q0 = ?q0\<lparr>pq_entries := (pq_entries ?q0)\<lparr>bm_map := bm_map (pq_entries ?q0) @ map (\<lambda>d. (pk_id (dl_packet d), d)) ?rest\<rparr>\<rparr>"
    proof (rule requeue_all_appends[where n = "ph_maxSize h"])
      show "\<forall>d \<in> set ?rest. \<not> num_le (dl_expiresAt d) (Num now)"
        by (auto simp: num_le_def dest: num_lt_asym)
      show "distinct (map (\<lambda>d. pk_id (dl_packet d)) ?rest)" unfolding ids by (rule wf)
      show "length (bm_map (pq_entries ?q0)) + length ?rest \<le> ph_maxSize h" using order_trans[OF len bound] by simp
    qed (use s in \<open>simp_all add: same_queue_def\<close>)
    then show ?thesis unfolding rest by simp
  qed
  have ok': "pdq_ok (snd (node_drain_for now peer q))"
  proof -
    have "\<forall>d \<in> set (filter (\<lambda>d. pk_destination (dl_packet d) \<noteq> JString peer) (fst (pdq_drain now q))). delivery_ok d"
      using pdq_drain_delivery_ok[OF ok] by auto
    then show ?thesis using requeue_all_ok[OF pdq_drain_ok[of now q]] by (simp add: node_drain_for_def split_beta)
  qed
  have "\<forall>(i, d) \<in> set ?es. delivery_ok d" using entry by auto
  note taken = drain_entries_filter[OF this, of now peer]
  have "fst (drainFor now peer h) = fst (node_drain_for now peer q)"
    by (simp add: drainFor_def h taken node_drain_for_def pdq_drain_def bm_values_def conj_commute)
  moreover have "ph_entries (snd (drainFor now peer h)) = ?left" by (simp add: drainFor_def h taken)
  moreover have "snd (node_drain_for now peer q) = ?q0\<lparr>pq_entries := (pq_entries ?q0)\<lparr>bm_map := ?left\<rparr>\<rparr>"
    using restored by (simp add: node_drain_for_def pdq_drain_def bm_values_def)
  ultimately show ?thesis using s ok' by (simp add: same_queue_def drainFor_def split_beta)
qed

datatype 'p queue_op = Enqueue time "'p packet" "string option" | DrainFor time string | RetryFor time string

text \<open>\<open>RetryFor\<close>: a peer's packets are taken out and could not be sent, so each is put back.\<close>

fun phone_ops :: "'p queue_op list \<Rightarrow> 'p phone_queue \<Rightarrow> 'p delivery list list \<times> 'p phone_queue" where
  "phone_ops [] h = ([], h)"
| "phone_ops (Enqueue now p ex # ops) h = phone_ops ops (phone_enqueue now p ex h)"
| "phone_ops (DrainFor now peer # ops) h = (let (ds, h') = drainFor now peer h; (dss, h'') = phone_ops ops h' in (ds # dss, h''))"
| "phone_ops (RetryFor now peer # ops) h = (let (ds, h') = drainFor now peer h; (dss, h'') = phone_ops ops (fold (phone_requeue now) ds h') in (ds # dss, h''))"

fun node_ops :: "'p queue_op list \<Rightarrow> 'p pending_queue \<Rightarrow> 'p delivery list list \<times> 'p pending_queue" where
  "node_ops [] q = ([], q)"
| "node_ops (Enqueue now p ex # ops) q = node_ops ops (pdq_enqueue now p ex q)"
| "node_ops (DrainFor now peer # ops) q = (let (ds, q') = node_drain_for now peer q; (dss, q'') = node_ops ops q' in (ds # dss, q''))"
| "node_ops (RetryFor now peer # ops) q = (let (ds, q') = node_drain_for now peer q; (dss, q'') = node_ops ops (requeue_all now ds q') in (ds # dss, q''))"

lemma requeues_same: "same_queue h q \<Longrightarrow> \<forall>d \<in> set ds. delivery_ok d \<Longrightarrow> same_queue (fold (phone_requeue now) ds h) (requeue_all now ds q)"
  by (induction ds arbitrary: h q) (auto intro: phone_requeue_same)

lemma node_drain_for_ok: "pdq_ok q \<Longrightarrow> d \<in> set (fst (node_drain_for now peer q)) \<Longrightarrow> delivery_ok d"
  using pdq_drain_delivery_ok[of q d now] by (auto simp: node_drain_for_def split_beta)

lemma ops_same:
  "same_queue h q \<Longrightarrow> fst (phone_ops ops h) = fst (node_ops ops q) \<and> same_queue (snd (phone_ops ops h)) (snd (node_ops ops q))"
proof (induction ops arbitrary: h q)
  case (Cons op ops)
  show ?case
  proof (cases op)
    case (Enqueue now p ex)
    then show ?thesis using Cons.IH[OF phone_enqueue_same[OF Cons.prems]] by simp
  next
    case (DrainFor now peer)
    then show ?thesis using drainFor_same[OF Cons.prems, of now peer] Cons.IH by (simp add: split_beta Let_def)
  next
    case (RetryFor now peer)
    have given: "\<forall>d \<in> set (fst (node_drain_for now peer q)). delivery_ok d" using Cons.prems node_drain_for_ok by (auto simp: same_queue_def)
    note d = drainFor_same[OF Cons.prems, of now peer]
    have "same_queue (fold (phone_requeue now) (fst (node_drain_for now peer q)) (snd (drainFor now peer h)))
        (requeue_all now (fst (node_drain_for now peer q)) (snd (node_drain_for now peer q)))"
      by (rule requeues_same[OF conjunct2[OF d]]) (rule given)
    then show ?thesis using RetryFor d Cons.IH by (simp add: split_beta Let_def)
  qed
qed simp

text \<open>The telephone's queue implements the node's: under any sequence of operations, from a fresh queue of the default size, it gives out the same
  packets in the same order and is left with the same entries, evictions and deadlines included, where taking a peer's packets
  corresponds to draining the node's queue and putting the others back.\<close>

theorem phone_queue_refines_node_queue:
  "fst (phone_ops ops (phone_queue_new None None)) = fst (node_ops ops (pdq_new None None)) \<and>
   ph_entries (snd (phone_ops ops (phone_queue_new None None))) = bm_map (pq_entries (snd (node_ops ops (pdq_new None None))))"
proof -
  have "same_queue (phone_queue_new None None) (pdq_new None None)"
    by (simp add: same_queue_def phone_queue_new_def pdq_new_ok) (simp add: pdq_new_def bm_new_def)
  from ops_same[OF this, of ops] show ?thesis by (simp add: same_queue_def)
qed

section \<open>What the telephone counts\<close>

text \<open>The kind of public content a relayed packet carries, if it is of one of the three kinds that may be counted.\<close>

datatype relayed_kind = RelayedDrop | RelayedSos | RelayedChannel string

definition classifyRelayedPacket :: "jsval packet \<Rightarrow> relayed_kind option" where
  "classifyRelayedPacket packet =
     (if pk_type packet \<noteq> CONTENT_ANNOUNCE then None
      else case jfield (jfield (pk_payload packet) ''metadata'') ''name'' of
        JString name \<Rightarrow>
          if name = ''drop'' then Some RelayedDrop
          else if name = ''emergency-beacon'' then Some RelayedSos
          else if take (length CHANNEL_NAME_PREFIX) name = CHANNEL_NAME_PREFIX \<and> isValidChannelName (drop (length CHANNEL_NAME_PREFIX) name)
          then Some (RelayedChannel (drop (length CHANNEL_NAME_PREFIX) name)) else None
      | _ \<Rightarrow> None)"

lemma classify_channel_as_node:
  "classifyRelayedPacket p = Some (RelayedChannel c) \<longleftrightarrow>
     pk_type p = CONTENT_ANNOUNCE \<and> parseChannelFromContentName (jfield (jfield (pk_payload p) ''metadata'') ''name'') = Some c"
  by (auto simp: classifyRelayedPacket_def parseChannelFromContentName_def CHANNEL_NAME_PREFIX_def Let_def split: jsval.splits if_splits)

end
