(* ===== verification/PhoneSos.thy ===== *)
theory PhoneSos
  imports Packet
begin

text \<open>
  The SOS of the telephone: the one that waits for a channel (\<open>mobile/www/sos-queue.js\<close>) and the emergency shown on the screen
  (\<open>mobile/www/emergency-state.js\<close>). Each is one slot of the local storage, which can fail to read, to write or to remove. The channels race;
  what they do to the slots is a sequence of operations in any order, and the race itself a sequence of settled promises.
\<close>

section \<open>A slot of the storage\<close>

datatype stored = Absent | Unparsable | Parsed jsval

record slot =
  sl_item :: stored
  sl_readable :: bool
  sl_writable :: bool
  sl_removable :: bool

definition clear_slot :: "slot \<Rightarrow> slot" where
  "clear_slot s = (if sl_removable s then s\<lparr>sl_item := Absent\<rparr> else s)"

definition save_slot :: "jsval \<Rightarrow> slot \<Rightarrow> slot" where
  "save_slot v s = (if sl_writable s then s\<lparr>sl_item := (case json_norm v of Some w \<Rightarrow> Parsed w | None \<Rightarrow> Unparsable)\<rparr> else s)"

definition load_slot :: "(jsval \<Rightarrow> bool) \<Rightarrow> slot \<Rightarrow> jsval option \<times> slot" where
  "load_slot valid s = (if \<not> sl_readable s then (None, s)
     else case sl_item s of
       Absent \<Rightarrow> (None, s)
     | Unparsable \<Rightarrow> (None, clear_slot s)
     | Parsed v \<Rightarrow> if valid v then (Some v, s) else (None, clear_slot s))"

fun is_number :: "jsval \<Rightarrow> bool" where "is_number (JNumber x) = True" | "is_number _ = False"
fun is_string :: "jsval \<Rightarrow> bool" where "is_string (JString s) = True" | "is_string _ = False"

definition absent_or :: "(jsval \<Rightarrow> bool) \<Rightarrow> jsval \<Rightarrow> bool" where
  "absent_or P v \<longleftrightarrow> v = JUndefined \<or> P v"

section \<open>The SOS that waits for a channel\<close>

definition well_formed_sos :: "jsval \<Rightarrow> bool" where
  "well_formed_sos e \<longleftrightarrow> (let packet = jfield e ''packet''; payload = jfield packet ''payload''; metadata = jfield payload ''metadata'' in
     is_object e \<and> is_number (jfield e ''queuedAt'') \<and> absent_or is_string (jfield e ''message'') \<and> absent_or is_number (jfield e ''lat'') \<and>
     absent_or is_number (jfield e ''lon'') \<and> is_object packet \<and> is_string (jfield packet ''id'') \<and> is_string (jfield packet ''type'') \<and>
     is_string (jfield packet ''source'') \<and> is_object payload \<and> is_object metadata \<and> is_number (jfield metadata ''expiresAt''))"

definition isPendingSosExpired :: "jsval \<Rightarrow> time \<Rightarrow> bool" where
  "isPendingSosExpired e now \<longleftrightarrow>
     (case jfield (jfield (jfield (jfield e ''packet'') ''payload'') ''metadata'') ''expiresAt'' of JNumber t \<Rightarrow> num_le t (Num now) | _ \<Rightarrow> False)"

definition loadPendingSos :: "time \<Rightarrow> slot \<Rightarrow> jsval option \<times> slot" where
  "loadPendingSos now = load_slot (\<lambda>e. well_formed_sos e \<and> \<not> isPendingSosExpired e now)"

definition savePendingSos :: "jsval \<Rightarrow> jsval \<Rightarrow> jsval \<Rightarrow> jsval \<Rightarrow> time \<Rightarrow> slot \<Rightarrow> slot" where
  "savePendingSos packet message lat lon now =
     save_slot (JObject [(''packet'', packet), (''message'', message), (''lat'', lat), (''lon'', lon), (''queuedAt'', JNumber (Num now))])"

definition claimSosSuccess :: "string \<Rightarrow> time \<Rightarrow> slot \<Rightarrow> bool \<times> slot" where
  "claimSosSuccess packetId now s = (case loadPendingSos now s of
     (Some pending, s') \<Rightarrow> if jfield (jfield pending ''packet'') ''id'' = JString packetId then (True, clear_slot s') else (False, s')
   | (None, s') \<Rightarrow> (False, s'))"

text \<open>The channels report their successes one after the other.\<close>

fun claims :: "(string \<times> time) list \<Rightarrow> slot \<Rightarrow> bool list" where
  "claims [] s = []"
| "claims ((q, now) # cs) s = (let (won, s') = claimSosSuccess q now s in won # claims cs s')"

lemma claims_empty: "sl_item s = Absent \<Longrightarrow> claims cs s = replicate (length cs) False"
  by (induction cs) (auto simp: claimSosSuccess_def loadPendingSos_def load_slot_def)

lemma claims_pending:
  assumes "sl_readable s" "sl_removable s" "sl_item s = Parsed e" "well_formed_sos e" "jfield (jfield e ''packet'') ''id'' = JString q"
    and "\<forall>(p, now) \<in> set cs. \<not> isPendingSosExpired e now"
  shows "claims cs s = map (\<lambda>i. fst (cs ! i) = q \<and> q \<notin> set (map fst (take i cs))) [0..<length cs]"
  using assms(6)
proof (induction cs)
  case (Cons c cs)
  obtain p now where c: "c = (p, now)" by (cases c)
  have load: "loadPendingSos now s = (Some e, s)" using assms Cons.prems by (simp add: loadPendingSos_def load_slot_def c)
  have cut: "[0..<length (c # cs)] = 0 # map Suc [0..<length cs]" by (simp add: map_Suc_upt upt_conv_Cons del: upt_Suc)
  show ?case
  proof (cases "p = q")
    case True
    have "claims (c # cs) s = True # replicate (length cs) False"
      using claims_empty[of "clear_slot s"] assms load by (simp add: c claimSosSuccess_def True clear_slot_def)
    moreover have "map (\<lambda>i. fst ((c # cs) ! i) = q \<and> q \<notin> set (map fst (take i (c # cs)))) [0..<length (c # cs)] = True # replicate (length cs) False"
      unfolding cut by (simp add: c True comp_def map_replicate_const)
    ultimately show ?thesis by simp
  next
    case False
    have "claims (c # cs) s = False # claims cs s" using load False assms(5) by (simp add: c claimSosSuccess_def)
    also have "\<dots> = map (\<lambda>i. fst ((c # cs) ! i) = q \<and> q \<notin> set (map fst (take i (c # cs)))) [0..<length (c # cs)]"
      unfolding cut using Cons.IH Cons.prems False by (simp add: c comp_def)
    finally show ?thesis .
  qed
qed simp

text \<open>When the channels race for one SOS, its success is reported exactly once, by the first channel that reports its packet: of any sequence of reports
  made before it expires, the first with its id succeeds, and reports for other packets neither succeed nor disturb it.\<close>

theorem sos_reported_exactly_once:
  assumes "sl_readable s" "sl_removable s" "sl_item s = Parsed e" "well_formed_sos e" "jfield (jfield e ''packet'') ''id'' = JString q"
    and "\<forall>(p, now) \<in> set cs. \<not> isPendingSosExpired e now"
  shows "claims cs s = map (\<lambda>i. fst (cs ! i) = q \<and> q \<notin> set (map fst (take i cs))) [0..<length cs]"
  using assms by (rule claims_pending)

definition sample_sos :: jsval where
  "sample_sos = JObject [(''packet'', JObject [(''id'', JString ''p1''), (''type'', JString ''CONTENT_ANNOUNCE''), (''source'', JString ''me''),
     (''payload'', JObject [(''metadata'', JObject [(''expiresAt'', JNumber (Num 100))])])]), (''queuedAt'', JNumber (Num 1))]"

lemma sos_reported_exactly_once_witness:
  "claims [(''p0'', 5), (''p1'', 6), (''p1'', 7)] \<lparr>sl_item = Parsed sample_sos, sl_readable = True, sl_writable = True, sl_removable = True\<rparr> = [False, True, False]"
proof -
  have "well_formed_sos sample_sos" "jfield (jfield sample_sos ''packet'') ''id'' = JString ''p1''" by code_simp+
  moreover have "\<not> isPendingSosExpired sample_sos 5" "\<not> isPendingSosExpired sample_sos 6" "\<not> isPendingSosExpired sample_sos 7" by code_simp+
  ultimately show ?thesis
    using sos_reported_exactly_once[of "\<lparr>sl_item = Parsed sample_sos, sl_readable = True, sl_writable = True, sl_removable = True\<rparr>" sample_sos "''p1''" "[(''p0'', 5), (''p1'', 6), (''p1'', 7)]"]
    by (simp add: upt_rec)
qed

section \<open>The race of the channels\<close>

text \<open>\<open>raceFirstSuccess\<close>: what is still awaited and what the result was resolved to. Only the first \<open>resolve\<close> of a promise counts. A rejected
  promise settles as a failure.\<close>

record race =
  rc_remaining :: int
  rc_resolved :: "bool option"

definition resolve_race :: "bool \<Rightarrow> race \<Rightarrow> race" where
  "resolve_race b r = (if rc_resolved r = None then r\<lparr>rc_resolved := Some b\<rparr> else r)"

definition start_race :: "nat \<Rightarrow> race" where
  "start_race n = \<lparr>rc_remaining = int n, rc_resolved = (if n = 0 then Some False else None)\<rparr>"

definition settle :: "bool \<Rightarrow> race \<Rightarrow> race" where
  "settle ok r = (if ok then resolve_race True r
     else let r' = r\<lparr>rc_remaining := rc_remaining r - 1\<rparr> in if rc_remaining r' = 0 then resolve_race False r' else r')"

lemma race_open:
  "length xs \<le> n \<Longrightarrow> True \<notin> set xs \<Longrightarrow>
     fold settle xs (start_race n) = \<lparr>rc_remaining = int n - int (length xs), rc_resolved = (if length xs = n then Some False else None)\<rparr>"
proof (induction xs rule: rev_induct)
  case (snoc x xs)
  then show ?case by (cases n) (auto simp: settle_def resolve_race_def start_race_def Let_def)
qed (simp add: start_race_def)

lemma settle_resolved: "rc_resolved r = Some b \<Longrightarrow> rc_resolved (settle ok r) = Some b"
  by (simp add: settle_def resolve_race_def Let_def)

lemma settles_resolved: "rc_resolved r = Some b \<Longrightarrow> rc_resolved (fold settle xs r) = Some b"
  by (induction xs arbitrary: r) (simp_all add: settle_resolved)

text \<open>The race ends with success as soon as one channel succeeds, in whatever order they settle, and with failure only when all have failed; until
  then it stays open.\<close>

theorem race_result:
  assumes "length xs \<le> n"
  shows "rc_resolved (fold settle xs (start_race n)) =
    (if True \<in> set xs then Some True else if length xs = n then Some False else None)"
proof (cases "True \<in> set xs")
  case True
  then obtain ys zs where xs: "xs = ys @ True # zs" "True \<notin> set ys" by (meson split_list_first)
  have "rc_resolved (fold settle (ys @ [True]) (start_race n)) = Some True"
    using race_open[of ys n] xs assms by (simp add: settle_def resolve_race_def)
  then have "rc_resolved (fold settle zs (fold settle (ys @ [True]) (start_race n))) = Some True" by (rule settles_resolved)
  then show ?thesis using True by (simp add: xs(1))
qed (simp add: race_open assms)

lemma race_result_witness: "rc_resolved (fold settle [False, True, False] (start_race 3)) = Some True"
  using race_result[of "[False, True, False]" 3] by simp

section \<open>The emergency on the screen\<close>

definition well_formed_emergency :: "jsval \<Rightarrow> bool" where
  "well_formed_emergency e \<longleftrightarrow> is_object e \<and> is_number (jfield e ''activatedAt'') \<and>
     (jfield e ''status'' = JString ''queued'' \<or> jfield e ''status'' = JString ''sent'') \<and> absent_or is_string (jfield e ''message'') \<and>
     absent_or is_number (jfield e ''lat'') \<and> absent_or is_number (jfield e ''lon'') \<and>
     (jfield e ''channel'' \<in> {JUndefined, JString ''gateway'', JString ''bluetooth''}) \<and> absent_or is_number (jfield e ''sentAt'')"

definition loadActiveEmergency :: "slot \<Rightarrow> jsval option \<times> slot" where
  "loadActiveEmergency = load_slot well_formed_emergency"

definition with_fields :: "(string \<times> jsval) list \<Rightarrow> jsval \<Rightarrow> jsval" where
  "with_fields new v = (case v of JObject fs \<Rightarrow> JObject (fold (\<lambda>(k, x). map_put k x) new fs) | _ \<Rightarrow> JObject new)"

definition markActiveEmergencySent :: "string \<Rightarrow> time \<Rightarrow> slot \<Rightarrow> jsval option \<times> slot" where
  "markActiveEmergencySent channel now s = (case loadActiveEmergency s of
     (None, s') \<Rightarrow> (None, s')
   | (Some active, s') \<Rightarrow>
       if jfield active ''status'' = JString ''sent'' then (None, s')
       else let updated = with_fields [(''status'', JString ''sent''), (''channel'', JString channel), (''sentAt'', JNumber (Num now))] active
         in (Some updated, save_slot updated s'))"

text \<open>A value that was parsed from JSON is as JSON writes it, and stays so when a field is set to such a value.\<close>

lemma json_props_shorter: "length (json_props fs) \<le> length fs"
  by (induction fs) (auto split: option.splits)

lemma json_props_fixed:
  "json_props fs = fs \<longleftrightarrow> (\<forall>(k, v) \<in> set fs. json_norm v = Some v)"
proof (induction fs)
  case (Cons x fs)
  obtain k v where x: "x = (k, v)" by (cases x)
  show ?case
  proof (cases "json_norm v")
    case None
    have "json_props fs \<noteq> x # fs" using json_props_shorter[of fs] by (metis Suc_n_not_le_n length_Cons)
    then show ?thesis using None by (simp add: x)
  qed (use Cons.IH x in auto)
qed simp

lemma map_put_elems: "p \<in> set (map_put k v m) \<Longrightarrow> p = (k, v) \<or> p \<in> set m"
  by (induction m) (auto split: if_splits)

lemma json_norm_with_fields:
  assumes "json_norm (JObject fs) = Some (JObject fs)" "\<forall>(k, v) \<in> set new. json_norm v = Some v"
  shows "json_norm (with_fields new (JObject fs)) = Some (with_fields new (JObject fs))"
proof -
  have "json_props (fold (\<lambda>(k, x). map_put k x) new fs) = fold (\<lambda>(k, x). map_put k x) new fs"
    using assms
  proof (induction new arbitrary: fs)
    case (Cons kv new)
    obtain k v where kv: "kv = (k, v)" by (cases kv)
    have "json_props (map_put k v fs) = map_put k v fs"
      using Cons.prems by (auto simp: kv json_props_fixed dest!: map_put_elems)
    then show ?case using Cons.IH[of "map_put k v fs"] Cons.prems by (simp add: kv)
  qed simp
  then show ?thesis by (simp add: with_fields_def)
qed

fun marks :: "(string \<times> time) list \<Rightarrow> slot \<Rightarrow> jsval option list \<times> slot" where
  "marks [] s = ([], s)"
| "marks ((c, now) # cs) s = (let (r, s') = markActiveEmergencySent c now s; (rs, s'') = marks cs s' in (r # rs, s''))"

lemma marks_inert:
  "sl_item s = Absent \<or> (sl_readable s \<and> (\<exists>e. sl_item s = Parsed e \<and> well_formed_emergency e \<and> jfield e ''status'' = JString ''sent'')) \<Longrightarrow>
     marks cs s = (replicate (length cs) None, s)"
  by (induction cs) (auto simp: markActiveEmergencySent_def loadActiveEmergency_def load_slot_def)

lemma well_formed_sent:
  assumes "well_formed_emergency (JObject fs)" "c \<in> {''gateway'', ''bluetooth''}"
  shows "well_formed_emergency (with_fields [(''status'', JString ''sent''), (''channel'', JString c), (''sentAt'', JNumber (Num now))] (JObject fs))"
  using assms unfolding well_formed_emergency_def absent_or_def with_fields_def by (simp only: jsval.case fold.simps comp_def id_apply split_conv jfield.simps map_put_get) auto

text \<open>The first channel that delivers the SOS is the one the screen names, whatever other channels report after it, and nothing else of the
  emergency changes. A channel that reports after the user has ended the emergency changes nothing: the emergency does not come back.\<close>

theorem emergency_first_channel_counts:
  assumes "sl_readable s" "sl_writable s" "sl_item s = Parsed (JObject fs)" "json_norm (JObject fs) = Some (JObject fs)"
    and "well_formed_emergency (JObject fs)" "jfield (JObject fs) ''status'' = JString ''queued''" "c \<in> {''gateway'', ''bluetooth''}" "sl_removable s"
  shows "(\<exists>e. marks ((c, now) # cs) s = (Some e # replicate (length cs) None, s\<lparr>sl_item := Parsed e\<rparr>) \<and>
      jfield e ''status'' = JString ''sent'' \<and> jfield e ''channel'' = JString c \<and> jfield e ''sentAt'' = JNumber (Num now) \<and>
      (\<forall>k. k \<notin> {''status'', ''channel'', ''sentAt''} \<longrightarrow> jfield e k = jfield (JObject fs) k))
    \<and> marks cs (clear_slot s) = (replicate (length cs) None, clear_slot s) \<and> sl_item (clear_slot s) = Absent"
proof -
  define e where "e = with_fields [(''status'', JString ''sent''), (''channel'', JString c), (''sentAt'', JNumber (Num now))] (JObject fs)"
  have get: "jfield e k = (if k = ''sentAt'' then JNumber (Num now) else if k = ''channel'' then JString c
      else if k = ''status'' then JString ''sent'' else jfield (JObject fs) k)" for k
    unfolding e_def with_fields_def by (simp only: jsval.case fold.simps comp_def id_apply split_conv jfield.simps map_put_get) simp
  have e: "well_formed_emergency e" unfolding e_def by (rule well_formed_sent[OF assms(5,7)])
  have sent: "jfield e ''status'' = JString ''sent''" by (simp add: get)
  have norm: "json_norm e = Some e" unfolding e_def by (rule json_norm_with_fields[OF assms(4)]) simp
  have "markActiveEmergencySent c now s = (Some e, s\<lparr>sl_item := Parsed e\<rparr>)"
    using assms norm by (simp add: markActiveEmergencySent_def loadActiveEmergency_def load_slot_def save_slot_def e_def Let_def)
  moreover have "marks cs (s\<lparr>sl_item := Parsed e\<rparr>) = (replicate (length cs) None, s\<lparr>sl_item := Parsed e\<rparr>)"
    using assms(1) e sent by (intro marks_inert) simp
  moreover have "jfield e ''channel'' = JString c" "jfield e ''sentAt'' = JNumber (Num now)" "\<forall>k. k \<notin> {''status'', ''channel'', ''sentAt''} \<longrightarrow> jfield e k = jfield (JObject fs) k"
    by (simp_all only: get) simp_all
  moreover have "sl_item (clear_slot s) = Absent" using assms(8) by (simp add: clear_slot_def)
  moreover from this have "marks cs (clear_slot s) = (replicate (length cs) None, clear_slot s)" by (intro marks_inert) simp
  ultimately show ?thesis using sent by auto
qed

definition sample_emergency :: "(string \<times> jsval) list" where
  "sample_emergency = [(''activatedAt'', JNumber (Num 1)), (''status'', JString ''queued'')]"

lemma emergency_first_channel_counts_witness:
  "fst (marks [(''bluetooth'', 5), (''gateway'', 6)] \<lparr>sl_item = Parsed (JObject sample_emergency), sl_readable = True, sl_writable = True, sl_removable = True\<rparr>)
     \<in> {[Some e, None] | e. jfield e ''channel'' = JString ''bluetooth''}"
proof -
  let ?s = "\<lparr>sl_item = Parsed (JObject sample_emergency), sl_readable = True, sl_writable = True, sl_removable = True\<rparr>"
  have "json_norm (JObject sample_emergency) = Some (JObject sample_emergency)" "well_formed_emergency (JObject sample_emergency)"
    "jfield (JObject sample_emergency) ''status'' = JString ''queued''" by code_simp+
  then have "\<exists>e. marks [(''bluetooth'', 5), (''gateway'', 6)] ?s = (Some e # replicate (length [(''gateway'', 6 :: time)]) None, ?s\<lparr>sl_item := Parsed e\<rparr>)
      \<and> jfield e ''channel'' = JString ''bluetooth''"
    using emergency_first_channel_counts[of ?s sample_emergency "''bluetooth''" 5 "[(''gateway'', 6)]"]
    by (simp only: slot.simps simp_thms insert_iff) blast
  then obtain e where "marks [(''bluetooth'', 5), (''gateway'', 6)] ?s = (Some e # replicate (length [(''gateway'', 6 :: time)]) None, ?s\<lparr>sl_item := Parsed e\<rparr>)"
    "jfield e ''channel'' = JString ''bluetooth''" by blast
  then show ?thesis by (auto simp del: marks.simps jfield.simps)
qed

end
