(* ===== verification/AddressText.thy ===== *)
theory AddressText
  imports Prelude
begin

text \<open>
  Addresses as text: splitting and joining, hexadecimal groups, and the spellings of an IPv6 address. Two modules of the node read them, each with
  its own code (\<open>machine-address.ts\<close>, \<open>url-safety.ts\<close>); what a spelling denotes is stated once here.
\<close>

section \<open>Splitting and joining\<close>

text \<open>\<open>split\<close> at a character: the empty text gives one empty part.\<close>

fun split_on :: "char \<Rightarrow> string \<Rightarrow> string list" where
  "split_on c [] = [[]]"
| "split_on c (x # xs) = (if x = c then [] # split_on c xs else (case split_on c xs of [] \<Rightarrow> [[x]] | p # ps \<Rightarrow> (x # p) # ps))"

fun join_with :: "string \<Rightarrow> string list \<Rightarrow> string" where
  "join_with sep [] = []"
| "join_with sep [p] = p"
| "join_with sep (p # ps) = p @ sep @ join_with sep ps"

lemma split_on_nonempty [simp]: "split_on c xs \<noteq> []"
  by (induction xs) (auto split: list.split)

lemma split_on_none: "c \<notin> set p \<Longrightarrow> split_on c p = [p]"
  by (induction p) auto

lemma split_on_append: "c \<notin> set p \<Longrightarrow> split_on c (p @ c # xs) = p # split_on c xs"
  by (induction p) auto

lemma split_join: "ps \<noteq> [] \<Longrightarrow> \<forall>p \<in> set ps. c \<notin> set p \<Longrightarrow> split_on c (join_with [c] ps) = ps"
proof (induction ps rule: induct_list012)
  case (3 p q ps)
  then show ?case using split_on_append[of c p "join_with [c] (q # ps)"] by simp
qed (simp_all add: split_on_none)

lemma join_split: "join_with [c] (split_on c s) = s"
proof (induction s)
  case (Cons x s)
  obtain p ps where "split_on c s = p # ps" by (cases "split_on c s") simp_all
  then show ?case using Cons by (cases ps) auto
qed simp

fun has_double_colon :: "string \<Rightarrow> bool" where
  "has_double_colon (a # b # s) = (a = CHR '':'' \<and> b = CHR '':'' \<or> has_double_colon (b # s))"
| "has_double_colon _ = False"

section \<open>Hexadecimal groups\<close>

definition hex_digits :: string where "hex_digits = ''0123456789abcdef''"
definition upper_hex :: string where "upper_hex = ''ABCDEF''"

definition lower_hex :: "char \<Rightarrow> char" where
  "lower_hex c = (case map_of (zip ''ABCDEFGHIJKLMNOPQRSTUVWXYZ'' ''abcdefghijklmnopqrstuvwxyz'') c of Some d \<Rightarrow> d | None \<Rightarrow> c)"

text \<open>The value of a hexadecimal digit, in either case.\<close>

definition digit_value :: "char \<Rightarrow> nat option" where
  "digit_value c = map_of (zip (hex_digits @ upper_hex) ([0..<16] @ [10..<16])) c"

text \<open>\<open>parseInt(s, 16)\<close> on a text without sign or spaces: the value of the longest prefix of digits, NaN (\<open>None\<close>) if there is none. The prefix \<open>0x\<close> that
  \<open>parseInt\<close> skips cannot occur in an address.\<close>

fun hex_value :: "nat \<Rightarrow> string \<Rightarrow> nat" where
  "hex_value acc [] = acc"
| "hex_value acc (c # cs) = (case digit_value c of Some d \<Rightarrow> hex_value (16 * acc + d) cs | None \<Rightarrow> acc)"

definition parse_hex :: "string \<Rightarrow> nat option" where
  "parse_hex s = (case s of [] \<Rightarrow> None | c # cs \<Rightarrow> if digit_value c = None then None else Some (hex_value 0 s))"

definition hex_group :: "string \<Rightarrow> bool" where
  "hex_group g \<longleftrightarrow> 1 \<le> length g \<and> length g \<le> 4 \<and> (\<forall>c \<in> set g. digit_value c \<noteq> None)"

section \<open>Spellings of an IPv6 address\<close>

text \<open>Eight groups written out, or with one run of zero groups replaced by \<open>::\<close>.\<close>

definition full_spelling :: "string list \<Rightarrow> string" where
  "full_spelling gs = join_with '':'' gs"

definition short_spelling :: "string list \<Rightarrow> string list \<Rightarrow> string" where
  "short_spelling left right = join_with '':'' left @ ''::'' @ join_with '':'' right"

definition spells :: "string \<Rightarrow> nat list \<Rightarrow> bool" where
  "spells s vs \<longleftrightarrow> length vs = 8 \<and>
     ((\<exists>gs. length gs = 8 \<and> (\<forall>g \<in> set gs. hex_group g) \<and> s = full_spelling gs \<and> map (hex_value 0) gs = vs)
      \<or> (\<exists>left right. (\<forall>g \<in> set (left @ right). hex_group g) \<and> length left + length right < 8 \<and> s = short_spelling left right
          \<and> map (hex_value 0) left @ replicate (8 - length left - length right) 0 @ map (hex_value 0) right = vs))"

lemma spells_fullI:
  "length gs = 8 \<Longrightarrow> \<forall>g \<in> set gs. hex_group g \<Longrightarrow> s = full_spelling gs \<Longrightarrow> map (hex_value 0) gs = vs \<Longrightarrow> spells s vs"
  by (auto simp: spells_def)

lemma spells_shortI:
  "\<forall>g \<in> set (left @ right). hex_group g \<Longrightarrow> length left + length right < 8 \<Longrightarrow> s = short_spelling left right \<Longrightarrow>
     map (hex_value 0) left @ replicate (8 - length left - length right) 0 @ map (hex_value 0) right = vs \<Longrightarrow> spells s vs"
  unfolding spells_def by auto

text \<open>The text of a number without leading zeros, which a group has once it is stripped and in lower case.\<close>

function hex_text :: "nat \<Rightarrow> string" where
  "hex_text n = (if n < 16 then [hex_digits ! n] else hex_text (n div 16) @ [hex_digits ! (n mod 16)])"
  by auto
termination by (relation "measure id") auto

declare hex_text.simps [simp del]

fun strip_zeros :: "string \<Rightarrow> string" where
  "strip_zeros (c # d # cs) = (if c = CHR ''0'' then strip_zeros (d # cs) else c # d # cs)"
| "strip_zeros s = s"

lemma digit_value_cases:
  assumes "digit_value c = Some d"
  shows "d < 16 \<and> lower_hex c = hex_digits ! d \<and> digit_value (lower_hex c) = Some d \<and> lower_hex (lower_hex c) = lower_hex c"
proof -
  have "list_all (\<lambda>(c, d). d < 16 \<and> lower_hex c = hex_digits ! d \<and> digit_value (lower_hex c) = Some d \<and> lower_hex (lower_hex c) = lower_hex c) (zip (hex_digits @ upper_hex) ([0..<16] @ [10..<16]))" by code_simp
  moreover have "(c, d) \<in> set (zip (hex_digits @ upper_hex) ([0..<16] @ [10..<16]))"
    using assms unfolding digit_value_def by (rule map_of_SomeD)
  ultimately show ?thesis unfolding list_all_iff by blast
qed

lemma hex_value_snoc:
  "\<forall>c \<in> set s. digit_value c \<noteq> None \<Longrightarrow> hex_value acc (s @ [c]) = (case digit_value c of Some d \<Rightarrow> 16 * hex_value acc s + d | None \<Rightarrow> hex_value acc s)"
proof (induction s arbitrary: acc)
  case (Cons x s)
  then obtain d where "digit_value x = Some d" by auto
  then show ?case using Cons by (simp split: option.split)
qed (simp split: option.split)

lemma strip_zeros_snoc: "s \<noteq> [] \<Longrightarrow> strip_zeros (s @ [c]) = (if strip_zeros s = ''0'' then [c] else strip_zeros s @ [c])"
  by (induction s rule: strip_zeros.induct) auto

lemma strip_zeros_suffix: "\<exists>k. s = replicate k CHR ''0'' @ strip_zeros s"
proof (induction s rule: strip_zeros.induct)
  case (1 c d cs)
  show ?case
  proof (cases "c = CHR ''0''")
    case True
    then obtain k where "d # cs = replicate k CHR ''0'' @ strip_zeros (d # cs)" using 1 by blast
    then have "c # d # cs = replicate (Suc k) CHR ''0'' @ strip_zeros (c # d # cs)" using True by simp
    then show ?thesis by blast
  qed (simp add: exI[of _ 0])
qed (simp_all add: exI[of _ 0])

lemma hex_text_zero: "hex_text n = ''0'' \<longleftrightarrow> n = 0"
proof -
  have "hex_digits ! n = CHR ''0'' \<longleftrightarrow> n = 0" if "n < 16"
  proof -
    have "\<forall>n \<in> {..<16}. (hex_digits ! n = CHR ''0'') = (n = 0)" by code_simp
    then show ?thesis using that by blast
  qed
  moreover have "hex_text m \<noteq> []" for m by (subst hex_text.simps) simp
  ultimately show ?thesis by (subst hex_text.simps) auto
qed

lemma stripped_group:
  "s \<noteq> [] \<Longrightarrow> \<forall>c \<in> set s. digit_value c \<noteq> None \<Longrightarrow> strip_zeros (map lower_hex s) = hex_text (hex_value 0 s)"
proof (induction s rule: rev_induct)
  case (snoc c s)
  obtain d where d: "digit_value c = Some d" "d < 16" "lower_hex c = hex_digits ! d" using snoc.prems digit_value_cases by auto
  show ?case
  proof (cases "s = []")
    case True
    then show ?thesis using d by (simp add: hex_text.simps)
  next
    case False
    let ?v = "hex_value 0 s"
    have val: "hex_value 0 (s @ [c]) = 16 * ?v + d" using hex_value_snoc[of s 0 c] snoc.prems d by simp
    have "strip_zeros (map lower_hex s) = hex_text ?v" using snoc False by simp
    then have "strip_zeros (map lower_hex (s @ [c])) = (if ?v = 0 then [hex_digits ! d] else hex_text ?v @ [hex_digits ! d])"
      using False d by (simp add: strip_zeros_snoc hex_text_zero del: strip_zeros.simps)
    also have "\<dots> = hex_text (16 * ?v + d)" using d by (cases "?v = 0") (simp_all add: hex_text.simps[of "16 * ?v + d"] hex_text.simps[of d])
    finally show ?thesis by (simp add: val)
  qed
qed simp

lemma hex_group_text: "hex_group g \<Longrightarrow> strip_zeros (map lower_hex g) = hex_text (hex_value 0 g)"
  by (rule stripped_group) (auto simp: hex_group_def)

lemma hex_group_no_colon: "hex_group g \<Longrightarrow> CHR '':'' \<notin> set g"
proof -
  have "digit_value CHR '':'' = None" by code_simp
  then show "hex_group g \<Longrightarrow> ?thesis" by (auto simp: hex_group_def)
qed

lemma hex_group_nonempty: "hex_group g \<Longrightarrow> g \<noteq> []"
  by (auto simp: hex_group_def)

text \<open>The parts of a spelling.\<close>

lemma split_full:
  "gs \<noteq> [] \<Longrightarrow> \<forall>g \<in> set gs. hex_group g \<Longrightarrow> split_on CHR '':'' (full_spelling gs) = gs"
  unfolding full_spelling_def by (rule split_join) (auto dest: hex_group_no_colon)

lemma split_join_then:
  "ps \<noteq> [] \<Longrightarrow> \<forall>p \<in> set ps. c \<notin> set p \<Longrightarrow> split_on c (join_with [c] ps @ c # xs) = ps @ split_on c xs"
proof (induction ps rule: induct_list012)
  case (3 p q ps)
  then show ?case using split_on_append[of c p "join_with [c] (q # ps) @ c # xs"] by simp
qed (simp_all add: split_on_append)

definition or_empty :: "string list \<Rightarrow> string list" where
  "or_empty ps = (if ps = [] then [[]] else ps)"

lemma split_short:
  assumes "\<forall>g \<in> set (left @ right). hex_group g"
  shows "split_on CHR '':'' (short_spelling left right) = or_empty left @ [[]] @ or_empty right"
proof -
  have r: "split_on CHR '':'' (join_with '':'' right) = or_empty right"
    using assms split_join[of right "CHR '':''"] hex_group_no_colon by (auto simp: or_empty_def)
  have "split_on CHR '':'' (join_with '':'' left @ CHR '':'' # CHR '':'' # join_with '':'' right) = or_empty left @ split_on CHR '':'' (CHR '':'' # join_with '':'' right)"
    using assms split_join_then[of left "CHR '':''" "CHR '':'' # join_with '':'' right"] hex_group_no_colon by (auto simp: or_empty_def)
  then show ?thesis by (simp add: short_spelling_def r)
qed

text \<open>In lower case.\<close>

lemma lower_group: "hex_group g \<Longrightarrow> hex_group (map lower_hex g)"
  using digit_value_cases by (fastforce simp: hex_group_def)

lemma map_join: "map f (join_with sep ps) = join_with (map f sep) (map (map f) ps)"
  by (induction ps rule: induct_list012) simp_all

lemma lower_colon: "lower_hex CHR '':'' = CHR '':''" by code_simp

lemma lower_full: "map lower_hex (full_spelling gs) = full_spelling (map (map lower_hex) gs)"
  by (simp add: full_spelling_def map_join lower_colon)

lemma lower_short: "map lower_hex (short_spelling left right) = short_spelling (map (map lower_hex) left) (map (map lower_hex) right)"
  by (simp add: short_spelling_def map_join lower_colon)

text \<open>A spelling has a colon and no scope.\<close>

lemma set_join: "set (join_with sep ps) \<subseteq> \<Union> (set ` set ps) \<union> set sep"
  by (induction ps rule: induct_list012) auto

lemma group_chars: "hex_group g \<Longrightarrow> CHR ''%'' \<notin> set g"
proof -
  have "digit_value CHR ''%'' = None" by code_simp
  then show "hex_group g \<Longrightarrow> ?thesis" by (auto simp: hex_group_def)
qed

lemma spelling_chars:
  assumes "spells s vs"
  shows "CHR '':'' \<in> set s" "CHR ''%'' \<notin> set s"
proof -
  consider (full) gs where "length gs = 8" "\<forall>g \<in> set gs. hex_group g" "s = full_spelling gs"
    | (short) left right where "\<forall>g \<in> set (left @ right). hex_group g" "s = short_spelling left right"
    using assms by (auto simp: spells_def)
  then have "CHR '':'' \<in> set s \<and> CHR ''%'' \<notin> set s"
  proof cases
    case full
    then obtain a b cs where gs: "gs = a # b # cs" by (cases gs; cases "tl gs") auto
    have "CHR '':'' \<in> set s" by (simp add: full(3) gs full_spelling_def)
    moreover have "CHR ''%'' \<notin> set s" using set_join[of "'':''" gs] full(2) group_chars by (auto simp: full(3) full_spelling_def)
    ultimately show ?thesis ..
  next
    case short
    have "CHR '':'' \<in> set s" by (simp add: short(2) short_spelling_def)
    moreover have "CHR ''%'' \<notin> set s" using set_join[of "'':''" left] set_join[of "'':''" right] short(1) group_chars by (auto simp: short(2) short_spelling_def)
    ultimately show ?thesis ..
  qed
  then show "CHR '':'' \<in> set s" "CHR ''%'' \<notin> set s" by blast+
qed

lemma lower_value: "\<forall>c \<in> set s. digit_value c \<noteq> None \<Longrightarrow> hex_value acc (map lower_hex s) = hex_value acc s"
proof (induction s arbitrary: acc)
  case (Cons c s)
  then obtain d where "digit_value c = Some d" by auto
  moreover from this have "digit_value (lower_hex c) = Some d" using digit_value_cases by blast
  ultimately show ?case using Cons by simp
qed simp

lemma lower_group_twice: "hex_group g \<Longrightarrow> map lower_hex (map lower_hex g) = map lower_hex g"
  using digit_value_cases by (fastforce simp: hex_group_def)

lemma group_value: "hex_group g \<Longrightarrow> hex_value 0 (map lower_hex g) = hex_value 0 g"
  by (rule lower_value) (auto simp: hex_group_def)

lemma parse_group: "hex_group g \<Longrightarrow> parse_hex g = Some (hex_value 0 g)"
  by (cases g) (auto simp: parse_hex_def hex_group_def)

text \<open>No spelling but a short one has two colons in a row.\<close>

lemma no_double_plain: "CHR '':'' \<notin> set p \<Longrightarrow> \<not> has_double_colon p"
  by (induction p rule: has_double_colon.induct) auto

lemma no_double_cons: "CHR '':'' \<notin> set p \<Longrightarrow> p \<noteq> [] \<Longrightarrow> \<not> has_double_colon r \<Longrightarrow> r = [] \<or> hd r \<noteq> CHR '':'' \<Longrightarrow> \<not> has_double_colon (p @ CHR '':'' # r)"
proof (induction p rule: induct_list012)
  case (2 x)
  then show ?case by (cases r) auto
qed auto

lemma no_double_join: "\<forall>g \<in> set gs. hex_group g \<Longrightarrow> \<not> has_double_colon (join_with '':'' gs)"
proof (induction gs rule: induct_list012)
  case (2 g)
  then show ?case by (simp add: no_double_plain hex_group_no_colon)
next
  case (3 g h gs)
  have "join_with '':'' (h # gs) = [] \<or> hd (join_with '':'' (h # gs)) \<noteq> CHR '':''"
    using 3(3) hex_group_no_colon[of h] hex_group_nonempty[of h] by (cases gs; cases h) auto
  then show ?case using 3 no_double_cons[of g "join_with '':'' (h # gs)"] hex_group_no_colon[of g] hex_group_nonempty[of g] by simp
qed simp

lemma last_join: "gs \<noteq> [] \<Longrightarrow> last gs \<noteq> [] \<Longrightarrow> last (join_with sep gs) = last (last gs) \<and> join_with sep gs \<noteq> []"
  by (induction gs rule: induct_list012) auto

lemma no_double_snoc: "\<not> has_double_colon xs \<Longrightarrow> xs = [] \<or> last xs \<noteq> CHR '':'' \<Longrightarrow> \<not> has_double_colon (xs @ '':'')"
  by (induction xs rule: induct_list012) auto

lemma no_double_before:
  assumes g: "\<forall>g \<in> set gs. hex_group g"
  shows "\<not> has_double_colon (join_with '':'' gs @ '':'')"
proof (cases "gs = []")
  case False
  then have "hex_group (last gs)" using g by simp
  then have "last gs \<noteq> []" "CHR '':'' \<notin> set (last gs)" by (auto dest: hex_group_nonempty hex_group_no_colon)
  then have "last (join_with '':'' gs) \<noteq> CHR '':''" using last_join[OF False] by (metis last_in_set)
  then show ?thesis using no_double_join[OF g] by (intro no_double_snoc) simp_all
qed simp

end
