(* ===== verification/AuthThrottle.thy ===== *)
theory AuthThrottle
  imports AddressText BoundedMap
begin

text \<open>
  The limit on wrong network passwords: addresses of the machine and their normal form (\<open>node/src/machine-address.ts\<close>), and the counters per address and
  per IPv6 prefix (\<open>node/src/auth-throttle.ts\<close>). Addresses are ASCII. The interfaces of the machine are an argument.
\<close>

section \<open>Normal form of an address\<close>

definition expandIpv6 :: "string \<Rightarrow> string list" where
  "expandIpv6 ip = (let groups = split_on CHR '':'' (map lower_hex ip) in
     if [] \<in> set groups \<and> has_double_colon ip
     then let head = takeWhile (\<lambda>g. g \<noteq> []) groups; tail = filter (\<lambda>g. g \<noteq> []) (tl (dropWhile (\<lambda>g. g \<noteq> []) groups))
       in head @ replicate (8 - length head - length tail) ''0'' @ tail
     else groups)"

definition drop_mapped :: "string \<Rightarrow> string" where
  "drop_mapped s = (if map lower_hex (take 7 s) = ''::ffff:'' then drop 7 s else s)"

definition normalizeAddress :: "string option \<Rightarrow> string" where
  "normalizeAddress raw = (let ip = takeWhile (\<lambda>c. c \<noteq> CHR ''%'') (drop_mapped (case raw of Some r \<Rightarrow> r | None \<Rightarrow> ''?'')) in
     if CHR '':'' \<notin> set ip then ip else join_with '':'' (map strip_zeros (expandIpv6 ip)))"

definition ipLimiterKey :: "string option \<Rightarrow> string" where
  "ipLimiterKey raw = (let ip = normalizeAddress raw in
     if CHR '':'' \<in> set ip then join_with '':'' (take 4 (split_on CHR '':'' ip)) else ip)"

section \<open>The addresses of the machine\<close>

definition MACHINE_CACHE_MS :: rat where "MACHINE_CACHE_MS = 30000"

type_synonym machine_cache = "(time \<times> string set) option"

definition machineAddresses :: "time \<Rightarrow> string list \<Rightarrow> machine_cache \<Rightarrow> string set \<times> machine_cache" where
  "machineAddresses now interfaces cache =
     (let fresh = set (map (\<lambda>a. normalizeAddress (Some a)) ([''127.0.0.1'', ''::1''] @ interfaces)) in
      case cache of
        Some (at_time, known) \<Rightarrow> if now - at_time < MACHINE_CACHE_MS then (known, cache) else (fresh, Some (now, fresh))
      | None \<Rightarrow> (fresh, Some (now, fresh)))"

definition isThisMachine :: "time \<Rightarrow> string list \<Rightarrow> string option \<Rightarrow> machine_cache \<Rightarrow> bool \<times> machine_cache" where
  "isThisMachine now interfaces remoteAddress cache = (case remoteAddress of
     None \<Rightarrow> (False, cache)
   | Some r \<Rightarrow>
       (let addr = normalizeAddress (Some r); (known, c1) = machineAddresses now interfaces cache in
        if addr \<in> known then (True, c1)
        else case c1 of
          Some (at_time, _) \<Rightarrow> if now - at_time > 2000 then (let (known', c2) = machineAddresses now interfaces None in (addr \<in> known', c2)) else (False, c1)
        | None \<Rightarrow> (False, c1)))"

definition FORWARDING_HEADERS :: "string list" where
  "FORWARDING_HEADERS = [''forwarded'', ''x-real-ip'', ''x-client-ip'', ''true-client-ip'', ''x-original-forwarded-for'', ''cdn-loop'']"
definition FORWARDING_PREFIXES :: "string list" where "FORWARDING_PREFIXES = [''x-forwarded-'', ''cf-'']"

definition blank :: "string \<Rightarrow> bool" where
  "blank s \<longleftrightarrow> list_all (\<lambda>c. c \<in> {CHR '' '', CHR 0x09, CHR 0x0A, CHR 0x0B, CHR 0x0C, CHR 0x0D, CHR 0xA0}) s"

text \<open>A header has no value, one or several: a list. In each of the three cases it counts if some value is not blank.\<close>

definition looksForwarded :: "(string \<times> string list) list \<Rightarrow> bool" where
  "looksForwarded headers \<longleftrightarrow> list_ex (\<lambda>(name, values).
     let key = map lower_hex name in
     (key \<in> set FORWARDING_HEADERS \<or> list_ex (\<lambda>p. take (length p) key = p) FORWARDING_PREFIXES) \<and> list_ex (\<lambda>v. \<not> blank v) values) headers"

section \<open>The counters\<close>

definition DEFAULT_AUTH_MAX_FAILURES :: rat where "DEFAULT_AUTH_MAX_FAILURES = 10"
definition DEFAULT_AUTH_WINDOW_MS :: rat where "DEFAULT_AUTH_WINDOW_MS = 600000"
definition PREFIX_LIMIT_FACTOR :: nat where "PREFIX_LIMIT_FACTOR = 5"

record failure_count =
  fc_count :: nat
  fc_since :: time
  fc_limit :: nat

record throttle =
  th_maxFailures :: nat
  th_windowMs :: time
  th_exemptLocal :: bool
  th_entries :: "(string, failure_count) bounded_map"

fun positive_or :: "jsnum option \<Rightarrow> rat \<Rightarrow> rat" where
  "positive_or (Some (Num r)) fallback = (if r \<ge> 1 then r else fallback)"
| "positive_or _ fallback = fallback"

definition throttle_new :: "jsnum option \<Rightarrow> jsnum option \<Rightarrow> jsnum option \<Rightarrow> bool option \<Rightarrow> throttle" where
  "throttle_new maxFailures windowMs maxTracked exemptLocal =
     \<lparr>th_maxFailures = nat \<lfloor>positive_or maxFailures DEFAULT_AUTH_MAX_FAILURES\<rfloor>, th_windowMs = positive_or windowMs DEFAULT_AUTH_WINDOW_MS,
      th_exemptLocal = (case exemptLocal of Some b \<Rightarrow> b | None \<Rightarrow> True),
      th_entries = bm_new (Some (Num (of_int \<lfloor>positive_or maxTracked 1000\<rfloor>)))\<rparr>"

definition throttle_score :: "(string, failure_count) score" where
  "throttle_score = Some (\<lambda>_ e. if fc_count e \<ge> fc_limit e then Num 1 else Num 0)"

definition throttle_keys :: "throttle \<Rightarrow> string option \<Rightarrow> (string \<times> nat) list" where
  "throttle_keys t address = (let full = normalizeAddress address in
     (''a:'' @ full, th_maxFailures t) #
       (if CHR '':'' \<in> set full then [(''p:'' @ ipLimiterKey address, th_maxFailures t * PREFIX_LIMIT_FACTOR)] else []))"

definition key_wait :: "time \<Rightarrow> throttle \<Rightarrow> string \<times> nat \<Rightarrow> int" where
  "key_wait now t kl = (case bm_get (th_entries t) (fst kl) of
     Some e \<Rightarrow> if fc_count e < snd kl then 0 else max 0 \<lceil>(fc_since e + th_windowMs t - now) / 1000\<rceil>
   | None \<Rightarrow> 0)"

definition lockedForSeconds :: "time \<Rightarrow> string option \<Rightarrow> throttle \<Rightarrow> int" where
  "lockedForSeconds now address t = fold (\<lambda>kl wait. max wait (key_wait now t kl)) (throttle_keys t address) 0"

definition count_failure :: "time \<Rightarrow> string \<times> nat \<Rightarrow> throttle \<Rightarrow> throttle" where
  "count_failure now kl t = (case bm_get (th_entries t) (fst kl) of
     Some e \<Rightarrow> if now - fc_since e \<ge> th_windowMs t
       then t\<lparr>th_entries := bm_put throttle_score (fst kl) \<lparr>fc_count = 1, fc_since = now, fc_limit = snd kl\<rparr> (th_entries t)\<rparr>
       else t\<lparr>th_entries := bm_write (fst kl) (e\<lparr>fc_count := fc_count e + 1\<rparr>) (th_entries t)\<rparr>
   | None \<Rightarrow> t\<lparr>th_entries := bm_put throttle_score (fst kl) \<lparr>fc_count = 1, fc_since = now, fc_limit = snd kl\<rparr> (th_entries t)\<rparr>)"

text \<open>\<open>here\<close> says whether the address is the machine's own.\<close>

definition recordFailure :: "time \<Rightarrow> bool \<Rightarrow> string option \<Rightarrow> throttle \<Rightarrow> throttle" where
  "recordFailure now here address t =
     (if th_exemptLocal t \<and> here then t else fold (count_failure now) (throttle_keys t address) t)"

definition recordSuccess :: "string option \<Rightarrow> throttle \<Rightarrow> throttle" where
  "recordSuccess address t = t\<lparr>th_entries := bm_delete (fst (hd (throttle_keys t address))) (th_entries t)\<rparr>"

definition trackedCount :: "throttle \<Rightarrow> nat" where "trackedCount t = bm_size (th_entries t)"

section \<open>What one key counts\<close>

datatype attempt = WrongPassword time bool "string option" | RightPassword "string option"

fun attempt_step :: "throttle \<Rightarrow> attempt \<Rightarrow> throttle" where
  "attempt_step t (WrongPassword now here a) = recordFailure now here a t"
| "attempt_step t (RightPassword a) = recordSuccess a t"

fun attempt_address :: "attempt \<Rightarrow> string option" where
  "attempt_address (WrongPassword now here a) = a"
| "attempt_address (RightPassword a) = a"

definition keys_of :: "throttle \<Rightarrow> string option \<Rightarrow> string set" where
  "keys_of t a = fst ` set (throttle_keys t a)"

text \<open>One more failure under a key, and the history of one key alone.\<close>

definition bump :: "time \<Rightarrow> time \<Rightarrow> nat \<Rightarrow> failure_count option \<Rightarrow> failure_count" where
  "bump window now limit c = (let fresh = \<lparr>fc_count = 1, fc_since = now, fc_limit = limit\<rparr> in
     case c of Some e \<Rightarrow> if now - fc_since e \<ge> window then fresh else e\<lparr>fc_count := fc_count e + 1\<rparr> | None \<Rightarrow> fresh)"

fun key_step :: "throttle \<Rightarrow> string \<Rightarrow> failure_count option \<Rightarrow> attempt \<Rightarrow> failure_count option" where
  "key_step t k c (WrongPassword now here a) = (if th_exemptLocal t \<and> here then c
     else case map_of (throttle_keys t a) k of Some l \<Rightarrow> Some (bump (th_windowMs t) now l c) | None \<Rightarrow> c)"
| "key_step t k c (RightPassword a) = (if k = fst (hd (throttle_keys t a)) then None else c)"

text \<open>The keys that occur fit in the map, so that nothing is evicted.\<close>

definition room_for :: "string set \<Rightarrow> throttle \<Rightarrow> bool" where
  "room_for K t \<longleftrightarrow> bm_ok (th_entries t) \<and> (\<exists>n > 0. bm_max (th_entries t) = Num (of_nat n) \<and> finite K \<and> card K \<le> n)
     \<and> (\<forall>k. bm_get (th_entries t) k \<noteq> None \<longrightarrow> k \<in> K)"

definition same_settings :: "throttle \<Rightarrow> throttle \<Rightarrow> bool" where
  "same_settings t t' \<longleftrightarrow> th_maxFailures t' = th_maxFailures t \<and> th_windowMs t' = th_windowMs t \<and> th_exemptLocal t' = th_exemptLocal t"

lemma same_settings_refl [simp]: "same_settings t t" by (simp add: same_settings_def)
lemma same_settings_trans: "same_settings t t1 \<Longrightarrow> same_settings t1 t2 \<Longrightarrow> same_settings t t2" by (simp add: same_settings_def)
lemma same_settings_keys: "same_settings t t' \<Longrightarrow> throttle_keys t' a = throttle_keys t a" by (simp add: same_settings_def throttle_keys_def Let_def)

lemma keys_two: "throttle_keys t a = [(''a:'' @ normalizeAddress a, th_maxFailures t)] \<or>
    throttle_keys t a = [(''a:'' @ normalizeAddress a, th_maxFailures t), (''p:'' @ ipLimiterKey a, th_maxFailures t * PREFIX_LIMIT_FACTOR)]"
  by (simp add: throttle_keys_def Let_def)

lemma put_in_room:
  assumes r: "room_for K t" and k: "k \<in> K"
  shows "bm_get (bm_put sc k v (th_entries t)) k' = (if k' = k then Some v else bm_get (th_entries t) k')"
proof -
  obtain n where "n > 0" "bm_max (th_entries t) = Num (of_nat n)" "finite K" "card K \<le> n" using r by (auto simp: room_for_def)
  then show ?thesis using r k by (intro bm_set_fits) (auto simp: room_for_def)
qed

lemma count_failure_get:
  assumes r: "room_for K t" and k: "fst kl \<in> K"
  shows "bm_get (th_entries (count_failure now kl t)) k' =
      (if k' = fst kl then Some (bump (th_windowMs t) now (snd kl) (bm_get (th_entries t) (fst kl))) else bm_get (th_entries t) k')"
    and "room_for K (count_failure now kl t)" and "same_settings t (count_failure now kl t)"
proof -
  let ?m = "th_entries t"
  have ok: "bm_ok ?m" using r by (simp add: room_for_def)
  show get: "bm_get (th_entries (count_failure now kl t)) k' = (if k' = fst kl then Some (bump (th_windowMs t) now (snd kl) (bm_get ?m (fst kl))) else bm_get ?m k')" for k'
    using put_in_room[OF r k] by (auto simp: count_failure_def bump_def bm_write_get Let_def split: option.split)
  have "bm_ok (th_entries (count_failure now kl t))" "bm_max (th_entries (count_failure now kl t)) = bm_max ?m"
    using ok bm_write_ok[OF ok] by (auto simp: count_failure_def bm_write_def split: option.split)
  then show "room_for K (count_failure now kl t)" using r k get by (auto simp: room_for_def split: if_splits)
  show "same_settings t (count_failure now kl t)" by (simp add: same_settings_def count_failure_def split: option.split)
qed

lemma recordFailure_get:
  assumes r: "room_for K t" and k: "keys_of t a \<subseteq> K"
  shows "bm_get (th_entries (recordFailure now here a t)) k' = key_step t k' (bm_get (th_entries t) k') (WrongPassword now here a)
    \<and> room_for K (recordFailure now here a t) \<and> same_settings t (recordFailure now here a t)"
  using keys_two[of t a]
proof
  assume keys: "throttle_keys t a = [(''a:'' @ normalizeAddress a, th_maxFailures t)]"
  then show ?thesis using r k count_failure_get[OF r, of "(''a:'' @ normalizeAddress a, th_maxFailures t)" now]
    by (auto simp: recordFailure_def keys_of_def)
next
  let ?a = "(''a:'' @ normalizeAddress a, th_maxFailures t)" and ?p = "(''p:'' @ ipLimiterKey a, th_maxFailures t * PREFIX_LIMIT_FACTOR)"
  assume keys: "throttle_keys t a = [?a, ?p]"
  note one = count_failure_get[OF r, of ?a now]
  have in_K: "fst ?a \<in> K" "fst ?p \<in> K" using k keys by (auto simp: keys_of_def)
  note two = count_failure_get[OF one(2)[OF in_K(1)] in_K(2), of now]
  show ?thesis using one[OF in_K(1)] two same_settings_trans[OF one(3)[OF in_K(1)] two(3)]
    by (auto simp: recordFailure_def keys same_settings_def r)
qed

lemma recordSuccess_get:
  "room_for K t \<Longrightarrow> bm_get (th_entries (recordSuccess a t)) k' = key_step t k' (bm_get (th_entries t) k') (RightPassword a)
    \<and> room_for K (recordSuccess a t) \<and> same_settings t (recordSuccess a t)"
  by (auto simp: recordSuccess_def room_for_def same_settings_def)

lemma key_step_settings: "same_settings t t' \<Longrightarrow> key_step t' k c e = key_step t k c e"
proof -
  assume s: "same_settings t t'"
  then have "th_exemptLocal t' = th_exemptLocal t" "th_windowMs t' = th_windowMs t" by (simp_all add: same_settings_def)
  with same_settings_keys[OF s] show ?thesis by (cases e) (simp_all cong: option.case_cong)
qed

text \<open>Every key has its own history.\<close>

lemma attempts_get:
  "room_for K t \<Longrightarrow> \<forall>e \<in> set es. keys_of t (attempt_address e) \<subseteq> K \<Longrightarrow>
     bm_get (th_entries (foldl attempt_step t es)) k = foldl (key_step t k) (bm_get (th_entries t) k) es \<and> same_settings t (foldl attempt_step t es)"
proof (induction es arbitrary: t)
  case (Cons e es)
  have step: "bm_get (th_entries (attempt_step t e)) k' = key_step t k' (bm_get (th_entries t) k') e \<and> room_for K (attempt_step t e) \<and> same_settings t (attempt_step t e)" for k'
    using recordFailure_get[OF Cons.prems(1)] recordSuccess_get[OF Cons.prems(1)] Cons.prems(2) by (cases e) simp_all
  have s: "same_settings t (attempt_step t e)" using step by blast
  have "keys_of (attempt_step t e) b = keys_of t b" for b by (simp add: keys_of_def same_settings_keys[OF s])
  moreover have "key_step (attempt_step t e) k = key_step t k" by (intro ext) (rule key_step_settings[OF s])
  ultimately show ?case using Cons.IH[of "attempt_step t e"] Cons.prems step same_settings_trans[OF s] by simp
qed simp

section \<open>One count per address\<close>

definition concerns :: "throttle \<Rightarrow> string option \<Rightarrow> attempt \<Rightarrow> bool" where
  "concerns t a e \<longleftrightarrow> keys_of t a \<inter> keys_of t (attempt_address e) \<noteq> {}"

lemma foldl_filter_inert: "(\<And>c e. \<not> P e \<Longrightarrow> f c e = c) \<Longrightarrow> foldl f c (filter P es) = foldl f c es"
  by (induction es arbitrary: c) auto

lemma key_step_inert: "k \<in> keys_of t a \<Longrightarrow> \<not> concerns t a e \<Longrightarrow> key_step t k c e = c"
proof -
  assume "k \<in> keys_of t a" "\<not> concerns t a e"
  then have k: "k \<notin> keys_of t (attempt_address e)" by (auto simp: concerns_def)
  then have "map_of (throttle_keys t (attempt_address e)) k = None" by (simp add: keys_of_def map_of_eq_None_iff)
  moreover have "fst (hd (throttle_keys t (attempt_address e))) \<in> keys_of t (attempt_address e)"
    using keys_two[of t "attempt_address e"] by (auto simp: keys_of_def)
  ultimately show ?thesis using k by (cases e) auto
qed

lemma lockedForSeconds_get:
  assumes "same_settings t t'" "\<And>k. k \<in> keys_of t a \<Longrightarrow> bm_get (th_entries t1) k = bm_get (th_entries t') k" "same_settings t t1"
  shows "lockedForSeconds now a t1 = lockedForSeconds now a t'"
proof -
  have w: "th_windowMs t1 = th_windowMs t'" using assms(1,3) by (simp add: same_settings_def)
  have "key_wait now t1 kl = key_wait now t' kl" if "kl \<in> set (throttle_keys t a)" for kl
  proof -
    have "bm_get (th_entries t1) (fst kl) = bm_get (th_entries t') (fst kl)" using that by (intro assms(2)) (simp add: keys_of_def)
    then show ?thesis unfolding key_wait_def w by simp
  qed
  then show ?thesis using same_settings_keys[OF assms(1)] same_settings_keys[OF assms(3)]
    by (auto simp: lockedForSeconds_def intro!: fold_cong)
qed

lemma room_for_new:
  assumes "card (\<Union>e \<in> set es. keys_of t (attempt_address e)) \<le> nat \<lfloor>positive_or maxTracked 1000\<rfloor>"
    and "t = throttle_new maxFailures windowMs maxTracked exemptLocal"
  shows "room_for (\<Union>e \<in> set es. keys_of t (attempt_address e)) t"
proof -
  have "positive_or v 1000 \<ge> 1" for v by (cases "(v, 1000 :: rat)" rule: positive_or.cases) simp_all
  from this[of maxTracked] have pos: "\<lfloor>positive_or maxTracked 1000\<rfloor> \<ge> 1" by linarith
  have max: "bm_max (th_entries t) = Num (of_nat (nat \<lfloor>positive_or maxTracked 1000\<rfloor>))"
    using pos by (simp add: assms(2) throttle_new_def bm_new_def)
  have "finite (\<Union>e \<in> set es. keys_of t (attempt_address e))" by (auto simp: keys_of_def)
  moreover have "0 < nat \<lfloor>positive_or maxTracked 1000\<rfloor>" using pos by simp
  moreover have "bm_ok (th_entries t)" "bm_get (th_entries t) k = None" for k by (simp_all add: assms(2) throttle_new_def)
  ultimately show ?thesis using assms(1) max unfolding room_for_def
    by (intro conjI exI[of _ "nat \<lfloor>positive_or maxTracked 1000\<rfloor>"]) simp_all
qed

text \<open>The limit is per address, never global: whether an address is locked, and for how long, depends only on the attempts that share its address or its
  IPv6 prefix, as long as the keys that occur fit the table. Nobody else's errors lock it and nobody else's success unlocks it.\<close>

theorem locked_by_own_attempts_only:
  assumes "t = throttle_new maxFailures windowMs maxTracked exemptLocal"
    and "card (\<Union>e \<in> set es. keys_of t (attempt_address e)) \<le> nat \<lfloor>positive_or maxTracked 1000\<rfloor>"
  shows "lockedForSeconds now a (foldl attempt_step t es) = lockedForSeconds now a (foldl attempt_step t (filter (concerns t a) es))"
proof -
  let ?K = "\<Union>e \<in> set es. keys_of t (attempt_address e)"
  have room: "room_for ?K t" by (rule room_for_new[OF assms(2,1)])
  have own: "bm_get (th_entries (foldl attempt_step t (filter P es))) k = foldl (key_step t k) (bm_get (th_entries t) k) (filter P es)
      \<and> same_settings t (foldl attempt_step t (filter P es))" for P k
    by (rule attempts_get[OF room]) auto
  have all: "bm_get (th_entries (foldl attempt_step t es)) k = foldl (key_step t k) (bm_get (th_entries t) k) es
      \<and> same_settings t (foldl attempt_step t es)" for k using own[of "\<lambda>_. True" k] by simp
  have "bm_get (th_entries (foldl attempt_step t es)) k = bm_get (th_entries (foldl attempt_step t (filter (concerns t a) es))) k" if "k \<in> keys_of t a" for k
    using all[of k] own[of "concerns t a" k] foldl_filter_inert[of "concerns t a" "key_step t k" _ es] key_step_inert[OF that] by simp
  then show ?thesis using all own[of "concerns t a"] by (intro lockedForSeconds_get[of t]) blast+
qed

lemma locked_by_own_attempts_only_witness:
  "lockedForSeconds 4 (Some ''10.0.0.1'')
     (foldl attempt_step (throttle_new (Some (Num 1)) None None None) [WrongPassword 1 False (Some ''10.0.0.1''), WrongPassword 2 False (Some ''10.0.0.2''), RightPassword (Some ''10.0.0.2'')]) = 600"
proof -
  let ?t = "throttle_new (Some (Num 1)) None None None"
  let ?es = "[WrongPassword 1 False (Some ''10.0.0.1''), WrongPassword 2 False (Some ''10.0.0.2''), RightPassword (Some ''10.0.0.2'')]"
  have keys: "keys_of ?t (Some ''10.0.0.1'') = {''a:10.0.0.1''}" "keys_of ?t (Some ''10.0.0.2'') = {''a:10.0.0.2''}" by code_simp+
  have "card (\<Union>e \<in> set ?es. keys_of ?t (attempt_address e)) \<le> nat \<lfloor>positive_or None 1000\<rfloor>" by (simp add: keys)
  note own = locked_by_own_attempts_only[OF refl this, of 4 "Some ''10.0.0.1''"]
  have "filter (concerns ?t (Some ''10.0.0.1'')) ?es = [WrongPassword 1 False (Some ''10.0.0.1'')]" by (simp add: concerns_def keys)
  moreover have "lockedForSeconds 4 (Some ''10.0.0.1'') (foldl attempt_step ?t [WrongPassword 1 False (Some ''10.0.0.1'')]) = 600" by code_simp
  ultimately show ?thesis using own by simp
qed

lemma failures_in_window:
  assumes "\<forall>s \<in> set ts. s - fc_since c < th_windowMs t" "map_of (throttle_keys t a) k = Some l"
  shows "foldl (key_step t k) (Some c) (map (\<lambda>s. WrongPassword s False a) ts) = Some (c\<lparr>fc_count := fc_count c + length ts\<rparr>)"
  using assms(1)
proof (induction ts arbitrary: c)
  case (Cons s ts)
  have "key_step t k (Some c) (WrongPassword s False a) = Some (c\<lparr>fc_count := fc_count c + 1\<rparr>)"
    using Cons.prems assms(2) by (simp add: bump_def Let_def)
  then show ?case using Cons.IH[of "c\<lparr>fc_count := fc_count c + 1\<rparr>"] Cons.prems by simp
qed simp

text \<open>An address is locked exactly when it has presented as many wrong passwords as allowed within the window, and then until the window that began with
  the first of them ends, whatever all other addresses do, as long as the keys that occur fit the table.\<close>

theorem locked_at_the_limit:
  assumes new: "t = throttle_new maxFailures windowMs maxTracked exemptLocal"
    and fit: "card (\<Union>e \<in> set es. keys_of t (attempt_address e)) \<le> nat \<lfloor>positive_or maxTracked 1000\<rfloor>"
    and own: "filter (concerns t a) es = map (\<lambda>s. WrongPassword s False a) (first # ts)" and window: "\<forall>s \<in> set ts. s - first < th_windowMs t"
  shows "lockedForSeconds now a (foldl attempt_step t es) =
    (if length (first # ts) < th_maxFailures t then 0 else max 0 \<lceil>(first + th_windowMs t - now) / 1000\<rceil>)"
proof -
  let ?t' = "foldl attempt_step t es"
  have room: "room_for (\<Union>e \<in> set es. keys_of t (attempt_address e)) t" by (rule room_for_new[OF fit new])
  have run: "bm_get (th_entries ?t') k = foldl (key_step t k) None es \<and> same_settings t ?t'" for k
    using attempts_get[OF room, of es k] by (auto simp: new throttle_new_def)
  have get: "bm_get (th_entries ?t') k = Some \<lparr>fc_count = Suc (length ts), fc_since = first, fc_limit = l\<rparr>" if "map_of (throttle_keys t a) k = Some l" for k l
  proof -
    have "k \<in> keys_of t a" using that by (force simp: keys_of_def dest: map_of_SomeD)
    then have "foldl (key_step t k) None es = foldl (key_step t k) None (filter (concerns t a) es)"
      using foldl_filter_inert[of "concerns t a" "key_step t k" None es] key_step_inert by simp
    also have "\<dots> = foldl (key_step t k) (Some \<lparr>fc_count = 1, fc_since = first, fc_limit = l\<rparr>) (map (\<lambda>s. WrongPassword s False a) ts)"
      using that by (simp add: own bump_def Let_def)
    also have "\<dots> = Some \<lparr>fc_count = Suc (length ts), fc_since = first, fc_limit = l\<rparr>"
      using failures_in_window[OF _ that, of ts "\<lparr>fc_count = 1, fc_since = first, fc_limit = l\<rparr>"] window by simp
    finally show ?thesis using run by simp
  qed
  have s: "same_settings t ?t'" using run by blast
  have wait: "key_wait now ?t' (k, l) = (if Suc (length ts) < l then 0 else max 0 \<lceil>(first + th_windowMs t - now) / 1000\<rceil>)"
    if "map_of (throttle_keys t a) k = Some l" for k l
    using get[OF that] s by (simp add: key_wait_def same_settings_def)
  from keys_two[of t a] show ?thesis
  proof
    assume "throttle_keys t a = [(''a:'' @ normalizeAddress a, th_maxFailures t)]"
    then show ?thesis using wait[of "''a:'' @ normalizeAddress a" "th_maxFailures t"] by (simp add: lockedForSeconds_def same_settings_keys[OF s])
  next
    assume k: "throttle_keys t a = [(''a:'' @ normalizeAddress a, th_maxFailures t), (''p:'' @ ipLimiterKey a, th_maxFailures t * PREFIX_LIMIT_FACTOR)]"
    then show ?thesis
      using wait[of "''a:'' @ normalizeAddress a" "th_maxFailures t"] wait[of "''p:'' @ ipLimiterKey a" "th_maxFailures t * PREFIX_LIMIT_FACTOR"]
      by (simp add: lockedForSeconds_def same_settings_keys[OF s] PREFIX_LIMIT_FACTOR_def)
  qed
qed

lemma locked_at_the_limit_witness:
  "lockedForSeconds 4 (Some ''10.0.0.1'')
     (foldl attempt_step (throttle_new (Some (Num 2)) None None None) [WrongPassword 4 False (Some ''10.0.0.1''), WrongPassword 4 False (Some ''10.0.0.2''), WrongPassword 4 False (Some ''10.0.0.1'')]) = 600"
proof -
  let ?t = "throttle_new (Some (Num 2)) None None None"
  let ?es = "[WrongPassword 4 False (Some ''10.0.0.1''), WrongPassword 4 False (Some ''10.0.0.2''), WrongPassword 4 False (Some ''10.0.0.1'')]"
  have keys: "keys_of ?t (Some ''10.0.0.1'') = {''a:10.0.0.1''}" "keys_of ?t (Some ''10.0.0.2'') = {''a:10.0.0.2''}" by code_simp+
  have settings: "th_windowMs ?t = 600000" "th_maxFailures ?t = 2" by code_simp+
  have fit: "card (\<Union>e \<in> set ?es. keys_of ?t (attempt_address e)) \<le> nat \<lfloor>positive_or None 1000\<rfloor>" by (simp add: keys card_insert_if)
  have own: "filter (concerns ?t (Some ''10.0.0.1'')) ?es = map (\<lambda>s. WrongPassword s False (Some ''10.0.0.1'')) (4 # [4])" by (simp add: concerns_def keys)
  have window: "\<forall>s \<in> set [4]. s - 4 < th_windowMs ?t" by (simp add: settings)
  from locked_at_the_limit[OF refl fit own window, of 4] show ?thesis by (simp add: settings)
qed

section \<open>Spellings\<close>

lemma double_colon: "has_double_colon (xs @ ''::'' @ ys)"
proof (induction xs rule: induct_list012)
  case (2 x)
  then show ?case by simp
next
  case (3 x y zs)
  then show ?case by simp
qed simp

lemma nonempty_while:
  assumes "\<forall>g \<in> set ls. g \<noteq> ([] :: string)"
  shows "takeWhile (\<lambda>g. g \<noteq> []) (or_empty ls @ [[]] @ rs) = ls"
    and "filter (\<lambda>g. g \<noteq> []) (tl (dropWhile (\<lambda>g. g \<noteq> []) (or_empty ls @ [[]] @ rs))) = filter (\<lambda>g. g \<noteq> []) rs"
  using assms by (auto simp: or_empty_def takeWhile_append2 dropWhile_append2)

lemma filter_or_empty: "\<forall>g \<in> set ls. g \<noteq> ([] :: string) \<Longrightarrow> filter (\<lambda>g. g \<noteq> []) (or_empty ls) = ls"
  by (auto simp: or_empty_def filter_id_conv)

lemma expand_short:
  assumes g: "\<forall>g \<in> set (left @ right). hex_group g"
  shows "expandIpv6 (short_spelling left right) =
    map (map lower_hex) left @ replicate (8 - length left - length right) ''0'' @ map (map lower_hex) right"
proof -
  let ?l = "map (map lower_hex) left" and ?r = "map (map lower_hex) right"
  have low: "\<forall>g \<in> set (?l @ ?r). hex_group g" using g by (auto simp: lower_group)
  then have ne: "\<forall>g \<in> set ?l. g \<noteq> []" "\<forall>g \<in> set ?r. g \<noteq> []" using hex_group_nonempty by auto
  have "split_on CHR '':'' (map lower_hex (short_spelling left right)) = or_empty ?l @ [[]] @ or_empty ?r"
    unfolding lower_short by (rule split_short[OF low])
  moreover have "has_double_colon (short_spelling left right)" unfolding short_spelling_def by (rule double_colon)
  ultimately show ?thesis using nonempty_while[OF ne(1), of "or_empty ?r"] filter_or_empty[OF ne(2)]
    by (simp add: expandIpv6_def Let_def)
qed

lemma expand_full:
  assumes g: "\<forall>g \<in> set gs. hex_group g" and "gs \<noteq> []"
  shows "expandIpv6 (full_spelling gs) = map (map lower_hex) gs"
proof -
  have low: "\<forall>g \<in> set (map (map lower_hex) gs). hex_group g" using g by (auto simp: lower_group)
  then have "[] \<notin> set (map (map lower_hex) gs)" using hex_group_nonempty by blast
  moreover have "split_on CHR '':'' (map lower_hex (full_spelling gs)) = map (map lower_hex) gs"
    unfolding lower_full by (rule split_full[OF _ low]) (use assms in simp)
  ultimately show ?thesis by (simp add: expandIpv6_def Let_def)
qed

lemma expand_spelling: "spells s vs \<Longrightarrow> map strip_zeros (expandIpv6 s) = map hex_text vs"
proof -
  have zero: "hex_text 0 = ''0''" by code_simp
  have group: "map (strip_zeros \<circ> map lower_hex) gs = map (hex_text \<circ> hex_value 0) gs" if "\<forall>g \<in> set gs. hex_group g" for gs
    using that by (simp add: hex_group_text)
  assume "spells s vs"
  then consider (full) gs where "length gs = 8" "\<forall>g \<in> set gs. hex_group g" "s = full_spelling gs" "map (hex_value 0) gs = vs"
    | (short) left right where "\<forall>g \<in> set (left @ right). hex_group g" "s = short_spelling left right"
      "map (hex_value 0) left @ replicate (8 - length left - length right) 0 @ map (hex_value 0) right = vs"
    by (auto simp: spells_def)
  then show ?thesis
  proof cases
    case full
    then have "gs \<noteq> []" by auto
    then show ?thesis using full expand_full[OF full(2)] group[OF full(2)] by auto
  next
    case short
    then show ?thesis using expand_short[OF short(1)] group[of left] group[of right] zero by auto
  qed
qed

text \<open>An address is counted once, however it is spelt: two spellings of the same eight groups of an IPv6 address, in upper or lower case, with or without
  leading zeros and with the zero groups written out or not, have the same normal form and the same prefix, unless a spelling begins with
  \<open>::ffff:\<close>, which the code takes for an IPv4 address.\<close>

theorem spelling_does_not_matter:
  assumes "spells s vs" "spells s' vs" "drop_mapped s = s" "drop_mapped s' = s'"
  shows "normalizeAddress (Some s) = normalizeAddress (Some s') \<and> ipLimiterKey (Some s) = ipLimiterKey (Some s')"
proof -
  have "normalizeAddress (Some s) = join_with '':'' (map hex_text vs)" if "spells s vs" "drop_mapped s = s" for s
  proof -
    have "takeWhile (\<lambda>c. c \<noteq> CHR ''%'') s = s" using spelling_chars(2)[OF that(1)] by (auto simp: takeWhile_eq_all_conv)
    then show ?thesis using that spelling_chars(1)[OF that(1)] expand_spelling[OF that(1)] by (simp only: normalizeAddress_def Let_def option.case if_True if_False simp_thms)
  qed
  then have "normalizeAddress (Some s) = normalizeAddress (Some s')" using assms by simp
  then show ?thesis by (simp add: ipLimiterKey_def)
qed

lemma spelling_does_not_matter_witness:
  "normalizeAddress (Some ''A::01'') = normalizeAddress (Some ''a:0:0:0:0:0:0:1'')"
proof -
  have "spells ''A::01'' [10, 0, 0, 0, 0, 0, 0, 1]"
    by (rule spells_shortI[of "[''A'']" "[''01'']"]; code_simp)
  moreover have "spells ''a:0:0:0:0:0:0:1'' [10, 0, 0, 0, 0, 0, 0, 1]"
    by (rule spells_fullI[of "[''a'', ''0'', ''0'', ''0'', ''0'', ''0'', ''0'', ''1'']"]; code_simp)
  moreover have "drop_mapped ''A::01'' = ''A::01''" "drop_mapped ''a:0:0:0:0:0:0:1'' = ''a:0:0:0:0:0:0:1''" by code_simp+
  ultimately show ?thesis using spelling_does_not_matter by blast
qed

section \<open>Flooding the table\<close>

definition unlocked_at :: "throttle \<Rightarrow> string \<Rightarrow> bool" where
  "unlocked_at t k \<longleftrightarrow> (\<exists>e. bm_get (th_entries t) k = Some e \<and> fc_count e < fc_limit e)"

lemma put_keeps_locked:
  assumes "bm_ok (th_entries t)" "bm_get (th_entries t) k = Some e" "fc_limit e \<le> fc_count e" "unlocked_at t k2" "k \<noteq> j"
  shows "bm_get (bm_put throttle_score j v (th_entries t)) k = Some e"
proof -
  obtain e2 where e2: "bm_get (th_entries t) k2 = Some e2" "fc_count e2 < fc_limit e2" using assms(4) by (auto simp: unlocked_at_def)
  show ?thesis unfolding throttle_score_def by (rule bm_set_survives[OF assms(1,5,2) e2(1), where a = 0]) (use e2 assms(3) in simp_all)
qed

lemma count_failure_keeps_locked:
  assumes ok: "bm_ok (th_entries t)" and e: "bm_get (th_entries t) k = Some e" "fc_limit e \<le> fc_count e" and k2: "unlocked_at t k2"
    and ne: "k \<noteq> fst kl" "k2 \<noteq> fst kl" and limit: "snd kl \<ge> 2"
  shows "bm_get (th_entries (count_failure now kl t)) k = Some e \<and> bm_ok (th_entries (count_failure now kl t))
    \<and> (unlocked_at (count_failure now kl t) k2 \<or> unlocked_at (count_failure now kl t) (fst kl))"
proof -
  let ?m = "th_entries t" and ?new = "\<lparr>fc_count = 1, fc_since = now, fc_limit = snd kl\<rparr>"
  have size: "\<not> num_le (bm_max ?m) (Num 0)"
  proof
    assume "num_le (bm_max ?m) (Num 0)"
    then have "bm_size ?m = 0" using ok by (cases "bm_max ?m") (auto simp: bm_ok_def)
    then show False using e by (simp add: bm_size_def bm_get_def)
  qed
  show ?thesis
  proof (cases "case bm_get ?m (fst kl) of Some e' \<Rightarrow> now - fc_since e' \<ge> th_windowMs t | None \<Rightarrow> True")
    case True
    then have step: "count_failure now kl t = t\<lparr>th_entries := bm_put throttle_score (fst kl) ?new ?m\<rparr>"
      by (auto simp: count_failure_def split: option.splits)
    have "unlocked_at (count_failure now kl t) (fst kl)"
      using bm_set_get_same[OF size, of throttle_score "fst kl" ?new] limit by (simp add: unlocked_at_def step)
    then show ?thesis using put_keeps_locked[OF ok e k2 ne(1), of ?new] bm_set_ok[OF ok, of throttle_score "fst kl" ?new] by (simp add: step)
  next
    case False
    then obtain e' where e': "bm_get ?m (fst kl) = Some e'" "\<not> now - fc_since e' \<ge> th_windowMs t" by (auto split: option.splits)
    then have step: "count_failure now kl t = t\<lparr>th_entries := bm_write (fst kl) (e'\<lparr>fc_count := fc_count e' + 1\<rparr>) ?m\<rparr>"
      by (simp add: count_failure_def)
    show ?thesis using e ne k2 bm_write_ok[OF ok, of "fst kl"] e'(1) by (auto simp: step bm_write_get unlocked_at_def)
  qed
qed

text \<open>A locked address cannot be unlocked by flooding the table: an error of any other address, however full the table is, leaves an entry that has
  reached its limit as it is, as long as the table also holds an entry of a third address below its limit.\<close>

theorem lock_survives_flood:
  assumes "bm_ok (th_entries t)" and "bm_get (th_entries t) k = Some e" "fc_limit e \<le> fc_count e" and "unlocked_at t k2"
    and "k \<notin> keys_of t b" "k2 \<notin> keys_of t b" and "th_maxFailures t \<ge> 2"
  shows "bm_get (th_entries (recordFailure now here b t)) k = Some e"
proof (cases "th_exemptLocal t \<and> here")
  case False
  let ?a = "(''a:'' @ normalizeAddress b, th_maxFailures t)" and ?p = "(''p:'' @ ipLimiterKey b, th_maxFailures t * PREFIX_LIMIT_FACTOR)"
  have ne: "k \<noteq> fst ?a" "k2 \<noteq> fst ?a" using assms(5,6) keys_two[of t b] by (auto simp: keys_of_def)
  have first: "bm_get (th_entries (count_failure now ?a t)) k = Some e \<and> bm_ok (th_entries (count_failure now ?a t))
    \<and> (unlocked_at (count_failure now ?a t) k2 \<or> unlocked_at (count_failure now ?a t) (fst ?a))"
    using assms(7) by (intro count_failure_keeps_locked[OF assms(1-4) ne]) simp
  from keys_two[of t b] show ?thesis
  proof
    assume "throttle_keys t b = [?a]"
    then show ?thesis using False first by (auto simp: recordFailure_def)
  next
    assume keys: "throttle_keys t b = [?a, ?p]"
    then have ne2: "k \<noteq> fst ?p" "k2 \<noteq> fst ?p" using assms(5,6) by (auto simp: keys_of_def)
    obtain k3 where "unlocked_at (count_failure now ?a t) k3" "k3 \<noteq> fst ?p" using first ne2(2) by auto
    then have "bm_get (th_entries (count_failure now ?p (count_failure now ?a t))) k = Some e"
      using count_failure_keeps_locked[of "count_failure now ?a t" k e k3 ?p now] first assms(3,7) ne2 by (simp add: PREFIX_LIMIT_FACTOR_def)
    then show ?thesis using False keys by (auto simp: recordFailure_def)
  qed
qed (use assms in \<open>simp add: recordFailure_def\<close>)

definition flooded :: throttle where
  "flooded = (throttle_new (Some (Num 2)) None (Some (Num 2)) None)\<lparr>th_entries := \<lparr>bm_map =
     [(''a:10.0.0.1'', \<lparr>fc_count = 2, fc_since = 0, fc_limit = 2\<rparr>), (''a:10.0.0.2'', \<lparr>fc_count = 1, fc_since = 0, fc_limit = 2\<rparr>)], bm_max = Num 2\<rparr>\<rparr>"

lemma lock_survives_flood_witness:
  "bm_get (th_entries (recordFailure 5 False (Some ''10.0.0.3'') flooded)) ''a:10.0.0.1'' = Some \<lparr>fc_count = 2, fc_since = 0, fc_limit = 2\<rparr>"
proof -
  have keys: "keys_of flooded (Some ''10.0.0.3'') = {''a:10.0.0.3''}" by code_simp
  have "bm_ok (th_entries flooded)" by (simp add: flooded_def bm_ok_def bm_size_def)
  moreover have "bm_get (th_entries flooded) ''a:10.0.0.1'' = Some \<lparr>fc_count = 2, fc_since = 0, fc_limit = 2\<rparr>" by (simp add: flooded_def bm_get_def)
  moreover have "unlocked_at flooded ''a:10.0.0.2''" by (simp add: unlocked_at_def flooded_def bm_get_def)
  moreover have "th_maxFailures flooded = 2" by code_simp
  ultimately show ?thesis using lock_survives_flood[of flooded "''a:10.0.0.1''" "\<lparr>fc_count = 2, fc_since = 0, fc_limit = 2\<rparr>" "''a:10.0.0.2''" "Some ''10.0.0.3''" 5 False]
    by (simp add: keys)
qed

end
