(* ===== verification/UrlSafety.thy ===== *)
theory UrlSafety
  imports AddressText "HOL-Library.Word"
begin

text \<open>
  \<open>node/src/url-safety.ts\<close>: whether a URL leads to a public address, so that a node never probes its own network for somebody else. The
  classification of a text as an address (\<open>isIP\<close> of \<open>node:net\<close>) and the resolution of names are arguments.
\<close>

unbundle bit_operations_syntax

section \<open>IPv4\<close>

definition IPV4_RESERVED_RANGES :: "(string \<times> string) list" where
  "IPV4_RESERVED_RANGES =
    [(''0.0.0.0'', ''0.255.255.255''), (''10.0.0.0'', ''10.255.255.255''), (''100.64.0.0'', ''100.127.255.255''),
     (''127.0.0.0'', ''127.255.255.255''), (''169.254.0.0'', ''169.254.255.255''), (''172.16.0.0'', ''172.31.255.255''),
     (''192.0.0.0'', ''192.0.0.255''), (''192.0.2.0'', ''192.0.2.255''), (''192.168.0.0'', ''192.168.255.255''),
     (''198.18.0.0'', ''198.19.255.255''), (''198.51.100.0'', ''198.51.100.255''), (''203.0.113.0'', ''203.0.113.255''),
     (''224.0.0.0'', ''255.255.255.255'')]"

definition decimal_digit :: "char \<Rightarrow> nat option" where
  "decimal_digit c = map_of (zip ''0123456789'' [0..<10]) c"

text \<open>\<open>Number(p)\<close> of a text of digits. Anything else is NaN here, which the bit operations take for 0; \<open>isIP\<close> admits nothing else.\<close>

fun decimal_value :: "nat \<Rightarrow> string \<Rightarrow> nat" where
  "decimal_value acc [] = acc"
| "decimal_value acc (c # cs) = (case decimal_digit c of Some d \<Rightarrow> decimal_value (10 * acc + d) cs | None \<Rightarrow> 0)"

definition part :: "string list \<Rightarrow> nat \<Rightarrow> 32 word" where
  "part parts i = (if i < length parts then of_nat (decimal_value 0 (parts ! i)) else 0)"

definition ipv4ToInt :: "string \<Rightarrow> nat" where
  "ipv4ToInt address = (let parts = split_on CHR ''.'' address in
     unat (push_bit 24 (part parts 0) OR push_bit 16 (part parts 1) OR push_bit 8 (part parts 2) OR part parts 3))"

definition public_ipv4 :: "string \<Rightarrow> bool" where
  "public_ipv4 address = (let value = ipv4ToInt address in
     \<not> list_ex (\<lambda>(from_text, to_text). value \<ge> ipv4ToInt from_text \<and> value \<le> ipv4ToInt to_text) IPV4_RESERVED_RANGES)"

section \<open>IPv6\<close>

text \<open>\<open>split("::")\<close>.\<close>

fun split_double :: "string \<Rightarrow> string list" where
  "split_double [] = [[]]"
| "split_double [a] = [[a]]"
| "split_double (a # b # s) =
     (if a = CHR '':'' \<and> b = CHR '':'' then [] # split_double s
      else case split_double (b # s) of [] \<Rightarrow> [[a]] | p # ps \<Rightarrow> (a # p) # ps)"

definition side_groups :: "string \<Rightarrow> string list" where
  "side_groups side = (if side \<noteq> [] then split_on CHR '':'' side else [])"

definition expandIPv6Groups :: "string \<Rightarrow> string list option" where
  "expandIPv6Groups address =
     (let sides = split_double address in
      if length sides > 1 then
        if length sides \<noteq> 2 then None
        else let left = side_groups (sides ! 0); right = side_groups (sides ! 1) in
          if length left + length right > 8 then None
          else Some (left @ replicate (8 - length left - length right) ''0'' @ right)
      else let groups = split_on CHR '':'' address in if length groups = 8 then Some groups else None)"

definition isZeroGroup :: "string \<Rightarrow> bool" where "isZeroGroup g \<longleftrightarrow> parse_hex g = Some 0"

definition in_hex_range :: "nat \<Rightarrow> nat \<Rightarrow> string \<Rightarrow> bool" where
  "in_hex_range lo hi g \<longleftrightarrow> (case parse_hex g of Some v \<Rightarrow> lo \<le> v \<and> v \<le> hi | None \<Rightarrow> False)"

function dec_text :: "nat \<Rightarrow> string" where
  "dec_text n = (if n < 10 then [''0123456789'' ! n] else dec_text (n div 10) @ [''0123456789'' ! (n mod 10)])"
  by auto
termination by (relation "measure id") auto

declare dec_text.simps [simp del]

definition shown :: "nat option \<Rightarrow> string" where
  "shown v = (case v of Some n \<Rightarrow> dec_text n | None \<Rightarrow> ''NaN'')"

definition pad_group :: "string \<Rightarrow> string" where "pad_group g = replicate (4 - length g) CHR ''0'' @ g"

definition embedded_ipv4 :: "string list \<Rightarrow> string" where
  "embedded_ipv4 groups = (let high = pad_group (groups ! 6); low = pad_group (groups ! 7) in
     shown (parse_hex (take 2 high)) @ ''.'' @ shown (parse_hex (take 2 (drop 2 high))) @ ''.'' @
     shown (parse_hex (take 2 low)) @ ''.'' @ shown (parse_hex (take 2 (drop 2 low))))"

text \<open>The body of \<open>isPublicAddress\<close>; \<open>again\<close> is its recursive call, on the embedded IPv4 address. That text has no colon and so no eight groups: the call
  does not call itself once more.\<close>

definition public_address :: "(string \<Rightarrow> bool) \<Rightarrow> (string \<Rightarrow> nat) \<Rightarrow> string \<Rightarrow> bool" where
  "public_address again isIP address =
     (if isIP address = 4 then public_ipv4 address
      else if isIP address = 6 then
        let normalized = map lower_hex address in
        if normalized = ''::1'' \<or> normalized = ''::'' then False
        else case expandIPv6Groups normalized of
          None \<Rightarrow> True
        | Some groups \<Rightarrow>
            if in_hex_range 0xfe80 0xfebf (groups ! 0) then False
            else if in_hex_range 0xfc00 0xfdff (groups ! 0) then False
            else let isIPv4Mapped = (list_all isZeroGroup (take 5 groups) \<and> groups ! 5 = ''ffff'');
                     isIPv4Compatible = list_all isZeroGroup (take 6 groups) in
              if isIPv4Mapped \<or> isIPv4Compatible then again (embedded_ipv4 groups) else True
      else False)"

definition isPublicAddress :: "(string \<Rightarrow> nat) \<Rightarrow> string \<Rightarrow> bool" where
  "isPublicAddress isIP = public_address (public_address (\<lambda>_. False) isIP) isIP"

record url =
  url_protocol :: string
  url_hostname :: string

definition unbracketed :: "string \<Rightarrow> string" where
  "unbracketed h = (let h1 = (if h \<noteq> [] \<and> hd h = CHR ''['' then tl h else h) in if h1 \<noteq> [] \<and> last h1 = CHR '']'' then butlast h1 else h1)"

text \<open>\<open>lookup\<close> gives the addresses of a name, or nothing if it fails.\<close>

definition isPubliclyRoutableUrl :: "(string \<Rightarrow> nat) \<Rightarrow> (string \<Rightarrow> string list option) \<Rightarrow> url \<Rightarrow> bool" where
  "isPubliclyRoutableUrl isIP lookup u =
     (if url_protocol u \<noteq> ''http:'' \<and> url_protocol u \<noteq> ''https:'' then False
      else let hostname = unbracketed (url_hostname u) in
        if isIP hostname \<noteq> 0 then isPublicAddress isIP hostname
        else case lookup hostname of
          None \<Rightarrow> False
        | Some resolved \<Rightarrow> if resolved = [] then False else list_all (isPublicAddress isIP) resolved)"

section \<open>The value of a dotted address\<close>

definition dotted :: "nat \<Rightarrow> nat \<Rightarrow> nat \<Rightarrow> nat \<Rightarrow> string" where
  "dotted a b c d = dec_text a @ ''.'' @ dec_text b @ ''.'' @ dec_text c @ ''.'' @ dec_text d"

definition quad :: "nat \<Rightarrow> nat \<Rightarrow> nat \<Rightarrow> nat \<Rightarrow> nat" where
  "quad a b c d = ((a * 256 + b) * 256 + c) * 256 + d"

lemma digit_facts: "d < 10 \<Longrightarrow> decimal_digit (''0123456789'' ! d) = Some d \<and> ''0123456789'' ! d \<noteq> CHR ''.''"
proof -
  have "list_all (\<lambda>d. decimal_digit (''0123456789'' ! d) = Some d \<and> ''0123456789'' ! d \<noteq> CHR ''.'') [0..<10]" by code_simp
  then show "d < 10 \<Longrightarrow> ?thesis" by (simp add: list_all_iff)
qed

lemma decimal_value_snoc:
  "\<forall>c \<in> set s. decimal_digit c \<noteq> None \<Longrightarrow> decimal_digit x = Some d \<Longrightarrow> decimal_value acc (s @ [x]) = 10 * decimal_value acc s + d"
proof (induction s arbitrary: acc)
  case (Cons y s)
  then obtain e where "decimal_digit y = Some e" by auto
  then show ?case using Cons by simp
qed simp

lemma dec_text_digits: "\<forall>c \<in> set (dec_text n). decimal_digit c \<noteq> None \<and> c \<noteq> CHR ''.''"
proof (induction n rule: dec_text.induct)
  case (1 n)
  then show ?case using digit_facts[of n] digit_facts[of "n mod 10"] by (subst dec_text.simps) auto
qed

lemma dec_text_value: "decimal_value 0 (dec_text n) = n"
proof (induction n rule: dec_text.induct)
  case (1 n)
  show ?case
  proof (cases "n < 10")
    case True
    then show ?thesis using digit_facts[of n] by (simp add: dec_text.simps)
  next
    case False
    then have "decimal_value 0 (dec_text n) = 10 * decimal_value 0 (dec_text (n div 10)) + n mod 10"
      using digit_facts[of "n mod 10"] dec_text_digits[of "n div 10"] decimal_value_snoc[of "dec_text (n div 10)" "''0123456789'' ! (n mod 10)" "n mod 10" 0]
      by (subst dec_text.simps) simp
    then show ?thesis using 1 False by simp
  qed
qed

lemma split_dotted: "split_on CHR ''.'' (dotted a b c d) = [dec_text a, dec_text b, dec_text c, dec_text d]"
  using split_join[of "[dec_text a, dec_text b, dec_text c, dec_text d]" "CHR ''.''"] dec_text_digits by (auto simp: dotted_def)

lemma small_bits: "n < 256 \<Longrightarrow> bit (of_nat n :: 32 word) k \<Longrightarrow> k < 8"
proof -
  assume n: "n < 256" "bit (of_nat n :: 32 word) k"
  have "take_bit 8 (of_nat n :: 32 word) = of_nat n" using n(1) by (simp add: word_unat_eq_iff unsigned_take_bit_eq unsigned_of_nat take_bit_nat_eq_self)
  then have "bit (take_bit 8 (of_nat n :: 32 word)) k" using n(2) by simp
  then show "k < 8" by (simp add: bit_take_bit_iff)
qed

lemma or_is_plus: "x AND y = 0 \<Longrightarrow> x OR y = x + (y :: 32 word)"
  using word_plus_and_or[of x y] by simp

lemma quad_bound: "a < 256 \<Longrightarrow> b < 256 \<Longrightarrow> c < 256 \<Longrightarrow> d < 256 \<Longrightarrow> quad a b c d < 2 ^ 32"
  by (simp add: quad_def)

lemma quad_word:
  assumes "a < 256" "b < 256" "c < 256" "d < 256"
  shows "unat (push_bit 24 (of_nat a) OR push_bit 16 (of_nat b) OR push_bit 8 (of_nat c) OR (of_nat d :: 32 word)) = quad a b c d"
proof -
  let ?a = "push_bit 24 (of_nat a :: 32 word)" and ?b = "push_bit 16 (of_nat b :: 32 word)" and ?c = "push_bit 8 (of_nat c :: 32 word)" and ?d = "of_nat d :: 32 word"
  have low: "bit ?d k \<Longrightarrow> k < 8" "bit ?c k \<Longrightarrow> 8 \<le> k \<and> k < 16" "bit ?b k \<Longrightarrow> 16 \<le> k \<and> k < 24" "bit ?a k \<Longrightarrow> 24 \<le> k" for k
    using small_bits[OF assms(4), of k] small_bits[OF assms(3), of "k - 8"] small_bits[OF assms(2), of "k - 16"]
    by (auto simp: bit_push_bit_iff)
  have apart: "\<not> (bit ?c k \<and> bit ?d k)" "\<not> (bit ?b k \<and> (bit ?c k \<or> bit ?d k))" "\<not> (bit ?a k \<and> (bit ?b k \<or> bit ?c k \<or> bit ?d k))" for k
    using low(1)[of k] low(2)[of k] low(3)[of k] low(4)[of k] by linarith+
  have cd: "?c AND ?d = 0" by (rule bit_eqI) (use apart(1) in \<open>simp add: bit_and_iff\<close>)
  have bcd: "?b AND (?c OR ?d) = 0" by (rule bit_eqI) (use apart(2) in \<open>simp add: bit_and_iff bit_or_iff\<close>)
  have abcd: "?a AND (?b OR ?c OR ?d) = 0" by (rule bit_eqI) (use apart(3) in \<open>simp add: bit_and_iff bit_or_iff\<close>)
  have "?a OR ?b OR ?c OR ?d = ?a + (?b OR ?c OR ?d)" by (rule or_is_plus[OF abcd])
  also have "\<dots> = ?a + (?b + (?c OR ?d))" by (simp only: or_is_plus[OF bcd])
  also have "\<dots> = ?a + (?b + (?c + ?d))" by (simp only: or_is_plus[OF cd])
  also have "\<dots> = of_nat (quad a b c d)" by (simp add: push_bit_eq_mult quad_def algebra_simps)
  finally show ?thesis using quad_bound[OF assms] by (simp add: unsigned_of_nat take_bit_nat_eq_self)
qed

lemma ipv4ToInt_dotted: "a < 256 \<Longrightarrow> b < 256 \<Longrightarrow> c < 256 \<Longrightarrow> d < 256 \<Longrightarrow> ipv4ToInt (dotted a b c d) = quad a b c d"
  using quad_word by (simp add: ipv4ToInt_def split_dotted part_def dec_text_value nth_Cons numeral_eq_Suc)

text \<open>The reserved networks in CIDR form.\<close>

definition in_block :: "nat \<Rightarrow> nat \<times> nat \<Rightarrow> bool" where
  "in_block n b = (n div 2 ^ (32 - snd b) = fst b div 2 ^ (32 - snd b))"

definition reserved_blocks :: "(nat \<times> nat) list" where
  "reserved_blocks =
    [(quad 0 0 0 0, 8), (quad 10 0 0 0, 8), (quad 100 64 0 0, 10), (quad 127 0 0 0, 8), (quad 169 254 0 0, 16), (quad 172 16 0 0, 12),
     (quad 192 0 0 0, 24), (quad 192 0 2 0, 24), (quad 192 168 0 0, 16), (quad 198 18 0 0, 15), (quad 198 51 100 0, 24),
     (quad 203 0 113 0, 24), (quad 224 0 0 0, 3)]"

definition public_value :: "nat \<Rightarrow> bool" where "public_value n \<longleftrightarrow> \<not> list_ex (in_block n) reserved_blocks"

lemma ranges_dotted:
  "IPV4_RESERVED_RANGES =
    [(dotted 0 0 0 0, dotted 0 255 255 255), (dotted 10 0 0 0, dotted 10 255 255 255), (dotted 100 64 0 0, dotted 100 127 255 255),
     (dotted 127 0 0 0, dotted 127 255 255 255), (dotted 169 254 0 0, dotted 169 254 255 255), (dotted 172 16 0 0, dotted 172 31 255 255),
     (dotted 192 0 0 0, dotted 192 0 0 255), (dotted 192 0 2 0, dotted 192 0 2 255), (dotted 192 168 0 0, dotted 192 168 255 255),
     (dotted 198 18 0 0, dotted 198 19 255 255), (dotted 198 51 100 0, dotted 198 51 100 255), (dotted 203 0 113 0, dotted 203 0 113 255),
     (dotted 224 0 0 0, dotted 255 255 255 255)]"
  unfolding IPV4_RESERVED_RANGES_def dotted_def by (simp add: dec_text.simps)

lemma div_range: "0 < k \<Longrightarrow> (n div k = q) = (q * k \<le> n \<and> n < q * k + (k :: nat))"
  by (metis add.commute div_nat_eqI div_times_less_eq_dividend dividend_less_times_div less_eq_div_iff_mult_less_eq mult.commute mult_Suc)

lemma at_most_numeral: "(n :: nat) \<le> numeral k \<longleftrightarrow> n < numeral (Num.inc k)"
  unfolding numeral_inc by (simp only: Suc_eq_plus1[symmetric] less_Suc_eq_le)

lemma value_ranges:
  "n < 2 ^ 32 \<Longrightarrow> public_value n = (\<not> list_ex (\<lambda>(lo, hi). lo \<le> n \<and> n \<le> hi)
    [(quad 0 0 0 0, quad 0 255 255 255), (quad 10 0 0 0, quad 10 255 255 255), (quad 100 64 0 0, quad 100 127 255 255),
     (quad 127 0 0 0, quad 127 255 255 255), (quad 169 254 0 0, quad 169 254 255 255), (quad 172 16 0 0, quad 172 31 255 255),
     (quad 192 0 0 0, quad 192 0 0 255), (quad 192 0 2 0, quad 192 0 2 255), (quad 192 168 0 0, quad 192 168 255 255),
     (quad 198 18 0 0, quad 198 19 255 255), (quad 198 51 100 0, quad 198 51 100 255), (quad 203 0 113 0, quad 203 0 113 255),
     (quad 224 0 0 0, quad 255 255 255 255)])"
  unfolding public_value_def reserved_blocks_def
  by (simp add: quad_def in_block_def div_range at_most_numeral)

lemma public_dotted:
  assumes "a < 256" "b < 256" "c < 256" "d < 256"
  shows "public_ipv4 (dotted a b c d) = public_value (quad a b c d)"
proof -
  show ?thesis
    unfolding public_ipv4_def Let_def ranges_dotted ipv4ToInt_dotted[OF assms] value_ranges[OF quad_bound[OF assms]]
    by (simp add: ipv4ToInt_dotted)
qed

section \<open>What is public\<close>

lemma isPublic_v4: "isIP address = 4 \<Longrightarrow> isPublicAddress isIP address = public_ipv4 address"
  by (simp add: isPublicAddress_def public_address_def)

text \<open>An IPv4 address is public exactly if it lies in none of the thirteen reserved networks.\<close>

theorem public_ipv4_exact:
  assumes "a < 256" "b < 256" "c < 256" "d < 256" "isIP (dotted a b c d) = 4"
  shows "isPublicAddress isIP (dotted a b c d) = (\<not> list_ex (in_block (quad a b c d)) reserved_blocks)"
  using isPublic_v4[of isIP, OF assms(5)] public_dotted[OF assms(1-4)] by (simp add: public_value_def)

lemma public_ipv4_exact_witness:
  "\<not> isPublicAddress (\<lambda>_. 4) (dotted 172 16 5 4) \<and> isPublicAddress (\<lambda>_. 4) (dotted 8 8 8 8)"
  using public_ipv4_exact[of 172 16 5 4 "\<lambda>_. 4"] public_ipv4_exact[of 8 8 8 8 "\<lambda>_. 4"] by (simp add: reserved_blocks_def in_block_def quad_def)

text \<open>The groups of a spelling.\<close>

lemma split_double_none: "\<not> has_double_colon s \<Longrightarrow> split_double s = [s]"
  by (induction s rule: split_double.induct) auto

lemma split_double_at: "\<not> has_double_colon (l @ '':'') \<Longrightarrow> split_double (l @ ''::'' @ r) = l # split_double r"
proof (induction l rule: induct_list012)
  case (3 a b l)
  then show ?case by (auto split: list.split)
qed auto

lemma side_groups_join: "\<forall>g \<in> set gs. hex_group g \<Longrightarrow> side_groups (join_with '':'' gs) = gs"
proof (cases "gs = []")
  case False
  assume g: "\<forall>g \<in> set gs. hex_group g"
  then have "last gs \<noteq> []" using False hex_group_nonempty by auto
  then show ?thesis using last_join[OF False, of "'':''"] split_full[OF False g] by (simp add: side_groups_def full_spelling_def)
qed (simp add: side_groups_def)

lemma expand_groups:
  assumes "spells s vs"
  shows "\<exists>gs. expandIPv6Groups (map lower_hex s) = Some gs \<and> length gs = 8 \<and> (\<forall>g \<in> set gs. hex_group g \<and> map lower_hex g = g) \<and> map (hex_value 0) gs = vs"
proof -
  have low: "\<forall>g \<in> set (map (map lower_hex) gs). hex_group g \<and> map lower_hex g = g" "map (hex_value 0) (map (map lower_hex) gs) = map (hex_value 0) gs"
    if "\<forall>g \<in> set gs. hex_group g" for gs
    using that by (auto simp: lower_group lower_group_twice[simplified] group_value)
  consider (full) gs where "length gs = 8" "\<forall>g \<in> set gs. hex_group g" "s = full_spelling gs" "map (hex_value 0) gs = vs"
    | (short) left right where "\<forall>g \<in> set (left @ right). hex_group g" "length left + length right < 8" "s = short_spelling left right"
      "map (hex_value 0) left @ replicate (8 - length left - length right) 0 @ map (hex_value 0) right = vs"
    using assms by (auto simp: spells_def)
  then show ?thesis
  proof cases
    case full
    let ?gs = "map (map lower_hex) gs"
    have "\<forall>g \<in> set ?gs. hex_group g" using low(1)[OF full(2)] by blast
    moreover from this have "split_double (full_spelling ?gs) = [full_spelling ?gs]"
      unfolding full_spelling_def by (intro split_double_none no_double_join)
    moreover have "?gs \<noteq> []" using full(1) by auto
    ultimately have "expandIPv6Groups (map lower_hex s) = Some ?gs"
      using split_full[of ?gs] full(1) by (simp add: full(3) lower_full expandIPv6Groups_def Let_def)
    moreover have "length ?gs = 8" "map (hex_value 0) ?gs = vs" using low(2)[OF full(2)] full(1,4) by simp_all
    ultimately show ?thesis using low(1)[OF full(2)] by blast
  next
    case short
    let ?l = "map (map lower_hex) left" and ?r = "map (map lower_hex) right"
    have g: "\<forall>g \<in> set left. hex_group g" "\<forall>g \<in> set right. hex_group g" using short(1) by auto
    have l: "\<forall>g \<in> set ?l. hex_group g" and r: "\<forall>g \<in> set ?r. hex_group g" using low(1)[OF g(1)] low(1)[OF g(2)] by blast+
    have zero: "hex_group ''0''" "map lower_hex ''0'' = ''0''" "hex_value 0 ''0'' = 0" by code_simp+
    have "split_double (short_spelling ?l ?r) = [join_with '':'' ?l, join_with '':'' ?r]"
      unfolding short_spelling_def using split_double_at[OF no_double_before[OF l]] split_double_none[OF no_double_join[OF r]] by simp
    then have "expandIPv6Groups (map lower_hex s) = Some (?l @ replicate (8 - length left - length right) ''0'' @ ?r)"
      using short(2) side_groups_join[OF l] side_groups_join[OF r] by (simp add: short(3) lower_short expandIPv6Groups_def Let_def)
    moreover have "length (?l @ replicate (8 - length left - length right) ''0'' @ ?r) = 8" using short(2) by simp
    moreover have "map (hex_value 0) (?l @ replicate (8 - length left - length right) ''0'' @ ?r) = vs"
      unfolding map_append map_replicate zero(3) low(2)[OF g(1)] low(2)[OF g(2)] by (rule short(4))
    moreover have "\<forall>g \<in> set (?l @ replicate (8 - length left - length right) ''0'' @ ?r). hex_group g \<and> map lower_hex g = g"
      using low(1)[OF g(1)] low(1)[OF g(2)] zero(1,2) by (metis Un_iff in_set_replicate set_append)
    ultimately show ?thesis by blast
  qed
qed

section \<open>The embedded address\<close>

lemma hex_value_append: "\<forall>c \<in> set s. digit_value c \<noteq> None \<Longrightarrow> hex_value acc (s @ t) = hex_value (hex_value acc s) t"
proof (induction s arbitrary: acc)
  case (Cons c s)
  then obtain d where "digit_value c = Some d" by auto
  then show ?case using Cons by simp
qed simp

lemma hex_value_acc: "\<forall>c \<in> set s. digit_value c \<noteq> None \<Longrightarrow> hex_value acc s = acc * 16 ^ length s + hex_value 0 s \<and> hex_value 0 s < 16 ^ length s"
proof (induction s arbitrary: acc)
  case (Cons c s)
  then obtain d where d: "digit_value c = Some d" "d < 16" using digit_value_cases by auto
  have "hex_value (16 * a + d) s = (16 * a + d) * 16 ^ length s + hex_value 0 s \<and> hex_value 0 s < 16 ^ length s" for a
    by (rule Cons.IH) (use Cons.prems in simp)
  note both = this
  have "d * 16 ^ length s + 16 ^ length s \<le> 16 * 16 ^ length s" using d(2) mult_le_mono1[of "Suc d" 16 "16 ^ length s"] by simp
  then have "hex_value 0 s + d * 16 ^ length s < 16 * 16 ^ length s" using both[of 0] by linarith
  then show ?case using both[of acc] both[of 0] d(1) by (simp add: algebra_simps)
qed simp

lemma padded_halves:
  assumes g: "hex_group g"
  shows "parse_hex (take 2 (pad_group g)) = Some (hex_value 0 g div 256)" "parse_hex (take 2 (drop 2 (pad_group g))) = Some (hex_value 0 g mod 256)" "hex_value 0 g < 65536"
proof -
  let ?p = "pad_group g"
  have zero: "digit_value CHR ''0'' = Some 0" by code_simp
  have zeros: "hex_value 0 (replicate k CHR ''0'' @ s) = hex_value 0 s" for k s by (induction k) (simp_all add: zero)
  have p: "\<forall>c \<in> set ?p. digit_value c \<noteq> None" "length ?p = 4" using g zero by (auto simp: pad_group_def hex_group_def)
  have digits: "\<forall>c \<in> set (take 2 ?p). digit_value c \<noteq> None" "\<forall>c \<in> set (take 2 (drop 2 ?p)). digit_value c \<noteq> None"
    using p(1) set_take_subset[of 2 ?p] set_take_subset[of 2 "drop 2 ?p"] set_drop_subset[of 2 ?p] by blast+
  have "take 2 (drop 2 ?p) = drop 2 ?p" using p(2) by simp
  moreover have "hex_value 0 ?p = hex_value 0 g" unfolding pad_group_def by (rule zeros)
  ultimately have "hex_value 0 g = hex_value (hex_value 0 (take 2 ?p)) (take 2 (drop 2 ?p))"
    using hex_value_append[OF digits(1), of 0 "drop 2 ?p"] by (simp only: append_take_drop_id)
  then have v: "hex_value 0 g = hex_value 0 (take 2 ?p) * 256 + hex_value 0 (take 2 (drop 2 ?p))" "hex_value 0 (take 2 (drop 2 ?p)) < 256" "hex_value 0 (take 2 ?p) < 256"
    using hex_value_acc[OF digits(2), of "hex_value 0 (take 2 ?p)"] hex_value_acc[OF digits(1), of 0] p(2) by simp_all
  have "hex_group (take 2 ?p)" "hex_group (take 2 (drop 2 ?p))" using digits p(2) by (auto simp: hex_group_def)
  then show "parse_hex (take 2 ?p) = Some (hex_value 0 g div 256)" "parse_hex (take 2 (drop 2 ?p)) = Some (hex_value 0 g mod 256)" "hex_value 0 g < 65536"
    using v by (simp_all add: parse_group)
qed

lemma embedded_dotted:
  assumes "hex_group (gs ! 6)" "hex_group (gs ! 7)"
  shows "embedded_ipv4 gs = dotted (hex_value 0 (gs ! 6) div 256) (hex_value 0 (gs ! 6) mod 256) (hex_value 0 (gs ! 7) div 256) (hex_value 0 (gs ! 7) mod 256)"
  using padded_halves[OF assms(1)] padded_halves[OF assms(2)] by (simp add: embedded_ipv4_def shown_def dotted_def Let_def)

lemma ffff_group: "hex_group g \<Longrightarrow> map lower_hex g = g \<Longrightarrow> g = ''ffff'' \<longleftrightarrow> hex_value 0 g = 65535"
proof
  have f: "digit_value CHR ''f'' = Some 15" by code_simp
  assume "g = ''ffff''"
  then show "hex_value 0 g = 65535" by (simp add: f)
next
  assume g: "hex_group g" "map lower_hex g = g" "hex_value 0 g = 65535"
  then have "strip_zeros g = hex_text 65535" using hex_group_text[of g] by simp
  also have "\<dots> = ''ffff''" by (simp add: hex_text.simps hex_digits_def)
  finally have s: "strip_zeros g = ''ffff''" .
  obtain k where k: "g = replicate k CHR ''0'' @ strip_zeros g" using strip_zeros_suffix by blast
  have "length g = k + length (strip_zeros g)" using arg_cong[OF k, of length] by (simp only: length_append length_replicate)
  then have "k = 0" using g(1) by (simp add: hex_group_def s)
  then show "g = ''ffff''" using k s by (simp only: replicate_0 append_Nil)
qed

section \<open>IPv6 addresses\<close>

definition public_ipv6_value :: "nat list \<Rightarrow> bool" where
  "public_ipv6_value vs \<longleftrightarrow> \<not> (0xfe80 \<le> vs ! 0 \<and> vs ! 0 \<le> 0xfebf) \<and> \<not> (0xfc00 \<le> vs ! 0 \<and> vs ! 0 \<le> 0xfdff) \<and>
     (list_all (\<lambda>v. v = 0) (take 5 vs) \<and> vs ! 5 \<in> {0, 0xffff} \<longrightarrow> public_value (vs ! 6 * 65536 + vs ! 7))"

text \<open>What the code computes with the groups of an address is what the definition says of their values.\<close>

lemma group_values:
  assumes "length gs = 8" "\<forall>g \<in> set gs. hex_group g \<and> map lower_hex g = g" "map (hex_value 0) gs = vs"
  shows "in_hex_range lo hi (gs ! 0) \<longleftrightarrow> lo \<le> vs ! 0 \<and> vs ! 0 \<le> hi"
    "list_all isZeroGroup (take 5 gs) \<longleftrightarrow> list_all (\<lambda>v. v = 0) (take 5 vs)"
    "list_all isZeroGroup (take 6 gs) \<longleftrightarrow> list_all (\<lambda>v. v = 0) (take 5 vs) \<and> vs ! 5 = 0"
    "gs ! 5 = ''ffff'' \<longleftrightarrow> vs ! 5 = 0xffff"
    "embedded_ipv4 gs = dotted (vs ! 6 div 256) (vs ! 6 mod 256) (vs ! 7 div 256) (vs ! 7 mod 256)" "vs ! 6 < 65536" "vs ! 7 < 65536"
proof -
  have g: "hex_group (gs ! i)" "map lower_hex (gs ! i) = gs ! i" "vs ! i = hex_value 0 (gs ! i)" if "i < 8" for i
    using assms(1,2) assms(3)[symmetric] that by auto
  show "in_hex_range lo hi (gs ! 0) \<longleftrightarrow> lo \<le> vs ! 0 \<and> vs ! 0 \<le> hi" using g[of 0] by (simp add: in_hex_range_def parse_group)
  have zero: "isZeroGroup (gs ! i) \<longleftrightarrow> vs ! i = 0" if "i < 8" for i using g[OF that] by (simp add: isZeroGroup_def parse_group)
  have zeros: "list_all isZeroGroup (take n gs) \<longleftrightarrow> (\<forall>i < n. vs ! i = 0)" if "n \<le> 8" for n
    using that assms(1) zero by (auto simp: list_all_length)
  have five: "list_all (\<lambda>v. v = 0) (take 5 vs) \<longleftrightarrow> (\<forall>i < 5. vs ! i = 0)"
    using assms(1) assms(3)[symmetric] by (auto simp: list_all_length)
  have "i < 6 \<longleftrightarrow> i < 5 \<or> i = 5" for i :: nat by linarith
  then have six: "(\<forall>i < 6. vs ! i = 0) \<longleftrightarrow> (\<forall>i < 5. vs ! i = 0) \<and> vs ! 5 = 0" by blast
  show "list_all isZeroGroup (take 5 gs) \<longleftrightarrow> list_all (\<lambda>v. v = 0) (take 5 vs)"
    "list_all isZeroGroup (take 6 gs) \<longleftrightarrow> list_all (\<lambda>v. v = 0) (take 5 vs) \<and> vs ! 5 = 0" unfolding five using zeros[of 5] zeros[of 6] six by simp_all
  show "gs ! 5 = ''ffff'' \<longleftrightarrow> vs ! 5 = 0xffff" using ffff_group[OF g(1,2)[of 5]] g(3)[of 5] by simp
  show "embedded_ipv4 gs = dotted (vs ! 6 div 256) (vs ! 6 mod 256) (vs ! 7 div 256) (vs ! 7 mod 256)" using embedded_dotted[of gs] g[of 6] g[of 7] by simp
  show "vs ! 6 < 65536" "vs ! 7 < 65536" using padded_halves(3)[OF g(1)[of 6]] padded_halves(3)[OF g(1)[of 7]] g(3)[of 6] g(3)[of 7] by simp_all
qed

lemma embedded_public:
  assumes "\<And>a b c d. a < 256 \<Longrightarrow> b < 256 \<Longrightarrow> c < 256 \<Longrightarrow> d < 256 \<Longrightarrow> isIP (dotted a b c d) = 4" "m < 65536" "n < 65536"
  shows "public_address (\<lambda>_. False) isIP (dotted (m div 256) (m mod 256) (n div 256) (n mod 256)) = public_value (m * 65536 + n)"
proof -
  have "quad (m div 256) (m mod 256) (n div 256) (n mod 256) = m * 65536 + n" by (simp add: quad_def algebra_simps)
  then show ?thesis using public_dotted[of "m div 256" "m mod 256" "n div 256" "n mod 256"] assms by (simp add: public_address_def)
qed

lemma own_addresses_private:
  assumes "t = ''::1'' \<or> t = ''::''" "expandIPv6Groups t = Some gs" "map (hex_value 0) gs = vs"
  shows "\<not> public_ipv6_value vs"
proof -
  have "expandIPv6Groups ''::1'' = Some (replicate 7 ''0'' @ [''1''])" "expandIPv6Groups ''::'' = Some (replicate 8 ''0'')" by code_simp+
  moreover have "map (hex_value 0) (replicate 7 ''0'' @ [''1'']) = [0, 0, 0, 0, 0, 0, 0, 1]" "map (hex_value 0) (replicate 8 ''0'') = [0, 0, 0, 0, 0, 0, 0, 0]" by code_simp+
  ultimately have "vs = [0, 0, 0, 0, 0, 0, 0, 1] \<or> vs = [0, 0, 0, 0, 0, 0, 0, 0]" using assms by auto
  moreover have "\<not> public_value 0" "\<not> public_value 1" by (simp_all add: public_value_def reserved_blocks_def in_block_def quad_def)
  ultimately show ?thesis by (auto simp: public_ipv6_value_def)
qed

text \<open>An IPv6 address is public exactly if it is neither link-local nor unique local, and, where it embeds an IPv4 address in either of the two ways, if that is
  public; this depends on its eight groups alone, so no other spelling of the same groups gets past it. The loopback and the unspecified address
  are among the embedded ones.\<close>

theorem public_ipv6_exact:
  assumes "spells s vs" "isIP s = 6" "\<And>a b c d. a < 256 \<Longrightarrow> b < 256 \<Longrightarrow> c < 256 \<Longrightarrow> d < 256 \<Longrightarrow> isIP (dotted a b c d) = 4"
  shows "isPublicAddress isIP s = public_ipv6_value vs"
proof -
  obtain gs where gs: "expandIPv6Groups (map lower_hex s) = Some gs" "length gs = 8" "\<forall>g \<in> set gs. hex_group g \<and> map lower_hex g = g" "map (hex_value 0) gs = vs"
    using expand_groups[OF assms(1)] by blast
  note v = group_values[OF gs(2-4)]
  show ?thesis
  proof (cases "map lower_hex s = ''::1'' \<or> map lower_hex s = ''::''")
    case True
    then show ?thesis using own_addresses_private[OF True gs(1,4)] assms(2) by (simp add: isPublicAddress_def public_address_def Let_def)
  next
    case False
    let ?again = "public_address (\<lambda>_. False) isIP"
    have "isPublicAddress isIP s =
      (if in_hex_range 0xfe80 0xfebf (gs ! 0) \<or> in_hex_range 0xfc00 0xfdff (gs ! 0) then False
       else if (list_all isZeroGroup (take 5 gs) \<and> gs ! 5 = ''ffff'') \<or> list_all isZeroGroup (take 6 gs) then ?again (embedded_ipv4 gs) else True)"
      using False assms(2) gs(1) by (simp add: isPublicAddress_def public_address_def[of ?again] Let_def)
    moreover have "?again (embedded_ipv4 gs) = public_value (vs ! 6 * 65536 + vs ! 7)"
      unfolding v(5) by (rule embedded_public[where isIP = isIP]) (fact assms(3) v(6,7))+
    ultimately show ?thesis unfolding v(1-4) public_ipv6_value_def by (simp only: if_bool_eq_disj insert_iff empty_iff) blast
  qed
qed

lemma dec_text_plain: "CHR '':'' \<notin> set (dec_text n) \<and> map lower_hex (dec_text n) = dec_text n"
proof -
  have all: "list_all (\<lambda>c. lower_hex c = c \<and> c \<noteq> CHR '':'') ''0123456789''" by code_simp
  have "lower_hex c = c \<and> c \<noteq> CHR '':''" if c: "c \<in> set (dec_text n)" for c
  proof -
    obtain d where "decimal_digit c = Some d" using dec_text_digits c by blast
    then have "(c, d) \<in> set (zip ''0123456789'' [0..<10])" unfolding decimal_digit_def by (rule map_of_SomeD)
    then have "c \<in> set ''0123456789''" by (rule set_zip_leftD)
    then show ?thesis using all unfolding list_all_iff by blast
  qed
  then show ?thesis by (auto intro: map_idI)
qed

lemma dotted_plain: "CHR '':'' \<notin> set (dotted a b c d)" "map lower_hex (dotted a b c d) = dotted a b c d" "dotted a b c d \<noteq> []"
proof -
  have "map lower_hex ''.'' = ''.''" by code_simp
  then show "map lower_hex (dotted a b c d) = dotted a b c d" unfolding dotted_def map_append using dec_text_plain by metis
  show "CHR '':'' \<notin> set (dotted a b c d)" "dotted a b c d \<noteq> []" using dec_text_plain by (simp_all add: dotted_def)
qed

lemma public_ipv6_exact_witness:
  "\<not> isPublicAddress (\<lambda>s. if CHR '':'' \<in> set s then 6 else 4) ''::A''"
proof -
  have "spells ''::A'' [0, 0, 0, 0, 0, 0, 0, 10]" by (rule spells_shortI[of "[]" "[''A'']"]; code_simp)
  then have "isPublicAddress (\<lambda>s. if CHR '':'' \<in> set s then 6 else 4) ''::A'' = public_ipv6_value [0, 0, 0, 0, 0, 0, 0, 10]"
    by (rule public_ipv6_exact) (simp_all only: dotted_plain if_False list.set insert_iff simp_thms if_True)
  moreover have "\<not> public_value 10" by (simp add: public_value_def reserved_blocks_def in_block_def quad_def)
  ultimately show ?thesis by (simp add: public_ipv6_value_def)
qed

text \<open>The test lets an embedded private address through when its spelling mixes the two notations without \<open>::\<close>: whatever the four bytes, \<open>0:0:0:0:0:ffff:\<close>
  followed by them in decimal has seven parts between colons, is not expanded, and counts as public.\<close>

theorem mixed_spelling_is_public:
  assumes "isIP (''0:0:0:0:0:ffff:'' @ dotted a b c d) = 6"
  shows "isPublicAddress isIP (''0:0:0:0:0:ffff:'' @ dotted a b c d)"
proof -
  let ?gs = "[''0'', ''0'', ''0'', ''0'', ''0'', ''ffff'', dotted a b c d]" and ?s = "''0:0:0:0:0:ffff:'' @ dotted a b c d"
  have join: "?s = join_with '':'' ?gs" by simp
  have low: "map lower_hex ?s = ?s"
  proof -
    have "map lower_hex ''0:0:0:0:0:ffff:'' = ''0:0:0:0:0:ffff:''" by code_simp
    then show ?thesis unfolding map_append dotted_plain(2) by simp
  qed
  have "split_on CHR '':'' ?s = ?gs" unfolding join by (rule split_join) (auto simp: dotted_plain(1))
  moreover have "\<not> has_double_colon ?s"
  proof -
    have "\<not> has_double_colon (dotted a b c d)" "hd (dotted a b c d) \<noteq> CHR '':''" using dotted_plain(1)[of a b c d] hd_in_set[OF dotted_plain(3)[of a b c d]] by (auto simp: no_double_plain)
    then show ?thesis using dotted_plain(3)[of a b c d] by (cases "dotted a b c d") auto
  qed
  ultimately have "expandIPv6Groups ?s = None" using split_double_none[of ?s] by (simp add: expandIPv6Groups_def Let_def)
  moreover have "?s \<noteq> ''::1''" "?s \<noteq> ''::''" by simp_all
  ultimately show ?thesis using assms low by (simp only: isPublicAddress_def public_address_def[of "public_address (\<lambda>_. False) isIP"] Let_def option.case) simp
qed

lemma mixed_spelling_is_public_witness: "isPublicAddress (\<lambda>s. if CHR '':'' \<in> set s then 6 else 4) (''0:0:0:0:0:ffff:'' @ dotted 127 0 0 1)"
  by (rule mixed_spelling_is_public) simp

end
