(* ===== verification/TcpTransport.thy ===== *)
theory TcpTransport
  imports Packet "HOL-Library.Multiset" "HOL-Library.Word"
begin

text \<open>
  The TCP transport (\<open>node/src/transports/tcp.ts\<close>): sockets, who is behind them, the queue of sends of each, and the limit on the length of a line. Sockets
  and entries are objects of the runtime, known here by numbers. What the runtime reports (a connection, a chunk, a line, a finished write, a
  close) is an operation each, in any order; what the transport does to the outside is its list of events.
\<close>

section \<open>State\<close>

definition MAX_QUEUED_SENDS_PER_PEER :: nat where "MAX_QUEUED_SENDS_PER_PEER = 500"
definition MAX_LINE_BYTES :: nat where "MAX_LINE_BYTES = 2 * 1024 * 1024"

text \<open>A send is known by a number, which stands for its promise.\<close>

type_synonym 'p queued_send = "nat \<times> 'p packet"

datatype 'p tcp_event =
    HelloWritten nat
  | Identified nat string
  | PeerConnected string
  | PeerDisconnected string
  | PacketFor string "'p packet"
  | Written nat "'p packet"
  | SendDone nat
  | SendFailed nat

record 'p tcp_entry =
  te_socket :: nat
  te_queue :: "'p queued_send priority_queue"
  te_draining :: bool
  te_inflight :: "'p queued_send option"

record tcp_socket =
  ts_peerId :: "string option"
  ts_bytesSinceNewline :: nat
  ts_destroyed :: bool
  ts_writable :: bool

record 'p tcp =
  tp_conns :: "(nat, tcp_socket) jsmap"
  tp_pending :: "nat list"
  tp_sockets :: "(string, nat) jsmap"
  tp_entries :: "(nat, 'p tcp_entry) jsmap"
  tp_events :: "'p tcp_event list"

definition tcp_new :: "'p tcp" where
  "tcp_new = \<lparr>tp_conns = [], tp_pending = [], tp_sockets = [], tp_entries = [], tp_events = []\<rparr>"

abbreviation log_events :: "'p tcp_event list \<Rightarrow> 'p tcp \<Rightarrow> 'p tcp" where
  "log_events vs t \<equiv> t\<lparr>tp_events := tp_events t @ vs\<rparr>"

definition on_socket :: "nat \<Rightarrow> (tcp_socket \<Rightarrow> tcp_socket) \<Rightarrow> 'p tcp \<Rightarrow> 'p tcp" where
  "on_socket sid f t = (case map_of (tp_conns t) sid of Some s \<Rightarrow> t\<lparr>tp_conns := map_put sid (f s) (tp_conns t)\<rparr> | None \<Rightarrow> t)"

definition destroy :: "nat \<Rightarrow> 'p tcp \<Rightarrow> 'p tcp" where
  "destroy sid = on_socket sid (\<lambda>s. s\<lparr>ts_destroyed := True\<rparr>)"

definition alive :: "nat \<Rightarrow> 'p tcp \<Rightarrow> bool" where
  "alive sid t \<longleftrightarrow> (case map_of (tp_conns t) sid of Some s \<Rightarrow> \<not> ts_destroyed s \<and> ts_writable s | None \<Rightarrow> False)"

section \<open>The queue of one peer\<close>

fun priority_number :: "jsval \<Rightarrow> jsnum" where
  "priority_number (JNumber n) = n" | "priority_number _ = NaN"

text \<open>The loop of \<open>drainQueue\<close> up to its next wait: the sends it rejects, the one it begins to write, and the queue.\<close>

function drain_loop :: "bool \<Rightarrow> 'a priority_queue \<Rightarrow> 'a list \<times> 'a option \<times> 'a priority_queue" where
  "drain_loop live q = (case pq_dequeue q of
     None \<Rightarrow> ([], None, q)
   | Some (x, q') \<Rightarrow> if live then ([], Some x, q') else (case drain_loop live q' of (rejected, w, q'') \<Rightarrow> (x # rejected, w, q'')))"
  by auto
termination
proof (relation "measure (\<lambda>(live, q). length (concat (buckets q)))")
  fix live :: bool and q :: "'a priority_queue" and z x q'
  assume "pq_dequeue q = Some z" "(x, q') = z"
  then have "concat (buckets q) = x # concat (buckets q')" using pq_dequeue_head by metis
  then show "((live, q'), (live, q)) \<in> measure (\<lambda>(live, q). length (concat (buckets q)))" by simp
qed simp

declare drain_loop.simps [simp del]

definition resume_drain :: "bool \<Rightarrow> 'p tcp_entry \<Rightarrow> 'p tcp_event list \<times> 'p tcp_entry" where
  "resume_drain live e = (case drain_loop live (te_queue e) of (rejected, w, q) \<Rightarrow>
     (map (\<lambda>x. SendFailed (fst x)) rejected @ (case w of Some x \<Rightarrow> [Written (te_socket e) (snd x)] | None \<Rightarrow> []),
      e\<lparr>te_queue := q, te_inflight := w, te_draining := (w \<noteq> None)\<rparr>))"

definition drainQueue :: "bool \<Rightarrow> 'p tcp_entry \<Rightarrow> 'p tcp_event list \<times> 'p tcp_entry" where
  "drainQueue live e = (if te_draining e then ([], e) else resume_drain live (e\<lparr>te_draining := True\<rparr>))"

definition entry_send :: "bool \<Rightarrow> nat \<Rightarrow> 'p packet \<Rightarrow> 'p tcp_entry \<Rightarrow> 'p tcp_event list \<times> 'p tcp_entry" where
  "entry_send live i packet e =
     (if \<not> live then ([SendFailed i], e)
      else if pq_count (te_queue e) \<ge> MAX_QUEUED_SENDS_PER_PEER then ([SendFailed i], e)
      else case pq_enqueue (priority_number (pk_priority packet)) (i, packet) (te_queue e) of
        Some q \<Rightarrow> drainQueue live (e\<lparr>te_queue := q\<rparr>)
      | None \<Rightarrow> ([SendFailed i], e))"

text \<open>The write that was under way ends, with or without an error; the loop goes on.\<close>

definition entry_written :: "bool \<Rightarrow> bool \<Rightarrow> 'p tcp_entry \<Rightarrow> 'p tcp_event list \<times> 'p tcp_entry" where
  "entry_written live ok e = (case te_inflight e of
     None \<Rightarrow> ([], e)
   | Some x \<Rightarrow> (case resume_drain live e of (vs, e') \<Rightarrow> ((if ok then SendDone (fst x) else SendFailed (fst x)) # vs, e')))"

definition entry_new :: "nat \<Rightarrow> 'p tcp_entry" where
  "entry_new sid = \<lparr>te_socket = sid, te_queue = pq_new PRIORITY_LEVEL_COUNT, te_draining = False, te_inflight = None\<rparr>"

section \<open>Operations\<close>

text \<open>\<open>handleInboundSocket\<close>, and \<open>connect\<close> once connected.\<close>

definition socket_opened :: "nat \<Rightarrow> 'p tcp \<Rightarrow> 'p tcp" where
  "socket_opened sid t = log_events [HelloWritten sid]
     (t\<lparr>tp_conns := map_put sid \<lparr>ts_peerId = None, ts_bytesSinceNewline = 0, ts_destroyed = False, ts_writable = True\<rparr> (tp_conns t),
        tp_pending := (if sid \<in> set (tp_pending t) then tp_pending t else tp_pending t @ [sid])\<rparr>)"

text \<open>How many bytes follow the last newline of a chunk, if it has one.\<close>

definition after_newline :: "8 word list \<Rightarrow> nat option" where
  "after_newline chunk = (if 0x0a \<in> set chunk then Some (length (takeWhile (\<lambda>b. b \<noteq> 0x0a) (rev chunk))) else None)"

definition count_line :: "8 word list \<Rightarrow> tcp_socket \<Rightarrow> tcp_socket" where
  "count_line chunk s =
     (let n = (case after_newline chunk of None \<Rightarrow> ts_bytesSinceNewline s + length chunk | Some k \<Rightarrow> k) in
      s\<lparr>ts_bytesSinceNewline := n, ts_destroyed := ts_destroyed s \<or> n > MAX_LINE_BYTES\<rparr>)"

definition data_received :: "nat \<Rightarrow> 8 word list \<Rightarrow> 'p tcp \<Rightarrow> 'p tcp" where
  "data_received sid chunk = on_socket sid (count_line chunk)"

text \<open>A peer id counts as known if it is there and not empty. \<open>eid\<close> is the number of the new entry.\<close>

definition known_peer :: "string option \<Rightarrow> bool" where
  "known_peer p \<longleftrightarrow> (case p of Some s \<Rightarrow> s \<noteq> [] | None \<Rightarrow> False)"

definition identify :: "nat \<Rightarrow> nat \<Rightarrow> string \<Rightarrow> 'p tcp \<Rightarrow> 'p tcp" where
  "identify eid sid p t =
     (let t1 = on_socket sid (\<lambda>s. s\<lparr>ts_peerId := Some p\<rparr>) t;
          t2 = t1\<lparr>tp_pending := filter (\<lambda>x. x \<noteq> sid) (tp_pending t1)\<rparr>;
          t3 = (case map_of (tp_sockets t2) p of
                  Some old \<Rightarrow> (case map_of (tp_entries t2) old of Some e \<Rightarrow> destroy (te_socket e) t2 | None \<Rightarrow> t2)
                | None \<Rightarrow> t2);
          t4 = t3\<lparr>tp_entries := map_put eid (entry_new sid) (tp_entries t3), tp_sockets := map_put p eid (tp_sockets t3)\<rparr>
      in log_events [Identified sid p, PeerConnected p] t4)"

text \<open>A line: \<open>None\<close> if it is blank or no packet.\<close>

definition line_received :: "nat \<Rightarrow> nat \<Rightarrow> 'p packet option \<Rightarrow> 'p tcp \<Rightarrow> 'p tcp" where
  "line_received eid sid decoded t = (case decoded of
     None \<Rightarrow> t
   | Some packet \<Rightarrow> (case map_of (tp_conns t) sid of
       None \<Rightarrow> t
     | Some s \<Rightarrow>
         if known_peer (ts_peerId s) then (case ts_peerId s of Some p \<Rightarrow> log_events [PacketFor p packet] t | None \<Rightarrow> t)
         else log_events [PacketFor (pk_source packet) packet] (identify eid sid (pk_source packet) t)))"

definition entry_socket :: "string \<Rightarrow> 'p tcp \<Rightarrow> nat option" where
  "entry_socket p t = Option.bind (map_of (tp_sockets t) p) (\<lambda>eid. map_option te_socket (map_of (tp_entries t) eid))"

definition socket_closed :: "nat \<Rightarrow> 'p tcp \<Rightarrow> 'p tcp" where
  "socket_closed sid t =
     (let t1 = destroy sid (t\<lparr>tp_pending := filter (\<lambda>x. x \<noteq> sid) (tp_pending t)\<rparr>) in
      case Option.bind (map_of (tp_conns t) sid) ts_peerId of
        Some p \<Rightarrow> if p \<noteq> [] \<and> entry_socket p t1 = Some sid
          then log_events [PeerDisconnected p] (t1\<lparr>tp_sockets := map_del p (tp_sockets t1)\<rparr>) else t1
      | None \<Rightarrow> t1)"

definition tcp_send :: "nat \<Rightarrow> string \<Rightarrow> 'p packet \<Rightarrow> 'p tcp \<Rightarrow> 'p tcp" where
  "tcp_send i peerId packet t = (case map_of (tp_sockets t) peerId of
     None \<Rightarrow> log_events [SendFailed i] t
   | Some eid \<Rightarrow> (case map_of (tp_entries t) eid of
       None \<Rightarrow> t
     | Some e \<Rightarrow> (case entry_send (alive (te_socket e) t) i packet e of (vs, e') \<Rightarrow>
         log_events vs (t\<lparr>tp_entries := map_put eid e' (tp_entries t)\<rparr>))))"

definition write_finished :: "nat \<Rightarrow> bool \<Rightarrow> 'p tcp \<Rightarrow> 'p tcp" where
  "write_finished eid ok t = (case map_of (tp_entries t) eid of
     None \<Rightarrow> t
   | Some e \<Rightarrow> (case entry_written (alive (te_socket e) t) ok e of (vs, e') \<Rightarrow>
       log_events vs (t\<lparr>tp_entries := map_put eid e' (tp_entries t)\<rparr>)))"

definition tcp_stop :: "'p tcp \<Rightarrow> 'p tcp" where
  "tcp_stop t =
     (let own = map (\<lambda>(p, eid). case map_of (tp_entries t) eid of Some e \<Rightarrow> [te_socket e] | None \<Rightarrow> []) (tp_sockets t);
          t1 = fold destroy (concat own @ tp_pending t) t
      in t1\<lparr>tp_sockets := [], tp_pending := []\<rparr>)"

section \<open>Every send is settled\<close>

definition waiting :: "'p tcp_entry \<Rightarrow> nat list" where
  "waiting e = (case te_inflight e of Some x \<Rightarrow> [fst x] | None \<Rightarrow> []) @ map fst (concat (buckets (te_queue e)))"

fun settled_id :: "'p tcp_event \<Rightarrow> nat list" where
  "settled_id (SendDone i) = [i]" | "settled_id (SendFailed i) = [i]" | "settled_id _ = []"

definition settled_sends :: "'p tcp_event list \<Rightarrow> nat list" where "settled_sends vs = concat (map settled_id vs)"

lemma settled_sends_simps [simp]:
  "settled_sends [] = []" "settled_sends (v # vs) = settled_id v @ settled_sends vs" "settled_sends (us @ vs) = settled_sends us @ settled_sends vs"
  "settled_sends (map (\<lambda>x. SendFailed (f x)) xs) = map f xs"
  by (simp_all add: settled_sends_def comp_def)

definition entry_ok :: "'p tcp_entry \<Rightarrow> bool" where
  "entry_ok e \<longleftrightarrow> pq_ok PRIORITY_LEVEL_COUNT (te_queue e) \<and> (te_draining e \<longleftrightarrow> te_inflight e \<noteq> None) \<and>
     (te_inflight e = None \<longrightarrow> concat (buckets (te_queue e)) = []) \<and> pq_count (te_queue e) \<le> MAX_QUEUED_SENDS_PER_PEER"

lemma levels_pos: "PRIORITY_LEVEL_COUNT > 0" by code_simp

lemma entry_new_ok: "entry_ok (entry_new sid)" "waiting (entry_new sid) = []"
  by (simp_all add: entry_ok_def entry_new_def pq_new_ok waiting_def) (simp_all add: pq_new_def)

lemma drain_loop_empty: "pq_dequeue q = None \<Longrightarrow> drain_loop live q = ([], None, q)"
  by (subst drain_loop.simps) simp

lemma drain_loop_item:
  "pq_dequeue q = Some (x, q') \<Longrightarrow> drain_loop live q = (if live then ([], Some x, q') else (case drain_loop live q' of (rejected, w, q'') \<Rightarrow> (x # rejected, w, q'')))"
  by (subst drain_loop.simps) simp

lemma drain_loop_spec:
  assumes "drain_loop live q = (rejected, w, q')" "pq_ok n q"
  shows "concat (buckets q) = rejected @ (case w of Some x \<Rightarrow> [x] | None \<Rightarrow> []) @ concat (buckets q')" "pq_ok n q'" "pq_count q' \<le> pq_count q"
    "w = None \<longrightarrow> concat (buckets q') = []" "live \<longrightarrow> rejected = []" "\<not> live \<longrightarrow> w = None"
proof -
  have "concat (buckets q) = rejected @ (case w of Some x \<Rightarrow> [x] | None \<Rightarrow> []) @ concat (buckets q') \<and> pq_ok n q' \<and> pq_count q' \<le> pq_count q \<and>
    (w = None \<longrightarrow> concat (buckets q') = []) \<and> (live \<longrightarrow> rejected = []) \<and> (\<not> live \<longrightarrow> w = None)"
    using assms
  proof (induction live q arbitrary: rejected w q' rule: drain_loop.induct)
    case (1 live q)
    show ?case
    proof (cases "pq_dequeue q")
      case None
      then show ?thesis using "1.prems" None by (auto simp: drain_loop_empty pq_dequeue_None simp del: concat_eq_Nil_conv)
    next
      case (Some z)
      obtain x q1 where z: "pq_dequeue q = Some (x, q1)" using Some by (cases z) auto
      note head = pq_dequeue_head[OF z] and ok1 = pq_dequeue_ok[OF "1.prems"(2) z]
      have less: "pq_count q1 \<le> pq_count q" using z by (auto simp: pq_dequeue_def)
      show ?thesis
      proof (cases live)
        case True
        then have "rejected = []" "w = Some x" "q' = q1" using "1.prems"(1) by (simp_all add: drain_loop_item[OF z])
        then show ?thesis using head ok1 less True by simp
      next
        case False
        obtain r1 w1 q2 where rest: "drain_loop live q1 = (r1, w1, q2)" by (metis prod_cases3)
        then have "rejected = x # r1" "w = w1" "q' = q2" using "1.prems"(1) False rest by (simp_all add: drain_loop_item[OF z])
        then show ?thesis using "1.IH"[OF z refl False rest ok1] head less False by auto
      qed
    qed
  qed
  then show "concat (buckets q) = rejected @ (case w of Some x \<Rightarrow> [x] | None \<Rightarrow> []) @ concat (buckets q')" "pq_ok n q'" "pq_count q' \<le> pq_count q"
    "w = None \<longrightarrow> concat (buckets q') = []" "live \<longrightarrow> rejected = []" "\<not> live \<longrightarrow> w = None" by blast+
qed

text \<open>What the loop gives out and what stays.\<close>

lemma resume_drain_spec:
  assumes "resume_drain live e = (vs, e')" "pq_ok PRIORITY_LEVEL_COUNT (te_queue e)" "pq_count (te_queue e) \<le> MAX_QUEUED_SENDS_PER_PEER"
  shows "entry_ok e'" "map fst (concat (buckets (te_queue e))) = settled_sends vs @ waiting e'" "\<not> live \<longrightarrow> waiting e' = []" "te_socket e' = te_socket e"
proof -
  obtain r w q where d: "drain_loop live (te_queue e) = (r, w, q)" by (metis prod_cases3)
  note s = drain_loop_spec[OF d assms(2)]
  have e': "e' = e\<lparr>te_queue := q, te_inflight := w, te_draining := (w \<noteq> None)\<rparr>" and vs: "settled_sends vs = map fst r"
    using assms(1) d by (auto simp: resume_drain_def split: option.splits)
  show "entry_ok e'" using s assms(3) by (auto simp: entry_ok_def e')
  show "map fst (concat (buckets (te_queue e))) = settled_sends vs @ waiting e'" using s(1) by (simp add: vs e' waiting_def split: option.splits)
  show "\<not> live \<longrightarrow> waiting e' = []" using s(4,6) by (simp add: e' waiting_def)
  show "te_socket e' = te_socket e" by (simp add: e')
qed

lemma pq_enqueue_waiting:
  assumes "pq_enqueue p x q = Some q'"
  shows "mset (concat (buckets q')) = add_mset x (mset (concat (buckets q)))" "pq_count q' = pq_count q + 1"
proof -
  let ?i = "pq_index (length (buckets q)) p"
  have pos: "0 < length (buckets q)" and q': "q' = \<lparr>buckets = (buckets q)[?i := buckets q ! ?i @ [x]], pq_count = pq_count q + 1\<rparr>"
    using assms by (auto simp: pq_enqueue_def Let_def split: if_splits)
  have "mset (concat (buckets q')) = mset (concat (take (Suc ?i) (buckets q)) @ [x] @ concat (drop (Suc ?i) (buckets q)))"
    using concat_update[OF pq_index_bound[OF pos, of p], of "[x]"] by (simp add: q')
  also have "\<dots> = add_mset x (mset (concat (take (Suc ?i) (buckets q)) @ concat (drop (Suc ?i) (buckets q))))" by simp
  finally show "mset (concat (buckets q')) = add_mset x (mset (concat (buckets q)))" by (simp only: concat_split[symmetric])
  show "pq_count q' = pq_count q + 1" by (simp add: q')
qed

lemma entry_send_spec:
  assumes "entry_send live i packet e = (vs, e')" "entry_ok e"
  shows "entry_ok e' \<and> add_mset i (mset (waiting e)) = mset (settled_sends vs) + mset (waiting e') \<and> te_socket e' = te_socket e"
proof (cases "live \<and> pq_count (te_queue e) < MAX_QUEUED_SENDS_PER_PEER")
  case False
  then have "vs = [SendFailed i]" "e' = e" using assms(1) by (auto simp: entry_send_def split: if_splits)
  then show ?thesis using assms(2) by simp
next
  case True
  have ok: "pq_ok PRIORITY_LEVEL_COUNT (te_queue e)" using assms(2) by (simp add: entry_ok_def)
  then obtain q where q: "pq_enqueue (priority_number (pk_priority packet)) (i, packet) (te_queue e) = Some q"
    using levels_pos by (fastforce simp: pq_enqueue_def pq_ok_def Let_def simp del: PRIORITY_LEVEL_COUNT_def)
  note w = pq_enqueue_waiting[OF q] and okq = pq_enqueue_ok[OF ok q]
  have run: "drainQueue live (e\<lparr>te_queue := q\<rparr>) = (vs, e')" using assms(1) True q by (simp add: entry_send_def split: if_splits)
  show ?thesis
  proof (cases "te_draining e")
    case True
    then have "vs = []" "e' = e\<lparr>te_queue := q\<rparr>" using run by (simp_all add: drainQueue_def)
    moreover have "te_inflight e \<noteq> None" using assms(2) True by (simp add: entry_ok_def)
    ultimately show ?thesis using w okq assms(2) \<open>live \<and> _\<close> True by (auto simp: entry_ok_def waiting_def)
  next
    case False
    have r: "resume_drain live (e\<lparr>te_queue := q, te_draining := True\<rparr>) = (vs, e')" using run False by (simp add: drainQueue_def)
    note s = resume_drain_spec[OF r]
    have "te_inflight e = None" using assms(2) False unfolding entry_ok_def by blast
    moreover from this have "concat (buckets (te_queue e)) = []" using assms(2) unfolding entry_ok_def by blast
    ultimately have "waiting e = []" "mset (map fst (concat (buckets q))) = {#i#}" using w(1) by (simp_all add: waiting_def)
    moreover have "mset (map fst (concat (buckets q))) = mset (settled_sends vs) + mset (waiting e')" using s(2) okq True w(2) by (simp flip: mset_append)
    ultimately show ?thesis using s(1,4) okq True w(2) by simp
  qed
qed

lemma entry_written_spec:
  assumes "entry_written live ok e = (vs, e')" "entry_ok e"
  shows "entry_ok e' \<and> mset (waiting e) = mset (settled_sends vs) + mset (waiting e') \<and> (\<not> live \<longrightarrow> waiting e' = []) \<and> te_socket e' = te_socket e"
proof (cases "te_inflight e")
  case None
  then show ?thesis using assms by (simp add: entry_written_def entry_ok_def waiting_def)
next
  case (Some x)
  obtain us e1 where r: "resume_drain live e = (us, e1)" by (cases "resume_drain live e")
  have "entry_ok e1" "map fst (concat (buckets (te_queue e))) = settled_sends us @ waiting e1" "\<not> live \<longrightarrow> waiting e1 = []" "te_socket e1 = te_socket e"
    using resume_drain_spec[OF r] assms(2) by (auto simp: entry_ok_def)
  then show ?thesis using assms(1) r Some by (cases ok) (auto simp: entry_written_def waiting_def)
qed

datatype 'p entry_op = EntrySend bool nat "'p packet" | EntryWritten bool bool

fun entry_step :: "'p entry_op \<Rightarrow> 'p tcp_event list \<times> 'p tcp_entry \<Rightarrow> 'p tcp_event list \<times> 'p tcp_entry" where
  "entry_step (EntrySend live i packet) (vs, e) = (case entry_send live i packet e of (us, e') \<Rightarrow> (vs @ us, e'))"
| "entry_step (EntryWritten live ok) (vs, e) = (case entry_written live ok e of (us, e') \<Rightarrow> (vs @ us, e'))"

fun sent_id :: "'p entry_op \<Rightarrow> nat list" where
  "sent_id (EntrySend live i packet) = [i]" | "sent_id _ = []"

lemma entry_run:
  "entry_ok (snd (fold entry_step ops ([], entry_new sid))) \<and>
   mset (concat (map sent_id ops)) = mset (settled_sends (fst (fold entry_step ops ([], entry_new sid)))) + mset (waiting (snd (fold entry_step ops ([], entry_new sid))))"
proof (induction ops rule: rev_induct)
  case (snoc op ops)
  obtain vs e where r: "fold entry_step ops ([], entry_new sid) = (vs, e)" by fastforce
  have ok: "entry_ok e" and m: "mset (concat (map sent_id ops)) = mset (settled_sends vs) + mset (waiting e)" using snoc r by auto
  show ?case
  proof (cases op)
    case (EntrySend live i packet)
    obtain us e' where s: "entry_send live i packet e = (us, e')" by fastforce
    then show ?thesis using entry_send_spec[OF s ok] m by (simp add: EntrySend r s)
  next
    case (EntryWritten live wok)
    obtain us e' where s: "entry_written live wok e = (us, e')" by fastforce
    then show ?thesis using entry_written_spec[OF s ok] m by (simp add: EntryWritten r s)
  qed
qed (simp add: entry_new_ok)

text \<open>No send is lost and none is answered twice: at every moment of the life of a connection, each send that was asked for has been resolved or rejected once or
  still waits, nothing waits unless a write is under way, at most 500 sends wait behind it, and once a write ends on a dead socket every send that
  waited has been rejected.\<close>

theorem sends_settle_once:
  assumes "fold entry_step ops ([], entry_new sid) = (vs, e)"
  shows "mset (concat (map sent_id ops)) = mset (settled_sends vs) + mset (waiting e) \<and> (te_inflight e = None \<longrightarrow> waiting e = [])
    \<and> length (concat (buckets (te_queue e))) \<le> MAX_QUEUED_SENDS_PER_PEER
    \<and> (\<forall>ok. waiting (snd (entry_written False ok e)) = [])"
proof -
  have ok: "entry_ok e" and m: "mset (concat (map sent_id ops)) = mset (settled_sends vs) + mset (waiting e)" using entry_run[of ops sid] assms by auto
  have "waiting (snd (entry_written False b e)) = []" for b using entry_written_spec[OF _ ok, of False b] by (cases "entry_written False b e") auto
  then show ?thesis using ok m by (auto simp: entry_ok_def waiting_def pq_ok_def)
qed

definition sample_packet :: "nat \<Rightarrow> unit packet" where
  "sample_packet n = \<lparr>pk_version = JNumber (Num 1), pk_id = ''p'', pk_type = DATA, pk_source = ''a'', pk_destination = JUndefined, pk_ttl = Num 1,
     pk_timestamp = JUndefined, pk_priority = JNumber (Num (of_nat n)), pk_payload = ()\<rparr>"

lemma sends_settle_once_witness:
  "mset [1, 2, 3 :: nat] = mset (settled_sends (fst (fold entry_step [EntrySend True 1 (sample_packet 5), EntrySend True 2 (sample_packet 5), EntrySend True 3 (sample_packet 0), EntryWritten True True] ([], entry_new 7))))
     + mset (waiting (snd (fold entry_step [EntrySend True 1 (sample_packet 5), EntrySend True 2 (sample_packet 5), EntrySend True 3 (sample_packet 0), EntryWritten True True] ([], entry_new 7))))
   \<and> waiting (snd (fold entry_step [EntrySend True 1 (sample_packet 5), EntrySend True 2 (sample_packet 5), EntrySend True 3 (sample_packet 0), EntryWritten True True] ([], entry_new 7))) = [3, 2]"
proof -
  let ?ops = "[EntrySend True 1 (sample_packet 5), EntrySend True 2 (sample_packet 5), EntrySend True 3 (sample_packet 0), EntryWritten True True]"
  have "waiting (snd (fold entry_step ?ops ([], entry_new 7))) = [3, 2]" by code_simp
  then show ?thesis using sends_settle_once[of ?ops 7 "fst (fold entry_step ?ops ([], entry_new 7))" "snd (fold entry_step ?ops ([], entry_new 7))"] by simp
qed

section \<open>The length of a line\<close>

definition open_line :: "8 word list \<Rightarrow> nat" where
  "open_line received = length (takeWhile (\<lambda>b. b \<noteq> 0x0a) (rev received))"

lemma open_line_chunk: "(case after_newline chunk of None \<Rightarrow> open_line received + length chunk | Some k \<Rightarrow> k) = open_line (received @ chunk)"
proof (cases "0x0a \<in> set chunk")
  case True
  then show ?thesis using takeWhile_append1[of "0x0a" "rev chunk" "\<lambda>b. b \<noteq> 0x0a" "rev received"] by (simp add: after_newline_def open_line_def)
next
  case False
  then have "takeWhile (\<lambda>b. b \<noteq> 0x0a) (rev chunk @ rev received) = rev chunk @ takeWhile (\<lambda>b. b \<noteq> 0x0a) (rev received)"
    by (intro takeWhile_append2) auto
  then show ?thesis using False by (simp add: after_newline_def open_line_def)
qed

lemma count_line_simps:
  "ts_bytesSinceNewline (count_line c s) = (case after_newline c of None \<Rightarrow> ts_bytesSinceNewline s + length c | Some k \<Rightarrow> k)"
  "ts_destroyed (count_line c s) \<longleftrightarrow> ts_destroyed s \<or> ts_bytesSinceNewline (count_line c s) > MAX_LINE_BYTES"
  by (simp_all add: count_line_def Let_def)

text \<open>The limit on a line is exact: after any chunks, cut in any way, the count is the number of bytes after the last newline received, and the socket was
  destroyed exactly if that number exceeded two megabytes after one of the chunks.\<close>

theorem line_limit_exact:
  "let s = fold count_line chunks \<lparr>ts_peerId = None, ts_bytesSinceNewline = 0, ts_destroyed = False, ts_writable = True\<rparr> in
     ts_bytesSinceNewline s = open_line (concat chunks) \<and>
     ts_destroyed s = list_ex (\<lambda>n. open_line (concat (take n chunks)) > MAX_LINE_BYTES) [1..<Suc (length chunks)]"
proof (induction chunks rule: rev_induct)
  case Nil
  then show ?case by (simp add: open_line_def)
next
  case (snoc c chunks)
  let ?P = "\<lambda>cs n. open_line (concat (take n cs)) > MAX_LINE_BYTES"
  have "list_ex (?P (chunks @ [c])) [1..<Suc (length (chunks @ [c]))] = (list_ex (?P chunks) [1..<Suc (length chunks)] \<or> ?P (chunks @ [c]) (Suc (length chunks)))"
    by (auto simp: list_ex_iff less_Suc_eq_le)
  then show ?case using snoc open_line_chunk[of "concat chunks" c] by (simp add: Let_def count_line_simps del: upt_Suc cong: option.case_cong)
qed

section \<open>One connection per peer\<close>

text \<open>The operations of a run. Numbers of sockets and of entries stand for objects, so they are new when an object is created, and a packet names a source.\<close>

datatype 'p tcp_op = Opened nat | Data nat "8 word list" | Line nat nat "'p packet option" | Closed nat | Unwritable nat | Send nat string "'p packet" | WriteEnds nat bool
  | Stop

fun tcp_step :: "'p tcp \<Rightarrow> 'p tcp_op \<Rightarrow> 'p tcp" where
  "tcp_step t (Opened sid) = socket_opened sid t"
| "tcp_step t (Data sid chunk) = data_received sid chunk t"
| "tcp_step t (Line eid sid decoded) = line_received eid sid decoded t"
| "tcp_step t (Closed sid) = socket_closed sid t"
| "tcp_step t (Unwritable sid) = on_socket sid (\<lambda>s. s\<lparr>ts_writable := False\<rparr>) t"
| "tcp_step t (Send i p packet) = tcp_send i p packet t"
| "tcp_step t (WriteEnds eid ok) = write_finished eid ok t"
| "tcp_step t Stop = tcp_stop t"

fun fresh_op :: "'p tcp \<Rightarrow> 'p tcp_op \<Rightarrow> bool" where
  "fresh_op t (Opened sid) \<longleftrightarrow> map_of (tp_conns t) sid = None"
| "fresh_op t (Line eid sid decoded) \<longleftrightarrow> map_of (tp_entries t) eid = None \<and> (case decoded of Some p \<Rightarrow> pk_source p \<noteq> [] | None \<Rightarrow> True)"
| "fresh_op t op \<longleftrightarrow> True"

fun fresh_run :: "'p tcp \<Rightarrow> 'p tcp_op list \<Rightarrow> bool" where
  "fresh_run t [] = True"
| "fresh_run t (op # ops) \<longleftrightarrow> fresh_op t op \<and> fresh_run (tcp_step t op) ops"

text \<open>Whether the last report about a peer was that it is connected.\<close>

fun reported_up :: "string \<Rightarrow> bool \<Rightarrow> 'p tcp_event list \<Rightarrow> bool" where
  "reported_up p b [] = b"
| "reported_up p b (PeerConnected q # vs) = reported_up p (b \<or> q = p) vs"
| "reported_up p b (PeerDisconnected q # vs) = reported_up p (b \<and> q \<noteq> p) vs"
| "reported_up p b (_ # vs) = reported_up p b vs"

lemma reported_up_append: "reported_up p b (us @ vs) = reported_up p (reported_up p b us) vs"
  by (induction p b us rule: reported_up.induct) auto

definition live_socket :: "'p tcp \<Rightarrow> nat \<Rightarrow> string \<Rightarrow> bool" where
  "live_socket t sid p \<longleftrightarrow> (\<exists>s. map_of (tp_conns t) sid = Some s \<and> ts_peerId s = Some p \<and> \<not> ts_destroyed s)"

text \<open>\<open>k\<close>: how many reports there were when the transport was last stopped.\<close>

definition tcp_ok :: "nat \<Rightarrow> 'p tcp \<Rightarrow> bool" where
  "tcp_ok k t \<longleftrightarrow>
     (\<forall>p eid. map_of (tp_sockets t) p = Some eid \<longrightarrow> p \<noteq> [] \<and> (\<exists>e s. map_of (tp_entries t) eid = Some e \<and> map_of (tp_conns t) (te_socket e) = Some s \<and> ts_peerId s = Some p)) \<and>
     (\<forall>sid s. map_of (tp_conns t) sid = Some s \<longrightarrow> ts_peerId s \<noteq> Some []) \<and>
     (\<forall>sid p. live_socket t sid p \<longrightarrow> entry_socket p t = Some sid) \<and>
     (\<forall>p. map_of (tp_sockets t) p \<noteq> None \<longleftrightarrow> reported_up p False (drop k (tp_events t))) \<and> k \<le> length (tp_events t)"

lemma tcp_okD:
  assumes "tcp_ok k t"
  shows "map_of (tp_sockets t) p = Some eid \<Longrightarrow> p \<noteq> [] \<and> (\<exists>e s. map_of (tp_entries t) eid = Some e \<and> map_of (tp_conns t) (te_socket e) = Some s \<and> ts_peerId s = Some p)"
    and "map_of (tp_conns t) sid = Some s \<Longrightarrow> ts_peerId s \<noteq> Some []"
    and "live_socket t sid p \<Longrightarrow> entry_socket p t = Some sid"
    and "map_of (tp_sockets t) p \<noteq> None \<longleftrightarrow> reported_up p False (drop k (tp_events t))"
    and "k \<le> length (tp_events t)"
  using assms unfolding tcp_ok_def by blast+

fun about_peer :: "'p tcp_event \<Rightarrow> bool" where
  "about_peer (PeerConnected p) = True" | "about_peer (PeerDisconnected p) = True" | "about_peer _ = False"

lemma reported_up_same: "list_all (\<lambda>v. \<not> about_peer v) vs \<Longrightarrow> reported_up p b vs = b"
  by (induction p b vs rule: reported_up.induct) auto

text \<open>Steps that leave peers, entries and the identity of sockets as they are.\<close>

definition quiet :: "'p tcp \<Rightarrow> 'p tcp \<Rightarrow> bool" where
  "quiet t t' \<longleftrightarrow> tp_sockets t' = tp_sockets t \<and>
     (\<forall>eid. map_option te_socket (map_of (tp_entries t') eid) = map_option te_socket (map_of (tp_entries t) eid)) \<and>
     (\<forall>sid. map_option ts_peerId (map_of (tp_conns t') sid) = map_option ts_peerId (map_of (tp_conns t) sid)) \<and>
     (\<forall>sid p. live_socket t' sid p \<longrightarrow> live_socket t sid p) \<and>
     (\<exists>vs. tp_events t' = tp_events t @ vs \<and> list_all (\<lambda>v. \<not> about_peer v) vs)"

lemma quiet_ok:
  assumes "tcp_ok k t" "quiet t t'"
  shows "tcp_ok k t'"
proof -
  have sockets: "tp_sockets t' = tp_sockets t"
    and entries: "map_option te_socket (map_of (tp_entries t') eid) = map_option te_socket (map_of (tp_entries t) eid)"
    and conns: "map_option ts_peerId (map_of (tp_conns t') sid) = map_option ts_peerId (map_of (tp_conns t) sid)"
    and live: "live_socket t' sid p \<Longrightarrow> live_socket t sid p" for eid sid p
    using assms(2) unfolding quiet_def by blast+
  obtain vs where vs: "tp_events t' = tp_events t @ vs" "list_all (\<lambda>v. \<not> about_peer v) vs" using assms(2) unfolding quiet_def by blast
  have entry: "\<exists>e. map_of (tp_entries t') eid = Some e \<and> te_socket e = sid" if "map_of (tp_entries t) eid = Some e0" "te_socket e0 = sid" for eid e0 sid
    using entries[of eid] that by auto
  have conn: "\<exists>s. map_of (tp_conns t') sid = Some s \<and> ts_peerId s = q" if "map_of (tp_conns t) sid = Some s0" "ts_peerId s0 = q" for sid s0 q
    using conns[of sid] that by auto
  have conn': "\<exists>s. map_of (tp_conns t) sid = Some s \<and> ts_peerId s = ts_peerId s0" if "map_of (tp_conns t') sid = Some s0" for sid s0
    using conns[of sid] that by (cases "map_of (tp_conns t) sid") auto
  have same: "entry_socket p t' = entry_socket p t" for p using entries by (simp add: entry_socket_def sockets split: bind_splits)
  show ?thesis unfolding tcp_ok_def
  proof (intro conjI allI impI)
    fix p eid assume m: "map_of (tp_sockets t') p = Some eid"
    then show "p \<noteq> []" using tcp_okD(1)[OF assms(1)] sockets by auto
    obtain e0 s0 where e0: "map_of (tp_entries t) eid = Some e0" "map_of (tp_conns t) (te_socket e0) = Some s0" "ts_peerId s0 = Some p"
      using tcp_okD(1)[OF assms(1)] m sockets by metis
    obtain e where "map_of (tp_entries t') eid = Some e" "te_socket e = te_socket e0" using entry[OF e0(1)] by blast
    then show "\<exists>e s. map_of (tp_entries t') eid = Some e \<and> map_of (tp_conns t') (te_socket e) = Some s \<and> ts_peerId s = Some p"
      using conn[OF e0(2,3)] by auto
  next
    fix sid s assume "map_of (tp_conns t') sid = Some s"
    then show "ts_peerId s \<noteq> Some []" using conn' tcp_okD(2)[OF assms(1)] by metis
  next
    fix sid p assume "live_socket t' sid p"
    then show "entry_socket p t' = Some sid" using live tcp_okD(3)[OF assms(1)] same by simp
  next
    fix p show "(map_of (tp_sockets t') p \<noteq> None) = reported_up p False (drop k (tp_events t'))"
      using tcp_okD(4,5)[OF assms(1)] reported_up_same[OF vs(2)] by (simp add: sockets vs(1) reported_up_append)
  next
    show "k \<le> length (tp_events t')" using tcp_okD(5)[OF assms(1)] by (simp add: vs(1))
  qed
qed

lemma on_socket_quiet:
  assumes "\<And>s. ts_peerId (f s) = ts_peerId s \<and> (ts_destroyed s \<longrightarrow> ts_destroyed (f s))"
  shows "quiet t (on_socket sid f t)"
  using assms by (auto simp: quiet_def on_socket_def live_socket_def split: option.splits)

lemma log_quiet: "list_all (\<lambda>v. \<not> about_peer v) vs \<Longrightarrow> quiet t (log_events vs t)"
  by (auto simp: quiet_def live_socket_def)

lemma resume_drain_events: "resume_drain live e = (vs, e') \<Longrightarrow> list_all (\<lambda>v. \<not> about_peer v) vs \<and> te_socket e' = te_socket e"
  by (auto simp: resume_drain_def list_all_iff split: prod.splits option.splits)

lemma entry_events:
  "entry_send live i packet e = (vs, e') \<Longrightarrow> list_all (\<lambda>v. \<not> about_peer v) vs \<and> te_socket e' = te_socket e"
  "entry_written live ok e = (us, e'') \<Longrightarrow> list_all (\<lambda>v. \<not> about_peer v) us \<and> te_socket e'' = te_socket e"
  using resume_drain_events
  by (fastforce simp: entry_send_def drainQueue_def split: if_splits option.splits)
     (fastforce simp: entry_written_def dest: resume_drain_events split: option.splits prod.splits)

lemma put_entry_quiet:
  "map_of (tp_entries t) eid = Some e \<Longrightarrow> te_socket e' = te_socket e \<Longrightarrow> list_all (\<lambda>v. \<not> about_peer v) vs \<Longrightarrow>
     quiet t (log_events vs (t\<lparr>tp_entries := map_put eid e' (tp_entries t)\<rparr>))"
  by (auto simp: quiet_def live_socket_def)

lemma quiet_refl [simp]: "quiet t t" by (auto simp: quiet_def)

lemma send_quiet: "quiet t (tcp_send i p packet t)"
proof (cases "map_of (tp_sockets t) p")
  case (Some eid)
  show ?thesis
  proof (cases "map_of (tp_entries t) eid")
    case (Some e)
    obtain vs e' where s: "entry_send (alive (te_socket e) t) i packet e = (vs, e')" by fastforce
    show ?thesis using put_entry_quiet[OF Some] entry_events(1)[OF s] \<open>map_of (tp_sockets t) p = Some eid\<close> Some s by (simp add: tcp_send_def)
  qed (simp add: tcp_send_def Some)
qed (simp add: tcp_send_def log_quiet)

lemma write_quiet: "quiet t (write_finished eid ok t)"
proof (cases "map_of (tp_entries t) eid")
  case (Some e)
  obtain vs e' where s: "entry_written (alive (te_socket e) t) ok e = (vs, e')" by fastforce
  show ?thesis using put_entry_quiet[OF Some] entry_events(2)[OF s] Some s by (simp add: write_finished_def)
qed (simp add: write_finished_def)

lemma opened_ok: "tcp_ok k t \<Longrightarrow> map_of (tp_conns t) sid = None \<Longrightarrow> tcp_ok k (socket_opened sid t)"
  unfolding tcp_ok_def socket_opened_def live_socket_def entry_socket_def
  by (auto simp: reported_up_append) (metis option.distinct(1))+

lemma destroy_ok: "tcp_ok k t \<Longrightarrow> tcp_ok k (destroy sid t)"
  unfolding destroy_def by (erule quiet_ok) (rule on_socket_quiet, simp)

lemma pending_ok: "tcp_ok k t \<Longrightarrow> tcp_ok k (t\<lparr>tp_pending := ps\<rparr>)"
  by (erule quiet_ok) (auto simp: quiet_def live_socket_def)

lemma destroy_simps [simp]:
  "tp_sockets (destroy sid t) = tp_sockets t" "tp_entries (destroy sid t) = tp_entries t" "tp_events (destroy sid t) = tp_events t"
  "map_of (tp_conns (destroy sid t)) x = (if x = sid then map_option (\<lambda>s. s\<lparr>ts_destroyed := True\<rparr>) (map_of (tp_conns t) x) else map_of (tp_conns t) x)"
  by (simp_all add: destroy_def on_socket_def split: option.split)

lemma destroyed_not_live: "\<not> live_socket (destroy sid t) sid p"
  by (auto simp: live_socket_def)

lemma closed_ok:
  assumes ok: "tcp_ok k t"
  shows "tcp_ok k (socket_closed sid t)"
proof -
  define t1 where "t1 = destroy sid (t\<lparr>tp_pending := filter (\<lambda>x. x \<noteq> sid) (tp_pending t)\<rparr>)"
  have ok1: "tcp_ok k t1" unfolding t1_def by (intro destroy_ok pending_ok ok)
  show ?thesis
  proof (cases "\<exists>p. Option.bind (map_of (tp_conns t) sid) ts_peerId = Some p \<and> p \<noteq> [] \<and> entry_socket p t1 = Some sid")
    case False
    then have "socket_closed sid t = t1" by (auto simp: socket_closed_def t1_def Let_def split: option.splits bind_splits)
    then show ?thesis using ok1 by simp
  next
    case True
    then obtain p where p: "Option.bind (map_of (tp_conns t) sid) ts_peerId = Some p" "p \<noteq> []" "entry_socket p t1 = Some sid" by blast
    let ?t = "log_events [PeerDisconnected p] (t1\<lparr>tp_sockets := map_del p (tp_sockets t1)\<rparr>)"
    have step: "socket_closed sid t = ?t" using p by (simp add: socket_closed_def t1_def Let_def)
    have same: "entry_socket q ?t = (if q = p then None else entry_socket q t1)" for q by (simp add: entry_socket_def)
    show ?thesis unfolding step tcp_ok_def
    proof (intro conjI allI impI)
      fix q eid assume "map_of (tp_sockets ?t) q = Some eid"
      then have q: "map_of (tp_sockets t1) q = Some eid" by (simp split: if_splits)
      then show "q \<noteq> []" "\<exists>e s. map_of (tp_entries ?t) eid = Some e \<and> map_of (tp_conns ?t) (te_socket e) = Some s \<and> ts_peerId s = Some q"
        using tcp_okD(1)[OF ok1 q] by simp_all
    next
      fix x s assume "map_of (tp_conns ?t) x = Some s"
      then show "ts_peerId s \<noteq> Some []" using tcp_okD(2)[OF ok1] by simp
    next
      fix x q assume "live_socket ?t x q"
      then have x: "live_socket t1 x q" by (simp add: live_socket_def)
      then have e: "entry_socket q t1 = Some x" by (rule tcp_okD(3)[OF ok1])
      moreover have "q \<noteq> p"
      proof
        assume "q = p"
        then have "x = sid" using e p(3) by simp
        then show False using x destroyed_not_live unfolding t1_def by blast
      qed
      ultimately show "entry_socket q ?t = Some x" by (simp only: same if_False)
    next
      fix q show "(map_of (tp_sockets ?t) q \<noteq> None) = reported_up q False (drop k (tp_events ?t))"
        using tcp_okD(4)[OF ok1, of q] tcp_okD(5)[OF ok1] by (auto simp: reported_up_append)
    next
      show "k \<le> length (tp_events ?t)" using tcp_okD(5)[OF ok1] by simp
    qed
  qed
qed

lemma identify_ok:
  assumes ok: "tcp_ok k t" and s: "map_of (tp_conns t) sid = Some s" "ts_peerId s = None" and fresh: "map_of (tp_entries t) eid = None" and p: "p \<noteq> []"
  shows "tcp_ok k (identify eid sid p t)"
proof -
  define t2 where "t2 = (on_socket sid (\<lambda>s. s\<lparr>ts_peerId := Some p\<rparr>) t)\<lparr>tp_pending := filter (\<lambda>x. x \<noteq> sid) (tp_pending t)\<rparr>"
  define t3 where "t3 = (case entry_socket p t of Some x \<Rightarrow> destroy x t2 | None \<Rightarrow> t2)"
  let ?t = "log_events [Identified sid p, PeerConnected p] (t3\<lparr>tp_entries := map_put eid (entry_new sid) (tp_entries t3), tp_sockets := map_put p eid (tp_sockets t3)\<rparr>)"
  have t2: "tp_sockets t2 = tp_sockets t" "tp_entries t2 = tp_entries t" "tp_events t2 = tp_events t"
    "map_of (tp_conns t2) x = (if x = sid then Some (s\<lparr>ts_peerId := Some p\<rparr>) else map_of (tp_conns t) x)" for x
    using s(1) by (simp_all add: t2_def on_socket_def)
  have t3: "tp_sockets t3 = tp_sockets t" "tp_entries t3 = tp_entries t" "tp_events t3 = tp_events t"
    "map_of (tp_conns t3) x = (if entry_socket p t = Some x then map_option (\<lambda>s. s\<lparr>ts_destroyed := True\<rparr>) (map_of (tp_conns t2) x) else map_of (tp_conns t2) x)" for x
    using t2 by (simp_all add: t3_def split: option.split)
  have step: "identify eid sid p t = ?t"
  proof -
    have "on_socket sid (\<lambda>s. s\<lparr>ts_peerId := Some p\<rparr>) t\<lparr>tp_pending := filter (\<lambda>x. x \<noteq> sid) (tp_pending (on_socket sid (\<lambda>s. s\<lparr>ts_peerId := Some p\<rparr>) t))\<rparr> = t2"
      using s(1) by (simp add: t2_def on_socket_def)
    then show ?thesis unfolding identify_def Let_def t3_def entry_socket_def
      by (simp add: t2 split: option.split bind_split)
  qed
  have not_sid: "entry_socket q t \<noteq> Some sid" for q
  proof
    assume "entry_socket q t = Some sid"
    then obtain eid' e' where "map_of (tp_sockets t) q = Some eid'" "map_of (tp_entries t) eid' = Some e'" "te_socket e' = sid"
      by (auto simp: entry_socket_def bind_eq_Some_conv)
    then show False using tcp_okD(1)[OF ok] s by fastforce
  qed
  have same: "entry_socket q ?t = (if q = p then Some sid else entry_socket q t)" for q
  proof (cases "map_of (tp_sockets t) q")
    case (Some eid')
    then have "eid' \<noteq> eid" using tcp_okD(1)[OF ok Some] fresh by auto
    then show ?thesis using Some by (simp add: entry_socket_def t3 entry_new_def)
  qed (simp add: entry_socket_def t3 entry_new_def)
  show ?thesis unfolding step tcp_ok_def
  proof (intro conjI allI impI)
    fix q eid' assume m: "map_of (tp_sockets ?t) q = Some eid'"
    show "q \<noteq> []" using m p tcp_okD(1)[OF ok, of q eid'] by (auto simp: t3 split: if_splits)
    show "\<exists>e s. map_of (tp_entries ?t) eid' = Some e \<and> map_of (tp_conns ?t) (te_socket e) = Some s \<and> ts_peerId s = Some q"
    proof (cases "q = p")
      case True
      then show ?thesis using m not_sid by (simp add: t3 t2 entry_new_def)
    next
      case False
      then have q: "map_of (tp_sockets t) q = Some eid'" using m by (simp add: t3)
      obtain e' s' where e': "map_of (tp_entries t) eid' = Some e'" "map_of (tp_conns t) (te_socket e') = Some s'" "ts_peerId s' = Some q"
        using tcp_okD(1)[OF ok q] by blast
      then have "eid' \<noteq> eid" "te_socket e' \<noteq> sid" using fresh s by auto
      then show ?thesis using e' by (simp add: t3 t2)
    qed
  next
    fix x s' assume "map_of (tp_conns ?t) x = Some s'"
    then show "ts_peerId s' \<noteq> Some []" using p tcp_okD(2)[OF ok, of x] by (auto simp: t3 t2 split: if_splits)
  next
    fix x q assume live: "live_socket ?t x q"
    show "entry_socket q ?t = Some x"
    proof (cases "x = sid")
      case True
      then have "q = p" using live by (auto simp: live_socket_def t3 t2 split: if_splits)
      then show ?thesis unfolding same using True by simp
    next
      case False
      then have "live_socket t x q" "entry_socket p t \<noteq> Some x" using live by (auto simp: live_socket_def t3 t2 split: if_splits)
      moreover from this have "entry_socket q t = Some x" using tcp_okD(3)[OF ok] by blast
      ultimately have "q \<noteq> p" by auto
      then show ?thesis using \<open>entry_socket q t = Some x\<close> by (simp only: same if_False)
    qed
  next
    fix q show "(map_of (tp_sockets ?t) q \<noteq> None) = reported_up q False (drop k (tp_events ?t))"
      using tcp_okD(4)[OF ok, of q] tcp_okD(5)[OF ok] by (auto simp: t3 reported_up_append)
  next
    show "k \<le> length (tp_events ?t)" using tcp_okD(5)[OF ok] by (simp add: t3)
  qed
qed

text \<open>Stopping destroys every socket that is in the table or has not named itself, and clears both, without a report.\<close>

lemma destroy_all:
  "tp_events (fold destroy xs t) = tp_events t" "map_of (tp_conns t) sid = Some s \<Longrightarrow>
     map_of (tp_conns (fold destroy xs t)) sid = Some (s\<lparr>ts_destroyed := ts_destroyed s \<or> sid \<in> set xs\<rparr>)"
  "map_of (tp_conns t) sid = None \<Longrightarrow> map_of (tp_conns (fold destroy xs t)) sid = None"
proof -
  have one: "tp_events (destroy x t) = tp_events t" "map_of (tp_conns (destroy x t)) sid =
      map_option (\<lambda>s. if sid = x then s\<lparr>ts_destroyed := True\<rparr> else s) (map_of (tp_conns t) sid)" for x sid and t :: "'b tcp"
    by (cases "map_of (tp_conns t) sid"; auto simp: destroy_def on_socket_def split: option.split)+
  show "tp_events (fold destroy xs t) = tp_events t" by (induction xs arbitrary: t) (simp_all add: one)
  show "map_of (tp_conns t) sid = Some s \<Longrightarrow>
     map_of (tp_conns (fold destroy xs t)) sid = Some (s\<lparr>ts_destroyed := ts_destroyed s \<or> sid \<in> set xs\<rparr>)"
  proof (induction xs arbitrary: t s)
    case (Cons x xs)
    show ?case using Cons.IH[of "destroy x t" "if sid = x then s\<lparr>ts_destroyed := True\<rparr> else s"] Cons.prems
      by (cases "sid = x") (simp_all add: one)
  qed simp
  show "map_of (tp_conns t) sid = None \<Longrightarrow> map_of (tp_conns (fold destroy xs t)) sid = None"
  proof (induction xs arbitrary: t)
    case (Cons x xs)
    have "map_of (tp_conns (destroy x t)) sid = None" unfolding one(2) Cons.prems by simp
    from Cons.IH[OF this] show ?case by simp
  qed simp
qed

lemma tcp_stop_ok:
  assumes ok: "tcp_ok k t"
  shows "tcp_ok (length (tp_events (tcp_stop t))) (tcp_stop t)"
proof -
  define own where "own = map (\<lambda>(p, eid). case map_of (tp_entries t) eid of Some e \<Rightarrow> [te_socket e] | None \<Rightarrow> []) (tp_sockets t)"
  have stop: "tcp_stop t = (fold destroy (concat own @ tp_pending t) t)\<lparr>tp_sockets := [], tp_pending := []\<rparr>"
    by (simp add: tcp_stop_def own_def Let_def)
  have in_own: "sid \<in> set (concat own)" if e: "entry_socket p t = Some sid" for p sid
  proof -
    obtain eid e where "map_of (tp_sockets t) p = Some eid" "map_of (tp_entries t) eid = Some e" "te_socket e = sid"
      using e by (auto simp: entry_socket_def bind_eq_Some_conv)
    then have "[sid] \<in> set own" unfolding own_def set_map
      by (intro image_eqI[of _ _ "(p, eid)"]) (simp_all add: map_of_SomeD)
    then show ?thesis by force
  qed
  have conn: "\<exists>s0. map_of (tp_conns t) sid = Some s0 \<and> s = s0\<lparr>ts_destroyed := ts_destroyed s0 \<or> sid \<in> set (concat own @ tp_pending t)\<rparr>"
    if "map_of (tp_conns (tcp_stop t)) sid = Some s" for sid s
    using that destroy_all(2,3)[of t sid, where xs = "concat own @ tp_pending t"]
    by (cases "map_of (tp_conns t) sid") (simp_all add: stop del: fold_append)
  have dead: "\<not> live_socket (tcp_stop t) sid p" for sid p
  proof
    assume "live_socket (tcp_stop t) sid p"
    then obtain s where s: "map_of (tp_conns (tcp_stop t)) sid = Some s" "ts_peerId s = Some p" "\<not> ts_destroyed s"
      by (auto simp: live_socket_def)
    from conn[OF s(1)] s have "live_socket t sid p" "sid \<notin> set (concat own)" by (auto simp: live_socket_def)
    with tcp_okD(3)[OF ok] in_own show False by blast
  qed
  have named: "ts_peerId s \<noteq> Some []" if "map_of (tp_conns (tcp_stop t)) sid = Some s" for sid s
    using conn[OF that] tcp_okD(2)[OF ok] by auto
  show ?thesis using dead named by (auto simp: tcp_ok_def) (simp_all add: stop)
qed

text \<open>How many reports there were when a transport was last stopped; \<open>k\<close> if it never was.\<close>

fun stop_mark :: "nat \<Rightarrow> 'p tcp \<Rightarrow> 'p tcp_op list \<Rightarrow> nat" where
  "stop_mark k t [] = k"
| "stop_mark k t (op # ops) = stop_mark (case op of Stop \<Rightarrow> length (tp_events (tcp_step t op)) | _ \<Rightarrow> k) (tcp_step t op) ops"

lemma tcp_step_ok:
  assumes ok: "tcp_ok k t" and "fresh_op t op"
  shows "tcp_ok (case op of Stop \<Rightarrow> length (tp_events (tcp_step t op)) | _ \<Rightarrow> k) (tcp_step t op)"
proof (cases op)
  case (Line eid sid decoded)
  show ?thesis
  proof (cases "\<exists>packet s. decoded = Some packet \<and> map_of (tp_conns t) sid = Some s \<and> \<not> known_peer (ts_peerId s)")
    case True
    then obtain packet s where d: "decoded = Some packet" "map_of (tp_conns t) sid = Some s" "\<not> known_peer (ts_peerId s)" by blast
    have "ts_peerId s = None" using d(3) tcp_okD(2)[OF ok d(2)] by (auto simp: known_peer_def split: option.splits)
    then have "tcp_ok k (identify eid sid (pk_source packet) t)" using assms(2) d by (intro identify_ok[OF ok d(2)]) (simp_all add: Line)
    then have "tcp_ok k (log_events [PacketFor (pk_source packet) packet] (identify eid sid (pk_source packet) t))" by (rule quiet_ok) (rule log_quiet, simp)
    then show ?thesis using d by (simp add: Line line_received_def)
  next
    case False
    have "quiet t (line_received eid sid decoded t)" using False by (auto simp: line_received_def log_quiet split: option.split)
    then show ?thesis using quiet_ok[OF ok] by (simp add: Line)
  qed
next
  case (Data sid chunk)
  have "quiet t (data_received sid chunk t)" unfolding data_received_def by (rule on_socket_quiet) (simp add: count_line_def Let_def)
  then show ?thesis using quiet_ok[OF ok] by (simp add: Data)
next
  case (Unwritable sid)
  have "quiet t (on_socket sid (\<lambda>s. s\<lparr>ts_writable := False\<rparr>) t)" by (rule on_socket_quiet) simp
  then show ?thesis using quiet_ok[OF ok] by (simp add: Unwritable)
qed (use assms in \<open>simp_all add: opened_ok closed_ok tcp_stop_ok[OF ok] quiet_ok[OF ok send_quiet] quiet_ok[OF ok write_quiet]\<close>)

lemma tcp_run_ok: "tcp_ok k t \<Longrightarrow> fresh_run t ops \<Longrightarrow> tcp_ok (stop_mark k t ops) (foldl tcp_step t ops)"
proof (induction ops arbitrary: k t)
  case (Cons op ops)
  then show ?case using tcp_step_ok[OF Cons.prems(1), of op] by simp
qed simp

lemma tcp_new_ok: "tcp_ok 0 tcp_new"
  by (simp add: tcp_ok_def tcp_new_def live_socket_def)

text \<open>C36: However connections are opened, replaced and closed and the transport is stopped, a peer is in the table of the transport exactly if the last report
  the node got about it since the last stop (which clears the table and reports nothing) was that it connected; and of all the sockets that named themselves as one
  peer at most one is not destroyed. The sockets and entries of a run are numbered afresh, and no packet received has an empty source: a packet
  with an empty source breaks this, as \<open>tcp_unnamed_peer_stays\<close> shows.\<close>

theorem tcp_peers_match_reports:
  assumes "fresh_run tcp_new ops"
  shows "(map_of (tp_sockets (foldl tcp_step tcp_new ops)) p \<noteq> None) =
      reported_up p False (drop (stop_mark 0 tcp_new ops) (tp_events (foldl tcp_step tcp_new ops)))
    \<and> (live_socket (foldl tcp_step tcp_new ops) sid p \<and> live_socket (foldl tcp_step tcp_new ops) sid' p \<longrightarrow> sid = sid')"
  using tcp_okD(3,4)[OF tcp_run_ok[OF tcp_new_ok assms]] by (metis option.inject)

lemma tcp_peers_match_reports_witness:
  "let ops = [Opened 1, Line 10 1 (Some (sample_packet 0)), Opened 2, Line 11 2 (Some (sample_packet 0)), Closed 1]
   in map_of (tp_sockets (foldl tcp_step tcp_new ops)) ''a'' = Some 11 \<and> reported_up ''a'' False (tp_events (foldl tcp_step tcp_new ops)) \<and>
      map_of (tp_sockets (foldl tcp_step tcp_new (ops @ [Stop]))) ''a'' = None"
proof -
  let ?ops = "[Opened 1, Line 10 1 (Some (sample_packet 0)), Opened 2, Line 11 2 (Some (sample_packet 0)), Closed 1]"
  have "fresh_run tcp_new ?ops" by code_simp
  moreover have "map_of (tp_sockets (foldl tcp_step tcp_new ?ops)) ''a'' = Some 11" by code_simp
  moreover have "stop_mark 0 tcp_new ?ops = 0" by simp
  ultimately have up: "reported_up ''a'' False (tp_events (foldl tcp_step tcp_new ?ops))"
    using tcp_peers_match_reports[of ?ops "''a''"] by simp
  have "map_of (tp_sockets (foldl tcp_step tcp_new (?ops @ [Stop]))) ''a'' = None" by (simp add: tcp_stop_def Let_def)
  with up \<open>map_of (tp_sockets (foldl tcp_step tcp_new ?ops)) ''a'' = Some 11\<close> show ?thesis unfolding Let_def by blast
qed

text \<open>A packet with an empty source, which \<open>decodePacket\<close> accepts, leaves a peer that is never taken out: its socket is closed and the node is not told, and a
  second packet on the same socket makes the transport destroy that socket itself.\<close>

theorem tcp_unnamed_peer_stays:
  "let t = foldl tcp_step tcp_new [Opened 1, Line 10 1 (Some (p\<lparr>pk_source := []\<rparr>))];
       t1 = tcp_step t (Closed 1); t2 = tcp_step t (Line 11 1 (Some (p\<lparr>pk_source := []\<rparr>)))
   in map_of (tp_sockets t1) [] = Some 10 \<and> PeerDisconnected [] \<notin> set (tp_events t1) \<and> \<not> alive 1 t2 \<and> alive 1 t"
  by (simp add: tcp_new_def socket_opened_def line_received_def identify_def on_socket_def known_peer_def socket_closed_def destroy_def entry_new_def alive_def Let_def)

end
