(* ===== verification/CommandPoller.thy ===== *)
theory CommandPoller
  imports Prelude
begin

text \<open>
  The commands that an operator queues on the mirror portal for a Box, and the poller of the Box that fetches and delivers them
  (\<open>arald-backend/command-poller.ts\<close>), run again and again (\<open>arald-backend/periodic.ts\<close>). The table \<open>remote_commands\<close> is the list of its
  rows in the order of their insertion; rows with the same creation time come in that order, where SQL leaves it open. The answer of the node to
  each delivery, the clock and the writes to the table, which can fail, are arguments of a tick. What the portal inserts while a tick runs
  counts as inserted after it: the tick has fetched its rows at its start.
\<close>

section \<open>The table\<close>

datatype command_status = CPending | CDelivered | CFailed

text \<open>The text of a failure is kept as the data it is made of.\<close>

datatype failure = Said jsval | RejectedWith nat | GaveUp int "nat option"

record command =
  cm_id :: string
  cm_nodeUrl :: string
  cm_kind :: string
  cm_metadata :: jsval
  cm_data :: string
  cm_priority :: rat
  cm_createdAt :: time
  cm_status :: command_status
  cm_deliveredAt :: "time option"
  cm_error :: "failure option"

type_synonym command_table = "command list"

definition MAX_COMMANDS_PER_TICK :: nat where "MAX_COMMANDS_PER_TICK = 20"
definition MAX_COMMAND_AGE_BEFORE_GIVING_UP_MS :: time where "MAX_COMMAND_AGE_BEFORE_GIVING_UP_MS = 24 * 60 * 60 * 1000"

text \<open>The database refuses a second row with an id.\<close>

definition insert_command :: "command \<Rightarrow> command_table \<Rightarrow> command_table" where
  "insert_command c t = (if cm_id c \<in> cm_id ` set t then t else t @ [c])"

definition update_row :: "string \<Rightarrow> (command \<Rightarrow> command) \<Rightarrow> command_table \<Rightarrow> command_table" where
  "update_row i f t = map (\<lambda>c. if cm_id c = i then f c else c) t"

definition markDelivered :: "time \<Rightarrow> string \<Rightarrow> command_table \<Rightarrow> command_table" where
  "markDelivered now i = update_row i (\<lambda>c. c\<lparr>cm_status := CDelivered, cm_deliveredAt := Some now, cm_error := None\<rparr>)"

definition markFailed :: "string \<Rightarrow> failure \<Rightarrow> command_table \<Rightarrow> command_table" where
  "markFailed i e = update_row i (\<lambda>c. c\<lparr>cm_status := CFailed, cm_error := Some e\<rparr>)"

definition waits_for :: "string \<Rightarrow> command \<Rightarrow> bool" where
  "waits_for url c \<longleftrightarrow> cm_nodeUrl c = url \<and> cm_status c = CPending"

definition fetchPendingCommands :: "string \<Rightarrow> command_table \<Rightarrow> command list" where
  "fetchPendingCommands url t = take MAX_COMMANDS_PER_TICK (sort_key cm_createdAt (filter (waits_for url) t))"

section \<open>A delivery\<close>

definition ingestRequest :: "command \<Rightarrow> string \<times> jsval" where
  "ingestRequest c =
    (if cm_kind c = ''node-append'' then (''/api/ingest-node-append'', cm_metadata c)
     else if cm_kind c = ''relay-command'' then (''/api/ingest-relay-command'', cm_metadata c)
     else if cm_kind c = ''external-delivery'' then (''/api/ingest-external-delivery'', cm_metadata c)
     else (''/api/ingest-signed-content'',
       JObject [(''metadata'', cm_metadata c), (''data'', JString (cm_data c)), (''priority'', JNumber (Num (cm_priority c)))]))"

definition isTerminallyRejected :: "nat \<Rightarrow> bool" where
  "isTerminallyRejected status \<longleftrightarrow> status = 422 \<or> status = 400 \<or> status = 413"

datatype outcome = Delivered | Rejected failure | Deferred

text \<open>The answer of the node is \<open>None\<close> if it could not be reached, and otherwise the status and the body, \<open>undefined\<close> where that is no JSON.\<close>

definition command_outcome :: "(nat \<times> jsval) option \<Rightarrow> time \<Rightarrow> outcome" where
  "command_outcome result age = (case result of
     Some (status, body) \<Rightarrow>
       if 200 \<le> status \<and> status < 300 then Delivered
       else if isTerminallyRejected status then
         Rejected (case jfield body ''error'' of JUndefined \<Rightarrow> RejectedWith status | JNull \<Rightarrow> RejectedWith status | e \<Rightarrow> Said e)
       else if age > MAX_COMMAND_AGE_BEFORE_GIVING_UP_MS then Rejected (GaveUp \<lfloor>age / (60 * 60 * 1000) + 1 / 2\<rfloor> (Some status))
       else Deferred
   | None \<Rightarrow>
       if age > MAX_COMMAND_AGE_BEFORE_GIVING_UP_MS then Rejected (GaveUp \<lfloor>age / (60 * 60 * 1000) + 1 / 2\<rfloor> None) else Deferred)"

section \<open>A tick\<close>

text \<open>The world during a tick: the answer to the \<open>i\<close>th delivery, a function of the endpoint and the body posted, the clock after it, and whether the write
  that follows it succeeds.\<close>

record poll_env =
  pe_post :: "nat \<Rightarrow> string \<times> jsval \<Rightarrow> (nat \<times> jsval) option"
  pe_clock :: "nat \<Rightarrow> time"
  pe_write :: "nat \<Rightarrow> bool"

record poll_summary =
  ps_delivered :: nat
  ps_failed :: nat
  ps_deferred :: nat

definition summary_new :: poll_summary where
  "summary_new = \<lparr>ps_delivered = 0, ps_failed = 0, ps_deferred = 0\<rparr>"

definition record_outcome :: "time \<Rightarrow> string \<Rightarrow> outcome \<Rightarrow> command_table \<Rightarrow> command_table" where
  "record_outcome now i oc t = (case oc of Delivered \<Rightarrow> markDelivered now i t | Rejected e \<Rightarrow> markFailed i e t | Deferred \<Rightarrow> t)"

definition count_outcome :: "outcome \<Rightarrow> poll_summary \<Rightarrow> poll_summary" where
  "count_outcome oc s = (case oc of Delivered \<Rightarrow> s\<lparr>ps_delivered := ps_delivered s + 1\<rparr>
     | Rejected e \<Rightarrow> s\<lparr>ps_failed := ps_failed s + 1\<rparr> | Deferred \<Rightarrow> s\<lparr>ps_deferred := ps_deferred s + 1\<rparr>)"

text \<open>The loop over the fetched commands; it returns the table, the outcomes it saw and the summary, \<open>None\<close> if a write threw.\<close>

fun poll_each :: "poll_env \<Rightarrow> nat \<Rightarrow> command list \<Rightarrow> command_table \<Rightarrow> poll_summary \<Rightarrow>
    command_table \<times> (string \<times> outcome) list \<times> poll_summary option" where
  "poll_each env i [] t s = (t, [], Some s)"
| "poll_each env i (c # cs) t s =
    (let oc = command_outcome (pe_post env i (ingestRequest c)) (pe_clock env i - cm_createdAt c)
     in if oc \<noteq> Deferred \<and> \<not> pe_write env i then (t, [(cm_id c, oc)], None)
        else case poll_each env (Suc i) cs (record_outcome (pe_clock env i) (cm_id c) oc t) (count_outcome oc s) of
          (t', done', r) \<Rightarrow> (t', (cm_id c, oc) # done', r))"

definition pollAndDeliverCommands :: "poll_env \<Rightarrow> string \<Rightarrow> string option \<Rightarrow> command_table \<Rightarrow>
    command_table \<times> (string \<times> outcome) list \<times> poll_summary option" where
  "pollAndDeliverCommands env url networkPassword t =
    (if networkPassword = None \<or> networkPassword = Some [] then (t, [], Some summary_new)
     else poll_each env 0 (fetchPendingCommands url t) t summary_new)"

text \<open>The life of the table: ticks of the poller, and commands the portal inserts.\<close>

datatype table_op = Tick poll_env | Queue command

fun table_step :: "string \<Rightarrow> string \<Rightarrow> command_table \<times> (string \<times> outcome) list \<Rightarrow> table_op \<Rightarrow> command_table \<times> (string \<times> outcome) list" where
  "table_step url pw (t, seen) (Tick env) = (case pollAndDeliverCommands env url (Some pw) t of (t', seen', r) \<Rightarrow> (t', seen @ seen'))"
| "table_step url pw (t, seen) (Queue c) = (insert_command c t, seen)"

section \<open>Rows and their updates\<close>

definition settled_ids :: "(string \<times> outcome) list \<Rightarrow> string set" where
  "settled_ids ats = fst ` {a \<in> set ats. snd a \<noteq> Deferred}"

lemma settled_ids_simps [simp]:
  "settled_ids [] = {}" "settled_ids (a # ats) = (if snd a = Deferred then {} else {fst a}) \<union> settled_ids ats"
  "settled_ids (xs @ ys) = settled_ids xs \<union> settled_ids ys"
  by (auto simp: settled_ids_def)

text \<open>What a delivery does not touch of a row: its id, its node, its request and its creation time.\<close>

definition fixed_part :: "command \<Rightarrow> string \<times> string \<times> (string \<times> jsval) \<times> time" where
  "fixed_part c = (cm_id c, cm_nodeUrl c, ingestRequest c, cm_createdAt c)"

definition waiting_ids :: "string \<Rightarrow> time \<Rightarrow> command_table \<Rightarrow> string set" where
  "waiting_ids url limit t = cm_id ` {c \<in> set t. waits_for url c \<and> cm_createdAt c \<le> limit}"

lemma update_fixed: "(\<And>c. fixed_part (f c) = fixed_part c) \<Longrightarrow> map fixed_part (update_row i f t) = map fixed_part t"
  by (simp add: update_row_def)

lemma record_fixed [simp]: "map fixed_part (record_outcome now i oc t) = map fixed_part t"
  unfolding record_outcome_def markDelivered_def markFailed_def
  by (cases oc) (simp_all add: update_fixed fixed_part_def ingestRequest_def)

lemma fixed_ids: "map fixed_part t = map fixed_part t' \<Longrightarrow> map cm_id t = map cm_id t'"
proof -
  assume "map fixed_part t = map fixed_part t'"
  then have "map fst (map fixed_part t) = map fst (map fixed_part t')" by (rule arg_cong)
  then show ?thesis by (simp add: fixed_part_def comp_def)
qed

lemma poll_each_fixed: "map fixed_part (fst (poll_each env i cs t s)) = map fixed_part t"
  by (induction cs arbitrary: i t s) (simp_all add: Let_def case_prod_unfold)

text \<open>An id that is recorded as delivered or rejected waits no more; no other id is touched.\<close>

lemma update_waiting:
  assumes "\<And>c. cm_status (f c) \<noteq> CPending"
  shows "waiting_ids url l (update_row i f t) = waiting_ids url l t - {i}"
proof (induction t)
  case (Cons c t)
  have "waiting_ids url l (x # xs) = (if waits_for url x \<and> cm_createdAt x \<le> l then {cm_id x} else {}) \<union> waiting_ids url l xs" for x xs
    by (auto simp: waiting_ids_def)
  moreover have "\<not> waits_for url (f c)" using assms by (simp add: waits_for_def)
  ultimately show ?case using Cons.IH by (auto simp: update_row_def)
qed (simp add: update_row_def waiting_ids_def)

lemma record_waiting: "waiting_ids url l (record_outcome now i oc t) = waiting_ids url l t - (if oc = Deferred then {} else {i})"
  unfolding record_outcome_def markDelivered_def markFailed_def by (cases oc) (simp_all add: update_waiting)

lemma poll_each_waiting:
  assumes "\<And>j. pe_write env j"
  shows "waiting_ids url l (fst (poll_each env i cs t s)) = waiting_ids url l t - settled_ids (fst (snd (poll_each env i cs t s)))"
  by (induction cs arbitrary: i t s) (auto simp: Let_def case_prod_unfold record_waiting assms)

lemma poll_each_ids:
  assumes "\<And>j. pe_write env j"
  shows "map fst (fst (snd (poll_each env i cs t s))) = map cm_id cs"
  by (induction cs arbitrary: i t s) (simp_all add: Let_def case_prod_unfold assms)

lemma poll_each_attempts: "fst ` set (fst (snd (poll_each env i cs t s))) \<subseteq> cm_id ` set cs"
proof (induction cs arbitrary: i t s)
  case (Cons c cs)
  have "fst ` set (fst (snd (poll_each env j cs t' s'))) \<subseteq> insert (cm_id c) (cm_id ` set cs)" for j t' s'
    using Cons.IH by blast
  then show ?case by (simp add: Let_def case_prod_unfold)
qed simp

lemma poll_each_distinct: "distinct (map cm_id cs) \<Longrightarrow> distinct (map fst (fst (snd (poll_each env i cs t s))))"
proof (induction cs arbitrary: i t s)
  case (Cons c cs)
  have "cm_id c \<notin> fst ` set (fst (snd (poll_each env j cs t' s')))" for j t' s'
    using poll_each_attempts[of env j cs t' s'] Cons.prems by auto
  then show ?case using Cons by (simp add: Let_def case_prod_unfold)
qed simp

text \<open>A command older than a day is settled whatever the answer.\<close>

lemma old_outcome: "MAX_COMMAND_AGE_BEFORE_GIVING_UP_MS < age \<Longrightarrow> command_outcome r age \<noteq> Deferred"
  by (auto simp: command_outcome_def split: option.splits)

lemma poll_each_settles:
  assumes "\<And>j. pe_write env j" "\<And>j. l + MAX_COMMAND_AGE_BEFORE_GIVING_UP_MS < pe_clock env j"
  shows "cm_id ` {c \<in> set cs. cm_createdAt c \<le> l} \<subseteq> settled_ids (fst (snd (poll_each env i cs t s)))"
proof (induction cs arbitrary: i t s)
  case (Cons c cs)
  have "cm_createdAt c \<le> l \<Longrightarrow> command_outcome (pe_post env i (ingestRequest c)) (pe_clock env i - cm_createdAt c) \<noteq> Deferred"
    using assms(2)[of i] by (intro old_outcome) linarith
  then show ?case using Cons.IH by (auto simp: Let_def case_prod_unfold assms(1) image_subset_iff)
qed simp

section \<open>The oldest twenty\<close>

lemma sorted_prefix:
  "sorted (map f xs) \<Longrightarrow> length (filter (\<lambda>x. f x \<le> l) (take n xs)) = min n (length (filter (\<lambda>x. f x \<le> l) xs))"
proof (induction xs arbitrary: n)
  case (Cons x xs)
  show ?case
  proof (cases "f x \<le> l")
    case True
    then show ?thesis using Cons by (cases n) simp_all
  next
    case False
    then have "filter (\<lambda>x. f x \<le> l) (x # xs) = []" using Cons.prems by (auto simp: filter_empty_conv)
    moreover from this have "filter (\<lambda>x. f x \<le> l) (take n (x # xs)) = []" unfolding filter_empty_conv by (meson in_set_takeD)
    ultimately show ?thesis by (simp only: list.size min_0R)
  qed
qed simp

lemma fetched_distinct: "distinct (map cm_id t) \<Longrightarrow> distinct (map cm_id (fetchPendingCommands url t))"
proof -
  assume "distinct (map cm_id t)"
  then have "inj_on cm_id (set t)" "distinct t" by (simp_all add: distinct_map)
  then have "distinct (map cm_id (sort_key cm_createdAt (filter (waits_for url) t)))"
    by (auto simp: distinct_map distinct_sort intro: inj_on_subset)
  then show ?thesis by (simp add: fetchPendingCommands_def flip: take_map)
qed

lemma fetched_waits: "set (fetchPendingCommands url t) \<subseteq> {c \<in> set t. waits_for url c}"
  by (auto simp: fetchPendingCommands_def dest: in_set_takeD)

text \<open>Of the commands as old as \<open>l\<close>, a fetch takes twenty, or all.\<close>

lemma fetched_old:
  assumes d: "distinct (map cm_id t)"
  shows "card (cm_id ` {c \<in> set (fetchPendingCommands url t). cm_createdAt c \<le> l}) = min 20 (card (waiting_ids url l t))"
proof -
  let ?S = "sort_key cm_createdAt (filter (waits_for url) t)" and ?old = "\<lambda>c. cm_createdAt c \<le> l"
  have inj: "inj_on cm_id (set t)" and dt: "distinct t" using d by (simp_all add: distinct_map)
  have card: "card (cm_id ` {c \<in> set xs. ?old c}) = length (filter ?old xs)" if "distinct xs" "set xs \<subseteq> set t" for xs
    using that inj card_image[OF inj_on_subset[OF inj], of "{c \<in> set xs. ?old c}"] distinct_card[of "filter ?old xs"] by auto
  have "waiting_ids url l t = cm_id ` {c \<in> set ?S. ?old c}" by (simp add: waiting_ids_def conj_assoc)
  then have w: "card (waiting_ids url l t) = length (filter ?old ?S)" using card[of ?S] dt by (simp add: distinct_sort)
  have "card (cm_id ` {c \<in> set (fetchPendingCommands url t). ?old c}) = length (filter ?old (fetchPendingCommands url t))"
    using card[of "fetchPendingCommands url t"] fetched_waits[of url t] fetched_distinct[OF d, of url] by (auto simp: distinct_map)
  then show ?thesis using w sorted_prefix[of cm_createdAt ?S l 20] by (simp add: fetchPendingCommands_def MAX_COMMANDS_PER_TICK_def)
qed

text \<open>A tick after the deadline of all of them settles twenty of the commands as old as \<open>l\<close>, or all.\<close>

lemma finite_waiting [simp]: "finite (waiting_ids url l t)"
  by (simp add: waiting_ids_def)

lemma card_waiting_le: "card (waiting_ids url l t) \<le> length t"
proof -
  have "waiting_ids url l t \<subseteq> cm_id ` set t" by (auto simp: waiting_ids_def)
  then have "card (waiting_ids url l t) \<le> card (cm_id ` set t)" by (intro card_mono) simp_all
  also have "\<dots> \<le> length t" using card_image_le[of "set t" cm_id] card_length[of t] by simp
  finally show ?thesis .
qed

lemma tick_settles_old:
  assumes d: "distinct (map cm_id t)" and pw: "pw \<noteq> []" and w: "\<And>j. pe_write env j"
    and late: "\<And>j. l + MAX_COMMAND_AGE_BEFORE_GIVING_UP_MS < pe_clock env j"
  shows "card (waiting_ids url l (fst (pollAndDeliverCommands env url (Some pw) t))) + min 20 (card (waiting_ids url l t)) \<le> card (waiting_ids url l t)"
proof -
  let ?cs = "fetchPendingCommands url t" and ?S = "settled_ids (fst (snd (pollAndDeliverCommands env url (Some pw) t)))"
  let ?F = "cm_id ` {c \<in> set ?cs. cm_createdAt c \<le> l}" and ?W = "waiting_ids url l t"
  have p: "pollAndDeliverCommands env url (Some pw) t = poll_each env 0 ?cs t summary_new" using pw by (simp add: pollAndDeliverCommands_def)
  have after: "waiting_ids url l (fst (pollAndDeliverCommands env url (Some pw) t)) = ?W - ?S" unfolding p by (rule poll_each_waiting[OF w])
  have "?F \<subseteq> ?S" unfolding p by (rule poll_each_settles[OF w late])
  then have "card (?W - ?S) \<le> card (?W - ?F)" by (intro card_mono) auto
  also have "?F \<subseteq> ?W" using fetched_waits[of url t] by (auto simp: waiting_ids_def)
  then have "card (?W - ?F) = card ?W - min 20 (card ?W)" using card_Diff_subset[of ?F ?W] fetched_old[OF d, of url l] by simp
  finally show ?thesis unfolding after by simp
qed

section \<open>The life of the table\<close>

abbreviation table_run :: "string \<Rightarrow> string \<Rightarrow> command_table \<Rightarrow> table_op list \<Rightarrow> command_table \<times> (string \<times> outcome) list" where
  "table_run url pw t ops \<equiv> foldl (table_step url pw) (t, []) ops"

text \<open>The writes of a tick succeed; a tick is later than a day after \<open>l\<close>, and a new command newer than \<open>l\<close>.\<close>

definition writes_succeed :: "table_op \<Rightarrow> bool" where
  "writes_succeed a = (case a of Tick env \<Rightarrow> \<forall>j. pe_write env j | Queue c \<Rightarrow> True)"

definition after_deadline :: "time \<Rightarrow> table_op \<Rightarrow> bool" where
  "after_deadline l a = (case a of Tick env \<Rightarrow> \<forall>j. l + MAX_COMMAND_AGE_BEFORE_GIVING_UP_MS < pe_clock env j | Queue c \<Rightarrow> l < cm_createdAt c)"

fun is_tick :: "table_op \<Rightarrow> bool" where
  "is_tick (Tick env) = True"
| "is_tick (Queue c) = False"

lemma poll_fixed: "map fixed_part (fst (pollAndDeliverCommands env url pw t)) = map fixed_part t"
  by (simp add: pollAndDeliverCommands_def poll_each_fixed)

lemma step_parts: "fst (table_step url pw ts (Tick env)) = fst (pollAndDeliverCommands env url (Some pw) (fst ts))"
  "snd (table_step url pw ts (Tick env)) = snd ts @ fst (snd (pollAndDeliverCommands env url (Some pw) (fst ts)))"
  "table_step url pw ts (Queue c) = (insert_command c (fst ts), snd ts)"
  by (cases ts; simp add: case_prod_unfold)+

lemma step_distinct: "distinct (map cm_id (fst ts)) \<Longrightarrow> distinct (map cm_id (fst (table_step url pw ts a)))"
  by (cases a) (simp_all add: step_parts fixed_ids[OF poll_fixed] insert_command_def)

lemma step_fixed: "fixed_part ` set (fst ts) \<subseteq> fixed_part ` set (fst (table_step url pw ts a))"
proof (cases a)
  case (Tick env)
  then show ?thesis using arg_cong[OF poll_fixed, of set] by (simp add: step_parts)
qed (auto simp: step_parts insert_command_def)

interpretation table: step_invariant "table_step url pw" "\<lambda>ts. distinct (map cm_id (fst ts))" for url pw
  by unfold_locales (rule step_distinct)

lemma run_fixed: "fixed_part ` set (fst ts) \<subseteq> fixed_part ` set (fst (foldl (table_step url pw) ts ops))"
proof (induction ops arbitrary: ts)
  case (Cons a ops)
  from step_fixed Cons.IH show ?case unfolding foldl_Cons by (rule subset_trans)
qed simp

lemma queue_waiting: "l < cm_createdAt c \<Longrightarrow> waiting_ids url l (insert_command c t) = waiting_ids url l t"
  by (auto simp: insert_command_def waiting_ids_def)

lemma run_waiting:
  assumes "pw \<noteq> []" "distinct (map cm_id (fst ts))" "list_all writes_succeed ops" "list_all (after_deadline l) ops"
  shows "card (waiting_ids url l (fst (foldl (table_step url pw) ts ops))) \<le> card (waiting_ids url l (fst ts)) - 20 * length (filter is_tick ops)"
  using assms(2-)
proof (induction ops arbitrary: ts)
  case (Cons a ops)
  let ?ts = "table_step url pw ts a" and ?n = "20 * length (filter is_tick ops)"
  have IH: "card (waiting_ids url l (fst (foldl (table_step url pw) ?ts ops))) \<le> card (waiting_ids url l (fst ?ts)) - ?n"
    using Cons.prems by (intro Cons.IH step_distinct) simp_all
  show ?case
  proof (cases a)
    case (Tick env)
    then have "card (waiting_ids url l (fst ?ts)) + min 20 (card (waiting_ids url l (fst ts))) \<le> card (waiting_ids url l (fst ts))"
      using Cons.prems by (simp add: step_parts tick_settles_old[OF _ assms(1)] writes_succeed_def after_deadline_def)
    then show ?thesis using IH Tick by simp
  next
    case (Queue c)
    then show ?thesis using IH Cons.prems(3) by (simp add: step_parts after_deadline_def queue_waiting)
  qed
qed simp

text \<open>C26: No command starves. Whatever the node answers, or if it never answers, a command that waits is settled, delivered or failed, after as many
  ticks, each later than a day after it was queued, as there are batches of twenty in the commands at least as old as it;
  commands queued later do not delay it.\<close>

theorem no_command_starves:
  assumes "c \<in> set t" "waits_for url c" "distinct (map cm_id t)" "pw \<noteq> []"
    and "list_all writes_succeed ops" "list_all (after_deadline (cm_createdAt c)) ops"
    and "card (waiting_ids url (cm_createdAt c) t) \<le> 20 * length (filter is_tick ops)"
  shows "\<exists>r \<in> set (fst (table_run url pw t ops)). fixed_part r = fixed_part c \<and> cm_status r \<noteq> CPending"
proof -
  let ?t = "fst (table_run url pw t ops)"
  have "fixed_part c \<in> fixed_part ` set t" using assms(1) by (rule imageI)
  also have "\<dots> \<subseteq> fixed_part ` set ?t" using run_fixed[of "(t, [])"] by simp
  finally obtain r where r: "r \<in> set ?t" "fixed_part r = fixed_part c" by force
  have "waiting_ids url (cm_createdAt c) ?t = {}" using run_waiting[of pw "(t, [])" ops "cm_createdAt c" url] assms(3-7) by simp
  then have "\<not> (waits_for url r \<and> cm_createdAt r \<le> cm_createdAt c)" using r(1) unfolding waiting_ids_def by blast
  then have "cm_status r \<noteq> CPending" using r(2) assms(2) by (auto simp: fixed_part_def waits_for_def)
  with r show ?thesis by blast
qed

definition sample_command :: "string \<Rightarrow> time \<Rightarrow> command" where
  "sample_command i k = \<lparr>cm_id = i, cm_nodeUrl = ''n'', cm_kind = ''drop'', cm_metadata = JNull, cm_data = [], cm_priority = 1, cm_createdAt = k,
     cm_status = CPending, cm_deliveredAt = None, cm_error = None\<rparr>"

definition silent_node :: poll_env where
  "silent_node = \<lparr>pe_post = \<lambda>i r. None, pe_clock = \<lambda>i. 86400001, pe_write = \<lambda>i. True\<rparr>"

lemma no_command_starves_witness:
  "\<exists>r \<in> set (fst (table_run ''n'' ''pw'' [sample_command ''a'' 0] [Queue (sample_command ''b'' 1), Tick silent_node])).
     fixed_part r = fixed_part (sample_command ''a'' 0) \<and> cm_status r \<noteq> CPending"
proof (rule no_command_starves)
  show "card (waiting_ids ''n'' (cm_createdAt (sample_command ''a'' 0)) [sample_command ''a'' 0])
      \<le> 20 * length (filter is_tick [Queue (sample_command ''b'' 1), Tick silent_node])"
    using card_waiting_le[of "''n''" _ "[sample_command ''a'' 0]"] by (rule le_trans) simp
qed (simp_all add: sample_command_def waits_for_def writes_succeed_def after_deadline_def silent_node_def MAX_COMMAND_AGE_BEFORE_GIVING_UP_MS_def)

text \<open>What is in the log as settled is in the table, and waits no more.\<close>

definition log_agrees :: "command_table \<times> (string \<times> outcome) list \<Rightarrow> bool" where
  "log_agrees ts \<longleftrightarrow> distinct (map cm_id (fst ts)) \<and> distinct (map fst (filter (\<lambda>a. snd a \<noteq> Deferred) (snd ts))) \<and>
     settled_ids (snd ts) \<subseteq> cm_id ` set (fst ts) \<and> (\<forall>url l. settled_ids (snd ts) \<inter> waiting_ids url l (fst ts) = {})"

lemma ids_waiting: "cm_id ` {c \<in> set t. waits_for url c} \<subseteq> (\<Union>l. waiting_ids url l t)"
  by (auto simp: waiting_ids_def)

lemma tick_agrees:
  assumes ok: "log_agrees ts" and w: "\<And>j. pe_write env j" and pw: "pw \<noteq> []"
  shows "log_agrees (table_step url pw ts (Tick env))"
proof -
  let ?cs = "fetchPendingCommands url (fst ts)" and ?r = "pollAndDeliverCommands env url (Some pw) (fst ts)"
  let ?new = "fst (snd ?r)"
  have p: "?r = poll_each env 0 ?cs (fst ts) summary_new" using pw by (simp add: pollAndDeliverCommands_def)
  have d: "distinct (map cm_id (fst ts))" using ok by (simp add: log_agrees_def)
  have sub: "settled_ids ?new \<subseteq> cm_id ` {c \<in> set (fst ts). waits_for url c}"
    using poll_each_attempts[of env 0 ?cs "fst ts" summary_new] fetched_waits[of url "fst ts"] unfolding p settled_ids_def by blast
  then have fresh: "settled_ids (snd ts) \<inter> settled_ids ?new = {}" using ok ids_waiting[of "fst ts" url] unfolding log_agrees_def by blast
  have dn: "distinct (map fst ?new)" unfolding p by (rule poll_each_distinct[OF fetched_distinct[OF d]])
  have waiting: "waiting_ids u l (fst ?r) = waiting_ids u l (fst ts) - settled_ids ?new" for u l unfolding p by (rule poll_each_waiting[OF w])
  have "distinct (map fst (filter (\<lambda>a. snd a \<noteq> Deferred) (snd ts @ ?new)))"
    using ok dn fresh by (simp add: log_agrees_def distinct_map_filter settled_ids_def)
  moreover have "cm_id ` set (fst ?r) = cm_id ` set (fst ts)" using arg_cong[OF fixed_ids[OF poll_fixed], of set] by simp
  moreover have "settled_ids (snd ts @ ?new) \<subseteq> cm_id ` set (fst ts)" using ok sub by (auto simp: log_agrees_def)
  moreover have "settled_ids (snd ts @ ?new) \<inter> waiting_ids u l (fst ?r) = {}" for u l
    using ok unfolding log_agrees_def waiting settled_ids_simps by blast
  ultimately show ?thesis using d by (simp add: log_agrees_def step_parts fixed_ids[OF poll_fixed])
qed

lemma queue_agrees: "log_agrees ts \<Longrightarrow> log_agrees (table_step url pw ts (Queue c))"
proof -
  assume ok: "log_agrees ts"
  have "waiting_ids u l (insert_command c (fst ts)) \<subseteq> waiting_ids u l (fst ts) \<union> ({cm_id c} - cm_id ` set (fst ts))" for u l
    by (auto simp: insert_command_def waiting_ids_def)
  then show ?thesis using ok unfolding log_agrees_def step_parts fst_conv snd_conv by (auto simp: insert_command_def) blast+
qed

text \<open>No command is delivered or given up twice, however many ticks run and whatever the node answers, as long as the writes to the table succeed.\<close>

theorem settled_once:
  assumes "distinct (map cm_id t)" "pw \<noteq> []" "list_all writes_succeed ops"
  shows "distinct (map fst (filter (\<lambda>a. snd a \<noteq> Deferred) (snd (table_run url pw t ops))))"
proof -
  have "log_agrees ts \<Longrightarrow> log_agrees (foldl (table_step url pw) ts ops)" for ts
    using assms(3)
  proof (induction ops arbitrary: ts)
    case (Cons a ops)
    have "log_agrees (table_step url pw ts a)"
      using Cons.prems queue_agrees tick_agrees[OF _ _ assms(2)] by (cases a) (simp_all add: writes_succeed_def)
    then show ?case using Cons by simp
  qed simp
  from this[of "(t, [])"] show ?thesis using assms(1) by (simp add: log_agrees_def)
qed

lemma settled_once_witness:
  "distinct (map fst (filter (\<lambda>a. snd a \<noteq> Deferred) (snd (table_run ''n'' ''pw'' [sample_command ''a'' 0] [Tick silent_node, Tick silent_node]))))"
  by (rule settled_once) (simp_all add: writes_succeed_def silent_node_def)

section \<open>The loop around the ticks\<close>

text \<open>\<open>runPeriodicSync\<close>: a run that throws is reported and does not end the loop; the signal is looked at before and after each run, and the sleep ends
  with it. The looks are numbered, two in a round. The loop may never end, so its value is an option.\<close>

definition run_once :: "(nat \<Rightarrow> 's \<Rightarrow> 's \<times> 'e option) \<Rightarrow> nat \<Rightarrow> 's \<times> 'e list \<Rightarrow> 's \<times> 'e list" where
  "run_once runOnce i se = (case runOnce i (fst se) of (s', None) \<Rightarrow> (s', snd se) | (s', Some e) \<Rightarrow> (s', snd se @ [e]))"

partial_function (option) runPeriodicSync :: "(nat \<Rightarrow> bool) \<Rightarrow> (nat \<Rightarrow> 's \<Rightarrow> 's \<times> 'e option) \<Rightarrow> nat \<Rightarrow> 's \<times> 'e list \<Rightarrow> ('s \<times> 'e list) option" where
  "runPeriodicSync aborted runOnce i se =
    (if aborted (2 * i) then Some se
     else if aborted (2 * i + 1) then Some (run_once runOnce i se)
     else runPeriodicSync aborted runOnce (i + 1) (run_once runOnce i se))"

lemma periodic_upto:
  assumes "i \<le> m" "\<forall>j < 2 * m. \<not> aborted j"
  shows "runPeriodicSync aborted runOnce i se = runPeriodicSync aborted runOnce m (fold (run_once runOnce) [i..<m] se)"
  using assms(1)
proof (induction i arbitrary: se rule: inc_induct)
  case (step i)
  have "\<not> aborted (2 * i)" "\<not> aborted (2 * i + 1)" using assms(2) step.hyps by simp_all
  then have "runPeriodicSync aborted runOnce i se = runPeriodicSync aborted runOnce (Suc i) (run_once runOnce i se)"
    by (simp add: runPeriodicSync.simps[of _ _ i])
  then show ?case using step by (simp add: upt_conv_Cons)
qed simp

text \<open>The loop runs until it is stopped, and no longer: if the signal is first seen at the look number \<open>k\<close>, it ends having run exactly \<open>(k + 1) div 2\<close> times,
  whichever of the runs threw.\<close>

theorem periodic_runs_until_stopped:
  assumes "aborted k" "\<forall>j < k. \<not> aborted j"
  shows "runPeriodicSync aborted runOnce 0 (s, []) = Some (fold (run_once runOnce) [0..<(k + 1) div 2] (s, []))"
proof -
  let ?m = "k div 2"
  have up: "runPeriodicSync aborted runOnce 0 (s, []) = runPeriodicSync aborted runOnce ?m (fold (run_once runOnce) [0..<?m] (s, []))"
    by (rule periodic_upto) (use assms(2) in auto)
  show ?thesis
  proof (cases "even k")
    case True
    then show ?thesis unfolding up using assms(1) by (simp add: runPeriodicSync.simps[of _ _ ?m])
  next
    case False
    then have k: "k = 2 * ?m + 1" "(k + 1) div 2 = Suc ?m" by presburger+
    then have "\<not> aborted (2 * ?m)" "aborted (2 * ?m + 1)" using assms by (metis less_add_one, metis)
    then show ?thesis unfolding up k(2) by (simp add: runPeriodicSync.simps[of _ _ ?m])
  qed
qed

lemma periodic_runs_until_stopped_witness:
  "runPeriodicSync (\<lambda>k. k = 3) (\<lambda>i s. (s + 1, if i = 0 then Some ''unreachable'' else None)) 0 (0::nat, []) = Some (2, [''unreachable''])"
  using periodic_runs_until_stopped[of "\<lambda>k. k = 3" 3 "\<lambda>i s. (s + 1, if i = 0 then Some ''unreachable'' else None)" "0::nat"]
  by (simp add: run_once_def upt_rec)

end
