(* ===== verification/HttpBody.thy ===== *)
theory HttpBody
  imports Prelude
begin

text \<open>
  Reading the body of a request within a limit and a deadline (\<open>readRequestBody\<close> of \<open>node/src/loopback-http-server.ts\<close>), on which every HTTP server of the
  repository rests. What arrives on the connection is a sequence of events in any order; the promise is settled by the first that decides it.
\<close>

datatype body_event = Chunk string | End | StreamError | Deadline

datatype body_result = BodyRead string | TooLarge | Failed

record body_reader =
  br_chunks :: "string list"
  br_total :: nat
  br_settled :: bool
  br_result :: "body_result option"
  br_destroyed :: bool

definition body_reader_new :: body_reader where
  "body_reader_new = \<lparr>br_chunks = [], br_total = 0, br_settled = False, br_result = None, br_destroyed = False\<rparr>"

text \<open>Rejecting or resolving a promise that is settled has no effect.\<close>

definition settle_body :: "body_result \<Rightarrow> body_reader \<Rightarrow> body_reader" where
  "settle_body r s = s\<lparr>br_settled := True, br_result := (case br_result s of None \<Rightarrow> Some r | Some x \<Rightarrow> Some x)\<rparr>"

text \<open>The timer is cleared by what settles the promise before it, so that the deadline passes only while the promise is open.\<close>

fun body_step :: "nat \<Rightarrow> body_reader \<Rightarrow> body_event \<Rightarrow> body_reader" where
  "body_step maxBytes s (Chunk c) =
    (if br_settled s then s
     else let s' = s\<lparr>br_total := br_total s + length c\<rparr>
       in if br_total s' > maxBytes then settle_body TooLarge (s'\<lparr>br_destroyed := True\<rparr>)
          else s'\<lparr>br_chunks := br_chunks s' @ [c]\<rparr>)"
| "body_step maxBytes s End = (if br_settled s then s else settle_body (BodyRead (concat (br_chunks s))) s)"
| "body_step maxBytes s StreamError = (if br_settled s then s else settle_body Failed s)"
| "body_step maxBytes s Deadline = (if br_settled s then s else settle_body Failed (s\<lparr>br_destroyed := True\<rparr>))"

abbreviation read_body :: "nat \<Rightarrow> body_event list \<Rightarrow> body_reader" where
  "read_body maxBytes es \<equiv> foldl (body_step maxBytes) body_reader_new es"

text \<open>What the reader holds never exceeds the limit, and the held chunks are the ones counted.\<close>

definition reader_ok :: "nat \<Rightarrow> body_reader \<Rightarrow> bool" where
  "reader_ok maxBytes s \<longleftrightarrow> length (concat (br_chunks s)) \<le> maxBytes \<and> (br_settled s \<longleftrightarrow> br_result s \<noteq> None) \<and>
     (\<not> br_settled s \<longrightarrow> br_total s = length (concat (br_chunks s)))"

lemma reader_ok_step: "reader_ok m s \<Longrightarrow> reader_ok m (body_step m s e)"
  by (cases e) (auto simp: reader_ok_def settle_body_def Let_def split: option.splits)

interpretation reader: step_invariant "body_step m" "reader_ok m" for m
  by unfold_locales (rule reader_ok_step)

lemma reader_ok_new: "reader_ok m body_reader_new"
  by (simp add: reader_ok_def body_reader_new_def)

lemma settled_stays: "br_settled s \<Longrightarrow> foldl (body_step m) s es = s"
proof (induction es)
  case (Cons e es)
  then show ?case by (cases e) simp_all
qed simp

lemma chunks_read:
  assumes "\<not> br_settled s" "br_total s = length (concat (br_chunks s))" "br_total s \<le> m"
  shows "foldl (body_step m) s (map Chunk cs) =
      s\<lparr>br_total := br_total s + length (concat cs), br_chunks := br_chunks s @ cs\<rparr> \<and> br_total s + length (concat cs) \<le> m
    \<or> m < br_total s + length (concat cs) \<and> br_result (foldl (body_step m) s (map Chunk cs)) = (case br_result s of None \<Rightarrow> Some TooLarge | Some x \<Rightarrow> Some x)
      \<and> br_settled (foldl (body_step m) s (map Chunk cs))"
  using assms
proof (induction cs arbitrary: s)
  case (Cons c cs)
  show ?case
  proof (cases "br_total s + length c \<le> m")
    case True
    let ?s = "s\<lparr>br_total := br_total s + length c, br_chunks := br_chunks s @ [c]\<rparr>"
    have "body_step m s (Chunk c) = ?s" using True Cons.prems(1) by (simp add: Let_def)
    then show ?thesis using Cons.IH[of ?s] Cons.prems True by (simp add: add.assoc)
  next
    case False
    then have "body_step m s (Chunk c) = settle_body TooLarge (s\<lparr>br_total := br_total s + length c, br_destroyed := True\<rparr>)"
      using Cons.prems(1) by (simp add: Let_def)
    then show ?thesis using settled_stays[of "settle_body TooLarge (s\<lparr>br_total := br_total s + length c, br_destroyed := True\<rparr>)" m "map Chunk cs"] False
      by (simp add: settle_body_def)
  qed
qed simp

text \<open>The limit on a body is exact: however its bytes are cut, a body that arrives whole is returned as it was sent if it has at most the allowed bytes, and refused if it has
  more; whatever arrives, the reader never holds more than the allowed bytes.\<close>

theorem body_limit_exact:
  "br_result (read_body maxBytes (map Chunk cs @ End # es)) = Some (if length (concat cs) \<le> maxBytes then BodyRead (concat cs) else TooLarge)
    \<and> length (concat (br_chunks (read_body maxBytes es'))) \<le> maxBytes"
proof -
  let ?s = "foldl (body_step maxBytes) body_reader_new (map Chunk cs)"
  have "?s = body_reader_new\<lparr>br_total := length (concat cs), br_chunks := cs\<rparr> \<and> length (concat cs) \<le> maxBytes
    \<or> maxBytes < length (concat cs) \<and> br_result ?s = Some TooLarge \<and> br_settled ?s"
    using chunks_read[of body_reader_new maxBytes cs] by (simp add: body_reader_new_def)
  then have "br_result (read_body maxBytes (map Chunk cs @ [End])) = Some (if length (concat cs) \<le> maxBytes then BodyRead (concat cs) else TooLarge)
    \<and> br_settled (read_body maxBytes (map Chunk cs @ [End]))"
    by (auto simp: settle_body_def body_reader_new_def)
  then have "br_result (read_body maxBytes (map Chunk cs @ End # es)) = Some (if length (concat cs) \<le> maxBytes then BodyRead (concat cs) else TooLarge)"
    using settled_stays[of "read_body maxBytes (map Chunk cs @ [End])" maxBytes es] by simp
  moreover have "reader_ok maxBytes (read_body maxBytes es')" by (rule reader.run_inv) (rule reader_ok_new)
  ultimately show ?thesis by (simp add: reader_ok_def)
qed

section \<open>The request as a handler sees it\<close>

text \<open>The handlers begin alike: a body that is too large or that failed is answered, unless the connection is gone, and the text is parsed as JSON.\<close>

datatype body = BodyTooLarge | BodyFailed | BodyGone | BodyMalformed | BodyJson jsval

definition request_body :: "(string \<Rightarrow> jsval option) \<Rightarrow> bool \<Rightarrow> body_result \<Rightarrow> body" where
  "request_body json_parse gone r = (case r of
     BodyRead t \<Rightarrow> (case json_parse t of Some v \<Rightarrow> BodyJson v | None \<Rightarrow> BodyMalformed)
   | TooLarge \<Rightarrow> if gone then BodyGone else BodyTooLarge
   | Failed \<Rightarrow> if gone then BodyGone else BodyFailed)"

end
