(* ===== verification/Discovery.thy ===== *)
theory Discovery
  imports BoundedMap UrlSafety HttpBody
begin

text \<open>
  The discovery service, a directory outside the mesh in which nodes register the address at which they can be reached
  (\<open>discovery-service/server.ts\<close>), and its client in the node (\<open>node/src/discovery-client.ts\<close>). The check of a signature against the node id, which is the public key, is
  an argument of the service; a request is what its body was read and parsed as. A signature covers exactly the four signed fields, of which
  the signed text is an injective form.
\<close>

section \<open>Registrations\<close>

record registration =
  dr_nodeId :: string
  dr_address :: string
  dr_label :: "string option"
  dr_timestamp :: rat
  dr_signature :: string

record stored_registration = registration +
  dr_verified :: bool
  dr_verifiedAt :: "time option"

type_synonym signed_fields = "string \<times> string \<times> string option \<times> rat"
type_synonym signature_check = "string \<Rightarrow> signed_fields \<Rightarrow> string \<Rightarrow> bool"

definition discoverySigningPayload :: "('a) registration_scheme \<Rightarrow> signed_fields" where
  "discoverySigningPayload r = (dr_nodeId r, dr_address r, dr_label r, dr_timestamp r)"

definition signDiscoveryRegistration :: "(signed_fields \<Rightarrow> string) \<Rightarrow> string \<Rightarrow> string \<Rightarrow> string option \<Rightarrow> rat \<Rightarrow> registration" where
  "signDiscoveryRegistration sign me address label now = \<lparr>dr_nodeId = me, dr_address = address, dr_label = label, dr_timestamp = now,
     dr_signature = sign (me, address, label, now)\<rparr>"

definition verifyDiscoveryRegistration :: "signature_check \<Rightarrow> ('a) registration_scheme \<Rightarrow> bool" where
  "verifyDiscoveryRegistration verify r = verify (dr_nodeId r) (discoverySigningPayload r) (dr_signature r)"

section \<open>Addresses\<close>

text \<open>The last colon of a text splits it; \<open>host:port\<close> needs a host of the admitted characters and one to five digits.\<close>

definition at_last_colon :: "string \<Rightarrow> (string \<times> string) option" where
  "at_last_colon s = (case dropWhile (\<lambda>c. c \<noteq> CHR '':'') (rev s) of [] \<Rightarrow> None | _ # r \<Rightarrow> Some (rev r, rev (takeWhile (\<lambda>c. c \<noteq> CHR '':'') (rev s))))"

definition host_char :: "char \<Rightarrow> bool" where
  "host_char c \<longleftrightarrow> c \<in> set ''abcdefghijklmnopqrstuvwxyzABCDEFGHIJKLMNOPQRSTUVWXYZ0123456789.-:[]''"

definition ADDRESS_PATTERN :: "string \<Rightarrow> bool" where
  "ADDRESS_PATTERN s = (case at_last_colon s of
     Some (host, port) \<Rightarrow> host \<noteq> [] \<and> list_all host_char host \<and> 1 \<le> length port \<and> length port \<le> 5 \<and> list_all (\<lambda>c. decimal_digit c \<noteq> None) port
   | None \<Rightarrow> False)"

fun at_bracket_colon :: "string \<Rightarrow> (string \<times> string) option" where
  "at_bracket_colon (c # d # r) = (if c = CHR '']'' \<and> d = CHR '':'' then Some ([], r)
     else map_option (\<lambda>(host, port). (c # host, port)) (at_bracket_colon (d # r)))"
| "at_bracket_colon _ = None"

text \<open>\<open>Number()\<close> is an argument: the text after the colon is not checked by this function.\<close>

datatype address_error = MalformedIpv6 string | NoPort string

definition parseDiscoveryAddress :: "(string \<Rightarrow> jsnum) \<Rightarrow> string \<Rightarrow> address_error + string \<times> jsnum" where
  "parseDiscoveryAddress number address =
    (if take 1 address = ''['' then
       (case at_bracket_colon address of None \<Rightarrow> Inl (MalformedIpv6 address) | Some (host, port) \<Rightarrow> Inr (tl host, number port))
     else (case at_last_colon address of None \<Rightarrow> Inl (NoPort address) | Some (host, port) \<Rightarrow> Inr (host, number port)))"

section \<open>The service\<close>

definition MAX_LABEL_LENGTH :: nat where "MAX_LABEL_LENGTH = 100"
definition DEFAULT_MAX_REGISTRATIONS :: rat where "DEFAULT_MAX_REGISTRATIONS = 10000"

record discovery =
  ds_adminPassword :: "string option"
  ds_registrations :: "(string, stored_registration) bounded_map"

definition discovery_new :: "string option \<Rightarrow> jsnum option \<Rightarrow> discovery" where
  "discovery_new password maxRegistrations = \<lparr>ds_adminPassword = password,
     ds_registrations = bm_new (Some (case maxRegistrations of Some n \<Rightarrow> n | None \<Rightarrow> Num DEFAULT_MAX_REGISTRATIONS))\<rparr>"

text \<open>The status of the answer, \<open>None\<close> if the connection is gone.\<close>

type_synonym status = "nat option"

definition non_empty :: "jsval \<Rightarrow> string option" where
  "non_empty v = (case v of JString s \<Rightarrow> if s = [] then None else Some s | _ \<Rightarrow> None)"

definition read_registration :: "jsval \<Rightarrow> registration option" where
  "read_registration v = do {
     i \<leftarrow> non_empty (jfield v ''nodeId'');
     a \<leftarrow> as_string (jfield v ''address'');
     require (ADDRESS_PATTERN a);
     l \<leftarrow> optional (bounded_string MAX_LABEL_LENGTH) (jfield v ''label'');
     t \<leftarrow> as_finite (jfield v ''timestamp'');
     s \<leftarrow> non_empty (jfield v ''signature'');
     Some \<lparr>dr_nodeId = i, dr_address = a, dr_label = l, dr_timestamp = t, dr_signature = s\<rparr> }"

definition store_registration :: "registration \<Rightarrow> discovery \<Rightarrow> discovery" where
  "store_registration r d =
    (let existing = bm_get (ds_registrations d) (dr_nodeId r);
         keeps = (case existing of Some e \<Rightarrow> dr_verified e \<and> dr_label e = dr_label r | None \<Rightarrow> False);
         entry = registration.extend r \<lparr>dr_verified = keeps, dr_verifiedAt = (if keeps then existing \<bind> dr_verifiedAt else None)\<rparr>
     in d\<lparr>ds_registrations := bm_put None (dr_nodeId r) entry (ds_registrations d)\<rparr>)"

definition handleRegister :: "signature_check \<Rightarrow> body \<Rightarrow> discovery \<Rightarrow> status \<times> discovery" where
  "handleRegister verify b d = (case b of
     BodyTooLarge \<Rightarrow> (Some 413, d) | BodyFailed \<Rightarrow> (Some 400, d) | BodyGone \<Rightarrow> (None, d) | BodyMalformed \<Rightarrow> (Some 400, d)
   | BodyJson v \<Rightarrow> (case read_registration v of
       None \<Rightarrow> (Some 400, d)
     | Some r \<Rightarrow>
         if \<not> verifyDiscoveryRegistration verify r then (Some 401, d)
         else (case bm_get (ds_registrations d) (dr_nodeId r) of
             Some e \<Rightarrow> if dr_timestamp e \<ge> dr_timestamp r then (Some 409, d) else (Some 200, store_registration r d)
           | None \<Rightarrow> (Some 200, store_registration r d))))"

definition handleLookup :: "discovery \<Rightarrow> string \<Rightarrow> string option" where
  "handleLookup d i = map_option dr_address (bm_get (ds_registrations d) i)"

definition handleDirectory :: "discovery \<Rightarrow> (string \<times> string \<times> bool) list" where
  "handleDirectory d = List.map_filter (\<lambda>e. case dr_label e of Some l \<Rightarrow> Some (dr_nodeId e, l, dr_verified e) | None \<Rightarrow> None) (bm_values (ds_registrations d))"

text \<open>The header is compared with the expected one byte by byte, in constant time.\<close>

definition authorised_admin :: "string option \<Rightarrow> string \<Rightarrow> bool" where
  "authorised_admin header password \<longleftrightarrow> header = Some (''Bearer '' @ password)"

definition handleAdminVerify :: "string option \<Rightarrow> body \<Rightarrow> time \<Rightarrow> discovery \<Rightarrow> status \<times> discovery" where
  "handleAdminVerify header b now d = (case ds_adminPassword d of
     None \<Rightarrow> (Some 404, d)
   | Some password \<Rightarrow>
       if password = [] then (Some 404, d)
       else if \<not> authorised_admin header password then (Some 401, d)
       else (case b of
           BodyTooLarge \<Rightarrow> (Some 413, d) | BodyFailed \<Rightarrow> (Some 400, d) | BodyGone \<Rightarrow> (None, d) | BodyMalformed \<Rightarrow> (Some 400, d)
         | BodyJson v \<Rightarrow> (case (non_empty (jfield v ''nodeId''), as_bool (jfield v ''verified'')) of
             (Some i, Some flag) \<Rightarrow> (case bm_get (ds_registrations d) i of
                 None \<Rightarrow> (Some 404, d)
               | Some e \<Rightarrow> (Some 200, d\<lparr>ds_registrations :=
                     bm_write i (e\<lparr>dr_verified := flag, dr_verifiedAt := (if flag then Some now else None)\<rparr>) (ds_registrations d)\<rparr>))
           | _ \<Rightarrow> (Some 400, d))))"

datatype discovery_op = Register body | AdminVerify "string option" body time

definition discovery_step :: "signature_check \<Rightarrow> discovery \<Rightarrow> discovery_op \<Rightarrow> discovery" where
  "discovery_step verify d a = (case a of Register b \<Rightarrow> snd (handleRegister verify b d) | AdminVerify h b now \<Rightarrow> snd (handleAdminVerify h b now d))"

section \<open>The client\<close>

text \<open>The answers of the service as the client sees them: nothing but a thrown error if it cannot be reached, otherwise the status and the parsed body.\<close>

datatype client_error = Unreachable | ServiceError nat | BadAnswer

definition ok_status :: "nat \<Rightarrow> bool" where
  "ok_status s \<longleftrightarrow> 200 \<le> s \<and> s < 300"

definition lookupPeerAddress :: "(nat \<times> jsval option) option \<Rightarrow> client_error + string option" where
  "lookupPeerAddress res = (case res of
     None \<Rightarrow> Inl Unreachable
   | Some (s, b) \<Rightarrow>
       if s = 404 then Inr None
       else if \<not> ok_status s then Inl (ServiceError s)
       else (case b of None \<Rightarrow> Inl BadAnswer | Some v \<Rightarrow> (case jfield v ''address'' of JString a \<Rightarrow> Inr (Some a) | _ \<Rightarrow> Inl BadAnswer)))"

definition postDiscoveryRegistration :: "nat option \<Rightarrow> client_error + unit" where
  "postDiscoveryRegistration res = (case res of None \<Rightarrow> Inl Unreachable | Some s \<Rightarrow> if ok_status s then Inr () else Inl (ServiceError s))"

definition directory_item :: "jsval \<Rightarrow> (string \<times> string \<times> bool) option" where
  "directory_item v = do {
     require (is_object v);
     i \<leftarrow> as_string (jfield v ''nodeId''); l \<leftarrow> as_string (jfield v ''label''); f \<leftarrow> as_bool (jfield v ''verified'');
     Some (i, l, f) }"

definition fetchDiscoveryDirectory :: "(nat \<times> jsval option) option \<Rightarrow> client_error + (string \<times> string \<times> bool) list" where
  "fetchDiscoveryDirectory res = (case res of
     None \<Rightarrow> Inl Unreachable
   | Some (s, b) \<Rightarrow>
       if \<not> ok_status s then Inl (ServiceError s)
       else (case b of None \<Rightarrow> Inl BadAnswer | Some (JArray vs) \<Rightarrow> Inr (List.map_filter directory_item vs) | Some v \<Rightarrow> Inr []))"

text \<open>What the node does with them. An empty address or service URL counts as none.\<close>

datatype discover_error = NotConfigured | Client client_error | UnknownNode | Address address_error

definition given :: "string option \<Rightarrow> string option" where
  "given s = (if s = Some [] then None else s)"

definition connectToDiscoveredPeer :: "(string \<Rightarrow> jsnum) \<Rightarrow> string option \<Rightarrow> (nat \<times> jsval option) option \<Rightarrow> discover_error + string \<times> jsnum" where
  "connectToDiscoveredPeer number serviceUrl res =
    (if given serviceUrl = None then Inl NotConfigured
     else (case lookupPeerAddress res of
         Inl e \<Rightarrow> Inl (Client e)
       | Inr a \<Rightarrow> (case given a of
           None \<Rightarrow> Inl UnknownNode
         | Some address \<Rightarrow> (case parseDiscoveryAddress number address of Inl e \<Rightarrow> Inl (Address e) | Inr hp \<Rightarrow> Inr hp))))"

definition registerWithDiscoveryService ::
    "(signed_fields \<Rightarrow> string) \<Rightarrow> string \<Rightarrow> string option \<Rightarrow> string option \<Rightarrow> string option \<Rightarrow> time \<Rightarrow> registration option" where
  "registerWithDiscoveryService sign me serviceUrl address label now =
    (case (given serviceUrl, given address) of
       (Some url, Some a) \<Rightarrow> Some (signDiscoveryRegistration sign me a label now)
     | _ \<Rightarrow> None)"

section \<open>Every entry is signed\<close>

definition signed_entry :: "signature_check \<Rightarrow> string \<Rightarrow> stored_registration \<Rightarrow> bool" where
  "signed_entry verify i e \<longleftrightarrow> dr_nodeId e = i \<and> verifyDiscoveryRegistration verify e \<and> ADDRESS_PATTERN (dr_address e)"

lemma read_registration_Some:
  "read_registration v = Some r \<Longrightarrow> ADDRESS_PATTERN (dr_address r)"
  by (auto simp: read_registration_def extractor_Some)

lemma extended [simp]:
  "dr_nodeId (registration.extend r x) = dr_nodeId r" "dr_address (registration.extend r x) = dr_address r"
  "dr_label (registration.extend r x) = dr_label r" "dr_timestamp (registration.extend r x) = dr_timestamp r"
  "dr_signature (registration.extend r x) = dr_signature r"
  "dr_verified (registration.extend r \<lparr>dr_verified = f, dr_verifiedAt = g\<rparr>) = f"
  by (simp_all add: registration.defs stored_registration.defs)

lemma verify_same: "verifyDiscoveryRegistration verify (registration.extend r x) = verifyDiscoveryRegistration verify r"
  "verifyDiscoveryRegistration verify (e\<lparr>dr_verified := f, dr_verifiedAt := g\<rparr>) = verifyDiscoveryRegistration verify e"
  by (simp_all add: verifyDiscoveryRegistration_def discoverySigningPayload_def)

text \<open>The two ways in which a request changes the table.\<close>

lemma register_cases:
  assumes "handleRegister verify b d = (s, d')"
  obtains "d' = d" "s \<noteq> Some 200"
  | v r where "b = BodyJson v" "read_registration v = Some r" "verifyDiscoveryRegistration verify r" "s = Some 200" "d' = store_registration r d"
      "\<And>e. bm_get (ds_registrations d) (dr_nodeId r) = Some e \<Longrightarrow> dr_timestamp e < dr_timestamp r"
proof (cases "\<exists>v r. b = BodyJson v \<and> read_registration v = Some r \<and> verifyDiscoveryRegistration verify r \<and>
    (\<forall>e. bm_get (ds_registrations d) (dr_nodeId r) = Some e \<longrightarrow> dr_timestamp e < dr_timestamp r)")
  case True
  then obtain v r where r: "b = BodyJson v" "read_registration v = Some r" "verifyDiscoveryRegistration verify r"
    "\<And>e. bm_get (ds_registrations d) (dr_nodeId r) = Some e \<Longrightarrow> dr_timestamp e < dr_timestamp r" by blast
  have "handleRegister verify b d = (Some 200, store_registration r d)"
    using r(4) by (simp add: handleRegister_def r(1-3) split: option.split) force
  then show thesis using that(2)[OF r(1-3) _ _ r(4)] assms by simp
next
  case False
  then have "d' = d \<and> s \<noteq> Some 200"
    using assms by (cases b) (force simp: handleRegister_def split: option.splits if_splits)+
  then show thesis using that(1) by simp
qed

lemma admin_cases:
  assumes "handleAdminVerify h b now d = (s, d')"
  obtains "d' = d"
  | pw v i f e where "ds_adminPassword d = Some pw" "pw \<noteq> []" "authorised_admin h pw" "b = BodyJson v" "jfield v ''nodeId'' = JString i"
      "jfield v ''verified'' = JBool f" "bm_get (ds_registrations d) i = Some e"
      "d' = d\<lparr>ds_registrations := bm_write i (e\<lparr>dr_verified := f, dr_verifiedAt := (if f then Some now else None)\<rparr>) (ds_registrations d)\<rparr>"
proof (cases "\<exists>pw v i f e. ds_adminPassword d = Some pw \<and> pw \<noteq> [] \<and> authorised_admin h pw \<and> b = BodyJson v \<and> non_empty (jfield v ''nodeId'') = Some i \<and>
    as_bool (jfield v ''verified'') = Some f \<and> bm_get (ds_registrations d) i = Some e")
  case True
  then obtain pw v i f e where r: "ds_adminPassword d = Some pw" "pw \<noteq> []" "authorised_admin h pw" "b = BodyJson v" "non_empty (jfield v ''nodeId'') = Some i"
    "as_bool (jfield v ''verified'') = Some f" "bm_get (ds_registrations d) i = Some e" by blast
  from r(5) have i: "jfield v ''nodeId'' = JString i" by (simp add: non_empty_def split: jsval.splits if_splits)
  from r(6) have f: "jfield v ''verified'' = JBool f" by (simp add: as_bool_Some)
  show thesis using that(2)[OF r(1-4) i f r(7)] assms by (simp add: handleAdminVerify_def r)
next
  case False
  then have "d' = d" using assms by (auto simp: handleAdminVerify_def split: option.splits if_splits body.splits)
  then show thesis by (rule that(1))
qed

lemma step_password [simp]: "ds_adminPassword (discovery_step verify d a) = ds_adminPassword d"
proof (cases a)
  case (Register b)
  obtain s d' where "handleRegister verify b d = (s, d')" by fastforce
  then show ?thesis using Register by (auto simp: discovery_step_def store_registration_def Let_def elim: register_cases)
next
  case (AdminVerify h b now)
  obtain s d' where "handleAdminVerify h b now d = (s, d')" by fastforce
  then show ?thesis using AdminVerify by (auto simp: discovery_step_def elim: admin_cases)
qed

lemma step_signed:
  assumes "bm_all (signed_entry verify) (ds_registrations d)"
  shows "bm_all (signed_entry verify) (ds_registrations (discovery_step verify d a))"
proof (cases a)
  case (Register b)
  obtain s d' where r: "handleRegister verify b d = (s, d')" by fastforce
  from r show ?thesis
  proof (cases rule: register_cases)
    case (2 v r')
    then show ?thesis using Register r assms
      by (auto simp: discovery_step_def store_registration_def Let_def signed_entry_def verify_same intro!: bm_all_put dest: read_registration_Some)
  qed (use Register r assms in \<open>simp add: discovery_step_def\<close>)
next
  case (AdminVerify h b now)
  obtain s d' where r: "handleAdminVerify h b now d = (s, d')" by fastforce
  from r show ?thesis
  proof (cases rule: admin_cases)
    case (2 pw v i f e)
    have "signed_entry verify i e" using assms 2(7) by (rule bm_all_get)
    then show ?thesis using AdminVerify r assms 2(7,8)
      by (auto simp: discovery_step_def signed_entry_def verify_same intro!: bm_all_write)
  qed (use AdminVerify r assms in \<open>simp add: discovery_step_def\<close>)
qed

interpretation disc: step_invariant "discovery_step verify" "\<lambda>d. bm_all (signed_entry verify) (ds_registrations d)" for verify
  by unfold_locales (rule step_signed)

abbreviation discovery_run :: "signature_check \<Rightarrow> string option \<Rightarrow> jsnum option \<Rightarrow> discovery_op list \<Rightarrow> discovery" where
  "discovery_run verify password limit ops \<equiv> foldl (discovery_step verify) (discovery_new password limit) ops"

lemma run_signed: "bm_all (signed_entry verify) (ds_registrations (discovery_run verify password limit ops))"
  by (rule disc.run_inv) (simp add: discovery_new_def)

text \<open>An address that the service gives out for a node was signed by that node, with the label under which the directory lists it, whatever requests were made.\<close>

theorem lookup_is_signed:
  assumes "handleLookup (discovery_run verify password limit ops) i = Some a"
  shows "\<exists>l t s. verify i (i, a, l, t) s \<and> ADDRESS_PATTERN a \<and>
    (\<forall>l' f. (i, l', f) \<in> set (handleDirectory (discovery_run verify password limit ops)) \<longrightarrow> l = Some l')"
proof -
  let ?m = "ds_registrations (discovery_run verify password limit ops)"
  obtain e where e: "bm_get ?m i = Some e" "dr_address e = a" using assms by (auto simp: handleLookup_def)
  have s: "dr_nodeId e = i" "verifyDiscoveryRegistration verify e" "ADDRESS_PATTERN a"
    using bm_all_get[OF run_signed e(1)] e(2) by (simp_all add: signed_entry_def)
  have "dr_label e = Some l'" if "(i, l', f) \<in> set (handleDirectory (discovery_run verify password limit ops))" for l' f
  proof -
    from that obtain e' where "e' \<in> set (bm_values ?m)" "dr_nodeId e' = i" "dr_label e' = Some l'"
      by (auto simp: handleDirectory_def List.map_filter_def split: option.splits)
    then show ?thesis using bm_all_values[OF run_signed] e(1) by (fastforce simp: signed_entry_def)
  qed
  with s e(2) show ?thesis unfolding verifyDiscoveryRegistration_def discoverySigningPayload_def by auto
qed

section \<open>Who can verify an entry\<close>

text \<open>The requests \<open>pre\<close> were followed by the administrator's verification of the node \<open>i\<close>, whose entry had then the label \<open>l\<close>.\<close>

definition vouched :: "signature_check \<Rightarrow> string option \<Rightarrow> jsnum option \<Rightarrow> discovery_op list \<Rightarrow> string \<Rightarrow> string option \<Rightarrow> bool" where
  "vouched verify password limit ops i l \<longleftrightarrow> (\<exists>pre h v now post pw e.
     ops = pre @ AdminVerify h (BodyJson v) now # post \<and> password = Some pw \<and> pw \<noteq> [] \<and> authorised_admin h pw \<and>
     jfield v ''nodeId'' = JString i \<and> jfield v ''verified'' = JBool True \<and>
     bm_get (ds_registrations (discovery_run verify password limit pre)) i = Some e \<and> dr_label e = l)"

lemma vouched_more: "vouched verify password limit ops i l \<Longrightarrow> vouched verify password limit (ops @ [a]) i l"
  unfolding vouched_def by fastforce

lemma run_password [simp]: "ds_adminPassword (discovery_run verify password limit ops) = password"
  by (induction ops rule: rev_induct) (simp_all add: discovery_new_def)

lemma verified_entry_vouched:
  "bm_get (ds_registrations (discovery_run verify password limit ops)) i = Some e \<Longrightarrow> dr_verified e \<Longrightarrow>
    vouched verify password limit ops i (dr_label e)"
proof (induction ops arbitrary: e rule: rev_induct)
  case Nil
  then show ?case by (simp add: discovery_new_def)
next
  case (snoc a ops)
  let ?d = "discovery_run verify password limit ops"
  have new: "bm_get (ds_registrations (discovery_step verify ?d a)) i = Some e" using snoc.prems(1) by simp
  show ?case
  proof (cases "bm_get (ds_registrations ?d) i = Some e")
    case True
    then show ?thesis using snoc.IH snoc.prems(2) by (blast intro: vouched_more)
  next
    case False
    show ?thesis
    proof (cases a)
      case (Register b)
      obtain s d' where r: "handleRegister verify b ?d = (s, d')" by fastforce
      from r show ?thesis
      proof (cases rule: register_cases)
        case (2 v r')
        let ?keeps = "case bm_get (ds_registrations ?d) (dr_nodeId r') of Some e \<Rightarrow> dr_verified e \<and> dr_label e = dr_label r' | None \<Rightarrow> False"
        have i: "i = dr_nodeId r' \<and> dr_verified e = ?keeps \<and> dr_label e = dr_label r'"
          using new False r 2(5) Register by (auto simp: discovery_step_def store_registration_def Let_def dest!: bm_set_frame)
        then obtain e' where "bm_get (ds_registrations ?d) i = Some e'" "dr_verified e'" "dr_label e' = dr_label e"
          using snoc.prems(2) by (auto split: option.splits)
        from snoc.IH[OF this(1,2)] this(3) show ?thesis using vouched_more by simp
      qed (use Register r new False in \<open>simp add: discovery_step_def\<close>)
    next
      case (AdminVerify h b now)
      obtain s d' where r: "handleAdminVerify h b now ?d = (s, d')" by fastforce
      from r show ?thesis
      proof (cases rule: admin_cases)
        case (2 pw v j f e0)
        have e: "i = j \<and> dr_verified e = f \<and> dr_label e = dr_label e0"
          using new False r 2(8) AdminVerify by (auto simp: discovery_step_def split: if_splits)
        have "vouched verify password limit (ops @ [AdminVerify h (BodyJson v) now]) i (dr_label e0)"
          unfolding vouched_def using 2(1-7) e snoc.prems(2) by (intro exI[of _ ops] exI[of _ h] exI[of _ v]) auto
        then show ?thesis using e AdminVerify 2(4) by simp
      qed (use AdminVerify r new False in \<open>simp add: discovery_step_def\<close>)
    qed
  qed
qed

text \<open>C27: An entry of the public directory is marked as verified only if the administrator, with the password, verified this node while its entry had exactly the label it is
  listed under: no registration, by its owner or anyone else, obtains the mark or carries it over to another label.\<close>

theorem verified_only_by_admin:
  assumes "(i, l, True) \<in> set (handleDirectory (discovery_run verify password limit ops))"
  shows "vouched verify password limit ops i (Some l)"
proof -
  let ?m = "ds_registrations (discovery_run verify password limit ops)"
  from assms obtain e where e: "e \<in> set (bm_values ?m)" "dr_nodeId e = i" "dr_label e = Some l" "dr_verified e"
    by (auto simp: handleDirectory_def List.map_filter_def split: option.splits)
  then have "bm_get ?m i = Some e" using bm_all_values[OF run_signed e(1)] by (auto simp: signed_entry_def)
  from verified_entry_vouched[OF this e(4)] e(3) show ?thesis by simp
qed

definition registration_json :: "string \<Rightarrow> string \<Rightarrow> string \<Rightarrow> rat \<Rightarrow> jsval" where
  "registration_json i a l t = JObject [(''nodeId'', JString i), (''address'', JString a), (''label'', JString l), (''timestamp'', JNumber (Num t)), (''signature'', JString ''sig'')]"

lemma verified_only_by_admin_witness:
  "vouched (\<lambda>i f s. True) (Some ''pw'') None [Register (BodyJson (registration_json ''n'' ''h:1'' ''Rifugio'' 1)),
     AdminVerify (Some ''Bearer pw'') (BodyJson (JObject [(''nodeId'', JString ''n''), (''verified'', JBool True)])) 2] ''n'' (Some ''Rifugio'')"
  by (rule verified_only_by_admin) code_simp

abbreviation sample_check :: signature_check where "sample_check \<equiv> \<lambda>i f s. s = ''sig''"

lemma lookup_is_signed_witness:
  "\<exists>l t s. sample_check ''n'' (''n'', ''h:1'', l, t) s \<and> ADDRESS_PATTERN ''h:1'' \<and>
    (\<forall>l' f. (''n'', l', f) \<in> set (handleDirectory (discovery_run sample_check None None [Register (BodyJson (registration_json ''n'' ''h:1'' ''Rifugio'' 1))])) \<longrightarrow> l = Some l')"
proof -
  have "handleLookup (discovery_run sample_check None None [Register (BodyJson (registration_json ''n'' ''h:1'' ''Rifugio'' 1))]) ''n'' = Some ''h:1''"
    by code_simp
  then show ?thesis by (rule lookup_is_signed)
qed

section \<open>Replays\<close>

text \<open>The registrations that are due to be accepted: well formed and signed.\<close>

definition genuine :: "signature_check \<Rightarrow> jsval \<Rightarrow> registration \<Rightarrow> bool" where
  "genuine verify v r \<longleftrightarrow> read_registration v = Some r \<and> verifyDiscoveryRegistration verify r"

abbreviation registered :: "signature_check \<Rightarrow> jsval \<Rightarrow> discovery \<Rightarrow> nat option \<times> discovery" where
  "registered verify v d \<equiv> handleRegister verify (BodyJson v) d"

lemma register_genuine:
  assumes "genuine verify v r"
  shows "registered verify v d = (case bm_get (ds_registrations d) (dr_nodeId r) of
      Some e \<Rightarrow> if dr_timestamp r \<le> dr_timestamp e then (Some 409, d) else (Some 200, store_registration r d)
    | None \<Rightarrow> (Some 200, store_registration r d))"
  using assms by (simp add: genuine_def handleRegister_def)

lemma store_registrations: "\<exists>e. ds_registrations (store_registration r d) = bm_put None (dr_nodeId r) e (ds_registrations d) \<and>
    dr_address e = dr_address r \<and> dr_timestamp e = dr_timestamp r \<and> dr_nodeId e = dr_nodeId r"
  by (auto simp: store_registration_def Let_def)

text \<open>A map of \<open>n\<close> places that takes one new key after the other, and evicts the oldest when it is full.\<close>

lemma fifo_put:
  assumes "bm_max m = Num (of_nat n)" "0 < n" "bm_ok m" "k \<notin> fst ` set (bm_map m)"
  shows "bm_map (bm_put None k v m) = (if length (bm_map m) < n then bm_map m else tl (bm_map m)) @ [(k, v)]"
proof -
  have none: "map_of (bm_map m) k = None" using assms(4) by (simp add: map_of_eq_None_iff)
  have le: "length (bm_map m) \<le> n" using assms(1,3) by (auto simp: bm_ok_def bm_size_def within_limit_nat)
  show ?thesis
  proof (cases "length (bm_map m) < n")
    case True
    then show ?thesis using assms(1,2) none by (simp add: bm_set_def bm_has_def bm_size_def Let_def map_put_new)
  next
    case False
    then obtain k0 v0 ms where m: "bm_map m = (k0, v0) # ms" using le assms(2) by (cases "bm_map m") auto
    then have "map_del k0 (bm_map m) = ms" using assms(3) by (simp add: bm_ok_def delete_notin_dom)
    moreover have "map_put k v ms = ms @ [(k, v)]" using none m by (intro map_put_new) (simp split: if_splits)
    ultimately show ?thesis using False le none m assms(1,2) by (simp add: bm_set_def bm_has_def bm_size_def Let_def pick_victim_def)
  qed
qed

lemma register_fifo:
  assumes g: "genuine verify v r" and max: "bm_max (ds_registrations d) = Num (of_nat n)" "0 < n" and ok: "bm_ok (ds_registrations d)"
    and new: "dr_nodeId r \<notin> set (bm_keys (ds_registrations d))"
  shows "fst (registered verify v d) = Some 200"
    "bm_keys (ds_registrations (snd (registered verify v d))) =
      (if length (bm_keys (ds_registrations d)) < n then bm_keys (ds_registrations d) else tl (bm_keys (ds_registrations d))) @ [dr_nodeId r]"
    "bm_max (ds_registrations (snd (registered verify v d))) = Num (of_nat n)" "bm_ok (ds_registrations (snd (registered verify v d)))"
proof -
  have none: "bm_get (ds_registrations d) (dr_nodeId r) = None" using new by (simp add: bm_get_def bm_keys_def map_of_eq_None_iff)
  have r: "registered verify v d = (Some 200, store_registration r d)" using none by (simp add: register_genuine[OF g])
  obtain e where e: "ds_registrations (store_registration r d) = bm_put None (dr_nodeId r) e (ds_registrations d)" using store_registrations by blast
  show "fst (registered verify v d) = Some 200" by (simp add: r)
  show "bm_keys (ds_registrations (snd (registered verify v d))) =
      (if length (bm_keys (ds_registrations d)) < n then bm_keys (ds_registrations d) else tl (bm_keys (ds_registrations d))) @ [dr_nodeId r]"
    using fifo_put[OF max ok, of "dr_nodeId r" e] new by (simp add: r e bm_keys_def map_tl)
  show "bm_max (ds_registrations (snd (registered verify v d))) = Num (of_nat n)" "bm_ok (ds_registrations (snd (registered verify v d)))"
    using max ok by (simp_all add: r e bm_set_ok)
qed

abbreviation register_all :: "signature_check \<Rightarrow> jsval list \<Rightarrow> discovery \<Rightarrow> discovery" where
  "register_all verify vs d \<equiv> foldl (\<lambda>d v. snd (registered verify v d)) d vs"

lemma absent_key: "bm_get m k = None \<longleftrightarrow> k \<notin> set (bm_keys m)"
  by (simp add: bm_get_def bm_keys_def map_of_eq_None_iff)

lemma flood_keys:
  assumes "list_all2 (genuine verify) vs rs" "bm_max (ds_registrations d) = Num (of_nat n)" "0 < n" "bm_ok (ds_registrations d)"
    and "distinct (bm_keys (ds_registrations d) @ map dr_nodeId rs)" "length (bm_keys (ds_registrations d)) \<le> n"
  shows "bm_keys (ds_registrations (register_all verify vs d)) =
      drop (length (bm_keys (ds_registrations d)) + length rs - n) (bm_keys (ds_registrations d) @ map dr_nodeId rs) \<and>
    bm_max (ds_registrations (register_all verify vs d)) = Num (of_nat n)"
  using assms
proof (induction arbitrary: d rule: list_all2_induct)
  case (Cons v vs r rs)
  let ?ks = "bm_keys (ds_registrations d)" and ?d = "snd (registered verify v d)"
  have f: "bm_keys (ds_registrations ?d) = (if length ?ks < n then ?ks else tl ?ks) @ [dr_nodeId r]"
    "bm_max (ds_registrations ?d) = Num (of_nat n)" "bm_ok (ds_registrations ?d)"
    using Cons.prems by (intro register_fifo[OF Cons.hyps(1)]; simp)+
  show ?case
  proof (cases "length ?ks < n")
    case True
    then show ?thesis using Cons.IH[OF f(2) Cons.prems(2) f(3)] Cons.prems(4) f(1) by simp
  next
    case False
    then obtain k ks where k: "?ks = k # ks" using Cons.prems(2) by (cases ?ks) auto
    have n: "n = Suc (length ks)" using k False Cons.prems(5) by simp
    show ?thesis using Cons.IH[OF f(2) Cons.prems(2) f(3)] Cons.prems(4) f(1) k by (simp add: n)
  qed
qed simp

lemma register_known:
  assumes "genuine verify v r" "bm_get (ds_registrations d) (dr_nodeId r) = Some e" "dr_timestamp e < dr_timestamp r"
    and "bm_max (ds_registrations d) = Num (of_nat n)" "0 < n"
  shows "bm_keys (ds_registrations (snd (registered verify v d))) = bm_keys (ds_registrations d)"
    "\<exists>e'. bm_get (ds_registrations (snd (registered verify v d))) (dr_nodeId r) = Some e' \<and> dr_timestamp e' = dr_timestamp r \<and> dr_address e' = dr_address r"
    "bm_max (ds_registrations (snd (registered verify v d))) = Num (of_nat n)"
    "bm_ok (ds_registrations d) \<Longrightarrow> bm_ok (ds_registrations (snd (registered verify v d)))"
proof -
  have r: "registered verify v d = (Some 200, store_registration r d)" using assms(2,3) by (simp add: register_genuine[OF assms(1)])
  obtain e' where e: "ds_registrations (store_registration r d) = bm_put None (dr_nodeId r) e' (ds_registrations d)"
    "dr_address e' = dr_address r" "dr_timestamp e' = dr_timestamp r" using store_registrations by blast
  show "bm_keys (ds_registrations (snd (registered verify v d))) = bm_keys (ds_registrations d)"
    using assms(2,4,5) by (simp add: r e(1) bm_set_def bm_has_def bm_keys_def bm_get_def Let_def map_put_keys_old)
  show "\<exists>e'. bm_get (ds_registrations (snd (registered verify v d))) (dr_nodeId r) = Some e' \<and> dr_timestamp e' = dr_timestamp r \<and> dr_address e' = dr_address r"
    using assms(4,5) e by (simp add: r bm_set_get_same)
  show "bm_max (ds_registrations (snd (registered verify v d))) = Num (of_nat n)" using assms(4) by (simp add: r e)
  show "bm_ok (ds_registrations d) \<Longrightarrow> bm_ok (ds_registrations (snd (registered verify v d)))" by (simp add: r e(1) bm_set_ok)
qed

text \<open>The protection against replays lasts as long as the entry: of a service with \<open>n\<close> places, a registration that has been superseded is refused, but after
  registrations of \<open>n\<close> other nodes, throwaway identities for instance, the captured registration is accepted again, and the service gives out the outdated address.\<close>

theorem discovery_replay_after_eviction:
  assumes old: "genuine verify v0 r0" and new: "genuine verify v1 r1" "dr_nodeId r1 = dr_nodeId r0" "dr_timestamp r0 < dr_timestamp r1"
    and others: "list_all2 (genuine verify) vs rs" "distinct (map dr_nodeId (r0 # rs))" "length rs = n" "0 < n"
    and moved: "d = register_all verify [v0, v1] (discovery_new password (Some (Num (of_nat n))))"
  shows "fst (registered verify v0 d) = Some 409 \<and>
    fst (registered verify v0 (register_all verify vs d)) = Some 200 \<and>
    handleLookup (snd (registered verify v0 (register_all verify vs d))) (dr_nodeId r0) = Some (dr_address r0)"
proof -
  let ?i = "dr_nodeId r0" and ?d0 = "discovery_new password (Some (Num (of_nat n)))"
  let ?d1 = "snd (registered verify v0 ?d0)" and ?d2 = "register_all verify vs d"
  have "bm_max (ds_registrations ?d0) = Num (of_nat n)" "bm_keys (ds_registrations ?d0) = []" "bm_ok (ds_registrations ?d0)"
    by (simp_all add: discovery_new_def bm_new_def bm_keys_def bm_ok_def bm_size_def within_limit_nat)
  then have one: "bm_keys (ds_registrations ?d1) = [?i]" "bm_max (ds_registrations ?d1) = Num (of_nat n)" "bm_ok (ds_registrations ?d1)"
    using register_fifo[OF old, of ?d0 n] others(4) by simp_all
  have "bm_get (ds_registrations ?d0) ?i = None" by (simp add: discovery_new_def)
  then have "?d1 = store_registration r0 ?d0" by (simp add: register_genuine[OF old])
  then obtain e where e: "bm_get (ds_registrations ?d1) ?i = Some e" "dr_timestamp e = dr_timestamp r0"
    using store_registrations[of r0 ?d0] others(4) by (auto simp: bm_set_get_same discovery_new_def bm_new_def)
  have d: "d = snd (registered verify v1 ?d1)" using moved by simp
  have two: "bm_keys (ds_registrations d) = [?i]" "bm_max (ds_registrations d) = Num (of_nat n)" "bm_ok (ds_registrations d)"
    "\<exists>e. bm_get (ds_registrations d) ?i = Some e \<and> dr_timestamp e = dr_timestamp r1"
    unfolding d using register_known[OF new(1), of ?d1 e n] e new(2,3) one others(4) by auto
  then have refused: "fst (registered verify v0 d) = Some 409" using new(3) by (auto simp: register_genuine[OF old])
  have full: "bm_keys (ds_registrations ?d2) = map dr_nodeId rs" "bm_max (ds_registrations ?d2) = Num (of_nat n)"
    using flood_keys[OF others(1) two(2) others(4) two(3)] two(1) others by simp_all
  have three: "bm_get (ds_registrations ?d2) ?i = None"
    using others(2) unfolding absent_key full(1) by simp
  have again: "registered verify v0 ?d2 = (Some 200, store_registration r0 ?d2)" by (simp add: register_genuine[OF old] three)
  have "handleLookup (store_registration r0 ?d2) ?i = Some (dr_address r0)"
    using store_registrations[of r0 ?d2] full(2) others(4) by (auto simp: handleLookup_def bm_set_get_same)
  with refused again show ?thesis by simp
qed

lemma genuine_sample:
  "genuine sample_check (registration_json ''n'' ''h:1'' ''x'' 1) \<lparr>dr_nodeId = ''n'', dr_address = ''h:1'', dr_label = Some ''x'', dr_timestamp = 1, dr_signature = ''sig''\<rparr>"
  "genuine sample_check (registration_json ''n'' ''k:1'' ''x'' 2) \<lparr>dr_nodeId = ''n'', dr_address = ''k:1'', dr_label = Some ''x'', dr_timestamp = 2, dr_signature = ''sig''\<rparr>"
  "genuine sample_check (registration_json ''m'' ''k:1'' ''x'' 2) \<lparr>dr_nodeId = ''m'', dr_address = ''k:1'', dr_label = Some ''x'', dr_timestamp = 2, dr_signature = ''sig''\<rparr>"
  by code_simp+

lemma discovery_replay_after_eviction_witness:
  "handleLookup (snd (registered sample_check (registration_json ''n'' ''h:1'' ''x'' 1) (register_all sample_check
     [registration_json ''n'' ''h:1'' ''x'' 1, registration_json ''n'' ''k:1'' ''x'' 2, registration_json ''m'' ''k:1'' ''x'' 2]
     (discovery_new None (Some (Num (of_nat 1))))))) ''n'' = Some ''h:1''"
proof -
  let ?m = "\<lparr>dr_nodeId = ''m'', dr_address = ''k:1'', dr_label = Some ''x'', dr_timestamp = 2, dr_signature = ''sig''\<rparr>"
  have "list_all2 (genuine sample_check) [registration_json ''m'' ''k:1'' ''x'' 2] [?m]" using genuine_sample(3) by simp
  from discovery_replay_after_eviction[OF genuine_sample(1,2) _ _ this, of 1 _ None] show ?thesis by simp
qed

section \<open>Addresses survive\<close>

lemma until_colon:
  assumes "\<forall>c \<in> set xs. c \<noteq> x"
  shows "dropWhile (\<lambda>c. c \<noteq> x) (xs @ x # ys) = x # ys" "takeWhile (\<lambda>c. c \<noteq> x) (xs @ x # ys) = xs"
  using assms by (induction xs) auto

lemma last_colon_spec:
  assumes "CHR '':'' \<notin> set p"
  shows "at_last_colon (h @ '':'' @ p) = Some (h, p)"
proof -
  have p: "\<forall>c \<in> set (rev p). c \<noteq> CHR '':''" using assms by auto
  have r: "rev (h @ '':'' @ p) = rev p @ CHR '':'' # rev h" by simp
  show ?thesis unfolding at_last_colon_def r until_colon[OF p] by simp
qed

lemma bracket_colon_spec: "CHR '']'' \<notin> set h \<Longrightarrow> at_bracket_colon (h @ CHR '']'' # CHR '':'' # p) = Some (h, p)"
proof (induction h)
  case (Cons c h)
  then show ?case by (cases h) auto
qed simp

text \<open>The client reads an address as the registration wrote it: a host, with or without colons in it, or an IPv6 address in brackets, and a port.\<close>

theorem address_read_back:
  assumes "\<And>n. number (dec_text n) = Num (of_nat n)"
  shows "CHR '']'' \<notin> set h \<Longrightarrow> parseDiscoveryAddress number (CHR ''['' # h @ CHR '']'' # CHR '':'' # dec_text port) = Inr (h, Num (of_nat port))"
    and "take 1 (h @ '':'') \<noteq> ''['' \<Longrightarrow> parseDiscoveryAddress number (h @ '':'' @ dec_text port) = Inr (h, Num (of_nat port))"
proof -
  show "CHR '']'' \<notin> set h \<Longrightarrow> parseDiscoveryAddress number (CHR ''['' # h @ CHR '']'' # CHR '':'' # dec_text port) = Inr (h, Num (of_nat port))"
    using bracket_colon_spec[of "CHR ''['' # h"] assms by (simp add: parseDiscoveryAddress_def)
  show "take 1 (h @ '':'') \<noteq> ''['' \<Longrightarrow> parseDiscoveryAddress number (h @ '':'' @ dec_text port) = Inr (h, Num (of_nat port))"
    using last_colon_spec[of "dec_text port" h] dec_text_plain assms by (cases h) (simp_all add: parseDiscoveryAddress_def)
qed

text \<open>Each registration the service accepts has an address the client can at least split, so that the client never fails on it with a malformed address.\<close>

lemma accepted_address_parses: "ADDRESS_PATTERN a \<Longrightarrow> take 1 a \<noteq> ''['' \<Longrightarrow> \<exists>hp. parseDiscoveryAddress number a = Inr hp"
  by (auto simp: ADDRESS_PATTERN_def parseDiscoveryAddress_def split: option.splits)

lemma address_read_back_witness:
  "parseDiscoveryAddress (\<lambda>s. Num (of_nat (decimal_value 0 s))) ''[::1]:80'' = Inr (''::1'', Num 80)"
proof -
  have "dec_text 80 = ''80''" by (simp add: dec_text.simps)
  then show ?thesis using address_read_back(1)[of "\<lambda>s. Num (of_nat (decimal_value 0 s))" "''::1''" 80] by (simp add: dec_text_value)
qed

end
