(* ===== verification/PhoneRadio.thy ===== *)
theory PhoneRadio
  imports Prelude
begin

text \<open>
  The roles of the telephone's Bluetooth radio (\<open>mobile/www/ble-role-manager.js\<close>): it rests as peripheral and becomes central, for a bounded
  number of timed attempts, when something is to be sent. The radio and the runtime are callbacks and timers: a callback that is invoked is an
  entry of \<open>rm_calls\<close>, a timer that is armed an entry of \<open>rm_pending\<close>, and its firing an event with the time and the random number it sees.
  The callbacks start radio operations and return; they do not call the manager before that. Below, the queue that runs radio operations one
  at a time (\<open>mobile/www/ble-serial-queue.js\<close>).
\<close>

section \<open>The role manager\<close>

definition DEFAULT_CENTRAL_WINDOW_MS :: rat where "DEFAULT_CENTRAL_WINDOW_MS = 9000"
definition DEFAULT_MIN_BACKOFF_MS :: rat where "DEFAULT_MIN_BACKOFF_MS = 30000"
definition DEFAULT_MAX_BACKOFF_MS :: rat where "DEFAULT_MAX_BACKOFF_MS = 45000"
definition DEFAULT_MAX_ATTEMPTS :: rat where "DEFAULT_MAX_ATTEMPTS = 4"
definition DEFAULT_MAX_CYCLE_DURATION_MS :: rat where "DEFAULT_MAX_CYCLE_DURATION_MS = 3 * 60 * 1000"

datatype role = Peripheral | Central
datatype alarm = WindowOver nat | BackoffOver nat
datatype radio_call = EnterCentral | EnterPeripheral | GiveUp

record role_options =
  ro_centralWindowMs :: rat
  ro_minBackoffMs :: rat
  ro_maxBackoffMs :: rat
  ro_maxAttempts :: rat
  ro_maxCycleDurationMs :: rat

definition default_options :: role_options where
  "default_options = \<lparr>ro_centralWindowMs = DEFAULT_CENTRAL_WINDOW_MS, ro_minBackoffMs = DEFAULT_MIN_BACKOFF_MS, ro_maxBackoffMs = DEFAULT_MAX_BACKOFF_MS,
     ro_maxAttempts = DEFAULT_MAX_ATTEMPTS, ro_maxCycleDurationMs = DEFAULT_MAX_CYCLE_DURATION_MS\<rparr>"

text \<open>A pending timer is its handle, what it does and its delay.\<close>

record role_manager =
  rm_role :: role
  rm_sessionId :: nat
  rm_attempt :: nat
  rm_cycleStartedAt :: "time option"
  rm_timer :: "nat option"
  rm_started :: bool
  rm_pending :: "(nat \<times> alarm \<times> rat) list"
  rm_handles :: nat
  rm_calls :: "radio_call list"

definition role_manager_new :: role_manager where
  "role_manager_new = \<lparr>rm_role = Peripheral, rm_sessionId = 0, rm_attempt = 0, rm_cycleStartedAt = None, rm_timer = None, rm_started = False,
     rm_pending = [], rm_handles = 0, rm_calls = []\<rparr>"

definition invoke :: "radio_call \<Rightarrow> role_manager \<Rightarrow> role_manager" where
  "invoke c m = m\<lparr>rm_calls := rm_calls m @ [c]\<rparr>"

definition set_timer :: "alarm \<Rightarrow> rat \<Rightarrow> role_manager \<Rightarrow> role_manager" where
  "set_timer a delay m = m\<lparr>rm_timer := Some (rm_handles m), rm_pending := rm_pending m @ [(rm_handles m, a, delay)], rm_handles := rm_handles m + 1\<rparr>"

definition clear_timer :: "role_manager \<Rightarrow> role_manager" where
  "clear_timer m = (case rm_timer m of
     Some h \<Rightarrow> m\<lparr>rm_timer := None, rm_pending := filter (\<lambda>t. fst t \<noteq> h) (rm_pending m)\<rparr> | None \<Rightarrow> m)"

definition role_start :: "role_manager \<Rightarrow> role_manager" where
  "role_start m = (if rm_started m then m
     else invoke EnterPeripheral (m\<lparr>rm_started := True, rm_sessionId := rm_sessionId m + 1, rm_role := Peripheral\<rparr>))"

definition role_stop :: "role_manager \<Rightarrow> role_manager" where
  "role_stop m = (clear_timer (m\<lparr>rm_started := False, rm_sessionId := rm_sessionId m + 1\<rparr>))\<lparr>rm_attempt := 0, rm_cycleStartedAt := None\<rparr>"

definition tryCentral :: "role_options \<Rightarrow> role_manager \<Rightarrow> role_manager" where
  "tryCentral opts m = invoke EnterCentral
     (set_timer (WindowOver (rm_sessionId m)) (ro_centralWindowMs opts) (m\<lparr>rm_attempt := rm_attempt m + 1, rm_role := Central\<rparr>))"

definition beginCycle :: "role_options \<Rightarrow> time \<Rightarrow> role_manager \<Rightarrow> role_manager" where
  "beginCycle opts now m = tryCentral opts (m\<lparr>rm_attempt := 0, rm_cycleStartedAt := Some now\<rparr>)"

definition requestSend :: "role_options \<Rightarrow> time \<Rightarrow> role_manager \<Rightarrow> role_manager" where
  "requestSend opts now m =
    (if \<not> rm_started m then m
     else if rm_role m = Central \<or> rm_cycleStartedAt m \<noteq> None then m
     else beginCycle opts now m)"

definition notifyPeerConnected :: "role_manager \<Rightarrow> role_manager" where
  "notifyPeerConnected m =
    (if \<not> rm_started m then m
     else if rm_role m \<noteq> Central then m
     else invoke EnterPeripheral ((clear_timer m)\<lparr>rm_attempt := 0, rm_cycleStartedAt := None, rm_role := Peripheral\<rparr>))"

text \<open>The budget of a cycle: a start time of \<open>null\<close> counts as zero in the subtraction.\<close>

definition budgetExhausted :: "role_options \<Rightarrow> time \<Rightarrow> role_manager \<Rightarrow> bool" where
  "budgetExhausted opts now m \<longleftrightarrow> of_nat (rm_attempt m) \<ge> ro_maxAttempts opts \<or>
     now - (case rm_cycleStartedAt m of Some t \<Rightarrow> t | None \<Rightarrow> 0) \<ge> ro_maxCycleDurationMs opts"

definition handleWindowExpired :: "role_options \<Rightarrow> time \<Rightarrow> rat \<Rightarrow> nat \<Rightarrow> role_manager \<Rightarrow> role_manager" where
  "handleWindowExpired opts now random sessionId m =
    (if sessionId \<noteq> rm_sessionId m then m
     else let rested = invoke EnterPeripheral (m\<lparr>rm_timer := None, rm_role := Peripheral\<rparr>)
       in if budgetExhausted opts now m then invoke GiveUp (rested\<lparr>rm_attempt := 0, rm_cycleStartedAt := None\<rparr>)
          else set_timer (BackoffOver sessionId) (ro_minBackoffMs opts + random * (ro_maxBackoffMs opts - ro_minBackoffMs opts)) rested)"

definition handleBackoffOver :: "role_options \<Rightarrow> nat \<Rightarrow> role_manager \<Rightarrow> role_manager" where
  "handleBackoffOver opts sessionId m = (if sessionId \<noteq> rm_sessionId m then m else tryCentral opts (m\<lparr>rm_timer := None\<rparr>))"

text \<open>An event: a call of the application, or the firing of one of the pending timers.\<close>

datatype role_event = Start | Stop | RequestSend time | PeerConnected | Fire nat time rat

fun role_step :: "role_options \<Rightarrow> role_manager \<Rightarrow> role_event \<Rightarrow> role_manager" where
  "role_step opts m Start = role_start m"
| "role_step opts m Stop = role_stop m"
| "role_step opts m (RequestSend now) = requestSend opts now m"
| "role_step opts m PeerConnected = notifyPeerConnected m"
| "role_step opts m (Fire i now random) =
    (if i < length (rm_pending m) then
       let m' = m\<lparr>rm_pending := take i (rm_pending m) @ drop (Suc i) (rm_pending m)\<rparr> in
       (case fst (snd (rm_pending m ! i)) of
          WindowOver s \<Rightarrow> handleWindowExpired opts now random s m'
        | BackoffOver s \<Rightarrow> handleBackoffOver opts s m')
     else m)"

section \<open>The invariant\<close>

text \<open>\<open>attempt_limit\<close> is the number of attempts the budget allows, at least one.\<close>

definition attempt_limit :: "role_options \<Rightarrow> nat" where
  "attempt_limit opts = max 1 (nat \<lceil>ro_maxAttempts opts\<rceil>)"

lemma within_limit_attempts: "of_nat a < ro_maxAttempts opts \<Longrightarrow> Suc a \<le> attempt_limit opts"
  unfolding attempt_limit_def by (simp add: le_max_iff_disj) linarith

text \<open>No timer is armed twice; the one that is armed belongs to the running session, and is the one that the state waits for.\<close>

definition role_ok :: "role_options \<Rightarrow> role_manager \<Rightarrow> bool" where
  "role_ok opts m \<longleftrightarrow> (case rm_pending m of
     [] \<Rightarrow> rm_timer m = None \<and> rm_cycleStartedAt m = None \<and> rm_attempt m = 0 \<and> (rm_started m \<longrightarrow> rm_role m = Peripheral)
   | [(h, a, d)] \<Rightarrow> rm_timer m = Some h \<and> rm_started m \<and> rm_cycleStartedAt m \<noteq> None \<and> 1 \<le> rm_attempt m \<and>
       (a = WindowOver (rm_sessionId m) \<and> d = ro_centralWindowMs opts \<and> rm_role m = Central \<and> rm_attempt m \<le> attempt_limit opts \<or>
        a = BackoffOver (rm_sessionId m) \<and> rm_role m = Peripheral \<and> Suc (rm_attempt m) \<le> attempt_limit opts)
   | _ \<Rightarrow> False)"

lemmas role_defs = role_start_def role_stop_def requestSend_def notifyPeerConnected_def beginCycle_def tryCentral_def
  handleWindowExpired_def handleBackoffOver_def invoke_def set_timer_def clear_timer_def Let_def

lemma role_ok_cases:
  assumes "role_ok opts m"
  obtains (idle) "rm_pending m = []" "rm_timer m = None" "rm_cycleStartedAt m = None" "rm_attempt m = 0" "rm_started m \<Longrightarrow> rm_role m = Peripheral"
  | (window) h t where "rm_pending m = [(h, WindowOver (rm_sessionId m), ro_centralWindowMs opts)]" "rm_timer m = Some h" "rm_started m" "rm_cycleStartedAt m = Some t"
      "1 \<le> rm_attempt m" "rm_role m = Central" "rm_attempt m \<le> attempt_limit opts"
  | (backoff) h d t where "rm_pending m = [(h, BackoffOver (rm_sessionId m), d)]" "rm_timer m = Some h" "rm_started m" "rm_cycleStartedAt m = Some t"
      "1 \<le> rm_attempt m" "rm_role m = Peripheral" "Suc (rm_attempt m) \<le> attempt_limit opts"
  using assms unfolding role_ok_def by (cases "rm_pending m" rule: remdups_adj.cases) auto

lemma role_ok_new [simp]: "role_ok opts role_manager_new"
  by (simp add: role_ok_def role_manager_new_def)

lemma one_attempt [simp]: "Suc 0 \<le> attempt_limit opts"
  by (simp add: attempt_limit_def)

lemma role_ok_step:
  assumes "role_ok opts m"
  shows "role_ok opts (role_step opts m e)"
  using assms
proof (cases rule: role_ok_cases)
  case idle
  then show ?thesis by (cases e) (auto simp: role_defs role_ok_def)
next
  case (window h t)
  then show ?thesis
    by (cases e) (auto simp: role_defs role_ok_def budgetExhausted_def not_le intro: within_limit_attempts)
next
  case (backoff h d t)
  then show ?thesis by (cases e) (auto simp: role_defs role_ok_def)
qed

interpretation roles: step_invariant "role_step opts" "role_ok opts" for opts
  by unfold_locales (rule role_ok_step)

abbreviation role_run :: "role_options \<Rightarrow> role_event list \<Rightarrow> role_manager" where
  "role_run opts es \<equiv> foldl (role_step opts) role_manager_new es"

lemma role_run_ok: "role_ok opts (role_run opts es)"
  by (rule roles.run_inv) simp

text \<open>The radio is never left as central: whatever calls are made and timers fire, and in whatever order, a started manager is central exactly while the timer that ends
  the attempt is armed, with the length of the window, and between a request and its end exactly one timer is armed, at rest and when stopped none. No cycle makes more
  attempts than its limit.\<close>

theorem radio_never_stuck:
  "let m = role_run opts es in
     (rm_started m \<longrightarrow> (rm_role m = Central \<longleftrightarrow> (\<exists>h. rm_pending m = [(h, WindowOver (rm_sessionId m), ro_centralWindowMs opts)]))) \<and>
     length (rm_pending m) = (if rm_cycleStartedAt m = None then 0 else 1) \<and> (rm_cycleStartedAt m \<noteq> None \<longrightarrow> rm_started m) \<and>
     rm_attempt m \<le> attempt_limit opts"
  using role_run_ok[of opts es] by (cases rule: role_ok_cases) (auto simp: Let_def)

lemma radio_never_stuck_witness:
  "rm_role (role_run default_options [Start, RequestSend 0]) = Central \<and> (\<exists>h. rm_pending (role_run default_options [Start, RequestSend 0]) = [(h, WindowOver 1, 9000)])"
  using radio_never_stuck[of default_options "[Start, RequestSend 0]"]
  by (simp add: role_defs role_manager_new_def default_options_def DEFAULT_CENTRAL_WINDOW_MS_def)

text \<open>Events that neither end a cycle nor skip a timer.\<close>

definition undisturbed :: "role_event \<Rightarrow> bool" where
  "undisturbed e = (case e of Fire i now random \<Rightarrow> i = 0 | Stop \<Rightarrow> False | PeerConnected \<Rightarrow> False | _ \<Rightarrow> True)"

fun is_fire :: "role_event \<Rightarrow> bool" where
  "is_fire (Fire i now random) = True"
| "is_fire _ = False"

definition fires_left :: "role_options \<Rightarrow> role_manager \<Rightarrow> nat" where
  "fires_left opts m = (case rm_pending m of [] \<Rightarrow> 0
     | (h, WindowOver s, d) # _ \<Rightarrow> 2 * (attempt_limit opts - rm_attempt m) + 1
     | (h, BackoffOver s, d) # _ \<Rightarrow> 2 * (attempt_limit opts - rm_attempt m))"

abbreviation entries :: "radio_call list \<Rightarrow> nat" where
  "entries calls \<equiv> length (filter ((=) EnterCentral) calls)"

text \<open>A manager at rest: peripheral, no cycle, no attempt counted, no timer known to it and none armed; a new request begins a cycle.\<close>

definition at_rest :: "role_manager \<Rightarrow> bool" where
  "at_rest m \<longleftrightarrow> rm_started m \<and> rm_role m = Peripheral \<and> rm_cycleStartedAt m = None \<and> rm_attempt m = 0 \<and> rm_timer m = None \<and> rm_pending m = []"

text \<open>A firing ends the cycle or brings its end nearer.\<close>

lemma fire_progress:
  assumes "role_ok opts m" "rm_cycleStartedAt m \<noteq> None"
  obtains (over) "rm_calls (role_step opts m (Fire 0 now r)) = rm_calls m @ [EnterPeripheral, GiveUp]" "at_rest (role_step opts m (Fire 0 now r))"
  | (rest) "rm_calls (role_step opts m (Fire 0 now r)) = rm_calls m @ [EnterPeripheral]" "rm_cycleStartedAt (role_step opts m (Fire 0 now r)) \<noteq> None"
      "rm_attempt (role_step opts m (Fire 0 now r)) = rm_attempt m" "fires_left opts m = Suc (fires_left opts (role_step opts m (Fire 0 now r)))"
  | (again) "rm_calls (role_step opts m (Fire 0 now r)) = rm_calls m @ [EnterCentral]" "rm_cycleStartedAt (role_step opts m (Fire 0 now r)) \<noteq> None"
      "rm_attempt (role_step opts m (Fire 0 now r)) = Suc (rm_attempt m)" "rm_attempt m < attempt_limit opts"
      "fires_left opts m = Suc (fires_left opts (role_step opts m (Fire 0 now r)))"
  using assms(1)
proof (cases rule: role_ok_cases)
  case idle
  then show thesis using assms(2) by simp
next
  case (window h t)
  show thesis
  proof (cases "budgetExhausted opts now m")
    case True
    then show thesis using over window by (simp add: role_defs budgetExhausted_def at_rest_def)
  next
    case False
    then show thesis using rest window by (simp add: role_defs budgetExhausted_def fires_left_def)
  qed
next
  case (backoff h d t)
  then show thesis using again by (simp add: role_defs fires_left_def)
qed

lemma cycle_gives_up:
  assumes "role_ok opts m" "rm_cycleStartedAt m \<noteq> None" "list_all undisturbed es" "fires_left opts m \<le> length (filter is_fire es)"
  shows "\<exists>es1 es2 calls. es = es1 @ es2 \<and> rm_calls (foldl (role_step opts) m es1) = rm_calls m @ calls @ [EnterPeripheral, GiveUp] \<and> GiveUp \<notin> set calls \<and>
    entries calls \<le> attempt_limit opts - rm_attempt m \<and> at_rest (foldl (role_step opts) m es1) \<and> length (filter is_fire es1) \<le> fires_left opts m"
  using assms
proof (induction es arbitrary: m)
  case Nil
  from Nil.prems(1,2,4) show ?case by (cases rule: role_ok_cases) (auto simp: fires_left_def)
next
  case (Cons e es)
  let ?m = "role_step opts m e"
  have ok: "role_ok opts ?m" using Cons.prems(1) by (rule role_ok_step)
  show ?case
  proof (cases "is_fire e")
    case False
    then have same: "?m = m" using Cons.prems by (cases e) (auto simp: role_defs undisturbed_def elim: role_ok_cases)
    obtain es1 es2 calls where "es = es1 @ es2" "rm_calls (foldl (role_step opts) m es1) = rm_calls m @ calls @ [EnterPeripheral, GiveUp]" "GiveUp \<notin> set calls"
      "entries calls \<le> attempt_limit opts - rm_attempt m" "at_rest (foldl (role_step opts) m es1)" "length (filter is_fire es1) \<le> fires_left opts m"
      using Cons.IH[OF Cons.prems(1,2)] Cons.prems(3,4) False by auto
    then show ?thesis using same False by (intro exI[of _ "e # es1"] exI[of _ es2] exI[of _ calls]) simp
  next
    case True
    then obtain now r where e: "e = Fire 0 now r" using Cons.prems(3) by (cases e) (auto simp: undisturbed_def)
    from Cons.prems(1,2) show ?thesis
    proof (cases rule: fire_progress[of _ _ now r])
      case over
      have "fires_left opts m \<noteq> 0" using Cons.prems(1,2) by (cases rule: role_ok_cases) (auto simp: fires_left_def)
      then show ?thesis using over by (intro exI[of _ "[e]"] exI[of _ es] exI[of _ "[]"]) (simp add: e)
    next
      case rest
      then obtain es1 es2 calls where "es = es1 @ es2" "rm_calls (foldl (role_step opts) ?m es1) = rm_calls ?m @ calls @ [EnterPeripheral, GiveUp]" "GiveUp \<notin> set calls"
        "entries calls \<le> attempt_limit opts - rm_attempt m" "at_rest (foldl (role_step opts) ?m es1)" "length (filter is_fire es1) \<le> fires_left opts ?m"
        using Cons.IH[OF ok] Cons.prems(3,4) True by (auto simp: e)
      then show ?thesis using rest by (intro exI[of _ "e # es1"] exI[of _ es2] exI[of _ "EnterPeripheral # calls"]) (simp add: e)
    next
      case again
      then obtain es1 es2 calls where "es = es1 @ es2" "rm_calls (foldl (role_step opts) ?m es1) = rm_calls ?m @ calls @ [EnterPeripheral, GiveUp]" "GiveUp \<notin> set calls"
        "entries calls \<le> attempt_limit opts - Suc (rm_attempt m)" "at_rest (foldl (role_step opts) ?m es1)" "length (filter is_fire es1) \<le> fires_left opts ?m"
        using Cons.IH[OF ok] Cons.prems(3,4) True by (auto simp: e)
      then show ?thesis using again by (intro exI[of _ "e # es1"] exI[of _ es2] exI[of _ "EnterCentral # calls"]) (simp add: e)
    qed
  qed
qed

text \<open>C28: A cycle ends: from any point of a cycle on, if no peer connects and the manager is not stopped, the radio gives up after at most twice as many timers
  less one as attempts are allowed, whatever is requested meanwhile. The last timer has it switch back to peripheral and then report, once, that it gave up; it is then at rest: still started,
  peripheral, with no cycle, the attempts back at zero, and no timer armed. In the whole cycle it became central at most as often as the limit says.\<close>

theorem cycle_ends:
  assumes "m = role_run opts before" "rm_cycleStartedAt m \<noteq> None" "list_all undisturbed es"
    and "2 * attempt_limit opts - 1 \<le> length (filter is_fire es)"
  shows "\<exists>es1 es2 calls. es = es1 @ es2 \<and> length (filter is_fire es1) \<le> 2 * attempt_limit opts - 1 \<and>
    rm_calls (foldl (role_step opts) m es1) = rm_calls m @ calls @ [EnterPeripheral, GiveUp] \<and> GiveUp \<notin> set calls \<and>
    entries calls + rm_attempt m \<le> attempt_limit opts \<and> at_rest (foldl (role_step opts) m es1)"
proof -
  have ok: "role_ok opts m" unfolding assms(1) by (rule role_run_ok)
  have limit: "fires_left opts m \<le> 2 * attempt_limit opts - 1 \<and> rm_attempt m \<le> attempt_limit opts"
    using ok assms(2) by (cases rule: role_ok_cases) (auto simp: fires_left_def)
  then obtain es1 es2 calls where "es = es1 @ es2" "rm_calls (foldl (role_step opts) m es1) = rm_calls m @ calls @ [EnterPeripheral, GiveUp]" "GiveUp \<notin> set calls"
    "entries calls \<le> attempt_limit opts - rm_attempt m" "at_rest (foldl (role_step opts) m es1)" "length (filter is_fire es1) \<le> fires_left opts m"
    using cycle_gives_up[OF ok assms(2,3)] assms(4) by fastforce
  moreover from this limit have "entries calls + rm_attempt m \<le> attempt_limit opts" "length (filter is_fire es1) \<le> 2 * attempt_limit opts - 1" by linarith+
  ultimately show ?thesis by blast
qed

lemma cycle_ends_witness:
  "\<exists>es1 es2 calls. [Fire 0 9000 0] = es1 @ es2 \<and> rm_calls (foldl (role_step (default_options\<lparr>ro_maxAttempts := 1\<rparr>))
     (role_run (default_options\<lparr>ro_maxAttempts := 1\<rparr>) [Start, RequestSend 0]) es1) = [EnterPeripheral, EnterCentral] @ calls @ [EnterPeripheral, GiveUp]"
  using cycle_ends[of _ "default_options\<lparr>ro_maxAttempts := 1\<rparr>" "[Start, RequestSend 0]" "[Fire 0 9000 0]", OF refl]
  by (auto simp: role_defs role_manager_new_def undisturbed_def attempt_limit_def budgetExhausted_def default_options_def)

text \<open>A stopped manager is silent: it calls nothing back until it is started again, whatever timer fires and whatever connects.\<close>

theorem stopped_is_silent:
  assumes "\<not> rm_started (role_run opts es)" "Start \<notin> set es'"
  shows "rm_calls (foldl (role_step opts) (role_run opts es) es') = rm_calls (role_run opts es)"
proof -
  have "role_ok opts m \<Longrightarrow> \<not> rm_started m \<Longrightarrow> rm_calls (foldl (role_step opts) m es') = rm_calls m" for m
    using assms(2)
  proof (induction es' arbitrary: m)
    case (Cons e es')
    have "rm_calls (role_step opts m e) = rm_calls m \<and> \<not> rm_started (role_step opts m e)"
      using Cons.prems by (cases e) (auto simp: role_defs elim!: role_ok_cases split: option.splits)
    then show ?case using Cons.IH[OF role_ok_step[OF Cons.prems(1)]] Cons.prems(3) by simp
  qed simp
  then show ?thesis using role_run_ok assms(1) by blast
qed

lemma stopped_is_silent_witness: "rm_calls (foldl (role_step default_options) (role_run default_options [Start, RequestSend 0, Stop]) [PeerConnected, Fire 0 9000 0]) =
    [EnterPeripheral, EnterCentral]"
  using stopped_is_silent[of default_options "[Start, RequestSend 0, Stop]" "[PeerConnected, Fire 0 9000 0]"]
  by (simp add: role_defs role_manager_new_def)

section \<open>The serial queue\<close>

text \<open>\<open>run\<close> chains a task behind the tail: it starts when its predecessor has settled, with whatever outcome, since the tail swallows a rejection; its own promise
  settles with its own outcome. The queue is the list of its tasks in the order of submission.\<close>

datatype 'r task = Waiting | Running | Settled 'r

inductive queue_step :: "'r task list \<Rightarrow> 'r task list \<Rightarrow> bool" where
  run: "queue_step q (q @ [Waiting])"
| starts: "i < length q \<Longrightarrow> q ! i = Waiting \<Longrightarrow> i = 0 \<or> (\<exists>r. q ! (i - 1) = Settled r) \<Longrightarrow> queue_step q (q[i := Running])"
| settles: "i < length q \<Longrightarrow> q ! i = Running \<Longrightarrow> queue_step q (q[i := Settled r])"

inductive queue_reaches :: "'r task list \<Rightarrow> bool" where
  empty: "queue_reaches []"
| step: "queue_reaches q \<Longrightarrow> queue_step q q' \<Longrightarrow> queue_reaches q'"

definition in_turn :: "'r list \<Rightarrow> 'r task list \<Rightarrow> nat \<Rightarrow> 'r task list" where
  "in_turn rs mid n = map Settled rs @ mid @ replicate n Waiting"

lemma in_turn_nth:
  "in_turn rs [] n ! i = Waiting \<Longrightarrow> i < length rs + n \<Longrightarrow> length rs \<le> i"
  "in_turn rs [Running] n ! i = Waiting \<Longrightarrow> i < length rs + n + 1 \<Longrightarrow> length rs < i"
  "in_turn rs mid n ! i = Settled r \<Longrightarrow> mid = [] \<or> mid = [Running] \<Longrightarrow> i < length rs + length mid + n \<Longrightarrow> i < length rs"
  "in_turn rs mid n ! i = Running \<Longrightarrow> mid = [] \<or> mid = [Running] \<Longrightarrow> i < length rs + length mid + n \<Longrightarrow> mid = [Running] \<and> i = length rs"
  by (auto simp: in_turn_def nth_append nth_Cons' split: if_splits)

lemma queue_step_in_turn:
  assumes "queue_step q q'" "q = in_turn rs mid n" "mid = [] \<or> mid = [Running]"
  shows "\<exists>rs' mid' n'. q' = in_turn rs' mid' n' \<and> (mid' = [] \<or> mid' = [Running])"
  using assms(1)
proof cases
  case run
  then show ?thesis using assms(2,3) by (intro exI[of _ rs] exI[of _ mid] exI[of _ "Suc n"]) (simp add: in_turn_def replicate_append_same)
next
  case (starts i)
  have len: "length q = length rs + length mid + n" by (simp add: assms(2) in_turn_def)
  have "mid = [] \<and> i = length rs"
    using starts(2-4) assms(3) len in_turn_nth(1,2)[of rs n i] in_turn_nth(3)[of rs mid n "i - 1"] unfolding assms(2) by fastforce
  moreover from this obtain m where "n = Suc m" using starts(2) len by (cases n) auto
  ultimately show ?thesis using assms(2) starts(1) by (intro exI[of _ rs] exI[of _ "[Running]"] exI[of _ m]) (simp add: in_turn_def list_update_append)
next
  case (settles i r)
  have len: "length q = length rs + length mid + n" by (simp add: assms(2) in_turn_def)
  have "mid = [Running] \<and> i = length rs" using in_turn_nth(4)[of rs mid n i] settles(2,3) assms(2,3) len by simp
  then show ?thesis using assms(2) settles(1) by (intro exI[of _ "rs @ [r]"] exI[of _ "[]"] exI[of _ n]) (simp add: in_turn_def list_update_append)
qed

lemma queue_in_turn: "queue_reaches q \<Longrightarrow> \<exists>rs mid n. q = in_turn rs mid n \<and> (mid = [] \<or> mid = [Running])"
proof (induction rule: queue_reaches.induct)
  case empty
  show ?case by (rule exI[of _ "[]"], rule exI[of _ "[]"], rule exI[of _ 0]) (simp add: in_turn_def)
next
  case (step q q')
  then show ?case using queue_step_in_turn by blast
qed

text \<open>Tasks run one at a time and in the order of submission, none is skipped, and a task that fails does not hold up the next: before the one that runs all have settled,
  after it none has started, and while a task is unsettled there is one that runs or can start.\<close>

theorem queue_runs_in_turn:
  assumes "queue_reaches q"
  shows "\<exists>rs n. (q = map Settled rs @ replicate n Waiting \<or> q = map Settled rs @ Running # replicate n Waiting) \<and>
    (n > 0 \<longrightarrow> Running \<in> set q \<or> queue_step q (map Settled rs @ Running # replicate (n - 1) Waiting))"
proof -
  obtain rs mid n where q: "q = in_turn rs mid n" "mid = [] \<or> mid = [Running]" using queue_in_turn[OF assms] by blast
  have "queue_step q (map Settled rs @ Running # replicate (n - 1) Waiting)" if none: "mid = []" "0 < n"
  proof -
    obtain m where m: "n = Suc m" using none(2) by (cases n) auto
    have "queue_step q (q[length rs := Running])"
      by (rule queue_step.starts) (cases "rs = []"; simp add: q(1) none(1) m in_turn_def nth_append)+
    then show ?thesis by (simp add: q(1) none(1) m in_turn_def list_update_append)
  qed
  then show ?thesis using q by (intro exI[of _ rs] exI[of _ n]) (auto simp: in_turn_def)
qed

lemma queue_runs_in_turn_witness:
  "\<exists>rs n. ([Settled False, Waiting] = map Settled rs @ replicate n Waiting \<or> [Settled False, Waiting] = map Settled rs @ Running # replicate n Waiting) \<and>
    (n > 0 \<longrightarrow> Running \<in> set [Settled False, Waiting] \<or> queue_step [Settled False, Waiting] (map Settled rs @ Running # replicate (n - 1) Waiting))"
proof (rule queue_runs_in_turn)
  have "queue_reaches [Waiting]" using queue_reaches.step[OF queue_reaches.empty queue_step.run] by simp
  from queue_reaches.step[OF this queue_step.starts[of 0]] have "queue_reaches [Running]" by simp
  from queue_reaches.step[OF this queue_step.settles[of 0 _ False]] have "queue_reaches [Settled False]" by simp
  from queue_reaches.step[OF this queue_step.run] show "queue_reaches [Settled False, Waiting]" by simp
qed

end
