(* ===== verification/DeliveryRelays.thy ===== *)
theory DeliveryRelays
  imports ExternalDelivery HttpBody
begin

text \<open>
  The other end of an external delivery: the relay that receives the sealed message of a Box and hands it to an outside service. The three relays
  (\<open>email-relay/server.ts\<close>, \<open>whatsapp-relay/server.ts\<close>, \<open>webhook-relay/server.ts\<close>) share their handler; they differ in the limit, in the destination's data and in
  the client that sends, which are parameters. A request is two operations: the part up to the send, and the settling of the send, with any
  other operations in between. Unsealing, the hash and the outcome of a send are arguments.
\<close>

section \<open>The handler\<close>

definition DEFAULT_MAX_RECENTLY_DELIVERED :: rat where "DEFAULT_MAX_RECENTLY_DELIVERED = 500"
definition MAX_EMAIL_TEXT_BYTES :: nat where "MAX_EMAIL_TEXT_BYTES = 4096"
definition MAX_WHATSAPP_TEXT_BYTES :: nat where "MAX_WHATSAPP_TEXT_BYTES = 4096"
definition MAX_WEBHOOK_PAYLOAD_BYTES :: nat where "MAX_WEBHOOK_PAYLOAD_BYTES = 1000000"

text \<open>\<open>'d\<close> is the configuration of a destination, with its key; a plaintext is a list of bytes.\<close>

record 'd relay_env =
  rv_unseal :: "'d \<Rightarrow> delivery_payload \<Rightarrow> nat list option"
  rv_hash :: "string \<Rightarrow> string"
  rv_maxBytes :: nat
  rv_destinations :: "string \<Rightarrow> 'd option"

text \<open>What the relay does, in order: it answers a request with a status, starts to send a message, and a send succeeds or fails.\<close>

datatype 'd relay_event = Answered nat nat | SendStarted nat string 'd "nat list" | SendOk string | SendFailed string

record 'd relay =
  rl_recentlyDelivered :: "(string, unit) bounded_map"
  rl_sending :: "(nat \<times> string) list"
  rl_log :: "'d relay_event list"

definition relay_new :: "jsnum option \<Rightarrow> 'd relay" where
  "relay_new maxEntries = \<lparr>rl_recentlyDelivered = bm_new (Some (case maxEntries of Some n \<Rightarrow> n | None \<Rightarrow> Num DEFAULT_MAX_RECENTLY_DELIVERED)),
     rl_sending = [], rl_log = []\<rparr>"

definition relay_log :: "'d relay_event \<Rightarrow> 'd relay \<Rightarrow> 'd relay" where
  "relay_log e s = s\<lparr>rl_log := rl_log s @ [e]\<rparr>"

definition dedup_key :: "(string \<Rightarrow> string) \<Rightarrow> delivery_payload \<Rightarrow> string" where
  "dedup_key hash p = hash (ed_nonce p @ '':'' @ ed_ciphertext p @ '':'' @ ed_authTag p)"

text \<open>\<open>i\<close> names the request. The key is remembered before the send is started.\<close>

definition handle_delivery :: "'d relay_env \<Rightarrow> nat \<Rightarrow> body \<Rightarrow> 'd relay \<Rightarrow> 'd relay" where
  "handle_delivery env i b s = (case b of
     BodyTooLarge \<Rightarrow> relay_log (Answered i 413) s
   | BodyFailed \<Rightarrow> relay_log (Answered i 400) s
   | BodyGone \<Rightarrow> s
   | BodyMalformed \<Rightarrow> relay_log (Answered i 400) s
   | BodyJson v \<Rightarrow> (case extractExternalDeliveryPayload (2 * rv_maxBytes env) v of
       None \<Rightarrow> relay_log (Answered i 400) s
     | Some p \<Rightarrow> (case rv_destinations env (ed_destinationId p) of
         None \<Rightarrow> relay_log (Answered i 404) s
       | Some d \<Rightarrow>
           let key = dedup_key (rv_hash env) p in
           if bm_has (rl_recentlyDelivered s) key then relay_log (Answered i 200) s
           else (case rv_unseal env d p of
               None \<Rightarrow> relay_log (Answered i 400) s
             | Some text \<Rightarrow>
                 if text = [] then relay_log (Answered i 400) s
                 else relay_log (SendStarted i key d text)
                   (s\<lparr>rl_recentlyDelivered := bm_put None key () (rl_recentlyDelivered s), rl_sending := rl_sending s @ [(i, key)]\<rparr>)))))"

definition send_settled :: "nat \<Rightarrow> bool \<Rightarrow> 'd relay \<Rightarrow> 'd relay" where
  "send_settled i ok s = (case map_of (rl_sending s) i of
     None \<Rightarrow> s
   | Some key \<Rightarrow>
       let s' = s\<lparr>rl_sending := filter (\<lambda>x. fst x \<noteq> i) (rl_sending s)\<rparr> in
       if ok then relay_log (Answered i 200) (relay_log (SendOk key) s')
       else relay_log (Answered i 502) (relay_log (SendFailed key) (s'\<lparr>rl_recentlyDelivered := bm_delete key (rl_recentlyDelivered s')\<rparr>)))"

text \<open>The handlers of the three relays: what differs is the limit on the text, and with it the limits on the ciphertext and on the body.\<close>

definition email_route :: "('d \<Rightarrow> delivery_payload \<Rightarrow> nat list option) \<Rightarrow> (string \<Rightarrow> string) \<Rightarrow> (string \<Rightarrow> 'd option) \<Rightarrow> nat \<Rightarrow> body \<Rightarrow> 'd relay \<Rightarrow> 'd relay" where
  "email_route unseal hash destinations = handle_delivery \<lparr>rv_unseal = unseal, rv_hash = hash, rv_maxBytes = MAX_EMAIL_TEXT_BYTES, rv_destinations = destinations\<rparr>"

definition whatsapp_route :: "('d \<Rightarrow> delivery_payload \<Rightarrow> nat list option) \<Rightarrow> (string \<Rightarrow> string) \<Rightarrow> (string \<Rightarrow> 'd option) \<Rightarrow> nat \<Rightarrow> body \<Rightarrow> 'd relay \<Rightarrow> 'd relay" where
  "whatsapp_route unseal hash destinations = handle_delivery \<lparr>rv_unseal = unseal, rv_hash = hash, rv_maxBytes = MAX_WHATSAPP_TEXT_BYTES, rv_destinations = destinations\<rparr>"

definition webhook_route :: "('d \<Rightarrow> delivery_payload \<Rightarrow> nat list option) \<Rightarrow> (string \<Rightarrow> string) \<Rightarrow> (string \<Rightarrow> 'd option) \<Rightarrow> nat \<Rightarrow> body \<Rightarrow> 'd relay \<Rightarrow> 'd relay" where
  "webhook_route unseal hash destinations = handle_delivery \<lparr>rv_unseal = unseal, rv_hash = hash, rv_maxBytes = MAX_WEBHOOK_PAYLOAD_BYTES, rv_destinations = destinations\<rparr>"

datatype relay_op = Request nat body | SendSettled nat bool

fun relay_step :: "'d relay_env \<Rightarrow> 'd relay \<Rightarrow> relay_op \<Rightarrow> 'd relay" where
  "relay_step env s (Request i b) = handle_delivery env i b s"
| "relay_step env s (SendSettled i ok) = send_settled i ok s"

section \<open>The Box\<close>

text \<open>The request that a Box posts for an entry of its queue, and what it makes of the answer: \<open>None\<close> if none came within ten seconds or the relay cannot be reached.\<close>

definition delivery_json :: "queued_delivery \<Rightarrow> jsval" where
  "delivery_json e = JObject [(''destinationId'', JString (qd_destinationId e)), (''senderEphemeralPublicKey'', JString (qd_senderEphemeralPublicKey e)),
     (''nonce'', JString (qd_nonce e)), (''ciphertext'', JString (qd_ciphertext e)), (''authTag'', JString (qd_authTag e)),
     (''submittedAt'', JNumber (Num (qd_submittedAt e)))]"

definition attemptExternalDeliveryPost :: "bool \<Rightarrow> nat option \<Rightarrow> bool" where
  "attemptExternalDeliveryPost publicUrl answer \<longleftrightarrow> publicUrl \<and> (case answer of Some status \<Rightarrow> 200 \<le> status \<and> status < 300 | None \<Rightarrow> False)"

definition attempt_round :: "time \<Rightarrow> (queued_delivery \<Rightarrow> bool) \<Rightarrow> delivery_queue \<Rightarrow> delivery_queue" where
  "attempt_round now delivered q = (case entriesDueForAttempt now q of (entries, q') \<Rightarrow>
     foldl (\<lambda>q e. if delivered e then dq_remove (qd_packetId e) q else q) q' entries)"

text \<open>What the Box accepted from the mesh for a destination.\<close>

definition sealed_entry :: "nat \<Rightarrow> queued_delivery \<Rightarrow> bool" where
  "sealed_entry maxBytes e \<longleftrightarrow> qd_destinationId e \<noteq> [] \<and> length (qd_destinationId e) \<le> MAX_EXTERNAL_DELIVERY_DESTINATION_ID_LENGTH \<and>
     length (qd_senderEphemeralPublicKey e) = X25519_PUBLIC_KEY_HEX_LENGTH \<and> hex_pattern (qd_senderEphemeralPublicKey e) \<and>
     length (qd_nonce e) = AES_GCM_NONCE_HEX_LENGTH \<and> hex_pattern (qd_nonce e) \<and>
     length (qd_ciphertext e) \<le> 2 * maxBytes \<and> (qd_ciphertext e \<noteq> [] \<longrightarrow> hex_pattern (qd_ciphertext e)) \<and>
     length (qd_authTag e) = AES_GCM_AUTH_TAG_HEX_LENGTH \<and> hex_pattern (qd_authTag e)"

definition posted_payload :: "queued_delivery \<Rightarrow> delivery_payload" where
  "posted_payload e = \<lparr>ed_destinationId = qd_destinationId e, ed_senderEphemeralPublicKey = qd_senderEphemeralPublicKey e, ed_nonce = qd_nonce e,
     ed_ciphertext = qd_ciphertext e, ed_authTag = qd_authTag e, ed_authProof = None, ed_submittedAt = qd_submittedAt e\<rparr>"

text \<open>The relay reads from the request exactly the entry that the Box posted.\<close>

lemma relay_reads_entry: "sealed_entry m e \<Longrightarrow> extractExternalDeliveryPayload (2 * m) (delivery_json e) = Some (posted_payload e)"
  by (auto simp: sealed_entry_def extractExternalDeliveryPayload_def delivery_json_def posted_payload_def hex_string_def ciphertext_string_def
      bounded_string_def require_def optional_def)

section \<open>Nothing is sent twice\<close>

fun request_ids :: "relay_op list \<Rightarrow> nat list" where
  "request_ids [] = []"
| "request_ids (Request i b # ops) = i # request_ids ops"
| "request_ids (SendSettled i ok # ops) = request_ids ops"

fun request_keys :: "'d relay_env \<Rightarrow> relay_op \<Rightarrow> string set" where
  "request_keys env (Request i (BodyJson v)) = (case extractExternalDeliveryPayload (2 * rv_maxBytes env) v of Some p \<Rightarrow> {dedup_key (rv_hash env) p} | None \<Rightarrow> {})"
| "request_keys env _ = {}"

definition delivered_keys :: "'d relay_event list \<Rightarrow> string list" where
  "delivered_keys es = List.map_filter (\<lambda>e. case e of SendOk k \<Rightarrow> Some k | _ \<Rightarrow> None) es"

lemma delivered_keys_simps [simp]: "delivered_keys [] = []" "delivered_keys (es @ fs) = delivered_keys es @ delivered_keys fs"
  "delivered_keys (SendOk k # es) = k # delivered_keys es" "delivered_keys (Answered i st # es) = delivered_keys es"
  "delivered_keys (SendStarted i k d x # es) = delivered_keys es" "delivered_keys (SendFailed k # es) = delivered_keys es"
  by (simp_all add: delivered_keys_def List.map_filter_def)

definition relay_ok :: "string set \<Rightarrow> nat \<Rightarrow> nat set \<Rightarrow> 'd relay \<Rightarrow> bool" where
  "relay_ok K n used s \<longleftrightarrow> (let m = rl_recentlyDelivered s; flying = set (map snd (rl_sending s)); done = set (delivered_keys (rl_log s)) in
     bm_ok m \<and> bm_max m = Num (of_nat n) \<and> 0 < n \<and> finite K \<and> card K \<le> n \<and> (\<forall>k. bm_get m k \<noteq> None \<longrightarrow> k \<in> K) \<and>
     distinct (map fst (rl_sending s)) \<and> distinct (map snd (rl_sending s)) \<and> fst ` set (rl_sending s) \<subseteq> used \<and>
     (\<forall>k \<in> flying \<union> done. bm_has m k) \<and> flying \<inter> done = {} \<and> distinct (delivered_keys (rl_log s)))"

lemma relay_log_simps [simp]: "rl_recentlyDelivered (relay_log e s) = rl_recentlyDelivered s" "rl_sending (relay_log e s) = rl_sending s"
  "rl_log (relay_log e s) = rl_log s @ [e]"
  by (simp_all add: relay_log_def)

lemma answered_ok: "relay_ok K n used s \<Longrightarrow> used \<subseteq> used' \<Longrightarrow> relay_ok K n used' (relay_log (Answered i st) s)"
  by (auto simp: relay_ok_def Let_def)

lemma relay_ok_more: "relay_ok K n used s \<Longrightarrow> used \<subseteq> used' \<Longrightarrow> relay_ok K n used' s"
  by (auto simp: relay_ok_def Let_def)

lemma start_ok:
  assumes ok: "relay_ok K n used s" and new: "\<not> bm_has (rl_recentlyDelivered s) key" "key \<in> K" "i \<notin> used"
  shows "relay_ok K n (insert i used) (relay_log (SendStarted i key d text)
    (s\<lparr>rl_recentlyDelivered := bm_put None key () (rl_recentlyDelivered s), rl_sending := rl_sending s @ [(i, key)]\<rparr>))"
proof -
  let ?m = "rl_recentlyDelivered s"
  have m: "bm_ok ?m" "bm_max ?m = Num (of_nat n)" "0 < n" "finite K" "card K \<le> n" "\<And>x. bm_get ?m x \<noteq> None \<Longrightarrow> x \<in> K"
    using ok by (auto simp: relay_ok_def Let_def)
  have get: "bm_get (bm_put None key () ?m) k = (if k = key then Some () else bm_get ?m k)" for k
    using bm_set_fits[OF m(1-5) m(6) new(2)] by blast
  then have has: "bm_has (bm_put None key () ?m) k \<longleftrightarrow> k = key \<or> bm_has ?m k" for k by (simp add: bm_has_get)
  have "bm_ok (bm_put None key () ?m)" using m(1) by (rule bm_set_ok)
  then show ?thesis using ok new unfolding relay_ok_def Let_def by (auto simp: has get)
qed

lemma handle_ok:
  assumes ok: "relay_ok K n used s" and new: "i \<notin> used" and keys: "request_keys env (Request i b) \<subseteq> K"
  shows "relay_ok K n (insert i used) (handle_delivery env i b s)"
proof -
  have ans: "relay_ok K n (insert i used) (relay_log (Answered i st) s)" for st using ok by (rule answered_ok) auto
  have same: "relay_ok K n (insert i used) s" using ok by (rule relay_ok_more) auto
  show ?thesis
  proof (cases b)
    case (BodyJson v)
    show ?thesis
    proof (cases "extractExternalDeliveryPayload (2 * rv_maxBytes env) v")
      case (Some p)
      then have key: "dedup_key (rv_hash env) p \<in> K" using keys BodyJson by simp
      show ?thesis using ans start_ok[OF ok _ key new]
        by (simp add: handle_delivery_def BodyJson Some Let_def split: option.split)
    qed (simp add: handle_delivery_def BodyJson ans)
  qed (simp_all add: handle_delivery_def ans same)
qed

lemma settled_ok:
  assumes ok: "relay_ok K n used s"
  shows "relay_ok K n used (send_settled i good s)"
proof (cases "map_of (rl_sending s) i")
  case (Some key)
  let ?rest = "filter (\<lambda>x. fst x \<noteq> i) (rl_sending s)" and ?m = "rl_recentlyDelivered s"
  have m: "bm_ok ?m" "bm_max ?m = Num (of_nat n)" "0 < n" "finite K" "card K \<le> n" "\<And>k. bm_get ?m k \<noteq> None \<Longrightarrow> k \<in> K"
    and d: "distinct (map fst (rl_sending s))" "distinct (map snd (rl_sending s))" "fst ` set (rl_sending s) \<subseteq> used"
    and f: "\<And>k. k \<in> snd ` set (rl_sending s) \<or> k \<in> set (delivered_keys (rl_log s)) \<Longrightarrow> bm_has ?m k"
      "snd ` set (rl_sending s) \<inter> set (delivered_keys (rl_log s)) = {}" "distinct (delivered_keys (rl_log s))"
    using ok unfolding relay_ok_def Let_def by auto
  have mem: "(i, key) \<in> set (rl_sending s)" using Some by (rule map_of_SomeD)
  then have key: "key \<in> snd ` set (rl_sending s)" by force
  have flying: "snd ` set ?rest = snd ` set (rl_sending s) - {key}"
  proof -
    have "(j, k) \<in> set (rl_sending s) \<Longrightarrow> j = i \<longleftrightarrow> k = key" for j k
      using d mem inj_onD[of fst "set (rl_sending s)" "(j, k)" "(i, key)"] inj_onD[of snd "set (rl_sending s)" "(j, k)" "(i, key)"]
      by (auto simp: distinct_map)
    then show ?thesis by (force simp: image_iff)
  qed
  have rest: "distinct (map fst ?rest)" "distinct (map snd ?rest)" "fst ` set ?rest \<subseteq> used"
    using d by (auto simp: distinct_map intro: inj_on_subset)
  have fresh: "key \<notin> set (delivered_keys (rl_log s))" using key f(2) by blast
  show ?thesis
  proof (cases good)
    case True
    have has: "\<forall>k \<in> snd ` set ?rest \<union> insert key (set (delivered_keys (rl_log s))). bm_has ?m k" using f(1) key flying by blast
    have dis: "snd ` set ?rest \<inter> insert key (set (delivered_keys (rl_log s))) = {}" using f(2) flying by blast
    show ?thesis using m rest has dis f(3) fresh True by (simp add: relay_ok_def send_settled_def Some)
  next
    case False
    have gone: "bm_has (bm_delete key ?m) k \<longleftrightarrow> k \<noteq> key \<and> bm_has ?m k" for k by (simp add: bm_has_get)
    have has: "\<forall>k \<in> snd ` set ?rest \<union> set (delivered_keys (rl_log s)). bm_has (bm_delete key ?m) k" using f(1) fresh flying by (auto simp: gone)
    have dis: "snd ` set ?rest \<inter> set (delivered_keys (rl_log s)) = {}" using f(2) flying by blast
    have keep: "bm_ok (bm_delete key ?m)" "bm_max (bm_delete key ?m) = Num (of_nat n)" "\<And>k. bm_get (bm_delete key ?m) k \<noteq> None \<Longrightarrow> k \<in> K"
      using m(1,2,6) by (auto split: if_splits)
    show ?thesis using m(3-5) keep rest has dis f(3) False by (simp add: relay_ok_def send_settled_def Some)
  qed
qed (simp add: send_settled_def ok)

lemma relay_run_ok:
  assumes "relay_ok K n used s" "distinct (request_ids ops)" "used \<inter> set (request_ids ops) = {}" "(\<Union>a \<in> set ops. request_keys env a) \<subseteq> K"
  shows "relay_ok K n (used \<union> set (request_ids ops)) (foldl (relay_step env) s ops)"
  using assms
proof (induction ops arbitrary: s used)
  case (Cons a ops)
  show ?case
  proof (cases a)
    case (Request i b)
    then have "relay_ok K n (insert i used) (relay_step env s a)" using Cons.prems handle_ok[of K n used s i env b] by simp
    from Cons.IH[OF this] show ?thesis using Cons.prems Request by (auto simp: Un_assoc)
  next
    case (SendSettled i ok)
    then have "relay_ok K n used (relay_step env s a)" using Cons.prems(1) settled_ok by simp
    from Cons.IH[OF this] show ?thesis using Cons.prems SendSettled by auto
  qed
qed simp

text \<open>C23: A sealed message is never delivered twice, however often the Box retries it and however the requests overlap with the sends, and it is never on its way twice at once,
  as long as no more different messages arrive than the relay remembers.\<close>

theorem relay_delivers_once:
  assumes "distinct (request_ids ops)" "card (\<Union>a \<in> set ops. request_keys env a) \<le> n" "0 < n"
    and "s = foldl (relay_step env) (relay_new (Some (Num (of_nat n)))) ops"
  shows "distinct (delivered_keys (rl_log s)) \<and> distinct (map snd (rl_sending s)) \<and> set (delivered_keys (rl_log s)) \<inter> set (map snd (rl_sending s)) = {}"
proof -
  have "finite (request_keys env a)" for a by (cases "(env, a)" rule: request_keys.cases) (auto split: option.split)
  then have "relay_ok (\<Union>a \<in> set ops. request_keys env a) n {} (relay_new (Some (Num (of_nat n))))"
    using assms(2,3) by (simp add: relay_ok_def relay_new_def bm_new_def bm_ok_def bm_size_def bm_get_def within_limit_nat)
  from relay_run_ok[OF this assms(1)] show ?thesis unfolding assms(4) by (auto simp: relay_ok_def Let_def)
qed

section \<open>A retry that overlaps with a failing send\<close>

lemma first_start:
  assumes e: "sealed_entry (rv_maxBytes env) e" and d: "rv_destinations env (qd_destinationId e) = Some d" "rv_unseal env d (posted_payload e) = Some text" "text \<noteq> []"
    and new: "\<not> bm_has (rl_recentlyDelivered s) (dedup_key (rv_hash env) (posted_payload e))"
  shows "handle_delivery env i (BodyJson (delivery_json e)) s = relay_log (SendStarted i (dedup_key (rv_hash env) (posted_payload e)) d text)
    (s\<lparr>rl_recentlyDelivered := bm_put None (dedup_key (rv_hash env) (posted_payload e)) () (rl_recentlyDelivered s),
       rl_sending := rl_sending s @ [(i, dedup_key (rv_hash env) (posted_payload e))]\<rparr>)"
proof -
  have id: "ed_destinationId (posted_payload e) = qd_destinationId e" by (simp add: posted_payload_def)
  show ?thesis using new d by (simp add: handle_delivery_def relay_reads_entry[OF e] id Let_def)
qed

lemma known_answered:
  assumes e: "sealed_entry (rv_maxBytes env) e" and d: "rv_destinations env (qd_destinationId e) = Some d"
    and known: "bm_has (rl_recentlyDelivered s) (dedup_key (rv_hash env) (posted_payload e))"
  shows "handle_delivery env i (BodyJson (delivery_json e)) s = relay_log (Answered i 200) s"
proof -
  have id: "ed_destinationId (posted_payload e) = qd_destinationId e" by (simp add: posted_payload_def)
  show ?thesis using known d by (simp add: handle_delivery_def relay_reads_entry[OF e] id Let_def)
qed

definition answer_of :: "nat \<Rightarrow> 'd relay_event list \<Rightarrow> nat option" where
  "answer_of i es = (case List.map_filter (\<lambda>e. case e of Answered j st \<Rightarrow> if j = i then Some st else None | _ \<Rightarrow> None) es of [] \<Rightarrow> None | st # _ \<Rightarrow> Some st)"

lemma attempt_round_entries:
  assumes "\<And>k x. (k, x) \<in> set (dq_entries q) \<Longrightarrow> now < qd_expiresAt x"
  shows "map_of (dq_entries (attempt_round now delivered q)) k =
    (if \<exists>x \<in> snd ` set (dq_entries q). delivered x \<and> qd_packetId x = k then None else map_of (dq_entries q) k)"
proof -
  have fold: "map_of (dq_entries (foldl (\<lambda>q e. if delivered e then dq_remove (qd_packetId e) q else q) q' es)) k =
      (if \<exists>x \<in> set es. delivered x \<and> qd_packetId x = k then None else map_of (dq_entries q') k)" for q' es
    by (induction es arbitrary: q') (auto simp: dq_remove_def dq_drop_def split: option.split)
  have all: "filter (\<lambda>(i, e). \<not> qd_expiresAt e \<le> now) (dq_entries q) = dq_entries q" using assms by (auto simp: filter_id_conv not_le)
  obtain q' where q': "entriesDueForAttempt now q = (map snd (dq_entries q), q')" "dq_entries q' = dq_entries q"
    by (simp add: entriesDueForAttempt_def Let_def all)
  show ?thesis unfolding attempt_round_def q'(1) prod.case fold q'(2) set_map ..
qed

text \<open>C24: A message is lost if the Box retries it while its first send is still under way: the first request gets no answer in time and its entry stays in the Box's queue; the
  retry is answered as delivered, since the key is remembered before the send, and the Box takes the entry out of its queue; then the send fails. Nothing was
  delivered, the relay has forgotten the message, and the Box will not send it again.\<close>

theorem overlapping_retry_lost:
  assumes e: "sealed_entry (rv_maxBytes env) e" and d: "rv_destinations env (qd_destinationId e) = Some d" "rv_unseal env d (posted_payload e) = Some text" "text \<noteq> []"
    and fresh: "n > 0" and box: "map_of (dq_entries q) (qd_packetId e) = Some e" "\<And>k x. (k, x) \<in> set (dq_entries q) \<Longrightarrow> now < qd_expiresAt x"
    and retry: "answer = answer_of 2 (rl_log (foldl (relay_step env) (relay_new (Some (Num (of_nat n))))
        [Request 1 (BodyJson (delivery_json e)), Request 2 (BodyJson (delivery_json e))]))"
    and final: "s = foldl (relay_step env) (relay_new (Some (Num (of_nat n))))
        [Request 1 (BodyJson (delivery_json e)), Request 2 (BodyJson (delivery_json e)), SendSettled 1 False]"
  shows "delivered_keys (rl_log s) = [] \<and> rl_sending s = [] \<and> bm_keys (rl_recentlyDelivered s) = [] \<and>
    map_of (dq_entries (attempt_round now (\<lambda>x. attemptExternalDeliveryPost True (if x = e then None else Some 502)) q)) (qd_packetId e) = Some e \<and>
    map_of (dq_entries (attempt_round now (\<lambda>x. attemptExternalDeliveryPost True (if x = e then answer else Some 502)) q)) (qd_packetId e) = None"
proof -
  let ?key = "dedup_key (rv_hash env) (posted_payload e)" and ?s0 = "relay_new (Some (Num (of_nat n)))"
  let ?m = "bm_put None ?key () (bm_new (Some (Num (of_nat n))))"
  have new: "\<not> bm_has (rl_recentlyDelivered ?s0) ?key" by (simp add: relay_new_def bm_has_get)
  define s1 where "s1 = handle_delivery env 1 (BodyJson (delivery_json e)) ?s0"
  have s1: "rl_recentlyDelivered s1 = ?m" "rl_sending s1 = [(1, ?key)]" "rl_log s1 = [SendStarted 1 ?key d text]"
    unfolding s1_def first_start[OF e d new] by (simp_all add: relay_new_def)
  have m: "bm_map ?m = [(?key, ())]" using fresh by (simp add: bm_set_def bm_new_def bm_has_def bm_size_def Let_def)
  then have known: "bm_has (rl_recentlyDelivered s1) ?key" by (simp add: s1 bm_has_def)
  have s2: "handle_delivery env 2 (BodyJson (delivery_json e)) s1 = relay_log (Answered 2 200) s1" by (rule known_answered[OF e d(1) known])
  have s1': "handle_delivery env (Suc 0) (BodyJson (delivery_json e)) ?s0 = s1" by (simp add: s1_def)
  have answer: "answer = Some 200" unfolding retry by (simp add: s1' s2 s1 answer_of_def List.map_filter_def)
  have s: "s = send_settled 1 False (relay_log (Answered 2 200) s1)" unfolding final by (simp add: s1' s2)
  have relay: "delivered_keys (rl_log s) = [] \<and> rl_sending s = [] \<and> bm_keys (rl_recentlyDelivered s) = []"
    by (simp add: s send_settled_def s1 bm_keys_def bm_delete_def m)
  have e_in: "e \<in> snd ` set (dq_entries q)" using map_of_SomeD[OF box(1)] by force
  have box1: "map_of (dq_entries (attempt_round now (\<lambda>x. attemptExternalDeliveryPost True (if x = e then None else Some 502)) q)) (qd_packetId e) = Some e"
    using box(1) by (subst attempt_round_entries[OF box(2)]) (auto simp: attemptExternalDeliveryPost_def)
  have box2: "map_of (dq_entries (attempt_round now (\<lambda>x. attemptExternalDeliveryPost True (if x = e then answer else Some 502)) q)) (qd_packetId e) = None"
    using e_in by (subst attempt_round_entries[OF box(2)]) (auto simp: attemptExternalDeliveryPost_def answer)
  show ?thesis using relay box1 box2 by blast
qed

section \<open>Examples\<close>

definition sample_entry :: queued_delivery where
  "sample_entry = \<lparr>qd_packetId = ''p'', qd_destinationId = ''d'', qd_url = ''u'', qd_senderEphemeralPublicKey = replicate 64 CHR ''0'', qd_nonce = replicate 24 CHR ''0'',
     qd_ciphertext = ''00'', qd_authTag = replicate 32 CHR ''0'', qd_submittedAt = 0, qd_priority = EMERGENCY, qd_sizeBytes = 1, qd_expiresAt = 10\<rparr>"

definition sample_relay_env :: "unit relay_env" where
  "sample_relay_env = \<lparr>rv_unseal = \<lambda>d p. Some [65], rv_hash = \<lambda>s. s, rv_maxBytes = 4, rv_destinations = \<lambda>i. Some ()\<rparr>"

lemma sample_sealed: "sealed_entry (rv_maxBytes sample_relay_env) sample_entry"
proof -
  have "hex_pattern (replicate (Suc n) CHR ''0'')" for n by (auto simp: hex_pattern_def list_all_iff is_hex_digit_def hex_digits_def)
  from this[of 63] this[of 23] this[of 31] this[of 1] show ?thesis
    by (simp add: sealed_entry_def sample_entry_def sample_relay_env_def MAX_EXTERNAL_DELIVERY_DESTINATION_ID_LENGTH_def X25519_PUBLIC_KEY_HEX_LENGTH_def
        AES_GCM_NONCE_HEX_LENGTH_def AES_GCM_AUTH_TAG_HEX_LENGTH_def numeral_eq_Suc)
qed

lemma relay_delivers_once_witness:
  "distinct (delivered_keys (rl_log (foldl (relay_step sample_relay_env) (relay_new (Some (Num (of_nat 1))))
     [Request 1 (BodyJson (delivery_json sample_entry)), Request 2 (BodyJson (delivery_json sample_entry)), SendSettled 1 True])))"
proof -
  have "request_keys sample_relay_env (Request i (BodyJson (delivery_json sample_entry))) = {dedup_key (rv_hash sample_relay_env) (posted_payload sample_entry)}" for i
    by (simp add: relay_reads_entry[OF sample_sealed])
  then show ?thesis
    using relay_delivers_once[of "[Request 1 (BodyJson (delivery_json sample_entry)), Request 2 (BodyJson (delivery_json sample_entry)), SendSettled 1 True]"
        sample_relay_env 1 _, OF _ _ _ refl] by simp
qed

lemma overlapping_retry_lost_witness:
  "delivered_keys (rl_log (foldl (relay_step sample_relay_env) (relay_new (Some (Num (of_nat 1))))
     [Request 1 (BodyJson (delivery_json sample_entry)), Request 2 (BodyJson (delivery_json sample_entry)), SendSettled 1 False])) = []"
  using overlapping_retry_lost[OF sample_sealed, of "()" "[65]" 1 "dq_new None None None \<lparr>dq_entries := [(''p'', sample_entry)]\<rparr>" 1, OF _ _ _ _ _ _ refl refl]
  by (simp add: sample_relay_env_def sample_entry_def)

end
