(* ===== verification/SmtpText.thy ===== *)
theory SmtpText
  imports Prelude AddressText
begin

text \<open>
  The text of an e-mail on its way to the mail server (\<open>email-relay/smtp-client.ts\<close>): quoted-printable encoding with soft line breaks, dot stuffing and the
  message source. A string is its UTF-8 form, one character per byte. What a receiver does (\<open>unstuffed\<close>, \<open>qp_decode\<close>,
  RFC 5321 and RFC 2045) is defined beside it, as the reference for the round trip.
\<close>

section \<open>Lines\<close>

abbreviation CR :: char where "CR \<equiv> CHR 0x0D"
abbreviation LF :: char where "LF \<equiv> CHR 0x0A"
abbreviation TAB :: char where "TAB \<equiv> CHR 0x09"

definition CRLF :: string where "CRLF = [CR, LF]"

text \<open>\<open>split(/\r\n|\r|\n/)\<close>\<close>

fun split_lines :: "string \<Rightarrow> string list" where
  "split_lines [] = [[]]"
| "split_lines (c # cs) =
    (if c = CR \<and> cs \<noteq> [] \<and> hd cs = LF then [] # split_lines (tl cs)
     else if c = CR \<or> c = LF then [] # split_lines cs
     else case split_lines cs of [] \<Rightarrow> [[c]] | l # ls \<Rightarrow> (c # l) # ls)"

text \<open>\<open>split(CRLF)\<close>\<close>

fun split_crlf :: "string \<Rightarrow> string list" where
  "split_crlf [] = [[]]"
| "split_crlf (c # cs) =
    (if c = CR \<and> cs \<noteq> [] \<and> hd cs = LF then [] # split_crlf (tl cs)
     else case split_crlf cs of [] \<Rightarrow> [[c]] | l # ls \<Rightarrow> (c # l) # ls)"

definition no_break :: "string \<Rightarrow> bool" where
  "no_break l \<longleftrightarrow> CR \<notin> set l \<and> LF \<notin> set l"

definition assertNoLineBreak :: "string \<Rightarrow> bool" where
  "assertNoLineBreak s \<longleftrightarrow> \<not> (CR \<in> set s \<or> LF \<in> set s)"

lemma assertNoLineBreak_iff: "assertNoLineBreak s \<longleftrightarrow> no_break s"
  by (auto simp: assertNoLineBreak_def no_break_def)

lemma no_break_simps [simp]: "no_break []" "no_break (c # l) \<longleftrightarrow> c \<noteq> CR \<and> c \<noteq> LF \<and> no_break l" "no_break (l @ l') \<longleftrightarrow> no_break l \<and> no_break l'"
  by (auto simp: no_break_def)

lemma split_lines_nonempty [simp]: "split_lines s \<noteq> []"
  by (cases s) (auto split: list.split)

lemma split_crlf_nonempty [simp]: "split_crlf s \<noteq> []"
  by (cases s) (auto split: list.split)

lemma split_lines_no_break: "l \<in> set (split_lines s) \<Longrightarrow> no_break l"
  by (induction s arbitrary: l rule: split_lines.induct) (fastforce split: list.splits if_splits)+

lemma split_lines_line: "no_break l \<Longrightarrow> split_lines (l @ CRLF @ s) = l # split_lines s"
  by (induction l) (auto simp: CRLF_def)

lemma split_crlf_line: "no_break l \<Longrightarrow> split_crlf (l @ CRLF @ s) = l # split_crlf s"
  by (induction l) (auto simp: CRLF_def)

lemma split_lines_single: "no_break l \<Longrightarrow> split_lines l = [l]"
  by (induction l) auto

lemma split_crlf_single: "no_break l \<Longrightarrow> split_crlf l = [l]"
  by (induction l) auto

lemma join_with_Cons: "ls \<noteq> [] \<Longrightarrow> join_with sep (l # ls) = l @ sep @ join_with sep ls"
  by (cases ls) auto

lemma join_with_append: "ls \<noteq> [] \<Longrightarrow> ms \<noteq> [] \<Longrightarrow> join_with sep (ls @ ms) = join_with sep ls @ sep @ join_with sep ms"
  by (induction ls rule: list_nonempty_induct) (auto simp: join_with_Cons)

lemma split_lines_join: "ls \<noteq> [] \<Longrightarrow> (\<And>l. l \<in> set ls \<Longrightarrow> no_break l) \<Longrightarrow> split_lines (join_with CRLF ls) = ls"
  by (induction ls rule: list_nonempty_induct) (auto simp: join_with_Cons split_lines_single split_lines_line)

lemma split_crlf_join_append:
  "ls \<noteq> [] \<Longrightarrow> (\<And>l. l \<in> set ls \<Longrightarrow> no_break l) \<Longrightarrow> split_crlf (join_with CRLF ls @ CRLF @ s) = ls @ split_crlf s"
  by (induction ls rule: list_nonempty_induct) (auto simp: join_with_Cons split_crlf_line)

section \<open>Quoted-printable\<close>

definition QP_LINE_LENGTH :: nat where "QP_LINE_LENGTH = 76"

definition upper_hex_digits :: string where "upper_hex_digits = ''0123456789ABCDEF''"

definition hex2 :: "char \<Rightarrow> string" where
  "hex2 c = [upper_hex_digits ! (of_char c div 16), upper_hex_digits ! (of_char c mod 16)]"

definition isPrintableAscii :: "char \<Rightarrow> bool" where
  "isPrintableAscii c \<longleftrightarrow> (0x21 :: nat) \<le> of_char c \<and> of_char c \<le> (0x7e :: nat) \<and> of_char c \<noteq> (0x3d :: nat)"

definition isSafeWhitespace :: "char \<Rightarrow> bool \<Rightarrow> bool" where
  "isSafeWhitespace c isLast \<longleftrightarrow> (c = CHR '' '' \<or> c = TAB) \<and> \<not> isLast"

fun qp_escape :: "string \<Rightarrow> string" where
  "qp_escape [] = []"
| "qp_escape (c # cs) = (if isPrintableAscii c \<or> isSafeWhitespace c (cs = []) then [c] else ''='' @ hex2 c) @ qp_escape cs"

definition soft_cut :: "string \<Rightarrow> nat" where
  "soft_cut rest = (if rest ! (QP_LINE_LENGTH - 1) = CHR ''='' then QP_LINE_LENGTH - 1
     else if rest ! (QP_LINE_LENGTH - 2) = CHR ''='' then QP_LINE_LENGTH - 2 else QP_LINE_LENGTH)"

lemma soft_cut_bounds: "74 \<le> soft_cut rest" "soft_cut rest \<le> 76" "0 < soft_cut rest"
  by (simp_all add: soft_cut_def QP_LINE_LENGTH_def)

function soft_segments :: "string \<Rightarrow> string list" where
  "soft_segments rest = (if QP_LINE_LENGTH < length rest
     then (take (soft_cut rest) rest @ ''='') # soft_segments (drop (soft_cut rest) rest) else [rest])"
  by auto
termination by (relation "measure length") (auto simp: QP_LINE_LENGTH_def intro!: diff_less soft_cut_bounds)

declare soft_segments.simps [simp del]

definition softWrapQuotedPrintable :: "string \<Rightarrow> string" where
  "softWrapQuotedPrintable encoded = join_with CRLF (soft_segments encoded)"

definition quotedPrintableEncodeLine :: "string \<Rightarrow> string" where
  "quotedPrintableEncodeLine line = softWrapQuotedPrintable (qp_escape line)"

definition quotedPrintableEncode :: "string \<Rightarrow> string" where
  "quotedPrintableEncode s = join_with CRLF (map quotedPrintableEncodeLine (split_lines s))"

text \<open>A line that starts with a dot gets a second one.\<close>

definition stuff :: "string \<Rightarrow> string" where
  "stuff line = (if line \<noteq> [] \<and> hd line = CHR ''.'' then CHR ''.'' # line else line)"

definition dotStuff :: "string \<Rightarrow> string" where
  "dotStuff s = join_with CRLF (map stuff (split_lines s))"

record smtp_message =
  sm_fromAddress :: string
  sm_toAddress :: string
  sm_subject :: string
  sm_bodyText :: string

text \<open>The date and the random part of the identifier are arguments.\<close>

definition message_headers :: "string \<Rightarrow> string \<Rightarrow> smtp_message \<Rightarrow> string list" where
  "message_headers date rnd m = [''From: '' @ sm_fromAddress m, ''To: '' @ sm_toAddress m, ''Subject: '' @ sm_subject m, ''Date: '' @ date,
     ''Message-ID: <'' @ rnd @ ''@arald-email-relay>'', ''MIME-Version: 1.0'', ''Content-Type: text/plain; charset=utf-8'',
     ''Content-Transfer-Encoding: quoted-printable'']"

definition buildMessageSource :: "string \<Rightarrow> string \<Rightarrow> smtp_message \<Rightarrow> string" where
  "buildMessageSource date rnd m = join_with CRLF (message_headers date rnd m) @ CRLF @ CRLF @ dotStuff (quotedPrintableEncode (sm_bodyText m))"

definition ends_with :: "string \<Rightarrow> string \<Rightarrow> bool" where
  "ends_with s suffix \<longleftrightarrow> length suffix \<le> length s \<and> drop (length s - length suffix) s = suffix"

definition smtp_terminator :: "string \<Rightarrow> string" where
  "smtp_terminator source = (if ends_with source CRLF then ''.'' @ CRLF else CRLF @ ''.'' @ CRLF)"


section \<open>What the receiver makes of it\<close>

text \<open>The receiver takes lines up to a single dot, drops a leading dot, joins soft breaks and decodes the escapes.\<close>

definition unstuffed :: "string \<Rightarrow> string" where
  "unstuffed l = (if l \<noteq> [] \<and> hd l = CHR ''.'' then tl l else l)"

definition received_lines :: "string \<Rightarrow> string list" where
  "received_lines stream = map unstuffed (takeWhile (\<lambda>l. l \<noteq> ''.'') (split_crlf stream))"

definition hex_digit_value :: "char \<Rightarrow> nat" where
  "hex_digit_value c = (case map_of (zip upper_hex_digits [0..<16]) c of Some i \<Rightarrow> i | None \<Rightarrow> 0)"

fun qp_decode :: "string \<Rightarrow> string" where
  "qp_decode [] = []"
| "qp_decode (c # cs) = (if c \<noteq> CHR ''='' then c # qp_decode cs else
     (case cs of h # l # rest \<Rightarrow> if h = CR \<and> l = LF then qp_decode rest else char_of (16 * hex_digit_value h + hex_digit_value l) # qp_decode rest | _ \<Rightarrow> []))"

definition ended :: "string list \<Rightarrow> string" where
  "ended ls = concat (map (\<lambda>l. l @ CRLF) ls)"

text \<open>The lines of a text, without the empty one behind a last line break.\<close>

definition text_lines :: "string \<Rightarrow> string list" where
  "text_lines s = (let ls = split_lines s in if List.last ls = [] then butlast ls else ls)"

section \<open>Escapes survive\<close>

definition qp_token :: "string \<Rightarrow> char \<Rightarrow> bool" where
  "qp_token t c \<longleftrightarrow> (t = [c] \<and> c \<noteq> CHR ''='' \<and> c \<noteq> CR \<and> c \<noteq> LF) \<or> t = ''='' @ hex2 c"

lemma isPrintableAscii_neq: "isPrintableAscii c \<Longrightarrow> c \<noteq> CHR ''='' \<and> c \<noteq> CR \<and> c \<noteq> LF"
  by (auto simp: isPrintableAscii_def)

lemma qp_escape_tokens: "\<exists>ts. qp_escape s = concat ts \<and> list_all2 qp_token ts s"
proof (induction s)
  case (Cons c cs)
  then obtain ts where ts: "qp_escape cs = concat ts" "list_all2 qp_token ts cs" by blast
  let ?t = "if isPrintableAscii c \<or> isSafeWhitespace c (cs = []) then [c] else ''='' @ hex2 c"
  have "qp_token ?t c" using isPrintableAscii_neq[of c] by (auto simp: qp_token_def isSafeWhitespace_def)
  then have "list_all2 qp_token (?t # ts) (c # cs)" using ts(2) by simp
  moreover have "qp_escape (c # cs) = concat (?t # ts)" using ts(1) by simp
  ultimately show ?case by blast
qed simp

lemma of_char_lt: "(of_char c :: nat) < 256"
  by (rule nat_of_char_less_256)

lemma hex_digit_facts:
  "list_all (\<lambda>i. hex_digit_value (upper_hex_digits ! i) = i \<and> upper_hex_digits ! i \<noteq> CHR ''='' \<and> upper_hex_digits ! i \<noteq> CR \<and> upper_hex_digits ! i \<noteq> LF) [0..<16]"
  by code_simp

lemma hex_digit_nth: "i < 16 \<Longrightarrow> hex_digit_value (upper_hex_digits ! i) = i"
  "i < 16 \<Longrightarrow> upper_hex_digits ! i \<noteq> CHR ''=''" "i < 16 \<Longrightarrow> upper_hex_digits ! i \<noteq> CR" "i < 16 \<Longrightarrow> upper_hex_digits ! i \<noteq> LF"
  using hex_digit_facts by (auto simp: list_all_iff)

lemma hex2_bounds: "of_char c div (16::nat) < 16" "of_char c mod (16::nat) < 16"
  using of_char_lt[of c] by (simp_all add: div_less_iff_less_mult)

lemma hex2_chars: "\<exists>h l. hex2 c = [h, l] \<and> h \<noteq> CHR ''='' \<and> l \<noteq> CHR ''='' \<and> h \<noteq> CR \<and> h \<noteq> LF \<and> l \<noteq> CR \<and> l \<noteq> LF \<and>
    char_of (16 * hex_digit_value h + hex_digit_value l) = c"
  using hex2_bounds[of c] by (simp add: hex2_def hex_digit_nth)

lemma qp_decode_token: "qp_token t c \<Longrightarrow> qp_decode (t @ r) = c # qp_decode r"
  using hex2_chars[of c] by (auto simp: qp_token_def)

lemma qp_decode_tokens: "list_all2 qp_token ts s \<Longrightarrow> qp_decode (concat ts @ r) = s @ qp_decode r"
  by (induction rule: list_all2_induct) (auto simp: qp_decode_token)

lemma qp_token_no_break: "qp_token t c \<Longrightarrow> no_break t"
  using hex2_chars[of c] by (auto simp: qp_token_def)

lemma qp_tokens_no_break: "list_all2 qp_token ts s \<Longrightarrow> no_break (concat ts)"
  by (induction rule: list_all2_induct) (auto simp: qp_token_no_break)


section \<open>Soft line breaks\<close>

text \<open>A cut is made between two escapes, never inside one.\<close>

definition boundary :: "nat \<Rightarrow> string list \<Rightarrow> bool" where
  "boundary n ts \<longleftrightarrow> (\<exists>us vs. ts = us @ vs \<and> length (concat us) = n)"

lemma boundary_Cons: "boundary n ts \<Longrightarrow> boundary (length t + n) (t # ts)"
  unfolding boundary_def by (metis append_Cons concat.simps(2) length_append)

lemma boundary_0 [simp]: "boundary 0 ts"
  unfolding boundary_def by (rule exI[of _ "[]"]) simp

lemma token_shape: "qp_token t c \<Longrightarrow> t = [c] \<and> c \<noteq> CHR ''='' \<or> (\<exists>h l. t = [CHR ''='', h, l] \<and> h \<noteq> CHR ''='' \<and> l \<noteq> CHR ''='')"
  using hex2_chars[of c] by (auto simp: qp_token_def)

lemma boundary_at_escape: "list_all2 qp_token ts s \<Longrightarrow> n < length (concat ts) \<Longrightarrow> concat ts ! n = CHR ''='' \<Longrightarrow> boundary n ts"
proof (induction arbitrary: n rule: list_all2_induct)
  case (Cons t ts c s)
  show ?case
  proof (cases "n < length t")
    case True
    then have "n = 0" using Cons.prems token_shape[OF Cons.hyps(1)] by (auto simp: nth_append less_Suc_eq)
    then show ?thesis by simp
  next
    case False
    then have "boundary (n - length t) ts" using Cons.prems by (intro Cons.IH) (auto simp: nth_append)
    from boundary_Cons[OF this, of t] False show ?thesis by simp
  qed
qed simp

lemma boundary_after_escape:
  "list_all2 qp_token ts s \<Longrightarrow> n \<le> length (concat ts) \<Longrightarrow> (0 < n \<Longrightarrow> concat ts ! (n - 1) \<noteq> CHR ''='') \<Longrightarrow> (1 < n \<Longrightarrow> concat ts ! (n - 2) \<noteq> CHR ''='') \<Longrightarrow> boundary n ts"
proof (induction arbitrary: n rule: list_all2_induct)
  case (Cons t ts c s)
  show ?case
  proof (cases "n < length t")
    case True
    have "n = 0 \<or> n = 1 \<or> n = 2" using True token_shape[OF Cons.hyps(1)] by auto
    then have "n = 0" using True Cons.prems(2,3) token_shape[OF Cons.hyps(1)] by auto
    then show ?thesis by simp
  next
    case False
    have shift: "k \<le> n - length t \<Longrightarrow> concat (t # ts) ! (n - k) = concat ts ! (n - length t - k)" for k
      using nth_append_length_plus[of t "concat ts" "n - length t - k"] False by simp
    have "boundary (n - length t) ts"
    proof (rule Cons.IH)
      show "n - length t \<le> length (concat ts)" using Cons.prems(1) by simp
      show "concat ts ! (n - length t - 1) \<noteq> CHR ''=''" if "0 < n - length t" using Cons.prems(2) that shift[of 1] by simp
      show "concat ts ! (n - length t - 2) \<noteq> CHR ''=''" if "1 < n - length t" using Cons.prems(3) that shift[of 2] by simp
    qed
    from boundary_Cons[OF this, of t] False show ?thesis by simp
  qed
qed (simp add: boundary_def)

lemma soft_cut_boundary: "list_all2 qp_token ts s \<Longrightarrow> QP_LINE_LENGTH < length (concat ts) \<Longrightarrow> boundary (soft_cut (concat ts)) ts"
  using boundary_at_escape[of ts s 75] boundary_at_escape[of ts s 74] boundary_after_escape[of ts s 76]
  by (simp add: soft_cut_def QP_LINE_LENGTH_def)

lemma soft_cut_split:
  assumes "list_all2 qp_token ts s" "QP_LINE_LENGTH < length (concat ts)"
  obtains us vs s1 s2 where "take (soft_cut (concat ts)) (concat ts) = concat us" "drop (soft_cut (concat ts)) (concat ts) = concat vs"
    "s = s1 @ s2" "list_all2 qp_token us s1" "list_all2 qp_token vs s2" "length s2 < length s"
proof -
  obtain us vs where u: "ts = us @ vs" "length (concat us) = soft_cut (concat ts)" using soft_cut_boundary[OF assms] by (auto simp: boundary_def)
  obtain s1 s2 where s: "s = s1 @ s2" "list_all2 qp_token us s1" "list_all2 qp_token vs s2" using assms(1) unfolding u(1) list_all2_append1 by blast
  have "us \<noteq> []" using u(2) soft_cut_bounds(3)[of "concat ts"] by auto
  then have "s1 \<noteq> []" using s(2) by auto
  have "take (soft_cut (concat ts)) (concat ts) = concat us" "drop (soft_cut (concat ts)) (concat ts) = concat vs"
    using u(2) unfolding u(1) concat_append by simp_all
  then show thesis using that s \<open>s1 \<noteq> []\<close> by simp
qed

lemma decode_segments:
  "list_all2 qp_token ts s \<Longrightarrow> qp_decode (join_with CRLF (soft_segments (concat ts)) @ r) = s @ qp_decode r"
proof (induction "length s" arbitrary: ts s rule: less_induct)
  case less
  show ?case
  proof (cases "QP_LINE_LENGTH < length (concat ts)")
    case True
    obtain us vs s1 s2 where p: "take (soft_cut (concat ts)) (concat ts) = concat us" "drop (soft_cut (concat ts)) (concat ts) = concat vs"
      "s = s1 @ s2" "list_all2 qp_token us s1" "list_all2 qp_token vs s2" "length s2 < length s" using soft_cut_split[OF less.prems True] .
    have ne: "soft_segments (concat vs) \<noteq> []" by (subst soft_segments.simps) simp
    have "soft_segments (concat ts) = (concat us @ ''='') # soft_segments (concat vs)"
      by (subst soft_segments.simps) (simp only: True if_True p(1,2))
    then have "join_with CRLF (soft_segments (concat ts)) @ r = concat us @ CHR ''='' # CR # LF # join_with CRLF (soft_segments (concat vs)) @ r"
      using ne by (simp add: join_with_Cons CRLF_def)
    then show ?thesis using less.hyps[OF p(6,5)] qp_decode_tokens[OF p(4)] p(3) by simp
  next
    case False
    then have "soft_segments (concat ts) = [concat ts]" by (subst soft_segments.simps) simp
    then show ?thesis using qp_decode_tokens[OF less.prems] by simp
  qed
qed

lemma decode_line: "qp_decode (quotedPrintableEncodeLine l @ r) = l @ qp_decode r"
proof -
  obtain ts where "qp_escape l = concat ts" "list_all2 qp_token ts l" using qp_escape_tokens by blast
  then show ?thesis using decode_segments[of ts l r] by (simp add: quotedPrintableEncodeLine_def softWrapQuotedPrintable_def)
qed


section \<open>The body arrives\<close>

abbreviation qp_lines :: "string \<Rightarrow> string list" where
  "qp_lines l \<equiv> soft_segments (qp_escape l)"

lemma soft_segments_nonempty [simp]: "soft_segments e \<noteq> []"
  by (subst soft_segments.simps) simp

lemma ended_simps [simp]: "ended [] = []" "ended (l # ls) = l @ CRLF @ ended ls" "ended (ls @ ms) = ended ls @ ended ms"
  by (simp_all add: ended_def)

lemma join_ended: "ls \<noteq> [] \<Longrightarrow> join_with CRLF ls @ CRLF = ended ls"
  by (induction ls rule: list_nonempty_induct) (auto simp: join_with_Cons)

lemma join_butlast: "ls \<noteq> [] \<Longrightarrow> join_with CRLF ls = ended (butlast ls) @ List.last ls"
  by (induction ls rule: list_nonempty_induct) (auto simp: join_with_Cons)

lemma join_concat: "lss \<noteq> [] \<Longrightarrow> (\<And>ls. ls \<in> set lss \<Longrightarrow> ls \<noteq> []) \<Longrightarrow> join_with CRLF (map (join_with CRLF) lss) = join_with CRLF (concat lss)"
  by (induction lss rule: list_nonempty_induct) (auto simp: join_with_Cons join_with_append)

lemma qp_lines_no_break: "w \<in> set (qp_lines l) \<Longrightarrow> no_break w"
proof -
  have "list_all2 qp_token ts s \<Longrightarrow> w \<in> set (soft_segments (concat ts)) \<Longrightarrow> no_break w" for ts s
  proof (induction "length s" arbitrary: ts s rule: less_induct)
    case less
    show ?case
    proof (cases "QP_LINE_LENGTH < length (concat ts)")
      case True
      obtain us vs s1 s2 where p: "take (soft_cut (concat ts)) (concat ts) = concat us" "drop (soft_cut (concat ts)) (concat ts) = concat vs"
        "s = s1 @ s2" "list_all2 qp_token us s1" "list_all2 qp_token vs s2" "length s2 < length s" using soft_cut_split[OF less.prems(1) True] .
      have "soft_segments (concat ts) = (concat us @ ''='') # soft_segments (concat vs)"
        by (subst soft_segments.simps) (simp only: True if_True p(1,2))
      then show ?thesis using less.hyps[OF p(6,5)] less.prems(2) qp_tokens_no_break[OF p(4)] by auto
    next
      case False
      then have "soft_segments (concat ts) = [concat ts]" by (subst soft_segments.simps) simp
      then show ?thesis using less.prems qp_tokens_no_break by auto
    qed
  qed
  then show "w \<in> set (qp_lines l) \<Longrightarrow> no_break w" using qp_escape_tokens[of l] by metis
qed

lemma encode_lines: "quotedPrintableEncode s = join_with CRLF (concat (map qp_lines (split_lines s)))"
proof -
  have "quotedPrintableEncodeLine = join_with CRLF \<circ> qp_lines" by (simp add: fun_eq_iff quotedPrintableEncodeLine_def softWrapQuotedPrintable_def)
  moreover have "join_with CRLF (map (join_with CRLF) (map qp_lines (split_lines s))) = join_with CRLF (concat (map qp_lines (split_lines s)))"
    by (rule join_concat) auto
  ultimately show ?thesis by (simp add: quotedPrintableEncode_def)
qed

lemma split_encode: "split_lines (quotedPrintableEncode s) = concat (map qp_lines (split_lines s))"
  unfolding encode_lines by (rule split_lines_join) (auto simp: qp_lines_no_break)

lemma soft_segments_last: "List.last (soft_segments e) = [] \<longleftrightarrow> e = []"
proof (induction e rule: soft_segments.induct)
  case (1 rest)
  show ?case
  proof (cases "QP_LINE_LENGTH < length rest")
    case True
    have seg: "soft_segments rest = (take (soft_cut rest) rest @ ''='') # soft_segments (drop (soft_cut rest) rest)"
      by (subst soft_segments.simps) (simp only: True if_True)
    show ?thesis using 1[OF True] True soft_cut_bounds(2)[of rest] by (auto simp: seg QP_LINE_LENGTH_def)
  qed (subst soft_segments.simps, simp)
qed

lemma qp_escape_empty: "qp_escape l = [] \<longleftrightarrow> l = []"
  by (cases l) auto

lemma soft_segments_empty: "soft_segments [] = [[]]"
  by (subst soft_segments.simps) simp

lemma sent_body: "(let ls = concat (map qp_lines (split_lines s)) in if List.last ls = [] then butlast ls else ls) = concat (map qp_lines (text_lines s))"
proof -
  have "concat (map qp_lines (butlast (split_lines s) @ [List.last (split_lines s)])) =
      concat (map qp_lines (butlast (split_lines s))) @ qp_lines (List.last (split_lines s))" by (simp del: append_butlast_last_id)
  then have c: "concat (map qp_lines (split_lines s)) = concat (map qp_lines (butlast (split_lines s))) @ qp_lines (List.last (split_lines s))" by simp
  show ?thesis unfolding c text_lines_def Let_def using c by (simp add: soft_segments_last qp_escape_empty soft_segments_empty)
qed

lemma decode_body: "qp_decode (ended (concat (map qp_lines ls)) @ r) = ended ls @ qp_decode r"
proof (induction ls)
  case (Cons l ls)
  have "ended (qp_lines l) = quotedPrintableEncodeLine l @ CRLF"
    by (simp add: quotedPrintableEncodeLine_def softWrapQuotedPrintable_def flip: join_ended)
  then show ?case using Cons decode_line[of l "CRLF @ ended (concat (map qp_lines ls)) @ r"] by (simp add: CRLF_def)
qed simp

lemma stuff_facts [simp]: "unstuffed (stuff l) = l" "stuff l \<noteq> ''.''" "''.'' \<noteq> stuff l" "stuff l = [] \<longleftrightarrow> l = []" "no_break (stuff l) \<longleftrightarrow> no_break l"
  by (cases l; auto simp: stuff_def unstuffed_def)+

lemma header_facts: "h \<in> set (message_headers date rnd m) \<Longrightarrow> h \<noteq> ''.'' \<and> unstuffed h = h"
  by (auto simp: message_headers_def unstuffed_def)

lemma source_lines:
  "buildMessageSource date rnd m = join_with CRLF (message_headers date rnd m @ [] # map stuff (concat (map qp_lines (split_lines (sm_bodyText m)))))"
  unfolding buildMessageSource_def dotStuff_def split_encode
  by (subst join_with_append) (simp_all add: join_with_Cons message_headers_def)

lemma ends_with_crlf:
  assumes "ls \<noteq> []" "no_break (List.last ls)"
  shows "ends_with (join_with CRLF ls) CRLF \<longleftrightarrow> List.last ls = [] \<and> butlast ls \<noteq> []"
proof (cases "List.last ls = []")
  case True
  show ?thesis unfolding join_butlast[OF assms(1)] using True by (cases "butlast ls" rule: rev_cases) (auto simp: ends_with_def CRLF_def)
next
  case False
  then obtain x c where x: "List.last ls = x @ [c]" by (cases "List.last ls" rule: rev_cases) auto
  show ?thesis using assms(2) unfolding join_butlast[OF assms(1)] x
    by (auto simp: ends_with_def CRLF_def Cons_nth_drop_Suc[symmetric] nth_append dest!: arg_cong[of _ _ List.last])
qed


lemma takeWhile_dot: "(\<And>l. l \<in> set ls \<Longrightarrow> l \<noteq> ''.'') \<Longrightarrow> takeWhile (\<lambda>l. l \<noteq> ''.'') (ls @ ''.'' # r) = ls"
  by (induction ls) auto

lemma split_ended: "(\<And>l. l \<in> set ls \<Longrightarrow> no_break l) \<Longrightarrow> split_crlf (ended ls @ r) = ls @ split_crlf r"
  by (induction ls) (auto simp: split_crlf_line)

lemma stream_lines:
  assumes "ls \<noteq> []" "butlast ls \<noteq> []" "\<And>l. l \<in> set ls \<Longrightarrow> no_break l"
  shows "split_crlf (join_with CRLF ls @ smtp_terminator (join_with CRLF ls) @ r) = (if List.last ls = [] then butlast ls else ls) @ ''.'' # split_crlf r"
proof -
  have dot: "split_crlf (''.'' @ CRLF @ r) = ''.'' # split_crlf r" by (rule split_crlf_line) simp
  have "no_break (List.last ls)" using assms by simp
  from ends_with_crlf[OF assms(1) this]
  have t: "smtp_terminator (join_with CRLF ls) = (if List.last ls = [] then ''.'' @ CRLF else CRLF @ ''.'' @ CRLF)" using assms(2) by (simp add: smtp_terminator_def)
  show ?thesis
  proof (cases "List.last ls = []")
    case True
    have eq: "join_with CRLF ls @ smtp_terminator (join_with CRLF ls) @ r = ended (butlast ls) @ ''.'' @ CRLF @ r"
      unfolding t using True join_butlast[OF assms(1)] by simp
    have sp: "split_crlf (ended (butlast ls) @ ''.'' @ CRLF @ r) = butlast ls @ split_crlf (''.'' @ CRLF @ r)"
      by (rule split_ended) (rule assms(3), erule in_set_butlastD)
    show ?thesis unfolding eq sp dot if_P[OF True] ..
  next
    case False
    have "join_with CRLF ls @ smtp_terminator (join_with CRLF ls) @ r = (join_with CRLF ls @ CRLF) @ ''.'' @ CRLF @ r"
      unfolding t by (simp only: False if_False append_assoc)
    then have eq: "join_with CRLF ls @ smtp_terminator (join_with CRLF ls) @ r = ended ls @ ''.'' @ CRLF @ r" unfolding join_ended[OF assms(1)] .
    have sp: "split_crlf (ended ls @ ''.'' @ CRLF @ r) = ls @ split_crlf (''.'' @ CRLF @ r)" using assms(3) by (rule split_ended)
    show ?thesis unfolding eq sp dot if_not_P[OF False] ..
  qed
qed

definition headers_clean :: "string \<Rightarrow> string \<Rightarrow> smtp_message \<Rightarrow> bool" where
  "headers_clean date rnd m \<longleftrightarrow> no_break date \<and> no_break rnd \<and> assertNoLineBreak (sm_fromAddress m) \<and> assertNoLineBreak (sm_toAddress m) \<and> assertNoLineBreak (sm_subject m)"

lemma message_stream:
  assumes "headers_clean date rnd m"
  shows "split_crlf (buildMessageSource date rnd m @ smtp_terminator (buildMessageSource date rnd m) @ r) =
    message_headers date rnd m @ [] # map stuff (concat (map qp_lines (text_lines (sm_bodyText m)))) @ ''.'' # split_crlf r"
proof -
  let ?w = "map stuff (concat (map qp_lines (split_lines (sm_bodyText m))))" and ?h = "message_headers date rnd m"
  let ?ls = "?h @ [] # ?w"
  have h: "no_break l" if "l \<in> set ?h" for l using that assms by (auto simp: message_headers_def headers_clean_def assertNoLineBreak_iff)
  have clean: "no_break l" if "l \<in> set ?ls" for l using that h by (auto simp: qp_lines_no_break)
  have w: "?w \<noteq> []" by simp
  have two: "butlast ?ls \<noteq> []" by (simp add: butlast_append)
  have l: "List.last ?ls = [] \<longleftrightarrow> List.last (concat (map qp_lines (split_lines (sm_bodyText m)))) = []" using w by (auto simp: last_map)
  have "(if List.last ?ls = [] then butlast ?ls else ?ls) = ?h @ [] # map stuff (concat (map qp_lines (text_lines (sm_bodyText m))))"
    unfolding l sent_body[symmetric] using w by (simp add: butlast_append map_butlast)
  then show ?thesis using stream_lines[OF _ two clean, of r] unfolding source_lines by simp
qed

text \<open>C25: Whatever the text of a message, the mail server finds the end of the message exactly where the client put it, so that nothing in the text can act as a command, and
  what it receives is the headers, an empty line and lines that decode to the lines of the text.\<close>

theorem email_body_arrives:
  assumes "headers_clean date rnd m" and "stream = buildMessageSource date rnd m @ smtp_terminator (buildMessageSource date rnd m) @ commands"
  shows "dropWhile (\<lambda>l. l \<noteq> ''.'') (split_crlf stream) = ''.'' # split_crlf commands \<and>
    take 9 (received_lines stream) = message_headers date rnd m @ [[]] \<and>
    qp_decode (ended (drop 9 (received_lines stream))) = ended (text_lines (sm_bodyText m))"
proof -
  let ?b = "concat (map qp_lines (text_lines (sm_bodyText m)))"
  let ?ls = "message_headers date rnd m @ [] # map stuff ?b"
  have s: "split_crlf stream = ?ls @ ''.'' # split_crlf commands" unfolding assms(2) using message_stream[OF assms(1)] by simp
  have ne: "l \<noteq> ''.''" if "l \<in> set ?ls" for l using that header_facts by auto
  have end': "dropWhile (\<lambda>l. l \<noteq> ''.'') (split_crlf stream) = ''.'' # split_crlf commands"
    unfolding s using ne by (subst dropWhile_append2) auto
  have "map unstuffed (message_headers date rnd m) = message_headers date rnd m" using header_facts by (simp add: map_idI)
  moreover have "takeWhile (\<lambda>l. l \<noteq> ''.'') (split_crlf stream) = ?ls" unfolding s by (rule takeWhile_dot) (use ne in blast)
  ultimately have r: "received_lines stream = message_headers date rnd m @ [] # ?b"
    by (simp add: received_lines_def comp_def unstuffed_def[of "[]"])
  have n: "length (message_headers date rnd m) = 8" by (simp add: message_headers_def)
  show ?thesis using end' decode_body[of _ "[]"] by (simp add: r n)
qed


section \<open>The lengths of the lines\<close>

lemma soft_segments_bound: "w \<in> set (soft_segments e) \<Longrightarrow> length w \<le> QP_LINE_LENGTH + 1"
proof (induction e rule: soft_segments.induct)
  case (1 rest)
  show ?case
  proof (cases "QP_LINE_LENGTH < length rest")
    case True
    have seg: "soft_segments rest = (take (soft_cut rest) rest @ ''='') # soft_segments (drop (soft_cut rest) rest)"
      by (subst soft_segments.simps) (simp only: True if_True)
    show ?thesis using 1 True soft_cut_bounds(2)[of rest] by (auto simp: seg QP_LINE_LENGTH_def)
  next
    case False
    then have "soft_segments rest = [rest]" by (subst soft_segments.simps) simp
    then show ?thesis using 1 False by simp
  qed
qed

lemma printable_as_is: "list_all isPrintableAscii s \<Longrightarrow> qp_escape s = s"
  by (induction s) auto

lemma printable_no_break: "list_all isPrintableAscii s \<Longrightarrow> no_break s"
  by (induction s) (auto dest: isPrintableAscii_neq)

text \<open>No line of the encoded text is longer than 77 characters. That is one more than the 76 that RFC 2045 and the comment of the function allow, the soft break's \<open>=\<close>
  included, and it is reached: any text of more than 76 printable characters in a row starts with a line of 77.\<close>

theorem encoded_line_length:
  "list_all (\<lambda>w. length w \<le> 77) (split_lines (quotedPrintableEncode s)) \<and>
   (list_all isPrintableAscii s \<longrightarrow> 76 < length s \<longrightarrow> length (hd (split_lines (quotedPrintableEncode s))) = 77)"
proof
  show "list_all (\<lambda>w. length w \<le> 77) (split_lines (quotedPrintableEncode s))"
    using soft_segments_bound by (fastforce simp: list_all_iff split_encode QP_LINE_LENGTH_def)
  show "list_all isPrintableAscii s \<longrightarrow> 76 < length s \<longrightarrow> length (hd (split_lines (quotedPrintableEncode s))) = 77"
  proof (intro impI)
    assume p: "list_all isPrintableAscii s" and n: "76 < length s"
    have "s ! i \<noteq> CHR ''=''" if "i < length s" for i using p that isPrintableAscii_neq by (auto simp: list_all_length)
    then have cut: "soft_cut s = 76" using n by (simp add: soft_cut_def QP_LINE_LENGTH_def)
    have "qp_lines s = (take 76 s @ ''='') # soft_segments (drop 76 s)"
      using n cut by (subst soft_segments.simps) (simp add: printable_as_is[OF p] QP_LINE_LENGTH_def)
    then show "length (hd (split_lines (quotedPrintableEncode s))) = 77"
      using n by (simp add: split_encode split_lines_single[OF printable_no_break[OF p]])
  qed
qed

section \<open>Examples\<close>

definition sample_message :: smtp_message where
  "sample_message = \<lparr>sm_fromAddress = ''a@b'', sm_toAddress = ''c@d'', sm_subject = ''x'', sm_bodyText = ''.'' @ [LF] @ ''a=b '' @ [CR, LF]\<rparr>"

lemma email_body_arrives_witness:
  "qp_decode (ended (drop 9 (received_lines (buildMessageSource ''d'' ''r'' sample_message @ smtp_terminator (buildMessageSource ''d'' ''r'' sample_message) @ ''QUIT'' @ CRLF))))
   = ''.'' @ CRLF @ ''a=b '' @ CRLF"
proof -
  have "headers_clean ''d'' ''r'' sample_message" by code_simp
  moreover have "ended (text_lines (sm_bodyText sample_message)) = ''.'' @ CRLF @ ''a=b '' @ CRLF" by code_simp
  ultimately show ?thesis using email_body_arrives[of "''d''" "''r''" sample_message _ "''QUIT'' @ CRLF", OF _ refl] by simp
qed

lemma encoded_line_length_witness: "length (hd (split_lines (quotedPrintableEncode (replicate 80 CHR ''a'')))) = 77"
  using encoded_line_length[of "replicate 80 CHR ''a''"] by (simp add: list_all_iff isPrintableAscii_def)

end
