(* ===== verification/Smtp.thy ===== *)
theory Smtp
  imports SmtpText "HOL-Library.Sublist"
begin

text \<open>
  The conversation with the mail server (\<open>email-relay/smtp-client.ts\<close>): the reader that takes responses of one or more lines out of arbitrary chunks, and
  \<open>sendEmail\<close>, a fixed sequence of commands, each sent once the response to the one before has the expected code. The chunks, errors and timeouts
  of the socket are a list of events.
\<close>

section \<open>Responses\<close>

datatype smtp_error = LineBreakIn string | NotConnected | MalformedLine string | InconsistentCode "string list" | TimedOut | SocketBroken | ConnectionClosed
  | StepFailed string nat "string list"

record smtp_response =
  sr_code :: nat
  sr_lines :: "string list"

datatype socket_event = Data string | SocketError | SocketClose | Timeout

definition digit_of :: "char \<Rightarrow> nat option" where
  "digit_of c = (let n = of_char c in if 48 \<le> n \<and> n \<le> 57 then Some (n - 48) else None)"

text \<open>\<open>/^(\d{3})([ -])/\<close>: the number and the separator.\<close>

definition status_prefix :: "string \<Rightarrow> (nat \<times> char) option" where
  "status_prefix l = (case l of a # b # c # s # _ \<Rightarrow>
       (case (digit_of a, digit_of b, digit_of c) of
          (Some i, Some j, Some k) \<Rightarrow> if s = CHR '' '' \<or> s = CHR ''-'' then Some (100 * i + 10 * j + k, s) else None
        | _ \<Rightarrow> None)
     | _ \<Rightarrow> None)"

text \<open>\<open>.\<close> matches no line terminator: neither CR and LF nor the separators U+2028 and U+2029.\<close>

definition no_terminator :: "string \<Rightarrow> bool" where
  "no_terminator l \<longleftrightarrow> no_break l \<and> (\<forall>i < length l. take 2 (drop i l) = [CHR 0xE2, CHR 0x80] \<longrightarrow> take 1 (drop (i + 2) l) \<notin> {[CHR 0xA8], [CHR 0xA9]})"

definition response_line :: "string \<Rightarrow> nat option" where
  "response_line l = (case status_prefix l of Some (n, _) \<Rightarrow> if no_terminator (drop 4 l) then Some n else None | None \<Rightarrow> None)"

definition tryParse :: "string \<Rightarrow> smtp_error + (smtp_response \<times> string) option" where
  "tryParse buffer = (let lines = split_crlf buffer; complete = butlast lines in
     if complete = [] then Inr None
     else case status_prefix (List.last complete) of
       None \<Rightarrow> Inl (MalformedLine (List.last complete))
     | Some (code, sep) \<Rightarrow>
         if sep = CHR ''-'' then Inr None
         else if list_all (\<lambda>l. response_line l = Some code) complete
           then Inr (Some (\<lparr>sr_code = code, sr_lines = map (drop 4) complete\<rparr>, List.last lines))
         else Inl (InconsistentCode complete))"

fun await_response :: "string \<Rightarrow> socket_event list \<Rightarrow> (smtp_error + smtp_response) option \<times> string \<times> socket_event list" where
  "await_response buffer [] = (None, buffer, [])"
| "await_response buffer (Data chunk # es) = (case tryParse (buffer @ chunk) of
     Inl e \<Rightarrow> (Some (Inl e), buffer @ chunk, es)
   | Inr None \<Rightarrow> await_response (buffer @ chunk) es
   | Inr (Some (r, rest)) \<Rightarrow> (Some (Inr r), rest, es))"
| "await_response buffer (SocketError # es) = (Some (Inl SocketBroken), buffer, es)"
| "await_response buffer (SocketClose # es) = (Some (Inl ConnectionClosed), buffer, es)"
| "await_response buffer (Timeout # es) = (Some (Inl TimedOut), buffer, es)"

definition read_response :: "string \<Rightarrow> socket_event list \<Rightarrow> (smtp_error + smtp_response) option \<times> string \<times> socket_event list" where
  "read_response buffer es = (case tryParse buffer of
     Inl e \<Rightarrow> (Some (Inl e), buffer, es)
   | Inr (Some (r, rest)) \<Rightarrow> (Some (Inr r), rest, es)
   | Inr None \<Rightarrow> await_response buffer es)"

section \<open>Sending a message\<close>

text \<open>A step: what is written, the code that the response must have, and its name.\<close>

type_synonym smtp_step = "string option \<times> nat \<times> string"

definition smtp_script :: "string \<Rightarrow> string \<Rightarrow> string \<Rightarrow> smtp_message \<Rightarrow> smtp_step list" where
  "smtp_script authPlain date rnd m = (let source = buildMessageSource date rnd m in
     [(None, 220, ''greeting''),
      (Some (''EHLO arald-email-relay'' @ CRLF), 250, ''EHLO''),
      (Some (''AUTH PLAIN '' @ authPlain @ CRLF), 235, ''AUTH PLAIN''),
      (Some (''MAIL FROM:<'' @ sm_fromAddress m @ ''>'' @ CRLF), 250, ''MAIL FROM''),
      (Some (''RCPT TO:<'' @ sm_toAddress m @ ''>'' @ CRLF), 250, ''RCPT TO''),
      (Some (''DATA'' @ CRLF), 354, ''DATA''),
      (Some (source @ smtp_terminator source), 250, ''message body'')])"

definition written_by :: "string option \<Rightarrow> string list" where
  "written_by cmd = (case cmd of Some c \<Rightarrow> [c] | None \<Rightarrow> [])"

text \<open>The result, \<open>None\<close> while a response is awaited, and all that was written.\<close>

fun run_script :: "smtp_step list \<Rightarrow> string \<Rightarrow> socket_event list \<Rightarrow> (smtp_error + unit) option \<times> string list" where
  "run_script [] buffer es = (Some (Inr ()), [''QUIT'' @ CRLF])"
| "run_script ((cmd, code, name) # steps) buffer es = (case read_response buffer es of
     (None, _, _) \<Rightarrow> (None, written_by cmd)
   | (Some (Inl e), _, _) \<Rightarrow> (Some (Inl e), written_by cmd)
   | (Some (Inr r), buffer', es') \<Rightarrow>
       if sr_code r \<noteq> code then (Some (Inl (StepFailed name (sr_code r) (sr_lines r))), written_by cmd)
       else (case run_script steps buffer' es' of (result, w) \<Rightarrow> (result, written_by cmd @ w)))"

text \<open>\<open>encode\<close> is the base64 encoding; \<open>up\<close> says whether the TLS connection came up.\<close>

definition sendEmail :: "(string \<Rightarrow> string) \<Rightarrow> string \<Rightarrow> string \<Rightarrow> string \<Rightarrow> string \<Rightarrow> smtp_message \<Rightarrow> bool \<Rightarrow> socket_event list \<Rightarrow> (smtp_error + unit) option \<times> string list" where
  "sendEmail encode username password date rnd m up es =
    (if \<not> assertNoLineBreak (sm_fromAddress m) then (Some (Inl (LineBreakIn ''from address'')), [])
     else if \<not> assertNoLineBreak (sm_toAddress m) then (Some (Inl (LineBreakIn ''to address'')), [])
     else if \<not> assertNoLineBreak (sm_subject m) then (Some (Inl (LineBreakIn ''subject'')), [])
     else if \<not> up then (Some (Inl NotConnected), [])
     else run_script (smtp_script (encode (CHR 0x00 # username @ CHR 0x00 # password)) date rnd m) [] es)"

section \<open>Responses in any chunks\<close>

definition digit_char :: "nat \<Rightarrow> char" where
  "digit_char i = char_of (48 + i)"

definition code3 :: "nat \<Rightarrow> string" where
  "code3 n = [digit_char (n div 100), digit_char (n div 10 mod 10), digit_char (n mod 10)]"

text \<open>How a server writes a response: a dash after the code on every line but the last.\<close>

definition response_lines :: "smtp_response \<Rightarrow> string list" where
  "response_lines r = map (\<lambda>l. code3 (sr_code r) @ ''-'' @ l) (butlast (sr_lines r)) @ [code3 (sr_code r) @ '' '' @ List.last (sr_lines r)]"

definition response_ok :: "smtp_response \<Rightarrow> bool" where
  "response_ok r \<longleftrightarrow> sr_code r < 1000 \<and> sr_lines r \<noteq> [] \<and> list_all no_terminator (sr_lines r)"

lemma digit_of_char: "i < 10 \<Longrightarrow> digit_of (digit_char i) = Some i"
  by (simp add: digit_of_def digit_char_def Let_def)

lemma status_prefix_code3: "n < 1000 \<Longrightarrow> s = CHR '' '' \<or> s = CHR ''-'' \<Longrightarrow> status_prefix (code3 n @ s # l) = Some (n, s)"
proof -
  have "n div 100 = n div 10 div 10" by (simp flip: div_mult2_eq)
  moreover have "10 * (n div 10 div 10) + n div 10 mod 10 = n div 10" "10 * (n div 10) + n mod 10 = n" by simp_all
  ultimately have "100 * (n div 100) + 10 * (n div 10 mod 10) + n mod 10 = n" by linarith
  then show "n < 1000 \<Longrightarrow> s = CHR '' '' \<or> s = CHR ''-'' \<Longrightarrow> status_prefix (code3 n @ s # l) = Some (n, s)"
    by (auto simp: status_prefix_def code3_def digit_of_char)
qed

lemma digit_char_no_break: "i < 10 \<Longrightarrow> digit_char i \<noteq> CR \<and> digit_char i \<noteq> LF"
proof -
  have "list_all (\<lambda>i. digit_char i \<noteq> CR \<and> digit_char i \<noteq> LF) [0..<10]" by code_simp
  then show "i < 10 \<Longrightarrow> digit_char i \<noteq> CR \<and> digit_char i \<noteq> LF" by (auto simp: list_all_iff)
qed

lemma code3_no_break: "n < 1000 \<Longrightarrow> no_break (code3 n)"
  by (simp add: code3_def digit_char_no_break)

lemma split_crlf_cr: "no_break l \<Longrightarrow> split_crlf (l @ [CR]) = [l @ [CR]]"
  by (induction l) auto

lemma strict_prefix_lines:
  "(\<And>l. l \<in> set ls \<Longrightarrow> no_break l) \<Longrightarrow> strict_prefix p (ended ls) \<Longrightarrow> \<exists>k < length ls. butlast (split_crlf p) = take k ls"
proof (induction ls arbitrary: p)
  case (Cons l ls)
  have l: "no_break l" using Cons.prems(1) by simp
  have p: "prefix p (l @ CRLF @ ended ls)" "p \<noteq> l @ CRLF @ ended ls" using Cons.prems(2) by (auto simp: strict_prefix_def)
  consider "prefix p (l @ [CR])" | p' where "p = l @ CRLF @ p'" "prefix p' (ended ls)"
    using p(1) by (auto simp: prefix_append prefix_Cons CRLF_def)
  then show ?case
  proof cases
    case 1
    then have "butlast (split_crlf p) = []"
    proof (cases "p = l @ [CR]")
      case False
      then have "prefix p l" using 1 by (auto simp: prefix_append prefix_Cons)
      then have "no_break p" using l by (auto simp: prefix_def)
      then show ?thesis by (simp add: split_crlf_single)
    qed (simp add: split_crlf_cr[OF l])
    then show ?thesis by (intro exI[of _ 0]) simp
  next
    case 2
    then have "strict_prefix p' (ended ls)" using p(2) by (auto simp: strict_prefix_def)
    then obtain k where "k < length ls" "butlast (split_crlf p') = take k ls" using Cons.IH[of p'] Cons.prems(1) by auto
    then show ?thesis using 2 l by (intro exI[of _ "Suc k"]) (simp add: split_crlf_line)
  qed
qed simp

lemma response_lines_clean: "response_ok r \<Longrightarrow> l \<in> set (response_lines r) \<Longrightarrow> no_break l"
  by (auto simp: response_ok_def response_lines_def code3_no_break list_all_iff no_terminator_def dest: in_set_butlastD)

lemma parse_prefix:
  assumes "response_ok r" "strict_prefix p (ended (response_lines r))"
  shows "tryParse p = Inr None"
proof -
  obtain k where k: "k < length (response_lines r)" "butlast (split_crlf p) = take k (response_lines r)"
    using strict_prefix_lines[OF response_lines_clean[OF assms(1)] assms(2)] by blast
  show ?thesis
  proof (cases k)
    case (Suc j)
    then have j: "j < length (butlast (sr_lines r))" using k(1) by (simp add: response_lines_def)
    have "List.last (take k (response_lines r)) = code3 (sr_code r) @ CHR ''-'' # butlast (sr_lines r) ! j"
      using j Suc by (simp add: response_lines_def take_Suc_conv_app_nth nth_append)
    moreover have "take k (response_lines r) \<noteq> []" using Suc k(1) by (cases "response_lines r") auto
    ultimately show ?thesis using assms(1) by (simp add: tryParse_def Let_def k(2) status_prefix_code3 response_ok_def)
  qed (simp add: tryParse_def k(2))
qed

lemma response_line_code3: "n < 1000 \<Longrightarrow> s = CHR '' '' \<or> s = CHR ''-'' \<Longrightarrow> no_terminator l \<Longrightarrow> response_line (code3 n @ s # l) = Some n"
  using status_prefix_code3[of n s l] by (auto simp: response_line_def code3_def)

lemma parse_response:
  assumes "response_ok r"
  shows "tryParse (ended (response_lines r)) = Inr (Some (r, []))"
proof -
  have lines: "split_crlf (ended (response_lines r)) = response_lines r @ [[]]"
    using split_ended[of "response_lines r" "[]"] response_lines_clean[OF assms] by simp
  have n: "sr_code r < 1000" and ne: "sr_lines r \<noteq> []" and t: "\<And>l. l \<in> set (sr_lines r) \<Longrightarrow> no_terminator l"
    using assms by (auto simp: response_ok_def list_all_iff)
  have st: "status_prefix (List.last (response_lines r)) = Some (sr_code r, CHR '' '')"
    by (simp add: response_lines_def status_prefix_code3[OF n])
  have all: "list_all (\<lambda>l. response_line l = Some (sr_code r)) (response_lines r)"
    unfolding list_all_iff
  proof
    fix l assume "l \<in> set (response_lines r)"
    then consider x where "x \<in> set (butlast (sr_lines r))" "l = code3 (sr_code r) @ CHR ''-'' # x" | "l = code3 (sr_code r) @ CHR '' '' # List.last (sr_lines r)"
      unfolding response_lines_def by auto
    then show "response_line l = Some (sr_code r)"
    proof cases
      case 1
      then show ?thesis using response_line_code3[OF n _ t[OF in_set_butlastD[OF 1(1)]]] by simp
    next
      case 2
      then show ?thesis using response_line_code3[OF n _ t[OF last_in_set[OF ne]]] by simp
    qed
  qed
  have "map (drop 4) (response_lines r) = butlast (sr_lines r) @ [List.last (sr_lines r)]"
    by (simp add: response_lines_def comp_def code3_def)
  then have drop: "map (drop 4) (response_lines r) = sr_lines r" using ne by simp
  have "response_lines r \<noteq> []" by (simp add: response_lines_def)
  then show ?thesis using st all by (simp add: tryParse_def lines Let_def drop)
qed

lemma await_chunks:
  assumes "response_ok r"
  shows "cs \<noteq> [] \<Longrightarrow> [] \<notin> set cs \<Longrightarrow> p @ concat cs = ended (response_lines r) \<Longrightarrow> await_response p (map Data cs @ es) = (Some (Inr r), [], es)"
proof (induction cs arbitrary: p)
  case (Cons c cs)
  show ?case
  proof (cases "cs = []")
    case True
    then show ?thesis using Cons.prems parse_response[OF assms] by simp
  next
    case False
    then have "concat cs \<noteq> []" using Cons.prems(2) by (cases cs) auto
    then have "strict_prefix (p @ c) (ended (response_lines r))" unfolding Cons.prems(3)[symmetric] by (simp add: strict_prefix_def)
    from parse_prefix[OF assms this] Cons.IH[OF False, of "p @ c"] Cons.prems show ?thesis by simp
  qed
qed simp

text \<open>A response is read whole, line for line, whatever the chunks it arrives in, and not before its last line is complete.\<close>

definition chunked :: "string list \<Rightarrow> smtp_response \<Rightarrow> bool" where
  "chunked cs r \<longleftrightarrow> [] \<notin> set cs \<and> concat cs = ended (response_lines r)"

theorem response_any_chunks:
  assumes "response_ok r" "chunked cs r"
  shows "read_response [] (map Data cs @ es) = (Some (Inr r), [], es)"
proof -
  have "ended (response_lines r) \<noteq> []" by (simp add: ended_def response_lines_def CRLF_def)
  then have "cs \<noteq> []" using assms(2) by (auto simp: chunked_def)
  then have "await_response [] (map Data cs @ es) = (Some (Inr r), [], es)" using await_chunks[OF assms(1), of cs "[]"] assms(2) by (simp add: chunked_def)
  moreover have "tryParse [] = Inr None" by (simp add: tryParse_def)
  ultimately show ?thesis by (simp add: read_response_def)
qed


section \<open>The conversation\<close>

definition agreed :: "smtp_response list \<Rightarrow> smtp_step list \<Rightarrow> nat" where
  "agreed rs steps = length (takeWhile (\<lambda>(r, s). sr_code r = fst (snd s)) (zip rs steps))"

lemma run_script_answers:
  "length rs = length steps \<Longrightarrow> list_all response_ok rs \<Longrightarrow> list_all2 chunked css rs \<Longrightarrow>
   run_script steps [] (map Data (concat css)) =
    (let k = agreed rs steps in
     if k = length steps then (Some (Inr ()), concat (map (written_by \<circ> fst) steps) @ [''QUIT'' @ CRLF])
     else (Some (Inl (StepFailed (snd (snd (steps ! k))) (sr_code (rs ! k)) (sr_lines (rs ! k)))), concat (map (written_by \<circ> fst) (take (Suc k) steps))))"
proof (induction steps arbitrary: rs css)
  case Nil
  then show ?case by (simp add: agreed_def)
next
  case (Cons s steps)
  obtain cmd code name where s: "s = (cmd, code, name)" by (cases s) auto
  obtain r rs' where rs: "rs = r # rs'" using Cons.prems(1) by (cases rs) auto
  obtain cs css' where css: "css = cs # css'" "chunked cs r" "list_all2 chunked css' rs'" using Cons.prems(3) rs by (cases css) auto
  have read: "read_response [] (map Data (concat css)) = (Some (Inr r), [], map Data (concat css'))"
    using response_any_chunks[of r cs] Cons.prems(2) css by (simp add: rs)
  have IH: "run_script steps [] (map Data (concat css')) =
    (let k = agreed rs' steps in
     if k = length steps then (Some (Inr ()), concat (map (written_by \<circ> fst) steps) @ [''QUIT'' @ CRLF])
     else (Some (Inl (StepFailed (snd (snd (steps ! k))) (sr_code (rs' ! k)) (sr_lines (rs' ! k)))), concat (map (written_by \<circ> fst) (take (Suc k) steps))))"
    using Cons.IH[of rs' css'] Cons.prems rs css by simp
  have step: "run_script (s # steps) [] (map Data (concat css)) = (if sr_code r \<noteq> code then (Some (Inl (StepFailed name (sr_code r) (sr_lines r))), written_by cmd)
      else (case run_script steps [] (map Data (concat css')) of (result, w) \<Rightarrow> (result, written_by cmd @ w)))"
    by (simp add: s read)
  show ?case
  proof (cases "sr_code r = code")
    case True
    then have "agreed rs (s # steps) = Suc (agreed rs' steps)" by (simp add: agreed_def rs s)
    then show ?thesis unfolding step using True by (simp add: IH Let_def rs s)
  next
    case False
    then have "agreed rs (s # steps) = 0" by (simp add: agreed_def rs s)
    then show ?thesis unfolding step using False by (simp add: rs s)
  qed
qed

text \<open>The server answers seven times, in any chunks. The message counts as sent exactly when the codes are the expected ones, whatever then happens to QUIT; otherwise the first
  unexpected answer is the error and nothing is written after it: the message itself goes out only if the server has accepted sender, recipient and DATA.\<close>

theorem email_dialogue:
  assumes clean: "assertNoLineBreak (sm_fromAddress m)" "assertNoLineBreak (sm_toAddress m)" "assertNoLineBreak (sm_subject m)"
    and answers: "length rs = 7" "list_all response_ok rs" "list_all2 chunked css rs"
    and steps: "steps = smtp_script (encode (CHR 0x00 # username @ CHR 0x00 # password)) date rnd m" "k = agreed rs steps"
  shows "sendEmail encode username password date rnd m True (map Data (concat css)) =
    (if map sr_code rs = [220, 250, 235, 250, 250, 354, 250] then (Some (Inr ()), concat (map (written_by \<circ> fst) steps) @ [''QUIT'' @ CRLF])
     else (Some (Inl (StepFailed (snd (snd (steps ! k))) (sr_code (rs ! k)) (sr_lines (rs ! k)))), concat (map (written_by \<circ> fst) (take (Suc k) steps))))"
proof -
  have n: "length steps = 7" by (simp add: steps(1) smtp_script_def Let_def)
  have codes: "map (\<lambda>s. fst (snd s)) steps = [220, 250, 235, 250, 250, 354, 250]" by (simp add: steps(1) smtp_script_def Let_def)
  have all: "agreed rs steps = length steps \<longleftrightarrow> map sr_code rs = map (\<lambda>s. fst (snd s)) steps" if "length rs = length steps" for rs :: "smtp_response list" and steps :: "smtp_step list"
    using that by (induction rs steps rule: list_induct2) (auto simp: agreed_def)
  have "k = 7 \<longleftrightarrow> map sr_code rs = [220, 250, 235, 250, 250, 354, 250]" using all[of rs steps] answers(1) n by (simp add: steps(2) codes)
  then show ?thesis using run_script_answers[of rs steps css] clean answers n
    by (simp add: sendEmail_def Let_def flip: steps)
qed

lemma run_script_written: "w \<in> set (snd (run_script steps b es)) \<Longrightarrow> w = ''QUIT'' @ CRLF \<or> (\<exists>s \<in> set steps. fst s = Some w)"
proof (induction steps arbitrary: b es)
  case (Cons s steps)
  obtain cmd code name where s: "s = (cmd, code, name)" by (cases s) auto
  from Cons show ?case
    by (auto simp: s written_by_def split_beta split: option.splits sum.splits if_splits)
qed simp

text \<open>Whatever the server sends, no address can smuggle a command into the conversation: everything that is written is one command line, or the message with its end.\<close>

theorem no_command_injected:
  assumes "\<And>x. no_break (encode x)" "w \<in> set (snd (sendEmail encode username password date rnd m up es))"
  shows "w = buildMessageSource date rnd m @ smtp_terminator (buildMessageSource date rnd m) \<or> (\<exists>l. no_break l \<and> w = l @ CRLF)"
proof -
  have line: "no_break l \<Longrightarrow> \<exists>l'. no_break l' \<and> l @ CRLF = l' @ CRLF" for l by blast
  have clean: "no_break (sm_fromAddress m)" "no_break (sm_toAddress m)" using assms(2) by (auto simp: sendEmail_def assertNoLineBreak_iff split: if_splits)
  have "w \<in> set (snd (run_script (smtp_script (encode (CHR 0x00 # username @ CHR 0x00 # password)) date rnd m) [] es))"
    using assms(2) by (auto simp: sendEmail_def split: if_splits)
  from run_script_written[OF this]
  consider "w = ''QUIT'' @ CRLF" | s where "s \<in> set (smtp_script (encode (CHR 0x00 # username @ CHR 0x00 # password)) date rnd m)" "fst s = Some w" by blast
  then show ?thesis
  proof cases
    case 1
    then show ?thesis using line[of "''QUIT''"] by simp
  next
    case 2
    then consider "w = ''EHLO arald-email-relay'' @ CRLF" | "w = (''AUTH PLAIN '' @ encode (CHR 0x00 # username @ CHR 0x00 # password)) @ CRLF"
      | "w = (''MAIL FROM:<'' @ sm_fromAddress m @ ''>'') @ CRLF" | "w = (''RCPT TO:<'' @ sm_toAddress m @ ''>'') @ CRLF" | "w = ''DATA'' @ CRLF"
      | "w = buildMessageSource date rnd m @ smtp_terminator (buildMessageSource date rnd m)"
      by (auto simp: smtp_script_def Let_def)
    then show ?thesis
    proof cases
      case 2
      have "no_break (''AUTH PLAIN '' @ encode (CHR 0x00 # username @ CHR 0x00 # password))" using assms(1) by simp
      then show ?thesis using 2 by blast
    next
      case 3
      have "no_break (''MAIL FROM:<'' @ sm_fromAddress m @ ''>'')" using clean by simp
      then show ?thesis using 3 by blast
    next
      case 4
      have "no_break (''RCPT TO:<'' @ sm_toAddress m @ ''>'')" using clean by simp
      then show ?thesis using 4 by blast
    qed (use line[of "''EHLO arald-email-relay''"] line[of "''DATA''"] in auto)
  qed
qed

section \<open>Examples\<close>

definition sample_answers :: "nat list \<Rightarrow> smtp_response list" where
  "sample_answers codes = map (\<lambda>n. \<lparr>sr_code = n, sr_lines = [''a'', ''b'']\<rparr>) codes"

lemma sample_answers_ok: "list_all (\<lambda>n. n < 1000) codes \<Longrightarrow> list_all response_ok (sample_answers codes)"
  by (auto simp: sample_answers_def response_ok_def no_terminator_def list_all_iff less_Suc_eq)

lemma chunked_whole: "list_all2 chunked (map (\<lambda>r. [ended (response_lines r)]) rs) rs"
  by (induction rs) (auto simp: chunked_def ended_def response_lines_def CRLF_def)

lemma response_any_chunks_witness: "read_response [] (map Data [''250-a'' @ [CR], [LF] @ ''250 b'' @ CRLF]) = (Some (Inr \<lparr>sr_code = 250, sr_lines = [''a'', ''b'']\<rparr>), [], [])"
proof -
  have "response_ok \<lparr>sr_code = 250, sr_lines = [''a'', ''b'']\<rparr>" using sample_answers_ok[of "[250]"] by (simp add: sample_answers_def)
  moreover have "chunked [''250-a'' @ [CR], [LF] @ ''250 b'' @ CRLF] \<lparr>sr_code = 250, sr_lines = [''a'', ''b'']\<rparr>" by code_simp
  ultimately show ?thesis using response_any_chunks[of _ _ "[]"] by fastforce
qed

lemma email_dialogue_witness:
  "fst (sendEmail (\<lambda>s. ''x'') ''u'' ''p'' ''d'' ''r'' sample_message True
     (map Data (concat (map (\<lambda>r. [ended (response_lines r)]) (sample_answers [220, 250, 235, 250, 250, 354, 250]))))) = Some (Inr ())"
  using email_dialogue[OF _ _ _ _ sample_answers_ok chunked_whole refl refl, of sample_message "[220, 250, 235, 250, 250, 354, 250]"]
  by (simp add: sample_message_def assertNoLineBreak_def sample_answers_def)

lemma no_command_injected_witness:
  "\<exists>l. no_break l \<and> (''MAIL FROM:<'' @ ''a@b'' @ ''>'' @ CRLF) = l @ CRLF"
proof -
  let ?rs = "sample_answers [220, 250, 235, 250, 250, 354, 250]" and ?steps = "smtp_script ''x'' ''d'' ''r'' sample_message"
  let ?es = "map Data (concat (map (\<lambda>r. [ended (response_lines r)]) ?rs))"
  have n: "length ?rs = length ?steps" by (simp add: sample_answers_def smtp_script_def Let_def)
  have "agreed ?rs ?steps = 7" by (simp add: agreed_def sample_answers_def smtp_script_def Let_def)
  then have "run_script ?steps [] ?es = (Some (Inr ()), concat (map (written_by \<circ> fst) ?steps) @ [''QUIT'' @ CRLF])"
    using run_script_answers[OF n sample_answers_ok chunked_whole] n by (simp add: sample_answers_def)
  then have "''MAIL FROM:<'' @ ''a@b'' @ ''>'' @ CRLF \<in> set (snd (sendEmail (\<lambda>s. ''x'') ''u'' ''p'' ''d'' ''r'' sample_message True ?es))"
    by (simp add: sendEmail_def sample_message_def assertNoLineBreak_def smtp_script_def Let_def written_by_def)
  from no_command_injected[OF _ this] show ?thesis by (auto simp: buildMessageSource_def message_headers_def CRLF_def)
qed

end
