(* ===== verification/PortableConfig.thy ===== *)
theory PortableConfig
  imports Packet
begin

text \<open>
  The configuration of a portable install (\<open>node/src/portable-config.ts\<close>): read, repaired or created at every start. Several launches may run at once, so a
  launch is a state machine whose steps are its calls of the file system; \<open>writeFileSync\<close> is two of them, as it opens (and empties) the file before
  it writes. Parsing and printing JSON, the directory and the generated passwords are arguments; permissions and the creation of directories are not modelled.
\<close>

section \<open>Validation\<close>

record portable_config =
  pc_identityDir :: string
  pc_webPort :: int
  pc_port :: int
  pc_networkPassword :: string

definition DEFAULT_PORTABLE_WEB_PORT :: int where "DEFAULT_PORTABLE_WEB_PORT = 8080"

text \<open>The value, and whether the fallback was used.\<close>

definition stringOrFallback :: "jsval \<Rightarrow> string \<Rightarrow> string \<times> bool" where
  "stringOrFallback v fallback = (case as_string v of Some s \<Rightarrow> if s \<noteq> [] then (s, False) else (fallback, True) | None \<Rightarrow> (fallback, True))"

definition intInRangeOrFallback :: "jsval \<Rightarrow> int \<Rightarrow> int \<Rightarrow> int \<Rightarrow> int \<times> bool" where
  "intInRangeOrFallback v lo hi fallback = (case as_integer v of Some n \<Rightarrow> if lo \<le> n \<and> n \<le> hi then (n, False) else (fallback, True) | None \<Rightarrow> (fallback, True))"

definition validatePortableConfig :: "string \<Rightarrow> string \<Rightarrow> jsval \<Rightarrow> (portable_config \<times> bool) option" where
  "validatePortableConfig dir password raw = (case raw of
     JObject _ \<Rightarrow>
       let identityDir = stringOrFallback (jfield raw ''identityDir'') dir;
           webPort = intInRangeOrFallback (jfield raw ''webPort'') 1 65535 DEFAULT_PORTABLE_WEB_PORT;
           port = intInRangeOrFallback (jfield raw ''port'') 0 65535 0;
           networkPassword = stringOrFallback (jfield raw ''networkPassword'') password in
       Some (\<lparr>pc_identityDir = fst identityDir, pc_webPort = fst webPort, pc_port = fst port, pc_networkPassword = fst networkPassword\<rparr>,
         snd identityDir \<or> snd webPort \<or> snd port \<or> snd networkPassword)
   | _ \<Rightarrow> None)"

definition config_json :: "portable_config \<Rightarrow> jsval" where
  "config_json c = JObject [(''identityDir'', JString (pc_identityDir c)), (''webPort'', JNumber (Num (of_int (pc_webPort c)))),
     (''port'', JNumber (Num (of_int (pc_port c)))), (''networkPassword'', JString (pc_networkPassword c))]"

definition config_typed :: "portable_config \<Rightarrow> bool" where
  "config_typed c \<longleftrightarrow> pc_identityDir c \<noteq> [] \<and> 1 \<le> pc_webPort c \<and> pc_webPort c \<le> 65535 \<and> 0 \<le> pc_port c \<and> pc_port c \<le> 65535 \<and> pc_networkPassword c \<noteq> []"

lemma stringOrFallback_typed: "fallback \<noteq> [] \<Longrightarrow> fst (stringOrFallback v fallback) \<noteq> []"
  by (simp add: stringOrFallback_def split: option.split)

lemma intInRangeOrFallback_typed:
  "lo \<le> fallback \<Longrightarrow> fallback \<le> hi \<Longrightarrow> lo \<le> fst (intInRangeOrFallback v lo hi fallback) \<and> fst (intInRangeOrFallback v lo hi fallback) \<le> hi"
  by (auto simp: intInRangeOrFallback_def split: option.split)

lemma validate_typed: "validatePortableConfig dir password raw = Some (c, b) \<Longrightarrow> dir \<noteq> [] \<Longrightarrow> password \<noteq> [] \<Longrightarrow> config_typed c"
  by (cases raw) (auto simp: validatePortableConfig_def Let_def config_typed_def DEFAULT_PORTABLE_WEB_PORT_def
      stringOrFallback_typed intInRangeOrFallback_typed)

lemma as_integer_int [simp]: "as_integer (JNumber (Num (rat_of_int n))) = Some n"
  by simp

lemma validate_own: "config_typed c \<Longrightarrow> validatePortableConfig dir password (config_json c) = Some (c, False)"
  unfolding validatePortableConfig_def config_json_def stringOrFallback_def intInRangeOrFallback_def config_typed_def
  by (cases c) (simp add: Let_def del: as_integer.simps)

section \<open>A launch\<close>

record launch_env =
  le_parse :: "string \<Rightarrow> jsval option"
  le_print :: "portable_config \<Rightarrow> string"
  le_identityDir :: string
  le_password :: "nat \<Rightarrow> nat \<Rightarrow> string"

text \<open>Where a launch is: \<open>Checked e\<close> and \<open>Fresh e\<close> remember whether the file existed at first; \<open>Reading e True\<close> reads the file of the winner of a race.\<close>

datatype launch = Begin | Checked bool | Reading bool bool | Fresh bool | Lost | NeedsRepair portable_config
  | Creating portable_config | Overwriting portable_config | Repairing portable_config
  | Returned portable_config bool | Threw

definition fresh_config :: "launch_env \<Rightarrow> nat \<Rightarrow> portable_config" where
  "fresh_config env i = \<lparr>pc_identityDir = le_identityDir env, pc_webPort = DEFAULT_PORTABLE_WEB_PORT, pc_port = 0, pc_networkPassword = le_password env i 1\<rparr>"

text \<open>A write starts at the beginning of the file and leaves what lies behind it.\<close>

definition write_text :: "string \<Rightarrow> string option \<Rightarrow> string option" where
  "write_text s f = Some (s @ drop (length s) (case f of Some t \<Rightarrow> t | None \<Rightarrow> []))"

definition unreadable :: "bool \<Rightarrow> bool \<Rightarrow> launch" where
  "unreadable existed winner = (if winner then Threw else Fresh existed)"

definition read_config :: "launch_env \<Rightarrow> nat \<Rightarrow> bool \<Rightarrow> bool \<Rightarrow> string option \<Rightarrow> launch" where
  "read_config env i existed winner f = (case f of
     None \<Rightarrow> unreadable existed winner
   | Some t \<Rightarrow> (case le_parse env t of
       None \<Rightarrow> unreadable existed winner
     | Some raw \<Rightarrow> (case validatePortableConfig (le_identityDir env) (le_password env i (if winner then 2 else 0)) raw of
         None \<Rightarrow> unreadable existed winner
       | Some (c, hadFallback) \<Rightarrow> if hadFallback then NeedsRepair c else Returned c False)))"

text \<open>One call of the file system by launch \<open>i\<close>. \<open>Creating\<close>, \<open>Overwriting\<close> and \<open>Repairing\<close> are launches that have opened the file and not yet written it.\<close>

fun launch_step :: "launch_env \<Rightarrow> nat \<Rightarrow> launch \<Rightarrow> string option \<Rightarrow> launch \<times> string option" where
  "launch_step env i Begin f = (Checked (f \<noteq> None), f)"
| "launch_step env i (Checked existed) f = (if f = None then Fresh existed else Reading existed False, f)"
| "launch_step env i (Reading existed winner) f = (read_config env i existed winner f, f)"
| "launch_step env i (NeedsRepair c) f = (Repairing c, Some [])"
| "launch_step env i (Fresh existed) f =
    (if existed then (Overwriting (fresh_config env i), Some [])
     else if f = None then (Creating (fresh_config env i), Some [])
     else (Lost, f))"
| "launch_step env i Lost f = (if f = None then Threw else Reading False True, f)"
| "launch_step env i (Creating c) f = (Returned c True, write_text (le_print env c) f)"
| "launch_step env i (Overwriting c) f = (Returned c True, write_text (le_print env c) f)"
| "launch_step env i (Repairing c) f = (Returned c False, write_text (le_print env c) f)"
| "launch_step env i (Returned c b) f = (Returned c b, f)"
| "launch_step env i Threw f = (Threw, f)"

type_synonym system = "(nat \<Rightarrow> launch) \<times> string option"

definition system_step :: "launch_env \<Rightarrow> system \<Rightarrow> nat \<Rightarrow> system" where
  "system_step env s i = (case launch_step env i (fst s i) (snd s) of (p, f) \<Rightarrow> ((fst s)(i := p), f))"

lemma system_step_simps [simp]: "fst (system_step env s i) j = (if j = i then fst (launch_step env i (fst s i) (snd s)) else fst s j)"
  "snd (system_step env s i) = snd (launch_step env i (fst s i) (snd s))"
  by (simp_all add: system_step_def split_beta)

definition launches :: "launch_env \<Rightarrow> string option \<Rightarrow> nat list \<Rightarrow> system" where
  "launches env f schedule = foldl (system_step env) (\<lambda>i. Begin, f) schedule"

definition env_ok :: "launch_env \<Rightarrow> bool" where
  "env_ok env \<longleftrightarrow> le_identityDir env \<noteq> [] \<and> (\<forall>i k. le_password env i k \<noteq> []) \<and> le_parse env [] = None \<and>
     (\<forall>c. config_typed c \<longrightarrow> le_parse env (le_print env c) = Some (config_json c))"

lemma fresh_typed: "env_ok env \<Longrightarrow> config_typed (fresh_config env i)"
  by (simp add: env_ok_def fresh_config_def config_typed_def DEFAULT_PORTABLE_WEB_PORT_def)

section \<open>What a launch returns\<close>

definition launch_typed :: "launch \<Rightarrow> bool" where
  "launch_typed p \<longleftrightarrow> (case p of NeedsRepair c \<Rightarrow> config_typed c | Creating c \<Rightarrow> config_typed c | Overwriting c \<Rightarrow> config_typed c | Repairing c \<Rightarrow> config_typed c | Returned c _ \<Rightarrow> config_typed c | _ \<Rightarrow> True)"

lemma launch_typed_simps [simp]: "launch_typed Begin" "launch_typed (Checked e)" "launch_typed (Reading e w)" "launch_typed (Fresh e)" "launch_typed Lost" "launch_typed Threw"
  "launch_typed (NeedsRepair c) \<longleftrightarrow> config_typed c" "launch_typed (Creating c) \<longleftrightarrow> config_typed c" "launch_typed (Overwriting c) \<longleftrightarrow> config_typed c" "launch_typed (Repairing c) \<longleftrightarrow> config_typed c"
  "launch_typed (Returned c b) \<longleftrightarrow> config_typed c"
  by (simp_all add: launch_typed_def)

lemma read_typed: "env_ok env \<Longrightarrow> launch_typed (read_config env i e w f)"
  by (auto simp: read_config_def unreadable_def env_ok_def intro: validate_typed split: option.split)

lemma launch_step_typed: "env_ok env \<Longrightarrow> launch_typed p \<Longrightarrow> launch_typed (fst (launch_step env i p f))"
proof (cases p)
  case (Reading e w)
  assume "env_ok env"
  then show ?thesis using read_typed[OF \<open>env_ok env\<close>] Reading by simp
qed (simp_all add: fresh_typed)

text \<open>C29: Whatever the file holds, and however launches interleave, a launch that returns has a usable configuration: a directory, ports in range and a password.\<close>

theorem returned_config_typed:
  assumes "env_ok env" "fst (launches env f schedule) i = Returned c created"
  shows "config_typed c"
proof -
  have "\<forall>i. launch_typed (fst (launches env f schedule) i)"
    unfolding launches_def
  proof (induction schedule rule: rev_induct)
    case (snoc j js)
    let ?s = "foldl (system_step env) (\<lambda>i. Begin, f) js"
    have "launch_typed (fst (launch_step env j (fst ?s j) (snd ?s)))" using launch_step_typed[OF assms(1)] snoc by blast
    then show ?case using snoc by simp
  qed simp
  then have "launch_typed (Returned c created)" using assms(2) by metis
  then show ?thesis by simp
qed


section \<open>Starting again\<close>

lemma write_after_open: "write_text s (Some []) = Some s"
  by (simp add: write_text_def)

lemma launches_append: "launches env f (xs @ ys) = foldl (system_step env) (launches env f xs) ys"
  by (simp add: launches_def)

lemma stringOrFallback_kept: "\<not> snd (stringOrFallback v f) \<Longrightarrow> stringOrFallback v f' = stringOrFallback v f"
  by (auto simp: stringOrFallback_def split: option.splits)

lemma validate_kept: "validatePortableConfig dir password raw = Some (c, False) \<Longrightarrow> validatePortableConfig dir' password' raw = Some (c, False)"
  using stringOrFallback_kept[of "jfield raw ''identityDir''" dir dir'] stringOrFallback_kept[of "jfield raw ''networkPassword''" password password']
  by (cases raw) (auto simp: validatePortableConfig_def Let_def)

text \<open>What the file holds once a launch has settled: the configuration, without a gap.\<close>

definition file_holds :: "launch_env \<Rightarrow> portable_config \<Rightarrow> string option \<Rightarrow> bool" where
  "file_holds env c f \<longleftrightarrow> (\<exists>t raw. f = Some t \<and> le_parse env t = Some raw \<and> (\<forall>dir password. validatePortableConfig dir password raw = Some (c, False)))"

lemma file_holds_print: "env_ok env \<Longrightarrow> config_typed c \<Longrightarrow> file_holds env c (Some (le_print env c))"
  by (auto simp: file_holds_def env_ok_def validate_own)

lemma read_holds: "file_holds env c f \<Longrightarrow> read_config env i e w f = Returned c False"
  by (auto simp: file_holds_def read_config_def)

lemma launch_steps [simp]: "launches env f [] = (\<lambda>i. Begin, f)"
  by (simp add: launches_def)

lemma launch_alone:
  assumes "env_ok env" "fst s i = Begin"
  shows "\<exists>c b. fst (foldl (system_step env) s [i, i, i, i, i]) i = Returned c b \<and> file_holds env c (snd (foldl (system_step env) s [i, i, i, i, i])) \<and>
    (\<forall>d. file_holds env d (snd s) \<longrightarrow> c = d \<and> \<not> b \<and> snd (foldl (system_step env) s [i, i, i, i, i]) = snd s)"
proof (cases "snd s")
  case None
  let ?c = "fresh_config env i"
  have "fst (foldl (system_step env) s [i, i, i, i, i]) i = Returned ?c True" "snd (foldl (system_step env) s [i, i, i, i, i]) = Some (le_print env ?c)"
    using None assms(2) by (simp_all add: write_after_open)
  moreover have "\<not> file_holds env d (snd s)" for d using None by (simp add: file_holds_def)
  ultimately show ?thesis using file_holds_print[OF assms(1) fresh_typed[OF assms(1), of i]] by metis
next
  case (Some t)
  then have now: "snd s = Some t" .
  consider "read_config env i True False (Some t) = Fresh True"
    | c where "read_config env i True False (Some t) = NeedsRepair c" "config_typed c"
    | c where "read_config env i True False (Some t) = Returned c False" "file_holds env c (Some t)"
  proof -
    consider "le_parse env t = None \<or> (\<exists>raw. le_parse env t = Some raw \<and> validatePortableConfig (le_identityDir env) (le_password env i 0) raw = None)"
      | raw c b where "le_parse env t = Some raw" "validatePortableConfig (le_identityDir env) (le_password env i 0) raw = Some (c, b)" by fastforce
    then show thesis
    proof cases
      case 1
      then show ?thesis using that(1) by (auto simp: read_config_def unreadable_def)
    next
      case 2
      then show ?thesis using that(2,3)[of c] validate_typed[OF 2(2)] validate_kept[of _ _ raw c] assms(1)
        by (cases b) (auto simp: read_config_def env_ok_def file_holds_def)
    qed
  qed
  then show ?thesis
  proof cases
    case 1
    have "\<not> file_holds env d (Some t)" for d using read_holds[of env d "Some t" i True False] 1 by auto
    moreover have "fst (foldl (system_step env) s [i, i, i, i, i]) i = Returned (fresh_config env i) True"
      "snd (foldl (system_step env) s [i, i, i, i, i]) = Some (le_print env (fresh_config env i))"
      using 1 Some assms(2) by (simp_all add: write_after_open)
    ultimately show ?thesis using Some file_holds_print[OF assms(1) fresh_typed[OF assms(1), of i]] by metis
  next
    case (2 c)
    have "\<not> file_holds env d (Some t)" for d using read_holds[of env d "Some t" i True False] 2 by auto
    moreover have "fst (foldl (system_step env) s [i, i, i, i, i]) i = Returned c False"
      "snd (foldl (system_step env) s [i, i, i, i, i]) = Some (le_print env c)"
      using 2 Some assms(2) by (simp_all add: write_after_open)
    ultimately show ?thesis using Some file_holds_print[OF assms(1) 2(2)] by metis
  next
    case (3 c)
    have "d = c" if "file_holds env d (Some t)" for d using read_holds[OF that, of i True False] 3 by simp
    moreover have "fst (foldl (system_step env) s [i, i, i, i, i]) i = Returned c False" "snd (foldl (system_step env) s [i, i, i, i, i]) = Some t"
      using 3 Some assms(2) by simp_all
    ultimately show ?thesis using Some 3(2) by metis
  qed
qed

text \<open>Whatever the file holds, or if there is none, a launch that is not disturbed returns after at most five calls; every later launch returns the very same configuration,
  so that the password of a paired telephone stays valid, and does not write.\<close>

theorem restart_keeps_config:
  assumes "env_ok env" "s = launches env f [0, 0, 0, 0, 0]" "s' = launches env f ([0, 0, 0, 0, 0] @ [1, 1, 1, 1, 1])"
  shows "\<exists>c created. fst s 0 = Returned c created \<and> fst s' 1 = Returned c False \<and> snd s' = snd s"
proof -
  have a: "fst (launches env f []) 0 = Begin" by simp
  have s: "s = foldl (system_step env) (launches env f []) [0, 0, 0, 0, 0]" unfolding assms(2) using launches_append[of env f "[]"] by simp
  have s': "s' = foldl (system_step env) s [1, 1, 1, 1, 1]" unfolding assms(3) launches_append assms(2) ..
  have b: "fst s 1 = Begin" unfolding s by simp
  from launch_alone[OF assms(1) a] obtain c x where c: "fst s 0 = Returned c x" "file_holds env c (snd s)" unfolding s by blast
  from launch_alone[OF assms(1) b] obtain d y where "fst s' 1 = Returned d y" "\<forall>e. file_holds env e (snd s) \<longrightarrow> d = e \<and> \<not> y \<and> snd s' = snd s"
    unfolding s' by blast
  then show ?thesis using c by auto
qed

section \<open>Two launches at once\<close>

definition mid_write :: "launch \<Rightarrow> bool" where
  "mid_write p \<longleftrightarrow> (case p of Creating _ \<Rightarrow> True | Overwriting _ \<Rightarrow> True | Repairing _ \<Rightarrow> True | _ \<Rightarrow> False)"

text \<open>Launches interleave in any way, except that nothing happens between the opening of the file and the write.\<close>

inductive quiet_run :: "launch_env \<Rightarrow> system \<Rightarrow> bool" for env where
  quiet_start: "quiet_run env (\<lambda>i. Begin, None)"
| quiet_step: "quiet_run env s \<Longrightarrow> (\<And>j. mid_write (fst s j) \<Longrightarrow> j = i) \<Longrightarrow> quiet_run env (system_step env s i)"

definition before_file :: "launch \<Rightarrow> bool" where
  "before_file p \<longleftrightarrow> p = Begin \<or> p = Checked False \<or> p = Fresh False"

definition settles_on :: "portable_config \<Rightarrow> launch \<Rightarrow> bool" where
  "settles_on c p \<longleftrightarrow> p = Begin \<or> (\<exists>e. p = Checked e) \<or> (\<exists>e w. p = Reading e w) \<or> p = Fresh False \<or> p = Lost \<or> (\<exists>b. p = Returned c b)"

definition race_ok :: "launch_env \<Rightarrow> system \<Rightarrow> bool" where
  "race_ok env s \<longleftrightarrow> (snd s = None \<and> (\<forall>i. before_file (fst s i))) \<or>
     (\<exists>k c. snd s = Some [] \<and> fst s k = Creating c \<and> config_typed c \<and> (\<forall>i. i \<noteq> k \<longrightarrow> before_file (fst s i))) \<or>
     (\<exists>c. snd s = Some (le_print env c) \<and> config_typed c \<and> (\<forall>i. settles_on c (fst s i)))"

lemma before_settles: "before_file p \<Longrightarrow> settles_on c p"
  by (auto simp: before_file_def settles_on_def)

lemma race_step:
  assumes env: "env_ok env" and ok: "race_ok env s" and quiet: "\<And>j. mid_write (fst s j) \<Longrightarrow> j = i"
  shows "race_ok env (system_step env s i)"
  using ok unfolding race_ok_def[of env s]
proof (elim disjE exE conjE)
  assume f: "snd s = None" and p: "\<forall>i. before_file (fst s i)"
  from p have "before_file (fst s i)" by blast
  then consider "fst s i = Begin \<or> fst s i = Checked False" | "fst s i = Fresh False" by (auto simp: before_file_def)
  then show ?thesis
  proof cases
    case 1
    then have "snd (system_step env s i) = None" "before_file (fst (system_step env s i) j)" for j using f p by (auto simp: before_file_def)
    then show ?thesis unfolding race_ok_def by blast
  next
    case 2
    then have "snd (system_step env s i) = Some []" "fst (system_step env s i) i = Creating (fresh_config env i)"
      "j \<noteq> i \<Longrightarrow> before_file (fst (system_step env s i) j)" for j using f p by auto
    then show ?thesis unfolding race_ok_def using fresh_typed[OF env, of i] by blast
  qed
next
  fix k c assume f: "snd s = Some []" and k: "fst s k = Creating c" "config_typed c" and p: "\<forall>i. i \<noteq> k \<longrightarrow> before_file (fst s i)"
  have "k = i" using quiet[of k] k by (simp add: mid_write_def)
  then have "\<forall>j. settles_on c (fst (system_step env s i) j)" using k p by (auto simp: settles_on_def before_file_def)
  moreover have "snd (system_step env s i) = Some (le_print env c)" using f k \<open>k = i\<close> by (simp add: write_after_open)
  ultimately show ?thesis unfolding race_ok_def using k(2) by blast
next
  fix c assume f: "snd s = Some (le_print env c)" and c: "config_typed c" and p: "\<forall>i. settles_on c (fst s i)"
  have read: "read_config env i e w (Some (le_print env c)) = Returned c False" for e w using read_holds[OF file_holds_print[OF env c]] .
  from p have "settles_on c (fst s i)" by blast
  then have "settles_on c (fst (launch_step env i (fst s i) (snd s)))" "snd (launch_step env i (fst s i) (snd s)) = snd s"
    using f read by (auto simp: settles_on_def)
  then have "snd (system_step env s i) = Some (le_print env c)" "\<forall>j. settles_on c (fst (system_step env s i) j)" using f p by simp_all
  then show ?thesis unfolding race_ok_def using c by blast
qed


text \<open>Launches that race for a file that does not exist all return the configuration of the one that creates it, which is what the file then holds, and none of them throws,
  as long as the file is not read between being opened and being written.\<close>

theorem racing_launches_agree:
  assumes "env_ok env" "quiet_run env s"
  shows "fst s i \<noteq> Threw \<and> (fst s i = Returned c b \<longrightarrow> fst s j = Returned d b' \<longrightarrow> c = d \<and> snd s = Some (le_print env c))"
proof -
  from assms(2) have "race_ok env s"
  proof (induction rule: quiet_run.induct)
    case quiet_start
    then show ?case by (simp add: race_ok_def before_file_def)
  next
    case (quiet_step s i)
    then show ?case using race_step[OF assms(1)] by blast
  qed
  then show ?thesis unfolding race_ok_def
  proof (elim disjE exE conjE)
    assume p: "\<forall>i. before_file (fst s i)"
    then have "before_file (fst s i)" by blast
    then show ?thesis by (auto simp: before_file_def)
  next
    fix k x assume k: "fst s k = Creating x" "\<forall>i. i \<noteq> k \<longrightarrow> before_file (fst s i)"
    then have "before_file (fst s i) \<or> fst s i = Creating x" by metis
    then show ?thesis by (auto simp: before_file_def)
  next
    fix x assume x: "snd s = Some (le_print env x)" "\<forall>i. settles_on x (fst s i)"
    then have "settles_on x (fst s i)" "settles_on x (fst s j)" by auto
    then show ?thesis using x(1) by (auto simp: settles_on_def)
  qed
qed

text \<open>C30: The exception is real: a launch that starts just after another has created the file, and before that one has written, takes the empty file for a malformed one and
  replaces it. Both report a first start, with different passwords, and the file ends up with one of them, or with the end of one behind the other.\<close>

theorem late_start_splits:
  assumes "le_parse env [] = None" "le_password env 0 1 \<noteq> le_password env 1 1" "s = launches env None [0, 0, 0, 1, 1, 1, 1, 1, 0]"
  shows "\<exists>c d. fst s 0 = Returned c True \<and> fst s 1 = Returned d True \<and> pc_networkPassword c \<noteq> pc_networkPassword d \<and>
    snd s = write_text (le_print env c) (Some (le_print env d))"
proof -
  have "read_config env 1 True False (Some []) = Fresh True" using assms(1) by (simp add: read_config_def unreadable_def)
  then have "fst s 0 = Returned (fresh_config env 0) True" "fst s 1 = Returned (fresh_config env 1) True"
    "snd s = write_text (le_print env (fresh_config env 0)) (Some (le_print env (fresh_config env 1)))"
    unfolding assms(3) launches_def by (simp_all add: write_after_open)
  then show ?thesis using assms(2) by (auto simp: fresh_config_def)
qed

section \<open>Examples\<close>

text \<open>A printer, with numbers in unary, and its parser.\<close>

abbreviation unary :: "nat \<Rightarrow> string" where
  "unary n \<equiv> replicate n CHR ''a''"

definition sample_print :: "portable_config \<Rightarrow> string" where
  "sample_print c = unary (nat (pc_webPort c)) @ CHR ''b'' # unary (nat (pc_port c)) @ CHR ''b'' # unary (length (pc_identityDir c)) @ CHR ''b'' #
     pc_identityDir c @ pc_networkPassword c"

definition take_unary :: "string \<Rightarrow> nat \<times> string" where
  "take_unary t = (length (takeWhile (\<lambda>c. c = CHR ''a'') t), tl (dropWhile (\<lambda>c. c = CHR ''a'') t))"

definition sample_parse :: "string \<Rightarrow> jsval option" where
  "sample_parse t = (if t = [] then None else
     case take_unary t of (web, t1) \<Rightarrow> case take_unary t1 of (port, t2) \<Rightarrow> case take_unary t2 of (n, t3) \<Rightarrow>
     Some (config_json \<lparr>pc_identityDir = take n t3, pc_webPort = int web, pc_port = int port, pc_networkPassword = drop n t3\<rparr>))"

lemma take_unary_unary: "take_unary (unary n @ CHR ''b'' # t) = (n, t)"
  by (induction n) (simp_all add: take_unary_def)

lemma sample_parse_print: "config_typed c \<Longrightarrow> sample_parse (sample_print c) = Some (config_json c)"
  by (cases c) (simp add: sample_parse_def sample_print_def take_unary_unary config_typed_def)

definition sample_launch_env :: launch_env where
  "sample_launch_env = \<lparr>le_parse = sample_parse, le_print = sample_print, le_identityDir = ''d'', le_password = \<lambda>i k. if i = 0 then ''p'' else ''q''\<rparr>"

lemma sample_launch_env_ok: "env_ok sample_launch_env"
  by (simp add: env_ok_def sample_launch_env_def sample_parse_print) (simp add: sample_parse_def)

lemma sample_launch: "fst (launches sample_launch_env None [0, 0, 0, 0]) 0 = Returned (fresh_config sample_launch_env 0) True"
  by (simp add: launches_def)

lemma returned_config_typed_witness: "config_typed (fresh_config sample_launch_env 0)"
  using returned_config_typed[OF sample_launch_env_ok sample_launch] .

lemma restart_keeps_config_witness: "\<exists>c. fst (launches sample_launch_env None ([0, 0, 0, 0, 0] @ [1, 1, 1, 1, 1])) 1 = Returned c False"
  using restart_keeps_config[OF sample_launch_env_ok refl refl, of None] by auto

lemma racing_launches_agree_witness: "fst (system_step sample_launch_env (\<lambda>i. Begin, None) 0) 0 \<noteq> Threw"
proof -
  have "quiet_run sample_launch_env (system_step sample_launch_env (\<lambda>i. Begin, None) 0)"
    by (rule quiet_run.quiet_step[OF quiet_run.quiet_start]) (simp add: mid_write_def)
  from racing_launches_agree[OF sample_launch_env_ok this, of 0] show ?thesis by blast
qed

lemma late_start_splits_witness:
  "\<exists>c d. fst (launches sample_launch_env None [0, 0, 0, 1, 1, 1, 1, 1, 0]) 0 = Returned c True \<and>
     fst (launches sample_launch_env None [0, 0, 0, 1, 1, 1, 1, 1, 0]) 1 = Returned d True \<and> pc_networkPassword c \<noteq> pc_networkPassword d"
  using late_start_splits[OF _ _ refl, of sample_launch_env] by (auto simp: sample_launch_env_def sample_parse_def)

end
