(* ===== verification/LocalPortal.thy ===== *)
theory LocalPortal
  imports AddressText "HOL-Library.Sublist"
begin

text \<open>
  The portal of a Box (\<open>local-portal/static-server.ts\<close>): it serves the files below one directory and nothing else, and writes the address of the gateway
  into the page. Paths are those of POSIX, as \<open>path.join\<close> and \<open>path.relative\<close> treat them; decoding the URL, reading files and \<open>JSON.stringify\<close> are
  arguments. A directory is the list of its segments.
\<close>

section \<open>Paths\<close>

definition segments :: "string \<Rightarrow> string list" where
  "segments p = filter (\<lambda>s. s \<noteq> [] \<and> s \<noteq> ''.'') (split_on CHR ''/'' p)"

definition path_step :: "string list \<Rightarrow> string \<Rightarrow> string list" where
  "path_step acc s = (if s = ''..'' then butlast acc else acc @ [s])"

text \<open>An absolute path, normalised; \<open>..\<close> at the top is dropped.\<close>

definition normalize_absolute :: "string list \<Rightarrow> string list" where
  "normalize_absolute ss = foldl path_step [] ss"

definition path_text :: "string list \<Rightarrow> string" where
  "path_text ss = CHR ''/'' # join_with ''/'' ss"

definition path_join :: "string list \<Rightarrow> string \<Rightarrow> string list" where
  "path_join dir p = normalize_absolute (dir @ segments p)"

definition path_relative :: "string list \<Rightarrow> string list \<Rightarrow> string list" where
  "path_relative a b = (let c = longest_common_prefix a b in replicate (length a - length c) ''..'' @ drop (length c) b)"

text \<open>\<open>path.extname\<close>: from the last dot of the last segment, unless it starts with it.\<close>

definition extname :: "string list \<Rightarrow> string" where
  "extname ss = (let name = (if ss = [] then [] else List.last ss); parts = split_on CHR ''.'' name in
     if length parts \<le> 1 \<or> (length parts = 2 \<and> hd parts = []) \<or> name = ''..'' then [] else CHR ''.'' # List.last parts)"

definition CONTENT_TYPES :: "(string \<times> string) list" where
  "CONTENT_TYPES = [(''.html'', ''text/html; charset=utf-8''), (''.js'', ''text/javascript; charset=utf-8''), (''.css'', ''text/css; charset=utf-8''),
     (''.woff2'', ''font/woff2''), (''.json'', ''application/json; charset=utf-8''), (''.svg'', ''image/svg+xml''), (''.ico'', ''image/x-icon'')]"

definition contentTypeFor :: "string list \<Rightarrow> string" where
  "contentTypeFor ss = (case map_of CONTENT_TYPES (map lower_hex (extname ss)) of Some t \<Rightarrow> t | None \<Rightarrow> ''application/octet-stream'')"

section \<open>The address in the page\<close>

definition jsonForInlineScript :: "(string \<Rightarrow> string) \<Rightarrow> string \<Rightarrow> string" where
  "jsonForInlineScript stringify v = concat (map (\<lambda>c. if c = CHR ''<'' then [CHR 0x5C] @ ''u003c'' else [c]) (stringify v))"

definition bootstrap_script :: "(string \<Rightarrow> string) \<Rightarrow> string \<Rightarrow> string" where
  "bootstrap_script stringify url = ''<script>try{if(!localStorage.getItem(\"arald.gatewayUrl\"))localStorage.setItem(\"arald.gatewayUrl\",'' @
     jsonForInlineScript stringify url @ '');}catch(e){}</script>''"

text \<open>The first match of \<open>/<head[^>]*>/i\<close>: what is before it, the match and what follows.\<close>

fun find_head :: "string \<Rightarrow> (string \<times> string \<times> string) option" where
  "find_head [] = None"
| "find_head (c # cs) =
    (if map lower_hex (take 5 (c # cs)) = ''<head'' \<and> CHR ''>'' \<in> set (drop 5 (c # cs)) then
       let attrs = takeWhile (\<lambda>x. x \<noteq> CHR ''>'') (drop 5 (c # cs)) in
       Some ([], take 5 (c # cs) @ attrs @ ''>'', drop (6 + length attrs) (c # cs))
     else map_option (\<lambda>(before, tag, rest). (c # before, tag, rest)) (find_head cs))"

definition injectGatewayUrl :: "(string \<Rightarrow> string) \<Rightarrow> string \<Rightarrow> string \<Rightarrow> string" where
  "injectGatewayUrl stringify html url = (case find_head html of
     Some (before, tag, rest) \<Rightarrow> before @ tag @ [CHR 0x0A] @ bootstrap_script stringify url @ rest
   | None \<Rightarrow> bootstrap_script stringify url @ [CHR 0x0A] @ html)"

section \<open>A request\<close>

record portal =
  po_rootDir :: "string list"
  po_gatewayUrl :: string
  po_stringify :: "string \<Rightarrow> string"

datatype portal_response = Refused nat | Served string nat "string option"

text \<open>The requested path after decoding, \<open>None\<close> if that fails; \<open>readFile\<close> gives the content of a path. The files that were asked for, and the answer.\<close>

definition handleRequest :: "portal \<Rightarrow> (string list \<Rightarrow> bool \<Rightarrow> string option) \<Rightarrow> string \<Rightarrow> string option \<Rightarrow> string list list \<times> portal_response" where
  "handleRequest p readFile verb pathname = (if verb \<noteq> ''GET'' \<and> verb \<noteq> ''HEAD'' then ([], Refused 405)
   else case pathname of None \<Rightarrow> ([], Refused 400)
   | Some requested \<Rightarrow>
       let wanted = (if requested = ''/'' then ''/index.html'' else requested);
           resolved = path_join (po_rootDir p) wanted;
           relative = join_with ''/'' (path_relative (po_rootDir p) resolved) in
       if take 2 relative = ''..'' \<or> take 1 relative = ''/'' then ([], Refused 404)
       else case readFile resolved (wanted \<noteq> [] \<and> List.last wanted = CHR ''/'') of
         None \<Rightarrow> ([resolved], Refused 404)
       | Some content \<Rightarrow>
           let body = (if resolved \<noteq> [] \<and> List.last resolved = ''index.html'' then injectGatewayUrl (po_stringify p) content (po_gatewayUrl p) else content) in
           ([resolved], Served (contentTypeFor resolved) (length body) (if verb = ''HEAD'' then None else Some body)))"

section \<open>Nothing outside the directory\<close>

definition clean_segment :: "string \<Rightarrow> bool" where
  "clean_segment s \<longleftrightarrow> s \<noteq> [] \<and> s \<noteq> ''.'' \<and> s \<noteq> ''..'' \<and> CHR ''/'' \<notin> set s"

lemma split_on_no_sep: "s \<in> set (split_on c xs) \<Longrightarrow> c \<notin> set s"
  by (induction c xs arbitrary: s rule: split_on.induct) (fastforce split: if_splits list.splits)+

lemma normalize_append: "normalize_absolute (ss @ [s]) = path_step (normalize_absolute ss) s"
  by (simp add: normalize_absolute_def)

lemma path_step_clean: "\<forall>s \<in> set acc. clean_segment s \<Longrightarrow> x = ''..'' \<or> clean_segment x \<Longrightarrow> s \<in> set (path_step acc x) \<Longrightarrow> clean_segment s"
  by (auto simp: path_step_def dest: in_set_butlastD split: if_splits)

lemma normalize_clean: "\<forall>s \<in> set ss. s = ''..'' \<or> clean_segment s \<Longrightarrow> \<forall>s \<in> set (normalize_absolute ss). clean_segment s"
proof (induction ss rule: rev_induct)
  case (snoc x xs)
  then have "\<forall>s \<in> set (normalize_absolute xs). clean_segment s" by simp
  then show ?case using snoc.prems path_step_clean unfolding normalize_append by (metis in_set_conv_decomp)
qed (simp add: normalize_absolute_def)

lemma join_clean: "\<forall>s \<in> set dir. clean_segment s \<Longrightarrow> s \<in> set (path_join dir p) \<Longrightarrow> clean_segment s"
proof -
  assume d: "\<forall>s \<in> set dir. clean_segment s" and s: "s \<in> set (path_join dir p)"
  have "\<forall>s \<in> set (dir @ segments p). s = ''..'' \<or> clean_segment s" using d by (auto simp: segments_def clean_segment_def dest: split_on_no_sep)
  from normalize_clean[OF this] s show "clean_segment s" by (simp add: path_join_def)
qed

lemma join_with_head: "ss \<noteq> [] \<Longrightarrow> \<exists>r. join_with sep ss = hd ss @ r"
  by (cases "(sep, ss)" rule: join_with.cases) auto

lemma relative_inside:
  assumes "take 2 (join_with ''/'' (path_relative a b)) \<noteq> ''..''"
  shows "prefix a b"
proof (rule ccontr)
  let ?c = "longest_common_prefix a b"
  assume n: "\<not> prefix a b"
  have "length ?c < length a"
  proof (rule ccontr)
    assume "\<not> length ?c < length a"
    moreover obtain zs where "a = ?c @ zs" using longest_common_prefix_prefix1[of a b] by (auto simp: prefix_def)
    ultimately have "?c = a" by (metis append_Nil2 length_append less_add_same_cancel1 length_greater_0_conv)
    then show False using n longest_common_prefix_prefix2[of a b] by simp
  qed
  then obtain k where k: "length a - length ?c = Suc k" by (metis Suc_diff_Suc)
  have "path_relative a b = ''..'' # replicate k ''..'' @ drop (length ?c) b" by (simp add: path_relative_def Let_def k)
  then obtain r where "join_with ''/'' (path_relative a b) = ''..'' @ r" using join_with_head[of "path_relative a b" "''/''"] by auto
  then show False using assms by simp
qed

text \<open>C33: Whatever the path of a request decodes to, the only file that is read lies below the directory of the portal.\<close>

theorem portal_serves_only_root:
  assumes "\<forall>s \<in> set (po_rootDir p). clean_segment s" "path \<in> set (fst (handleRequest p readFile verb pathname))"
  shows "prefix (po_rootDir p) path \<and> (\<forall>s \<in> set path. clean_segment s)"
  using assms(2) join_clean[OF assms(1)]
  by (auto simp: handleRequest_def Let_def intro: relative_inside split: if_splits option.splits)

section \<open>Everything inside the directory\<close>

lemma normalize_id: "\<forall>s \<in> set ss. clean_segment s \<Longrightarrow> normalize_absolute ss = ss"
proof (induction ss rule: rev_induct)
  case (snoc x xs)
  then show ?case by (simp add: normalize_append path_step_def clean_segment_def)
qed (simp add: normalize_absolute_def)

lemma segments_path_text: "\<forall>s \<in> set ss. clean_segment s \<Longrightarrow> segments (path_text ss) = ss"
proof (cases "ss = []")
  case False
  assume clean: "\<forall>s \<in> set ss. clean_segment s"
  then have "split_on CHR ''/'' (join_with ''/'' ss) = ss" using False by (intro split_join) (auto simp: clean_segment_def)
  moreover have "filter (\<lambda>s. s \<noteq> [] \<and> s \<noteq> ''.'') ss = ss" using clean by (auto simp: filter_id_conv clean_segment_def)
  ultimately show ?thesis by (simp add: segments_def path_text_def)
qed (simp add: segments_def path_text_def)

lemma relative_below: "path_relative dir (dir @ ss) = ss"
proof -
  have "longest_common_prefix dir (dir @ ss) = dir" by (induction dir) auto
  then show ?thesis by (simp add: path_relative_def)
qed

lemma join_with_end: "ss \<noteq> [] \<Longrightarrow> \<exists>q. join_with sep ss = q @ List.last ss"
proof (induction ss rule: list_nonempty_induct)
  case (cons x xs)
  then obtain q where "join_with sep xs = q @ List.last xs" by blast
  then have "join_with sep (x # xs) = (x @ sep @ q) @ List.last (x # xs)" using cons.hyps by (cases xs) auto
  then show ?case by blast
qed simp

text \<open>A file below the directory is served as it is, with the type of its name, unless the first name on the way starts with two dots.\<close>

theorem portal_serves_file:
  assumes clean: "\<forall>s \<in> set (po_rootDir p @ ss). clean_segment s" and ss: "ss \<noteq> []" "take 2 (join_with ''/'' ss) \<noteq> ''..''" "List.last ss \<noteq> ''index.html''"
    and there: "readFile (po_rootDir p @ ss) False = Some content"
  shows "handleRequest p readFile ''GET'' (Some (path_text ss)) = ([po_rootDir p @ ss], Served (contentTypeFor (po_rootDir p @ ss)) (length content) (Some content))"
proof -
  have c: "clean_segment s" if "s \<in> set ss" for s using that clean by simp
  obtain s0 r where r: "join_with ''/'' ss = s0 @ r" "s0 \<in> set ss" using join_with_head[OF ss(1), of "''/''"] ss(1) by (metis hd_in_set)
  then have first: "take 1 (join_with ''/'' ss) \<noteq> ''/''" using c[of s0] by (cases s0) (auto simp: clean_segment_def)
  have wanted: "path_text ss \<noteq> ''/''" using r c[of s0] by (auto simp: path_text_def clean_segment_def)
  obtain q where q: "join_with ''/'' ss = q @ List.last ss" using join_with_end[OF ss(1)] by blast
  have l: "clean_segment (List.last ss)" using c ss(1) by simp
  then have "List.last (path_text ss) = List.last (List.last ss)" "List.last (List.last ss) \<in> set (List.last ss)"
    using q by (auto simp: path_text_def clean_segment_def)
  then have slash: "List.last (path_text ss) \<noteq> CHR ''/''" using l unfolding clean_segment_def by metis
  have join: "path_join (po_rootDir p) (path_text ss) = po_rootDir p @ ss"
    unfolding path_join_def using c segments_path_text[of ss] normalize_id[of "po_rootDir p @ ss"] clean by simp
  have "path_text ss \<noteq> []" by (simp add: path_text_def)
  then show ?thesis using wanted slash ss first there by (simp add: handleRequest_def Let_def join relative_below)
qed


section \<open>The page keeps its text\<close>

lemma find_head_split: "find_head html = Some (b, tag, rest) \<Longrightarrow> html = b @ tag @ rest"
proof (induction html arbitrary: b)
  case (Cons c cs)
  show ?case
  proof (cases "map lower_hex (take 5 (c # cs)) = ''<head'' \<and> CHR ''>'' \<in> set (drop 5 (c # cs))")
    case True
    let ?t = "drop 5 (c # cs)"
    obtain u v where uv: "?t = u @ CHR ''>'' # v" "CHR ''>'' \<notin> set u" using True split_list_first by metis
    have "\<And>x. x \<in> set u \<Longrightarrow> x \<noteq> CHR ''>''" using uv(2) by metis
    then have tw: "takeWhile (\<lambda>x. x \<noteq> CHR ''>'') ?t = u" unfolding uv(1) by (subst takeWhile_append2) auto
    have "c # cs = take 5 (c # cs) @ u @ ''>'' @ v" using append_take_drop_id[of 5 "c # cs"] uv(1) by (metis append_Cons append_Nil)
    moreover have "drop (6 + length u) (c # cs) = v" 
    proof -
      have "6 + length u = Suc (length u) + 5" by simp
      then have "drop (6 + length u) (c # cs) = drop (Suc (length u)) ?t" by (simp only: drop_drop)
      then show ?thesis unfolding uv(1) by simp
    qed
    moreover have "find_head (c # cs) = Some ([], take 5 (c # cs) @ u @ ''>'', drop (6 + length u) (c # cs))"
      using True by (simp only: find_head.simps if_True Let_def tw simp_thms)
    ultimately show ?thesis using Cons.prems by (metis (no_types, lifting) Pair_inject append.assoc append_Nil option.inject)
  next
    case False
    then show ?thesis using Cons by auto
  qed
qed simp

text \<open>The script is put into the page without taking anything out, and no address can end it early: its text has no \<open><\<close>.\<close>

theorem address_injected_safely:
  "CHR ''<'' \<notin> set (jsonForInlineScript stringify url) \<and>
   (\<exists>a b nl1 nl2. html = a @ b \<and> set (nl1 @ nl2) \<subseteq> {CHR 0x0A} \<and> injectGatewayUrl stringify html url = a @ nl1 @ bootstrap_script stringify url @ nl2 @ b)"
proof
  show "CHR ''<'' \<notin> set (jsonForInlineScript stringify url)" by (auto simp: jsonForInlineScript_def split: if_splits)
  show "\<exists>a b nl1 nl2. html = a @ b \<and> set (nl1 @ nl2) \<subseteq> {CHR 0x0A} \<and> injectGatewayUrl stringify html url = a @ nl1 @ bootstrap_script stringify url @ nl2 @ b"
  proof (cases "find_head html")
    case None
    then show ?thesis by (intro exI[of _ "[]"] exI[of _ html] exI[of _ "[CHR 0x0A]"]) (simp add: injectGatewayUrl_def)
  next
    case (Some h)
    obtain b tag rest where h: "h = (b, tag, rest)" by (cases h)
    have "injectGatewayUrl stringify html url = (b @ tag) @ [CHR 0x0A] @ bootstrap_script stringify url @ [] @ rest" by (simp add: injectGatewayUrl_def Some h)
    moreover have "html = (b @ tag) @ rest" using find_head_split[of html b tag rest] Some h by simp
    ultimately show ?thesis by (intro exI[of _ "b @ tag"] exI[of _ rest] exI[of _ "[CHR 0x0A]"] exI[of _ "[]"]) simp
  qed
qed

section \<open>Examples\<close>

definition sample_portal :: portal where
  "sample_portal = \<lparr>po_rootDir = [''srv'', ''www''], po_gatewayUrl = ''u'', po_stringify = \<lambda>s. s\<rparr>"

lemma portal_serves_only_root_witness:
  "fst (handleRequest sample_portal (\<lambda>path slash. Some ''x'') ''GET'' (Some ''/a/../b.js'')) = [[''srv'', ''www'', ''b.js'']] \<and> prefix [''srv'', ''www''] [''srv'', ''www'', ''b.js'']"
proof -
  have e: "fst (handleRequest sample_portal (\<lambda>path slash. Some ''x'') ''GET'' (Some ''/a/../b.js'')) = [[''srv'', ''www'', ''b.js'']]" by code_simp
  have "\<forall>s \<in> set (po_rootDir sample_portal). clean_segment s" by (simp add: sample_portal_def clean_segment_def)
  from portal_serves_only_root[OF this, of "[''srv'', ''www'', ''b.js'']"] e show ?thesis by (simp add: sample_portal_def)
qed

lemma traversal_refused: "handleRequest sample_portal (\<lambda>path slash. Some ''x'') ''GET'' (Some ''/../../etc/passwd'') = ([], Refused 404)"
  by code_simp

lemma portal_serves_file_witness: "snd (handleRequest sample_portal (\<lambda>path slash. Some ''x'') ''GET'' (Some ''/b.js'')) = Served ''text/javascript; charset=utf-8'' 1 (Some ''x'')"
proof -
  have t: "contentTypeFor [''srv'', ''www'', ''b.js''] = ''text/javascript; charset=utf-8''" by code_simp
  show ?thesis using portal_serves_file[of sample_portal "[''b.js'']" "\<lambda>path slash. Some ''x''" "''x''"]
    by (simp add: sample_portal_def clean_segment_def t path_text_def)
qed

end
