(* ===== verification/GeoTile.thy ===== *)
theory GeoTile
  imports Packet "HOL-Library.Word"
begin

text \<open>
  The tiles of the world terrain (\<open>tools/scenario-model/geo-tile.ts\<close>): their grid, the list of tiles that covers a box, the binary form with differences of
  16 bits that wrap, and the terrain that interpolates between cells. Degrees are exact rationals, as all steps of the grid are powers of two. The JSON
  header and the local projection (\<open>toGeo\<close>) are arguments.
\<close>

section \<open>The grid\<close>

definition TILE_VERSION :: int where "TILE_VERSION = 1"
definition TILE_CELLS :: int where "TILE_CELLS = 256"
definition TILE_DEG :: rat where "TILE_DEG = 1/4"
definition CELL_DEG :: rat where "CELL_DEG = TILE_DEG / of_int TILE_CELLS"
definition TILES_X :: int where "TILES_X = 1440"
definition TILES_Y :: int where "TILES_Y = 720"
definition MAX_LAT :: rat where "MAX_LAT = 85"
definition MAX_TILES_PER_BOX :: int where "MAX_TILES_PER_BOX = 20000"

lemmas grid_defs = TILE_CELLS_def TILE_DEG_def CELL_DEG_def TILES_X_def TILES_Y_def MAX_LAT_def

definition tile_in_range :: "int \<Rightarrow> int \<Rightarrow> bool" where
  "tile_in_range tx ty \<longleftrightarrow> \<not> (tx < 0 \<or> TILES_X \<le> tx \<or> ty < 0 \<or> TILES_Y \<le> ty) \<and>
     (let north = 90 - of_int ty * TILE_DEG; south = north - TILE_DEG in north \<le> MAX_LAT \<and> - MAX_LAT \<le> south)"

text \<open>\<open>validTile\<close> on values that may be anything.\<close>

definition validTile :: "jsval \<Rightarrow> jsval \<Rightarrow> bool" where
  "validTile tx ty = (case (as_integer tx, as_integer ty) of (Some x, Some y) \<Rightarrow> tile_in_range x y | _ \<Rightarrow> False)"

text \<open>The remainder of JavaScript, with the sign of the dividend.\<close>

definition js_rem :: "rat \<Rightarrow> rat \<Rightarrow> rat" where
  "js_rem x m = x - m * of_int (if 0 \<le> x / m then \<lfloor>x / m\<rfloor> else \<lceil>x / m\<rceil>)"

definition wrapLon :: "rat \<Rightarrow> rat" where
  "wrapLon lon = js_rem (js_rem (lon + 180) 360 + 360) 360 - 180"

definition js_rem_int :: "int \<Rightarrow> int \<Rightarrow> int" where
  "js_rem_int x m = (if 0 \<le> x then x mod m else - ((- x) mod m))"

definition wrap_column :: "int \<Rightarrow> int" where
  "wrap_column c = js_rem_int (js_rem_int c TILES_X + TILES_X) TILES_X"

definition tileOf :: "rat \<Rightarrow> rat \<Rightarrow> int \<times> int" where
  "tileOf lat lon = (let gx = \<lfloor>(wrapLon lon + 180) / CELL_DEG\<rfloor>; gy = \<lfloor>(90 - lat) / CELL_DEG\<rfloor> in
     (\<lfloor>of_int gx / (of_int TILE_CELLS :: rat)\<rfloor>, \<lfloor>of_int gy / (of_int TILE_CELLS :: rat)\<rfloor>))"

record geo_box =
  bx_south :: rat
  bx_west :: rat
  bx_north :: rat
  bx_east :: rat

definition tileBounds :: "int \<Rightarrow> int \<Rightarrow> geo_box" where
  "tileBounds tx ty = (let north = 90 - of_int ty * TILE_DEG; west = -180 + of_int tx * TILE_DEG in
     \<lparr>bx_south = north - TILE_DEG, bx_west = west, bx_north = north, bx_east = west + TILE_DEG\<rparr>)"

text \<open>The columns, each once in the order of its first occurrence.\<close>

fun box_columns :: "int set \<Rightarrow> int list \<Rightarrow> int list" where
  "box_columns seen [] = []"
| "box_columns seen (c # cs) = (let tx = wrap_column c in
     if tx \<in> seen then box_columns seen cs else tx # box_columns (insert tx seen) cs)"

definition tilesForGeoBox :: "geo_box \<Rightarrow> string + (int \<times> int) list" where
  "tilesForGeoBox b = (if \<not> (bx_south b \<le> bx_north b \<and> bx_west b \<le> bx_east b) then Inl ''not a box''
   else if 360 \<le> bx_east b - bx_west b then Inl ''too wide''
   else let ty0 = snd (tileOf (min MAX_LAT (bx_north b)) 0);
            ty1 = snd (tileOf (max (- MAX_LAT) (bx_south b)) 0);
            c0 = \<lfloor>(bx_west b + 180) / TILE_DEG\<rfloor>;
            c1 = \<lfloor>(bx_east b + 180) / TILE_DEG\<rfloor> in
        if MAX_TILES_PER_BOX < (c1 - c0 + 1) * (ty1 - ty0 + 1) then Inl ''too many tiles''
        else Inr (concat (map (\<lambda>tx. map (Pair tx) (filter (tile_in_range tx) [ty0..ty1])) (box_columns {} [c0..c1]))))"

section \<open>Wrapping\<close>

lemma js_rem_range: "0 < m \<Longrightarrow> - m < js_rem x m \<and> js_rem x m < m \<and> (0 \<le> x \<longrightarrow> 0 \<le> js_rem x m)"
proof -
  assume m: "0 < m"
  define q where "q = x / m"
  have x: "x = m * q" using m by (simp add: q_def)
  have r: "js_rem x m = m * (q - of_int (if 0 \<le> q then \<lfloor>q\<rfloor> else \<lceil>q\<rceil>))"
    unfolding js_rem_def q_def[symmetric] by (subst x) (simp add: algebra_simps)
  have "- 1 < q - of_int (if 0 \<le> q then \<lfloor>q\<rfloor> else \<lceil>q\<rceil>)" "q - of_int (if 0 \<le> q then \<lfloor>q\<rfloor> else \<lceil>q\<rceil>) < 1"
    by (simp_all split: if_split) linarith+
  moreover have "0 \<le> q - of_int (if 0 \<le> q then \<lfloor>q\<rfloor> else \<lceil>q\<rceil>)" if "0 \<le> q" using that by simp
  ultimately have "m * (-1) < js_rem x m" "js_rem x m < m * 1" unfolding r using m mult_less_cancel_left_pos by blast+
  moreover have "0 \<le> x \<longrightarrow> 0 \<le> js_rem x m" unfolding r using \<open>0 \<le> q \<Longrightarrow> _\<close> m x by (auto simp: zero_le_mult_iff)
  ultimately show ?thesis by simp
qed

lemma js_rem_shift: "\<exists>k. js_rem x m = x + of_int k * m"
  unfolding js_rem_def by (rule exI[of _ "- (if 0 \<le> x / m then \<lfloor>x / m\<rfloor> else \<lceil>x / m\<rceil>)"]) (simp add: algebra_simps)

lemma wrapLon_facts: "- 180 \<le> wrapLon lon" "wrapLon lon < 180" "\<exists>k. wrapLon lon = lon + of_int k * 360"
proof -
  let ?y = "js_rem (lon + 180) 360 + 360"
  have y: "0 \<le> ?y" using js_rem_range[of 360 "lon + 180"] by simp
  show "- 180 \<le> wrapLon lon" "wrapLon lon < 180" using js_rem_range[of 360 ?y] y by (auto simp: wrapLon_def)
  obtain j where j: "js_rem (lon + 180) 360 = lon + 180 + of_int j * 360" using js_rem_shift by blast
  obtain k where k: "js_rem ?y 360 = ?y + of_int k * 360" using js_rem_shift by blast
  have "wrapLon lon = lon + of_int (j + k + 1) * 360" using j k by (simp add: wrapLon_def algebra_simps)
  then show "\<exists>k. wrapLon lon = lon + of_int k * 360" by blast
qed

lemma wrap_column_mod: "wrap_column c = c mod TILES_X"
proof -
  have "js_rem_int c TILES_X mod TILES_X = c mod TILES_X" by (simp add: js_rem_int_def mod_minus_eq)
  moreover have "0 \<le> js_rem_int c TILES_X + TILES_X" by (auto simp: js_rem_int_def TILES_X_def intro: order.trans[of _ "- (- c mod 1440) + 1440"])
  ultimately show ?thesis by (simp add: wrap_column_def js_rem_int_def)
qed


section \<open>Every tile of a box\<close>

lemma floor_div_int:
  fixes x :: rat
  assumes "0 < n"
  shows "\<lfloor>of_int \<lfloor>x\<rfloor> / (of_int n :: rat)\<rfloor> = \<lfloor>x / of_int n\<rfloor>"
proof -
  let ?f = "\<lfloor>x / of_int n\<rfloor>"
  have n: "(0::rat) < of_int n" using assms by simp
  have "of_int ?f \<le> x / of_int n" "x / of_int n < of_int (?f + 1)" using floor_correct[of "x / of_int n"] by blast+
  then have "of_int (?f * n) \<le> x" "x < of_int ((?f + 1) * n)" unfolding pos_le_divide_eq[OF n] pos_divide_less_eq[OF n] of_int_mult .
  then have "?f * n \<le> \<lfloor>x\<rfloor>" "\<lfloor>x\<rfloor> < (?f + 1) * n" by (simp add: le_floor_iff, simp add: floor_less_iff)
  then have "(of_int (?f * n) :: rat) \<le> of_int \<lfloor>x\<rfloor>" "(of_int \<lfloor>x\<rfloor> :: rat) < of_int ((?f + 1) * n)" by (simp_all only: of_int_le_iff of_int_less_iff)
  then have "of_int ?f \<le> of_int \<lfloor>x\<rfloor> / (of_int n :: rat)" "of_int \<lfloor>x\<rfloor> / (of_int n :: rat) < of_int ?f + 1" using n by (simp_all add: field_simps)
  then show ?thesis by (simp add: floor_unique)
qed

lemma tileOf_eq: "tileOf lat lon = (\<lfloor>(wrapLon lon + 180) / TILE_DEG\<rfloor>, \<lfloor>(90 - lat) / TILE_DEG\<rfloor>)"
proof -
  have "y / CELL_DEG / of_int TILE_CELLS = y / TILE_DEG" for y by (simp add: grid_defs)
  moreover have "0 < TILE_CELLS" by (simp add: TILE_CELLS_def)
  ultimately show ?thesis by (simp only: tileOf_def Let_def floor_div_int)
qed

lemma tile_column: "fst (tileOf lat lon) = \<lfloor>(lon + 180) / TILE_DEG\<rfloor> mod TILES_X"
proof -
  obtain k where k: "wrapLon lon = lon + of_int k * 360" using wrapLon_facts(3) by blast
  let ?c = "\<lfloor>(lon + 180) / TILE_DEG\<rfloor>"
  have "(wrapLon lon + 180) / TILE_DEG = (lon + 180) / TILE_DEG + of_int (k * 1440)" by (simp add: k TILE_DEG_def field_simps)
  then have "fst (tileOf lat lon) = ?c + k * 1440" unfolding tileOf_eq fst_conv by (simp only: floor_add_int)
  moreover have "0 \<le> fst (tileOf lat lon)" "fst (tileOf lat lon) < 1440"
    unfolding tileOf_eq fst_conv zero_le_floor floor_less_iff using wrapLon_facts(1,2)[of lon] by (simp_all add: TILE_DEG_def)
  ultimately show ?thesis unfolding TILES_X_def by (metis mod_mult_self1 mod_pos_pos_trivial mult.commute)
qed

lemma box_columns_set: "set (box_columns seen cs) = wrap_column ` set cs - seen"
  by (induction seen cs rule: box_columns.induct) (auto simp: Let_def)

lemma box_columns_distinct: "distinct (box_columns seen cs)"
  by (induction seen cs rule: box_columns.induct) (auto simp: Let_def box_columns_set)

lemma box_columns_length: "length (box_columns seen cs) \<le> length cs"
  by (induction seen cs rule: box_columns.induct) (auto simp: Let_def)

definition in_box :: "geo_box \<Rightarrow> rat \<Rightarrow> rat \<Rightarrow> bool" where
  "in_box b lat lon \<longleftrightarrow> bx_south b \<le> lat \<and> lat \<le> bx_north b \<and> bx_west b \<le> lon \<and> lon \<le> bx_east b"

lemma distinct_rows: "distinct xs \<Longrightarrow> (\<And>x. distinct (f x)) \<Longrightarrow> distinct (concat (map (\<lambda>x. map (Pair x) (f x)) xs))"
  by (induction xs) (auto simp: distinct_map inj_on_def)

lemma length_rows: "(\<And>x. length (f x) \<le> n) \<Longrightarrow> length (concat (map (\<lambda>x. map (Pair x) (f x)) xs)) \<le> length xs * n"
  by (induction xs) (auto intro: add_mono)

lemma row_of_point:
  assumes "in_box b lat lon" "tile_in_range tx (snd (tileOf lat lon))"
  shows "snd (tileOf (min MAX_LAT (bx_north b)) 0) \<le> snd (tileOf lat lon)" "snd (tileOf lat lon) \<le> snd (tileOf (max (- MAX_LAT) (bx_south b)) 0)"
proof -
  let ?y = "snd (tileOf lat lon)"
  have y: "?y = \<lfloor>(90 - lat) / TILE_DEG\<rfloor>" by (simp add: tileOf_eq)
  then have "of_int ?y \<le> (90 - lat) / TILE_DEG" "(90 - lat) / TILE_DEG < of_int ?y + 1" by linarith+
  moreover have "90 - of_int ?y * TILE_DEG \<le> MAX_LAT" "- MAX_LAT \<le> 90 - of_int ?y * TILE_DEG - TILE_DEG" using assms(2) by (auto simp: tile_in_range_def Let_def)
  ultimately have "lat \<le> MAX_LAT" "- MAX_LAT \<le> lat" by (auto simp: TILE_DEG_def)
  then have "(90 - min MAX_LAT (bx_north b)) / TILE_DEG \<le> (90 - lat) / TILE_DEG" "(90 - lat) / TILE_DEG \<le> (90 - max (- MAX_LAT) (bx_south b)) / TILE_DEG"
    using assms(1) by (auto simp: in_box_def TILE_DEG_def)
  then show "snd (tileOf (min MAX_LAT (bx_north b)) 0) \<le> ?y" "?y \<le> snd (tileOf (max (- MAX_LAT) (bx_south b)) 0)"
    by (simp_all add: tileOf_eq floor_mono)
qed

text \<open>The list holds every tile of the grid that has a point of the box, once each, and never more than the limit; a box across the 180th meridian is no exception.\<close>

theorem box_covered:
  assumes "tilesForGeoBox b = Inr ts"
  shows "distinct ts \<and> int (length ts) \<le> MAX_TILES_PER_BOX \<and> (\<forall>(tx, ty) \<in> set ts. tile_in_range tx ty) \<and>
    (\<forall>lat lon. in_box b lat lon \<longrightarrow> (case tileOf lat lon of (tx, ty) \<Rightarrow> tile_in_range tx ty) \<longrightarrow> tileOf lat lon \<in> set ts)"
proof -
  define ty0 where "ty0 = snd (tileOf (min MAX_LAT (bx_north b)) 0)"
  define ty1 where "ty1 = snd (tileOf (max (- MAX_LAT) (bx_south b)) 0)"
  define c0 where "c0 = \<lfloor>(bx_west b + 180) / TILE_DEG\<rfloor>"
  define c1 where "c1 = \<lfloor>(bx_east b + 180) / TILE_DEG\<rfloor>"
  let ?f = "\<lambda>tx. filter (tile_in_range tx) [ty0..ty1]"
  have small: "(c1 - c0 + 1) * (ty1 - ty0 + 1) \<le> MAX_TILES_PER_BOX" and ts: "ts = concat (map (\<lambda>tx. map (Pair tx) (?f tx)) (box_columns {} [c0..c1]))"
    and box: "bx_west b \<le> bx_east b"
    using assms by (auto simp: tilesForGeoBox_def Let_def ty0_def ty1_def c0_def c1_def split: if_splits)
  have c: "c0 \<le> c1" using box by (simp add: c0_def c1_def TILE_DEG_def floor_mono)
  have "length ts \<le> length (box_columns {} [c0..c1]) * nat (ty1 - ty0 + 1)" unfolding ts
    by (rule length_rows) (rule order.trans[OF length_filter_le], simp)
  also have "\<dots> \<le> nat (c1 - c0 + 1) * nat (ty1 - ty0 + 1)" using box_columns_length[of "{}" "[c0..c1]"] by (intro mult_right_mono) simp_all
  finally have "int (length ts) \<le> int (nat (c1 - c0 + 1) * nat (ty1 - ty0 + 1))" by (simp only: of_nat_le_iff)
  then have "int (length ts) \<le> (c1 - c0 + 1) * int (nat (ty1 - ty0 + 1))" using c by (simp only: of_nat_mult) simp
  then have len: "int (length ts) \<le> MAX_TILES_PER_BOX" using small by (cases "0 \<le> ty1 - ty0 + 1") (auto simp: MAX_TILES_PER_BOX_def)
  have dist: "distinct ts" unfolding ts by (rule distinct_rows) (simp_all add: box_columns_distinct)
  have cover: "tileOf lat lon \<in> set ts" if p: "in_box b lat lon" and ok: "case tileOf lat lon of (tx, ty) \<Rightarrow> tile_in_range tx ty" for lat lon
  proof -
    have "ty0 \<le> snd (tileOf lat lon)" "snd (tileOf lat lon) \<le> ty1" using row_of_point[OF p] ok by (auto simp: ty0_def ty1_def split: prod.splits)
    moreover have "c0 \<le> \<lfloor>(lon + 180) / TILE_DEG\<rfloor>" "\<lfloor>(lon + 180) / TILE_DEG\<rfloor> \<le> c1"
      using p by (simp_all add: in_box_def c0_def c1_def TILE_DEG_def floor_mono)
    then have "fst (tileOf lat lon) \<in> set (box_columns {} [c0..c1])" by (auto simp: box_columns_set tile_column wrap_column_mod)
    ultimately show ?thesis using ok unfolding ts by (cases "tileOf lat lon") auto
  qed
  have valid: "\<forall>(tx, ty) \<in> set ts. tile_in_range tx ty" unfolding ts by auto
  show ?thesis using dist len valid cover by blast
qed


section \<open>The binary form\<close>

record geo_tile =
  gt_tx :: int
  gt_ty :: int
  gt_sources :: "string list"
  gt_elevation :: "16 word list"
  gt_cover :: "8 word list"

definition MAGIC :: "8 word list" where "MAGIC = [0x41, 0x52, 0x54, 0x47]"
definition N_CELLS :: nat where "N_CELLS = 65536"
definition ROW_CELLS :: nat where "ROW_CELLS = 256"
definition COVER_COUNT :: nat where "COVER_COUNT = 5"

text \<open>Numbers in little-endian order.\<close>

definition u32le :: "nat \<Rightarrow> 8 word list" where
  "u32le n = map (\<lambda>i. word_of_nat (n div 256 ^ i)) [0..<4]"

definition get_u32 :: "8 word list \<Rightarrow> nat" where
  "get_u32 bs = foldr (\<lambda>b n. unat b + 256 * n) bs 0"

definition i16le :: "16 word \<Rightarrow> 8 word list" where
  "i16le w = [ucast w, ucast (drop_bit 8 w)]"

definition get_i16 :: "8 word \<Rightarrow> 8 word \<Rightarrow> 16 word" where
  "get_i16 l h = or (ucast l) (push_bit 8 (ucast h))"

fun get_i16s :: "8 word list \<Rightarrow> 16 word list" where
  "get_i16s (l # h # bs) = get_i16 l h # get_i16s bs"
| "get_i16s _ = []"

text \<open>Each row is stored as differences to the cell before, which wrap at 16 bits; reading adds them up with the same wrap.\<close>

fun deltas :: "16 word \<Rightarrow> 16 word list \<Rightarrow> 16 word list" where
  "deltas prev [] = []"
| "deltas prev (v # vs) = (v - prev) # deltas v vs"

fun undeltas :: "16 word \<Rightarrow> 16 word list \<Rightarrow> 16 word list" where
  "undeltas prev [] = []"
| "undeltas prev (d # ds) = (let v = prev + d in v # undeltas v ds)"

definition slice_at :: "nat \<Rightarrow> nat \<Rightarrow> 'a list \<Rightarrow> 'a list" where
  "slice_at n k xs = take n (drop (k * n) xs)"

definition elevation_bytes :: "16 word list \<Rightarrow> 8 word list" where
  "elevation_bytes el = concat (map (\<lambda>r. concat (map i16le (deltas 0 (slice_at ROW_CELLS r el)))) [0..<ROW_CELLS])"

definition elevation_cells :: "8 word list \<Rightarrow> 16 word list" where
  "elevation_cells data = concat (map (\<lambda>r. undeltas 0 (get_i16s (slice_at (2 * ROW_CELLS) r data))) [0..<ROW_CELLS])"

definition tile_header :: "geo_tile \<Rightarrow> jsval" where
  "tile_header t = JObject [(''version'', JNumber (Num (of_int TILE_VERSION))), (''tx'', JNumber (Num (of_int (gt_tx t)))), (''ty'', JNumber (Num (of_int (gt_ty t)))),
     (''sources'', JArray (map JString (gt_sources t)))]"

definition encodeTile :: "(jsval \<Rightarrow> 8 word list) \<Rightarrow> geo_tile \<Rightarrow> string + 8 word list" where
  "encodeTile print t = (if length (gt_elevation t) \<noteq> N_CELLS \<or> length (gt_cover t) \<noteq> N_CELLS then Inl ''inconsistent tile''
     else let head = print (tile_header t) in Inr (MAGIC @ u32le (length head) @ head @ elevation_bytes (gt_elevation t) @ gt_cover t))"

definition tile_sources :: "jsval \<Rightarrow> string list" where
  "tile_sources v = (case v of JArray vs \<Rightarrow> take 20 (List.map_filter as_string vs) | _ \<Rightarrow> [])"

text \<open>What follows once the lengths are known to fit.\<close>

definition decode_body :: "(8 word list \<Rightarrow> jsval option) \<Rightarrow> nat \<Rightarrow> 8 word list \<Rightarrow> string + geo_tile" where
  "decode_body parse headLen bytes = (case parse (take headLen (drop 8 bytes)) of
       None \<Rightarrow> Inl ''unreadable header''
     | Some h \<Rightarrow>
         if \<not> is_object h \<or> jfield h ''version'' \<noteq> JNumber (Num (of_int TILE_VERSION)) then Inl ''unsupported version''
         else case (as_integer (jfield h ''tx''), as_integer (jfield h ''ty'')) of
           (Some tx, Some ty) \<Rightarrow>
             if \<not> tile_in_range tx ty then Inl ''bad index''
             else let cells = drop (8 + headLen) bytes; cover = take N_CELLS (drop (2 * N_CELLS) cells) in
               if list_ex (\<lambda>c. COVER_COUNT \<le> unat c) cover then Inl ''unknown land cover''
               else Inr \<lparr>gt_tx = tx, gt_ty = ty, gt_sources = tile_sources (jfield h ''sources''), gt_elevation = elevation_cells cells, gt_cover = cover\<rparr>
         | _ \<Rightarrow> Inl ''bad index'')"

definition decodeTile :: "(8 word list \<Rightarrow> jsval option) \<Rightarrow> 8 word list \<Rightarrow> string + geo_tile" where
  "decodeTile parse bytes = (if length bytes < 8 \<or> take 4 bytes \<noteq> MAGIC then Inl ''not a tile''
   else let headLen = get_u32 (take 4 (drop 4 bytes)) in
     if 100000 < headLen \<or> length bytes < 8 + headLen then Inl ''bad header''
     else if length bytes \<noteq> 8 + headLen + 3 * N_CELLS then Inl ''truncated or too long''
     else decode_body parse headLen bytes)"

definition tile_ok :: "geo_tile \<Rightarrow> bool" where
  "tile_ok t \<longleftrightarrow> tile_in_range (gt_tx t) (gt_ty t) \<and> length (gt_elevation t) = N_CELLS \<and> length (gt_cover t) = N_CELLS \<and>
     list_all (\<lambda>c. unat c < COVER_COUNT) (gt_cover t) \<and> length (gt_sources t) \<le> 20"

section \<open>Slices and differences\<close>

lemma slices_concat: "concat (map (\<lambda>r. slice_at n r xs) [0..<m]) = take (m * n) xs"
proof (induction m)
  case (Suc m)
  have "take (m * n) xs @ take n (drop (m * n) xs) = take (m * n + n) xs" by (rule take_add[symmetric])
  then show ?case using Suc by (simp add: slice_at_def add.commute)
qed simp

lemma slice_of_concat: "(\<And>r. r < m \<Longrightarrow> length (f r) = n) \<Longrightarrow> k < m \<Longrightarrow> slice_at n k (concat (map f [0..<m]) @ rest) = f k"
proof (induction m arbitrary: rest)
  case (Suc m)
  have l: "length (concat (map f [0..<m])) = m * n" using Suc.prems(1) by (induction m) auto
  show ?case
  proof (cases "k = m")
    case True
    then show ?thesis using Suc.prems(1)[of m] l by (simp add: slice_at_def)
  next
    case False
    then show ?thesis using Suc.IH[of "f m @ rest"] Suc.prems by simp
  qed
qed simp

lemma length_slice: "k < m \<Longrightarrow> length xs = m * n \<Longrightarrow> length (slice_at n k xs) = n"
proof -
  assume k: "k < m" and l: "length xs = m * n"
  have "k * n + n \<le> m * n" using mult_le_mono1[of "Suc k" m n] k by simp
  then show ?thesis using l by (simp add: slice_at_def)
qed

lemma undeltas_deltas [simp]: "undeltas prev (deltas prev vs) = vs"
  by (induction vs arbitrary: prev) (auto simp: Let_def)

lemma length_deltas [simp]: "length (deltas prev vs) = length vs"
  by (induction vs arbitrary: prev) auto

lemma length_undeltas [simp]: "length (undeltas prev vs) = length vs"
  by (induction vs arbitrary: prev) (auto simp: Let_def)

lemma get_i16_le: "get_i16 (ucast w) (ucast (drop_bit 8 w)) = w"
  by (rule bit_word_eqI) (auto simp: get_i16_def bit_simps)

lemma get_i16s_le: "get_i16s (concat (map i16le ws)) = ws"
  by (induction ws) (auto simp: i16le_def get_i16_le)

lemma length_i16s_half: "length (get_i16s bs) = length bs div 2"
  by (induction bs rule: get_i16s.induct) auto

lemma length_i16s: "length bs = 2 * n \<Longrightarrow> length (get_i16s bs) = n"
  by (simp add: length_i16s_half)

lemma length_i16le: "length (concat (map i16le ws)) = 2 * length ws"
  by (induction ws) (auto simp: i16le_def)

lemma elevation_roundtrip:
  assumes "length el = N_CELLS"
  shows "elevation_cells (elevation_bytes el @ rest) = el" "length (elevation_bytes el) = 2 * N_CELLS"
proof -
  let ?f = "\<lambda>r. concat (map i16le (deltas 0 (slice_at ROW_CELLS r el)))"
  have n: "N_CELLS = ROW_CELLS * ROW_CELLS" by (simp add: N_CELLS_def ROW_CELLS_def)
  have row: "length (?f r) = 2 * ROW_CELLS" if "r < ROW_CELLS" for r using length_slice[OF that, of el ROW_CELLS] assms n by (simp add: length_i16le)
  have "slice_at (2 * ROW_CELLS) r (elevation_bytes el @ rest) = ?f r" if "r < ROW_CELLS" for r
    unfolding elevation_bytes_def by (rule slice_of_concat[OF row that])
  then have "elevation_cells (elevation_bytes el @ rest) = concat (map (\<lambda>r. slice_at ROW_CELLS r el) [0..<ROW_CELLS])"
    unfolding elevation_cells_def by (intro arg_cong[of _ _ concat] map_cong) (simp_all add: get_i16s_le)
  then show "elevation_cells (elevation_bytes el @ rest) = el" using assms n by (simp add: slices_concat)
  have "length (concat (map ?f [0..<m])) = m * (2 * ROW_CELLS)" if "m \<le> ROW_CELLS" for m using that row by (induction m) auto
  then show "length (elevation_bytes el) = 2 * N_CELLS" using n by (simp add: elevation_bytes_def)
qed

lemma length_elevation: "length data = 3 * N_CELLS \<Longrightarrow> length (elevation_cells data) = N_CELLS"
proof -
  assume l: "length data = 3 * N_CELLS"
  have "length (get_i16s (slice_at (2 * ROW_CELLS) r data)) = ROW_CELLS" if "r < ROW_CELLS" for r
  proof (rule length_i16s)
    have "r * (2 * ROW_CELLS) + 2 * ROW_CELLS \<le> length data" using that l by (simp add: N_CELLS_def ROW_CELLS_def)
    then show "length (slice_at (2 * ROW_CELLS) r data) = 2 * ROW_CELLS" by (simp add: slice_at_def)
  qed
  then have "length (concat (map (\<lambda>r. undeltas 0 (get_i16s (slice_at (2 * ROW_CELLS) r data))) [0..<m])) = m * ROW_CELLS" if "m \<le> ROW_CELLS" for m
    using that by (induction m) auto
  then show ?thesis by (simp add: elevation_cells_def N_CELLS_def ROW_CELLS_def)
qed

lemma u32_roundtrip: "n < 2 ^ 32 \<Longrightarrow> get_u32 (u32le n) = n"
proof -
  assume n: "n < 2 ^ 32"
  have four: "[0..<4] = [0, Suc 0, Suc (Suc 0), Suc (Suc (Suc 0))]" by (simp add: upt_rec)
  have "unat (word_of_nat x :: 8 word) = x mod 256" for x by (simp add: unsigned_of_nat take_bit_eq_mod)
  then have "get_u32 (u32le n) = n mod 256 + 256 * (n div 256 mod 256 + 256 * (n div (256 * 256) mod 256 + 256 * (n div (256 * (256 * 256)) mod 256)))"
    by (simp only: u32le_def get_u32_def four list.map foldr.simps o_apply power.simps id_apply mult_1_right div_by_1 mult_0_right add_0_right)
  also have "\<dots> = n mod 256 + 256 * (n div 256 mod 256 + 256 * (n div 256 div 256 mod 256 + 256 * (n div 256 div 256 div 256 mod 256)))"
    by (simp only: div_mult2_eq)
  also have "n div 256 div 256 div 256 mod 256 = n div 256 div 256 div 256" using n by (simp add: div_less_iff_less_mult)
  finally show ?thesis by (simp only: mod_mult_div_eq)
qed


section \<open>Reading back\<close>

text \<open>C32: A tile is read back exactly as it was written, whatever its heights are.\<close>

theorem tile_roundtrip:
  assumes ok: "tile_ok t" and head: "parse (print (tile_header t)) = Some (tile_header t)" "length (print (tile_header t)) \<le> 100000"
    and enc: "encodeTile print t = Inr bytes"
  shows "decodeTile parse bytes = Inr t"
proof -
  let ?h = "print (tile_header t)"
  have el: "length (gt_elevation t) = N_CELLS" and cov: "length (gt_cover t) = N_CELLS" "\<not> list_ex (\<lambda>c. COVER_COUNT \<le> unat c) (gt_cover t)"
    and rest: "tile_in_range (gt_tx t) (gt_ty t)" "length (gt_sources t) \<le> 20"
    using ok by (auto simp: tile_ok_def list_ex_iff list_all_iff not_le)
  have b: "bytes = MAGIC @ u32le (length ?h) @ ?h @ elevation_bytes (gt_elevation t) @ gt_cover t"
    using enc el cov by (simp add: encodeTile_def Let_def)
  have m: "length MAGIC = 4" "length (u32le n) = 4" for n by (simp_all add: MAGIC_def u32le_def)
  have len: "get_u32 (u32le (length ?h)) = length ?h" by (rule u32_roundtrip) (use head(2) in simp)
  have cells: "drop (8 + length ?h) bytes = elevation_bytes (gt_elevation t) @ gt_cover t" unfolding b by (simp add: m)
  have parts: "take 4 bytes = MAGIC" "take 4 (drop 4 bytes) = u32le (length ?h)" "take (length ?h) (drop 8 bytes) = ?h"
    "length bytes = 8 + length ?h + 3 * N_CELLS" unfolding b by (simp_all add: m elevation_roundtrip[OF el] cov)
  have src: "tile_sources (JArray (map JString (gt_sources t))) = gt_sources t"
    using rest(2) by (simp add: tile_sources_def List.map_filter_def comp_def filter_True)
  have fields: "jfield (tile_header t) ''version'' = JNumber (Num (of_int TILE_VERSION))" "as_integer (jfield (tile_header t) ''tx'') = Some (gt_tx t)"
    "as_integer (jfield (tile_header t) ''ty'') = Some (gt_ty t)" "jfield (tile_header t) ''sources'' = JArray (map JString (gt_sources t))" "is_object (tile_header t)"
    by (simp_all add: tile_header_def)
  show ?thesis
    using rest cov head(2) by (simp add: decodeTile_def decode_body_def Let_def parts len head(1) fields not_less src cells elevation_roundtrip[OF el] del: as_integer.simps)
qed

text \<open>Whatever the bytes are, a tile that is accepted has its index within the grid, all its cells and only known classes of land cover.\<close>

theorem decoded_tile_ok:
  assumes "decodeTile parse bytes = Inr t"
  shows "tile_ok t"
proof -
  define n where "n = get_u32 (take 4 (drop 4 bytes))"
  define cells where "cells = drop (8 + n) bytes"
  define cover where "cover = take N_CELLS (drop (2 * N_CELLS) cells)"
  have g: "length bytes = 8 + n + 3 * N_CELLS" "decode_body parse n bytes = Inr t"
    using assms[unfolded decodeTile_def Let_def, folded n_def] by (simp_all only: sum.distinct simp_thms split: if_split_asm)
  then have c: "length cells = 3 * N_CELLS" by (simp add: cells_def)
  then have cl: "length cover = N_CELLS" by (simp add: cover_def)
  obtain h where h: "parse (take n (drop 8 bytes)) = Some h" using g(2) by (auto simp: decode_body_def split: option.splits)
  define tx where "tx = as_integer (jfield h ''tx'')"
  define ty where "ty = as_integer (jfield h ''ty'')"
  obtain x y where xy: "tx = Some x" "ty = Some y" "tile_in_range x y" "\<not> list_ex (\<lambda>c. COVER_COUNT \<le> unat c) cover"
    "t = \<lparr>gt_tx = x, gt_ty = y, gt_sources = tile_sources (jfield h ''sources''), gt_elevation = elevation_cells cells, gt_cover = cover\<rparr>"
    using g(2) by (auto simp: decode_body_def h Let_def simp flip: tx_def ty_def cells_def cover_def split: option.splits if_splits)
  have "length (tile_sources v) \<le> 20" for v by (simp add: tile_sources_def split: jsval.split)
  then show ?thesis using xy c cl by (simp add: tile_ok_def length_elevation list_ex_iff list_all_iff not_le)
qed

section \<open>The terrain\<close>

text \<open>The tiles asked for and not found, in order, and the tile used last. The store is an argument of every reading.\<close>

record terrain =
  te_missing :: "(int \<times> int) list"
  te_last :: "(int \<times> int \<times> geo_tile) option"

definition terrain_new :: terrain where "terrain_new = \<lparr>te_missing = [], te_last = None\<rparr>"

definition noteMissing :: "int \<Rightarrow> int \<Rightarrow> terrain \<Rightarrow> terrain" where
  "noteMissing tx ty s = (if length (te_missing s) < 5000 \<and> (tx, ty) \<notin> set (te_missing s) then s\<lparr>te_missing := te_missing s @ [(tx, ty)]\<rparr> else s)"

definition cellAt :: "(int \<Rightarrow> int \<Rightarrow> geo_tile option) \<Rightarrow> int \<Rightarrow> int \<Rightarrow> terrain \<Rightarrow> (geo_tile \<times> nat) option \<times> terrain" where
  "cellAt store gx gy s = (let tx = gx div TILE_CELLS; ty = gy div TILE_CELLS in
     if ty < 0 \<or> TILES_Y \<le> ty then (None, s)
     else let wtx = wrap_column tx;
              (tile, s') = (case te_last s of
                 Some (lx, ly, t) \<Rightarrow> if wtx = lx \<and> ty = ly then (Some t, s)
                   else (case store wtx ty of Some t \<Rightarrow> (Some t, s\<lparr>te_last := Some (wtx, ty, t)\<rparr>) | None \<Rightarrow> (None, s))
               | None \<Rightarrow> (case store wtx ty of Some t \<Rightarrow> (Some t, s\<lparr>te_last := Some (wtx, ty, t)\<rparr>) | None \<Rightarrow> (None, s))) in
          case tile of None \<Rightarrow> (None, noteMissing wtx ty s')
          | Some t \<Rightarrow> (Some (t, nat ((gy - ty * TILE_CELLS) * TILE_CELLS + (gx - tx * TILE_CELLS))), s'))"

definition cell_height :: "geo_tile \<times> nat \<Rightarrow> rat" where
  "cell_height c = of_int (sint (gt_elevation (fst c) ! snd c))"

text \<open>One of the four cells around the point: its offset and the fractions of the point. The sum and the weights so far go through.\<close>

definition corner_weight :: "rat \<Rightarrow> rat \<Rightarrow> int \<times> int \<Rightarrow> rat" where
  "corner_weight tx ty d = (if fst d \<noteq> 0 then tx else 1 - tx) * (if snd d \<noteq> 0 then ty else 1 - ty)"

definition add_corner :: "(int \<Rightarrow> int \<Rightarrow> geo_tile option) \<Rightarrow> rat \<Rightarrow> rat \<Rightarrow> rat \<times> rat \<times> terrain \<Rightarrow> int \<times> int \<Rightarrow> rat \<times> rat \<times> terrain" where
  "add_corner store fx fy a d = (case a of (acc, weight, s) \<Rightarrow>
     let w = corner_weight (fx - of_int \<lfloor>fx\<rfloor>) (fy - of_int \<lfloor>fy\<rfloor>) d in
     if w = 0 then (acc, weight, s)
     else case cellAt store (\<lfloor>fx\<rfloor> + fst d) (\<lfloor>fy\<rfloor> + snd d) s of
       (None, s') \<Rightarrow> (acc, weight, s')
     | (Some c, s') \<Rightarrow> (acc + cell_height c * w, weight + w, s'))"

text \<open>The geographic point is \<open>None\<close> if it is not finite.\<close>

definition elevationAt :: "(int \<Rightarrow> int \<Rightarrow> geo_tile option) \<Rightarrow> (rat \<times> rat) option \<Rightarrow> terrain \<Rightarrow> rat \<times> terrain" where
  "elevationAt store g s = (case g of None \<Rightarrow> (0, s)
   | Some (lat, lon) \<Rightarrow> if 90 < \<bar>lat\<bar> then (0, s)
     else let fx = (wrapLon lon + 180) / CELL_DEG - 1/2; fy = (90 - lat) / CELL_DEG - 1/2 in
       case foldl (add_corner store fx fy) (0, 0, s) [(0, 0), (1, 0), (0, 1), (1, 1)] of
         (acc, weight, s') \<Rightarrow> (if 0 < weight then acc / weight else 0, s'))"

definition landCoverAt :: "(int \<Rightarrow> int \<Rightarrow> geo_tile option) \<Rightarrow> (rat \<times> rat) option \<Rightarrow> terrain \<Rightarrow> nat \<times> terrain" where
  "landCoverAt store g s = (case g of None \<Rightarrow> (0, s)
   | Some (lat, lon) \<Rightarrow> if 90 < \<bar>lat\<bar> then (0, s)
     else case cellAt store \<lfloor>(wrapLon lon + 180) / CELL_DEG\<rfloor> \<lfloor>(90 - lat) / CELL_DEG\<rfloor> s of
       (Some c, s') \<Rightarrow> (unat (gt_cover (fst c) ! snd c), s') | (None, s') \<Rightarrow> (0, s'))"

definition terrain_contains :: "(int \<Rightarrow> int \<Rightarrow> geo_tile option) \<Rightarrow> (rat \<times> rat) option \<Rightarrow> bool" where
  "terrain_contains store g = (case g of None \<Rightarrow> False
   | Some (lat, lon) \<Rightarrow> (case tileOf lat lon of (tx, ty) \<Rightarrow> tile_in_range tx ty \<and> store tx ty \<noteq> None))"

section \<open>The tile used last changes nothing\<close>

definition cell_of :: "(int \<Rightarrow> int \<Rightarrow> geo_tile option) \<Rightarrow> int \<Rightarrow> int \<Rightarrow> (geo_tile \<times> nat) option" where
  "cell_of store gx gy = (let tx = gx div TILE_CELLS; ty = gy div TILE_CELLS in
     if ty < 0 \<or> TILES_Y \<le> ty then None
     else map_option (\<lambda>t. (t, nat ((gy mod TILE_CELLS) * TILE_CELLS + gx mod TILE_CELLS))) (store (tx mod TILES_X) ty))"

definition terrain_ok :: "(int \<Rightarrow> int \<Rightarrow> geo_tile option) \<Rightarrow> terrain \<Rightarrow> bool" where
  "terrain_ok store s \<longleftrightarrow> (case te_last s of Some (tx, ty, t) \<Rightarrow> store tx ty = Some t | None \<Rightarrow> True) \<and>
     length (te_missing s) \<le> 5000 \<and> distinct (te_missing s) \<and> (\<forall>(tx, ty) \<in> set (te_missing s). store tx ty = None)"

lemma cellAt_exact:
  assumes "terrain_ok store s"
  shows "fst (cellAt store gx gy s) = cell_of store gx gy \<and> terrain_ok store (snd (cellAt store gx gy s))"
proof -
  have m: "x - x div TILE_CELLS * TILE_CELLS = x mod TILE_CELLS" for x by (simp add: minus_div_mult_eq_mod)
  show ?thesis using assms
    by (auto simp: cellAt_def cell_of_def Let_def m wrap_column_mod terrain_ok_def noteMissing_def split: option.splits if_splits)
qed


definition corner_points :: "(int \<times> int) list" where
  "corner_points = [(0, 0), (1, 0), (0, 1), (1, 1)]"

text \<open>The corners that count: those with a weight whose tile is there.\<close>

definition corner_cells :: "(int \<Rightarrow> int \<Rightarrow> geo_tile option) \<Rightarrow> rat \<Rightarrow> rat \<Rightarrow> (rat \<times> (geo_tile \<times> nat)) list" where
  "corner_cells store fx fy = List.map_filter (\<lambda>d. let w = corner_weight (fx - of_int \<lfloor>fx\<rfloor>) (fy - of_int \<lfloor>fy\<rfloor>) d in
     if w = 0 then None else map_option (Pair w) (cell_of store (\<lfloor>fx\<rfloor> + fst d) (\<lfloor>fy\<rfloor> + snd d))) corner_points"

lemma corner_weight_nonneg: "0 \<le> corner_weight (fx - of_int \<lfloor>fx\<rfloor>) (fy - of_int \<lfloor>fy\<rfloor>) d"
proof -
  have "0 \<le> x - of_int \<lfloor>x\<rfloor>" "x - of_int \<lfloor>x\<rfloor> \<le> 1" for x :: rat using floor_correct[of x] by simp_all
  then show ?thesis by (simp add: corner_weight_def)
qed

lemma corner_cells_pos: "(w, c) \<in> set (corner_cells store fx fy) \<Longrightarrow> 0 < w"
  using corner_weight_nonneg[of fx fy] by (auto simp: corner_cells_def List.map_filter_def Let_def order_less_le split: if_splits)

lemma add_corners:
  assumes "terrain_ok store s"
  shows "\<exists>s'. terrain_ok store s' \<and> foldl (add_corner store fx fy) (a, w, s) ds =
    (let cs = List.map_filter (\<lambda>d. let w = corner_weight (fx - of_int \<lfloor>fx\<rfloor>) (fy - of_int \<lfloor>fy\<rfloor>) d in
       if w = 0 then None else map_option (Pair w) (cell_of store (\<lfloor>fx\<rfloor> + fst d) (\<lfloor>fy\<rfloor> + snd d))) ds in
     (a + sum_list (map (\<lambda>(w, c). cell_height c * w) cs), w + sum_list (map fst cs), s'))"
  using assms
proof (induction ds arbitrary: a w s)
  case (Cons d ds)
  let ?w = "corner_weight (fx - of_int \<lfloor>fx\<rfloor>) (fy - of_int \<lfloor>fy\<rfloor>) d"
  obtain c s' where c: "cellAt store (\<lfloor>fx\<rfloor> + fst d) (\<lfloor>fy\<rfloor> + snd d) s = (c, s')" by (cases "cellAt store (\<lfloor>fx\<rfloor> + fst d) (\<lfloor>fy\<rfloor> + snd d) s")
  then have e: "c = cell_of store (\<lfloor>fx\<rfloor> + fst d) (\<lfloor>fy\<rfloor> + snd d)" "terrain_ok store s'" using cellAt_exact[OF Cons.prems, of "\<lfloor>fx\<rfloor> + fst d" "\<lfloor>fy\<rfloor> + snd d"] by simp_all
  consider "?w = 0" | "?w \<noteq> 0" "c = None" | x where "?w \<noteq> 0" "c = Some x" by (cases c) auto
  then show ?case
  proof cases
    case 1
    then show ?thesis using Cons.IH[OF Cons.prems, of a w] by (simp add: add_corner_def List.map_filter_def Let_def)
  next
    case 2
    then show ?thesis using Cons.IH[OF e(2), of a w] e(1) c by (simp add: add_corner_def List.map_filter_def Let_def)
  next
    case (3 x)
    then show ?thesis using Cons.IH[OF e(2), of "a + cell_height x * ?w" "w + ?w"] e(1) c
      by (simp add: add_corner_def List.map_filter_def Let_def add.assoc)
  qed
qed (simp add: List.map_filter_def)

lemma weighted_between:
  fixes f :: "'c \<Rightarrow> rat"
  assumes "\<And>w c. (w, c) \<in> set cs \<Longrightarrow> 0 < w \<and> lo \<le> f c \<and> f c \<le> hi"
  shows "lo * sum_list (map fst cs) \<le> sum_list (map (\<lambda>(w, c). f c * w) cs) \<and> sum_list (map (\<lambda>(w, c). f c * w) cs) \<le> hi * sum_list (map fst cs)"
  using assms
proof (induction cs)
  case (Cons x cs)
  obtain w c where x: "x = (w, c)" by (cases x)
  have "lo * w \<le> f c * w" "f c * w \<le> hi * w" using Cons.prems[of w c] x by (simp_all add: mult_right_mono)
  moreover have "lo * sum_list (map fst cs) \<le> sum_list (map (\<lambda>(w, c). f c * w) cs) \<and> sum_list (map (\<lambda>(w, c). f c * w) cs) \<le> hi * sum_list (map fst cs)"
    using Cons by auto
  ultimately show ?case by (simp add: x distrib_left)
qed simp

text \<open>The height of a point lies between the heights of the cells around it that are there, and is 0 if none is; the tile remembered from the last reading has no
  influence, and the list of missing tiles stays within its limit and holds only tiles that the store does not have.\<close>

theorem elevation_between_cells:
  assumes ok: "terrain_ok store s" and lat: "\<bar>lat\<bar> \<le> 90"
    and cells: "cs = corner_cells store ((wrapLon lon + 180) / CELL_DEG - 1/2) ((90 - lat) / CELL_DEG - 1/2)"
    and heights: "\<forall>(w, c) \<in> set cs. lo \<le> cell_height c \<and> cell_height c \<le> hi"
    and result: "elevationAt store (Some (lat, lon)) s = (h, s')"
  shows "(if cs = [] then h = 0 else lo \<le> h \<and> h \<le> hi) \<and> terrain_ok store s'"
proof -
  let ?n = "sum_list (map (\<lambda>(w, c). cell_height c * w) cs)" and ?d = "sum_list (map fst cs)"
  obtain t where t: "terrain_ok store t" "foldl (add_corner store ((wrapLon lon + 180) / CELL_DEG - 1/2) ((90 - lat) / CELL_DEG - 1/2)) (0, 0, s) [(0, 0), (1, 0), (0, 1), (1, 1)] = (?n, ?d, t)"
    using add_corners[OF ok, of "(wrapLon lon + 180) / CELL_DEG - 1/2" "(90 - lat) / CELL_DEG - 1/2" 0 0 corner_points]
    unfolding cells corner_cells_def by (auto simp: corner_points_def Let_def)
  have h: "h = (if 0 < ?d then ?n / ?d else 0)" "s' = t" using result lat t(2) by (simp_all add: elevationAt_def Let_def)
  have pos: "0 < w" if "(w, c) \<in> set cs" for w c using corner_cells_pos that unfolding cells .
  show ?thesis
  proof (cases "cs = []")
    case False
    have "0 < ?d" using False pos
    proof (induction cs)
      case (Cons x xs)
      have x: "0 < fst x" using Cons.prems(2)[of "fst x" "snd x"] by simp
      show ?case
      proof (cases "xs = []")
        case False
        then have "0 < sum_list (map fst xs)" using Cons.IH Cons.prems(2) by (meson list.set_intros(2))
        then show ?thesis using x by simp
      qed (use x in simp)
    qed simp
    moreover have "lo * ?d \<le> ?n \<and> ?n \<le> hi * ?d" using pos heights by (intro weighted_between) auto
    ultimately show ?thesis using h t(1) False by (simp add: pos_le_divide_eq pos_divide_le_eq)
  qed (use h t(1) in simp)
qed


section \<open>Examples\<close>

definition sample_tile :: geo_tile where
  "sample_tile = \<lparr>gt_tx = 0, gt_ty = 100, gt_sources = [], gt_elevation = replicate N_CELLS 7, gt_cover = replicate N_CELLS 1\<rparr>"

lemma sample_tile_ok: "tile_ok sample_tile"
  by (simp add: tile_ok_def sample_tile_def list_all_iff COVER_COUNT_def tile_in_range_def grid_defs Let_def N_CELLS_def)

lemma tile_roundtrip_witness:
  "\<exists>bytes. encodeTile (\<lambda>v. [0]) sample_tile = Inr bytes \<and> decodeTile (\<lambda>b. Some (tile_header sample_tile)) bytes = Inr sample_tile"
proof -
  obtain bytes where b: "encodeTile (\<lambda>v. [0]) sample_tile = Inr bytes" by (simp add: encodeTile_def sample_tile_def Let_def)
  from tile_roundtrip[OF sample_tile_ok _ _ b, of "\<lambda>b. Some (tile_header sample_tile)"] b show ?thesis by simp
qed

lemma decoded_tile_ok_witness: "\<exists>bytes. decodeTile (\<lambda>b. Some (tile_header sample_tile)) bytes = Inr sample_tile \<and> tile_ok sample_tile"
proof -
  have "get_u32 (u32le 0) = 0" by (rule u32_roundtrip) simp
  moreover have "length MAGIC = 4" "length (u32le 0) = 4" by (simp_all add: MAGIC_def u32le_def)
  ultimately have len: "length MAGIC = 4" "length (u32le 0) = 4" "get_u32 (u32le 0) = 0" by simp_all
  have el: "length (gt_elevation sample_tile) = N_CELLS" "length (gt_cover sample_tile) = N_CELLS" by (simp_all add: sample_tile_def)
  let ?b = "MAGIC @ u32le 0 @ elevation_bytes (gt_elevation sample_tile) @ gt_cover sample_tile"
  have "decode_body (\<lambda>b. Some (tile_header sample_tile)) 0 ?b = Inr sample_tile"
    using sample_tile_ok len el elevation_roundtrip[OF el(1)]
    by (simp add: decode_body_def tile_header_def Let_def tile_ok_def list_ex_iff list_all_iff tile_sources_def List.map_filter_def not_le sample_tile_def COVER_COUNT_def)
  then have "decodeTile (\<lambda>b. Some (tile_header sample_tile)) ?b = Inr sample_tile"
    using len el elevation_roundtrip[OF el(1)] by (simp add: decodeTile_def Let_def)
  then show ?thesis using decoded_tile_ok by blast
qed

definition equator_box :: geo_box where "equator_box = \<lparr>bx_south = 0, bx_west = 179 + 9/10, bx_north = 1/10, bx_east = 180 + 1/10\<rparr>"

text \<open>A small box across the 180th meridian.\<close>

lemma box_covered_witness: "tilesForGeoBox equator_box = Inr [(1439, 359), (1439, 360), (0, 359), (0, 360)] \<and> distinct [(1439, 359), (1439, 360), (0::int, 360::int)]"
proof -
  have "tilesForGeoBox equator_box = Inr [(1439, 359), (1439, 360), (0, 359), (0, 360)]" by code_simp
  with box_covered[OF this] show ?thesis by simp
qed

lemma elevation_between_cells_witness: "fst (elevationAt (\<lambda>tx ty. None) (Some (45, 7)) terrain_new) = 0"
proof -
  have "terrain_ok (\<lambda>tx ty. None) terrain_new" by (simp add: terrain_ok_def terrain_new_def)
  moreover have "corner_cells (\<lambda>tx ty. None) fx fy = []" for fx fy by (simp add: corner_cells_def List.map_filter_def cell_of_def Let_def)
  ultimately show ?thesis using elevation_between_cells[of "\<lambda>tx ty. None" terrain_new 45 "[]" 7 0 0]
    by (cases "elevationAt (\<lambda>tx ty. None) (Some (45, 7)) terrain_new") simp
qed

end
