(* ===== verification/History.thy ===== *)
theory History
  imports Main
begin

text \<open>
  Undo and redo of the network editor (\<open>tools/network-design/history.ts\<close>): two stacks of states around the current one. The most recent entry of each is its last.
  A session of edits, undos and redos refines a list of versions with a cursor.
\<close>

section \<open>The stacks\<close>

record 'a history =
  hi_past :: "'a list"
  hi_future :: "'a list"
  hi_limit :: nat

definition history_new :: "nat \<Rightarrow> 'a history option" where
  "history_new limit = (if limit < 1 then None else Some \<lparr>hi_past = [], hi_future = [], hi_limit = limit\<rparr>)"

text \<open>\<open>shift\<close> drops the oldest state once there are more than the limit.\<close>

definition history_push :: "'a \<Rightarrow> 'a history \<Rightarrow> 'a history" where
  "history_push before h = (if hi_past h \<noteq> [] \<and> last (hi_past h) = before then h
     else let past = hi_past h @ [before] in
       h\<lparr>hi_past := (if hi_limit h < length past then tl past else past), hi_future := []\<rparr>)"

definition canUndo :: "'a history \<Rightarrow> bool" where "canUndo h \<longleftrightarrow> hi_past h \<noteq> []"
definition canRedo :: "'a history \<Rightarrow> bool" where "canRedo h \<longleftrightarrow> hi_future h \<noteq> []"

definition history_undo :: "'a \<Rightarrow> 'a history \<Rightarrow> 'a \<times> 'a history" where
  "history_undo current h = (if hi_past h = [] then (current, h)
     else (last (hi_past h), h\<lparr>hi_past := butlast (hi_past h), hi_future := hi_future h @ [current]\<rparr>))"

definition history_redo :: "'a \<Rightarrow> 'a history \<Rightarrow> 'a \<times> 'a history" where
  "history_redo current h = (if hi_future h = [] then (current, h)
     else (last (hi_future h), h\<lparr>hi_future := butlast (hi_future h), hi_past := hi_past h @ [current]\<rparr>))"

definition history_reset :: "'a history \<Rightarrow> 'a history" where
  "history_reset h = h\<lparr>hi_past := [], hi_future := []\<rparr>"

section \<open>A session\<close>

datatype 'a edit_op = Edit 'a | Undo | Redo | Reset

type_synonym 'a session = "'a \<times> 'a history"

fun session_step :: "'a session \<Rightarrow> 'a edit_op \<Rightarrow> 'a session" where
  "session_step (current, h) (Edit x) = (x, history_push current h)"
| "session_step (current, h) Undo = history_undo current h"
| "session_step (current, h) Redo = history_redo current h"
| "session_step (current, h) Reset = (current, history_reset h)"

text \<open>The specification: all versions, oldest first, and the place of the current one. An edit drops what could be redone; an edit right after one that changed nothing
  replaces it; the oldest version is forgotten once there are more than the limit before the current one.\<close>

type_synonym 'a timeline = "'a list \<times> nat"

definition edit_versions :: "nat \<Rightarrow> 'a \<Rightarrow> 'a timeline \<Rightarrow> 'a timeline" where
  "edit_versions limit x t = (case t of (vs, i) \<Rightarrow>
     let kept = (if 0 < i \<and> vs ! (i - 1) = vs ! i then take i vs else take (Suc i) vs);
         kept' = (if limit < length kept then tl kept else kept) in
     (kept' @ [x], length kept'))"

fun timeline_step :: "nat \<Rightarrow> 'a timeline \<Rightarrow> 'a edit_op \<Rightarrow> 'a timeline" where
  "timeline_step limit t (Edit x) = edit_versions limit x t"
| "timeline_step limit (vs, i) Undo = (vs, i - 1)"
| "timeline_step limit (vs, i) Redo = (vs, if Suc i < length vs then Suc i else i)"
| "timeline_step limit (vs, i) Reset = ([vs ! i], 0)"

definition timeline_of :: "'a session \<Rightarrow> 'a timeline" where
  "timeline_of s = (case s of (current, h) \<Rightarrow> (hi_past h @ current # rev (hi_future h), length (hi_past h)))"

text \<open>Neighbouring versions differ, except that the newest one may repeat the one before it.\<close>

definition session_ok :: "nat \<Rightarrow> 'a session \<Rightarrow> bool" where
  "session_ok limit s \<longleftrightarrow> (case s of (current, h) \<Rightarrow> hi_limit h = limit \<and> 0 < limit \<and> length (hi_past h) + length (hi_future h) \<le> limit \<and>
     (let vs = fst (timeline_of s) in \<forall>k. Suc (Suc k) < length vs \<longrightarrow> vs ! k \<noteq> vs ! Suc k))"

lemma last_past_nth: "past \<noteq> [] \<Longrightarrow> (past @ current # rest) ! (length past - 1) = last past"
  by (simp add: nth_append last_conv_nth)

lemma session_step_refines:
  assumes "session_ok limit s"
  shows "timeline_of (session_step s a) = timeline_step limit (timeline_of s) a \<and> session_ok limit (session_step s a)"
proof -
  obtain current h where s: "s = (current, h)" by (cases s)
  define vs where "vs = hi_past h @ current # rev (hi_future h)"
  have lim: "hi_limit h = limit" "0 < limit" "length (hi_past h) + length (hi_future h) \<le> limit"
    and diff: "\<And>k. Suc (Suc k) < length vs \<Longrightarrow> vs ! k \<noteq> vs ! Suc k"
    using assms by (auto simp: session_ok_def s timeline_of_def vs_def Let_def)
  show ?thesis
  proof (cases a)
    case Undo
    show ?thesis
    proof (cases "hi_past h" rule: rev_cases)
      case Nil
      then show ?thesis using assms by (simp add: s Undo history_undo_def timeline_of_def)
    next
      case (snoc p x)
      have "fst (timeline_of (session_step s a)) = vs" by (simp add: s Undo history_undo_def snoc timeline_of_def vs_def)
      then show ?thesis using lim diff by (simp add: s Undo history_undo_def snoc timeline_of_def session_ok_def Let_def)
    qed
  next
    case Redo
    show ?thesis
    proof (cases "hi_future h" rule: rev_cases)
      case Nil
      then show ?thesis using assms by (simp add: s Redo history_redo_def timeline_of_def)
    next
      case (snoc p x)
      have "fst (timeline_of (session_step s a)) = vs" by (simp add: s Redo history_redo_def snoc timeline_of_def vs_def)
      then show ?thesis using lim diff by (simp add: s Redo history_redo_def snoc timeline_of_def session_ok_def Let_def) (auto simp: vs_def snoc)
    qed
  next
    case Reset
    then show ?thesis using lim by (simp add: s history_reset_def timeline_of_def session_ok_def Let_def nth_append)
  next
    case (Edit x)
    let ?past = "hi_past h" and ?i = "length (hi_past h)"
    have at: "vs ! ?i = current" "vs ! (?i - 1) = last ?past" if "?past \<noteq> []" using that by (simp_all add: vs_def nth_append last_conv_nth)
    have t: "timeline_of s = (vs, ?i)" by (simp add: s timeline_of_def vs_def)
    have inner: "vs ! k \<noteq> vs ! Suc k" if "Suc k < ?i" for k using diff[of k] that by (simp add: vs_def)
    show ?thesis
    proof (cases "?past \<noteq> [] \<and> last ?past = current")
      case True
      have future: "hi_future h = []"
      proof (rule ccontr)
        assume "hi_future h \<noteq> []"
        then have "Suc (Suc (?i - 1)) < length vs" using True by (cases ?past) (auto simp: vs_def)
        from diff[OF this] show False using True at by (cases ?past) auto
      qed
      have step: "session_step s a = (x, h)" using True by (simp add: s Edit history_push_def)
      have "timeline_step limit (vs, ?i) a = (?past @ [x], ?i)"
        using True at lim by (simp add: Edit edit_versions_def Let_def) (simp add: vs_def)
      then have "timeline_of (session_step s a) = timeline_step limit (timeline_of s) a" unfolding t step by (simp add: timeline_of_def future)
      moreover have "session_ok limit (session_step s a)" unfolding step using lim inner
        by (auto simp: session_ok_def Let_def timeline_of_def future nth_append vs_def)
      ultimately show ?thesis ..
    next
      case False
      define kept where "kept = (if limit < Suc ?i then tl (?past @ [current]) else ?past @ [current])"
      have step: "session_step s a = (x, h\<lparr>hi_past := kept, hi_future := []\<rparr>)" using False lim by (auto simp: s Edit history_push_def kept_def Let_def)
      have "0 < ?i \<Longrightarrow> vs ! (?i - 1) \<noteq> vs ! ?i" using False at by auto
      moreover have "take (Suc ?i) vs = ?past @ [current]" by (simp add: vs_def)
      ultimately have tl: "timeline_step limit (vs, ?i) a = (kept @ [x], length kept)"
        by (auto simp: Edit edit_versions_def Let_def kept_def)
      have all: "(?past @ [current]) ! k \<noteq> (?past @ [current]) ! Suc k" if "k < ?i" for k
      proof (cases "Suc k = ?i")
        case True
        then have "(?past @ [current]) ! k = last ?past" by (simp add: nth_append last_conv_nth flip: True) (metis True diff_Suc_1 last_conv_nth length_0_conv nat.distinct(1))
        then show ?thesis using False True by (auto simp: nth_append)
      qed (use inner[of k] that in \<open>auto simp: vs_def nth_append\<close>)
      have "kept ! k \<noteq> kept ! Suc k" if "Suc k < length kept" for k
        using all[of k] all[of "Suc k"] that by (auto simp: kept_def nth_tl split: if_splits)
      then have "(kept @ [x]) ! k \<noteq> (kept @ [x]) ! Suc k" if "Suc (Suc k) < Suc (length kept)" for k using that by (auto simp: nth_append)
      moreover have "length kept \<le> limit" using lim by (auto simp: kept_def)
      moreover have "timeline_of (session_step s a) = timeline_step limit (timeline_of s) a" using tl unfolding t step by (simp add: timeline_of_def)
      moreover have "session_ok limit (session_step s a)"
        unfolding step using lim calculation(1,2) by (simp add: timeline_of_def session_ok_def Let_def)
      ultimately show ?thesis by blast
    qed
  qed
qed


lemma session_runs:
  assumes "session_ok limit s"
  shows "timeline_of (foldl session_step s as) = foldl (timeline_step limit) (timeline_of s) as \<and> session_ok limit (foldl session_step s as)"
  using assms
proof (induction as arbitrary: s)
  case (Cons a as)
  then show ?case using session_step_refines[OF Cons.prems, of a] by simp
qed simp

text \<open>A session of edits, undos, redos and resets behaves as a list of versions with a cursor, and the two stacks together never hold more states than the limit.\<close>

theorem history_refines_timeline:
  assumes "history_new limit = Some h" "s = foldl session_step (x, h) as"
  shows "timeline_of s = foldl (timeline_step limit) ([x], 0) as \<and> length (hi_past (snd s)) + length (hi_future (snd s)) \<le> limit"
proof -
  have h: "session_ok limit (x, h)" "timeline_of (x, h) = ([x], 0)" using assms(1) by (auto simp: history_new_def session_ok_def timeline_of_def split: if_splits)
  have "session_ok limit s" using session_runs[OF h(1), of as] by (simp add: assms(2))
  then have "length (hi_past (snd s)) + length (hi_future (snd s)) \<le> limit" by (auto simp: session_ok_def)
  then show ?thesis using session_runs[OF h(1), of as] h(2) by (simp add: assms(2))
qed

lemma history_refines_timeline_witness:
  "timeline_of (foldl session_step (0::nat, \<lparr>hi_past = [], hi_future = [], hi_limit = 2\<rparr>) [Edit 1, Edit 2, Edit 3, Undo, Undo, Undo, Redo]) = ([1, 2, 3], 1)"
  using history_refines_timeline[OF _ refl, of 2 "\<lparr>hi_past = [], hi_future = [], hi_limit = 2\<rparr>" "0::nat" "[Edit 1, Edit 2, Edit 3, Undo, Undo, Undo, Redo]"]
  by (simp add: history_new_def edit_versions_def)

end
