(* ===== verification/RadioChips.thy ===== *)
theory RadioChips
  imports SerialFrames
begin

text \<open>
  The two families of LoRa chips as the drivers see them: the register bytes of the SX127x (\<open>node/src/transports/sx127x-registers.ts\<close>) and the command bytes of the
  SX126x (\<open>sx126x-commands.ts\<close>). A byte is an \<open>8 word\<close>; a JavaScript number that goes into one is an \<open>int\<close>, cut off as \<open>& 0xff\<close> does.
  Frequencies are whole numbers of hertz; \<open>Math.round\<close> on exact rationals is the nearest integer, halves up.
\<close>

definition math_round :: "rat \<Rightarrow> int" where
  "math_round x = \<lfloor>x + 1/2\<rfloor>"

lemma math_round_int [simp]: "math_round (of_int n) = n"
proof -
  have "math_round (of_int n) = \<lfloor>of_int n + (1/2 :: rat)\<rfloor>" by (simp add: math_round_def)
  also have "\<dots> = n" by (rule floor_unique) simp_all
  finally show ?thesis .
qed

lemma math_round_near: "\<bar>of_int (math_round x) - x\<bar> \<le> 1/2"
proof -
  have "of_int (math_round x) \<le> x + 1/2" "x + 1/2 < of_int (math_round x) + 1" using floor_correct[of "x + 1/2"] by (simp_all add: math_round_def)
  then show ?thesis unfolding abs_le_iff by linarith
qed

section \<open>SX127x: registers\<close>

definition REG_FIFO :: byte where "REG_FIFO = 0x00"
definition REG_OP_MODE :: byte where "REG_OP_MODE = 0x01"
definition REG_FRF_MSB :: byte where "REG_FRF_MSB = 0x06"
definition REG_FRF_MID :: byte where "REG_FRF_MID = 0x07"
definition REG_FRF_LSB :: byte where "REG_FRF_LSB = 0x08"
definition REG_FIFO_ADDR_PTR :: byte where "REG_FIFO_ADDR_PTR = 0x0d"
definition REG_FIFO_TX_BASE_ADDR :: byte where "REG_FIFO_TX_BASE_ADDR = 0x0e"
definition REG_FIFO_RX_BASE_ADDR :: byte where "REG_FIFO_RX_BASE_ADDR = 0x0f"
definition REG_FIFO_RX_CURRENT_ADDR :: byte where "REG_FIFO_RX_CURRENT_ADDR = 0x10"
definition REG_IRQ_FLAGS :: byte where "REG_IRQ_FLAGS = 0x12"
definition REG_RX_NB_BYTES :: byte where "REG_RX_NB_BYTES = 0x13"
definition REG_MODEM_CONFIG_1 :: byte where "REG_MODEM_CONFIG_1 = 0x1d"
definition REG_MODEM_CONFIG_2 :: byte where "REG_MODEM_CONFIG_2 = 0x1e"
definition REG_MODEM_CONFIG_3 :: byte where "REG_MODEM_CONFIG_3 = 0x26"
definition REG_PAYLOAD_LENGTH :: byte where "REG_PAYLOAD_LENGTH = 0x22"
definition REG_VERSION :: byte where "REG_VERSION = 0x42"
definition SX127X_CHIP_VERSION :: byte where "SX127X_CHIP_VERSION = 0x12"
definition OP_MODE_LONG_RANGE_MODE_BIT :: byte where "OP_MODE_LONG_RANGE_MODE_BIT = 0x80"

datatype lora_mode = SLEEP | STANDBY | FSTX | TX | FSRX | RX_CONTINUOUS_MODE | RX_SINGLE | CAD

definition mode_code :: "lora_mode \<Rightarrow> byte" where
  "mode_code m = (case m of SLEEP \<Rightarrow> 0 | STANDBY \<Rightarrow> 1 | FSTX \<Rightarrow> 2 | TX \<Rightarrow> 3 | FSRX \<Rightarrow> 4 | RX_CONTINUOUS_MODE \<Rightarrow> 5 | RX_SINGLE \<Rightarrow> 6 | CAD \<Rightarrow> 7)"

definition LORA_MODE_MASK :: byte where "LORA_MODE_MASK = 7"

definition buildOpModeByte :: "lora_mode \<Rightarrow> byte" where
  "buildOpModeByte m = OP_MODE_LONG_RANGE_MODE_BIT OR (mode_code m AND LORA_MODE_MASK)"

definition extractLoraMode :: "byte \<Rightarrow> byte" where
  "extractLoraMode b = b AND LORA_MODE_MASK"

definition IRQ_RX_DONE :: byte where "IRQ_RX_DONE = 0x40"
definition IRQ_PAYLOAD_CRC_ERROR :: byte where "IRQ_PAYLOAD_CRC_ERROR = 0x20"
definition IRQ_VALID_HEADER :: byte where "IRQ_VALID_HEADER = 0x10"
definition IRQ_TX_DONE :: byte where "IRQ_TX_DONE = 0x08"

definition FXOSC_HZ :: rat where "FXOSC_HZ = 32000000"
definition STEP_127X_HZ :: rat where "STEP_127X_HZ = FXOSC_HZ / 2 ^ 19"

definition frequencyToRegs :: "int \<Rightarrow> byte \<times> byte \<times> byte" where
  "frequencyToRegs hz = (let frf = math_round (of_int hz / STEP_127X_HZ) in (word_of_int (frf div 2 ^ 16), word_of_int (frf div 2 ^ 8), word_of_int frf))"

definition regsToFrequency :: "byte \<Rightarrow> byte \<Rightarrow> byte \<Rightarrow> int" where
  "regsToFrequency msb mid lsb = math_round (of_int (uint msb * 2 ^ 16 + uint mid * 2 ^ 8 + uint lsb) * STEP_127X_HZ)"

definition BANDWIDTH_CODE_127X :: "(int \<times> int) list" where
  "BANDWIDTH_CODE_127X = [(7800, 0), (10400, 1), (15600, 2), (20800, 3), (31250, 4), (41700, 5), (62500, 6), (125000, 7), (250000, 8), (500000, 9)]"

text \<open>\<open>None\<close> is the \<open>RangeError\<close>.\<close>

definition buildModemConfig1Byte :: "int \<Rightarrow> int \<Rightarrow> byte option" where
  "buildModemConfig1Byte bandwidthHz codingRateDenominator = (case map_of BANDWIDTH_CODE_127X bandwidthHz of
     None \<Rightarrow> None
   | Some bwCode \<Rightarrow> Some (push_bit 4 (word_of_int bwCode AND 0xf) OR push_bit 1 (word_of_int (codingRateDenominator - 4) AND 7)))"

definition buildModemConfig2Byte :: "int \<Rightarrow> byte option" where
  "buildModemConfig2Byte spreadingFactor = (if spreadingFactor < 6 \<or> 12 < spreadingFactor then None
   else Some (push_bit 4 (word_of_int spreadingFactor AND 0xf) OR 4))"

definition needsLowDataRateOptimize :: "int \<Rightarrow> int \<Rightarrow> bool" where
  "needsLowDataRateOptimize bandwidthHz spreadingFactor \<longleftrightarrow> bandwidthHz \<le> 125000 \<and> 11 \<le> spreadingFactor"

definition buildModemConfig3Byte :: "int \<Rightarrow> int \<Rightarrow> byte" where
  "buildModemConfig3Byte bandwidthHz spreadingFactor = 4 OR (if needsLowDataRateOptimize bandwidthHz spreadingFactor then 8 else 0)"

section \<open>SX126x: commands\<close>

datatype sx126x_opcode = CLR_IRQ_STATUS | WRITE_BUFFER | GET_STATUS | SET_DIO_IRQ_PARAMS | READ_BUFFER | GET_RX_BUFFER_STATUS | GET_IRQ_STATUS
  | SET_STANDBY | SET_RX | SET_TX | SET_RF_FREQUENCY | SET_PACKET_TYPE | SET_MODULATION_PARAMS | SET_PACKET_PARAMS | SET_TX_PARAMS | SET_BUFFER_BASE_ADDRESS

definition opcode_byte :: "sx126x_opcode \<Rightarrow> byte" where
  "opcode_byte c = (case c of CLR_IRQ_STATUS \<Rightarrow> 0x02 | WRITE_BUFFER \<Rightarrow> 0x0e | GET_STATUS \<Rightarrow> 0xc0 | SET_DIO_IRQ_PARAMS \<Rightarrow> 0x08 | READ_BUFFER \<Rightarrow> 0x1e
     | GET_RX_BUFFER_STATUS \<Rightarrow> 0x13 | GET_IRQ_STATUS \<Rightarrow> 0x12 | SET_STANDBY \<Rightarrow> 0x80 | SET_RX \<Rightarrow> 0x82 | SET_TX \<Rightarrow> 0x83 | SET_RF_FREQUENCY \<Rightarrow> 0x86
     | SET_PACKET_TYPE \<Rightarrow> 0x8a | SET_MODULATION_PARAMS \<Rightarrow> 0x8b | SET_PACKET_PARAMS \<Rightarrow> 0x8c | SET_TX_PARAMS \<Rightarrow> 0x8e | SET_BUFFER_BASE_ADDRESS \<Rightarrow> 0x8f)"

text \<open>The bytes of a number, most significant first.\<close>

definition be16 :: "int \<Rightarrow> byte list" where "be16 n = [word_of_int (n div 2 ^ 8), word_of_int n]"
definition be24 :: "int \<Rightarrow> byte list" where "be24 n = [word_of_int (n div 2 ^ 16), word_of_int (n div 2 ^ 8), word_of_int n]"
definition be32 :: "int \<Rightarrow> byte list" where "be32 n = word_of_int (n div 2 ^ 24) # be24 n"

definition CHIP_MODE_MASK :: byte where "CHIP_MODE_MASK = 0x70"

definition parseChipMode :: "byte \<Rightarrow> byte" where
  "parseChipMode statusByte = drop_bit 4 (statusByte AND CHIP_MODE_MASK)"

definition parseGetStatusResponse :: "byte \<Rightarrow> byte" where
  "parseGetStatusResponse b = parseChipMode b"

definition RX_TX_SINGLE_MODE :: int where "RX_TX_SINGLE_MODE = 0"
definition RX_CONTINUOUS :: int where "RX_CONTINUOUS = 0x00ffffff"

definition BANDWIDTH_CODE_126X :: "(int \<times> int) list" where
  "BANDWIDTH_CODE_126X = [(7810, 0x00), (10420, 0x08), (15630, 0x01), (20830, 0x09), (31250, 0x02), (41670, 0x0a), (62500, 0x03), (125000, 0x04), (250000, 0x05), (500000, 0x06)]"

definition codingRateCode :: "int \<Rightarrow> int" where
  "codingRateCode codingRateDenominator = codingRateDenominator - 4"

definition XTAL_FREQ_HZ :: rat where "XTAL_FREQ_HZ = 32000000"
definition STEP_126X_HZ :: rat where "STEP_126X_HZ = XTAL_FREQ_HZ / 2 ^ 25"

definition frequencyToPllSteps :: "int \<Rightarrow> int" where
  "frequencyToPllSteps hz = math_round (of_int hz / STEP_126X_HZ)"

definition pllStepsToFrequency :: "int \<Rightarrow> int" where
  "pllStepsToFrequency steps = math_round (of_int steps * STEP_126X_HZ)"

definition IRQ126_TX_DONE :: int where "IRQ126_TX_DONE = 1"
definition IRQ126_RX_DONE :: int where "IRQ126_RX_DONE = 2"
definition IRQ126_HEADER_ERROR :: int where "IRQ126_HEADER_ERROR = 32"
definition IRQ126_CRC_ERROR :: int where "IRQ126_CRC_ERROR = 64"
definition IRQ126_TIMEOUT :: int where "IRQ126_TIMEOUT = 512"

definition buildSetStandbyCommand :: "byte list" where "buildSetStandbyCommand = [opcode_byte SET_STANDBY, 0]"
definition buildSetPacketTypeCommand :: "byte list" where "buildSetPacketTypeCommand = [opcode_byte SET_PACKET_TYPE, 1]"

definition buildSetRfFrequencyCommand :: "int \<Rightarrow> byte list" where
  "buildSetRfFrequencyCommand hz = opcode_byte SET_RF_FREQUENCY # be32 (frequencyToPllSteps hz)"

definition buildSetModulationParamsCommand :: "int \<Rightarrow> int \<Rightarrow> int \<Rightarrow> byte list option" where
  "buildSetModulationParamsCommand spreadingFactor bandwidthHz codingRateDenominator = (if spreadingFactor < 5 \<or> 12 < spreadingFactor then None
   else case map_of BANDWIDTH_CODE_126X bandwidthHz of None \<Rightarrow> None
   | Some bwCode \<Rightarrow> Some [opcode_byte SET_MODULATION_PARAMS, word_of_int spreadingFactor, word_of_int bwCode, word_of_int (codingRateCode codingRateDenominator),
       if needsLowDataRateOptimize bandwidthHz spreadingFactor then 1 else 0])"

definition buildSetPacketParamsCommand :: "int \<Rightarrow> int \<Rightarrow> byte list" where
  "buildSetPacketParamsCommand payloadLength preambleLen = opcode_byte SET_PACKET_PARAMS # be16 preambleLen @ [0, word_of_int payloadLength, 1, 0]"

definition RAMP_200_US :: byte where "RAMP_200_US = 0x04"

definition buildSetTxParamsCommand :: "rat \<Rightarrow> byte list" where
  "buildSetTxParamsCommand powerDbm = [opcode_byte SET_TX_PARAMS, word_of_int (max (- 9) (min 14 (math_round powerDbm))), RAMP_200_US]"

definition buildSetBufferBaseAddressCommand :: "int \<Rightarrow> int \<Rightarrow> byte list" where
  "buildSetBufferBaseAddressCommand tx rx = [opcode_byte SET_BUFFER_BASE_ADDRESS, word_of_int tx, word_of_int rx]"

definition buildSetTxCommand :: "byte list" where "buildSetTxCommand = opcode_byte SET_TX # be24 RX_TX_SINGLE_MODE"
definition buildSetRxContinuousCommand :: "byte list" where "buildSetRxContinuousCommand = opcode_byte SET_RX # be24 RX_CONTINUOUS"

definition buildSetDioIrqParamsCommand :: "int \<Rightarrow> byte list" where
  "buildSetDioIrqParamsCommand irqMask = opcode_byte SET_DIO_IRQ_PARAMS # be16 irqMask @ be16 irqMask @ [0, 0, 0, 0]"

definition buildClearIrqStatusCommand :: "int \<Rightarrow> byte list" where "buildClearIrqStatusCommand bits = opcode_byte CLR_IRQ_STATUS # be16 bits"
definition buildGetIrqStatusCommand :: "byte list" where "buildGetIrqStatusCommand = [opcode_byte GET_IRQ_STATUS]"

definition parseIrqStatus :: "byte list \<Rightarrow> int option" where
  "parseIrqStatus bytes = (case bytes of a # b # _ \<Rightarrow> Some (uint a * 2 ^ 8 + uint b) | _ \<Rightarrow> None)"

definition buildGetRxBufferStatusCommand :: "byte list" where "buildGetRxBufferStatusCommand = [opcode_byte GET_RX_BUFFER_STATUS]"

definition parseRxBufferStatus :: "byte list \<Rightarrow> (int \<times> int) option" where
  "parseRxBufferStatus bytes = (case bytes of a # b # _ \<Rightarrow> Some (uint a, uint b) | _ \<Rightarrow> None)"

definition buildGetStatusCommand :: "byte list" where "buildGetStatusCommand = [opcode_byte GET_STATUS]"
definition buildWriteBufferCommand :: "int \<Rightarrow> byte list \<Rightarrow> byte list" where "buildWriteBufferCommand offset data = [opcode_byte WRITE_BUFFER, word_of_int offset] @ data"
definition buildReadBufferCommand :: "int \<Rightarrow> byte list" where "buildReadBufferCommand offset = [opcode_byte READ_BUFFER, word_of_int offset]"


section \<open>What the bytes say\<close>

lemma uint_byte: "uint (word_of_int n :: byte) = n mod 256"
  by (simp add: uint_word_of_int)

lemma be16_value: "0 \<le> n \<Longrightarrow> n < 2 ^ 16 \<Longrightarrow> parseIrqStatus (be16 n @ r) = Some n"
proof -
  assume n: "0 \<le> n" "n < 2 ^ 16"
  have "n div 256 mod 256 = n div 256" using n by (simp add: div_pos_geq pos_imp_zdiv_nonneg_iff int_div_less_self zdiv_mono1 mod_pos_pos_trivial div_less_iff_less_mult)
  then show ?thesis using mult_div_mod_eq[of 256 n] by (simp add: parseIrqStatus_def be16_def uint_byte)
qed

definition be_value :: "byte list \<Rightarrow> int" where
  "be_value bs = foldl (\<lambda>n b. n * 256 + uint b) 0 bs"

lemma be24_value: "be_value (be24 n) = n mod 2 ^ 24"
  using zmod_zmult2_eq[of 256 n 65536] zmod_zmult2_eq[of 256 n 256] by (simp add: be_value_def be24_def uint_byte)

lemma be32_value: "be_value (be32 n) = n mod 2 ^ 32"
proof -
  have v: "be_value (be32 n) = ((n div 16777216 mod 256 * 256 + n div 65536 mod 256) * 256 + n div 256 mod 256) * 256 + n mod 256"
    by (simp add: be_value_def be32_def be24_def uint_byte)
  have "n mod 4294967296 = 16777216 * (n div 16777216 mod 256) + n mod 16777216" using zmod_zmult2_eq[of 256 n 16777216] by simp
  moreover have "n mod 16777216 = 65536 * (n div 65536 mod 256) + n mod 65536" using zmod_zmult2_eq[of 256 n 65536] by simp
  moreover have "n mod 65536 = 256 * (n div 256 mod 256) + n mod 256" using zmod_zmult2_eq[of 256 n 256] by simp
  moreover have "(2::int) ^ 32 = 4294967296" by simp
  ultimately show ?thesis unfolding v by (simp only:) (simp only: distrib_left distrib_right mult.assoc add.assoc mult.commute)
qed

lemma steps_exact: "pllStepsToFrequency (frequencyToPllSteps hz) = hz"
proof -
  let ?s = "STEP_126X_HZ" and ?k = "frequencyToPllSteps hz"
  have s: "0 < ?s" "?s < 1" by (simp_all add: STEP_126X_HZ_def XTAL_FREQ_HZ_def)
  define d where "d = of_int ?k - of_int hz / ?s"
  have "\<bar>d\<bar> \<le> 1/2" unfolding d_def frequencyToPllSteps_def by (rule math_round_near)
  then have "\<bar>d\<bar> * ?s < 1/2" using s mult_right_mono[of "\<bar>d\<bar>" "1/2" ?s] by linarith
  moreover have "of_int ?k * ?s - of_int hz = d * ?s" using s by (simp add: d_def left_diff_distrib)
  ultimately have "\<bar>of_int ?k * ?s - of_int hz\<bar> < 1/2" using s by (simp add: abs_mult)
  then have "of_int hz \<le> of_int ?k * ?s + 1/2" "of_int ?k * ?s + 1/2 < of_int hz + 1" unfolding abs_less_iff by linarith+
  then show ?thesis unfolding pllStepsToFrequency_def math_round_def by (rule floor_unique)
qed

text \<open>Every whole frequency survives the synthesiser of the SX126x: the four bytes of the command hold its number of steps, and those steps stand for exactly that frequency,
  as a step is less than one hertz.\<close>

theorem rf_frequency_exact:
  assumes "0 \<le> hz" "hz < 4 * 10 ^ 9"
  shows "buildSetRfFrequencyCommand hz = opcode_byte SET_RF_FREQUENCY # be32 (frequencyToPllSteps hz) \<and>
    pllStepsToFrequency (be_value (tl (buildSetRfFrequencyCommand hz))) = hz"
proof -
  let ?k = "frequencyToPllSteps hz"
  have near: "\<bar>of_int ?k - of_int hz / STEP_126X_HZ\<bar> \<le> 1/2" unfolding frequencyToPllSteps_def by (rule math_round_near)
  have hz: "0 \<le> of_int hz / STEP_126X_HZ" "of_int hz / STEP_126X_HZ \<le> 4 * 10 ^ 9 / STEP_126X_HZ"
    using assms by (simp_all add: STEP_126X_HZ_def XTAL_FREQ_HZ_def)
  then have "(of_int ?k :: rat) < of_int (2 ^ 32)" "(of_int (- 1) :: rat) < of_int ?k" using near unfolding abs_le_iff by (simp_all add: STEP_126X_HZ_def XTAL_FREQ_HZ_def)
  then have "?k < 2 ^ 32" "- 1 < ?k" unfolding of_int_less_iff by simp_all
  then have "be_value (be32 ?k) = ?k" unfolding be32_value by simp
  then show ?thesis using steps_exact[of hz] by (simp add: buildSetRfFrequencyCommand_def)
qed

lemma rf_frequency_exact_witness:
  "buildSetRfFrequencyCommand 868100000 = opcode_byte SET_RF_FREQUENCY # be32 (frequencyToPllSteps 868100000) \<and>
    pllStepsToFrequency (be_value (tl (buildSetRfFrequencyCommand 868100000))) = 868100000"
  by (rule rf_frequency_exact) simp_all

text \<open>The SX127x has a coarser step of 61 hertz: its three registers give the frequency back to within 31 hertz.\<close>

theorem registers_frequency_near:
  assumes "0 \<le> hz" "hz < 10 ^ 9" and regs: "frequencyToRegs hz = (msb, mid, lsb)"
  shows "\<bar>regsToFrequency msb mid lsb - hz\<bar> \<le> 31"
proof -
  define k where "k = math_round (of_int hz / STEP_127X_HZ)"
  have near: "\<bar>of_int k - of_int hz / STEP_127X_HZ\<bar> \<le> 1/2" unfolding k_def by (rule math_round_near)
  have s: "STEP_127X_HZ = 15625 / 256" by (simp add: STEP_127X_HZ_def FXOSC_HZ_def)
  define q where "q = of_int hz / STEP_127X_HZ"
  have "0 \<le> q" "q < 16384000" using assms by (simp_all add: q_def s)
  moreover have "of_int k - q \<le> 1/2" "q - of_int k \<le> 1/2" using near unfolding q_def abs_le_iff by linarith+
  ultimately have "of_int k < (16777216 :: rat)" "- 1 < (of_int k :: rat)" by linarith+
  then have "(of_int k :: rat) < of_int (2 ^ 24)" "(of_int (- 1) :: rat) < of_int k" by simp_all
  then have k: "k < 2 ^ 24" "- 1 < k" unfolding of_int_less_iff by simp_all
  have "uint msb * 2 ^ 16 + uint mid * 2 ^ 8 + uint lsb = be_value (be24 k)"
    using regs by (auto simp: frequencyToRegs_def Let_def be_value_def be24_def k_def)
  also have "\<dots> = k" unfolding be24_value using k by simp
  finally have f: "regsToFrequency msb mid lsb = math_round (of_int k * STEP_127X_HZ)" by (simp add: regsToFrequency_def)
  have "\<bar>of_int (math_round (of_int k * STEP_127X_HZ)) - of_int k * STEP_127X_HZ\<bar> \<le> 1/2" by (rule math_round_near)
  then have "\<bar>(of_int (math_round (of_int k * STEP_127X_HZ)) :: rat) - of_int hz\<bar> < 32" using near unfolding s abs_le_iff abs_less_iff by (simp add: field_simps)
  then have "(of_int \<bar>math_round (of_int k * STEP_127X_HZ) - hz\<bar> :: rat) < of_int 32" by simp
  then show ?thesis unfolding of_int_less_iff f by simp
qed

text \<open>The mode of the chip can be read back from the byte that sets it, and the power that is sent is the requested one, limited to what is always safe.\<close>

lemma mode_read_back: "extractLoraMode (buildOpModeByte m) = mode_code m \<and> (mode_code m = mode_code m' \<longrightarrow> m = m')"
  by (cases m; cases m'; simp add: extractLoraMode_def buildOpModeByte_def OP_MODE_LONG_RANGE_MODE_BIT_def LORA_MODE_MASK_def mode_code_def)

lemma tx_power_safe: "sint (buildSetTxParamsCommand p ! 1) = max (- 9) (min 14 (math_round p))"
proof -
  have "sint (word_of_int n :: byte) = n" if "- 9 \<le> n" "n \<le> 14" for n
    using that by (simp add: signed_of_int signed_take_bit_int_eq_self)
  then show ?thesis by (simp add: buildSetTxParamsCommand_def)
qed

end
