(* ===== verification/LoraRadio.thy ===== *)
theory LoraRadio
  imports RadioChips "HOL-Library.Sublist"
begin

text \<open>
  What the LoRa drivers do with the radio (\<open>node/src/transports/lora-serial.ts\<close>, and \<open>lora-serial-sx1262.ts\<close> for the other chip): configure it, transmit a
  fragment, poll for a received one. The bridge and the chip behind it are an argument, a \<open>device\<close>: the answer to a command, the clock and a sleep, each on a
  state of its own. The commands that were sent are recorded, so that what the driver asks of the radio can be stated. A procedure is a function
  of the radio; one that fails stops there, as an \<open>await\<close> of a rejected promise does.
\<close>

section \<open>Procedures\<close>

datatype bridge_error = BridgeTimeout | WriteFailed | StayedBusy
datatype radio_error = BridgeError bridge_error | CommandFailed | MalformedAnswer | FrameTooLarge | ConfigurationRange | UnexpectedChip byte | TxTimeout

record ('c, 'q) device =
  dv_answer :: "'q \<Rightarrow> 'c \<Rightarrow> (bridge_error + bridge_frame) \<times> 'c"
  dv_now :: "'c \<Rightarrow> time"
  dv_sleep :: "time \<Rightarrow> 'c \<Rightarrow> 'c"

record ('c, 'q) radio =
  rd_state :: 'c
  rd_sent :: "'q list"
  rd_lastTx :: time

type_synonym ('c, 'q, 'a) radio_io = "('c, 'q) radio \<Rightarrow> (radio_error + 'a) \<times> ('c, 'q) radio"

definition pass :: "'a \<Rightarrow> ('c, 'q, 'a) radio_io" where
  "pass x r = (Inr x, r)"

definition throw :: "radio_error \<Rightarrow> ('c, 'q, 'a) radio_io" where
  "throw e r = (Inl e, r)"

definition and_then :: "('c, 'q, 'a) radio_io \<Rightarrow> ('a \<Rightarrow> ('c, 'q, 'b) radio_io) \<Rightarrow> ('c, 'q, 'b) radio_io" where
  "and_then p k r = (case p r of (Inl e, r') \<Rightarrow> (Inl e, r') | (Inr x, r') \<Rightarrow> k x r')"

definition radio_sleep :: "('c, 'q) device \<Rightarrow> time \<Rightarrow> ('c, 'q) radio \<Rightarrow> ('c, 'q) radio" where
  "radio_sleep dv t r = r\<lparr>rd_state := dv_sleep dv t (rd_state r)\<rparr>"

abbreviation radio_now :: "('c, 'q) device \<Rightarrow> ('c, 'q) radio \<Rightarrow> time" where
  "radio_now dv r \<equiv> dv_now dv (rd_state r)"

text \<open>A frame that cannot be encoded is not sent.\<close>

definition exchange :: "('c, 'q) device \<Rightarrow> ('q \<Rightarrow> frame_error + int \<times> byte list) \<Rightarrow> 'q \<Rightarrow> ('c, 'q, bridge_frame) radio_io" where
  "exchange dv request q r = (case request q of Inl _ \<Rightarrow> (Inl FrameTooLarge, r)
   | Inr (ty, payload) \<Rightarrow> (case encodeBridgeFrame ty payload of Inl _ \<Rightarrow> (Inl FrameTooLarge, r)
     | Inr _ \<Rightarrow> (case dv_answer dv q (rd_state r) of (a, c) \<Rightarrow>
         (case a of Inl e \<Rightarrow> Inl (BridgeError e) | Inr frame \<Rightarrow> Inr frame, r\<lparr>rd_state := c, rd_sent := rd_sent r @ [q]\<rparr>))))"

section \<open>The SX127x\<close>

datatype bridge_op = Reset | ReadRegister byte | WriteRegister byte byte | FifoWrite "byte list" | FifoRead byte

fun request_127x :: "bridge_op \<Rightarrow> frame_error + int \<times> byte list" where
  "request_127x Reset = Inr (1, [])"
| "request_127x (ReadRegister a) = Inr (2, [a])"
| "request_127x (WriteRegister a v) = Inr (3, [a, v])"
| "request_127x (FifoWrite bytes) = Inr (4, bytes)"
| "request_127x (FifoRead n) = Inr (5, [n])"

type_synonym 'c device_127x = "('c, bridge_op) device"
type_synonym ('c, 'a) io_127x = "('c, bridge_op, 'a) radio_io"

definition expectOk :: "bridge_frame \<Rightarrow> ('c, 'q, byte list) radio_io" where
  "expectOk frame = (if bf_type frame \<noteq> 0 then throw CommandFailed else pass (bf_payload frame))"

definition chipReset :: "'c device_127x \<Rightarrow> ('c, unit) io_127x" where
  "chipReset dv = and_then (exchange dv request_127x Reset) (\<lambda>f. and_then (expectOk f) (\<lambda>_. pass ()))"

definition readRegister :: "'c device_127x \<Rightarrow> byte \<Rightarrow> ('c, byte) io_127x" where
  "readRegister dv a = and_then (exchange dv request_127x (ReadRegister a)) (\<lambda>f. and_then (expectOk f) (\<lambda>payload.
     case payload of [] \<Rightarrow> throw MalformedAnswer | v # _ \<Rightarrow> pass v))"

definition writeRegister :: "'c device_127x \<Rightarrow> byte \<Rightarrow> byte \<Rightarrow> ('c, unit) io_127x" where
  "writeRegister dv a v = and_then (exchange dv request_127x (WriteRegister a v)) (\<lambda>f. and_then (expectOk f) (\<lambda>_. pass ()))"

definition fifoWrite :: "'c device_127x \<Rightarrow> byte list \<Rightarrow> ('c, unit) io_127x" where
  "fifoWrite dv bytes = and_then (exchange dv request_127x (FifoWrite bytes)) (\<lambda>f. and_then (expectOk f) (\<lambda>_. pass ()))"

definition fifoRead :: "'c device_127x \<Rightarrow> byte \<Rightarrow> ('c, byte list) io_127x" where
  "fifoRead dv n = and_then (exchange dv request_127x (FifoRead n)) (\<lambda>f. and_then (expectOk f) (\<lambda>payload.
     if length payload \<noteq> unat n then throw MalformedAnswer else pass payload))"

definition FIFO_BASE_ADDR :: byte where "FIFO_BASE_ADDR = 0"

definition enterRxContinuous :: "'c device_127x \<Rightarrow> ('c, unit) io_127x" where
  "enterRxContinuous dv = and_then (writeRegister dv REG_FIFO_ADDR_PTR FIFO_BASE_ADDR) (\<lambda>_.
     writeRegister dv REG_OP_MODE (buildOpModeByte RX_CONTINUOUS_MODE))"

definition clearIrqFlags :: "'c device_127x \<Rightarrow> ('c, unit) io_127x" where
  "clearIrqFlags dv = writeRegister dv REG_IRQ_FLAGS 0xff"

text \<open>What the constructor keeps of the options.\<close>

record lora_options =
  lo_frequencyHz :: int
  lo_bandwidthHz :: int
  lo_spreadingFactor :: int
  lo_codingRateDenominator :: int
  lo_txPowerDbm :: rat
  lo_pollIntervalMs :: time
  lo_txTimeoutMs :: time

definition or_range :: "'a option \<Rightarrow> ('a \<Rightarrow> ('c, 'q, 'b) radio_io) \<Rightarrow> ('c, 'q, 'b) radio_io" where
  "or_range v k = (case v of None \<Rightarrow> throw ConfigurationRange | Some x \<Rightarrow> k x)"

definition write_registers :: "'c device_127x \<Rightarrow> (byte \<times> byte) list \<Rightarrow> ('c, unit) io_127x" where
  "write_registers dv avs = foldr (\<lambda>(a, v) k. and_then (writeRegister dv a v) (\<lambda>_. k)) avs (pass ())"

definition start_127x :: "'c device_127x \<Rightarrow> lora_options \<Rightarrow> ('c, unit) io_127x" where
  "start_127x dv opts =
     and_then (chipReset dv) (\<lambda>_.
     and_then (readRegister dv REG_VERSION) (\<lambda>version.
     if version \<noteq> SX127X_CHIP_VERSION then throw (UnexpectedChip version)
     else let (msb, mid, lsb) = frequencyToRegs (lo_frequencyHz opts) in
     and_then (write_registers dv [(REG_FRF_MSB, msb), (REG_FRF_MID, mid), (REG_FRF_LSB, lsb)]) (\<lambda>_.
     or_range (buildModemConfig1Byte (lo_bandwidthHz opts) (lo_codingRateDenominator opts)) (\<lambda>config1.
     and_then (writeRegister dv REG_MODEM_CONFIG_1 config1) (\<lambda>_.
     or_range (buildModemConfig2Byte (lo_spreadingFactor opts)) (\<lambda>config2.
     and_then (write_registers dv
       [(REG_MODEM_CONFIG_2, config2), (REG_MODEM_CONFIG_3, buildModemConfig3Byte (lo_bandwidthHz opts) (lo_spreadingFactor opts)),
        (REG_FIFO_TX_BASE_ADDR, FIFO_BASE_ADDR), (REG_FIFO_RX_BASE_ADDR, FIFO_BASE_ADDR), (REG_OP_MODE, buildOpModeByte STANDBY)]) (\<lambda>_.
     and_then (clearIrqFlags dv) (\<lambda>_. enterRxContinuous dv))))))))"

text \<open>The loop that waits for the end of a transmission, over a read of the flags and the write that clears the one it waits for. It is \<open>None\<close> only if it
  never ends.\<close>

partial_function (option) await_tx :: "('c, 'q) device \<Rightarrow> ('c, 'q, bool) radio_io \<Rightarrow> ('c, 'q, unit) radio_io \<Rightarrow> time \<Rightarrow> time \<Rightarrow> ('c, 'q) radio
    \<Rightarrow> ((radio_error + unit) \<times> ('c, 'q) radio) option" where
  "await_tx dv tx_done clear poll deadline r = (case tx_done r of
     (Inl e, r') \<Rightarrow> Some (Inl e, r')
   | (Inr finished, r') \<Rightarrow>
       if finished then Some (clear r')
       else if radio_now dv r' > deadline then Some (Inl TxTimeout, r')
       else await_tx dv tx_done clear poll deadline (radio_sleep dv poll r'))"

definition pace :: "('c, 'q) device \<Rightarrow> lora_options \<Rightarrow> ('c, 'q) radio \<Rightarrow> ('c, 'q) radio" where
  "pace dv opts r = (let minGapMs = lo_pollIntervalMs opts * 2; elapsedSinceLastFragment = radio_now dv r - rd_lastTx r in
     if elapsedSinceLastFragment < minGapMs then radio_sleep dv (minGapMs - elapsedSinceLastFragment) r else r)"

definition transmit_with :: "('c, 'q) device \<Rightarrow> lora_options \<Rightarrow> ('c, 'q, unit) radio_io \<Rightarrow> ('c, 'q, bool) radio_io \<Rightarrow> ('c, 'q, unit) radio_io \<Rightarrow> ('c, 'q, unit) radio_io
    \<Rightarrow> ('c, 'q) radio \<Rightarrow> ((radio_error + unit) \<times> ('c, 'q) radio) option" where
  "transmit_with dv opts prepare tx_done clear enter_rx r = (case prepare (pace dv opts r) of
     (Inl e, r1) \<Rightarrow> Some (Inl e, r1)
   | (Inr _, r1) \<Rightarrow> (case await_tx dv tx_done clear (lo_pollIntervalMs opts) (radio_now dv r1 + lo_txTimeoutMs opts) r1 of
       None \<Rightarrow> None
     | Some (Inl e, r2) \<Rightarrow> Some (Inl e, r2)
     | Some (Inr _, r2) \<Rightarrow> Some (case enter_rx r2 of
         (Inl e, r3) \<Rightarrow> (Inl e, r3)
       | (Inr _, r3) \<Rightarrow> (Inr (), r3\<lparr>rd_lastTx := radio_now dv r3\<rparr>))))"

definition prepare_tx_127x :: "'c device_127x \<Rightarrow> byte list \<Rightarrow> ('c, unit) io_127x" where
  "prepare_tx_127x dv frame =
     and_then (write_registers dv [(REG_OP_MODE, buildOpModeByte STANDBY), (REG_FIFO_ADDR_PTR, FIFO_BASE_ADDR)]) (\<lambda>_.
     and_then (fifoWrite dv frame) (\<lambda>_.
     write_registers dv [(REG_PAYLOAD_LENGTH, of_nat (length frame)), (REG_OP_MODE, buildOpModeByte TX)]))"

definition transmitFragmentBytes_127x :: "'c device_127x \<Rightarrow> lora_options \<Rightarrow> byte list \<Rightarrow> ('c, bridge_op) radio \<Rightarrow> ((radio_error + unit) \<times> ('c, bridge_op) radio) option" where
  "transmitFragmentBytes_127x dv opts frame = transmit_with dv opts (prepare_tx_127x dv frame)
     (and_then (readRegister dv REG_IRQ_FLAGS) (\<lambda>irq. pass (irq AND IRQ_TX_DONE \<noteq> 0)))
     (writeRegister dv REG_IRQ_FLAGS IRQ_TX_DONE) (enterRxContinuous dv)"

text \<open>A poll gives the frame that goes to \<open>handleReceivedFrame\<close>, if any; a failure on the way ends it without one.\<close>

definition receive_127x :: "'c device_127x \<Rightarrow> ('c, byte list option) io_127x" where
  "receive_127x dv =
     and_then (readRegister dv REG_IRQ_FLAGS) (\<lambda>irq.
     if irq AND IRQ_RX_DONE = 0 then pass None
     else and_then (writeRegister dv REG_IRQ_FLAGS (IRQ_RX_DONE OR IRQ_PAYLOAD_CRC_ERROR OR IRQ_VALID_HEADER)) (\<lambda>_.
     if irq AND IRQ_PAYLOAD_CRC_ERROR \<noteq> 0 then pass None
     else and_then (readRegister dv REG_RX_NB_BYTES) (\<lambda>len.
     and_then (readRegister dv REG_FIFO_RX_CURRENT_ADDR) (\<lambda>currentAddr.
     and_then (writeRegister dv REG_FIFO_ADDR_PTR currentAddr) (\<lambda>_.
     and_then (fifoRead dv len) (\<lambda>bytes. pass (Some bytes)))))))"

definition pollForReceivedPacket_127x :: "'c device_127x \<Rightarrow> bool \<Rightarrow> ('c, bridge_op) radio \<Rightarrow> byte list option \<times> ('c, bridge_op) radio" where
  "pollForReceivedPacket_127x dv started r = (if \<not> started then (None, r)
   else case receive_127x dv r of (Inl _, r') \<Rightarrow> (None, r') | (Inr bytes, r') \<Rightarrow> (bytes, r'))"

section \<open>The SX126x\<close>

datatype chip_op = ChipReset | Execute "byte list" | Query "byte list" int

text \<open>A command that the chip is too busy for is tried again, after longer and longer pauses. What a single exchange answers is the device's.\<close>

fun request_126x :: "chip_op \<Rightarrow> frame_error + int \<times> byte list" where
  "request_126x ChipReset = Inr (1, [])"
| "request_126x (Execute bytes) = Inr (2, bytes)"
| "request_126x (Query bytes n) = (case buildQueryPayload bytes n of Inl e \<Rightarrow> Inl e | Inr payload \<Rightarrow> Inr (3, payload))"

record busy_options =
  bo_baseDelayMs :: time
  bo_maxDelayMs :: time
  bo_timeoutMs :: time

type_synonym 'c device_126x = "('c, chip_op) device"
type_synonym ('c, 'a) io_126x = "('c, chip_op, 'a) radio_io"

partial_function (option) busy_retry :: "'c device_126x \<Rightarrow> busy_options \<Rightarrow> chip_op \<Rightarrow> time \<Rightarrow> time \<Rightarrow> ('c, chip_op) radio \<Rightarrow> ((radio_error + bridge_frame) \<times> ('c, chip_op) radio) option" where
  "busy_retry dv bo q deadline delay r = (case exchange dv request_126x q r of
     (Inl e, r') \<Rightarrow> Some (Inl e, r')
   | (Inr frame, r') \<Rightarrow>
       if bf_type frame \<noteq> 2 then Some (Inr frame, r')
       else if radio_now dv r' \<ge> deadline then Some (Inl (BridgeError StayedBusy), r')
       else busy_retry dv bo q deadline (min (delay * 2) (bo_maxDelayMs bo)) (radio_sleep dv delay r'))"

definition sendWithBusyRetry :: "'c device_126x \<Rightarrow> busy_options \<Rightarrow> chip_op \<Rightarrow> ('c, chip_op) radio \<Rightarrow> ((radio_error + bridge_frame) \<times> ('c, chip_op) radio) option" where
  "sendWithBusyRetry dv bo q r = busy_retry dv bo q (radio_now dv r + bo_timeoutMs bo) (bo_baseDelayMs bo) r"

text \<open>The procedures of the driver, where the device answers with the outcome of the whole retried command.\<close>

definition resetChip :: "'c device_126x \<Rightarrow> ('c, unit) io_126x" where
  "resetChip dv = and_then (exchange dv request_126x ChipReset) (\<lambda>f. and_then (expectOk f) (\<lambda>_. pass ()))"

definition execute :: "'c device_126x \<Rightarrow> byte list \<Rightarrow> ('c, unit) io_126x" where
  "execute dv commandBytes = and_then (exchange dv request_126x (Execute commandBytes)) (\<lambda>f. and_then (expectOk f) (\<lambda>_. pass ()))"

definition query :: "'c device_126x \<Rightarrow> byte list \<Rightarrow> int \<Rightarrow> ('c, byte list) io_126x" where
  "query dv commandBytes expectedResponseLength = and_then (exchange dv request_126x (Query commandBytes expectedResponseLength)) (\<lambda>f. and_then (expectOk f) (\<lambda>payload.
     if int (length payload) \<noteq> expectedResponseLength then throw MalformedAnswer else pass payload))"

definition execute_all :: "'c device_126x \<Rightarrow> byte list list \<Rightarrow> ('c, unit) io_126x" where
  "execute_all dv cmds = foldr (\<lambda>c k. and_then (execute dv c) (\<lambda>_. k)) cmds (pass ())"

definition ALL_IRQ_MASK :: int where
  "ALL_IRQ_MASK = IRQ126_TX_DONE OR IRQ126_RX_DONE OR IRQ126_HEADER_ERROR OR IRQ126_CRC_ERROR OR IRQ126_TIMEOUT"

definition enterRxContinuous_126x :: "'c device_126x \<Rightarrow> ('c, unit) io_126x" where
  "enterRxContinuous_126x dv = execute dv buildSetRxContinuousCommand"

definition clearIrqStatus :: "'c device_126x \<Rightarrow> int \<Rightarrow> ('c, unit) io_126x" where
  "clearIrqStatus dv irqMask = execute dv (buildClearIrqStatusCommand irqMask)"

definition get_irq :: "'c device_126x \<Rightarrow> ('c, int) io_126x" where
  "get_irq dv = and_then (query dv buildGetIrqStatusCommand 2) (\<lambda>bytes. case parseIrqStatus bytes of None \<Rightarrow> throw MalformedAnswer | Some irq \<Rightarrow> pass irq)"

definition start_126x :: "'c device_126x \<Rightarrow> lora_options \<Rightarrow> ('c, unit) io_126x" where
  "start_126x dv opts =
     and_then (resetChip dv) (\<lambda>_.
     and_then (execute dv buildSetStandbyCommand) (\<lambda>_.
     and_then (query dv buildGetStatusCommand 1) (\<lambda>status.
     if parseGetStatusResponse (hd status) \<noteq> 2 then throw (UnexpectedChip (parseGetStatusResponse (hd status)))
     else and_then (execute_all dv [buildSetPacketTypeCommand, buildSetRfFrequencyCommand (lo_frequencyHz opts)]) (\<lambda>_.
     or_range (buildSetModulationParamsCommand (lo_spreadingFactor opts) (lo_bandwidthHz opts) (lo_codingRateDenominator opts)) (\<lambda>modulation.
     and_then (execute_all dv [modulation, buildSetPacketParamsCommand 0 8, buildSetTxParamsCommand (lo_txPowerDbm opts),
       buildSetBufferBaseAddressCommand 0 0, buildSetDioIrqParamsCommand ALL_IRQ_MASK]) (\<lambda>_.
     and_then (clearIrqStatus dv ALL_IRQ_MASK) (\<lambda>_. enterRxContinuous_126x dv)))))))"

definition prepare_tx_126x :: "'c device_126x \<Rightarrow> byte list \<Rightarrow> ('c, unit) io_126x" where
  "prepare_tx_126x dv frame = execute_all dv
     [buildSetStandbyCommand, buildWriteBufferCommand 0 frame, buildSetPacketParamsCommand (int (length frame)) 8, buildSetTxCommand]"

definition transmitFragmentBytes_126x :: "'c device_126x \<Rightarrow> lora_options \<Rightarrow> byte list \<Rightarrow> ('c, chip_op) radio \<Rightarrow> ((radio_error + unit) \<times> ('c, chip_op) radio) option" where
  "transmitFragmentBytes_126x dv opts frame = transmit_with dv opts (prepare_tx_126x dv frame)
     (and_then (get_irq dv) (\<lambda>irq. pass (irq AND IRQ126_TX_DONE \<noteq> 0))) (clearIrqStatus dv IRQ126_TX_DONE) (enterRxContinuous_126x dv)"

definition receive_126x :: "'c device_126x \<Rightarrow> ('c, byte list option) io_126x" where
  "receive_126x dv =
     and_then (get_irq dv) (\<lambda>irq.
     if irq AND IRQ126_RX_DONE = 0 then pass None
     else and_then (clearIrqStatus dv (IRQ126_RX_DONE OR IRQ126_CRC_ERROR OR IRQ126_HEADER_ERROR)) (\<lambda>_.
     if irq AND IRQ126_CRC_ERROR \<noteq> 0 then pass None
     else and_then (query dv buildGetRxBufferStatusCommand 2) (\<lambda>status.
     case parseRxBufferStatus status of None \<Rightarrow> throw MalformedAnswer
     | Some (payloadLength, rxStartBufferPointer) \<Rightarrow>
         and_then (query dv (buildReadBufferCommand rxStartBufferPointer) payloadLength) (\<lambda>bytes. pass (Some bytes)))))"

definition pollForReceivedPacket_126x :: "'c device_126x \<Rightarrow> bool \<Rightarrow> ('c, chip_op) radio \<Rightarrow> byte list option \<times> ('c, chip_op) radio" where
  "pollForReceivedPacket_126x dv started r = (if \<not> started then (None, r)
   else case receive_126x dv r of (Inl _, r') \<Rightarrow> (None, r') | (Inr bytes, r') \<Rightarrow> (bytes, r'))"

section \<open>What is sent\<close>

text \<open>What a procedure has sent when it ends, and how it ended.\<close>

definition sends :: "('c, 'q, 'a) radio_io \<Rightarrow> ('q list \<Rightarrow> radio_error + 'a \<Rightarrow> bool) \<Rightarrow> bool" where
  "sends p Q \<longleftrightarrow> (\<forall>r. \<exists>qs. rd_sent (snd (p r)) = rd_sent r @ qs \<and> rd_lastTx (snd (p r)) = rd_lastTx r \<and> Q qs (fst (p r)))"

lemma sendsE:
  assumes "sends p Q" "p r = (out, r')"
  obtains qs where "rd_sent r' = rd_sent r @ qs" "rd_lastTx r' = rd_lastTx r" "Q qs out"
  using assms unfolding sends_def by (metis fst_conv snd_conv)

lemma sends_pass: "Q [] (Inr x) \<Longrightarrow> sends (pass x) Q"
  by (simp add: sends_def pass_def)

lemma sends_throw: "Q [] (Inl e) \<Longrightarrow> sends (throw e) Q"
  by (simp add: sends_def throw_def)

lemma sends_then:
  assumes p: "sends p Q" and k: "\<And>x. sends (k x) (Q' x)"
    and "\<And>qs e. Q qs (Inl e) \<Longrightarrow> R qs (Inl e)" "\<And>us x vs out. Q us (Inr x) \<Longrightarrow> Q' x vs out \<Longrightarrow> R (us @ vs) out"
  shows "sends (and_then p k) R"
  unfolding sends_def
proof
  fix r
  obtain o1 r1 where pr: "p r = (o1, r1)" by force
  obtain us where us: "rd_sent r1 = rd_sent r @ us" "rd_lastTx r1 = rd_lastTx r" "Q us o1" using sendsE[OF p pr] by blast
  show "\<exists>qs. rd_sent (snd (and_then p k r)) = rd_sent r @ qs \<and> rd_lastTx (snd (and_then p k r)) = rd_lastTx r \<and> R qs (fst (and_then p k r))"
  proof (cases o1)
    case (Inl e)
    then show ?thesis using us assms(3) pr by (auto simp: and_then_def)
  next
    case (Inr x)
    obtain o2 r2 where kr: "k x r1 = (o2, r2)" by force
    obtain vs where "rd_sent r2 = rd_sent r1 @ vs" "rd_lastTx r2 = rd_lastTx r1" "Q' x vs o2" using sendsE[OF k kr] by blast
    moreover have "and_then p k r = (o2, r2)" using pr Inr kr by (simp add: and_then_def)
    ultimately show ?thesis using us Inr assms(4) by auto
  qed
qed

lemma sends_mono: "sends p Q \<Longrightarrow> (\<And>qs out. Q qs out \<Longrightarrow> R qs out) \<Longrightarrow> sends p R"
  unfolding sends_def by blast

fun plain :: "radio_error \<Rightarrow> bool" where
  "plain (BridgeError e) = True" | "plain CommandFailed = True" | "plain MalformedAnswer = True" | "plain FrameTooLarge = True"
| "plain ConfigurationRange = False" | "plain (UnexpectedChip v) = False" | "plain TxTimeout = False"

lemma sends_exchange: "sends (exchange dv request q) (\<lambda>qs out. (\<forall>e. out = Inl e \<longrightarrow> plain e) \<and> (qs = [] \<and> out = Inl FrameTooLarge \<or> qs = [q]))"
  by (auto simp: sends_def exchange_def split: sum.split prod.split)

text \<open>A procedure that sends its commands in order, and all of them if it succeeds.\<close>

definition in_order :: "'q list \<Rightarrow> 'q list \<Rightarrow> radio_error + 'a \<Rightarrow> bool" where
  "in_order cmds qs out \<longleftrightarrow> (case out of Inl e \<Rightarrow> prefix qs cmds \<and> plain e | Inr _ \<Rightarrow> qs = cmds)"

lemma in_order_simps [simp]: "in_order cmds qs (Inl e) \<longleftrightarrow> prefix qs cmds \<and> plain e" "in_order cmds qs (Inr x) \<longleftrightarrow> qs = cmds"
  by (simp_all add: in_order_def)

lemma in_order_then: "sends p (in_order us) \<Longrightarrow> (\<And>x. sends (k x) (in_order vs)) \<Longrightarrow> sends (and_then p k) (in_order (us @ vs))"
  by (erule sends_then, assumption) (auto simp: in_order_def split: sum.splits)

lemma sends_expectOk: "sends (expectOk f) (in_order [])"
  by (auto simp: expectOk_def intro: sends_pass sends_throw)

lemma sends_one: "sends (and_then (exchange dv request q) (\<lambda>f. and_then (expectOk f) (\<lambda>_. pass ()))) (in_order [q])"
  by (rule sends_then[OF sends_exchange in_order_then[where vs = "[]", OF sends_expectOk]]) (auto simp: in_order_def intro: sends_pass split: sum.splits)

lemma sends_write [intro]: "sends (writeRegister dv a v) (in_order [WriteRegister a v])"
  and sends_fifoWrite: "sends (fifoWrite dv bytes) (in_order [FifoWrite bytes])"
  and sends_reset: "sends (chipReset dv) (in_order [Reset])"
  and sends_resetChip: "sends (resetChip dv') (in_order [ChipReset])"
  and sends_execute: "sends (execute dv' c) (in_order [Execute c])"
  unfolding writeRegister_def fifoWrite_def chipReset_def resetChip_def execute_def by (rule sends_one)+

lemma sends_read: "sends (readRegister dv a) (in_order [ReadRegister a])"
  unfolding readRegister_def
  by (rule sends_then[OF sends_exchange in_order_then[where us = "[]" and vs = "[]", OF sends_expectOk]])
    (auto simp: in_order_def intro: sends_pass sends_throw split: sum.splits list.split)

lemma sends_fifoRead: "sends (fifoRead dv n) (\<lambda>qs out. in_order [FifoRead n] qs out \<and> (\<forall>bytes. out = Inr bytes \<longrightarrow> length bytes = unat n))"
  unfolding fifoRead_def
  by (rule sends_then[OF sends_exchange sends_then[where Q' = "\<lambda>payload qs out. in_order [] qs out \<and> (\<forall>bytes. out = Inr bytes \<longrightarrow> length bytes = unat n)", OF sends_expectOk]])
    (auto simp: in_order_def intro: sends_pass sends_throw split: sum.splits)

lemma sends_writes: "sends (write_registers dv avs) (in_order (map (\<lambda>(a, v). WriteRegister a v) avs))"
proof (induction avs)
  case (Cons av avs)
  then show ?case using in_order_then[OF sends_write, of "\<lambda>_. write_registers dv avs"] by (cases av) (auto simp: write_registers_def)
qed (simp add: write_registers_def sends_pass)

lemma sends_executes: "sends (execute_all dv cs) (in_order (map Execute cs))"
proof (induction cs)
  case (Cons c cs)
  then show ?case using in_order_then[OF sends_execute, of "\<lambda>_. execute_all dv cs"] by (auto simp: execute_all_def)
qed (simp add: execute_all_def sends_pass)

lemma sends_enterRx: "sends (enterRxContinuous dv) (in_order [WriteRegister REG_FIFO_ADDR_PTR FIFO_BASE_ADDR, WriteRegister REG_OP_MODE (buildOpModeByte RX_CONTINUOUS_MODE)])"
  unfolding enterRxContinuous_def using in_order_then[OF sends_write sends_write] by simp

section \<open>A transmission\<close>

lemma sends_sleep [simp]: "rd_sent (radio_sleep dv t r) = rd_sent r" "rd_lastTx (radio_sleep dv t r) = rd_lastTx r"
  "rd_sent (pace dv opts r) = rd_sent r" "rd_lastTx (pace dv opts r) = rd_lastTx r"
  by (simp_all add: radio_sleep_def pace_def Let_def)

definition waited :: "'q \<Rightarrow> 'q list \<Rightarrow> ('c, 'q) radio \<Rightarrow> (radio_error + unit) \<times> ('c, 'q) radio \<Rightarrow> bool" where
  "waited f C r res \<longleftrightarrow> (\<exists>n qs. rd_sent (snd res) = rd_sent r @ replicate n f @ qs \<and> rd_lastTx (snd res) = rd_lastTx r \<and>
     (fst res = Inl TxTimeout \<and> qs = [f] \<or> in_order (f # C) qs (fst res)))"

lemma waitedI: "rd_sent (snd res) = rd_sent r @ replicate n f @ qs \<Longrightarrow> rd_lastTx (snd res) = rd_lastTx r \<Longrightarrow>
    fst res = Inl TxTimeout \<and> qs = [f] \<or> in_order (f # C) qs (fst res) \<Longrightarrow> waited f C r res"
  unfolding waited_def by blast

lemma waited_more:
  assumes "waited f C r1 res" "rd_sent r1 = rd_sent r @ [f]" "rd_lastTx r1 = rd_lastTx r"
  shows "waited f C r res"
proof -
  obtain n qs where "rd_sent (snd res) = rd_sent r1 @ replicate n f @ qs" "rd_lastTx (snd res) = rd_lastTx r1"
    "fst res = Inl TxTimeout \<and> qs = [f] \<or> in_order (f # C) qs (fst res)" using assms(1) unfolding waited_def by blast
  then show ?thesis using assms(2,3) by (intro waitedI[of _ _ "Suc n" _ qs]) auto
qed

lemma await_sends:
  assumes "await_tx dv tx_done clear poll deadline r = Some res" and d: "sends tx_done (in_order [f])" and c: "sends clear (in_order C)"
  shows "waited f C r res"
  using assms
proof (induction rule: await_tx.raw_induct[rotated, consumes 1, case_names step])
  case (step await dv tx_done clear poll deadline r res)
  obtain o1 r1 where r1: "tx_done r = (o1, r1)" by force
  obtain us where us: "rd_sent r1 = rd_sent r @ us" "rd_lastTx r1 = rd_lastTx r" "in_order [f] us o1" using sendsE[OF step.prems(1) r1] by blast
  show ?case
  proof (cases o1)
    case (Inl e)
    then have "res = (Inl e, r1)" using step.hyps r1 by simp
    moreover have "in_order (f # C) us (Inl e)" using us(3) Inl prefix_order.trans[of us "[f]" "f # C"] by simp
    ultimately show ?thesis using us by (intro waitedI[of _ _ 0 _ us]) simp_all
  next
    case (Inr finished)
    then have one: "us = [f]" using us(3) by simp
    have "(if finished then Some (clear r1) else if deadline < radio_now dv r1 then Some (Inl TxTimeout, r1)
        else await dv tx_done clear poll deadline (radio_sleep dv poll r1)) = Some res" using step.hyps r1 Inr by simp
    then consider "finished" "clear r1 = res" | "res = (Inl TxTimeout, r1)" | "await dv tx_done clear poll deadline (radio_sleep dv poll r1) = Some res"
      by (metis option.inject)
    then show ?thesis
    proof cases
      case 1
      obtain o2 r2 where r2: "clear r1 = (o2, r2)" by force
      obtain vs where "rd_sent r2 = rd_sent r1 @ vs" "rd_lastTx r2 = rd_lastTx r1" "in_order C vs o2" using sendsE[OF step.prems(2) r2] by blast
      then show ?thesis using us one 1 r2 by (intro waitedI[of _ _ 0 _ "f # vs"]) (auto simp: in_order_def split: sum.splits)
    next
      case 2
      then show ?thesis using us one by (intro waitedI[of _ _ 0 _ "[f]"]) auto
    next
      case 3
      show ?thesis using step.IH[OF 3 step.prems] us one by (auto intro: waited_more)
    qed
  qed
qed

definition transmitted :: "('c, 'q) device \<Rightarrow> 'q list \<Rightarrow> 'q \<Rightarrow> 'q list \<Rightarrow> ('c, 'q) radio \<Rightarrow> radio_error + unit \<Rightarrow> ('c, 'q) radio \<Rightarrow> bool" where
  "transmitted dv B f E r out r' \<longleftrightarrow> (\<exists>n qs. rd_sent r' = rd_sent r @ qs \<and> prefix qs (B @ replicate (Suc n) f @ E) \<and>
     (case out of Inr _ \<Rightarrow> qs = B @ replicate (Suc n) f @ E \<and> rd_lastTx r' = radio_now dv r'
      | Inl e \<Rightarrow> rd_lastTx r' = rd_lastTx r \<and> (e = TxTimeout \<longrightarrow> qs = B @ replicate (Suc n) f)))"

lemma transmittedI: "rd_sent r' = rd_sent r @ qs \<Longrightarrow> prefix qs (B @ replicate (Suc n) f @ E) \<Longrightarrow>
    (case out of Inr _ \<Rightarrow> qs = B @ replicate (Suc n) f @ E \<and> rd_lastTx r' = radio_now dv r'
      | Inl e \<Rightarrow> rd_lastTx r' = rd_lastTx r \<and> (e = TxTimeout \<longrightarrow> qs = B @ replicate (Suc n) f)) \<Longrightarrow> transmitted dv B f E r out r'"
  unfolding transmitted_def by blast

lemma replicate_more: "replicate n f @ f # xs = replicate (Suc n) f @ xs"
  by (simp add: replicate_app_Cons_same)

lemma transmit_sends:
  assumes t: "transmit_with dv opts prepare tx_done clear enter_rx r = Some (out, r')"
    and b: "sends prepare (in_order B)" and d: "sends tx_done (in_order [f])" and c: "sends clear (in_order C)" and e: "sends enter_rx (in_order E)"
  shows "transmitted dv B f (C @ E) r out r'"
proof -
  obtain o1 r1 where r1: "prepare (pace dv opts r) = (o1, r1)" by force
  obtain bs where bs: "rd_sent r1 = rd_sent r @ bs" "rd_lastTx r1 = rd_lastTx r" "in_order B bs o1" using sendsE[OF b r1] by auto
  show ?thesis
  proof (cases o1)
    case (Inl x)
    then show ?thesis using t r1 bs by (intro transmittedI[of _ _ bs]) (auto simp: transmit_with_def)
  next
    case (Inr u)
    define w where "w = await_tx dv tx_done clear (lo_pollIntervalMs opts) (radio_now dv r1 + lo_txTimeoutMs opts) r1"
    have tw: "(case w of None \<Rightarrow> None | Some (Inl e, r2) \<Rightarrow> Some (Inl e, r2) | Some (Inr _, r2) \<Rightarrow> Some (case enter_rx r2 of
         (Inl e, r3) \<Rightarrow> (Inl e, r3) | (Inr _, r3) \<Rightarrow> (Inr (), r3\<lparr>rd_lastTx := radio_now dv r3\<rparr>))) = Some (out, r')"
      using t r1 Inr unfolding w_def by (simp add: transmit_with_def)
    then obtain o2 r2 where r2: "w = Some (o2, r2)" by (cases w) auto
    have B: "bs = B" using bs(3) Inr by simp
    obtain n ws where ws: "rd_sent r2 = rd_sent r1 @ replicate n f @ ws" "rd_lastTx r2 = rd_lastTx r1" "o2 = Inl TxTimeout \<and> ws = [f] \<or> in_order (f # C) ws o2"
      using await_sends[OF r2[unfolded w_def] d c] unfolding waited_def by auto
    show ?thesis
    proof (cases o2)
      case (Inl x)
      have p: "prefix ws (f # C @ E)" using ws(3) Inl prefix_order.trans[of ws "f # C" "f # C @ E"] by auto
      then have "prefix (replicate n f @ ws) (f # replicate n f @ C @ E)" unfolding replicate_app_Cons_same[symmetric] by simp
      then show ?thesis using tw r2 Inl ws bs B by (intro transmittedI[of _ _ "B @ replicate n f @ ws" _ n]) (auto simp: replicate_app_Cons_same)
    next
      case (Inr v)
      obtain o3 r3 where r3: "enter_rx r2 = (o3, r3)" by force
      obtain es where es: "rd_sent r3 = rd_sent r2 @ es" "rd_lastTx r3 = rd_lastTx r2" "in_order E es o3" using sendsE[OF e r3] by blast
      have W: "ws = f # C" using ws(3) Inr by simp
      show ?thesis using tw r2 Inr r3 es ws bs B W
        by (intro transmittedI[of _ _ "B @ replicate n f @ f # C @ es" _ n]) (auto simp: replicate_more in_order_def split: sum.splits)
    qed
  qed
qed

definition begin_tx_127x :: "byte list \<Rightarrow> bridge_op list" where
  "begin_tx_127x frame = [WriteRegister REG_OP_MODE (buildOpModeByte STANDBY), WriteRegister REG_FIFO_ADDR_PTR FIFO_BASE_ADDR, FifoWrite frame,
     WriteRegister REG_PAYLOAD_LENGTH (of_nat (length frame)), WriteRegister REG_OP_MODE (buildOpModeByte TX)]"

definition end_tx_127x :: "bridge_op list" where
  "end_tx_127x = [WriteRegister REG_IRQ_FLAGS IRQ_TX_DONE, WriteRegister REG_FIFO_ADDR_PTR FIFO_BASE_ADDR,
     WriteRegister REG_OP_MODE (buildOpModeByte RX_CONTINUOUS_MODE)]"

definition begin_tx_126x :: "byte list \<Rightarrow> chip_op list" where
  "begin_tx_126x frame = map Execute [buildSetStandbyCommand, buildWriteBufferCommand 0 frame, buildSetPacketParamsCommand (int (length frame)) 8, buildSetTxCommand]"

definition end_tx_126x :: "chip_op list" where
  "end_tx_126x = map Execute [buildClearIrqStatusCommand IRQ126_TX_DONE, buildSetRxContinuousCommand]"

lemma in_order_pass: "sends p (in_order us) \<Longrightarrow> sends (and_then p (\<lambda>x. pass (g x))) (in_order us)"
  using in_order_then[of p us "\<lambda>x. pass (g x)" "[]"] by (simp add: sends_pass)

lemma sends_prepare_127x: "sends (prepare_tx_127x dv frame) (in_order (begin_tx_127x frame))"
proof -
  have "sends (prepare_tx_127x dv frame) (in_order ([WriteRegister REG_OP_MODE (buildOpModeByte STANDBY), WriteRegister REG_FIFO_ADDR_PTR FIFO_BASE_ADDR] @ [FifoWrite frame] @
      [WriteRegister REG_PAYLOAD_LENGTH (of_nat (length frame)), WriteRegister REG_OP_MODE (buildOpModeByte TX)]))"
    unfolding prepare_tx_127x_def
    by (intro in_order_then sends_fifoWrite sends_mono[OF sends_writes]) simp_all
  then show ?thesis by (simp add: begin_tx_127x_def)
qed

lemma sends_prepare_126x: "sends (prepare_tx_126x dv frame) (in_order (begin_tx_126x frame))"
  unfolding prepare_tx_126x_def begin_tx_126x_def by (rule sends_executes)

lemma sends_query: "sends (query dv c n) (\<lambda>qs out. in_order [Query c n] qs out \<and> (\<forall>bytes. out = Inr bytes \<longrightarrow> int (length bytes) = n))"
  unfolding query_def
  by (rule sends_then[OF sends_exchange sends_then[where Q' = "\<lambda>payload qs out. in_order [] qs out \<and> (\<forall>bytes. out = Inr bytes \<longrightarrow> int (length bytes) = n)", OF sends_expectOk]])
    (auto simp: in_order_def intro: sends_pass sends_throw split: sum.splits)

lemma sends_get_irq: "sends (get_irq dv) (in_order [Query buildGetIrqStatusCommand 2])"
  unfolding get_irq_def
  by (rule sends_then[OF sends_query, where Q' = "\<lambda>_. in_order []"])
    (auto simp: in_order_def intro: sends_pass sends_throw split: sum.splits option.split)

text \<open>The commands of a transmission over the SX127x: into standby, the bytes into the FIFO, their number, transmit, then reads of the flags, and after the one that shows
  the end the flag is cleared and the chip listens again. What is sent is always a beginning of these commands, and a transmission that succeeds has sent them all.\<close>

lemma transmit_commands:
  assumes "transmitFragmentBytes_127x dv opts frame r = Some (out, r')"
  shows "transmitted dv (begin_tx_127x frame) (ReadRegister REG_IRQ_FLAGS) end_tx_127x r out r'"
proof -
  have "transmitted dv (begin_tx_127x frame) (ReadRegister REG_IRQ_FLAGS) ([WriteRegister REG_IRQ_FLAGS IRQ_TX_DONE] @
      [WriteRegister REG_FIFO_ADDR_PTR FIFO_BASE_ADDR, WriteRegister REG_OP_MODE (buildOpModeByte RX_CONTINUOUS_MODE)]) r out r'"
    by (rule transmit_sends[OF assms[unfolded transmitFragmentBytes_127x_def] sends_prepare_127x in_order_pass[OF sends_read] sends_write sends_enterRx])
  then show ?thesis by (simp add: end_tx_127x_def)
qed

lemma transmit_commands_126x:
  assumes "transmitFragmentBytes_126x dv opts frame r = Some (out, r')"
  shows "transmitted dv (begin_tx_126x frame) (Query buildGetIrqStatusCommand 2) end_tx_126x r out r'"
proof -
  have "transmitted dv (begin_tx_126x frame) (Query buildGetIrqStatusCommand 2) ([Execute (buildClearIrqStatusCommand IRQ126_TX_DONE)] @ [Execute buildSetRxContinuousCommand]) r out r'"
    unfolding clearIrqStatus_def enterRxContinuous_126x_def
    by (rule transmit_sends[OF assms[unfolded transmitFragmentBytes_126x_def clearIrqStatus_def enterRxContinuous_126x_def] sends_prepare_126x in_order_pass[OF sends_get_irq] sends_execute sends_execute])
  then show ?thesis by (simp add: end_tx_126x_def)
qed

section \<open>Listening\<close>

text \<open>The mode of the chip: the last value that was written to its mode register.\<close>

definition mode_of :: "bridge_op \<Rightarrow> byte list" where
  "mode_of q = (case q of WriteRegister a v \<Rightarrow> (if a = REG_OP_MODE then [v] else []) | _ \<Rightarrow> [])"

definition op_modes :: "bridge_op list \<Rightarrow> byte list" where
  "op_modes qs = concat (map mode_of qs)"

lemma op_modes_append [simp]: "op_modes (us @ vs) = op_modes us @ op_modes vs" "op_modes [] = []"
  by (simp_all add: op_modes_def)

lemma op_modes_Cons [simp]: "op_modes (q # qs) = mode_of q @ op_modes qs"
  by (simp add: op_modes_def)

lemma mode_of_simps [simp]: "mode_of Reset = []" "mode_of (ReadRegister a) = []" "mode_of (FifoWrite bs) = []" "mode_of (FifoRead n) = []"
  "a \<noteq> REG_OP_MODE \<Longrightarrow> mode_of (WriteRegister a v) = []" "mode_of (WriteRegister REG_OP_MODE v) = [v]"
  by (simp_all add: mode_of_def)

lemma op_modes_replicate [simp]: "op_modes (replicate n (ReadRegister a)) = []"
  by (induction n) simp_all

lemma in_order_quiet: "op_modes cmds = [] \<Longrightarrow> in_order cmds qs out \<Longrightarrow> op_modes qs = []"
  by (auto simp: in_order_def prefix_def split: sum.splits)

lemma quiet_then: "sends p (\<lambda>qs _. op_modes qs = []) \<Longrightarrow> (\<And>x. sends (k x) (\<lambda>qs _. op_modes qs = [])) \<Longrightarrow> sends (and_then p k) (\<lambda>qs _. op_modes qs = [])"
  by (erule sends_then, assumption) simp_all

lemma receive_quiet: "sends (receive_127x dv) (\<lambda>qs _. op_modes qs = [])"
proof -
  have r: "sends (readRegister dv a) (\<lambda>qs _. op_modes qs = [])" for a by (rule sends_mono[OF sends_read]) (auto elim!: in_order_quiet[rotated])
  have w: "a \<noteq> REG_OP_MODE \<Longrightarrow> sends (writeRegister dv a v) (\<lambda>qs _. op_modes qs = [])" for a v
    by (rule sends_mono[OF sends_write]) (auto elim!: in_order_quiet[rotated])
  have f: "sends (fifoRead dv n) (\<lambda>qs _. op_modes qs = [])" for n by (rule sends_mono[OF sends_fifoRead]) (auto elim!: in_order_quiet[rotated])
  have "REG_IRQ_FLAGS \<noteq> REG_OP_MODE" "REG_FIFO_ADDR_PTR \<noteq> REG_OP_MODE" by (simp_all add: REG_IRQ_FLAGS_def REG_OP_MODE_def REG_FIFO_ADDR_PTR_def)
  then show ?thesis unfolding receive_127x_def by (intro quiet_then r w f) (auto intro!: quiet_then r w f sends_pass)
qed

lemma poll_quiet: "op_modes (rd_sent (snd (pollForReceivedPacket_127x dv started r))) = op_modes (rd_sent r)"
proof (cases "receive_127x dv r")
  case (Pair out r')
  then obtain qs where "rd_sent r' = rd_sent r @ qs" "op_modes qs = []" using sendsE[OF receive_quiet Pair] by blast
  then show ?thesis using Pair by (auto simp: pollForReceivedPacket_127x_def split: sum.split)
qed

lemma polls_quiet: "op_modes (rd_sent (((\<lambda>r. snd (pollForReceivedPacket_127x dv True r)) ^^ k) r)) = op_modes (rd_sent r)"
  by (induction k) (simp_all add: poll_quiet)

lemma begin_modes: "op_modes (begin_tx_127x frame) = [buildOpModeByte STANDBY, buildOpModeByte TX]"
  "op_modes end_tx_127x = [buildOpModeByte RX_CONTINUOUS_MODE]"
  by (simp_all add: begin_tx_127x_def end_tx_127x_def REG_FIFO_ADDR_PTR_def REG_OP_MODE_def[symmetric] REG_PAYLOAD_LENGTH_def REG_IRQ_FLAGS_def)
    (simp_all add: REG_OP_MODE_def mode_of_def)

text \<open>C38: A transmission that succeeds leaves the chip listening. One that gives up waiting leaves it in the mode of transmission, and no later poll puts it back:
  until some later transmission succeeds the driver polls a radio that does not listen.\<close>

theorem timed_out_transmit_stays_deaf:
  assumes "transmitFragmentBytes_127x dv opts frame r = Some (out, r')"
  shows "(out = Inr () \<longrightarrow> List.last (op_modes (rd_sent r')) = buildOpModeByte RX_CONTINUOUS_MODE) \<and>
    (out = Inl TxTimeout \<longrightarrow> List.last (op_modes (rd_sent (((\<lambda>r. snd (pollForReceivedPacket_127x dv True r)) ^^ k) r'))) = buildOpModeByte TX)"
proof -
  note transmit_commands[OF assms]
  then show ?thesis unfolding transmitted_def polls_quiet by (auto simp: begin_modes)
qed

text \<open>A device that never reports the end: every answer is good and holds a zero byte, and time is all it has.\<close>

definition idle_device :: "(time, 'q) device" where
  "idle_device = \<lparr>dv_answer = \<lambda>q c. (Inr \<lparr>bf_type = 0, bf_payload = [0]\<rparr>, c), dv_now = \<lambda>c. c, dv_sleep = \<lambda>t c. c + t\<rparr>"

definition idle_options :: lora_options where
  "idle_options = \<lparr>lo_frequencyHz = 868100000, lo_bandwidthHz = 125000, lo_spreadingFactor = 7, lo_codingRateDenominator = 5, lo_txPowerDbm = 14, lo_pollIntervalMs = 1, lo_txTimeoutMs = 0\<rparr>"

definition idle_radio :: "(time, 'q) radio" where
  "idle_radio = \<lparr>rd_state = 0, rd_sent = [], rd_lastTx = 0\<rparr>"

lemma idle_answers:
  "readRegister idle_device a r = (Inr 0, r\<lparr>rd_sent := rd_sent r @ [ReadRegister a]\<rparr>)"
  "writeRegister idle_device a v r = (Inr (), r\<lparr>rd_sent := rd_sent r @ [WriteRegister a v]\<rparr>)"
  "length bytes \<le> 255 \<Longrightarrow> fifoWrite idle_device bytes r = (Inr (), r\<lparr>rd_sent := rd_sent r @ [FifoWrite bytes]\<rparr>)"
  by (simp_all add: readRegister_def writeRegister_def fifoWrite_def exchange_def encodeBridgeFrame_def MAX_FRAME_PAYLOAD_BYTES_def idle_device_def and_then_def expectOk_def pass_def)

lemma idle_clock: "dv_now idle_device c = c" "radio_sleep idle_device t r = r\<lparr>rd_state := rd_state r + t\<rparr>"
  by (simp_all add: idle_device_def radio_sleep_def)

lemma idle_wait:
  "await_tx idle_device (and_then (readRegister idle_device a) (\<lambda>irq. pass (irq AND IRQ_TX_DONE \<noteq> 0))) clear 1 c \<lparr>rd_state = c, rd_sent = qs, rd_lastTx = u\<rparr> =
     Some (Inl TxTimeout, \<lparr>rd_state = c + 1, rd_sent = qs @ replicate 2 (ReadRegister a), rd_lastTx = u\<rparr>)"
  by (subst await_tx.simps, subst await_tx.simps) (simp add: and_then_def idle_answers pass_def idle_clock numeral_2_eq_2)

lemma idle_prepare: "prepare_tx_127x idle_device [7] r = (Inr (), r\<lparr>rd_sent := rd_sent r @ begin_tx_127x [7]\<rparr>)"
  by (simp add: prepare_tx_127x_def write_registers_def and_then_def idle_answers pass_def begin_tx_127x_def)

lemma idle_transmission:
  "transmitFragmentBytes_127x idle_device idle_options [7] idle_radio =
     Some (Inl TxTimeout, \<lparr>rd_state = 3, rd_sent = begin_tx_127x [7] @ replicate 2 (ReadRegister REG_IRQ_FLAGS), rd_lastTx = 0\<rparr>)"
proof -
  have "pace idle_device idle_options idle_radio = (\<lparr>rd_state = 2, rd_sent = [], rd_lastTx = 0\<rparr> :: (time, bridge_op) radio)"
    by (simp add: pace_def idle_clock idle_options_def idle_radio_def Let_def)
  moreover have "lo_pollIntervalMs idle_options = 1" "lo_txTimeoutMs idle_options = 0" by (simp_all add: idle_options_def)
  ultimately show ?thesis using idle_wait[of REG_IRQ_FLAGS _ 2 "begin_tx_127x [7]" 0]
    by (simp add: transmitFragmentBytes_127x_def transmit_with_def idle_prepare idle_clock)
qed

lemma timed_out_transmit_stays_deaf_witness:
  "let r' = \<lparr>rd_state = 3, rd_sent = begin_tx_127x [7] @ replicate 2 (ReadRegister REG_IRQ_FLAGS), rd_lastTx = 0\<rparr> in
     List.last (op_modes (rd_sent (((\<lambda>r. snd (pollForReceivedPacket_127x idle_device True r)) ^^ 3) r'))) = buildOpModeByte TX"
  using timed_out_transmit_stays_deaf[OF idle_transmission, of 3] by (simp add: Let_def)

section \<open>Waits end\<close>

text \<open>A device on which time passes: an answer never comes earlier than its question, and a sleep lasts at least its time.\<close>

definition time_passes :: "('c, 'q) device \<Rightarrow> bool" where
  "time_passes dv \<longleftrightarrow> (\<forall>q c. dv_now dv c \<le> dv_now dv (snd (dv_answer dv q c))) \<and> (\<forall>t c. dv_now dv c + t \<le> dv_now dv (dv_sleep dv t c))"

definition later :: "('c, 'q) device \<Rightarrow> ('c, 'q, 'a) radio_io \<Rightarrow> bool" where
  "later dv p \<longleftrightarrow> (\<forall>r. radio_now dv r \<le> radio_now dv (snd (p r)))"

lemma later_pass [intro]: "later dv (pass x)" "later dv (throw e)"
  by (simp_all add: later_def pass_def throw_def)

lemma later_then: "later dv p \<Longrightarrow> (\<And>x. later dv (k x)) \<Longrightarrow> later dv (and_then p k)"
  unfolding later_def
proof
  fix r assume p: "\<forall>r. radio_now dv r \<le> radio_now dv (snd (p r))" and k: "\<And>x. \<forall>r. radio_now dv r \<le> radio_now dv (snd (k x r))"
  obtain o1 r1 where r1: "p r = (o1, r1)" by force
  then have "radio_now dv r \<le> radio_now dv r1" using p by (metis snd_conv)
  moreover have "radio_now dv r1 \<le> radio_now dv (snd (k x r1))" for x using k by blast
  ultimately show "radio_now dv r \<le> radio_now dv (snd (and_then p k r))" using r1 by (cases o1) (auto simp: and_then_def intro: order_trans)
qed

lemma later_exchange: "time_passes dv \<Longrightarrow> later dv (exchange dv request q)"
  by (auto simp: later_def exchange_def time_passes_def split: sum.split prod.split) (metis snd_conv)+

lemma later_expectOk [intro]: "later dv (expectOk f)"
  by (auto simp: expectOk_def)

lemma later_read: "time_passes dv \<Longrightarrow> later dv (readRegister dv a)"
  unfolding readRegister_def by (intro later_then later_exchange) (auto split: list.split)

lemma later_get_irq: "time_passes dv \<Longrightarrow> later dv (get_irq dv)"
  unfolding get_irq_def query_def by (intro later_then later_exchange) (auto split: option.split)

lemma await_returns:
  assumes "time_passes dv" "later dv tx_done" "0 \<le> poll"
  shows "deadline < radio_now dv r + of_nat n * poll \<Longrightarrow> \<exists>res. await_tx dv tx_done clear poll deadline r = Some res"
proof (induction n arbitrary: r)
  case 0
  moreover have "radio_now dv r \<le> radio_now dv (snd (tx_done r))" using assms(2) by (simp add: later_def)
  ultimately have "deadline < radio_now dv (snd (tx_done r))" by simp
  then show ?case by (subst await_tx.simps) (cases "tx_done r"; cases "fst (tx_done r)"; auto)
next
  case (Suc n)
  show ?case
  proof (cases "\<exists>r1. tx_done r = (Inr False, r1) \<and> \<not> radio_now dv r1 > deadline")
    case True
    then obtain r1 where r1: "tx_done r = (Inr False, r1)" "\<not> radio_now dv r1 > deadline" by blast
    have "radio_now dv r \<le> radio_now dv r1" using assms(2)[unfolded later_def, rule_format, of r] r1(1) by simp
    moreover have "radio_now dv r1 + poll \<le> radio_now dv (radio_sleep dv poll r1)" using assms(1) by (simp add: time_passes_def radio_sleep_def)
    ultimately have "deadline < radio_now dv (radio_sleep dv poll r1) + of_nat n * poll" using Suc.prems by (simp add: algebra_simps)
    from Suc.IH[OF this] show ?thesis using r1 by (subst await_tx.simps) simp
  next
    case False
    then show ?thesis by (subst await_tx.simps) (cases "tx_done r"; cases "fst (tx_done r)"; auto)
  qed
qed

lemma transmit_with_returns:
  assumes "time_passes dv" "later dv tx_done" "0 < lo_pollIntervalMs opts"
  shows "\<exists>res. transmit_with dv opts prepare tx_done clear enter_rx r = Some res"
proof (cases "prepare (pace dv opts r)")
  case (Pair o1 r1)
  obtain n where "lo_txTimeoutMs opts < of_nat n * lo_pollIntervalMs opts" using ex_less_of_nat_mult[OF assms(3)] by blast
  then have "radio_now dv r1 + lo_txTimeoutMs opts < radio_now dv r1 + of_nat n * lo_pollIntervalMs opts" by simp
  from await_returns[OF assms(1,2) less_imp_le[OF assms(3)] this]
  obtain res where "await_tx dv tx_done clear (lo_pollIntervalMs opts) (radio_now dv r1 + lo_txTimeoutMs opts) r1 = Some res" by blast
  then show ?thesis using Pair by (auto simp: transmit_with_def split: sum.split prod.split)
qed

text \<open>C31: A transmission ends on either chip, whatever the radio answers, as soon as time passes during a sleep.\<close>

theorem transmission_ends:
  assumes "time_passes dv" "time_passes dv'" "0 < lo_pollIntervalMs opts"
  shows "\<exists>res res'. transmitFragmentBytes_127x dv opts frame r = Some res \<and> transmitFragmentBytes_126x dv' opts frame r' = Some res'"
  using transmit_with_returns[OF assms(1) later_then[OF later_read[OF assms(1)]] assms(3)]
    transmit_with_returns[OF assms(2) later_then[OF later_get_irq[OF assms(2)]] assms(3)]
  unfolding transmitFragmentBytes_127x_def transmitFragmentBytes_126x_def by (metis later_pass(1))

lemma idle_time: "time_passes idle_device"
  by (simp add: time_passes_def idle_device_def)

lemma transmission_ends_witness:
  "\<exists>res res'. transmitFragmentBytes_127x idle_device idle_options [7] idle_radio = Some res \<and> transmitFragmentBytes_126x idle_device idle_options [7] idle_radio = Some res'"
  by (rule transmission_ends[OF idle_time idle_time]) (simp add: idle_options_def)

section \<open>A busy chip\<close>

lemma sends_exchange_one: "exchange dv request q r = (out, r') \<Longrightarrow> rd_sent r' = rd_sent r @ [q] \<or> (\<exists>e. out = Inl e) \<and> rd_sent r' = rd_sent r"
  by (auto simp: exchange_def split: sum.splits prod.splits)

lemma busy_retry_sends:
  assumes "busy_retry dv bo q deadline delay r = Some res"
  shows "\<exists>n. rd_sent (snd res) = rd_sent r @ replicate n q \<and> (\<forall>frame. fst res = Inr frame \<longrightarrow> 0 < n \<and> bf_type frame \<noteq> 2)"
  using assms
proof (induction rule: busy_retry.raw_induct[rotated, consumes 1, case_names step])
  case (step again dv bo q deadline delay r res)
  obtain o1 r1 where r1: "exchange dv request_126x q r = (o1, r1)" by force
  show ?case
  proof (cases o1)
    case (Inl e)
    then have "res = (Inl e, r1)" using step.hyps r1 by simp
    moreover have "\<exists>n. rd_sent r1 = rd_sent r @ replicate n q"
      using sends_exchange_one[OF r1] by (metis append_Nil2 replicate_0 replicate_Suc)
    ultimately show ?thesis by auto
  next
    case (Inr frame)
    then have one: "rd_sent r1 = rd_sent r @ [q]" using sends_exchange_one[OF r1] by auto
    have "(if bf_type frame \<noteq> 2 then Some (Inr frame, r1) else if deadline \<le> radio_now dv r1 then Some (Inl (BridgeError StayedBusy), r1)
        else again dv bo q deadline (min (delay * 2) (bo_maxDelayMs bo)) (radio_sleep dv delay r1)) = Some res" using step.hyps r1 Inr by simp
    then consider "bf_type frame \<noteq> 2" "res = (Inr frame, r1)" | "res = (Inl (BridgeError StayedBusy), r1)"
      | "again dv bo q deadline (min (delay * 2) (bo_maxDelayMs bo)) (radio_sleep dv delay r1) = Some res" by (metis option.inject)
    then show ?thesis
    proof cases
      case 3
      then obtain n where "rd_sent (snd res) = rd_sent r1 @ replicate n q" "\<forall>frame. fst res = Inr frame \<longrightarrow> 0 < n \<and> bf_type frame \<noteq> 2" using step.IH[OF 3] by auto
      then show ?thesis using one by (intro exI[of _ "Suc n"]) auto
    qed (use one in \<open>auto intro!: exI[of _ "Suc 0"]\<close>)
  qed
qed

lemma busy_retry_returns:
  assumes "time_passes dv" "0 < d" "d \<le> bo_maxDelayMs bo"
  shows "d \<le> delay \<Longrightarrow> deadline \<le> radio_now dv r + of_nat n * d \<Longrightarrow> \<exists>res. busy_retry dv bo q deadline delay r = Some res"
proof (induction n arbitrary: r delay)
  case 0
  have "radio_now dv r \<le> radio_now dv (snd (exchange dv request_126x q r))" using later_exchange[OF assms(1)] by (simp add: later_def)
  then have "deadline \<le> radio_now dv (snd (exchange dv request_126x q r))" using 0 by simp
  then show ?case by (subst busy_retry.simps) (cases "exchange dv request_126x q r"; cases "fst (exchange dv request_126x q r)"; auto)
next
  case (Suc n)
  obtain o1 r1 where r1: "exchange dv request_126x q r = (o1, r1)" by force
  have "radio_now dv r \<le> radio_now dv r1" using later_exchange[OF assms(1), of request_126x q, unfolded later_def, rule_format, of r] r1 by simp
  moreover have "radio_now dv r1 + delay \<le> radio_now dv (radio_sleep dv delay r1)" using assms(1) by (simp add: time_passes_def radio_sleep_def)
  ultimately have "deadline \<le> radio_now dv (radio_sleep dv delay r1) + of_nat n * d" using Suc.prems by (simp add: algebra_simps)
  moreover have "d \<le> min (delay * 2) (bo_maxDelayMs bo)" using assms Suc.prems by simp
  ultimately show ?case using Suc.IH r1 by (subst busy_retry.simps) (cases o1; auto)
qed

text \<open>A command to a busy chip is tried again and again, the same command each time; it ends, with an answer that is not the busy one or with an error.\<close>

theorem busy_command_settles:
  assumes "time_passes dv" "0 < bo_baseDelayMs bo" "0 < bo_maxDelayMs bo"
  shows "\<exists>out r' n. sendWithBusyRetry dv bo q r = Some (out, r') \<and> rd_sent r' = rd_sent r @ replicate n q \<and>
    (\<forall>frame. out = Inr frame \<longrightarrow> 0 < n \<and> bf_type frame \<noteq> 2)"
proof -
  let ?d = "min (bo_baseDelayMs bo) (bo_maxDelayMs bo)"
  have d: "0 < ?d" "?d \<le> bo_maxDelayMs bo" "?d \<le> bo_baseDelayMs bo" using assms by simp_all
  obtain n where "bo_timeoutMs bo < of_nat n * ?d" using ex_less_of_nat_mult[OF d(1)] by blast
  then have "radio_now dv r + bo_timeoutMs bo \<le> radio_now dv r + of_nat n * ?d" by simp
  from busy_retry_returns[OF assms(1) d this] obtain res where res: "sendWithBusyRetry dv bo q r = Some res" unfolding sendWithBusyRetry_def by blast
  from busy_retry_sends[OF this[unfolded sendWithBusyRetry_def]] show ?thesis using res by (cases res) auto
qed

lemma busy_command_settles_witness:
  "\<exists>out r' n. sendWithBusyRetry idle_device \<lparr>bo_baseDelayMs = 5, bo_maxDelayMs = 100, bo_timeoutMs = 3000\<rparr> ChipReset idle_radio = Some (out, r') \<and>
    rd_sent r' = rd_sent idle_radio @ replicate n ChipReset \<and> (\<forall>frame. out = Inr frame \<longrightarrow> 0 < n \<and> bf_type frame \<noteq> 2)"
  by (rule busy_command_settles[OF idle_time]) simp_all

section \<open>Starting\<close>

definition configuration_127x :: "lora_options \<Rightarrow> byte \<Rightarrow> byte \<Rightarrow> bridge_op list" where
  "configuration_127x opts config1 config2 = (case frequencyToRegs (lo_frequencyHz opts) of (msb, mid, lsb) \<Rightarrow>
     map (\<lambda>(a, v). WriteRegister a v) [(REG_FRF_MSB, msb), (REG_FRF_MID, mid), (REG_FRF_LSB, lsb), (REG_MODEM_CONFIG_1, config1), (REG_MODEM_CONFIG_2, config2),
       (REG_MODEM_CONFIG_3, buildModemConfig3Byte (lo_bandwidthHz opts) (lo_spreadingFactor opts)), (REG_FIFO_TX_BASE_ADDR, FIFO_BASE_ADDR), (REG_FIFO_RX_BASE_ADDR, FIFO_BASE_ADDR),
       (REG_OP_MODE, buildOpModeByte STANDBY), (REG_IRQ_FLAGS, 0xff), (REG_FIFO_ADDR_PTR, FIFO_BASE_ADDR), (REG_OP_MODE, buildOpModeByte RX_CONTINUOUS_MODE)])"

definition configured_127x :: "lora_options \<Rightarrow> bridge_op list \<Rightarrow> radio_error + unit \<Rightarrow> bool" where
  "configured_127x opts qs out \<longleftrightarrow> (case out of
     Inr _ \<Rightarrow> (\<exists>c1 c2. buildModemConfig1Byte (lo_bandwidthHz opts) (lo_codingRateDenominator opts) = Some c1 \<and> buildModemConfig2Byte (lo_spreadingFactor opts) = Some c2 \<and>
       qs = [Reset, ReadRegister REG_VERSION] @ configuration_127x opts c1 c2)
   | Inl e \<Rightarrow> plain e \<or> e = ConfigurationRange \<or> (\<exists>v. e = UnexpectedChip v \<and> v \<noteq> SX127X_CHIP_VERSION \<and> qs = [Reset, ReadRegister REG_VERSION]))"

lemma configured_127x_simps [simp]: "plain e \<Longrightarrow> configured_127x opts qs (Inl e)" "configured_127x opts qs (Inl ConfigurationRange)"
  by (simp_all add: configured_127x_def)

lemma sends_or_range: "(\<And>x. v = Some x \<Longrightarrow> sends (k x) Q) \<Longrightarrow> (\<And>qs. Q qs (Inl ConfigurationRange)) \<Longrightarrow> sends (or_range v k) Q"
  by (auto simp: or_range_def intro: sends_throw split: option.split)

text \<open>One more step of a procedure: the commands of the first part are put before those of the rest.\<close>

lemma sends_after: "sends p (in_order us) \<Longrightarrow> (\<And>x. sends (k x) (\<lambda>vs out. R (us @ vs) out)) \<Longrightarrow> (\<And>qs e. plain e \<Longrightarrow> R qs (Inl e)) \<Longrightarrow> sends (and_then p k) R"
  by (erule sends_then, assumption) auto

text \<open>A driver that has started has written exactly its configuration and ended in the mode of listening; a chip with another version number is not written to at all.\<close>

theorem start_configures:
  "case start_127x dv opts r of (out, r') \<Rightarrow> \<exists>qs. rd_sent r' = rd_sent r @ qs \<and> configured_127x opts qs out"
proof -
  obtain msb mid lsb where f: "frequencyToRegs (lo_frequencyHz opts) = (msb, mid, lsb)" by (cases "frequencyToRegs (lo_frequencyHz opts)") auto
  have "sends (start_127x dv opts) (configured_127x opts)"
    unfolding start_127x_def
  proof (intro sends_after[OF sends_reset] sends_after[OF sends_read])
    fix version
    show "sends (if version \<noteq> SX127X_CHIP_VERSION then throw (UnexpectedChip version)
     else let (msb, mid, lsb) = frequencyToRegs (lo_frequencyHz opts) in
     and_then (write_registers dv [(REG_FRF_MSB, msb), (REG_FRF_MID, mid), (REG_FRF_LSB, lsb)]) (\<lambda>_.
     or_range (buildModemConfig1Byte (lo_bandwidthHz opts) (lo_codingRateDenominator opts)) (\<lambda>config1.
     and_then (writeRegister dv REG_MODEM_CONFIG_1 config1) (\<lambda>_.
     or_range (buildModemConfig2Byte (lo_spreadingFactor opts)) (\<lambda>config2.
     and_then (write_registers dv
       [(REG_MODEM_CONFIG_2, config2), (REG_MODEM_CONFIG_3, buildModemConfig3Byte (lo_bandwidthHz opts) (lo_spreadingFactor opts)),
        (REG_FIFO_TX_BASE_ADDR, FIFO_BASE_ADDR), (REG_FIFO_RX_BASE_ADDR, FIFO_BASE_ADDR), (REG_OP_MODE, buildOpModeByte STANDBY)]) (\<lambda>_.
     and_then (clearIrqFlags dv) (\<lambda>_. enterRxContinuous dv)))))))
      (\<lambda>vs. configured_127x opts ([Reset] @ [ReadRegister REG_VERSION] @ vs))"
    proof (cases "version = SX127X_CHIP_VERSION")
      case True
      show ?thesis unfolding clearIrqFlags_def f Let_def prod.case
        using True f by (auto intro!: sends_after[OF sends_writes] sends_or_range sends_after[OF sends_write] sends_mono[OF sends_enterRx]
          simp: configured_127x_def configuration_127x_def in_order_def split: sum.splits)
    qed (auto intro!: sends_throw simp: configured_127x_def)
  qed simp_all
  then show ?thesis unfolding sends_def by (auto simp: split_beta)
qed

end
