(* ===== verification/BridgeClient.thy ===== *)
theory BridgeClient
  imports LoraRadio
begin

text \<open>
  The clients of the serial bridges: \<open>Sx127xBridgeClient\<close> of \<open>node/src/transports/lora-serial.ts\<close>, where a command is one exchange, and \<open>Sx126xBridgeClient\<close> of
  \<open>lora-serial-sx1262.ts\<close>, where a command is a whole \<open>sendWithBusyRetry\<close>: it is sent again, after longer and longer pauses, while the bridge answers that the chip is busy.
  Both keep one command at work, the others wait their turn. A command is known by a number, which stands for its promise. What the runtime does (a chunk arrives, a timer
  fires, a write fails, a pause is over) is an operation each; what follows a promise happens when the operation is over, as its continuation does.
\<close>

section \<open>The client of the SX127x\<close>

datatype client_error = TimedOut | NotWritten | TooLarge | GaveUpBusy

datatype client_event = Written nat "byte list" | AnsweredBusy nat | Answered nat bridge_frame | Refused nat client_error

type_synonym bridge_command = "nat \<times> int \<times> byte list"

record bridge_client =
  bc_buffer :: "byte list"
  bc_pending :: "nat option"
  bc_running :: "nat option"
  bc_queue :: "bridge_command list"
  bc_timers :: "nat list"
  bc_events :: "client_event list"

definition client_new :: bridge_client where
  "client_new = \<lparr>bc_buffer = [], bc_pending = None, bc_running = None, bc_queue = [], bc_timers = [], bc_events = []\<rparr>"

text \<open>A promise is settled once; later attempts do nothing.\<close>

definition settle :: "nat \<Rightarrow> client_event \<Rightarrow> bridge_client \<Rightarrow> bridge_client" where
  "settle n v c = (if bc_running c = Some n then c\<lparr>bc_running := None, bc_events := bc_events c @ [v]\<rparr> else c)"

text \<open>The executor of the promise in \<open>sendAndAwait\<close>. \<open>encodeBridgeFrame\<close> throws on a payload that is too large: the promise is rejected, and timer and \<open>pending\<close>
  stay.\<close>

definition begin_127x :: "bridge_command \<Rightarrow> bridge_client \<Rightarrow> bridge_client" where
  "begin_127x q c = (case q of (n, ty, payload) \<Rightarrow>
     let c1 = c\<lparr>bc_timers := n # bc_timers c, bc_pending := Some n, bc_running := Some n\<rparr>
     in case encodeBridgeFrame ty payload of
          Inl _ \<Rightarrow> settle n (Refused n TooLarge) c1
        | Inr bytes \<Rightarrow> c1\<lparr>bc_events := bc_events c1 @ [Written n bytes]\<rparr>)"

text \<open>The chain of promises: the next command begins when the one before it is settled, whichever way.\<close>

fun run_queue :: "bridge_command list \<Rightarrow> bridge_client \<Rightarrow> bridge_client" where
  "run_queue [] c = c\<lparr>bc_queue := []\<rparr>"
| "run_queue (q # qs) c = (if bc_running c = None then run_queue qs (begin_127x q c) else c\<lparr>bc_queue := q # qs\<rparr>)"

definition advance :: "bridge_client \<Rightarrow> bridge_client" where
  "advance c = run_queue (bc_queue c) c"

definition sendAndAwait :: "bridge_command \<Rightarrow> bridge_client \<Rightarrow> bridge_client" where
  "sendAndAwait q c = advance (c\<lparr>bc_queue := bc_queue c @ [q]\<rparr>)"

definition take_frame :: "bridge_client \<Rightarrow> bridge_frame \<Rightarrow> bridge_client" where
  "take_frame c f = (case bc_pending c of None \<Rightarrow> c
   | Some n \<Rightarrow> settle n (Answered n f) (c\<lparr>bc_timers := removeAll n (bc_timers c), bc_pending := None\<rparr>))"

definition handleData :: "byte list \<Rightarrow> bridge_client \<Rightarrow> bridge_client" where
  "handleData chunk c = (case push (bc_buffer c) chunk of (frames, rest) \<Rightarrow> advance (foldl take_frame (c\<lparr>bc_buffer := rest\<rparr>) frames))"

definition timer_fires :: "nat \<Rightarrow> bridge_client \<Rightarrow> bridge_client" where
  "timer_fires n c = (if n \<in> set (bc_timers c)
     then advance (settle n (Refused n TimedOut) (c\<lparr>bc_timers := removeAll n (bc_timers c), bc_pending := None\<rparr>)) else c)"

definition write_failed :: "nat \<Rightarrow> bridge_client \<Rightarrow> bridge_client" where
  "write_failed n c = advance (settle n (Refused n NotWritten) (c\<lparr>bc_timers := removeAll n (bc_timers c), bc_pending := None\<rparr>))"

datatype client_op = Send bridge_command | Data "byte list" | TimerFires nat | WriteFailed nat

fun client_step :: "bridge_client \<Rightarrow> client_op \<Rightarrow> bridge_client" where
  "client_step c (Send q) = sendAndAwait q c"
| "client_step c (Data chunk) = handleData chunk c"
| "client_step c (TimerFires n) = timer_fires n c"
| "client_step c (WriteFailed n) = write_failed n c"

section \<open>The client of the SX126x\<close>

text \<open>The command at work: its deadline, the length of its next pause, and what it waits for. Each of its exchanges is an attempt with a promise and a timer of its own,
  numbered in the order they are made.\<close>

datatype attempt_state = Awaits nat | Got "client_error + bridge_frame" | Pauses

record busy_unit =
  bu_id :: nat
  bu_type :: int
  bu_payload :: "byte list"
  bu_deadline :: time
  bu_delay :: time
  bu_state :: attempt_state

record busy_client =
  cx_buffer :: "byte list"
  cx_pending :: "nat option"
  cx_unit :: "busy_unit option"
  cx_queue :: "bridge_command list"
  cx_timers :: "nat list"
  cx_attempts :: nat
  cx_events :: "client_event list"

definition busy_client_new :: busy_client where
  "busy_client_new = \<lparr>cx_buffer = [], cx_pending = None, cx_unit = None, cx_queue = [], cx_timers = [], cx_attempts = 0, cx_events = []\<rparr>"

definition settle_attempt :: "nat \<Rightarrow> client_error + bridge_frame \<Rightarrow> busy_client \<Rightarrow> busy_client" where
  "settle_attempt a out c = (case cx_unit c of
     Some u \<Rightarrow> if bu_state u = Awaits a then c\<lparr>cx_unit := Some (u\<lparr>bu_state := Got out\<rparr>)\<rparr> else c
   | None \<Rightarrow> c)"

text \<open>Every way an attempt ends takes its timer away and clears \<open>pending\<close>, whosever it is.\<close>

definition end_attempt :: "nat \<Rightarrow> client_error + bridge_frame \<Rightarrow> busy_client \<Rightarrow> busy_client" where
  "end_attempt a out c = settle_attempt a out (c\<lparr>cx_timers := removeAll a (cx_timers c), cx_pending := None\<rparr>)"

definition sendOnce :: "busy_unit \<Rightarrow> busy_client \<Rightarrow> busy_client" where
  "sendOnce u c = (let a = cx_attempts c;
     c1 = c\<lparr>cx_attempts := Suc a, cx_timers := a # cx_timers c, cx_pending := Some a, cx_unit := Some (u\<lparr>bu_state := Awaits a\<rparr>)\<rparr>
     in case encodeBridgeFrame (bu_type u) (bu_payload u) of
          Inl _ \<Rightarrow> end_attempt a (Inl TooLarge) c1
        | Inr bytes \<Rightarrow> c1\<lparr>cx_events := cx_events c1 @ [Written (bu_id u) bytes]\<rparr>)"

definition begin_126x :: "busy_options \<Rightarrow> time \<Rightarrow> bridge_command \<Rightarrow> busy_client \<Rightarrow> busy_client" where
  "begin_126x bo now q c = (case q of (n, ty, payload) \<Rightarrow>
     sendOnce \<lparr>bu_id = n, bu_type = ty, bu_payload = payload, bu_deadline = now + bo_timeoutMs bo, bu_delay = bo_baseDelayMs bo, bu_state = Pauses\<rparr> c)"

text \<open>The rest of a turn of the loop, once the attempt is settled: an error or an answer ends the command, BUSY has it pause unless its time is over.\<close>

definition end_unit :: "client_event \<Rightarrow> busy_client \<Rightarrow> busy_client" where
  "end_unit v c = c\<lparr>cx_unit := None, cx_events := cx_events c @ [v]\<rparr>"

definition retry_or_return :: "time \<Rightarrow> busy_client \<Rightarrow> busy_client" where
  "retry_or_return now c = (case cx_unit c of None \<Rightarrow> c
   | Some u \<Rightarrow> (case bu_state u of
       Got (Inl e) \<Rightarrow> end_unit (Refused (bu_id u) e) c
     | Got (Inr frame) \<Rightarrow>
         if bf_type frame \<noteq> 2 then end_unit (Answered (bu_id u) frame) c
         else let c1 = c\<lparr>cx_events := cx_events c @ [AnsweredBusy (bu_id u)]\<rparr> in
           if now \<ge> bu_deadline u then end_unit (Refused (bu_id u) GaveUpBusy) c1
           else c1\<lparr>cx_unit := Some (u\<lparr>bu_state := Pauses\<rparr>)\<rparr>
     | _ \<Rightarrow> c))"

fun run_units :: "busy_options \<Rightarrow> time \<Rightarrow> bridge_command list \<Rightarrow> busy_client \<Rightarrow> busy_client" where
  "run_units bo now [] c = c\<lparr>cx_queue := []\<rparr>"
| "run_units bo now (q # qs) c = (if cx_unit c = None then run_units bo now qs (retry_or_return now (begin_126x bo now q c)) else c\<lparr>cx_queue := q # qs\<rparr>)"

definition continue :: "busy_options \<Rightarrow> time \<Rightarrow> busy_client \<Rightarrow> busy_client" where
  "continue bo now c = run_units bo now (cx_queue c) (retry_or_return now c)"

definition enqueue_unit :: "busy_options \<Rightarrow> time \<Rightarrow> bridge_command \<Rightarrow> busy_client \<Rightarrow> busy_client" where
  "enqueue_unit bo now q c = continue bo now (c\<lparr>cx_queue := cx_queue c @ [q]\<rparr>)"

definition take_frame_126x :: "busy_client \<Rightarrow> bridge_frame \<Rightarrow> busy_client" where
  "take_frame_126x c f = (case cx_pending c of None \<Rightarrow> c | Some a \<Rightarrow> end_attempt a (Inr f) c)"

definition handleData_126x :: "busy_options \<Rightarrow> time \<Rightarrow> byte list \<Rightarrow> busy_client \<Rightarrow> busy_client" where
  "handleData_126x bo now chunk c = (case push (cx_buffer c) chunk of (frames, rest) \<Rightarrow>
     continue bo now (foldl take_frame_126x (c\<lparr>cx_buffer := rest\<rparr>) frames))"

definition pause_over :: "busy_options \<Rightarrow> time \<Rightarrow> busy_client \<Rightarrow> busy_client" where
  "pause_over bo now c = (case cx_unit c of
     Some u \<Rightarrow> if bu_state u = Pauses then continue bo now (sendOnce (u\<lparr>bu_delay := min (bu_delay u * 2) (bo_maxDelayMs bo)\<rparr>) c) else c
   | None \<Rightarrow> c)"

text \<open>The numbers of the timers and of the writes that fail are those of attempts. \<open>PauseOver\<close> is the end of \<open>sleep(delay)\<close>.\<close>

datatype busy_op = Client client_op | PauseOver

fun busy_step :: "busy_options \<Rightarrow> busy_client \<Rightarrow> time \<times> busy_op \<Rightarrow> busy_client" where
  "busy_step bo c (now, Client (Send q)) = enqueue_unit bo now q c"
| "busy_step bo c (now, Client (Data chunk)) = handleData_126x bo now chunk c"
| "busy_step bo c (now, Client (TimerFires a)) = (if a \<in> set (cx_timers c) then continue bo now (end_attempt a (Inl TimedOut) c) else c)"
| "busy_step bo c (now, Client (WriteFailed a)) = continue bo now (end_attempt a (Inl NotWritten) c)"
| "busy_step bo c (now, PauseOver) = pause_over bo now c"

section \<open>One at a time\<close>

fun sent_by :: "client_op \<Rightarrow> nat list" where
  "sent_by (Send (n, _)) = [n]"
| "sent_by op = []"

fun busy_sent_by :: "time \<times> busy_op \<Rightarrow> nat list" where
  "busy_sent_by (now, Client op) = sent_by op"
| "busy_sent_by (now, PauseOver) = []"

fun settled_by :: "client_event \<Rightarrow> nat list" where
  "settled_by (Answered n f) = [n]"
| "settled_by (Refused n e) = [n]"
| "settled_by v = []"

definition settled_ids :: "client_event list \<Rightarrow> nat list" where
  "settled_ids vs = concat (map settled_by vs)"

lemma bridge_settled_simps [simp]: "settled_ids [] = []" "settled_ids (us @ vs) = settled_ids us @ settled_ids vs" "settled_ids [v] = settled_by v"
    "settled_ids [v, w] = settled_by v @ settled_by w"
  by (simp_all add: settled_ids_def)

text \<open>Who has the line, by the events: nobody, the command whose answer is out, or the command that was answered BUSY and pauses; \<open>None\<close> if the events are not in turn.
  A command that is too large is never written.\<close>

datatype line_use = Free | Out nat | Pausing nat

fun turn :: "line_use option \<Rightarrow> client_event \<Rightarrow> line_use option" where
  "turn (Some Free) (Written n _) = Some (Out n)"
| "turn (Some Free) (Refused n TooLarge) = Some Free"
| "turn (Some (Out m)) (AnsweredBusy n) = (if n = m then Some (Pausing n) else None)"
| "turn (Some (Pausing m)) (Written n _) = (if n = m then Some (Out n) else None)"
| "turn (Some (Pausing m)) (Refused n GaveUpBusy) = (if n = m then Some Free else None)"
| "turn (Some (Out m)) (Answered n _) = (if n = m then Some Free else None)"
| "turn (Some (Out m)) (Refused n TimedOut) = (if n = m then Some Free else None)"
| "turn (Some (Out m)) (Refused n NotWritten) = (if n = m then Some Free else None)"
| "turn _ _ = None"

definition line_after :: "client_event list \<Rightarrow> line_use option" where
  "line_after vs = foldl turn (Some Free) vs"

lemma line_after_append [simp]: "line_after (vs @ [v]) = turn (line_after vs) v" "line_after (vs @ [v, w]) = turn (turn (line_after vs) v) w" "line_after [] = Some Free"
  by (simp_all add: line_after_def)

subsection \<open>The SX127x\<close>

text \<open>The command that runs has the line and a timer; \<open>pending\<close> is its own, unless it was cleared behind its back.\<close>

definition client_ok :: "nat list \<Rightarrow> bridge_client \<Rightarrow> bool" where
  "client_ok ns c \<longleftrightarrow> (\<forall>n. bc_running c = Some n \<longrightarrow> n \<in> set (bc_timers c) \<and> (bc_pending c = None \<or> bc_pending c = Some n)) \<and>
     line_after (bc_events c) = Some (case bc_running c of None \<Rightarrow> Free | Some n \<Rightarrow> Out n) \<and>
     ns = settled_ids (bc_events c) @ (case bc_running c of None \<Rightarrow> [] | Some n \<Rightarrow> [n]) @ map fst (bc_queue c)"

definition idle_ok :: "bridge_client \<Rightarrow> bool" where
  "idle_ok c \<longleftrightarrow> (bc_running c = None \<longrightarrow> bc_queue c = [])"

lemma client_new_ok: "client_ok [] client_new" "idle_ok client_new"
  by (simp_all add: client_ok_def idle_ok_def client_new_def)

text \<open>The queue is run on a client whose own queue counts as empty meanwhile.\<close>

lemma run_queue_ok:
  assumes "client_ok ns (c\<lparr>bc_queue := []\<rparr>)"
  shows "client_ok (ns @ map fst qs) (run_queue qs c) \<and> idle_ok (run_queue qs c)"
  using assms
proof (induction qs arbitrary: ns c)
  case Nil
  then show ?case by (simp add: idle_ok_def)
next
  case (Cons q qs)
  show ?case
  proof (cases "bc_running c = None")
    case True
    have "client_ok (ns @ [fst q]) ((begin_127x q c)\<lparr>bc_queue := []\<rparr>)"
      using Cons.prems True by (cases q) (auto simp: client_ok_def begin_127x_def settle_def Let_def split: sum.split)
    from Cons.IH[OF this] show ?thesis using True by simp
  next
    case False
    then show ?thesis using Cons.prems by (auto simp: client_ok_def idle_ok_def)
  qed
qed

lemma advance_ok:
  assumes "client_ok ns c"
  shows "client_ok ns (advance c) \<and> idle_ok (advance c)"
proof -
  obtain ms where ms: "ns = ms @ map fst (bc_queue c)" "client_ok ms (c\<lparr>bc_queue := []\<rparr>)" using assms by (auto simp: client_ok_def)
  from run_queue_ok[OF ms(2), of "bc_queue c"] show ?thesis using ms(1) by (simp add: advance_def)
qed

lemma settle_ok:
  assumes "client_ok ns c" "settled_by v = [n]" "turn (Some (Out n)) v = Some Free"
  shows "client_ok ns (settle n v (c\<lparr>bc_timers := removeAll n (bc_timers c), bc_pending := None\<rparr>))"
  using assms by (cases "bc_running c") (auto simp: client_ok_def settle_def)

lemma take_frames_ok: "client_ok ns c \<Longrightarrow> client_ok ns (foldl take_frame c fs)"
proof (induction fs arbitrary: c)
  case (Cons f fs)
  have "client_ok ns (take_frame c f)"
    using settle_ok[OF Cons.prems, of "Answered _ f"] Cons.prems by (simp add: take_frame_def split: option.split)
  then show ?case using Cons.IH by simp
qed simp

lemma client_step_ok:
  assumes "client_ok ns c" "idle_ok c"
  shows "client_ok (ns @ sent_by op) (client_step c op) \<and> idle_ok (client_step c op)"
proof (cases op)
  case (Send q)
  have "client_ok (ns @ [fst q]) (c\<lparr>bc_queue := bc_queue c @ [q]\<rparr>)" using assms(1) by (auto simp: client_ok_def)
  from advance_ok[OF this] show ?thesis using Send by (cases q) (simp add: sendAndAwait_def)
next
  case (Data chunk)
  obtain fs rest where p: "push (bc_buffer c) chunk = (fs, rest)" by force
  have "client_ok ns (c\<lparr>bc_buffer := rest\<rparr>)" using assms(1) by (simp add: client_ok_def)
  from advance_ok[OF take_frames_ok[OF this]] show ?thesis using Data p by (simp add: handleData_def)
next
  case (TimerFires n)
  from advance_ok[OF settle_ok[OF assms(1), of "Refused n TimedOut" n]] show ?thesis using assms TimerFires by (simp add: timer_fires_def)
next
  case (WriteFailed n)
  from advance_ok[OF settle_ok[OF assms(1), of "Refused n NotWritten" n]] show ?thesis using WriteFailed by (simp add: write_failed_def)
qed

lemma client_run_ok: "client_ok ns c \<Longrightarrow> idle_ok c \<Longrightarrow>
    client_ok (ns @ concat (map sent_by ops)) (foldl client_step c ops) \<and> idle_ok (foldl client_step c ops)"
proof (induction ops arbitrary: ns c)
  case (Cons op ops)
  then show ?case using client_step_ok[of ns c op] Cons.IH[of "ns @ sent_by op" "client_step c op"] by simp
qed simp

text \<open>In every run of the client of the SX127x bridge one command at a time is out, they are settled in the order they were sent, each once, and the others wait only behind
  one that has a timer.\<close>

theorem simple_bridge_commands_in_turn:
  "let c = foldl client_step client_new ops in
    line_after (bc_events c) = Some (case bc_running c of None \<Rightarrow> Free | Some n \<Rightarrow> Out n) \<and>
    settled_ids (bc_events c) @ (case bc_running c of None \<Rightarrow> [] | Some n \<Rightarrow> [n]) @ map fst (bc_queue c) = concat (map sent_by ops) \<and>
    (bc_running c = None \<longrightarrow> bc_queue c = []) \<and> (\<forall>n. bc_running c = Some n \<longrightarrow> n \<in> set (bc_timers c))"
  using client_run_ok[OF client_new_ok, of ops] by (auto simp: Let_def client_ok_def idle_ok_def)

subsection \<open>The SX126x\<close>

text \<open>What the line is doing for the command at work, between and within operations.\<close>

fun unit_line :: "busy_unit option \<Rightarrow> line_use" where
  "unit_line None = Free"
| "unit_line (Some u) = (case bu_state u of Got (Inl TooLarge) \<Rightarrow> Free | Pauses \<Rightarrow> Pausing (bu_id u) | _ \<Rightarrow> Out (bu_id u))"

definition unit_ok :: "nat list \<Rightarrow> busy_unit \<Rightarrow> bool" where
  "unit_ok timers u \<longleftrightarrow> (case bu_state u of Awaits a \<Rightarrow> a \<in> set timers | Got (Inl e) \<Rightarrow> e \<noteq> GaveUpBusy | _ \<Rightarrow> True) \<and>
     (bu_state u \<noteq> Got (Inl TooLarge) \<longrightarrow> (\<exists>bytes. encodeBridgeFrame (bu_type u) (bu_payload u) = Inr bytes))"

definition busy_ok :: "nat list \<Rightarrow> busy_client \<Rightarrow> bool" where
  "busy_ok ns c \<longleftrightarrow> (\<forall>u. cx_unit c = Some u \<longrightarrow> unit_ok (cx_timers c) u) \<and> line_after (cx_events c) = Some (unit_line (cx_unit c)) \<and>
     (\<forall>n f. Answered n f \<in> set (cx_events c) \<longrightarrow> bf_type f \<noteq> 2) \<and>
     ns = settled_ids (cx_events c) @ (case cx_unit c of None \<Rightarrow> [] | Some u \<Rightarrow> [bu_id u]) @ map fst (cx_queue c)"

text \<open>Between operations no attempt is settled and waits for its continuation, and nobody waits for a client that has nothing to do.\<close>

definition rested :: "busy_client \<Rightarrow> bool" where
  "rested c \<longleftrightarrow> (\<forall>u out. cx_unit c = Some u \<longrightarrow> bu_state u \<noteq> Got out)"

definition busy_idle :: "busy_client \<Rightarrow> bool" where
  "busy_idle c \<longleftrightarrow> rested c \<and> (cx_unit c = None \<longrightarrow> cx_queue c = [])"

lemma busy_new_ok: "busy_ok [] busy_client_new" "busy_idle busy_client_new"
  by (simp_all add: busy_ok_def busy_idle_def rested_def busy_client_new_def)

lemma retry_ok:
  assumes "busy_ok ns c"
  shows "busy_ok ns (retry_or_return now c) \<and> rested (retry_or_return now c)"
proof (cases "cx_unit c")
  case (Some u)
  note ok = assms[unfolded busy_ok_def] Some
  show ?thesis
  proof (cases "bu_state u")
    case (Got out)
    show ?thesis
    proof (cases out)
      case (Inl e)
      then show ?thesis using ok Got by (cases e) (auto simp: busy_ok_def rested_def retry_or_return_def end_unit_def unit_ok_def)
    next
      case (Inr f)
      then show ?thesis using ok Got by (auto simp: busy_ok_def rested_def retry_or_return_def end_unit_def unit_ok_def Let_def)
    qed
  qed (use assms Some in \<open>simp_all add: retry_or_return_def rested_def\<close>)
qed (use assms in \<open>simp add: retry_or_return_def rested_def\<close>)

lemma end_attempt_ok:
  assumes "busy_ok ns c" "out \<noteq> Inl GaveUpBusy" "out \<noteq> Inl TooLarge"
  shows "busy_ok ns (end_attempt a out c)"
proof (cases "cx_unit c")
  case (Some u)
  then show ?thesis using assms
    by (cases "bu_state u"; cases out rule: sum.exhaust) (auto simp: busy_ok_def end_attempt_def settle_attempt_def unit_ok_def split: client_error.splits)
qed (use assms in \<open>simp add: busy_ok_def end_attempt_def settle_attempt_def\<close>)

text \<open>An attempt of a command that begins, or of one that pauses.\<close>

lemma first_attempt_ok:
  assumes "busy_ok ns (c\<lparr>cx_queue := []\<rparr>)" "cx_unit c = None"
  shows "busy_ok (ns @ [fst q]) ((begin_126x bo now q c)\<lparr>cx_queue := []\<rparr>)"
  using assms by (cases q) (auto simp: busy_ok_def begin_126x_def sendOnce_def end_attempt_def settle_attempt_def unit_ok_def Let_def split: sum.split)

lemma next_attempt_ok:
  assumes "busy_ok ns c" "cx_unit c = Some u" "bu_state u = Pauses" "bu_id u' = bu_id u" "bu_type u' = bu_type u" "bu_payload u' = bu_payload u"
  shows "busy_ok ns (sendOnce u' c)"
proof -
  obtain bytes where "encodeBridgeFrame (bu_type u) (bu_payload u) = Inr bytes" using assms(1-3) by (auto simp: busy_ok_def unit_ok_def)
  then show ?thesis using assms by (auto simp: busy_ok_def sendOnce_def unit_ok_def Let_def)
qed

lemma run_units_ok:
  assumes "busy_ok ns (c\<lparr>cx_queue := []\<rparr>)" "rested c"
  shows "busy_ok (ns @ map fst qs) (run_units bo now qs c) \<and> busy_idle (run_units bo now qs c)"
  using assms
proof (induction qs arbitrary: ns c)
  case Nil
  then show ?case by (simp add: busy_idle_def rested_def)
next
  case (Cons q qs)
  show ?case
  proof (cases "cx_unit c = None")
    case True
    let ?c = "retry_or_return now (begin_126x bo now q c)"
    have queue: "(retry_or_return now d)\<lparr>cx_queue := []\<rparr> = retry_or_return now (d\<lparr>cx_queue := []\<rparr>)" for d
      by (simp add: retry_or_return_def end_unit_def Let_def split: option.split attempt_state.split sum.split)
    have "busy_ok (ns @ [fst q]) (?c\<lparr>cx_queue := []\<rparr>) \<and> rested (?c\<lparr>cx_queue := []\<rparr>)"
      unfolding queue by (rule retry_ok[OF first_attempt_ok[OF Cons.prems(1) True]])
    then show ?thesis using Cons.IH[of "ns @ [fst q]" ?c] True by (simp add: rested_def)
  next
    case False
    then show ?thesis using Cons.prems by (auto simp: busy_ok_def busy_idle_def rested_def)
  qed
qed

lemma continue_ok:
  assumes "busy_ok ns c"
  shows "busy_ok ns (continue bo now c) \<and> busy_idle (continue bo now c)"
proof -
  let ?c = "retry_or_return now c"
  have ok: "busy_ok ns ?c" "rested ?c" using retry_ok[OF assms] by simp_all
  have queue: "cx_queue ?c = cx_queue c"
    by (simp add: retry_or_return_def end_unit_def Let_def split: option.split attempt_state.split sum.split)
  obtain ms where ms: "ns = ms @ map fst (cx_queue ?c)" "busy_ok ms (?c\<lparr>cx_queue := []\<rparr>)" using ok(1) by (auto simp: busy_ok_def)
  from run_units_ok[OF ms(2) ok(2), of "cx_queue ?c"] show ?thesis using ms(1) by (simp add: continue_def queue)
qed

lemma busy_frames_ok: "busy_ok ns c \<Longrightarrow> busy_ok ns (foldl take_frame_126x c fs)"
proof (induction fs arbitrary: c)
  case (Cons f fs)
  have "busy_ok ns (take_frame_126x c f)"
    using end_attempt_ok[OF Cons.prems, of "Inr f"] Cons.prems by (simp add: take_frame_126x_def split: option.split)
  then show ?case using Cons.IH by simp
qed simp

lemma busy_step_ok:
  assumes "busy_ok ns c" "busy_idle c"
  shows "busy_ok (ns @ busy_sent_by op) (busy_step bo c op) \<and> busy_idle (busy_step bo c op)"
proof (cases op rule: busy_sent_by.cases)
  case (1 now cop)
  show ?thesis
  proof (cases cop)
    case (Send q)
    have "busy_ok (ns @ [fst q]) (c\<lparr>cx_queue := cx_queue c @ [q]\<rparr>)" using assms(1) by (auto simp: busy_ok_def)
    from continue_ok[OF this] show ?thesis using 1 Send by (cases q) (simp add: enqueue_unit_def)
  next
    case (Data chunk)
    obtain fs rest where p: "push (cx_buffer c) chunk = (fs, rest)" by force
    have "busy_ok ns (c\<lparr>cx_buffer := rest\<rparr>)" using assms(1) by (simp add: busy_ok_def)
    from continue_ok[OF busy_frames_ok[OF this]] show ?thesis using 1 Data p by (simp add: handleData_126x_def)
  next
    case (TimerFires a)
    from continue_ok[OF end_attempt_ok[OF assms(1), of "Inl TimedOut" a]] show ?thesis using 1 TimerFires assms by simp
  next
    case (WriteFailed a)
    from continue_ok[OF end_attempt_ok[OF assms(1), of "Inl NotWritten" a]] show ?thesis using 1 WriteFailed by simp
  qed
next
  case (2 now)
  show ?thesis
  proof (cases "\<exists>u. cx_unit c = Some u \<and> bu_state u = Pauses")
    case True
    then obtain u where u: "cx_unit c = Some u" "bu_state u = Pauses" by blast
    from continue_ok[OF next_attempt_ok[OF assms(1) u]] show ?thesis using 2 u by (simp add: pause_over_def)
  qed (use assms 2 in \<open>auto simp: pause_over_def split: option.split\<close>)
qed

lemma busy_run_ok: "busy_ok ns c \<Longrightarrow> busy_idle c \<Longrightarrow>
    busy_ok (ns @ concat (map busy_sent_by ops)) (foldl (busy_step bo) c ops) \<and> busy_idle (foldl (busy_step bo) c ops)"
proof (induction ops arbitrary: ns c)
  case (Cons op ops)
  then show ?case using busy_step_ok[of ns c op bo] Cons.IH[of "ns @ busy_sent_by op" "busy_step bo c op"] by simp
qed simp

text \<open>C34: In every run of the client of the SX126x bridge one command at a time has the line, with all its retries: between the first time it is written and the answer that is not
  BUSY, or its failure, no other command is written, and it is written again only after a BUSY answer to its last attempt; it never returns a BUSY answer. Whatever chunks arrive, timers
  fire and writes fail, in time or late, the commands are settled in the order they were sent, each once; what is not yet settled is the one at work and those that wait. They
  wait only behind one at work, and that one has a timer armed or pauses.\<close>

theorem bridge_commands_in_turn:
  "let c = foldl (busy_step bo) busy_client_new ops in
    line_after (cx_events c) = Some (case cx_unit c of None \<Rightarrow> Free | Some u \<Rightarrow> if bu_state u = Pauses then Pausing (bu_id u) else Out (bu_id u)) \<and>
    (\<forall>n f. Answered n f \<in> set (cx_events c) \<longrightarrow> bf_type f \<noteq> 2) \<and>
    settled_ids (cx_events c) @ (case cx_unit c of None \<Rightarrow> [] | Some u \<Rightarrow> [bu_id u]) @ map fst (cx_queue c) = concat (map busy_sent_by ops) \<and>
    (cx_unit c = None \<longrightarrow> cx_queue c = []) \<and>
    (\<forall>u. cx_unit c = Some u \<longrightarrow> bu_state u = Pauses \<or> (\<exists>a. bu_state u = Awaits a \<and> a \<in> set (cx_timers c)))"
proof -
  define c where "c = foldl (busy_step bo) busy_client_new ops"
  have ok: "busy_ok (concat (map busy_sent_by ops)) c" "busy_idle c" using busy_run_ok[OF busy_new_ok, of ops bo] by (simp_all add: c_def)
  have "bu_state u = Pauses \<or> (\<exists>a. bu_state u = Awaits a \<and> a \<in> set (cx_timers c))" if "cx_unit c = Some u" for u
    using ok that by (cases "bu_state u") (auto simp: busy_ok_def unit_ok_def busy_idle_def rested_def)
  then show ?thesis using ok unfolding c_def[symmetric] Let_def
    by (auto simp: busy_ok_def busy_idle_def split: option.splits attempt_state.splits)
qed

definition quick_retries :: busy_options where
  "quick_retries = \<lparr>bo_baseDelayMs = 5, bo_maxDelayMs = 100, bo_timeoutMs = 3000\<rparr>"

text \<open>A command that is answered BUSY once, while another waits, and a write that fails late.\<close>

lemma bridge_commands_in_turn_witness:
  "let ops = [(0, Client (Send (1, 1, []))), (1, Client (Send (2, 2, [7]))), (2, Client (Data (wire \<lparr>bf_type = 2, bf_payload = []\<rparr>))), (7, PauseOver), (8, Client (WriteFailed 0)),
      (9, Client (TimerFires 1)), (10, Client (Data (wire \<lparr>bf_type = 0, bf_payload = []\<rparr>)))];
     c = foldl (busy_step quick_retries) busy_client_new ops in
    settled_ids (cx_events c) = [1, 2] \<and> cx_queue c = []"
proof -
  define ops :: "(time \<times> busy_op) list" where "ops = [(0, Client (Send (1, 1, []))), (1, Client (Send (2, 2, [7]))), (2, Client (Data (wire \<lparr>bf_type = 2, bf_payload = []\<rparr>))),
      (7, PauseOver), (8, Client (WriteFailed 0)), (9, Client (TimerFires 1)), (10, Client (Data (wire \<lparr>bf_type = 0, bf_payload = []\<rparr>)))]"
  have none: "cx_unit (foldl (busy_step quick_retries) busy_client_new ops) = None" unfolding ops_def by code_simp
  have sent: "concat (map busy_sent_by ops) = [1, 2]" by (simp add: ops_def)
  have "settled_ids (cx_events (foldl (busy_step quick_retries) busy_client_new ops)) = [1, 2] \<and> cx_queue (foldl (busy_step quick_retries) busy_client_new ops) = []"
    using bridge_commands_in_turn[of quick_retries ops] by (auto simp: none sent Let_def)
  then show ?thesis unfolding ops_def Let_def .
qed

section \<open>Where the answers go astray\<close>

text \<open>An answer carries no number. One that comes after the time of its command is over is taken for the answer to the next command.\<close>

lemma read_one: "length (bf_payload f) \<le> 255 \<Longrightarrow> push [] (wire f) = ([f], [])"
  using read_wire[of f "[]"] by (simp add: push_reads read_no_sof)

lemma encode_one: "length payload \<le> 255 \<Longrightarrow> \<exists>w. encodeBridgeFrame ty payload = Inr w" "255 < length payload \<Longrightarrow> encodeBridgeFrame ty payload = Inl PayloadTooLarge"
  by (auto simp: encodeBridgeFrame_def MAX_FRAME_PAYLOAD_BYTES_def)

lemmas client_run = sendAndAwait_def handleData_def timer_fires_def advance_def client_new_def take_frame_def settle_def Let_def

lemmas busy_run = enqueue_unit_def handleData_126x_def continue_def retry_or_return_def end_unit_def begin_126x_def sendOnce_def end_attempt_def settle_attempt_def take_frame_126x_def
  busy_client_new_def Let_def

theorem late_answer_taken_for_next:
  assumes "length (bf_payload f) \<le> 255"
  shows "let c = foldl client_step client_new [Send (1, 2, [a]), TimerFires 1, Send (2, 2, [b]), Data (wire f)] in
    List.last (bc_events c) = Answered 2 f"
proof -
  obtain w1 w2 where w: "encodeBridgeFrame 2 [a] = Inr w1" "encodeBridgeFrame 2 [b] = Inr w2" using encode_one(1)[of "[a]" 2] encode_one(1)[of "[b]" 2] by auto
  show ?thesis using assms by (simp add: client_run begin_127x_def w read_one)
qed

lemma late_answer_taken_for_next_witness:
  "let c = foldl client_step client_new [Send (1, 2, [0x42]), TimerFires 1, Send (2, 2, [0x12]), Data (wire \<lparr>bf_type = 0, bf_payload = [0x12]\<rparr>)] in
    List.last (bc_events c) = Answered 2 \<lparr>bf_type = 0, bf_payload = [0x12]\<rparr>"
  by (rule late_answer_taken_for_next) simp

text \<open>The client of the SX127x leaves the timer of a command that was too large to write. When it fires it takes away \<open>pending\<close> from the command that runs by then: the answer
  to that one is dropped, and it fails for want of an answer. The client of the SX126x takes the timer back: there is none to fire, and the answer is delivered.\<close>

theorem stale_timer_strikes_next:
  assumes "255 < length large" "length payload \<le> 255" "length (bf_payload f) \<le> 255" "bf_type f \<noteq> 2"
  shows "List.last (bc_events (foldl client_step client_new [Send (1, 4, large), Send (2, ty, payload), TimerFires 1, Data (wire f), TimerFires 2])) = Refused 2 TimedOut \<and>
    List.last (cx_events (foldl (busy_step bo) busy_client_new [(0, Client (Send (1, 4, large))), (0, Client (Send (2, ty, payload))), (t, Client (TimerFires 0)), (t, Client (Data (wire f)))])) =
      Answered 2 f"
proof -
  obtain w where w: "encodeBridgeFrame ty payload = Inr w" using encode_one(1)[OF assms(2)] by blast
  show ?thesis using assms(3,4) by (simp add: client_run busy_run begin_127x_def w read_one encode_one(2)[OF assms(1)])
qed

lemma stale_timer_strikes_next_witness:
  "List.last (bc_events (foldl client_step client_new [Send (1, 4, replicate 300 0), Send (2, 2, [0x42]), TimerFires 1, Data (wire \<lparr>bf_type = 0, bf_payload = [0x12]\<rparr>), TimerFires 2])) =
      Refused 2 TimedOut \<and>
    List.last (cx_events (foldl (busy_step quick_retries) busy_client_new [(0, Client (Send (1, 4, replicate 300 0))), (0, Client (Send (2, 2, [0x42]))), (5000, Client (TimerFires 0)),
      (5000, Client (Data (wire \<lparr>bf_type = 0, bf_payload = [0x12]\<rparr>)))])) = Answered 2 \<lparr>bf_type = 0, bf_payload = [0x12]\<rparr>"
  by (rule stale_timer_strikes_next) simp_all

text \<open>A write that fails after the time of its attempt is over clears \<open>pending\<close> all the same: the answer to the attempt that is out by then is dropped, in the client that takes its
  timers back as well.\<close>

theorem late_failure_strikes_next:
  assumes "length large \<le> 255" "length payload \<le> 255" "length (bf_payload f) \<le> 255"
  shows "List.last (cx_events (foldl (busy_step bo) busy_client_new [(0, Client (Send (1, ty, large))), (0, Client (Send (2, ty, payload))), (t, Client (TimerFires 0)),
      (t, Client (WriteFailed 0)), (t, Client (Data (wire f))), (t', Client (TimerFires 1))])) = Refused 2 TimedOut"
proof -
  obtain w v where w: "encodeBridgeFrame ty payload = Inr w" "encodeBridgeFrame ty large = Inr v" using encode_one(1)[OF assms(2)] encode_one(1)[OF assms(1)] by blast
  show ?thesis using assms(3) by (simp add: busy_run w read_one)
qed

lemma late_failure_strikes_next_witness:
  "List.last (cx_events (foldl (busy_step quick_retries) busy_client_new [(0, Client (Send (1, 2, [1]))), (0, Client (Send (2, 2, [2]))), (2000, Client (TimerFires 0)),
      (2000, Client (WriteFailed 0)), (2000, Client (Data (wire \<lparr>bf_type = 0, bf_payload = []\<rparr>))), (4000, Client (TimerFires 1))])) = Refused 2 TimedOut"
  by (rule late_failure_strikes_next) simp_all

end
