(* ===== verification/LoraPeers.thy ===== *)
theory LoraPeers
  imports LinkFragments TcpTransport
begin

text \<open>
  The connection of a LoRa driver (\<open>LoraSerialTransport\<close> of \<open>node/src/transports/lora-serial.ts\<close>; \<open>lora-serial-sx1262.ts\<close> has the same): one peer at a time, known from
  the first packet that is heard; one attempt to connect at a time; a queue of sends. An attempt and a send are known by numbers, which stand for their promises. What the
  transport does to the outside is its list of events; decoding a packet is an argument. The loop \<open>drain_loop\<close> over the queue is the one of \<open>TcpTransport\<close>.
\<close>

section \<open>State\<close>

definition MAX_QUEUED_SENDS :: nat where "MAX_QUEUED_SENDS = 500"

datatype lora_error = LoraNotStarted | AlreadyConnecting | NoPeerHeard | HelloFailed | LoraStopped

datatype 'p lora_event =
    LoraHello
  | LoraUp string
  | LoraDown string
  | LoraPacket "'p packet" string
  | LoraConnected nat string
  | LoraConnectFailed nat lora_error
  | LoraTransmit nat
  | LoraSent nat
  | LoraSendFailed nat

record 'p lora =
  lr_started :: bool
  lr_connection :: "(string \<times> reassembler) option"
  lr_pendingConnect :: "nat option"
  lr_helloSent :: bool
  lr_reassemblerForPendingConnect :: "reassembler option"
  lr_queue :: "'p queued_send priority_queue"
  lr_draining :: bool
  lr_inflight :: "'p queued_send option"
  lr_events :: "'p lora_event list"

definition lora_new :: "'p lora" where
  "lora_new = \<lparr>lr_started = False, lr_connection = None, lr_pendingConnect = None, lr_helloSent = False, lr_reassemblerForPendingConnect = None,
     lr_queue = pq_new PRIORITY_LEVEL_COUNT, lr_draining = False, lr_inflight = None, lr_events = []\<rparr>"

abbreviation tells :: "'p lora_event list \<Rightarrow> 'p lora \<Rightarrow> 'p lora" where
  "tells vs t \<equiv> t\<lparr>lr_events := lr_events t @ vs\<rparr>"

section \<open>Starting and stopping\<close>

text \<open>The end of \<open>start\<close>.\<close>

definition lora_start :: "'p lora \<Rightarrow> 'p lora" where
  "lora_start t = t\<lparr>lr_started := True\<rparr>"

definition lora_stop :: "'p lora \<Rightarrow> 'p lora" where
  "lora_stop t = (
     let t1 = t\<lparr>lr_started := False\<rparr>;
         t2 = (case lr_pendingConnect t1 of Some n \<Rightarrow> tells [LoraConnectFailed n LoraStopped] (t1\<lparr>lr_pendingConnect := None\<rparr>) | None \<Rightarrow> t1);
         t3 = (case lr_connection t2 of Some (p, _) \<Rightarrow> tells [LoraDown p] (t2\<lparr>lr_connection := None\<rparr>) | None \<Rightarrow> t2);
         t4 = t3\<lparr>lr_helloSent := False, lr_reassemblerForPendingConnect := None\<rparr>
     in case drain_loop False (lr_queue t4) of (rejected, _, q) \<Rightarrow> tells (map (\<lambda>x. LoraSendFailed (fst x)) rejected) (t4\<lparr>lr_queue := q\<rparr>))"

section \<open>Connecting\<close>

definition lora_sendHelloOnce :: "'p lora \<Rightarrow> 'p lora" where
  "lora_sendHelloOnce t = (if lr_helloSent t then t else tells [LoraHello] (t\<lparr>lr_helloSent := True\<rparr>))"

definition lora_connect :: "nat \<Rightarrow> 'p lora \<Rightarrow> 'p lora" where
  "lora_connect n t =
     (if \<not> lr_started t then tells [LoraConnectFailed n LoraNotStarted] t
      else if lr_connection t \<noteq> None \<or> lr_pendingConnect t \<noteq> None then tells [LoraConnectFailed n AlreadyConnecting] t
      else lora_sendHelloOnce (t\<lparr>lr_pendingConnect := Some n\<rparr>))"

text \<open>The timeout of an attempt, and the failure of its HELLO: only the attempt that is still pending may touch the state.\<close>

definition attempt_failed :: "nat \<Rightarrow> lora_error \<Rightarrow> 'p lora \<Rightarrow> 'p lora" where
  "attempt_failed n e t = (if lr_pendingConnect t \<noteq> Some n then t
     else tells [LoraConnectFailed n e] (t\<lparr>lr_pendingConnect := None, lr_helloSent := False\<rparr>))"

definition lora_identifyPeer :: "string \<Rightarrow> 'p lora \<Rightarrow> 'p lora" where
  "lora_identifyPeer p t = (
     let t1 = t\<lparr>lr_connection := Some (p, case lr_reassemblerForPendingConnect t of Some r \<Rightarrow> r | None \<Rightarrow> reassembler_new), lr_reassemblerForPendingConnect := None\<rparr>;
         t2 = (case lr_pendingConnect t1 of Some n \<Rightarrow> tells [LoraConnected n p] (t1\<lparr>lr_pendingConnect := None\<rparr>) | None \<Rightarrow> t1)
     in tells [LoraUp p] (lora_sendHelloOnce t2))"

section \<open>Receiving\<close>

definition handleReceivedFrame :: "(byte list \<Rightarrow> 'p packet option) \<Rightarrow> byte list \<Rightarrow> 'p lora \<Rightarrow> 'p lora" where
  "handleReceivedFrame decode frame t = (case received_fragment frame of None \<Rightarrow> t
   | Some f \<Rightarrow>
       let r = (case lr_connection t of Some (_, r) \<Rightarrow> r | None \<Rightarrow> (case lr_reassemblerForPendingConnect t of Some r \<Rightarrow> r | None \<Rightarrow> reassembler_new));
           (whole, r') = addFragment f r;
           t1 = (case lr_connection t of Some (p, _) \<Rightarrow> t\<lparr>lr_connection := Some (p, r')\<rparr> | None \<Rightarrow> t\<lparr>lr_reassemblerForPendingConnect := Some r'\<rparr>)
       in case Option.bind whole decode of None \<Rightarrow> t1
          | Some packet \<Rightarrow>
              let t2 = (if lr_connection t1 = None then lora_identifyPeer (pk_source packet) t1 else t1)
              in case lr_connection t2 of
                   Some (p, _) \<Rightarrow> if p = pk_source packet then tells [LoraPacket packet (pk_source packet)] t2 else t2
                 | None \<Rightarrow> t2)"

section \<open>Sending\<close>

definition next_send :: "'p lora \<Rightarrow> 'p lora" where
  "next_send t = (case drain_loop True (lr_queue t) of (_, w, q) \<Rightarrow>
     tells (case w of Some x \<Rightarrow> [LoraTransmit (fst x)] | None \<Rightarrow> []) (t\<lparr>lr_queue := q, lr_inflight := w, lr_draining := (w \<noteq> None)\<rparr>))"

definition drainSendQueue :: "'p lora \<Rightarrow> 'p lora" where
  "drainSendQueue t = (if lr_draining t then t else next_send t)"

definition lora_send :: "nat \<Rightarrow> string \<Rightarrow> 'p packet \<Rightarrow> 'p lora \<Rightarrow> 'p lora" where
  "lora_send i peerId packet t =
     (if map_option fst (lr_connection t) \<noteq> Some peerId then tells [LoraSendFailed i] t
      else if pq_count (lr_queue t) \<ge> MAX_QUEUED_SENDS then tells [LoraSendFailed i] t
      else case pq_enqueue (priority_number (pk_priority packet)) (i, packet) (lr_queue t) of
        Some q \<Rightarrow> drainSendQueue (t\<lparr>lr_queue := q\<rparr>)
      | None \<Rightarrow> tells [LoraSendFailed i] t)"

text \<open>\<open>transmitPacket\<close> of the send under way ends, and the loop goes on.\<close>

definition transmit_ended :: "bool \<Rightarrow> 'p lora \<Rightarrow> 'p lora" where
  "transmit_ended ok t = (case lr_inflight t of None \<Rightarrow> t
   | Some x \<Rightarrow> next_send (tells [if ok then LoraSent (fst x) else LoraSendFailed (fst x)] t))"

section \<open>Runs\<close>

datatype 'p lora_op = LStart | LStop | LConnect nat | LAttemptFailed nat lora_error | LFrame "byte list" | LSend nat string "'p packet" | LTransmitEnded bool

fun lora_step :: "(byte list \<Rightarrow> 'p packet option) \<Rightarrow> 'p lora \<Rightarrow> 'p lora_op \<Rightarrow> 'p lora" where
  "lora_step decode t LStart = lora_start t"
| "lora_step decode t LStop = lora_stop t"
| "lora_step decode t (LConnect n) = lora_connect n t"
| "lora_step decode t (LAttemptFailed n e) = attempt_failed n e t"
| "lora_step decode t (LFrame frame) = handleReceivedFrame decode frame t"
| "lora_step decode t (LSend i p packet) = lora_send i p packet t"
| "lora_step decode t (LTransmitEnded ok) = transmit_ended ok t"

section \<open>What is reported is so\<close>

text \<open>The peer that the handlers know by the events; \<open>None\<close> if they were told of a peer twice, of the end of another one, or given a packet of another one.\<close>

fun heard :: "string option option \<Rightarrow> 'p lora_event \<Rightarrow> string option option" where
  "heard None v = None"
| "heard (Some None) (LoraUp p) = Some (Some p)"
| "heard (Some (Some q)) (LoraUp p) = None"
| "heard (Some c) (LoraDown p) = (if c = Some p then Some None else None)"
| "heard (Some c) (LoraPacket packet p) = (if c = Some p \<and> pk_source packet = p then Some c else None)"
| "heard (Some c) LoraHello = Some c"
| "heard (Some c) (LoraConnected n p) = Some c"
| "heard (Some c) (LoraConnectFailed n e) = Some c"
| "heard (Some c) (LoraTransmit n) = Some c"
| "heard (Some c) (LoraSent n) = Some c"
| "heard (Some c) (LoraSendFailed n) = Some c"

fun attempt_of :: "'p lora_event \<Rightarrow> nat list" where
  "attempt_of (LoraConnected n p) = [n]" | "attempt_of (LoraConnectFailed n e) = [n]" | "attempt_of v = []"

fun send_of :: "'p lora_event \<Rightarrow> nat list" where
  "send_of (LoraSent n) = [n]" | "send_of (LoraSendFailed n) = [n]" | "send_of v = []"

definition known_peer_by :: "'p lora_event list \<Rightarrow> string option option" where
  "known_peer_by vs = foldl heard (Some None) vs"

definition ended_attempts :: "'p lora_event list \<Rightarrow> nat list" where "ended_attempts vs = concat (map attempt_of vs)"
definition ended_sends :: "'p lora_event list \<Rightarrow> nat list" where "ended_sends vs = concat (map send_of vs)"

definition open_sends :: "'p lora \<Rightarrow> nat list" where
  "open_sends t = (case lr_inflight t of Some x \<Rightarrow> [fst x] | None \<Rightarrow> []) @ map fst (concat (buckets (lr_queue t)))"

definition open_attempts :: "'p lora \<Rightarrow> nat list" where
  "open_attempts t = (case lr_pendingConnect t of Some n \<Rightarrow> [n] | None \<Rightarrow> [])"

lemma event_folds [simp]:
  "known_peer_by [] = Some None" "known_peer_by (vs @ [v]) = heard (known_peer_by vs) v" "known_peer_by (vs @ v # ws) = foldl heard (heard (known_peer_by vs) v) ws"
  "ended_attempts [] = []" "ended_attempts (vs @ ws) = ended_attempts vs @ ended_attempts ws" "ended_attempts (v # vs) = attempt_of v @ ended_attempts vs"
  "ended_sends [] = []" "ended_sends (vs @ ws) = ended_sends vs @ ended_sends ws" "ended_sends (v # vs) = send_of v @ ended_sends vs"
  by (simp_all add: known_peer_by_def ended_attempts_def ended_sends_def)

lemma rejected_sends [simp]: "ended_sends (map (\<lambda>x. LoraSendFailed (f x)) xs) = map f xs" "ended_attempts (map (\<lambda>x. LoraSendFailed (f x)) xs) = []"
  "foldl heard c (map (\<lambda>x. LoraSendFailed (f x)) xs) = c" "known_peer_by (vs @ map (\<lambda>x. LoraSendFailed (f x)) xs) = known_peer_by vs"
proof -
  have h: "heard c (LoraSendFailed n) = c" for c n by (cases c) simp_all
  show "foldl heard c (map (\<lambda>x. LoraSendFailed (f x)) xs) = c" for c by (induction xs) (simp_all add: h)
  then show "known_peer_by (vs @ map (\<lambda>x. LoraSendFailed (f x)) xs) = known_peer_by vs" by (simp add: known_peer_by_def)
qed (induction xs; simp)+

definition lora_ok :: "nat multiset \<Rightarrow> nat multiset \<Rightarrow> 'p lora \<Rightarrow> bool" where
  "lora_ok attempts sends t \<longleftrightarrow> known_peer_by (lr_events t) = Some (map_option fst (lr_connection t)) \<and>
     attempts = mset (ended_attempts (lr_events t)) + mset (open_attempts t) \<and> sends = mset (ended_sends (lr_events t)) + mset (open_sends t) \<and>
     (lr_connection t \<noteq> None \<longrightarrow> lr_pendingConnect t = None) \<and>
     pq_ok PRIORITY_LEVEL_COUNT (lr_queue t) \<and> (lr_draining t \<longleftrightarrow> lr_inflight t \<noteq> None) \<and> (lr_inflight t = None \<longrightarrow> concat (buckets (lr_queue t)) = [])"

lemma lora_new_ok: "lora_ok {#} {#} lora_new"
  by (simp add: lora_ok_def lora_new_def open_attempts_def open_sends_def pq_new_ok) (simp add: pq_new_def)

lemma lora_stop_ok: "lora_ok A S t \<Longrightarrow> lora_ok A S (lora_stop t)"
proof -
  assume ok: "lora_ok A S t"
  obtain r w q where d: "drain_loop False (lr_queue t) = (r, w, q)" by (metis prod_cases3)
  have "pq_ok PRIORITY_LEVEL_COUNT (lr_queue t)" using ok by (simp add: lora_ok_def)
  note s = drain_loop_spec[OF d this]
  have q: "concat (buckets (lr_queue t)) = r" "concat (buckets q) = []" using s(1,4,6) by simp_all
  show ?thesis using ok d s(2) q by (simp add: lora_stop_def lora_ok_def open_attempts_def open_sends_def Let_def split: option.splits prod.splits)
qed

lemma lora_hello_ok: "lora_ok A S t \<Longrightarrow> lora_ok A S (lora_sendHelloOnce t)"
  by (simp add: lora_sendHelloOnce_def lora_ok_def open_attempts_def open_sends_def)

lemma lora_connect_ok: "lora_ok A S t \<Longrightarrow> lora_ok (A + {#n#}) S (lora_connect n t)"
proof -
  assume ok: "lora_ok A S t"
  have "lora_ok (A + {#n#}) S (t\<lparr>lr_pendingConnect := Some n\<rparr>)" if "lr_connection t = None" "lr_pendingConnect t = None"
    using ok that by (simp add: lora_ok_def open_attempts_def open_sends_def)
  moreover have "lora_ok (A + {#n#}) S (tells [LoraConnectFailed n e] t)" for e
    using ok by (simp add: lora_ok_def open_attempts_def open_sends_def)
  ultimately show ?thesis using lora_hello_ok[of "A + {#n#}" S "t\<lparr>lr_pendingConnect := Some n\<rparr>"] by (cases "lr_connection t"; cases "lr_pendingConnect t") (simp_all add: lora_connect_def)
qed

lemma attempt_ok: "lora_ok A S t \<Longrightarrow> lora_ok A S (attempt_failed n e t)"
  by (auto simp: attempt_failed_def lora_ok_def open_attempts_def open_sends_def)


lemma lora_identify_ok:
  assumes "lora_ok A S t" "lr_connection t = None"
  shows "lora_ok A S (lora_identifyPeer p t)"
  using assms by (auto simp: lora_identifyPeer_def lora_sendHelloOnce_def lora_ok_def open_attempts_def open_sends_def Let_def split: option.splits)

lemma frame_ok:
  assumes "lora_ok A S t"
  shows "lora_ok A S (handleReceivedFrame decode frame t)"
proof (cases "received_fragment frame")
  case (Some f)
  define r where "r = (case lr_connection t of Some (_, r) \<Rightarrow> r | None \<Rightarrow> (case lr_reassemblerForPendingConnect t of Some r \<Rightarrow> r | None \<Rightarrow> reassembler_new))"
  obtain whole r' where a: "addFragment f r = (whole, r')" by force
  define t1 where "t1 = (case lr_connection t of Some (p, _) \<Rightarrow> t\<lparr>lr_connection := Some (p, r')\<rparr> | None \<Rightarrow> t\<lparr>lr_reassemblerForPendingConnect := Some r'\<rparr>)"
  have t1: "lora_ok A S t1" using assms by (auto simp: t1_def lora_ok_def open_attempts_def open_sends_def split: option.splits)
  have h: "handleReceivedFrame decode frame t = (case Option.bind whole decode of None \<Rightarrow> t1
    | Some packet \<Rightarrow> let t2 = (if lr_connection t1 = None then lora_identifyPeer (pk_source packet) t1 else t1)
        in case lr_connection t2 of Some (p, _) \<Rightarrow> if p = pk_source packet then tells [LoraPacket packet (pk_source packet)] t2 else t2 | None \<Rightarrow> t2)"
    by (simp only: handleReceivedFrame_def Some option.case Let_def r_def[symmetric] a prod.case t1_def[symmetric])
  show ?thesis
  proof (cases "Option.bind whole decode")
    case (Some packet)
    define t2 where "t2 = (if lr_connection t1 = None then lora_identifyPeer (pk_source packet) t1 else t1)"
    have "lora_ok A S t2" using t1 lora_identify_ok[OF t1] by (simp add: t2_def)
    then have "lora_ok A S (tells [LoraPacket packet (pk_source packet)] t2)" if "lr_connection t2 = Some (pk_source packet, x)" for x
      using that by (simp add: lora_ok_def open_attempts_def open_sends_def)
    then show ?thesis unfolding h using Some \<open>lora_ok A S t2\<close> by (auto simp: Let_def t2_def[symmetric] split: option.split)
  qed (simp add: h t1)
qed (simp add: handleReceivedFrame_def assms)

text \<open>The queue after a send is taken from it: what was open is still open.\<close>

lemma next_send_spec:
  assumes "pq_ok PRIORITY_LEVEL_COUNT (lr_queue t)"
  shows "map fst (concat (buckets (lr_queue t))) = open_sends (next_send t)" "pq_ok PRIORITY_LEVEL_COUNT (lr_queue (next_send t))"
    "lr_draining (next_send t) \<longleftrightarrow> lr_inflight (next_send t) \<noteq> None" "lr_inflight (next_send t) = None \<longrightarrow> concat (buckets (lr_queue (next_send t))) = []"
    "\<exists>vs. lr_events (next_send t) = lr_events t @ vs \<and> ended_attempts vs = [] \<and> ended_sends vs = [] \<and> (\<forall>c. foldl heard c vs = c)"
    "lr_connection (next_send t) = lr_connection t" "lr_pendingConnect (next_send t) = lr_pendingConnect t"
proof -
  obtain r w q where d: "drain_loop True (lr_queue t) = (r, w, q)" by (metis prod_cases3)
  note s = drain_loop_spec[OF d assms]
  have h: "heard c (LoraTransmit n) = c" for c n by (cases c) simp_all
  have n: "next_send t = tells (case w of Some x \<Rightarrow> [LoraTransmit (fst x)] | None \<Rightarrow> []) (t\<lparr>lr_queue := q, lr_inflight := w, lr_draining := (w \<noteq> None)\<rparr>)"
    using d by (simp add: next_send_def)
  show "map fst (concat (buckets (lr_queue t))) = open_sends (next_send t)" using s(1,5) by (simp add: n open_sends_def split: option.split)
  show "pq_ok PRIORITY_LEVEL_COUNT (lr_queue (next_send t))" using s(2) by (simp add: n)
  show "lr_inflight (next_send t) = None \<longrightarrow> concat (buckets (lr_queue (next_send t))) = []" using s(4) by (simp add: n)
  show "\<exists>vs. lr_events (next_send t) = lr_events t @ vs \<and> ended_attempts vs = [] \<and> ended_sends vs = [] \<and> (\<forall>c. foldl heard c vs = c)"
    by (simp add: n h split: option.split)
qed (simp_all add: next_send_def split: prod.split)

lemma next_send_ok:
  assumes "known_peer_by (lr_events t) = Some (map_option fst (lr_connection t))" "A = mset (ended_attempts (lr_events t)) + mset (open_attempts t)"
    "lr_connection t \<noteq> None \<longrightarrow> lr_pendingConnect t = None" "pq_ok PRIORITY_LEVEL_COUNT (lr_queue t)"
    "S = mset (ended_sends (lr_events t)) + mset (map fst (concat (buckets (lr_queue t))))"
  shows "lora_ok A S (next_send t)"
proof -
  note n = next_send_spec[OF assms(4)]
  obtain vs where vs: "lr_events (next_send t) = lr_events t @ vs" "ended_attempts vs = []" "ended_sends vs = []" "\<And>c. foldl heard c vs = c" using n(5) by blast
  have "known_peer_by (lr_events t @ vs) = known_peer_by (lr_events t)" using vs(4) by (simp add: known_peer_by_def)
  then show ?thesis using assms n(1-4,6,7) vs(1-3) unfolding lora_ok_def by (simp add: open_attempts_def)
qed

lemma send_ok:
  assumes "lora_ok A S t"
  shows "lora_ok A (S + {#i#}) (lora_send i p packet t)"
proof -
  have failed: "lora_ok A (S + {#i#}) (tells [LoraSendFailed i] t)" using assms by (simp add: lora_ok_def open_attempts_def open_sends_def)
  have ok: "pq_ok PRIORITY_LEVEL_COUNT (lr_queue t)" using assms by (simp add: lora_ok_def)
  show ?thesis
  proof (cases "pq_enqueue (priority_number (pk_priority packet)) (i, packet) (lr_queue t)")
    case (Some q)
    note w = pq_enqueue_waiting(1)[OF Some] and okq = pq_enqueue_ok[OF ok Some]
    have m: "mset (map fst (concat (buckets q))) = add_mset i (mset (map fst (concat (buckets (lr_queue t)))))"
      by (simp only: mset_map w image_mset_add_mset fst_conv)
    have "lora_ok A (S + {#i#}) (drainSendQueue (t\<lparr>lr_queue := q\<rparr>))"
    proof (cases "lr_draining t")
      case True
      then obtain y where "lr_inflight t = Some y" using assms by (auto simp: lora_ok_def)
      then show ?thesis using assms True okq m unfolding lora_ok_def drainSendQueue_def
        by (simp add: open_attempts_def open_sends_def del: mset_map PRIORITY_LEVEL_COUNT_def)
    next
      case False
      then have "lr_inflight t = None" using assms unfolding lora_ok_def by blast
      then have "lora_ok A (S + {#i#}) (next_send (t\<lparr>lr_queue := q\<rparr>))" using assms okq m
        by (intro next_send_ok) (simp_all add: lora_ok_def open_attempts_def open_sends_def del: mset_map PRIORITY_LEVEL_COUNT_def)
      then show ?thesis using False by (simp add: drainSendQueue_def)
    qed
    then show ?thesis using Some failed by (simp add: lora_send_def)
  qed (use failed in \<open>simp add: lora_send_def\<close>)
qed

lemma transmit_ok:
  assumes "lora_ok A S t"
  shows "lora_ok A S (transmit_ended ok t)"
proof (cases "lr_inflight t")
  case (Some x)
  have "lora_ok A S (next_send (tells [if ok then LoraSent (fst x) else LoraSendFailed (fst x)] t))"
    using assms Some by (intro next_send_ok) (auto simp: lora_ok_def open_attempts_def open_sends_def)
  then show ?thesis using Some by (simp add: transmit_ended_def)
qed (simp add: transmit_ended_def assms)

fun attempts_by :: "'p lora_op \<Rightarrow> nat multiset" where
  "attempts_by (LConnect n) = {#n#}" | "attempts_by op = {#}"

fun sends_by :: "'p lora_op \<Rightarrow> nat multiset" where
  "sends_by (LSend i p packet) = {#i#}" | "sends_by op = {#}"

lemma lora_step_ok:
  assumes "lora_ok A S t"
  shows "lora_ok (A + attempts_by op) (S + sends_by op) (lora_step decode t op)"
  using assms lora_connect_ok[OF assms] send_ok[OF assms]
  by (cases op) (simp_all add: lora_stop_ok attempt_ok frame_ok transmit_ok, simp add: lora_start_def lora_ok_def open_attempts_def open_sends_def)

lemma lora_run_ok: "lora_ok A S t \<Longrightarrow> lora_ok (A + sum_list (map attempts_by ops)) (S + sum_list (map sends_by ops)) (foldl (lora_step decode) t ops)"
proof (induction ops arbitrary: A S t)
  case (Cons op ops)
  from Cons.IH[OF lora_step_ok[OF Cons.prems, of op decode]] show ?case by (simp add: add.assoc)
qed simp

text \<open>In every run of a LoRa transport the peer that its handlers know is the peer of its connection; they are given packets of that peer only; every attempt to connect and
  every send is ended exactly once, unless it is still open: the attempt that is pending, the send under way and those in the queue.\<close>

theorem lora_reports_faithful:
  "let t = foldl (lora_step decode) lora_new ops in
     known_peer_by (lr_events t) = Some (map_option fst (lr_connection t)) \<and>
     mset (ended_attempts (lr_events t)) + mset (open_attempts t) = sum_list (map attempts_by ops) \<and>
     mset (ended_sends (lr_events t)) + mset (open_sends t) = sum_list (map sends_by ops)"
  using lora_run_ok[OF lora_new_ok, of ops decode] by (simp add: Let_def lora_ok_def)

section \<open>A poll that outlives the transport\<close>

text \<open>A poll looks at \<open>started\<close> before it waits for the radio, not after: a frame that it reads when \<open>stop\<close> has been called reaches \<open>handleReceivedFrame\<close> all the same. The stopped
  transport then has a peer again, its handlers are told so, and after a new start no attempt to connect is accepted.\<close>

theorem stopped_transport_connects:
  assumes "received_fragment frame = Some f" "addFragment f reassembler_new = (Some whole, r)" "decode whole = Some packet"
  shows "let t' = handleReceivedFrame decode frame (lora_stop t) in
     \<not> lr_started t' \<and> map_option fst (lr_connection t') = Some (pk_source packet) \<and> LoraUp (pk_source packet) \<in> set (lr_events t') \<and>
     List.last (lr_events (lora_connect n (lora_start t'))) = LoraConnectFailed n AlreadyConnecting"
proof -
  obtain x w q where d: "drain_loop False (lr_queue t) = (x, w, q)" by (metis prod_cases3)
  have s: "lr_connection (lora_stop t) = None" "lr_reassemblerForPendingConnect (lora_stop t) = None" "\<not> lr_started (lora_stop t)" "lr_pendingConnect (lora_stop t) = None" "\<not> lr_helloSent (lora_stop t)"
    by (auto simp: lora_stop_def Let_def d split: option.splits)
  show ?thesis using assms s
    by (simp add: handleReceivedFrame_def Let_def lora_identifyPeer_def lora_sendHelloOnce_def lora_connect_def lora_start_def)
qed

lemma stopped_transport_connects_witness:
  "let t' = handleReceivedFrame (\<lambda>_. Some (sample_packet 0)) [1, 2, 3, 4, 0, 0, 0, 1, 9] (lora_stop lora_new) in
     \<not> lr_started t' \<and> map_option fst (lr_connection t') = Some ''a'' \<and> LoraUp ''a'' \<in> set (lr_events t') \<and>
     List.last (lr_events (lora_connect 5 (lora_start t'))) = LoraConnectFailed 5 AlreadyConnecting"
proof -
  let ?f = "\<lparr>fg_connectionId = ''lora-serial'', fg_msgId = ''01020304'', fg_index = Num 0, fg_total = Num 1, fg_bytes = [9]\<rparr>"
  have f: "received_fragment [1, 2, 3, 4, 0, 0, 0, 1, 9] = Some ?f" by code_simp
  have "fst (addFragment ?f reassembler_new) = Some [9]" by code_simp
  then have a: "addFragment ?f reassembler_new = (Some [9], snd (addFragment ?f reassembler_new))" by (metis prod.collapse)
  show ?thesis using stopped_transport_connects[OF f a, of "\<lambda>_. Some (sample_packet 0)" "sample_packet 0" lora_new 5] by (simp add: sample_packet_def)
qed

end
