(* ===== verification/RadioModel.thy ===== *)
theory RadioModel
  imports HopSearch
begin

text \<open>
  The radio model of the scenario tools (\<open>tools/scenario-model/model.ts\<close>): time on air, link budgets for the three radios, the best link of a pair and the links of a
  moment. Numbers are exact rationals where the code has doubles. What the code takes from \<open>Math\<close> and is no rational function (the length of a vector, the decimal
  logarithm, \<open>Math.PI\<close>) is an argument, and so is the loss along the terrain, a part of its own (\<open>terrain.ts\<close>). The code keeps that loss in a cache (\<open>cachedTerrainLossDb\<close>) whose key rounds positions to 0.1 m, so that it can answer with the
  loss of a pair at most that far away; here it is a function of the exact positions.
\<close>

section \<open>Positions\<close>

record point3 = p3_x :: rat p3_y :: rat p3_z :: rat
record waypoint = point3 + wp_t :: rat

record maths =
  mt_hypot :: "rat \<Rightarrow> rat \<Rightarrow> rat \<Rightarrow> rat"
  mt_log10 :: "rat \<Rightarrow> rat"
  mt_pi :: rat

definition distance3 :: "maths \<Rightarrow> point3 \<Rightarrow> point3 \<Rightarrow> rat" where
  "distance3 mt a b = mt_hypot mt (p3_x a - p3_x b) (p3_y a - p3_y b) (p3_z a - p3_z b)"

definition waypoint_at :: "waypoint \<Rightarrow> point3" where
  "waypoint_at w = \<lparr>p3_x = p3_x w, p3_y = p3_y w, p3_z = p3_z w\<rparr>"

text \<open>The loop of \<open>positionAt\<close> over the pairs of neighbouring waypoints.\<close>

fun position_from :: "waypoint \<Rightarrow> waypoint list \<Rightarrow> rat \<Rightarrow> point3" where
  "position_from a [] t = waypoint_at a"
| "position_from a (b # path) t =
     (if t \<le> wp_t b then
        let f = (if wp_t b = wp_t a then 1 else (t - wp_t a) / (wp_t b - wp_t a)) in
        \<lparr>p3_x = p3_x a + f * (p3_x b - p3_x a), p3_y = p3_y a + f * (p3_y b - p3_y a), p3_z = p3_z a + f * (p3_z b - p3_z a)\<rparr>
      else position_from b path t)"

text \<open>\<open>None\<close> is the exception for an empty path.\<close>

definition positionAt :: "waypoint list \<Rightarrow> rat \<Rightarrow> point3 option" where
  "positionAt path t = (case path of [] \<Rightarrow> None | a # rest \<Rightarrow> Some (if t \<le> wp_t a then waypoint_at a else position_from a rest t))"

section \<open>LoRa\<close>

definition SPREADING_FACTORS :: "nat list" where "SPREADING_FACTORS = [7, 8, 9, 10, 11, 12]"

definition SX1262_SENSITIVITY_125K :: "nat \<Rightarrow> rat" where
  "SX1262_SENSITIVITY_125K sf = (if sf = 7 then - 124 else if sf = 8 then - 127 else if sf = 9 then - 259 / 2 else if sf = 10 then - 132 else if sf = 11 then - 269 / 2 else - 137)"

record lora_phy =
  ph_bandwidthHz :: rat
  ph_codingRateDenom :: int
  ph_preambleSymbols :: rat
  ph_explicitHeader :: bool
  ph_crc :: bool

definition DEFAULT_PHY :: lora_phy where
  "DEFAULT_PHY = \<lparr>ph_bandwidthHz = 125000, ph_codingRateDenom = 5, ph_preambleSymbols = 8, ph_explicitHeader = True, ph_crc = True\<rparr>"

definition symbol_time :: "nat \<Rightarrow> lora_phy \<Rightarrow> rat" where
  "symbol_time sf phy = 2 ^ sf / ph_bandwidthHz phy"

definition loraTimeOnAir :: "int \<Rightarrow> nat \<Rightarrow> lora_phy \<Rightarrow> rat" where
  "loraTimeOnAir payloadBytes sf phy =
     (let tSym = symbol_time sf phy;
          de = (if tSym > 16 / 1000 then 1 else 0);
          ih = (if ph_explicitHeader phy then 0 else 1);
          crc = (if ph_crc phy then 1 else 0);
          cr = ph_codingRateDenom phy - 4;
          num = 8 * payloadBytes - 4 * int sf + 28 + 16 * crc - 20 * ih;
          nPayload = 8 + max (\<lceil>(of_int num :: rat) / of_int (4 * (int sf - 2 * de))\<rceil> * (cr + 4)) 0
      in (ph_preambleSymbols phy + 17/4 + of_int nPayload) * tSym)"

definition pathLossDb :: "maths \<Rightarrow> rat \<Rightarrow> rat \<Rightarrow> rat \<Rightarrow> rat" where
  "pathLossDb mt distanceM ex freqHz =
     (let d = max distanceM 1; fspl1m = 20 * mt_log10 mt freqHz + 20 * mt_log10 mt (4 * mt_pi mt / 299792458)
      in fspl1m + 10 * ex * mt_log10 mt d)"

record regulatory =
  rg_maxErpDbm :: rat
  rg_dutyCycle :: rat
  rg_centerFreqHz :: "rat option"
  rg_maxDwellS :: "rat option"

definition EU868_G1 :: regulatory where
  "EU868_G1 = \<lparr>rg_maxErpDbm = 14, rg_dutyCycle = 1 / 100, rg_centerFreqHz = None, rg_maxDwellS = None\<rparr>"

definition EU868_G3 :: regulatory where
  "EU868_G3 = \<lparr>rg_maxErpDbm = 27, rg_dutyCycle = 1 / 10, rg_centerFreqHz = None, rg_maxDwellS = None\<rparr>"

definition AU915 :: regulatory where
  "AU915 = \<lparr>rg_maxErpDbm = 2785 / 100, rg_dutyCycle = 1, rg_centerFreqHz = Some 920000000, rg_maxDwellS = Some (4 / 10)\<rparr>"

definition loraFreqHz :: "regulatory \<Rightarrow> rat" where
  "loraFreqHz reg = (case rg_centerFreqHz reg of Some f \<Rightarrow> f | None \<Rightarrow> 868000000)"

definition effectiveEirpDbm :: "rat \<Rightarrow> rat \<Rightarrow> regulatory \<Rightarrow> rat" where
  "effectiveEirpDbm txDbm antennaDbi reg = min (txDbm + antennaDbi) (rg_maxErpDbm reg + 215 / 100)"

section \<open>Devices and surroundings\<close>

datatype device_kind = BoxKind | PortableKind | CardKind | PhoneKind | RelayKind

record radio_profile =
  rp_lora :: bool
  rp_ble :: bool
  rp_wifi :: bool
  rp_txDbm :: rat
  rp_antennaDbi :: rat
  rp_bodyLossDb :: rat
  rp_bleTxDbm :: rat
  rp_wifiEirpDbm :: rat
  rp_heightAglM :: rat

definition KIND_DEFAULTS :: "device_kind \<Rightarrow> radio_profile" where
  "KIND_DEFAULTS k = (case k of
     BoxKind \<Rightarrow> \<lparr>rp_lora = True, rp_ble = True, rp_wifi = True, rp_txDbm = 22, rp_antennaDbi = 3, rp_bodyLossDb = 0, rp_bleTxDbm = 8, rp_wifiEirpDbm = 20, rp_heightAglM = 4\<rparr>
   | PortableKind \<Rightarrow> \<lparr>rp_lora = True, rp_ble = True, rp_wifi = True, rp_txDbm = 22, rp_antennaDbi = 0, rp_bodyLossDb = 2, rp_bleTxDbm = 8, rp_wifiEirpDbm = 20, rp_heightAglM = 3 / 2\<rparr>
   | CardKind \<Rightarrow> \<lparr>rp_lora = True, rp_ble = True, rp_wifi = False, rp_txDbm = 22, rp_antennaDbi = - 3, rp_bodyLossDb = 4, rp_bleTxDbm = 4, rp_wifiEirpDbm = 0, rp_heightAglM = 12 / 10\<rparr>
   | PhoneKind \<Rightarrow> \<lparr>rp_lora = False, rp_ble = True, rp_wifi = True, rp_txDbm = 0, rp_antennaDbi = 0, rp_bodyLossDb = 0, rp_bleTxDbm = 4, rp_wifiEirpDbm = 15, rp_heightAglM = 12 / 10\<rparr>
   | RelayKind \<Rightarrow> \<lparr>rp_lora = True, rp_ble = True, rp_wifi = False, rp_txDbm = 22, rp_antennaDbi = 3, rp_bodyLossDb = 0, rp_bleTxDbm = 4, rp_wifiEirpDbm = 0, rp_heightAglM = 6\<rparr>)"

record node_spec =
  nd_id :: string
  nd_kind :: device_kind
  nd_path :: "waypoint list"
  nd_heightAglM :: "rat option"
  nd_offFrom :: "rat option"

text \<open>\<open>en_terrain\<close>: the elevation of the ground, and the loss along the terrain between two points at a frequency.\<close>

record environment =
  ev_pathLossExponent :: rat
  ev_fadeMarginDb :: rat
  ev_obstructionDb :: "(string, rat) jsmap"
  ev_obstructionFn :: "(point3 \<Rightarrow> point3 \<Rightarrow> rat) option"
  ev_obstructionScale :: rat
  ev_interferenceDb :: rat
  ev_terrain :: "((rat \<Rightarrow> rat \<Rightarrow> rat) \<times> (point3 \<Rightarrow> point3 \<Rightarrow> rat \<Rightarrow> rat)) option"

text \<open>The order of strings is the one of the language, by code units.\<close>

fun string_less :: "string \<Rightarrow> string \<Rightarrow> bool" where
  "string_less [] bs \<longleftrightarrow> bs \<noteq> []"
| "string_less as [] \<longleftrightarrow> False"
| "string_less (a # as) (b # bs) \<longleftrightarrow> (of_char a :: nat) < of_char b \<or> a = b \<and> string_less as bs"

definition pairKey :: "string \<Rightarrow> string \<Rightarrow> string" where
  "pairKey a b = (if string_less a b then a @ ''|'' @ b else b @ ''|'' @ a)"

record short_range =
  sr_budget :: bool
  sr_bleRangeM :: rat
  sr_bleBps :: rat
  sr_wifiRangeM :: rat
  sr_wifiBps :: rat

definition DEFAULT_SHORT_RANGE :: short_range where
  "DEFAULT_SHORT_RANGE = \<lparr>sr_budget = False, sr_bleRangeM = 30, sr_bleBps = 200000, sr_wifiRangeM = 80, sr_wifiBps = 8000000\<rparr>"

definition BUDGET_SHORT_RANGE :: short_range where
  "BUDGET_SHORT_RANGE = DEFAULT_SHORT_RANGE\<lparr>sr_budget := True\<rparr>"

text \<open>Steps of the rate by the signal received; their labels are left out.\<close>

definition BLE_RATE_STEPS :: "(rat \<times> rat) list" where
  "BLE_RATE_STEPS = [(- 80, 1000000), (- 92, 300000), (- 97, 120000), (- 101, 40000)]"

definition WIFI_RATE_STEPS :: "(rat \<times> rat) list" where
  "WIFI_RATE_STEPS = [(- 64, 36000000), (- 66, 32000000), (- 70, 28000000), (- 74, 21000000), (- 77, 14000000), (- 79, 11000000), (- 81, 7000000), (- 82, 3500000), (- 90, 600000)]"

datatype radio_medium = WifiMedium | BleMedium | LoraMedium

record link_state =
  lk_medium :: radio_medium
  lk_sf :: nat
  lk_rssiDbm :: "rat option"
  lk_marginDb :: "rat option"
  lk_rateBps :: rat

record radio_evaluation =
  re_applicable :: bool
  re_rssiDbm :: "rat option"
  re_rssiIsUpperBound :: bool
  re_link :: "link_state option"

record model_params =
  mp_env :: environment
  mp_reg :: regulatory
  mp_phy :: lora_phy
  mp_shortRange :: short_range
  mp_loraFrameBytes :: int
  mp_loraFrameOverheadBytes :: int
  mp_protocolOverhead :: rat
  mp_channelEfficiency :: rat
  mp_maxSf :: nat

section \<open>Frames\<close>

text \<open>The largest payload whose time on air stays within the dwell time: the loop halves the interval between one that fits and one that does not.\<close>

function widest :: "(int \<Rightarrow> bool) \<Rightarrow> int \<Rightarrow> int \<Rightarrow> int" where
  "widest fits lo hi = (if hi - lo > 1 then let mid = (lo + hi) div 2 in if fits mid then widest fits mid hi else widest fits lo mid else lo)"
  by auto
termination by (relation "measure (\<lambda>(fits, lo, hi). nat (hi - lo))") auto

declare widest.simps [simp del]

definition loraFrameBytesFor :: "nat \<Rightarrow> model_params \<Rightarrow> int" where
  "loraFrameBytesFor sf p =
     (if mp_loraFrameBytes p \<le> mp_loraFrameOverheadBytes p then 0
      else case rg_maxDwellS (mp_reg p) of
        None \<Rightarrow> mp_loraFrameBytes p
      | Some dwell \<Rightarrow>
          if loraTimeOnAir (mp_loraFrameBytes p) sf (mp_phy p) \<le> dwell then mp_loraFrameBytes p
          else let lo = mp_loraFrameOverheadBytes p + 1 in
            if loraTimeOnAir lo sf (mp_phy p) > dwell then 0
            else widest (\<lambda>n. loraTimeOnAir n sf (mp_phy p) \<le> dwell) lo (mp_loraFrameBytes p))"

definition loraAppBytesPerFrame :: "model_params \<Rightarrow> nat option \<Rightarrow> rat" where
  "loraAppBytesPerFrame p sf =
     (let frame = (case sf of None \<Rightarrow> mp_loraFrameBytes p | Some sf \<Rightarrow> loraFrameBytesFor sf p)
      in of_int (max 0 (frame - mp_loraFrameOverheadBytes p)) / mp_protocolOverhead p)"

definition loraRawAppBps :: "nat \<Rightarrow> model_params \<Rightarrow> rat" where
  "loraRawAppBps sf p = (let frame = loraFrameBytesFor sf p in
     if frame = 0 then 0 else 8 * loraAppBytesPerFrame p (Some sf) / loraTimeOnAir frame sf (mp_phy p))"

definition loraDutyLimitedAppBps :: "nat \<Rightarrow> model_params \<Rightarrow> rat" where
  "loraDutyLimitedAppBps sf p = loraRawAppBps sf p * rg_dutyCycle (mp_reg p)"

section \<open>Links\<close>

definition ISM24_FREQ_HZ :: rat where "ISM24_FREQ_HZ = 2440000000"

definition baseLossDb :: "maths \<Rightarrow> node_spec \<Rightarrow> point3 \<Rightarrow> node_spec \<Rightarrow> point3 \<Rightarrow> model_params \<Rightarrow> rat \<Rightarrow> rat \<Rightarrow> rat" where
  "baseLossDb mt a pa b pb p freqHz extraLossDb =
     (let env = mp_env p;
          obstruction = ((case map_of (ev_obstructionDb env) (pairKey (nd_id a) (nd_id b)) of Some d \<Rightarrow> d | None \<Rightarrow> 0)
            + (case ev_obstructionFn env of Some f \<Rightarrow> f pa pb | None \<Rightarrow> 0)) * ev_obstructionScale env
      in pathLossDb mt (distance3 mt pa pb) (ev_pathLossExponent env) freqHz + obstruction + ev_interferenceDb env + extraLossDb)"

definition rssiWithTerrain :: "rat \<Rightarrow> rat \<Rightarrow> point3 \<Rightarrow> point3 \<Rightarrow> model_params \<Rightarrow> rat \<Rightarrow> rat \<times> bool" where
  "rssiWithTerrain rssiNoTerrain bestThresholdDbm pa pb p freqHz = (case ev_terrain (mp_env p) of
     None \<Rightarrow> (rssiNoTerrain, False)
   | Some (_, terrainLossDb) \<Rightarrow>
       if rssiNoTerrain - ev_fadeMarginDb (mp_env p) < bestThresholdDbm then (rssiNoTerrain, True)
       else (rssiNoTerrain - terrainLossDb pa pb freqHz, False))"

definition no_link :: "bool \<Rightarrow> radio_evaluation" where
  "no_link applicable = \<lparr>re_applicable = applicable, re_rssiDbm = None, re_rssiIsUpperBound = False, re_link = None\<rparr>"

definition margin_at :: "model_params \<Rightarrow> rat \<Rightarrow> rat \<Rightarrow> rat" where
  "margin_at p rssi threshold = rssi - ev_fadeMarginDb (mp_env p) - threshold"

text \<open>The spreading factors that may be used, in the order in which they are tried.\<close>

definition allowed_factors :: "model_params \<Rightarrow> nat list" where
  "allowed_factors p = filter (\<lambda>sf. sf \<le> mp_maxSf p \<and> loraFrameBytesFor sf p > 0) SPREADING_FACTORS"

fun first_factor :: "model_params \<Rightarrow> rat \<Rightarrow> nat list \<Rightarrow> link_state option" where
  "first_factor p rssi [] = None"
| "first_factor p rssi (sf # sfs) =
     (let margin = margin_at p rssi (SX1262_SENSITIVITY_125K sf) in
      if margin \<ge> 0 then Some \<lparr>lk_medium = LoraMedium, lk_sf = sf, lk_rssiDbm = Some rssi, lk_marginDb = Some margin, lk_rateBps = loraRawAppBps sf p\<rparr>
      else first_factor p rssi sfs)"

definition evaluateLora :: "maths \<Rightarrow> node_spec \<Rightarrow> point3 \<Rightarrow> node_spec \<Rightarrow> point3 \<Rightarrow> model_params \<Rightarrow> rat \<Rightarrow> radio_evaluation" where
  "evaluateLora mt a pa b pb p extraLossDb =
     (let da = KIND_DEFAULTS (nd_kind a); db = KIND_DEFAULTS (nd_kind b) in
      if \<not> rp_lora da \<or> \<not> rp_lora db then no_link False
      else let eirpA = effectiveEirpDbm (rp_txDbm da) (rp_antennaDbi da) (mp_reg p);
               eirpB = effectiveEirpDbm (rp_txDbm db) (rp_antennaDbi db) (mp_reg p);
               weakest = min (eirpA + rp_antennaDbi db) (eirpB + rp_antennaDbi da);
               allowed = allowed_factors p in
        if allowed = [] then no_link True
        else let bestSens = SX1262_SENSITIVITY_125K (last allowed);
                 (rssi, upperBound) = rssiWithTerrain
                   (weakest - rp_bodyLossDb da - rp_bodyLossDb db - baseLossDb mt a pa b pb p (loraFreqHz (mp_reg p)) extraLossDb)
                   bestSens pa pb p (loraFreqHz (mp_reg p))
             in \<lparr>re_applicable = True, re_rssiDbm = Some rssi, re_rssiIsUpperBound = upperBound, re_link = first_factor p rssi allowed\<rparr>)"

fun stepLink :: "radio_medium \<Rightarrow> rat \<Rightarrow> model_params \<Rightarrow> (rat \<times> rat) list \<Rightarrow> link_state option" where
  "stepLink medium rssi p [] = None"
| "stepLink medium rssi p ((minRssiDbm, bps) # steps) =
     (let margin = margin_at p rssi minRssiDbm in
      if margin \<ge> 0 then Some \<lparr>lk_medium = medium, lk_sf = 0, lk_rssiDbm = Some rssi, lk_marginDb = Some margin, lk_rateBps = bps\<rparr>
      else stepLink medium rssi p steps)"

definition fixed_link :: "radio_medium \<Rightarrow> bool \<Rightarrow> rat \<Rightarrow> radio_evaluation" where
  "fixed_link medium ok bps = \<lparr>re_applicable = True, re_rssiDbm = None, re_rssiIsUpperBound = False,
     re_link = (if ok then Some \<lparr>lk_medium = medium, lk_sf = 0, lk_rssiDbm = None, lk_marginDb = None, lk_rateBps = bps\<rparr> else None)\<rparr>"

definition evaluateBle :: "maths \<Rightarrow> node_spec \<Rightarrow> point3 \<Rightarrow> node_spec \<Rightarrow> point3 \<Rightarrow> model_params \<Rightarrow> rat \<Rightarrow> radio_evaluation" where
  "evaluateBle mt a pa b pb p extraLossDb =
     (let da = KIND_DEFAULTS (nd_kind a); db = KIND_DEFAULTS (nd_kind b) in
      if \<not> rp_ble da \<or> \<not> rp_ble db then no_link False
      else if \<not> sr_budget (mp_shortRange p) then fixed_link BleMedium (distance3 mt pa pb \<le> sr_bleRangeM (mp_shortRange p)) (sr_bleBps (mp_shortRange p))
      else let (rssi, upperBound) = rssiWithTerrain
                 (min (rp_bleTxDbm da) (rp_bleTxDbm db) - rp_bodyLossDb da - rp_bodyLossDb db - baseLossDb mt a pa b pb p ISM24_FREQ_HZ extraLossDb)
                 (fst (last BLE_RATE_STEPS)) pa pb p ISM24_FREQ_HZ
           in \<lparr>re_applicable = True, re_rssiDbm = Some rssi, re_rssiIsUpperBound = upperBound, re_link = stepLink BleMedium rssi p BLE_RATE_STEPS\<rparr>)"

definition access_point :: "device_kind \<Rightarrow> bool" where
  "access_point k \<longleftrightarrow> k = BoxKind \<or> k = PortableKind"

definition evaluateWifi :: "maths \<Rightarrow> node_spec \<Rightarrow> point3 \<Rightarrow> node_spec \<Rightarrow> point3 \<Rightarrow> model_params \<Rightarrow> rat \<Rightarrow> radio_evaluation" where
  "evaluateWifi mt a pa b pb p extraLossDb =
     (let da = KIND_DEFAULTS (nd_kind a); db = KIND_DEFAULTS (nd_kind b); apInvolved = access_point (nd_kind a) \<or> access_point (nd_kind b) in
      if \<not> rp_wifi da \<or> \<not> rp_wifi db \<or> \<not> apInvolved then no_link False
      else if \<not> sr_budget (mp_shortRange p) then fixed_link WifiMedium (distance3 mt pa pb \<le> sr_wifiRangeM (mp_shortRange p)) (sr_wifiBps (mp_shortRange p))
      else let (rssi, upperBound) = rssiWithTerrain
                 (min (rp_wifiEirpDbm da) (rp_wifiEirpDbm db) - rp_bodyLossDb da - rp_bodyLossDb db - baseLossDb mt a pa b pb p ISM24_FREQ_HZ extraLossDb)
                 (fst (last WIFI_RATE_STEPS)) pa pb p ISM24_FREQ_HZ
           in \<lparr>re_applicable = True, re_rssiDbm = Some rssi, re_rssiIsUpperBound = upperBound, re_link = stepLink WifiMedium rssi p WIFI_RATE_STEPS\<rparr>)"

definition loraLink :: "maths \<Rightarrow> node_spec \<Rightarrow> point3 \<Rightarrow> node_spec \<Rightarrow> point3 \<Rightarrow> model_params \<Rightarrow> rat \<Rightarrow> link_state option" where
  "loraLink mt a pa b pb p extraLossDb = re_link (evaluateLora mt a pa b pb p extraLossDb)"

fun faster_link :: "link_state option \<Rightarrow> link_state option \<Rightarrow> link_state option" where
  "faster_link best None = best"
| "faster_link None (Some l) = Some l"
| "faster_link (Some b) (Some l) = (if lk_rateBps l > lk_rateBps b then Some l else Some b)"

definition bestLink :: "maths \<Rightarrow> node_spec \<Rightarrow> point3 \<Rightarrow> node_spec \<Rightarrow> point3 \<Rightarrow> model_params \<Rightarrow> rat \<Rightarrow> link_state option" where
  "bestLink mt a pa b pb p extraLossDb =
     foldl (\<lambda>best ev. faster_link best (re_link (ev mt a pa b pb p extraLossDb))) None [evaluateWifi, evaluateBle, evaluateLora]"

section \<open>The links of a moment\<close>

text \<open>\<open>None\<close> is the exception for a node with an empty path.\<close>

definition nodePosition :: "node_spec \<Rightarrow> rat \<Rightarrow> environment \<Rightarrow> point3 option" where
  "nodePosition n t env = map_option (\<lambda>q. case (ev_terrain env, nd_heightAglM n) of
       (Some (elevationAt, _), Some h) \<Rightarrow> q\<lparr>p3_z := elevationAt (p3_x q) (p3_y q) + h\<rparr>
     | _ \<Rightarrow> q) (positionAt (nd_path n) t)"

definition isOn :: "node_spec \<Rightarrow> rat \<Rightarrow> bool" where
  "isOn n t = (case nd_offFrom n of None \<Rightarrow> True | Some off \<Rightarrow> t < off)"

definition linkAirtimeCost :: "model_params \<Rightarrow> link_state \<Rightarrow> rat" where
  "linkAirtimeCost p link = (if lk_medium link = LoraMedium
     then loraTimeOnAir (loraFrameBytesFor (lk_sf link) p) (lk_sf link) (mp_phy p) / loraAppBytesPerFrame p (Some (lk_sf link)) * loraAppBytesPerFrame p None
     else 8 * of_int (mp_loraFrameBytes p) / lk_rateBps link)"

record snapshot_link = sl_a :: string sl_b :: string sl_link :: link_state

fun node_pairs :: "'a list \<Rightarrow> ('a \<times> 'a) list" where
  "node_pairs [] = []"
| "node_pairs (x # xs) = map (Pair x) xs @ node_pairs xs"

definition link_of_pair :: "maths \<Rightarrow> model_params \<Rightarrow> rat \<Rightarrow> rat \<Rightarrow> (node_spec \<times> point3) \<times> (node_spec \<times> point3) \<Rightarrow> snapshot_link list" where
  "link_of_pair mt p t extraLossDb ab = (case ab of ((a, pa), (b, pb)) \<Rightarrow>
     if isOn a t \<and> isOn b t then (case bestLink mt a pa b pb p extraLossDb of Some l \<Rightarrow> [\<lparr>sl_a = nd_id a, sl_b = nd_id b, sl_link = l\<rparr>] | None \<Rightarrow> []) else [])"

definition snapshotLinks :: "maths \<Rightarrow> (node_spec \<times> point3) list \<Rightarrow> rat \<Rightarrow> model_params \<Rightarrow> rat \<Rightarrow> snapshot_link list" where
  "snapshotLinks mt placed t p extraLossDb = concat (map (link_of_pair mt p t extraLossDb) (node_pairs placed))"

section \<open>Time on air and the largest frame\<close>

definition usual_phy :: "lora_phy \<Rightarrow> bool" where
  "usual_phy phy \<longleftrightarrow> 0 < ph_bandwidthHz phy \<and> 0 \<le> ph_codingRateDenom phy \<and> 0 \<le> ph_preambleSymbols phy"

lemma symbol_time_pos: "usual_phy phy \<Longrightarrow> 0 < symbol_time sf phy"
  by (simp add: usual_phy_def symbol_time_def)

lemma loraTimeOnAir_mono:
  assumes "usual_phy phy" "2 < sf" "m \<le> n"
  shows "loraTimeOnAir m sf phy \<le> loraTimeOnAir n sf phy"
proof -
  let ?de = "if symbol_time sf phy > 16 / 1000 then 1 else 0 :: int" and ?cr = "ph_codingRateDenom phy"
  define num where "num k = 8 * k - 4 * int sf + 28 + 16 * (if ph_crc phy then 1 else 0) - 20 * (if ph_explicitHeader phy then 0 else 1)" for k
  define d where "d = 4 * (int sf - 2 * ?de)"
  have d: "0 < d" using assms(2) by (auto simp: d_def)
  have q: "\<lceil>(of_int (num m) :: rat) / of_int d\<rceil> \<le> \<lceil>(of_int (num n) :: rat) / of_int d\<rceil>"
    by (rule ceiling_mono) (use d assms(3) in \<open>simp add: divide_right_mono num_def\<close>)
  have t: "loraTimeOnAir k sf phy = (ph_preambleSymbols phy + 17/4 + of_int (8 + max (\<lceil>(of_int (num k) :: rat) / of_int d\<rceil> * ?cr) 0)) * symbol_time sf phy" for k
    by (simp add: loraTimeOnAir_def Let_def num_def d_def)
  have "max (\<lceil>(of_int (num m) :: rat) / of_int d\<rceil> * ?cr) 0 \<le> max (\<lceil>(of_int (num n) :: rat) / of_int d\<rceil> * ?cr) 0"
    using q assms(1) by (intro max.mono mult_right_mono) (simp_all add: usual_phy_def)
  then have "(of_int (8 + max (\<lceil>(of_int (num m) :: rat) / of_int d\<rceil> * ?cr) 0) :: rat) \<le> of_int (8 + max (\<lceil>(of_int (num n) :: rat) / of_int d\<rceil> * ?cr) 0)"
    unfolding of_int_le_iff by simp
  then show ?thesis unfolding t using symbol_time_pos[OF assms(1), of sf] by (intro mult_right_mono) simp_all
qed

lemma loraTimeOnAir_pos:
  assumes "usual_phy phy"
  shows "0 < loraTimeOnAir n sf phy"
proof -
  have "loraTimeOnAir n sf phy = (ph_preambleSymbols phy + 17/4 + of_int (8 + max z 0)) * symbol_time sf phy" if
    "z = \<lceil>(of_int (8 * n - 4 * int sf + 28 + 16 * (if ph_crc phy then 1 else 0) - 20 * (if ph_explicitHeader phy then 0 else 1)) :: rat) /
        of_int (4 * (int sf - 2 * (if symbol_time sf phy > 16 / 1000 then 1 else 0)))\<rceil> * ph_codingRateDenom phy" for z
    unfolding that by (simp add: loraTimeOnAir_def Let_def)
  moreover have "0 < ph_preambleSymbols phy + 17/4 + of_int (8 + max z 0)" for z
  proof -
    have "(0 :: rat) \<le> of_int (max z 0)" unfolding of_int_0_le_iff by simp
    moreover have "0 \<le> ph_preambleSymbols phy" using assms by (simp add: usual_phy_def)
    ultimately show ?thesis unfolding of_int_add of_int_numeral by linarith
  qed
  ultimately show ?thesis using symbol_time_pos[OF assms, of sf] by simp
qed

lemma widest_between:
  assumes "fits lo" "\<not> fits hi" "lo < hi"
  shows "lo \<le> widest fits lo hi \<and> widest fits lo hi < hi \<and> fits (widest fits lo hi) \<and> \<not> fits (widest fits lo hi + 1)"
  using assms
proof (induction fits lo hi rule: widest.induct)
  case (1 fits lo hi)
  show ?case
  proof (cases "hi - lo > 1")
    case True
    define mid where "mid = (lo + hi) div 2"
    have mid: "lo < mid" "mid < hi" using True by (simp_all add: mid_def)
    show ?thesis
    proof (cases "fits mid")
      case True
      have "widest fits lo hi = widest fits mid hi" using \<open>hi - lo > 1\<close> True by (subst widest.simps) (simp add: mid_def Let_def)
      then show ?thesis using "1.IH"(1)[OF \<open>hi - lo > 1\<close> mid_def True True "1.prems"(2) mid(2)] mid by auto
    next
      case False
      have "widest fits lo hi = widest fits lo mid" using \<open>hi - lo > 1\<close> False by (subst widest.simps) (simp add: mid_def Let_def)
      then show ?thesis using "1.IH"(2)[OF \<open>hi - lo > 1\<close> mid_def False "1.prems"(1) False mid(1)] mid by auto
    qed
  next
    case False
    then have "hi = lo + 1" using "1.prems"(3) by simp
    then show ?thesis using "1.prems" by (subst (1 2 3 4) widest.simps) simp
  qed
qed

definition allowed_frames :: "nat \<Rightarrow> model_params \<Rightarrow> int set" where
  "allowed_frames sf p = {n. mp_loraFrameOverheadBytes p < n \<and> n \<le> mp_loraFrameBytes p \<and>
     (case rg_maxDwellS (mp_reg p) of None \<Rightarrow> True | Some dwell \<Rightarrow> loraTimeOnAir n sf (mp_phy p) \<le> dwell)}"

text \<open>The frame for a spreading factor is the largest one that the dwell time of the band allows, and none if not even one useful byte fits.\<close>

theorem frame_bytes_maximal:
  assumes "usual_phy (mp_phy p)" "2 < sf" "0 \<le> mp_loraFrameOverheadBytes p" "mp_loraFrameOverheadBytes p < mp_loraFrameBytes p"
  shows "if allowed_frames sf p = {} then loraFrameBytesFor sf p = 0
    else loraFrameBytesFor sf p \<in> allowed_frames sf p \<and> (\<forall>n \<in> allowed_frames sf p. n \<le> loraFrameBytesFor sf p)"
proof (cases "rg_maxDwellS (mp_reg p)")
  case None
  then show ?thesis using assms(3,4) by (auto simp: allowed_frames_def loraFrameBytesFor_def)
next
  case (Some dwell)
  let ?t = "\<lambda>n. loraTimeOnAir n sf (mp_phy p)" and ?lo = "mp_loraFrameOverheadBytes p + 1" and ?hi = "mp_loraFrameBytes p"
  note mono = loraTimeOnAir_mono[OF assms(1,2)]
  have allowed: "n \<in> allowed_frames sf p \<longleftrightarrow> ?lo \<le> n \<and> n \<le> ?hi \<and> ?t n \<le> dwell" for n using Some by (auto simp: allowed_frames_def)
  consider "?t ?hi \<le> dwell" | "dwell < ?t ?hi" "dwell < ?t ?lo" | "dwell < ?t ?hi" "?t ?lo \<le> dwell" by linarith
  then show ?thesis
  proof cases
    case 1
    then have "loraFrameBytesFor sf p = ?hi" using Some assms(4) by (simp add: loraFrameBytesFor_def)
    moreover have "?hi \<in> allowed_frames sf p" "\<forall>n \<in> allowed_frames sf p. n \<le> ?hi" using 1 assms(4) by (simp_all add: allowed)
    ultimately show ?thesis by auto
  next
    case 2
    then have f: "loraFrameBytesFor sf p = 0" using Some assms(4) by (simp add: loraFrameBytesFor_def)
    have "n \<notin> allowed_frames sf p" for n using mono[of ?lo n] 2 by (auto simp: allowed)
    then show ?thesis using f by auto
  next
    case 3
    define n where "n = widest (\<lambda>n. ?t n \<le> dwell) ?lo ?hi"
    have f: "loraFrameBytesFor sf p = n" using 3 Some assms(4) by (simp add: loraFrameBytesFor_def n_def)
    have "?lo < ?hi" using 3 assms(4) by (cases "?lo = ?hi") auto
    then have n: "?lo \<le> n" "n < ?hi" "?t n \<le> dwell" "dwell < ?t (n + 1)" using widest_between[of "\<lambda>n. ?t n \<le> dwell" ?lo ?hi] 3 by (auto simp: n_def)
    have "k \<le> n" if "?t k \<le> dwell" for k using mono[of "n + 1" k] n(4) that by linarith
    moreover have "n \<in> allowed_frames sf p" using n by (simp add: allowed)
    ultimately show ?thesis using f by (auto simp: allowed)
  qed
qed

text \<open>In Australia a frame of 26 bytes at the spreading factor 10 would be on the air for too long: 24 bytes are what the dwell time allows.\<close>

definition australian :: model_params where
  "australian = \<lparr>mp_env = \<lparr>ev_pathLossExponent = 2, ev_fadeMarginDb = 10, ev_obstructionDb = [], ev_obstructionFn = None, ev_obstructionScale = 1, ev_interferenceDb = 0, ev_terrain = None\<rparr>,
     mp_reg = AU915, mp_phy = DEFAULT_PHY, mp_shortRange = DEFAULT_SHORT_RANGE, mp_loraFrameBytes = 26, mp_loraFrameOverheadBytes = 22,
     mp_protocolOverhead = 2, mp_channelEfficiency = 1 / 2, mp_maxSf = 12\<rparr>"

lemma frame_bytes_maximal_witness: "loraFrameBytesFor 10 australian = 24 \<and> (\<forall>n \<in> allowed_frames 10 australian. n \<le> 24)"
proof -
  let ?fits = "\<lambda>n. loraTimeOnAir n 10 DEFAULT_PHY \<le> 4 / 10"
  have t: "?fits 23" "?fits 24" "\<not> ?fits 25" "\<not> ?fits 26" by code_simp+
  have "widest ?fits 23 26 \<in> {23, 24, 25}" using widest_between[of ?fits 23 26] t by auto
  then have "widest ?fits 23 26 = 24" using widest_between[of ?fits 23 26] t by auto
  then have v: "loraFrameBytesFor 10 australian = 24" using t by (simp add: loraFrameBytesFor_def australian_def AU915_def)
  have "if allowed_frames 10 australian = {} then loraFrameBytesFor 10 australian = 0
    else loraFrameBytesFor 10 australian \<in> allowed_frames 10 australian \<and> (\<forall>n \<in> allowed_frames 10 australian. n \<le> loraFrameBytesFor 10 australian)"
    by (rule frame_bytes_maximal) (simp_all add: australian_def usual_phy_def DEFAULT_PHY_def)
  then show ?thesis using v by (auto split: if_split_asm)
qed

section \<open>Links\<close>

text \<open>What is the same for a pair of nodes in either order, if what the scenario supplies is.\<close>

definition symmetric_world :: "maths \<Rightarrow> model_params \<Rightarrow> bool" where
  "symmetric_world mt p \<longleftrightarrow> (\<forall>x y z. mt_hypot mt (- x) (- y) (- z) = mt_hypot mt x y z) \<and>
     (\<forall>f a b. ev_obstructionFn (mp_env p) = Some f \<longrightarrow> f a b = f b a) \<and>
     (\<forall>e l a b h. ev_terrain (mp_env p) = Some (e, l) \<longrightarrow> l a b h = l b a h)"

lemma string_less_total: "a \<noteq> b \<Longrightarrow> string_less a b \<longleftrightarrow> \<not> string_less b a"
proof (induction a b rule: string_less.induct)
  case (1 bs)
  then show ?case by (cases bs) auto
qed auto

lemma pairKey_sym: "pairKey a b = pairKey b a"
  using string_less_total[of a b] by (cases "a = b") (auto simp: pairKey_def)

lemma distance3_sym: "symmetric_world mt p \<Longrightarrow> distance3 mt a b = distance3 mt b a"
  unfolding distance3_def symmetric_world_def by (metis minus_diff_eq)

lemma baseLossDb_sym: "symmetric_world mt p \<Longrightarrow> baseLossDb mt a pa b pb p f x = baseLossDb mt b pb a pa p f x"
  unfolding baseLossDb_def Let_def using distance3_sym[of mt p pa pb] pairKey_sym[of "nd_id a" "nd_id b"]
  by (auto simp: symmetric_world_def split: option.split)

lemma rssiWithTerrain_sym: "symmetric_world mt p \<Longrightarrow> rssiWithTerrain r th pa pb p f = rssiWithTerrain r th pb pa p f"
  unfolding rssiWithTerrain_def by (auto simp: symmetric_world_def split: option.split)

text \<open>A link is the same in both directions, for every radio.\<close>

theorem links_reciprocal:
  assumes "symmetric_world mt p"
  shows "bestLink mt a pa b pb p x = bestLink mt b pb a pa p x"
proof -
  note s = baseLossDb_sym[OF assms, of a pa b pb] distance3_sym[OF assms, of pa pb]
  have m: "min u v - c - d = min v u - d - c" for u v c d :: rat by (simp add: min.commute)
  let ?A = "KIND_DEFAULTS (nd_kind a)" and ?B = "KIND_DEFAULTS (nd_kind b)"
  let ?ea = "effectiveEirpDbm (rp_txDbm ?A) (rp_antennaDbi ?A) (mp_reg p) + rp_antennaDbi ?B" and ?eb = "effectiveEirpDbm (rp_txDbm ?B) (rp_antennaDbi ?B) (mp_reg p) + rp_antennaDbi ?A"
  have "evaluateLora mt a pa b pb p x = evaluateLora mt b pb a pa p x"
    unfolding evaluateLora_def Let_def s rssiWithTerrain_sym[OF assms, of _ _ pa pb] m[of ?ea ?eb "rp_bodyLossDb ?A" "rp_bodyLossDb ?B"] by (simp add: disj_commute)
  moreover have "evaluateBle mt a pa b pb p x = evaluateBle mt b pb a pa p x"
    unfolding evaluateBle_def Let_def s rssiWithTerrain_sym[OF assms, of _ _ pa pb] m[of "rp_bleTxDbm ?A" "rp_bleTxDbm ?B" "rp_bodyLossDb ?A" "rp_bodyLossDb ?B"] by (simp add: disj_commute)
  moreover have "evaluateWifi mt a pa b pb p x = evaluateWifi mt b pb a pa p x"
    unfolding evaluateWifi_def Let_def s rssiWithTerrain_sym[OF assms, of _ _ pa pb] m[of "rp_wifiEirpDbm ?A" "rp_wifiEirpDbm ?B" "rp_bodyLossDb ?A" "rp_bodyLossDb ?B"] by auto
  ultimately show ?thesis by (simp add: bestLink_def)
qed

text \<open>The spreading factor of a link is the lowest one that the signal and the settings allow.\<close>

lemma first_factor_lowest:
  assumes "first_factor p rssi sfs = Some l"
  shows "\<exists>below above. sfs = below @ lk_sf l # above \<and> (\<forall>u \<in> set below. margin_at p rssi (SX1262_SENSITIVITY_125K u) < 0) \<and>
     0 \<le> margin_at p rssi (SX1262_SENSITIVITY_125K (lk_sf l)) \<and> lk_medium l = LoraMedium \<and> lk_rateBps l = loraRawAppBps (lk_sf l) p"
  using assms
proof (induction sfs)
  case (Cons sf sfs)
  show ?case
  proof (cases "0 \<le> margin_at p rssi (SX1262_SENSITIVITY_125K sf)")
    case True
    then show ?thesis using Cons.prems by (intro exI[of _ "[]"] exI[of _ sfs]) (auto simp: Let_def)
  next
    case False
    then obtain below above where "sfs = below @ lk_sf l # above \<and> (\<forall>u \<in> set below. margin_at p rssi (SX1262_SENSITIVITY_125K u) < 0) \<and>
        0 \<le> margin_at p rssi (SX1262_SENSITIVITY_125K (lk_sf l)) \<and> lk_medium l = LoraMedium \<and> lk_rateBps l = loraRawAppBps (lk_sf l) p"
      using Cons by (auto simp: Let_def)
    then show ?thesis using False by (intro exI[of _ "sf # below"] exI[of _ above]) auto
  qed
qed simp

lemma first_factor_None: "first_factor p rssi sfs = None \<longleftrightarrow> (\<forall>sf \<in> set sfs. margin_at p rssi (SX1262_SENSITIVITY_125K sf) < 0)"
  by (induction sfs) (auto simp: Let_def not_le)

lemma allowed_factors_sorted: "sorted_wrt (<) (allowed_factors p)" "\<forall>sf \<in> set (allowed_factors p). 7 \<le> sf \<and> sf \<le> 12 \<and> 0 < loraFrameBytesFor sf p"
  by (simp_all add: allowed_factors_def SPREADING_FACTORS_def sorted_wrt_filter)

lemma evaluateLora_link:
  assumes "re_link (evaluateLora mt a pa b pb p x) = Some l"
  shows "lk_medium l = LoraMedium \<and> lk_sf l \<in> set (allowed_factors p)"
proof -
  obtain rssi where "first_factor p rssi (allowed_factors p) = Some l"
    using assms by (auto simp: evaluateLora_def Let_def no_link_def split: if_split_asm prod.splits)
  then show ?thesis using first_factor_lowest by fastforce
qed

definition closing_links :: "maths \<Rightarrow> node_spec \<Rightarrow> point3 \<Rightarrow> node_spec \<Rightarrow> point3 \<Rightarrow> model_params \<Rightarrow> rat \<Rightarrow> link_state set" where
  "closing_links mt a pa b pb p x = {l. \<exists>ev \<in> {evaluateWifi, evaluateBle, evaluateLora}. re_link (ev mt a pa b pb p x) = Some l}"

text \<open>The link of a pair is the fastest of those that its radios can close, and there is none only if none of them can.\<close>

theorem best_link_fastest:
  "case bestLink mt a pa b pb p x of None \<Rightarrow> closing_links mt a pa b pb p x = {}
   | Some l \<Rightarrow> l \<in> closing_links mt a pa b pb p x \<and> (\<forall>l' \<in> closing_links mt a pa b pb p x. lk_rateBps l' \<le> lk_rateBps l)"
proof -
  define w where "w = re_link (evaluateWifi mt a pa b pb p x)"
  define e where "e = re_link (evaluateBle mt a pa b pb p x)"
  define r where "r = re_link (evaluateLora mt a pa b pb p x)"
  have c: "closing_links mt a pa b pb p x = {l. w = Some l \<or> e = Some l \<or> r = Some l}" by (auto simp: closing_links_def w_def e_def r_def)
  have "bestLink mt a pa b pb p x = faster_link (faster_link (faster_link None w) e) r" by (simp add: bestLink_def w_def e_def r_def)
  then show ?thesis unfolding c by (cases w; cases e; cases r) (auto split: if_splits)
qed

end
