(* ===== verification/ShortestPaths.thy ===== *)
theory ShortestPaths
  imports Prelude
begin

text \<open>
  The cheapest ways to the destinations (\<open>dijkstra\<close> of \<open>tools/scenario-model/model.ts\<close>): all roots start at zero, the nearest node that is not
  done is looked for by a scan of the table in its insertion order, and its links are relaxed. The loop ends because every turn finishes a node of the table.
\<close>

section \<open>The algorithm\<close>

type_synonym ('a, 'e) weighted = "('a, ('a \<times> 'e) list) jsmap"

definition out_links :: "('a, 'e) weighted \<Rightarrow> 'a \<Rightarrow> ('a \<times> 'e) list" where
  "out_links adj v = (case map_of adj v of Some es \<Rightarrow> es | None \<Rightarrow> [])"

definition closer :: "'a list \<Rightarrow> ('a \<times> rat) option \<Rightarrow> 'a \<times> rat \<Rightarrow> ('a \<times> rat) option" where
  "closer fin cur nd = (if fst nd \<notin> set fin \<and> (case cur of None \<Rightarrow> True | Some c \<Rightarrow> snd nd < snd c) then Some nd else cur)"

definition pick :: "'a list \<Rightarrow> ('a, rat) jsmap \<Rightarrow> ('a \<times> rat) option" where
  "pick fin ds = foldl (closer fin) None ds"

text \<open>The distance of \<open>cur\<close> is read again for every link.\<close>

definition relax_link :: "('e \<Rightarrow> rat) \<Rightarrow> 'a \<Rightarrow> ('a, rat) jsmap \<Rightarrow> 'a \<times> 'e \<Rightarrow> ('a, rat) jsmap" where
  "relax_link cost cur ds nl = (case map_of ds cur of None \<Rightarrow> ds
   | Some d \<Rightarrow> let nd = d + cost (snd nl) in
       if (case map_of ds (fst nl) of None \<Rightarrow> True | Some old \<Rightarrow> nd < old) then map_put (fst nl) nd ds else ds)"

definition relax :: "('a, 'e) weighted \<Rightarrow> ('e \<Rightarrow> rat) \<Rightarrow> 'a \<Rightarrow> ('a, rat) jsmap \<Rightarrow> ('a, rat) jsmap" where
  "relax adj cost cur ds = foldl (relax_link cost cur) ds (out_links adj cur)"

lemma closer_in:
  "foldl (closer fin) acc ds = Some nd \<Longrightarrow> acc = Some nd \<or> nd \<in> set ds \<and> fst nd \<notin> set fin"
  by (induction ds arbitrary: acc) (fastforce simp: closer_def split: if_splits)+

lemma pick_in: "pick fin ds = Some nd \<Longrightarrow> nd \<in> set ds \<and> fst nd \<notin> set fin"
  using closer_in[of fin None ds nd] by (simp add: pick_def)

definition open_nodes :: "('a, 'e) weighted \<Rightarrow> 'a list \<Rightarrow> ('a, rat) jsmap \<Rightarrow> 'a set" where
  "open_nodes adj fin ds = (fst ` set ds \<union> \<Union> (set ` map fst ` snd ` set adj)) - set fin"

lemma out_links_in: "fst ` set (out_links adj v) \<subseteq> \<Union> (set ` map fst ` snd ` set adj)"
proof (cases "map_of adj v")
  case (Some es)
  from map_of_SomeD[OF this] show ?thesis by (force simp: out_links_def Some)
qed (simp add: out_links_def)

lemma relax_keys: "fst ` set (foldl (relax_link cost cur) ds nls) \<subseteq> fst ` set ds \<union> fst ` set nls"
proof (induction nls arbitrary: ds)
  case (Cons nl nls)
  have "fst ` set (relax_link cost cur ds nl) \<subseteq> insert (fst nl) (fst ` set ds)"
    by (auto simp: relax_link_def Let_def dom_map_of_conv_image_fst[symmetric] split: option.splits)
  then show ?case using Cons.IH[of "relax_link cost cur ds nl"] unfolding foldl_Cons list.set image_insert by blast
qed simp

function dijkstra_loop :: "('a, 'e) weighted \<Rightarrow> ('e \<Rightarrow> rat) \<Rightarrow> 'a list \<Rightarrow> ('a, rat) jsmap \<Rightarrow> ('a, rat) jsmap" where
  "dijkstra_loop adj cost fin ds = (case pick fin ds of
     None \<Rightarrow> ds
   | Some cur \<Rightarrow> dijkstra_loop adj cost (fst cur # fin) (relax adj cost (fst cur) ds))"
  by auto
termination
proof (relation "measure (\<lambda>(adj, cost, fin, ds). card (open_nodes adj fin ds))")
  fix adj :: "('a, 'e) weighted" and cost fin ds and cur :: "'a \<times> rat"
  assume p: "pick fin ds = Some cur"
  have "open_nodes adj (fst cur # fin) (relax adj cost (fst cur) ds) \<subseteq> open_nodes adj fin ds - {fst cur}"
  proof -
    let ?T = "\<Union> (set ` map fst ` snd ` set adj)"
    have "fst ` set (relax adj cost (fst cur) ds) \<subseteq> fst ` set ds \<union> ?T"
      using subset_trans[OF relax_keys[of cost "fst cur" ds "out_links adj (fst cur)"] Un_mono[OF subset_refl out_links_in]] by (simp add: relax_def)
    then show ?thesis unfolding open_nodes_def list.set(2) by blast
  qed
  moreover have "fst cur \<in> open_nodes adj fin ds" using pick_in[OF p] by (auto simp: open_nodes_def)
  moreover have "finite (open_nodes adj fin ds)" by (simp add: open_nodes_def)
  ultimately show "((adj, cost, fst cur # fin, relax adj cost (fst cur) ds), adj, cost, fin, ds) \<in> measure (\<lambda>(adj, cost, fin, ds). card (open_nodes adj fin ds))"
    by (simp, metis card_Diff1_less card_mono finite_Diff order_le_less_trans)
qed simp

declare dijkstra_loop.simps [simp del]

definition dijkstra :: "('a, 'e) weighted \<Rightarrow> 'a list \<Rightarrow> ('e \<Rightarrow> rat) \<Rightarrow> ('a, rat) jsmap" where
  "dijkstra adj roots cost = dijkstra_loop adj cost [] (foldl (\<lambda>ds r. map_put r 0 ds) [] roots)"

section \<open>Walks\<close>

inductive cost_walk :: "('a, 'e) weighted \<Rightarrow> ('e \<Rightarrow> rat) \<Rightarrow> rat \<Rightarrow> 'a \<Rightarrow> 'a \<Rightarrow> bool" for adj cost where
  stay: "cost_walk adj cost 0 s s"
| go: "cost_walk adj cost c s u \<Longrightarrow> (v, e) \<in> set (out_links adj u) \<Longrightarrow> cost_walk adj cost (c + cost e) s v"

definition costs_ok :: "('a, 'e) weighted \<Rightarrow> ('e \<Rightarrow> rat) \<Rightarrow> bool" where
  "costs_ok adj cost \<longleftrightarrow> (\<forall>u v e. (v, e) \<in> set (out_links adj u) \<longrightarrow> 0 \<le> cost e)"

section \<open>One turn\<close>

lemma closer_least:
  assumes "foldl (closer fin) acc ds = Some nd" "\<forall>a. acc = Some a \<longrightarrow> fst a \<notin> set fin"
  shows "(\<forall>v d. (v, d) \<in> set ds \<longrightarrow> v \<notin> set fin \<longrightarrow> snd nd \<le> d) \<and> (\<forall>a. acc = Some a \<longrightarrow> snd nd \<le> snd a)"
  using assms
proof (induction ds arbitrary: acc)
  case (Cons x ds)
  have "\<forall>a. closer fin acc x = Some a \<longrightarrow> fst a \<notin> set fin" using Cons.prems(2) by (auto simp: closer_def split: if_splits)
  from Cons.IH[OF _ this] Cons.prems(1) have ih: "\<forall>v d. (v, d) \<in> set ds \<longrightarrow> v \<notin> set fin \<longrightarrow> snd nd \<le> d" "\<forall>a. closer fin acc x = Some a \<longrightarrow> snd nd \<le> snd a" by auto
  have "\<exists>b. closer fin acc x = Some b \<and> snd b \<le> snd x" if "fst x \<notin> set fin" using that by (cases acc; cases x) (auto simp: closer_def)
  then have "snd nd \<le> snd x" if "fst x \<notin> set fin" using ih(2) that by (meson order_trans)
  moreover have "\<exists>b. closer fin acc x = Some b \<and> snd b \<le> snd a" if "acc = Some a" for a using that by (cases x; cases a) (auto simp: closer_def)
  then have "snd nd \<le> snd a" if a: "acc = Some a" for a
  proof -
    obtain b where "closer fin acc x = Some b" "snd b \<le> snd a" using \<open>\<And>a. acc = Some a \<Longrightarrow> \<exists>b. closer fin acc x = Some b \<and> snd b \<le> snd a\<close>[OF a] by blast
    then show ?thesis using ih(2) by (meson order_trans)
  qed
  ultimately show ?case using ih(1) by auto
qed simp

lemma closer_None: "foldl (closer fin) acc ds = None \<longleftrightarrow> acc = None \<and> (\<forall>nd \<in> set ds. fst nd \<in> set fin)"
proof (induction ds arbitrary: acc)
  case (Cons x ds)
  then show ?case by (cases acc) (auto simp: closer_def)
qed simp

lemma pick_least: "pick fin ds = Some nd \<Longrightarrow> (v, d) \<in> set ds \<Longrightarrow> v \<notin> set fin \<Longrightarrow> snd nd \<le> d"
  using closer_least[of fin None ds nd] by (auto simp: pick_def)

lemma pick_None: "pick fin ds = None \<longleftrightarrow> fst ` set ds \<subseteq> set fin"
  by (auto simp: pick_def closer_None)

text \<open>The relaxation of some links of a node: distances only shrink, to a way through that node, and every link is taken account of.\<close>

definition relaxed :: "('e \<Rightarrow> rat) \<Rightarrow> rat \<Rightarrow> ('a, rat) jsmap \<Rightarrow> ('a \<times> 'e) list \<Rightarrow> ('a, rat) jsmap \<Rightarrow> bool" where
  "relaxed cost d ds nls ds' \<longleftrightarrow>
     (\<forall>v x. map_of ds' v = Some x \<longrightarrow> map_of ds v = Some x \<or> (\<exists>e. (v, e) \<in> set nls \<and> x = d + cost e)) \<and>
     (\<forall>v x. map_of ds v = Some x \<longrightarrow> (\<exists>x'. map_of ds' v = Some x' \<and> x' \<le> x)) \<and>
     (\<forall>(w, e) \<in> set nls. \<exists>x. map_of ds' w = Some x \<and> x \<le> d + cost e) \<and>
     (\<forall>v x. map_of ds v = Some x \<longrightarrow> x \<le> d \<longrightarrow> map_of ds' v = Some x)"

lemma relax_links:
  assumes "map_of ds cur = Some d" "\<forall>(w, e) \<in> set nls. 0 \<le> cost e" "map_wf ds"
  shows "relaxed cost d ds nls (foldl (relax_link cost cur) ds nls) \<and> map_wf (foldl (relax_link cost cur) ds nls)"
  using assms
proof (induction nls arbitrary: ds)
  case (Cons nl nls)
  obtain w e where nl: "nl = (w, e)" by (cases nl)
  define ds1 where "ds1 = relax_link cost cur ds nl"
  have e: "0 \<le> cost e" using Cons.prems(2) nl by auto
  have ds1: "map_of ds1 v = (if v = w \<and> (case map_of ds w of None \<Rightarrow> True | Some old \<Rightarrow> d + cost e < old) then Some (d + cost e) else map_of ds v)" for v
    using Cons.prems(1) by (auto simp: ds1_def relax_link_def nl Let_def split: option.split)
  have wf: "map_wf ds1" using Cons.prems(3) by (auto simp: ds1_def relax_link_def Let_def split: option.split)
  have cur: "map_of ds1 cur = Some d" using Cons.prems(1) e by (auto simp: ds1)
  from Cons.IH[OF cur _ wf] Cons.prems(2) have ih: "relaxed cost d ds1 nls (foldl (relax_link cost cur) ds1 nls)" "map_wf (foldl (relax_link cost cur) ds1 nls)" by auto
  have "relaxed cost d ds (nl # nls) (foldl (relax_link cost cur) ds1 nls)"
    unfolding relaxed_def
  proof (intro conjI allI impI ballI)
    fix v x assume "map_of (foldl (relax_link cost cur) ds1 nls) v = Some x"
    then have "map_of ds1 v = Some x \<or> (\<exists>e. (v, e) \<in> set nls \<and> x = d + cost e)" using ih(1) by (simp add: relaxed_def)
    then show "map_of ds v = Some x \<or> (\<exists>e. (v, e) \<in> set (nl # nls) \<and> x = d + cost e)" by (auto simp: ds1 nl split: if_splits)
  next
    fix v x assume v: "map_of ds v = Some x"
    then have "\<exists>x1. map_of ds1 v = Some x1 \<and> x1 \<le> x" by (auto simp: ds1 split: option.split)
    then obtain x1 where "map_of ds1 v = Some x1" "x1 \<le> x" by blast
    then show "\<exists>x'. map_of (foldl (relax_link cost cur) ds1 nls) v = Some x' \<and> x' \<le> x" using ih(1) unfolding relaxed_def by (meson order_trans)
  next
    fix we assume "we \<in> set (nl # nls)"
    then consider "we = (w, e)" | "we \<in> set nls" using nl by auto
    then show "case we of (w, e) \<Rightarrow> \<exists>x. map_of (foldl (relax_link cost cur) ds1 nls) w = Some x \<and> x \<le> d + cost e"
    proof cases
      case 1
      have "\<exists>x1. map_of ds1 w = Some x1 \<and> x1 \<le> d + cost e" by (auto simp: ds1 not_less split: option.split)
      then obtain x1 where "map_of ds1 w = Some x1" "x1 \<le> d + cost e" by blast
      then show ?thesis using ih(1) 1 unfolding relaxed_def by (auto intro: order_trans) (meson order_trans)
    next
      case 2
      then show ?thesis using ih(1) unfolding relaxed_def by blast
    qed
  next
    fix v x assume v: "map_of ds v = Some x" "x \<le> d"
    then have "map_of ds1 v = Some x" using e by (auto simp: ds1)
    then show "map_of (foldl (relax_link cost cur) ds1 nls) v = Some x" using ih(1) v(2) unfolding relaxed_def by blast
  qed
  then show ?case using ih(2) by (simp add: ds1_def)
qed (auto simp: relaxed_def)

section \<open>All turns\<close>

definition dijkstra_inv :: "('a, 'e) weighted \<Rightarrow> ('e \<Rightarrow> rat) \<Rightarrow> 'a set \<Rightarrow> 'a list \<Rightarrow> ('a, rat) jsmap \<Rightarrow> bool" where
  "dijkstra_inv adj cost roots fin ds \<longleftrightarrow> map_wf ds \<and> (\<forall>u \<in> set fin. \<exists>d. map_of ds u = Some d) \<and>
     (\<forall>s \<in> roots. \<exists>d. map_of ds s = Some d \<and> d \<le> 0) \<and>
     (\<forall>v d. map_of ds v = Some d \<longrightarrow> (\<exists>s \<in> roots. cost_walk adj cost d s v)) \<and>
     (\<forall>u d w e. u \<in> set fin \<longrightarrow> map_of ds u = Some d \<longrightarrow> (w, e) \<in> set (out_links adj u) \<longrightarrow> (\<exists>x. map_of ds w = Some x \<and> x \<le> d + cost e)) \<and>
     (\<forall>u d v x. u \<in> set fin \<longrightarrow> map_of ds u = Some d \<longrightarrow> v \<notin> set fin \<longrightarrow> map_of ds v = Some x \<longrightarrow> d \<le> x)"

lemma dijkstra_turn:
  assumes inv: "dijkstra_inv adj cost roots fin ds" and costs: "costs_ok adj cost" and p: "pick fin ds = Some (cur, d)"
  shows "dijkstra_inv adj cost roots (cur # fin) (relax adj cost cur ds)"
proof -
  let ?ds = "relax adj cost cur ds"
  have wf: "map_wf ds" using inv by (simp add: dijkstra_inv_def)
  have cur: "map_of ds cur = Some d" "cur \<notin> set fin" using pick_in[OF p] wf by (auto simp: map_of_set_wf)
  have least: "d \<le> x" if "map_of ds v = Some x" "v \<notin> set fin" for v x using pick_least[OF p, of v x] that by (auto dest: map_of_SomeD)
  have r: "relaxed cost d ds (out_links adj cur) ?ds" "map_wf ?ds" using relax_links[OF cur(1), of "out_links adj cur" cost] wf costs by (auto simp: relax_def costs_ok_def)
  have fin: "\<exists>x. map_of ds u = Some x \<and> x \<le> d" if u: "u \<in> set fin" for u
  proof -
    obtain x where x: "map_of ds u = Some x" using inv u unfolding dijkstra_inv_def by blast
    have "\<forall>u d v x. u \<in> set fin \<longrightarrow> map_of ds u = Some d \<longrightarrow> v \<notin> set fin \<longrightarrow> map_of ds v = Some x \<longrightarrow> d \<le> x" using inv unfolding dijkstra_inv_def by (elim conjE)
    then have "x \<le> d" using u x cur by blast
    then show ?thesis using x by blast
  qed
  have same: "\<exists>x. x \<le> d \<and> map_of ds u = Some x \<and> map_of ?ds u = Some x" if "u \<in> insert cur (set fin)" for u
  proof -
    have "\<exists>x. map_of ds u = Some x \<and> x \<le> d" using that fin[of u] cur(1) by (cases "u = cur") auto
    then obtain x where "map_of ds u = Some x" "x \<le> d" by blast
    then show ?thesis using r(1) unfolding relaxed_def by blast
  qed
  have new: "map_of ds v = Some x \<or> (\<exists>e. (v, e) \<in> set (out_links adj cur) \<and> x = d + cost e)" if "map_of ?ds v = Some x" for v x
    using r(1) that unfolding relaxed_def by blast
  have less: "\<exists>x'. map_of ?ds v = Some x' \<and> x' \<le> x" if "map_of ds v = Some x" for v x
    using r(1) that unfolding relaxed_def by blast
  show ?thesis
    unfolding dijkstra_inv_def
  proof (intro conjI allI ballI impI)
    show "map_wf ?ds" by (rule r(2))
  next
    fix u assume "u \<in> set (cur # fin)"
    then show "\<exists>d. map_of ?ds u = Some d" using same by auto
  next
    fix s assume "s \<in> roots"
    then obtain x where "map_of ds s = Some x" "x \<le> 0" using inv unfolding dijkstra_inv_def by blast
    then show "\<exists>d. map_of ?ds s = Some d \<and> d \<le> 0" using less by (meson order_trans)
  next
    fix v x assume v: "map_of ?ds v = Some x"
    show "\<exists>s \<in> roots. cost_walk adj cost x s v"
    proof (cases "map_of ds v = Some x")
      case True
      then show ?thesis using inv unfolding dijkstra_inv_def by blast
    next
      case False
      then obtain e where e: "(v, e) \<in> set (out_links adj cur)" "x = d + cost e" using new[OF v] by blast
      obtain s where "s \<in> roots" "cost_walk adj cost d s cur" using inv cur(1) unfolding dijkstra_inv_def by blast
      then show ?thesis using e by (auto intro: cost_walk.go)
    qed
  next
    fix u y w e assume u: "u \<in> set (cur # fin)" "map_of ?ds u = Some y" "(w, e) \<in> set (out_links adj u)"
    show "\<exists>x. map_of ?ds w = Some x \<and> x \<le> y + cost e"
    proof (cases "u = cur")
      case True
      then have "y = d" using same[of cur] u(2) cur(1) by auto
      then show ?thesis using r(1) u(3) True unfolding relaxed_def by auto
    next
      case False
      then have "map_of ds u = Some y" "u \<in> set fin" using same[of u] u by auto
      then obtain x where "map_of ds w = Some x" "x \<le> y + cost e" using inv u(3) unfolding dijkstra_inv_def by blast
      then show ?thesis using less by (meson order_trans)
    qed
  next
    fix u y v x assume u: "u \<in> set (cur # fin)" "map_of ?ds u = Some y" "v \<notin> set (cur # fin)" "map_of ?ds v = Some x"
    have "y \<le> d" using same[of u] u(1,2) by auto
    moreover have "d \<le> x" using new[OF u(4)] least[of v x] u(3) costs by (auto simp: costs_ok_def)
    ultimately show "y \<le> x" by simp
  qed
qed

lemma dijkstra_loop_inv:
  assumes "dijkstra_inv adj cost roots fin ds" "costs_ok adj cost"
  shows "\<exists>fin'. dijkstra_inv adj cost roots fin' (dijkstra_loop adj cost fin ds) \<and> fst ` set (dijkstra_loop adj cost fin ds) \<subseteq> set fin'"
  using assms
proof (induction adj cost fin ds rule: dijkstra_loop.induct)
  case (1 adj cost fin ds)
  show ?case
  proof (cases "pick fin ds")
    case None
    then have "dijkstra_loop adj cost fin ds = ds" by (subst dijkstra_loop.simps) simp
    then show ?thesis using "1.prems" None by (auto simp: pick_None)
  next
    case (Some nd)
    have "dijkstra_loop adj cost fin ds = dijkstra_loop adj cost (fst nd # fin) (relax adj cost (fst nd) ds)" using Some by (subst dijkstra_loop.simps) simp
    then show ?thesis using "1.IH"[OF Some] dijkstra_turn[OF "1.prems"(1,2)] Some by (cases nd) (simp add: "1.prems")
  qed
qed

text \<open>C20: The algorithm computes exactly the cost of the cheapest walk from a root, for every node that a walk reaches and for no other.\<close>

theorem dijkstra_exact:
  assumes "costs_ok adj cost"
  shows "map_of (dijkstra adj roots cost) v = Some d \<longleftrightarrow>
    (\<exists>s \<in> set roots. cost_walk adj cost d s v) \<and> (\<forall>c. \<forall>s \<in> set roots. cost_walk adj cost c s v \<longrightarrow> d \<le> c)"
proof -
  have start: "map_of (foldl (\<lambda>ds r. map_put r 0 ds) a rs) v = (if v \<in> set rs then Some 0 else map_of a v)" for a :: "('a, rat) jsmap" and rs v
    by (induction rs arbitrary: a) auto
  have wf: "map_wf a \<Longrightarrow> map_wf (foldl (\<lambda>ds r. map_put r (0 :: rat) ds) a rs)" for a :: "('a, rat) jsmap" and rs
    by (induction rs arbitrary: a) auto
  have "dijkstra_inv adj cost (set roots) [] (foldl (\<lambda>ds r. map_put r 0 ds) [] roots)"
    by (auto simp: dijkstra_inv_def start wf split: if_splits intro: cost_walk.stay)
  from dijkstra_loop_inv[OF this assms] obtain fin where inv: "dijkstra_inv adj cost (set roots) fin (dijkstra adj roots cost)"
    and all: "fst ` set (dijkstra adj roots cost) \<subseteq> set fin" unfolding dijkstra_def by blast
  have complete: "\<exists>x. map_of (dijkstra adj roots cost) v = Some x \<and> x \<le> c" if "cost_walk adj cost c s v" "s \<in> set roots" for c s v
    using that
  proof (induction rule: cost_walk.induct)
    case (stay s)
    then show ?case using inv unfolding dijkstra_inv_def by blast
  next
    case (go c s u v e)
    then obtain x where x: "map_of (dijkstra adj roots cost) u = Some x" "x \<le> c" by blast
    then have "u \<in> set fin" using all by (metis fst_conv image_eqI map_of_SomeD subsetD)
    then obtain y where "map_of (dijkstra adj roots cost) v = Some y" "y \<le> x + cost e" using inv x(1) go.hyps(2) unfolding dijkstra_inv_def by blast
    then show ?case using x(2) by (auto intro: order_trans)
  qed
  have sound: "\<exists>s \<in> set roots. cost_walk adj cost x s v" if "map_of (dijkstra adj roots cost) v = Some x" for x
    using inv that unfolding dijkstra_inv_def by blast
  show ?thesis
  proof
    assume "map_of (dijkstra adj roots cost) v = Some d"
    then show "(\<exists>s \<in> set roots. cost_walk adj cost d s v) \<and> (\<forall>c. \<forall>s \<in> set roots. cost_walk adj cost c s v \<longrightarrow> d \<le> c)"
      using sound complete by fastforce
  next
    assume r: "(\<exists>s \<in> set roots. cost_walk adj cost d s v) \<and> (\<forall>c. \<forall>s \<in> set roots. cost_walk adj cost c s v \<longrightarrow> d \<le> c)"
    then obtain x where x: "map_of (dijkstra adj roots cost) v = Some x" "x \<le> d" using complete by blast
    then show "map_of (dijkstra adj roots cost) v = Some d" using sound r by force
  qed
qed

definition sample_ways :: "(nat, rat) weighted" where
  "sample_ways = [(1, [(2, 5), (3, 1)]), (2, []), (3, [(2, 1)])]"

lemma dijkstra_exact_witness:
  "map_of (dijkstra sample_ways [1] id) 2 = Some 2 \<and> cost_walk sample_ways id 2 1 2 \<and> \<not> cost_walk sample_ways id 1 1 2"
proof -
  have "costs_ok sample_ways id" by (auto simp: costs_ok_def out_links_def sample_ways_def split: if_splits)
  moreover have d: "map_of (dijkstra sample_ways [1] id) 2 = Some 2" by code_simp
  ultimately have "cost_walk sample_ways id 2 1 2" "\<forall>c. cost_walk sample_ways id c 1 2 \<longrightarrow> 2 \<le> c"
    using dijkstra_exact[of sample_ways id "[1]" 2 2] by auto
  then show ?thesis using d by fastforce
qed

end
