(* ===== verification/Simulator.thy ===== *)
theory Simulator
  imports RadioModel ShortestPaths
begin

text \<open>
  The simulator of a network in time (\<open>simulate\<close> of \<open>tools/scenario-model/model.ts\<close>): at every step the nodes with data hand it to their neighbours, within
  the duty cycle of each, the air time of the shared channel and the capacity of the short links, the more urgent messages first. The links of a moment come from
  \<open>RadioModel\<close>. The tables of the code are insertion-ordered maps, the ones with two keys over pairs; its memo tables of distances are left out (their keys join the ids by commas, so the ids are taken to have none). \<open>None\<close> in a step is
  the exception for a node without a path or an id that is no node's.
\<close>

section \<open>A scenario\<close>

record sim_message =
  ms_id :: string
  ms_sizeBytes :: rat
  ms_priority :: rat
  ms_source :: string
  ms_destinations :: "string list"
  ms_createdAt :: rat

text \<open>A time to live of \<open>None\<close> is \<open>Infinity\<close>.\<close>

record sim_options =
  so_nodes :: "node_spec list"
  so_messages :: "sim_message list"
  so_params :: model_params
  so_horizonS :: rat
  so_stepS :: rat
  so_custody :: bool
  so_relayCarryTtlS :: "(rat \<Rightarrow> rat option) option"
  so_extraLossDb :: "(rat \<Rightarrow> rat) option"
  so_airtimeMetric :: bool

definition ARALD_QUEUE_TTL_S :: "rat \<Rightarrow> rat option" where
  "ARALD_QUEUE_TTL_S priority = (if priority = 0 then None else Some 300)"

definition LEGACY_QUEUE_TTL_S :: "rat \<Rightarrow> rat option" where
  "LEGACY_QUEUE_TTL_S priority = (if priority = 0 then Some 1800 else Some 300)"

record sim_state =
  ss_held :: "(string \<times> string, rat) jsmap"
  ss_isolatedSince :: "(string, rat) jsmap"
  ss_dropped :: "string list"
  ss_delivered :: "(string, rat) jsmap"
  ss_reachedAt :: "(string \<times> string, rat) jsmap"
  ss_airtime :: "(string, rat) jsmap"
  ss_bucket :: "(string, rat) jsmap"
  ss_channelCredit :: rat
  ss_instantCount :: "(string, nat) jsmap"
  ss_linkSnapshots :: "(rat \<times> snapshot_link list) list"
  ss_steps :: nat
  ss_shortBudget :: "(string, rat) jsmap"
  ss_loraBlocked :: "string list"

definition get_or :: "rat \<Rightarrow> ('k, rat) jsmap \<Rightarrow> 'k \<Rightarrow> rat" where
  "get_or d m k = (case map_of m k of Some v \<Rightarrow> v | None \<Rightarrow> d)"

definition bar_key :: "string \<Rightarrow> string \<Rightarrow> string" where
  "bar_key node msg = node @ ''|'' @ msg"

definition byId :: "sim_options \<Rightarrow> (string \<times> node_spec) list" where
  "byId opts = rev (map (\<lambda>n. (nd_id n, n)) (so_nodes opts))"

definition is_on_id :: "sim_options \<Rightarrow> rat \<Rightarrow> string \<Rightarrow> bool option" where
  "is_on_id opts t d = map_option (\<lambda>n. isOn n t) (map_of (byId opts) d)"

fun fold_opt :: "('x \<Rightarrow> 's \<Rightarrow> 's option) \<Rightarrow> 'x list \<Rightarrow> 's \<Rightarrow> 's option" where
  "fold_opt f [] s = Some s"
| "fold_opt f (x # xs) s = (case f x s of None \<Rightarrow> None | Some s' \<Rightarrow> fold_opt f xs s')"

section \<open>The beginning\<close>

definition bucket_cap :: "sim_options \<Rightarrow> rat" where
  "bucket_cap opts = rg_dutyCycle (mp_reg (so_params opts)) * 3600"

definition channel_credit_cap :: "sim_options \<Rightarrow> rat" where
  "channel_credit_cap opts = so_stepS opts * mp_channelEfficiency (so_params opts) + 2 * loraTimeOnAir (mp_loraFrameBytes (so_params opts)) 12 (mp_phy (so_params opts))"

definition arrow :: "string \<Rightarrow> string \<Rightarrow> string" where
  "arrow s d = s @ ''->'' @ d"

definition sim_pairs :: "sim_options \<Rightarrow> string list" where
  "sim_pairs opts = rev (remdups (rev (concat (map (\<lambda>m. map (arrow (ms_source m)) (ms_destinations m)) (so_messages opts)))))"

definition sim_start :: "sim_options \<Rightarrow> sim_state" where
  "sim_start opts = \<lparr>ss_held = [], ss_isolatedSince = [], ss_dropped = [], ss_delivered = [], ss_reachedAt = [],
     ss_airtime = foldl (\<lambda>a m. map_put (ms_id m) 0 a) [] (so_messages opts),
     ss_bucket = foldl (\<lambda>b n. map_put (nd_id n) (bucket_cap opts) b) [] (so_nodes opts), ss_channelCredit = 0,
     ss_instantCount = map (\<lambda>k. (k, 0)) (sim_pairs opts), ss_linkSnapshots = [], ss_steps = 0, ss_shortBudget = [], ss_loraBlocked = []\<rparr>"

section \<open>A step: what is there\<close>

definition create_message :: "sim_options \<Rightarrow> rat \<Rightarrow> sim_message \<Rightarrow> sim_state \<Rightarrow> sim_state option" where
  "create_message opts t m st =
     (if ms_createdAt m \<le> t \<and> t < ms_createdAt m + so_stepS opts
      then map_option (\<lambda>on. if on then st\<lparr>ss_held := map_put (ms_source m, ms_id m) (ms_sizeBytes m) (ss_held st)\<rparr> else st) (is_on_id opts t (ms_source m))
      else Some st)"

definition refill :: "sim_options \<Rightarrow> sim_state \<Rightarrow> sim_state" where
  "refill opts st = st\<lparr>ss_bucket := foldl (\<lambda>b n. map_put (nd_id n) (min (bucket_cap opts) (get_or 0 b (nd_id n) + rg_dutyCycle (mp_reg (so_params opts)) * so_stepS opts)) b)
     (ss_bucket st) (so_nodes opts)\<rparr>"

fun placed_nodes :: "node_spec list \<Rightarrow> rat \<Rightarrow> environment \<Rightarrow> (node_spec \<times> point3) list option" where
  "placed_nodes [] t env = Some []"
| "placed_nodes (n # ns) t env = (case nodePosition n t env of None \<Rightarrow> None | Some q \<Rightarrow> map_option ((#) (n, q)) (placed_nodes ns t env))"

type_synonym adj_table = "(string, (string \<times> link_state) list) jsmap"

definition push_link :: "string \<Rightarrow> string \<times> link_state \<Rightarrow> adj_table \<Rightarrow> adj_table" where
  "push_link a bl adj = map_put a (out_links adj a @ [bl]) adj"

definition link_table :: "node_spec list \<Rightarrow> snapshot_link list \<Rightarrow> adj_table" where
  "link_table nodes links = foldl (\<lambda>adj l. push_link (sl_b l) (sl_a l, sl_link l) (push_link (sl_a l) (sl_b l, sl_link l) adj))
     (foldl (\<lambda>adj n. map_put (nd_id n) [] adj) [] nodes) links"

text \<open>The table without the links: \<open>plainAdj\<close>.\<close>

definition plain_adjacency :: "adj_table \<Rightarrow> string adjacency" where
  "plain_adjacency adj = map (\<lambda>(v, es). (v, map fst es)) adj"

definition bfsHops :: "string adjacency \<Rightarrow> string list \<Rightarrow> (string, nat) jsmap" where
  "bfsHops adj roots = hop_search adj roots"

text \<open>\<open>k.split("->")\<close>\<close>

fun split_arrow :: "string \<Rightarrow> string \<Rightarrow> string list" where
  "split_arrow part (a # b # s) = (if a = CHR ''-'' \<and> b = CHR ''>'' then part # split_arrow [] s else split_arrow (part @ [a]) (b # s))"
| "split_arrow part s = [part @ s]"

definition count_connected :: "adj_table \<Rightarrow> (string, nat) jsmap \<Rightarrow> (string, nat) jsmap" where
  "count_connected adj counts = map (\<lambda>(k, c). (k, case split_arrow [] k of
       s # d # _ \<Rightarrow> if map_of (bfsHops (plain_adjacency adj) [s]) d \<noteq> None then c + 1 else c
     | _ \<Rightarrow> c)) counts"

definition on_the_half_hour :: "rat \<Rightarrow> bool" where
  "on_the_half_hour t \<longleftrightarrow> t = 1800 * of_int \<lfloor>t / 1800\<rfloor>"

section \<open>A step: who gets what\<close>

definition give :: "sim_options \<Rightarrow> rat \<Rightarrow> sim_message \<Rightarrow> string list \<Rightarrow> string \<Rightarrow> rat \<Rightarrow> sim_state \<Rightarrow> sim_state" where
  "give opts t m pending nb bytes st =
     (let newHeld = get_or 0 (ss_held st) (nb, ms_id m) + bytes;
          st1 = st\<lparr>ss_held := map_put (nb, ms_id m) newHeld (ss_held st)\<rparr>
      in if nb \<in> set pending \<and> newHeld \<ge> ms_sizeBytes m - 1 / 1000000 \<and> map_of (ss_reachedAt st1) (ms_id m, nb) = None
         then let reached = map_put (ms_id m, nb) (t + so_stepS opts) (ss_reachedAt st1);
                  st2 = st1\<lparr>ss_reachedAt := reached\<rparr>
              in if list_all (\<lambda>d. map_of reached (ms_id m, d) \<noteq> None) (ms_destinations m)
                 then st2\<lparr>ss_delivered := map_put (ms_id m) (t + so_stepS opts) (ss_delivered st2)\<rparr> else st2
         else st1)"

definition lora_bytes :: "sim_options \<Rightarrow> rat \<Rightarrow> sim_message \<Rightarrow> string list \<Rightarrow> string \<Rightarrow> string \<Rightarrow> nat \<Rightarrow> rat \<Rightarrow> sim_state \<Rightarrow> sim_state" where
  "lora_bytes opts t m pending sender nb sf want st =
     (if sender \<in> set (ss_loraBlocked st) then st
      else let p = so_params opts;
               frameApp = loraAppBytesPerFrame p (Some sf);
               toa = loraTimeOnAir (loraFrameBytesFor sf p) sf (mp_phy p);
               budgetS = min (get_or 0 (ss_bucket st) sender) (ss_channelCredit st);
               frames = min \<lfloor>budgetS / toa\<rfloor> \<lceil>want / frameApp\<rceil>
           in if frames \<le> 0 then st\<lparr>ss_loraBlocked := sender # ss_loraBlocked st\<rparr>
              else give opts t m pending nb (min want (of_int frames * frameApp))
                (st\<lparr>ss_bucket := map_put sender (get_or 0 (ss_bucket st) sender - of_int frames * toa) (ss_bucket st),
                    ss_channelCredit := ss_channelCredit st - of_int frames * toa,
                    ss_airtime := map_put (ms_id m) (get_or 0 (ss_airtime st) (ms_id m) + of_int frames * toa) (ss_airtime st)\<rparr>))"

definition short_bytes :: "sim_options \<Rightarrow> rat \<Rightarrow> sim_message \<Rightarrow> string list \<Rightarrow> string \<Rightarrow> string \<Rightarrow> rat \<Rightarrow> rat \<Rightarrow> sim_state \<Rightarrow> sim_state" where
  "short_bytes opts t m pending sender nb bps want st =
     (let key = pairKey sender nb; left = get_or (bps / 8 * so_stepS opts) (ss_shortBudget st) key; bytes = min want left
      in if bytes \<le> 0 then st
         else give opts t m pending nb bytes (st\<lparr>ss_shortBudget := map_put key (left - bytes) (ss_shortBudget st)\<rparr>))"

text \<open>A neighbour in the loop over the candidates; once the message is delivered the rest of the loop does nothing, as its \<open>break\<close>.\<close>

definition try_neighbour :: "sim_options \<Rightarrow> rat \<Rightarrow> sim_message \<Rightarrow> string list \<Rightarrow> string \<Rightarrow> rat \<Rightarrow> sim_state \<Rightarrow> string \<times> link_state \<Rightarrow> sim_state" where
  "try_neighbour opts t m pending sender have_bytes st nl = (case nl of (nb, link) \<Rightarrow>
     if map_of (ss_delivered st) (ms_id m) \<noteq> None then st
     else if bar_key nb (ms_id m) \<in> set (ss_dropped st) then st
     else let recvHeld = get_or 0 (ss_held st) (nb, ms_id m) in
       if recvHeld \<ge> have_bytes then st
       else if lk_medium link = LoraMedium then lora_bytes opts t m pending sender nb (lk_sf link) (have_bytes - recvHeld) st
       else short_bytes opts t m pending sender nb (lk_rateBps link) (have_bytes - recvHeld) st)"

definition link_rank :: "link_state \<Rightarrow> nat" where
  "link_rank l = (case lk_medium l of WifiMedium \<Rightarrow> 0 | BleMedium \<Rightarrow> 1 | LoraMedium \<Rightarrow> 1 + lk_sf l)"

definition edge_cost :: "sim_options \<Rightarrow> link_state \<Rightarrow> rat" where
  "edge_cost opts l = (if so_airtimeMetric opts then linkAirtimeCost (so_params opts) l else 1)"

text \<open>The candidates of a sender: with custody only the first neighbour on a cheapest way, if there is a way.\<close>

definition candidates :: "sim_options \<Rightarrow> adj_table \<Rightarrow> (string, rat) jsmap option \<Rightarrow> string \<Rightarrow> (string \<times> link_state) list" where
  "candidates opts adj cost sender = (case cost of
     None \<Rightarrow> out_links adj sender
   | Some c \<Rightarrow> (case map_of c sender of
       None \<Rightarrow> out_links adj sender
     | Some dSender \<Rightarrow> take 1 (sort_key (\<lambda>(nb, l). edge_cost opts l + get_or 0 c nb) (sort_key (\<lambda>(nb, l). link_rank l)
         (filter (\<lambda>(nb, l). case map_of c nb of None \<Rightarrow> False | Some d \<Rightarrow> d < dSender) (out_links adj sender))))))"

datatype carry = KeepCarrying | GiveUp

definition carry_check :: "sim_options \<Rightarrow> rat \<Rightarrow> sim_message \<Rightarrow> (string, nat) jsmap \<Rightarrow> string \<Rightarrow> sim_state \<Rightarrow> carry \<times> sim_state" where
  "carry_check opts t m reach sender st = (case so_relayCarryTtlS opts of
     None \<Rightarrow> (KeepCarrying, st)
   | Some ttl \<Rightarrow>
       if sender = ms_source m \<or> map_of (ss_reachedAt st) (ms_id m, sender) \<noteq> None then (KeepCarrying, st)
       else let key = bar_key sender (ms_id m) in
         if map_of reach sender \<noteq> None then (KeepCarrying, st\<lparr>ss_isolatedSince := map_del key (ss_isolatedSince st)\<rparr>)
         else let since = get_or t (ss_isolatedSince st) key;
                  st1 = st\<lparr>ss_isolatedSince := map_put key since (ss_isolatedSince st)\<rparr>
              in if (case ttl (ms_priority m) of None \<Rightarrow> False | Some limit \<Rightarrow> t - since > limit)
                 then (GiveUp, st1\<lparr>ss_held := map_del (sender, ms_id m) (ss_held st1), ss_dropped := key # ss_dropped st1\<rparr>)
                 else (KeepCarrying, st1))"

definition serve_sender :: "sim_options \<Rightarrow> rat \<Rightarrow> adj_table \<Rightarrow> (string \<times> string, rat) jsmap \<Rightarrow> sim_message \<Rightarrow> string list \<Rightarrow> (string, nat) jsmap
    \<Rightarrow> (string, rat) jsmap option \<Rightarrow> sim_state \<Rightarrow> node_spec \<Rightarrow> sim_state" where
  "serve_sender opts t adj startHeld m pending reach cost st sender =
     (if \<not> isOn sender t then st
      else let have_bytes = get_or 0 startHeld (nd_id sender, ms_id m) in
        if have_bytes = 0 then st
        else case carry_check opts t m reach (nd_id sender) st of
          (GiveUp, st1) \<Rightarrow> st1
        | (KeepCarrying, st1) \<Rightarrow> foldl (try_neighbour opts t m pending (nd_id sender) have_bytes) st1 (candidates opts adj cost (nd_id sender)))"

fun pending_of :: "sim_options \<Rightarrow> rat \<Rightarrow> sim_message \<Rightarrow> sim_state \<Rightarrow> string list \<Rightarrow> string list option" where
  "pending_of opts t m st [] = Some []"
| "pending_of opts t m st (d # ds) =
     (if map_of (ss_reachedAt st) (ms_id m, d) \<noteq> None then pending_of opts t m st ds
      else case is_on_id opts t d of None \<Rightarrow> None
        | Some on \<Rightarrow> map_option (\<lambda>r. if on then d # r else r) (pending_of opts t m st ds))"

definition serve_message :: "sim_options \<Rightarrow> rat \<Rightarrow> adj_table \<Rightarrow> (string \<times> string, rat) jsmap \<Rightarrow> sim_message \<Rightarrow> sim_state \<Rightarrow> sim_state option" where
  "serve_message opts t adj startHeld m st =
     (if ms_createdAt m > t \<or> map_of (ss_delivered st) (ms_id m) \<noteq> None then Some st
      else case pending_of opts t m st (ms_destinations m) of None \<Rightarrow> None
      | Some pending \<Rightarrow>
          if pending = [] then Some st
          else let reach = bfsHops (plain_adjacency adj) pending;
                   cost = (if \<not> so_custody opts then None
                     else if so_airtimeMetric opts then Some (dijkstra adj pending (linkAirtimeCost (so_params opts)))
                     else Some (map (\<lambda>(v, h). (v, of_nat h)) reach))
               in Some (foldl (serve_sender opts t adj startHeld m pending reach cost) st (so_nodes opts)))"

definition by_urgency :: "sim_message list \<Rightarrow> sim_message list" where
  "by_urgency ms = sort_key ms_priority (sort_key ms_createdAt ms)"

definition sim_step :: "maths \<Rightarrow> sim_options \<Rightarrow> rat \<Rightarrow> sim_state \<Rightarrow> sim_state option" where
  "sim_step mt opts t st =
     (case fold_opt (create_message opts t) (so_messages opts) (st\<lparr>ss_steps := ss_steps st + 1\<rparr>) of None \<Rightarrow> None
      | Some st1 \<Rightarrow>
     let st2 = refill opts st1; p = so_params opts in
     case placed_nodes (so_nodes opts) t (mp_env p) of None \<Rightarrow> None
     | Some placed \<Rightarrow>
     let links = snapshotLinks mt placed t p (case so_extraLossDb opts of None \<Rightarrow> 0 | Some f \<Rightarrow> f t);
         adj = link_table (so_nodes opts) links;
         st3 = st2\<lparr>ss_linkSnapshots := (if on_the_half_hour t then ss_linkSnapshots st2 @ [(t, links)] else ss_linkSnapshots st2),
                   ss_instantCount := count_connected adj (ss_instantCount st2),
                   ss_channelCredit := min (channel_credit_cap opts) (ss_channelCredit st2 + so_stepS opts * mp_channelEfficiency p),
                   ss_shortBudget := [], ss_loraBlocked := []\<rparr>
     in fold_opt (serve_message opts t adj (ss_held st3)) (by_urgency (so_messages opts)) st3)"

section \<open>The whole run\<close>

text \<open>\<open>None\<close> if the loop does not end, \<open>Some None\<close> for an exception.\<close>

partial_function (option) sim_loop :: "maths \<Rightarrow> sim_options \<Rightarrow> rat \<Rightarrow> sim_state \<Rightarrow> sim_state option option" where
  "sim_loop mt opts t st = (if t > so_horizonS opts then Some (Some st)
     else case sim_step mt opts t st of None \<Rightarrow> Some None | Some st' \<Rightarrow> sim_loop mt opts (t + so_stepS opts) st')"

record delivery_result =
  dr_messageId :: string
  dr_deliveredAt :: "rat option"
  dr_deliveredAtByDest :: "(string \<times> rat option) list"
  dr_bytesAtDestination :: "rat option"
  dr_loraAirtimeS :: rat

record sim_result =
  sr_deliveries :: "delivery_result list"
  sr_instantConnectivity :: "(string \<times> rat option) list"
  sr_linkSnapshots :: "(rat \<times> snapshot_link list) list"

text \<open>The bytes at the destinations are \<open>None\<close> for a message without any (the code has minus infinity), the connectivity \<open>None\<close> for a run without a step (\<open>NaN\<close>).\<close>

definition delivery_of :: "sim_state \<Rightarrow> sim_message \<Rightarrow> delivery_result" where
  "delivery_of st m = \<lparr>dr_messageId = ms_id m,
     dr_deliveredAt = map_option (\<lambda>x. x - ms_createdAt m) (map_of (ss_delivered st) (ms_id m)),
     dr_deliveredAtByDest = map (\<lambda>d. (d, map_option (\<lambda>x. x - ms_createdAt m) (map_of (ss_reachedAt st) (ms_id m, d)))) (ms_destinations m),
     dr_bytesAtDestination = (case map (\<lambda>d. get_or 0 (ss_held st) (d, ms_id m)) (ms_destinations m) of [] \<Rightarrow> None | b # bs \<Rightarrow> Some (min (foldl max b bs) (ms_sizeBytes m))),
     dr_loraAirtimeS = get_or 0 (ss_airtime st) (ms_id m)\<rparr>"

text \<open>The exception: a destination that is no node.\<close>

definition sim_report :: "sim_options \<Rightarrow> sim_state \<Rightarrow> sim_result option" where
  "sim_report opts st = (if \<exists>m \<in> set (so_messages opts). \<exists>d \<in> set (ms_destinations m). map_of (byId opts) d = None then None
     else Some \<lparr>sr_deliveries = map (delivery_of st) (so_messages opts),
       sr_instantConnectivity = map (\<lambda>(k, c). (k, if ss_steps st = 0 then None else Some (of_nat c / of_nat (ss_steps st)))) (ss_instantCount st),
       sr_linkSnapshots = ss_linkSnapshots st\<rparr>)"

definition simulate :: "maths \<Rightarrow> sim_options \<Rightarrow> sim_result option option" where
  "simulate mt opts = map_option (\<lambda>r. case r of None \<Rightarrow> None | Some st \<Rightarrow> sim_report opts st) (sim_loop mt opts 0 (sim_start opts))"

end
