(* ===== verification/SimulatorRuns.thy ===== *)
theory SimulatorRuns
  imports Simulator
begin

text \<open>
  What a simulated run keeps to: it ends, the air time of all messages together stays within what the shared channel and the duty cycle of the nodes allow, and a
  message counts as delivered exactly when all its destinations have been reached.
\<close>

section \<open>Folds\<close>

lemma foldl_keeps: "(\<And>x s. x \<in> set xs \<Longrightarrow> P s \<Longrightarrow> P (f s x)) \<Longrightarrow> P s \<Longrightarrow> P (foldl f s xs)"
  by (induction xs arbitrary: s) auto

lemma fold_opt_keeps:
  "(\<And>x s s'. x \<in> set xs \<Longrightarrow> P s \<Longrightarrow> f x s = Some s' \<Longrightarrow> P s') \<Longrightarrow> P s \<Longrightarrow> fold_opt f xs s = Some s' \<Longrightarrow> P s'"
proof (induction xs arbitrary: s)
  case (Cons x xs)
  from Cons.prems(3) obtain s1 where s1: "f x s = Some s1" "fold_opt f xs s1 = Some s'" by (auto split: option.splits)
  show ?case
  proof (rule Cons.IH[OF _ _ s1(2)])
    show "P s1" using Cons.prems(1)[of x s s1] Cons.prems(2) s1(1) by simp
    show "\<And>x s s'. x \<in> set xs \<Longrightarrow> P s \<Longrightarrow> f x s = Some s' \<Longrightarrow> P s'" using Cons.prems(1) by auto
  qed
qed simp

text \<open>What holds after every attempt at a neighbour, every expiry and every creation holds after a step.\<close>

lemma serve_sender_keeps:
  assumes "\<And>st nl. P st \<Longrightarrow> P (try_neighbour opts t m pending (nd_id sender) (get_or 0 startHeld (nd_id sender, ms_id m)) st nl)"
    and "\<And>st. P st \<Longrightarrow> P (snd (carry_check opts t m reach (nd_id sender) st))" and "P st"
  shows "P (serve_sender opts t adj startHeld m pending reach cost st sender)"
proof -
  define f where "f = try_neighbour opts t m pending (nd_id sender) (get_or 0 startHeld (nd_id sender, ms_id m))"
  obtain c st1 where c: "carry_check opts t m reach (nd_id sender) st = (c, st1)" by (meson surj_pair)
  have st1: "P st1" using assms(2)[OF assms(3)] unfolding c snd_conv .
  have "P (foldl f st1 (candidates opts adj cost (nd_id sender)))"
    by (rule foldl_keeps[where P = P, OF _ st1]) (unfold f_def, rule assms(1))
  moreover have "serve_sender opts t adj startHeld m pending reach cost st sender \<in> {st, st1, foldl f st1 (candidates opts adj cost (nd_id sender))}"
    by (cases c) (simp_all add: serve_sender_def c Let_def f_def)
  ultimately show ?thesis using assms(3) st1 by auto
qed

lemma serve_message_keeps:
  assumes "serve_message opts t adj startHeld m st = Some st'"
    and "\<And>pending sender have_bytes st1 nl. ms_createdAt m \<le> t \<Longrightarrow> pending_of opts t m st (ms_destinations m) = Some pending \<Longrightarrow> P st1
      \<Longrightarrow> P (try_neighbour opts t m pending sender have_bytes st1 nl)"
    and "\<And>reach sender st1. P st1 \<Longrightarrow> P (snd (carry_check opts t m reach sender st1))" and "P st"
  shows "P st'"
proof (cases "ms_createdAt m > t \<or> map_of (ss_delivered st) (ms_id m) \<noteq> None")
  case True
  then show ?thesis using assms(1,4) by (simp add: serve_message_def)
next
  case False
  then obtain pending where p: "pending_of opts t m st (ms_destinations m) = Some pending"
    using assms(1) by (auto simp: serve_message_def split: option.splits)
  from False have t: "ms_createdAt m \<le> t" by simp
  show ?thesis
  proof (cases "pending = []")
    case True
    then show ?thesis using assms(1,4) False p by (auto simp: serve_message_def)
  next
    case ne: False
    obtain reach cost where "st' = foldl (serve_sender opts t adj startHeld m pending reach cost) st (so_nodes opts)"
      using assms(1) False ne p by (auto simp: serve_message_def Let_def)
    moreover have "P (foldl (serve_sender opts t adj startHeld m pending reach cost) st (so_nodes opts))"
      by (rule foldl_keeps[where P = P, OF _ assms(4)], rule serve_sender_keeps[where P = P], rule assms(2)[OF t p], assumption, rule assms(3))
    ultimately show ?thesis by simp
  qed
qed

section \<open>The end of a run\<close>

lemma sim_loop_end:
  assumes "sim_loop mt opts t st = Some r" "r = Some st'" "P t st"
    and "\<And>t st st'. t \<le> so_horizonS opts \<Longrightarrow> P t st \<Longrightarrow> sim_step mt opts t st = Some st' \<Longrightarrow> P (t + so_stepS opts) st'"
  shows "\<exists>t'. so_horizonS opts < t' \<and> P t' st'"
  using assms
proof (induction rule: sim_loop.raw_induct[rotated, consumes 1, case_names step])
  case (step loop mt opts t st r)
  show ?case
  proof (cases "t > so_horizonS opts")
    case True
    then show ?thesis using step.hyps step.prems by auto
  next
    case False
    then obtain st1 where st1: "sim_step mt opts t st = Some st1" "loop mt opts (t + so_stepS opts) st1 = Some r"
      using step.hyps step.prems(1) by (auto split: option.splits)
    have t: "t \<le> so_horizonS opts" using False by simp
    show ?thesis by (rule step.IH[OF st1(2) step.prems(1) step.prems(3)[OF t step.prems(2) st1(1)] step.prems(3)])
  qed
qed

text \<open>With steps of some length, every run ends.\<close>

theorem simulation_ends:
  assumes "0 < so_stepS opts"
  shows "simulate mt opts \<noteq> None"
proof -
  have "sim_loop mt opts t st \<noteq> None" for t st
  proof (induction "nat \<lceil>(so_horizonS opts - t) / so_stepS opts + 1\<rceil>" arbitrary: t st rule: less_induct)
    case less
    show ?case
    proof (cases "t > so_horizonS opts")
      case True
      then show ?thesis by (subst sim_loop.simps) simp
    next
      case False
      have q: "(so_horizonS opts - (t + so_stepS opts)) / so_stepS opts + 1 = (so_horizonS opts - t) / so_stepS opts"
        using assms by (simp add: field_simps)
      have "- 1 < (so_horizonS opts - t) / so_stepS opts" using assms False by (simp add: less_divide_eq)
      then have "0 \<le> \<lceil>(so_horizonS opts - t) / so_stepS opts\<rceil>" by simp
      then have "nat \<lceil>(so_horizonS opts - (t + so_stepS opts)) / so_stepS opts + 1\<rceil> < nat \<lceil>(so_horizonS opts - t) / so_stepS opts + 1\<rceil>"
        unfolding q ceiling_add_one by (subst zless_nat_conj) linarith
      then show ?thesis using less[of "t + so_stepS opts"] False by (subst sim_loop.simps) (auto split: option.split)
    qed
  qed
  then show ?thesis by (simp add: simulate_def)
qed

section \<open>The air time\<close>

definition total_of :: "('k, rat) jsmap \<Rightarrow> rat" where
  "total_of m = sum_list (map snd m)"

lemma total_put: "total_of (map_put k v m) = total_of m - get_or 0 m k + v"
  unfolding total_of_def get_or_def by (induction m) auto

lemma get_or_put: "get_or d (map_put k v m) k' = (if k' = k then v else get_or d m k')"
  by (simp add: get_or_def)

definition in_budget :: "rat \<Rightarrow> rat \<Rightarrow> string list \<Rightarrow> sim_state \<Rightarrow> bool" where
  "in_budget channel duty ids st \<longleftrightarrow> 0 \<le> ss_channelCredit st \<and> map_wf (ss_bucket st) \<and> (\<forall>k. 0 \<le> get_or 0 (ss_bucket st) k) \<and> (\<forall>k. 0 \<le> get_or 0 (ss_airtime st) k) \<and>
     map fst (ss_airtime st) = ids \<and>
     total_of (ss_airtime st) + ss_channelCredit st \<le> channel \<and> total_of (ss_airtime st) + total_of (ss_bucket st) \<le> duty"

lemma give_budgets [simp]:
  "ss_channelCredit (give opts t m pending nb bytes st) = ss_channelCredit st" "ss_bucket (give opts t m pending nb bytes st) = ss_bucket st"
  "ss_airtime (give opts t m pending nb bytes st) = ss_airtime st" "ss_steps (give opts t m pending nb bytes st) = ss_steps st"
  by (simp_all add: give_def Let_def)

lemma in_budget_cong:
  "ss_channelCredit st' = ss_channelCredit st \<Longrightarrow> ss_bucket st' = ss_bucket st \<Longrightarrow> ss_airtime st' = ss_airtime st \<Longrightarrow> in_budget c d ids st' \<longleftrightarrow> in_budget c d ids st"
  by (simp add: in_budget_def)

text \<open>The frames that are sent fit both budgets, and all three accounts change by the same time.\<close>

lemma lora_bytes_in_budget:
  assumes "in_budget c d ids st" "usual_phy (mp_phy (so_params opts))" "ms_id m \<in> set ids"
  shows "in_budget c d ids (lora_bytes opts t m pending sender nb sf want st)"
proof -
  define toa where "toa = loraTimeOnAir (loraFrameBytesFor sf (so_params opts)) sf (mp_phy (so_params opts))"
  define budget where "budget = min (get_or 0 (ss_bucket st) sender) (ss_channelCredit st)"
  define frames where "frames = min \<lfloor>budget / toa\<rfloor> \<lceil>want / loraAppBytesPerFrame (so_params opts) (Some sf)\<rceil>"
  define spent where "spent = of_int frames * toa"
  have toa: "0 < toa" using loraTimeOnAir_pos[OF assms(2)] by (simp add: toa_def)
  have fits: "spent \<le> budget"
  proof -
    have "of_int frames \<le> budget / toa" by (simp add: frames_def min_def) linarith
    then show ?thesis using toa by (simp add: spent_def pos_le_divide_eq)
  qed
  have pos: "0 \<le> spent" if "0 < frames" using that toa by (simp add: spent_def)
  have key: "map_of (ss_airtime st) (ms_id m) \<noteq> None" using assms(1,3) by (auto simp: in_budget_def map_of_eq_None_iff image_set[symmetric] simp del: image_set)
  define st1 where "st1 = st\<lparr>ss_bucket := map_put sender (get_or 0 (ss_bucket st) sender - spent) (ss_bucket st), ss_channelCredit := ss_channelCredit st - spent,
    ss_airtime := map_put (ms_id m) (get_or 0 (ss_airtime st) (ms_id m) + spent) (ss_airtime st)\<rparr>"
  have w: "in_budget c d ids st1" if "0 < frames"
    using assms(1) fits pos[OF that] key by (auto simp: in_budget_def st1_def total_put get_or_put map_put_keys_old budget_def)
  have "lora_bytes opts t m pending sender nb sf want st =
      (if sender \<in> set (ss_loraBlocked st) then st else if frames \<le> 0 then st\<lparr>ss_loraBlocked := sender # ss_loraBlocked st\<rparr>
       else give opts t m pending nb (min want (of_int frames * loraAppBytesPerFrame (so_params opts) (Some sf))) st1)"
    by (simp add: lora_bytes_def Let_def st1_def spent_def frames_def budget_def toa_def)
  then show ?thesis using w assms(1) by (simp add: in_budget_cong[of "give opts t m pending nb b st1" st1 for b] in_budget_def)
qed

lemma short_bytes_in_budget: "in_budget c d ids (short_bytes opts t m pending sender nb bps want st) \<longleftrightarrow> in_budget c d ids st"
  by (rule in_budget_cong) (simp_all add: short_bytes_def Let_def)

lemma try_neighbour_in_budget:
  assumes "in_budget c d ids st" "usual_phy (mp_phy (so_params opts))" "ms_id m \<in> set ids"
  shows "in_budget c d ids (try_neighbour opts t m pending sender have_bytes st nl)"
proof (cases nl)
  case (Pair nb link)
  then show ?thesis using assms(1) lora_bytes_in_budget[OF assms] by (simp add: try_neighbour_def short_bytes_in_budget Let_def)
qed

lemma try_neighbour_steps [simp]: "ss_steps (try_neighbour opts t m pending sender have_bytes st nl) = ss_steps st"
  by (cases nl) (simp add: try_neighbour_def lora_bytes_def short_bytes_def Let_def)

lemma carry_check_budgets [simp]:
  "ss_channelCredit (snd (carry_check opts t m reach sender st)) = ss_channelCredit st" "ss_bucket (snd (carry_check opts t m reach sender st)) = ss_bucket st"
  "ss_airtime (snd (carry_check opts t m reach sender st)) = ss_airtime st" "ss_steps (snd (carry_check opts t m reach sender st)) = ss_steps st"
  by (simp_all add: carry_check_def Let_def split: option.split)

text \<open>A scenario as they are written: positive steps, and shares of the time that are no less than nothing.\<close>

definition usual_scenario :: "sim_options \<Rightarrow> bool" where
  "usual_scenario opts \<longleftrightarrow> 0 < so_stepS opts \<and> 0 \<le> so_horizonS opts \<and> usual_phy (mp_phy (so_params opts)) \<and> 0 \<le> mp_channelEfficiency (so_params opts) \<and>
     0 \<le> rg_dutyCycle (mp_reg (so_params opts)) \<and> 0 \<le> mp_protocolOverhead (so_params opts) \<and> distinct (map ms_id (so_messages opts))"

lemma create_budgets:
  assumes "create_message opts t m st = Some st'"
  shows "ss_channelCredit st' = ss_channelCredit st" "ss_bucket st' = ss_bucket st" "ss_airtime st' = ss_airtime st" "ss_steps st' = ss_steps st"
  using assms by (auto simp: create_message_def split: if_split_asm)

lemma puts_wf: "map_wf b \<Longrightarrow> map_wf (foldl (\<lambda>b n. map_put (nd_id n) (g b n) b) b ns)"
  by (induction ns arbitrary: b) auto

lemma refill_buckets:
  assumes "0 \<le> cap" "0 \<le> inflow" "\<forall>k. 0 \<le> get_or 0 b k"
  shows "(\<forall>k. 0 \<le> get_or 0 (foldl (\<lambda>b n. map_put (nd_id n) (min cap (get_or 0 b (nd_id n) + inflow)) b) b ns) k) \<and>
    total_of (foldl (\<lambda>b n. map_put (nd_id n) (min cap (get_or 0 b (nd_id n) + inflow)) b) b ns) \<le> total_of b + of_nat (length ns) * inflow"
  using assms
proof (induction ns arbitrary: b)
  case (Cons n ns)
  define b1 where "b1 = map_put (nd_id n) (min cap (get_or 0 b (nd_id n) + inflow)) b"
  have "\<forall>k. 0 \<le> get_or 0 b1 k" using Cons.prems by (simp add: b1_def get_or_put)
  moreover have "total_of b1 \<le> total_of b + inflow" by (simp add: b1_def total_put)
  ultimately show ?case using Cons.IH[of b1] Cons.prems by (auto simp: b1_def algebra_simps)
qed simp

lemma total_start:
  assumes "\<forall>k. 0 \<le> get_or 0 b k" "0 \<le> cap"
  shows "(\<forall>k. 0 \<le> get_or 0 (foldl (\<lambda>b n. map_put (nd_id n) cap b) b ns) k) \<and>
    total_of (foldl (\<lambda>b n. map_put (nd_id n) cap b) b ns) \<le> total_of b + of_nat (length ns) * cap"
  using assms
proof (induction ns arbitrary: b)
  case (Cons n ns)
  define b1 where "b1 = map_put (nd_id n) cap b"
  have "\<forall>k. 0 \<le> get_or 0 b1 k" using Cons.prems by (simp add: b1_def get_or_put)
  moreover have "total_of b1 \<le> total_of b + cap" using Cons.prems by (simp add: b1_def total_put)
  ultimately show ?case using Cons.IH[of b1] Cons.prems by (auto simp: b1_def algebra_simps)
qed simp

lemma sim_step_parts:
  assumes "sim_step mt opts t st = Some st'"
  obtains st1 adj snaps counts where "fold_opt (create_message opts t) (so_messages opts) (st\<lparr>ss_steps := ss_steps st + 1\<rparr>) = Some st1"
    and "fold_opt (serve_message opts t adj (ss_held st1)) (by_urgency (so_messages opts))
      (refill opts st1\<lparr>ss_linkSnapshots := snaps, ss_instantCount := counts,
        ss_channelCredit := min (channel_credit_cap opts) (ss_channelCredit st1 + so_stepS opts * mp_channelEfficiency (so_params opts)),
        ss_shortBudget := [], ss_loraBlocked := []\<rparr>) = Some st'"
proof -
  obtain st1 where st1: "fold_opt (create_message opts t) (so_messages opts) (st\<lparr>ss_steps := ss_steps st + 1\<rparr>) = Some st1"
    using assms by (auto simp: sim_step_def split: option.splits)
  obtain placed where placed: "placed_nodes (so_nodes opts) t (mp_env (so_params opts)) = Some placed"
    using assms st1 by (auto simp: sim_step_def Let_def split: option.splits)
  have "ss_held (refill opts st1) = ss_held st1" "ss_channelCredit (refill opts st1) = ss_channelCredit st1" by (simp_all add: refill_def)
  then show thesis using assms st1 placed by (intro that) (auto simp: sim_step_def Let_def)
qed

lemma sim_step_in_budget:
  assumes "sim_step mt opts t st = Some st'" "in_budget c d (map ms_id (so_messages opts)) st" "usual_scenario opts"
  shows "in_budget (c + so_stepS opts * mp_channelEfficiency (so_params opts))
      (d + of_nat (length (so_nodes opts)) * (rg_dutyCycle (mp_reg (so_params opts)) * so_stepS opts)) (map ms_id (so_messages opts)) st' \<and> ss_steps st' = Suc (ss_steps st)"
proof -
  let ?ids = "map ms_id (so_messages opts)" and ?in = "rg_dutyCycle (mp_reg (so_params opts)) * so_stepS opts"
  let ?c = "c + so_stepS opts * mp_channelEfficiency (so_params opts)" and ?d = "d + of_nat (length (so_nodes opts)) * ?in"
  note u = assms(3)[unfolded usual_scenario_def]
  obtain st1 adj snaps counts where st1: "fold_opt (create_message opts t) (so_messages opts) (st\<lparr>ss_steps := ss_steps st + 1\<rparr>) = Some st1"
    and served: "fold_opt (serve_message opts t adj (ss_held st1)) (by_urgency (so_messages opts))
      (refill opts st1\<lparr>ss_linkSnapshots := snaps, ss_instantCount := counts,
        ss_channelCredit := min (channel_credit_cap opts) (ss_channelCredit st1 + so_stepS opts * mp_channelEfficiency (so_params opts)),
        ss_shortBudget := [], ss_loraBlocked := []\<rparr>) = Some st'" (is "fold_opt _ _ ?st2 = _")
    by (rule sim_step_parts[OF assms(1)]) (rule that)
  have w1: "in_budget c d ?ids st1 \<and> ss_steps st1 = Suc (ss_steps st)"
    by (rule fold_opt_keeps[where P = "\<lambda>s. in_budget c d ?ids s \<and> ss_steps s = Suc (ss_steps st)", OF _ _ st1])
      (use assms(2) in \<open>auto simp: in_budget_def create_budgets\<close>)
  have cap: "0 \<le> bucket_cap opts" "0 \<le> channel_credit_cap opts" "0 \<le> ?in"
    using u loraTimeOnAir_pos[of "mp_phy (so_params opts)" "mp_loraFrameBytes (so_params opts)" 12] by (simp_all add: bucket_cap_def channel_credit_cap_def)
  from refill_buckets[OF cap(1,3), of "ss_bucket st1" "so_nodes opts"] w1
  have b: "\<forall>k. 0 \<le> get_or 0 (ss_bucket (refill opts st1)) k" "total_of (ss_bucket (refill opts st1)) \<le> total_of (ss_bucket st1) + of_nat (length (so_nodes opts)) * ?in"
    by (simp_all add: in_budget_def refill_def)
  have "map_wf (ss_bucket (refill opts st1))" unfolding refill_def by (simp, rule puts_wf) (use w1 in \<open>simp add: in_budget_def\<close>)
  moreover have "0 \<le> so_stepS opts * mp_channelEfficiency (so_params opts)" using u by simp
  ultimately have w2: "in_budget ?c ?d ?ids ?st2" using w1 b cap(2) by (auto simp: in_budget_def refill_def)
  have s2: "ss_steps ?st2 = Suc (ss_steps st)" using w1 by (simp add: refill_def)
  let ?P = "\<lambda>s. in_budget ?c ?d ?ids s \<and> ss_steps s = Suc (ss_steps st)"
  have serve: "?P s'" if "m \<in> set (by_urgency (so_messages opts))" "?P s" "serve_message opts t adj (ss_held st1) m s = Some s'" for m s s'
  proof (rule serve_message_keeps[where P = ?P, OF that(3) _ _ that(2)])
    have "ms_id m \<in> set ?ids" using that(1) by (simp add: by_urgency_def)
    then show "?P (try_neighbour opts t m pending sender have_bytes s1 nl)" if "?P s1" for pending sender have_bytes s1 nl
      using that try_neighbour_in_budget[of ?c ?d ?ids s1 opts m] u by simp
    show "?P (snd (carry_check opts t m reach sender s1))" if "?P s1" for reach sender s1
      using that in_budget_cong[of "snd (carry_check opts t m reach sender s1)" s1] by simp
  qed
  from w2 s2 have start: "?P ?st2" by (rule conjI)
  show ?thesis by (rule fold_opt_keeps[where P = ?P and xs = "by_urgency (so_messages opts)", OF _ start served]) (rule serve)
qed

lemma start_airtime:
  assumes "distinct (map fst a @ map ms_id ms)"
  shows "foldl (\<lambda>a m. map_put (ms_id m) (0 :: rat) a) a ms = a @ map (\<lambda>m. (ms_id m, 0)) ms"
  using assms
proof (induction ms arbitrary: a)
  case (Cons m ms)
  have "map_put (ms_id m) 0 a = a @ [(ms_id m, 0)]" using Cons.prems by (intro map_put_new) (auto simp: map_of_eq_None_iff)
  then show ?case using Cons.IH[of "a @ [(ms_id m, 0)]"] Cons.prems by simp
qed simp

lemma sim_start_in_budget:
  assumes "usual_scenario opts"
  shows "in_budget 0 (of_nat (length (so_nodes opts)) * bucket_cap opts) (map ms_id (so_messages opts)) (sim_start opts)"
proof -
  have "ss_airtime (sim_start opts) = map (\<lambda>m. (ms_id m, 0)) (so_messages opts)"
    using start_airtime[of "[]" "so_messages opts"] assms by (simp add: sim_start_def usual_scenario_def)
  moreover have "get_or 0 (map (\<lambda>m. (ms_id m, 0 :: rat)) ms) k = 0" "total_of (map (\<lambda>m. (ms_id m, 0 :: rat)) ms) = 0" for ms :: "sim_message list" and k :: string
    by (induction ms) (auto simp: get_or_def total_of_def)
  moreover have "0 \<le> bucket_cap opts" using assms by (simp add: bucket_cap_def usual_scenario_def)
  moreover have "ss_channelCredit (sim_start opts) = 0" "ss_bucket (sim_start opts) = foldl (\<lambda>b n. map_put (nd_id n) (bucket_cap opts) b) [] (so_nodes opts)"
    by (simp_all add: sim_start_def)
  moreover have "\<forall>k :: string. (0 :: rat) \<le> get_or 0 [] k" "total_of ([] :: (string, rat) jsmap) = 0" by (simp_all add: get_or_def total_of_def)
  moreover have "map_wf (foldl (\<lambda>b n. map_put (nd_id n) (bucket_cap opts) b) [] (so_nodes opts))" by (rule puts_wf) simp
  ultimately show ?thesis using total_start[of "[]" "bucket_cap opts" "so_nodes opts"] by (simp add: in_budget_def comp_def)
qed

lemma total_of_keys: "map_wf a \<Longrightarrow> sum_list (map (get_or 0 a) (map fst a)) = total_of a"
  unfolding total_of_def by (intro arg_cong[of _ _ sum_list]) (auto simp: get_or_def)

lemma total_of_nonneg: "map_wf a \<Longrightarrow> \<forall>k. 0 \<le> get_or 0 a k \<Longrightarrow> 0 \<le> total_of a"
  unfolding total_of_keys[symmetric] by (intro sum_list_nonneg) auto

text \<open>C18: All messages together are on the air for no longer than the share of the run that the channel can be used for, and no longer than the duty cycle of all nodes
allows, each of which starts with an hour's allowance.\<close>

theorem air_time_limited:
  assumes "usual_scenario opts" "simulate mt opts = Some (Some r)"
  shows "sum_list (map dr_loraAirtimeS (sr_deliveries r)) \<le> mp_channelEfficiency (so_params opts) * (so_horizonS opts + so_stepS opts) \<and>
    sum_list (map dr_loraAirtimeS (sr_deliveries r)) \<le> of_nat (length (so_nodes opts)) * rg_dutyCycle (mp_reg (so_params opts)) * (3600 + so_horizonS opts + so_stepS opts)"
proof -
  let ?ids = "map ms_id (so_messages opts)" and ?eff = "mp_channelEfficiency (so_params opts)" and ?step = "so_stepS opts"
  let ?share = "of_nat (length (so_nodes opts)) * rg_dutyCycle (mp_reg (so_params opts))"
  note u = assms(1)[unfolded usual_scenario_def]
  define P where "P t st \<longleftrightarrow> t \<le> so_horizonS opts + ?step \<and> in_budget (t * ?eff) (?share * (3600 + t)) ?ids st" for t st
  obtain st where st: "sim_loop mt opts 0 (sim_start opts) = Some (Some st)" "sim_report opts st = Some r"
    using assms(2) by (auto simp: simulate_def split: option.splits)
  have "\<exists>t. so_horizonS opts < t \<and> P t st"
  proof (rule sim_loop_end[OF st(1) refl])
    have c: "?share * (3600 + 0) = of_nat (length (so_nodes opts)) * bucket_cap opts" by (simp add: bucket_cap_def)
    have "in_budget (0 * ?eff) (?share * (3600 + 0)) ?ids (sim_start opts)" unfolding c mult_zero_left by (rule sim_start_in_budget[OF assms(1)])
    then show "P 0 (sim_start opts)" using u unfolding P_def by simp
  next
    fix t s s' assume t: "t \<le> so_horizonS opts" "P t s" "sim_step mt opts t s = Some s'"
    have c: "t * ?eff + ?step * ?eff = (t + ?step) * ?eff"
      "?share * (3600 + t) + of_nat (length (so_nodes opts)) * (rg_dutyCycle (mp_reg (so_params opts)) * ?step) = ?share * (3600 + (t + ?step))" by (simp_all add: algebra_simps)
    from t(2) have "in_budget (t * ?eff) (?share * (3600 + t)) ?ids s" unfolding P_def by (rule conjunct2)
    from sim_step_in_budget[OF t(3) this assms(1)] have "in_budget ((t + ?step) * ?eff) (?share * (3600 + (t + ?step))) ?ids s'"
      unfolding c by blast
    then show "P (t + ?step) s'" using t(1) by (simp add: P_def)
  qed
  then obtain t where t: "t \<le> so_horizonS opts + ?step" "in_budget (t * ?eff) (?share * (3600 + t)) ?ids st" by (auto simp: P_def)
  have "map dr_loraAirtimeS (sr_deliveries r) = map (get_or 0 (ss_airtime st)) ?ids"
    using st(2) by (auto simp: sim_report_def delivery_of_def split: if_split_asm)
  moreover have keys: "map fst (ss_airtime st) = ?ids" "total_of (ss_airtime st) \<le> t * ?eff" "total_of (ss_airtime st) + total_of (ss_bucket st) \<le> ?share * (3600 + t)"
    using t(2) by (auto simp: in_budget_def)
  moreover have "0 \<le> total_of (ss_bucket st)" using t(2) by (intro total_of_nonneg) (auto simp: in_budget_def)
  moreover have "t * ?eff \<le> ?eff * (so_horizonS opts + ?step)" using t(1) u by (subst mult.commute) (intro mult_left_mono, auto)
  moreover have "?share * (3600 + t) \<le> ?share * (3600 + so_horizonS opts + ?step)" using t(1) u by (intro mult_left_mono) auto
  ultimately show ?thesis using total_of_keys[of "ss_airtime st"] u by simp
qed

section \<open>Deliveries\<close>

definition at_destination :: "sim_message \<Rightarrow> rat \<Rightarrow> rat \<Rightarrow> sim_state \<Rightarrow> bool" where
  "at_destination m earliest now st \<longleftrightarrow> (\<forall>d y. map_of (ss_reachedAt st) (ms_id m, d) = Some y \<longrightarrow>
     d \<in> set (ms_destinations m) \<and> earliest \<le> y \<and> y \<le> now \<and> ms_sizeBytes m - 1 / 1000000 \<le> get_or 0 (ss_held st) (d, ms_id m))"

definition delivery_known :: "sim_message \<Rightarrow> sim_state \<Rightarrow> bool" where
  "delivery_known m st \<longleftrightarrow>
     (\<forall>x. map_of (ss_delivered st) (ms_id m) = Some x \<longrightarrow> (\<forall>d \<in> set (ms_destinations m). map_of (ss_reachedAt st) (ms_id m, d) \<noteq> None) \<and>
        (\<exists>d \<in> set (ms_destinations m). map_of (ss_reachedAt st) (ms_id m, d) = Some x) \<and>
        (\<forall>d y. map_of (ss_reachedAt st) (ms_id m, d) = Some y \<longrightarrow> y \<le> x)) \<and>
     (ms_destinations m \<noteq> [] \<longrightarrow> (\<forall>d \<in> set (ms_destinations m). map_of (ss_reachedAt st) (ms_id m, d) \<noteq> None) \<longrightarrow> map_of (ss_delivered st) (ms_id m) \<noteq> None)"

definition delivery_inv :: "sim_options \<Rightarrow> rat \<Rightarrow> sim_state \<Rightarrow> bool" where
  "delivery_inv opts now st \<longleftrightarrow> (\<forall>m \<in> set (so_messages opts). at_destination m (ms_createdAt m + so_stepS opts) now st \<and> delivery_known m st)"

lemma delivery_cong:
  assumes "ss_reachedAt st' = ss_reachedAt st" "ss_delivered st' = ss_delivered st"
    and "\<And>d. map_of (ss_reachedAt st) (ms_id m, d) \<noteq> None \<Longrightarrow> get_or 0 (ss_held st') (d, ms_id m) = get_or 0 (ss_held st) (d, ms_id m)"
  shows "at_destination m e now st' \<longleftrightarrow> at_destination m e now st" "delivery_known m st' \<longleftrightarrow> delivery_known m st"
  using assms by (auto simp: at_destination_def delivery_known_def)

lemma give_at_destination:
  assumes "at_destination m e (t + so_stepS opts) st" "set pending \<subseteq> set (ms_destinations m)" "e \<le> t + so_stepS opts" "0 \<le> bytes"
  shows "at_destination m e (t + so_stepS opts) (give opts t m pending nb bytes st)"
  unfolding at_destination_def
proof (intro allI impI)
  fix d y
  let ?st = "give opts t m pending nb bytes st"
  assume y: "map_of (ss_reachedAt ?st) (ms_id m, d) = Some y"
  have held: "get_or 0 (ss_held ?st) (d, ms_id m) = get_or 0 (ss_held st) (d, ms_id m) + (if d = nb then bytes else 0)"
    by (simp add: give_def Let_def get_or_put)
  show "d \<in> set (ms_destinations m) \<and> e \<le> y \<and> y \<le> t + so_stepS opts \<and> ms_sizeBytes m - 1 / 1000000 \<le> get_or 0 (ss_held ?st) (d, ms_id m)"
  proof (cases "map_of (ss_reachedAt st) (ms_id m, d) = Some y")
    case True
    then show ?thesis using assms(1,4) unfolding held at_destination_def by fastforce
  next
    case False
    then have "d = nb \<and> y = t + so_stepS opts \<and> nb \<in> set pending \<and> get_or 0 (ss_held st) (nb, ms_id m) + bytes \<ge> ms_sizeBytes m - 1 / 1000000"
      using y by (auto simp: give_def Let_def split: if_split_asm)
    then show ?thesis using assms(2,3) unfolding held by auto
  qed
qed

lemma give_delivery_known:
  assumes "at_destination m e (t + so_stepS opts) st" "delivery_known m st" "map_of (ss_delivered st) (ms_id m) = None" "set pending \<subseteq> set (ms_destinations m)"
  shows "delivery_known m (give opts t m pending nb bytes st)"
proof (cases "nb \<in> set pending \<and> get_or 0 (ss_held st) (nb, ms_id m) + bytes \<ge> ms_sizeBytes m - 1 / 1000000 \<and> map_of (ss_reachedAt st) (ms_id m, nb) = None")
  case False
  then have "ss_reachedAt (give opts t m pending nb bytes st) = ss_reachedAt st" "ss_delivered (give opts t m pending nb bytes st) = ss_delivered st"
    by (auto simp: give_def Let_def)
  then show ?thesis using assms(2) by (simp add: delivery_known_def)
next
  case True
  let ?now = "t + so_stepS opts"
  define reached where "reached = map_put (ms_id m, nb) ?now (ss_reachedAt st)"
  have r: "ss_reachedAt (give opts t m pending nb bytes st) = reached" using True by (simp add: give_def Let_def reached_def)
  have d: "map_of (ss_delivered (give opts t m pending nb bytes st)) (ms_id m)
      = (if \<forall>d \<in> set (ms_destinations m). map_of reached (ms_id m, d) \<noteq> None then Some ?now else None)"
    using True assms(3) by (simp add: give_def Let_def reached_def list_all_iff)
  have "y \<le> ?now" if "map_of reached (ms_id m, d) = Some y" for d y
    using that assms(1) by (auto simp: reached_def at_destination_def split: if_split_asm)
  moreover have "nb \<in> set (ms_destinations m)" "map_of reached (ms_id m, nb) = Some ?now" using True assms(4) by (auto simp: reached_def)
  ultimately show ?thesis unfolding delivery_known_def r d by (auto split: if_split_asm)
qed

lemma give_other:
  assumes "ms_id m' \<noteq> ms_id m"
  shows "at_destination m' e now (give opts t m pending nb bytes st) \<longleftrightarrow> at_destination m' e now st"
    "delivery_known m' (give opts t m pending nb bytes st) \<longleftrightarrow> delivery_known m' st"
  using assms by (auto simp: at_destination_def delivery_known_def give_def Let_def get_or_put)

lemma delivery_inv_cong:
  "ss_reachedAt st' = ss_reachedAt st \<Longrightarrow> ss_delivered st' = ss_delivered st \<Longrightarrow> ss_held st' = ss_held st \<Longrightarrow> delivery_inv opts now st' \<longleftrightarrow> delivery_inv opts now st"
  using delivery_cong[of st' st] by (simp add: delivery_inv_def)

lemma same_message: "distinct (map ms_id ms) \<Longrightarrow> m \<in> set ms \<Longrightarrow> m' \<in> set ms \<Longrightarrow> ms_id m' = ms_id m \<longleftrightarrow> m' = m"
  by (auto simp: distinct_map inj_on_def)

lemma give_delivery_inv:
  assumes "delivery_inv opts (t + so_stepS opts) st" "usual_scenario opts" "m \<in> set (so_messages opts)" "ms_createdAt m \<le> t"
    and "set pending \<subseteq> set (ms_destinations m)" "map_of (ss_delivered st) (ms_id m) = None" "0 \<le> bytes"
  shows "delivery_inv opts (t + so_stepS opts) (give opts t m pending nb bytes st)"
  unfolding delivery_inv_def
proof
  fix m' assume m': "m' \<in> set (so_messages opts)"
  show "at_destination m' (ms_createdAt m' + so_stepS opts) (t + so_stepS opts) (give opts t m pending nb bytes st) \<and> delivery_known m' (give opts t m pending nb bytes st)"
  proof (cases "m' = m")
    case True
    have "at_destination m (ms_createdAt m + so_stepS opts) (t + so_stepS opts) st" "delivery_known m st" using assms(1,3) by (auto simp: delivery_inv_def)
    then show ?thesis unfolding True using give_at_destination give_delivery_known assms(4-7) by auto
  next
    case False
    then have "ms_id m' \<noteq> ms_id m" using same_message[OF _ assms(3) m'] assms(2) by (simp add: usual_scenario_def)
    then show ?thesis using assms(1) m' by (simp add: give_other delivery_inv_def)
  qed
qed

lemma try_neighbour_delivery:
  assumes "delivery_inv opts (t + so_stepS opts) st" "usual_scenario opts" "m \<in> set (so_messages opts)" "ms_createdAt m \<le> t" "set pending \<subseteq> set (ms_destinations m)"
  shows "delivery_inv opts (t + so_stepS opts) (try_neighbour opts t m pending sender have_bytes st nl)"
proof -
  obtain nb link where nl: "nl = (nb, link)" by force
  define want where "want = have_bytes - get_or 0 (ss_held st) (nb, ms_id m)"
  let ?inv = "delivery_inv opts (t + so_stepS opts)"
  have give: "?inv (give opts t m pending nb bytes st')" if "map_of (ss_delivered st) (ms_id m) = None" "0 \<le> bytes"
    "ss_reachedAt st' = ss_reachedAt st" "ss_delivered st' = ss_delivered st" "ss_held st' = ss_held st" for bytes st'
    using that assms by (intro give_delivery_inv) (simp_all add: delivery_inv_cong[OF that(3,4,5)])
  have frame: "0 \<le> loraAppBytesPerFrame (so_params opts) sf" for sf
  proof -
    have "0 \<le> mp_protocolOverhead (so_params opts)" using assms(2) by (simp add: usual_scenario_def)
    moreover have "(0 :: rat) \<le> of_int (max 0 x)" for x by (subst of_int_0_le_iff) simp
    ultimately show ?thesis unfolding loraAppBytesPerFrame_def Let_def by (intro divide_nonneg_nonneg)
  qed
  have lora: "?inv (lora_bytes opts t m pending sender nb sf want st)" if "map_of (ss_delivered st) (ms_id m) = None" "0 < want" for sf
  proof -
    obtain frames st1 where st1: "ss_reachedAt st1 = ss_reachedAt st" "ss_delivered st1 = ss_delivered st" "ss_held st1 = ss_held st"
      and lb: "lora_bytes opts t m pending sender nb sf want st = (if sender \<in> set (ss_loraBlocked st) then st
        else if frames \<le> 0 then st\<lparr>ss_loraBlocked := sender # ss_loraBlocked st\<rparr>
        else give opts t m pending nb (min want (of_int frames * loraAppBytesPerFrame (so_params opts) (Some sf))) st1)"
      by (rule that[OF _ _ _ lora_bytes_def[unfolded Let_def]]) simp_all
    have "0 \<le> min want (of_int frames * loraAppBytesPerFrame (so_params opts) (Some sf))" if "\<not> frames \<le> 0"
      using that \<open>0 < want\<close> frame[of "Some sf"] by simp
    then show ?thesis using assms(1) give[OF that(1) _ st1] unfolding lb by (simp add: delivery_inv_cong[of "st\<lparr>ss_loraBlocked := b\<rparr>" st for b])
  qed
  have short: "?inv (short_bytes opts t m pending sender nb bps want st)" if "map_of (ss_delivered st) (ms_id m) = None" for bps
  proof -
    define bytes where "bytes = min want (get_or (bps / 8 * so_stepS opts) (ss_shortBudget st) (pairKey sender nb))"
    show ?thesis unfolding short_bytes_def Let_def bytes_def[symmetric] using assms(1) give[OF that, of bytes] by simp
  qed
  show ?thesis using assms(1) lora short unfolding nl try_neighbour_def want_def by (auto simp: Let_def)
qed

lemma carry_check_delivery:
  assumes "delivery_inv opts now st" "usual_scenario opts" "m \<in> set (so_messages opts)"
  shows "delivery_inv opts now (snd (carry_check opts t m reach sender st))"
  unfolding delivery_inv_def
proof
  fix m' assume m': "m' \<in> set (so_messages opts)"
  let ?st = "snd (carry_check opts t m reach sender st)"
  have "ss_reachedAt ?st = ss_reachedAt st" "ss_delivered ?st = ss_delivered st"
    by (simp_all add: carry_check_def Let_def split: option.split)
  moreover have "get_or 0 (ss_held ?st) (d, ms_id m') = get_or 0 (ss_held st) (d, ms_id m')" if "map_of (ss_reachedAt st) (ms_id m', d) \<noteq> None" for d
    using that same_message[OF _ assms(3) m'] assms(2) by (auto simp: usual_scenario_def carry_check_def Let_def get_or_def split: option.split)
  ultimately show "at_destination m' (ms_createdAt m' + so_stepS opts) now ?st \<and> delivery_known m' ?st"
    using delivery_cong[of ?st st m'] assms(1) m' by (simp add: delivery_inv_def)
qed

lemma create_delivery:
  assumes "create_message opts t m st = Some st'" "delivery_inv opts now st" "usual_scenario opts" "m \<in> set (so_messages opts)"
  shows "delivery_inv opts now st'"
proof (cases "st' = st")
  case False
  then have st': "st' = st\<lparr>ss_held := map_put (ms_source m, ms_id m) (ms_sizeBytes m) (ss_held st)\<rparr>"
    using assms(1) by (auto simp: create_message_def split: if_split_asm)
  show ?thesis
    unfolding delivery_inv_def
  proof
    fix m' assume m': "m' \<in> set (so_messages opts)"
    have "ms_sizeBytes m' - 1 / 1000000 \<le> get_or 0 (ss_held st') (d, ms_id m')"
      if "ms_sizeBytes m' - 1 / 1000000 \<le> get_or 0 (ss_held st) (d, ms_id m')" for d
      using that same_message[OF _ assms(4) m'] assms(3) by (auto simp: st' get_or_put usual_scenario_def)
    moreover have "at_destination m' (ms_createdAt m' + so_stepS opts) now st" "delivery_known m' st" using assms(2) m' by (simp_all add: delivery_inv_def)
    ultimately show "at_destination m' (ms_createdAt m' + so_stepS opts) now st' \<and> delivery_known m' st'"
      unfolding at_destination_def delivery_known_def by (simp add: st')
  qed
qed (use assms(2) in simp)

lemma pending_subset: "pending_of opts t m st ds = Some pending \<Longrightarrow> set pending \<subseteq> set ds"
  by (induction ds arbitrary: pending) (auto split: if_split_asm option.splits)

lemma sim_step_delivery:
  assumes "sim_step mt opts t st = Some st'" "delivery_inv opts t st" "usual_scenario opts"
  shows "delivery_inv opts (t + so_stepS opts) st'"
proof -
  let ?P = "delivery_inv opts (t + so_stepS opts)"
  obtain st1 adj snaps counts where st1: "fold_opt (create_message opts t) (so_messages opts) (st\<lparr>ss_steps := ss_steps st + 1\<rparr>) = Some st1"
    and served: "fold_opt (serve_message opts t adj (ss_held st1)) (by_urgency (so_messages opts))
      (refill opts st1\<lparr>ss_linkSnapshots := snaps, ss_instantCount := counts,
        ss_channelCredit := min (channel_credit_cap opts) (ss_channelCredit st1 + so_stepS opts * mp_channelEfficiency (so_params opts)),
        ss_shortBudget := [], ss_loraBlocked := []\<rparr>) = Some st'" (is "fold_opt _ _ ?st2 = _")
    by (rule sim_step_parts[OF assms(1)]) (rule that)
  have "at_destination m e (t + so_stepS opts) st" if "at_destination m e t st" for m e
    using that assms(3) by (fastforce simp: at_destination_def usual_scenario_def)
  then have "?P st" using assms(2) by (simp add: delivery_inv_def)
  then have s0: "?P (st\<lparr>ss_steps := ss_steps st + 1\<rparr>)" by (subst delivery_inv_cong) simp_all
  have "?P st1"
    by (rule fold_opt_keeps[where P = ?P and xs = "so_messages opts", OF _ s0 st1]) (rule create_delivery[OF _ _ assms(3)])
  then have start: "?P ?st2" by (subst delivery_inv_cong[of _ st1]) (simp_all add: refill_def)
  have serve: "?P s'" if "m \<in> set (by_urgency (so_messages opts))" "?P s" "serve_message opts t adj (ss_held st1) m s = Some s'" for m s s'
  proof (rule serve_message_keeps[where P = ?P, OF that(3) _ _ that(2)])
    have m: "m \<in> set (so_messages opts)" using that(1) by (simp add: by_urgency_def)
    show "?P (try_neighbour opts t m pending sender have_bytes s1 nl)"
      if "ms_createdAt m \<le> t" "pending_of opts t m s (ms_destinations m) = Some pending" "?P s1" for pending sender have_bytes s1 nl
      by (rule try_neighbour_delivery[OF that(3) assms(3) m that(1) pending_subset[OF that(2)]])
    show "?P (snd (carry_check opts t m reach sender s1))" if "?P s1" for reach sender s1
      by (rule carry_check_delivery[OF that assms(3) m])
  qed
  show ?thesis by (rule fold_opt_keeps[where P = ?P and xs = "by_urgency (so_messages opts)", OF _ start served]) (rule serve)
qed

text \<open>When the destinations of a reported message got it, and the last of these times if all of them did.\<close>

definition arrivals_of :: "delivery_result \<Rightarrow> rat option list" where
  "arrivals_of dr = map snd (dr_deliveredAtByDest dr)"

definition latest_arrival :: "delivery_result \<Rightarrow> rat option" where
  "latest_arrival dr = (if arrivals_of dr = [] \<or> None \<in> set (arrivals_of dr) then None else Some (Max (the ` set (arrivals_of dr))))"

lemma delivery_latest:
  assumes "delivery_known m st"
  shows "dr_deliveredAt (delivery_of st m) = latest_arrival (delivery_of st m)"
proof -
  let ?reach = "\<lambda>d. map_of (ss_reachedAt st) (ms_id m, d)" and ?since = "\<lambda>x. x - ms_createdAt m"
  have a: "arrivals_of (delivery_of st m) = map (\<lambda>d. map_option ?since (?reach d)) (ms_destinations m)" by (simp add: arrivals_of_def delivery_of_def)
  show ?thesis
  proof (cases "map_of (ss_delivered st) (ms_id m)")
    case None
    then have "ms_destinations m = [] \<or> (\<exists>d \<in> set (ms_destinations m). ?reach d = None)" using assms by (auto simp: delivery_known_def)
    then have "latest_arrival (delivery_of st m) = None" by (auto simp: latest_arrival_def a)
    then show ?thesis using None by (simp add: delivery_of_def)
  next
    case (Some x)
    then have all: "\<And>d. d \<in> set (ms_destinations m) \<Longrightarrow> ?reach d \<noteq> None" and upper: "\<And>d y. ?reach d = Some y \<Longrightarrow> y \<le> x"
      using assms by (auto simp: delivery_known_def)
    obtain d where d: "d \<in> set (ms_destinations m)" "?reach d = Some x" using Some assms by (auto simp: delivery_known_def)
    have "Max (the ` set (arrivals_of (delivery_of st m))) = ?since x"
    proof (rule Max_eqI)
      show "?since x \<in> the ` set (arrivals_of (delivery_of st m))" using d by (force simp: a)
    next
      fix y assume "y \<in> the ` set (arrivals_of (delivery_of st m))"
      then obtain e where e: "e \<in> set (ms_destinations m)" "y = the (map_option ?since (?reach e))" by (auto simp: a)
      then obtain z where "?reach e = Some z" using all[OF e(1)] by blast
      then show "y \<le> ?since x" using e(2) upper by simp
    qed (simp add: a)
    moreover have "None \<notin> set (arrivals_of (delivery_of st m))" using all by (fastforce simp: a)
    moreover have "arrivals_of (delivery_of st m) \<noteq> []" using d(1) by (auto simp: a)
    ultimately show ?thesis using Some by (simp add: latest_arrival_def delivery_of_def)
  qed
qed

lemma foldl_max_base: "b \<le> foldl max b bs" for b :: rat
  by (induction bs arbitrary: b) (auto intro: order_trans[OF max.cobounded1])

lemma foldl_max_ge: "x \<in> set (b # bs) \<Longrightarrow> x \<le> foldl max b bs" for b :: rat
proof (induction bs arbitrary: b)
  case (Cons c bs)
  then consider "x = b" | "x = c" | "x \<in> set (max b c # bs)" by auto
  then show ?case
    by cases (use foldl_max_base[of "max b c" bs] Cons.IH[of "max b c"] in auto)
qed simp

text \<open>C19: The report is true: a message counts as delivered exactly when all its destinations have got it, at the time of the last of them; none of them can have got
it in less than a step, and a destination that has it holds all its bytes.\<close>

theorem delivery_report_true:
  assumes "usual_scenario opts" "simulate mt opts = Some (Some r)" "(m, dr) \<in> set (zip (so_messages opts) (sr_deliveries r))"
  shows "dr_deliveredAt dr = latest_arrival dr \<and>
    (\<forall>x. Some x \<in> set (arrivals_of dr) \<longrightarrow> so_stepS opts \<le> x \<and> (\<exists>b. dr_bytesAtDestination dr = Some b \<and> ms_sizeBytes m - 1 / 1000000 \<le> b \<and> b \<le> ms_sizeBytes m))"
proof -
  obtain st where st: "sim_loop mt opts 0 (sim_start opts) = Some (Some st)" "sim_report opts st = Some r"
    using assms(2) by (auto simp: simulate_def split: option.splits)
  have "delivery_inv opts 0 (sim_start opts)" by (auto simp: delivery_inv_def at_destination_def delivery_known_def sim_start_def intro: list.set_intros)
  from sim_loop_end[where P = "delivery_inv opts", OF st(1) refl this] sim_step_delivery[OF _ _ assms(1)]
  obtain t where inv: "delivery_inv opts t st" by blast
  have dr: "dr = delivery_of st m" "m \<in> set (so_messages opts)"
    using assms(3) st(2) by (auto simp: sim_report_def set_zip split: if_split_asm)
  have a: "at_destination m (ms_createdAt m + so_stepS opts) t st" and k: "delivery_known m st" using inv dr(2) by (auto simp: delivery_inv_def)
  have "so_stepS opts \<le> x \<and> (\<exists>b. dr_bytesAtDestination dr = Some b \<and> ms_sizeBytes m - 1 / 1000000 \<le> b \<and> b \<le> ms_sizeBytes m)"
    if x: "Some x \<in> set (arrivals_of dr)" for x
  proof -
    obtain d y where y: "d \<in> set (ms_destinations m)" "map_of (ss_reachedAt st) (ms_id m, d) = Some y" "x = y - ms_createdAt m"
      using x by (auto simp: arrivals_of_def dr(1) delivery_of_def map_option_eq_Some dest: sym)
    then have "ms_createdAt m + so_stepS opts \<le> y" "ms_sizeBytes m - 1 / 1000000 \<le> get_or 0 (ss_held st) (d, ms_id m)"
      using a by (auto simp: at_destination_def)
    moreover obtain b bs where b: "map (\<lambda>d. get_or 0 (ss_held st) (d, ms_id m)) (ms_destinations m) = b # bs" using y(1) by (cases "ms_destinations m") auto
    moreover have "get_or 0 (ss_held st) (d, ms_id m) \<in> set (b # bs)" unfolding b[symmetric] using y(1) by auto
    then have "get_or 0 (ss_held st) (d, ms_id m) \<le> foldl max b bs" by (rule foldl_max_ge)
    ultimately show ?thesis using y(3) by (auto simp: dr(1) delivery_of_def)
  qed
  then show ?thesis using delivery_latest[OF k] dr(1) by blast
qed

section \<open>A small run\<close>

text \<open>Two boxes a hundred metres apart, out of reach of the short radios, and a message of twenty bytes.\<close>

definition small_maths :: maths where
  "small_maths = \<lparr>mt_hypot = (\<lambda>x y z. \<bar>x\<bar> + \<bar>y\<bar> + \<bar>z\<bar>), mt_log10 = (\<lambda>_. 0), mt_pi = 3\<rparr>"

definition small_node :: "string \<Rightarrow> rat \<Rightarrow> node_spec" where
  "small_node n x = \<lparr>nd_id = n, nd_kind = BoxKind, nd_path = [\<lparr>p3_x = x, p3_y = 0, p3_z = 0, wp_t = 0\<rparr>], nd_heightAglM = None, nd_offFrom = None\<rparr>"

definition small_params :: model_params where
  "small_params = \<lparr>mp_env = \<lparr>ev_pathLossExponent = 2, ev_fadeMarginDb = 10, ev_obstructionDb = [], ev_obstructionFn = None, ev_obstructionScale = 1, ev_interferenceDb = 0, ev_terrain = None\<rparr>,
     mp_reg = EU868_G1, mp_phy = DEFAULT_PHY, mp_shortRange = DEFAULT_SHORT_RANGE, mp_loraFrameBytes = 222, mp_loraFrameOverheadBytes = 20,
     mp_protocolOverhead = 2, mp_channelEfficiency = 1 / 2, mp_maxSf = 12\<rparr>"

definition small_scenario :: sim_options where
  "small_scenario = \<lparr>so_nodes = [small_node ''a'' 0, small_node ''b'' 100],
     so_messages = [\<lparr>ms_id = ''m'', ms_sizeBytes = 20, ms_priority = 0, ms_source = ''a'', ms_destinations = [''b''], ms_createdAt = 0\<rparr>],
     so_params = small_params, so_horizonS = 0, so_stepS = 60, so_custody = True, so_relayCarryTtlS = Some ARALD_QUEUE_TTL_S, so_extraLossDb = None, so_airtimeMetric = False\<rparr>"

lemma small_scenario_usual: "usual_scenario small_scenario"
  by (simp add: usual_scenario_def small_scenario_def small_params_def EU868_G1_def usual_phy_def DEFAULT_PHY_def)

lemma small_step: "(case sim_step small_maths small_scenario 0 (sim_start small_scenario) of None \<Rightarrow> False
    | Some st \<Rightarrow> map_of (ss_delivered st) ''m'' = Some 60 \<and> 0 < get_or 0 (ss_airtime st) ''m'' \<and> sim_report small_scenario st \<noteq> None)"
  by code_simp

lemma small_run: "\<exists>r dr. simulate small_maths small_scenario = Some (Some r) \<and> sr_deliveries r = [dr] \<and> dr_deliveredAt dr = Some 60 \<and> 0 < dr_loraAirtimeS dr"
proof -
  obtain st r where st: "sim_step small_maths small_scenario 0 (sim_start small_scenario) = Some st" "map_of (ss_delivered st) ''m'' = Some 60"
    "0 < get_or 0 (ss_airtime st) ''m''" "sim_report small_scenario st = Some r" using small_step by (auto split: option.splits)
  have "sim_loop small_maths small_scenario 0 (sim_start small_scenario) = Some (Some st)"
    by (subst sim_loop.simps, simp add: st small_scenario_def[THEN arg_cong[of _ _ so_horizonS]] small_scenario_def[THEN arg_cong[of _ _ so_stepS]])
      (subst sim_loop.simps, simp add: small_scenario_def[THEN arg_cong[of _ _ so_horizonS]])
  then have "simulate small_maths small_scenario = Some (Some r)" using st(4) by (simp add: simulate_def)
  moreover have "sr_deliveries r = map (delivery_of st) (so_messages small_scenario)" using st(4) by (auto simp: sim_report_def split: if_split_asm)
  moreover have "\<exists>dr. map (delivery_of st) (so_messages small_scenario) = [dr] \<and> dr_deliveredAt dr = Some 60 \<and> 0 < dr_loraAirtimeS dr"
    using st(2,3) by (simp add: small_scenario_def delivery_of_def)
  ultimately show ?thesis by auto
qed

lemma air_time_limited_witness:
  "\<exists>r. simulate small_maths small_scenario = Some (Some r) \<and> 0 < sum_list (map dr_loraAirtimeS (sr_deliveries r)) \<and> sum_list (map dr_loraAirtimeS (sr_deliveries r)) \<le> 30"
proof -
  obtain r dr where r: "simulate small_maths small_scenario = Some (Some r)" "sr_deliveries r = [dr]" "0 < dr_loraAirtimeS dr" using small_run by auto
  from air_time_limited[OF small_scenario_usual r(1)] have "dr_loraAirtimeS dr \<le> 30" by (simp add: r(2) small_scenario_def small_params_def)
  then show ?thesis using r by auto
qed

lemma delivery_report_true_witness:
  "\<exists>r dr. simulate small_maths small_scenario = Some (Some r) \<and> sr_deliveries r = [dr] \<and> dr_deliveredAt dr = Some 60 \<and> latest_arrival dr = Some 60"
proof -
  obtain r dr where r: "simulate small_maths small_scenario = Some (Some r)" "sr_deliveries r = [dr]" "dr_deliveredAt dr = Some 60" using small_run by auto
  have "(hd (so_messages small_scenario), dr) \<in> set (zip (so_messages small_scenario) (sr_deliveries r))" by (simp add: r(2) small_scenario_def)
  from delivery_report_true[OF small_scenario_usual r(1) this] r show ?thesis by auto
qed

lemma simulation_ends_witness: "simulate small_maths small_scenario \<noteq> None"
  by (rule simulation_ends) (simp add: small_scenario_def)

end
