(* ===== verification/TileCache.thy ===== *)
theory TileCache
  imports GeoTile
begin

text \<open>
  The store of terrain tiles on disk (\<open>tools/map-data/tile-cache.ts\<close>): a directory with one compressed file per tile, a small memory in front of it, the list of the
  files that cannot be read, and the cap on the size of the directory. The names of the files follow from the index, so the directory is a map from indices. The
  compression, with its limit on the size of the output, and the text of the header are arguments; writing a file and marking it as used always succeed here.
\<close>

section \<open>The store\<close>

definition MAX_TILE_FILE_BYTES :: nat where "MAX_TILE_FILE_BYTES = 2000000"
definition MAX_TILE_RAW_BYTES :: nat where "MAX_TILE_RAW_BYTES = 1000000"
definition DEFAULT_CACHE_CAP_BYTES :: rat where "DEFAULT_CACHE_CAP_BYTES = 1500000000"

record tile_codec =
  cd_gunzip :: "nat \<Rightarrow> 8 word list \<Rightarrow> 8 word list option"
  cd_gzip :: "8 word list \<Rightarrow> 8 word list"
  cd_parse :: "8 word list \<Rightarrow> jsval option"
  cd_print :: "jsval \<Rightarrow> 8 word list"

type_synonym tile_disk = "(int \<times> int, 8 word list \<times> rat) jsmap"

record tile_cache =
  tc_mem :: "(int \<times> int, geo_tile) jsmap"
  tc_misses :: "(int \<times> int) list"
  tc_maxInMemory :: nat

definition tile_cache_new :: "nat \<Rightarrow> tile_cache" where
  "tile_cache_new limit = \<lparr>tc_mem = [], tc_misses = [], tc_maxInMemory = limit\<rparr>"

definition cache_has :: "tile_disk \<Rightarrow> int \<times> int \<Rightarrow> bool" where
  "cache_has disk k \<longleftrightarrow> tile_in_range (fst k) (snd k) \<and> map_of disk k \<noteq> None"

text \<open>The oldest entries of the memory go first.\<close>

fun shrink :: "nat \<Rightarrow> ('k, 'v) jsmap \<Rightarrow> ('k, 'v) jsmap" where
  "shrink limit [] = []"
| "shrink limit (e # m) = (if length (e # m) > limit then shrink limit m else e # m)"

definition remember :: "int \<times> int \<Rightarrow> tile_cache \<Rightarrow> tile_cache" where
  "remember k c = (let misses = (if length (tc_misses c) > 5000 then [] else tc_misses c)
     in c\<lparr>tc_misses := (if k \<in> set misses then misses else misses @ [k])\<rparr>)"

definition read_tile :: "tile_codec \<Rightarrow> tile_disk \<Rightarrow> int \<times> int \<Rightarrow> geo_tile option" where
  "read_tile cd disk k = (case map_of disk k of None \<Rightarrow> None
   | Some (bytes, _) \<Rightarrow> if length bytes > MAX_TILE_FILE_BYTES then None
     else case cd_gunzip cd MAX_TILE_RAW_BYTES bytes of None \<Rightarrow> None
     | Some raw \<Rightarrow> (case decodeTile (cd_parse cd) raw of Inl _ \<Rightarrow> None | Inr tile \<Rightarrow> Some tile))"

text \<open>The file is marked as used at the time \<open>now\<close>.\<close>

definition touch :: "rat \<Rightarrow> int \<times> int \<Rightarrow> tile_disk \<Rightarrow> tile_disk" where
  "touch now k disk = (case map_of disk k of None \<Rightarrow> disk | Some (bytes, _) \<Rightarrow> map_put k (bytes, now) disk)"

definition cache_get :: "tile_codec \<Rightarrow> rat \<Rightarrow> int \<times> int \<Rightarrow> tile_disk \<times> tile_cache \<Rightarrow> geo_tile option \<times> tile_disk \<times> tile_cache" where
  "cache_get cd now k s = (case s of (disk, c) \<Rightarrow> case map_of (tc_mem c) k of
     Some hit \<Rightarrow> (Some hit, disk, c\<lparr>tc_mem := map_put k hit (map_del k (tc_mem c))\<rparr>)
   | None \<Rightarrow> if k \<in> set (tc_misses c) \<or> \<not> tile_in_range (fst k) (snd k) then (None, disk, c)
     else case read_tile cd disk k of
       None \<Rightarrow> (None, disk, remember k c)
     | Some tile \<Rightarrow> if gt_tx tile \<noteq> fst k \<or> gt_ty tile \<noteq> snd k then (None, disk, remember k c)
         else (Some tile, touch now k disk, c\<lparr>tc_mem := shrink (tc_maxInMemory c) (map_put k tile (tc_mem c))\<rparr>))"

definition cache_isValid :: "tile_codec \<Rightarrow> rat \<Rightarrow> int \<times> int \<Rightarrow> tile_disk \<times> tile_cache \<Rightarrow> bool \<times> tile_disk \<times> tile_cache" where
  "cache_isValid cd now k s = (case s of (disk, c) \<Rightarrow>
     if \<not> cache_has disk k then (False, disk, c)
     else case cache_get cd now k (disk, c\<lparr>tc_misses := filter (\<lambda>j. j \<noteq> k) (tc_misses c), tc_mem := map_del k (tc_mem c)\<rparr>) of
       (Some _, s') \<Rightarrow> (True, s')
     | (None, disk', c') \<Rightarrow> (False, map_del k disk', c'))"

text \<open>The left side is the exception, for an index outside the grid or a tile of the wrong size; the directory and the memory are then as before.\<close>

definition cache_put :: "tile_codec \<Rightarrow> rat \<Rightarrow> geo_tile \<Rightarrow> tile_disk \<times> tile_cache \<Rightarrow> string + tile_disk \<times> tile_cache" where
  "cache_put cd now tile s = (case s of (disk, c) \<Rightarrow> let k = (gt_tx tile, gt_ty tile) in
     if \<not> tile_in_range (gt_tx tile) (gt_ty tile) then Inl ''not a valid tile''
     else case encodeTile (cd_print cd) tile of Inl e \<Rightarrow> Inl e
     | Inr bytes \<Rightarrow> Inr (map_put k (cd_gzip cd bytes, now) disk,
         c\<lparr>tc_mem := shrink (tc_maxInMemory c) (map_put k tile (tc_mem c)), tc_misses := filter (\<lambda>j. j \<noteq> k) (tc_misses c)\<rparr>))"

section \<open>The cap\<close>

record cached_file =
  cf_path :: string
  cf_bytes :: nat
  cf_mtimeMs :: rat

definition name_ends :: "string \<Rightarrow> string \<Rightarrow> bool" where
  "name_ends suffix s \<longleftrightarrow> length suffix \<le> length s \<and> drop (length s - length suffix) s = suffix"

text \<open>The directory as it is read: \<open>None\<close> for a name that is no directory, and for a file that is gone when it is looked at. The second list is what is removed, the
writes that were interrupted more than an hour ago.\<close>

definition slash :: "string \<Rightarrow> string \<Rightarrow> string" where
  "slash d f = d @ ''/'' @ f"

definition list_file :: "rat \<Rightarrow> string \<Rightarrow> string \<times> (nat \<times> rat) option \<Rightarrow> cached_file list \<times> string list" where
  "list_file now sub fs = (case fs of (f, st) \<Rightarrow>
     if \<not> name_ends ''.tile.gz'' f \<and> \<not> name_ends ''.part'' f then ([], [])
     else case st of None \<Rightarrow> ([], [])
     | Some (bytes, mtime) \<Rightarrow>
         if \<not> name_ends ''.tile.gz'' f then ([], if now - mtime > 3600000 then [slash sub f] else [])
         else ([\<lparr>cf_path = slash sub f, cf_bytes = bytes, cf_mtimeMs = mtime\<rparr>], []))"

definition list_row :: "rat \<Rightarrow> string \<Rightarrow> string \<times> (string \<times> (nat \<times> rat) option) list option \<Rightarrow> cached_file list \<times> string list" where
  "list_row now dir row = (case row of (name, names) \<Rightarrow> case names of None \<Rightarrow> ([], [])
     | Some fs \<Rightarrow> let found = map (list_file now (slash dir name)) fs in (concat (map fst found), concat (map snd found)))"

definition listCache :: "rat \<Rightarrow> string \<Rightarrow> (string \<times> (string \<times> (nat \<times> rat) option) list option) list option \<Rightarrow> cached_file list \<times> string list" where
  "listCache now dir tree = (case tree of None \<Rightarrow> ([], [])
     | Some rows \<Rightarrow> let found = map (list_row now dir) rows in (concat (map fst found), concat (map snd found)))"

definition total_bytes :: "cached_file list \<Rightarrow> nat" where
  "total_bytes fs = sum_list (map cf_bytes fs)"

fun evict_files :: "rat \<Rightarrow> string set \<Rightarrow> rat \<Rightarrow> cached_file list \<Rightarrow> cached_file list" where
  "evict_files target keep size_now [] = []"
| "evict_files target keep size_now (f # fs) =
     (if size_now \<le> target then []
      else if cf_path f \<in> keep then evict_files target keep size_now fs
      else f # evict_files target keep (size_now - of_nat (cf_bytes f)) fs)"

text \<open>The files that are removed, in this order; the code returns how many.\<close>

definition enforceCap :: "rat \<Rightarrow> string set \<Rightarrow> cached_file list \<Rightarrow> cached_file list" where
  "enforceCap cap keep files = (let size_now = of_nat (total_bytes files) in
     if size_now \<le> cap then [] else evict_files (cap * (9 / 10)) keep size_now (sort_key cf_mtimeMs files))"

section \<open>The memory\<close>

definition cache_ok :: "tile_cache \<Rightarrow> bool" where
  "cache_ok c \<longleftrightarrow> map_wf (tc_mem c) \<and> length (tc_mem c) \<le> tc_maxInMemory c \<and> length (tc_misses c) \<le> 5001 \<and>
     (\<forall>(k, t) \<in> set (tc_mem c). k = (gt_tx t, gt_ty t) \<and> tile_in_range (fst k) (snd k))"

lemma shrink_drop: "shrink limit m = drop (length m - limit) m"
  by (induction m) (auto simp: Suc_diff_le)

lemma shrink_facts: "length (shrink limit m) \<le> limit" "map_wf m \<Longrightarrow> map_wf (shrink limit m)" "set (shrink limit m) \<subseteq> set m"
  by (simp_all add: shrink_drop drop_map[symmetric] set_drop_subset)

lemma cache_ok_new: "cache_ok (tile_cache_new limit)"
  by (simp add: cache_ok_def tile_cache_new_def)

lemma remember_ok: "cache_ok c \<Longrightarrow> cache_ok (remember k c)"
  by (auto simp: cache_ok_def remember_def Let_def)

lemma put_entries: "set (map_put k v m) \<subseteq> insert (k, v) (set m)"
  by (induction m) auto

lemma memory_put_ok:
  assumes "cache_ok c" "k = (gt_tx t, gt_ty t)" "tile_in_range (fst k) (snd k)" "length ms \<le> 5001"
  shows "cache_ok (c\<lparr>tc_mem := shrink (tc_maxInMemory c) (map_put k t (tc_mem c)), tc_misses := ms\<rparr>)"
proof -
  have wf: "map_wf (tc_mem c)" using assms(1) by (simp add: cache_ok_def)
  define m where "m = shrink (tc_maxInMemory c) (map_put k t (tc_mem c))"
  have "set m \<subseteq> insert (k, t) (set (tc_mem c))" unfolding m_def by (rule subset_trans[OF shrink_facts(3) put_entries])
  moreover have "map_wf m" "length m \<le> tc_maxInMemory c" unfolding m_def by (simp_all add: shrink_facts wf)
  ultimately show ?thesis unfolding m_def[symmetric] using assms by (auto simp: cache_ok_def)
qed

lemma memory_drop_ok: "cache_ok c \<Longrightarrow> cache_ok (c\<lparr>tc_misses := filter P (tc_misses c), tc_mem := map_del k (tc_mem c)\<rparr>)"
  by (auto simp: cache_ok_def map_del_filter distinct_map_filter intro: order_trans[OF length_filter_le])

lemma cache_get_ok:
  assumes "cache_ok c"
  shows "cache_ok (snd (snd (cache_get cd now k (disk, c)))) \<and>
    (\<forall>t. fst (cache_get cd now k (disk, c)) = Some t \<longrightarrow> (gt_tx t, gt_ty t) = k \<and> tile_in_range (fst k) (snd k))"
proof (cases "map_of (tc_mem c) k")
  case (Some hit)
  have hit: "k = (gt_tx hit, gt_ty hit)" "tile_in_range (fst k) (snd k)" using assms map_of_SomeD[OF Some] by (auto simp: cache_ok_def)
  have wf: "map_wf (tc_mem c)" using assms by (simp add: cache_ok_def)
  have "length (map_put k hit (map_del k (tc_mem c))) = length (tc_mem c)" using map_del_length[OF wf, of k] Some by (simp add: map_put_length_new)
  moreover have "set (map_put k hit (map_del k (tc_mem c))) \<subseteq> insert (k, hit) (set (tc_mem c))"
    using put_entries[of k hit "map_del k (tc_mem c)"] wf by (auto simp: map_del_filter)
  ultimately show ?thesis using assms Some hit wf by (auto simp: cache_get_def cache_ok_def)
next
  case None
  have put: "cache_ok (c\<lparr>tc_mem := shrink (tc_maxInMemory c) (map_put k t (tc_mem c))\<rparr>)" if "k = (gt_tx t, gt_ty t)" "tile_in_range (fst k) (snd k)" for t
    using memory_put_ok[OF assms that, of "tc_misses c"] assms by (simp add: cache_ok_def)
  show ?thesis
  proof (cases "k \<in> set (tc_misses c) \<or> \<not> tile_in_range (fst k) (snd k)")
    case True
    then show ?thesis using None assms by (auto simp: cache_get_def)
  next
    case False
    then show ?thesis using None put remember_ok[OF assms] by (cases k) (auto simp: cache_get_def split: option.split)
  qed
qed

lemma cache_isValid_ok:
  assumes "cache_ok c"
  shows "cache_ok (snd (snd (cache_isValid cd now k (disk, c))))"
proof -
  let ?c = "c\<lparr>tc_misses := filter (\<lambda>j. j \<noteq> k) (tc_misses c), tc_mem := map_del k (tc_mem c)\<rparr>"
  have "cache_ok ?c" by (rule memory_drop_ok[OF assms])
  from cache_get_ok[OF this, of cd now k disk]
  have "cache_ok (snd (snd (cache_get cd now k (disk, ?c))))" by blast
  then show ?thesis using assms by (auto simp: cache_isValid_def split: option.splits prod.splits)
qed

lemma cache_put_ok:
  assumes "cache_ok c" "cache_put cd now t (disk, c) = Inr (disk', c')"
  shows "cache_ok c'"
proof -
  have "cache_ok (c\<lparr>tc_mem := shrink (tc_maxInMemory c) (map_put (gt_tx t, gt_ty t) t (tc_mem c)), tc_misses := filter (\<lambda>j. j \<noteq> (gt_tx t, gt_ty t)) (tc_misses c)\<rparr>)"
    if "tile_in_range (gt_tx t) (gt_ty t)"
    using assms(1) that by (intro memory_put_ok order_trans[OF length_filter_le]) (auto simp: cache_ok_def)
  then show ?thesis using assms(2) by (auto simp: cache_put_def Let_def split: if_split_asm sum.splits)
qed

text \<open>The operations of a store in any order, with the directory changing under it in any way between them.\<close>

datatype cache_op = GetTile "int \<times> int" | CheckTile "int \<times> int" | PutTile geo_tile | OtherProcess tile_disk

definition cache_step :: "tile_codec \<Rightarrow> rat \<times> cache_op \<Rightarrow> tile_disk \<times> tile_cache \<Rightarrow> tile_disk \<times> tile_cache" where
  "cache_step cd timed s = (case snd timed of
     GetTile k \<Rightarrow> snd (cache_get cd (fst timed) k s)
   | CheckTile k \<Rightarrow> snd (cache_isValid cd (fst timed) k s)
   | PutTile t \<Rightarrow> (case cache_put cd (fst timed) t s of Inl _ \<Rightarrow> s | Inr s' \<Rightarrow> s')
   | OtherProcess disk \<Rightarrow> (disk, snd s))"

lemma cache_step_ok: "cache_ok (snd s) \<Longrightarrow> cache_ok (snd (cache_step cd timed s))"
proof (cases s)
  case (Pair disk c)
  assume "cache_ok (snd s)"
  then have "cache_ok c" using Pair by simp
  then show ?thesis using cache_get_ok[of c cd "fst timed" _ disk] cache_isValid_ok[of c cd "fst timed" _ disk] cache_put_ok[of c cd "fst timed" _ disk]
    unfolding Pair cache_step_def by (cases "snd timed") (auto split: sum.split)
qed

text \<open>Whatever happened, what a lookup returns is a tile of that place on the grid, and memory stays within its limit.\<close>

theorem cached_tile_in_its_place:
  assumes "s = fold (cache_step cd) ops (disk, tile_cache_new limit)" "cache_get cd now k s = (Some t, s')"
  shows "(gt_tx t, gt_ty t) = k \<and> tile_in_range (fst k) (snd k) \<and> length (tc_mem (snd s')) \<le> tc_maxInMemory (snd s') \<and> length (tc_misses (snd s')) \<le> 5001"
proof -
  have run: "cache_ok (snd (fold (cache_step cd) ops s0))" if "cache_ok (snd s0)" for s0
    using that by (induction ops arbitrary: s0) (simp_all add: cache_step_ok)
  have "cache_ok (snd s)" unfolding assms(1) by (rule run) (simp add: cache_ok_new)
  from cache_get_ok[OF this, of cd now k "fst s"] assms(2) show ?thesis by (simp add: cache_ok_def)
qed

text \<open>A check tells the truth and repairs: afterwards the tile can be had, or there is no file for it any more.\<close>

lemma valid_tile_repaired:
  assumes "cache_isValid cd now k (disk, c) = (b, disk', c')"
  shows "if b then \<exists>t. read_tile cd disk k = Some t \<and> (gt_tx t, gt_ty t) = k else \<not> cache_has disk' k"
proof (cases "cache_has disk k")
  case False
  then show ?thesis using assms by (simp add: cache_isValid_def)
next
  case True
  then show ?thesis using assms
    by (cases "read_tile cd disk k") (auto simp: cache_isValid_def cache_get_def cache_has_def prod_eq_iff split: if_split_asm)
qed

section \<open>The size of the directory\<close>

lemma evict_prefix:
  "\<exists>seen rest. fs = seen @ rest \<and> evict_files target keep n fs = filter (\<lambda>f. cf_path f \<notin> keep) seen \<and>
     (rest = [] \<or> n - of_nat (total_bytes (filter (\<lambda>f. cf_path f \<notin> keep) seen)) \<le> target)"
proof (induction fs arbitrary: n)
  case (Cons f fs)
  show ?case
  proof (cases "n \<le> target")
    case True
    then show ?thesis by (intro exI[of _ "[]"] exI[of _ "f # fs"]) (simp add: total_bytes_def)
  next
    case False
    define n1 where "n1 = (if cf_path f \<in> keep then n else n - of_nat (cf_bytes f))"
    from Cons.IH[of n1] obtain seen rest where
      ih: "fs = seen @ rest" "evict_files target keep n1 fs = filter (\<lambda>f. cf_path f \<notin> keep) seen"
        "rest = [] \<or> n1 - of_nat (total_bytes (filter (\<lambda>f. cf_path f \<notin> keep) seen)) \<le> target" by blast
    have "evict_files target keep n (f # fs) = filter (\<lambda>f. cf_path f \<notin> keep) (f # seen)" using False ih(2) by (simp add: n1_def split: if_split_asm)
    moreover have "n - of_nat (total_bytes (filter (\<lambda>f. cf_path f \<notin> keep) (f # seen))) = n1 - of_nat (total_bytes (filter (\<lambda>f. cf_path f \<notin> keep) seen))"
      by (simp add: n1_def total_bytes_def)
    ultimately show ?thesis using ih(1,3) by (intro exI[of _ "f # seen"] exI[of _ rest]) simp
  qed
qed simp

text \<open>Above the cap, files go in the order of their last use, never a protected one, until nine tenths of the cap are left or every file that may go is gone.\<close>

theorem cap_enforced:
  "\<exists>seen rest. sort_key cf_mtimeMs files = seen @ rest \<and> enforceCap cap keep files = filter (\<lambda>f. cf_path f \<notin> keep) seen \<and>
     (of_nat (total_bytes files) \<le> cap \<or> rest = [] \<or> of_nat (total_bytes files) - of_nat (total_bytes (enforceCap cap keep files)) \<le> cap * (9 / 10))"
proof (cases "(of_nat (total_bytes files) :: rat) \<le> cap")
  case True
  then show ?thesis by (intro exI[of _ "[]"] exI[of _ "sort_key cf_mtimeMs files"]) (simp add: enforceCap_def Let_def)
next
  case False
  then have "enforceCap cap keep files = evict_files (cap * (9 / 10)) keep (of_nat (total_bytes files)) (sort_key cf_mtimeMs files)"
    by (simp add: enforceCap_def Let_def)
  then show ?thesis using evict_prefix[of "sort_key cf_mtimeMs files" "cap * (9 / 10)" keep "of_nat (total_bytes files)"] by metis
qed

end
