(* ===== verification/NetworkEditor.thy ===== *)
theory NetworkEditor
  imports RadioModel RadioChips UrlSafety
begin

text \<open>
  The pure part of the editor of the network design tool (\<open>tools/network-design/logic.ts\<close>): the window on the map, and the edits of the devices of a network. Numbers
  are exact rationals; the cosine that the local projection takes of a latitude is an argument. Of a network the fields are kept that an edit reads or writes.
\<close>

section \<open>The window on the map\<close>

record map_view =
  vw_cx :: rat
  vw_cy :: rat
  vw_mPerPx :: rat
  vw_w :: rat
  vw_h :: rat

definition MIN_M_PER_PX :: rat where "MIN_M_PER_PX = 1"
definition MAX_M_PER_PX :: rat where "MAX_M_PER_PX = 2000"

definition worldToScreen :: "map_view \<Rightarrow> rat \<times> rat \<Rightarrow> rat \<times> rat" where
  "worldToScreen v q = (vw_w v / 2 + (fst q - vw_cx v) / vw_mPerPx v, vw_h v / 2 - (snd q - vw_cy v) / vw_mPerPx v)"

definition screenToWorld :: "map_view \<Rightarrow> rat \<times> rat \<Rightarrow> rat \<times> rat" where
  "screenToWorld v s = (vw_cx v + (fst s - vw_w v / 2) * vw_mPerPx v, vw_cy v - (snd s - vw_h v / 2) * vw_mPerPx v)"

definition fitView :: "(rat \<times> rat) list \<Rightarrow> rat \<Rightarrow> rat \<Rightarrow> rat \<Rightarrow> rat \<Rightarrow> map_view" where
  "fitView points w h margin minSpanM =
     (if points = [] then \<lparr>vw_cx = 0, vw_cy = 0, vw_mPerPx = max MIN_M_PER_PX (minSpanM / max 1 (min w h)), vw_w = w, vw_h = h\<rparr>
      else let xs = map fst points; ys = map snd points;
               highX = foldl max (hd xs) (tl xs); lowX = foldl min (hd xs) (tl xs); highY = foldl max (hd ys) (tl ys); lowY = foldl min (hd ys) (tl ys);
               spanX = max (highX - lowX) minSpanM; spanY = max (highY - lowY) minSpanM
           in \<lparr>vw_cx = (highX + lowX) / 2, vw_cy = (highY + lowY) / 2,
               vw_mPerPx = min MAX_M_PER_PX (max MIN_M_PER_PX (max (spanX / (w * (1 - 2 * margin))) (spanY / (h * (1 - 2 * margin))))), vw_w = w, vw_h = h\<rparr>)"

definition zoomAt :: "map_view \<Rightarrow> rat \<times> rat \<Rightarrow> rat \<Rightarrow> map_view" where
  "zoomAt v s factor = (let before = screenToWorld v s;
       zoomed = v\<lparr>vw_mPerPx := min MAX_M_PER_PX (max MIN_M_PER_PX (vw_mPerPx v * factor))\<rparr>;
       after = screenToWorld zoomed s
     in zoomed\<lparr>vw_cx := vw_cx v + (fst before - fst after), vw_cy := vw_cy v + (snd before - snd after)\<rparr>)"

record world_box =
  wb_minX :: rat
  wb_minY :: rat
  wb_maxX :: rat
  wb_maxY :: rat

definition viewBounds :: "map_view \<Rightarrow> world_box" where
  "viewBounds v = (let a = screenToWorld v (0, vw_h v); b = screenToWorld v (vw_w v, 0)
     in \<lparr>wb_minX = fst a, wb_minY = snd a, wb_maxX = fst b, wb_maxY = snd b\<rparr>)"

definition haloCellM :: "map_view \<Rightarrow> rat \<Rightarrow> int" where
  "haloCellM v cols = max 50 (math_round (vw_w v * vw_mPerPx v / cols / 50) * 50)"

section \<open>Places\<close>

record geo_frame =
  fr_lat0 :: rat
  fr_lon0 :: rat

definition M_PER_DEG_LAT :: rat where "M_PER_DEG_LAT = 110574"
definition M_PER_DEG_LON_EQUATOR :: rat where "M_PER_DEG_LON_EQUATOR = 111320"

text \<open>Places are pairs of latitude and longitude, local points pairs of metres to the east and to the north.\<close>

definition toLocal :: "(rat \<Rightarrow> rat) \<Rightarrow> geo_frame \<Rightarrow> rat \<times> rat \<Rightarrow> rat \<times> rat" where
  "toLocal cosine fr g = ((snd g - fr_lon0 fr) * M_PER_DEG_LON_EQUATOR * cosine (fr_lat0 fr), (fst g - fr_lat0 fr) * M_PER_DEG_LAT)"

definition toGeo :: "(rat \<Rightarrow> rat) \<Rightarrow> geo_frame \<Rightarrow> rat \<times> rat \<Rightarrow> rat \<times> rat" where
  "toGeo cosine fr p = (fr_lat0 fr + snd p / M_PER_DEG_LAT, fr_lon0 fr + fst p / (M_PER_DEG_LON_EQUATOR * cosine (fr_lat0 fr)))"

section \<open>Edits\<close>

record route_stop =
  rs_tS :: rat
  rs_place :: "rat \<times> rat"

record net_device =
  dv_id :: string
  dv_kind :: device_kind
  dv_place :: "rat \<times> rat"
  dv_heightAglM :: "rat option"
  dv_label :: "string option"
  dv_route :: "route_stop list option"

record net_config =
  nc_frame :: geo_frame
  nc_devices :: "net_device list"

definition ID_PREFIX :: "device_kind \<Rightarrow> string" where
  "ID_PREFIX k = (case k of BoxKind \<Rightarrow> ''BOX'' | PortableKind \<Rightarrow> ''PORT'' | RelayKind \<Rightarrow> ''FR'' | CardKind \<Rightarrow> ''C'' | PhoneKind \<Rightarrow> ''P'')"

lemma dec_text_inj: "dec_text m = dec_text n \<Longrightarrow> m = n"
  by (metis dec_text_value)

lemma finite_numbers: "finite {j. i \<le> j \<and> prefix @ dec_text j \<in> set taken}"
proof -
  have "{j. i \<le> j \<and> prefix @ dec_text j \<in> set taken} \<subseteq> (\<lambda>j. prefix @ dec_text j) -` set taken" by auto
  moreover have "finite ((\<lambda>j. prefix @ dec_text j) -` set taken)" by (rule finite_vimageI) (auto simp: inj_def dec_text_inj)
  ultimately show ?thesis by (rule finite_subset)
qed

text \<open>The first number from \<open>i\<close> on that is free. The loop ends because only finitely many are taken.\<close>

function first_free :: "string list \<Rightarrow> string \<Rightarrow> nat \<Rightarrow> string" where
  "first_free taken prefix i = (if prefix @ dec_text i \<notin> set taken then prefix @ dec_text i else first_free taken prefix (i + 1))"
  by auto
termination
proof (relation "measure (\<lambda>(taken, prefix, i). card {j. i \<le> j \<and> prefix @ dec_text j \<in> set taken})")
  fix taken :: "string list" and prefix i
  assume t: "\<not> prefix @ dec_text i \<notin> set taken"
  have "{j. i + 1 \<le> j \<and> prefix @ dec_text j \<in> set taken} \<subset> {j. i \<le> j \<and> prefix @ dec_text j \<in> set taken}"
  proof (rule psubsetI)
    have "i \<in> {j. i \<le> j \<and> prefix @ dec_text j \<in> set taken}" using t by simp
    then show "{j. i + 1 \<le> j \<and> prefix @ dec_text j \<in> set taken} \<noteq> {j. i \<le> j \<and> prefix @ dec_text j \<in> set taken}" by (metis (mono_tags, lifting) mem_Collect_eq not_less_eq_eq order_refl Suc_eq_plus1)
  qed auto
  then show "((taken, prefix, i + 1), taken, prefix, i) \<in> measure (\<lambda>(taken, prefix, i). card {j. i \<le> j \<and> prefix @ dec_text j \<in> set taken})"
    using finite_numbers by (auto intro: psubset_card_mono)
qed simp

declare first_free.simps [simp del]

definition nextDeviceId :: "net_device list \<Rightarrow> device_kind \<Rightarrow> string" where
  "nextDeviceId devices kind = (let taken = map dv_id devices; prefix = ID_PREFIX kind; numbered = (kind = CardKind \<or> kind = PhoneKind) in
     if \<not> numbered \<and> prefix \<notin> set taken then prefix else first_free taken prefix (if numbered then 1 else 2))"

text \<open>\<open>None\<close> is an exception of the edit, for a route without a stop.\<close>

fun edit_devices :: "string \<Rightarrow> (net_device \<Rightarrow> net_device option) \<Rightarrow> net_device list \<Rightarrow> net_device list option" where
  "edit_devices k f [] = Some []"
| "edit_devices k f (d # ds) = (case (if dv_id d = k then f d else Some d) of None \<Rightarrow> None
     | Some d' \<Rightarrow> map_option ((#) d') (edit_devices k f ds))"

definition replaceDevice :: "net_config \<Rightarrow> string \<Rightarrow> (net_device \<Rightarrow> net_device option) \<Rightarrow> net_config option" where
  "replaceDevice cfg k f = map_option (\<lambda>ds. cfg\<lparr>nc_devices := ds\<rparr>) (edit_devices k f (nc_devices cfg))"

definition add_xy :: "rat \<times> rat \<Rightarrow> rat \<times> rat \<Rightarrow> rat \<times> rat" where
  "add_xy a b = (fst a + fst b, snd a + snd b)"

definition moved_device :: "(rat \<Rightarrow> rat) \<Rightarrow> geo_frame \<Rightarrow> rat \<times> rat \<Rightarrow> net_device \<Rightarrow> net_device option" where
  "moved_device cosine fr p d = (if dv_route d = Some [] then None else
     let base = toLocal cosine fr (case dv_route d of Some (r # _) \<Rightarrow> rs_place r | _ \<Rightarrow> dv_place d);
         shift = (\<lambda>g. toGeo cosine fr (add_xy (toLocal cosine fr g) (fst p - fst base, snd p - snd base)))
     in Some (d\<lparr>dv_place := shift (dv_place d), dv_route := map_option (map (\<lambda>r. r\<lparr>rs_place := shift (rs_place r)\<rparr>)) (dv_route d)\<rparr>))"

definition moveDevice :: "(rat \<Rightarrow> rat) \<Rightarrow> net_config \<Rightarrow> string \<Rightarrow> rat \<times> rat \<Rightarrow> net_config option" where
  "moveDevice cosine cfg k p = replaceDevice cfg k (moved_device cosine (nc_frame cfg) p)"

definition addDevice :: "(rat \<Rightarrow> rat) \<Rightarrow> net_config \<Rightarrow> device_kind \<Rightarrow> rat \<times> rat \<Rightarrow> net_config \<times> string" where
  "addDevice cosine cfg kind p = (let k = nextDeviceId (nc_devices cfg) kind in
     (cfg\<lparr>nc_devices := nc_devices cfg @ [\<lparr>dv_id = k, dv_kind = kind, dv_place = toGeo cosine (nc_frame cfg) p, dv_heightAglM = None, dv_label = None, dv_route = None\<rparr>]\<rparr>, k))"

text \<open>A patch: a field that is not in it stays; a field of it may be \<open>undefined\<close>, which removes it.\<close>

record device_patch =
  pa_label :: "string option option"
  pa_heightAglM :: "rat option option"
  pa_kind :: "device_kind option"

definition patched :: "'a option \<Rightarrow> 'a \<Rightarrow> 'a" where
  "patched new old = (case new of Some v \<Rightarrow> v | None \<Rightarrow> old)"

definition updateDevice :: "net_config \<Rightarrow> string \<Rightarrow> device_patch \<Rightarrow> net_config option" where
  "updateDevice cfg k patch = replaceDevice cfg k (\<lambda>d. let label = patched (pa_label patch) (dv_label d) in
     Some (d\<lparr>dv_kind := patched (pa_kind patch) (dv_kind d), dv_heightAglM := patched (pa_heightAglM patch) (dv_heightAglM d),
       dv_label := (if label = Some '''' then None else label)\<rparr>))"

definition setDeviceRoute :: "net_config \<Rightarrow> string \<Rightarrow> route_stop list option \<Rightarrow> net_config option" where
  "setDeviceRoute cfg k route = replaceDevice cfg k (\<lambda>d. case route of
     None \<Rightarrow> Some (d\<lparr>dv_route := None\<rparr>)
   | Some [] \<Rightarrow> None
   | Some (r # rs) \<Rightarrow> Some (d\<lparr>dv_route := Some (r # rs), dv_place := rs_place r\<rparr>))"

definition COPY_MARK :: string where "COPY_MARK = '' (copia)''"

text \<open>\<open>replace(/( \\(copia\\))+$/, "")\<close>\<close>

function strip_copies :: "string \<Rightarrow> string" where
  "strip_copies s = (if length COPY_MARK \<le> length s \<and> drop (length s - length COPY_MARK) s = COPY_MARK
     then strip_copies (take (length s - length COPY_MARK) s) else s)"
  by auto
termination by (relation "measure length") (auto simp: COPY_MARK_def)

declare strip_copies.simps [simp del]

definition clamp :: "rat \<Rightarrow> rat \<Rightarrow> rat" where
  "clamp limit x = max (- limit) (min limit x)"

definition shift_clamped :: "(rat \<Rightarrow> rat) \<Rightarrow> geo_frame \<Rightarrow> rat \<times> rat \<Rightarrow> rat \<times> rat \<Rightarrow> rat \<times> rat" where
  "shift_clamped cosine fr by_m g = (let g' = toGeo cosine fr (add_xy (toLocal cosine fr g) by_m) in (clamp 85 (fst g'), clamp 180 (snd g')))"

text \<open>The copy, and its id; \<open>None\<close> if there is no such device.\<close>

definition duplicateDevice :: "(rat \<Rightarrow> rat) \<Rightarrow> net_config \<Rightarrow> string \<Rightarrow> rat \<times> rat \<Rightarrow> (net_config \<times> string) option" where
  "duplicateDevice cosine cfg k by_m = (case find (\<lambda>d. dv_id d = k) (nc_devices cfg) of None \<Rightarrow> None
     | Some src \<Rightarrow> let nid = nextDeviceId (nc_devices cfg) (dv_kind src); shift = shift_clamped cosine (nc_frame cfg) by_m;
         twin = src\<lparr>dv_id := nid, dv_place := shift (dv_place src),
           dv_label := (case dv_label src of None \<Rightarrow> None | Some l \<Rightarrow> if l = '''' then Some l else Some (take 180 (strip_copies l) @ COPY_MARK)),
           dv_route := map_option (map (\<lambda>r. r\<lparr>rs_place := shift (rs_place r)\<rparr>)) (dv_route src)\<rparr>
       in Some (cfg\<lparr>nc_devices := nc_devices cfg @ [twin]\<rparr>, nid))"

definition removeDevice :: "net_config \<Rightarrow> string \<Rightarrow> net_config" where
  "removeDevice cfg k = cfg\<lparr>nc_devices := filter (\<lambda>d. dv_id d \<noteq> k) (nc_devices cfg)\<rparr>"

section \<open>What the window keeps\<close>

text \<open>The world's point under the cursor stays under it while the window zooms, and the scale stays within its limits.\<close>

theorem zoom_keeps_point:
  "screenToWorld (zoomAt v s factor) s = screenToWorld v s \<and> MIN_M_PER_PX \<le> vw_mPerPx (zoomAt v s factor) \<and> vw_mPerPx (zoomAt v s factor) \<le> MAX_M_PER_PX"
  by (simp add: zoomAt_def screenToWorld_def Let_def MIN_M_PER_PX_def MAX_M_PER_PX_def prod_eq_iff)

theorem screen_roundtrip:
  assumes "vw_mPerPx v \<noteq> 0"
  shows "worldToScreen v (screenToWorld v s) = s" and "screenToWorld v (worldToScreen v q) = q"
  using assms by (simp_all add: worldToScreen_def screenToWorld_def prod_eq_iff)

lemma foldl_bounds: "x \<in> set (b # bs) \<Longrightarrow> x \<le> foldl max b bs \<and> foldl min b bs \<le> x" for b :: rat
proof (induction bs arbitrary: b)
  case (Cons c bs)
  have base: "b \<le> foldl max b bs \<and> foldl min b bs \<le> b" for b :: rat
    by (induction bs arbitrary: b) (auto intro: order_trans[OF max.cobounded1] order_trans[OF _ min.cobounded1])
  from Cons.prems consider "x = b" | "x = c" | "x \<in> set (max b c # bs)" by auto
  then show ?case
    by cases (use base[of "max b c"] base[of "min b c"] Cons.IH[of "max b c"] Cons.IH[of "min b c"] Cons.prems in auto)
qed simp

text \<open>The window that is fitted to some points shows them all, unless that takes more metres for a pixel than there may be.\<close>

theorem fitted_view_shows_all:
  assumes "q \<in> set points" "0 < w" "0 < h" "0 \<le> margin" "margin < 1 / 2" "vw_mPerPx (fitView points w h margin minSpan) < MAX_M_PER_PX"
  defines "b \<equiv> viewBounds (fitView points w h margin minSpan)"
  shows "wb_minX b \<le> fst q \<and> fst q \<le> wb_maxX b \<and> wb_minY b \<le> snd q \<and> snd q \<le> wb_maxY b"
proof -
  let ?xs = "map fst points" and ?ys = "map snd points" and ?v = "fitView points w h margin minSpan"
  have ne: "points \<noteq> []" using assms(1) by auto
  define hx lx hy ly where "hx = foldl max (hd ?xs) (tl ?xs)" "lx = foldl min (hd ?xs) (tl ?xs)" "hy = foldl max (hd ?ys) (tl ?ys)" "ly = foldl min (hd ?ys) (tl ?ys)"
  have q: "lx \<le> fst q" "fst q \<le> hx" "ly \<le> snd q" "snd q \<le> hy"
    using foldl_bounds[of "fst q" "hd ?xs" "tl ?xs"] foldl_bounds[of "snd q" "hd ?ys" "tl ?ys"] assms(1) ne by (auto simp: hx_lx_hy_ly_def)
  define m where "m = vw_mPerPx ?v"
  define k where "k = 1 - 2 * margin"
  have k: "0 < k" "k \<le> 1" using assms(4,5) by (simp_all add: k_def)
  have fv: "?v = \<lparr>vw_cx = (hx + lx) / 2, vw_cy = (hy + ly) / 2, vw_mPerPx = min MAX_M_PER_PX (max MIN_M_PER_PX (max (max (hx - lx) minSpan / (w * k)) (max (hy - ly) minSpan / (h * k)))), vw_w = w, vw_h = h\<rparr>"
    unfolding fitView_def Let_def hx_lx_hy_ly_def k_def using ne by (rule if_not_P)
  have v: "vw_cx ?v = (hx + lx) / 2" "vw_cy ?v = (hy + ly) / 2" "vw_w ?v = w" "vw_h ?v = h"
    "m = min MAX_M_PER_PX (max MIN_M_PER_PX (max (max (hx - lx) minSpan / (w * k)) (max (hy - ly) minSpan / (h * k))))"
    unfolding m_def fv map_view.select_convs by (rule refl)+
  have m: "max (hx - lx) minSpan / (w * k) \<le> m" "max (hy - ly) minSpan / (h * k) \<le> m" "0 \<le> m"
  proof -
    have scale: "a \<le> n \<and> b \<le> n \<and> 0 \<le> n" if "n = min 2000 (max 1 (max a b))" "n < 2000" for n a b :: rat
      using that by (auto simp: min_def max_def split: if_split_asm)
    show "max (hx - lx) minSpan / (w * k) \<le> m" "max (hy - ly) minSpan / (h * k) \<le> m" "0 \<le> m"
      using scale[OF v(5)[unfolded MIN_M_PER_PX_def MAX_M_PER_PX_def]] assms(6)[folded m_def, unfolded MAX_M_PER_PX_def] by blast+
  qed
  have fits: "span \<le> side * m" if "max span minSpan / (side * k) \<le> m" "0 < side" for span side
  proof -
    have "max span minSpan \<le> m * (side * k)" using that k by (simp add: pos_divide_le_eq)
    also have "\<dots> \<le> m * side" using m(3) k that(2) by (intro mult_left_mono) (simp_all add: mult_left_le)
    finally show ?thesis by (simp add: mult.commute)
  qed
  have "hx - lx \<le> w * m" "hy - ly \<le> h * m" using fits m assms(2,3) by blast+
  moreover have "wb_minX b = (hx + lx) / 2 - w * m / 2" "wb_maxX b = (hx + lx) / 2 + w * m / 2" "wb_minY b = (hy + ly) / 2 - h * m / 2" "wb_maxY b = (hy + ly) / 2 + h * m / 2"
    by (simp_all add: b_def viewBounds_def Let_def screenToWorld_def v(1-4) m_def[symmetric] algebra_simps)
  moreover have "(a + c) / 2 - n / 2 \<le> x \<and> x \<le> (a + c) / 2 + n / 2" if "a - c \<le> n" "c \<le> x" "x \<le> a" for a c n x :: rat
    using that by (simp add: field_simps)
  ultimately show ?thesis using q by metis
qed

section \<open>What the edits keep\<close>

lemma first_free_new: "first_free taken prefix i \<notin> set taken"
proof (induction taken prefix i rule: first_free.induct)
  case (1 taken prefix i)
  then show ?case by (cases "prefix @ dec_text i \<in> set taken") (subst first_free.simps, simp)+
qed

lemma next_id_new: "nextDeviceId ds kind \<notin> dv_id ` set ds"
  using first_free_new[of "map dv_id ds" "ID_PREFIX kind"] by (auto simp: nextDeviceId_def Let_def)

lemma edit_ids:
  assumes "edit_devices k f ds = Some ds'" "\<And>d d'. f d = Some d' \<Longrightarrow> dv_id d' = dv_id d"
  shows "map dv_id ds' = map dv_id ds"
  using assms(1)
proof (induction ds arbitrary: ds')
  case (Cons d ds)
  then show ?case using assms(2)[of d] by (auto split: option.splits if_split_asm)
qed simp

datatype edit = MoveEdit string "rat \<times> rat" | AddEdit device_kind "rat \<times> rat" | UpdateEdit string device_patch | RouteEdit string "route_stop list option"
  | DuplicateEdit string "rat \<times> rat" | RemoveEdit string

text \<open>An edit of the tool; one that fails leaves the network as it is.\<close>

definition edit_step :: "(rat \<Rightarrow> rat) \<Rightarrow> edit \<Rightarrow> net_config \<Rightarrow> net_config" where
  "edit_step cosine e cfg = (case e of
     MoveEdit k p \<Rightarrow> (case moveDevice cosine cfg k p of Some c \<Rightarrow> c | None \<Rightarrow> cfg)
   | AddEdit kind p \<Rightarrow> fst (addDevice cosine cfg kind p)
   | UpdateEdit k patch \<Rightarrow> (case updateDevice cfg k patch of Some c \<Rightarrow> c | None \<Rightarrow> cfg)
   | RouteEdit k route \<Rightarrow> (case setDeviceRoute cfg k route of Some c \<Rightarrow> c | None \<Rightarrow> cfg)
   | DuplicateEdit k by_m \<Rightarrow> (case duplicateDevice cosine cfg k by_m of Some (c, _) \<Rightarrow> c | None \<Rightarrow> cfg)
   | RemoveEdit k \<Rightarrow> removeDevice cfg k)"

lemma replace_ids:
  assumes "replaceDevice cfg k f = Some cfg'" "\<And>d d'. f d = Some d' \<Longrightarrow> dv_id d' = dv_id d"
  shows "map dv_id (nc_devices cfg') = map dv_id (nc_devices cfg)"
  using assms edit_ids[of k f] by (auto simp: replaceDevice_def)

lemma edit_keeps_ids:
  assumes "distinct (map dv_id (nc_devices cfg))"
  shows "distinct (map dv_id (nc_devices (edit_step cosine e cfg)))"
proof (cases e)
  case (MoveEdit k p)
  have "moved_device cosine fr p d = Some d' \<Longrightarrow> dv_id d' = dv_id d" for fr d d' by (auto simp: moved_device_def Let_def split: if_split_asm)
  then show ?thesis using MoveEdit assms replace_ids[of cfg k "moved_device cosine (nc_frame cfg) p"] by (auto simp: edit_step_def moveDevice_def split: option.split)
next
  case (AddEdit kind p)
  then show ?thesis using assms next_id_new[of "nc_devices cfg" kind] by (auto simp: edit_step_def addDevice_def Let_def)
next
  case (UpdateEdit k patch)
  then show ?thesis using assms unfolding edit_step_def updateDevice_def by (auto simp: Let_def split: option.split dest!: replace_ids)
next
  case (RouteEdit k route)
  then show ?thesis using assms unfolding edit_step_def setDeviceRoute_def by (auto split: option.splits list.splits dest!: replace_ids)
next
  case (DuplicateEdit k by_m)
  then show ?thesis using assms next_id_new[of "nc_devices cfg"] by (auto simp: edit_step_def duplicateDevice_def Let_def split: option.split)
next
  case (RemoveEdit k)
  then show ?thesis using assms by (simp add: edit_step_def removeDevice_def distinct_map_filter)
qed

text \<open>Whatever is edited, in any order, no two devices get the same id.\<close>

theorem edits_keep_ids_distinct:
  assumes "distinct (map dv_id (nc_devices cfg))"
  shows "distinct (map dv_id (nc_devices (fold (edit_step cosine) edits cfg)))"
  using assms by (induction edits arbitrary: cfg) (simp_all add: edit_keeps_ids)

lemma local_roundtrip:
  assumes "cosine (fr_lat0 fr) \<noteq> 0"
  shows "toLocal cosine fr (toGeo cosine fr p) = p" "toGeo cosine fr (toLocal cosine fr g) = g"
  using assms by (simp_all add: toLocal_def toGeo_def M_PER_DEG_LAT_def M_PER_DEG_LON_EQUATOR_def prod_eq_iff field_simps)

text \<open>A device that is moved is where it was dropped, and its place and all stops of its route keep their distances.\<close>

theorem move_is_rigid:
  assumes "cosine (fr_lat0 fr) \<noteq> 0" "moved_device cosine fr p d = Some d'"
  shows "toLocal cosine fr (case dv_route d' of Some (r # _) \<Rightarrow> rs_place r | _ \<Rightarrow> dv_place d') = p \<and>
    (\<exists>by_m. toLocal cosine fr (dv_place d') = add_xy (toLocal cosine fr (dv_place d)) by_m \<and>
      map_option (map (\<lambda>r. (rs_tS r, toLocal cosine fr (rs_place r)))) (dv_route d') =
      map_option (map (\<lambda>r. (rs_tS r, add_xy (toLocal cosine fr (rs_place r)) by_m))) (dv_route d))"
proof -
  define base where "base = toLocal cosine fr (case dv_route d of Some (r # _) \<Rightarrow> rs_place r | _ \<Rightarrow> dv_place d)"
  define by_m where "by_m = (fst p - fst base, snd p - snd base)"
  define shift where "shift g = toGeo cosine fr (add_xy (toLocal cosine fr g) by_m)" for g
  have d': "d' = d\<lparr>dv_place := shift (dv_place d), dv_route := map_option (map (\<lambda>r. r\<lparr>rs_place := shift (rs_place r)\<rparr>)) (dv_route d)\<rparr>"
    using assms(2) by (auto simp: moved_device_def Let_def shift_def by_m_def base_def split: if_split_asm)
  have s: "toLocal cosine fr (shift g) = add_xy (toLocal cosine fr g) by_m" for g by (simp add: shift_def local_roundtrip(1)[where cosine = cosine, OF assms(1)])
  have "add_xy base by_m = p" by (simp add: add_xy_def by_m_def)
  then have "toLocal cosine fr (case dv_route d' of Some (r # _) \<Rightarrow> rs_place r | _ \<Rightarrow> dv_place d') = p"
    by (auto simp: d' s base_def split: option.split list.split)
  moreover have "map_option (map (\<lambda>r. (rs_tS r, toLocal cosine fr (rs_place r)))) (dv_route d') =
      map_option (map (\<lambda>r. (rs_tS r, add_xy (toLocal cosine fr (rs_place r)) by_m))) (dv_route d)"
    by (cases "dv_route d") (simp_all add: d' s)
  ultimately show ?thesis by (intro conjI exI[of _ by_m]) (simp_all add: d' s)
qed

end
