(* ===== verification/Spec2Isabelle.thy ===== *)
theory Spec2Isabelle
  imports BoundedMap Trust Packet Routing RateLimit StoreForward Content Assembler Directories Messages Registries
    ExternalDelivery ContentFetch Capacities NodeMesh NodeContent Node NodeSend NodeRuns NodeProps NodeCommands NodeDelivery
    UnionFind HopSearch Resilience ResilienceState ResilienceReport ResilienceArrivals ResilienceFailures ResilienceScore
    Galois ReedSolomon QrData QrMatrix QrGrid QrRoom QrFormat QrReader
    SerialFrames LinkFragments LinkTransport PairingFragments DropQueue MobileRelay PhoneSos AddressText AuthThrottle UrlSafety TcpTransport
    CommandPoller HttpBody Discovery PhoneRadio DeliveryRelays SmtpText Smtp PortableConfig LocalPortal GeoTile History
    RadioChips BridgeClient LoraRadio LoraPeers RadioModel ShortestPaths Simulator SimulatorRuns TileCache NetworkEditor
begin

text \<open>
  A verification development for ARALD, a mesh of nodes that relay packets, share content and carry messages without an
  infrastructure. The program's own core is the node (\<open>node/src\<close>); around it the development models its transports and radio drivers, the
  telephone, the relays and services outside the mesh that it talks to, the resilience analysis and the simulation of the network design tool
  (\<open>tools/scenario-model\<close>) and the QR encoder of the pairing page.

  \<^bold>\<open>Data and conventions.\<close> \<open>Prelude\<close> holds the values that arrive from the network: a JSON value is a \<open>jsval\<close> with checked
  projections, a JavaScript number a finite rational, an infinity or NaN (\<open>num\<close>), a \<open>Map\<close> an association list that keeps
  insertion order (\<open>jsmap\<close>), an exception the left side of a sum. Rationals are exact where the code computes with doubles;
  the operations of the node only add, compare and floor numbers far below the precision of a double. A string is a list of
  characters; where the code measures bytes it is the UTF-8 form. Time (\<open>Date.now()\<close>), randomness, cryptography
  (signatures, ciphers, hashes), compression and the delivery of a frame to a connected peer are arguments: the record \<open>env\<close> and
  the functions the definitions take. Nothing is assumed of them but what a theorem states.

  \<^bold>\<open>The parts of the node.\<close>
  \<^item> \<open>BoundedMap\<close> (\<open>bounded-map.ts\<close>): the size-limited map on which nearly every store rests, with the victim its eviction picks.
    Its locale states what a client may rely on; the stores interpret it.
  \<^item> \<open>Trust\<close> (\<open>trust.ts\<close>): trust levels and the bounded trust table.
  \<^item> \<open>Packet\<close> (\<open>packet.ts\<close>, \<open>priority-queue.ts\<close>): packets, their wire form and the priority queue, refined to a stable sort.
  \<^item> \<open>Routing\<close> (\<open>routing.ts\<close>, \<open>routing-table.ts\<close>), \<open>RateLimit\<close> (\<open>rate-limit.ts\<close>, \<open>relay-policy.ts\<close>), \<open>StoreForward\<close>
    (\<open>store-and-forward.ts\<close>): duplicate suppression, next hops, packet budgets and the queue of parked packets.
  \<^item> \<open>Content\<close>, \<open>Assembler\<close> (\<open>content.ts\<close>), \<open>ContentFetch\<close> (the transfer of \<open>node.ts\<close>): the content-addressed store, chunks and their
    reassembly, and ranges of chunks handed to several providers.
  \<^item> \<open>Directories\<close> (\<open>catalog.ts\<close>, \<open>peer-directory.ts\<close>, \<open>service.ts\<close>, \<open>service-directory.ts\<close>, \<open>peer.ts\<close>), \<open>Messages\<close>
    (\<open>message-history.ts\<close>, \<open>public-channels.ts\<close>, \<open>groups.ts\<close>), \<open>Registries\<close> (\<open>drops.ts\<close>, \<open>location-registry.ts\<close>,
    \<open>emergency-beacon.ts\<close>, \<open>node-appends.ts\<close>, \<open>relay-registry.ts\<close>), \<open>ExternalDelivery\<close> (\<open>external-delivery.ts\<close>): what a node knows of others.
    \<open>Capacities\<close>: no operation of a store changes the limit it was created with.
  \<^item> \<open>NodeMesh\<close>, \<open>NodeContent\<close>, \<open>Node\<close>: \<open>NomadNode\<close> of \<open>node.ts\<close> in three layers, each a record that extends the one below. \<open>NodeMesh\<close>
    sends, floods, parks and retries packets and keeps routes and identities; \<open>NodeContent\<close> answers and drives content requests
    and accepts announcements; \<open>Node\<close> dispatches every incoming packet (\<open>handlePacket\<close>), connects and disconnects peers and takes the
    submissions of the HTTP interface. A handler is a function from the node and the packet to the node; the frames it sends,
    the promises it settles and the events it emits are fields of the record. \<open>NodeSend\<close> is what the application asks of a node,
    \<open>NodeRuns\<close> the runs in which all of it happens in any order, \<open>NodeDelivery\<close> several nodes together.

  \<^bold>\<open>What is shown of the node.\<close> Each store keeps its well-formedness and its bound under every operation (\<open>..._ok\<close> lemmas), and does
  what it promises: eviction order, expiry, replay and freshness rules. The invariant of the whole node is proved for the
  constructor and every event (\<open>Node\<close>). It is relative to a \<open>ledger\<close>: the identities known to be trusted, the content known to be found, and the limits the stores
  were created with; a step preserves it for every ledger in which the statements of its own packet are written down, so that what an event adds to the trust of a node is traced to that event. It
  gives, for every run of a fresh node, that stores hold only authentic entries, that a node is raised to VERIFIED only by an event that carries, or completes the transfer of, a statement signed by
  that very node, and that every store stays within the limit it was created with (\<open>NodeProps\<close>); \<open>NodeCommands\<close> shows what replays of signed
  commands can and cannot do; \<open>NodeDelivery\<close> follows a private message through any number of relays.

  \<^bold>\<open>Transports and radio.\<close> A transport is a state that the runtime's reports change in any order; what it does to the outside is its list
  of events.
  \<^item> \<open>SerialFrames\<close> (\<open>sx127x-bridge-protocol.ts\<close>, \<open>sx126x-bridge-protocol.ts\<close>): frames over a serial line and their reader, for every cut of the
    stream. \<open>LinkFragments\<close>, \<open>LinkTransport\<close> (\<open>simulated-link.ts\<close>): fragments, their reassembly under loss of order and interleaving, and connections.
    \<open>PairingFragments\<close>: the same over Bluetooth in the telephone and the hub. \<open>TcpTransport\<close> (\<open>tcp.ts\<close>): sockets, queues of sends, lines, stopping. A peer that names itself
    with the empty string is known to both transports only half; what is shown of the peers leaves it out, and says so.
  \<^item> \<open>RadioChips\<close> (\<open>sx127x-registers.ts\<close>, \<open>sx126x-commands.ts\<close>): the bytes the chips take. \<open>BridgeClient\<close>, \<open>LoraRadio\<close>, \<open>LoraPeers\<close>
    (\<open>lora-serial.ts\<close>, \<open>lora-serial-sx1262.ts\<close>): the two clients with one command at work, which for the SX126x is a command with all its retries, the procedures over a radio that is an argument
    (what they send, that they end, in which mode they leave the chip), and the single connection.

  \<^bold>\<open>The telephone.\<close> \<open>DropQueue\<close>, \<open>PhoneSos\<close> (\<open>drop-queue.js\<close>, \<open>sos-queue.js\<close>): what waits in the telephone's storage is published once or still there.
  \<open>MobileRelay\<close> (\<open>ble-relay.js\<close>): the telephone decides and queues as the node does, by simulation. \<open>PhoneRadio\<close> (\<open>ble-role-manager.js\<close>): the roles of
  its radio.

  \<^bold>\<open>Around the node.\<close> \<open>AddressText\<close>, \<open>AuthThrottle\<close>, \<open>UrlSafety\<close>: spellings of addresses, the limit on wrong passwords, which URLs are public.
  \<open>HttpBody\<close>: the body of a request within its limit. \<open>CommandPoller\<close> (\<open>arald-backend\<close>): commands queued for a Box and their delivery.
  \<open>Discovery\<close>: the directory outside the mesh. \<open>DeliveryRelays\<close>, \<open>SmtpText\<close>, \<open>Smtp\<close>: the relays of external deliveries, and a mail from its text to the
  conversation with the server. \<open>PortableConfig\<close>: the configuration file under racing launches. \<open>LocalPortal\<close>: static files and the injected address.
  \<open>GeoTile\<close>, \<open>TileCache\<close> (\<open>tools\<close>): terrain tiles and their store on disk, of which memory and directory stay within their limits. \<open>NetworkEditor\<close>,
  \<open>History\<close>: the window on the map and the edits of a network, which keep ids distinct and move devices rigidly; undo and redo.

  \<^bold>\<open>Resilience analysis.\<close> \<open>UnionFind\<close> and \<open>HopSearch\<close> are the two loops it rests on: union-find with path halving decides connectivity
  (and never loops: \<open>uf_find\<close> is a partial function whose termination is a theorem), and the breadth-first search computes lengths of
  shortest walks. \<open>Resilience\<close> holds the network, the geometry of areas and the state computation, \<open>ResilienceReport\<close> the reports and the
  score, \<open>ResilienceState\<close>, \<open>ResilienceArrivals\<close>, \<open>ResilienceFailures\<close> and \<open>ResilienceScore\<close> their exactness, monotonicity, termination and
  bounds. The projection of coordinates, the re-evaluation of a radio link and the locale's order on strings are arguments.

  \<^bold>\<open>Radio model and simulation.\<close> (\<open>tools/scenario-model/model.ts\<close>) \<open>RadioModel\<close> holds the time on air, the frames that a band allows, the link budgets and
  the links of a moment; that a frame is the largest allowed, that a link is the same both ways and the fastest there is. \<open>ShortestPaths\<close> is the search for
  the cheapest ways, exact for costs that are not negative. \<open>Simulator\<close> moves messages over the links step by step; \<open>SimulatorRuns\<close> shows that a run ends, that
  it stays within the air time of the channel and the duty cycle of the nodes, and that its report of deliveries is true. The logarithm, the length of a vector
  and the loss along the terrain are arguments.

  \<^bold>\<open>QR codes.\<close> \<open>Galois\<close> and \<open>ReedSolomon\<close> show that the tables multiply in GF(256) and that every block has vanishing syndromes;
  \<open>QrData\<close> is the bit stream, blocks and interleaving; \<open>QrMatrix\<close> the matrix; \<open>QrGrid\<close> and \<open>QrRoom\<close> what the function patterns reserve and that
  the codewords fit; \<open>QrFormat\<close> the distance of the format words; \<open>QrReader\<close> a reader, and that it recovers every encoded text.

  \<^bold>\<open>Findings.\<close> Theorems such as \<open>content_substitution\<close>, \<open>replay_after_eviction\<close>, \<open>overlapping_retry_lost\<close>, \<open>late_start_splits\<close>,
  \<open>timed_out_transmit_stays_deaf\<close> or \<open>stale_timer_strikes_next\<close> show behaviour that contradicts what the code or a comment intends; the manifest
  lists each with its place. They are about the code as it is: a repair of the code makes them fail.

  \<^bold>\<open>Bounds and fuel.\<close> Nothing uses fuel. Loops are structural or have a termination proof with the function, except five that are a
  \<open>partial_function (option)\<close>: \<open>uf_find\<close>, total on every forest that arises; \<open>runPeriodicSync\<close>, which ends once it is aborted; \<open>await_tx\<close>
  and \<open>busy_retry\<close>, which end as soon as time passes during a sleep; \<open>sim_loop\<close>, which ends if a step has some length. For each that is a theorem.

  \<^bold>\<open>Not modelled.\<close> Input and output proper: the command lines, the HTTP routing with its HTML (\<open>web-ui.ts\<close>), the gateways to local services, the
  pages and databases of the portals, the hub's control of Docker and Wi-Fi, the Bluetooth stack and the user interface of the telephone, packaging and
  firmware. The profiles of the terrain and the preparation of map data compute with transcendental functions of doubles on raster data. The manifest lists them
  one by one.
\<close>

end
